(* ===== verification/Prelude.thy ===== *)
theory Prelude
  imports Main "HOL-Library.Monad_Syntax" "HOL-Library.Word" "HOL-Library.Multiset"
begin

text \<open>
  Shared vocabulary of the development.

  C values are modelled directly: a pointer that may be null is \<open>'a ptr\<close> (\<open>NULL\<close> is
  \<open>None\<close>), and a computation that may run into undefined behaviour (a null dereference or an
  access outside an object) has type \<open>'a ub\<close>, where \<open>UB\<close> (again \<open>None\<close>) is the undefined
  outcome, so that every theorem about a result also says that the code is defined there.
  A \<open>TAILQ\<close> of \<open>sys/queue.h\<close> is the list of its entries in order; the three list
  operations below are the shapes in which the code uses a search with \<open>TAILQ_FOREACH\<close>.
\<close>

named_theorems err_simps \<open>evaluation of the error-reporting conventions\<close>
named_theorems tailq_simps \<open>searching, removing and updating the first matching entry of a queue\<close>
named_theorems c_simps \<open>bounded accesses to C arrays and strings\<close>

type_synonym 'a ptr = "'a option"
type_synonym 'a ub = "'a option"

abbreviation NULL :: "'a ptr" where "NULL \<equiv> None"
abbreviation UB :: "'a ub" where "UB \<equiv> None"

section \<open>Queues of \<open>sys/queue.h\<close> searched by a predicate\<close>

fun tailq_remove_first :: "('a \<Rightarrow> bool) \<Rightarrow> 'a list \<Rightarrow> 'a list" where
  "tailq_remove_first p [] = []"
| "tailq_remove_first p (x # xs) = (if p x then xs else x # tailq_remove_first p xs)"

fun tailq_update_first :: "('a \<Rightarrow> bool) \<Rightarrow> ('a \<Rightarrow> 'a) \<Rightarrow> 'a list \<Rightarrow> 'a list" where
  "tailq_update_first p f [] = []"
| "tailq_update_first p f (x # xs) = (if p x then f x # xs else x # tailq_update_first p f xs)"

lemma find_append [tailq_simps]:
  "List.find p (xs @ ys) = (case List.find p xs of None \<Rightarrow> List.find p ys | Some x \<Rightarrow> Some x)"
  by (induction xs) auto

lemma find_SomeD: "List.find p xs = Some x \<Longrightarrow> x \<in> set xs \<and> p x"
  by (induction xs) (auto split: if_splits)

lemma find_None_filter: "List.find p xs = None \<longleftrightarrow> filter p xs = []"
  by (induction xs) auto

lemma tailq_remove_first_id [tailq_simps]:
  "List.find p xs = None \<Longrightarrow> tailq_remove_first p xs = xs"
  by (induction xs) (auto split: if_splits)

lemma set_tailq_remove_first: "set (tailq_remove_first p xs) \<subseteq> set xs"
  by (induction xs) auto

lemma all_tailq_remove_first: "\<forall>x\<in>set xs. P x \<Longrightarrow> \<forall>x\<in>set (tailq_remove_first p xs). P x"
  by (induction xs) auto

lemma length_tailq_remove_first:
  "List.find p xs \<noteq> None \<Longrightarrow> Suc (length (tailq_remove_first p xs)) = length xs"
  by (induction xs) auto

lemma distinct_tailq_remove_first:
  "distinct (map f xs) \<Longrightarrow> distinct (map f (tailq_remove_first p xs))"
proof (induction xs)
  case (Cons x xs)
  then show ?case using set_tailq_remove_first [of p xs] by auto
qed simp

lemma find_tailq_remove_first_same:
  "distinct (map f xs) \<Longrightarrow> List.find (\<lambda>x. f x = k) (tailq_remove_first (\<lambda>x. f x = k) xs) = None"
proof (induction xs)
  case (Cons x xs)
  then show ?case by (cases "f x = k") (auto simp: find_None_iff rev_image_eqI)
qed simp

lemma find_tailq_remove_first_other [tailq_simps]:
  "j \<noteq> k \<Longrightarrow> List.find (\<lambda>x. f x = j) (tailq_remove_first (\<lambda>x. f x = k) xs)
             = List.find (\<lambda>x. f x = j) xs"
  by (induction xs) auto

lemma mset_tailq_remove_first:
  "List.find p xs = Some x \<Longrightarrow> mset xs = add_mset x (mset (tailq_remove_first p xs))"
  by (induction xs) (auto split: if_splits)

lemma map_tailq_update_first:
  "(\<And>x. f (g x) = f x) \<Longrightarrow> map f (tailq_update_first p g xs) = map f xs"
  by (induction xs) auto

lemma find_tailq_update_first_same [tailq_simps]:
  "(\<And>x. f (g x) = f x) \<Longrightarrow>
   List.find (\<lambda>x. f x = k) (tailq_update_first (\<lambda>x. f x = k) g xs)
   = map_option g (List.find (\<lambda>x. f x = k) xs)"
  by (induction xs) auto

lemma find_tailq_update_first_other [tailq_simps]:
  "(\<And>x. f (g x) = f x) \<Longrightarrow> j \<noteq> k \<Longrightarrow>
   List.find (\<lambda>x. f x = j) (tailq_update_first (\<lambda>x. f x = k) g xs) = List.find (\<lambda>x. f x = j) xs"
  by (induction xs) auto

lemma tailq_update_first_id [tailq_simps]:
  "List.find p xs = None \<Longrightarrow> tailq_update_first p g xs = xs"
  by (induction xs) (auto split: if_splits)

lemma set_tailq_update_first:
  "set (tailq_update_first p g xs) \<subseteq> set xs \<union> g ` set xs"
  by (induction xs) auto

lemma all_tailq_update_first:
  "\<forall>x\<in>set xs. P x \<Longrightarrow> (\<And>x. x \<in> set xs \<Longrightarrow> p x \<Longrightarrow> P (g x)) \<Longrightarrow> \<forall>x\<in>set (tailq_update_first p g xs). P x"
  by (induction xs) auto

section \<open>Bounded accesses to arrays and strings\<close>

text \<open>The byte \<open>s[i]\<close> of a null-terminated string: defined up to and including the terminator.\<close>

definition NUL :: char where "NUL = CHR 0x00"

definition c_at :: "string \<Rightarrow> int \<Rightarrow> char ub" where
  "c_at s i = (if 0 \<le> i \<and> i < int (length s) then Some (s ! nat i)
               else if i = int (length s) then Some NUL else UB)"

text \<open>The cell \<open>a[i]\<close> of an array of known extent, read and written.\<close>

definition arr_get :: "'a list \<Rightarrow> int \<Rightarrow> 'a ub" where
  "arr_get a i = (if 0 \<le> i \<and> i < int (length a) then Some (a ! nat i) else UB)"

definition arr_set :: "'a list \<Rightarrow> int \<Rightarrow> 'a \<Rightarrow> 'a list ub" where
  "arr_set a i x = (if 0 \<le> i \<and> i < int (length a) then Some (a[nat i := x]) else UB)"

lemma c_at_nat [c_simps]: "i < length s \<Longrightarrow> c_at s (int i) = Some (s ! i)"
  by (simp add: c_at_def)

lemma c_at_end [c_simps]: "c_at s (int (length s)) = Some NUL"
  by (simp add: c_at_def)

lemma c_at_in:
  assumes "i \<le> length s"
  obtains c where "c_at s (int i) = Some c"
  using assms c_at_nat [of i s] c_at_end [of s] by (cases "i = length s") auto

lemma c_at_neg [c_simps]: "i < 0 \<Longrightarrow> c_at s i = UB"
  by (simp add: c_at_def)

lemma arr_get_nat [c_simps]: "i < length a \<Longrightarrow> arr_get a (int i) = Some (a ! i)"
  by (simp add: arr_get_def)

lemma arr_set_nat [c_simps]: "i < length a \<Longrightarrow> arr_set a (int i) x = Some (a[i := x])"
  by (simp add: arr_set_def)

text \<open>A segment \<open>s[b], ..., s[e - 1]\<close>.\<close>

definition segment :: "nat \<Rightarrow> nat \<Rightarrow> 'a list \<Rightarrow> 'a list" where
  "segment b e xs = take (e - b) (drop b xs)"

lemma length_segment [simp]: "length (segment b e xs) = min (e - b) (length xs - b)"
  by (simp add: segment_def min.commute)

lemma segment_all [simp]: "segment 0 (length xs) xs = xs"
  by (simp add: segment_def)

lemma set_segment: "set (segment b e xs) \<subseteq> set xs"
  by (auto simp: segment_def dest: in_set_takeD in_set_dropD)

lemma segment_Suc: "b \<le> e \<Longrightarrow> e < length xs \<Longrightarrow> segment b (Suc e) xs = segment b e xs @ [xs ! e]"
  by (simp add: segment_def Suc_diff_le take_Suc_conv_app_nth)

lemma segment_append_segment:
  assumes "b \<le> m" "m \<le> e"
  shows "segment b m xs @ segment m e xs = segment b e xs"
proof -
  have "e - b = (m - b) + (e - m)" and "drop m xs = drop (m - b) (drop b xs)"
    using assms by simp_all
  then show ?thesis by (simp only: segment_def take_add)
qed

section \<open>Decimal rendering, as \<open>printf\<close> does for \<open>%zu\<close>, \<open>%ld\<close> and \<open>%d\<close>\<close>

definition digit_char :: "nat \<Rightarrow> char" where
  "digit_char d = ''0123456789'' ! d"

fun dec_string :: "nat \<Rightarrow> string" where
  "dec_string n = (if n < 10 then [digit_char n] else dec_string (n div 10) @ [digit_char (n mod 10)])"

declare dec_string.simps [simp del]

definition dec_string_int :: "int \<Rightarrow> string" where
  "dec_string_int i = (if i < 0 then CHR ''-'' # dec_string (nat (- i)) else dec_string (nat i))"

lemma digit_char_digit: "d < 10 \<Longrightarrow> digit_char d \<in> set ''0123456789''"
  unfolding digit_char_def by (rule nth_mem) simp

definition digits :: string where "digits = ''0123456789''"

lemma set_dec_string: "set (dec_string n) \<subseteq> set digits"
proof (induction n rule: dec_string.induct)
  case (1 n)
  have d: "digit_char d \<in> set digits" if "d < 10" for d
    using that digit_char_digit [of d] by (simp only: digits_def)
  show ?case
  proof (cases "n < 10")
    case True
    then show ?thesis using d [of n] by (subst dec_string.simps) simp
  next
    case False
    then show ?thesis using d [of "n mod 10"] "1.IH" by (subst dec_string.simps) simp
  qed
qed

lemma dec_string_nonempty [simp]: "dec_string n \<noteq> []"
  by (subst dec_string.simps) simp

text \<open>Conversion of an integer to a narrower C type, as an assignment does it.\<close>

definition to_int32 :: "int \<Rightarrow> int" where
  "to_int32 i = sint (word_of_int i :: 32 word)"

definition to_int16 :: "int \<Rightarrow> int" where
  "to_int16 i = sint (word_of_int i :: 16 word)"

definition to_uint16 :: "int \<Rightarrow> int" where
  "to_uint16 i = uint (word_of_int i :: 16 word)"

lemma to_int32_id: "- (2 ^ 31) \<le> i \<Longrightarrow> i < 2 ^ 31 \<Longrightarrow> to_int32 i = i"
  by (simp add: to_int32_def sint_sbintrunc' signed_take_bit_int_eq_self)

section \<open>State machines run over a list of inputs\<close>

text \<open>
  Several components are deterministic machines whose step may be undefined. A client that
  relies on an invariant of the step uses this interface: if every input that satisfies the
  precondition leads from an invariant state to a defined invariant state, so does every run.
\<close>

fun run_inputs :: "('s \<Rightarrow> 'i \<Rightarrow> 's ub) \<Rightarrow> 's \<Rightarrow> 'i list \<Rightarrow> 's ub" where
  "run_inputs step s [] = Some s"
| "run_inputs step s (i # is) = (case step s i of None \<Rightarrow> UB | Some s' \<Rightarrow> run_inputs step s' is)"

text \<open>The precondition of every step holds where the step is taken.\<close>

fun run_pre :: "('s \<Rightarrow> 'i \<Rightarrow> 's ub) \<Rightarrow> ('s \<Rightarrow> 'i \<Rightarrow> bool) \<Rightarrow> 's \<Rightarrow> 'i list \<Rightarrow> bool" where
  "run_pre step pre s [] \<longleftrightarrow> True"
| "run_pre step pre s (i # is) \<longleftrightarrow> pre s i \<and> (case step s i of None \<Rightarrow> True | Some s' \<Rightarrow> run_pre step pre s' is)"

locale safe_machine =
  fixes step :: "'s \<Rightarrow> 'i \<Rightarrow> 's ub"
    and inv :: "'s \<Rightarrow> bool"
    and pre :: "'s \<Rightarrow> 'i \<Rightarrow> bool"
  assumes step_defined: "inv s \<Longrightarrow> pre s i \<Longrightarrow> \<exists>s'. step s i = Some s' \<and> inv s'"
begin

lemma run_defined:
  "inv s \<Longrightarrow> run_pre step pre s is \<Longrightarrow> \<exists>s'. run_inputs step s is = Some s' \<and> inv s'"
proof (induction "is" arbitrary: s)
  case Nil
  then show ?case by simp
next
  case (Cons i "is")
  then obtain s' where "step s i = Some s'" "inv s'" using step_defined by fastforce
  with Cons show ?case by simp
qed

end

text \<open>When a step is undefined wherever its precondition fails, the two agree.\<close>

locale exact_machine = safe_machine +
  assumes step_undefined: "inv s \<Longrightarrow> \<not> pre s i \<Longrightarrow> step s i = UB"
begin

lemma run_defined_iff: "inv s \<Longrightarrow> run_inputs step s is \<noteq> UB \<longleftrightarrow> run_pre step pre s is"
proof (induction "is" arbitrary: s)
  case Nil
  then show ?case by simp
next
  case (Cons i "is")
  show ?case
  proof (cases "pre s i")
    case True
    with Cons.prems obtain s' where "step s i = Some s'" "inv s'" using step_defined by blast
    with True Cons.IH show ?thesis by simp
  next
    case False
    then show ?thesis using step_undefined [OF Cons.prems] by simp
  qed
qed

end

lemma run_inputs_append:
  "run_inputs step s (is @ js) = (case run_inputs step s is of None \<Rightarrow> UB | Some s' \<Rightarrow> run_inputs step s' js)"
  by (induction "is" arbitrary: s) (auto split: option.splits)

section \<open>Postconditions of computations that may be undefined\<close>

definition ub_post :: "'a ub \<Rightarrow> ('a \<Rightarrow> bool) \<Rightarrow> bool" where
  "ub_post r P \<longleftrightarrow> (\<forall>x. r = Some x \<longrightarrow> P x)"

lemma ub_post_simps [simp]: "ub_post None P" "ub_post (Some x) P \<longleftrightarrow> P x"
  by (simp_all add: ub_post_def)

lemma ub_post_bind [simp]: "ub_post (Option.bind m f) P \<longleftrightarrow> ub_post m (\<lambda>x. ub_post (f x) P)"
  by (cases m) simp_all

lemma ub_postD: "ub_post r P \<Longrightarrow> r = Some x \<Longrightarrow> P x"
  by (simp add: ub_post_def)

lemma ub_post_conseq: "ub_post r P \<Longrightarrow> (\<And>x. r = Some x \<Longrightarrow> P x \<Longrightarrow> Q x) \<Longrightarrow> ub_post r Q"
  by (simp add: ub_post_def)

lemma ub_post_True [simp]: "ub_post r (\<lambda>x. True)"
  by (simp add: ub_post_def)

end
