(* ===== verification/Errors.thy ===== *)
theory Errors
  imports Prelude
begin

text \<open>
  \<open>server/include/error_t.h\<close> and the allocation and error helpers of \<open>server/src/lib/util.c\<close>:
  the error descriptor every server module reports through, and the checked allocator.
  An \<open>err_t *\<close> argument may be null; a report through a null pointer is dropped.
\<close>

datatype error_type = OK | NOT_FOUND | EXISTS | EMPTY | FATAL | ERRNO | OUT_OF_RANGE

record err_t =
  err_message :: string
  err_error :: error_type
  err_errno :: int

type_synonym err_ptr = "err_t ptr"

definition ERROR_SUCCESS_msg :: string where "ERROR_SUCCESS_msg = ''Success''"

text \<open>A fresh local \<open>err_t\<close>; the code always sets it before it reads it.\<close>

definition err_fresh :: err_t where
  "err_fresh = \<lparr>err_message = ERROR_SUCCESS_msg, err_error = OK, err_errno = 0\<rparr>"

definition set_err :: "error_type \<Rightarrow> string \<Rightarrow> err_t \<Rightarrow> err_t" where
  "set_err t msg e = e\<lparr>err_error := t, err_message := msg\<rparr>"

text \<open>\<open>if (error != NULL) { error->error = t; error->message = msg; }\<close>\<close>

definition err_report :: "error_type \<Rightarrow> string \<Rightarrow> err_ptr \<Rightarrow> err_ptr" where
  "err_report t msg p = (case p of NULL \<Rightarrow> NULL | Some e \<Rightarrow> Some (set_err t msg e))"

text \<open>The same with \<open>errno_value\<close>, for a failed system call.\<close>

definition err_report_errno :: "int \<Rightarrow> string \<Rightarrow> err_ptr \<Rightarrow> err_ptr" where
  "err_report_errno n msg p =
     (case p of NULL \<Rightarrow> NULL | Some e \<Rightarrow> Some ((set_err ERRNO msg e)\<lparr>err_errno := n\<rparr>))"

definition ERROR_SUCCESS :: "err_ptr \<Rightarrow> err_ptr" where
  "ERROR_SUCCESS p = err_report OK ERROR_SUCCESS_msg p"

text \<open>\<open>if (error != NULL) { *error = err; }\<close>\<close>

definition err_assign :: "err_t \<Rightarrow> err_ptr \<Rightarrow> err_ptr" where
  "err_assign e p = (case p of NULL \<Rightarrow> NULL | Some _ \<Rightarrow> Some e)"

text \<open>The test \<open>if (err.error)\<close>: only \<open>OK\<close> is zero.\<close>

definition failed :: "err_t \<Rightarrow> bool" where
  "failed e \<longleftrightarrow> err_error e \<noteq> OK"

definition UTIL_ERROR_ALLOCATED_MEMORY :: string where
  "UTIL_ERROR_ALLOCATED_MEMORY = ''Error allocated memory''"

text \<open>
  The checked allocator. Whether \<open>malloc\<close> succeeds is an argument; the block is zeroed, so the
  caller passes the zeroed object it asks for.
\<close>

definition s_malloc :: "bool \<Rightarrow> 'a \<Rightarrow> err_ptr \<Rightarrow> 'a ptr \<times> err_ptr" where
  "s_malloc mok obj error =
     (if \<not> mok then (NULL, err_report FATAL UTIL_ERROR_ALLOCATED_MEMORY error)
      else (Some obj, ERROR_SUCCESS error))"

fun errtostr :: "error_type \<Rightarrow> string" where
  "errtostr OK = ''OK''"
| "errtostr NOT_FOUND = ''NOT_FOUND''"
| "errtostr EXISTS = ''EXISTS''"
| "errtostr FATAL = ''FATAL''"
| "errtostr _ = ''ERROR''"

lemma set_err_simps [err_simps]:
  "err_error (set_err t m e) = t" "err_message (set_err t m e) = m" "err_errno (set_err t m e) = err_errno e"
  by (simp_all add: set_err_def)

lemma err_report_simps [err_simps]:
  "err_report t m NULL = NULL" "err_report t m (Some e) = Some (set_err t m e)"
  by (simp_all add: err_report_def)

lemma err_report_errno_simps [err_simps]:
  "err_report_errno n m NULL = NULL"
  "err_report_errno n m (Some e) = Some ((set_err ERRNO m e)\<lparr>err_errno := n\<rparr>)"
  by (simp_all add: err_report_errno_def)

lemma ERROR_SUCCESS_simps [err_simps]:
  "ERROR_SUCCESS NULL = NULL" "ERROR_SUCCESS (Some e) = Some (set_err OK ERROR_SUCCESS_msg e)"
  by (simp_all add: ERROR_SUCCESS_def err_report_def)

lemma err_assign_simps [err_simps]:
  "err_assign e NULL = NULL" "err_assign e (Some d) = Some e"
  by (simp_all add: err_assign_def)

lemma failed_simps [err_simps]:
  "failed (set_err t m e) \<longleftrightarrow> t \<noteq> OK" "\<not> failed err_fresh"
  by (simp_all add: failed_def set_err_def err_fresh_def)

lemma s_malloc_simps [err_simps]:
  "s_malloc True obj error = (Some obj, ERROR_SUCCESS error)"
  "s_malloc False obj error = (NULL, err_report FATAL UTIL_ERROR_ALLOCATED_MEMORY error)"
  by (simp_all add: s_malloc_def)

end
