(* ===== verification/Util.thy ===== *)
theory Util
  imports Errors
begin

text \<open>
  The string routines of \<open>server/src/lib/util.c\<close>. A C string argument is its contents; a
  destination buffer is the list of its cells, so that a store outside it is undefined. The
  cells of a fresh block are \<open>NUL\<close> here; every routine overwrites them before they are read.
\<close>

section \<open>Buffers\<close>

definition mem_write :: "string ptr \<Rightarrow> nat \<Rightarrow> string \<Rightarrow> string ptr ub" where
  "mem_write b off bs =
     (case b of
        NULL \<Rightarrow> UB
      | Some cells \<Rightarrow>
          if off + length bs \<le> length cells
          then Some (Some (take off cells @ bs @ drop (off + length bs) cells)) else UB)"

definition mem_alloc :: "nat \<Rightarrow> string ptr" where
  "mem_alloc n = Some (replicate n NUL)"

text \<open>The C string at the start of a buffer; reading an unterminated one is undefined.\<close>

definition c_str :: "string ptr \<Rightarrow> string ub" where
  "c_str b = (case b of NULL \<Rightarrow> UB
              | Some cells \<Rightarrow> if NUL \<in> set cells then Some (takeWhile (\<lambda>c. c \<noteq> NUL) cells) else UB)"

definition strcpy :: "string ptr \<Rightarrow> nat \<Rightarrow> string \<Rightarrow> string ptr ub" where
  "strcpy b off s = mem_write b off (s @ [NUL])"

text \<open>The contents of a C string contain no terminator.\<close>

definition c_string :: "string \<Rightarrow> bool" where
  "c_string s \<longleftrightarrow> NUL \<notin> set s"

lemma c_string_append [simp]: "c_string (s @ t) \<longleftrightarrow> c_string s \<and> c_string t"
  by (auto simp: c_string_def)

lemma c_string_Nil [simp]: "c_string []"
  by (simp add: c_string_def)

lemma c_string_Cons [simp]: "c_string (c # s) \<longleftrightarrow> c \<noteq> NUL \<and> c_string s"
  by (auto simp: c_string_def)

lemma c_string_concat: "(\<forall>s\<in>set ss. c_string s) \<Longrightarrow> c_string (concat ss)"
  by (induction ss) auto

lemma takeWhile_NUL: "c_string s \<Longrightarrow> takeWhile (\<lambda>c. c \<noteq> NUL) (s @ NUL # r) = s"
  by (induction s) auto

lemma c_str_terminated [c_simps]: "c_string s \<Longrightarrow> c_str (Some (s @ NUL # r)) = Some s"
  by (simp add: c_str_def takeWhile_NUL)

lemma c_str_prefix:
  assumes "take n b = s" "n < length b" "b ! n = NUL" "c_string s"
  shows "c_str (Some b) = Some s"
proof -
  have "b = s @ NUL # drop (Suc n) b" using assms(1-3) id_take_nth_drop by metis
  then show ?thesis using c_str_terminated [OF assms(4)] by metis
qed

lemma c_string_segment: "c_string s \<Longrightarrow> c_string (segment b e s)"
  using set_segment by (fastforce simp: c_string_def)

section \<open>\<open>trim_str\<close>\<close>

definition SPACE_SYMBOLS_CHECK :: "char \<Rightarrow> bool" where
  "SPACE_SYMBOLS_CHECK c \<longleftrightarrow> c = CHR '' '' \<or> c = CHR 0x0A \<or> c = CHR 0x0D \<or> c = CHR 0x09"

function trim_begin :: "string \<Rightarrow> nat \<Rightarrow> nat \<Rightarrow> nat ub" where
  "trim_begin src src_size b =
     (case c_at src (int b) of
        None \<Rightarrow> UB
      | Some c \<Rightarrow> if SPACE_SYMBOLS_CHECK c \<and> b < src_size then trim_begin src src_size (Suc b) else Some b)"
  by pat_completeness auto
termination by (relation "measure (\<lambda>(_, n, b). n - b)") auto

text \<open>
  The index runs down without a bound (the code tests \<open>begin >= 0\<close>, an unsigned value): past
  the start of the string the read is undefined.
\<close>

function trim_end :: "string \<Rightarrow> int \<Rightarrow> int ub" where
  "trim_end src e =
     (case c_at src e of
        None \<Rightarrow> UB
      | Some c \<Rightarrow> if SPACE_SYMBOLS_CHECK c then trim_end src (e - 1) else Some e)"
  by pat_completeness auto
termination
  by (relation "measure (\<lambda>(_, e). nat (e + 1))") (auto simp: c_at_def split: if_splits)

declare trim_begin.simps [simp del] trim_end.simps [simp del]

text \<open>\<open>if (*dst_size < new_size) { free(*dst); *dst = malloc(new_size); *dst_size = new_size; }\<close>\<close>

definition grow_buffer :: "bool \<Rightarrow> nat \<Rightarrow> string ptr \<Rightarrow> nat \<Rightarrow> string ptr \<times> nat" where
  "grow_buffer mok new_size b n =
     (if n < new_size then (if mok then mem_alloc new_size else NULL, new_size) else (b, n))"

definition trim_str :: "string \<Rightarrow> string ptr \<Rightarrow> nat \<Rightarrow> nat \<Rightarrow> (string ptr \<times> nat \<times> bool) ub" where
  "trim_str src dst src_size dst_size =
     do {
       b \<leftarrow> trim_begin src src_size 0;
       e0 \<leftarrow> trim_end src (int src_size - 1);
       let e = nat (e0 + 1);
       (if b < e then
          do {
            let new_size = e - b + 1;
            let (dst1, dst_size1) = grow_buffer True new_size dst dst_size;
            _ \<leftarrow> c_at src (int e);
            dst2 \<leftarrow> mem_write dst1 0 (segment b (e + 1) (src @ [NUL]));
            dst3 \<leftarrow> mem_write dst2 (new_size - 1) [NUL];
            Some (dst3, dst_size1, True)
          }
        else
          do {
            let (dst1, dst_size1) = grow_buffer True 1 dst dst_size;
            dst2 \<leftarrow> mem_write dst1 0 [NUL];
            Some (dst2, dst_size1, True)
          })
     }"

text \<open>The reference: the string without the blanks at both ends.\<close>

definition trimmed :: "string \<Rightarrow> string" where
  "trimmed s = rev (dropWhile SPACE_SYMBOLS_CHECK (rev (dropWhile SPACE_SYMBOLS_CHECK s)))"

lemma trimmed_subset: "set (trimmed s) \<subseteq> set s"
  unfolding trimmed_def by (metis set_dropWhileD set_rev subsetI)

lemma trim_begin_step:
  "b < length src \<Longrightarrow> length src \<le> n \<Longrightarrow>
   trim_begin src n b = (if SPACE_SYMBOLS_CHECK (src ! b) then trim_begin src n (Suc b) else Some b)"
  by (subst trim_begin.simps) (simp add: c_at_nat)

lemma trim_begin_run:
  "b \<le> length src \<Longrightarrow> trim_begin src (length src) b
     = Some (b + length (takeWhile SPACE_SYMBOLS_CHECK (drop b src)))"
proof (induction "length src - b" arbitrary: b)
  case 0
  then have b: "b = length src" by simp
  have "\<not> SPACE_SYMBOLS_CHECK NUL" by (simp add: SPACE_SYMBOLS_CHECK_def NUL_def)
  then show ?case unfolding b by (subst trim_begin.simps) (simp add: c_at_end)
next
  case (Suc k)
  then have b: "b < length src" by simp
  have d: "drop b src = src ! b # drop (Suc b) src" using b by (rule Cons_nth_drop_Suc [symmetric])
  show ?case
    using trim_begin_step [OF b, of "length src"] Suc.hyps(1) [of "Suc b"] Suc.hyps(2) b
    by (subst d) auto
qed

lemma trim_end_run:
  "n \<le> length src \<Longrightarrow>
   trim_end src (int n - 1) =
     (let t = dropWhile SPACE_SYMBOLS_CHECK (rev (take n src)) in if t = [] then UB else Some (int (length t) - 1))"
proof (induction n)
  case 0
  then show ?case by (subst trim_end.simps) (simp add: c_at_neg)
next
  case (Suc n)
  then have n: "n < length src" by simp
  have t: "rev (take (Suc n) src) = src ! n # rev (take n src)"
    using n by (simp add: take_Suc_conv_app_nth)
  have "int (Suc n) - 1 = int n" by simp
  moreover have "trim_end src (int n)
      = (if SPACE_SYMBOLS_CHECK (src ! n) then trim_end src (int n - 1) else Some (int n))"
    using n by (subst trim_end.simps) (simp add: c_at_nat)
  moreover have "length (rev (take n src)) = n" using n by simp
  ultimately show ?case using Suc.IH n t by (simp add: Let_def)
qed

lemma dropWhile_rev_Nil: "dropWhile P (rev s) = [] \<longleftrightarrow> (\<forall>c\<in>set s. P c)"
  by (simp add: dropWhile_eq_Nil_conv)

lemma rev_dropWhile_rev:
  "rev (dropWhile P (rev xs)) = take (length (dropWhile P (rev xs))) xs"
proof -
  have "xs = rev (takeWhile P (rev xs) @ dropWhile P (rev xs))" by simp
  then have "xs = rev (dropWhile P (rev xs)) @ rev (takeWhile P (rev xs))"
    by (metis rev_append)
  then show ?thesis by (metis append_eq_conv_conj length_rev)
qed

lemma trimmed_segment:
  assumes "\<exists>c\<in>set s. \<not> SPACE_SYMBOLS_CHECK c"
  defines "b \<equiv> length (takeWhile SPACE_SYMBOLS_CHECK s)"
  defines "e \<equiv> length (dropWhile SPACE_SYMBOLS_CHECK (rev s))"
  shows "trimmed s = segment b e s" "b < e" "e \<le> length s"
proof -
  have db: "dropWhile SPACE_SYMBOLS_CHECK s = drop b s" by (simp add: b_def dropWhile_eq_drop)
  have pre: "\<forall>c\<in>set (take b s). SPACE_SYMBOLS_CHECK c"
    unfolding b_def by (metis set_takeWhileD takeWhile_eq_take)
  show e: "e \<le> length s" unfolding e_def using length_dropWhile_le [of _ "rev s"] by simp
  have s: "rev s = rev (drop b s) @ rev (take b s)" by (simp flip: rev_append)
  have ex: "\<exists>c\<in>set (drop b s). \<not> SPACE_SYMBOLS_CHECK c"
    using assms(1) pre by (metis UnE append_take_drop_id set_append)
  then have de: "dropWhile SPACE_SYMBOLS_CHECK (rev s)
      = dropWhile SPACE_SYMBOLS_CHECK (rev (drop b s)) @ rev (take b s)"
    by (subst s) (auto simp: dropWhile_append1)
  have bl: "b \<le> length s" unfolding b_def by (rule length_takeWhile_le)
  have ne: "dropWhile SPACE_SYMBOLS_CHECK (rev (drop b s)) \<noteq> []"
    using ex by (simp add: dropWhile_eq_Nil_conv)
  have el: "e = length (dropWhile SPACE_SYMBOLS_CHECK (rev (drop b s))) + b"
    unfolding e_def using de bl by simp
  then show "b < e" using ne by simp
  have "rev (dropWhile SPACE_SYMBOLS_CHECK (rev (drop b s))) = take (e - b) (drop b s)"
    using el by (subst rev_dropWhile_rev) simp
  then show "trimmed s = segment b e s"
    by (simp add: trimmed_def db segment_def)
qed

text \<open>A reusable buffer: its recorded size is its size.\<close>

definition buf_ok :: "string ptr \<Rightarrow> nat \<Rightarrow> bool" where
  "buf_ok b n \<longleftrightarrow> (case b of NULL \<Rightarrow> n = 0 | Some cells \<Rightarrow> length cells = n)"

lemma mem_write_ok [c_simps]:
  "off + length bs \<le> length cells \<Longrightarrow>
   mem_write (Some cells) off bs = Some (Some (take off cells @ bs @ drop (off + length bs) cells))"
  by (simp add: mem_write_def)

lemma grown_buffer:
  assumes "buf_ok dst n" "0 < m"
  obtains cells where "grow_buffer True m dst n = (Some cells, length cells)" "m \<le> length cells"
proof (cases "n < m")
  case True
  then show ?thesis using that [of "replicate m NUL"] by (simp add: grow_buffer_def mem_alloc_def)
next
  case False
  then show ?thesis using assms that by (cases dst) (auto simp: grow_buffer_def buf_ok_def)
qed

lemma trim_str_run:
  assumes "\<exists>c\<in>set src. \<not> SPACE_SYMBOLS_CHECK c" "c_string src" "buf_ok dst n"
  shows "\<exists>d m. trim_str src dst (length src) n = Some (d, m, True) \<and> buf_ok d m \<and> c_str d = Some (trimmed src)"
proof -
  define b where "b = length (takeWhile SPACE_SYMBOLS_CHECK src)"
  define e where "e = length (dropWhile SPACE_SYMBOLS_CHECK (rev src))"
  have sl: "trimmed src = segment b e src" "b < e" "e \<le> length src"
    using trimmed_segment [OF assms(1)] by (simp_all add: b_def e_def)
  let ?m = "e - b + 1"
  have "0 < ?m" by simp
  with assms(3) obtain cells where
    g: "grow_buffer True ?m dst n = (Some cells, length cells)" "?m \<le> length cells"
    by (rule grown_buffer)
  have tb: "trim_begin src (length src) 0 = Some b" using trim_begin_run [of 0 src] by (simp add: b_def)
  have "dropWhile SPACE_SYMBOLS_CHECK (rev src) \<noteq> []" using assms(1) by (simp add: dropWhile_eq_Nil_conv)
  then have te: "trim_end src (int (length src) - 1) = Some (int e - 1)"
    using trim_end_run [of "length src" src] by (simp add: e_def Let_def)
  obtain c where c: "c_at src (int e) = Some c" using sl(3) by (cases "e = length src") (auto simp: c_simps)
  have len: "length (segment b (e + 1) (src @ [NUL])) = ?m" using sl by simp
  let ?c2 = "segment b (e + 1) (src @ [NUL]) @ drop ?m cells"
  let ?c3 = "segment b e src @ NUL # drop ?m cells"
  have w1: "mem_write (Some cells) 0 (segment b (e + 1) (src @ [NUL])) = Some (Some ?c2)"
    using len g(2) by (simp add: mem_write_def)
  have tk: "take (e - b) (segment b (e + 1) (src @ [NUL])) = segment b e src"
    using sl by (simp add: segment_def min_def Suc_diff_le le_SucI)
  have "take (?m - 1) ?c2 = segment b e src"
    by (simp only: take_append len tk) (simp add: tk [simplified])
  then have w2: "mem_write (Some ?c2) (?m - 1) [NUL] = Some (Some ?c3)"
    using len g(2) sl by (simp add: mem_write_def)
  have "length ?c3 = length cells" using sl g(2) by simp
  moreover have "c_str (Some ?c3) = Some (trimmed src)"
    using c_string_segment [OF assms(2)] by (simp add: sl(1) c_str_terminated)
  moreover have "trim_str src dst (length src) n = Some (Some ?c3, length cells, True)"
    unfolding trim_str_def tb te
    using sl(2) c w1 w2 g(1) by (simp add: Let_def)
  ultimately show ?thesis by (simp add: buf_ok_def)
qed

lemma trim_str_all_blank:
  assumes "\<forall>c\<in>set src. SPACE_SYMBOLS_CHECK c"
  shows "trim_str src dst (length src) n = UB"
proof -
  have "dropWhile SPACE_SYMBOLS_CHECK (rev src) = []" using assms by (simp add: dropWhile_eq_Nil_conv)
  then have "trim_end src (int (length src) - 1) = UB"
    using trim_end_run [of "length src" src] by (simp add: Let_def)
  then show ?thesis by (simp add: trim_str_def trim_begin_run)
qed

section \<open>\<open>sub_str\<close> and \<open>char_make_buf_concat\<close>\<close>

text \<open>The loop reads \<open>src[i]\<close> and writes \<open>dst[i - begin]\<close> for \<open>k\<close> more bytes.\<close>

fun sub_str_loop :: "string \<Rightarrow> string ptr \<Rightarrow> nat \<Rightarrow> nat \<Rightarrow> nat \<Rightarrow> string ptr ub" where
  "sub_str_loop src dst b i 0 = mem_write dst (i - b) [NUL]"
| "sub_str_loop src dst b i (Suc k) =
     do {
       c \<leftarrow> c_at src (int i);
       dst' \<leftarrow> mem_write dst (i - b) [c];
       sub_str_loop src dst' b (Suc i) k
     }"

definition sub_str :: "string \<Rightarrow> string ptr \<Rightarrow> nat \<Rightarrow> nat \<Rightarrow> string ptr ub" where
  "sub_str src dst b e = sub_str_loop src dst b b (e - b)"

lemma sub_str_loop_run:
  "b \<le> i \<Longrightarrow> i + k \<le> length src \<Longrightarrow> i - b + k < length cells \<Longrightarrow>
   sub_str_loop src (Some cells) b i k
     = Some (Some (take (i - b) cells @ segment i (i + k) src @ NUL # drop (i - b + k + 1) cells))"
proof (induction k arbitrary: i cells)
  case 0
  then show ?case by (simp add: mem_write_def segment_def)
next
  case (Suc k)
  have i: "i < length src" using Suc.prems by simp
  let ?c = "take (i - b) cells @ src ! i # drop (Suc (i - b)) cells"
  have w: "mem_write (Some cells) (i - b) [src ! i] = Some (Some ?c)"
    using Suc.prems by (simp add: mem_write_def)
  have l: "length ?c = length cells" using Suc.prems by simp
  have s: "segment i (i + Suc k) src = src ! i # segment (Suc i) (Suc i + k) src"
    using i by (simp add: segment_def flip: Cons_nth_drop_Suc)
  have d: "Suc i - b = Suc (i - b)" using Suc.prems(1) by simp
  have m: "min (length cells) (i - b) = i - b" using Suc.prems(3) by simp
  have t: "take (Suc i - b) ?c = take (i - b) cells @ [src ! i]"
    using m by (simp add: d)
  have dr: "drop (Suc i - b + k + 1) ?c = drop (i - b + Suc k + 1) cells"
    using m by (simp add: d add.commute)
  have "sub_str_loop src (Some ?c) b (Suc i) k
      = Some (Some (take (Suc i - b) ?c @ segment (Suc i) (Suc i + k) src @ NUL # drop (Suc i - b + k + 1) ?c))"
    using Suc.prems l by (intro Suc.IH) auto
  then show ?case unfolding t dr using i w s by (simp add: c_at_nat)
qed

lemma sub_str_run:
  assumes "b \<le> e" "e \<le> length src" "e - b < length cells"
  shows "sub_str src (Some cells) b e = Some (Some (segment b e src @ NUL # drop (e - b + 1) cells))"
  unfolding sub_str_def using sub_str_loop_run [of b b "e - b" src cells] assms by simp

text \<open>
  The arguments of the variadic function are a list of C strings; \<open>nargs\<close> is the number the
  caller claims. Asking for more than were passed, or for more than the fifty entries of
  \<open>size_array\<close>, is undefined.
\<close>

definition UTIL_MAX_NUMBER_OF_VARIANT_PARAMETERS :: nat where
  "UTIL_MAX_NUMBER_OF_VARIANT_PARAMETERS = 50"

fun concat_loop :: "string ptr \<Rightarrow> nat \<Rightarrow> string \<Rightarrow> string list \<Rightarrow> string ptr ub" where
  "concat_loop b offset prev [] = Some b"
| "concat_loop b offset prev (p # ps) =
     do {
       let offset' = offset + length prev;
       b' \<leftarrow> strcpy b offset' p;
       concat_loop b' offset' p ps
     }"

definition char_make_buf_concat ::
    "bool \<Rightarrow> string ptr \<Rightarrow> nat \<Rightarrow> nat \<Rightarrow> string list \<Rightarrow> (string ptr \<times> nat \<times> bool) ub" where
  "char_make_buf_concat mok buffer bsize nargs strs =
     (case strs of
        [] \<Rightarrow> UB
      | str # rest \<Rightarrow>
          if nargs > length strs \<or> nargs > UTIL_MAX_NUMBER_OF_VARIANT_PARAMETERS then UB
          else do {
            let args = take (nargs - 1) rest;
            let result_size = length str + sum_list (map length args) + 1;
            let (buffer1, bsize1) = grow_buffer mok result_size buffer bsize;
            (case buffer1 of
               NULL \<Rightarrow> Some (NULL, bsize1, False)
             | Some _ \<Rightarrow> do {
                 b1 \<leftarrow> strcpy buffer1 0 str;
                 b2 \<leftarrow> concat_loop b1 0 str args;
                 Some (b2, bsize1, True)
               })
          })"

lemma concat_loop_run:
  "offset + length prev + length (concat ps) < length cells \<Longrightarrow>
   cells ! (offset + length prev) = NUL \<Longrightarrow>
   \<exists>cells'. concat_loop (Some cells) offset prev ps = Some (Some cells') \<and> length cells' = length cells
     \<and> take (offset + length prev + length (concat ps)) cells' = take (offset + length prev) cells @ concat ps
     \<and> cells' ! (offset + length prev + length (concat ps)) = NUL"
proof (induction ps arbitrary: offset prev cells)
  case Nil
  then show ?case by simp
next
  case (Cons p ps)
  let ?o = "offset + length prev"
  let ?c = "take ?o cells @ (p @ [NUL]) @ drop (?o + length (p @ [NUL])) cells"
  have w: "strcpy (Some cells) ?o p = Some (Some ?c)"
    using Cons.prems(1) by (simp add: strcpy_def mem_write_def)
  have m: "min (length cells) ?o = ?o" using Cons.prems(1) by simp
  have l: "length ?c = length cells" using Cons.prems(1) by simp
  have nul: "?c ! (?o + length p) = NUL" using m by (simp add: nth_append)
  have tk: "take (?o + length p) ?c = take ?o cells @ p" using m by simp
  from Cons.prems(1) l have "?o + length p + length (concat ps) < length ?c" by simp
  from Cons.IH [OF this nul] obtain cells' where
    "concat_loop (Some ?c) ?o p ps = Some (Some cells')" "length cells' = length ?c"
    "take (?o + length p + length (concat ps)) cells' = take (?o + length p) ?c @ concat ps"
    "cells' ! (?o + length p + length (concat ps)) = NUL" by blast
  then show ?case using w l tk by (simp add: Let_def add.assoc)
qed

lemma char_make_buf_concat_run:
  assumes "buf_ok buffer n" "strs \<noteq> []" "length strs \<le> 50" "\<forall>s\<in>set strs. c_string s"
  shows "\<exists>d m. char_make_buf_concat True buffer n (length strs) strs = Some (d, m, True)
               \<and> buf_ok d m \<and> c_str d = Some (concat strs)"
proof -
  obtain str rest where s: "strs = str # rest" using assms(2) by (cases strs) auto
  let ?r = "length str + length (concat rest) + 1"
  have "0 < ?r" by simp
  with assms(1) obtain cells where
    g: "grow_buffer True ?r buffer n = (Some cells, length cells)" "?r \<le> length cells"
    by (rule grown_buffer)
  let ?c = "str @ NUL # drop (length str + 1) cells"
  have w: "strcpy (Some cells) 0 str = Some (Some ?c)" using g(2) by (simp add: strcpy_def mem_write_def)
  have l: "length ?c = length cells" using g(2) by simp
  have "0 + length str + length (concat rest) < length ?c" using l g(2) by simp
  from concat_loop_run [OF this] obtain cells' where
    c: "concat_loop (Some ?c) 0 str rest = Some (Some cells')" "length cells' = length cells"
    "take (length str + length (concat rest)) cells' = str @ concat rest"
    "cells' ! (length str + length (concat rest)) = NUL" using l by auto
  have cs: "c_str (Some cells') = Some (concat strs)"
    using c g(2) c_string_concat [OF assms(4)] by (intro c_str_prefix) (auto simp: s)
  have sz: "length str + sum_list (map length rest) + 1 = ?r" by (simp add: length_concat)
  have "char_make_buf_concat True buffer n (length strs) strs = Some (Some cells', length cells, True)"
    unfolding char_make_buf_concat_def s using assms(3) s
    by (simp only: list.case length_Cons diff_Suc_1 take_all order_refl if_True sz g(1) Let_def)
       (simp add: w c [simplified] UTIL_MAX_NUMBER_OF_VARIANT_PARAMETERS_def)
  then show ?thesis using cs c(2) by (simp add: buf_ok_def)
qed

section \<open>\<open>split_str\<close> and \<open>split_sub_str\<close>\<close>

definition UTIL_STR_END :: int where "UTIL_STR_END = - 1"

text \<open>
  The loop condition; with an explicit end it is \<open>i < num_split\<close> before the first iteration
  and \<open>i < num_split - 1\<close> afterwards. \<open>end\<close> is \<open>UTIL_STR_END\<close> or not negative.
\<close>

definition split_cond :: "string \<Rightarrow> int \<Rightarrow> nat \<Rightarrow> bool \<Rightarrow> nat \<Rightarrow> nat \<Rightarrow> bool ub" where
  "split_cond str fin num first i es =
     (if i < (if fin = UTIL_STR_END \<or> first then num else num - 1)
      then do {
        c \<leftarrow> c_at str (int es);
        Some (c \<noteq> NUL \<and> (fin = UTIL_STR_END \<or> int es < fin))
      }
      else Some False)"

function split_loop ::
    "string \<Rightarrow> int \<Rightarrow> nat \<Rightarrow> char \<Rightarrow> string ptr list \<Rightarrow> bool \<Rightarrow> nat \<Rightarrow> nat \<Rightarrow> nat \<Rightarrow> (string ptr list \<times> nat \<times> nat) ub" where
  "split_loop str fin num sep arr first i bs es =
     (case split_cond str fin num first i es of
        None \<Rightarrow> UB
      | Some False \<Rightarrow> Some (arr, i, bs)
      | Some True \<Rightarrow>
          (if c_at str (int es) = Some sep then
             (case sub_str str (mem_alloc (es - bs + 1)) bs es of
                None \<Rightarrow> UB
              | Some b \<Rightarrow>
                  (case arr_set arr (int i) b of
                     None \<Rightarrow> UB
                   | Some arr' \<Rightarrow> split_loop str fin num sep arr' False (Suc i) (Suc es) (Suc es)))
           else split_loop str fin num sep arr False i bs (Suc es)))"
  by pat_completeness auto
termination
  by (relation "measure (\<lambda>(str, _, _, _, _, _, _, _, es). Suc (length str) - es)")
     (auto simp: split_cond_def c_at_def bind_eq_Some_conv split: if_splits)

declare split_loop.simps [simp del]

definition split_sub_str ::
    "string ptr \<Rightarrow> int \<Rightarrow> int \<Rightarrow> string ptr list ptr \<Rightarrow> nat \<Rightarrow> char \<Rightarrow> (string ptr list ptr \<times> bool) ub" where
  "split_sub_str str b fin array_str num sep =
     (case (str, array_str) of
        (Some s, Some arr) \<Rightarrow>
          do {
            (arr1, i, bs) \<leftarrow> split_loop s fin num sep arr True 0 (nat b) (nat b);
            _ \<leftarrow> c_at s (int bs);
            let len = length (drop bs s) + 1;
            buf \<leftarrow> (if fin = UTIL_STR_END then strcpy (mem_alloc len) 0 (drop bs s)
                   else sub_str s (mem_alloc len) bs (nat fin));
            arr2 \<leftarrow> arr_set arr1 (int i) buf;
            Some (Some arr2, True)
          }
      | _ \<Rightarrow> Some (array_str, False))"

definition split_str :: "string ptr \<Rightarrow> string ptr list ptr \<Rightarrow> nat \<Rightarrow> char \<Rightarrow> (string ptr list ptr \<times> bool) ub" where
  "split_str str array_str num sep = split_sub_str str 0 UTIL_STR_END array_str num sep"

lemma split_cond_in:
  assumes "c_string str" "es < length str"
  shows "split_cond str fin num first i es =
     Some (i < (if fin = UTIL_STR_END \<or> first then num else num - 1) \<and> (fin = UTIL_STR_END \<or> int es < fin))"
proof -
  have "str ! es \<noteq> NUL" using assms nth_mem by (fastforce simp: c_string_def)
  then show ?thesis using assms by (simp add: split_cond_def c_at_nat)
qed

lemma split_cond_end: "split_cond str fin num first i (length str) = Some False"
  by (simp add: split_cond_def c_at_end)

text \<open>Running over characters that are not the separator only advances \<open>end_sub\<close>.\<close>

lemma split_loop_skip:
  assumes "c_string str" "es + k < length str" "\<forall>j<k. str ! (es + j) \<noteq> sep"
    "int (es + k) < fin \<or> fin = UTIL_STR_END" "Suc i < num" "1 \<le> k"
  shows "split_loop str fin num sep arr f i bs es = split_loop str fin num sep arr False i bs (es + k)"
  using assms
proof (induction k arbitrary: es f)
  case 0
  then show ?case by simp
next
  case (Suc k)
  have ne: "c_at str (int es) \<noteq> Some sep" using Suc.prems(2) Suc.prems(3) [rule_format, of 0] by (simp add: c_at_nat)
  have cond: "split_cond str fin num f i es = Some True"
    using Suc.prems by (subst split_cond_in) auto
  have step: "split_loop str fin num sep arr f i bs es = split_loop str fin num sep arr False i bs (Suc es)"
    using ne by (subst split_loop.simps) (simp add: cond)
  show ?case
  proof (cases "k = 0")
    case True
    then show ?thesis using step by simp
  next
    case False
    have "\<forall>j<k. str ! (Suc es + j) \<noteq> sep"
      using Suc.prems(3) [rule_format, of "Suc j" for j] by simp
    then have "split_loop str fin num sep arr False i bs (Suc es) = split_loop str fin num sep arr False i bs (Suc es + k)"
      using Suc.prems False by (intro Suc.IH) auto
    then show ?thesis using step by simp
  qed
qed

lemma c_str_sub_str:
  assumes "b \<le> e" "e \<le> length src" "e - b < n" "c_string src"
  obtains d where "sub_str src (mem_alloc n) b e = Some (Some d)" "c_str (Some d) = Some (segment b e src)"
  using sub_str_run [OF assms(1,2), of "replicate n NUL"] assms c_string_segment [OF assms(4)]
  by (auto simp: mem_alloc_def c_str_terminated)

text \<open>The use of \<open>split_sub_str\<close> in the mailbox parser: a range \<open>local @ domain\<close> in two.\<close>

lemma split_sub_str_pair:
  assumes "c_string str" "b \<le> m" "m < e" "e \<le> length str" "str ! m = sep" "\<forall>j. b \<le> j \<and> j < m \<longrightarrow> str ! j \<noteq> sep"
  shows "\<exists>d1 d2. split_sub_str (Some str) (int b) (int e) (Some [NULL, NULL]) 2 sep = Some (Some [Some d1, Some d2], True)
               \<and> c_str (Some d1) = Some (segment b m str) \<and> c_str (Some d2) = Some (segment (Suc m) e str)"
proof -
  have skip: "split_loop str (int e) 2 sep arr True 0 b b
      = (if m = b then split_loop str (int e) 2 sep arr True 0 b b else split_loop str (int e) 2 sep arr False 0 b m)" for arr
    using split_loop_skip [of str b "m - b" sep "int e" 0 2 arr True b] assms by auto
  obtain d1 where d1: "sub_str str (mem_alloc (m - b + 1)) b m = Some (Some d1)" "c_str (Some d1) = Some (segment b m str)"
    using c_str_sub_str [of b m str "m - b + 1"] assms by auto
  have cond: "split_cond str (int e) 2 f 0 m = Some True" for f
    using assms by (subst split_cond_in) auto
  have stop: "split_cond str (int e) 2 False 1 (Suc m) = Some False"
    by (simp add: split_cond_def UTIL_STR_END_def)
  have "split_loop str (int e) 2 sep [NULL, NULL] f 0 b m = Some ([Some d1, NULL], 1, Suc m)" for f
    using assms d1 cond
    by (subst split_loop.simps) (simp add: c_at_nat arr_set_def, subst split_loop.simps, simp add: stop [simplified])
  then have loop: "split_loop str (int e) 2 sep [NULL, NULL] True 0 b b = Some ([Some d1, NULL], 1, Suc m)"
    using skip [of "[NULL, NULL]"] by (auto split: if_splits)
  have l2: "e - Suc m < length (drop (Suc m) str) + 1" using assms(3,4) by simp
  obtain d2 where d2: "sub_str str (mem_alloc (length (drop (Suc m) str) + 1)) (Suc m) e = Some (Some d2)"
      "c_str (Some d2) = Some (segment (Suc m) e str)"
    using c_str_sub_str [OF _ assms(4) l2 assms(1)] assms(3) by auto
  obtain c where "c_at str (int (Suc m)) = Some c"
    using c_at_in [of "Suc m" str] assms(3,4) by auto
  then show ?thesis
    using loop d1(2) d2 by (simp add: split_sub_str_def Let_def UTIL_STR_END_def arr_set_def)
qed

text \<open>\<open>split_str\<close> writes a last piece after the loop whatever \<open>i\<close> is.\<close>

lemma split_loop_fills:
  assumes "c_string str"
  shows "es \<le> length str \<Longrightarrow> bs \<le> es \<Longrightarrow> length arr = num \<Longrightarrow> i \<le> num \<Longrightarrow>
    \<exists>arr' bs'. split_loop str UTIL_STR_END num sep arr f i bs es
        = Some (arr', min num (i + count_list (drop es str) sep), bs') \<and> bs' \<le> length str \<and> length arr' = num"
proof (induction "length str - es" arbitrary: arr f i bs es)
  case 0
  then have es: "es = length str" by simp
  have "split_loop str UTIL_STR_END num sep arr f i bs es = Some (arr, i, bs)"
    unfolding es by (subst split_loop.simps) (simp add: split_cond_end)
  then show ?case using 0 by (simp add: es)
next
  case (Suc k)
  then have es: "es < length str" by simp
  have d: "drop es str = str ! es # drop (Suc es) str" using es by (rule Cons_nth_drop_Suc [symmetric])
  have cond: "split_cond str UTIL_STR_END num f i es = Some (i < num)"
    using split_cond_in [OF assms es] by simp
  show ?case
  proof (cases "i < num")
    case False
    then show ?thesis using cond Suc.prems by (subst split_loop.simps) simp
  next
    case True
    obtain d' where d': "sub_str str (mem_alloc (es - bs + 1)) bs es = Some (Some d')"
      using c_str_sub_str [of bs es str "es - bs + 1"] assms Suc.prems es by auto
    show ?thesis
    proof (cases "str ! es = sep")
      case sep: True
      have a: "arr_set arr (int i) (Some d') = Some (arr[i := Some d'])"
        using True Suc.prems(3) by (simp add: arr_set_nat)
      have "\<exists>arr' bs'. split_loop str UTIL_STR_END num sep (arr[i := Some d']) False (Suc i) (Suc es) (Suc es)
          = Some (arr', min num (Suc i + count_list (drop (Suc es) str) sep), bs') \<and> bs' \<le> length str \<and> length arr' = num"
        using Suc.prems Suc.hyps(2) es True by (intro Suc.hyps(1)) auto
      then show ?thesis
        using cond True sep d' a es by (subst split_loop.simps) (simp add: c_at_nat d)
    next
      case nsep: False
      have "\<exists>arr' bs'. split_loop str UTIL_STR_END num sep arr False i bs (Suc es)
          = Some (arr', min num (i + count_list (drop (Suc es) str) sep), bs') \<and> bs' \<le> length str \<and> length arr' = num"
        using Suc.prems Suc.hyps(2) es True by (intro Suc.hyps(1)) auto
      then show ?thesis
        using cond True nsep es by (subst split_loop.simps) (simp add: c_at_nat d)
    qed
  qed
qed
text \<open>A string with \<open>num_split\<close> separators or more makes the last piece go past the array.\<close>

lemma split_str_overflows:
  assumes "c_string str" "length arr = num" "num \<le> count_list str sep"
  shows "split_str (Some str) (Some arr) num sep = UB"
proof -
  from split_loop_fills [OF assms(1), of 0 0 arr num 0 sep True] assms obtain arr' bs' where
    l: "split_loop str UTIL_STR_END num sep arr True 0 0 0 = Some (arr', num, bs')" "bs' \<le> length str" "length arr' = num"
    by (auto simp: min_def)
  have "arr_set arr' (int num) b = UB" for b using l(3) by (simp add: arr_set_def)
  then show ?thesis
    using l(1) by (simp add: split_str_def split_sub_str_def Let_def bind_eq_None_conv)
qed

section \<open>\<open>find_first_entry_str\<close> and its reverse\<close>

text \<open>
  The strings are arrays of the lengths the caller passes. \<open>k\<close> counts the remaining
  iterations; the result is the pair \<open>(i, seq_i)\<close> when the loop is left.
\<close>

fun find_first_loop :: "string \<Rightarrow> string \<Rightarrow> int \<Rightarrow> nat \<Rightarrow> int \<Rightarrow> int \<Rightarrow> (int \<times> int) ub" where
  "find_first_loop str sequence seq_len 0 i seq_i = Some (i, seq_i)"
| "find_first_loop str sequence seq_len (Suc k) i seq_i =
     do {
       c \<leftarrow> arr_get str i;
       d \<leftarrow> arr_get sequence seq_i;
       if c = d then
         (if seq_i + 1 = seq_len then Some (i, seq_i + 1)
          else find_first_loop str sequence seq_len k (i + 1) (seq_i + 1))
       else find_first_loop str sequence seq_len k (i + 1) 0
     }"

definition find_first_entry_str :: "string \<Rightarrow> string \<Rightarrow> int \<Rightarrow> int \<Rightarrow> int ub" where
  "find_first_entry_str str sequence str_len seq_len =
     (if seq_len > str_len then Some (- 1)
      else do {
        (i, seq_i) \<leftarrow> find_first_loop str sequence seq_len (nat str_len) 0 0;
        if seq_i = seq_len then Some (i - (seq_len - 1)) else Some (- 1)
      })"

fun find_revers_loop :: "string \<Rightarrow> string \<Rightarrow> int \<Rightarrow> nat \<Rightarrow> int \<Rightarrow> int \<Rightarrow> (int \<times> int) ub" where
  "find_revers_loop str sequence seq_len 0 i seq_i = Some (i, seq_i)"
| "find_revers_loop str sequence seq_len (Suc k) i seq_i =
     do {
       c \<leftarrow> arr_get str (i - 1);
       d \<leftarrow> arr_get sequence (seq_i - 1);
       if c = d then
         (if seq_i - 1 = 0 then Some (i, seq_i - 1)
          else find_revers_loop str sequence seq_len k (i - 1) (seq_i - 1))
       else find_revers_loop str sequence seq_len k (i - 1) seq_len
     }"

definition find_revers_first_entry_str :: "string \<Rightarrow> string \<Rightarrow> int \<Rightarrow> int \<Rightarrow> int ub" where
  "find_revers_first_entry_str str sequence str_len seq_len =
     (if seq_len > str_len then Some (- 1)
      else do {
        (i, seq_i) \<leftarrow> find_revers_loop str sequence seq_len (nat str_len) str_len seq_len;
        if seq_i = seq_len then Some (i + seq_len) else Some (- 1)
      })"

lemma find_first_loop_step:
  assumes "i < length str" "j < length sq"
  shows "find_first_loop str sq n (Suc k) (int i) (int j) =
    (if str ! i = sq ! j
     then (if int (Suc j) = n then Some (int i, n) else find_first_loop str sq n k (int (Suc i)) (int (Suc j)))
     else find_first_loop str sq n k (int (Suc i)) (int 0))"
  using assms by (auto simp: arr_get_nat add.commute)

definition occurs_at :: "string \<Rightarrow> nat \<Rightarrow> string \<Rightarrow> bool" where
  "occurs_at sq i str \<longleftrightarrow> i + length sq \<le> length str \<and> segment i (i + length sq) str = sq"

text \<open>The invariant: the last \<open>seq_i\<close> bytes before \<open>i\<close> are the first \<open>seq_i\<close> of the sequence.\<close>

lemma find_first_loop_sound:
  "j \<le> i \<Longrightarrow> j < length sq \<Longrightarrow> i + k = length str \<Longrightarrow> segment (i - j) i str = take j sq \<Longrightarrow>
   \<exists>r s. find_first_loop str sq (int (length sq)) k (int i) (int j) = Some (r, s) \<and>
     (s = int (length sq) \<longrightarrow> 0 \<le> r - (s - 1) \<and> occurs_at sq (nat (r - (s - 1))) str)"
proof (induction k arbitrary: i j)
  case 0
  then show ?case by simp
next
  case (Suc k)
  have i: "i < length str" using Suc.prems by simp
  have ne: "0 < length sq" using Suc.prems(2) by linarith
  note step = find_first_loop_step [OF i Suc.prems(2), of "int (length sq)" k]
  have sg: "segment (i - j) (Suc i) str = take (Suc j) sq" if "str ! i = sq ! j"
    using Suc.prems that by (subst segment_Suc) (simp_all add: take_Suc_conv_app_nth)
  consider "str ! i \<noteq> sq ! j" | "str ! i = sq ! j" "Suc j = length sq" | "str ! i = sq ! j" "Suc j < length sq"
    using Suc.prems(2) by linarith
  then show ?case
  proof cases
    case 1
    then show ?thesis
      unfolding step using Suc.IH [of 0 "Suc i"] Suc.prems(1,3) ne by (simp add: segment_def)
  next
    case 2
    have "int i - (int (length sq) - 1) = int (i - j)" using 2(2) Suc.prems(1) by simp
    moreover have "occurs_at sq (i - j) str"
      using sg [OF 2(1)] 2(2) Suc.prems by (auto simp: occurs_at_def)
    moreover have "nat (int i - int j) = i - j" by arith
    ultimately show ?thesis unfolding step using 2 by auto
  next
    case 3
    then show ?thesis
      unfolding step using Suc.IH [of "Suc j" "Suc i"] Suc.prems sg by simp
  qed
qed

lemma find_first_entry_sound:
  assumes "sq \<noteq> []"
  shows "\<exists>r. find_first_entry_str str sq (int (length str)) (int (length sq)) = Some r \<and>
           (r = - 1 \<or> 0 \<le> r \<and> occurs_at sq (nat r) str)"
  using find_first_loop_sound [of 0 0 sq "length str" str] assms
  by (auto simp: find_first_entry_str_def segment_def)
text \<open>
  After a mismatch the byte is not compared again with the start of the sequence, so an
  occurrence can be overlooked. For the line end it is found unless a CR precedes it.
\<close>

definition SMTP_COMMAND_END :: string where
  "SMTP_COMMAND_END = [CHR 0x0D, CHR 0x0A]"

definition no_cr_cr :: "string \<Rightarrow> bool" where
  "no_cr_cr s \<longleftrightarrow> (\<forall>i < length s. Suc i < length s \<longrightarrow> s ! i = CHR 0x0D \<longrightarrow> s ! Suc i \<noteq> CHR 0x0D)"

lemma occurs_at_crlf:
  "occurs_at SMTP_COMMAND_END i s \<longleftrightarrow> Suc i < length s \<and> s ! i = CHR 0x0D \<and> s ! Suc i = CHR 0x0A"
proof (cases "Suc i < length s")
  case True
  then have "segment i (i + 2) s = [s ! i, s ! Suc i]"
    by (simp add: segment_def numeral_2_eq_2 flip: Cons_nth_drop_Suc)
  then show ?thesis using True by (auto simp: occurs_at_def SMTP_COMMAND_END_def)
qed (auto simp: occurs_at_def SMTP_COMMAND_END_def)

lemma find_first_loop_crlf:
  assumes "no_cr_cr s"
  shows "i + k = length s \<Longrightarrow> j \<le> 1 \<Longrightarrow> j \<le> i \<Longrightarrow> (0 < i \<longrightarrow> (s ! (i - 1) = CHR 0x0D) = (j = 1)) \<Longrightarrow>
    (\<forall>l. Suc l < i \<longrightarrow> \<not> occurs_at SMTP_COMMAND_END l s) \<Longrightarrow>
    \<exists>r t. find_first_loop s SMTP_COMMAND_END 2 k (int i) (int j) = Some (r, t) \<and> 0 \<le> r \<and> r \<le> int (length s) \<and>
      (if t = 2 then 1 \<le> r \<and> (\<forall>l. l < nat (r - 1) \<longrightarrow> \<not> occurs_at SMTP_COMMAND_END l s)
       else (\<forall>l. \<not> occurs_at SMTP_COMMAND_END l s))"
proof (induction k arbitrary: i j)
  case 0
  then show ?case by (auto simp: occurs_at_crlf)
next
  case (Suc k)
  have i: "i < length s" using Suc.prems(1) by simp
  have j: "j < length SMTP_COMMAND_END" using Suc.prems(2) by (simp add: SMTP_COMMAND_END_def)
  note step = find_first_loop_step [OF i j, of 2 k]
  have sq: "SMTP_COMMAND_END ! 0 = CHR 0x0D" "SMTP_COMMAND_END ! 1 = CHR 0x0A"
    by (simp_all add: SMTP_COMMAND_END_def)
  have old: "\<forall>l. Suc l < i \<longrightarrow> \<not> occurs_at SMTP_COMMAND_END l s" by (rule Suc.prems(5))
  have new: "\<forall>l. Suc l < Suc i \<longrightarrow> \<not> occurs_at SMTP_COMMAND_END l s" if "\<not> (j = 1 \<and> s ! i = CHR 0x0A)"
    using old Suc.prems(4) that unfolding occurs_at_crlf by (metis diff_Suc_1 less_antisym zero_less_Suc)
  consider "j = 0" "s ! i = CHR 0x0D" | "j = 0" "s ! i \<noteq> CHR 0x0D" | "j = 1" "s ! i = CHR 0x0A" | "j = 1" "s ! i \<noteq> CHR 0x0A"
    using Suc.prems(2) by fastforce
  then show ?case
  proof cases
    case 1
    then show ?thesis unfolding step using Suc.IH [of "Suc i" 1] Suc.prems(1) new sq by simp
  next
    case 2
    then show ?thesis unfolding step using Suc.IH [of "Suc i" 0] Suc.prems(1) new sq by simp
  next
    case 3
    then show ?thesis unfolding step using sq old i Suc.prems(3) by (auto simp: less_diff_conv nat_less_iff)
  next
    case 4
    have "s ! i \<noteq> CHR 0x0D"
    proof
      assume cr: "s ! i = CHR 0x0D"
      from 4(1) Suc.prems(3,4) have "0 < i" "s ! (i - 1) = CHR 0x0D" by auto
      with cr i assms show False unfolding no_cr_cr_def by (metis Suc_diff_1 Suc_lessD)
    qed
    then show ?thesis unfolding step using 4 Suc.IH [of "Suc i" 0] Suc.prems(1) new sq by simp
  qed
qed

lemma find_first_crlf:
  assumes "no_cr_cr s"
  shows "\<exists>r. find_first_entry_str s SMTP_COMMAND_END (int (length s)) 2 = Some r \<and> r < int (length s) \<and>
    (if r = - 1 then (\<forall>l. \<not> occurs_at SMTP_COMMAND_END l s)
     else 0 \<le> r \<and> occurs_at SMTP_COMMAND_END (nat r) s \<and> (\<forall>l < nat r. \<not> occurs_at SMTP_COMMAND_END l s))"
proof (cases "length s < 2")
  case True
  then show ?thesis by (auto simp: find_first_entry_str_def occurs_at_crlf)
next
  case False
  obtain r t where l: "find_first_loop s SMTP_COMMAND_END 2 (length s) 0 0 = Some (r, t)" "0 \<le> r" "r \<le> int (length s)"
     "if t = 2 then 1 \<le> r \<and> (\<forall>l. l < nat (r - 1) \<longrightarrow> \<not> occurs_at SMTP_COMMAND_END l s)
       else (\<forall>l. \<not> occurs_at SMTP_COMMAND_END l s)"
    using find_first_loop_crlf [OF assms, of 0 "length s" 0] by auto
  have "SMTP_COMMAND_END \<noteq> []" and len: "length SMTP_COMMAND_END = 2" by (simp_all add: SMTP_COMMAND_END_def)
  from find_first_entry_sound [OF this(1), of s] l(1) False
  have "t = 2 \<Longrightarrow> occurs_at SMTP_COMMAND_END (nat (r - 1)) s"
    using l(4) by (simp add: find_first_entry_str_def len)
  then show ?thesis using l False by (auto simp: find_first_entry_str_def split: if_splits)
qed

lemma find_first_overlooks:
  "find_first_entry_str [CHR 0x0D, CHR 0x0D, CHR 0x0A] SMTP_COMMAND_END 3 2 = Some (- 1)"
  by (simp add: find_first_entry_str_def SMTP_COMMAND_END_def arr_get_def numeral_3_eq_3)

text \<open>
  The reverse search tests the wrong end condition: a non-negative result means that the
  scan reached the start of the string with nothing matched, and it is always \<open>seq_len\<close>.
\<close>

lemma find_revers_loop_found:
  "0 < n \<Longrightarrow> find_revers_loop str sq n k i s = Some (r, t) \<Longrightarrow> 1 \<le> s \<Longrightarrow> s \<le> n \<Longrightarrow> i = int k \<Longrightarrow> t = n \<Longrightarrow> r = 0"
  by (induction str sq n k i s rule: find_revers_loop.induct)
     (auto simp: bind_eq_Some_conv split: if_splits)

lemma find_revers_loop_bounds:
  "find_revers_loop str sq n k i s = Some (r, t) \<Longrightarrow> 1 \<le> s \<Longrightarrow> s \<le> n \<Longrightarrow> 0 \<le> t \<and> t \<le> n"
  by (induction str sq n k i s rule: find_revers_loop.induct)
     (auto simp: bind_eq_Some_conv split: if_splits)

lemma find_revers_result:
  assumes "0 < n" "find_revers_first_entry_str str sq l n = Some r"
  shows "r = - 1 \<or> r = n"
proof (cases "n > l")
  case True
  then show ?thesis using assms by (simp add: find_revers_first_entry_str_def)
next
  case False
  then obtain i s where l: "find_revers_loop str sq n (nat l) l n = Some (i, s)"
    "r = (if s = n then i + n else - 1)"
    using assms by (auto simp: find_revers_first_entry_str_def bind_eq_Some_conv split: if_splits)
  then show ?thesis using find_revers_loop_found [OF assms(1) l(1)] assms(1) False by (cases "s = n") auto
qed
section \<open>\<open>sub_str_iterate\<close>\<close>

record sub_str_iterator =
  itr_begin :: int
  itr_end :: int
  itr_str :: "string ptr"
  itr_str_len :: int
  itr_sep :: "string ptr"
  itr_sep_len :: int

definition sub_str_iterate :: "sub_str_iterator ptr \<Rightarrow> (sub_str_iterator ptr \<times> bool) ub" where
  "sub_str_iterate iterator =
     (case iterator of
        NULL \<Rightarrow> Some (NULL, False)
      | Some it \<Rightarrow>
          (case (itr_str it, itr_sep it) of
             (Some str, Some sep) \<Rightarrow>
               if itr_begin it > itr_end it then Some (Some it, False)
               else if itr_end it < 0 \<or> itr_end it > int (length str) then UB
               else do {
                 n \<leftarrow> find_first_entry_str (drop (nat (itr_end it)) str) sep (itr_str_len it - itr_end it) (itr_sep_len it);
                 (if n \<noteq> - 1 then
                    Some (Some (it\<lparr>itr_begin := itr_end it, itr_end := n + itr_end it + itr_sep_len it\<rparr>), True)
                  else Some (Some (it\<lparr>itr_begin := itr_end it, itr_end := itr_str_len it\<rparr>), True))
               }
           | _ \<Rightarrow> Some (Some it, False)))"

definition crlf_iterator :: "string \<Rightarrow> int \<Rightarrow> int \<Rightarrow> sub_str_iterator" where
  "crlf_iterator s b e = \<lparr>itr_begin = b, itr_end = e, itr_str = Some s, itr_str_len = int (length s),
                          itr_sep = Some SMTP_COMMAND_END, itr_sep_len = 2\<rparr>"

text \<open>The reference: the length of the first line with its line end, or of all that is left.\<close>

fun line_len :: "string \<Rightarrow> nat" where
  "line_len (c # d # s) = (if c = CHR 0x0D \<and> d = CHR 0x0A then 2 else Suc (line_len (d # s)))"
| "line_len [c] = 1"
| "line_len [] = 0"

lemma line_len_le: "line_len s \<le> length s"
  by (induction s rule: line_len.induct) auto

lemma line_len_pos: "s \<noteq> [] \<Longrightarrow> 0 < line_len s"
  by (induction s rule: line_len.induct) auto

lemma occurs_at_Suc: "occurs_at SMTP_COMMAND_END (Suc i) (c # s) \<longleftrightarrow> occurs_at SMTP_COMMAND_END i s"
  by (simp add: occurs_at_crlf)

lemma line_len_first:
  "occurs_at SMTP_COMMAND_END i s \<Longrightarrow> (\<forall>l<i. \<not> occurs_at SMTP_COMMAND_END l s) \<Longrightarrow> line_len s = i + 2"
proof (induction s arbitrary: i rule: line_len.induct)
  case (1 c d s)
  show ?case
  proof (cases "c = CHR 0x0D \<and> d = CHR 0x0A")
    case True
    then have "occurs_at SMTP_COMMAND_END 0 (c # d # s)" by (simp add: occurs_at_crlf)
    then show ?thesis using 1 True by auto
  next
    case False
    then obtain j where j: "i = Suc j" using 1(2) by (cases i) (auto simp: occurs_at_crlf)
    have "\<not> occurs_at SMTP_COMMAND_END l (d # s)" if "l < j" for l
      using 1(3) [rule_format, of "Suc l"] that by (simp add: j occurs_at_Suc)
    then have "line_len (d # s) = j + 2"
      using 1(2) False by (intro "1.IH") (auto simp: j occurs_at_Suc)
    then show ?thesis using False j by auto
  qed
qed (auto simp: occurs_at_crlf)

lemma line_len_none: "(\<forall>l. \<not> occurs_at SMTP_COMMAND_END l s) \<Longrightarrow> line_len s = length s"
proof (induction s rule: line_len.induct)
  case (1 c d s)
  have n: "\<not> (c = CHR 0x0D \<and> d = CHR 0x0A)"
    using 1(2) [rule_format, of 0] by (simp add: occurs_at_crlf)
  have "\<forall>l. \<not> occurs_at SMTP_COMMAND_END l (d # s)"
    using 1(2) occurs_at_Suc by blast
  then show ?case using 1(1) [OF n] n by auto
qed auto

lemma no_cr_cr_drop: "no_cr_cr s \<Longrightarrow> no_cr_cr (drop n s)"
  by (simp add: no_cr_cr_def less_diff_conv add.commute)

lemma sub_str_iterate_crlf:
  assumes "no_cr_cr s" "b \<le> e" "e \<le> length s"
  shows "sub_str_iterate (Some (crlf_iterator s (int b) (int e)))
    = Some (Some (crlf_iterator s (int e) (int (e + line_len (drop e s)))), True)"
proof -
  have l: "int (length s) - int e = int (length (drop e s))" using assms(3) by simp
  from find_first_crlf [OF no_cr_cr_drop [OF assms(1)], of e] obtain r where
    r: "find_first_entry_str (drop e s) SMTP_COMMAND_END (int (length (drop e s))) 2 = Some r"
       "if r = - 1 then (\<forall>l. \<not> occurs_at SMTP_COMMAND_END l (drop e s))
        else 0 \<le> r \<and> occurs_at SMTP_COMMAND_END (nat r) (drop e s) \<and> (\<forall>l < nat r. \<not> occurs_at SMTP_COMMAND_END l (drop e s))"
    by blast
  have "int (e + line_len (drop e s)) = (if r = - 1 then int (length s) else r + int e + 2)"
  proof (cases "r = - 1")
    case True
    then show ?thesis using r(2) line_len_none [of "drop e s"] assms(3) by simp
  next
    case False
    then have "line_len (drop e s) = nat r + 2" using r(2) by (intro line_len_first) simp_all
    then show ?thesis using False r(2) by simp
  qed
  moreover have "find_first_entry_str (drop e s) SMTP_COMMAND_END (int (length s) - int e) 2 = Some r"
    unfolding l by (rule r(1))
  ultimately show ?thesis
    using assms(2,3) by (simp add: sub_str_iterate_def crlf_iterator_def)
qed
section \<open>Addresses and sockets\<close>

record sockaddr_in =
  sin_addr :: "8 word list"
  sin_port :: "16 word"

record client_addr =
  ca_ip :: string
  ca_port :: "16 word"

definition UTIL_PARAMETER_IS_NULL :: string where "UTIL_PARAMETER_IS_NULL = ''parameter is null''"
definition UTIL_ERROR_CONVERT_IP :: string where "UTIL_ERROR_CONVERT_IP = ''error converting ip from string''"
definition UTIL_ERROR_BIND :: string where "UTIL_ERROR_BIND = ''error binding socket to address''"
definition UTIL_ERROR_SET_LISTEN_SOCKET :: string where
  "UTIL_ERROR_SET_LISTEN_SOCKET = ''error setting listening mode for socket''"
definition UTIL_ERROR_CREATE_SOCKET :: string where "UTIL_ERROR_CREATE_SOCKET = ''error creating socket''"

text \<open>\<open>htons\<close> and \<open>ntohs\<close> on a little-endian machine: the two bytes change places.\<close>

definition htons :: "16 word \<Rightarrow> 16 word" where
  "htons w = word_of_nat ((unat w mod 256) * 256 + unat w div 256)"

definition dotted :: "8 word list \<Rightarrow> string" where
  "dotted bs = concat (map (\<lambda>(i, b). (if i = (0::nat) then [] else ''.'') @ dec_string (unat b)) (enumerate 0 bs))"

definition get_addr :: "sockaddr_in ptr \<Rightarrow> err_ptr \<Rightarrow> client_addr \<times> err_ptr" where
  "get_addr addr error =
     (case addr of
        NULL \<Rightarrow> (\<lparr>ca_ip = [], ca_port = 0\<rparr>, err_report FATAL UTIL_PARAMETER_IS_NULL error)
      | Some a \<Rightarrow> (\<lparr>ca_ip = dotted (sin_addr a), ca_port = htons (sin_port a)\<rparr>, ERROR_SUCCESS error))"

text \<open>
  \<open>make_server_socket\<close> over the results of the system calls it makes, in order: the descriptor
  of \<open>socket\<close> and the results of \<open>inet_aton\<close>, \<open>bind\<close> and \<open>listen\<close>. The result is the
  descriptor or \<open>-1\<close>, the error, and the descriptors that were closed.
\<close>

record sock_calls =
  sc_socket :: int
  sc_inet_aton :: int
  sc_bind :: int
  sc_listen :: int

definition make_server_socket :: "sock_calls \<Rightarrow> err_ptr \<Rightarrow> int \<times> err_ptr \<times> int list" where
  "make_server_socket os error =
     (if sc_socket os = - 1 then (- 1, err_report FATAL UTIL_ERROR_CREATE_SOCKET error, [])
      else if sc_inet_aton os = - 1 then (- 1, err_report FATAL UTIL_ERROR_CONVERT_IP error, [sc_socket os])
      else if sc_bind os = - 1 then (- 1, err_report FATAL UTIL_ERROR_BIND error, [sc_socket os])
      else if sc_listen os = - 1 then (- 1, err_report FATAL UTIL_ERROR_SET_LISTEN_SOCKET error, [sc_socket os])
      else (sc_socket os, error, []))"

text \<open>
  \<open>dns_get_ptr\<close> over the two resolver functions of the C library: \<open>aton\<close> parses an address and
  \<open>nameinfo\<close> looks the name up, both with nothing for a failure.
\<close>

definition dns_get_ptr ::
    "(string \<Rightarrow> 8 word list option) \<Rightarrow> (8 word list \<Rightarrow> string option) \<Rightarrow> bool \<Rightarrow> string ptr \<Rightarrow> string ptr" where
  "dns_get_ptr aton nameinfo mok ip =
     (case ip of
        NULL \<Rightarrow> NULL
      | Some s \<Rightarrow>
          (case aton s of
             None \<Rightarrow> NULL
           | Some a \<Rightarrow> if \<not> mok then NULL else nameinfo a))"

section \<open>Properties\<close>

text \<open>
  On a C string with any reusable buffer (none, too small or large enough), \<open>trim_str\<close>
  writes only inside the buffer, leaves its recorded size right, and yields the string without
  the blanks at both ends; on a string of blanks only (the empty line included) it runs off the
  front of the input.
\<close>

theorem trim_str_correct:
  assumes "c_string src" "buf_ok dst n"
  shows "if \<forall>c\<in>set src. SPACE_SYMBOLS_CHECK c then trim_str src dst (length src) n = UB
         else \<exists>d m. trim_str src dst (length src) n = Some (d, m, True) \<and> buf_ok d m \<and> c_str d = Some (trimmed src)"
  using trim_str_run [OF _ assms] trim_str_all_blank by auto

theorem trim_str_correct_witness:
  "\<exists>d m. trim_str '' QUIT  '' (Some ''abc'') (length '' QUIT  '') 3 = Some (d, m, True)
         \<and> buf_ok d m \<and> c_str d = Some (trimmed '' QUIT  '')"
proof -
  have c: "c_string '' QUIT  ''" by (simp add: NUL_def)
  have b: "buf_ok (Some ''abc'') 3" by (simp add: buf_ok_def)
  have "\<not> (\<forall>c\<in>set '' QUIT  ''. SPACE_SYMBOLS_CHECK c)" by (simp add: SPACE_SYMBOLS_CHECK_def)
  then show ?thesis using trim_str_correct [OF c b] by (simp only: if_False)
qed

text \<open>
  \<open>char_make_buf_concat\<close> of any one to fifty C strings into any reusable buffer stays inside
  the buffer it has or allocates, and the buffer then holds exactly their concatenation.
\<close>

theorem char_make_buf_concat_correct:
  assumes "buf_ok buffer n" "strs \<noteq> []" "length strs \<le> 50" "\<forall>s\<in>set strs. c_string s"
  shows "\<exists>d m. char_make_buf_concat True buffer n (length strs) strs = Some (d, m, True)
               \<and> buf_ok d m \<and> c_str d = Some (concat strs)"
  by (rule char_make_buf_concat_run [OF assms])

theorem char_make_buf_concat_correct_witness:
  "\<exists>d m. char_make_buf_concat True (Some ''12345'') 5 3 [''250'', '' '', ''OK''] = Some (d, m, True)
         \<and> buf_ok d m \<and> c_str d = Some ''250 OK''"
proof -
  have "buf_ok (Some ''12345'') 5" "\<forall>s\<in>set [''250'', '' '', ''OK'']. c_string s"
    by (simp_all add: buf_ok_def NUL_def)
  from char_make_buf_concat_correct [OF this(1) _ _ this(2)] show ?thesis by (simp add: numeral_3_eq_3)
qed

text \<open>
  \<open>split_str\<close> stores its last piece at index \<open>i\<close> without testing it against \<open>num_split\<close>:
  a string with at least as many separators as the array has entries is written past the array.
\<close>

theorem split_str_overflow:
  assumes "c_string str" "length arr = num" "num \<le> count_list str sep"
  shows "split_str (Some str) (Some arr) num sep = UB"
  by (rule split_str_overflows [OF assms])

theorem split_str_overflow_witness:
  "split_str (Some ''a,b,c'') (Some [NULL, NULL]) 2 (CHR '','') = UB"
  by (rule split_str_overflow) (simp_all add: NUL_def)

text \<open>
  \<open>find_first_entry_str\<close> stays inside both strings, and an index it returns is one at which
  the sequence occurs; for the line end, in a text without two adjacent CR bytes, the result is
  the first occurrence and \<open>-1\<close> only when there is none, while a CR in front of the line end
  hides it.
\<close>

theorem find_first_entry_correct:
  assumes "sq \<noteq> []"
  shows "(\<exists>r. find_first_entry_str str sq (int (length str)) (int (length sq)) = Some r \<and>
            (r = - 1 \<or> 0 \<le> r \<and> occurs_at sq (nat r) str))
       \<and> (no_cr_cr str \<longrightarrow> (\<exists>r. find_first_entry_str str SMTP_COMMAND_END (int (length str)) 2 = Some r \<and>
            (if r = - 1 then (\<forall>l. \<not> occurs_at SMTP_COMMAND_END l str)
             else occurs_at SMTP_COMMAND_END (nat r) str \<and> (\<forall>l < nat r. \<not> occurs_at SMTP_COMMAND_END l str))))
       \<and> find_first_entry_str [CHR 0x0D, CHR 0x0D, CHR 0x0A] SMTP_COMMAND_END 3 2 = Some (- 1)"
  using find_first_entry_sound [OF assms, of str] find_first_crlf [of str] find_first_overlooks
  by (metis (no_types, lifting))

theorem find_first_entry_correct_witness:
  "\<exists>r. find_first_entry_str ''EHLO'' ''HL'' (int (length ''EHLO'')) (int (length ''HL'')) = Some r \<and>
       (r = - 1 \<or> 0 \<le> r \<and> occurs_at ''HL'' (nat r) ''EHLO'')"
  using find_first_entry_correct [of "''HL''" "''EHLO''"] by blast

text \<open>
  \<open>find_revers_first_entry_str\<close> never reports a position: what it returns is \<open>-1\<close> or the
  length of the sequence, and \<open>-1\<close> also where the sequence does occur.
\<close>

theorem find_revers_useless:
  assumes "0 < n" "find_revers_first_entry_str str sq l n = Some r"
  shows "r \<in> {- 1, n} \<and> find_revers_first_entry_str ''abcd'' ''cd'' 4 2 = Some (- 1)"
  using find_revers_result [OF assms]
  by (simp add: find_revers_first_entry_str_def arr_get_def eval_nat_numeral)

theorem find_revers_useless_witness:
  "find_revers_first_entry_str ''xyz'' ''ab'' 3 2 = Some 2 \<and> (2::int) \<in> {- 1, 2}"
proof -
  have r: "find_revers_first_entry_str ''xyz'' ''ab'' 3 2 = Some 2"
    by (simp add: find_revers_first_entry_str_def arr_get_def eval_nat_numeral)
  then show ?thesis using find_revers_useless [OF _ r] by simp
qed

end
