(* ===== verification/Interfaces.thy ===== *)
theory Interfaces
  imports Errors
begin

text \<open>
  The interfaces the components rely on: a store keyed by a socket (the acceptors, the registry
  of events, the users and their timers) and a first-in-first-out queue (the events that
  occurred, the log messages). Each provider interprets them on its own operations; what a
  client needs of a whole run of operations is proved here once.
\<close>

section \<open>Stores with one entry per key\<close>

locale keyed_lookup =
  fixes put :: "'s \<Rightarrow> 'k \<Rightarrow> 'e \<Rightarrow> ('s \<times> bool) ub"
    and view :: "'s \<Rightarrow> 'k \<rightharpoonup> 'e"
    and ok :: "'s \<Rightarrow> bool"
    and fits :: "'k \<Rightarrow> 'e \<Rightarrow> bool"
  assumes put_law: "ok s \<Longrightarrow> fits k e \<Longrightarrow>
    \<exists>s'. put s k e = Some (s', view s k = None) \<and> ok s' \<and>
         view s' = (if view s k = None then (view s)(k \<mapsto> e) else view s)"
begin

lemma putE:
  assumes "ok s" "fits k e"
  obtains s' where "put s k e = Some (s', view s k = None)" "ok s'"
    "view s' = (if view s k = None then (view s)(k \<mapsto> e) else view s)"
  using put_law [OF assms] by blast

text \<open>A second entry for the key is refused, and the first one stays.\<close>

lemma put_twice:
  assumes "ok s" "fits k e" "fits k e'" "view s k = None"
  obtains s1 s2 where "put s k e = Some (s1, True)" "put s1 k e' = Some (s2, False)" "view s2 = (view s)(k \<mapsto> e)"
proof -
  from assms(1,2) obtain s1 where 1: "put s k e = Some (s1, view s k = None)" "ok s1"
    "view s1 = (if view s k = None then (view s)(k \<mapsto> e) else view s)" by (rule putE)
  from 1(2) assms(3) obtain s2 where 2: "put s1 k e' = Some (s2, view s1 k = None)" "ok s2"
    "view s2 = (if view s1 k = None then (view s1)(k \<mapsto> e') else view s1)" by (rule putE)
  from 1 2 assms(4) show thesis by (intro that [of s1 s2]) simp_all
qed

end

datatype ('k, 'e) store_op = Put 'k 'e | Take 'k

datatype 'e store_result = Done bool | Found "'e option"

text \<open>A run of operations on a provider, and on the map that specifies it.\<close>

fun store_run ::
    "('s \<Rightarrow> 'k \<Rightarrow> 'e \<Rightarrow> ('s \<times> bool) ub) \<Rightarrow> ('s \<Rightarrow> 'k \<Rightarrow> ('s \<times> 'e option) ub) \<Rightarrow>
     's \<Rightarrow> ('k, 'e) store_op list \<Rightarrow> ('s \<times> 'e store_result list) ub" where
  "store_run put del s [] = Some (s, [])"
| "store_run put del s (Put k e # ops) =
     do { (s', b) \<leftarrow> put s k e; (s'', rs) \<leftarrow> store_run put del s' ops; Some (s'', Done b # rs) }"
| "store_run put del s (Take k # ops) =
     do { (s', r) \<leftarrow> del s k; (s'', rs) \<leftarrow> store_run put del s' ops; Some (s'', Found r # rs) }"

fun map_run :: "('k \<rightharpoonup> 'e) \<Rightarrow> ('k, 'e) store_op list \<Rightarrow> ('k \<rightharpoonup> 'e) \<times> 'e store_result list" where
  "map_run m [] = (m, [])"
| "map_run m (Put k e # ops) =
     (case map_run (if m k = None then m(k \<mapsto> e) else m) ops of (m', rs) \<Rightarrow> (m', Done (m k = None) # rs))"
| "map_run m (Take k # ops) =
     (case map_run (m(k := None)) ops of (m', rs) \<Rightarrow> (m', Found (m k) # rs))"

fun op_fits :: "('k \<Rightarrow> 'e \<Rightarrow> bool) \<Rightarrow> ('k \<Rightarrow> bool) \<Rightarrow> ('k, 'e) store_op \<Rightarrow> bool" where
  "op_fits fits key (Put k e) = fits k e"
| "op_fits fits key (Take k) = key k"

locale keyed_store = keyed_lookup put view ok fits
  for put :: "'s \<Rightarrow> 'k \<Rightarrow> 'e \<Rightarrow> ('s \<times> bool) ub"
    and view :: "'s \<Rightarrow> 'k \<rightharpoonup> 'e"
    and ok :: "'s \<Rightarrow> bool"
    and fits :: "'k \<Rightarrow> 'e \<Rightarrow> bool" +
  fixes del :: "'s \<Rightarrow> 'k \<Rightarrow> ('s \<times> 'e option) ub"
    and key :: "'k \<Rightarrow> bool"
  assumes del_law: "ok s \<Longrightarrow> key k \<Longrightarrow>
    \<exists>s'. del s k = Some (s', view s k) \<and> ok s' \<and> view s' = (view s)(k := None)"
begin

lemma delE:
  assumes "ok s" "key k"
  obtains s' where "del s k = Some (s', view s k)" "ok s'" "view s' = (view s)(k := None)"
  using del_law [OF assms] by blast

lemma put_del:
  assumes "ok s" "fits k e" "key k" "view s k = None"
  obtains s1 s2 where "put s k e = Some (s1, True)" "del s1 k = Some (s2, Some e)" "ok s2" "view s2 = view s"
proof -
  from assms(1,2) obtain s1 where 1: "put s k e = Some (s1, view s k = None)" "ok s1"
    "view s1 = (if view s k = None then (view s)(k \<mapsto> e) else view s)" by (rule putE)
  from 1(2) assms(3) obtain s2 where 2: "del s1 k = Some (s2, view s1 k)" "ok s2"
    "view s2 = (view s1)(k := None)" by (rule delE)
  from 1 2 assms(4) have "view s2 = view s" by (simp add: fun_upd_idem)
  with 1 2 assms(4) show thesis by (intro that [of s1 s2]) simp_all
qed

text \<open>Every run of operations is defined and does what it does on the map.\<close>

lemma run_refines:
  "ok s \<Longrightarrow> (\<forall>op\<in>set ops. op_fits fits key op) \<Longrightarrow>
   \<exists>s'. store_run put del s ops = Some (s', snd (map_run (view s) ops)) \<and> ok s' \<and>
        view s' = fst (map_run (view s) ops)"
proof (induction ops arbitrary: s)
  case Nil
  then show ?case by simp
next
  case (Cons op ops)
  show ?case
  proof (cases op)
    case (Put k e)
    with Cons.prems have "fits k e" by simp
    with Cons.prems(1) obtain s' where p: "put s k e = Some (s', view s k = None)" "ok s'"
      "view s' = (if view s k = None then (view s)(k \<mapsto> e) else view s)" by (rule putE)
    from Cons.IH [OF p(2)] Cons.prems(2) obtain s'' where
      "store_run put del s' ops = Some (s'', snd (map_run (view s') ops))" "ok s''"
      "view s'' = fst (map_run (view s') ops)" by auto
    with p Put show ?thesis by (simp add: split_beta)
  next
    case (Take k)
    with Cons.prems have "key k" by simp
    with Cons.prems(1) obtain s' where p: "del s k = Some (s', view s k)" "ok s'"
      "view s' = (view s)(k := None)" by (rule delE)
    from Cons.IH [OF p(2)] Cons.prems(2) obtain s'' where
      "store_run put del s' ops = Some (s'', snd (map_run (view s') ops))" "ok s''"
      "view s'' = fst (map_run (view s') ops)" by auto
    with p Take show ?thesis by (simp add: split_beta)
  qed
qed

end

section \<open>First-in-first-out queues\<close>

fun drain :: "('s \<Rightarrow> ('s \<times> 'e option) ub) \<Rightarrow> nat \<Rightarrow> 's \<Rightarrow> ('s \<times> 'e option list) ub" where
  "drain deq 0 s = Some (s, [])"
| "drain deq (Suc n) s = do { (s', r) \<leftarrow> deq s; (s'', rs) \<leftarrow> drain deq n s'; Some (s'', r # rs) }"

locale fifo =
  fixes enq :: "'s \<Rightarrow> 'e \<Rightarrow> 's ub"
    and deq :: "'s \<Rightarrow> ('s \<times> 'e option) ub"
    and content :: "'s \<Rightarrow> 'e list"
    and ok :: "'s \<Rightarrow> bool"
  assumes enq_law: "ok s \<Longrightarrow> \<exists>s'. enq s e = Some s' \<and> ok s' \<and> content s' = content s @ [e]"
    and deq_law: "ok s \<Longrightarrow>
      \<exists>s'. deq s = Some (s', case content s of [] \<Rightarrow> None | e # _ \<Rightarrow> Some e) \<and> ok s' \<and> content s' = tl (content s)"
begin

lemma enq_all: "ok s \<Longrightarrow> \<exists>s'. run_inputs enq s es = Some s' \<and> ok s' \<and> content s' = content s @ es"
proof (induction es arbitrary: s)
  case Nil
  then show ?case by simp
next
  case (Cons e es)
  from enq_law [OF Cons.prems, of e] obtain s1 where
    "enq s e = Some s1" "ok s1" "content s1 = content s @ [e]" by blast
  with Cons.IH [of s1] show ?case by auto
qed

lemma drain_prefix:
  "ok s \<Longrightarrow> n \<le> length (content s) \<Longrightarrow>
   \<exists>s'. drain deq n s = Some (s', map Some (take n (content s))) \<and> ok s' \<and> content s' = drop n (content s)"
proof (induction n arbitrary: s)
  case 0
  then show ?case by simp
next
  case (Suc n)
  from deq_law [OF Suc.prems(1)] obtain s1 where
    1: "deq s = Some (s1, case content s of [] \<Rightarrow> None | e # _ \<Rightarrow> Some e)" "ok s1" "content s1 = tl (content s)" by blast
  from Suc.prems(2) have n: "n \<le> length (content s1)" using 1(3) by simp
  from Suc.IH [OF 1(2) n] obtain s2 where
    2: "drain deq n s1 = Some (s2, map Some (take n (content s1)))" "ok s2" "content s2 = drop n (content s1)"
    by blast
  from Suc.prems(2) obtain e es where c: "content s = e # es" by (cases "content s") auto
  have "content s2 = drop (Suc n) (content s)" "drain deq (Suc n) s = Some (s2, map Some (take (Suc n) (content s)))"
    using 1 2 c by simp_all
  with 2(2) show ?case by blast
qed

text \<open>What is put into an empty queue comes out in the same order, nothing lost.\<close>

lemma order_preserved:
  assumes "ok s" "content s = []"
  obtains s1 s2 where "run_inputs enq s es = Some s1" "drain deq (length es) s1 = Some (s2, map Some es)"
    "ok s2" "content s2 = []"
proof -
  from enq_all [OF assms(1), of es] assms(2) obtain s1 where
    1: "run_inputs enq s es = Some s1" "ok s1" "content s1 = es" by auto
  have len: "length es \<le> length (content s1)" using 1(3) by simp
  from drain_prefix [OF 1(2) len] 1(3) obtain s2 where
    "drain deq (length es) s1 = Some (s2, map Some es)" "ok s2" "content s2 = []" by auto
  with 1 show thesis by (intro that)
qed

end

end
