(* ===== verification/Events.thy ===== *)
theory Events
  imports Util Interfaces
begin

text \<open>
  The event descriptors of \<open>server/include/event_t.h\<close> and the four queues of
  \<open>server/src/lib/event_loop\<close>: the events registered for one socket (\<open>events_queue.c\<close>), the
  registry of all sockets (\<open>registered_events_queue.c\<close>), the acceptors
  (\<open>sockets_queue.c\<close>) and the events that occurred (\<open>occurred_events_queue.c\<close>).

  An operation takes the queue pointer and returns it updated, with its result and the error.
  Every allocation is a \<open>bool\<close> argument. A function pointer is a number.
\<close>

type_synonym fptr = nat

datatype event_type = SOCK_ACCEPT | SOCK_READ | SOCK_WRITE | SOCK_CLOSE

datatype client_status = CONNECTED | DISCONNECTED

record sock_event =
  se_type :: event_type
  se_socket :: int
  se_error :: err_t

record event_sock_accept = sock_event +
  ac_handler :: fptr
  ac_client_socket :: int
  ac_client_addr :: sockaddr_in

record event_sock_read = sock_event +
  rd_handler :: fptr
  rd_buffer :: string
  rd_size :: int
  rd_offset :: int
  rd_status :: client_status

record event_sock_write = sock_event +
  wr_handler :: fptr
  wr_offset :: int
  wr_size :: int
  wr_buffer :: string
  wr_status :: client_status

record event_sock_close = sock_event +
  cl_handler :: fptr

text \<open>An \<open>event_t *\<close> points at one of the four structures; a cast reads it as one of them.\<close>

datatype event_t =
    EvAccept event_sock_accept
  | EvRead event_sock_read
  | EvWrite event_sock_write
  | EvClose event_sock_close

fun event_hdr :: "event_t \<Rightarrow> sock_event" where
  "event_hdr (EvAccept e) = sock_event.truncate e"
| "event_hdr (EvRead e) = sock_event.truncate e"
| "event_hdr (EvWrite e) = sock_event.truncate e"
| "event_hdr (EvClose e) = sock_event.truncate e"

definition ev_type :: "event_t \<Rightarrow> event_type" where "ev_type e = se_type (event_hdr e)"
definition ev_socket :: "event_t \<Rightarrow> int" where "ev_socket e = se_socket (event_hdr e)"

fun as_accept :: "event_t \<Rightarrow> event_sock_accept ub" where
  "as_accept (EvAccept e) = Some e" | "as_accept _ = UB"

fun as_read :: "event_t \<Rightarrow> event_sock_read ub" where
  "as_read (EvRead e) = Some e" | "as_read _ = UB"

fun as_write :: "event_t \<Rightarrow> event_sock_write ub" where
  "as_write (EvWrite e) = Some e" | "as_write _ = UB"

fun as_close :: "event_t \<Rightarrow> event_sock_close ub" where
  "as_close (EvClose e) = Some e" | "as_close _ = UB"

lemma ev_simps [simp]:
  "ev_type (EvAccept a) = se_type a" "ev_type (EvRead r) = se_type r"
  "ev_type (EvWrite w) = se_type w" "ev_type (EvClose c) = se_type c"
  "ev_socket (EvAccept a) = se_socket a" "ev_socket (EvRead r) = se_socket r"
  "ev_socket (EvWrite w) = se_socket w" "ev_socket (EvClose c) = se_socket c"
  by (simp_all add: ev_type_def ev_socket_def sock_event.defs)

text \<open>The constructor agrees with the type field.\<close>

definition ev_tagged :: "event_t \<Rightarrow> bool" where
  "ev_tagged e \<longleftrightarrow> ev_type e = (case e of EvAccept _ \<Rightarrow> SOCK_ACCEPT | EvRead _ \<Rightarrow> SOCK_READ
                                 | EvWrite _ \<Rightarrow> SOCK_WRITE | EvClose _ \<Rightarrow> SOCK_CLOSE)"

lemma ev_tagged_cases:
  assumes "ev_tagged e"
  obtains a where "e = EvAccept a" "ev_type e = SOCK_ACCEPT" | r where "e = EvRead r" "ev_type e = SOCK_READ"
    | w where "e = EvWrite w" "ev_type e = SOCK_WRITE" | c where "e = EvClose c" "ev_type e = SOCK_CLOSE"
  using assms by (cases e) (auto simp: ev_tagged_def)

section \<open>\<open>events_queue.c\<close>: the events of one socket\<close>

type_synonym events_queue = "event_t list"

definition EQ_QUEUE_IS_NULL :: string where "EQ_QUEUE_IS_NULL = ''pointer of events_queue is null''"
definition EQ_ELEMENT_IS_NULL :: string where "EQ_ELEMENT_IS_NULL = ''pointer of element of events_queue is null''"
definition EQ_ELEMENT_NOT_FOUND :: string where "EQ_ELEMENT_NOT_FOUND = ''not found element in events_queue''"
definition EQ_ELEMENT_TYPE_EXISTS :: string where
  "EQ_ELEMENT_TYPE_EXISTS = ''element this type already exists in event_queue''"

definition eq_init :: "bool \<Rightarrow> err_ptr \<Rightarrow> events_queue ptr \<times> err_ptr" where
  "eq_init mok error =
     (case s_malloc mok ([] :: events_queue) (Some err_fresh) of
        (p, err) \<Rightarrow>
          if failed (the err) then (NULL, err_assign (the err) error)
          else (p, ERROR_SUCCESS error))"

text \<open>The queue and its events are released; the count of the released blocks is the result.\<close>

definition eq_free :: "events_queue ptr \<Rightarrow> nat ub" where
  "eq_free queue = (case queue of NULL \<Rightarrow> UB | Some q \<Rightarrow> Some (2 * length q + 1))"

definition el_is_contain :: "events_queue \<Rightarrow> event_type \<Rightarrow> bool" where
  "el_is_contain queue type \<longleftrightarrow> List.find (\<lambda>e. ev_type e = type) queue \<noteq> None"

definition eq_add :: "bool \<Rightarrow> events_queue \<Rightarrow> event_t \<Rightarrow> err_ptr \<Rightarrow> events_queue \<times> bool \<times> err_ptr" where
  "eq_add mok queue event error =
     (if el_is_contain queue (ev_type event)
      then (queue, False, err_report EXISTS EQ_ELEMENT_TYPE_EXISTS error)
      else (case s_malloc mok event (Some err_fresh) of
              (p, err) \<Rightarrow>
                if failed (the err) then (queue, False, err_assign (the err) error)
                else (queue @ [event], True, ERROR_SUCCESS error)))"

text \<open>\<open>CHECK_AND_RETURN\<close> for a push: the queue and the event are not null.\<close>

definition eq_push ::
    "bool \<Rightarrow> events_queue ptr \<Rightarrow> event_t ptr \<Rightarrow> err_ptr \<Rightarrow> events_queue ptr \<times> bool \<times> err_ptr" where
  "eq_push mok queue event error =
     (case queue of
        NULL \<Rightarrow> (NULL, False, err_assign (set_err FATAL EQ_QUEUE_IS_NULL err_fresh) error)
      | Some q \<Rightarrow>
          (case event of
             NULL \<Rightarrow> (Some q, False, err_assign (set_err FATAL EQ_ELEMENT_IS_NULL err_fresh) error)
           | Some e \<Rightarrow> (case eq_add mok q e error of (q', r, error') \<Rightarrow> (Some q', r, error'))))"

definition eq_push_accept ::
    "bool \<Rightarrow> events_queue ptr \<Rightarrow> event_sock_accept ptr \<Rightarrow> err_ptr \<Rightarrow> events_queue ptr \<times> bool \<times> err_ptr" where
  "eq_push_accept mok queue event error =
     eq_push mok queue (map_option (\<lambda>e. EvAccept (e\<lparr>se_type := SOCK_ACCEPT\<rparr>)) event) error"

definition eq_push_read ::
    "bool \<Rightarrow> events_queue ptr \<Rightarrow> event_sock_read ptr \<Rightarrow> err_ptr \<Rightarrow> events_queue ptr \<times> bool \<times> err_ptr" where
  "eq_push_read mok queue event error =
     eq_push mok queue (map_option (\<lambda>e. EvRead (e\<lparr>se_type := SOCK_READ\<rparr>)) event) error"

definition eq_push_write ::
    "bool \<Rightarrow> events_queue ptr \<Rightarrow> event_sock_write ptr \<Rightarrow> err_ptr \<Rightarrow> events_queue ptr \<times> bool \<times> err_ptr" where
  "eq_push_write mok queue event error =
     eq_push mok queue (map_option (\<lambda>e. EvWrite (e\<lparr>se_type := SOCK_WRITE\<rparr>)) event) error"

text \<open>
  \<open>_eq_pop\<close> and the three pops by type. The event is an out-parameter that keeps its old value,
  here the null pointer every caller starts from, when nothing is found.
\<close>

definition eq_pop :: "events_queue ptr \<Rightarrow> event_type \<Rightarrow> err_ptr \<Rightarrow> events_queue ptr \<times> event_t ptr \<times> bool \<times> err_ptr" where
  "eq_pop queue type error =
     (case queue of
        NULL \<Rightarrow> (NULL, NULL, False, err_assign (set_err FATAL EQ_QUEUE_IS_NULL err_fresh) error)
      | Some q \<Rightarrow>
          (case List.find (\<lambda>e. ev_type e = type) q of
             Some e \<Rightarrow> (Some (tailq_remove_first (\<lambda>e. ev_type e = type) q), Some e, True, ERROR_SUCCESS error)
           | None \<Rightarrow> (Some q, NULL, False, err_report NOT_FOUND EQ_ELEMENT_NOT_FOUND error)))"

definition eq_pop_accept where "eq_pop_accept queue error = eq_pop queue SOCK_ACCEPT error"
definition eq_pop_read where "eq_pop_read queue error = eq_pop queue SOCK_READ error"
definition eq_pop_write where "eq_pop_write queue error = eq_pop queue SOCK_WRITE error"

section \<open>\<open>registered_events_queue.c\<close>: the registry\<close>

record registered_events_entry =
  re_sock :: int
  re_events :: "events_queue ptr"

type_synonym registered_events_queue = "registered_events_entry list"

definition REQ_QUEUE_IS_NULL :: string where "REQ_QUEUE_IS_NULL = ''pointer of registered_events_queue is null''"
definition REQ_SOCK_NOTFOUND :: string where
  "REQ_SOCK_NOTFOUND = ''Not found registered events for socket in registered_events_queue''"
definition REQ_INVALID_SOCKET_VALUE :: string where "REQ_INVALID_SOCKET_VALUE = ''Invalid socket''"
definition REQ_EVENT_IS_NULL :: string where "REQ_EVENT_IS_NULL = ''Event pointer is null''"
definition REQ_EVENT_FOR_SOCKET_NOTFOUND :: string where
  "REQ_EVENT_FOR_SOCKET_NOTFOUND = ''Event for socket not found''"

definition pr_req_get_sock :: "registered_events_queue \<Rightarrow> int \<Rightarrow> registered_events_entry ptr" where
  "pr_req_get_sock queue sock = List.find (\<lambda>e. re_sock e = sock) queue"

definition req_init :: "bool \<Rightarrow> err_ptr \<Rightarrow> registered_events_queue ptr \<times> err_ptr" where
  "req_init mok error =
     (case s_malloc mok ([] :: registered_events_queue) (Some err_fresh) of
        (p, err) \<Rightarrow>
          if failed (the err) then (NULL, err_assign (the err) error)
          else (p, ERROR_SUCCESS error))"

text \<open>
  The three allocations behind a registration: the entry, its queue of events, and the cell of
  that queue. A new entry is linked before its queue is allocated and stays linked when that
  fails. The entry pointer of the result points into the returned queue.
\<close>

record reg_mem =
  mem_entry :: bool
  mem_queue :: bool
  mem_cell :: bool

definition mem_ok :: reg_mem where
  "mem_ok = \<lparr>mem_entry = True, mem_queue = True, mem_cell = True\<rparr>"

definition pr_req_init_before_add ::
    "reg_mem \<Rightarrow> registered_events_queue ptr \<Rightarrow> int \<Rightarrow> err_ptr \<Rightarrow>
     registered_events_queue ptr \<times> registered_events_entry ptr \<times> bool \<times> err_ptr" where
  "pr_req_init_before_add mem queue socket error =
     (case queue of
        NULL \<Rightarrow> (NULL, NULL, False, err_assign (set_err FATAL REQ_QUEUE_IS_NULL err_fresh) error)
      | Some q \<Rightarrow>
          if socket < 0 then (Some q, NULL, False, err_report FATAL REQ_INVALID_SOCKET_VALUE error)
          else (case pr_req_get_sock q socket of
                  Some ptr \<Rightarrow> (Some q, Some ptr, True, ERROR_SUCCESS error)
                | NULL \<Rightarrow>
                    (case s_malloc (mem_entry mem) (0::nat) (Some err_fresh) of
                       (p, err) \<Rightarrow>
                         if failed (the err) then (Some q, NULL, False, err_assign (the err) error)
                         else (case eq_init (mem_queue mem) err of
                                 (evs, err') \<Rightarrow>
                                   let entry = \<lparr>re_sock = socket, re_events = evs\<rparr> in
                                   if failed (the err') then (Some (q @ [entry]), NULL, False, err_assign (the err') error)
                                   else (Some (q @ [entry]), Some entry, True, ERROR_SUCCESS error)))))"

text \<open>
  The common body of \<open>req_push_accept\<close>, \<open>req_push_read\<close> and \<open>req_push_write\<close>: \<open>push\<close> is the
  \<open>eq_push_...\<close> call on the events of the entry, reporting into the local descriptor.
\<close>

definition req_push ::
    "reg_mem \<Rightarrow> registered_events_queue ptr \<Rightarrow> int \<Rightarrow>
     (events_queue ptr \<Rightarrow> err_ptr \<Rightarrow> events_queue ptr \<times> bool \<times> err_ptr) \<Rightarrow> err_ptr \<Rightarrow>
     (registered_events_queue ptr \<times> bool \<times> err_ptr) ub" where
  "req_push mem queue socket push error =
     (let err0 = ERROR_SUCCESS (Some err_fresh) in
      case pr_req_init_before_add mem queue socket err0 of
        (queue1, entry, _, err1) \<Rightarrow>
          if failed (the err1) then Some (queue1, False, err_assign (the err1) error)
          else do {
            ptr \<leftarrow> entry;
            q1 \<leftarrow> queue1;
            let (evs, _, err2) = push (re_events ptr) err1;
            let q2 = tailq_update_first (\<lambda>e. re_sock e = socket) (\<lambda>e. e\<lparr>re_events := evs\<rparr>) q1;
            if failed (the err2) then Some (Some q2, False, err_assign (the err2) error)
            else Some (Some q2, True, ERROR_SUCCESS error)
          })"

definition req_push_accept where
  "req_push_accept mem queue socket (event :: event_sock_accept) error =
     req_push mem queue socket
       (\<lambda>evs err. eq_push_accept (mem_cell mem) evs (Some (event\<lparr>se_socket := socket\<rparr>)) err) error"

definition req_push_read where
  "req_push_read mem queue socket (event :: event_sock_read) error =
     req_push mem queue socket
       (\<lambda>evs err. eq_push_read (mem_cell mem) evs (Some (event\<lparr>se_socket := socket\<rparr>)) err) error"

definition req_push_write where
  "req_push_write mem queue socket (event :: event_sock_write) error =
     req_push mem queue socket
       (\<lambda>evs err. eq_push_write (mem_cell mem) evs (Some (event\<lparr>se_socket := socket\<rparr>)) err) error"

text \<open>\<open>pr_req_pop\<close>: an entry that has no events left is removed.\<close>

definition pr_req_pop ::
    "registered_events_queue ptr \<Rightarrow> int \<Rightarrow> err_ptr \<Rightarrow>
     (events_queue ptr \<Rightarrow> err_ptr \<Rightarrow> events_queue ptr \<times> event_t ptr \<times> bool \<times> err_ptr) \<Rightarrow>
     (registered_events_queue ptr \<times> event_t ptr \<times> err_ptr) ub" where
  "pr_req_pop queue socket error element_pop =
     (case queue of
        NULL \<Rightarrow> Some (NULL, NULL, err_assign (set_err FATAL REQ_QUEUE_IS_NULL err_fresh) error)
      | Some q \<Rightarrow>
          if socket < 0 then Some (Some q, NULL, err_report FATAL REQ_INVALID_SOCKET_VALUE error)
          else (case pr_req_get_sock q socket of
                  NULL \<Rightarrow> Some (Some q, NULL, err_report NOT_FOUND REQ_SOCK_NOTFOUND error)
                | Some ptr \<Rightarrow>
                    do {
                      let (evs, res, _, error1) = element_pop (re_events ptr) error;
                      evs' \<leftarrow> evs;
                      let q' = (if evs' = [] then tailq_remove_first (\<lambda>e. re_sock e = socket) q
                                else tailq_update_first (\<lambda>e. re_sock e = socket) (\<lambda>e. e\<lparr>re_events := evs\<rparr>) q);
                      Some (Some q', res,
                            if res = NULL then err_report NOT_FOUND REQ_EVENT_FOR_SOCKET_NOTFOUND error1
                            else ERROR_SUCCESS error1)
                    }))"

text \<open>A failing \<open>assert\<close> aborts the program and is undefined here.\<close>

definition req_pop_accept ::
    "registered_events_queue ptr \<Rightarrow> int \<Rightarrow> err_ptr \<Rightarrow> (registered_events_queue ptr \<times> event_sock_accept ptr \<times> err_ptr) ub" where
  "req_pop_accept queue socket error =
     do {
       (queue', p, error') \<leftarrow> pr_req_pop queue socket error eq_pop_accept;
       (case p of
          NULL \<Rightarrow> Some (queue', NULL, error')
        | Some e \<Rightarrow> if ev_type e = SOCK_ACCEPT
                    then do { a \<leftarrow> as_accept e; Some (queue', Some a, ERROR_SUCCESS error') } else UB)
     }"

definition req_pop_read ::
    "registered_events_queue ptr \<Rightarrow> int \<Rightarrow> err_ptr \<Rightarrow> (registered_events_queue ptr \<times> event_sock_read ptr \<times> err_ptr) ub" where
  "req_pop_read queue socket error =
     do {
       (queue', p, error') \<leftarrow> pr_req_pop queue socket error eq_pop_read;
       (case p of
          NULL \<Rightarrow> Some (queue', NULL, error')
        | Some e \<Rightarrow> if ev_type e = SOCK_READ
                    then do { r \<leftarrow> as_read e; Some (queue', Some r, ERROR_SUCCESS error') } else UB)
     }"

definition req_pop_write ::
    "registered_events_queue ptr \<Rightarrow> int \<Rightarrow> err_ptr \<Rightarrow> (registered_events_queue ptr \<times> event_sock_write ptr \<times> err_ptr) ub" where
  "req_pop_write queue socket error =
     do {
       (queue', p, error') \<leftarrow> pr_req_pop queue socket error eq_pop_write;
       (case p of
          NULL \<Rightarrow> Some (queue', NULL, error')
        | Some e \<Rightarrow> if ev_type e = SOCK_WRITE
                    then do { w \<leftarrow> as_write e; Some (queue', Some w, ERROR_SUCCESS error') } else UB)
     }"

definition REQ_ACCEPT_EVENT :: int where "REQ_ACCEPT_EVENT = 1"
definition REQ_READ_EVENT :: int where "REQ_READ_EVENT = 2"
definition REQ_WRITE_EVENT :: int where "REQ_WRITE_EVENT = 4"

text \<open>\<open>req_reg\<close> does not test the entry it looked up.\<close>

fun req_bit :: "event_type \<Rightarrow> int" where
  "req_bit SOCK_ACCEPT = REQ_ACCEPT_EVENT"
| "req_bit SOCK_READ = REQ_READ_EVENT"
| "req_bit SOCK_WRITE = REQ_WRITE_EVENT"
| "req_bit SOCK_CLOSE = 0"

definition req_reg :: "registered_events_queue ptr \<Rightarrow> int \<Rightarrow> err_ptr \<Rightarrow> (int \<times> err_ptr) ub" where
  "req_reg queue socket error =
     (case queue of
        NULL \<Rightarrow> Some (- 1, err_report FATAL REQ_QUEUE_IS_NULL error)
      | Some q \<Rightarrow>
          do {
            ptr \<leftarrow> pr_req_get_sock q socket;
            evs \<leftarrow> re_events ptr;
            Some (foldl (\<lambda>m e. or m (req_bit (ev_type e))) 0 evs, ERROR_SUCCESS error)
          })"

fun req_free_entries :: "registered_events_queue \<Rightarrow> nat ub" where
  "req_free_entries [] = Some 0"
| "req_free_entries (e # q) =
     do {
       n \<leftarrow> eq_free (re_events e);
       m \<leftarrow> req_free_entries q;
       Some (n + 1 + m)
     }"

definition req_free :: "registered_events_queue ptr \<Rightarrow> nat ub" where
  "req_free queue =
     (case queue of NULL \<Rightarrow> Some 0 | Some q \<Rightarrow> do { n \<leftarrow> req_free_entries q; Some (n + 1) })"

section \<open>\<open>sockets_queue.c\<close>: the acceptors\<close>

record socket_entry =
  sk_socket :: int
  sk_handler :: fptr

type_synonym sockets_queue = "socket_entry list"

definition SQ_HANDLER_IS_NULL :: string where "SQ_HANDLER_IS_NULL = ''handler is null''"
definition SQ_INVALID_SOCKET_VALUE :: string where "SQ_INVALID_SOCKET_VALUE = ''Invalid socket''"
definition SQ_SOCKET_EXISTS :: string where "SQ_SOCKET_EXISTS = ''Handler for socket already exists''"
definition SQ_SOCKET_NOT_FOUND :: string where "SQ_SOCKET_NOT_FOUND = ''Socket not found''"
definition SQ_QUEUE_IS_NULL :: string where "SQ_QUEUE_IS_NULL = ''pointer of queue is null''"

text \<open>\<open>TAILQ_INIT\<close> writes through the pointer whether or not the allocation succeeded.\<close>

definition sq_init :: "bool \<Rightarrow> err_ptr \<Rightarrow> (sockets_queue ptr \<times> err_ptr) ub" where
  "sq_init mok error =
     (case s_malloc mok ([] :: sockets_queue) error of
        (NULL, _) \<Rightarrow> UB | (Some q, error') \<Rightarrow> Some (Some q, error'))"

definition sq_add ::
    "bool \<Rightarrow> sockets_queue ptr \<Rightarrow> int \<Rightarrow> fptr ptr \<Rightarrow> err_ptr \<Rightarrow> (sockets_queue ptr \<times> bool \<times> err_ptr) ub" where
  "sq_add mok queue socket handler error =
     (case queue of
        NULL \<Rightarrow> Some (NULL, False, err_report FATAL SQ_QUEUE_IS_NULL error)
      | Some q \<Rightarrow>
          (case handler of
             NULL \<Rightarrow> Some (Some q, False, err_report FATAL SQ_HANDLER_IS_NULL error)
           | Some h \<Rightarrow>
               if socket < 0 then Some (Some q, False, err_report FATAL SQ_INVALID_SOCKET_VALUE error)
               else if List.find (\<lambda>e. sk_socket e = socket) q \<noteq> None
               then Some (Some q, False, err_report EXISTS SQ_SOCKET_EXISTS error)
               else (case s_malloc mok \<lparr>sk_socket = socket, sk_handler = h\<rparr> (Some err_fresh) of
                       (el, er) \<Rightarrow>
                         if failed (the er) then (case error of NULL \<Rightarrow> UB | Some _ \<Rightarrow> Some (Some q, False, er))
                         else do {
                           e \<leftarrow> el;
                           Some (Some (q @ [e]), True, err_report OK ERROR_SUCCESS_msg error)
                         })))"

definition pr_sq_get :: "sockets_queue ptr \<Rightarrow> int \<Rightarrow> err_ptr \<Rightarrow> socket_entry ptr \<times> err_ptr" where
  "pr_sq_get queue socket error =
     (case queue of
        NULL \<Rightarrow> (NULL, err_report FATAL SQ_QUEUE_IS_NULL error)
      | Some q \<Rightarrow>
          (case List.find (\<lambda>e. sk_socket e = socket) q of
             NULL \<Rightarrow> (NULL, err_report NOT_FOUND SQ_SOCKET_NOT_FOUND error)
           | Some el \<Rightarrow> (Some el, err_report OK ERROR_SUCCESS_msg error)))"

definition sq_get :: "sockets_queue ptr \<Rightarrow> int \<Rightarrow> err_ptr \<Rightarrow> fptr ptr \<times> err_ptr" where
  "sq_get queue socket error =
     (case pr_sq_get queue socket error of
        (NULL, error') \<Rightarrow> (NULL, error') | (Some el, error') \<Rightarrow> (Some (sk_handler el), error'))"

text \<open>\<open>sq_delete\<close> is a stub: it reports success and deletes nothing.\<close>

definition sq_delete :: "sockets_queue ptr \<Rightarrow> int \<Rightarrow> sockets_queue ptr \<times> bool" where
  "sq_delete queue socket = (queue, True)"

definition sq_free :: "sockets_queue ptr \<Rightarrow> nat" where
  "sq_free queue = (case queue of NULL \<Rightarrow> 0 | Some q \<Rightarrow> length q + 1)"

section \<open>\<open>occurred_events_queue.c\<close>: the events that occurred\<close>

type_synonym occurred_event_queue = "event_t list"

definition OEQ_QUEUE_IS_NULL :: string where "OEQ_QUEUE_IS_NULL = ''ptr of occurred event queue is null''"
definition OEQ_RETURN_ARGUMENT_IS_NULL :: string where "OEQ_RETURN_ARGUMENT_IS_NULL = ''ptr of return argument is null''"
definition OEQ_QUEUE_IS_EMPTY :: string where "OEQ_QUEUE_IS_EMPTY = ''ptr of occurred event queue is empty''"
definition OEQ_PUSH_ARGUMENT_IS_NULL :: string where
  "OEQ_PUSH_ARGUMENT_IS_NULL = ''ptr of element wil bi pushing in occurred event queue is null''"

definition oeq_init :: "bool \<Rightarrow> err_ptr \<Rightarrow> (occurred_event_queue ptr \<times> err_ptr) ub" where
  "oeq_init mok error =
     (case s_malloc mok ([] :: occurred_event_queue) (Some err_fresh) of
        (q, err) \<Rightarrow> (case q of NULL \<Rightarrow> UB | Some q' \<Rightarrow> Some (Some q', err_assign (the err) error)))"

text \<open>
  The two pops; the out-parameter is given as its old value, with the null pointer for a null
  \<open>event_t **\<close>. The front and the back of the queue are the head and the last element.
\<close>

definition oeq_pop ::
    "(event_t list \<Rightarrow> event_t \<times> event_t list) \<Rightarrow> occurred_event_queue ptr \<Rightarrow> event_t ptr ptr \<Rightarrow> err_ptr \<Rightarrow>
     occurred_event_queue ptr \<times> event_t ptr ptr \<times> bool \<times> err_ptr" where
  "oeq_pop pick queue event error =
     (case queue of
        NULL \<Rightarrow> (NULL, event, False, err_assign (set_err FATAL OEQ_QUEUE_IS_NULL err_fresh) error)
      | Some q \<Rightarrow>
          (case event of
             NULL \<Rightarrow> (Some q, NULL, False, err_assign (set_err FATAL OEQ_RETURN_ARGUMENT_IS_NULL err_fresh) error)
           | Some _ \<Rightarrow>
               if q = [] then (Some q, Some NULL, False, err_report EMPTY OEQ_QUEUE_IS_EMPTY error)
               else (case pick q of (e, q') \<Rightarrow> (Some q', Some (Some e), True, ERROR_SUCCESS error))))"

definition oeq_pop_begin where "oeq_pop_begin = oeq_pop (\<lambda>q. (hd q, tl q))"
definition oeq_pop_back where "oeq_pop_back = oeq_pop (\<lambda>q. (last q, butlast q))"

definition oeq_push ::
    "(event_t list \<Rightarrow> event_t \<Rightarrow> event_t list) \<Rightarrow> bool \<Rightarrow> occurred_event_queue ptr \<Rightarrow> event_t ptr \<Rightarrow> err_ptr \<Rightarrow>
     occurred_event_queue ptr \<times> bool \<times> err_ptr" where
  "oeq_push insert_at mok queue event error =
     (case queue of
        NULL \<Rightarrow> (NULL, False, err_assign (set_err FATAL OEQ_QUEUE_IS_NULL err_fresh) error)
      | Some q \<Rightarrow>
          (case event of
             NULL \<Rightarrow> (Some q, False, err_assign (set_err FATAL OEQ_PUSH_ARGUMENT_IS_NULL err_fresh) error)
           | Some e \<Rightarrow>
               (case s_malloc mok e (Some err_fresh) of
                  (p, err) \<Rightarrow>
                    if failed (the err) then (Some q, False, err_assign (the err) error)
                    else (Some (insert_at q e), True, ERROR_SUCCESS error))))"

definition oeq_push_begin where "oeq_push_begin = oeq_push (\<lambda>q e. e # q)"
definition oeq_push_back where "oeq_push_back = oeq_push (\<lambda>q e. q @ [e])"

definition oeq_free :: "occurred_event_queue ptr \<Rightarrow> nat" where
  "oeq_free queue = (case queue of NULL \<Rightarrow> 0 | Some q \<Rightarrow> 2 * length q + 1)"

section \<open>The registry as a map from socket and event type\<close>

definition req_view :: "registered_events_queue \<Rightarrow> int \<times> event_type \<Rightarrow> event_t option" where
  "req_view q k =
     (case pr_req_get_sock q (fst k) of
        None \<Rightarrow> None
      | Some e \<Rightarrow> (case re_events e of None \<Rightarrow> None | Some evs \<Rightarrow> List.find (\<lambda>v. ev_type v = snd k) evs))"

definition entry_ok :: "registered_events_entry \<Rightarrow> bool" where
  "entry_ok e \<longleftrightarrow> 0 \<le> re_sock e \<and>
     (\<exists>evs. re_events e = Some evs \<and> evs \<noteq> [] \<and> distinct (map ev_type evs) \<and>
            (\<forall>v\<in>set evs. ev_tagged v \<and> ev_socket v = re_sock e))"

definition req_ok :: "registered_events_queue \<Rightarrow> bool" where
  "req_ok q \<longleftrightarrow> distinct (map re_sock q) \<and> (\<forall>e\<in>set q. entry_ok e)"

text \<open>Registering by the type of the event, and taking out by type.\<close>

definition req_put :: "registered_events_queue \<Rightarrow> int \<times> event_type \<Rightarrow> event_t \<Rightarrow> (registered_events_queue \<times> bool) ub" where
  "req_put q k e =
     (case (case e of
              EvAccept a \<Rightarrow> req_push_accept mem_ok (Some q) (fst k) a (Some err_fresh)
            | EvRead r \<Rightarrow> req_push_read mem_ok (Some q) (fst k) r (Some err_fresh)
            | EvWrite w \<Rightarrow> req_push_write mem_ok (Some q) (fst k) w (Some err_fresh)
            | EvClose _ \<Rightarrow> UB) of
        None \<Rightarrow> UB
      | Some (q', b, _) \<Rightarrow> (case q' of None \<Rightarrow> UB | Some q'' \<Rightarrow> Some (q'', b)))"

definition req_take :: "registered_events_queue \<Rightarrow> int \<times> event_type \<Rightarrow> (registered_events_queue \<times> event_t option) ub" where
  "req_take q k =
     (case (case snd k of
              SOCK_ACCEPT \<Rightarrow> map_option (\<lambda>(q', p, _). (q', map_option EvAccept p)) (req_pop_accept (Some q) (fst k) (Some err_fresh))
            | SOCK_READ \<Rightarrow> map_option (\<lambda>(q', p, _). (q', map_option EvRead p)) (req_pop_read (Some q) (fst k) (Some err_fresh))
            | SOCK_WRITE \<Rightarrow> map_option (\<lambda>(q', p, _). (q', map_option EvWrite p)) (req_pop_write (Some q) (fst k) (Some err_fresh))
            | SOCK_CLOSE \<Rightarrow> UB) of
        None \<Rightarrow> UB
      | Some (q', r) \<Rightarrow> (case q' of None \<Rightarrow> UB | Some q'' \<Rightarrow> Some (q'', r)))"

definition req_fits :: "int \<times> event_type \<Rightarrow> event_t \<Rightarrow> bool" where
  "req_fits k e \<longleftrightarrow> 0 \<le> fst k \<and> ev_tagged e \<and> ev_type e = snd k \<and> ev_socket e = fst k \<and> snd k \<noteq> SOCK_CLOSE"

definition req_key :: "int \<times> event_type \<Rightarrow> bool" where
  "req_key k \<longleftrightarrow> 0 \<le> fst k \<and> snd k \<noteq> SOCK_CLOSE"

lemma req_okD:
  assumes "req_ok q" "pr_req_get_sock q s = Some e"
  obtains evs where "re_sock e = s" "0 \<le> s" "re_events e = Some evs" "evs \<noteq> []" "distinct (map ev_type evs)"
    "\<forall>v\<in>set evs. ev_tagged v \<and> ev_socket v = s"
  using assms find_SomeD [of "\<lambda>e. re_sock e = s" q e]
  unfolding req_ok_def entry_ok_def pr_req_get_sock_def by blast

lemma find_eq_None_if: "x \<notin> f ` set xs \<Longrightarrow> List.find (\<lambda>y. f y = x) xs = None"
  by (auto simp: find_None_iff)

lemma req_view_append:
  assumes "pr_req_get_sock q s = None"
  shows "req_view (q @ [\<lparr>re_sock = s, re_events = Some [e]\<rparr>]) = (req_view q)((s, ev_type e) \<mapsto> e)"
  using assms unfolding pr_req_get_sock_def
  by (auto simp: req_view_def pr_req_get_sock_def fun_eq_iff tailq_simps split: option.splits)

lemma get_sock_update:
  "pr_req_get_sock (tailq_update_first (\<lambda>e. re_sock e = s) (\<lambda>e. e\<lparr>re_events := evs\<rparr>) q) t
     = (if t = s then map_option (\<lambda>e. e\<lparr>re_events := evs\<rparr>) (pr_req_get_sock q s) else pr_req_get_sock q t)"
proof (cases "t = s")
  case True
  then show ?thesis unfolding pr_req_get_sock_def
    by (simp only: if_True refl) (rule find_tailq_update_first_same, simp)
next
  case False
  then show ?thesis unfolding pr_req_get_sock_def
    by (simp only: if_False) (rule find_tailq_update_first_other, simp_all)
qed

lemma get_sock_remove:
  "distinct (map re_sock q) \<Longrightarrow>
   pr_req_get_sock (tailq_remove_first (\<lambda>e. re_sock e = s) q) t = (if t = s then None else pr_req_get_sock q t)"
  unfolding pr_req_get_sock_def
  by (cases "t = s") (simp_all only: if_True if_False find_tailq_remove_first_same find_tailq_remove_first_other not_False_eq_True refl)

lemma req_view_update:
  assumes "pr_req_get_sock q s = Some e"
  shows "req_view (tailq_update_first (\<lambda>e. re_sock e = s) (\<lambda>e. e\<lparr>re_events := Some evs\<rparr>) q) k
       = (if fst k = s then List.find (\<lambda>v. ev_type v = snd k) evs else req_view q k)"
  using assms by (simp add: req_view_def get_sock_update)

lemma req_ok_update:
  assumes "req_ok q" "evs \<noteq> []" "distinct (map ev_type evs)" "\<forall>v\<in>set evs. ev_tagged v \<and> ev_socket v = s"
  shows "req_ok (tailq_update_first (\<lambda>e. re_sock e = s) (\<lambda>e. e\<lparr>re_events := Some evs\<rparr>) q)"
proof -
  from assms(1) have d: "distinct (map re_sock q)" and a: "\<forall>e\<in>set q. entry_ok e"
    by (simp_all add: req_ok_def)
  have "entry_ok (e\<lparr>re_events := Some evs\<rparr>)" if "e \<in> set q" "re_sock e = s" for e
  proof -
    have "0 \<le> re_sock e" using a that(1) by (simp add: entry_ok_def)
    then show ?thesis unfolding entry_ok_def using assms(2-4) that(2) by simp
  qed
  with a have "\<forall>e\<in>set (tailq_update_first (\<lambda>e. re_sock e = s) (\<lambda>e. e\<lparr>re_events := Some evs\<rparr>) q). entry_ok e"
    by (rule all_tailq_update_first)
  moreover have "map re_sock (tailq_update_first (\<lambda>e. re_sock e = s) (\<lambda>e. e\<lparr>re_events := Some evs\<rparr>) q) = map re_sock q"
    by (rule map_tailq_update_first) simp
  ultimately show ?thesis using d by (simp add: req_ok_def)
qed

lemma req_view_remove:
  assumes "req_ok q"
  shows "req_view (tailq_remove_first (\<lambda>e. re_sock e = s) q) k = (if fst k = s then None else req_view q k)"
  using assms by (simp add: req_view_def req_ok_def get_sock_remove)

lemma req_ok_remove: "req_ok q \<Longrightarrow> req_ok (tailq_remove_first p q)"
  using set_tailq_remove_first [of p q] by (auto simp: req_ok_def distinct_tailq_remove_first)

lemma init_before_add_run:
  assumes "0 \<le> s"
  shows "pr_req_init_before_add mem_ok (Some q) s (Some er) =
    (case pr_req_get_sock q s of
       Some e \<Rightarrow> (Some q, Some e, True, Some (set_err OK ERROR_SUCCESS_msg er))
     | None \<Rightarrow> (let e = \<lparr>re_sock = s, re_events = Some []\<rparr> in (Some (q @ [e]), Some e, True, Some (set_err OK ERROR_SUCCESS_msg er))))"
  using assms by (simp add: pr_req_init_before_add_def mem_ok_def eq_init_def err_simps Let_def split: option.split)

lemma eq_push_run:
  "eq_push True (Some evs) (Some e) (Some er) =
    (if List.find (\<lambda>v. ev_type v = ev_type e) evs = None
     then (Some (evs @ [e]), True, Some (set_err OK ERROR_SUCCESS_msg er))
     else (Some evs, False, Some (set_err EXISTS EQ_ELEMENT_TYPE_EXISTS er)))"
  by (simp add: eq_push_def eq_add_def el_is_contain_def err_simps)

text \<open>The body of a registration, for the three kinds of events at once.\<close>

lemma req_push_run:
  assumes ok: "req_ok q" and fit: "req_fits (s, ev_type e) e"
    and push: "\<And>evs err. push evs err = eq_push True evs (Some e) err"
  shows "\<exists>q'. req_push mem_ok (Some q) s push (Some er) =
      Some (Some q', req_view q (s, ev_type e) = None,
            Some (if req_view q (s, ev_type e) = None then set_err OK ERROR_SUCCESS_msg er
                  else set_err EXISTS EQ_ELEMENT_TYPE_EXISTS (set_err OK ERROR_SUCCESS_msg (set_err OK ERROR_SUCCESS_msg err_fresh))))
    \<and> req_ok q' \<and> req_view q' = (if req_view q (s, ev_type e) = None then (req_view q)((s, ev_type e) \<mapsto> e) else req_view q)"
proof (cases "pr_req_get_sock q s")
  case None
  let ?q = "q @ [\<lparr>re_sock = s, re_events = Some [e]\<rparr>]"
  have upd: "tailq_update_first (\<lambda>e. re_sock e = s) (\<lambda>x. x\<lparr>re_events := Some [e]\<rparr>) (q @ [\<lparr>re_sock = s, re_events = Some []\<rparr>]) = ?q"
    using None unfolding pr_req_get_sock_def by (induction q) (auto split: if_splits)
  have "req_ok ?q"
    using ok None fit
    by (auto simp: req_ok_def entry_ok_def req_fits_def pr_req_get_sock_def find_None_iff image_iff)
  moreover have "req_view q (s, ev_type e) = None" using None by (simp add: req_view_def)
  ultimately show ?thesis
    using None fit upd req_view_append [OF None, of e]
    by (simp add: req_push_def init_before_add_run push eq_push_run err_simps req_fits_def Let_def)
next
  case (Some ent)
  from ok Some obtain evs where
    e: "re_sock ent = s" "0 \<le> s" "re_events ent = Some evs" "evs \<noteq> []" "distinct (map ev_type evs)"
    "\<forall>v\<in>set evs. ev_tagged v \<and> ev_socket v = s" by (rule req_okD)
  have v: "req_view q (s, ty) = List.find (\<lambda>v. ev_type v = ty) evs" for ty
    using Some e(3) by (simp add: req_view_def)
  show ?thesis
  proof (cases "List.find (\<lambda>v. ev_type v = ev_type e) evs")
    case none: None
    let ?q = "tailq_update_first (\<lambda>e. re_sock e = s) (\<lambda>x. x\<lparr>re_events := Some (evs @ [e])\<rparr>) q"
    have fresh: "ev_type e \<notin> ev_type ` set evs" using none by (auto simp: find_None_iff)
    have "req_ok ?q" using ok e fit fresh by (intro req_ok_update) (auto simp: req_fits_def)
    moreover have "req_view ?q = (req_view q)((s, ev_type e) \<mapsto> e)"
    proof
      fix k
      show "req_view ?q k = ((req_view q)((s, ev_type e) \<mapsto> e)) k"
        using none fresh v by (cases k) (auto simp: req_view_update [OF Some] tailq_simps split: option.splits)
    qed
    ultimately show ?thesis
      using Some e none v
      by (simp add: req_push_def init_before_add_run push eq_push_run err_simps Let_def)
  next
    case (Some e0)
    let ?q = "tailq_update_first (\<lambda>e. re_sock e = s) (\<lambda>x. x\<lparr>re_events := Some evs\<rparr>) q"
    have "req_ok ?q" using ok e by (intro req_ok_update) auto
    moreover have "req_view ?q = req_view q"
      using v \<open>pr_req_get_sock q s = Some ent\<close> by (auto simp: req_view_update fun_eq_iff)
    ultimately show ?thesis
      using Some e v \<open>pr_req_get_sock q s = Some ent\<close>
      by (simp add: req_push_def init_before_add_run push eq_push_run err_simps Let_def)
  qed
qed

lemma req_pop_run:
  assumes ok: "req_ok q" and key: "0 \<le> s"
    and pop: "\<And>evs err. pop evs err = eq_pop evs ty err"
  shows "\<exists>q'. pr_req_pop (Some q) s (Some er) pop =
      Some (Some q', req_view q (s, ty),
            Some (case pr_req_get_sock q s of
                    None \<Rightarrow> set_err NOT_FOUND REQ_SOCK_NOTFOUND er
                  | Some _ \<Rightarrow> (if req_view q (s, ty) = None
                               then set_err NOT_FOUND REQ_EVENT_FOR_SOCKET_NOTFOUND (set_err NOT_FOUND EQ_ELEMENT_NOT_FOUND er)
                               else set_err OK ERROR_SUCCESS_msg (set_err OK ERROR_SUCCESS_msg er))))
    \<and> req_ok q' \<and> req_view q' = (req_view q)((s, ty) := None)"
proof (cases "pr_req_get_sock q s")
  case None
  then have "(req_view q)((s, ty) := None) = req_view q" "req_view q (s, ty) = None"
    by (auto simp: req_view_def fun_eq_iff)
  then show ?thesis using None key ok by (simp add: pr_req_pop_def err_simps)
next
  case (Some ent)
  from ok Some obtain evs where
    e: "re_sock ent = s" "0 \<le> s" "re_events ent = Some evs" "evs \<noteq> []" "distinct (map ev_type evs)"
    "\<forall>v\<in>set evs. ev_tagged v \<and> ev_socket v = s" by (rule req_okD)
  have v: "req_view q (s, t) = List.find (\<lambda>v. ev_type v = t) evs" for t
    using Some e(3) by (simp add: req_view_def)
  let ?rest = "tailq_remove_first (\<lambda>v. ev_type v = ty) evs"
  have rest: "List.find (\<lambda>v. ev_type v = t) ?rest = (if t = ty then None else List.find (\<lambda>v. ev_type v = t) evs)" for t
    using find_tailq_remove_first_same [OF e(5)] by (simp add: tailq_simps)
  define q' where "q' = (if ?rest = [] then tailq_remove_first (\<lambda>e. re_sock e = s) q
      else tailq_update_first (\<lambda>e. re_sock e = s) (\<lambda>e. e\<lparr>re_events := Some ?rest\<rparr>) q)"
  have "req_ok q'"
  proof (cases "?rest = []")
    case True
    then show ?thesis using ok by (simp add: q'_def req_ok_remove)
  next
    case False
    have "\<forall>v\<in>set ?rest. ev_tagged v \<and> ev_socket v = s"
      using e(6) by (rule all_tailq_remove_first)
    moreover have "distinct (map ev_type ?rest)" using e(5) by (rule distinct_tailq_remove_first)
    moreover have "q' = tailq_update_first (\<lambda>e. re_sock e = s) (\<lambda>e. e\<lparr>re_events := Some ?rest\<rparr>) q"
      using False by (simp only: q'_def if_False)
    ultimately show ?thesis using ok False by (simp only: req_ok_update not_False_eq_True)
  qed
  moreover have "req_view q' = (req_view q)((s, ty) := None)"
  proof
    fix k
    have q': "req_view q' k = (if fst k = s then List.find (\<lambda>v. ev_type v = snd k) ?rest else req_view q k)"
    proof (cases "?rest = []")
      case True
      then have "q' = tailq_remove_first (\<lambda>e. re_sock e = s) q" by (simp only: q'_def if_True refl)
      with True show ?thesis by (simp only: req_view_remove [OF ok] find.simps)
    next
      case False
      then show ?thesis unfolding q'_def by (simp only: if_False req_view_update [OF Some])
    qed
    show "req_view q' k = ((req_view q)((s, ty) := None)) k"
      unfolding q' rest using v [of "snd k"] by (cases k) simp
  qed
  moreover have "pr_req_pop (Some q) s (Some er) pop = Some (Some q', req_view q (s, ty),
       Some (if req_view q (s, ty) = None
             then set_err NOT_FOUND REQ_EVENT_FOR_SOCKET_NOTFOUND (set_err NOT_FOUND EQ_ELEMENT_NOT_FOUND er)
             else set_err OK ERROR_SUCCESS_msg (set_err OK ERROR_SUCCESS_msg er)))"
    using Some e(3,4) key v
    by (cases "req_view q (s, ty)") (simp_all add: pr_req_pop_def pop eq_pop_def err_simps q'_def tailq_remove_first_id Let_def)
  ultimately show ?thesis using Some by simp
qed

lemma se_type_idem:
  "se_type a = ty \<Longrightarrow> (a :: event_sock_accept)\<lparr>se_type := ty\<rparr> = a"
  "se_type r = ty \<Longrightarrow> (r :: event_sock_read)\<lparr>se_type := ty\<rparr> = r"
  "se_type w = ty \<Longrightarrow> (w :: event_sock_write)\<lparr>se_type := ty\<rparr> = w"
  by (cases a, simp) (cases r, simp, cases w, simp)

lemma req_put_law:
  assumes "req_ok q" "req_fits k e"
  shows "\<exists>q'. req_put q k e = Some (q', req_view q k = None) \<and> req_ok q' \<and>
              req_view q' = (if req_view q k = None then (req_view q)(k \<mapsto> e) else req_view q)"
proof -
  from assms(2) have tag: "ev_tagged e" and k: "k = (ev_socket e, ev_type e)" and c: "ev_type e \<noteq> SOCK_CLOSE"
    by (auto simp: req_fits_def prod_eq_iff)
  note run = req_push_run [OF assms(1) assms(2) [unfolded k]]
  from tag c show ?thesis
  proof (cases rule: ev_tagged_cases)
    case (1 a)
    have push: "eq_push_accept True evs (Some a) err = eq_push True evs (Some e) err" for evs err
      using 1 by (simp add: eq_push_accept_def se_type_idem)
    show ?thesis
      using 1 run [of "\<lambda>evs err. eq_push_accept True evs (Some a) err" err_fresh, OF push]
      by (auto simp: k req_put_def req_push_accept_def mem_ok_def)
  next
    case (2 r)
    have push: "eq_push_read True evs (Some r) err = eq_push True evs (Some e) err" for evs err
      using 2 by (simp add: eq_push_read_def se_type_idem)
    show ?thesis
      using 2 run [of "\<lambda>evs err. eq_push_read True evs (Some r) err" err_fresh, OF push]
      by (auto simp: k req_put_def req_push_read_def mem_ok_def)
  next
    case (3 w)
    have push: "eq_push_write True evs (Some w) err = eq_push True evs (Some e) err" for evs err
      using 3 by (simp add: eq_push_write_def se_type_idem)
    show ?thesis
      using 3 run [of "\<lambda>evs err. eq_push_write True evs (Some w) err" err_fresh, OF push]
      by (auto simp: k req_put_def req_push_write_def mem_ok_def)
  qed simp
qed

lemma req_view_tagged:
  assumes "req_ok q" "req_view q (s, ty) = Some e"
  shows "ev_tagged e" "ev_type e = ty" "ev_socket e = s" "0 \<le> s"
proof -
  from assms(2) obtain ent where ent: "pr_req_get_sock q s = Some ent"
    by (auto simp: req_view_def split: option.splits)
  from assms(1) ent obtain evs where
    "re_sock ent = s" "0 \<le> s" "re_events ent = Some evs" "\<forall>v\<in>set evs. ev_tagged v \<and> ev_socket v = s" by (rule req_okD)
  with ent assms(2) find_SomeD [of "\<lambda>v. ev_type v = ty" evs e]
  show "ev_tagged e" "ev_type e = ty" "ev_socket e = s" "0 \<le> s" by (auto simp: req_view_def)
qed

lemma req_take_law:
  assumes ok: "req_ok q" and key: "req_key k"
  shows "\<exists>q'. req_take q k = Some (q', req_view q k) \<and> req_ok q' \<and> req_view q' = (req_view q)(k := None)"
proof -
  obtain s ty where k: "k = (s, ty)" by (cases k)
  from key have s: "0 \<le> s" and ty: "ty \<noteq> SOCK_CLOSE" by (simp_all add: req_key_def k)
  note tagged = req_view_tagged [OF ok, of s ty]
  show ?thesis
  proof (cases ty)
    case SOCK_ACCEPT
    from req_pop_run [OF ok s, of eq_pop_accept SOCK_ACCEPT err_fresh] obtain q' er where
      p: "pr_req_pop (Some q) s (Some err_fresh) eq_pop_accept = Some (Some q', req_view q k, Some er)"
         "req_ok q'" "req_view q' = (req_view q)(k := None)"
      by (auto simp: eq_pop_accept_def k SOCK_ACCEPT)
    show ?thesis
    proof (cases "req_view q k")
      case (Some e)
      with tagged SOCK_ACCEPT obtain a where "e = EvAccept a" by (auto simp: k elim: ev_tagged_cases)
      then show ?thesis using p Some tagged SOCK_ACCEPT by (simp add: req_take_def req_pop_accept_def k)
    qed (use p SOCK_ACCEPT in \<open>simp add: req_take_def req_pop_accept_def k\<close>)
  next
    case SOCK_READ
    from req_pop_run [OF ok s, of eq_pop_read SOCK_READ err_fresh] obtain q' er where
      p: "pr_req_pop (Some q) s (Some err_fresh) eq_pop_read = Some (Some q', req_view q k, Some er)"
         "req_ok q'" "req_view q' = (req_view q)(k := None)"
      by (auto simp: eq_pop_read_def k SOCK_READ)
    show ?thesis
    proof (cases "req_view q k")
      case (Some e)
      with tagged SOCK_READ obtain r where "e = EvRead r" by (auto simp: k elim: ev_tagged_cases)
      then show ?thesis using p Some tagged SOCK_READ by (simp add: req_take_def req_pop_read_def k)
    qed (use p SOCK_READ in \<open>simp add: req_take_def req_pop_read_def k\<close>)
  next
    case SOCK_WRITE
    from req_pop_run [OF ok s, of eq_pop_write SOCK_WRITE err_fresh] obtain q' er where
      p: "pr_req_pop (Some q) s (Some err_fresh) eq_pop_write = Some (Some q', req_view q k, Some er)"
         "req_ok q'" "req_view q' = (req_view q)(k := None)"
      by (auto simp: eq_pop_write_def k SOCK_WRITE)
    show ?thesis
    proof (cases "req_view q k")
      case (Some e)
      with tagged SOCK_WRITE obtain w where "e = EvWrite w" by (auto simp: k elim: ev_tagged_cases)
      then show ?thesis using p Some tagged SOCK_WRITE by (simp add: req_take_def req_pop_write_def k)
    qed (use p SOCK_WRITE in \<open>simp add: req_take_def req_pop_write_def k\<close>)
  qed (use ty in simp)
qed

interpretation registry: keyed_store req_put req_view req_ok req_fits req_take req_key
  by unfold_locales (blast intro: req_put_law req_take_law)+

section \<open>The acceptors as a map, and the occurred events as a queue\<close>

definition sq_view :: "sockets_queue \<Rightarrow> int \<Rightarrow> fptr option" where
  "sq_view q s = map_option sk_handler (List.find (\<lambda>e. sk_socket e = s) q)"

definition sq_ok :: "sockets_queue \<Rightarrow> bool" where
  "sq_ok q \<longleftrightarrow> distinct (map sk_socket q) \<and> (\<forall>e\<in>set q. 0 \<le> sk_socket e)"

definition sq_put :: "sockets_queue \<Rightarrow> int \<Rightarrow> fptr \<Rightarrow> (sockets_queue \<times> bool) ub" where
  "sq_put q s h =
     (case sq_add True (Some q) s (Some h) (Some err_fresh) of
        None \<Rightarrow> UB | Some (q', b, _) \<Rightarrow> (case q' of None \<Rightarrow> UB | Some q'' \<Rightarrow> Some (q'', b)))"

lemma sq_add_run:
  assumes "0 \<le> s"
  shows "sq_add True (Some q) s (Some h) error =
    Some (if sq_view q s = None
          then (Some (q @ [\<lparr>sk_socket = s, sk_handler = h\<rparr>]), True, err_report OK ERROR_SUCCESS_msg error)
          else (Some q, False, err_report EXISTS SQ_SOCKET_EXISTS error))"
  using assms by (simp add: sq_add_def sq_view_def err_simps)

interpretation acceptors: keyed_lookup sq_put sq_view sq_ok "\<lambda>s h. 0 \<le> s"
proof unfold_locales
  fix q s and h :: fptr
  assume q: "sq_ok q" "0 \<le> (s::int)"
  show "\<exists>q'. sq_put q s h = Some (q', sq_view q s = None) \<and> sq_ok q' \<and>
             sq_view q' = (if sq_view q s = None then (sq_view q)(s \<mapsto> h) else sq_view q)"
  proof (cases "sq_view q s")
    case None
    let ?q = "q @ [\<lparr>sk_socket = s, sk_handler = h\<rparr>]"
    have "sq_ok ?q" using q None by (auto simp: sq_ok_def sq_view_def find_None_iff image_iff)
    moreover have "sq_view ?q = (sq_view q)(s \<mapsto> h)"
      using None by (auto simp: sq_view_def fun_eq_iff find_append split: option.splits)
    ultimately show ?thesis using None q by (simp add: sq_put_def sq_add_run)
  next
    case (Some h')
    then show ?thesis using q by (simp add: sq_put_def sq_add_run)
  qed
qed

definition oeq_enq :: "occurred_event_queue \<Rightarrow> event_t \<Rightarrow> occurred_event_queue ub" where
  "oeq_enq q e = fst (oeq_push_back True (Some q) (Some e) (Some err_fresh))"

definition oeq_deq :: "occurred_event_queue \<Rightarrow> (occurred_event_queue \<times> event_t option) ub" where
  "oeq_deq q =
     (case oeq_pop_begin (Some q) (Some NULL) (Some err_fresh) of
        (Some q', Some p, _) \<Rightarrow> Some (q', p) | _ \<Rightarrow> UB)"

lemma oeq_push_back_run:
  "oeq_push_back True (Some q) (Some e) (Some er) = (Some (q @ [e]), True, Some (set_err OK ERROR_SUCCESS_msg er))"
  by (simp add: oeq_push_back_def oeq_push_def err_simps)

lemma oeq_pop_begin_run:
  "oeq_pop_begin (Some []) (Some p) error = (Some [], Some NULL, False, err_report EMPTY OEQ_QUEUE_IS_EMPTY error)"
  "oeq_pop_begin (Some (e # q)) (Some p) error = (Some q, Some (Some e), True, ERROR_SUCCESS error)"
  by (simp_all add: oeq_pop_begin_def oeq_pop_def)

interpretation occurred: fifo oeq_enq oeq_deq "\<lambda>q. q" "\<lambda>_. True"
proof unfold_locales
  fix q :: occurred_event_queue and e
  show "\<exists>q'. oeq_enq q e = Some q' \<and> True \<and> q' = q @ [e]"
    by (simp add: oeq_enq_def oeq_push_back_run)
next
  fix q :: occurred_event_queue
  show "\<exists>q'. oeq_deq q = Some (q', case q of [] \<Rightarrow> None | e # _ \<Rightarrow> Some e) \<and> True \<and> q' = tl q"
    by (cases q) (simp_all add: oeq_deq_def oeq_pop_begin_run)
qed

section \<open>Properties\<close>

lemma bit_foldl_or:
  "bit (foldl (\<lambda>m e. or m (f e)) (z::int) es) n \<longleftrightarrow> bit z n \<or> (\<exists>e\<in>set es. bit (f e) n)"
  by (induction es arbitrary: z) (auto simp: bit_or_iff)

lemma req_bit_bits:
  "bit (req_bit ty) 0 \<longleftrightarrow> ty = SOCK_ACCEPT" "bit (req_bit ty) (Suc 0) \<longleftrightarrow> ty = SOCK_READ"
  "bit (req_bit ty) 2 \<longleftrightarrow> ty = SOCK_WRITE"
  by (cases ty; simp add: REQ_ACCEPT_EVENT_def REQ_READ_EVENT_def REQ_WRITE_EVENT_def bit_iff_odd)+

definition demo_read :: "int \<Rightarrow> event_sock_read" where
  "demo_read s = \<lparr>se_type = SOCK_READ, se_socket = s, se_error = err_fresh, rd_handler = 1,
                  rd_buffer = ''....'', rd_size = 4, rd_offset = 0, rd_status = CONNECTED\<rparr>"

text \<open>
  C35: Started from an empty registry, every sequence of \<open>req_push_...\<close> and \<open>req_pop_...\<close> calls is
  defined, keeps the registry well formed (one entry per socket, never empty, at most one event
  per type), and returns exactly what the same sequence returns on a finite map from socket and
  event type to the event: a second registration is refused, and a pop takes the entry out.
\<close>

theorem registry_refines_map:
  assumes "\<forall>op\<in>set ops. op_fits req_fits req_key op"
  shows "\<exists>q. store_run req_put req_take [] ops = Some (q, snd (map_run Map.empty ops))
             \<and> req_ok q \<and> req_view q = fst (map_run Map.empty ops)"
proof -
  have "req_ok []" "req_view [] = Map.empty"
    by (auto simp: req_ok_def req_view_def pr_req_get_sock_def)
  with registry.run_refines [OF _ assms] show ?thesis by metis
qed

theorem registry_refines_map_witness:
  "\<exists>q. store_run req_put req_take []
         [Put (4, SOCK_READ) (EvRead (demo_read 4)), Put (4, SOCK_READ) (EvRead (demo_read 4)), Take (4, SOCK_READ), Take (4, SOCK_READ)]
       = Some (q, [Done True, Done False, Found (Some (EvRead (demo_read 4))), Found None])"
proof -
  let ?ops = "[Put (4, SOCK_READ) (EvRead (demo_read 4)), Put (4, SOCK_READ) (EvRead (demo_read 4)),
               Take (4, SOCK_READ), Take (4, SOCK_READ)]"
  have "\<forall>op\<in>set ?ops. op_fits req_fits req_key op"
    by (simp add: req_fits_def req_key_def demo_read_def ev_tagged_def)
  from registry_refines_map [OF this] show ?thesis by auto
qed

text \<open>
  \<open>req_reg\<close> returns exactly the set of the registered event types as its bits, and is
  undefined (a null dereference) precisely for a socket that has nothing registered.
\<close>

theorem req_reg_bits:
  assumes "req_ok q"
  shows "if \<forall>ty. req_view q (s, ty) = None then req_reg (Some q) s error = UB
         else \<exists>m. req_reg (Some q) s error = Some (m, ERROR_SUCCESS error)
                 \<and> (bit m 0 \<longleftrightarrow> req_view q (s, SOCK_ACCEPT) \<noteq> None) \<and> (bit m 1 \<longleftrightarrow> req_view q (s, SOCK_READ) \<noteq> None)
                 \<and> (bit m 2 \<longleftrightarrow> req_view q (s, SOCK_WRITE) \<noteq> None)"
proof (cases "pr_req_get_sock q s")
  case None
  then show ?thesis by (simp add: req_reg_def req_view_def)
next
  case (Some ent)
  from assms Some obtain evs where
    e: "re_sock ent = s" "0 \<le> s" "re_events ent = Some evs" "evs \<noteq> []" by (rule req_okD)
  have v: "req_view q (s, ty) \<noteq> None \<longleftrightarrow> (\<exists>v\<in>set evs. ev_type v = ty)" for ty
    using Some e(3) by (auto simp: req_view_def find_None_iff)
  obtain v0 where "v0 \<in> set evs" using e(4) by (cases evs) auto
  then have "\<not> (\<forall>ty. req_view q (s, ty) = None)" using v by blast
  then show ?thesis using Some e(3) v by (simp add: req_reg_def bit_foldl_or req_bit_bits)
qed

theorem req_reg_bits_witness:
  "\<exists>q m. store_run req_put req_take [] [Put (4, SOCK_READ) (EvRead (demo_read 4))] = Some (q, [Done True])
         \<and> req_reg (Some q) 4 NULL = Some (m, NULL) \<and> bit m 1 \<and> \<not> bit m 2"
proof -
  have "req_fits (4, SOCK_READ) (EvRead (demo_read 4))" by (simp add: req_fits_def demo_read_def ev_tagged_def)
  moreover have "req_ok []" "req_view [] = Map.empty"
    by (auto simp: req_ok_def req_view_def pr_req_get_sock_def)
  ultimately obtain q where q: "req_put [] (4, SOCK_READ) (EvRead (demo_read 4)) = Some (q, True)" "req_ok q"
    "req_view q = [(4, SOCK_READ) \<mapsto> EvRead (demo_read 4)]"
    using registry.putE [of "[]" "(4, SOCK_READ)" "EvRead (demo_read 4)"] by auto
  have "\<not> (\<forall>ty. req_view q (4, ty) = None)" using q(3) by auto
  with req_reg_bits [OF q(2), of 4 NULL] obtain m where
    "req_reg (Some q) 4 NULL = Some (m, ERROR_SUCCESS NULL)" "bit m 1 \<longleftrightarrow> req_view q (4, SOCK_READ) \<noteq> None"
    "bit m 2 \<longleftrightarrow> req_view q (4, SOCK_WRITE) \<noteq> None"
    by (simp only: if_False) blast
  with q show ?thesis by (simp add: err_simps)
qed

text \<open>
  The events that occurred are delivered in the order in which they occurred: whatever was
  queued with \<open>oeq_push_back\<close> comes out of \<open>oeq_pop_begin\<close> in the same order, none lost, and the
  queue reports EMPTY afterwards.
\<close>

theorem occurred_events_in_order:
  "\<exists>q q'. run_inputs oeq_enq [] es = Some q \<and> drain oeq_deq (length es) q = Some (q', map Some es)
          \<and> oeq_pop_begin (Some q') (Some NULL) (Some e) = (Some q', Some NULL, False, Some (set_err EMPTY OEQ_QUEUE_IS_EMPTY e))"
proof -
  obtain q q' where "run_inputs oeq_enq [] es = Some q" "drain oeq_deq (length es) q = Some (q', map Some es)" "q' = []"
    using occurred.order_preserved [of "[]" es] by auto
  then show ?thesis by (auto simp: oeq_pop_begin_run err_simps)
qed

text \<open>
  An acceptor has one handler: the first registration for a valid socket is kept, a second
  one is refused with EXISTS, and \<open>sq_delete\<close> reports success without removing it, so that the
  socket can never be registered again.
\<close>

theorem acceptor_registered_once:
  assumes "0 \<le> s" "sq_view q s = None"
  shows "\<exists>q1. sq_add True (Some q) s (Some h) (Some e) = Some (Some q1, True, Some (set_err OK ERROR_SUCCESS_msg e))
     \<and> sq_get (fst (sq_delete (Some q1) s)) s (Some e) = (Some h, Some (set_err OK ERROR_SUCCESS_msg e))
     \<and> snd (sq_delete (Some q1) s)
     \<and> sq_add True (fst (sq_delete (Some q1) s)) s (Some h') (Some e) = Some (Some q1, False, Some (set_err EXISTS SQ_SOCKET_EXISTS e))"
proof -
  let ?q1 = "q @ [\<lparr>sk_socket = s, sk_handler = h\<rparr>]"
  have find: "List.find (\<lambda>e. sk_socket e = s) ?q1 = Some \<lparr>sk_socket = s, sk_handler = h\<rparr>"
    using assms(2) by (simp add: sq_view_def find_append)
  then have "sq_view ?q1 s \<noteq> None" by (simp add: sq_view_def)
  then show ?thesis
    using assms find by (simp add: sq_add_run sq_delete_def sq_get_def pr_sq_get_def err_simps)
qed

theorem acceptor_registered_once_witness:
  "\<exists>q1. sq_add True (Some []) 3 (Some 7) (Some err_fresh) = Some (Some q1, True, Some (set_err OK ERROR_SUCCESS_msg err_fresh))
     \<and> snd (sq_delete (Some q1) 3)
     \<and> sq_add True (fst (sq_delete (Some q1) 3)) 3 (Some 8) (Some err_fresh)
         = Some (Some q1, False, Some (set_err EXISTS SQ_SOCKET_EXISTS err_fresh))"
  using acceptor_registered_once [of 3 "[]" 7 err_fresh 8] by (auto simp: sq_view_def)

end
