(* ===== verification/EventLoop.thy ===== *)
theory EventLoop
  imports Events
begin

text \<open>
  The event loop \<open>server/src/lib/event_loop/event_loop.c\<close>: the registration functions, the
  manager step (build the \<open>pollfd\<close> array, poll, turn ready descriptors into occurred events) and
  \<open>el_run\<close> (timers, then one occurred event). Locking a mutex succeeds. What the operating system
  answers is an argument: the results of \<open>poll\<close>, of the successive \<open>recv\<close> and \<open>send\<close> calls, and
  of \<open>accept\<close>. A handler is a function from the call to the change of the loop it makes.
  \<open>el_sent\<close> records the bytes handed to \<open>send\<close>, \<open>el_reported\<close> the calls of the global handler.
\<close>

section \<open>State\<close>

record sock_timer_event =
  te_id :: nat
  te_socket :: int
  te_period :: "32 word"
  te_time_start :: "32 word"
  te_handler :: fptr
  te_has_delete :: bool
  te_is_processed :: bool

datatype work_mode = ONE_THREAD | OWN_THREAD

record event_loop =
  el_acceptors :: "sockets_queue ptr"
  el_index_acceptors_start :: nat
  el_registered :: "registered_events_queue ptr"
  el_timers :: "sock_timer_event list"
  el_occurred :: "occurred_event_queue ptr"
  el_is_run :: bool
  el_thread :: bool
  el_global_handler :: fptr
  el_next_timer :: nat
  el_sent :: "(int \<times> string) list"
  el_reported :: "(int \<times> err_t) list"

definition EL_ERROR_MUTEX_INIT :: string where "EL_ERROR_MUTEX_INIT = ''error mutex init''"
definition EL_EVENT_LOOP_PTR_IS_NULL :: string where "EL_EVENT_LOOP_PTR_IS_NULL = ''event loop ptr is null''"
definition EL_INVALID_EVENT_TYPE :: string where "EL_INVALID_EVENT_TYPE = ''invalid event type''"
definition EL_POLLFD_ERROR :: string where "EL_POLLFD_ERROR = ''error execute poll''"
definition EL_NO_EVENTS :: string where "EL_NO_EVENTS = ''not occurred events''"
definition EL_PARAMETER_IS_NULL :: string where "EL_PARAMETER_IS_NULL = ''parameter of function is null''"
definition EL_UNDEFINED_ERROR_OF_READ :: string where
  "EL_UNDEFINED_ERROR_OF_READ = ''occurred undefined error when perform read''"
definition EL_UNDEFINED_ERROR_OF_WRITE :: string where
  "EL_UNDEFINED_ERROR_OF_WRITE = ''occurred undefined error when perform write''"

definition EAGAIN :: int where "EAGAIN = 11"
definition EPIPE :: int where "EPIPE = 32"
definition NO_SOCKET :: int where "NO_SOCKET = - 1"

text \<open>The error field of a zeroed event.\<close>

definition err_zero :: err_t where "err_zero = \<lparr>err_message = [], err_error = OK, err_errno = 0\<rparr>"

definition report :: "int \<Rightarrow> err_t \<Rightarrow> 'z event_loop_scheme \<Rightarrow> 'z event_loop_scheme" where
  "report sock e loop = loop\<lparr>el_reported := el_reported loop @ [(sock, e)]\<rparr>"

section \<open>Creation, start and stop\<close>

definition pr_default_global_handler :: fptr where "pr_default_global_handler = 0"

definition el_stop :: "'z event_loop_scheme ptr \<Rightarrow> err_ptr \<Rightarrow> 'z event_loop_scheme ptr \<times> bool \<times> err_ptr" where
  "el_stop loop error =
     (case loop of
        NULL \<Rightarrow> (NULL, False, err_report FATAL EL_EVENT_LOOP_PTR_IS_NULL (ERROR_SUCCESS error))
      | Some l \<Rightarrow> (Some (l\<lparr>el_is_run := False\<rparr>), True, ERROR_SUCCESS error))"

text \<open>
  \<open>pr_el_close\<close> frees the queues and then joins the thread of the manager, whether one was started
  or not: \<open>_thread\<close> is written by \<open>el_open\<close> alone, and \<open>pthread_join\<close> of a value that names no
  thread is undefined. \<open>el_thread\<close> says that the thread was created. With a thread, the result is
  that of a manager which has seen the stop before its queues go; the code does not wait for that.
\<close>

definition pr_el_close :: "'z event_loop_scheme \<Rightarrow> nat ub" where
  "pr_el_close loop =
     do {
       n \<leftarrow> req_free (el_registered loop);
       (if el_thread loop then Some (n + length (el_timers loop) + 1 + sq_free (el_acceptors loop) + oeq_free (el_occurred loop) + 1)
        else UB)
     }"

definition el_close :: "'z event_loop_scheme ptr \<Rightarrow> nat ub" where
  "el_close loop =
     (case loop of
        NULL \<Rightarrow> Some 0
      | Some l \<Rightarrow> do { l' \<leftarrow> fst (el_stop (Some l) NULL); pr_el_close l' })"

text \<open>The allocations and mutex initialisations of \<open>el_init\<close>, in order.\<close>

record init_mem =
  im_loop :: bool
  im_timers :: bool
  im_req :: bool
  im_sq :: bool
  im_oeq :: bool
  im_mutexes :: bool

definition el_init :: "init_mem \<Rightarrow> err_ptr \<Rightarrow> (event_loop ptr \<times> err_ptr) ub" where
  "el_init im error =
     (case s_malloc (im_loop im) (0::nat) (ERROR_SUCCESS error) of
        (NULL, error1) \<Rightarrow> Some (NULL, error1)
      | (Some _, error1) \<Rightarrow>
          (case s_malloc (im_timers im) (0::nat) error1 of
             (NULL, _) \<Rightarrow> UB
           | (Some _, error2) \<Rightarrow>
               let loop = \<lparr>el_acceptors = NULL, el_index_acceptors_start = 0, el_registered = NULL, el_timers = [],
                           el_occurred = NULL, el_is_run = False, el_thread = False, el_global_handler = pr_default_global_handler,
                           el_next_timer = 0, el_sent = [], el_reported = []\<rparr> in
               (case req_init (im_req im) (Some err_fresh) of
                  (NULL, err) \<Rightarrow> do { _ \<leftarrow> el_close (Some loop); Some (NULL, error2) }
                | (Some req, err) \<Rightarrow>
                    do {
                      (sq, err') \<leftarrow> sq_init (im_sq im) err;
                      (oeq, err'') \<leftarrow> oeq_init (im_oeq im) err';
                      let loop1 = loop\<lparr>el_registered := Some req, el_acceptors := sq, el_occurred := oeq\<rparr>;
                      (if im_mutexes im then Some (Some loop1, error2)
                       else do { _ \<leftarrow> el_close (Some loop1); Some (NULL, err_report FATAL EL_ERROR_MUTEX_INIT error2) })
                    })))"

definition loop_is_started :: "'z event_loop_scheme \<Rightarrow> bool" where "loop_is_started loop = el_is_run loop"

definition el_is_run_query :: "'z event_loop_scheme \<Rightarrow> bool" where "el_is_run_query loop = loop_is_started loop"

definition el_reg_global_error_handler :: "'z event_loop_scheme ptr \<Rightarrow> fptr ptr \<Rightarrow> err_ptr \<Rightarrow> 'z event_loop_scheme ptr \<times> bool \<times> err_ptr" where
  "el_reg_global_error_handler loop handler error =
     (case loop of
        NULL \<Rightarrow> (NULL, False, err_report FATAL EL_EVENT_LOOP_PTR_IS_NULL error)
      | Some l \<Rightarrow>
          (case handler of
             NULL \<Rightarrow> (Some l, False, err_report FATAL EL_PARAMETER_IS_NULL error)
           | Some h \<Rightarrow> (Some (l\<lparr>el_global_handler := h\<rparr>), True, ERROR_SUCCESS error)))"

definition req_length :: "registered_events_queue ptr \<Rightarrow> nat ub" where "req_length q = map_option length q"
definition sq_length :: "sockets_queue ptr \<Rightarrow> nat ub" where "sq_length q = map_option length q"

section \<open>Registration\<close>

definition el_async_accept :: "bool \<Rightarrow> 'z event_loop_scheme \<Rightarrow> int \<Rightarrow> fptr ptr \<Rightarrow> err_ptr \<Rightarrow> ('z event_loop_scheme \<times> bool \<times> err_ptr) ub" where
  "el_async_accept mok loop sock handler error =
     do {
       (q, _, err) \<leftarrow> sq_add mok (el_acceptors loop) sock handler (ERROR_SUCCESS (Some err_fresh));
       let loop' = loop\<lparr>el_acceptors := q\<rparr>;
       let error1 = ERROR_SUCCESS error;
       Some (if failed (the err) then (loop', False, err_assign (the err) error1) else (loop', True, error1))
     }"

definition el_async_read ::
    "bool \<Rightarrow> reg_mem \<Rightarrow> 'z event_loop_scheme ptr \<Rightarrow> int \<Rightarrow> string ptr \<Rightarrow> int \<Rightarrow> fptr \<Rightarrow> err_ptr \<Rightarrow>
     ('z event_loop_scheme ptr \<times> bool \<times> err_ptr) ub" where
  "el_async_read mok mem loop sock buffer bsize handler error =
     (case loop of
        NULL \<Rightarrow> Some (NULL, False, err_report FATAL EL_EVENT_LOOP_PTR_IS_NULL error)
      | Some l \<Rightarrow>
          (case buffer of
             NULL \<Rightarrow> Some (Some l, False, err_report FATAL EL_PARAMETER_IS_NULL error)
           | Some buf \<Rightarrow>
               (case s_malloc mok (0::nat) (ERROR_SUCCESS (Some err_fresh)) of
                  (p, err) \<Rightarrow>
                    if failed (the err) then Some (Some l, False, err_assign (the err) error)
                    else do {
                      let read = \<lparr>se_type = SOCK_READ, se_socket = sock, se_error = set_err OK ERROR_SUCCESS_msg err_zero,
                                  rd_handler = handler, rd_buffer = buf, rd_size = bsize, rd_offset = 0, rd_status = CONNECTED\<rparr>;
                      (q, _, err') \<leftarrow> req_push_read mem (el_registered l) sock read err;
                      Some (Some (l\<lparr>el_registered := q\<rparr>), \<not> failed (the err'), err_assign (the err') error)
                    })))"

definition el_async_write ::
    "bool \<Rightarrow> reg_mem \<Rightarrow> 'z event_loop_scheme ptr \<Rightarrow> int \<Rightarrow> string ptr \<Rightarrow> int \<Rightarrow> fptr \<Rightarrow> err_ptr \<Rightarrow>
     ('z event_loop_scheme ptr \<times> bool \<times> err_ptr) ub" where
  "el_async_write mok mem loop sock output_buffer bsize handler error =
     (case loop of
        NULL \<Rightarrow> Some (NULL, False, err_report FATAL EL_EVENT_LOOP_PTR_IS_NULL error)
      | Some l \<Rightarrow>
          (case output_buffer of
             NULL \<Rightarrow> Some (Some l, False, err_report FATAL EL_PARAMETER_IS_NULL error)
           | Some buf \<Rightarrow>
               (case s_malloc mok (0::nat) (ERROR_SUCCESS error) of
                  (NULL, error1) \<Rightarrow> Some (Some l, False, error1)
                | (Some _, error1) \<Rightarrow>
                    do {
                      let write = \<lparr>se_type = SOCK_WRITE, se_socket = sock, se_error = set_err OK ERROR_SUCCESS_msg err_zero,
                                   wr_handler = handler, wr_offset = 0, wr_size = bsize, wr_buffer = buf, wr_status = CONNECTED\<rparr>;
                      (q, is_res, err) \<leftarrow> req_push_write mem (el_registered l) sock write (ERROR_SUCCESS (Some err_fresh));
                      Some (if failed (the err) then (Some (l\<lparr>el_registered := q\<rparr>), False, err_assign (the err) error1)
                            else (Some (l\<lparr>el_registered := q\<rparr>), is_res, error1))
                    })))"

text \<open>
  \<open>el_socket_close\<close>: what is registered for the socket is dropped, and a close event occurs. The
  event is written without a test of the allocation.
\<close>

definition el_socket_close ::
    "bool \<Rightarrow> bool \<Rightarrow> 'z event_loop_scheme ptr \<Rightarrow> int \<Rightarrow> fptr \<Rightarrow> err_ptr \<Rightarrow> ('z event_loop_scheme ptr \<times> bool \<times> err_ptr) ub" where
  "el_socket_close mok mok_cell loop sock handler error =
     (case loop of
        NULL \<Rightarrow> Some (NULL, False, err_report FATAL EL_EVENT_LOOP_PTR_IS_NULL error)
      | Some l \<Rightarrow>
          do {
            let error1 = ERROR_SUCCESS error;
            (q1, _, err1) \<leftarrow> req_pop_write (el_registered l) sock (ERROR_SUCCESS (Some err_fresh));
            (q2, _, err2) \<leftarrow> req_pop_read q1 sock err1;
            let (p, err3) = s_malloc mok \<lparr>se_type = SOCK_CLOSE, se_socket = sock, se_error = err_zero, cl_handler = handler\<rparr> err2;
            event \<leftarrow> p;
            let (occ, _, error2) = oeq_push_back mok_cell (el_occurred l) (Some (EvClose event)) error1;
            let l' = l\<lparr>el_registered := q2, el_occurred := occ\<rparr>;
            Some (if failed (the err3) then (Some l', False, err_assign (the err3) error2) else (Some l', True, error2))
          })"

text \<open>\<open>now\<close> is the result of \<open>time(NULL)\<close>. The descriptor of a timer is its entry, here its number.\<close>

definition el_timer ::
    "bool \<Rightarrow> int \<Rightarrow> 'z event_loop_scheme ptr \<Rightarrow> int \<Rightarrow> 32 word \<Rightarrow> fptr \<Rightarrow> bool \<Rightarrow> err_ptr \<Rightarrow>
     'z event_loop_scheme ptr \<times> nat ptr \<times> bool \<times> err_ptr" where
  "el_timer mok now loop sock seconds handler has_descriptor error =
     (case loop of
        NULL \<Rightarrow> (NULL, NULL, False, err_report FATAL EL_EVENT_LOOP_PTR_IS_NULL error)
      | Some l \<Rightarrow>
          if \<not> has_descriptor then (Some l, NULL, False, err_report FATAL EL_PARAMETER_IS_NULL error)
          else (case s_malloc mok (el_next_timer l) error of
                  (NULL, error1) \<Rightarrow> (Some l, NULL, False, error1)
                | (Some n, error1) \<Rightarrow>
                    (Some (l\<lparr>el_timers := el_timers l @ [\<lparr>te_id = n, te_socket = sock, te_period = seconds,
                                te_time_start = word_of_int now, te_handler = handler, te_has_delete = False,
                                te_is_processed = False\<rparr>],
                             el_next_timer := Suc n\<rparr>), Some n, True, error1)))"

text \<open>Only the mark is set; writing through a descriptor that was removed is undefined.\<close>

definition el_timer_free :: "'z event_loop_scheme \<Rightarrow> nat \<Rightarrow> ('z event_loop_scheme \<times> bool) ub" where
  "el_timer_free loop descriptor =
     (if List.find (\<lambda>t. te_id t = descriptor) (el_timers loop) = None then UB
      else Some (loop\<lparr>el_timers := tailq_update_first (\<lambda>t. te_id t = descriptor) (\<lambda>t. t\<lparr>te_has_delete := True\<rparr>) (el_timers loop)\<rparr>,
                 True))"

section \<open>The array of poll descriptors\<close>

datatype poll_flag = POLLIN | POLLOUT | POLLERR | POLLHUP | POLLNVAL

record pollfd =
  pfd_fd :: int
  pfd_events :: "poll_flag set"

definition pollfd_zero :: pollfd where "pollfd_zero = \<lparr>pfd_fd = 0, pfd_events = {}\<rparr>"

fun poll_events :: "event_t list \<Rightarrow> poll_flag set option" where
  "poll_events [] = Some {}"
| "poll_events (e # es) =
     (case ev_type e of
        SOCK_WRITE \<Rightarrow> map_option (\<lambda>f. f \<union> {POLLOUT, POLLHUP}) (poll_events es)
      | SOCK_READ \<Rightarrow> map_option (\<lambda>f. f \<union> {POLLIN, POLLHUP}) (poll_events es)
      | _ \<Rightarrow> None)"

text \<open>
  The two loops. The first fills one cell per registered socket and gives up at an event that is
  neither a read nor a write; the second writes every acceptor to the same cell, because the index
  is not advanced. An access outside the array is undefined.
\<close>

fun fill_registered :: "registered_events_queue \<Rightarrow> nat \<Rightarrow> pollfd list \<Rightarrow> (pollfd list \<times> nat \<times> bool) ub" where
  "fill_registered [] i fds = Some (fds, i, True)"
| "fill_registered (e # es) i fds =
     do {
       evs \<leftarrow> re_events e;
       (case poll_events evs of
          None \<Rightarrow> Some (fds, i, False)
        | Some f \<Rightarrow>
            do {
              fds' \<leftarrow> arr_set fds (int i) \<lparr>pfd_fd = re_sock e, pfd_events = f\<rparr>;
              fill_registered es (Suc i) fds'
            })
     }"

fun fill_acceptors :: "sockets_queue \<Rightarrow> nat \<Rightarrow> pollfd list \<Rightarrow> pollfd list ub" where
  "fill_acceptors [] i fds = Some fds"
| "fill_acceptors (s # ss) i fds =
     do {
       fds' \<leftarrow> arr_set fds (int i) \<lparr>pfd_fd = sk_socket s, pfd_events = {POLLIN}\<rparr>;
       fill_acceptors ss i fds'
     }"

text \<open>The error pointer is dereferenced without a test; the result error is the local one.\<close>

definition pr_create_pollfd :: "bool \<Rightarrow> 'z event_loop_scheme \<Rightarrow> err_ptr \<Rightarrow> ('z event_loop_scheme \<times> pollfd list ptr \<times> nat \<times> err_ptr) ub" where
  "pr_create_pollfd mok loop error =
     do {
       let err = set_err OK ERROR_SUCCESS_msg err_fresh;
       n \<leftarrow> req_length (el_registered loop);
       k \<leftarrow> sq_length (el_acceptors loop);
       let (fd_tmp, error1) = s_malloc mok (replicate (n + k) pollfd_zero) error;
       e1 \<leftarrow> error1;
       (if failed e1 then Some (loop, fd_tmp, n + k, err_assign err error1)
        else do {
          fds \<leftarrow> fd_tmp;
          q \<leftarrow> el_registered loop;
          (fds1, i, good) \<leftarrow> fill_registered q 0 fds;
          (if \<not> good then Some (loop, NULL, n + k, Some (err\<lparr>err_error := FATAL\<rparr>))
           else do {
             sq \<leftarrow> el_acceptors loop;
             fds2 \<leftarrow> fill_acceptors sq i fds1;
             Some (loop\<lparr>el_index_acceptors_start := i\<rparr>, Some fds2, n + k, err_assign err error1)
           })
        })
     }"

section \<open>Ready descriptors\<close>

text \<open>
  The successive results of \<open>recv\<close> (received bytes, none of them for an end of stream) and of
  \<open>send\<close> (the number taken), or an \<open>errno\<close>; after the end of the list the call would block.
\<close>

datatype recv_result = RecvData string | RecvErr int
datatype send_result = Sent nat | SendErr int

fun recv_loop :: "recv_result list \<Rightarrow> event_sock_read \<Rightarrow> (event_sock_read \<times> int option) ub" where
  "recv_loop [] e = Some (e, Some EAGAIN)"
| "recv_loop (RecvErr n # rs) e = Some (e, Some n)"
| "recv_loop (RecvData s # rs) e =
     (let d = take (nat (rd_size e - rd_offset e)) s in
      do {
        buf \<leftarrow> mem_write (Some (rd_buffer e)) (nat (rd_offset e)) d;
        cells \<leftarrow> buf;
        let e' = e\<lparr>rd_buffer := cells, rd_offset := rd_offset e + int (length d)\<rparr>;
        (if rd_offset e' = rd_size e' then Some (e', None)
         else if d = [] then Some (e'\<lparr>rd_status := DISCONNECTED\<rparr>, None)
         else recv_loop rs e')
      })"

fun send_loop :: "send_result list \<Rightarrow> event_sock_write \<Rightarrow> (event_sock_write \<times> int option \<times> string) ub" where
  "send_loop [] e = Some (e, Some EAGAIN, [])"
| "send_loop (SendErr n # rs) e = Some (e, Some n, [])"
| "send_loop (Sent n # rs) e =
     (let k = min n (nat (wr_size e - wr_offset e)) in
      if k = 0 then Some (e, None, [])
      else if nat (wr_offset e) + k > length (wr_buffer e) then UB
      else let d = take k (drop (nat (wr_offset e)) (wr_buffer e));
               e' = e\<lparr>wr_offset := wr_offset e + int k\<rparr>
           in if wr_offset e' = wr_size e' then Some (e', None, d)
              else do { (e'', r, ds) \<leftarrow> send_loop rs e'; Some (e'', r, d @ ds) })"

text \<open>\<open>accept\<close>: the new socket and the peer, or an \<open>errno\<close>.\<close>

type_synonym accept_result = "(int \<times> sockaddr_in) + int"

definition sockaddr_zero :: sockaddr_in where "sockaddr_zero = \<lparr>sin_addr = [0, 0, 0, 0], sin_port = 0\<rparr>"

definition push_occurred :: "event_t \<Rightarrow> 'z event_loop_scheme \<Rightarrow> err_ptr \<Rightarrow> 'z event_loop_scheme \<times> err_ptr" where
  "push_occurred e loop err =
     (case oeq_push_back True (el_occurred loop) (Some e) err of (q, _, err') \<Rightarrow> (loop\<lparr>el_occurred := q\<rparr>, err'))"

definition pollin_accept :: "accept_result \<Rightarrow> 'z event_loop_scheme \<Rightarrow> int \<Rightarrow> err_ptr \<Rightarrow> 'z event_loop_scheme \<times> bool \<times> err_ptr" where
  "pollin_accept acc loop fd error =
     (case sq_get (el_acceptors loop) fd (Some (set_err OK ERROR_SUCCESS_msg err_fresh)) of
        (handler, err) \<Rightarrow>
          if failed (the err) then (report fd (the err) loop, False, error)
          else let base = \<lparr>se_type = SOCK_ACCEPT, se_socket = fd, se_error = err_zero, ac_handler = the handler,
                           ac_client_socket = - 1, ac_client_addr = sockaddr_zero\<rparr>
               in (case acc of
                     Inl (client, addr) \<Rightarrow>
                       (case push_occurred (EvAccept (base\<lparr>ac_client_socket := client, ac_client_addr := addr\<rparr>)) loop err of
                          (loop', err') \<Rightarrow> (loop', True, err_assign (the err') error))
                   | Inr n \<Rightarrow>
                       let e = err_zero\<lparr>err_error := ERRNO, err_errno := n\<rparr> in
                       (case push_occurred (EvAccept (base\<lparr>se_error := e\<rparr>)) (report fd e loop) err of
                          (loop', err') \<Rightarrow> (loop', error \<noteq> NULL, err_assign (the err') error))))"

definition pollin_read :: "recv_result list \<Rightarrow> 'z event_loop_scheme \<Rightarrow> int \<Rightarrow> err_ptr \<Rightarrow> ('z event_loop_scheme \<times> bool \<times> err_ptr) ub" where
  "pollin_read rs loop fd error =
     do {
       (q, p, err) \<leftarrow> req_pop_read (el_registered loop) fd (Some (set_err OK ERROR_SUCCESS_msg err_fresh));
       ev \<leftarrow> p;
       (ev', r) \<leftarrow> recv_loop rs (ev\<lparr>rd_offset := 0\<rparr>);
       let loop1 = loop\<lparr>el_registered := q\<rparr>;
       (if rd_offset ev' = rd_size ev' \<or> r = Some EAGAIN \<or> rd_status ev' = DISCONNECTED then
          (case push_occurred (EvRead ev') loop1 err of (loop2, err') \<Rightarrow> Some (loop2, True, err_assign (the err') error))
        else
          (let e = (case r of
                      Some n \<Rightarrow> (se_error ev')\<lparr>err_error := ERRNO, err_errno := n\<rparr>
                    | None \<Rightarrow> set_err FATAL EL_UNDEFINED_ERROR_OF_READ (se_error ev'));
               ev'' = ev'\<lparr>se_error := e\<rparr>
           in case push_occurred (EvRead ev'') (report fd e loop1) err of
                (loop2, err') \<Rightarrow> Some (report fd e loop2, False, err_assign (the err') error)))
     }"

definition pr_create_pollin_event ::
    "(int \<Rightarrow> accept_result) \<Rightarrow> (int \<Rightarrow> recv_result list) \<Rightarrow> 'z event_loop_scheme \<Rightarrow> int \<Rightarrow> nat \<Rightarrow> err_ptr \<Rightarrow>
     ('z event_loop_scheme \<times> bool \<times> err_ptr) ub" where
  "pr_create_pollin_event acc rcv loop fd index error =
     (if index \<ge> el_index_acceptors_start loop then Some (pollin_accept (acc fd) loop fd error)
      else pollin_read (rcv fd) loop fd error)"

definition pr_create_pollout_event ::
    "(int \<Rightarrow> send_result list) \<Rightarrow> 'z event_loop_scheme \<Rightarrow> int \<Rightarrow> err_ptr \<Rightarrow> ('z event_loop_scheme \<times> bool \<times> err_ptr) ub" where
  "pr_create_pollout_event snd_os loop fd error =
     do {
       (q, p, err) \<leftarrow> req_pop_write (el_registered loop) fd (Some (set_err OK ERROR_SUCCESS_msg err_fresh));
       ev \<leftarrow> p;
       (ev1, r, bytes) \<leftarrow> send_loop (snd_os fd) ev;
       let ev2 = (if r = Some EPIPE then ev1\<lparr>wr_status := DISCONNECTED\<rparr> else ev1);
       let loop1 = loop\<lparr>el_registered := q, el_sent := el_sent loop @ [(fd, bytes)]\<rparr>;
       (if r = Some EAGAIN then
          do {
            (q', _, err') \<leftarrow> req_push_write mem_ok (el_registered loop1) (se_socket ev2) ev2 err;
            let loop2 = loop1\<lparr>el_registered := q'\<rparr>;
            (if failed (the err') then Some (report NO_SOCKET (the err') loop2, False, error) else Some (loop2, True, error))
          }
        else if wr_offset ev2 \<noteq> wr_offset ev then
          (case push_occurred (EvWrite ev2) loop1 err of
             (loop2, err') \<Rightarrow>
               if failed (the err') then Some (report NO_SOCKET (the err') loop2, False, error) else Some (loop2, True, error))
        else
          (let e = (case r of
                      Some n \<Rightarrow> (se_error ev2)\<lparr>err_error := ERRNO, err_errno := n\<rparr>
                    | None \<Rightarrow> set_err FATAL EL_UNDEFINED_ERROR_OF_WRITE (se_error ev2))
           in case push_occurred (EvWrite (ev2\<lparr>se_error := e\<rparr>)) (report fd e loop1) err of
                (loop2, err') \<Rightarrow>
                  if failed (the err') then Some (report fd (the err') loop2, False, error) else Some (loop2, True, error)))
     }"

section \<open>The manager\<close>

text \<open>The answers of the operating system during one step of the manager.\<close>

record os_answers =
  os_poll :: "int \<times> poll_flag set list"
  os_accept :: "int \<Rightarrow> accept_result"
  os_recv :: "int \<Rightarrow> recv_result list"
  os_send :: "int \<Rightarrow> send_result list"

text \<open>The loop over the ready descriptors, from \<open>index\<close>; a readable descriptor is not also written.\<close>

fun dispatch_ready ::
    "os_answers \<Rightarrow> pollfd list \<Rightarrow> poll_flag set list \<Rightarrow> nat \<Rightarrow> 'z event_loop_scheme \<Rightarrow> err_ptr \<Rightarrow> ('z event_loop_scheme \<times> err_ptr) ub" where
  "dispatch_ready os (fd # fds) (rf # rfs) index loop error =
     do {
       (loop', error') \<leftarrow>
         (if POLLIN \<in> rf then
            do { (l, _, e) \<leftarrow> pr_create_pollin_event (os_accept os) (os_recv os) loop (pfd_fd fd) index error; Some (l, e) }
          else if POLLOUT \<in> rf then
            do { (l, _, e) \<leftarrow> pr_create_pollout_event (os_send os) loop (pfd_fd fd) error; Some (l, e) }
          else Some (loop, error));
       dispatch_ready os fds rfs (Suc index) loop' error'
     }"
| "dispatch_ready os _ _ index loop error = Some (loop, error)"

definition pr_manager_step :: "bool \<Rightarrow> os_answers \<Rightarrow> 'z event_loop_scheme \<Rightarrow> err_ptr \<Rightarrow> ('z event_loop_scheme \<times> err_ptr) ub" where
  "pr_manager_step mok os loop error =
     do {
       (loop1, fd_array, n, error1) \<leftarrow> pr_create_pollfd mok loop error;
       (if fst (os_poll os) = 0 then Some (loop1, error1)
        else if fst (os_poll os) < 0 then
          (case error1 of NULL \<Rightarrow> UB | Some e \<Rightarrow> Some (loop1, Some (set_err FATAL EL_POLLFD_ERROR e)))
        else (case fd_array of
                NULL \<Rightarrow> if n = 0 then Some (loop1, error1) else UB
              | Some fds \<Rightarrow> dispatch_ready os fds (snd (os_poll os)) 0 loop1 error1))
     }"

section \<open>Running handlers\<close>

datatype handler_call =
    CallAccept fptr int int sockaddr_in err_t
  | CallRead fptr int string int client_status err_t
  | CallWrite fptr int string int int client_status err_t
  | CallClose fptr int err_t
  | CallTimer fptr int nat

type_synonym 'z handlers = "handler_call \<Rightarrow> 'z event_loop_scheme \<Rightarrow> 'z event_loop_scheme ub"

definition pr_sock_accept_execute :: "event_sock_accept \<Rightarrow> handler_call" where
  "pr_sock_accept_execute e = CallAccept (ac_handler e) (se_socket e) (ac_client_socket e) (ac_client_addr e) (se_error e)"

definition pr_sock_read_execute :: "event_sock_read \<Rightarrow> handler_call" where
  "pr_sock_read_execute e = CallRead (rd_handler e) (se_socket e) (rd_buffer e) (rd_offset e) (rd_status e) (se_error e)"

definition pr_sock_write_execute :: "event_sock_write \<Rightarrow> handler_call" where
  "pr_sock_write_execute e =
     CallWrite (wr_handler e) (se_socket e) (wr_buffer e) (wr_size e) (wr_offset e) (wr_status e) (se_error e)"

definition pr_sock_close_execute :: "event_sock_close \<Rightarrow> handler_call" where
  "pr_sock_close_execute e = CallClose (cl_handler e) (se_socket e) (se_error e)"

definition dispatch_call :: "event_t \<Rightarrow> handler_call ub" where
  "dispatch_call e =
     (case ev_type e of
        SOCK_ACCEPT \<Rightarrow> map_option pr_sock_accept_execute (as_accept e)
      | SOCK_READ \<Rightarrow> map_option pr_sock_read_execute (as_read e)
      | SOCK_WRITE \<Rightarrow> map_option pr_sock_write_execute (as_write e)
      | SOCK_CLOSE \<Rightarrow> map_option pr_sock_close_execute (as_close e))"

text \<open>
  The sum of the two \<open>unsigned int\<close> wraps at 32 bits and is then compared with a \<open>time_t\<close>.
\<close>

definition timer_due :: "int \<Rightarrow> sock_timer_event \<Rightarrow> bool" where
  "timer_due now t \<longleftrightarrow> uint (te_time_start t + te_period t) \<le> now \<and> \<not> te_is_processed t \<and> \<not> te_has_delete t"

definition timer_update :: "nat \<Rightarrow> (sock_timer_event \<Rightarrow> sock_timer_event) \<Rightarrow> 'z event_loop_scheme \<Rightarrow> 'z event_loop_scheme" where
  "timer_update n f loop = loop\<lparr>el_timers := tailq_update_first (\<lambda>t. te_id t = n) f (el_timers loop)\<rparr>"

text \<open>
  The iteration over the timers, at position \<open>k\<close>; the handlers may append timers, so the number of
  iterations is bounded by \<open>fuel\<close>, and the last component says whether the end was reached.
  \<open>removed\<close> is the local list of the timers to delete.
\<close>

fun timers_pass ::
    "'z handlers \<Rightarrow> int \<Rightarrow> nat \<Rightarrow> nat \<Rightarrow> 'z event_loop_scheme \<Rightarrow> nat list \<Rightarrow> ('z event_loop_scheme \<times> nat list \<times> bool) ub" where
  "timers_pass call now 0 k loop removed = Some (loop, removed, length (el_timers loop) \<le> k)"
| "timers_pass call now (Suc fuel) k loop removed =
     (if length (el_timers loop) \<le> k then Some (loop, removed, True)
      else do {
        let t = el_timers loop ! k;
        loop2 \<leftarrow>
          (if timer_due now t then
             do {
               loop1 \<leftarrow> call (CallTimer (te_handler t) (te_socket t) (te_id t))
                          (timer_update (te_id t) (\<lambda>t. t\<lparr>te_is_processed := True\<rparr>) loop);
               Some (timer_update (te_id t) (\<lambda>t. t\<lparr>te_is_processed := False, te_time_start := word_of_int now\<rparr>) loop1)
             }
           else Some loop);
        t2 \<leftarrow> List.find (\<lambda>u. te_id u = te_id t) (el_timers loop2);
        (if te_has_delete t2 \<and> \<not> te_is_processed t2 then
           timers_pass call now fuel (Suc k) (timer_update (te_id t) (\<lambda>t. t\<lparr>te_is_processed := True\<rparr>) loop2) (removed @ [te_id t])
         else timers_pass call now fuel (Suc k) loop2 removed)
      })"

definition remove_timers :: "nat list \<Rightarrow> 'z event_loop_scheme \<Rightarrow> 'z event_loop_scheme" where
  "remove_timers ns loop = loop\<lparr>el_timers := foldl (\<lambda>ts n. tailq_remove_first (\<lambda>t. te_id t = n) ts) (el_timers loop) ns\<rparr>"

definition el_run :: "'z handlers \<Rightarrow> int \<Rightarrow> nat \<Rightarrow> 'z event_loop_scheme \<Rightarrow> err_ptr \<Rightarrow> ('z event_loop_scheme \<times> bool \<times> err_ptr) ub" where
  "el_run call now fuel loop error =
     do {
       let error1 = ERROR_SUCCESS error;
       (loop1, removed, _) \<leftarrow> timers_pass call now fuel 0 loop [];
       let loop2 = remove_timers removed loop1;
       occ \<leftarrow> el_occurred loop2;
       (if occ = [] then Some (loop2, False, err_report NOT_FOUND EL_NO_EVENTS error1)
        else case oeq_pop_begin (Some occ) (Some NULL) (Some (set_err OK ERROR_SUCCESS_msg err_fresh)) of
               (occ', ev, _, err_queue) \<Rightarrow>
                 if failed (the err_queue) then Some (loop2\<lparr>el_occurred := occ'\<rparr>, False, err_assign (the err_queue) error1)
                 else do {
                   p \<leftarrow> ev;
                   e \<leftarrow> p;
                   c \<leftarrow> dispatch_call e;
                   loop3 \<leftarrow> call c (loop2\<lparr>el_occurred := occ'\<rparr>);
                   Some (loop3, True, error1)
                 })
     }"

text \<open>
  \<open>el_open\<close> in its two modes. In one thread the loop alternates the manager and \<open>el_run\<close>; one
  element of the list is the answers for one iteration, and \<open>None\<close> in the second component says
  that the loop is still running at the end of the list.
\<close>

fun el_open_loop ::
    "'z handlers \<Rightarrow> (int \<times> nat \<times> os_answers) list \<Rightarrow> 'z event_loop_scheme \<Rightarrow> err_ptr \<Rightarrow> ('z event_loop_scheme \<times> bool option \<times> err_ptr) ub" where
  "el_open_loop call [] loop errp = Some (loop, if loop_is_started loop then None else Some True, errp)"
| "el_open_loop call ((now, fuel, os) # rest) loop errp =
     (if \<not> loop_is_started loop then Some (loop, Some True, errp)
      else do {
        (loop1, error1) \<leftarrow> pr_manager_step True os loop (Some (set_err OK ERROR_SUCCESS_msg err_fresh));
        (if failed (the error1) then Some (loop1, Some False, err_assign (the error1) errp)
         else do {
           (loop2, _, error2) \<leftarrow> el_run call now fuel loop1 error1;
           (if failed (the error2) \<and> err_error (the error2) \<noteq> NOT_FOUND
            then Some (loop2, Some False, err_assign (the error2) errp)
            else el_open_loop call rest loop2 errp)
         })
      })"

definition el_open ::
    "'z handlers \<Rightarrow> (int \<times> nat \<times> os_answers) list \<Rightarrow> bool \<Rightarrow> 'z event_loop_scheme ptr \<Rightarrow> work_mode \<Rightarrow> err_ptr \<Rightarrow>
     ('z event_loop_scheme ptr \<times> bool option \<times> err_ptr) ub" where
  "el_open call steps thread_created loop mode errp =
     (let error1 = ERROR_SUCCESS errp in
      case loop of
        NULL \<Rightarrow> Some (NULL, Some False, err_report FATAL EL_EVENT_LOOP_PTR_IS_NULL error1)
      | Some l \<Rightarrow>
          let l1 = l\<lparr>el_is_run := True\<rparr> in
          (case mode of
             ONE_THREAD \<Rightarrow>
               do { (l2, r, error2) \<leftarrow> el_open_loop call steps l1 error1; Some (Some l2, r, error2) }
           | OWN_THREAD \<Rightarrow> Some (Some (l1\<lparr>el_thread := thread_created\<rparr>), Some thread_created, error1)))"

text \<open>The thread of the manager: it stops at the first error, which it reports.\<close>

fun loop_thread_loop :: "os_answers list \<Rightarrow> 'z event_loop_scheme \<Rightarrow> 'z event_loop_scheme ub" where
  "loop_thread_loop [] loop = Some loop"
| "loop_thread_loop (os # rest) loop =
     (if \<not> loop_is_started loop then Some loop
      else do {
        (loop1, error1) \<leftarrow> pr_manager_step True os loop (Some (set_err OK ERROR_SUCCESS_msg err_fresh));
        (if failed (the error1) then Some (report NO_SOCKET (the error1) loop1)
         else loop_thread_loop rest loop1)
      })"

definition loop_thread :: "os_answers list \<Rightarrow> 'z event_loop_scheme \<Rightarrow> 'z event_loop_scheme ub" where
  "loop_thread steps loop = loop_thread_loop steps (loop\<lparr>el_is_run := True\<rparr>)"

section \<open>The invariant of the loop\<close>

text \<open>
  What is registered is well formed, only reads and writes are registered, every buffer is as long
  as it is said to be, and the acceptors are valid sockets.
\<close>

definition io_ok :: "event_t \<Rightarrow> bool" where
  "io_ok e = (case e of
      EvRead r \<Rightarrow> 0 \<le> rd_size r \<and> rd_size r \<le> int (length (rd_buffer r))
    | EvWrite w \<Rightarrow> 0 \<le> wr_offset w \<and> wr_offset w \<le> wr_size w \<and> wr_size w \<le> int (length (wr_buffer w))
    | _ \<Rightarrow> False)"

definition loop_ok :: "'z event_loop_scheme \<Rightarrow> bool" where
  "loop_ok loop \<longleftrightarrow>
     (\<exists>q sq occ. el_registered loop = Some q \<and> el_acceptors loop = Some sq \<and> el_occurred loop = Some occ
        \<and> req_ok q \<and> sq_ok sq \<and> (\<forall>k e. req_view q k = Some e \<longrightarrow> io_ok e))"

lemma loop_okE:
  assumes "loop_ok loop"
  obtains q sq occ where "el_registered loop = Some q" "el_acceptors loop = Some sq" "el_occurred loop = Some occ"
    "req_ok q" "sq_ok sq" "\<forall>k e. req_view q k = Some e \<longrightarrow> io_ok e"
  using assms unfolding loop_ok_def by blast

section \<open>The array of poll descriptors\<close>

definition wanted :: "registered_events_queue \<Rightarrow> int \<Rightarrow> poll_flag set" where
  "wanted q s = (if req_view q (s, SOCK_READ) \<noteq> None then {POLLIN, POLLHUP} else {})
              \<union> (if req_view q (s, SOCK_WRITE) \<noteq> None then {POLLOUT, POLLHUP} else {})"

lemma poll_events_run:
  assumes "\<forall>e\<in>set evs. ev_type e = SOCK_READ \<or> ev_type e = SOCK_WRITE"
  shows "poll_events evs = Some ((if List.find (\<lambda>v. ev_type v = SOCK_READ) evs \<noteq> None then {POLLIN, POLLHUP} else {})
                               \<union> (if List.find (\<lambda>v. ev_type v = SOCK_WRITE) evs \<noteq> None then {POLLOUT, POLLHUP} else {}))"
  using assms by (induction evs) auto

lemma poll_events_invalid:
  assumes "\<exists>e\<in>set evs. ev_type e \<noteq> SOCK_READ \<and> ev_type e \<noteq> SOCK_WRITE"
  shows "poll_events evs = None"
  using assms by (induction evs) (auto split: event_type.splits)

lemma fill_registered_run:
  assumes "\<forall>e\<in>set q. \<exists>evs. re_events e = Some evs \<and> poll_events evs = Some (w e)"
  shows "fill_registered q (length done) (done @ replicate (length q + n) pollfd_zero) =
     Some (done @ map (\<lambda>e. \<lparr>pfd_fd = re_sock e, pfd_events = w e\<rparr>) q @ replicate n pollfd_zero,
           length done + length q, True)"
  using assms
proof (induction q arbitrary: "done")
  case Nil
  then show ?case by simp
next
  case (Cons e q)
  then obtain evs where e: "re_events e = Some evs" "poll_events evs = Some (w e)" by auto
  let ?c = "\<lparr>pfd_fd = re_sock e, pfd_events = w e\<rparr>"
  have "arr_set (done @ replicate (length (e # q) + n) pollfd_zero) (int (length done)) ?c
      = Some ((done @ [?c]) @ replicate (length q + n) pollfd_zero)"
    by (simp add: arr_set_nat list_update_append)
  moreover have "fill_registered q (Suc (length done)) ((done @ [?c]) @ replicate (length q + n) pollfd_zero)
      = Some (done @ map (\<lambda>e. \<lparr>pfd_fd = re_sock e, pfd_events = w e\<rparr>) (e # q) @ replicate n pollfd_zero,
              length done + length (e # q), True)"
    using Cons.IH [of "done @ [?c]"] Cons.prems by simp
  ultimately show ?case using e by simp
qed

lemma fill_acceptors_run:
  assumes "sq \<noteq> []" "i < length fds"
  shows "fill_acceptors sq i fds = Some (fds[i := \<lparr>pfd_fd = sk_socket (last sq), pfd_events = {POLLIN}\<rparr>])"
  using assms by (induction sq arbitrary: fds) (auto simp: arr_set_nat)

lemma entry_poll_events:
  assumes ok: "req_ok q" and e: "e \<in> set q" and io: "\<forall>k e. req_view q k = Some e \<longrightarrow> io_ok e"
  shows "\<exists>evs. re_events e = Some evs \<and> poll_events evs = Some (wanted q (re_sock e))"
proof -
  from ok have d: "distinct (map re_sock q)" and "entry_ok e" using e by (simp_all add: req_ok_def)
  then obtain evs where evs: "re_events e = Some evs" "distinct (map ev_type evs)"
    "\<forall>v\<in>set evs. ev_tagged v \<and> ev_socket v = re_sock e" by (auto simp: entry_ok_def)
  have "pr_req_get_sock q (re_sock e) = Some e"
    using d e unfolding pr_req_get_sock_def by (induction q) auto
  then have v: "req_view q (re_sock e, ty) = List.find (\<lambda>v. ev_type v = ty) evs" for ty
    using evs(1) by (simp add: req_view_def)
  have "ev_type v = SOCK_READ \<or> ev_type v = SOCK_WRITE" if "v \<in> set evs" for v
  proof -
    have "List.find (\<lambda>u. ev_type u = ev_type v) evs \<noteq> None" using that by (auto simp: find_None_iff)
    then obtain u where u: "List.find (\<lambda>u. ev_type u = ev_type v) evs = Some u" by blast
    from find_SomeD [OF u] have "ev_type u = ev_type v" "u \<in> set evs" by simp_all
    with u v [of "ev_type v"] io have "io_ok u" "ev_tagged u" using evs(3) by auto
    then show ?thesis using \<open>ev_type u = ev_type v\<close> by (auto simp: io_ok_def ev_tagged_def split: event_t.splits)
  qed
  with evs(1) poll_events_run [of evs] v show ?thesis by (simp add: wanted_def)
qed

text \<open>The array the manager polls on a well-formed loop.\<close>

definition poll_cells :: "registered_events_queue \<Rightarrow> sockets_queue \<Rightarrow> pollfd list" where
  "poll_cells q sq = map (\<lambda>e. \<lparr>pfd_fd = re_sock e, pfd_events = wanted q (re_sock e)\<rparr>) q
     @ (if sq = [] then [] else \<lparr>pfd_fd = sk_socket (last sq), pfd_events = {POLLIN}\<rparr> # replicate (length sq - 1) pollfd_zero)"

lemma create_pollfd_run:
  assumes ok: "req_ok q" and io: "\<forall>k e. req_view q k = Some e \<longrightarrow> io_ok e"
    and l: "el_registered loop = Some q" "el_acceptors loop = Some sq"
  shows "pr_create_pollfd True loop (Some er) =
     Some (loop\<lparr>el_index_acceptors_start := length q\<rparr>, Some (poll_cells q sq), length q + length sq,
           Some (set_err OK ERROR_SUCCESS_msg err_fresh))"
proof -
  from entry_poll_events [OF ok _ io]
  have "\<forall>e\<in>set q. \<exists>evs. re_events e = Some evs \<and> poll_events evs = Some (wanted q (re_sock e))" by blast
  from fill_registered_run [OF this, of "[]" "length sq"]
  have reg: "fill_registered q 0 (replicate (length q + length sq) pollfd_zero) =
      Some (map (\<lambda>e. \<lparr>pfd_fd = re_sock e, pfd_events = wanted q (re_sock e)\<rparr>) q @ replicate (length sq) pollfd_zero,
            length q, True)" by simp
  have acc: "fill_acceptors sq (length q)
       (map (\<lambda>e. \<lparr>pfd_fd = re_sock e, pfd_events = wanted q (re_sock e)\<rparr>) q @ replicate (length sq) pollfd_zero)
     = Some (poll_cells q sq)"
  proof (cases "sq = []")
    case True
    then show ?thesis by (simp add: poll_cells_def)
  next
    case False
    then obtain n where "length sq = Suc n" by (cases sq) auto
    with False show ?thesis by (simp add: fill_acceptors_run poll_cells_def list_update_append)
  qed
  show ?thesis
    using l reg acc by (simp add: pr_create_pollfd_def req_length_def sq_length_def err_simps Let_def)
qed

section \<open>Reads\<close>

lemma pop_read_run:
  assumes ok: "req_ok q" and v: "req_view q (s, SOCK_READ) = Some e"
  obtains r q' where "e = EvRead r" "req_pop_read (Some q) s (Some er) = Some (Some q', Some r, Some (set_err OK ERROR_SUCCESS_msg er))"
    "req_ok q'" "req_view q' = (req_view q)((s, SOCK_READ) := None)"
proof -
  from req_view_tagged [OF ok v] obtain r where r: "e = EvRead r" "ev_type e = SOCK_READ" "0 \<le> s"
    by (auto elim: ev_tagged_cases)
  from v have "pr_req_get_sock q s \<noteq> None" by (auto simp: req_view_def split: option.splits)
  with req_pop_run [OF ok r(3), of eq_pop_read SOCK_READ er] v obtain q' where
    "pr_req_pop (Some q) s (Some er) eq_pop_read = Some (Some q', Some e, Some (set_err OK ERROR_SUCCESS_msg er))"
    "req_ok q'" "req_view q' = (req_view q)((s, SOCK_READ) := None)"
    by (auto simp: eq_pop_read_def set_err_def)
  with r show thesis by (intro that) (simp_all add: req_pop_read_def err_simps set_err_def)
qed

lemma pop_write_run:
  assumes ok: "req_ok q" and v: "req_view q (s, SOCK_WRITE) = Some e"
  obtains w q' where "e = EvWrite w" "req_pop_write (Some q) s (Some er) = Some (Some q', Some w, Some (set_err OK ERROR_SUCCESS_msg er))"
    "req_ok q'" "req_view q' = (req_view q)((s, SOCK_WRITE) := None)"
proof -
  from req_view_tagged [OF ok v] obtain w where w: "e = EvWrite w" "ev_type e = SOCK_WRITE" "0 \<le> s"
    by (auto elim: ev_tagged_cases)
  from v have "pr_req_get_sock q s \<noteq> None" by (auto simp: req_view_def split: option.splits)
  with req_pop_run [OF ok w(3), of eq_pop_write SOCK_WRITE er] v obtain q' where
    "pr_req_pop (Some q) s (Some er) eq_pop_write = Some (Some q', Some e, Some (set_err OK ERROR_SUCCESS_msg er))"
    "req_ok q'" "req_view q' = (req_view q)((s, SOCK_WRITE) := None)"
    by (auto simp: eq_pop_write_def set_err_def)
  with w show thesis by (intro that) (simp_all add: req_pop_write_def err_simps set_err_def)
qed

text \<open>Popping what is not there yields a null pointer.\<close>

lemma pop_absent_run:
  assumes ok: "req_ok q" and s: "0 \<le> s"
  shows "req_view q (s, SOCK_READ) = None \<Longrightarrow> \<exists>q' er'. req_pop_read (Some q) s (Some er) = Some (Some q', NULL, Some er')
           \<and> req_ok q' \<and> req_view q' = req_view q"
    and "req_view q (s, SOCK_WRITE) = None \<Longrightarrow> \<exists>q' er'. req_pop_write (Some q) s (Some er) = Some (Some q', NULL, Some er')
           \<and> req_ok q' \<and> req_view q' = req_view q"
proof -
  assume v: "req_view q (s, SOCK_READ) = None"
  then have "(req_view q)((s, SOCK_READ) := None) = req_view q" by auto
  with v req_pop_run [OF ok s, of eq_pop_read SOCK_READ er]
  show "\<exists>q' er'. req_pop_read (Some q) s (Some er) = Some (Some q', NULL, Some er') \<and> req_ok q' \<and> req_view q' = req_view q"
    by (auto simp: eq_pop_read_def req_pop_read_def)
next
  assume v: "req_view q (s, SOCK_WRITE) = None"
  then have "(req_view q)((s, SOCK_WRITE) := None) = req_view q" by auto
  with v req_pop_run [OF ok s, of eq_pop_write SOCK_WRITE er]
  show "\<exists>q' er'. req_pop_write (Some q) s (Some er) = Some (Some q', NULL, Some er') \<and> req_ok q' \<and> req_view q' = req_view q"
    by (auto simp: eq_pop_write_def req_pop_write_def)
qed

text \<open>
  What \<open>recv\<close> returned, in the order of the calls, up to the room in the buffer, and how the calls
  end: an empty answer is the end of the stream.
\<close>

fun received :: "nat \<Rightarrow> recv_result list \<Rightarrow> string" where
  "received room (RecvData s # rs) =
     (if room \<le> length s \<or> s = [] then take room s else s @ received (room - length s) rs)"
| "received room _ = []"

fun recv_end :: "nat \<Rightarrow> recv_result list \<Rightarrow> bool \<times> int option" where
  "recv_end room [] = (False, Some EAGAIN)"
| "recv_end room (RecvErr n # rs) = (False, Some n)"
| "recv_end room (RecvData s # rs) =
     (if room \<le> length s then (False, None) else if s = [] then (True, None) else recv_end (room - length s) rs)"

lemma received_length: "length (received room rs) \<le> room"
  by (induction room rs rule: received.induct) auto

lemma recv_loop_run:
  assumes "rd_size e = int (length a + room)" "room \<le> length b"
  shows "recv_loop rs (e\<lparr>rd_buffer := a @ b, rd_offset := int (length a)\<rparr>) =
      Some (e\<lparr>rd_buffer := a @ received room rs @ drop (length (received room rs)) b,
              rd_offset := int (length a + length (received room rs)),
              rd_status := (if fst (recv_end room rs) then DISCONNECTED else rd_status e)\<rparr>, snd (recv_end room rs))"
  using assms
proof (induction rs arbitrary: a b room)
  case Nil
  then show ?case by simp
next
  case (Cons r rs)
  show ?case
  proof (cases r)
    case (RecvErr n)
    then show ?thesis by simp
  next
    case (RecvData s)
    let ?d = "take room s"
    have n: "nat (rd_size e - int (length a)) = room" using Cons.prems(1) by simp
    have w: "mem_write (Some (a @ b)) (length a) ?d = Some (Some (a @ ?d @ drop (length ?d) b))"
      using Cons.prems(2) by (simp add: mem_write_ok)
    consider "room \<le> length s" | "s = []" "0 < room" | "s \<noteq> []" "length s < room" by (cases "room \<le> length s"; cases "s = []") (auto simp: not_le)
    then show ?thesis
    proof cases
      case 3
      have "room - length s \<le> length (drop (length s) b)" using Cons.prems(2) by simp
      with 3 Cons.IH [of "a @ s" "room - length s" "drop (length s) b"] Cons.prems(1)
      show ?thesis using w n RecvData by (simp add: Let_def add.commute)
    qed (use w n RecvData Cons.prems(1) in \<open>simp_all add: Let_def\<close>)
  qed
qed

text \<open>The event that occurs after the calls of \<open>recv\<close>: the bytes at the front of the buffer.\<close>

definition read_event :: "recv_result list \<Rightarrow> event_sock_read \<Rightarrow> event_sock_read" where
  "read_event rs ev = (let d = received (nat (rd_size ev)) rs in
     ev\<lparr>rd_buffer := d @ drop (length d) (rd_buffer ev), rd_offset := int (length d),
        rd_status := (if fst (recv_end (nat (rd_size ev)) rs) then DISCONNECTED else rd_status ev)\<rparr>)"

lemma read_event_front:
  "take (nat (rd_offset (read_event rs ev))) (rd_buffer (read_event rs ev)) = received (nat (rd_size ev)) rs"
  "rd_offset (read_event rs ev) = int (length (received (nat (rd_size ev)) rs))"
  "rd_handler (read_event rs ev) = rd_handler ev" "se_socket (read_event rs ev) = se_socket ev"
  by (simp_all add: read_event_def Let_def)

lemma recv_end_None: "snd (recv_end room rs) = None \<Longrightarrow> length (received room rs) = room \<or> fst (recv_end room rs)"
  by (induction room rs rule: recv_end.induct) (auto split: if_splits)

lemma recv_loop_read_event:
  assumes "0 \<le> rd_size ev" "rd_size ev \<le> int (length (rd_buffer ev))"
  shows "recv_loop rs (ev\<lparr>rd_offset := 0\<rparr>) = Some (read_event rs ev, snd (recv_end (nat (rd_size ev)) rs))"
  using recv_loop_run [of "ev\<lparr>rd_offset := 0\<rparr>" "[]" "nat (rd_size ev)" "rd_buffer ev" rs] assms
  by (simp add: read_event_def Let_def)

text \<open>
  The read that became ready leaves the registry, and one event with it occurs; only an \<open>errno\<close>
  other than EAGAIN before the end of the buffer is also an error of the step.
\<close>

lemma pollin_read_run:
  assumes ok: "req_ok q" and v: "req_view q (fd, SOCK_READ) = Some (EvRead ev)"
    and io: "0 \<le> rd_size ev" "rd_size ev \<le> int (length (rd_buffer ev))"
    and l: "el_registered loop = Some q" "el_occurred loop = Some occ"
  shows "\<exists>q' ev' reps. pollin_read rs loop fd (Some er) =
      Some (loop\<lparr>el_registered := Some q', el_occurred := Some (occ @ [EvRead ev']), el_reported := el_reported loop @ reps\<rparr>,
            reps = [], Some (set_err OK ERROR_SUCCESS_msg (set_err OK ERROR_SUCCESS_msg (set_err OK ERROR_SUCCESS_msg err_fresh))))
    \<and> req_ok q' \<and> req_view q' = (req_view q)((fd, SOCK_READ) := None)
    \<and> ev' = (read_event rs ev)\<lparr>se_error := se_error ev'\<rparr>
    \<and> (reps = [] \<longleftrightarrow> length (received (nat (rd_size ev)) rs) = nat (rd_size ev) \<or> rd_status (read_event rs ev) = DISCONNECTED
                  \<or> snd (recv_end (nat (rd_size ev)) rs) = Some EAGAIN)
    \<and> (reps = [] \<longrightarrow> ev' = read_event rs ev)"
proof -
  from ok v obtain r q' where
    "req_pop_read (Some q) fd (Some (set_err OK ERROR_SUCCESS_msg err_fresh)) =
       Some (Some q', Some r, Some (set_err OK ERROR_SUCCESS_msg (set_err OK ERROR_SUCCESS_msg err_fresh)))"
    "EvRead ev = EvRead r" and q': "req_ok q'" "req_view q' = (req_view q)((fd, SOCK_READ) := None)"
    by (rule pop_read_run)
  then have pop: "req_pop_read (Some q) fd (Some (set_err OK ERROR_SUCCESS_msg err_fresh)) =
       Some (Some q', Some ev, Some (set_err OK ERROR_SUCCESS_msg (set_err OK ERROR_SUCCESS_msg err_fresh)))" by simp
  let ?good = "length (received (nat (rd_size ev)) rs) = nat (rd_size ev) \<or> rd_status (read_event rs ev) = DISCONNECTED
                  \<or> snd (recv_end (nat (rd_size ev)) rs) = Some EAGAIN"
  have off: "rd_offset (read_event rs ev) = int (length (received (nat (rd_size ev)) rs))"
    "rd_size (read_event rs ev) = rd_size ev" by (simp_all add: read_event_def Let_def)
  have good: "rd_offset (read_event rs ev) = rd_size (read_event rs ev) \<or> snd (recv_end (nat (rd_size ev)) rs) = Some EAGAIN
      \<or> rd_status (read_event rs ev) = DISCONNECTED \<longleftrightarrow> ?good"
    using off io(1) by auto
  show ?thesis
  proof (cases ?good)
    case True
    let ?ev = "read_event rs ev"
    show ?thesis
      using True good l pop q'
      by (intro exI [of _ q'] exI [of _ ?ev] exI [of _ "[]"])
         (simp add: pollin_read_def recv_loop_read_event [OF io] push_occurred_def oeq_push_back_run err_simps)
  next
    case False
    let ?n = "snd (recv_end (nat (rd_size ev)) rs)"
    let ?e = "case ?n of Some n \<Rightarrow> (se_error (read_event rs ev))\<lparr>err_error := ERRNO, err_errno := n\<rparr>
              | None \<Rightarrow> set_err FATAL EL_UNDEFINED_ERROR_OF_READ (se_error (read_event rs ev))"
    let ?ev = "(read_event rs ev)\<lparr>se_error := ?e\<rparr>"
    show ?thesis
      using False good l pop q'
      by (intro exI [of _ q'] exI [of _ ?ev] exI [of _ "[(fd, ?e), (fd, ?e)]"])
         (simp add: pollin_read_def recv_loop_read_event [OF io] push_occurred_def oeq_push_back_run err_simps report_def Let_def)
  qed
qed

section \<open>Writes\<close>

lemma send_loop_run:
  assumes "wr_offset e = int off" "wr_size e = int n" "off \<le> n" "n \<le> length (wr_buffer e)"
  shows "\<exists>off' r. off \<le> off' \<and> off' \<le> n \<and> (r \<noteq> None \<longrightarrow> off' < n \<or> off' = off)
    \<and> send_loop rs e = Some (e\<lparr>wr_offset := int off'\<rparr>, r, segment off off' (wr_buffer e))"
  using assms
proof (induction rs arbitrary: e off)
  case Nil
  then have "e\<lparr>wr_offset := int off\<rparr> = e" by simp
  with Nil show ?case by (intro exI [of _ off] exI [of _ "Some EAGAIN"]) (simp add: segment_def)
next
  case (Cons s rs)
  show ?case
  proof (cases s)
    case (SendErr m)
    have "e\<lparr>wr_offset := int off\<rparr> = e" using Cons.prems(1) by simp
    with SendErr Cons.prems show ?thesis by (intro exI [of _ off] exI [of _ "Some m"]) (simp add: segment_def)
  next
    case (Sent m)
    define k where "k = min m (n - off)"
    have k: "min m (nat (wr_size e - wr_offset e)) = k" "k \<le> n - off" using Cons.prems by (simp_all add: k_def)
    show ?thesis
    proof (cases "k = 0")
      case True
      have "e\<lparr>wr_offset := int off\<rparr> = e" using Cons.prems(1) by simp
      with True Sent Cons.prems k show ?thesis
        by (intro exI [of _ off] exI [of _ None]) (simp add: segment_def)
    next
      case False
      let ?e = "e\<lparr>wr_offset := int (off + k)\<rparr>"
      let ?d = "take k (drop off (wr_buffer e))"
      have d: "?d = segment off (off + k) (wr_buffer e)" by (simp add: segment_def)
      show ?thesis
      proof (cases "off + k = n")
        case True
        have "send_loop (s # rs) e = Some (?e, None, ?d)"
          using Sent False True Cons.prems k by (simp add: Let_def)
        then show ?thesis using True d Cons.prems(3) by (intro exI [of _ n] exI [of _ None]) simp
      next
        case False2: False
        then have lt: "off + k < n" using Cons.prems(3) k(2) by linarith
        from Cons.IH [of ?e "off + k"] Cons.prems lt obtain off' r where
          ih: "off + k \<le> off'" "off' \<le> n" "r \<noteq> None \<longrightarrow> off' < n \<or> off' = off + k"
          "send_loop rs ?e = Some (?e\<lparr>wr_offset := int off'\<rparr>, r, segment (off + k) off' (wr_buffer e))" by auto
        have "send_loop (s # rs) e = Some (e\<lparr>wr_offset := int off'\<rparr>, r, ?d @ segment (off + k) off' (wr_buffer e))"
          using Sent False lt Cons.prems k ih(4) by (simp add: Let_def)
        moreover have "?d @ segment (off + k) off' (wr_buffer e) = segment off off' (wr_buffer e)"
          unfolding d using ih(1) by (intro segment_append_segment) simp_all
        ultimately show ?thesis using ih lt by (intro exI [of _ off'] exI [of _ r]) auto
      qed
    qed
  qed
qed

lemma push_write_run:
  assumes ok: "req_ok q" and v: "req_view q (fd, SOCK_WRITE) = None" and w: "se_type w = SOCK_WRITE" "se_socket w = fd" "0 \<le> fd"
  obtains q' er' where "req_push_write mem_ok (Some q) fd w (Some er) = Some (Some q', True, Some er')" "\<not> failed er'"
    "req_ok q'" "req_view q' = (req_view q)((fd, SOCK_WRITE) \<mapsto> EvWrite w)"
proof -
  have fit: "req_fits (fd, ev_type (EvWrite w)) (EvWrite w)" using w by (simp add: req_fits_def ev_tagged_def)
  have "w\<lparr>se_socket := fd\<rparr> = w" using w(2) by simp
  then have push: "eq_push_write True evs (Some (w\<lparr>se_socket := fd\<rparr>)) err = eq_push True evs (Some (EvWrite w)) err" for evs err
    using w(1) by (simp add: eq_push_write_def se_type_idem)
  from req_push_run [OF ok fit push, of er] obtain q' where
    "req_push mem_ok (Some q) fd (\<lambda>evs err. eq_push_write True evs (Some (w\<lparr>se_socket := fd\<rparr>)) err) (Some er)
       = Some (Some q', True, Some (set_err OK ERROR_SUCCESS_msg er))"
    "req_ok q'" "req_view q' = (req_view q)((fd, SOCK_WRITE) \<mapsto> EvWrite w)"
    using v w(1) by auto
  then show thesis by (intro that [of q' "set_err OK ERROR_SUCCESS_msg er"]) (simp_all add: req_push_write_def mem_ok_def err_simps)
qed

text \<open>
  A write that became ready: the bytes sent are the next segment of its buffer, and it either
  stays registered at the new offset or leaves the registry and occurs with it.
\<close>

lemma pollout_run:
  assumes ok: "req_ok q" and v: "req_view q (fd, SOCK_WRITE) = Some (EvWrite w)"
    and io: "wr_offset w = int off" "wr_size w = int n" "off \<le> n" "n \<le> length (wr_buffer w)"
    and l: "el_registered loop = Some q" "el_occurred loop = Some occ"
  shows "\<exists>off' q' occ' reps b. pr_create_pollout_event snd_os loop fd error =
      Some (loop\<lparr>el_registered := Some q', el_occurred := Some occ', el_reported := el_reported loop @ reps,
                 el_sent := el_sent loop @ [(fd, segment off off' (wr_buffer w))]\<rparr>, b, error)
    \<and> off \<le> off' \<and> off' \<le> n \<and> req_ok q'
    \<and> (req_view q' = (req_view q)((fd, SOCK_WRITE) \<mapsto> EvWrite (w\<lparr>wr_offset := int off'\<rparr>)) \<and> occ' = occ
       \<or> req_view q' = (req_view q)((fd, SOCK_WRITE) := None)
         \<and> (\<exists>st e. occ' = occ @ [EvWrite (w\<lparr>wr_offset := int off', wr_status := st, se_error := e\<rparr>)]))"
proof -
  let ?er = "set_err OK ERROR_SUCCESS_msg err_fresh"
  let ?er2 = "set_err OK ERROR_SUCCESS_msg ?er"
  from ok v obtain w0 q1 where pop0: "req_pop_write (Some q) fd (Some ?er) = Some (Some q1, Some w0, Some ?er2)"
    "EvWrite w = EvWrite w0" and q1: "req_ok q1" "req_view q1 = (req_view q)((fd, SOCK_WRITE) := None)"
    by (rule pop_write_run)
  from req_view_tagged [OF ok v] have tag: "se_type w = SOCK_WRITE" "se_socket w = fd" "0 \<le> fd" by simp_all
  from pop0 have pop: "req_pop_write (Some q) fd (Some ?er) = Some (Some q1, Some w, Some ?er2)" by simp
  from send_loop_run [OF io, of "snd_os fd"] obtain off' r where
    s: "off \<le> off'" "off' \<le> n" "r \<noteq> None \<longrightarrow> off' < n \<or> off' = off"
    "send_loop (snd_os fd) w = Some (w\<lparr>wr_offset := int off'\<rparr>, r, segment off off' (wr_buffer w))" by blast
  let ?w = "w\<lparr>wr_offset := int off'\<rparr>"
  let ?sent = "el_sent loop @ [(fd, segment off off' (wr_buffer w))]"
  consider (again) "r = Some EAGAIN" | (progress) "r \<noteq> Some EAGAIN" "off' \<noteq> off" | (failure) "r \<noteq> Some EAGAIN" "off' = off" by blast
  then show ?thesis
  proof cases
    case again
    have v1: "req_view q1 (fd, SOCK_WRITE) = None" using q1(2) by simp
    have "se_type ?w = SOCK_WRITE" "se_socket ?w = fd" using tag by simp_all
    with q1(1) v1 obtain q2 er' where q2: "req_push_write mem_ok (Some q1) fd ?w (Some ?er2) = Some (Some q2, True, Some er')" "\<not> failed er'"
      "req_ok q2" "req_view q2 = (req_view q1)((fd, SOCK_WRITE) \<mapsto> EvWrite ?w)" using tag(3) by (rule push_write_run)
    have "req_view q2 = (req_view q)((fd, SOCK_WRITE) \<mapsto> EvWrite ?w)" using q2(4) q1(2) by simp
    moreover have "pr_create_pollout_event snd_os loop fd error =
      Some (loop\<lparr>el_registered := Some q2, el_occurred := Some occ, el_reported := el_reported loop @ [], el_sent := ?sent\<rparr>, True, error)"
      using again l pop s(4) q2(1,2) tag by (simp add: pr_create_pollout_event_def EAGAIN_def EPIPE_def)
    ultimately show ?thesis using s q2(3) by blast
  next
    case progress
    let ?v = "?w\<lparr>wr_status := (if r = Some EPIPE then DISCONNECTED else wr_status w), se_error := se_error w\<rparr>"
    have "pr_create_pollout_event snd_os loop fd error =
      Some (loop\<lparr>el_registered := Some q1, el_occurred := Some (occ @ [EvWrite ?v]), el_reported := el_reported loop @ [], el_sent := ?sent\<rparr>, True, error)"
      using progress l pop s(4) io(1) tag
      by (simp add: pr_create_pollout_event_def push_occurred_def oeq_push_back_run err_simps)
    then show ?thesis using s q1 by blast
  next
    case failure
    let ?e = "case r of Some m \<Rightarrow> (se_error w)\<lparr>err_error := ERRNO, err_errno := m\<rparr> | None \<Rightarrow> set_err FATAL EL_UNDEFINED_ERROR_OF_WRITE (se_error w)"
    let ?v = "?w\<lparr>wr_status := (if r = Some EPIPE then DISCONNECTED else wr_status w), se_error := ?e\<rparr>"
    have "pr_create_pollout_event snd_os loop fd error =
      Some (loop\<lparr>el_registered := Some q1, el_occurred := Some (occ @ [EvWrite ?v]), el_reported := el_reported loop @ [(fd, ?e)], el_sent := ?sent\<rparr>, True, error)"
      using failure l pop s(4) io(1) tag
      by (cases r) (simp_all add: pr_create_pollout_event_def push_occurred_def oeq_push_back_run err_simps report_def Let_def)
    then show ?thesis using s q1 by blast
  qed
qed

section \<open>A step of the manager\<close>

lemma io_okD:
  "req_ok q \<Longrightarrow> \<forall>k e. req_view q k = Some e \<longrightarrow> io_ok e \<Longrightarrow> req_view q (s, SOCK_READ) = Some e \<Longrightarrow>
     \<exists>r. e = EvRead r \<and> 0 \<le> rd_size r \<and> rd_size r \<le> int (length (rd_buffer r))"
  "req_ok q \<Longrightarrow> \<forall>k e. req_view q k = Some e \<longrightarrow> io_ok e \<Longrightarrow> req_view q (s, SOCK_WRITE) = Some e \<Longrightarrow>
     \<exists>w. e = EvWrite w \<and> 0 \<le> wr_offset w \<and> wr_offset w \<le> wr_size w \<and> wr_size w \<le> int (length (wr_buffer w))"
  using req_view_tagged [of q s SOCK_READ e] req_view_tagged [of q s SOCK_WRITE e]
  by (auto simp: io_ok_def ev_tagged_def split: event_t.splits)

text \<open>
  How a step may change the loop: well-formedness, the acceptors and the index stay, the events
  that had occurred stay in front, and only the registrations of \<open>fd\<close> change.
\<close>

definition steps_to :: "int set \<Rightarrow> 'z event_loop_scheme \<Rightarrow> 'z event_loop_scheme \<Rightarrow> bool" where
  "steps_to fds loop loop' \<longleftrightarrow>
     loop_ok loop' \<and> el_acceptors loop' = el_acceptors loop \<and> el_timers loop' = el_timers loop
     \<and> el_index_acceptors_start loop' = el_index_acceptors_start loop
     \<and> (\<exists>new. the (el_occurred loop') = the (el_occurred loop) @ new)
     \<and> (\<forall>k. fst k \<notin> fds \<longrightarrow> req_view (the (el_registered loop')) k = req_view (the (el_registered loop)) k)"

lemma steps_to_refl: "loop_ok loop \<Longrightarrow> steps_to fds loop loop"
  by (simp add: steps_to_def)

lemma steps_to_trans: "steps_to fds l1 l2 \<Longrightarrow> steps_to fds l2 l3 \<Longrightarrow> steps_to fds l1 l3"
  by (auto simp: steps_to_def)

lemma steps_to_mono: "steps_to fds l1 l2 \<Longrightarrow> fds \<subseteq> fds' \<Longrightarrow> steps_to fds' l1 l2"
  by (auto simp: steps_to_def)

lemma pollin_accept_steps:
  assumes "loop_ok loop"
  shows "\<exists>loop' b er. pollin_accept acc loop fd error = (loop', b, er) \<and> steps_to {} loop loop'"
proof -
  from assms obtain q sq occ where l: "el_registered loop = Some q" "el_acceptors loop = Some sq" "el_occurred loop = Some occ"
    and ok: "req_ok q" "sq_ok sq" "\<forall>k e. req_view q k = Some e \<longrightarrow> io_ok e" by (rule loop_okE)
  show ?thesis
    using l ok
    by (auto simp: pollin_accept_def sq_get_def pr_sq_get_def err_simps push_occurred_def oeq_push_back_run report_def
          steps_to_def loop_ok_def Let_def split: option.splits sum.splits prod.splits)
qed

lemma pollin_read_steps:
  assumes "loop_ok loop" "req_view (the (el_registered loop)) (fd, SOCK_READ) \<noteq> None" "error \<noteq> NULL"
  shows "\<exists>loop' b er. pollin_read rs loop fd error = Some (loop', b, er) \<and> er \<noteq> NULL \<and> steps_to {fd} loop loop'"
proof -
  from assms(1) obtain q sq occ where l: "el_registered loop = Some q" "el_acceptors loop = Some sq" "el_occurred loop = Some occ"
    and ok: "req_ok q" "sq_ok sq" and io: "\<forall>k e. req_view q k = Some e \<longrightarrow> io_ok e" by (rule loop_okE)
  from assms(2) l obtain e where v: "req_view q (fd, SOCK_READ) = Some e" by auto
  from io_okD(1) [OF ok(1) io v] obtain r where
    r: "e = EvRead r" "0 \<le> rd_size r" "rd_size r \<le> int (length (rd_buffer r))" by blast
  from assms(3) obtain er where er: "error = Some er" by blast
  from pollin_read_run [OF ok(1) v [unfolded r(1)] r(2,3) l(1,3), of rs er] obtain q' ev' reps er' where
    p: "pollin_read rs loop fd (Some er) =
      Some (loop\<lparr>el_registered := Some q', el_occurred := Some (occ @ [EvRead ev']), el_reported := el_reported loop @ reps\<rparr>, reps = [], Some er')"
    and q': "req_ok q'" "req_view q' = (req_view q)((fd, SOCK_READ) := None)" by blast
  have "steps_to {fd} loop (loop\<lparr>el_registered := Some q', el_occurred := Some (occ @ [EvRead ev']), el_reported := el_reported loop @ reps\<rparr>)"
    using l ok io q' by (auto simp: steps_to_def loop_ok_def)
  with p er show ?thesis by blast
qed

lemma pollout_steps:
  assumes "loop_ok loop" "req_view (the (el_registered loop)) (fd, SOCK_WRITE) \<noteq> None"
  shows "\<exists>loop' b. pr_create_pollout_event snd_os loop fd error = Some (loop', b, error) \<and> steps_to {fd} loop loop'"
proof -
  from assms(1) obtain q sq occ where l: "el_registered loop = Some q" "el_acceptors loop = Some sq" "el_occurred loop = Some occ"
    and ok: "req_ok q" "sq_ok sq" and io: "\<forall>k e. req_view q k = Some e \<longrightarrow> io_ok e" by (rule loop_okE)
  from assms(2) l obtain e where v: "req_view q (fd, SOCK_WRITE) = Some e" by auto
  from io_okD(2) [OF ok(1) io v] obtain w where
    w: "e = EvWrite w" "0 \<le> wr_offset w" "wr_offset w \<le> wr_size w" "wr_size w \<le> int (length (wr_buffer w))" by blast
  have "wr_offset w = int (nat (wr_offset w))" "wr_size w = int (nat (wr_size w))" "nat (wr_offset w) \<le> nat (wr_size w)"
    "nat (wr_size w) \<le> length (wr_buffer w)" using w by auto
  from pollout_run [OF ok(1) v [unfolded w(1)] this l(1,3), of snd_os error] obtain off' q' occ' reps b where
    p: "pr_create_pollout_event snd_os loop fd error =
      Some (loop\<lparr>el_registered := Some q', el_occurred := Some occ', el_reported := el_reported loop @ reps,
                 el_sent := el_sent loop @ [(fd, segment (nat (wr_offset w)) off' (wr_buffer w))]\<rparr>, b, error)"
    and q': "off' \<le> nat (wr_size w)" "req_ok q'"
      "req_view q' = (req_view q)((fd, SOCK_WRITE) \<mapsto> EvWrite (w\<lparr>wr_offset := int off'\<rparr>)) \<and> occ' = occ
       \<or> req_view q' = (req_view q)((fd, SOCK_WRITE) := None)
         \<and> (\<exists>st e. occ' = occ @ [EvWrite (w\<lparr>wr_offset := int off', wr_status := st, se_error := e\<rparr>)])" by blast
  have "io_ok (EvWrite (w\<lparr>wr_offset := int off'\<rparr>))" using w q'(1) by (auto simp: io_ok_def)
  then have "\<forall>k e. req_view q' k = Some e \<longrightarrow> io_ok e" using q'(3) io by (auto split: if_splits)
  moreover have "\<exists>new. occ' = occ @ new" "\<forall>k. fst k \<noteq> fd \<longrightarrow> req_view q' k = req_view q k" using q'(3) by auto
  ultimately have "steps_to {fd} loop (loop\<lparr>el_registered := Some q', el_occurred := Some occ', el_reported := el_reported loop @ reps,
                 el_sent := el_sent loop @ [(fd, segment (nat (wr_offset w)) off' (wr_buffer w))]\<rparr>)"
    using l ok q' by (auto simp: steps_to_def loop_ok_def)
  with p show ?thesis by blast
qed

text \<open>A cell that asks only for what is registered; \<open>m\<close> is the index of the first acceptor.\<close>

definition cell_ok :: "nat \<Rightarrow> registered_events_queue \<Rightarrow> nat \<Rightarrow> pollfd \<Rightarrow> bool" where
  "cell_ok m q i c \<longleftrightarrow>
     (if i < m then (POLLIN \<in> pfd_events c \<longrightarrow> req_view q (pfd_fd c, SOCK_READ) \<noteq> None)
                  \<and> (POLLOUT \<in> pfd_events c \<longrightarrow> req_view q (pfd_fd c, SOCK_WRITE) \<noteq> None)
      else POLLOUT \<notin> pfd_events c)"

definition poll_answer_ok :: "pollfd list \<Rightarrow> poll_flag set list \<Rightarrow> bool" where
  "poll_answer_ok fds revs \<longleftrightarrow> list_all2 (\<lambda>c r. r \<subseteq> pfd_events c \<union> {POLLERR, POLLHUP, POLLNVAL}) fds revs"

lemma dispatch_ready_steps:
  assumes "loop_ok loop" "error \<noteq> NULL" "poll_answer_ok fds revs" "el_index_acceptors_start loop = m"
    "\<forall>j<length fds. cell_ok m (the (el_registered loop)) (i + j) (fds ! j)"
    "distinct (map pfd_fd (take (m - i) fds))"
  shows "\<exists>loop' er. dispatch_ready os fds revs i loop error = Some (loop', er) \<and> er \<noteq> NULL
           \<and> steps_to (set (map pfd_fd fds)) loop loop'"
  using assms
proof (induction fds arbitrary: revs i loop error)
  case Nil
  then show ?case by (cases revs) (auto simp: steps_to_refl)
next
  case (Cons c fds)
  from Cons.prems(3) obtain r revs' where revs: "revs = r # revs'" "r \<subseteq> pfd_events c \<union> {POLLERR, POLLHUP, POLLNVAL}"
    "poll_answer_ok fds revs'" by (auto simp: poll_answer_ok_def list_all2_Cons1)
  have c: "cell_ok m (the (el_registered loop)) i c" using Cons.prems(5) by force
  define cell where "cell =
    (if POLLIN \<in> r then
       do { (l, _, e) \<leftarrow> pr_create_pollin_event (os_accept os) (os_recv os) loop (pfd_fd c) i error; Some (l, e) }
     else if POLLOUT \<in> r then
       do { (l, _, e) \<leftarrow> pr_create_pollout_event (os_send os) loop (pfd_fd c) error; Some (l, e) }
     else Some (loop, error))"
  have "\<exists>loop1 er. cell = Some (loop1, er) \<and> er \<noteq> NULL \<and> steps_to (if i < m then {pfd_fd c} else {}) loop loop1"
  proof -
    consider (acc) "POLLIN \<in> r" "m \<le> i" | (rd) "POLLIN \<in> r" "i < m" | (wr) "POLLIN \<notin> r" "POLLOUT \<in> r"
      | (no) "POLLIN \<notin> r" "POLLOUT \<notin> r" by fastforce
    then show ?thesis
    proof cases
      case acc
      from pollin_accept_steps [OF Cons.prems(1), of "os_accept os (pfd_fd c)" "pfd_fd c" error] obtain loop' b er where
        p: "pollin_accept (os_accept os (pfd_fd c)) loop (pfd_fd c) error = (loop', b, er)" "steps_to {} loop loop'" by blast
      have "er \<noteq> NULL" using p(1) Cons.prems(2)
        by (auto simp: pollin_accept_def Let_def err_simps split: option.splits sum.splits prod.splits if_splits)
      with acc p Cons.prems(4) show ?thesis by (simp add: cell_def pr_create_pollin_event_def)
    next
      case rd
      then have "req_view (the (el_registered loop)) (pfd_fd c, SOCK_READ) \<noteq> None" using c revs(2) by (auto simp: cell_ok_def)
      from pollin_read_steps [OF Cons.prems(1) this Cons.prems(2), of "os_recv os (pfd_fd c)"] rd Cons.prems(4)
      show ?thesis by (auto simp: cell_def pr_create_pollin_event_def)
    next
      case wr
      then have w: "req_view (the (el_registered loop)) (pfd_fd c, SOCK_WRITE) \<noteq> None" "i < m"
        using c revs(2) by (auto simp: cell_ok_def split: if_splits)
      from pollout_steps [OF Cons.prems(1) w(1), of "os_send os" error] wr w Cons.prems(2) show ?thesis by (auto simp: cell_def)
    next
      case no
      with Cons.prems(1,2) show ?thesis by (auto simp: cell_def steps_to_refl)
    qed
  qed
  then obtain loop1 er where cell: "cell = Some (loop1, er)" "er \<noteq> NULL"
    and st: "steps_to (if i < m then {pfd_fd c} else {}) loop loop1" by blast
  from st have ok1: "loop_ok loop1" and m1: "el_index_acceptors_start loop1 = m" using Cons.prems(4) by (auto simp: steps_to_def)
  have cells: "\<forall>j<length fds. cell_ok m (the (el_registered loop1)) (Suc i + j) (fds ! j)"
  proof (intro allI impI)
    fix j assume j: "j < length fds"
    then have k: "cell_ok m (the (el_registered loop)) (Suc i + j) (fds ! j)" using Cons.prems(5) by force
    show "cell_ok m (the (el_registered loop1)) (Suc i + j) (fds ! j)"
    proof (cases "Suc i + j < m")
      case True
      then have "m - i = Suc (m - Suc i)" by simp
      then have "take (m - i) (c # fds) = c # take (m - Suc i) fds" by (simp only: take_Suc_Cons)
      moreover have "fds ! j \<in> set (take (m - Suc i) fds)" using True j by (auto simp: in_set_conv_nth intro!: exI [of _ j])
      ultimately have "pfd_fd (fds ! j) \<noteq> pfd_fd c" using Cons.prems(6) by (metis distinct.simps(2) image_eqI list.set_map list.simps(9))
      then show ?thesis using k st by (auto simp: cell_ok_def steps_to_def split: if_splits)
    next
      case False
      then show ?thesis using k by (simp add: cell_ok_def)
    qed
  qed
  have d: "distinct (map pfd_fd (take (m - Suc i) fds))"
  proof (cases "m - i")
    case (Suc n)
    then have "m - Suc i = n" by simp
    with Suc Cons.prems(6) show ?thesis by simp
  qed simp
  from Cons.IH [OF ok1 cell(2) revs(3) m1 cells d] obtain loop' er' where
    ih: "dispatch_ready os fds revs' (Suc i) loop1 er = Some (loop', er')" "er' \<noteq> NULL" "steps_to (set (map pfd_fd fds)) loop1 loop'" by blast
  have "dispatch_ready os (c # fds) revs i loop error = Some (loop', er')"
    using cell ih(1) unfolding revs(1) dispatch_ready.simps cell_def by simp
  moreover have "steps_to (set (map pfd_fd (c # fds))) loop loop'"
    by (rule steps_to_trans [OF steps_to_mono [OF st] steps_to_mono [OF ih(3)]]) auto
  ultimately show ?case using ih(2) by blast
qed

section \<open>Timers\<close>

text \<open>
  What a pass leaves of a timer. \<open>del\<close> says whether the handler of the timer frees it, as the
  handlers of the server do through \<open>el_timer_free\<close>.
\<close>

definition timer_after :: "int \<Rightarrow> (nat \<Rightarrow> bool) \<Rightarrow> sock_timer_event \<Rightarrow> sock_timer_event" where
  "timer_after now del t =
     (if timer_due now t then t\<lparr>te_time_start := word_of_int now, te_has_delete := del (te_id t)\<rparr> else t)"

lemma update_first_at:
  assumes "distinct (map te_id ts)" "k < length ts"
  shows "tailq_update_first (\<lambda>t. te_id t = te_id (ts ! k)) f ts = ts[k := f (ts ! k)]"
  using assms
proof (induction ts arbitrary: k)
  case (Cons t ts)
  show ?case
  proof (cases k)
    case (Suc j)
    with Cons.prems have "te_id t \<noteq> te_id (ts ! j)" by auto
    with Suc Cons show ?thesis by simp
  qed simp
qed simp

lemma find_at:
  assumes "distinct (map te_id ts)" "k < length ts"
  shows "List.find (\<lambda>t. te_id t = te_id (ts ! k)) ts = Some (ts ! k)"
  using assms
proof (induction ts arbitrary: k)
  case (Cons t ts)
  show ?case
  proof (cases k)
    case (Suc j)
    with Cons.prems have "te_id t \<noteq> te_id (ts ! j)" by auto
    with Suc Cons show ?thesis by simp
  qed simp
qed simp

lemma remove_timers_filter:
  assumes "distinct (map te_id ts)"
  shows "foldl (\<lambda>ts n. tailq_remove_first (\<lambda>t. te_id t = n) ts) ts ns = filter (\<lambda>t. te_id t \<notin> set ns) ts"
  using assms
proof (induction ns arbitrary: ts)
  case (Cons n ns)
  have r: "tailq_remove_first (\<lambda>t. te_id t = n) ts = filter (\<lambda>t. te_id t \<noteq> n) ts"
    using Cons.prems
  proof (induction ts)
    case (Cons t ts)
    show ?case
    proof (cases "te_id t = n")
      case True
      then have "\<forall>u\<in>set ts. te_id u \<noteq> n" using Cons.prems by (auto simp: image_iff)
      then have "filter (\<lambda>t. te_id t \<noteq> n) ts = ts" by (simp add: filter_id_conv)
      with True show ?thesis by simp
    qed (use Cons in simp)
  qed simp
  have "distinct (map te_id (filter (\<lambda>t. te_id t \<noteq> n) ts))" using Cons.prems by (simp add: distinct_map_filter)
  with Cons.IH r show ?case by (simp add: conj_commute)
qed simp

definition timer_swept :: "int \<Rightarrow> (nat \<Rightarrow> bool) \<Rightarrow> sock_timer_event \<Rightarrow> sock_timer_event" where
  "timer_swept now del t =
     (let u = timer_after now del t in if te_has_delete u then u\<lparr>te_is_processed := True\<rparr> else u)"

definition timer_handlers_only_free :: "'z handlers \<Rightarrow> (nat \<Rightarrow> bool) \<Rightarrow> bool" where
  "timer_handlers_only_free call del \<longleftrightarrow>
     (\<forall>h s n l. \<exists>l'. call (CallTimer h s n) l = Some l' \<and>
        el_timers l' = (if del n then tailq_update_first (\<lambda>t. te_id t = n) (\<lambda>t. t\<lparr>te_has_delete := True\<rparr>) (el_timers l)
                        else el_timers l))"

text \<open>
  \<open>log\<close> reads, from a part of the state that is no timer, the calls made so far: every call of a
  handler appends itself.
\<close>

definition records_calls :: "'z handlers \<Rightarrow> ('z event_loop_scheme \<Rightarrow> handler_call list) \<Rightarrow> bool" where
  "records_calls call log \<longleftrightarrow>
     (\<forall>l ts. log (l\<lparr>el_timers := ts\<rparr>) = log l) \<and> (\<forall>c l l'. call c l = Some l' \<longrightarrow> log l' = log l @ [c])"

definition timer_call :: "sock_timer_event \<Rightarrow> handler_call" where
  "timer_call t = CallTimer (te_handler t) (te_socket t) (te_id t)"

lemma records_timers [simp]:
  assumes "records_calls call log"
  shows "log (timer_update n f l) = log l" "log (remove_timers ns l) = log l"
  using assms by (simp_all add: records_calls_def timer_update_def remove_timers_def)

lemma timer_after_id [simp]: "te_id (timer_after now del t) = te_id t"
  by (simp add: timer_after_def)

lemma timer_swept_id [simp]: "te_id (timer_swept now del t) = te_id t"
  by (simp add: timer_swept_def Let_def)

lemma timer_swept_delete: "te_has_delete (timer_swept now del t) = te_has_delete (timer_after now del t)"
  by (simp add: timer_swept_def Let_def)

text \<open>One timer of the pass, at position \<open>k\<close>.\<close>

lemma timer_step:
  assumes h: "timer_handlers_only_free call del" and d: "distinct (map te_id ts)" and k: "k < length ts"
    and t: "ts ! k = t" "\<not> te_is_processed t" and l: "el_timers loop = ts" and r: "records_calls call log"
  obtains loop2 where
    "(if timer_due now t then
        do {
          loop1 \<leftarrow> call (CallTimer (te_handler t) (te_socket t) (te_id t)) (timer_update (te_id t) (\<lambda>t. t\<lparr>te_is_processed := True\<rparr>) loop);
          Some (timer_update (te_id t) (\<lambda>t. t\<lparr>te_is_processed := False, te_time_start := word_of_int now\<rparr>) loop1)
        }
      else Some loop) = Some loop2" "el_timers loop2 = ts[k := timer_after now del t]"
    "log loop2 = log loop @ (if timer_due now t then [timer_call t] else [])"
proof (cases "timer_due now t")
  case True
  let ?p = "t\<lparr>te_is_processed := True\<rparr>"
  have upd: "tailq_update_first (\<lambda>x. te_id x = te_id t) f (ts[k := u]) = ts[k := f u]" if "te_id u = te_id t" for f u
  proof -
    have "distinct (map te_id (ts[k := u]))" using d that t(1) k by (metis list_update_id map_update)
    from update_first_at [OF this, of k f] show ?thesis using k that by simp
  qed
  have "ts[k := t] = ts" using t(1) by auto
  with upd [of t] have 0: "el_timers (timer_update (te_id t) (\<lambda>t. t\<lparr>te_is_processed := True\<rparr>) loop) = ts[k := ?p]"
    using l by (simp add: timer_update_def)
  from h obtain loop1 where c: "call (CallTimer (te_handler t) (te_socket t) (te_id t)) (timer_update (te_id t) (\<lambda>t. t\<lparr>te_is_processed := True\<rparr>) loop) = Some loop1"
    and 1: "el_timers loop1 = (if del (te_id t) then tailq_update_first (\<lambda>x. te_id x = te_id t) (\<lambda>t. t\<lparr>te_has_delete := True\<rparr>) (ts[k := ?p]) else ts[k := ?p])"
    unfolding timer_handlers_only_free_def 0 [symmetric] by blast
  from True have nd: "\<not> te_has_delete t" by (simp add: timer_due_def)
  have "el_timers loop1 = ts[k := ?p\<lparr>te_has_delete := del (te_id t)\<rparr>]"
    unfolding 1 using nd upd [of ?p] by (cases t) simp
  with upd [of "?p\<lparr>te_has_delete := del (te_id t)\<rparr>"] True t(2)
  have "el_timers (timer_update (te_id t) (\<lambda>t. t\<lparr>te_is_processed := False, te_time_start := word_of_int now\<rparr>) loop1)
      = ts[k := timer_after now del t]"
    by (cases t) (simp add: timer_update_def timer_after_def)
  moreover from r c have "log loop1 = log loop @ [timer_call t]"
    using records_timers(1) [OF r] by (simp add: records_calls_def timer_call_def)
  ultimately show thesis using c True records_timers(1) [OF r] by (intro that [of "timer_update (te_id t) (\<lambda>t. t\<lparr>te_is_processed := False, te_time_start := word_of_int now\<rparr>) loop1"]) simp_all
next
  case False
  moreover have "ts[k := t] = ts" using t(1) by auto
  ultimately show thesis using l by (intro that [of loop]) (simp_all add: timer_after_def)
qed

lemma timers_pass_run:
  assumes h: "timer_handlers_only_free call del" and d: "distinct (map te_id ts)"
    and np: "\<forall>t\<in>set ts. \<not> te_is_processed t"
    and fuel: "length ts \<le> k + fuel" and k: "k \<le> length ts"
    and l: "el_timers loop = map (timer_swept now del) (take k ts) @ drop k ts"
    and r: "records_calls call log"
  shows "\<exists>loop'. timers_pass call now fuel k loop removed =
      Some (loop', removed @ map te_id (filter te_has_delete (map (timer_after now del) (drop k ts))), True)
    \<and> el_timers loop' = map (timer_swept now del) ts
    \<and> log loop' = log loop @ map timer_call (filter (timer_due now) (drop k ts))"
  using fuel k l
proof (induction fuel arbitrary: k loop removed)
  case 0
  then show ?case by simp
next
  case (Suc fuel)
  show ?case
  proof (cases "k = length ts")
    case True
    with Suc.prems show ?thesis by simp
  next
    case False
    with Suc.prems(2) have k: "k < length ts" by simp
    let ?t = "ts ! k" let ?u = "timer_after now del ?t"
    let ?all = "map (timer_swept now del) (take k ts) @ drop k ts"
    have "map te_id (map (timer_swept now del) (take k ts)) = map te_id (take k ts)" by simp
    then have ids: "map te_id ?all = map te_id ts" by (simp only: map_append map_append [symmetric] append_take_drop_id)
    then have da: "distinct (map te_id ?all)" using d by simp
    have len: "length ?all = length ts" using k by simp
    have at: "?all ! k = ?t" using k by (simp add: nth_append)
    have np': "\<not> te_is_processed ?t" using np k by simp
    from timer_step [OF h da _ at np' Suc.prems(3) r, of now] k len obtain loop2 where
      l2: "(if timer_due now ?t then
        do {
          loop1 \<leftarrow> call (CallTimer (te_handler ?t) (te_socket ?t) (te_id ?t)) (timer_update (te_id ?t) (\<lambda>t. t\<lparr>te_is_processed := True\<rparr>) loop);
          Some (timer_update (te_id ?t) (\<lambda>t. t\<lparr>te_is_processed := False, te_time_start := word_of_int now\<rparr>) loop1)
        }
      else Some loop) = Some loop2" "el_timers loop2 = ?all[k := ?u]"
      and log2: "log loop2 = log loop @ (if timer_due now ?t then [timer_call ?t] else [])" by auto
    have d2: "distinct (map te_id (el_timers loop2))"
    proof -
      have "(map te_id ?all)[k := te_id ?t] = map te_id ?all"
        using at k len by (metis list_update_id nth_map)
      then show ?thesis using da by (simp only: l2(2) map_update timer_after_id)
    qed
    have at2: "el_timers loop2 ! k = ?u" "k < length (el_timers loop2)" using l2(2) k by simp_all
    from find_at [OF d2 at2(2)] at2(1) have find: "List.find (\<lambda>x. te_id x = te_id ?t) (el_timers loop2) = Some ?u" by simp
    have np2: "\<not> te_is_processed ?u" using np' by (simp add: timer_after_def)
    have swept: "map (timer_swept now del) (take (Suc k) ts) @ drop (Suc k) ts = ?all[k := timer_swept now del ?t]"
      using k by (simp add: take_Suc_conv_app_nth list_update_append Cons_nth_drop_Suc [symmetric])
    have here: "el_timers loop ! k = ?t" "\<not> length (el_timers loop) \<le> k" using Suc.prems(3) at k len by simp_all
    have rest: "filter te_has_delete (map (timer_after now del) (drop k ts)) =
        (if te_has_delete ?u then [?u] else []) @ filter te_has_delete (map (timer_after now del) (drop (Suc k) ts))"
      using k by (simp add: Cons_nth_drop_Suc [symmetric])
    have calls: "filter (timer_due now) (drop k ts) = (if timer_due now ?t then [?t] else []) @ filter (timer_due now) (drop (Suc k) ts)"
      using k by (simp add: Cons_nth_drop_Suc [symmetric])
    show ?thesis
    proof (cases "te_has_delete ?u")
      case True
      let ?loop3 = "timer_update (te_id ?t) (\<lambda>t. t\<lparr>te_is_processed := True\<rparr>) loop2"
      have "el_timers ?loop3 = map (timer_swept now del) (take (Suc k) ts) @ drop (Suc k) ts"
        using update_first_at [OF d2 at2(2), of "\<lambda>t. t\<lparr>te_is_processed := True\<rparr>"] at2(1) l2(2) True
        by (simp add: timer_update_def swept timer_swept_def Let_def)
      from Suc.IH [OF _ _ this, of "removed @ [te_id ?t]"] Suc.prems(1) k
      show ?thesis using l2(1) find True np2 here rest calls log2 records_timers(1) [OF r] by (cases "timer_due now ?t") (simp_all add: Let_def)
    next
      case False
      have "el_timers loop2 = map (timer_swept now del) (take (Suc k) ts) @ drop (Suc k) ts"
        using l2(2) False by (simp add: swept timer_swept_def Let_def)
      from Suc.IH [OF _ _ this, of removed] Suc.prems(1) k
      show ?thesis using l2(1) find False here rest calls log2 by (cases "timer_due now ?t") (simp_all add: Let_def)
    qed
  qed
qed

section \<open>Properties\<close>

lemma received_chunks:
  assumes "\<forall>s\<in>set chunks. s \<noteq> []"
    and "rest = [] \<or> (\<exists>n rs. rest = RecvErr n # rs) \<or> (\<exists>rs. rest = RecvData [] # rs)"
  shows "received room (map RecvData chunks @ rest) = take room (concat chunks)"
    and "length (concat chunks) < room \<Longrightarrow> recv_end room (map RecvData chunks @ rest) = recv_end 1 rest"
  using assms
proof (induction chunks arbitrary: room)
  case Nil
  { case 1 then show ?case by auto next case 2 then show ?case by auto }
next
  case (Cons s chunks)
  { case 1 with Cons.IH(1) show ?case by (cases "room \<le> length s") auto
  next case 2 with Cons.IH(2) [of "room - length s"] show ?case by auto }
qed

text \<open>A loop with one registration or none, for the examples.\<close>

definition demo_loop :: "registered_events_queue \<Rightarrow> sockets_queue \<Rightarrow> occurred_event_queue \<Rightarrow> event_loop" where
  "demo_loop q sq occ = \<lparr>el_acceptors = Some sq, el_index_acceptors_start = 0, el_registered = Some q, el_timers = [],
     el_occurred = Some occ, el_is_run = True, el_thread = False, el_global_handler = 0, el_next_timer = 0, el_sent = [], el_reported = []\<rparr>"

definition demo_write :: "int \<Rightarrow> event_sock_write" where
  "demo_write s = \<lparr>se_type = SOCK_WRITE, se_socket = s, se_error = err_fresh, wr_handler = 2, wr_offset = 0, wr_size = 4,
                   wr_buffer = ''250 '', wr_status = CONNECTED\<rparr>"

definition demo_reads :: registered_events_queue where
  "demo_reads = [\<lparr>re_sock = 4, re_events = Some [EvRead (demo_read 4)]\<rparr>]"

definition demo_writes :: registered_events_queue where
  "demo_writes = [\<lparr>re_sock = 4, re_events = Some [EvWrite (demo_write 4)]\<rparr>]"

definition demo_acceptors :: sockets_queue where
  "demo_acceptors = [\<lparr>sk_socket = 3, sk_handler = 7\<rparr>, \<lparr>sk_socket = 5, sk_handler = 7\<rparr>]"

lemma demo_read_view:
  "req_ok demo_reads" "req_view demo_reads = [(4, SOCK_READ) \<mapsto> EvRead (demo_read 4)]"
  by (auto simp: demo_reads_def req_ok_def entry_ok_def ev_tagged_def demo_read_def req_view_def pr_req_get_sock_def fun_eq_iff
        split: option.splits)

lemma demo_write_view:
  "req_ok demo_writes" "req_view demo_writes = [(4, SOCK_WRITE) \<mapsto> EvWrite (demo_write 4)]"
  by (auto simp: demo_writes_def req_ok_def entry_ok_def ev_tagged_def demo_write_def req_view_def pr_req_get_sock_def fun_eq_iff
        split: option.splits)

lemma demo_acceptors_ok: "sq_ok demo_acceptors"
  by (simp add: demo_acceptors_def sq_ok_def)

lemma demo_loop_ok: "loop_ok (demo_loop demo_reads demo_acceptors occ)" "loop_ok (demo_loop demo_writes demo_acceptors occ)"
  using demo_read_view demo_write_view demo_acceptors_ok
  by (auto simp: loop_ok_def demo_loop_def io_ok_def demo_read_def demo_write_def split: if_splits)

text \<open>
  On a well-formed loop \<open>pr_create_pollfd\<close> builds an array with one descriptor per
  registered socket that asks exactly for the registered directions. Of the acceptors only the
  last one is polled: all of them are written to one cell, and the cells left over poll
  descriptor 0 for nothing.
\<close>

theorem poll_array_exact:
  assumes "loop_ok loop" "el_registered loop = Some q" "el_acceptors loop = Some sq"
  shows "pr_create_pollfd True loop (Some er) =
     Some (loop\<lparr>el_index_acceptors_start := length q\<rparr>,
           Some (map (\<lambda>e. \<lparr>pfd_fd = re_sock e, pfd_events = wanted q (re_sock e)\<rparr>) q
                 @ (if sq = [] then []
                    else \<lparr>pfd_fd = sk_socket (last sq), pfd_events = {POLLIN}\<rparr> # replicate (length sq - 1) \<lparr>pfd_fd = 0, pfd_events = {}\<rparr>)),
           length q + length sq, Some (set_err OK ERROR_SUCCESS_msg err_fresh))"
proof -
  from assms have "req_ok q" "\<forall>k e. req_view q k = Some e \<longrightarrow> io_ok e" by (auto simp: loop_ok_def)
  from create_pollfd_run [OF this assms(2,3)] show ?thesis by (simp add: poll_cells_def pollfd_zero_def)
qed

theorem poll_array_exact_witness:
  "\<exists>loop'. pr_create_pollfd True (demo_loop demo_reads demo_acceptors []) (Some err_fresh) =
     Some (loop', Some [\<lparr>pfd_fd = 4, pfd_events = {POLLIN, POLLHUP}\<rparr>, \<lparr>pfd_fd = 5, pfd_events = {POLLIN}\<rparr>, \<lparr>pfd_fd = 0, pfd_events = {}\<rparr>],
           3, Some (set_err OK ERROR_SUCCESS_msg err_fresh))"
proof -
  have "wanted demo_reads 4 = {POLLIN, POLLHUP}" by (simp add: wanted_def demo_read_view)
  with poll_array_exact [OF demo_loop_ok(1) [of "[]"], of demo_reads demo_acceptors err_fresh] show ?thesis
    by (simp add: demo_loop_def demo_reads_def demo_acceptors_def)
qed

text \<open>
  C23: A registered read is delivered once and completely: when \<open>recv\<close> returns the chunks and
  then would block or reports the end of the stream, exactly one read event is appended to the
  events that occurred; its buffer starts with the concatenation of the chunks, as much of it as
  fits, its offset counts those bytes, and it is DISCONNECTED if the stream ended before the
  buffer was full. The registration is gone, and no other one is touched.
\<close>

theorem read_event_delivers_bytes:
  assumes "loop_ok loop" "el_registered loop = Some q" "el_occurred loop = Some occ"
    and "req_view q (fd, SOCK_READ) = Some (EvRead ev)" "rd_status ev = CONNECTED"
    and "\<forall>s\<in>set chunks. s \<noteq> []" "rest = [] \<or> rest = [RecvErr EAGAIN] \<or> rest = [RecvData []]"
  shows "\<exists>loop' q' ev'. pollin_read (map RecvData chunks @ rest) loop fd (Some er) = Some (loop', True, Some (set_err OK ERROR_SUCCESS_msg err_fresh))
     \<and> el_registered loop' = Some q' \<and> req_ok q' \<and> req_view q' = (req_view q)((fd, SOCK_READ) := None)
     \<and> el_occurred loop' = Some (occ @ [EvRead ev'])
     \<and> take (nat (rd_offset ev')) (rd_buffer ev') = take (nat (rd_size ev)) (concat chunks)
     \<and> rd_offset ev' = min (rd_size ev) (int (length (concat chunks)))
     \<and> rd_handler ev' = rd_handler ev \<and> se_socket ev' = fd
     \<and> (int (length (concat chunks)) < rd_size ev \<longrightarrow>
          rd_status ev' = (if rest = [RecvData []] then DISCONNECTED else CONNECTED))"
proof -
  let ?rs = "map RecvData chunks @ rest" let ?n = "nat (rd_size ev)"
  from assms(1,2) have ok: "req_ok q" and io: "\<forall>k e. req_view q k = Some e \<longrightarrow> io_ok e" by (auto simp: loop_ok_def)
  from io assms(4) have "io_ok (EvRead ev)" by blast
  then have sz: "0 \<le> rd_size ev" "rd_size ev \<le> int (length (rd_buffer ev))" by (simp_all add: io_ok_def)
  from assms(7) have rest: "rest = [] \<or> (\<exists>n rs. rest = RecvErr n # rs) \<or> (\<exists>rs. rest = RecvData [] # rs)" by auto
  have rc: "received ?n ?rs = take ?n (concat chunks)" using assms(6) rest by (rule received_chunks(1))
  have en: "recv_end ?n ?rs = recv_end 1 rest" if "length (concat chunks) < ?n"
    using assms(6) rest that by (rule received_chunks(2))
  have good: "length (received ?n ?rs) = ?n \<or> rd_status (read_event ?rs ev) = DISCONNECTED \<or> snd (recv_end ?n ?rs) = Some EAGAIN"
    using assms(7) en rc by (auto simp: read_event_def Let_def not_less)
  from pollin_read_run [OF ok assms(4) sz assms(2,3), of ?rs er] good obtain q' where
    p: "pollin_read ?rs loop fd (Some er) = Some (loop\<lparr>el_registered := Some q', el_occurred := Some (occ @ [EvRead (read_event ?rs ev)]),
          el_reported := el_reported loop @ []\<rparr>, True, Some (set_err OK ERROR_SUCCESS_msg (set_err OK ERROR_SUCCESS_msg (set_err OK ERROR_SUCCESS_msg err_fresh))))"
    "req_ok q'" "req_view q' = (req_view q)((fd, SOCK_READ) := None)" by auto
  have "se_socket ev = fd" using req_view_tagged [OF ok assms(4)] by simp
  moreover have "rd_status (read_event ?rs ev) = (if rest = [RecvData []] then DISCONNECTED else CONNECTED)"
    if "int (length (concat chunks)) < rd_size ev"
  proof -
    have "length (concat chunks) < ?n" using that by simp
    with en assms(5,7) show ?thesis by (auto simp: read_event_def Let_def)
  qed
  moreover have "rd_offset (read_event ?rs ev) = min (rd_size ev) (int (length (concat chunks)))"
    unfolding read_event_front rc using sz(1) by (simp only: length_take of_nat_min int_nat_eq min.commute if_True)
  moreover have "take (nat (rd_offset (read_event ?rs ev))) (rd_buffer (read_event ?rs ev)) = take ?n (concat chunks)"
    unfolding read_event_front(1) rc ..
  ultimately show ?thesis using p
    by (intro exI [of _ "loop\<lparr>el_registered := Some q', el_occurred := Some (occ @ [EvRead (read_event ?rs ev)]), el_reported := el_reported loop @ []\<rparr>"]
          exI [of _ q'] exI [of _ "read_event ?rs ev"]) (simp add: read_event_front(3,4) set_err_def)
qed

theorem read_event_delivers_bytes_witness:
  "\<exists>loop' b er ev'. pollin_read [RecvData ''EH'', RecvData ''LO a''] (demo_loop demo_reads [] []) 4 (Some err_fresh) = Some (loop', b, er)
     \<and> el_occurred loop' = Some [EvRead ev'] \<and> take (nat (rd_offset ev')) (rd_buffer ev') = ''EHLO''"
proof -
  have "loop_ok (demo_loop demo_reads [] [])"
    using demo_read_view by (auto simp: loop_ok_def demo_loop_def io_ok_def demo_read_def sq_ok_def split: if_splits)
  from read_event_delivers_bytes [OF this, of demo_reads "[]" 4 "demo_read 4" "[''EH'', ''LO a'']" "[]" err_fresh]
  show ?thesis by (auto simp: demo_loop_def demo_read_view) (auto simp: demo_read_def)
qed

text \<open>
  The rounds of a write: the manager serves it each time the socket is ready, as long as it is
  registered; one element of the list is what \<open>send\<close> answers in one round.
\<close>

fun write_rounds :: "(int \<Rightarrow> send_result list) list \<Rightarrow> int \<Rightarrow> 'z event_loop_scheme \<Rightarrow> 'z event_loop_scheme ub" where
  "write_rounds [] fd loop = Some loop"
| "write_rounds (os # oss) fd loop =
     do {
       q \<leftarrow> el_registered loop;
       (if req_view q (fd, SOCK_WRITE) = None then Some loop
        else do { (loop', _, _) \<leftarrow> pr_create_pollout_event os loop fd NULL; write_rounds oss fd loop' })
     }"

definition write_fate :: "registered_events_queue \<Rightarrow> int \<Rightarrow> event_sock_write \<Rightarrow> occurred_event_queue \<Rightarrow> 'z event_loop_scheme \<Rightarrow> nat \<Rightarrow> bool" where
  "write_fate q' fd w occ loop' n \<longleftrightarrow>
     req_view q' (fd, SOCK_WRITE) = Some (EvWrite (w\<lparr>wr_offset := int n\<rparr>)) \<and> el_occurred loop' = Some occ
        \<or> req_view q' (fd, SOCK_WRITE) = None
          \<and> (\<exists>st e. el_occurred loop' = Some (occ @ [EvWrite (w\<lparr>wr_offset := int n, wr_status := st, se_error := e\<rparr>)]))"

lemma write_fate_offset [simp]:
  "write_fate q' fd (w\<lparr>wr_offset := k\<rparr>) occ loop' n = write_fate q' fd w occ loop' n"
  by (simp add: write_fate_def)

lemma write_rounds_run:
  assumes "loop_ok loop" "el_registered loop = Some q" "el_occurred loop = Some occ"
    "req_view q (fd, SOCK_WRITE) = Some (EvWrite w)" "wr_offset w = int off"
  shows "\<exists>loop' q' n. write_rounds oss fd loop = Some loop' \<and> el_registered loop' = Some q' \<and> off \<le> n \<and> int n \<le> wr_size w
     \<and> (\<exists>parts. el_sent loop' = el_sent loop @ map (Pair fd) parts \<and> concat parts = segment off n (wr_buffer w))
     \<and> write_fate q' fd w occ loop' n"
  using assms
proof (induction oss arbitrary: loop q w off)
  case Nil
  from Nil.prems have "io_ok (EvWrite w)" by (auto simp: loop_ok_def)
  moreover have "w\<lparr>wr_offset := int off\<rparr> = w" using Nil.prems(5) by simp
  ultimately show ?case using Nil.prems
    by (intro exI [of _ loop] exI [of _ q] exI [of _ off]) (auto simp: write_fate_def io_ok_def segment_def intro!: exI [of _ "[]"])
next
  case (Cons os oss)
  from Cons.prems(1,2,4) have ok: "req_ok q" and io0: "io_ok (EvWrite w)" by (auto simp: loop_ok_def)
  from io0 Cons.prems(5) have io: "wr_offset w = int off" "wr_size w = int (nat (wr_size w))" "off \<le> nat (wr_size w)"
    "nat (wr_size w) \<le> length (wr_buffer w)" by (auto simp: io_ok_def)
  from pollout_run [OF ok Cons.prems(4) io Cons.prems(2,3), of os NULL] obtain off1 q1 occ1 reps b where
    p: "pr_create_pollout_event os loop fd NULL =
      Some (loop\<lparr>el_registered := Some q1, el_occurred := Some occ1, el_reported := el_reported loop @ reps,
                 el_sent := el_sent loop @ [(fd, segment off off1 (wr_buffer w))]\<rparr>, b, NULL)"
    and off1: "off \<le> off1" "off1 \<le> nat (wr_size w)" and q1: "req_ok q1"
    and fate: "req_view q1 = (req_view q)((fd, SOCK_WRITE) \<mapsto> EvWrite (w\<lparr>wr_offset := int off1\<rparr>)) \<and> occ1 = occ
       \<or> req_view q1 = (req_view q)((fd, SOCK_WRITE) := None)
         \<and> (\<exists>st e. occ1 = occ @ [EvWrite (w\<lparr>wr_offset := int off1, wr_status := st, se_error := e\<rparr>)])" by blast
  define loop1 where "loop1 = loop\<lparr>el_registered := Some q1, el_occurred := Some occ1, el_reported := el_reported loop @ reps,
                 el_sent := el_sent loop @ [(fd, segment off off1 (wr_buffer w))]\<rparr>"
  have rounds: "write_rounds (os # oss) fd loop = write_rounds oss fd loop1"
    using p Cons.prems(2,4) by (simp add: loop1_def)
  from fate show ?case
  proof
    assume again: "req_view q1 = (req_view q)((fd, SOCK_WRITE) \<mapsto> EvWrite (w\<lparr>wr_offset := int off1\<rparr>)) \<and> occ1 = occ"
    let ?w = "w\<lparr>wr_offset := int off1\<rparr>"
    from Cons.prems(1) have all: "\<forall>k e. req_view q k = Some e \<longrightarrow> io_ok e" "sq_ok (the (el_acceptors loop))" "el_acceptors loop \<noteq> None"
      using Cons.prems(2) by (auto simp: loop_ok_def)
    have "io_ok (EvWrite ?w)" using io0 off1 Cons.prems(5) by (auto simp: io_ok_def)
    then have "\<forall>k e. req_view q1 k = Some e \<longrightarrow> io_ok e" using again all(1) by auto
    then have "loop_ok loop1" using q1 all by (auto simp: loop1_def loop_ok_def)
    then obtain loop' q' n parts where
      ih: "write_rounds oss fd loop1 = Some loop'" "el_registered loop' = Some q'" "off1 \<le> n" "int n \<le> wr_size w"
        "el_sent loop' = el_sent loop1 @ map (Pair fd) parts" "concat parts = segment off1 n (wr_buffer w)"
        "write_fate q' fd w occ loop' n"
      using Cons.IH [of loop1 q1 ?w off1] again by (auto simp: loop1_def)
    have "concat (segment off off1 (wr_buffer w) # parts) = segment off n (wr_buffer w)"
      using ih(3,6) off1(1) by (simp add: segment_append_segment)
    moreover have "el_sent loop' = el_sent loop @ map (Pair fd) (segment off off1 (wr_buffer w) # parts)"
      using ih(5) by (simp add: loop1_def)
    moreover have "off \<le> n" using ih(3) off1(1) by simp
    moreover have "write_rounds (os # oss) fd loop = Some loop'" using rounds ih(1) by simp
    ultimately show ?thesis using ih(2,4,7) by blast
  next
    assume gone: "req_view q1 = (req_view q)((fd, SOCK_WRITE) := None)
         \<and> (\<exists>st e. occ1 = occ @ [EvWrite (w\<lparr>wr_offset := int off1, wr_status := st, se_error := e\<rparr>)])"
    then have "write_rounds oss fd loop1 = Some loop1" by (cases oss) (simp_all add: loop1_def)
    moreover have "int off1 \<le> wr_size w" using off1 io(2) by linarith
    ultimately show ?thesis using rounds gone off1(1)
      by (intro exI [of _ loop1] exI [of _ q1] exI [of _ off1])
         (auto simp: loop1_def write_fate_def intro!: exI [of _ "[segment off off1 (wr_buffer w)]"])
  qed
qed

text \<open>
  C22: However often a write is interrupted because the socket would block, no byte is lost, sent
  twice or reordered: after any number of rounds the bytes given to the socket are exactly the
  first \<open>n\<close> bytes of the buffer, and either the write is still registered with offset \<open>n\<close>, or it
  has left the registry and exactly one write event with offset \<open>n\<close> has occurred.
\<close>

theorem write_sends_prefix:
  assumes "loop_ok loop" "el_registered loop = Some q" "el_occurred loop = Some occ"
    "req_view q (fd, SOCK_WRITE) = Some (EvWrite w)" "wr_offset w = 0"
  shows "\<exists>loop' q' n. write_rounds oss fd loop = Some loop' \<and> el_registered loop' = Some q' \<and> int n \<le> wr_size w
     \<and> (\<exists>parts. el_sent loop' = el_sent loop @ map (Pair fd) parts \<and> concat parts = take n (wr_buffer w))
     \<and> (req_view q' (fd, SOCK_WRITE) = Some (EvWrite (w\<lparr>wr_offset := int n\<rparr>)) \<and> el_occurred loop' = Some occ
        \<or> req_view q' (fd, SOCK_WRITE) = None
          \<and> (\<exists>st e. el_occurred loop' = Some (occ @ [EvWrite (w\<lparr>wr_offset := int n, wr_status := st, se_error := e\<rparr>)])))"
  using write_rounds_run [OF assms(1-4), of 0 oss] assms(5) unfolding segment_def write_fate_def by simp

theorem write_sends_prefix_witness:
  "\<exists>loop' n. write_rounds [\<lambda>_. [Sent 3], \<lambda>_. [Sent 1]] 4 (demo_loop demo_writes demo_acceptors []) = Some loop'
     \<and> int n \<le> 4 \<and> concat (map snd (el_sent loop')) = take n ''250 ''"
proof -
  have "loop_ok (demo_loop demo_writes demo_acceptors [])" by (rule demo_loop_ok)
  from write_sends_prefix [OF this, of demo_writes "[]" 4 "demo_write 4" "[\<lambda>_. [Sent 3], \<lambda>_. [Sent 1]]"]
  obtain loop' n parts where "write_rounds [\<lambda>_. [Sent 3], \<lambda>_. [Sent 1]] 4 (demo_loop demo_writes demo_acceptors []) = Some loop'"
    "int n \<le> 4" "el_sent loop' = map (Pair 4) parts" "concat parts = take n ''250 ''"
    by (auto simp: demo_loop_def demo_write_view) (auto simp: demo_write_def)
  then show ?thesis by (intro exI [of _ loop'] exI [of _ n]) (simp add: comp_def)
qed

lemma poll_cells_ok:
  assumes "req_ok q" "\<forall>k e. req_view q k = Some e \<longrightarrow> io_ok e"
  shows "\<forall>j<length (poll_cells q sq). cell_ok (length q) q j (poll_cells q sq ! j)"
    "distinct (map pfd_fd (take (length q) (poll_cells q sq)))"
proof -
  have "cell_ok (length q) q j (poll_cells q sq ! j)" if j: "j < length (poll_cells q sq)" for j
  proof (cases "j < length q")
    case True
    then show ?thesis by (auto simp: cell_ok_def poll_cells_def nth_append wanted_def split: if_splits)
  next
    case False
    let ?acc = "if sq = [] then [] else \<lparr>pfd_fd = sk_socket (last sq), pfd_events = {POLLIN}\<rparr> # replicate (length sq - 1) pollfd_zero"
    have "\<forall>c\<in>set ?acc. POLLOUT \<notin> pfd_events c" by (auto simp: pollfd_zero_def)
    moreover have "poll_cells q sq ! j \<in> set ?acc"
      using False j by (simp only: poll_cells_def nth_append length_map if_False length_append) (rule nth_mem, simp)
    ultimately show ?thesis using False by (simp add: cell_ok_def)
  qed
  then show "\<forall>j<length (poll_cells q sq). cell_ok (length q) q j (poll_cells q sq ! j)" by blast
  show "distinct (map pfd_fd (take (length q) (poll_cells q sq)))"
    using assms(1) by (simp add: poll_cells_def req_ok_def comp_def)
qed

text \<open>
  C21: On a well-formed loop every step of the manager is defined, for every answer of the
  operating system to \<open>poll\<close>, \<open>accept\<close>, \<open>recv\<close> and \<open>send\<close> in which \<open>poll\<close> reports only what was
  asked for (or an error condition). It keeps the loop well formed, keeps the acceptors, and
  appends to the events that occurred without touching those that wait.
\<close>

theorem manager_step_safe:
  assumes "loop_ok loop" "el_registered loop = Some q" "el_acceptors loop = Some sq"
    and "poll_answer_ok (poll_cells q sq) (snd (os_poll os))"
  shows "\<exists>loop' er'. pr_manager_step True os loop (Some er) = Some (loop', Some er') \<and> loop_ok loop'
     \<and> el_acceptors loop' = Some sq \<and> (\<exists>new. the (el_occurred loop') = the (el_occurred loop) @ new)"
proof -
  from assms(1,2) have ok: "req_ok q" "\<forall>k e. req_view q k = Some e \<longrightarrow> io_ok e" by (auto simp: loop_ok_def)
  note fd = create_pollfd_run [OF ok assms(2,3), of er]
  let ?l = "loop\<lparr>el_index_acceptors_start := length q\<rparr>"
  let ?e = "Some (set_err OK ERROR_SUCCESS_msg err_fresh)"
  have l: "loop_ok ?l" using assms(1) by (simp add: loop_ok_def)
  have cells: "\<forall>j<length (poll_cells q sq). cell_ok (length q) (the (el_registered ?l)) (0 + j) (poll_cells q sq ! j)"
    using poll_cells_ok(1) [OF ok] assms(2) by simp
  have d: "distinct (map pfd_fd (take (length q - 0) (poll_cells q sq)))" using poll_cells_ok(2) [OF ok] by simp
  from dispatch_ready_steps [OF l _ assms(4) _ cells d, of ?e os] obtain loop' er' where
    disp: "dispatch_ready os (poll_cells q sq) (snd (os_poll os)) 0 ?l ?e = Some (loop', er')" "er' \<noteq> NULL"
    "steps_to (set (map pfd_fd (poll_cells q sq))) ?l loop'" by auto
  consider "fst (os_poll os) = 0" | "fst (os_poll os) < 0" | "fst (os_poll os) > 0" by linarith
  then show ?thesis
  proof cases
    case 3
    with disp fd show ?thesis using assms(3) by (auto simp: pr_manager_step_def steps_to_def)
  qed (use fd l assms(3) in \<open>simp_all add: pr_manager_step_def\<close>)
qed

theorem manager_step_safe_witness:
  "\<exists>loop' er'. pr_manager_step True \<lparr>os_poll = (2, [{POLLIN}, {POLLIN}, {}]), os_accept = \<lambda>_. Inr 24,
       os_recv = \<lambda>_. [RecvData ''QUIT''], os_send = \<lambda>_. []\<rparr> (demo_loop demo_reads demo_acceptors []) (Some err_fresh) = Some (loop', Some er')
     \<and> loop_ok loop'"
proof -
  let ?os = "\<lparr>os_poll = (2, [{POLLIN}, {POLLIN}, {}]), os_accept = \<lambda>_. Inr 24, os_recv = \<lambda>_. [RecvData ''QUIT''], os_send = \<lambda>_. []\<rparr>"
  have "loop_ok (demo_loop demo_reads demo_acceptors [])" by (rule demo_loop_ok)
  moreover have "el_registered (demo_loop demo_reads demo_acceptors []) = Some demo_reads"
    "el_acceptors (demo_loop demo_reads demo_acceptors []) = Some demo_acceptors" by (simp_all add: demo_loop_def)
  moreover have "wanted demo_reads 4 = {POLLIN, POLLHUP}" by (simp add: wanted_def demo_read_view)
  then have "poll_answer_ok (poll_cells demo_reads demo_acceptors) (snd (os_poll ?os))"
    by (simp add: poll_answer_ok_def poll_cells_def demo_reads_def demo_acceptors_def)
  ultimately show ?thesis using manager_step_safe [of _ demo_reads demo_acceptors ?os err_fresh] by blast
qed

text \<open>
  C24: \<open>el_socket_close\<close> drops what is registered for the socket and appends one close event, on a
  loop that stays well formed. But a manager step that polled the socket before, in its own
  thread and without holding the lock in between, then takes a null event out of the registry and
  dereferences it, for reading as for writing.
\<close>

theorem socket_close_races_with_manager:
  assumes "loop_ok loop" "el_registered loop = Some q" "el_occurred loop = Some occ" "0 \<le> fd"
  shows "\<exists>loop' q' cl. el_socket_close True True (Some loop) fd h (Some er) = Some (Some loop', True, Some (set_err OK ERROR_SUCCESS_msg (set_err OK ERROR_SUCCESS_msg er)))
     \<and> loop_ok loop' \<and> el_registered loop' = Some q'
     \<and> req_view q' = (req_view q)((fd, SOCK_READ) := None, (fd, SOCK_WRITE) := None)
     \<and> el_occurred loop' = Some (occ @ [EvClose cl]) \<and> se_socket cl = fd \<and> cl_handler cl = h
     \<and> pr_create_pollout_event snd_os loop' fd error = UB
     \<and> (\<forall>rs. pollin_read rs loop' fd error = UB)"
proof -
  let ?e0 = "Some (set_err OK ERROR_SUCCESS_msg err_fresh)"
  from assms(1) obtain sq where ok: "req_ok q" "\<forall>k e. req_view q k = Some e \<longrightarrow> io_ok e" "el_acceptors loop = Some sq" "sq_ok sq"
    using assms(2) by (auto simp: loop_ok_def)
  have "\<exists>q1 p er1. req_pop_write (Some q) fd ?e0 = Some (Some q1, p, Some er1) \<and> req_ok q1
       \<and> req_view q1 = (req_view q)((fd, SOCK_WRITE) := None)"
  proof (cases "req_view q (fd, SOCK_WRITE)")
    case None
    then have "(req_view q)((fd, SOCK_WRITE) := None) = req_view q" by auto
    with pop_absent_run(2) [OF ok(1) assms(4) None] show ?thesis by metis
  next
    case (Some e)
    from pop_write_run [OF ok(1) Some] show ?thesis by metis
  qed
  then obtain q1 p1 er1 where 1: "req_pop_write (Some q) fd ?e0 = Some (Some q1, p1, Some er1)" "req_ok q1"
    "req_view q1 = (req_view q)((fd, SOCK_WRITE) := None)" by blast
  have "\<exists>q2 p er2. req_pop_read (Some q1) fd (Some er1) = Some (Some q2, p, Some er2) \<and> req_ok q2
       \<and> req_view q2 = (req_view q1)((fd, SOCK_READ) := None)"
  proof (cases "req_view q1 (fd, SOCK_READ)")
    case None
    then have "(req_view q1)((fd, SOCK_READ) := None) = req_view q1" by auto
    with pop_absent_run(1) [OF 1(2) assms(4) None] show ?thesis by metis
  next
    case (Some e)
    from pop_read_run [OF 1(2) Some] show ?thesis by metis
  qed
  then obtain q2 p2 er2 where 2: "req_pop_read (Some q1) fd (Some er1) = Some (Some q2, p2, Some er2)" "req_ok q2"
    "req_view q2 = (req_view q1)((fd, SOCK_READ) := None)" by blast
  let ?cl = "\<lparr>se_type = SOCK_CLOSE, se_socket = fd, se_error = err_zero, cl_handler = h\<rparr>"
  let ?l = "loop\<lparr>el_registered := Some q2, el_occurred := Some (occ @ [EvClose ?cl])\<rparr>"
  have v: "req_view q2 = (req_view q)((fd, SOCK_READ) := None, (fd, SOCK_WRITE) := None)" using 1(3) 2(3) by auto
  have "el_socket_close True True (Some loop) fd h (Some er) = Some (Some ?l, True, Some (set_err OK ERROR_SUCCESS_msg (set_err OK ERROR_SUCCESS_msg er)))"
    using 1(1) 2(1) assms(2,3) by (simp add: el_socket_close_def err_simps oeq_push_back_run)
  moreover have "loop_ok ?l" using ok 2(2) v by (auto simp: loop_ok_def)
  moreover have none: "req_view q2 (fd, SOCK_READ) = None" "req_view q2 (fd, SOCK_WRITE) = None" using v by simp_all
  moreover from pop_absent_run(1) [OF 2(2) assms(4) none(1), of "set_err OK ERROR_SUCCESS_msg err_fresh"]
  have "\<forall>rs. pollin_read rs ?l fd error = UB" by (auto simp: pollin_read_def)
  moreover from pop_absent_run(2) [OF 2(2) assms(4) none(2), of "set_err OK ERROR_SUCCESS_msg err_fresh"]
  have "pr_create_pollout_event snd_os ?l fd error = UB" by (auto simp: pr_create_pollout_event_def)
  ultimately show ?thesis using v by (intro exI [of _ ?l] exI [of _ q2] exI [of _ ?cl]) simp
qed

theorem socket_close_races_with_manager_witness:
  "\<exists>loop' er'. el_socket_close True True (Some (demo_loop demo_reads [] [])) 4 9 (Some err_fresh) = Some (Some loop', True, er')
     \<and> pollin_read [RecvData ''QUIT''] loop' 4 (Some err_fresh) = UB"
proof -
  have "loop_ok (demo_loop demo_reads [] [])"
    using demo_read_view by (auto simp: loop_ok_def demo_loop_def io_ok_def demo_read_def sq_ok_def split: if_splits)
  from socket_close_races_with_manager [OF this, of demo_reads "[]" 4 9 err_fresh] show ?thesis
    by (simp add: demo_loop_def) blast
qed

text \<open>
  C25: One pass of \<open>el_run\<close> over the timers, when their handlers do nothing to the timers but
  free their own: the calls of handlers made by the pass are exactly one for every timer that is
  due (by the 32-bit sum of its start and its period) and not deleted, in the order of the list,
  with the handler, the socket and the timer registered, and no others. A timer whose handler ran is restarted at the
  current time, every timer that is marked as deleted, before the pass or by its own handler, is
  removed, and no other timer changes. As much fuel as there are timers is enough for the pass to
  reach the end.
\<close>

theorem timers_run_and_removed:
  assumes "timer_handlers_only_free call del" "records_calls call log" "distinct (map te_id (el_timers loop))"
    and "\<forall>t\<in>set (el_timers loop). \<not> te_is_processed t" "length (el_timers loop) \<le> fuel"
  shows "\<exists>loop' removed. timers_pass call now fuel 0 loop [] = Some (loop', removed, True)
     \<and> log (remove_timers removed loop') =
         log loop @ map (\<lambda>t. CallTimer (te_handler t) (te_socket t) (te_id t)) (filter (timer_due now) (el_timers loop))
     \<and> el_timers (remove_timers removed loop') =
         filter (\<lambda>t. \<not> te_has_delete t)
           (map (\<lambda>t. if timer_due now t then t\<lparr>te_time_start := word_of_int now, te_has_delete := del (te_id t)\<rparr> else t) (el_timers loop))"
proof -
  let ?ts = "el_timers loop"
  from timers_pass_run [OF assms(1,3,4) _ _ _ assms(2), of 0 fuel loop now "[]"] assms(5) obtain loop' where
    p: "timers_pass call now fuel 0 loop [] = Some (loop', map te_id (filter te_has_delete (map (timer_after now del) ?ts)), True)"
    "el_timers loop' = map (timer_swept now del) ?ts"
    "log loop' = log loop @ map timer_call (filter (timer_due now) ?ts)" by auto
  have ids: "te_id t \<in> te_id ` set (filter te_has_delete (map (timer_after now del) ?ts)) \<longleftrightarrow> te_has_delete (timer_after now del t)"
    if "t \<in> set ?ts" for t
  proof -
    have "inj_on te_id (set ?ts)" using assms(3) by (simp add: distinct_map)
    with that show ?thesis by (auto simp: image_iff dest: inj_onD)
  qed
  have kept: "timer_swept now del t = timer_after now del t" if "\<not> te_has_delete (timer_after now del t)" for t
    using that by (simp add: timer_swept_def Let_def)
  have "distinct (map te_id (el_timers loop'))" using assms(3) by (simp add: p(2) comp_def)
  from remove_timers_filter [OF this]
  have "el_timers (remove_timers (map te_id (filter te_has_delete (map (timer_after now del) ?ts))) loop')
      = filter (\<lambda>t. te_id t \<notin> te_id ` set (filter te_has_delete (map (timer_after now del) ?ts))) (map (timer_swept now del) ?ts)"
    by (simp add: remove_timers_def p(2))
  also have "\<dots> = map (timer_swept now del) (filter (\<lambda>t. \<not> te_has_delete (timer_after now del t)) ?ts)"
    unfolding filter_map comp_def timer_swept_id using ids by (intro arg_cong [of _ _ "map _"] filter_cong) auto
  also have "\<dots> = map (timer_after now del) (filter (\<lambda>t. \<not> te_has_delete (timer_after now del t)) ?ts)"
    using kept by (intro map_cong) auto
  also have "\<dots> = filter (\<lambda>t. \<not> te_has_delete t) (map (timer_after now del) ?ts)"
    by (simp add: filter_map comp_def)
  finally have kept_timers: "el_timers (remove_timers (map te_id (filter te_has_delete (map (timer_after now del) ?ts))) loop')
      = filter (\<lambda>t. \<not> te_has_delete t) (map (timer_after now del) ?ts)" .
  show ?thesis
    by (intro exI conjI, rule p(1))
      (use kept_timers p(3) records_timers(2) [OF assms(2)] in \<open>simp_all add: timer_call_def timer_after_def [abs_def]\<close>)
qed

definition demo_timer :: "nat \<Rightarrow> 32 word \<Rightarrow> sock_timer_event" where
  "demo_timer n period = \<lparr>te_id = n, te_socket = 4, te_period = period, te_time_start = 100, te_handler = 5,
                          te_has_delete = False, te_is_processed = False\<rparr>"

text \<open>
  A loop whose extension lists the calls. The second timer is not due, the start of the first one
  moves to the current time and its handler is the only one called.
\<close>

definition listed_loop :: "sock_timer_event list \<Rightarrow> handler_call list event_loop_scheme" where
  "listed_loop ts = event_loop.extend ((demo_loop [] [] [])\<lparr>el_timers := ts\<rparr>) []"

definition listed_call :: "handler_call list handlers" where
  "listed_call c l = Some (event_loop.more_update (\<lambda>cs. cs @ [c]) l)"

theorem timers_run_and_removed_witness:
  "\<exists>loop' removed. timers_pass listed_call 110 2 0 (listed_loop [demo_timer 0 10, demo_timer 1 20]) [] = Some (loop', removed, True)
     \<and> event_loop.more (remove_timers removed loop') = [CallTimer 5 4 0]
     \<and> el_timers (remove_timers removed loop') = [(demo_timer 0 10)\<lparr>te_time_start := 110\<rparr>, demo_timer 1 20]"
proof -
  let ?l = "listed_loop [demo_timer 0 10, demo_timer 1 20]"
  have "timer_handlers_only_free listed_call (\<lambda>_. False)" "records_calls listed_call event_loop.more"
    by (auto simp: timer_handlers_only_free_def records_calls_def listed_call_def)
  moreover have l: "el_timers ?l = [demo_timer 0 10, demo_timer 1 20]" "event_loop.more ?l = []"
    by (simp_all add: listed_loop_def event_loop.defs)
  moreover have "distinct (map te_id (el_timers ?l))" "\<forall>t\<in>set (el_timers ?l). \<not> te_is_processed t" "length (el_timers ?l) \<le> 2"
    unfolding l by (simp_all add: demo_timer_def)
  ultimately obtain loop' removed where "timers_pass listed_call 110 2 0 ?l [] = Some (loop', removed, True)"
    "event_loop.more (remove_timers removed loop') = event_loop.more ?l
       @ map (\<lambda>t. CallTimer (te_handler t) (te_socket t) (te_id t)) (filter (timer_due 110) (el_timers ?l))"
    "el_timers (remove_timers removed loop') = filter (\<lambda>t. \<not> te_has_delete t)
           (map (\<lambda>t. if timer_due 110 t then t\<lparr>te_time_start := word_of_int 110, te_has_delete := False\<rparr> else t) (el_timers ?l))"
    using timers_run_and_removed by blast
  then show ?thesis unfolding l by (simp add: timer_due_def demo_timer_def)
qed

text \<open>
  \<open>el_run\<close> handles the oldest event that occurred, and only that one: it leaves the queue,
  and the handler of its type is called with the fields of the event. With nothing to handle it
  reports NOT_FOUND, which the loop of \<open>el_open\<close> does not take for an error.
\<close>

theorem el_run_handles_oldest:
  assumes "el_timers loop = []" "el_occurred loop = Some occ" "\<forall>e\<in>set occ. ev_tagged e"
  shows "el_run call now fuel loop (Some er) =
    (case occ of
       [] \<Rightarrow> Some (loop, False, Some (set_err NOT_FOUND EL_NO_EVENTS (set_err OK ERROR_SUCCESS_msg er)))
     | e # rest \<Rightarrow>
         map_option (\<lambda>l. (l, True, Some (set_err OK ERROR_SUCCESS_msg er)))
           (call (case e of
                    EvAccept a \<Rightarrow> CallAccept (ac_handler a) (se_socket a) (ac_client_socket a) (ac_client_addr a) (se_error a)
                  | EvRead r \<Rightarrow> CallRead (rd_handler r) (se_socket r) (rd_buffer r) (rd_offset r) (rd_status r) (se_error r)
                  | EvWrite w \<Rightarrow> CallWrite (wr_handler w) (se_socket w) (wr_buffer w) (wr_size w) (wr_offset w) (wr_status w) (se_error w)
                  | EvClose c \<Rightarrow> CallClose (cl_handler c) (se_socket c) (se_error c))
              (loop\<lparr>el_occurred := Some rest\<rparr>)))"
proof -
  have t: "timers_pass call now fuel 0 loop [] = Some (loop, [], True)" using assms(1) by (cases fuel) simp_all
  have r: "remove_timers [] loop = loop" by (simp add: remove_timers_def)
  show ?thesis
  proof (cases occ)
    case Nil
    then show ?thesis using t r assms(2) by (simp add: el_run_def err_simps)
  next
    case (Cons e rest)
    from Cons assms(3) have "ev_tagged e" by simp
    then have "dispatch_call e = Some (case e of
                    EvAccept a \<Rightarrow> CallAccept (ac_handler a) (se_socket a) (ac_client_socket a) (ac_client_addr a) (se_error a)
                  | EvRead r \<Rightarrow> CallRead (rd_handler r) (se_socket r) (rd_buffer r) (rd_offset r) (rd_status r) (se_error r)
                  | EvWrite w \<Rightarrow> CallWrite (wr_handler w) (se_socket w) (wr_buffer w) (wr_size w) (wr_offset w) (wr_status w) (se_error w)
                  | EvClose c \<Rightarrow> CallClose (cl_handler c) (se_socket c) (se_error c))"
      by (cases rule: ev_tagged_cases)
         (simp_all add: dispatch_call_def pr_sock_accept_execute_def pr_sock_read_execute_def pr_sock_write_execute_def pr_sock_close_execute_def)
    then obtain c where c: "dispatch_call e = Some c" "c = (case e of
                    EvAccept a \<Rightarrow> CallAccept (ac_handler a) (se_socket a) (ac_client_socket a) (ac_client_addr a) (se_error a)
                  | EvRead r \<Rightarrow> CallRead (rd_handler r) (se_socket r) (rd_buffer r) (rd_offset r) (rd_status r) (se_error r)
                  | EvWrite w \<Rightarrow> CallWrite (wr_handler w) (se_socket w) (wr_buffer w) (wr_size w) (wr_offset w) (wr_status w) (se_error w)
                  | EvClose c \<Rightarrow> CallClose (cl_handler c) (se_socket c) (se_error c))" by blast
    have "el_run call now fuel loop (Some er) =
        map_option (\<lambda>l. (l, True, Some (set_err OK ERROR_SUCCESS_msg er))) (call c (loop\<lparr>el_occurred := Some rest\<rparr>))"
      using Cons t r assms(2) c(1)
      by (cases "call c (loop\<lparr>el_occurred := Some rest\<rparr>)") (simp_all add: el_run_def err_simps oeq_pop_begin_run)
    then show ?thesis unfolding Cons c(2) by simp
  qed
qed

theorem el_run_handles_oldest_witness:
  "el_run (\<lambda>_ l. Some l) 0 0 (demo_loop [] [] [EvRead (demo_read 4)]) (Some err_fresh)
     = Some (demo_loop [] [] [], True, Some (set_err OK ERROR_SUCCESS_msg err_fresh))"
proof -
  have "ev_tagged (EvRead (demo_read 4))" by (simp add: ev_tagged_def demo_read_def)
  then show ?thesis
    using el_run_handles_oldest [of "demo_loop [] [] [EvRead (demo_read 4)]" "[EvRead (demo_read 4)]" "\<lambda>_ l. Some l" 0 0 err_fresh]
    by (simp add: demo_loop_def)
qed

end
