(* ===== verification/Timers.thy ===== *)
theory Timers
  imports Errors
begin

text \<open>
  The inactivity timers of the connections, \<open>server/src/lib/server/timers.c\<close>: a list of entries
  searched by socket. The current time, \<open>time(NULL)\<close>, is an argument; it is stored in an \<open>int\<close>.
  The position of an entry stands for a pointer to it in the iterator functions, which nothing in
  the server calls.
\<close>

section \<open>State and operations\<close>

record timer_type =
  tm_socket :: int
  tm_last_update :: int

record timer_entry =
  tm_t :: timer_type
  tm_is_delete :: bool
  tm_num_iterators :: int

type_synonym timers_t = "timer_entry list"

definition timers_init :: "timers_t ptr \<Rightarrow> timers_t ptr \<times> bool" where
  "timers_init timers = (case timers of NULL \<Rightarrow> (NULL, False) | Some _ \<Rightarrow> (Some [], True))"

definition timers_free :: "timers_t \<Rightarrow> timers_t" where "timers_free timers = []"

text \<open>The new entry is written without a test of the allocation.\<close>

definition timers_add :: "bool \<Rightarrow> timers_t ptr \<Rightarrow> timer_type ptr \<Rightarrow> (timers_t ptr \<times> bool) ub" where
  "timers_add mok timers timer =
     (case (timers, timer) of
        (Some ts, Some t) \<Rightarrow>
          if mok then Some (Some (ts @ [\<lparr>tm_t = t, tm_is_delete = False, tm_num_iterators = 0\<rparr>]), True) else UB
      | _ \<Rightarrow> Some (timers, False))"

definition timers_make_for_socket :: "bool \<Rightarrow> int \<Rightarrow> timers_t \<Rightarrow> int \<Rightarrow> timers_t ub" where
  "timers_make_for_socket mok now timers socket =
     do {
       (ts, _) \<leftarrow> timers_add mok (Some timers) (Some \<lparr>tm_socket = socket, tm_last_update = to_int32 now\<rparr>);
       ts
     }"

definition of_socket :: "int \<Rightarrow> timer_entry \<Rightarrow> bool" where
  "of_socket sock e \<longleftrightarrow> tm_socket (tm_t e) = sock"

definition pr_timers_get_by_sock :: "timers_t \<Rightarrow> int \<Rightarrow> timer_entry ptr" where
  "pr_timers_get_by_sock timers sock = List.find (of_socket sock) timers"

definition timers_remove_for_socket :: "timers_t \<Rightarrow> int \<Rightarrow> timers_t" where
  "timers_remove_for_socket timers sock =
     (case pr_timers_get_by_sock timers sock of
        Some _ \<Rightarrow> tailq_remove_first (of_socket sock) timers
      | NULL \<Rightarrow> timers)"

definition timers_update_by_socket :: "int \<Rightarrow> timers_t \<Rightarrow> int \<Rightarrow> timers_t" where
  "timers_update_by_socket now timers sock =
     (case pr_timers_get_by_sock timers sock of
        Some _ \<Rightarrow> tailq_update_first (of_socket sock)
                    (\<lambda>e. e\<lparr>tm_t := (tm_t e)\<lparr>tm_last_update := to_int32 now\<rparr>\<rparr>) timers
      | NULL \<Rightarrow> timers)"

text \<open>A sum of two values of type \<open>int\<close>: an overflow is undefined.\<close>

definition int32_add :: "int \<Rightarrow> int \<Rightarrow> int ub" where
  "int32_add a b = (if - (2 ^ 31) \<le> a + b \<and> a + b < 2 ^ 31 then Some (a + b) else UB)"

definition timers_is_elapsed_for_socket :: "int \<Rightarrow> timers_t \<Rightarrow> int \<Rightarrow> int \<Rightarrow> bool ub" where
  "timers_is_elapsed_for_socket now timers sock t =
     (case pr_timers_get_by_sock timers sock of
        Some e \<Rightarrow> do { limit \<leftarrow> int32_add (tm_last_update (tm_t e)) t; Some (limit < now) }
      | NULL \<Rightarrow> Some False)"

definition timers_is_exist_for_socket :: "timers_t \<Rightarrow> int \<Rightarrow> bool" where
  "timers_is_exist_for_socket timers sock \<longleftrightarrow> pr_timers_get_by_sock timers sock \<noteq> NULL"

section \<open>Iterators\<close>

record timers_iterator =
  it_ptr :: "nat ptr"

definition timers_get_iterator :: timers_iterator where
  "timers_get_iterator = \<lparr>it_ptr = NULL\<rparr>"

definition timer_at :: "timers_t \<Rightarrow> nat ptr \<Rightarrow> timer_type ub" where
  "timer_at timers p = do { i \<leftarrow> p; e \<leftarrow> arr_get timers (int i); Some (tm_t e) }"

text \<open>
  \<open>timers_next\<close> counts the entry down, releases it when it is marked and unused (and would then
  read its successor from released memory), steps on and reads the entry it reached.
\<close>

definition timers_next :: "timers_t \<Rightarrow> timers_iterator \<Rightarrow> (timers_t \<times> timers_iterator \<times> timer_type) ub" where
  "timers_next timers itr =
     (case it_ptr itr of
        NULL \<Rightarrow> UB
      | Some i \<Rightarrow>
          do {
            e \<leftarrow> arr_get timers (int i);
            let e' = e\<lparr>tm_num_iterators := tm_num_iterators e - 1\<rparr>;
            (if tm_is_delete e' \<and> tm_num_iterators e' = 0 then UB
             else do {
               let p = (if Suc i < length timers then Some (Suc i) else NULL);
               t \<leftarrow> timer_at timers p;
               Some (timers[i := e'], itr\<lparr>it_ptr := p\<rparr>, t)
             })
          })"

definition timers_before :: "timers_t \<Rightarrow> timers_iterator \<Rightarrow> (timers_iterator \<times> timer_type) ub" where
  "timers_before timers itr =
     do {
       i \<leftarrow> it_ptr itr;
       let p = (if i = 0 then NULL else Some (i - 1));
       t \<leftarrow> timer_at timers p;
       Some (itr\<lparr>it_ptr := p\<rparr>, t)
     }"

definition timers_has_next :: "timers_t \<Rightarrow> timers_iterator \<Rightarrow> bool" where
  "timers_has_next timers itr \<longleftrightarrow> it_ptr itr = (if timers = [] then NULL else Some (length timers - 1))"

definition timers_has_before :: "timers_t \<Rightarrow> timers_iterator \<Rightarrow> bool" where
  "timers_has_before timers itr \<longleftrightarrow> it_ptr itr = (if timers = [] then NULL else Some 0)"

definition timers_update :: "timers_t \<Rightarrow> timers_iterator \<Rightarrow> timer_type \<Rightarrow> timers_t ub" where
  "timers_update timers itr t =
     do {
       i \<leftarrow> it_ptr itr;
       e \<leftarrow> arr_get timers (int i);
       Some (timers[i := e\<lparr>tm_t := t\<rparr>])
     }"

text \<open>The iterator still points at the entry that was unlinked, and must not be used afterwards.\<close>

definition timers_remove :: "timers_t \<Rightarrow> timers_iterator \<Rightarrow> timers_t ub" where
  "timers_remove timers itr =
     do {
       i \<leftarrow> it_ptr itr;
       (if i < length timers then Some (take i timers @ drop (Suc i) timers) else UB)
     }"

section \<open>The timers as a map from sockets to times\<close>

definition timers_view :: "timers_t \<Rightarrow> int \<Rightarrow> int option" where
  "timers_view ts s = map_option (\<lambda>e. tm_last_update (tm_t e)) (pr_timers_get_by_sock ts s)"

definition timers_ok :: "timers_t \<Rightarrow> bool" where
  "timers_ok ts \<longleftrightarrow> distinct (map (\<lambda>e. tm_socket (tm_t e)) ts)"

lemma of_socket_eq: "of_socket s = (\<lambda>e. tm_socket (tm_t e) = s)"
  by (simp add: of_socket_def fun_eq_iff)

lemma timers_make_run:
  assumes "timers_view ts s = None"
  shows "\<exists>ts'. timers_make_for_socket True now ts s = Some ts' \<and> timers_view ts' = (timers_view ts)(s \<mapsto> to_int32 now)
           \<and> (timers_ok ts \<longrightarrow> timers_ok ts')"
proof -
  let ?ts = "ts @ [\<lparr>tm_t = \<lparr>tm_socket = s, tm_last_update = to_int32 now\<rparr>, tm_is_delete = False, tm_num_iterators = 0\<rparr>]"
  have "timers_view ?ts = (timers_view ts)(s \<mapsto> to_int32 now)"
    using assms by (auto simp: timers_view_def pr_timers_get_by_sock_def of_socket_eq fun_eq_iff tailq_simps split: option.splits)
  moreover have "timers_ok ts \<longrightarrow> timers_ok ?ts"
    using assms by (auto simp: timers_ok_def timers_view_def pr_timers_get_by_sock_def of_socket_eq find_None_iff image_iff)
  ultimately show ?thesis by (simp add: timers_make_for_socket_def timers_add_def)
qed

lemma timers_update_view:
  "timers_view (timers_update_by_socket now ts s)
     = (if timers_view ts s = None then timers_view ts else (timers_view ts)(s \<mapsto> to_int32 now))"
proof (cases "pr_timers_get_by_sock ts s")
  case None
  then show ?thesis by (simp add: timers_update_by_socket_def timers_view_def)
next
  case (Some e)
  let ?g = "\<lambda>e::timer_entry. e\<lparr>tm_t := (tm_t e)\<lparr>tm_last_update := to_int32 now\<rparr>\<rparr>"
  have key: "tm_socket (tm_t (?g x)) = tm_socket (tm_t x)" for x by simp
  show ?thesis
  proof
    fix k
    show "timers_view (timers_update_by_socket now ts s) k
      = (if timers_view ts s = None then timers_view ts else (timers_view ts)(s \<mapsto> to_int32 now)) k"
    proof (cases "k = s")
      case True
      have "List.find (\<lambda>x. tm_socket (tm_t x) = s) (tailq_update_first (\<lambda>x. tm_socket (tm_t x) = s) ?g ts)
          = map_option ?g (List.find (\<lambda>x. tm_socket (tm_t x) = s) ts)"
        by (rule find_tailq_update_first_same) simp
      then show ?thesis using Some True
        by (simp add: timers_update_by_socket_def timers_view_def pr_timers_get_by_sock_def of_socket_eq)
    next
      case False
      have "List.find (\<lambda>x. tm_socket (tm_t x) = k) (tailq_update_first (\<lambda>x. tm_socket (tm_t x) = s) ?g ts)
          = List.find (\<lambda>x. tm_socket (tm_t x) = k) ts"
        using False by (intro find_tailq_update_first_other) simp_all
      then show ?thesis using Some False
        by (simp add: timers_update_by_socket_def timers_view_def pr_timers_get_by_sock_def of_socket_eq)
    qed
  qed
qed

lemma timers_update_ok: "timers_ok ts \<Longrightarrow> timers_ok (timers_update_by_socket now ts s)"
  by (auto simp: timers_update_by_socket_def timers_ok_def map_tailq_update_first split: option.split)

lemma timers_remove_view:
  "timers_ok ts \<Longrightarrow> timers_view (timers_remove_for_socket ts s) = (timers_view ts)(s := None)"
proof -
  assume d: "timers_ok ts"
  show ?thesis
  proof
    fix k
    show "timers_view (timers_remove_for_socket ts s) k = ((timers_view ts)(s := None)) k"
    proof (cases "k = s")
      case True
      have "List.find (of_socket s) (tailq_remove_first (of_socket s) ts) = None"
        using d unfolding timers_ok_def of_socket_eq by (rule find_tailq_remove_first_same)
      then show ?thesis using True
        by (simp add: timers_remove_for_socket_def timers_view_def pr_timers_get_by_sock_def split: option.split)
    next
      case False
      have "List.find (of_socket k) (tailq_remove_first (of_socket s) ts) = List.find (of_socket k) ts"
        using False unfolding of_socket_eq by (rule find_tailq_remove_first_other)
      then show ?thesis using False
        by (simp add: timers_remove_for_socket_def timers_view_def pr_timers_get_by_sock_def split: option.split)
    qed
  qed
qed

lemma timers_remove_ok: "timers_ok ts \<Longrightarrow> timers_ok (timers_remove_for_socket ts s)"
  by (auto simp: timers_remove_for_socket_def timers_ok_def distinct_tailq_remove_first split: option.split)

lemma timers_is_exist_view: "timers_is_exist_for_socket ts s \<longleftrightarrow> timers_view ts s \<noteq> None"
  by (simp add: timers_is_exist_for_socket_def timers_view_def)

section \<open>Properties\<close>

text \<open>
  C37: A connection last used at time \<open>u\<close> counts as inactive for more than \<open>p\<close> seconds exactly
  when the current time is past \<open>u + p\<close>, as long as that sum fits an \<open>int\<close>. When it does not the
  test is undefined, and from \<open>2 ^ 31\<close> on the stored time is negative, so that a connection is
  elapsed from the moment it is opened.
\<close>

theorem inactivity_test_exact:
  assumes "timers_view ts s \<noteq> None" "0 \<le> u" "0 < p" "p < 2 ^ 31" "u < 2 ^ 32" "u \<le> now"
  shows "timers_is_elapsed_for_socket now (timers_update_by_socket u ts s) s p =
    (if u + p < 2 ^ 31 then Some (u + p < now)
     else if u < 2 ^ 31 then UB
     else Some True)"
proof -
  let ?e = "pr_timers_get_by_sock (timers_update_by_socket u ts s) s"
  have "timers_view (timers_update_by_socket u ts s) s = Some (to_int32 u)"
    using assms(1) by (simp add: timers_update_view)
  then obtain e where e: "?e = Some e" "tm_last_update (tm_t e) = to_int32 u"
    by (auto simp: timers_view_def)
  have u: "to_int32 u = (if u < 2 ^ 31 then u else u - 2 ^ 32)"
  proof (cases "u < 2 ^ 31")
    case True
    then show ?thesis using assms(2) by (simp add: to_int32_id)
  next
    case False
    have "(word_of_int u :: 32 word) = word_of_int (u - 2 ^ 32)"
      by (subst word_of_int_eq_iff) (simp add: take_bit_eq_mod minus_mod_self2)
    then have "to_int32 u = to_int32 (u - 2 ^ 32)" by (simp only: to_int32_def)
    also have "\<dots> = u - 2 ^ 32" using False assms(5) by (intro to_int32_id) simp_all
    finally show ?thesis using False by simp
  qed
  show ?thesis using e u assms by (auto simp: timers_is_elapsed_for_socket_def int32_add_def)
qed

theorem inactivity_test_exact_witness:
  "\<exists>ts. timers_make_for_socket True 1000 [] 4 = Some ts
     \<and> timers_is_elapsed_for_socket 1031 (timers_update_by_socket 1000 ts 4) 4 30 = Some True
     \<and> timers_is_elapsed_for_socket 2147483640 (timers_update_by_socket 2147483640 ts 4) 4 30 = UB"
proof -
  obtain ts where ts: "timers_make_for_socket True 1000 [] 4 = Some ts" "timers_view ts = (timers_view [])(4 \<mapsto> to_int32 1000)"
    using timers_make_run [of "[]" 4 1000] by (auto simp: timers_view_def pr_timers_get_by_sock_def)
  then have "timers_view ts 4 \<noteq> None" by simp
  from inactivity_test_exact [OF this, of 1000 30 1031] inactivity_test_exact [OF this, of 2147483640 30 2147483640] ts(1)
  show ?thesis by simp
qed

end
