(* ===== verification/Vectors.thy ===== *)
theory Vectors
  imports Errors
begin

text \<open>
  The growable array of \<open>server/include/vector.h\<close>, a family of macros over a struct of
  \<open>size\<close>, \<open>allocated\<close> and \<open>array\<close>. The array is the list of its cells, as many as were
  allocated; \<open>z\<close> is the all-zero element that \<open>s_malloc\<close> fills a block with. A store or a
  load outside the cells is undefined behaviour. \<open>elems\<close> is the abstract value: the first
  \<open>size\<close> cells. The interface \<open>growable\<close> states what the users of a vector rely on.
\<close>

record 'a vector =
  v_size :: nat
  v_allocated :: nat
  v_array :: "'a list ptr"

definition VECTOR_PARAMETER_IS_NULL :: string where
  "VECTOR_PARAMETER_IS_NULL = ''parameter is null''"

definition VECTOR_OUT_OF_RANGE :: string where
  "VECTOR_OUT_OF_RANGE = ''out of range''"

definition VECTOR_INVALID_SIZE_VALUE :: string where
  "VECTOR_INVALID_SIZE_VALUE = ''invalid size''"

definition VECTOR_SUCCESS_ERROR :: "err_t \<Rightarrow> err_t" where
  "VECTOR_SUCCESS_ERROR e = set_err OK ERROR_SUCCESS_msg e"

text \<open>The allocation of \<open>n\<close> zeroed cells, reported into a local error descriptor.\<close>

definition alloc_cells :: "bool \<Rightarrow> 'a \<Rightarrow> nat \<Rightarrow> err_t \<Rightarrow> 'a list ptr \<times> err_t" where
  "alloc_cells mok z n e = (case s_malloc mok (replicate n z) (Some e) of (p, e') \<Rightarrow> (p, the e'))"

definition VECTOR_INIT :: "bool \<Rightarrow> 'a \<Rightarrow> 'a vector ptr \<Rightarrow> err_t \<Rightarrow> 'a vector ptr \<times> err_t" where
  "VECTOR_INIT mok z v e =
     (case v of
        NULL \<Rightarrow> (NULL, set_err FATAL VECTOR_PARAMETER_IS_NULL e)
      | Some vec \<Rightarrow>
          (case alloc_cells mok z 5 e of
             (NULL, e') \<Rightarrow> (Some (vec\<lparr>v_array := NULL\<rparr>), e')
           | (Some cells, e') \<Rightarrow>
               (Some (vec\<lparr>v_array := Some cells, v_size := 0, v_allocated := 5\<rparr>), e')))"

definition VECTOR_RESET :: "'a vector \<Rightarrow> 'a vector \<times> 'a list ptr" where
  "VECTOR_RESET v = (v\<lparr>v_size := 0, v_allocated := 0, v_array := NULL\<rparr>, v_array v)"

definition VECTOR_RESERVE :: "bool \<Rightarrow> 'a \<Rightarrow> 'a vector ptr \<Rightarrow> nat \<Rightarrow> err_t \<Rightarrow> 'a vector ptr \<times> err_t" where
  "VECTOR_RESERVE mok z v n e =
     (let e0 = VECTOR_SUCCESS_ERROR e in
      case v of
        NULL \<Rightarrow> (NULL, set_err FATAL VECTOR_PARAMETER_IS_NULL e0)
      | Some vec \<Rightarrow>
          (case alloc_cells mok z n e0 of
             (NULL, e') \<Rightarrow> (Some (vec\<lparr>v_array := NULL\<rparr>), e')
           | (Some cells, e') \<Rightarrow>
               (Some (vec\<lparr>v_array := Some cells, v_size := 0, v_allocated := n\<rparr>), e')))"

text \<open>
  The macro asks for \<open>sizeof(T) * n + 1\<close> bytes: \<open>n\<close> cells and a byte that no cell uses
  (for \<open>char\<close>, one cell more than \<open>allocated\<close> says; the model keeps \<open>n\<close>). It sets \<open>size\<close> and
  \<open>allocated\<close> even when the allocation failed. A negative \<open>size\<close> is refused.
\<close>

definition VECTOR_INIT_WITH_RESERVE ::
    "bool \<Rightarrow> 'a \<Rightarrow> 'a vector ptr \<Rightarrow> int \<Rightarrow> err_t \<Rightarrow> 'a vector ptr \<times> err_t" where
  "VECTOR_INIT_WITH_RESERVE mok z v n e =
     (case v of
        NULL \<Rightarrow> (NULL, set_err FATAL VECTOR_PARAMETER_IS_NULL e)
      | Some vec \<Rightarrow>
          if n < 0 then (Some vec, set_err FATAL VECTOR_INVALID_SIZE_VALUE e)
          else (case alloc_cells mok z (nat n) e of
                  (p, e') \<Rightarrow> (Some (vec\<lparr>v_array := p, v_size := 0, v_allocated := nat n\<rparr>), e')))"

text \<open>The copying loop \<open>for (i = 0; i < size; i++) tmp[i] = array[i];\<close>.\<close>

definition copy_cells :: "nat \<Rightarrow> 'a list ptr \<Rightarrow> 'a list ptr \<Rightarrow> 'a list ptr ub" where
  "copy_cells n src dst =
     (if n = 0 then Some dst
      else case (src, dst) of
             (Some s, Some d) \<Rightarrow>
               if n \<le> length s \<and> n \<le> length d then Some (Some (take n s @ drop n d)) else UB
           | _ \<Rightarrow> UB)"

definition VECTOR_PUSH_BACK :: "bool \<Rightarrow> 'a \<Rightarrow> 'a vector \<Rightarrow> 'a \<Rightarrow> err_t \<Rightarrow> ('a vector \<times> err_t) ub" where
  "VECTOR_PUSH_BACK mok z v x e =
     do {
       let e0 = VECTOR_SUCCESS_ERROR e;
       (v1, e1) \<leftarrow>
         (if v_size v + 1 = v_allocated v then
            do {
              let n = v_allocated v * 3 div 2;
              let (tmp, e') = alloc_cells mok z n e0;
              cells \<leftarrow> copy_cells (v_size v) (v_array v) tmp;
              Some (v\<lparr>v_allocated := n, v_array := cells\<rparr>, e')
            }
          else Some (v, e0));
       cells \<leftarrow> v_array v1;
       cells' \<leftarrow> arr_set cells (int (v_size v1)) x;
       Some (v1\<lparr>v_array := Some cells', v_size := v_size v1 + 1\<rparr>, e1)
     }"

text \<open>
  The macro yields the address of a cell, or a null pointer; the result here is the cell's index.
  The guard admits the index \<open>size\<close> itself.
\<close>

definition VECTOR_GET :: "'a vector \<Rightarrow> int \<Rightarrow> err_t \<Rightarrow> nat ptr \<times> err_t" where
  "VECTOR_GET v i e =
     (if i > int (v_size v) \<or> i < 0 then (NULL, set_err OUT_OF_RANGE VECTOR_OUT_OF_RANGE (VECTOR_SUCCESS_ERROR e))
      else (Some (nat i), VECTOR_SUCCESS_ERROR e))"

definition VECTOR_FREE :: "'a vector ptr \<Rightarrow> 'a vector ptr" where
  "VECTOR_FREE v = map_option (\<lambda>v. v\<lparr>v_size := 0, v_allocated := 0, v_array := NULL\<rparr>) v"

definition VECTOR_CLEAR :: "'a vector \<Rightarrow> 'a vector" where
  "VECTOR_CLEAR v = v\<lparr>v_size := 0\<rparr>"

text \<open>The loop of \<open>VECTOR_SUB\<close>: \<open>k\<close> iterations from index \<open>i\<close>.\<close>

fun vector_sub_loop :: "bool \<Rightarrow> 'a \<Rightarrow> 'a vector \<Rightarrow> nat \<Rightarrow> nat \<Rightarrow> 'a vector \<Rightarrow> err_t \<Rightarrow> ('a vector \<times> err_t) ub" where
  "vector_sub_loop mok z v i 0 new e = Some (new, e)"
| "vector_sub_loop mok z v i (Suc k) new e =
     (case VECTOR_GET v (int i) e of
        (NULL, e') \<Rightarrow> Some (new, e')
      | (Some j, e') \<Rightarrow>
          do {
            cells \<leftarrow> v_array v;
            x \<leftarrow> arr_get cells (int j);
            (new', e'') \<leftarrow> VECTOR_PUSH_BACK mok z new x e';
            if failed e'' then Some (new', e'') else vector_sub_loop mok z v (Suc i) k new' e''
          })"

definition VECTOR_SUB ::
    "bool \<Rightarrow> 'a \<Rightarrow> 'a vector ptr \<Rightarrow> 'a vector ptr \<Rightarrow> int \<Rightarrow> int \<Rightarrow> err_t \<Rightarrow> ('a vector ptr \<times> err_t) ub" where
  "VECTOR_SUB mok z v new start stop e =
     (let e0 = VECTOR_SUCCESS_ERROR e in
      case (v, new) of
        (NULL, _) \<Rightarrow> Some (new, set_err FATAL VECTOR_PARAMETER_IS_NULL e0)
      | (_, NULL) \<Rightarrow> Some (NULL, set_err FATAL VECTOR_PARAMETER_IS_NULL e0)
      | (Some vec, Some _) \<Rightarrow>
          if start < stop \<and> 0 \<le> start \<and> stop \<le> int (v_size vec) then
            (case VECTOR_INIT_WITH_RESERVE mok z new (stop - start + 1) e0 of
               (new1, e1) \<Rightarrow>
                 if failed e1 then Some (new1, e1)
                 else do {
                   (new2, e2) \<leftarrow> vector_sub_loop mok z vec (nat start) (nat (stop - start)) (the new1) e1;
                   Some (Some new2, e2)
                 })
          else Some (new, e0))"

section \<open>The contract of a vector\<close>

definition elems :: "'a vector \<Rightarrow> 'a list" where
  "elems v = (case v_array v of NULL \<Rightarrow> [] | Some cells \<Rightarrow> take (v_size v) cells)"

text \<open>
  What keeps \<open>VECTOR_PUSH_BACK\<close> inside its cells: the cells are as many as recorded, at least
  one is spare, and there are at least two (one cell would not grow: \<open>1 * 3 div 2 = 1\<close>).
\<close>

definition vec_ok :: "'a vector \<Rightarrow> bool" where
  "vec_ok v \<longleftrightarrow> (\<exists>cells. v_array v = Some cells \<and> length cells = v_allocated v
                  \<and> v_size v < v_allocated v \<and> 2 \<le> v_allocated v)"

lemma alloc_cells_simps [err_simps]:
  "alloc_cells True z n e = (Some (replicate n z), set_err OK ERROR_SUCCESS_msg e)"
  "alloc_cells False z n e = (NULL, set_err FATAL UTIL_ERROR_ALLOCATED_MEMORY e)"
  by (simp_all add: alloc_cells_def err_simps)

lemma vec_ok_length_elems: "vec_ok v \<Longrightarrow> length (elems v) = v_size v"
  by (auto simp: vec_ok_def elems_def)

lemma VECTOR_INIT_ok:
  obtains v' e' where "VECTOR_INIT True z (Some v) e = (Some v', e')"
    "vec_ok v'" "elems v' = []" "\<not> failed e'" "v_size v' = 0"
  by (rule that [of "v\<lparr>v_array := Some (replicate 5 z), v_size := 0, v_allocated := 5\<rparr>"
                    "set_err OK ERROR_SUCCESS_msg e"])
     (simp_all add: VECTOR_INIT_def err_simps vec_ok_def elems_def)

lemma VECTOR_CLEAR_ok [simp]: "vec_ok v \<Longrightarrow> vec_ok (VECTOR_CLEAR v)"
  by (auto simp: vec_ok_def VECTOR_CLEAR_def)

lemma elems_VECTOR_CLEAR [simp]: "elems (VECTOR_CLEAR v) = []"
  by (simp add: elems_def VECTOR_CLEAR_def split: option.split)

lemma grow_bounds:
  assumes "(n::nat) + 1 = a" "2 \<le> a"
  shows "n + 2 \<le> a * 3 div 2"
  using assms by presburger

lemma take_Suc_update: "k < length cs \<Longrightarrow> take (Suc k) (cs[k := x]) = take k cs @ [x]"
  by (simp add: take_Suc_conv_app_nth)

lemma VECTOR_PUSH_BACK_ok:
  assumes "vec_ok v"
  shows "\<exists>v' e'. VECTOR_PUSH_BACK True z v x e = Some (v', e') \<and> vec_ok v' \<and> \<not> failed e'
                 \<and> elems v' = elems v @ [x] \<and> v_size v' = Suc (v_size v)"
proof -
  from assms obtain cells where v: "v_array v = Some cells" "length cells = v_allocated v"
      "v_size v < v_allocated v" "2 \<le> v_allocated v"
    by (auto simp: vec_ok_def)
  show ?thesis
  proof (cases "v_size v + 1 = v_allocated v")
    case True
    let ?n = "v_allocated v * 3 div 2"
    have n: "v_size v + 2 \<le> ?n" using True v(4) by (rule grow_bounds)
    let ?cs = "take (v_size v) cells @ drop (v_size v) (replicate ?n z)"
    have "copy_cells (v_size v) (v_array v) (Some (replicate ?n z)) = Some (Some ?cs)"
      using v n by (auto simp: copy_cells_def)
    moreover have "arr_set ?cs (int (v_size v)) x = Some (?cs[v_size v := x])"
      using v n by (intro arr_set_nat) simp
    moreover have "take (Suc (v_size v)) (?cs[v_size v := x]) = take (v_size v) cells @ [x]"
      using v n by (subst take_Suc_update) auto
    ultimately show ?thesis
      using True v n
      by (simp add: VECTOR_PUSH_BACK_def Let_def err_simps elems_def vec_ok_def VECTOR_SUCCESS_ERROR_def)
  next
    case False
    have "arr_set cells (int (v_size v)) x = Some (cells[v_size v := x])"
      using v by (intro arr_set_nat) simp
    moreover have "take (Suc (v_size v)) (cells[v_size v := x]) = take (v_size v) cells @ [x]"
      using v by (simp add: take_Suc_update)
    ultimately show ?thesis
      using False v
      by (auto simp: VECTOR_PUSH_BACK_def Let_def err_simps elems_def vec_ok_def VECTOR_SUCCESS_ERROR_def)
  qed
qed

lemma VECTOR_PUSH_BACK_E:
  assumes "vec_ok v"
  obtains v' e' where "VECTOR_PUSH_BACK True z v x e = Some (v', e')" "vec_ok v'" "\<not> failed e'"
    "elems v' = elems v @ [x]" "v_size v' = Suc (v_size v)"
  using VECTOR_PUSH_BACK_ok [OF assms] by blast

lemma vec_ok_cell:
  assumes "vec_ok v" "i < v_size v"
  obtains cells where "v_array v = Some cells" "arr_get cells (int i) = Some (elems v ! i)"
  using assms by (auto simp: vec_ok_def elems_def arr_get_nat)

lemma VECTOR_GET_in: "i < v_size v \<Longrightarrow> VECTOR_GET v (int i) e = (Some i, set_err OK ERROR_SUCCESS_msg e)"
  by (simp add: VECTOR_GET_def VECTOR_SUCCESS_ERROR_def)

lemma vector_sub_loop_ok:
  "vec_ok v \<Longrightarrow> vec_ok new \<Longrightarrow> i + k \<le> v_size v \<Longrightarrow>
   \<exists>new' e'. vector_sub_loop True z v i k new e = Some (new', e') \<and> vec_ok new'
             \<and> elems new' = elems new @ segment i (i + k) (elems v)"
proof (induction k arbitrary: i new e)
  case 0
  then show ?case by (simp add: segment_def)
next
  case (Suc k)
  from Suc.prems have i: "i < v_size v" by simp
  from Suc.prems(1) i obtain cells where
    c: "v_array v = Some cells" "arr_get cells (int i) = Some (elems v ! i)" by (rule vec_ok_cell)
  from Suc.prems(2) obtain n1 e1 where p:
    "VECTOR_PUSH_BACK True z new (elems v ! i) (set_err OK ERROR_SUCCESS_msg e) = Some (n1, e1)" "vec_ok n1" "\<not> failed e1"
    "elems n1 = elems new @ [elems v ! i]" by (rule VECTOR_PUSH_BACK_E)
  from Suc.IH [OF Suc.prems(1) p(2), of "Suc i" e1] Suc.prems(3) obtain n2 e2 where
    r: "vector_sub_loop True z v (Suc i) k n1 e1 = Some (n2, e2)" "vec_ok n2"
       "elems n2 = elems n1 @ segment (Suc i) (Suc i + k) (elems v)" by auto
  have "segment i (i + Suc k) (elems v) = elems v ! i # segment (Suc i) (Suc i + k) (elems v)"
    using i vec_ok_length_elems [OF Suc.prems(1)] by (simp add: segment_def flip: Cons_nth_drop_Suc)
  then show ?case using c p r i by (simp add: VECTOR_GET_in)
qed

section \<open>The interface its users rely on\<close>

locale growable =
  fixes push :: "'v \<Rightarrow> 'a \<Rightarrow> 'v ub"
    and content :: "'v \<Rightarrow> 'a list"
    and ok :: "'v \<Rightarrow> bool"
  assumes push_ok: "ok v \<Longrightarrow> \<exists>v'. push v x = Some v' \<and> ok v' \<and> content v' = content v @ [x]"
begin

lemma push_all:
  "ok v \<Longrightarrow> \<exists>v'. run_inputs push v xs = Some v' \<and> ok v' \<and> content v' = content v @ xs"
proof (induction xs arbitrary: v)
  case Nil
  then show ?case by simp
next
  case (Cons x xs)
  from push_ok [OF Cons.prems, of x] obtain v1 where
    v1: "push v x = Some v1" "ok v1" "content v1 = content v @ [x]" by blast
  from Cons.IH [OF v1(2)] v1 show ?case by auto
qed

lemma push_all_E:
  assumes "ok v"
  obtains v' where "run_inputs push v xs = Some v'" "ok v'" "content v' = content v @ xs"
  using push_all [OF assms] by blast

end

text \<open>The code's use of the macro with a local error descriptor that it does not look at.\<close>

definition vec_push :: "'a \<Rightarrow> 'a vector \<Rightarrow> 'a \<Rightarrow> 'a vector ub" where
  "vec_push z v x = map_option fst (VECTOR_PUSH_BACK True z v x err_fresh)"

interpretation vec: growable "vec_push z" elems vec_ok for z
proof unfold_locales
  fix v :: "'a vector" and x
  assume "vec_ok v"
  then obtain v' e' where "VECTOR_PUSH_BACK True z v x err_fresh = Some (v', e')" "vec_ok v'"
    "elems v' = elems v @ [x]" by (rule VECTOR_PUSH_BACK_E)
  then show "\<exists>v'. vec_push z v x = Some v' \<and> vec_ok v' \<and> elems v' = elems v @ [x]"
    by (simp add: vec_push_def)
qed

definition vec_empty :: "'a vector" where
  "vec_empty = \<lparr>v_size = 0, v_allocated = 0, v_array = NULL\<rparr>"

definition vec_new :: "'a \<Rightarrow> 'a vector" where
  "vec_new z = the (fst (VECTOR_INIT True z (Some vec_empty) err_fresh))"

lemma vec_new_ok [simp]: "vec_ok (vec_new z)" "elems (vec_new z) = []"
  by (simp_all add: vec_new_def VECTOR_INIT_def vec_empty_def err_simps vec_ok_def elems_def)

text \<open>Building a vector from scratch, the way the handlers do.\<close>

definition vec_of :: "'a \<Rightarrow> 'a list \<Rightarrow> 'a vector ub" where
  "vec_of z xs = run_inputs (vec_push z) (vec_new z) xs"

lemma vec_of_ok: "\<exists>v. vec_of z xs = Some v \<and> vec_ok v \<and> elems v = xs"
  unfolding vec_of_def using vec.push_all [of "vec_new z" z xs] by simp

section \<open>Properties\<close>

text \<open>
  C40: From a vector that \<open>VECTOR_INIT\<close> made, any sequence of \<open>VECTOR_PUSH_BACK\<close> is free of
  out-of-bounds accesses through all reallocations, keeps the bookkeeping consistent, and the
  contents are exactly the pushed elements in order.
\<close>

theorem push_back_sequence_correct:
  "\<exists>v. run_inputs (vec_push z) (the (fst (VECTOR_INIT True z (Some v0) e))) xs = Some v
       \<and> vec_ok v \<and> elems v = xs \<and> v_size v = length xs"
proof -
  obtain v1 e1 where i: "VECTOR_INIT True z (Some v0) e = (Some v1, e1)" "vec_ok v1" "elems v1 = []"
    by (rule VECTOR_INIT_ok)
  from i(2) obtain v where "run_inputs (vec_push z) v1 xs = Some v" "vec_ok v" "elems v = elems v1 @ xs"
    by (rule vec.push_all_E)
  then show ?thesis using i vec_ok_length_elems [of v] by simp
qed

text \<open>
  \<open>VECTOR_SUB\<close> on a well-formed vector and a range inside it yields a well-formed vector
  that holds exactly the elements of the range, without any undefined access.
\<close>

theorem vector_sub_correct:
  assumes "vec_ok v" "0 \<le> start" "start < stop" "stop \<le> int (v_size v)"
  shows "\<exists>w e'. VECTOR_SUB True z (Some v) (Some new) start stop e = Some (Some w, e')
                \<and> vec_ok w \<and> elems w = segment (nat start) (nat stop) (elems v)"
proof -
  let ?new = "new\<lparr>v_array := Some (replicate (nat (stop - start + 1)) z), v_size := 0,
                  v_allocated := nat (stop - start + 1)\<rparr>"
  have ok: "vec_ok ?new" "elems ?new = []" using assms by (auto simp: vec_ok_def elems_def)
  have k: "nat start + nat (stop - start) = nat stop" using assms by simp
  have b: "nat start + nat (stop - start) \<le> v_size v" using assms by simp
  from vector_sub_loop_ok [OF assms(1) ok(1) b,
      of z "set_err OK ERROR_SUCCESS_msg (VECTOR_SUCCESS_ERROR e)"] k ok(2)
  show ?thesis using assms by (auto simp: VECTOR_SUB_def VECTOR_INIT_WITH_RESERVE_def err_simps)
qed

theorem vector_sub_correct_witness:
  "\<exists>v w e'. vec_of (0::int) [10, 20, 30, 40] = Some v
     \<and> VECTOR_SUB True 0 (Some v) (Some vec_empty) 1 3 err_fresh = Some (Some w, e')
     \<and> elems w = segment (nat 1) (nat 3) (elems v) \<and> elems v = [10, 20, 30, 40]"
proof -
  obtain v where v: "vec_of (0::int) [10, 20, 30, 40] = Some v" "vec_ok v" "elems v = [10, 20, 30, 40]"
    using vec_of_ok [of "0::int" "[10, 20, 30, 40]"] by auto
  have "v_size v = 4" using vec_ok_length_elems [OF v(2)] v(3) by simp
  then obtain w e' where "VECTOR_SUB True 0 (Some v) (Some vec_empty) 1 3 err_fresh = Some (Some w, e')"
    "elems w = segment (nat 1) (nat 3) (elems v)"
    using vector_sub_correct [OF v(2), of 1 3 0 vec_empty err_fresh] by auto
  with v show ?thesis by blast
qed

text \<open>
  A vector reserved with a single cell (\<open>VECTOR_RESERVE\<close> or \<open>VECTOR_INIT_WITH_RESERVE\<close> of
  one) cannot grow: the first push leaves one allocated cell because the growth factor rounds
  down, and the second push stores outside it.
\<close>

theorem reserve_one_overflows:
  assumes "VECTOR_INIT_WITH_RESERVE True z (Some v0) 1 e = (Some v, e1)"
  shows "(\<exists>w. vec_push z v x = Some w \<and> v_allocated w = 1 \<and> elems w = [x])
         \<and> run_inputs (vec_push z) v [x, y] = UB"
proof -
  have v: "v = v0\<lparr>v_array := Some [z], v_size := 0, v_allocated := 1\<rparr>"
    using assms by (auto simp: VECTOR_INIT_WITH_RESERVE_def err_simps)
  define w where "w = v0\<lparr>v_array := Some [x], v_size := 1, v_allocated := 1\<rparr>"
  have 1: "vec_push z v x = Some w"
    by (simp add: v w_def vec_push_def VECTOR_PUSH_BACK_def VECTOR_SUCCESS_ERROR_def err_simps
        copy_cells_def arr_set_def)
  have 2: "vec_push z w y = UB"
    by (simp add: w_def vec_push_def VECTOR_PUSH_BACK_def arr_set_def)
  show ?thesis using 1 2 by (simp add: w_def elems_def)
qed

theorem reserve_one_overflows_witness:
  "run_inputs (vec_push (0::nat)) (the (fst (VECTOR_INIT_WITH_RESERVE True 0 (Some vec_empty) 1 err_fresh))) [7, 8] = UB"
  using reserve_one_overflows [of 0 vec_empty err_fresh
      "the (fst (VECTOR_INIT_WITH_RESERVE True (0::nat) (Some vec_empty) 1 err_fresh))"
      "snd (VECTOR_INIT_WITH_RESERVE True (0::nat) (Some vec_empty) 1 err_fresh)" 7 8]
  by (simp add: VECTOR_INIT_WITH_RESERVE_def err_simps)

end
