(* ===== verification/Regex.thy ===== *)
theory Regex
  imports Util
begin

text \<open>
  The regular expressions of \<open>server/include/smtp/regex.h\<close> and what the code uses of
  \<open>regcomp\<close> and \<open>regexec\<close>: with \<open>REG_EXTENDED | REG_ICASE\<close> and a single \<open>regmatch_t\<close>, the
  bounds \<open>rm_so\<close> and \<open>rm_eo\<close> of the leftmost match, and of those the longest. Character
  classes are those of the C locale. \<open>ends\<close> computes the lengths of the prefixes of a text
  that match; \<open>lang\<close> is the language it is proved to decide.
\<close>

datatype rx = Eps | Cls "char \<Rightarrow> bool" | Seq rx rx | Alt rx rx | Star rx

section \<open>Matching\<close>

function ends :: "rx \<Rightarrow> string \<Rightarrow> nat list" where
  "ends Eps s = [0]"
| "ends (Cls p) s = (case s of [] \<Rightarrow> [] | c # _ \<Rightarrow> if p c then [1] else [])"
| "ends (Seq r q) s = concat (map (\<lambda>n. map ((+) n) (ends q (drop n s))) (ends r s))"
| "ends (Alt r q) s = ends r s @ ends q s"
| "ends (Star r) s =
     0 # concat (map (\<lambda>n. if 0 < n \<and> n \<le> length s then map ((+) n) (ends (Star r) (drop n s)) else []) (ends r s))"
  by pat_completeness auto
termination
  by (relation "measures [\<lambda>(r, s). size r, \<lambda>(r, s). length s]") auto

declare ends.simps(5) [simp del]

lemma ends_Star_iff:
  "n \<in> set (ends (Star r) s) \<longleftrightarrow>
   n = 0 \<or> (\<exists>i j. n = i + j \<and> i \<in> set (ends r s) \<and> 0 < i \<and> i \<le> length s \<and> j \<in> set (ends (Star r) (drop i s)))"
  by (subst ends.simps(5)) (auto split: if_splits)

lemma ends_Seq_iff:
  "n \<in> set (ends (Seq r q) s) \<longleftrightarrow> (\<exists>i j. n = i + j \<and> i \<in> set (ends r s) \<and> j \<in> set (ends q (drop i s)))"
  by auto

definition longest :: "nat list \<Rightarrow> nat" where
  "longest ns = foldr max ns 0"

text \<open>The search from position \<open>i\<close> on; the result is \<open>(rm_so, rm_eo)\<close>.\<close>

fun regexec_from :: "rx \<Rightarrow> nat \<Rightarrow> string \<Rightarrow> (nat \<times> nat) option" where
  "regexec_from r i s =
     (case ends r s of
        [] \<Rightarrow> (case s of [] \<Rightarrow> None | _ # s' \<Rightarrow> regexec_from r (Suc i) s')
      | ns \<Rightarrow> Some (i, i + longest ns))"

declare regexec_from.simps [simp del]

definition regexec :: "rx \<Rightarrow> string \<Rightarrow> (nat \<times> nat) option" where
  "regexec r s = regexec_from r 0 s"

section \<open>The language of an expression\<close>

inductive_set star_lang :: "string set \<Rightarrow> string set" for A where
  star_Nil: "[] \<in> star_lang A"
| star_step: "u \<in> A \<Longrightarrow> v \<in> star_lang A \<Longrightarrow> u @ v \<in> star_lang A"

fun lang :: "rx \<Rightarrow> string set" where
  "lang Eps = {[]}"
| "lang (Cls p) = {[c] | c. p c}"
| "lang (Seq r q) = {u @ v | u v. u \<in> lang r \<and> v \<in> lang q}"
| "lang (Alt r q) = lang r \<union> lang q"
| "lang (Star r) = star_lang (lang r)"

lemma star_step_nonempty:
  "w \<in> star_lang A \<Longrightarrow> w \<noteq> [] \<Longrightarrow> \<exists>u v. w = u @ v \<and> u \<in> A \<and> v \<in> star_lang A \<and> u \<noteq> []"
proof (induction rule: star_lang.induct)
  case star_Nil
  then show ?case by simp
next
  case (star_step u v)
  then show ?case by (cases "u = []") auto
qed

lemma take_split:
  assumes "take n s = u @ v" "n \<le> length s"
  shows "length u \<le> n" "take (length u) s = u" "take (n - length u) (drop (length u) s) = v"
proof -
  have l: "n = length u + length v" using arg_cong [OF assms(1), of length] assms(2) by simp
  then show "length u \<le> n" by simp
  then have "take (length u) (take n s) = take (length u) s" by (simp add: min_def)
  then show t: "take (length u) s = u" using assms(1) by simp
  have "take (n - length u) (drop (length u) s) = drop (length u) (take n s)" by (simp add: drop_take)
  then show "take (n - length u) (drop (length u) s) = v" using assms(1) by simp
qed

lemma ends_lang: "n \<in> set (ends r s) \<longleftrightarrow> n \<le> length s \<and> take n s \<in> lang r"
proof (induction r s arbitrary: n rule: ends.induct)
  case (1 s)
  then show ?case by (auto simp: take_Nil)
next
  case (2 p s)
  then show ?case by (cases s) (auto simp: take_Cons' split: if_splits)
next
  case (3 r q s)
  show ?case
  proof
    assume "n \<in> set (ends (Seq r q) s)"
    from iffD1 [OF ends_Seq_iff this] obtain i j where
      n: "n = i + j" and i: "i \<in> set (ends r s)" and j: "j \<in> set (ends q (drop i s))" by blast
    from i have i': "i \<le> length s" "take i s \<in> lang r" using "3.IH"(1) by simp_all
    from j have j': "j \<le> length (drop i s)" "take j (drop i s) \<in> lang q" using "3.IH"(2) [OF i] by simp_all
    have "take n s = take i s @ take j (drop i s)" by (simp add: n take_add)
    then show "n \<le> length s \<and> take n s \<in> lang (Seq r q)" using i' j' n by auto
  next
    assume "n \<le> length s \<and> take n s \<in> lang (Seq r q)"
    then obtain u v where n: "n \<le> length s" and uv: "take n s = u @ v" "u \<in> lang r" "v \<in> lang q" by auto
    note sp = take_split [OF uv(1) n]
    have i: "length u \<in> set (ends r s)" using "3.IH"(1) sp(1,2) uv(2) n by simp
    have "n - length u \<in> set (ends q (drop (length u) s))" using "3.IH"(2) [OF i, of "n - length u"] sp(3) uv(3) n by simp
    moreover have "n = length u + (n - length u)" using sp(1) by simp
    ultimately show "n \<in> set (ends (Seq r q) s)" using i by (subst ends_Seq_iff) blast
  qed
next
  case (4 r q s)
  then show ?case by auto
next
  case (5 r s)
  show ?case
  proof
    assume "n \<in> set (ends (Star r) s)"
    from iffD1 [OF ends_Star_iff this] consider "n = 0" | i j where "n = i + j" "i \<in> set (ends r s)" "0 < i" "i \<le> length s" "j \<in> set (ends (Star r) (drop i s))"
      by blast
    then show "n \<le> length s \<and> take n s \<in> lang (Star r)"
    proof cases
      case 1
      then show ?thesis by (simp add: star_Nil)
    next
      case 2
      then have i': "take i s \<in> lang r" using "5.IH"(1) by simp
      from 2 have j': "j \<le> length (drop i s)" "take j (drop i s) \<in> lang (Star r)"
        using "5.IH"(2) [OF 2(2), of j] by simp_all
      have "take n s = take i s @ take j (drop i s)" by (simp add: 2(1) take_add)
      then show ?thesis using i' j' 2 by (auto intro: star_step)
    qed
  next
    assume a: "n \<le> length s \<and> take n s \<in> lang (Star r)"
    show "n \<in> set (ends (Star r) s)"
    proof (cases "n = 0")
      case False
      then have "take n s \<noteq> []" using a by auto
      moreover have "take n s \<in> star_lang (lang r)" using a by simp
      ultimately obtain u v where uv: "take n s = u @ v" "u \<in> lang r" "v \<in> star_lang (lang r)" "u \<noteq> []"
        using star_step_nonempty by blast
      note sp = take_split [OF uv(1) conjunct1 [OF a]]
      have len: "0 < length u" "length u \<le> length s" using uv(4) sp(1) a by auto
      have i: "length u \<in> set (ends r s)" using "5.IH"(1) sp(2) uv(2) len by simp
      have "n - length u \<in> set (ends (Star r) (drop (length u) s))"
        using "5.IH"(2) [OF i, of "n - length u"] len sp(3) uv(3) a by (simp add: diff_le_mono)
      moreover have "n = length u + (n - length u)" using sp(1) by simp
      ultimately show ?thesis using i len by (subst ends_Star_iff) blast
    qed (subst ends_Star_iff, simp)
  qed
qed

lemma longest_in: "ns \<noteq> [] \<Longrightarrow> longest ns \<in> set ns"
proof (induction ns)
  case (Cons n ns)
  then show ?case by (cases "ns = []") (auto simp: longest_def max_def)
qed simp

lemma longest_ge: "n \<in> set ns \<Longrightarrow> n \<le> longest ns"
  by (induction ns) (auto simp: longest_def max_def)

text \<open>Leftmost: no match starts earlier. Longest: no match from there ends later.\<close>

definition matches_at :: "rx \<Rightarrow> string \<Rightarrow> nat \<Rightarrow> nat \<Rightarrow> bool" where
  "matches_at r s b e \<longleftrightarrow> b \<le> e \<and> e \<le> length s \<and> segment b e s \<in> lang r"

lemma matches_at_Cons: "matches_at r (c # s) (Suc b) (Suc e) \<longleftrightarrow> matches_at r s b e"
  by (simp add: matches_at_def segment_def)

lemma ends_empty: "ends r s = [] \<longleftrightarrow> (\<forall>e. \<not> matches_at r s 0 e)"
proof -
  have "ends r s = [] \<longleftrightarrow> (\<forall>n. n \<notin> set (ends r s))" by (metis length_greater_0_conv list.set(1) empty_iff nth_mem)
  also have "\<dots> \<longleftrightarrow> (\<forall>e. \<not> matches_at r s 0 e)" by (simp add: ends_lang matches_at_def segment_def)
  finally show ?thesis .
qed

lemma regexec_from_None: "regexec_from r i s = None \<longleftrightarrow> (\<forall>b e. \<not> matches_at r s b e)"
proof (induction s arbitrary: i)
  case Nil
  have "ends r [] = [] \<longleftrightarrow> (\<forall>b e. \<not> matches_at r [] b e)"
    by (auto simp: ends_empty matches_at_def)
  then show ?case by (subst regexec_from.simps) (auto split: list.split)
next
  case (Cons c s)
  show ?case
  proof (cases "ends r (c # s)")
    case Nil
    then have z: "\<not> matches_at r (c # s) 0 e" for e using ends_empty by blast
    have "(\<forall>b e. \<not> matches_at r (c # s) b e) \<longleftrightarrow> (\<forall>b e. \<not> matches_at r s b e)"
    proof
      assume a: "\<forall>b e. \<not> matches_at r s b e"
      show "\<forall>b e. \<not> matches_at r (c # s) b e"
      proof (intro allI)
        fix b e
        show "\<not> matches_at r (c # s) b e"
          using a z by (cases b; cases e) (auto simp: matches_at_Cons, simp add: matches_at_def)
      qed
    next
      assume "\<forall>b e. \<not> matches_at r (c # s) b e"
      then show "\<forall>b e. \<not> matches_at r s b e" by (metis matches_at_Cons)
    qed
    then show ?thesis using Nil Cons.IH [of "Suc i"] by (subst regexec_from.simps) simp
  next
    case (Cons n ns)
    then show ?thesis using ends_empty [of r "c # s"] by (subst regexec_from.simps) auto
  qed
qed

lemma regexec_from_Some:
  "regexec_from r i s = Some (b, e) \<Longrightarrow>
   i \<le> b \<and> matches_at r s (b - i) (e - i) \<and> b \<le> e \<and>
   (\<forall>b' e'. matches_at r s b' e' \<longrightarrow> b - i \<le> b' \<and> (b' = b - i \<longrightarrow> e' \<le> e - i))"
proof (induction s arbitrary: i)
  case Nil
  then obtain ns where ns: "ends r [] = ns" "ns \<noteq> []" "b = i" "e = i + longest ns"
    by (subst (asm) regexec_from.simps) (auto split: list.splits)
  then have "longest ns \<in> set (ends r [])" by (simp add: longest_in)
  then show ?case using ns by (auto simp: ends_lang matches_at_def segment_def)
next
  case (Cons c s)
  show ?case
  proof (cases "ends r (c # s)")
    case Nil
    then have z: "\<not> matches_at r (c # s) 0 e" for e using ends_empty by blast
    from Nil Cons.prems have rec: "regexec_from r (Suc i) s = Some (b, e)" by (subst (asm) regexec_from.simps) simp
    note IH = Cons.IH [OF rec]
    then have b: "b - i = Suc (b - Suc i)" "e - i = Suc (e - Suc i)" by auto
    have "b - i \<le> b' \<and> (b' = b - i \<longrightarrow> e' \<le> e - i)" if m: "matches_at r (c # s) b' e'" for b' e'
    proof -
      from m z obtain b'' where b'': "b' = Suc b''" by (cases b') auto
      with m obtain e'' where e'': "e' = Suc e''" by (cases e') (auto simp: matches_at_def)
      from m have "matches_at r s b'' e''" by (simp add: b'' e'' matches_at_Cons)
      with IH show ?thesis using b b'' e'' by auto
    qed
    then show ?thesis using IH b by (simp add: matches_at_Cons)
  next
    case (Cons n ns)
    with Cons.prems have be: "b = i" "e = i + longest (n # ns)" by (subst (asm) regexec_from.simps, simp)+
    have m: "longest (n # ns) \<in> set (ends r (c # s))" using longest_in [of "n # ns"] Cons by simp
    have l: "e' \<le> longest (n # ns)" if "matches_at r (c # s) 0 e'" for e'
      using that Cons longest_ge [of e' "n # ns"] ends_lang [of e' r "c # s"] by (simp add: matches_at_def segment_def)
    show ?thesis using be m l by (auto simp: ends_lang matches_at_def segment_def)
  qed
qed

lemma regexec_None: "regexec r s = None \<longleftrightarrow> (\<forall>b e. \<not> matches_at r s b e)"
  by (simp add: regexec_def regexec_from_None)

lemma regexec_Some:
  assumes "regexec r s = Some (b, e)"
  shows "matches_at r s b e" "b \<le> e" "e \<le> length s" "segment b e s \<in> lang r"
    "\<And>b' e'. matches_at r s b' e' \<Longrightarrow> b \<le> b'" "\<And>e'. matches_at r s b e' \<Longrightarrow> e' \<le> e"
  using regexec_from_Some [of r 0 s b e] assms by (auto simp: regexec_def matches_at_def)
section \<open>The patterns of \<open>smtp/regex.h\<close>\<close>

definition is_digit :: "char \<Rightarrow> bool" where
  "is_digit c \<longleftrightarrow> 48 \<le> (of_char c :: nat) \<and> (of_char c :: nat) \<le> 57"

definition is_alpha :: "char \<Rightarrow> bool" where
  "is_alpha c \<longleftrightarrow> (65 \<le> (of_char c :: nat) \<and> (of_char c :: nat) \<le> 90) \<or> (97 \<le> (of_char c :: nat) \<and> (of_char c :: nat) \<le> 122)"

definition is_alnum :: "char \<Rightarrow> bool" where
  "is_alnum c \<longleftrightarrow> is_digit c \<or> is_alpha c"

definition is_space :: "char \<Rightarrow> bool" where
  "is_space c \<longleftrightarrow> c = CHR '' '' \<or> (9 \<le> (of_char c :: nat) \<and> (of_char c :: nat) \<le> 13)"

definition to_lower :: "char \<Rightarrow> char" where
  "to_lower c = (if 65 \<le> (of_char c :: nat) \<and> (of_char c :: nat) \<le> 90 then char_of (of_char c + 32 :: nat) else c)"

text \<open>A literal character matches both of its cases (\<open>REG_ICASE\<close>); \<open>[a-b]\<close> is a range of digits.\<close>

definition Lit :: "char \<Rightarrow> rx" where "Lit c = Cls (\<lambda>x. to_lower x = to_lower c)"
definition Range :: "char \<Rightarrow> char \<Rightarrow> rx" where
  "Range a b = Cls (\<lambda>x. (of_char a :: nat) \<le> of_char x \<and> (of_char x :: nat) \<le> of_char b)"

fun Str :: "string \<Rightarrow> rx" where
  "Str [] = Eps" | "Str [c] = Lit c" | "Str (c # d # s) = Seq (Lit c) (Str (d # s))"

definition Plus :: "rx \<Rightarrow> rx" where "Plus r = Seq r (Star r)"
definition Opt :: "rx \<Rightarrow> rx" where "Opt r = Alt r Eps"
definition Alnum :: rx where "Alnum = Cls is_alnum"
definition Space :: rx where "Space = Cls is_space"

definition RE_DOMAIN :: rx where
  "RE_DOMAIN = Seq (Plus (Seq (Plus Alnum) (Lit CHR ''.''))) (Plus Alnum)"

definition RE_OCTET :: rx where
  "RE_OCTET = Alt (Seq (Str ''25'') (Range CHR ''0'' CHR ''5''))
      (Alt (Seq (Lit CHR ''2'') (Seq (Range CHR ''0'' CHR ''4'') (Range CHR ''0'' CHR ''9'')))
           (Seq (Opt (Range CHR ''0'' CHR ''1'')) (Seq (Range CHR ''0'' CHR ''9'') (Opt (Range CHR ''0'' CHR ''9'')))))"

definition RE_IPv4 :: rx where
  "RE_IPv4 = (let d = Seq RE_OCTET (Lit CHR ''.'') in Seq d (Seq d (Seq d RE_OCTET)))"

definition RE_ADDRESS_LITERAL :: rx where
  "RE_ADDRESS_LITERAL = Seq (Lit CHR ''['') (Seq RE_IPv4 (Lit CHR '']''))"

definition RE_AT_DOMAIN :: rx where "RE_AT_DOMAIN = Seq (Lit CHR ''@'') RE_DOMAIN"
definition RE_MAILBOX :: rx where "RE_MAILBOX = Seq (Plus Alnum) RE_AT_DOMAIN"

definition RE_ROUTE_PATH :: rx where
  "RE_ROUTE_PATH =
     Opt (Seq (Star (Seq RE_AT_DOMAIN (Seq (Star Space) (Seq (Lit CHR '','') (Star Space)))))
              (Seq RE_AT_DOMAIN (Seq (Star Space) (Seq (Lit CHR '':'') (Star Space)))))"

definition RE_PATH :: rx where
  "RE_PATH = Seq (Lit CHR ''<'') (Seq RE_ROUTE_PATH (Seq RE_MAILBOX (Lit CHR ''>'')))"

definition RE_EMPTY_PATH :: rx where "RE_EMPTY_PATH = Str ''<>''"

definition RE_HELLO :: rx where
  "RE_HELLO = Seq (Alt (Str ''ehlo'') (Str ''helo'')) (Plus Space)"

definition RE_MAIL_FROM :: rx where
  "RE_MAIL_FROM = Seq (Str ''mail'') (Seq (Plus Space) (Seq (Str ''from'') (Seq (Star Space) (Seq (Lit CHR '':'') (Star Space)))))"

definition RE_RCPT_TO :: rx where
  "RE_RCPT_TO = Seq (Str ''rcpt'') (Seq (Plus Space) (Seq (Str ''to'') (Seq (Star Space) (Seq (Lit CHR '':'') (Star Space)))))"

definition RE_DATA :: rx where "RE_DATA = Str ''data''"
definition RE_RSET :: rx where "RE_RSET = Str ''rset''"
definition RE_VRFY :: rx where "RE_VRFY = Str ''vrfy''"
definition RE_EXPN :: rx where "RE_EXPN = Str ''expn''"
definition RE_HELP :: rx where "RE_HELP = Str ''help''"
definition RE_NOOP :: rx where "RE_NOOP = Str ''noop''"
definition RE_QUIT :: rx where "RE_QUIT = Str ''quit''"

lemmas rx_prims = Lit_def Range_def Plus_def Opt_def Alnum_def Space_def
lemmas rx_defs = RE_DOMAIN_def RE_OCTET_def RE_IPv4_def RE_ADDRESS_LITERAL_def RE_AT_DOMAIN_def RE_MAILBOX_def
  RE_ROUTE_PATH_def RE_PATH_def RE_EMPTY_PATH_def RE_HELLO_def RE_MAIL_FROM_def RE_RCPT_TO_def
  RE_DATA_def RE_RSET_def RE_VRFY_def RE_EXPN_def RE_HELP_def RE_NOOP_def RE_QUIT_def

text \<open>What the command parser needs to know of the languages.\<close>

lemma lang_Lit_nonletter:
  assumes "\<not> is_alpha c"
  shows "lang (Lit c) = {[c]}"
proof -
  have "to_lower x = to_lower c \<longleftrightarrow> x = c" for x
  proof
    assume e: "to_lower x = to_lower c"
    have c: "to_lower c = c" using assms by (auto simp: to_lower_def is_alpha_def)
    show "x = c"
    proof (cases "65 \<le> (of_char x :: nat) \<and> (of_char x :: nat) \<le> 90")
      case True
      then have "(of_char (to_lower x) :: nat) = of_char x + 32" by (simp add: to_lower_def)
      then have "is_alpha (to_lower x)" using True by (simp add: is_alpha_def)
      then show ?thesis using e c assms by simp
    next
      case False
      then show ?thesis using e c by (auto simp: to_lower_def)
    qed
  qed simp
  then show ?thesis by (simp add: Lit_def)
qed

lemma nonletters [simp]:
  "\<not> is_alpha CHR ''@''" "\<not> is_alpha CHR ''<''" "\<not> is_alpha CHR ''>''" "\<not> is_alpha CHR ''[''"
  "\<not> is_alpha CHR '']''" "\<not> is_alpha CHR ''.''" "\<not> is_alnum CHR ''@''" "\<not> is_alnum CHR ''.''"
  by (simp_all add: is_alpha_def is_alnum_def is_digit_def)

lemma star_lang_Cls: "w \<in> star_lang (lang (Cls p)) \<Longrightarrow> \<forall>c\<in>set w. p c"
  by (induction rule: star_lang.induct) auto

lemma lang_Plus_Cls:
  assumes "w \<in> lang (Plus (Cls p))"
  shows "w \<noteq> []" "\<forall>c\<in>set w. p c"
  using assms star_lang_Cls [of _ p] by (auto simp: Plus_def)

lemma lang_Plus_nonempty: "w \<in> lang (Plus r) \<Longrightarrow> [] \<notin> lang r \<Longrightarrow> w \<noteq> []"
  by (auto simp: Plus_def)

lemma lang_mailbox:
  assumes "w \<in> lang RE_MAILBOX"
  obtains u d where "w = u @ CHR ''@'' # d" "u \<noteq> []" "\<forall>c\<in>set u. is_alnum c" "d \<in> lang RE_DOMAIN"
proof -
  from assms obtain u d where "w = u @ CHR ''@'' # d" "u \<in> lang (Plus Alnum)" "d \<in> lang RE_DOMAIN"
    by (auto simp: RE_MAILBOX_def RE_AT_DOMAIN_def lang_Lit_nonletter)
  with lang_Plus_Cls [of u is_alnum] that show thesis by (simp add: Alnum_def)
qed

lemma lang_domain_nonempty: "w \<in> lang RE_DOMAIN \<Longrightarrow> w \<noteq> []"
  by (auto simp: RE_DOMAIN_def Plus_def Alnum_def)

lemma lang_path:
  assumes "w \<in> lang RE_PATH"
  obtains p m where "w = CHR ''<'' # p @ m @ [CHR ''>'']" "m \<in> lang RE_MAILBOX"
  using assms that by (auto simp: RE_PATH_def lang_Lit_nonletter)

lemma lang_address_literal:
  assumes "w \<in> lang RE_ADDRESS_LITERAL"
  obtains a where "w = CHR ''['' # a @ [CHR '']'']" "a \<in> lang RE_IPv4"
  using assms that by (auto simp: RE_ADDRESS_LITERAL_def lang_Lit_nonletter)

lemma matches_at_split:
  assumes "matches_at r s b e" "segment b e s = u @ v @ w" "v \<in> lang q"
  shows "matches_at q s (b + length u) (b + length u + length v)"
proof -
  from assms(1) have be: "b \<le> e" "e \<le> length s" by (simp_all add: matches_at_def)
  have len: "e - b = length u + length v + length w"
    using arg_cong [OF assms(2), of length] be by simp
  have "segment (b + length u) (b + length u + length v) s = take (length v) (drop (length u) (segment b e s))"
    using len by (simp add: segment_def drop_take add.commute)
  also have "\<dots> = v" by (simp add: assms(2))
  finally show ?thesis using assms(3) len be by (simp add: matches_at_def)
qed

text \<open>
  Where a path matches, so does a mailbox: the test behind the \<open>assert(false)\<close> of the
  \<open>MAIL FROM\<close> parser cannot fail, and the postmaster branch of \<open>RCPT TO\<close> is never reached.
\<close>

lemma path_has_mailbox:
  assumes "regexec RE_PATH s \<noteq> None"
  shows "regexec RE_MAILBOX s \<noteq> None"
proof -
  from assms obtain b e where be: "regexec RE_PATH s = Some (b, e)" by auto
  note m = regexec_Some [OF be]
  from m(4) obtain p w where "segment b e s = CHR ''<'' # p @ w @ [CHR ''>'']" "w \<in> lang RE_MAILBOX" by (rule lang_path)
  with matches_at_split [OF m(1), of "CHR ''<'' # p" w "[CHR ''>'']"] show ?thesis
    by (auto simp: regexec_None)
qed

end
