(* ===== verification/Fsm.thy ===== *)
theory Fsm
  imports Prelude "HOL-Library.Sublist"
begin

text \<open>
  The protocol automaton \<open>server/src/lib/smtp/generated/smtp-states-fsm.c\<close>, generated by AutoGen
  from \<open>server/src/lib/smtp/smtp-states.def\<close>: the states and events in the order of the C
  enumerations (which the code compares and indexes with), the transition table and the step.
\<close>

datatype te_autofsm_state =
    AUTOFSM_ST_INIT | AUTOFSM_ST_CLIENT_INIT | AUTOFSM_ST_BEGIN_TRANSACTION | AUTOFSM_ST_TRANSACTION
  | AUTOFSM_ST_READ_DATA | AUTOFSM_ST_INVALID | AUTOFSM_ST_DONE

datatype te_autofsm_event =
    AUTOFSM_EV_TEST | AUTOFSM_EV_RSET | AUTOFSM_EV_HELO | AUTOFSM_EV_MAIL | AUTOFSM_EV_RCPT
  | AUTOFSM_EV_DATA | AUTOFSM_EV_READ | AUTOFSM_EV_END | AUTOFSM_EV_QUIT | AUTOFSM_EV_INVALID

text \<open>The numeric values of the enumerators.\<close>

fun st_code :: "te_autofsm_state \<Rightarrow> nat" where
  "st_code AUTOFSM_ST_INIT = 0"
| "st_code AUTOFSM_ST_CLIENT_INIT = 1"
| "st_code AUTOFSM_ST_BEGIN_TRANSACTION = 2"
| "st_code AUTOFSM_ST_TRANSACTION = 3"
| "st_code AUTOFSM_ST_READ_DATA = 4"
| "st_code AUTOFSM_ST_INVALID = 5"
| "st_code AUTOFSM_ST_DONE = 6"

fun ev_code :: "te_autofsm_event \<Rightarrow> nat" where
  "ev_code AUTOFSM_EV_TEST = 0"
| "ev_code AUTOFSM_EV_RSET = 1"
| "ev_code AUTOFSM_EV_HELO = 2"
| "ev_code AUTOFSM_EV_MAIL = 3"
| "ev_code AUTOFSM_EV_RCPT = 4"
| "ev_code AUTOFSM_EV_DATA = 5"
| "ev_code AUTOFSM_EV_READ = 6"
| "ev_code AUTOFSM_EV_END = 7"
| "ev_code AUTOFSM_EV_QUIT = 8"
| "ev_code AUTOFSM_EV_INVALID = 9"

lemma st_code_inj: "st_code s = st_code t \<longleftrightarrow> s = t"
  by (cases s; cases t) simp_all

lemma ev_code_inj: "ev_code s = ev_code t \<longleftrightarrow> s = t"
  by (cases s; cases t) simp_all

instantiation te_autofsm_state :: linorder
begin

definition less_eq_te_autofsm_state :: "te_autofsm_state \<Rightarrow> te_autofsm_state \<Rightarrow> bool" where
  "less_eq_te_autofsm_state s t \<longleftrightarrow> st_code s \<le> st_code t"

definition less_te_autofsm_state :: "te_autofsm_state \<Rightarrow> te_autofsm_state \<Rightarrow> bool" where
  "less_te_autofsm_state s t \<longleftrightarrow> st_code s < st_code t"

instance
  by standard (auto simp: less_eq_te_autofsm_state_def less_te_autofsm_state_def st_code_inj)

end

instantiation te_autofsm_event :: linorder
begin

definition less_eq_te_autofsm_event :: "te_autofsm_event \<Rightarrow> te_autofsm_event \<Rightarrow> bool" where
  "less_eq_te_autofsm_event s t \<longleftrightarrow> ev_code s \<le> ev_code t"

definition less_te_autofsm_event :: "te_autofsm_event \<Rightarrow> te_autofsm_event \<Rightarrow> bool" where
  "less_te_autofsm_event s t \<longleftrightarrow> ev_code s < ev_code t"

instance
  by standard (auto simp: less_eq_te_autofsm_event_def less_te_autofsm_event_def ev_code_inj)

end

datatype te_autofsm_trans =
    AUTOFSM_TR_BEGIN_TRANSACTION_HELO | AUTOFSM_TR_BEGIN_TRANSACTION_QUIT | AUTOFSM_TR_BEGIN_TRANSACTION_RCPT
  | AUTOFSM_TR_BEGIN_TRANSACTION_RSET | AUTOFSM_TR_BEGIN_TRANSACTION_TEST | AUTOFSM_TR_CLIENT_INIT_HELO
  | AUTOFSM_TR_CLIENT_INIT_MAIL | AUTOFSM_TR_CLIENT_INIT_QUIT | AUTOFSM_TR_CLIENT_INIT_RSET
  | AUTOFSM_TR_CLIENT_INIT_TEST | AUTOFSM_TR_INIT_HELO | AUTOFSM_TR_INIT_QUIT | AUTOFSM_TR_INIT_RSET
  | AUTOFSM_TR_INIT_TEST | AUTOFSM_TR_INVALID | AUTOFSM_TR_READ_DATA_END | AUTOFSM_TR_READ_DATA_READ
  | AUTOFSM_TR_TRANSACTION_DATA | AUTOFSM_TR_TRANSACTION_HELO | AUTOFSM_TR_TRANSACTION_QUIT
  | AUTOFSM_TR_TRANSACTION_RCPT | AUTOFSM_TR_TRANSACTION_RSET | AUTOFSM_TR_TRANSACTION_TEST

text \<open>\<open>autofsm_trans_table\<close>, indexed by the state and then by the event.\<close>

definition autofsm_trans_table :: "(te_autofsm_state \<times> te_autofsm_trans) list list" where
  "autofsm_trans_table =
   [ [ (AUTOFSM_ST_INIT, AUTOFSM_TR_INIT_TEST),
       (AUTOFSM_ST_INIT, AUTOFSM_TR_INIT_RSET),
       (AUTOFSM_ST_CLIENT_INIT, AUTOFSM_TR_INIT_HELO),
       (AUTOFSM_ST_INVALID, AUTOFSM_TR_INVALID),
       (AUTOFSM_ST_INVALID, AUTOFSM_TR_INVALID),
       (AUTOFSM_ST_INVALID, AUTOFSM_TR_INVALID),
       (AUTOFSM_ST_INVALID, AUTOFSM_TR_INVALID),
       (AUTOFSM_ST_INVALID, AUTOFSM_TR_INVALID),
       (AUTOFSM_ST_DONE, AUTOFSM_TR_INIT_QUIT) ],
     [ (AUTOFSM_ST_CLIENT_INIT, AUTOFSM_TR_CLIENT_INIT_TEST),
       (AUTOFSM_ST_INIT, AUTOFSM_TR_CLIENT_INIT_RSET),
       (AUTOFSM_ST_CLIENT_INIT, AUTOFSM_TR_CLIENT_INIT_HELO),
       (AUTOFSM_ST_BEGIN_TRANSACTION, AUTOFSM_TR_CLIENT_INIT_MAIL),
       (AUTOFSM_ST_INVALID, AUTOFSM_TR_INVALID),
       (AUTOFSM_ST_INVALID, AUTOFSM_TR_INVALID),
       (AUTOFSM_ST_INVALID, AUTOFSM_TR_INVALID),
       (AUTOFSM_ST_INVALID, AUTOFSM_TR_INVALID),
       (AUTOFSM_ST_DONE, AUTOFSM_TR_CLIENT_INIT_QUIT) ],
     [ (AUTOFSM_ST_BEGIN_TRANSACTION, AUTOFSM_TR_BEGIN_TRANSACTION_TEST),
       (AUTOFSM_ST_INIT, AUTOFSM_TR_BEGIN_TRANSACTION_RSET),
       (AUTOFSM_ST_CLIENT_INIT, AUTOFSM_TR_BEGIN_TRANSACTION_HELO),
       (AUTOFSM_ST_INVALID, AUTOFSM_TR_INVALID),
       (AUTOFSM_ST_TRANSACTION, AUTOFSM_TR_BEGIN_TRANSACTION_RCPT),
       (AUTOFSM_ST_INVALID, AUTOFSM_TR_INVALID),
       (AUTOFSM_ST_INVALID, AUTOFSM_TR_INVALID),
       (AUTOFSM_ST_INVALID, AUTOFSM_TR_INVALID),
       (AUTOFSM_ST_DONE, AUTOFSM_TR_BEGIN_TRANSACTION_QUIT) ],
     [ (AUTOFSM_ST_TRANSACTION, AUTOFSM_TR_TRANSACTION_TEST),
       (AUTOFSM_ST_INIT, AUTOFSM_TR_TRANSACTION_RSET),
       (AUTOFSM_ST_CLIENT_INIT, AUTOFSM_TR_TRANSACTION_HELO),
       (AUTOFSM_ST_INVALID, AUTOFSM_TR_INVALID),
       (AUTOFSM_ST_TRANSACTION, AUTOFSM_TR_TRANSACTION_RCPT),
       (AUTOFSM_ST_READ_DATA, AUTOFSM_TR_TRANSACTION_DATA),
       (AUTOFSM_ST_INVALID, AUTOFSM_TR_INVALID),
       (AUTOFSM_ST_INVALID, AUTOFSM_TR_INVALID),
       (AUTOFSM_ST_DONE, AUTOFSM_TR_TRANSACTION_QUIT) ],
     [ (AUTOFSM_ST_INVALID, AUTOFSM_TR_INVALID),
       (AUTOFSM_ST_INVALID, AUTOFSM_TR_INVALID),
       (AUTOFSM_ST_INVALID, AUTOFSM_TR_INVALID),
       (AUTOFSM_ST_INVALID, AUTOFSM_TR_INVALID),
       (AUTOFSM_ST_INVALID, AUTOFSM_TR_INVALID),
       (AUTOFSM_ST_INVALID, AUTOFSM_TR_INVALID),
       (AUTOFSM_ST_READ_DATA, AUTOFSM_TR_READ_DATA_READ),
       (AUTOFSM_ST_CLIENT_INIT, AUTOFSM_TR_READ_DATA_END),
       (AUTOFSM_ST_INVALID, AUTOFSM_TR_INVALID) ] ]"

text \<open>
  \<open>autofsm_step\<close>: the switch on the transition only holds the generated places for handlers,
  which are empty, so that the next state is the one of the table.
\<close>

definition autofsm_step :: "te_autofsm_state \<Rightarrow> te_autofsm_event \<Rightarrow> te_autofsm_state" where
  "autofsm_step state evt =
     (if AUTOFSM_ST_INVALID \<le> state then AUTOFSM_ST_INIT
      else if AUTOFSM_EV_INVALID \<le> evt then AUTOFSM_ST_INVALID
      else fst (autofsm_trans_table ! st_code state ! ev_code evt))"

section \<open>The definition file\<close>

text \<open>The \<open>transition\<close> clauses of \<open>smtp-states.def\<close>, in their order.\<close>

definition def_transitions :: "(te_autofsm_state \<times> te_autofsm_event \<times> te_autofsm_state) list" where
  "def_transitions =
   [(AUTOFSM_ST_INIT, AUTOFSM_EV_RSET, AUTOFSM_ST_INIT),
    (AUTOFSM_ST_INIT, AUTOFSM_EV_TEST, AUTOFSM_ST_INIT),
    (AUTOFSM_ST_INIT, AUTOFSM_EV_HELO, AUTOFSM_ST_CLIENT_INIT),
    (AUTOFSM_ST_CLIENT_INIT, AUTOFSM_EV_HELO, AUTOFSM_ST_CLIENT_INIT),
    (AUTOFSM_ST_CLIENT_INIT, AUTOFSM_EV_RSET, AUTOFSM_ST_INIT),
    (AUTOFSM_ST_CLIENT_INIT, AUTOFSM_EV_TEST, AUTOFSM_ST_CLIENT_INIT),
    (AUTOFSM_ST_CLIENT_INIT, AUTOFSM_EV_MAIL, AUTOFSM_ST_BEGIN_TRANSACTION),
    (AUTOFSM_ST_BEGIN_TRANSACTION, AUTOFSM_EV_HELO, AUTOFSM_ST_CLIENT_INIT),
    (AUTOFSM_ST_BEGIN_TRANSACTION, AUTOFSM_EV_RSET, AUTOFSM_ST_INIT),
    (AUTOFSM_ST_BEGIN_TRANSACTION, AUTOFSM_EV_TEST, AUTOFSM_ST_BEGIN_TRANSACTION),
    (AUTOFSM_ST_BEGIN_TRANSACTION, AUTOFSM_EV_RCPT, AUTOFSM_ST_TRANSACTION),
    (AUTOFSM_ST_TRANSACTION, AUTOFSM_EV_HELO, AUTOFSM_ST_CLIENT_INIT),
    (AUTOFSM_ST_TRANSACTION, AUTOFSM_EV_RSET, AUTOFSM_ST_INIT),
    (AUTOFSM_ST_TRANSACTION, AUTOFSM_EV_TEST, AUTOFSM_ST_TRANSACTION),
    (AUTOFSM_ST_TRANSACTION, AUTOFSM_EV_RCPT, AUTOFSM_ST_TRANSACTION),
    (AUTOFSM_ST_TRANSACTION, AUTOFSM_EV_DATA, AUTOFSM_ST_READ_DATA),
    (AUTOFSM_ST_READ_DATA, AUTOFSM_EV_READ, AUTOFSM_ST_READ_DATA),
    (AUTOFSM_ST_READ_DATA, AUTOFSM_EV_END, AUTOFSM_ST_CLIENT_INIT),
    (AUTOFSM_ST_INIT, AUTOFSM_EV_QUIT, AUTOFSM_ST_DONE),
    (AUTOFSM_ST_CLIENT_INIT, AUTOFSM_EV_QUIT, AUTOFSM_ST_DONE),
    (AUTOFSM_ST_BEGIN_TRANSACTION, AUTOFSM_EV_QUIT, AUTOFSM_ST_DONE),
    (AUTOFSM_ST_TRANSACTION, AUTOFSM_EV_QUIT, AUTOFSM_ST_DONE)]"

lemma step_terminal [simp]:
  "autofsm_step AUTOFSM_ST_INVALID e = AUTOFSM_ST_INIT" "autofsm_step AUTOFSM_ST_DONE e = AUTOFSM_ST_INIT"
  by (simp_all add: autofsm_step_def less_eq_te_autofsm_state_def)

lemma step_table:
  "st_code s < 5 \<Longrightarrow> autofsm_step s e =
     (if e = AUTOFSM_EV_INVALID then AUTOFSM_ST_INVALID else fst (autofsm_trans_table ! st_code s ! ev_code e))"
  by (cases e) (simp_all add: autofsm_step_def less_eq_te_autofsm_state_def less_eq_te_autofsm_event_def)

lemma step_INIT [simp]:
  "autofsm_step AUTOFSM_ST_INIT e =
     (case e of AUTOFSM_EV_TEST \<Rightarrow> AUTOFSM_ST_INIT | AUTOFSM_EV_RSET \<Rightarrow> AUTOFSM_ST_INIT
      | AUTOFSM_EV_HELO \<Rightarrow> AUTOFSM_ST_CLIENT_INIT | AUTOFSM_EV_QUIT \<Rightarrow> AUTOFSM_ST_DONE | _ \<Rightarrow> AUTOFSM_ST_INVALID)"
  by (cases e) (simp_all add: step_table autofsm_trans_table_def)

lemma step_CLIENT_INIT [simp]:
  "autofsm_step AUTOFSM_ST_CLIENT_INIT e =
     (case e of AUTOFSM_EV_TEST \<Rightarrow> AUTOFSM_ST_CLIENT_INIT | AUTOFSM_EV_RSET \<Rightarrow> AUTOFSM_ST_INIT
      | AUTOFSM_EV_HELO \<Rightarrow> AUTOFSM_ST_CLIENT_INIT | AUTOFSM_EV_MAIL \<Rightarrow> AUTOFSM_ST_BEGIN_TRANSACTION
      | AUTOFSM_EV_QUIT \<Rightarrow> AUTOFSM_ST_DONE | _ \<Rightarrow> AUTOFSM_ST_INVALID)"
  by (cases e) (simp_all add: step_table autofsm_trans_table_def)

lemma step_BEGIN_TRANSACTION [simp]:
  "autofsm_step AUTOFSM_ST_BEGIN_TRANSACTION e =
     (case e of AUTOFSM_EV_TEST \<Rightarrow> AUTOFSM_ST_BEGIN_TRANSACTION | AUTOFSM_EV_RSET \<Rightarrow> AUTOFSM_ST_INIT
      | AUTOFSM_EV_HELO \<Rightarrow> AUTOFSM_ST_CLIENT_INIT | AUTOFSM_EV_RCPT \<Rightarrow> AUTOFSM_ST_TRANSACTION
      | AUTOFSM_EV_QUIT \<Rightarrow> AUTOFSM_ST_DONE | _ \<Rightarrow> AUTOFSM_ST_INVALID)"
  by (cases e) (simp_all add: step_table autofsm_trans_table_def)

lemma step_TRANSACTION [simp]:
  "autofsm_step AUTOFSM_ST_TRANSACTION e =
     (case e of AUTOFSM_EV_TEST \<Rightarrow> AUTOFSM_ST_TRANSACTION | AUTOFSM_EV_RSET \<Rightarrow> AUTOFSM_ST_INIT
      | AUTOFSM_EV_HELO \<Rightarrow> AUTOFSM_ST_CLIENT_INIT | AUTOFSM_EV_RCPT \<Rightarrow> AUTOFSM_ST_TRANSACTION
      | AUTOFSM_EV_DATA \<Rightarrow> AUTOFSM_ST_READ_DATA | AUTOFSM_EV_QUIT \<Rightarrow> AUTOFSM_ST_DONE | _ \<Rightarrow> AUTOFSM_ST_INVALID)"
  by (cases e) (simp_all add: step_table autofsm_trans_table_def)

lemma step_READ_DATA [simp]:
  "autofsm_step AUTOFSM_ST_READ_DATA e =
     (case e of AUTOFSM_EV_READ \<Rightarrow> AUTOFSM_ST_READ_DATA | AUTOFSM_EV_END \<Rightarrow> AUTOFSM_ST_CLIENT_INIT | _ \<Rightarrow> AUTOFSM_ST_INVALID)"
  by (cases e) (simp_all add: step_table autofsm_trans_table_def)

section \<open>Accepted sequences of events\<close>

text \<open>
  A run of the automaton the way \<open>smtp_parse\<close> uses it: an event without a transition leaves the
  state alone and is not part of the run, and a run ends in DONE.
\<close>

inductive fsm_run :: "te_autofsm_event list \<Rightarrow> te_autofsm_state \<Rightarrow> bool" where
  run_start: "fsm_run [] AUTOFSM_ST_INIT"
| run_step: "fsm_run es s \<Longrightarrow> s \<noteq> AUTOFSM_ST_DONE \<Longrightarrow> autofsm_step s e \<noteq> AUTOFSM_ST_INVALID \<Longrightarrow>
             fsm_run (es @ [e]) (autofsm_step s e)"

inductive_simps fsm_run_Nil: "fsm_run [] s"
inductive_cases fsm_run_snocE: "fsm_run (es @ [e]) s"

text \<open>The events a client must have got through before a state is reached.\<close>

fun needed :: "te_autofsm_state \<Rightarrow> te_autofsm_event list" where
  "needed AUTOFSM_ST_CLIENT_INIT = [AUTOFSM_EV_HELO]"
| "needed AUTOFSM_ST_BEGIN_TRANSACTION = [AUTOFSM_EV_HELO, AUTOFSM_EV_MAIL]"
| "needed AUTOFSM_ST_TRANSACTION = [AUTOFSM_EV_HELO, AUTOFSM_EV_MAIL, AUTOFSM_EV_RCPT]"
| "needed AUTOFSM_ST_READ_DATA = [AUTOFSM_EV_HELO, AUTOFSM_EV_MAIL, AUTOFSM_EV_RCPT, AUTOFSM_EV_DATA]"
| "needed _ = []"

lemma needed_step:
  assumes "s \<noteq> AUTOFSM_ST_DONE" "s \<noteq> AUTOFSM_ST_INVALID" "autofsm_step s e \<noteq> AUTOFSM_ST_INVALID"
  shows "subseq (needed (autofsm_step s e)) (needed s @ [e])"
  using assms by (cases s; cases e; simp)

lemma fsm_run_needed: "fsm_run es s \<Longrightarrow> s \<noteq> AUTOFSM_ST_INVALID \<and> subseq (needed s) es"
proof (induction rule: fsm_run.induct)
  case run_start
  then show ?case by simp
next
  case (run_step es s e)
  then have "subseq (needed (autofsm_step s e)) (needed s @ [e])" by (intro needed_step) auto
  also have "subseq (needed s @ [e]) (es @ [e])" using run_step.IH by simp
  finally show ?case using run_step.hyps by simp
qed

section \<open>Properties\<close>

text \<open>
  C38: The generated table implements the definition file: from every state that is not terminal,
  every event leads to the state its \<open>transition\<close> clause names, and to INVALID when there is no
  clause; a terminal state (DONE after QUIT, or INVALID) restarts in INIT whatever the event.
\<close>

theorem autofsm_step_implements_def:
  "autofsm_step s e =
     (if s \<in> {AUTOFSM_ST_INVALID, AUTOFSM_ST_DONE} then AUTOFSM_ST_INIT
      else (case map_of (map (\<lambda>(t, v, n). ((t, v), n)) def_transitions) (s, e) of
              Some n \<Rightarrow> n | None \<Rightarrow> AUTOFSM_ST_INVALID))"
  by (cases s; cases e; simp add: def_transitions_def)

text \<open>
  C39: The mail text is only read after a complete envelope: every accepted sequence of commands
  that leads from the start to READ_DATA contains HELO, MAIL, RCPT and DATA in this order.
\<close>

theorem data_needs_envelope:
  assumes "fsm_run es AUTOFSM_ST_READ_DATA"
  shows "subseq [AUTOFSM_EV_HELO, AUTOFSM_EV_MAIL, AUTOFSM_EV_RCPT, AUTOFSM_EV_DATA] es"
  using fsm_run_needed [OF assms] by simp

theorem data_needs_envelope_witness:
  "subseq [AUTOFSM_EV_HELO, AUTOFSM_EV_MAIL, AUTOFSM_EV_RCPT, AUTOFSM_EV_DATA]
     [AUTOFSM_EV_HELO, AUTOFSM_EV_TEST, AUTOFSM_EV_MAIL, AUTOFSM_EV_RCPT, AUTOFSM_EV_DATA]"
proof (rule data_needs_envelope)
  have 1: "fsm_run [AUTOFSM_EV_HELO] AUTOFSM_ST_CLIENT_INIT"
    using run_step [OF run_start, of AUTOFSM_EV_HELO] by simp
  have 2: "fsm_run [AUTOFSM_EV_HELO, AUTOFSM_EV_TEST] AUTOFSM_ST_CLIENT_INIT"
    using run_step [OF 1, of AUTOFSM_EV_TEST] by simp
  have 3: "fsm_run [AUTOFSM_EV_HELO, AUTOFSM_EV_TEST, AUTOFSM_EV_MAIL] AUTOFSM_ST_BEGIN_TRANSACTION"
    using run_step [OF 2, of AUTOFSM_EV_MAIL] by simp
  have 4: "fsm_run [AUTOFSM_EV_HELO, AUTOFSM_EV_TEST, AUTOFSM_EV_MAIL, AUTOFSM_EV_RCPT] AUTOFSM_ST_TRANSACTION"
    using run_step [OF 3, of AUTOFSM_EV_RCPT] by simp
  show "fsm_run [AUTOFSM_EV_HELO, AUTOFSM_EV_TEST, AUTOFSM_EV_MAIL, AUTOFSM_EV_RCPT, AUTOFSM_EV_DATA] AUTOFSM_ST_READ_DATA"
    using run_step [OF 4, of AUTOFSM_EV_DATA] by simp
qed

end
