(* ===== verification/Smtp.thy ===== *)
theory Smtp
  imports Vectors Regex Fsm
begin

text \<open>
  The SMTP engine \<open>server/src/lib/smtp/state.c\<close>: the per-connection state, the command parser,
  the command handlers and \<open>smtp_parse\<close>, which takes one line. The reply and the trimmed command
  share one buffer, \<open>pr_buffer\<close>. Allocations succeed (the code tests none of them here); releases
  have no effect on the model, except that a released pointer is set to null where the code does.
\<close>

record smtp_mailbox =
  user_name :: "string ptr"
  server_name :: "string ptr"

definition zero_mailbox :: smtp_mailbox where
  "zero_mailbox = \<lparr>user_name = NULL, server_name = NULL\<rparr>"

datatype smtp_address_type =
    SMTP_ADDRESS_TYPE_IPv4 | SMTP_ADDRESS_TYPE_IPv6 | SMTP_ADDRESS_TYPE_DOMAIN | SMTP_ADDRESS_TYPE_NONE

record smtp_address =
  addr_address :: "string ptr"
  addr_type :: smtp_address_type

datatype smtp_status =
    SMTP_STATUS_ERROR | SMTP_STATUS_OK | SMTP_STATUS_WARNING | SMTP_STATUS_CONTINUE
  | SMTP_STATUS_DATA_END | SMTP_STATUS_EXIT

record smtp_state =
  pr_fsm_state :: te_autofsm_state
  pr_rcpt_list :: "smtp_mailbox vector"
  pr_mail_from :: "smtp_mailbox ptr"
  pr_hello_addr :: "smtp_address ptr"
  pr_mail_data :: "char vector"
  pr_buffer :: "string ptr"
  pr_bsize :: nat
  pr_status :: smtp_status

datatype smtp_command_type =
    SMTP_HELLO | SMTP_MAILFROM | SMTP_RCPTTO | SMTP_DATA | SMTP_RSET | SMTP_VRFY | SMTP_EXPN
  | SMTP_HELP | SMTP_NOOP | SMTP_QUIT | SMTP_INVALID_COMMAND

text \<open>The \<open>void *arg\<close> of a command is null, an address or a mailbox.\<close>

datatype smtp_arg = ArgNull | ArgAddress smtp_address | ArgMailbox smtp_mailbox

record smtp_command =
  cmd_status :: bool
  cmd_type :: smtp_command_type
  cmd_event :: te_autofsm_event
  cmd_arg :: smtp_arg

fun arg_address :: "smtp_arg \<Rightarrow> smtp_address ptr ub" where
  "arg_address ArgNull = Some NULL" | "arg_address (ArgAddress a) = Some (Some a)" | "arg_address (ArgMailbox _) = UB"

fun arg_mailbox :: "smtp_arg \<Rightarrow> smtp_mailbox ptr ub" where
  "arg_mailbox ArgNull = Some NULL" | "arg_mailbox (ArgMailbox m) = Some (Some m)" | "arg_mailbox (ArgAddress _) = UB"

definition SMTP_START_BUFFER_SIZE :: nat where "SMTP_START_BUFFER_SIZE = 1024"
definition SMTP_DATA_END :: string where "SMTP_DATA_END = ''.'' @ SMTP_COMMAND_END"
definition SMTP_MAILBOX_SEP :: char where "SMTP_MAILBOX_SEP = CHR ''@''"
definition SMTP_DESCRIPTOR_IS_NULL :: string where "SMTP_DESCRIPTOR_IS_NULL = ''pointer of smtp_state is null''"
definition SMTP_MESSAGE_IS_NULL :: string where "SMTP_MESSAGE_IS_NULL = ''pointer of smtp message is null''"

section \<open>Replies\<close>

definition SMTP_CODE_CLOSE_CONNECTION_MSG :: string where
  "SMTP_CODE_CLOSE_CONNECTION_MSG = ''Service closing transmission channel''"
definition SMTP_CODE_OK_MSG :: string where "SMTP_CODE_OK_MSG = ''Requested mail action okay, completed''"
definition SMTP_CODE_MAIL_INPUT_MSG :: string where "SMTP_CODE_MAIL_INPUT_MSG = ''Start mail input; end with <CRLF>.<CRLF>''"
definition SMTP_CODE_CLOSE_CONNECTION_BY_TIMEOUT_MSG :: string where
  "SMTP_CODE_CLOSE_CONNECTION_BY_TIMEOUT_MSG = ''timeout error; close connection''"
definition SMTP_CODE_ERROR_IN_PROCESSING_MSG :: string where
  "SMTP_CODE_ERROR_IN_PROCESSING_MSG = ''Requested action aborted: error in processing''"
definition SMTP_CODE_SYNTAX_ERROR_MSG :: string where "SMTP_CODE_SYNTAX_ERROR_MSG = ''Syntax error, command unrecognized''"
definition SMTP_CODE_INVALID_ARGUMENT_MSG :: string where "SMTP_CODE_INVALID_ARGUMENT_MSG = ''Invalid argument: ''"
definition SMTP_CODE_COMMAND_NOT_IMPLEMENTED_MSG :: string where
  "SMTP_CODE_COMMAND_NOT_IMPLEMENTED_MSG = ''Command not implemented''"
definition SMTP_CODE_INVALID_SEQUENCE_MSG :: string where "SMTP_CODE_INVALID_SEQUENCE_MSG = ''Bad sequence of commands''"
definition HELLO_FORMAT_MSG :: string where
  "HELLO_FORMAT_MSG = SMTP_CODE_INVALID_ARGUMENT_MSG @ '' Expected format <domain> or '' @ [CHR 0x27] @ ''['' @ [CHR 0x27] @ ''<ip>'' @ [CHR 0x27] @ '']'' @ [CHR 0x27]"

text \<open>\<open>char code_str[5]\<close> holds four digits and the terminator.\<close>

definition smtp_make_response :: "smtp_state \<Rightarrow> nat \<Rightarrow> string \<Rightarrow> smtp_state ub" where
  "smtp_make_response smtp code msg =
     (if length (dec_string code) \<ge> 5 then UB
      else do {
        (b, n, _) \<leftarrow> char_make_buf_concat True (pr_buffer smtp) (pr_bsize smtp) 4
                     [dec_string code, '' '', msg, SMTP_COMMAND_END];
        Some (smtp\<lparr>pr_buffer := b, pr_bsize := n\<rparr>)
      })"

section \<open>Life cycle\<close>

definition smtp_init :: "smtp_state ptr \<Rightarrow> err_ptr \<Rightarrow> smtp_state ptr \<times> bool \<times> err_ptr" where
  "smtp_init smtp error =
     (case smtp of
        NULL \<Rightarrow> (NULL, False, err_report FATAL SMTP_DESCRIPTOR_IS_NULL error)
      | Some s \<Rightarrow>
          let error1 = ERROR_SUCCESS error;
              s1 = s\<lparr>pr_fsm_state := AUTOFSM_ST_INIT\<rparr>
          in case VECTOR_INIT True zero_mailbox (Some (pr_rcpt_list s1)) err_fresh of
               (v, err) \<Rightarrow>
                 let s2 = s1\<lparr>pr_rcpt_list := the v\<rparr> in
                 if failed err then (Some s2, False, err_assign err error1)
                 else let s3 = s2\<lparr>pr_hello_addr := NULL, pr_mail_from := NULL\<rparr> in
                      case VECTOR_INIT True NUL (Some (pr_mail_data s3)) err of
                        (w, err') \<Rightarrow>
                          let s4 = s3\<lparr>pr_mail_data := the w\<rparr> in
                          if failed err' then (Some s4, False, err_assign err' error1)
                          else (Some (s4\<lparr>pr_buffer := mem_alloc SMTP_START_BUFFER_SIZE, pr_bsize := SMTP_START_BUFFER_SIZE\<rparr>),
                                True, error1))"

text \<open>The names of the first \<open>size\<close> recipients are released and set to null.\<close>

definition pr_smtp_rcpt_list_free :: "smtp_mailbox vector \<Rightarrow> smtp_mailbox vector ub" where
  "pr_smtp_rcpt_list_free v =
     (if v_size v = 0 then Some v
      else case v_array v of
             NULL \<Rightarrow> UB
           | Some cells \<Rightarrow>
               if v_size v \<le> length cells
               then Some (v\<lparr>v_array := Some (replicate (v_size v) zero_mailbox @ drop (v_size v) cells)\<rparr>)
               else UB)"

definition pr_smtp_buffers_free :: "smtp_state \<Rightarrow> smtp_state ub" where
  "pr_smtp_buffers_free smtp =
     do {
       rcpts \<leftarrow> pr_smtp_rcpt_list_free (pr_rcpt_list smtp);
       Some (smtp\<lparr>pr_rcpt_list := rcpts, pr_hello_addr := NULL, pr_mail_from := NULL, pr_buffer := NULL, pr_bsize := 0\<rparr>)
     }"

definition smtp_free :: "smtp_state ptr \<Rightarrow> smtp_state ptr ub" where
  "smtp_free smtp =
     (case smtp of
        NULL \<Rightarrow> Some NULL
      | Some s \<Rightarrow>
          do {
            s1 \<leftarrow> pr_smtp_buffers_free s;
            Some (Some (s1\<lparr>pr_rcpt_list := the (VECTOR_FREE (Some (pr_rcpt_list s1))),
                           pr_mail_data := the (VECTOR_FREE (Some (pr_mail_data s1)))\<rparr>))
          })"

section \<open>The command parser\<close>

definition pr_smtp_hello_proc :: "string \<Rightarrow> smtp_command ub" where
  "pr_smtp_hello_proc buff =
     (let command = \<lparr>cmd_status = True, cmd_type = SMTP_HELLO, cmd_event = AUTOFSM_EV_HELO, cmd_arg = ArgNull\<rparr> in
      case regexec RE_ADDRESS_LITERAL buff of
        Some (so, eo) \<Rightarrow>
          do {
            b \<leftarrow> sub_str buff (mem_alloc ((eo - so + 1) - 2)) (so + 1) (eo - 1);
            a \<leftarrow> c_str b;
            Some (command\<lparr>cmd_arg := ArgAddress \<lparr>addr_address = Some a, addr_type = SMTP_ADDRESS_TYPE_IPv4\<rparr>\<rparr>)
          }
      | None \<Rightarrow>
          (case regexec RE_DOMAIN buff of
             Some (so, eo) \<Rightarrow>
               do {
                 b \<leftarrow> sub_str buff (mem_alloc (eo - so + 1)) so eo;
                 a \<leftarrow> c_str b;
                 Some (command\<lparr>cmd_arg := ArgAddress \<lparr>addr_address = Some a, addr_type = SMTP_ADDRESS_TYPE_DOMAIN\<rparr>\<rparr>)
               }
           | None \<Rightarrow> Some (command\<lparr>cmd_arg := ArgNull, cmd_status := False\<rparr>)))"

text \<open>The two pieces of a mailbox, from \<open>char *split[2]\<close>.\<close>

definition split_mailbox :: "string \<Rightarrow> nat \<Rightarrow> nat \<Rightarrow> smtp_mailbox ub" where
  "split_mailbox buff so eo =
     do {
       (arr, _) \<leftarrow> split_sub_str (Some buff) (int so) (int eo) (Some [NULL, NULL]) 2 SMTP_MAILBOX_SEP;
       a \<leftarrow> arr;
       p \<leftarrow> arr_get a 0;
       q \<leftarrow> arr_get a 1;
       u \<leftarrow> c_str p;
       d \<leftarrow> c_str q;
       Some \<lparr>user_name = Some u, server_name = Some d\<rparr>
     }"

definition pr_smtp_mailfrom_proc :: "string \<Rightarrow> smtp_command ub" where
  "pr_smtp_mailfrom_proc buff =
     (let command = \<lparr>cmd_status = True, cmd_type = SMTP_MAILFROM, cmd_event = AUTOFSM_EV_MAIL, cmd_arg = ArgNull\<rparr> in
      if regexec RE_PATH buff \<noteq> None then
        (case regexec RE_MAILBOX buff of
           Some (so, eo) \<Rightarrow> do { m \<leftarrow> split_mailbox buff so eo; Some (command\<lparr>cmd_arg := ArgMailbox m\<rparr>) }
         | None \<Rightarrow> UB)
      else if regexec RE_EMPTY_PATH buff \<noteq> None then Some (command\<lparr>cmd_status := True\<rparr>)
      else Some (command\<lparr>cmd_status := False\<rparr>))"

text \<open>
  \<open>pr_smtp_reg_postmaster\<close> is compiled from \<open>RE_PATH\<close>. Its branch would copy characters over the
  two pointers of the mailbox structure, which is undefined.
\<close>

definition pr_smtp_rcptto_proc :: "string \<Rightarrow> smtp_command ub" where
  "pr_smtp_rcptto_proc buff =
     (let command = \<lparr>cmd_status = True, cmd_type = SMTP_RCPTTO, cmd_event = AUTOFSM_EV_RCPT, cmd_arg = ArgNull\<rparr> in
      if regexec RE_PATH buff \<noteq> None then
        (case regexec RE_MAILBOX buff of
           Some (so, eo) \<Rightarrow> do { m \<leftarrow> split_mailbox buff so eo; Some (command\<lparr>cmd_arg := ArgMailbox m\<rparr>) }
         | None \<Rightarrow> if regexec RE_PATH buff \<noteq> None then UB else Some (command\<lparr>cmd_status := False\<rparr>))
      else Some (command\<lparr>cmd_status := False\<rparr>))"

definition plain_command :: "smtp_command_type \<Rightarrow> te_autofsm_event \<Rightarrow> smtp_command" where
  "plain_command type event = \<lparr>cmd_status = True, cmd_type = type, cmd_event = event, cmd_arg = ArgNull\<rparr>"

definition pr_smtp_data_proc where "pr_smtp_data_proc = plain_command SMTP_DATA AUTOFSM_EV_DATA"
definition pr_smtp_rset_proc where "pr_smtp_rset_proc = plain_command SMTP_RSET AUTOFSM_EV_RSET"
definition pr_smtp_vrfy_proc where "pr_smtp_vrfy_proc = plain_command SMTP_VRFY AUTOFSM_EV_TEST"
definition pr_smtp_expn_proc where "pr_smtp_expn_proc = plain_command SMTP_EXPN AUTOFSM_EV_TEST"
definition pr_smtp_help_proc where "pr_smtp_help_proc = plain_command SMTP_HELP AUTOFSM_EV_TEST"
definition pr_smtp_noop_proc where "pr_smtp_noop_proc = plain_command SMTP_NOOP AUTOFSM_EV_TEST"
definition pr_smtp_quit_proc where "pr_smtp_quit_proc = plain_command SMTP_QUIT AUTOFSM_EV_QUIT"

text \<open>The chain of \<open>regexec\<close> tests on the trimmed command, each unanchored.\<close>

definition command_of :: "string \<Rightarrow> smtp_command ub" where
  "command_of buff =
     (case regexec RE_HELLO buff of Some (_, eo) \<Rightarrow> pr_smtp_hello_proc (drop eo buff) | None \<Rightarrow>
     (case regexec RE_MAIL_FROM buff of Some (_, eo) \<Rightarrow> pr_smtp_mailfrom_proc (drop eo buff) | None \<Rightarrow>
     (case regexec RE_RCPT_TO buff of Some (_, eo) \<Rightarrow> pr_smtp_rcptto_proc (drop eo buff) | None \<Rightarrow>
      Some (if regexec RE_DATA buff \<noteq> None then pr_smtp_data_proc
            else if regexec RE_RSET buff \<noteq> None then pr_smtp_rset_proc
            else if regexec RE_VRFY buff \<noteq> None then pr_smtp_vrfy_proc
            else if regexec RE_EXPN buff \<noteq> None then pr_smtp_expn_proc
            else if regexec RE_HELP buff \<noteq> None then pr_smtp_help_proc
            else if regexec RE_NOOP buff \<noteq> None then pr_smtp_noop_proc
            else if regexec RE_QUIT buff \<noteq> None then pr_smtp_quit_proc
            else \<lparr>cmd_status = False, cmd_type = SMTP_INVALID_COMMAND, cmd_event = AUTOFSM_EV_INVALID, cmd_arg = ArgNull\<rparr>))))"

definition pr_smtp_command_parse :: "smtp_state \<Rightarrow> string \<Rightarrow> (smtp_state \<times> smtp_command) ub" where
  "pr_smtp_command_parse smtp message =
     do {
       (b, n, _) \<leftarrow> trim_str message (pr_buffer smtp) (length message) (pr_bsize smtp);
       buff \<leftarrow> c_str b;
       command \<leftarrow> command_of buff;
       Some (smtp\<lparr>pr_buffer := b, pr_bsize := n\<rparr>, command)
     }"

section \<open>The command handlers\<close>

definition pr_smtp_command_hello :: "smtp_state \<Rightarrow> smtp_command \<Rightarrow> (smtp_state \<times> smtp_status) ub" where
  "pr_smtp_command_hello smtp command =
     (if cmd_status command then
        do {
          s \<leftarrow> smtp_make_response smtp 250 SMTP_CODE_OK_MSG;
          a \<leftarrow> arg_address (cmd_arg command);
          Some (s\<lparr>pr_hello_addr := a\<rparr>, SMTP_STATUS_OK)
        }
      else do { s \<leftarrow> smtp_make_response smtp 501 HELLO_FORMAT_MSG; Some (s, SMTP_STATUS_WARNING) })"

definition pr_smtp_command_mailfrom :: "smtp_state \<Rightarrow> smtp_command \<Rightarrow> (smtp_state \<times> smtp_status) ub" where
  "pr_smtp_command_mailfrom smtp command =
     (if cmd_status command then
        do {
          rcpts \<leftarrow> pr_smtp_rcpt_list_free (pr_rcpt_list smtp);
          m \<leftarrow> arg_mailbox (cmd_arg command);
          s \<leftarrow> smtp_make_response
                 (smtp\<lparr>pr_rcpt_list := VECTOR_CLEAR rcpts, pr_mail_data := VECTOR_CLEAR (pr_mail_data smtp), pr_mail_from := m\<rparr>)
                 250 SMTP_CODE_OK_MSG;
          Some (s, SMTP_STATUS_OK)
        }
      else do { s \<leftarrow> smtp_make_response smtp 501 SMTP_CODE_INVALID_ARGUMENT_MSG; Some (s, SMTP_STATUS_WARNING) })"

definition pr_smtp_command_rcpto :: "smtp_state \<Rightarrow> smtp_command \<Rightarrow> (smtp_state \<times> smtp_status) ub" where
  "pr_smtp_command_rcpto smtp command =
     (if cmd_status command then
        do {
          s \<leftarrow> smtp_make_response smtp 250 SMTP_CODE_OK_MSG;
          rcpt \<leftarrow> arg_mailbox (cmd_arg command);
          m \<leftarrow> rcpt;
          v \<leftarrow> vec_push zero_mailbox (pr_rcpt_list s) m;
          Some (s\<lparr>pr_rcpt_list := v\<rparr>, SMTP_STATUS_OK)
        }
      else do { s \<leftarrow> smtp_make_response smtp 501 SMTP_CODE_INVALID_ARGUMENT_MSG; Some (s, SMTP_STATUS_WARNING) })"

definition pr_smtp_command_data :: "smtp_state \<Rightarrow> (smtp_state \<times> smtp_status) ub" where
  "pr_smtp_command_data smtp =
     do { s \<leftarrow> smtp_make_response smtp 354 SMTP_CODE_MAIL_INPUT_MSG; Some (s, SMTP_STATUS_OK) }"

definition pr_smtp_command_rset :: "smtp_state \<Rightarrow> (smtp_state \<times> smtp_status) ub" where
  "pr_smtp_command_rset smtp =
     do {
       s1 \<leftarrow> pr_smtp_buffers_free smtp;
       s2 \<leftarrow> smtp_make_response
               (s1\<lparr>pr_rcpt_list := VECTOR_CLEAR (pr_rcpt_list s1), pr_mail_data := VECTOR_CLEAR (pr_mail_data s1)\<rparr>)
               250 SMTP_CODE_OK_MSG;
       Some (s2, SMTP_STATUS_OK)
     }"

text \<open>The dispatch on the type of an accepted command.\<close>

definition run_command :: "smtp_state \<Rightarrow> smtp_command \<Rightarrow> (smtp_state \<times> smtp_status) ub" where
  "run_command smtp command =
     (if cmd_type command = SMTP_HELLO then pr_smtp_command_hello smtp command
      else if cmd_type command = SMTP_MAILFROM then pr_smtp_command_mailfrom smtp command
      else if cmd_type command = SMTP_RCPTTO then pr_smtp_command_rcpto smtp command
      else if cmd_type command = SMTP_DATA then pr_smtp_command_data smtp
      else if cmd_type command = SMTP_RSET then pr_smtp_command_rset smtp
      else if cmd_type command = SMTP_QUIT then Some (smtp, SMTP_STATUS_EXIT)
      else if cmd_type command = SMTP_NOOP then
        do { s \<leftarrow> smtp_make_response smtp 250 SMTP_CODE_OK_MSG; Some (s, SMTP_STATUS_OK) }
      else if cmd_event command = AUTOFSM_EV_TEST then
        do { s \<leftarrow> smtp_make_response smtp 502 SMTP_CODE_COMMAND_NOT_IMPLEMENTED_MSG; Some (s, SMTP_STATUS_WARNING) }
      else Some (smtp, SMTP_STATUS_ERROR))"

definition parse_command_line :: "smtp_state \<Rightarrow> string \<Rightarrow> (smtp_state \<times> smtp_status) ub" where
  "parse_command_line smtp message =
     do {
       (s1, command) \<leftarrow> pr_smtp_command_parse smtp message;
       (if cmd_type command = SMTP_INVALID_COMMAND then
          do { s \<leftarrow> smtp_make_response s1 500 SMTP_CODE_SYNTAX_ERROR_MSG; Some (s, SMTP_STATUS_WARNING) }
        else
          do {
            let new_state = autofsm_step (pr_fsm_state s1) (cmd_event command);
            (s2, ret) \<leftarrow>
              (if new_state = AUTOFSM_ST_INVALID then
                 do { s \<leftarrow> smtp_make_response s1 503 SMTP_CODE_INVALID_SEQUENCE_MSG; Some (s, SMTP_STATUS_WARNING) }
               else run_command s1 command);
            Some (if new_state \<noteq> AUTOFSM_ST_INVALID then s2\<lparr>pr_fsm_state := new_state\<rparr> else s2, ret)
          })
     }"

definition parse_data_line :: "smtp_state \<Rightarrow> string \<Rightarrow> (smtp_state \<times> smtp_status) ub" where
  "parse_data_line smtp message =
     (if message = SMTP_DATA_END then
        do {
          s \<leftarrow> smtp_make_response (smtp\<lparr>pr_fsm_state := autofsm_step (pr_fsm_state smtp) AUTOFSM_EV_END\<rparr>) 250 SMTP_CODE_OK_MSG;
          Some (s, SMTP_STATUS_DATA_END)
        }
      else
        do {
          v \<leftarrow> run_inputs (vec_push NUL) (pr_mail_data smtp) message;
          Some (smtp\<lparr>pr_mail_data := v\<rparr>, SMTP_STATUS_CONTINUE)
        })"

text \<open>
  \<open>smtp_parse\<close>. The third component is what is stored through \<open>buffer_reply\<close>, if anything. The
  second null test names \<open>smtp\<close> again, so a null message is dereferenced.
\<close>

definition smtp_parse ::
    "smtp_state ptr \<Rightarrow> string ptr \<Rightarrow> err_ptr \<Rightarrow> (smtp_state ptr \<times> smtp_status \<times> string ptr option \<times> err_ptr) ub" where
  "smtp_parse smtp message error =
     (case smtp of
        NULL \<Rightarrow> Some (NULL, SMTP_STATUS_ERROR, None, err_report FATAL SMTP_DESCRIPTOR_IS_NULL error)
      | Some s \<Rightarrow>
          do {
            msg \<leftarrow> message;
            (s', ret) \<leftarrow> (if pr_fsm_state s \<noteq> AUTOFSM_ST_READ_DATA then parse_command_line s msg else parse_data_line s msg);
            Some (Some (s'\<lparr>pr_status := ret\<rparr>), ret, Some (pr_buffer s'), ERROR_SUCCESS error)
          })"

definition smtp_move_buffer :: "smtp_state \<Rightarrow> err_ptr \<Rightarrow> smtp_state \<times> string ptr \<times> nat \<times> bool \<times> err_ptr" where
  "smtp_move_buffer smtp error =
     (case VECTOR_INIT True NUL (Some (pr_mail_data smtp)) err_fresh of
        (v, _) \<Rightarrow>
          (smtp\<lparr>pr_mail_data := the v\<rparr>, v_array (pr_mail_data smtp), v_size (pr_mail_data smtp), True, ERROR_SUCCESS error))"

definition smtp_get_rcpt :: "smtp_state \<Rightarrow> smtp_mailbox vector" where "smtp_get_rcpt smtp = pr_rcpt_list smtp"
definition smtp_get_sender :: "smtp_state \<Rightarrow> smtp_mailbox ptr" where "smtp_get_sender smtp = pr_mail_from smtp"
definition smtp_get_status :: "smtp_state \<Rightarrow> smtp_status" where "smtp_get_status smtp = pr_status smtp"

definition smtp_get_hello_addr :: "smtp_state ptr \<Rightarrow> smtp_address" where
  "smtp_get_hello_addr smtp =
     (case smtp of
        NULL \<Rightarrow> \<lparr>addr_address = NULL, addr_type = SMTP_ADDRESS_TYPE_IPv4\<rparr>
      | Some s \<Rightarrow> (case pr_hello_addr s of
                    Some a \<Rightarrow> a
                  | NULL \<Rightarrow> \<lparr>addr_address = NULL, addr_type = SMTP_ADDRESS_TYPE_IPv4\<rparr>))"

section \<open>What the pieces do\<close>

definition reply :: "nat \<Rightarrow> string \<Rightarrow> string" where
  "reply code msg = dec_string code @ '' '' @ msg @ SMTP_COMMAND_END"

lemma c_string_msgs [simp]:
  "c_string SMTP_CODE_OK_MSG" "c_string SMTP_CODE_MAIL_INPUT_MSG" "c_string SMTP_CODE_SYNTAX_ERROR_MSG"
  "c_string SMTP_CODE_INVALID_ARGUMENT_MSG" "c_string SMTP_CODE_COMMAND_NOT_IMPLEMENTED_MSG"
  "c_string SMTP_CODE_INVALID_SEQUENCE_MSG" "c_string HELLO_FORMAT_MSG" "c_string SMTP_COMMAND_END"
  by (simp_all add: SMTP_CODE_OK_MSG_def SMTP_CODE_MAIL_INPUT_MSG_def SMTP_CODE_SYNTAX_ERROR_MSG_def
      SMTP_CODE_INVALID_ARGUMENT_MSG_def SMTP_CODE_COMMAND_NOT_IMPLEMENTED_MSG_def
      SMTP_CODE_INVALID_SEQUENCE_MSG_def HELLO_FORMAT_MSG_def SMTP_COMMAND_END_def NUL_def)

lemma c_string_dec_string [simp]: "c_string (dec_string n)"
  using set_dec_string [of n] by (auto simp: c_string_def digits_def NUL_def)

lemma length_dec_string_lt: "n < 1000 \<Longrightarrow> length (dec_string n) < 5"
  by (subst dec_string.simps, auto)+

lemma smtp_make_response_run:
  assumes "buf_ok (pr_buffer s) (pr_bsize s)" "c_string msg" "code < 1000"
  shows "\<exists>b n. smtp_make_response s code msg = Some (s\<lparr>pr_buffer := b, pr_bsize := n\<rparr>)
               \<and> buf_ok b n \<and> c_str b = Some (reply code msg)"
proof -
  let ?strs = "[dec_string code, '' '', msg, SMTP_COMMAND_END]"
  have c: "\<forall>t\<in>set ?strs. c_string t" using assms(2) by (simp add: NUL_def)
  obtain b n where "char_make_buf_concat True (pr_buffer s) (pr_bsize s) (length ?strs) ?strs = Some (b, n, True)"
    "buf_ok b n" "c_str b = Some (concat ?strs)"
    using char_make_buf_concat_run [OF assms(1) _ _ c] by auto
  moreover have "length ?strs = 4" by simp
  moreover have "\<not> 5 \<le> length (dec_string code)" using length_dec_string_lt [OF assms(3)] by simp
  ultimately show ?thesis by (simp only: smtp_make_response_def reply_def) (simp, blast)
qed

lemma smtp_make_responseE:
  assumes "buf_ok (pr_buffer s) (pr_bsize s)" "c_string msg" "code < 1000"
  obtains b n where "smtp_make_response s code msg = Some (s\<lparr>pr_buffer := b, pr_bsize := n\<rparr>)"
    "buf_ok b n" "c_str b = Some (reply code msg)"
  using smtp_make_response_run [OF assms] by blast

text \<open>The two halves of a mailbox.\<close>

definition mailbox_of :: "string \<Rightarrow> smtp_mailbox" where
  "mailbox_of w = \<lparr>user_name = Some (takeWhile (\<lambda>c. c \<noteq> CHR ''@'') w),
                   server_name = Some (tl (dropWhile (\<lambda>c. c \<noteq> CHR ''@'') w))\<rparr>"

lemma split_mailbox_run:
  assumes "c_string buff" "regexec RE_MAILBOX buff = Some (so, eo)"
  shows "split_mailbox buff so eo = Some (mailbox_of (segment so eo buff))"
proof -
  note m = regexec_Some [OF assms(2)]
  from m(4) obtain u d where w: "segment so eo buff = u @ CHR ''@'' # d" "\<forall>c\<in>set u. is_alnum c"
    by (rule lang_mailbox)
  have no: "\<forall>c\<in>set u. c \<noteq> CHR ''@''" using w(2) by auto
  have len: "eo - so = length u + 1 + length d"
    using arg_cong [OF w(1), of length] m(3) by simp
  let ?at = "so + length u"
  have at: "so \<le> ?at" "?at < eo" using len by auto
  have nth: "buff ! (so + j) = (u @ CHR ''@'' # d) ! j" if "j < eo - so" for j
  proof -
    have "segment so eo buff ! j = buff ! (so + j)" using that m(3) by (simp add: segment_def)
    then show ?thesis by (simp add: w(1))
  qed
  have sep: "buff ! ?at = CHR ''@''" using nth [of "length u"] len by simp
  have before: "\<forall>j. so \<le> j \<and> j < ?at \<longrightarrow> buff ! j \<noteq> CHR ''@''"
  proof (intro allI impI)
    fix j
    assume "so \<le> j \<and> j < ?at"
    then obtain k where k: "j = so + k" "k < length u" using le_Suc_ex by fastforce
    then have "buff ! j = u ! k" using nth [of k] len by (simp add: nth_append)
    then show "buff ! j \<noteq> CHR ''@''" using no k(2) by auto
  qed
  obtain d1 d2 where s: "split_sub_str (Some buff) (int so) (int eo) (Some [NULL, NULL]) 2 (CHR ''@'') = Some (Some [Some d1, Some d2], True)"
    "c_str (Some d1) = Some (segment so ?at buff)" "c_str (Some d2) = Some (segment (Suc ?at) eo buff)"
    using split_sub_str_pair [OF assms(1) at m(3) sep before] by blast
  have "segment so ?at buff = take (length u) (segment so eo buff)"
    using len by (simp add: segment_def)
  moreover have "segment (Suc ?at) eo buff = drop (Suc (length u)) (segment so eo buff)"
  proof -
    have "eo - Suc ?at = length d" "eo - so - Suc (length u) = length d" using len by arith+
    then show ?thesis by (simp add: segment_def drop_take add.commute)
  qed
  ultimately have "segment so ?at buff = u" "segment (Suc ?at) eo buff = d" by (simp_all add: w(1))
  moreover have "takeWhile (\<lambda>c. c \<noteq> CHR ''@'') (u @ CHR ''@'' # d) = u"
    "dropWhile (\<lambda>c. c \<noteq> CHR ''@'') (u @ CHR ''@'' # d) = CHR ''@'' # d"
    using no by (induction u) auto
  ultimately show ?thesis
    using s by (simp add: split_mailbox_def SMTP_MAILBOX_SEP_def arr_get_def mailbox_of_def w(1))
qed

text \<open>What the parser promises about a command: its event belongs to its type, its argument has the right kind.\<close>

fun event_of_type :: "smtp_command_type \<Rightarrow> te_autofsm_event" where
  "event_of_type SMTP_HELLO = AUTOFSM_EV_HELO"
| "event_of_type SMTP_MAILFROM = AUTOFSM_EV_MAIL"
| "event_of_type SMTP_RCPTTO = AUTOFSM_EV_RCPT"
| "event_of_type SMTP_DATA = AUTOFSM_EV_DATA"
| "event_of_type SMTP_RSET = AUTOFSM_EV_RSET"
| "event_of_type SMTP_QUIT = AUTOFSM_EV_QUIT"
| "event_of_type SMTP_INVALID_COMMAND = AUTOFSM_EV_INVALID"
| "event_of_type _ = AUTOFSM_EV_TEST"

definition full_mailbox :: "smtp_mailbox \<Rightarrow> bool" where
  "full_mailbox m \<longleftrightarrow> user_name m \<noteq> NULL \<and> server_name m \<noteq> NULL"

definition cmd_ok :: "smtp_command \<Rightarrow> bool" where
  "cmd_ok c \<longleftrightarrow> cmd_event c = event_of_type (cmd_type c) \<and>
     (case cmd_type c of
        SMTP_HELLO \<Rightarrow> (if cmd_status c then \<exists>a. cmd_arg c = ArgAddress a \<and> addr_address a \<noteq> NULL else cmd_arg c = ArgNull)
      | SMTP_MAILFROM \<Rightarrow> cmd_arg c = ArgNull \<or> (cmd_status c \<and> (\<exists>m. cmd_arg c = ArgMailbox m \<and> full_mailbox m))
      | SMTP_RCPTTO \<Rightarrow> (if cmd_status c then \<exists>m. cmd_arg c = ArgMailbox m \<and> full_mailbox m else cmd_arg c = ArgNull)
      | _ \<Rightarrow> cmd_arg c = ArgNull)"

lemma full_mailbox_of [simp]: "full_mailbox (mailbox_of w)"
  by (simp add: full_mailbox_def mailbox_of_def)

lemma hello_proc_ok:
  assumes "c_string buff"
  shows "\<exists>c. pr_smtp_hello_proc buff = Some c \<and> cmd_ok c \<and> cmd_type c = SMTP_HELLO"
proof (cases "regexec RE_ADDRESS_LITERAL buff")
  case (Some be)
  obtain so eo where be: "be = (so, eo)" by (cases be)
  note m = regexec_Some [OF Some [unfolded be]]
  from m(4) obtain a where a: "segment so eo buff = CHR ''['' # a @ [CHR '']'']" by (rule lang_address_literal)
  have len: "eo - so = length a + 2" using arg_cong [OF a, of length] m(3) by simp
  have "so + 1 \<le> eo - 1" "eo - 1 \<le> length buff" "eo - 1 - (so + 1) < (eo - so + 1) - 2"
    using len m(3) by auto
  then obtain d where "sub_str buff (mem_alloc ((eo - so + 1) - 2)) (so + 1) (eo - 1) = Some (Some d)"
    "c_str (Some d) = Some (segment (so + 1) (eo - 1) buff)"
    by (rule c_str_sub_str [OF _ _ _ assms])
  then show ?thesis using Some be by (simp add: pr_smtp_hello_proc_def Let_def cmd_ok_def)
next
  case None
  show ?thesis
  proof (cases "regexec RE_DOMAIN buff")
    case (Some be)
    obtain so eo where be: "be = (so, eo)" by (cases be)
    note m = regexec_Some [OF Some [unfolded be]]
    have "eo - so < eo - so + 1" by simp
    with m(2,3) obtain d where "sub_str buff (mem_alloc (eo - so + 1)) so eo = Some (Some d)"
      "c_str (Some d) = Some (segment so eo buff)"
      by (rule c_str_sub_str [OF _ _ _ assms])
    then show ?thesis using Some be None by (simp add: pr_smtp_hello_proc_def Let_def cmd_ok_def)
  next
    case None
    with \<open>regexec RE_ADDRESS_LITERAL buff = None\<close> show ?thesis
      by (simp add: pr_smtp_hello_proc_def Let_def cmd_ok_def)
  qed
qed

text \<open>\<open>MAIL FROM\<close> and \<open>RCPT TO\<close>: the mailbox is the leftmost one of the argument.\<close>

definition path_mailbox :: "string \<Rightarrow> smtp_mailbox" where
  "path_mailbox buff = (case regexec RE_MAILBOX buff of Some (so, eo) \<Rightarrow> mailbox_of (segment so eo buff) | None \<Rightarrow> zero_mailbox)"

lemma path_mailboxE:
  assumes "c_string buff" "regexec RE_PATH buff \<noteq> None"
  obtains so eo where "regexec RE_MAILBOX buff = Some (so, eo)" "split_mailbox buff so eo = Some (path_mailbox buff)"
    "full_mailbox (path_mailbox buff)"
proof -
  from path_has_mailbox [OF assms(2)] obtain so eo where m: "regexec RE_MAILBOX buff = Some (so, eo)" by auto
  with split_mailbox_run [OF assms(1) m] show thesis by (intro that) (simp_all add: path_mailbox_def)
qed

lemma mailfrom_proc_run:
  assumes "c_string buff"
  shows "pr_smtp_mailfrom_proc buff =
    Some \<lparr>cmd_status = (regexec RE_PATH buff \<noteq> None \<or> regexec RE_EMPTY_PATH buff \<noteq> None), cmd_type = SMTP_MAILFROM,
          cmd_event = AUTOFSM_EV_MAIL,
          cmd_arg = (if regexec RE_PATH buff \<noteq> None then ArgMailbox (path_mailbox buff) else ArgNull)\<rparr>"
proof (cases "regexec RE_PATH buff = None")
  case False
  with assms obtain so eo where "regexec RE_MAILBOX buff = Some (so, eo)" "split_mailbox buff so eo = Some (path_mailbox buff)"
    by (rule path_mailboxE)
  then show ?thesis using False by (simp add: pr_smtp_mailfrom_proc_def Let_def)
qed (simp add: pr_smtp_mailfrom_proc_def Let_def)

lemma rcptto_proc_run:
  assumes "c_string buff"
  shows "pr_smtp_rcptto_proc buff =
    Some \<lparr>cmd_status = (regexec RE_PATH buff \<noteq> None), cmd_type = SMTP_RCPTTO, cmd_event = AUTOFSM_EV_RCPT,
          cmd_arg = (if regexec RE_PATH buff \<noteq> None then ArgMailbox (path_mailbox buff) else ArgNull)\<rparr>"
proof (cases "regexec RE_PATH buff = None")
  case False
  with assms obtain so eo where "regexec RE_MAILBOX buff = Some (so, eo)" "split_mailbox buff so eo = Some (path_mailbox buff)"
    by (rule path_mailboxE)
  then show ?thesis using False by (simp add: pr_smtp_rcptto_proc_def Let_def)
qed (simp add: pr_smtp_rcptto_proc_def Let_def)

lemma c_string_drop: "c_string s \<Longrightarrow> c_string (drop n s)"
  using set_drop_subset by (fastforce simp: c_string_def)

lemma path_mailbox_full: "c_string buff \<Longrightarrow> regexec RE_PATH buff \<noteq> None \<Longrightarrow> full_mailbox (path_mailbox buff)"
  by (erule path_mailboxE)

lemma command_of_ok:
  assumes "c_string buff"
  shows "\<exists>c. command_of buff = Some c \<and> cmd_ok c"
proof -
  note drop = c_string_drop [OF assms]
  consider (hello) eo so where "regexec RE_HELLO buff = Some (so, eo)"
    | (mail) eo so where "regexec RE_HELLO buff = None" "regexec RE_MAIL_FROM buff = Some (so, eo)"
    | (rcpt) eo so where "regexec RE_HELLO buff = None" "regexec RE_MAIL_FROM buff = None" "regexec RE_RCPT_TO buff = Some (so, eo)"
    | (other) "regexec RE_HELLO buff = None" "regexec RE_MAIL_FROM buff = None" "regexec RE_RCPT_TO buff = None"
    by (metis option.exhaust surj_pair)
  then show ?thesis
  proof cases
    case hello
    then show ?thesis using hello_proc_ok [OF drop, of eo] by (auto simp: command_of_def)
  next
    case mail
    then show ?thesis using path_mailbox_full [OF drop, of eo]
      by (auto simp: command_of_def mailfrom_proc_run [OF drop] cmd_ok_def)
  next
    case rcpt
    then show ?thesis using path_mailbox_full [OF drop, of eo]
      by (auto simp: command_of_def rcptto_proc_run [OF drop] cmd_ok_def)
  next
    case other
    then show ?thesis
      by (simp add: command_of_def cmd_ok_def plain_command_def pr_smtp_data_proc_def pr_smtp_rset_proc_def
          pr_smtp_vrfy_proc_def pr_smtp_expn_proc_def pr_smtp_help_proc_def pr_smtp_noop_proc_def pr_smtp_quit_proc_def)
  qed
qed

section \<open>The invariant of a connection\<close>

definition smtp_inv :: "smtp_state \<Rightarrow> bool" where
  "smtp_inv s \<longleftrightarrow> vec_ok (pr_rcpt_list s) \<and> vec_ok (pr_mail_data s) \<and> buf_ok (pr_buffer s) (pr_bsize s) \<and>
     pr_fsm_state s \<noteq> AUTOFSM_ST_INVALID \<and> (\<forall>m\<in>set (elems (pr_rcpt_list s)). full_mailbox m) \<and>
     (\<forall>m. pr_mail_from s = Some m \<longrightarrow> full_mailbox m)"

lemma smtp_inv_buffer: "smtp_inv s \<Longrightarrow> buf_ok b n \<Longrightarrow> smtp_inv (s\<lparr>pr_buffer := b, pr_bsize := n\<rparr>)"
  by (simp add: smtp_inv_def)

lemma smtp_inv_state: "smtp_inv s \<Longrightarrow> st \<noteq> AUTOFSM_ST_INVALID \<Longrightarrow> smtp_inv (s\<lparr>pr_fsm_state := st\<rparr>)"
  by (simp add: smtp_inv_def)

lemma smtp_inv_status: "smtp_inv (s\<lparr>pr_status := st\<rparr>) \<longleftrightarrow> smtp_inv s"
  by (simp add: smtp_inv_def)

lemma smtp_invD: "smtp_inv s \<Longrightarrow> buf_ok (pr_buffer s) (pr_bsize s)" "smtp_inv s \<Longrightarrow> vec_ok (pr_rcpt_list s)"
  "smtp_inv s \<Longrightarrow> vec_ok (pr_mail_data s)"
  by (simp_all add: smtp_inv_def)

lemma smtp_init_inv:
  "\<exists>s'. smtp_init (Some s) error = (Some s', True, ERROR_SUCCESS error) \<and> smtp_inv s' \<and>
        pr_fsm_state s' = AUTOFSM_ST_INIT \<and> elems (pr_rcpt_list s') = [] \<and> elems (pr_mail_data s') = []"
  by (simp add: smtp_init_def VECTOR_INIT_def err_simps smtp_inv_def vec_ok_def elems_def buf_ok_def mem_alloc_def)

lemma rcpt_list_freeE:
  assumes "vec_ok v"
  obtains v' where "pr_smtp_rcpt_list_free v = Some v'" "vec_ok v'"
proof (cases "v_size v = 0")
  case True
  then show ?thesis using assms that by (simp add: pr_smtp_rcpt_list_free_def)
next
  case False
  from assms obtain cells where "v_array v = Some cells" "length cells = v_allocated v" "v_size v < v_allocated v" "2 \<le> v_allocated v"
    by (auto simp: vec_ok_def)
  then show ?thesis using False that by (simp add: pr_smtp_rcpt_list_free_def vec_ok_def)
qed

text \<open>Every accepted command is defined and keeps the invariant.\<close>

lemma response_inv:
  assumes "smtp_inv s" "c_string msg" "code < 1000"
  obtains s' where "smtp_make_response s code msg = Some s'" "smtp_inv s'" "pr_fsm_state s' = pr_fsm_state s"
    "pr_rcpt_list s' = pr_rcpt_list s" "pr_mail_data s' = pr_mail_data s" "c_str (pr_buffer s') = Some (reply code msg)"
    "pr_mail_from s' = pr_mail_from s" "pr_hello_addr s' = pr_hello_addr s"
proof -
  from smtp_make_responseE [OF smtp_invD(1) [OF assms(1)] assms(2,3)] obtain b n where
    r: "smtp_make_response s code msg = Some (s\<lparr>pr_buffer := b, pr_bsize := n\<rparr>)" "buf_ok b n" "c_str b = Some (reply code msg)"
    by blast
  show thesis by (rule that [OF r(1) smtp_inv_buffer [OF assms(1) r(2)]]) (simp_all add: r(3))
qed

lemma command_hello_inv:
  assumes "smtp_inv s" "cmd_ok c" "cmd_type c = SMTP_HELLO"
  shows "\<exists>s' r. pr_smtp_command_hello s c = Some (s', r) \<and> smtp_inv s'"
proof (cases "cmd_status c")
  case True
  obtain s' where s': "smtp_make_response s 250 SMTP_CODE_OK_MSG = Some s'" "smtp_inv s'"
    by (rule response_inv [OF assms(1), of SMTP_CODE_OK_MSG 250]) auto
  from s'(2) have "smtp_inv (s'\<lparr>pr_hello_addr := a\<rparr>)" for a by (simp add: smtp_inv_def)
  then show ?thesis using s' True assms(2,3) by (auto simp: pr_smtp_command_hello_def cmd_ok_def)
next
  case False
  obtain s' where "smtp_make_response s 501 HELLO_FORMAT_MSG = Some s'" "smtp_inv s'"
    by (rule response_inv [OF assms(1), of HELLO_FORMAT_MSG 501]) auto
  then show ?thesis using False by (simp add: pr_smtp_command_hello_def)
qed

lemma command_mailfrom_inv:
  assumes "smtp_inv s" "cmd_ok c" "cmd_type c = SMTP_MAILFROM"
  shows "\<exists>s' r. pr_smtp_command_mailfrom s c = Some (s', r) \<and> smtp_inv s' \<and>
           (cmd_status c \<longrightarrow> elems (pr_rcpt_list s') = [] \<and> elems (pr_mail_data s') = [])"
proof (cases "cmd_status c")
  case True
  from rcpt_list_freeE [OF smtp_invD(2) [OF assms(1)]] obtain v where
    v: "pr_smtp_rcpt_list_free (pr_rcpt_list s) = Some v" "vec_ok v" by blast
  from assms(2,3) True obtain m where m: "arg_mailbox (cmd_arg c) = Some m" "\<forall>x. m = Some x \<longrightarrow> full_mailbox x"
    by (auto simp: cmd_ok_def)
  let ?s = "s\<lparr>pr_rcpt_list := VECTOR_CLEAR v, pr_mail_data := VECTOR_CLEAR (pr_mail_data s), pr_mail_from := m\<rparr>"
  have "smtp_inv ?s" using assms(1) v m by (simp add: smtp_inv_def)
  then obtain s' where "smtp_make_response ?s 250 SMTP_CODE_OK_MSG = Some s'" "smtp_inv s'"
    "pr_rcpt_list s' = pr_rcpt_list ?s" "pr_mail_data s' = pr_mail_data ?s"
    by (rule response_inv [of ?s SMTP_CODE_OK_MSG 250]) auto
  then show ?thesis using True v m by (simp add: pr_smtp_command_mailfrom_def)
next
  case False
  obtain s' where "smtp_make_response s 501 SMTP_CODE_INVALID_ARGUMENT_MSG = Some s'" "smtp_inv s'"
    by (rule response_inv [OF assms(1), of SMTP_CODE_INVALID_ARGUMENT_MSG 501]) auto
  then show ?thesis using False by (simp add: pr_smtp_command_mailfrom_def)
qed

lemma vec_pushE:
  assumes "vec_ok v"
  obtains v' where "vec_push z v x = Some v'" "vec_ok v'" "elems v' = elems v @ [x]"
  using vec.push_ok [OF assms] by blast

lemma command_rcpto_inv:
  assumes "smtp_inv s" "cmd_ok c" "cmd_type c = SMTP_RCPTTO"
  shows "\<exists>s' r. pr_smtp_command_rcpto s c = Some (s', r) \<and> smtp_inv s'"
proof (cases "cmd_status c")
  case True
  obtain s' where s': "smtp_make_response s 250 SMTP_CODE_OK_MSG = Some s'" "smtp_inv s'"
    by (rule response_inv [OF assms(1), of SMTP_CODE_OK_MSG 250]) auto
  from assms(2,3) True obtain m where m: "cmd_arg c = ArgMailbox m" "full_mailbox m" by (auto simp: cmd_ok_def)
  from vec_pushE [OF smtp_invD(2) [OF s'(2)]] obtain v where
    v: "vec_push zero_mailbox (pr_rcpt_list s') m = Some v" "vec_ok v" "elems v = elems (pr_rcpt_list s') @ [m]" by blast
  have "smtp_inv (s'\<lparr>pr_rcpt_list := v\<rparr>)" using s'(2) v m by (simp add: smtp_inv_def ball_Un)
  then show ?thesis using s'(1) v(1) m True by (simp add: pr_smtp_command_rcpto_def)
next
  case False
  obtain s' where "smtp_make_response s 501 SMTP_CODE_INVALID_ARGUMENT_MSG = Some s'" "smtp_inv s'"
    by (rule response_inv [OF assms(1), of SMTP_CODE_INVALID_ARGUMENT_MSG 501]) auto
  then show ?thesis using False by (simp add: pr_smtp_command_rcpto_def)
qed

lemma command_rset_inv:
  assumes "smtp_inv s"
  shows "\<exists>s' r. pr_smtp_command_rset s = Some (s', r) \<and> smtp_inv s' \<and>
      elems (pr_rcpt_list s') = [] \<and> elems (pr_mail_data s') = [] \<and> pr_mail_from s' = NULL"
proof -
  from rcpt_list_freeE [OF smtp_invD(2) [OF assms]] obtain v where
    v: "pr_smtp_rcpt_list_free (pr_rcpt_list s) = Some v" "vec_ok v" by blast
  let ?s = "s\<lparr>pr_hello_addr := NULL, pr_mail_from := NULL, pr_buffer := NULL, pr_bsize := 0,
              pr_rcpt_list := VECTOR_CLEAR v, pr_mail_data := VECTOR_CLEAR (pr_mail_data s)\<rparr>"
  have "smtp_inv ?s" using assms v by (simp add: smtp_inv_def buf_ok_def)
  then obtain s' where "smtp_make_response ?s 250 SMTP_CODE_OK_MSG = Some s'" "smtp_inv s'"
    "pr_rcpt_list s' = pr_rcpt_list ?s" "pr_mail_data s' = pr_mail_data ?s" "pr_mail_from s' = pr_mail_from ?s"
    by (rule response_inv [of ?s SMTP_CODE_OK_MSG 250]) auto
  then show ?thesis using v by (simp add: pr_smtp_command_rset_def pr_smtp_buffers_free_def)
qed

lemma run_command_inv:
  assumes "smtp_inv s" "cmd_ok c"
  shows "\<exists>s' r. run_command s c = Some (s', r) \<and> smtp_inv s'"
proof -
  obtain s1 where 1: "smtp_make_response s 250 SMTP_CODE_OK_MSG = Some s1" "smtp_inv s1"
    by (rule response_inv [OF assms(1), of SMTP_CODE_OK_MSG 250]) auto
  obtain s2 where 2: "smtp_make_response s 354 SMTP_CODE_MAIL_INPUT_MSG = Some s2" "smtp_inv s2"
    by (rule response_inv [OF assms(1), of SMTP_CODE_MAIL_INPUT_MSG 354]) auto
  obtain s3 where 3: "smtp_make_response s 502 SMTP_CODE_COMMAND_NOT_IMPLEMENTED_MSG = Some s3" "smtp_inv s3"
    by (rule response_inv [OF assms(1), of SMTP_CODE_COMMAND_NOT_IMPLEMENTED_MSG 502]) auto
  note handlers = command_hello_inv [OF assms] command_mailfrom_inv [OF assms] command_rcpto_inv [OF assms]
    command_rset_inv [OF assms(1)]
  have "cmd_event c = event_of_type (cmd_type c)" using assms(2) by (simp add: cmd_ok_def)
  then show ?thesis
    using assms(1) 1 2 3 handlers
    by (cases "cmd_type c") (auto simp: run_command_def pr_smtp_command_data_def)
qed

section \<open>Lines\<close>

definition blank :: "string \<Rightarrow> bool" where
  "blank s \<longleftrightarrow> (\<forall>c\<in>set s. SPACE_SYMBOLS_CHECK c)"

lemma command_parse_run:
  assumes "smtp_inv s" "c_string msg" "\<not> blank msg"
  obtains b n c where "pr_smtp_command_parse s msg = Some (s\<lparr>pr_buffer := b, pr_bsize := n\<rparr>, c)"
    "buf_ok b n" "command_of (trimmed msg) = Some c" "cmd_ok c"
proof -
  from assms(3) have nb: "\<exists>c\<in>set msg. \<not> SPACE_SYMBOLS_CHECK c" by (simp add: blank_def)
  from trim_str_run [OF nb assms(2) smtp_invD(1) [OF assms(1)]] obtain b n where
    t: "trim_str msg (pr_buffer s) (length msg) (pr_bsize s) = Some (b, n, True)" "buf_ok b n" "c_str b = Some (trimmed msg)"
    by blast
  have "c_string (trimmed msg)" using assms(2) trimmed_subset [of msg] by (auto simp: c_string_def)
  then obtain c where c: "command_of (trimmed msg) = Some c" "cmd_ok c" using command_of_ok by blast
  show thesis by (rule that [OF _ t(2) c]) (simp add: pr_smtp_command_parse_def t c)
qed

text \<open>The state of the automaton after a command line.\<close>

definition next_state :: "te_autofsm_state \<Rightarrow> smtp_command \<Rightarrow> te_autofsm_state" where
  "next_state st c =
     (if cmd_type c = SMTP_INVALID_COMMAND \<or> autofsm_step st (cmd_event c) = AUTOFSM_ST_INVALID then st
      else autofsm_step st (cmd_event c))"

lemma run_command_state: "run_command s c = Some (s', r) \<Longrightarrow> pr_fsm_state s' = pr_fsm_state s"
  by (auto simp: run_command_def pr_smtp_command_hello_def pr_smtp_command_mailfrom_def pr_smtp_command_rcpto_def
      pr_smtp_command_data_def pr_smtp_command_rset_def pr_smtp_buffers_free_def smtp_make_response_def
      bind_eq_Some_conv split: if_splits)

lemma parse_command_line_inv:
  assumes "smtp_inv s" "c_string msg" "\<not> blank msg"
  shows "\<exists>s' r c. parse_command_line s msg = Some (s', r) \<and> smtp_inv s' \<and> command_of (trimmed msg) = Some c
                 \<and> pr_fsm_state s' = next_state (pr_fsm_state s) c"
proof -
  from assms obtain b n c where p: "pr_smtp_command_parse s msg = Some (s\<lparr>pr_buffer := b, pr_bsize := n\<rparr>, c)"
    "buf_ok b n" "command_of (trimmed msg) = Some c" "cmd_ok c" by (rule command_parse_run)
  let ?s = "s\<lparr>pr_buffer := b, pr_bsize := n\<rparr>"
  have inv: "smtp_inv ?s" using assms(1) p(2) by (rule smtp_inv_buffer)
  obtain s1 where 1: "smtp_make_response ?s 500 SMTP_CODE_SYNTAX_ERROR_MSG = Some s1" "smtp_inv s1" "pr_fsm_state s1 = pr_fsm_state ?s"
    by (rule response_inv [OF inv, of SMTP_CODE_SYNTAX_ERROR_MSG 500]) auto
  obtain s2 where 2: "smtp_make_response ?s 503 SMTP_CODE_INVALID_SEQUENCE_MSG = Some s2" "smtp_inv s2" "pr_fsm_state s2 = pr_fsm_state ?s"
    by (rule response_inv [OF inv, of SMTP_CODE_INVALID_SEQUENCE_MSG 503]) auto
  obtain s3 r3 where 3: "run_command ?s c = Some (s3, r3)" "smtp_inv s3" using run_command_inv [OF inv p(4)] by blast
  have st: "pr_fsm_state s3 = pr_fsm_state s" using run_command_state [OF 3(1)] by simp
  consider "cmd_type c = SMTP_INVALID_COMMAND"
    | "cmd_type c \<noteq> SMTP_INVALID_COMMAND" "autofsm_step (pr_fsm_state s) (cmd_event c) = AUTOFSM_ST_INVALID"
    | "cmd_type c \<noteq> SMTP_INVALID_COMMAND" "autofsm_step (pr_fsm_state s) (cmd_event c) \<noteq> AUTOFSM_ST_INVALID" by blast
  then show ?thesis
  proof cases
    case 1
    then show ?thesis using p \<open>smtp_make_response ?s 500 _ = _\<close> \<open>smtp_inv s1\<close> \<open>pr_fsm_state s1 = _\<close>
      by (simp add: parse_command_line_def next_state_def)
  next
    case 2
    then show ?thesis using p \<open>smtp_make_response ?s 503 _ = _\<close> \<open>smtp_inv s2\<close> \<open>pr_fsm_state s2 = _\<close>
      by (simp add: parse_command_line_def next_state_def Let_def)
  next
    case 3
    then show ?thesis using p \<open>run_command ?s c = _\<close> st smtp_inv_state [OF \<open>smtp_inv s3\<close>]
      by (simp add: parse_command_line_def next_state_def Let_def)
  qed
qed

lemma parse_data_line_inv:
  assumes "smtp_inv s" "pr_fsm_state s = AUTOFSM_ST_READ_DATA"
  shows "\<exists>s' r. parse_data_line s msg = Some (s', r) \<and> smtp_inv s' \<and> pr_rcpt_list s' = pr_rcpt_list s
           \<and> pr_mail_from s' = pr_mail_from s \<and>
           (if msg = SMTP_DATA_END
            then r = SMTP_STATUS_DATA_END \<and> pr_fsm_state s' = AUTOFSM_ST_CLIENT_INIT \<and> pr_mail_data s' = pr_mail_data s
                 \<and> c_str (pr_buffer s') = Some (reply 250 SMTP_CODE_OK_MSG)
            else r = SMTP_STATUS_CONTINUE \<and> pr_fsm_state s' = AUTOFSM_ST_READ_DATA
                 \<and> elems (pr_mail_data s') = elems (pr_mail_data s) @ msg)"
proof (cases "msg = SMTP_DATA_END")
  case True
  let ?s = "s\<lparr>pr_fsm_state := AUTOFSM_ST_CLIENT_INIT\<rparr>"
  have "smtp_inv ?s" using assms(1) by (simp add: smtp_inv_def)
  then obtain s' where "smtp_make_response ?s 250 SMTP_CODE_OK_MSG = Some s'" "smtp_inv s'" "pr_fsm_state s' = pr_fsm_state ?s"
    "pr_rcpt_list s' = pr_rcpt_list ?s" "pr_mail_data s' = pr_mail_data ?s" "pr_mail_from s' = pr_mail_from ?s"
    "c_str (pr_buffer s') = Some (reply 250 SMTP_CODE_OK_MSG)"
    by (rule response_inv [of ?s SMTP_CODE_OK_MSG 250]) auto
  then show ?thesis using True assms(2) by (simp add: parse_data_line_def)
next
  case False
  from vec.push_all_E [OF smtp_invD(3) [OF assms(1)], of NUL msg] obtain v where
    v: "run_inputs (vec_push NUL) (pr_mail_data s) msg = Some v" "vec_ok v" "elems v = elems (pr_mail_data s) @ msg" by blast
  have "smtp_inv (s\<lparr>pr_mail_data := v\<rparr>)" using assms(1) v(2) by (simp add: smtp_inv_def)
  then show ?thesis using False v assms(2) by (simp add: parse_data_line_def)
qed

text \<open>
  One call of \<open>smtp_parse\<close> on the C string at the start of a buffer, with a local error
  descriptor, as a machine.
\<close>

definition smtp_step :: "smtp_state \<Rightarrow> string \<Rightarrow> smtp_state ub" where
  "smtp_step s buf =
     (case smtp_parse (Some s) (Some (takeWhile (\<lambda>c. c \<noteq> NUL) buf)) (Some err_fresh) of
        None \<Rightarrow> UB | Some (s', _) \<Rightarrow> s')"

definition smtp_pre :: "smtp_state \<Rightarrow> string \<Rightarrow> bool" where
  "smtp_pre s buf \<longleftrightarrow> pr_fsm_state s = AUTOFSM_ST_READ_DATA \<or> \<not> blank (takeWhile (\<lambda>c. c \<noteq> NUL) buf)"

lemma c_string_takeWhile: "c_string (takeWhile (\<lambda>c. c \<noteq> NUL) buf)"
  by (auto simp: c_string_def dest: set_takeWhileD)

interpretation smtp: exact_machine smtp_step smtp_inv smtp_pre
proof unfold_locales
  fix s buf
  assume "smtp_inv s" "smtp_pre s buf"
  then show "\<exists>s'. smtp_step s buf = Some s' \<and> smtp_inv s'"
    using parse_command_line_inv [OF _ c_string_takeWhile, of s buf]
      parse_data_line_inv [of s "takeWhile (\<lambda>c. c \<noteq> NUL) buf"]
    by (cases "pr_fsm_state s = AUTOFSM_ST_READ_DATA")
       (auto simp: smtp_step_def smtp_pre_def smtp_parse_def smtp_inv_status)
next
  fix s buf
  assume "smtp_inv s" "\<not> smtp_pre s buf"
  then show "smtp_step s buf = UB"
    using trim_str_all_blank [of "takeWhile (\<lambda>c. c \<noteq> NUL) buf"]
    by (simp add: smtp_step_def smtp_pre_def smtp_parse_def blank_def parse_command_line_def pr_smtp_command_parse_def)
qed

section \<open>Transactions\<close>

text \<open>A line that the parser takes for the given command.\<close>

definition line_command :: "string \<Rightarrow> smtp_command \<Rightarrow> bool" where
  "line_command buf c \<longleftrightarrow> c_string buf \<and> \<not> blank buf \<and> command_of (trimmed buf) = Some c"

definition mail_cmd :: "smtp_mailbox ptr \<Rightarrow> smtp_command" where
  "mail_cmd m = \<lparr>cmd_status = True, cmd_type = SMTP_MAILFROM, cmd_event = AUTOFSM_EV_MAIL,
                 cmd_arg = (case m of NULL \<Rightarrow> ArgNull | Some x \<Rightarrow> ArgMailbox x)\<rparr>"

definition rcpt_cmd :: "smtp_mailbox \<Rightarrow> smtp_command" where
  "rcpt_cmd m = \<lparr>cmd_status = True, cmd_type = SMTP_RCPTTO, cmd_event = AUTOFSM_EV_RCPT, cmd_arg = ArgMailbox m\<rparr>"

lemma c_string_id: "c_string buf \<Longrightarrow> takeWhile (\<lambda>c. c \<noteq> NUL) buf = buf"
  by (auto simp: c_string_def takeWhile_eq_all_conv)

lemma smtp_step_accepted:
  assumes "smtp_inv s" "pr_fsm_state s \<noteq> AUTOFSM_ST_READ_DATA" "line_command buf c"
    "cmd_type c \<noteq> SMTP_INVALID_COMMAND" "autofsm_step (pr_fsm_state s) (cmd_event c) = st" "st \<noteq> AUTOFSM_ST_INVALID"
  obtains b n where "buf_ok b n" "smtp_inv (s\<lparr>pr_buffer := b, pr_bsize := n\<rparr>)" "cmd_ok c"
    "\<And>s' r. run_command (s\<lparr>pr_buffer := b, pr_bsize := n\<rparr>) c = Some (s', r) \<Longrightarrow>
       smtp_step s buf = Some (s'\<lparr>pr_fsm_state := st, pr_status := r\<rparr>)"
proof -
  from assms(3) have l: "c_string buf" "\<not> blank buf" "command_of (trimmed buf) = Some c" by (simp_all add: line_command_def)
  from assms(1) l(1,2) obtain b n c' where
    p: "pr_smtp_command_parse s buf = Some (s\<lparr>pr_buffer := b, pr_bsize := n\<rparr>, c')" "buf_ok b n"
       "command_of (trimmed buf) = Some c'" "cmd_ok c'" by (rule command_parse_run)
  have c: "c' = c" using p(3) l(3) by simp
  show thesis
    by (rule that [OF p(2) smtp_inv_buffer [OF assms(1) p(2)] p(4) [unfolded c]])
       (use assms(2,4-6) p(1) in \<open>simp add: smtp_step_def smtp_parse_def c_string_id [OF l(1)] parse_command_line_def Let_def c\<close>)
qed

text \<open>Only the command of the greeting carries an address.\<close>

lemma step_hello:
  assumes "smtp_inv s" "pr_fsm_state s = AUTOFSM_ST_INIT" "line_command buf c" "cmd_type c = SMTP_HELLO" "cmd_status c"
  obtains s' a where "smtp_step s buf = Some s'" "smtp_inv s'" "pr_fsm_state s' = AUTOFSM_ST_CLIENT_INIT"
    "cmd_arg c = ArgAddress a" "addr_address a \<noteq> NULL" "pr_hello_addr s' = Some a"
    "pr_status s' = SMTP_STATUS_OK" "c_str (pr_buffer s') = Some (reply 250 SMTP_CODE_OK_MSG)"
proof -
  have "command_of (trimmed buf) = Some c" "c_string buf" "\<not> blank buf" using assms(3) by (simp_all add: line_command_def)
  then have "cmd_ok c" using command_parse_run [OF assms(1), of buf] by (metis option.inject)
  then obtain a where a: "cmd_event c = AUTOFSM_EV_HELO" "cmd_arg c = ArgAddress a" "addr_address a \<noteq> NULL"
    using assms(4,5) by (auto simp: cmd_ok_def)
  have "pr_fsm_state s \<noteq> AUTOFSM_ST_READ_DATA" using assms(2) by simp
  from assms(1) this assms(3) obtain b n where
    b: "buf_ok b n" "smtp_inv (s\<lparr>pr_buffer := b, pr_bsize := n\<rparr>)"
    and st: "\<And>s' r. run_command (s\<lparr>pr_buffer := b, pr_bsize := n\<rparr>) c = Some (s', r) \<Longrightarrow>
       smtp_step s buf = Some (s'\<lparr>pr_fsm_state := AUTOFSM_ST_CLIENT_INIT, pr_status := r\<rparr>)"
    by (rule smtp_step_accepted) (use assms(2,4) a in auto)
  obtain s1 where s1: "smtp_make_response (s\<lparr>pr_buffer := b, pr_bsize := n\<rparr>) 250 SMTP_CODE_OK_MSG = Some s1" "smtp_inv s1"
    "c_str (pr_buffer s1) = Some (reply 250 SMTP_CODE_OK_MSG)"
    by (rule response_inv [OF b(2), of SMTP_CODE_OK_MSG 250]) auto
  let ?t = "s1\<lparr>pr_hello_addr := Some a, pr_fsm_state := AUTOFSM_ST_CLIENT_INIT, pr_status := SMTP_STATUS_OK\<rparr>"
  have run: "run_command (s\<lparr>pr_buffer := b, pr_bsize := n\<rparr>) c = Some (s1\<lparr>pr_hello_addr := Some a\<rparr>, SMTP_STATUS_OK)"
    using s1(1) a assms(4,5) by (simp add: run_command_def pr_smtp_command_hello_def)
  have "smtp_inv ?t" using s1(2) by (simp add: smtp_inv_def)
  then show thesis using st [OF run] s1(3) a by (intro that [of ?t a]) simp_all
qed

lemma step_quit:
  assumes "smtp_inv s" "pr_fsm_state s = AUTOFSM_ST_CLIENT_INIT" "line_command buf pr_smtp_quit_proc"
  obtains s' where "smtp_step s buf = Some s'" "smtp_inv s'" "pr_status s' = SMTP_STATUS_EXIT"
proof -
  have "pr_fsm_state s \<noteq> AUTOFSM_ST_READ_DATA" using assms(2) by simp
  from assms(1) this assms(3) obtain b n st where
    b: "smtp_inv (s\<lparr>pr_buffer := b, pr_bsize := n\<rparr>)" "st \<noteq> AUTOFSM_ST_INVALID"
    and st: "\<And>s' r. run_command (s\<lparr>pr_buffer := b, pr_bsize := n\<rparr>) pr_smtp_quit_proc = Some (s', r) \<Longrightarrow>
       smtp_step s buf = Some (s'\<lparr>pr_fsm_state := st, pr_status := r\<rparr>)"
    by (rule smtp_step_accepted) (use assms(2) in \<open>auto simp: pr_smtp_quit_proc_def plain_command_def\<close>)
  have "run_command (s\<lparr>pr_buffer := b, pr_bsize := n\<rparr>) pr_smtp_quit_proc = Some (s\<lparr>pr_buffer := b, pr_bsize := n\<rparr>, SMTP_STATUS_EXIT)"
    by (simp add: run_command_def pr_smtp_quit_proc_def plain_command_def)
  from st [OF this] show thesis
    by (rule that) (use b in \<open>simp_all add: smtp_inv_def\<close>)
qed

lemma step_mail:
  assumes "smtp_inv s" "pr_fsm_state s = AUTOFSM_ST_CLIENT_INIT" "line_command buf (mail_cmd m)"
  obtains s' where "smtp_step s buf = Some s'" "smtp_inv s'" "pr_fsm_state s' = AUTOFSM_ST_BEGIN_TRANSACTION"
    "pr_mail_from s' = m" "elems (pr_rcpt_list s') = []" "elems (pr_mail_data s') = []"
    "pr_status s' = SMTP_STATUS_OK" "c_str (pr_buffer s') = Some (reply 250 SMTP_CODE_OK_MSG)"
proof -
  have "pr_fsm_state s \<noteq> AUTOFSM_ST_READ_DATA" using assms(2) by simp
  from assms(1) this assms(3) obtain b n where
    b: "buf_ok b n" "smtp_inv (s\<lparr>pr_buffer := b, pr_bsize := n\<rparr>)" "cmd_ok (mail_cmd m)"
    and st: "\<And>s' r. run_command (s\<lparr>pr_buffer := b, pr_bsize := n\<rparr>) (mail_cmd m) = Some (s', r) \<Longrightarrow>
       smtp_step s buf = Some (s'\<lparr>pr_fsm_state := AUTOFSM_ST_BEGIN_TRANSACTION, pr_status := r\<rparr>)"
    by (rule smtp_step_accepted) (use assms(2) in \<open>auto simp: mail_cmd_def\<close>)
  let ?s = "s\<lparr>pr_buffer := b, pr_bsize := n\<rparr>"
  from rcpt_list_freeE [OF smtp_invD(2) [OF b(2)]] obtain v where
    v: "pr_smtp_rcpt_list_free (pr_rcpt_list ?s) = Some v" "vec_ok v" by blast
  let ?t = "?s\<lparr>pr_rcpt_list := VECTOR_CLEAR v, pr_mail_data := VECTOR_CLEAR (pr_mail_data ?s), pr_mail_from := m\<rparr>"
  have m: "arg_mailbox (cmd_arg (mail_cmd m)) = Some m" by (cases m) (simp_all add: mail_cmd_def)
  have "\<forall>x. m = Some x \<longrightarrow> full_mailbox x" using b(3) by (cases m) (auto simp: cmd_ok_def mail_cmd_def)
  then have "smtp_inv ?t" using b(2) v by (simp add: smtp_inv_def)
  then obtain s' where s': "smtp_make_response ?t 250 SMTP_CODE_OK_MSG = Some s'" "smtp_inv s'"
    "pr_rcpt_list s' = pr_rcpt_list ?t" "pr_mail_data s' = pr_mail_data ?t" "pr_mail_from s' = pr_mail_from ?t"
    "c_str (pr_buffer s') = Some (reply 250 SMTP_CODE_OK_MSG)"
    by (rule response_inv [of ?t SMTP_CODE_OK_MSG 250]) auto
  have "run_command ?s (mail_cmd m) = Some (s', SMTP_STATUS_OK)"
    using v s'(1) m by (simp add: run_command_def pr_smtp_command_mailfrom_def) (simp add: mail_cmd_def)
  moreover have "smtp_inv (s'\<lparr>pr_fsm_state := AUTOFSM_ST_BEGIN_TRANSACTION, pr_status := SMTP_STATUS_OK\<rparr>)"
    using s'(2) by (simp add: smtp_inv_def)
  ultimately show thesis using st s'
    by (intro that [of "s'\<lparr>pr_fsm_state := AUTOFSM_ST_BEGIN_TRANSACTION, pr_status := SMTP_STATUS_OK\<rparr>"]) simp_all
qed

lemma step_rcpt:
  assumes "smtp_inv s" "pr_fsm_state s \<in> {AUTOFSM_ST_BEGIN_TRANSACTION, AUTOFSM_ST_TRANSACTION}" "line_command buf (rcpt_cmd m)"
  obtains s' where "smtp_step s buf = Some s'" "smtp_inv s'" "pr_fsm_state s' = AUTOFSM_ST_TRANSACTION"
    "pr_mail_from s' = pr_mail_from s" "elems (pr_rcpt_list s') = elems (pr_rcpt_list s) @ [m]"
    "pr_mail_data s' = pr_mail_data s"
    "pr_status s' = SMTP_STATUS_OK" "c_str (pr_buffer s') = Some (reply 250 SMTP_CODE_OK_MSG)"
proof -
  have "pr_fsm_state s \<noteq> AUTOFSM_ST_READ_DATA" using assms(2) by auto
  from assms(1) this assms(3) obtain b n where
    b: "buf_ok b n" "smtp_inv (s\<lparr>pr_buffer := b, pr_bsize := n\<rparr>)" "cmd_ok (rcpt_cmd m)"
    and st: "\<And>s' r. run_command (s\<lparr>pr_buffer := b, pr_bsize := n\<rparr>) (rcpt_cmd m) = Some (s', r) \<Longrightarrow>
       smtp_step s buf = Some (s'\<lparr>pr_fsm_state := AUTOFSM_ST_TRANSACTION, pr_status := r\<rparr>)"
    by (rule smtp_step_accepted) (use assms(2) in \<open>auto simp: rcpt_cmd_def\<close>)
  let ?s = "s\<lparr>pr_buffer := b, pr_bsize := n\<rparr>"
  obtain s1 where s1: "smtp_make_response ?s 250 SMTP_CODE_OK_MSG = Some s1" "smtp_inv s1"
    "pr_rcpt_list s1 = pr_rcpt_list ?s" "pr_mail_data s1 = pr_mail_data ?s" "pr_mail_from s1 = pr_mail_from ?s"
    "c_str (pr_buffer s1) = Some (reply 250 SMTP_CODE_OK_MSG)"
    by (rule response_inv [OF b(2), of SMTP_CODE_OK_MSG 250]) auto
  from vec_pushE [OF smtp_invD(2) [OF s1(2)]] obtain v where
    v: "vec_push zero_mailbox (pr_rcpt_list s1) m = Some v" "vec_ok v" "elems v = elems (pr_rcpt_list s1) @ [m]" by blast
  have "full_mailbox m" using b(3) by (simp add: cmd_ok_def rcpt_cmd_def)
  then have inv: "smtp_inv (s1\<lparr>pr_rcpt_list := v, pr_fsm_state := AUTOFSM_ST_TRANSACTION, pr_status := SMTP_STATUS_OK\<rparr>)"
    using s1(2) v by (simp add: smtp_inv_def ball_Un)
  have "run_command ?s (rcpt_cmd m) = Some (s1\<lparr>pr_rcpt_list := v\<rparr>, SMTP_STATUS_OK)"
    using s1(1) v(1) by (simp add: run_command_def pr_smtp_command_rcpto_def rcpt_cmd_def)
  then show thesis using st s1 v inv
    by (intro that [of "s1\<lparr>pr_rcpt_list := v, pr_fsm_state := AUTOFSM_ST_TRANSACTION, pr_status := SMTP_STATUS_OK\<rparr>"]) simp_all
qed

lemma run_rcpts:
  assumes "smtp_inv s" "pr_fsm_state s = AUTOFSM_ST_TRANSACTION" "list_all2 (\<lambda>buf m. line_command buf (rcpt_cmd m)) rs ms"
  shows "\<exists>s'. run_inputs smtp_step s rs = Some s' \<and> smtp_inv s' \<and> pr_fsm_state s' = AUTOFSM_ST_TRANSACTION \<and>
     pr_mail_from s' = pr_mail_from s \<and> elems (pr_rcpt_list s') = elems (pr_rcpt_list s) @ ms \<and> pr_mail_data s' = pr_mail_data s"
  using assms(3,1,2)
proof (induction rs ms arbitrary: s rule: list_all2_induct)
  case Nil
  then show ?case by simp
next
  case (Cons r rs m ms)
  have "pr_fsm_state s \<in> {AUTOFSM_ST_BEGIN_TRANSACTION, AUTOFSM_ST_TRANSACTION}" using Cons.prems by simp
  from step_rcpt [OF Cons.prems(1) this Cons.hyps(1)] obtain s1 where
    s1: "smtp_step s r = Some s1" "smtp_inv s1" "pr_fsm_state s1 = AUTOFSM_ST_TRANSACTION"
    "pr_mail_from s1 = pr_mail_from s" "elems (pr_rcpt_list s1) = elems (pr_rcpt_list s) @ [m]" "pr_mail_data s1 = pr_mail_data s"
    by blast
  from Cons.IH [OF s1(2,3)] s1 show ?case by auto
qed

lemma step_data:
  assumes "smtp_inv s" "pr_fsm_state s = AUTOFSM_ST_TRANSACTION" "line_command buf pr_smtp_data_proc"
  obtains s' where "smtp_step s buf = Some s'" "smtp_inv s'" "pr_fsm_state s' = AUTOFSM_ST_READ_DATA"
    "pr_mail_from s' = pr_mail_from s" "pr_rcpt_list s' = pr_rcpt_list s" "pr_mail_data s' = pr_mail_data s"
    "pr_status s' = SMTP_STATUS_OK" "c_str (pr_buffer s') = Some (reply 354 SMTP_CODE_MAIL_INPUT_MSG)"
proof -
  have "pr_fsm_state s \<noteq> AUTOFSM_ST_READ_DATA" using assms(2) by simp
  from assms(1) this assms(3) obtain b n where
    b: "buf_ok b n" "smtp_inv (s\<lparr>pr_buffer := b, pr_bsize := n\<rparr>)"
    and st: "\<And>s' r. run_command (s\<lparr>pr_buffer := b, pr_bsize := n\<rparr>) pr_smtp_data_proc = Some (s', r) \<Longrightarrow>
       smtp_step s buf = Some (s'\<lparr>pr_fsm_state := AUTOFSM_ST_READ_DATA, pr_status := r\<rparr>)"
    by (rule smtp_step_accepted) (use assms(2) in \<open>auto simp: pr_smtp_data_proc_def plain_command_def\<close>)
  obtain s1 where s1: "smtp_make_response (s\<lparr>pr_buffer := b, pr_bsize := n\<rparr>) 354 SMTP_CODE_MAIL_INPUT_MSG = Some s1" "smtp_inv s1"
    "pr_rcpt_list s1 = pr_rcpt_list s" "pr_mail_data s1 = pr_mail_data s" "pr_mail_from s1 = pr_mail_from s"
    "c_str (pr_buffer s1) = Some (reply 354 SMTP_CODE_MAIL_INPUT_MSG)"
    by (rule response_inv [OF b(2), of SMTP_CODE_MAIL_INPUT_MSG 354]) auto
  have "run_command (s\<lparr>pr_buffer := b, pr_bsize := n\<rparr>) pr_smtp_data_proc = Some (s1, SMTP_STATUS_OK)"
    using s1(1) by (simp add: run_command_def pr_smtp_data_proc_def plain_command_def pr_smtp_command_data_def)
  moreover have "smtp_inv (s1\<lparr>pr_fsm_state := AUTOFSM_ST_READ_DATA, pr_status := SMTP_STATUS_OK\<rparr>)"
    using s1(2) by (simp add: smtp_inv_def)
  ultimately show thesis using st s1
    by (intro that [of "s1\<lparr>pr_fsm_state := AUTOFSM_ST_READ_DATA, pr_status := SMTP_STATUS_OK\<rparr>"]) simp_all
qed

lemma step_body:
  assumes "smtp_inv s" "pr_fsm_state s = AUTOFSM_ST_READ_DATA" "c_string buf"
  obtains s' where "smtp_step s buf = Some s'" "smtp_inv s'" "pr_rcpt_list s' = pr_rcpt_list s" "pr_mail_from s' = pr_mail_from s"
    "if buf = SMTP_DATA_END
     then pr_status s' = SMTP_STATUS_DATA_END \<and> pr_fsm_state s' = AUTOFSM_ST_CLIENT_INIT \<and> pr_mail_data s' = pr_mail_data s
          \<and> c_str (pr_buffer s') = Some (reply 250 SMTP_CODE_OK_MSG)
     else pr_status s' = SMTP_STATUS_CONTINUE \<and> pr_fsm_state s' = AUTOFSM_ST_READ_DATA
          \<and> elems (pr_mail_data s') = elems (pr_mail_data s) @ buf"
proof -
  from parse_data_line_inv [OF assms(1,2), of buf] obtain s' r where
    p: "parse_data_line s buf = Some (s', r)" "smtp_inv s'" "pr_rcpt_list s' = pr_rcpt_list s" "pr_mail_from s' = pr_mail_from s"
    "if buf = SMTP_DATA_END
     then r = SMTP_STATUS_DATA_END \<and> pr_fsm_state s' = AUTOFSM_ST_CLIENT_INIT \<and> pr_mail_data s' = pr_mail_data s
          \<and> c_str (pr_buffer s') = Some (reply 250 SMTP_CODE_OK_MSG)
     else r = SMTP_STATUS_CONTINUE \<and> pr_fsm_state s' = AUTOFSM_ST_READ_DATA \<and> elems (pr_mail_data s') = elems (pr_mail_data s) @ buf"
    by blast
  show thesis
    by (rule that [of "s'\<lparr>pr_status := r\<rparr>"])
       (use assms(2) p in \<open>auto simp: smtp_step_def smtp_parse_def c_string_id [OF assms(3)] smtp_inv_status split: if_splits\<close>)
qed

lemma run_body:
  "smtp_inv s \<Longrightarrow> pr_fsm_state s = AUTOFSM_ST_READ_DATA \<Longrightarrow> \<forall>l\<in>set ls. c_string l \<and> l \<noteq> SMTP_DATA_END \<Longrightarrow>
   \<exists>s'. run_inputs smtp_step s ls = Some s' \<and> smtp_inv s' \<and> pr_fsm_state s' = AUTOFSM_ST_READ_DATA \<and>
     pr_mail_from s' = pr_mail_from s \<and> pr_rcpt_list s' = pr_rcpt_list s \<and>
     elems (pr_mail_data s') = elems (pr_mail_data s) @ concat ls"
proof (induction ls arbitrary: s)
  case Nil
  then show ?case by simp
next
  case (Cons l ls)
  then have "c_string l" "l \<noteq> SMTP_DATA_END" by auto
  with step_body [OF Cons.prems(1,2), of l] obtain s1 where
    "smtp_step s l = Some s1" "smtp_inv s1" "pr_rcpt_list s1 = pr_rcpt_list s" "pr_mail_from s1 = pr_mail_from s"
    "pr_fsm_state s1 = AUTOFSM_ST_READ_DATA" "elems (pr_mail_data s1) = elems (pr_mail_data s) @ l"
    by (metis (full_types))
  with Cons.IH [of s1] Cons.prems(3) show ?case by auto
qed

section \<open>Properties\<close>

definition fresh_smtp :: smtp_state where
  "fresh_smtp = the (fst (smtp_init (Some \<lparr>pr_fsm_state = AUTOFSM_ST_INIT, pr_rcpt_list = vec_empty, pr_mail_from = NULL,
     pr_hello_addr = NULL, pr_mail_data = vec_empty, pr_buffer = NULL, pr_bsize = 0, pr_status = SMTP_STATUS_ERROR\<rparr>) NULL))"

lemma fresh_smtp_inv: "smtp_inv (fresh_smtp\<lparr>pr_fsm_state := st\<rparr>)" if "st \<noteq> AUTOFSM_ST_INVALID" for st
proof -
  have "smtp_inv fresh_smtp" unfolding fresh_smtp_def using smtp_init_inv by (metis fst_conv option.sel)
  then show ?thesis using that by (rule smtp_inv_state)
qed

definition crlf :: "string \<Rightarrow> string" where "crlf s = s @ SMTP_COMMAND_END"

lemma demo_lines:
  "line_command (crlf ''MAIL FROM:<a@b.c>'') (mail_cmd (Some \<lparr>user_name = Some ''a'', server_name = Some ''b.c''\<rparr>))"
  "line_command (crlf ''RCPT TO:<x@y.z>'') (rcpt_cmd \<lparr>user_name = Some ''x'', server_name = Some ''y.z''\<rparr>)"
  "line_command (crlf ''DATA'') pr_smtp_data_proc"
  by code_simp+

text \<open>The lines of a transaction before the final dot.\<close>

lemma transaction_lines:
  assumes "smtp_inv s" "pr_fsm_state s = AUTOFSM_ST_CLIENT_INIT" "line_command m (mail_cmd sender)"
    "list_all2 (\<lambda>buf x. line_command buf (rcpt_cmd x)) rs xs" "rs \<noteq> []" "line_command d pr_smtp_data_proc"
    "\<forall>l\<in>set ls. c_string l \<and> l \<noteq> SMTP_DATA_END"
  obtains s1 s2 where "run_inputs smtp_step s (m # rs @ [d]) = Some s1" "smtp_inv s1" "pr_fsm_state s1 = AUTOFSM_ST_READ_DATA"
    "run_inputs smtp_step s1 ls = Some s2" "smtp_inv s2" "pr_fsm_state s2 = AUTOFSM_ST_READ_DATA"
    "pr_mail_from s2 = sender" "elems (pr_rcpt_list s2) = xs" "elems (pr_mail_data s2) = concat ls"
proof -
  from assms(1-3) obtain s1 where s1: "smtp_step s m = Some s1" "smtp_inv s1" "pr_fsm_state s1 = AUTOFSM_ST_BEGIN_TRANSACTION"
    "pr_mail_from s1 = sender" "elems (pr_rcpt_list s1) = []" "elems (pr_mail_data s1) = []" by (rule step_mail)
  from assms(4,5) obtain r rs' x xs' where r: "rs = r # rs'" "xs = x # xs'" "line_command r (rcpt_cmd x)"
    "list_all2 (\<lambda>buf x. line_command buf (rcpt_cmd x)) rs' xs'" by (cases rs) (auto simp: list_all2_Cons1)
  have "pr_fsm_state s1 \<in> {AUTOFSM_ST_BEGIN_TRANSACTION, AUTOFSM_ST_TRANSACTION}" using s1(3) by simp
  from s1(2) this r(3) obtain s2 where s2: "smtp_step s1 r = Some s2" "smtp_inv s2" "pr_fsm_state s2 = AUTOFSM_ST_TRANSACTION"
    "pr_mail_from s2 = pr_mail_from s1" "elems (pr_rcpt_list s2) = elems (pr_rcpt_list s1) @ [x]" "pr_mail_data s2 = pr_mail_data s1"
    by (rule step_rcpt)
  from run_rcpts [OF s2(2,3) r(4)] obtain s3 where s3: "run_inputs smtp_step s2 rs' = Some s3" "smtp_inv s3"
    "pr_fsm_state s3 = AUTOFSM_ST_TRANSACTION" "pr_mail_from s3 = pr_mail_from s2"
    "elems (pr_rcpt_list s3) = elems (pr_rcpt_list s2) @ xs'" "pr_mail_data s3 = pr_mail_data s2" by blast
  from s3(2,3) assms(6) obtain s4 where s4: "smtp_step s3 d = Some s4" "smtp_inv s4" "pr_fsm_state s4 = AUTOFSM_ST_READ_DATA"
    "pr_mail_from s4 = pr_mail_from s3" "pr_rcpt_list s4 = pr_rcpt_list s3" "pr_mail_data s4 = pr_mail_data s3" by (rule step_data)
  from run_body [OF s4(2,3) assms(7)] obtain s5 where s5: "run_inputs smtp_step s4 ls = Some s5" "smtp_inv s5"
    "pr_fsm_state s5 = AUTOFSM_ST_READ_DATA" "pr_mail_from s5 = pr_mail_from s4" "pr_rcpt_list s5 = pr_rcpt_list s4"
    "elems (pr_mail_data s5) = elems (pr_mail_data s4) @ concat ls" by blast
  show thesis
    by (rule that [of s4 s5]) (use s1 s2 s3 s4 s5 r in \<open>simp_all add: run_inputs_append\<close>)
qed

text \<open>
  C14: A complete mail transaction. From a greeted connection, \<open>MAIL FROM\<close>, one or more \<open>RCPT TO\<close>,
  \<open>DATA\<close>, the lines of the text and the final dot run without undefined behaviour through all
  buffer and vector reallocations, and afterwards the state holds exactly this sender, these
  recipients in order and the concatenated lines, whatever the previous transaction left; the
  status is DATA_END, the reply is 250 and the next transaction can start.
\<close>

theorem mail_transaction:
  assumes "smtp_inv s" "pr_fsm_state s = AUTOFSM_ST_CLIENT_INIT" "line_command m (mail_cmd sender)"
    "list_all2 (\<lambda>buf x. line_command buf (rcpt_cmd x)) rs xs" "rs \<noteq> []" "line_command d pr_smtp_data_proc"
    "\<forall>l\<in>set ls. c_string l \<and> l \<noteq> SMTP_DATA_END"
  shows "\<exists>s'. run_inputs smtp_step s (m # rs @ d # ls @ [SMTP_DATA_END]) = Some s' \<and> smtp_inv s'
     \<and> pr_mail_from s' = sender \<and> elems (pr_rcpt_list s') = xs \<and> elems (pr_mail_data s') = concat ls
     \<and> pr_status s' = SMTP_STATUS_DATA_END \<and> pr_fsm_state s' = AUTOFSM_ST_CLIENT_INIT
     \<and> c_str (pr_buffer s') = Some (reply 250 SMTP_CODE_OK_MSG)"
proof -
  obtain s1 s2 where t: "run_inputs smtp_step s (m # rs @ [d]) = Some s1" "run_inputs smtp_step s1 ls = Some s2" "smtp_inv s2"
    "pr_fsm_state s2 = AUTOFSM_ST_READ_DATA" "pr_mail_from s2 = sender" "elems (pr_rcpt_list s2) = xs" "elems (pr_mail_data s2) = concat ls"
    by (rule transaction_lines [OF assms])
  have "c_string SMTP_DATA_END" by (simp add: SMTP_DATA_END_def NUL_def)
  from step_body [OF t(3,4) this] obtain s3 where s3: "smtp_step s2 SMTP_DATA_END = Some s3" "smtp_inv s3"
    "pr_rcpt_list s3 = pr_rcpt_list s2" "pr_mail_from s3 = pr_mail_from s2" "pr_status s3 = SMTP_STATUS_DATA_END"
    "pr_fsm_state s3 = AUTOFSM_ST_CLIENT_INIT" "pr_mail_data s3 = pr_mail_data s2"
    "c_str (pr_buffer s3) = Some (reply 250 SMTP_CODE_OK_MSG)" by auto
  have "m # rs @ d # ls @ [SMTP_DATA_END] = (m # rs @ [d]) @ ls @ [SMTP_DATA_END]" by simp
  then have "run_inputs smtp_step s (m # rs @ d # ls @ [SMTP_DATA_END]) = Some s3"
    using t(1,2) s3(1) by (simp only: run_inputs_append option.case run_inputs.simps)
  then show ?thesis using t(5-7) s3 by auto
qed

theorem mail_transaction_witness:
  "\<exists>s'. run_inputs smtp_step (fresh_smtp\<lparr>pr_fsm_state := AUTOFSM_ST_CLIENT_INIT\<rparr>)
        [crlf ''MAIL FROM:<a@b.c>'', crlf ''RCPT TO:<x@y.z>'', crlf ''DATA'', crlf ''hi'', SMTP_DATA_END] = Some s'
     \<and> pr_mail_from s' = Some \<lparr>user_name = Some ''a'', server_name = Some ''b.c''\<rparr>
     \<and> elems (pr_rcpt_list s') = [\<lparr>user_name = Some ''x'', server_name = Some ''y.z''\<rparr>]
     \<and> elems (pr_mail_data s') = crlf ''hi''"
proof -
  have 1: "smtp_inv (fresh_smtp\<lparr>pr_fsm_state := AUTOFSM_ST_CLIENT_INIT\<rparr>)" by (rule fresh_smtp_inv) simp
  have 2: "list_all2 (\<lambda>buf x. line_command buf (rcpt_cmd x)) [crlf ''RCPT TO:<x@y.z>''] [\<lparr>user_name = Some ''x'', server_name = Some ''y.z''\<rparr>]"
    using demo_lines(2) by simp
  have 3: "\<forall>l\<in>set [crlf ''hi'']. c_string l \<and> l \<noteq> SMTP_DATA_END"
    by (simp add: crlf_def SMTP_DATA_END_def SMTP_COMMAND_END_def NUL_def)
  from mail_transaction [OF 1 _ demo_lines(1) 2 _ demo_lines(3) 3] show ?thesis by auto
qed

text \<open>
  C15: Exactly when a session is defined. For a connection started by \<open>smtp_init\<close> and any
  sequence of input buffers, \<open>smtp_parse\<close> runs without undefined behaviour if and only if no
  line of blanks only (such as an empty line) arrives outside the mail text; such a line makes
  \<open>trim_str\<close> read in front of the line. In particular the \<open>assert(false)\<close> of the \<open>MAIL FROM\<close>
  parser cannot fail.
\<close>

theorem smtp_session_defined:
  "\<exists>s. smtp_init (Some s0) error = (Some s, True, ERROR_SUCCESS error)
       \<and> (run_inputs smtp_step s msgs \<noteq> UB \<longleftrightarrow> run_pre smtp_step smtp_pre s msgs)"
  using smtp_init_inv [of s0 error] smtp.run_defined_iff by blast

text \<open>
  C16: The parsers of \<open>MAIL FROM\<close> and \<open>RCPT TO\<close> are defined on every argument and equal to their
  reference: the command is accepted when a path occurs in the argument (or \<open>"<>"\<close> for a sender),
  and the mailbox is the leftmost-longest one of the whole argument, cut at its first \<open>@\<close>.
\<close>

theorem path_parsers_correct:
  assumes "c_string buff"
  shows "pr_smtp_mailfrom_proc buff =
      Some \<lparr>cmd_status = (regexec RE_PATH buff \<noteq> None \<or> regexec RE_EMPTY_PATH buff \<noteq> None), cmd_type = SMTP_MAILFROM,
            cmd_event = AUTOFSM_EV_MAIL,
            cmd_arg = (if regexec RE_PATH buff \<noteq> None then ArgMailbox (path_mailbox buff) else ArgNull)\<rparr>
    \<and> pr_smtp_rcptto_proc buff =
      Some \<lparr>cmd_status = (regexec RE_PATH buff \<noteq> None), cmd_type = SMTP_RCPTTO, cmd_event = AUTOFSM_EV_RCPT,
            cmd_arg = (if regexec RE_PATH buff \<noteq> None then ArgMailbox (path_mailbox buff) else ArgNull)\<rparr>"
  using mailfrom_proc_run [OF assms] rcptto_proc_run [OF assms] by simp

theorem path_parsers_correct_witness:
  "pr_smtp_rcptto_proc ''<x@y.z>'' =
     Some \<lparr>cmd_status = True, cmd_type = SMTP_RCPTTO, cmd_event = AUTOFSM_EV_RCPT,
           cmd_arg = ArgMailbox \<lparr>user_name = Some ''x'', server_name = Some ''y.z''\<rparr>\<rparr>"
proof -
  have 1: "c_string ''<x@y.z>''" by (simp add: NUL_def)
  have 2: "regexec RE_PATH ''<x@y.z>'' \<noteq> None \<and> path_mailbox ''<x@y.z>'' = \<lparr>user_name = Some ''x'', server_name = Some ''y.z''\<rparr>"
    by code_simp
  from path_parsers_correct [OF 1] 2 show ?thesis by simp
qed

text \<open>
  A command whose argument is rejected still moves the automaton. Whenever the parser takes a
  line for a command with an invalid argument that the state allows, the client gets 501 and
  nothing of the envelope or the text changes, but the state advances: after a rejected \<open>MAIL FROM\<close>
  the recipients, the text and the sender of the previous transaction stay in place in
  BEGIN_TRANSACTION, and a rejected \<open>RCPT TO\<close> makes \<open>DATA\<close> acceptable without any recipient.
\<close>

theorem rejected_argument_advances:
  assumes "smtp_inv s" "pr_fsm_state s \<noteq> AUTOFSM_ST_READ_DATA" "line_command buf c" "\<not> cmd_status c"
    "cmd_type c \<in> {SMTP_MAILFROM, SMTP_RCPTTO}" "autofsm_step (pr_fsm_state s) (cmd_event c) = st" "st \<noteq> AUTOFSM_ST_INVALID"
  shows "\<exists>s'. smtp_step s buf = Some s' \<and> pr_fsm_state s' = st \<and> pr_status s' = SMTP_STATUS_WARNING
     \<and> c_str (pr_buffer s') = Some (reply 501 SMTP_CODE_INVALID_ARGUMENT_MSG)
     \<and> pr_mail_from s' = pr_mail_from s \<and> pr_rcpt_list s' = pr_rcpt_list s \<and> pr_mail_data s' = pr_mail_data s"
proof -
  have "cmd_type c \<noteq> SMTP_INVALID_COMMAND" using assms(5) by auto
  from assms(1-3) this assms(6,7) obtain b n where
    "buf_ok b n" and b: "smtp_inv (s\<lparr>pr_buffer := b, pr_bsize := n\<rparr>)" and "cmd_ok c"
    and st: "\<And>s' r. run_command (s\<lparr>pr_buffer := b, pr_bsize := n\<rparr>) c = Some (s', r) \<Longrightarrow>
       smtp_step s buf = Some (s'\<lparr>pr_fsm_state := st, pr_status := r\<rparr>)" by (rule smtp_step_accepted) blast
  obtain s1 where s1: "smtp_make_response (s\<lparr>pr_buffer := b, pr_bsize := n\<rparr>) 501 SMTP_CODE_INVALID_ARGUMENT_MSG = Some s1"
    "pr_rcpt_list s1 = pr_rcpt_list s" "pr_mail_data s1 = pr_mail_data s" "pr_mail_from s1 = pr_mail_from s"
    "c_str (pr_buffer s1) = Some (reply 501 SMTP_CODE_INVALID_ARGUMENT_MSG)"
    by (rule response_inv [OF b, of SMTP_CODE_INVALID_ARGUMENT_MSG 501]) auto
  have "run_command (s\<lparr>pr_buffer := b, pr_bsize := n\<rparr>) c = Some (s1, SMTP_STATUS_WARNING)"
    using s1(1) assms(4,5) by (auto simp: run_command_def pr_smtp_command_mailfrom_def pr_smtp_command_rcpto_def)
  from st [OF this] s1 show ?thesis by simp
qed

theorem rejected_argument_advances_witness:
  "\<exists>s'. smtp_step (fresh_smtp\<lparr>pr_fsm_state := AUTOFSM_ST_BEGIN_TRANSACTION\<rparr>) (crlf ''RCPT TO:x'') = Some s'
     \<and> pr_fsm_state s' = AUTOFSM_ST_TRANSACTION \<and> pr_rcpt_list s' = pr_rcpt_list fresh_smtp"
proof -
  let ?c = "\<lparr>cmd_status = False, cmd_type = SMTP_RCPTTO, cmd_event = AUTOFSM_EV_RCPT, cmd_arg = ArgNull\<rparr>"
  have 1: "smtp_inv (fresh_smtp\<lparr>pr_fsm_state := AUTOFSM_ST_BEGIN_TRANSACTION\<rparr>)" by (rule fresh_smtp_inv) simp
  have 2: "line_command (crlf ''RCPT TO:x'') ?c" by code_simp
  from rejected_argument_advances [OF 1 _ 2] show ?thesis by auto
qed

text \<open>
  The command patterns are not anchored, and the verbs are looked for in a fixed order in the
  whole line: \<open>HELP database\<close> and \<open>RSET my data\<close> are taken for DATA, and the sender of
  \<open>MAIL FROM: x@y.z <a@b.c>\<close> is the mailbox outside the brackets.
\<close>

theorem patterns_unanchored:
  "command_of ''HELP database'' = Some pr_smtp_data_proc \<and> command_of ''RSET my data'' = Some pr_smtp_data_proc
   \<and> command_of ''MAIL FROM: x@y.z <a@b.c>'' = Some (mail_cmd (Some \<lparr>user_name = Some ''x'', server_name = Some ''y.z''\<rparr>))"
  by (intro conjI; code_simp)

end
