(* ===== verification/Users.thy ===== *)
theory Users
  imports Smtp Interfaces
begin

text \<open>
  The contexts of the connected users, \<open>server/src/lib/server/users_list.c\<close>. A context is lent
  out by taking its entry off the list: \<open>users_list__user_find_by_sock\<close> fills an accessor with
  it, \<open>user_accessor_release\<close> puts it back at the tail. The list is the list of the contexts its
  entries point at; every caller passes a context to \<open>users_list__add\<close>. The mutex is locked
  around each change, so each operation is one step; the interleavings of several threads are the
  relation \<open>pool_step\<close>. The interface \<open>lending\<close> states what the handlers rely on.
\<close>

section \<open>State and operations\<close>

definition TEMPORARY_BUFFER_SIZE :: int where "TEMPORARY_BUFFER_SIZE = 512"

record user_context =
  uc_smtp :: smtp_state
  uc_buffer :: "char vector"
  uc_read_buffer :: string
  uc_write_buffer :: "char vector"
  uc_socket :: int
  uc_addr :: client_addr

type_synonym users_list = "user_context list"

record user_accessor =
  acc_user :: "user_context ptr"
  acc_list_entry :: bool
  acc_users_list :: bool

definition accessor_empty :: user_accessor where
  "accessor_empty = \<lparr>acc_user = NULL, acc_list_entry = False, acc_users_list = False\<rparr>"

definition user_free :: "user_context ptr \<Rightarrow> user_context ptr ub" where
  "user_free context =
     (case context of
        NULL \<Rightarrow> Some NULL
      | Some c \<Rightarrow>
          do {
            s \<leftarrow> smtp_free (Some (uc_smtp c));
            Some (Some (c\<lparr>uc_buffer := the (VECTOR_FREE (Some (uc_buffer c))),
                          uc_write_buffer := the (VECTOR_FREE (Some (uc_write_buffer c))), uc_smtp := the s\<rparr>))
          })"

definition users_list__init :: "users_list \<Rightarrow> users_list \<times> bool" where
  "users_list__init users = ([], True)"

fun users_list_free_entries :: "users_list \<Rightarrow> users_list ub" where
  "users_list_free_entries [] = Some []"
| "users_list_free_entries (u # us) = do { _ \<leftarrow> user_free (Some u); users_list_free_entries us }"

definition users_list__free :: "users_list ptr \<Rightarrow> users_list ptr ub" where
  "users_list__free users =
     (case users of NULL \<Rightarrow> Some NULL | Some us \<Rightarrow> map_option Some (users_list_free_entries us))"

text \<open>The entry is written without a test of the allocation; the caller's pointer becomes null.\<close>

definition users_list__add :: "bool \<Rightarrow> users_list \<Rightarrow> user_context \<Rightarrow> (users_list \<times> user_context ptr \<times> bool) ub" where
  "users_list__add mok users user = (if mok then Some (users @ [user], NULL, True) else UB)"

definition users_list__user_find_by_sock ::
    "users_list \<Rightarrow> user_accessor \<Rightarrow> int \<Rightarrow> users_list \<times> user_accessor \<times> bool" where
  "users_list__user_find_by_sock users accessor sock =
     (case List.find (\<lambda>u. uc_socket u = sock) users of
        None \<Rightarrow> (users, accessor, False)
      | Some u \<Rightarrow> (tailq_remove_first (\<lambda>u. uc_socket u = sock) users,
                   accessor\<lparr>acc_user := Some u, acc_list_entry := True, acc_users_list := True\<rparr>, True))"

definition users_list__is_exist :: "users_list ptr \<Rightarrow> int \<Rightarrow> bool" where
  "users_list__is_exist users sock =
     (case users of NULL \<Rightarrow> False | Some us \<Rightarrow> List.find (\<lambda>u. uc_socket u = sock) us \<noteq> None)"

definition user_accessor_release :: "users_list \<Rightarrow> user_accessor ptr \<Rightarrow> users_list \<times> user_accessor ptr" where
  "user_accessor_release users accessor =
     (case accessor of
        NULL \<Rightarrow> (users, NULL)
      | Some a \<Rightarrow>
          (case acc_user a of
             NULL \<Rightarrow> (users, Some a)
           | Some u \<Rightarrow>
               if acc_users_list a \<and> acc_list_entry a then (users @ [u], Some accessor_empty) else (users, Some a)))"

text \<open>The entry is released; the context stays with the caller.\<close>

definition users_list__delete_user :: "user_accessor \<Rightarrow> user_accessor" where
  "users_list__delete_user accessor = accessor\<lparr>acc_users_list := False, acc_list_entry := False\<rparr>"

section \<open>Lending\<close>

text \<open>
  A store that lends its elements out one at a time: an element that is out cannot be found, and
  what comes back is found again.
\<close>

locale lending =
  fixes lend :: "'s \<Rightarrow> 'k \<Rightarrow> 's \<times> 'e option"
    and give_back :: "'s \<Rightarrow> 'e \<Rightarrow> 's"
    and key :: "'e \<Rightarrow> 'k"
    and content :: "'s \<Rightarrow> 'e multiset"
  assumes lend_some: "lend s k = (s', Some e) \<Longrightarrow> key e = k \<and> content s = add_mset e (content s')"
    and lend_none: "lend s k = (s', None) \<Longrightarrow> s' = s \<and> (\<forall>e. e \<in># content s \<longrightarrow> key e \<noteq> k)"
    and give_back_law: "content (give_back s e) = add_mset e (content s)"
begin

definition keys :: "'s \<Rightarrow> 'k multiset" where "keys s = image_mset key (content s)"

lemma lend_keys: "lend s k = (s', Some e) \<Longrightarrow> keys s = add_mset k (keys s')"
  using lend_some [of s k s' e] by (simp add: keys_def)

lemma lend_iff: "(\<exists>s' e. lend s k = (s', Some e)) \<longleftrightarrow> k \<in># keys s"
proof (cases "lend s k")
  case (Pair s' r)
  then show ?thesis
  proof (cases r)
    case None
    with Pair lend_none [of s k s'] show ?thesis by (auto simp: keys_def)
  next
    case (Some e)
    with Pair lend_keys [of s k s' e] show ?thesis by auto
  qed
qed

text \<open>With one element per key, what is lent out cannot be found until it is back.\<close>

lemma lent_is_hidden:
  assumes "count (keys s) k \<le> 1" "lend s k = (s', Some e)"
  shows "\<exists>s''. lend s' k = (s'', None)"
proof -
  from lend_keys [OF assms(2)] assms(1) have "count (keys s') k = 0" by simp
  then have "k \<notin># keys s'" by (simp add: not_in_iff)
  then show ?thesis using lend_iff [of s' k] by (cases "lend s' k") (metis option.exhaust)
qed

lemma given_back_is_found: "\<exists>s' e'. lend (give_back s e) (key e) = (s', Some e')"
  unfolding lend_iff by (simp add: keys_def give_back_law)

lemma lend_give_back_keys: "lend s k = (s', Some e) \<Longrightarrow> key e' = k \<Longrightarrow> keys (give_back s' e') = keys s"
  using lend_keys [of s k s' e] by (simp add: keys_def give_back_law)

end

definition users_lend :: "users_list \<Rightarrow> int \<Rightarrow> users_list \<times> user_context option" where
  "users_lend us sock =
     (case users_list__user_find_by_sock us accessor_empty sock of (us', a, found) \<Rightarrow> (us', if found then acc_user a else None))"

definition users_give_back :: "users_list \<Rightarrow> user_context \<Rightarrow> users_list" where
  "users_give_back us u =
     fst (user_accessor_release us (Some \<lparr>acc_user = Some u, acc_list_entry = True, acc_users_list = True\<rparr>))"

lemma users_give_back_run: "users_give_back us u = us @ [u]"
  by (simp add: users_give_back_def user_accessor_release_def)

lemma users_lend_run:
  "users_lend us sock =
     (tailq_remove_first (\<lambda>u. uc_socket u = sock) us, List.find (\<lambda>u. uc_socket u = sock) us)"
  by (cases "List.find (\<lambda>u. uc_socket u = sock) us")
     (simp_all add: users_lend_def users_list__user_find_by_sock_def tailq_simps)

interpretation users: lending users_lend users_give_back uc_socket mset
proof unfold_locales
  fix us us' :: users_list and k u
  assume "users_lend us k = (us', Some u)"
  then show "uc_socket u = k \<and> mset us = add_mset u (mset us')"
    using find_SomeD [of "\<lambda>u. uc_socket u = k" us u] mset_tailq_remove_first [of "\<lambda>u. uc_socket u = k" us u]
    by (simp add: users_lend_run)
next
  fix us us' :: users_list and k
  assume "users_lend us k = (us', None)"
  then show "us' = us \<and> (\<forall>u. u \<in># mset us \<longrightarrow> uc_socket u \<noteq> k)"
    by (auto simp: users_lend_run find_None_iff tailq_simps)
next
  fix us :: users_list and u
  show "mset (users_give_back us u) = add_mset u (mset us)" by (simp add: users_give_back_run)
qed

section \<open>Several threads\<close>

text \<open>
  The list shared by the threads, the context each thread has taken out, and the descriptors that are
  open. A connection brings a descriptor that is not open, as \<open>accept\<close> does; a thread that holds a
  context may change it, except its socket. A descriptor may be closed at any time: \<open>handler_write\<close>
  closes it while it holds the context and drops the context then, \<open>el_socket_close\<close> closes it while
  the context is in the list. For the statement, \<open>pool_live\<close> are the sockets of the contexts that
  were added and not dropped, and \<open>pool_early\<close> those whose descriptor was closed before.
\<close>

record pool =
  pool_list :: users_list
  pool_held :: "nat \<Rightarrow> user_context option"
  pool_open :: "int set"
  pool_live :: "int multiset"
  pool_early :: "int set"

inductive pool_step :: "pool \<Rightarrow> pool \<Rightarrow> bool" where
  connect: "uc_socket u \<notin> pool_open p \<Longrightarrow> users_list__add True (pool_list p) u = Some (us, NULL, True) \<Longrightarrow>
    pool_step p (p\<lparr>pool_list := us, pool_open := insert (uc_socket u) (pool_open p), pool_live := add_mset (uc_socket u) (pool_live p)\<rparr>)"
| acquire: "pool_held p t = None \<Longrightarrow> users_list__user_find_by_sock (pool_list p) accessor_empty s = (us, a, True) \<Longrightarrow>
    pool_step p (p\<lparr>pool_list := us, pool_held := (pool_held p)(t := acc_user a)\<rparr>)"
| work: "pool_held p t = Some u \<Longrightarrow> uc_socket u' = uc_socket u \<Longrightarrow>
    pool_step p (p\<lparr>pool_held := (pool_held p)(t := Some u')\<rparr>)"
| release: "pool_held p t = Some u \<Longrightarrow>
    user_accessor_release (pool_list p) (Some \<lparr>acc_user = Some u, acc_list_entry = True, acc_users_list = True\<rparr>) = (us, a) \<Longrightarrow>
    pool_step p (p\<lparr>pool_list := us, pool_held := (pool_held p)(t := None)\<rparr>)"
| close_fd: "s \<in> pool_open p \<Longrightarrow>
    pool_step p (p\<lparr>pool_open := pool_open p - {s}, pool_early := pool_early p \<union> ({s} \<inter> set_mset (pool_live p))\<rparr>)"
| drop_user: "pool_held p t = Some u \<Longrightarrow> live = pool_live p - {#uc_socket u#} \<Longrightarrow>
    pool_step p (p\<lparr>pool_held := (pool_held p)(t := None), pool_live := live, pool_early := pool_early p \<inter> set_mset live\<rparr>)"

definition pool_start :: pool where
  "pool_start = \<lparr>pool_list = [], pool_held = (\<lambda>_. None), pool_open = {}, pool_live = {#}, pool_early = {}\<rparr>"

definition held_sockets :: "(nat \<Rightarrow> user_context option) \<Rightarrow> int multiset" where
  "held_sockets h = image_mset (\<lambda>t. uc_socket (the (h t))) (mset_set (dom h))"

lemma held_take: "finite (dom h) \<Longrightarrow> h t = None \<Longrightarrow> held_sockets (h(t := Some u)) = add_mset (uc_socket u) (held_sockets h)"
proof -
  assume h: "finite (dom h)" "h t = None"
  then have "image_mset (\<lambda>x. uc_socket (the ((h(t \<mapsto> u)) x))) (mset_set (dom h)) = held_sockets h"
    unfolding held_sockets_def by (intro image_mset_cong) (auto simp: dom_def)
  with h show ?thesis by (simp add: held_sockets_def domIff)
qed

lemma held_put:
  assumes "finite (dom h)" "h t = Some u"
  shows "held_sockets h = add_mset (uc_socket u) (held_sockets (h(t := None)))"
proof -
  have "h = (h(t := None))(t \<mapsto> u)" using assms(2) by auto
  then show ?thesis using held_take [of "h(t := None)" t u] assms(1) by (metis dom_fun_upd finite_Diff fun_upd_same)
qed

lemma held_change:
  assumes "finite (dom h)" "h t = Some u" "uc_socket u' = uc_socket u"
  shows "held_sockets (h(t := Some u')) = held_sockets h"
  using held_put [OF assms(1,2)] held_take [of "h(t := None)" t u'] assms by simp

lemma held_in: "finite (dom h) \<Longrightarrow> s \<in># held_sockets h \<longleftrightarrow> (\<exists>t u. h t = Some u \<and> uc_socket u = s)"
  by (force simp: held_sockets_def dom_def)

text \<open>
  Every context is in the list or with one thread; the sockets that were not closed early belong to
  one context at most, and are open if they do.
\<close>

definition pool_ok :: "pool \<Rightarrow> bool" where
  "pool_ok p \<longleftrightarrow> finite (dom (pool_held p)) \<and> users.keys (pool_list p) + held_sockets (pool_held p) = pool_live p
     \<and> (\<forall>s. s \<notin> pool_early p \<longrightarrow> count (pool_live p) s \<le> 1 \<and> (s \<in># pool_live p \<longrightarrow> s \<in> pool_open p))"

lemma pool_step_ok: "pool_step p p' \<Longrightarrow> pool_ok p \<Longrightarrow> pool_ok p'"
proof (induction rule: pool_step.induct)
  case (connect u p us)
  then have "us = pool_list p @ [u]" by (simp add: users_list__add_def)
  moreover have "count (pool_live p) (uc_socket u) = 0" if "uc_socket u \<notin> pool_early p"
    using connect that by (auto simp: pool_ok_def not_in_iff)
  ultimately show ?case using connect by (auto simp: pool_ok_def users.keys_def)
next
  case (acquire p t s us a)
  then obtain u where u: "acc_user a = Some u" "users_lend (pool_list p) s = (us, Some u)"
    by (auto simp: users_list__user_find_by_sock_def users_lend_def split: option.splits)
  have "users.keys (pool_list p) = add_mset (uc_socket u) (users.keys us)"
    using users.lend_keys [OF u(2)] users.lend_some [OF u(2)] by simp
  then show ?case using acquire held_take [of "pool_held p" t u] u(1) by (simp add: pool_ok_def)
next
  case (work p t u u')
  then show ?case using held_change [of "pool_held p" t u u'] by (simp add: pool_ok_def)
next
  case (release p t u us a)
  then have "us = users_give_back (pool_list p) u" by (simp add: users_give_back_def)
  then have "users.keys us = add_mset (uc_socket u) (users.keys (pool_list p))"
    using users.give_back_law by (simp add: users.keys_def)
  then show ?case using release held_put [of "pool_held p" t u] by (simp add: pool_ok_def)
next
  case (close_fd s p)
  then show ?case by (auto simp: pool_ok_def)
next
  case (drop_user p t u live)
  have h: "held_sockets (pool_held p) = add_mset (uc_socket u) (held_sockets ((pool_held p)(t := None)))"
    using drop_user held_put by (simp add: pool_ok_def)
  have "users.keys (pool_list p) + held_sockets (pool_held p) = pool_live p" using drop_user(3) by (simp add: pool_ok_def)
  then have l: "pool_live p = add_mset (uc_socket u) (users.keys (pool_list p) + held_sockets ((pool_held p)(t := None)))"
    by (simp add: h)
  then have live: "live = users.keys (pool_list p) + held_sockets ((pool_held p)(t := None))" using drop_user(2) by simp
  have le: "count live s \<le> count (pool_live p) s" for s unfolding drop_user(2) by simp
  have others: "count live s \<le> 1 \<and> (s \<in># live \<longrightarrow> s \<in> pool_open p)" if "s \<notin> pool_early p \<inter> set_mset live" for s
  proof (cases "s \<in># live")
    case True
    with that have "s \<notin> pool_early p" by simp
    moreover have "s \<in># pool_live p" using True unfolding drop_user(2) by (rule in_diffD)
    ultimately show ?thesis using drop_user(3) le [of s] unfolding pool_ok_def by (meson le_trans)
  next
    case False
    then have "count live s = 0" by (simp add: not_in_iff)
    with False show ?thesis by simp
  qed
  have "finite (dom (pool_held p))" using drop_user(3) by (simp add: pool_ok_def)
  then show ?case using live [symmetric] others unfolding pool_ok_def by auto
qed

lemma pool_reachable_ok: "pool_step\<^sup>*\<^sup>* pool_start p \<Longrightarrow> pool_ok p"
proof (induction rule: rtranclp_induct)
  case base
  show ?case by (simp add: pool_ok_def pool_start_def held_sockets_def users.keys_def)
next
  case (step p p')
  then show ?case by (simp add: pool_step_ok)
qed

lemma find_by_sock_iff: "(\<exists>us a. users_list__user_find_by_sock us0 acc s = (us, a, True)) \<longleftrightarrow> s \<in># users.keys us0"
  by (auto simp: users_list__user_find_by_sock_def users.keys_def find_None_iff image_iff dest: find_SomeD split: option.split)

lemma find_by_sock_none: "s \<notin># users.keys us \<Longrightarrow>
    users_list__is_exist (Some us) s = False \<and> users_list__user_find_by_sock us acc s = (us, acc, False)"
proof -
  assume "s \<notin># users.keys us"
  then have "List.find (\<lambda>u. uc_socket u = s) us = None" by (auto simp: users.keys_def find_None_iff image_iff)
  then show ?thesis by (simp add: users_list__is_exist_def users_list__user_find_by_sock_def)
qed

section \<open>A descriptor that is used again\<close>

definition demo_user :: "int \<Rightarrow> user_context" where
  "demo_user s = \<lparr>uc_smtp = fresh_smtp, uc_buffer = vec_new NUL, uc_read_buffer = [], uc_write_buffer = vec_new NUL,
                  uc_socket = s, uc_addr = \<lparr>ca_ip = ''10.0.0.1'', ca_port = 4711\<rparr>\<rparr>"

text \<open>
  A thread closes the descriptor of the context it holds; before it drops the context, another client
  is given the descriptor. The second context can be found and taken while the first is still held.
\<close>

lemma reused_descriptor_is_found:
  "\<exists>q t t' u u'. pool_step\<^sup>*\<^sup>* pool_start q \<and> t \<noteq> t'
    \<and> pool_held q t = Some u \<and> pool_held q t' = Some u' \<and> uc_socket u = uc_socket u' \<and> u \<noteq> u'"
proof -
  let ?new = "(demo_user 4)\<lparr>uc_addr := \<lparr>ca_ip = ''10.0.0.2'', ca_port = 99\<rparr>\<rparr>"
  let ?p = "\<lambda>us h fds live early. \<lparr>pool_list = us, pool_held = h, pool_open = fds, pool_live = live, pool_early = early\<rparr>"
  let ?acc = "\<lambda>u. accessor_empty\<lparr>acc_user := Some u, acc_list_entry := True, acc_users_list := True\<rparr>"
  have s: "uc_socket (demo_user 4) = 4" "uc_socket ?new = 4" "demo_user 4 \<noteq> ?new" by (simp_all add: demo_user_def)
  have "pool_step pool_start (?p [demo_user 4] (\<lambda>_. None) {4} {#4#} {})"
    using pool_step.connect [of "demo_user 4" pool_start] s by (simp add: pool_start_def users_list__add_def)
  moreover have "pool_step (?p [demo_user 4] (\<lambda>_. None) {4} {#4#} {}) (?p [] [1 \<mapsto> demo_user 4] {4} {#4#} {})"
    using pool_step.acquire [of "?p [demo_user 4] (\<lambda>_. None) {4} {#4#} {}" 1 4 "[]" "?acc (demo_user 4)"] s
    by (simp add: users_list__user_find_by_sock_def)
  moreover have "pool_step (?p [] [1 \<mapsto> demo_user 4] {4} {#4#} {}) (?p [] [1 \<mapsto> demo_user 4] {} {#4#} {4})"
    using pool_step.close_fd [of 4 "?p [] [1 \<mapsto> demo_user 4] {4} {#4#} {}"] by simp
  moreover have "pool_step (?p [] [1 \<mapsto> demo_user 4] {} {#4#} {4}) (?p [?new] [1 \<mapsto> demo_user 4] {4} {#4, 4#} {4})"
    using pool_step.connect [of ?new "?p [] [1 \<mapsto> demo_user 4] {} {#4#} {4}"] s by (simp add: users_list__add_def)
  moreover have "pool_step (?p [?new] [1 \<mapsto> demo_user 4] {4} {#4, 4#} {4}) (?p [] [1 \<mapsto> demo_user 4, 2 \<mapsto> ?new] {4} {#4, 4#} {4})"
    using pool_step.acquire [of "?p [?new] [1 \<mapsto> demo_user 4] {4} {#4, 4#} {4}" 2 4 "[]" "?acc ?new"] s
    by (simp add: users_list__user_find_by_sock_def)
  ultimately have "pool_step\<^sup>*\<^sup>* pool_start (?p [] [1 \<mapsto> demo_user 4, 2 \<mapsto> ?new] {4} {#4, 4#} {4})"
    by (meson rtranclp.rtrancl_into_rtrancl rtranclp.rtrancl_refl)
  then show ?thesis using s
    by (intro exI [of _ "?p [] [1 \<mapsto> demo_user 4, 2 \<mapsto> ?new] {4} {#4, 4#} {4}"] exI [of _ 1] exI [of _ 2]
        exI [of _ "demo_user 4"] exI [of _ ?new]) simp
qed

section \<open>Properties\<close>

text \<open>
  C26: Contexts are lent to one thread at a time and none is lost, whatever the interleaving of the
  threads. The sockets of the contexts in the list and of those that are held are together the
  sockets of the contexts that were added and not dropped, each counted once. A context that no thread
  holds can be found. And as long as its descriptor is not closed, a context that a thread holds is
  invisible to the others: the list neither has its socket nor finds it, so a handler that runs
  meanwhile reports the user as missing, and no other thread holds a context of this socket. When the
  descriptor is closed first, as \<open>handler_write\<close> does for \<open>QUIT\<close> while it holds the context, the next
  client may be given it, and two threads can hold different contexts of the same socket.
\<close>

theorem user_access_is_exclusive:
  assumes "pool_step\<^sup>*\<^sup>* pool_start p"
  shows "image_mset uc_socket (mset (pool_list p)) + held_sockets (pool_held p) = pool_live p
     \<and> (\<forall>s\<in>#pool_live p. (\<forall>t u. pool_held p t = Some u \<longrightarrow> uc_socket u \<noteq> s) \<longrightarrow>
          (\<exists>us a. users_list__user_find_by_sock (pool_list p) accessor_empty s = (us, a, True)))
     \<and> (\<forall>t u acc. pool_held p t = Some u \<longrightarrow> uc_socket u \<notin> pool_early p \<longrightarrow>
          users_list__is_exist (Some (pool_list p)) (uc_socket u) = False
          \<and> users_list__user_find_by_sock (pool_list p) acc (uc_socket u) = (pool_list p, acc, False)
          \<and> (\<forall>t' u'. pool_held p t' = Some u' \<and> uc_socket u' = uc_socket u \<longrightarrow> t' = t))
     \<and> (\<exists>q t t' u u'. pool_step\<^sup>*\<^sup>* pool_start q \<and> t \<noteq> t'
          \<and> pool_held q t = Some u \<and> pool_held q t' = Some u' \<and> uc_socket u = uc_socket u' \<and> u \<noteq> u')"
proof -
  from pool_reachable_ok [OF assms] have f: "finite (dom (pool_held p))"
    and live: "users.keys (pool_list p) + held_sockets (pool_held p) = pool_live p"
    and one: "\<And>s. s \<notin> pool_early p \<Longrightarrow> count (pool_live p) s \<le> 1" by (simp_all add: pool_ok_def)
  have found: "\<exists>us a. users_list__user_find_by_sock (pool_list p) accessor_empty s = (us, a, True)"
    if "s \<in># pool_live p" "\<forall>t u. pool_held p t = Some u \<longrightarrow> uc_socket u \<noteq> s" for s
    using that held_in [OF f, of s] find_by_sock_iff unfolding live [symmetric] by fastforce
  have hidden: "s \<notin># users.keys (pool_list p) \<and> (\<forall>t' u'. pool_held p t' = Some u' \<and> uc_socket u' = s \<longrightarrow> t' = t)"
    if h: "pool_held p t = Some u" and s: "s = uc_socket u" "s \<notin> pool_early p" for t u s
  proof -
    let ?h = "(pool_held p)(t := None)"
    have "pool_live p = users.keys (pool_list p) + add_mset s (held_sockets ?h)"
      using held_put [OF f h] live s(1) by simp
    with one [OF s(2)] have "s \<notin># users.keys (pool_list p)" "s \<notin># held_sockets ?h" by (auto simp: not_in_iff)
    moreover have "finite (dom ?h)" using f by simp
    ultimately show ?thesis using held_in [of ?h s] by (metis fun_upd_apply)
  qed
  show ?thesis using live found hidden find_by_sock_none reused_descriptor_is_found
    unfolding users.keys_def by (intro conjI) blast+
qed

theorem user_access_is_exclusive_witness:
  "\<exists>p u. pool_step\<^sup>*\<^sup>* pool_start p \<and> pool_held p 1 = Some u \<and> uc_socket u = 4
     \<and> users_list__is_exist (Some (pool_list p)) 4 = False \<and> pool_list p = [demo_user 5]"
proof -
  let ?p = "\<lambda>us h fds live. \<lparr>pool_list = us, pool_held = h, pool_open = fds, pool_live = live, pool_early = {}\<rparr>"
  have s: "uc_socket (demo_user n) = n" for n by (simp add: demo_user_def)
  have "pool_step pool_start (?p [demo_user 4] (\<lambda>_. None) {4} {#4#})"
    using pool_step.connect [of "demo_user 4" pool_start] s by (simp add: pool_start_def users_list__add_def)
  moreover have "pool_step (?p [demo_user 4] (\<lambda>_. None) {4} {#4#}) (?p [demo_user 4, demo_user 5] (\<lambda>_. None) {5, 4} {#5, 4#})"
    using pool_step.connect [of "demo_user 5" "?p [demo_user 4] (\<lambda>_. None) {4} {#4#}"] s by (simp add: users_list__add_def)
  moreover have "pool_step (?p [demo_user 4, demo_user 5] (\<lambda>_. None) {5, 4} {#5, 4#}) (?p [demo_user 5] [1 \<mapsto> demo_user 4] {5, 4} {#5, 4#})"
    using pool_step.acquire [of "?p [demo_user 4, demo_user 5] (\<lambda>_. None) {5, 4} {#5, 4#}" 1 4 "[demo_user 5]"
        "accessor_empty\<lparr>acc_user := Some (demo_user 4), acc_list_entry := True, acc_users_list := True\<rparr>"] s
    by (simp add: users_list__user_find_by_sock_def)
  ultimately have r: "pool_step\<^sup>*\<^sup>* pool_start (?p [demo_user 5] [1 \<mapsto> demo_user 4] {5, 4} {#5, 4#})"
    by (meson rtranclp.rtrancl_into_rtrancl rtranclp.rtrancl_refl)
  from user_access_is_exclusive [OF r, THEN conjunct2, THEN conjunct2, THEN conjunct1] s [of 4]
  have "users_list__is_exist (Some [demo_user 5]) 4 = False" by (metis empty_iff fun_upd_same pool.select_convs(1,2,5))
  with r s show ?thesis by (intro exI [of _ "?p [demo_user 5] [1 \<mapsto> demo_user 4] {5, 4} {#5, 4#}"] exI [of _ "demo_user 4"]) simp
qed

end
