(* ===== verification/Table.thy ===== *)
theory Table
  imports Smtp
begin

text \<open>
  The table that groups the recipients of other servers by server, \<open>server/src/lib/server/table.c\<close>:
  a list of entries, each a key in a buffer of \<open>TABLE_MAX_KEY_LENGTH\<close> bytes and a vector of
  mailboxes. The copies into that buffer are unbounded, so a longer key is undefined behaviour.
\<close>

section \<open>State and operations\<close>

definition TABLE_MAX_KEY_LENGTH :: nat where "TABLE_MAX_KEY_LENGTH = 128"

record table_vectors_entry =
  tab_array :: "smtp_mailbox vector"
  tab_key :: string

type_synonym table_t = "table_vectors_entry list"

text \<open>A key as it is copied to another buffer of the same size, \<open>table_key_t\<close>.\<close>

definition key_copy :: "string \<Rightarrow> string ub" where
  "key_copy key = (if length key < TABLE_MAX_KEY_LENGTH then Some key else UB)"

definition pr_table_get :: "table_t \<Rightarrow> string \<Rightarrow> table_vectors_entry ptr" where
  "pr_table_get table key = List.find (\<lambda>e. tab_key e = key) table"

definition table_init :: "table_t ptr \<Rightarrow> table_t ptr \<times> bool" where
  "table_init table = (case table of NULL \<Rightarrow> (NULL, False) | Some _ \<Rightarrow> (Some [], True))"

definition table_clear :: "table_t ptr \<Rightarrow> table_t ptr \<times> bool" where
  "table_clear table = (case table of NULL \<Rightarrow> (NULL, False) | Some _ \<Rightarrow> (Some [], True))"

definition table_free :: "table_t ptr \<Rightarrow> table_t ptr" where
  "table_free table = fst (table_clear table)"

definition table_push :: "table_t ptr \<Rightarrow> string ptr \<Rightarrow> smtp_mailbox ptr \<Rightarrow> (table_t ptr \<times> bool) ub" where
  "table_push table key value =
     (case (table, key, value) of
        (Some t, Some k, Some v) \<Rightarrow>
          do {
            t1 \<leftarrow> (case pr_table_get t k of
                     NULL \<Rightarrow> do { k' \<leftarrow> key_copy k; Some (t @ [\<lparr>tab_array = vec_new zero_mailbox, tab_key = k'\<rparr>]) }
                   | Some _ \<Rightarrow> Some t);
            e \<leftarrow> pr_table_get t1 k;
            a \<leftarrow> vec_push zero_mailbox (tab_array e) v;
            Some (Some (tailq_update_first (\<lambda>e. tab_key e = k) (\<lambda>e. e\<lparr>tab_array := a\<rparr>) t1), True)
          }
      | _ \<Rightarrow> Some (table, False))"

definition table_get :: "table_t ptr \<Rightarrow> string ptr \<Rightarrow> smtp_mailbox vector ptr" where
  "table_get table key =
     (case (table, key) of
        (Some t, Some k) \<Rightarrow> map_option tab_array (pr_table_get t k)
      | _ \<Rightarrow> NULL)"

text \<open>The loop of \<open>table_keys\<close> over the entries.\<close>

fun push_keys :: "table_t \<Rightarrow> string vector \<Rightarrow> string vector ub" where
  "push_keys [] keys = Some keys"
| "push_keys (e # es) keys =
     do {
       key \<leftarrow> key_copy (tab_key e);
       keys' \<leftarrow> vec_push [] keys key;
       push_keys es keys'
     }"

definition table_keys :: "table_t ptr \<Rightarrow> string vector \<Rightarrow> (string vector \<times> bool) ub" where
  "table_keys table keys =
     (case table of
        NULL \<Rightarrow> Some (keys, False)
      | Some t \<Rightarrow> do { keys' \<leftarrow> push_keys t keys; Some (keys', True) })"

section \<open>The table as a map from keys to lists\<close>

definition table_ok :: "table_t \<Rightarrow> bool" where
  "table_ok t \<longleftrightarrow> distinct (map tab_key t) \<and>
     (\<forall>e\<in>set t. vec_ok (tab_array e) \<and> elems (tab_array e) \<noteq> [] \<and> length (tab_key e) < TABLE_MAX_KEY_LENGTH)"

definition table_view :: "table_t \<Rightarrow> string \<Rightarrow> smtp_mailbox list" where
  "table_view t k = (case pr_table_get t k of None \<Rightarrow> [] | Some e \<Rightarrow> elems (tab_array e))"

lemma table_view_keys:
  assumes "table_ok t"
  shows "table_view t k \<noteq> [] \<longleftrightarrow> k \<in> tab_key ` set t"
proof (cases "pr_table_get t k")
  case None
  then have "\<forall>e\<in>set t. tab_key e \<noteq> k" by (auto simp: pr_table_get_def find_None_iff)
  then have "k \<notin> tab_key ` set t" by blast
  with None show ?thesis by (simp add: table_view_def)
next
  case (Some e)
  from Some find_SomeD [of "\<lambda>e. tab_key e = k" t e] have "e \<in> set t" "tab_key e = k" by (simp_all add: pr_table_get_def)
  moreover from this assms have "elems (tab_array e) \<noteq> []" by (simp add: table_ok_def)
  ultimately show ?thesis using Some by (auto simp: table_view_def)
qed

lemma table_push_new:
  assumes "table_ok t" "pr_table_get t k = None" "length k < TABLE_MAX_KEY_LENGTH"
  shows "\<exists>t'. table_push (Some t) (Some k) (Some m) = Some (Some t', True) \<and> table_ok t'
     \<and> table_view t' = (table_view t)(k := table_view t k @ [m]) \<and> map tab_key t' = map tab_key t @ [k]"
proof -
  obtain a where a: "vec_push zero_mailbox (vec_new zero_mailbox) m = Some a" "vec_ok a" "elems a = [m]"
    using vec.push_ok [of "vec_new zero_mailbox" zero_mailbox m] by auto
  let ?t = "t @ [\<lparr>tab_array = a, tab_key = k\<rparr>]"
  have none: "\<forall>e\<in>set t. tab_key e \<noteq> k" using assms(2) by (auto simp: pr_table_get_def find_None_iff)
  then have "tailq_update_first (\<lambda>e. tab_key e = k) (\<lambda>e. e\<lparr>tab_array := a\<rparr>) (t @ [\<lparr>tab_array = vec_new zero_mailbox, tab_key = k\<rparr>]) = ?t"
    by (induction t) auto
  then have "table_push (Some t) (Some k) (Some m) = Some (Some ?t, True)"
    using assms(2,3) a(1) by (simp add: table_push_def key_copy_def pr_table_get_def tailq_simps)
  moreover have "table_ok ?t" using assms none a by (auto simp: table_ok_def)
  moreover have "table_view ?t = (table_view t)(k := table_view t k @ [m])"
    using assms(2) a(3) by (auto simp: table_view_def pr_table_get_def fun_eq_iff tailq_simps split: option.splits)
  ultimately show ?thesis by (intro exI [of _ ?t]) simp
qed

lemma table_push_old:
  assumes "table_ok t" "pr_table_get t k = Some e"
  shows "\<exists>t'. table_push (Some t) (Some k) (Some m) = Some (Some t', True) \<and> table_ok t'
     \<and> table_view t' = (table_view t)(k := table_view t k @ [m]) \<and> map tab_key t' = map tab_key t"
proof -
  from find_SomeD [of "\<lambda>e. tab_key e = k" t e] assms(2) have e: "e \<in> set t" "tab_key e = k" by (simp_all add: pr_table_get_def)
  with assms(1) have "vec_ok (tab_array e)" by (simp add: table_ok_def)
  from vec.push_ok [OF this, of zero_mailbox m] obtain a where
    a: "vec_push zero_mailbox (tab_array e) m = Some a" "vec_ok a" "elems a = elems (tab_array e) @ [m]" by blast
  let ?t = "tailq_update_first (\<lambda>e. tab_key e = k) (\<lambda>e. e\<lparr>tab_array := a\<rparr>) t"
  have keys: "map tab_key ?t = map tab_key t" by (rule map_tailq_update_first) simp
  have "\<forall>x\<in>set ?t. vec_ok (tab_array x) \<and> elems (tab_array x) \<noteq> [] \<and> length (tab_key x) < TABLE_MAX_KEY_LENGTH"
    using assms(1) a by (intro all_tailq_update_first) (auto simp: table_ok_def)
  then have "table_ok ?t" using assms(1) keys by (simp add: table_ok_def)
  moreover have "table_view ?t = (table_view t)(k := table_view t k @ [m])"
  proof
    fix j
    show "table_view ?t j = ((table_view t)(k := table_view t k @ [m])) j"
    proof (cases "j = k")
      case True
      have "List.find (\<lambda>e. tab_key e = k) ?t = map_option (\<lambda>e. e\<lparr>tab_array := a\<rparr>) (List.find (\<lambda>e. tab_key e = k) t)"
        by (rule find_tailq_update_first_same) simp
      then show ?thesis using True assms(2) a(3) by (simp add: table_view_def pr_table_get_def)
    next
      case False
      then have "List.find (\<lambda>e. tab_key e = j) ?t = List.find (\<lambda>e. tab_key e = j) t"
        by (intro find_tailq_update_first_other) simp_all
      with False show ?thesis by (simp add: table_view_def pr_table_get_def)
    qed
  qed
  ultimately show ?thesis using assms(2) a(1) keys by (intro exI [of _ ?t]) (simp add: table_push_def)
qed

text \<open>One recipient is filed under its server.\<close>

definition table_file :: "table_t \<Rightarrow> smtp_mailbox \<Rightarrow> table_t ub" where
  "table_file t m = do { (t', _) \<leftarrow> table_push (Some t) (server_name m) (Some m); t' }"

definition short_domain :: "smtp_mailbox \<Rightarrow> bool" where
  "short_domain m \<longleftrightarrow> (\<exists>d. server_name m = Some d \<and> length d < TABLE_MAX_KEY_LENGTH)"

definition filed_under :: "smtp_mailbox list \<Rightarrow> string \<Rightarrow> smtp_mailbox list" where
  "filed_under ms k = filter (\<lambda>m. server_name m = Some k) ms"

lemma table_file_step:
  assumes "table_ok t" "short_domain m"
  shows "\<exists>t'. table_file t m = Some t' \<and> table_ok t'
    \<and> table_view t' = (\<lambda>k. table_view t k @ filed_under [m] k)"
proof -
  from assms(2) obtain d where d: "server_name m = Some d" "length d < TABLE_MAX_KEY_LENGTH"
    by (auto simp: short_domain_def)
  obtain t' where "table_push (Some t) (Some d) (Some m) = Some (Some t', True)" "table_ok t'"
    "table_view t' = (table_view t)(d := table_view t d @ [m])"
    using table_push_new [OF assms(1) _ d(2), of m] table_push_old [OF assms(1), of d _ m]
    by (cases "pr_table_get t d") blast+
  then show ?thesis using d by (intro exI [of _ t']) (auto simp: table_file_def filed_under_def fun_eq_iff)
qed

lemma table_file_all:
  "table_ok t \<Longrightarrow> \<forall>m\<in>set ms. short_domain m \<Longrightarrow>
   \<exists>t'. run_inputs table_file t ms = Some t' \<and> table_ok t' \<and> table_view t' = (\<lambda>k. table_view t k @ filed_under ms k)"
proof (induction ms arbitrary: t)
  case Nil
  then show ?case by (simp add: filed_under_def)
next
  case (Cons m ms)
  then obtain t1 where 1: "table_file t m = Some t1" "table_ok t1" "table_view t1 = (\<lambda>k. table_view t k @ filed_under [m] k)"
    using table_file_step [of t m] by auto
  from Cons.IH [OF 1(2)] Cons.prems obtain t2 where
    "run_inputs table_file t1 ms = Some t2" "table_ok t2" "table_view t2 = (\<lambda>k. table_view t1 k @ filed_under ms k)" by auto
  with 1 show ?case by (intro exI [of _ t2]) (simp add: filed_under_def fun_eq_iff)
qed

lemma push_keys_run:
  "vec_ok keys \<Longrightarrow> \<forall>e\<in>set t. length (tab_key e) < TABLE_MAX_KEY_LENGTH \<Longrightarrow>
   \<exists>keys'. push_keys t keys = Some keys' \<and> vec_ok keys' \<and> elems keys' = elems keys @ map tab_key t"
proof (induction t arbitrary: keys)
  case (Cons e t)
  from vec.push_ok [OF Cons.prems(1), of "[]" "tab_key e"] obtain k1 where
    "vec_push [] keys (tab_key e) = Some k1" "vec_ok k1" "elems k1 = elems keys @ [tab_key e]" by blast
  with Cons show ?case by (fastforce simp: key_copy_def)
qed simp

lemma table_groups:
  assumes "\<forall>m\<in>set ms. short_domain m"
  obtains t keys where "run_inputs table_file [] ms = Some t" "table_keys (Some t) (vec_new []) = Some (keys, True)"
    "elems keys = map tab_key t" "distinct (elems keys)" "Some ` set (elems keys) = server_name ` set ms"
    "\<forall>d\<in>set (elems keys). \<exists>v. table_get (Some t) (Some d) = Some v \<and> vec_ok v
         \<and> elems v = filter (\<lambda>m. server_name m = Some d) ms"
proof -
  have "table_ok []" by (simp add: table_ok_def)
  from table_file_all [OF this assms] obtain t where
    t: "run_inputs table_file [] ms = Some t" "table_ok t" "table_view t = (\<lambda>k. filed_under ms k)"
    by (auto simp: table_view_def pr_table_get_def)
  from t(2) push_keys_run [of "vec_new []" t] obtain keys where
    k: "push_keys t (vec_new []) = Some keys" "elems keys = map tab_key t" by (auto simp: table_ok_def)
  have in_keys: "d \<in> set (elems keys) \<longleftrightarrow> filed_under ms d \<noteq> []" for d
    using table_view_keys [OF t(2), of d] by (simp add: k(2) t(3))
  have "Some ` set (elems keys) = server_name ` set ms"
  proof -
    have "x \<in> server_name ` set ms \<longleftrightarrow> (\<exists>d. x = Some d \<and> filed_under ms d \<noteq> [])" for x
      using assms by (auto simp: filed_under_def filter_empty_conv short_domain_def image_iff) metis+
    then show ?thesis using in_keys by auto
  qed
  moreover have "\<exists>v. table_get (Some t) (Some d) = Some v \<and> vec_ok v \<and> elems v = filter (\<lambda>m. server_name m = Some d) ms"
    if "d \<in> set (elems keys)" for d
  proof -
    have "table_view t d \<noteq> []" using that in_keys t(3) by simp
    then obtain e where e: "pr_table_get t d = Some e" by (auto simp: table_view_def split: option.splits)
    with find_SomeD [of "\<lambda>e. tab_key e = d" t e] t(2) have "vec_ok (tab_array e)"
      by (auto simp: pr_table_get_def table_ok_def)
    moreover have "elems (tab_array e) = filed_under ms d" using e fun_cong [OF t(3), of d] by (simp add: table_view_def)
    ultimately show ?thesis using e by (simp add: table_get_def filed_under_def)
  qed
  moreover have "distinct (elems keys)" using t(2) k(2) by (simp add: table_ok_def)
  ultimately show thesis using t(1) k
    by (intro that [of t keys]) (simp_all add: table_keys_def)
qed

section \<open>Properties\<close>

text \<open>
  C36: Filing recipients by server, with server names that fit the key buffer, groups them
  exactly: the keys are the servers that occur, each once, and the vector of a server holds its
  recipients in the order in which they were given. A new server name of 128 bytes or more, which
  nothing on the way from RCPT TO rules out, writes past the end of the key.
\<close>

theorem recipients_grouped_by_server:
  assumes "\<forall>m\<in>set ms. short_domain m"
  shows "\<exists>t keys. run_inputs table_file [] ms = Some t
     \<and> table_keys (Some t) (vec_new []) = Some (keys, True)
     \<and> distinct (elems keys) \<and> Some ` set (elems keys) = server_name ` set ms
     \<and> (\<forall>d\<in>set (elems keys). \<exists>v. table_get (Some t) (Some d) = Some v \<and> vec_ok v
           \<and> elems v = filter (\<lambda>m. server_name m = Some d) ms)
     \<and> (\<forall>d m. d \<notin> set (elems keys) \<longrightarrow> 128 \<le> length d \<longrightarrow> table_push (Some t) (Some d) (Some m) = UB)"
proof -
  obtain t keys where t: "run_inputs table_file [] ms = Some t" "table_keys (Some t) (vec_new []) = Some (keys, True)"
    "elems keys = map tab_key t" "distinct (elems keys)" "Some ` set (elems keys) = server_name ` set ms"
    "\<forall>d\<in>set (elems keys). \<exists>v. table_get (Some t) (Some d) = Some v \<and> vec_ok v
         \<and> elems v = filter (\<lambda>m. server_name m = Some d) ms"
    by (rule table_groups [OF assms])
  have "table_push (Some t) (Some d) (Some m) = UB" if "d \<notin> set (elems keys)" "128 \<le> length d" for d m
  proof -
    have "pr_table_get t d = None" using that(1) by (auto simp: pr_table_get_def find_None_iff t(3))
    then show ?thesis using that(2) by (simp add: table_push_def key_copy_def TABLE_MAX_KEY_LENGTH_def)
  qed
  with t show ?thesis by (intro exI [of _ t] exI [of _ keys]) simp
qed

definition demo_mailbox :: "string \<Rightarrow> string \<Rightarrow> smtp_mailbox" where
  "demo_mailbox u d = \<lparr>user_name = Some u, server_name = Some d\<rparr>"

theorem recipients_grouped_by_server_witness:
  "\<exists>t v. run_inputs table_file [] [demo_mailbox ''a'' ''x.org'', demo_mailbox ''b'' ''y.org'', demo_mailbox ''c'' ''x.org''] = Some t
     \<and> table_get (Some t) (Some ''x.org'') = Some v \<and> elems v = [demo_mailbox ''a'' ''x.org'', demo_mailbox ''c'' ''x.org'']"
proof -
  let ?ms = "[demo_mailbox ''a'' ''x.org'', demo_mailbox ''b'' ''y.org'', demo_mailbox ''c'' ''x.org'']"
  have "\<forall>m\<in>set ?ms. short_domain m" by (simp add: short_domain_def demo_mailbox_def TABLE_MAX_KEY_LENGTH_def)
  from recipients_grouped_by_server [OF this] obtain t keys where
    t: "run_inputs table_file [] ?ms = Some t" "Some ` set (elems keys) = server_name ` set ?ms"
    "\<forall>d\<in>set (elems keys). \<exists>v. table_get (Some t) (Some d) = Some v \<and> vec_ok v \<and> elems v = filter (\<lambda>m. server_name m = Some d) ?ms"
    by blast
  have "Some ''x.org'' \<in> Some ` set (elems keys)" unfolding t(2) by (simp add: demo_mailbox_def)
  then have "''x.org'' \<in> set (elems keys)" by auto
  with t(3) obtain v where "table_get (Some t) (Some ''x.org'') = Some v" "elems v = filter (\<lambda>m. server_name m = Some ''x.org'') ?ms"
    by blast
  with t(1) show ?thesis by (simp add: demo_mailbox_def)
qed

end
