(* ===== verification/FileSys.thy ===== *)
theory FileSys
  imports Util
begin

text \<open>
  The part of the POSIX file system that the maildir code uses, as documented for the C library:
  \<open>opendir\<close>, \<open>mkdir\<close>, \<open>fopen\<close>, \<open>fwrite\<close>, \<open>rename\<close>, \<open>unlink\<close>, \<open>remove\<close>, \<open>stat\<close> and
  \<open>realpath\<close>. A file system
  maps the names on the way from the root to a directory or a file with its contents. There are
  no symbolic links and no permissions; a path is split at the slashes, and the names \<open>.\<close> and
  \<open>..\<close> are not used. A failing call yields its \<open>errno\<close>. Data written to a stream is in the file at
  once (the code closes every stream before it uses the file again).
\<close>

section \<open>Paths\<close>

fun split_path :: "string \<Rightarrow> string \<Rightarrow> string list" where
  "split_path acc [] = (if acc = [] then [] else [rev acc])"
| "split_path acc (c # cs) =
     (if c = CHR ''/'' then (if acc = [] then split_path [] cs else rev acc # split_path [] cs)
      else split_path (c # acc) cs)"

definition comps :: "string \<Rightarrow> string list" where "comps p = split_path [] p"

text \<open>A name that can stand between two slashes.\<close>

definition entry_name :: "string \<Rightarrow> bool" where
  "entry_name s \<longleftrightarrow> s \<noteq> [] \<and> CHR ''/'' \<notin> set s"

definition join_path :: "string list \<Rightarrow> string" where
  "join_path ns = (if ns = [] then ''/'' else concat (map (\<lambda>n. CHR ''/'' # n) ns))"

lemma split_path_name: "CHR ''/'' \<notin> set s \<Longrightarrow> split_path acc s = (if acc = [] \<and> s = [] then [] else [rev acc @ s])"
  by (induction s arbitrary: acc) auto

lemma split_path_slash:
  "split_path acc (p @ CHR ''/'' # q) = split_path acc p @ split_path [] q"
  by (induction p arbitrary: acc) auto

lemma comps_slash: "comps (p @ CHR ''/'' # q) = comps p @ comps q"
  by (simp add: comps_def split_path_slash)

lemma comps_Nil [simp]: "comps [] = []"
  by (simp add: comps_def)

lemma comps_lead [simp]: "comps (CHR ''/'' # q) = comps q"
  using comps_slash [of "[]" q] by simp

lemma comps_name [simp]: "entry_name s \<Longrightarrow> comps s = [s]"
  by (auto simp: comps_def entry_name_def split_path_name)

lemma comps_join: "\<forall>n\<in>set ns. entry_name n \<Longrightarrow> comps (concat (map (\<lambda>n. CHR ''/'' # n) ns)) = ns"
proof (induction ns rule: rev_induct)
  case (snoc n ns)
  then show ?case using comps_slash [of "concat (map (\<lambda>n. CHR ''/'' # n) ns)" n] by simp
qed simp

lemma comps_join_path [simp]: "\<forall>n\<in>set ns. entry_name n \<Longrightarrow> comps (join_path ns) = ns"
  using comps_join [of ns] by (simp add: join_path_def)

lemma split_path_names:
  "CHR ''/'' \<notin> set acc \<Longrightarrow> n \<in> set (split_path acc p) \<Longrightarrow> entry_name n"
proof (induction p arbitrary: acc)
  case Nil
  then show ?case by (auto simp: entry_name_def split: if_splits)
next
  case (Cons c p)
  show ?case
  proof (cases "c = CHR ''/''")
    case True
    show ?thesis
    proof (cases "n \<in> set (split_path [] p)")
      case True
      then show ?thesis by (intro Cons.IH [of "[]"]) simp_all
    next
      case False
      with Cons.prems \<open>c = CHR ''/''\<close> show ?thesis by (auto simp: entry_name_def split: if_splits)
    qed
  next
    case False
    with Cons.prems show ?thesis by (intro Cons.IH [of "c # acc"]) simp_all
  qed
qed

lemma comps_names: "n \<in> set (comps p) \<Longrightarrow> entry_name n"
  by (rule split_path_names [of "[]"]) (simp_all add: comps_def)

section \<open>File systems\<close>

datatype node = Dir | File string

record fs =
  fs_nodes :: "string list \<Rightarrow> node option"
  fs_cwd :: "string list"

definition ENOENT :: int where "ENOENT = 2"
definition EEXIST :: int where "EEXIST = 17"
definition ENOTDIR :: int where "ENOTDIR = 20"
definition EISDIR :: int where "EISDIR = 21"
definition EBUSY :: int where "EBUSY = 16"
definition EINVAL :: int where "EINVAL = 22"
definition ENOTEMPTY :: int where "ENOTEMPTY = 39"

text \<open>An absolute path starts at the root, another one at the working directory.\<close>

definition resolve :: "fs \<Rightarrow> string \<Rightarrow> string list" where
  "resolve fs p = (if p \<noteq> [] \<and> hd p = CHR ''/'' then comps p else fs_cwd fs @ comps p)"

fun proper_prefixes :: "'a list \<Rightarrow> 'a list list" where
  "proper_prefixes [] = []"
| "proper_prefixes (x # xs) = [] # map ((#) x) (proper_prefixes xs)"

text \<open>The \<open>errno\<close> of a path that is not there: a file on the way, or nothing.\<close>

definition absent_errno :: "fs \<Rightarrow> string list \<Rightarrow> int" where
  "absent_errno fs ns =
     (if \<exists>p\<in>set (proper_prefixes ns). (case fs_nodes fs p of Some (File _) \<Rightarrow> True | _ \<Rightarrow> False) then ENOTDIR else ENOENT)"

definition set_node :: "string list \<Rightarrow> node option \<Rightarrow> fs \<Rightarrow> fs" where
  "set_node ns n fs = fs\<lparr>fs_nodes := (fs_nodes fs)(ns := n)\<rparr>"

text \<open>What has to hold before an entry can be made: its directory exists. An empty path has no entry.\<close>

definition parent_errno :: "fs \<Rightarrow> string list \<Rightarrow> int option" where
  "parent_errno fs ns =
     (if ns = [] then Some EISDIR
      else case fs_nodes fs (butlast ns) of
             Some Dir \<Rightarrow> None
           | Some (File _) \<Rightarrow> Some ENOTDIR
           | None \<Rightarrow> Some (absent_errno fs ns))"

definition posix_opendir :: "fs \<Rightarrow> string \<Rightarrow> int option" where
  "posix_opendir fs p =
     (case fs_nodes fs (resolve fs p) of
        Some Dir \<Rightarrow> None
      | Some (File _) \<Rightarrow> Some ENOTDIR
      | None \<Rightarrow> Some (absent_errno fs (resolve fs p)))"

definition posix_mkdir :: "fs \<Rightarrow> string \<Rightarrow> fs \<times> int option" where
  "posix_mkdir fs p =
     (let ns = resolve fs p in
      case fs_nodes fs ns of
        Some _ \<Rightarrow> (fs, Some EEXIST)
      | None \<Rightarrow> (case parent_errno fs ns of
                   Some e \<Rightarrow> (fs, Some e)
                 | None \<Rightarrow> (set_node ns (Some Dir) fs, None)))"

text \<open>Opening for reading succeeds on whatever is there; the stream is the resolved path.\<close>

definition posix_fopen_r :: "fs \<Rightarrow> string \<Rightarrow> string list option" where
  "posix_fopen_r fs p = (case fs_nodes fs (resolve fs p) of None \<Rightarrow> None | Some _ \<Rightarrow> Some (resolve fs p))"

text \<open>Opening for writing makes the file, or empties it.\<close>

definition posix_fopen_w :: "fs \<Rightarrow> string \<Rightarrow> fs \<times> string list option" where
  "posix_fopen_w fs p =
     (let ns = resolve fs p in
      if fs_nodes fs ns = Some Dir \<or> parent_errno fs ns \<noteq> None then (fs, None)
      else (set_node ns (Some (File [])) fs, Some ns))"

definition posix_fwrite :: "fs \<Rightarrow> string list \<Rightarrow> string \<Rightarrow> fs \<times> nat" where
  "posix_fwrite fs ns s =
     (case fs_nodes fs ns of
        Some (File old) \<Rightarrow> (set_node ns (Some (File (old @ s))) fs, length s)
      | _ \<Rightarrow> (fs, 0))"

text \<open>
  \<open>rename\<close> moves a file onto a free name or onto another file, and a directory with all that is
  below it onto a free name or onto an empty directory.
\<close>

definition below :: "string list \<Rightarrow> string list \<Rightarrow> bool" where
  "below d ns \<longleftrightarrow> take (length d) ns = d"

definition has_entries :: "fs \<Rightarrow> string list \<Rightarrow> bool" where
  "has_entries fs d \<longleftrightarrow> (\<exists>n. fs_nodes fs (d @ [n]) \<noteq> None)"

definition move_tree :: "string list \<Rightarrow> string list \<Rightarrow> fs \<Rightarrow> fs" where
  "move_tree src dst fs = fs\<lparr>fs_nodes := \<lambda>ns.
     if below dst ns then fs_nodes fs (src @ drop (length dst) ns)
     else if below src ns then None else fs_nodes fs ns\<rparr>"

definition posix_rename :: "fs \<Rightarrow> string \<Rightarrow> string \<Rightarrow> fs \<times> int option" where
  "posix_rename fs p q =
     (let src = resolve fs p; dst = resolve fs q in
      if fs_nodes fs src = None then (fs, Some (absent_errno fs src))
      else if dst = [] then (fs, Some EBUSY)
      else case parent_errno fs dst of
        Some e \<Rightarrow> (fs, Some e)
      | None \<Rightarrow>
          if src = dst then (fs, None)
          else (case fs_nodes fs src of
             Some (File s) \<Rightarrow>
               if fs_nodes fs dst = Some Dir then (fs, Some EISDIR)
               else (set_node dst (Some (File s)) (set_node src None fs), None)
           | _ \<Rightarrow>
               if src = [] then (fs, Some EBUSY)
               else if below src dst then (fs, Some EINVAL)
               else (case fs_nodes fs dst of
                  Some (File _) \<Rightarrow> (fs, Some ENOTDIR)
                | Some Dir \<Rightarrow> if has_entries fs dst then (fs, Some ENOTEMPTY) else (move_tree src dst fs, None)
                | None \<Rightarrow> (move_tree src dst fs, None))))"

definition posix_unlink :: "fs \<Rightarrow> string \<Rightarrow> fs \<times> int option" where
  "posix_unlink fs p =
     (let ns = resolve fs p in
      case fs_nodes fs ns of
        Some (File _) \<Rightarrow> (set_node ns None fs, None)
      | Some Dir \<Rightarrow> (fs, Some EISDIR)
      | None \<Rightarrow> (fs, Some (absent_errno fs ns)))"

text \<open>\<open>remove\<close> is \<open>unlink\<close> for a file and \<open>rmdir\<close>, which wants an empty directory, for a directory.\<close>

definition posix_rmdir :: "fs \<Rightarrow> string \<Rightarrow> fs \<times> int option" where
  "posix_rmdir fs p =
     (let ns = resolve fs p in
      case fs_nodes fs ns of
        Some (File _) \<Rightarrow> (fs, Some ENOTDIR)
      | Some Dir \<Rightarrow>
          if ns = [] then (fs, Some EBUSY)
          else if has_entries fs ns then (fs, Some ENOTEMPTY)
          else (set_node ns None fs, None)
      | None \<Rightarrow> (fs, Some (absent_errno fs ns)))"

definition posix_remove :: "fs \<Rightarrow> string \<Rightarrow> fs \<times> int option" where
  "posix_remove fs p = (if fs_nodes fs (resolve fs p) = Some Dir then posix_rmdir fs p else posix_unlink fs p)"

definition posix_realpath :: "fs \<Rightarrow> string \<Rightarrow> string + int" where
  "posix_realpath fs p =
     (if fs_nodes fs (resolve fs p) = None then Inr (absent_errno fs (resolve fs p)) else Inl (join_path (resolve fs p)))"

definition posix_stat_isdir :: "fs \<Rightarrow> string \<Rightarrow> bool + int" where
  "posix_stat_isdir fs p =
     (case fs_nodes fs (resolve fs p) of
        Some n \<Rightarrow> Inl (n = Dir)
      | None \<Rightarrow> Inr (absent_errno fs (resolve fs p)))"

section \<open>Well-formed file systems\<close>

definition fs_ok :: "fs \<Rightarrow> bool" where
  "fs_ok fs \<longleftrightarrow> fs_nodes fs [] = Some Dir \<and> (\<forall>ns n. fs_nodes fs (ns @ [n]) \<noteq> None \<longrightarrow> fs_nodes fs ns = Some Dir)"

lemma set_node_simps [simp]:
  "fs_nodes (set_node ns n fs) = (fs_nodes fs)(ns := n)" "fs_cwd (set_node ns n fs) = fs_cwd fs"
  "resolve (set_node ns n fs) = resolve fs"
  by (simp_all add: set_node_def resolve_def fun_eq_iff)

lemma set_node_same [simp]: "set_node ns m (set_node ns n fs) = set_node ns m fs"
  by (simp add: set_node_def)

lemma set_node_swap: "ns \<noteq> ms \<Longrightarrow> set_node ns n (set_node ms m fs) = set_node ms m (set_node ns n fs)"
  by (simp add: set_node_def fun_upd_twist)

lemma set_node_id: "fs_nodes fs ns = n \<Longrightarrow> set_node ns n fs = fs"
  by (simp add: set_node_def fun_upd_idem)

lemma parent_errno_snoc: "fs_nodes fs ns = Some Dir \<Longrightarrow> parent_errno fs (ns @ [n]) = None"
  by (simp add: parent_errno_def)

lemma fs_ok_children:
  assumes "fs_ok fs" "fs_nodes fs ns \<noteq> Some Dir"
  shows "fs_nodes fs (ns @ ms) = (if ms = [] then fs_nodes fs ns else None)"
proof (induction ms rule: rev_induct)
  case Nil
  then show ?case by simp
next
  case (snoc m ms)
  have "fs_nodes fs (ns @ ms) \<noteq> Some Dir" using snoc assms(2) by (auto split: if_splits)
  then have "fs_nodes fs ((ns @ ms) @ [m]) = None" using assms(1) unfolding fs_ok_def by blast
  then show ?case by simp
qed

lemma fs_ok_dir: "fs_ok fs \<Longrightarrow> fs_nodes fs (ms @ [m]) = Some n \<Longrightarrow> fs_nodes fs ms = Some Dir"
  unfolding fs_ok_def by blast

lemma fs_ok_root: "fs_ok fs \<Longrightarrow> fs_nodes fs [] = Some Dir"
  unfolding fs_ok_def by blast

lemma fs_okI:
  "fs_nodes fs [] = Some Dir \<Longrightarrow> (\<And>ns n. fs_nodes fs (ns @ [n]) \<noteq> None \<Longrightarrow> fs_nodes fs ns = Some Dir) \<Longrightarrow> fs_ok fs"
  unfolding fs_ok_def by blast

text \<open>A new entry in a directory, and a leaf that goes.\<close>

lemma fs_ok_set:
  assumes "fs_ok fs" "fs_nodes fs ns = Some Dir" "x = Some Dir \<or> fs_nodes fs (ns @ [n]) \<noteq> Some Dir" "x \<noteq> None"
  shows "fs_ok (set_node (ns @ [n]) x fs)"
proof (rule fs_okI)
  show "fs_nodes (set_node (ns @ [n]) x fs) [] = Some Dir" using fs_ok_root [OF assms(1)] by simp
next
  fix ms m
  assume a: "fs_nodes (set_node (ns @ [n]) x fs) (ms @ [m]) \<noteq> None"
  show "fs_nodes (set_node (ns @ [n]) x fs) ms = Some Dir"
  proof (cases "ms @ [m] = ns @ [n]")
    case True
    then show ?thesis using assms(2) by simp
  next
    case False
    with a have "fs_nodes fs (ms @ [m]) \<noteq> None" unfolding set_node_simps by (metis fun_upd_apply)
    with fs_ok_dir [OF assms(1)] have "fs_nodes fs ms = Some Dir" by blast
    with assms(3) show ?thesis by auto
  qed
qed

lemma fs_ok_set_dir: "fs_ok fs \<Longrightarrow> fs_nodes fs ns = Some Dir \<Longrightarrow> fs_ok (set_node (ns @ [n]) (Some Dir) fs)"
  by (rule fs_ok_set) simp_all

lemma fs_ok_set_file:
  "fs_ok fs \<Longrightarrow> fs_nodes fs ns = Some Dir \<Longrightarrow> fs_nodes fs (ns @ [n]) \<noteq> Some Dir \<Longrightarrow>
   fs_ok (set_node (ns @ [n]) (Some (File s)) fs)"
  by (rule fs_ok_set) simp_all

lemma fs_ok_unset_file:
  assumes "fs_ok fs" "fs_nodes fs ns \<noteq> Some Dir"
  shows "fs_ok (set_node ns None fs)"
proof (rule fs_okI)
  show "fs_nodes (set_node ns None fs) [] = Some Dir" using fs_ok_root [OF assms(1)] assms(2) by auto
next
  fix ms m
  assume "fs_nodes (set_node ns None fs) (ms @ [m]) \<noteq> None"
  then have "fs_nodes fs (ms @ [m]) \<noteq> None" unfolding set_node_simps by (metis fun_upd_apply)
  with fs_ok_dir [OF assms(1)] have "fs_nodes fs ms = Some Dir" by blast
  with assms(2) show "fs_nodes (set_node ns None fs) ms = Some Dir" by auto
qed

text \<open>The operations keep the file system well formed.\<close>

lemma fs_ok_parent: "parent_errno fs ns = None \<Longrightarrow> \<exists>ms m. ns = ms @ [m] \<and> fs_nodes fs ms = Some Dir"
  by (cases ns rule: rev_cases) (auto simp: parent_errno_def split: option.splits node.splits)

lemma mkdir_fs_ok: "fs_ok fs \<Longrightarrow> fs_ok (fst (posix_mkdir fs p))"
  using fs_ok_parent [of fs "resolve fs p"] fs_ok_set_dir
  by (auto simp: posix_mkdir_def Let_def split: option.split)

lemma fopen_w_fs_ok: "fs_ok fs \<Longrightarrow> fs_ok (fst (posix_fopen_w fs p))"
  using fs_ok_parent [of fs "resolve fs p"] fs_ok_set_file
  by (auto simp: posix_fopen_w_def Let_def)

lemma fwrite_fs_ok:
  assumes "fs_ok fs"
  shows "fs_ok (fst (posix_fwrite fs ns s))"
proof (cases "fs_nodes fs ns")
  case (Some n)
  show ?thesis
  proof (cases n)
    case (File old)
    from Some File assms obtain ms m where "ns = ms @ [m]" by (cases ns rule: rev_cases) (auto simp: fs_ok_def)
    moreover from this Some have "fs_nodes fs ms = Some Dir" using fs_ok_dir [OF assms] by blast
    ultimately show ?thesis using assms Some File by (simp add: posix_fwrite_def fs_ok_set_file)
  qed (use Some assms in \<open>simp add: posix_fwrite_def\<close>)
qed (use assms in \<open>simp add: posix_fwrite_def\<close>)

lemma unlink_fs_ok: "fs_ok fs \<Longrightarrow> fs_ok (fst (posix_unlink fs p))"
  by (auto simp: posix_unlink_def Let_def fs_ok_unset_file split: option.split node.split)

lemma below_append: "below d ns \<longleftrightarrow> (\<exists>ms. ns = d @ ms)"
  by (auto simp: below_def) (metis append_take_drop_id)

lemma below_snoc: "below d (ns @ [n]) \<longleftrightarrow> below d ns \<or> d = ns @ [n]"
  by (auto simp: below_append append_eq_append_conv2 append_eq_Cons_conv Cons_eq_append_conv)

lemma move_tree_nodes:
  "fs_nodes (move_tree src dst fs) ns =
     (if below dst ns then fs_nodes fs (src @ drop (length dst) ns) else if below src ns then None else fs_nodes fs ns)"
  by (simp add: move_tree_def)

lemma move_tree_fs_ok:
  assumes "fs_ok fs" "src \<noteq> []" "dst \<noteq> []" "parent_errno fs dst = None" "\<not> below src dst"
  shows "fs_ok (move_tree src dst fs)"
proof (rule fs_okI)
  show "fs_nodes (move_tree src dst fs) [] = Some Dir"
    using fs_ok_root [OF assms(1)] assms(2,3) by (simp add: move_tree_nodes below_append)
next
  fix ns n
  assume a: "fs_nodes (move_tree src dst fs) (ns @ [n]) \<noteq> None"
  consider "dst = ns @ [n]" | "below dst ns" | "\<not> below dst (ns @ [n])" using below_snoc by blast
  then show "fs_nodes (move_tree src dst fs) ns = Some Dir"
  proof cases
    case 1
    then have "\<not> below dst ns" by (auto simp: below_def)
    moreover have "\<not> below src ns" using assms(5) unfolding 1 below_snoc by blast
    moreover have "fs_nodes fs ns = Some Dir"
      using assms(4) unfolding 1 by (auto simp: parent_errno_def split: option.splits node.splits)
    ultimately show ?thesis by (simp add: move_tree_nodes)
  next
    case 2
    then obtain ms where m: "ns = dst @ ms" by (auto simp: below_append)
    then have "below dst (ns @ [n])" by (simp add: below_append)
    with a have "fs_nodes fs ((src @ ms) @ [n]) \<noteq> None" unfolding move_tree_nodes m by simp
    then have "fs_nodes fs (src @ ms) = Some Dir" using fs_ok_dir [OF assms(1)] by blast
    then show ?thesis using 2 m by (simp add: move_tree_nodes)
  next
    case 3
    with a have n: "\<not> below src (ns @ [n])" "fs_nodes fs (ns @ [n]) \<noteq> None"
      by (auto simp: move_tree_nodes split: if_splits)
    then have "fs_nodes fs ns = Some Dir" using fs_ok_dir [OF assms(1)] by blast
    with 3 n(1) show ?thesis by (auto simp: move_tree_nodes below_snoc)
  qed
qed

lemma move_file_fs_ok:
  assumes "fs_ok fs" "fs_nodes fs src = Some (File s)" "parent_errno fs dst = None" "fs_nodes fs dst \<noteq> Some Dir" "src \<noteq> dst"
  shows "fs_ok (set_node dst (Some (File s)) (set_node src None fs))"
proof -
  from fs_ok_parent [OF assms(3)] obtain ms m where d: "dst = ms @ [m]" "fs_nodes fs ms = Some Dir" by blast
  have "ms \<noteq> src" using assms(2) d(2) by auto
  moreover have "fs_ok (set_node src None fs)" using assms by (intro fs_ok_unset_file) simp_all
  ultimately show ?thesis using d assms(4,5) by (simp add: fs_ok_set_file)
qed

lemma rename_fs_ok: "fs_ok fs \<Longrightarrow> fs_ok (fst (posix_rename fs p q))"
  using move_tree_fs_ok [of fs "resolve fs p" "resolve fs q"] move_file_fs_ok [of fs "resolve fs p" _ "resolve fs q"]
    fs_ok_root [of fs]
  by (auto simp: posix_rename_def Let_def split: option.split node.split)

lemma rmdir_fs_ok:
  assumes "fs_ok fs"
  shows "fs_ok (fst (posix_rmdir fs p))"
proof -
  let ?ns = "resolve fs p"
  have "fs_ok (set_node ?ns None fs)" if "?ns \<noteq> []" "\<not> has_entries fs ?ns"
  proof (rule fs_okI)
    show "fs_nodes (set_node ?ns None fs) [] = Some Dir" using that(1) fs_ok_root [OF assms] by simp
  next
    fix ms m
    assume "fs_nodes (set_node ?ns None fs) (ms @ [m]) \<noteq> None"
    then have m: "fs_nodes fs (ms @ [m]) \<noteq> None" unfolding set_node_simps by (metis fun_upd_apply)
    with that(2) have "ms \<noteq> ?ns" by (auto simp: has_entries_def)
    with m show "fs_nodes (set_node ?ns None fs) ms = Some Dir" using fs_ok_dir [OF assms] by fastforce
  qed
  then show ?thesis using assms by (auto simp: posix_rmdir_def Let_def split: option.split node.split)
qed

lemma remove_fs_ok: "fs_ok fs \<Longrightarrow> fs_ok (fst (posix_remove fs p))"
  using rmdir_fs_ok unlink_fs_ok by (simp add: posix_remove_def)

text \<open>What is not there before is not there after, and a file that is removed is gone.\<close>

lemma remove_absent: "fs_nodes fs ns = None \<Longrightarrow> fs_nodes (fst (posix_remove fs p)) ns = None"
  by (auto simp: posix_remove_def posix_rmdir_def posix_unlink_def Let_def split: option.split node.split)

lemma remove_cwd: "resolve (fst (posix_remove fs q)) p = resolve fs p"
  by (auto simp: posix_remove_def posix_rmdir_def posix_unlink_def resolve_def Let_def split: option.split node.split)

lemma remove_run:
  "fs_nodes fs (resolve fs p) = Some (File s) \<Longrightarrow> posix_remove fs p = (set_node (resolve fs p) None fs, None)"
  by (simp add: posix_remove_def posix_unlink_def)

lemma remove_other_file:
  "fs_nodes fs ns = Some (File s) \<Longrightarrow> ns \<noteq> resolve fs p \<Longrightarrow> fs_nodes (fst (posix_remove fs p)) ns = Some (File s)"
  by (auto simp: posix_remove_def posix_rmdir_def posix_unlink_def Let_def split: option.split node.split)

text \<open>
  The whole of a delivery on one directory: a file is made, written in two parts and moved to its
  final name.
\<close>

lemma opendir_dir: "fs_nodes fs (resolve fs p) = Some Dir \<Longrightarrow> posix_opendir fs p = None"
  by (simp add: posix_opendir_def)

lemma fopen_w_run:
  "resolve fs p = ns @ [n] \<Longrightarrow> fs_nodes fs ns = Some Dir \<Longrightarrow> fs_nodes fs (ns @ [n]) \<noteq> Some Dir \<Longrightarrow>
   posix_fopen_w fs p = (set_node (ns @ [n]) (Some (File [])) fs, Some (ns @ [n]))"
  by (simp add: posix_fopen_w_def parent_errno_snoc Let_def)

lemma fwrite_run:
  "fs_nodes fs ns = Some (File old) \<Longrightarrow> posix_fwrite fs ns s = (set_node ns (Some (File (old @ s))) fs, length s)"
  by (simp add: posix_fwrite_def)

lemma rename_run:
  "fs_nodes fs (resolve fs p) = Some (File s) \<Longrightarrow> resolve fs q = ns @ [n] \<Longrightarrow> fs_nodes fs ns = Some Dir \<Longrightarrow>
   fs_nodes fs (ns @ [n]) = None \<Longrightarrow>
   posix_rename fs p q = (set_node (ns @ [n]) (Some (File s)) (set_node (resolve fs p) None fs), None)"
  by (auto simp: posix_rename_def parent_errno_snoc Let_def)

lemma mkdir_run:
  "resolve fs p = ns @ [n] \<Longrightarrow> fs_nodes fs ns = Some Dir \<Longrightarrow> fs_nodes fs (ns @ [n]) = None \<Longrightarrow>
   posix_mkdir fs p = (set_node (ns @ [n]) (Some Dir) fs, None)"
  by (simp add: posix_mkdir_def parent_errno_snoc)

end
