(* ===== verification/Maildir.thy ===== *)
theory Maildir
  imports FileSys
begin

text \<open>
  The mail store of the server, \<open>server/src/lib/maildir/\<close>: \<open>maildir.c\<close>, \<open>server.c\<close>, \<open>user.c\<close> and
  \<open>message.c\<close>. A call that touches the file system takes and returns it. A pointer to a struct of
  the caller (\<open>pr_md\<close>, \<open>pr_server\<close>, \<open>pr_user\<close>) is the value of that struct: between the time it is
  stored and its last use the caller does not change it. Whether the path buffers of a call can
  be allocated is its argument \<open>mok\<close>; what \<open>time(NULL)\<close> and \<open>rand()\<close> give is the argument \<open>draw\<close>.
\<close>

section \<open>State\<close>

record maildir =
  pr_path :: "string ptr"

record maildir_server =
  pr_server_domain :: string
  is_self :: bool
  pr_md :: "maildir ptr"

record maildir_user =
  pr_server :: "maildir_server ptr"
  pr_login :: string

datatype message_type = NEW | TMP | SERVER | NONE

record maildir_message =
  pr_user :: "maildir_user ptr"
  pr_filename :: string
  pr_fd :: "string list ptr"
  pr_type :: message_type
  pr_is_open :: bool

definition NAME_MAX :: nat where "NAME_MAX = 255"
definition SERVERS_ROOT_NAME_PART :: string where "SERVERS_ROOT_NAME_PART = ''/.OTHER_SERVERS/''"
definition USER_PATH_CUR :: string where "USER_PATH_CUR = ''cur''"
definition USER_PATH_TMP :: string where "USER_PATH_TMP = ''tmp''"
definition USER_PATH_NEW :: string where "USER_PATH_NEW = ''new''"
definition MAX_NUM_ATTEMPTS_TO_CREATE_FILENAME :: nat where "MAX_NUM_ATTEMPTS_TO_CREATE_FILENAME = 10"

definition MAILDIR_MD_PTR_NULL :: string where "MAILDIR_MD_PTR_NULL = ''pointer of maildir object is null''"
definition MAILDIR_ROOT_PATH_ERROR :: string where "MAILDIR_ROOT_PATH_ERROR = ''error opening maildir root''"
definition MAILDIR_ERROR_OPENING_SERVERS_PATH :: string where
  "MAILDIR_ERROR_OPENING_SERVERS_PATH = ''error opening maildir servers path''"
definition MAILDIR_ERROR_CONVERT_RELATIVE_TO_ABSOLUTE :: string where
  "MAILDIR_ERROR_CONVERT_RELATIVE_TO_ABSOLUTE = ''error converting path from relative to absolute form''"
definition MAILDIR_ERROR_PTR_OF_SERVER_IS_NULL :: string where
  "MAILDIR_ERROR_PTR_OF_SERVER_IS_NULL = ''pointer of server object is null''"
definition MAILDIR_ERROR_CREATE_DIRECTORY :: string where "MAILDIR_ERROR_CREATE_DIRECTORY = ''error create directory''"
definition MAILDIR_ERROR_CONCATENATE_PATHS :: string where
  "MAILDIR_ERROR_CONCATENATE_PATHS = ''error concatenate string for get path''"
definition MAILDIR_ERROR_MAKE_DIR :: string where "MAILDIR_ERROR_MAKE_DIR = ''error make dir for maildir struct''"
definition MAILDIR_ERROR_STAT_FILE_READ :: string where
  "MAILDIR_ERROR_STAT_FILE_READ = ''error get statInfo for file''"
definition MAILDIR_ERROR_GET_NEXT_DIRENT :: string where
  "MAILDIR_ERROR_GET_NEXT_DIRENT = ''error read directory for extract file names''"
definition MAILDIR_ERROR_CONTAINING_FOREIGN_OBJECT :: string where
  "MAILDIR_ERROR_CONTAINING_FOREIGN_OBJECT = ''user directory containing foreign object''"
definition MAILDIR_SERVER_NOT_FOUND :: string where "MAILDIR_SERVER_NOT_FOUND = ''not found server with name''"
definition MAILDIR_ERROR_FIND_SERVER :: string where
  "MAILDIR_ERROR_FIND_SERVER = ''error when performed find dir by path of the server by name''"
definition MAILDIR_ERROR_STRUCTURE_OF_USER_PATH_OF_THE_SERVER :: string where
  "MAILDIR_ERROR_STRUCTURE_OF_USER_PATH_OF_THE_SERVER = ''invalid inner structure user directory of the external server''"

definition MAILDIR_SERVER_ERROR_SERVER_PTR_IS_NULL :: string where
  "MAILDIR_SERVER_ERROR_SERVER_PTR_IS_NULL = ''ptr of server object is null''"
definition MAILDIR_SERVER_ERROR_ARGUMENT_PTR_IS_NULL :: string where
  "MAILDIR_SERVER_ERROR_ARGUMENT_PTR_IS_NULL = ''argument of function is null''"
definition MAILDIR_SERVER_ERROR_CREATE_USER_ROOT_DIR :: string where
  "MAILDIR_SERVER_ERROR_CREATE_USER_ROOT_DIR = ''error create root user dir''"
definition MAILDIR_SERVER_ERROR_CREATE_USER_TMP_DIR :: string where
  "MAILDIR_SERVER_ERROR_CREATE_USER_TMP_DIR = ''error create tmp user dir''"
definition MAILDIR_SERVER_ERROR_CREATE_USER_CUR_DIR :: string where
  "MAILDIR_SERVER_ERROR_CREATE_USER_CUR_DIR = ''error create cur user dir''"
definition MAILDIR_SERVER_ERROR_CREATE_USER_NEW_DIR :: string where
  "MAILDIR_SERVER_ERROR_CREATE_USER_NEW_DIR = ''error create new user dir''"
definition MAILDIR_SERVER_ERROR_USER_NOT_FOUND :: string where
  "MAILDIR_SERVER_ERROR_USER_NOT_FOUND = ''not found user in server''"

definition MAILDIR_USER_PTR_IS_NULL :: string where "MAILDIR_USER_PTR_IS_NULL = ''ptr of maildir_user is null''"
definition MAILDIR_MESSAGE_PTR_IS_NULL :: string where
  "MAILDIR_MESSAGE_PTR_IS_NULL = ''ptr of maildir_message is null''"
definition MAILDIR_MESSAGE_ERROR_OPEN_PATH :: string where "MAILDIR_MESSAGE_ERROR_OPEN_PATH = ''error open path''"
definition MAILDIR_MESSAGE_ERROR_CONCATENATE_STR :: string where
  "MAILDIR_MESSAGE_ERROR_CONCATENATE_STR = ''error concatenate paths''"
definition MAILDIR_MESSAGE_ERROR_GENERATE_FILENAME :: string where
  "MAILDIR_MESSAGE_ERROR_GENERATE_FILENAME = ''error creating unique filename for message''"
definition MAILDIR_MESSAGE_ERROR_CREATE_FILE :: string where
  "MAILDIR_MESSAGE_ERROR_CREATE_FILE = ''error crating file of message''"

definition MAILDIR_MESSAGE_ERROR_ALREADY_COMPLETED_WORK :: string where
  "MAILDIR_MESSAGE_ERROR_ALREADY_COMPLETED_WORK = ''already completed working with message''"
definition MAILDIR_MESSAGE_ERROR_REMOVE :: string where "MAILDIR_MESSAGE_ERROR_REMOVE = ''error remove message''"
definition MAILDIR_MESSAGE_ERROR_RENAME_FILE :: string where
  "MAILDIR_MESSAGE_ERROR_RENAME_FILE = ''error move file from tmp to new dir''"
definition MAILDIR_MESSAGE_ERROR_MSG_DESCRIPTOR_IS_NULL :: string where
  "MAILDIR_MESSAGE_ERROR_MSG_DESCRIPTOR_IS_NULL = ''ptr of maildir_message is null''"
definition MAILDIR_MESSAGE_ERROR_PARAMETER_IS_NULL :: string where
  "MAILDIR_MESSAGE_ERROR_PARAMETER_IS_NULL = ''ptr of parameter function is null''"
definition MAILDIR_MESSAGE_ERROR_WRITE_TO_FILE :: string where
  "MAILDIR_MESSAGE_ERROR_WRITE_TO_FILE = ''error write buffer to file''"
definition MAILDIR_MESSAGE_INVALID_SIZE_PARAMETER :: string where
  "MAILDIR_MESSAGE_INVALID_SIZE_PARAMETER = ''error size of buffer equal zero''"

section \<open>Paths\<close>

text \<open>The result of a call of \<open>char_make_buf_concat\<close> on a fresh buffer, as a C string.\<close>

definition make_path :: "bool \<Rightarrow> string list \<Rightarrow> string ptr ub" where
  "make_path mok strs =
     do {
       (b, _, res) \<leftarrow> char_make_buf_concat mok NULL 0 (length strs) strs;
       (if res then do { s \<leftarrow> c_str b; Some (Some s) } else Some NULL)
     }"

definition pr_maildir_char_concatenate :: "bool \<Rightarrow> nat \<Rightarrow> string list \<Rightarrow> string ptr ub" where
  "pr_maildir_char_concatenate mok n strs =
     (case strs of
        [] \<Rightarrow> UB
      | str # rest \<Rightarrow>
          if n > length strs \<or> n > 50 then UB
          else do {
            let args = take (n - 1) rest;
            let result_size = length str + sum_list (map length args) + 1;
            (if \<not> mok then Some NULL
             else do {
               b1 \<leftarrow> strcpy (mem_alloc result_size) 0 str;
               b2 \<leftarrow> concat_loop b1 0 str args;
               s \<leftarrow> c_str b2;
               Some (Some s)
             })
          })"

definition pr_maildir_path_syntax_check :: "string \<Rightarrow> bool" where
  "pr_maildir_path_syntax_check path = True"

text \<open>\<open>strcpy\<close> of a name into a field of \<open>NAME_MAX\<close> bytes.\<close>

definition name_copy :: "string \<Rightarrow> string ub" where
  "name_copy s = (if length s < NAME_MAX then Some s else UB)"

section \<open>\<open>maildir.c\<close>\<close>

definition pr_maildir_make_dir :: "fs \<Rightarrow> string \<Rightarrow> err_ptr \<Rightarrow> fs \<times> err_ptr \<times> bool" where
  "pr_maildir_make_dir fs path error =
     (case posix_mkdir fs path of
        (fs', None) \<Rightarrow> (fs', error, True)
      | (fs', Some e) \<Rightarrow> (fs', err_report_errno e MAILDIR_ERROR_MAKE_DIR error, False))"

text \<open>The path of the second directory is used without a test.\<close>

definition pr_maildir_make_root_structure :: "bool \<Rightarrow> fs \<Rightarrow> string \<Rightarrow> err_ptr \<Rightarrow> (fs \<times> err_ptr \<times> bool) ub" where
  "pr_maildir_make_root_structure mok fs path error =
     (case pr_maildir_make_dir fs path error of
        (fs1, error1, False) \<Rightarrow> Some (fs1, error1, False)
      | (fs1, error1, True) \<Rightarrow>
          do {
            p \<leftarrow> make_path mok [path, SERVERS_ROOT_NAME_PART];
            servers_path \<leftarrow> p;
            Some (pr_maildir_make_dir fs1 servers_path error1)
          })"

text \<open>
  A directory stream is what successive calls of \<open>readdir_r\<close> give: a name, or an error; after the
  last one the result pointer is null.
\<close>

type_synonym dir_stream = "(string + int) list"

fun pr_maildir_next_dirent_entry :: "dir_stream \<Rightarrow> err_ptr \<Rightarrow> string ptr \<times> dir_stream \<times> err_ptr \<times> bool" where
  "pr_maildir_next_dirent_entry [] error = (NULL, [], error, True)"
| "pr_maildir_next_dirent_entry (Inl d_name # dir) error = (Some d_name, dir, error, True)"
| "pr_maildir_next_dirent_entry (Inr e # dir) error =
     (NULL, dir, err_report_errno e MAILDIR_ERROR_GET_NEXT_DIRENT error, False)"

definition pr_maildir_check_is_dir :: "fs \<Rightarrow> string \<Rightarrow> err_ptr \<Rightarrow> bool \<times> err_ptr \<times> bool" where
  "pr_maildir_check_is_dir fs full_path error =
     (case posix_stat_isdir fs full_path of
        Inr e \<Rightarrow> (False, err_report_errno e MAILDIR_ERROR_STAT_FILE_READ error, False)
      | Inl d \<Rightarrow> (d, error, True))"

text \<open>
  One entry of a user directory. The flags are \<open>is_cur_dir_found\<close>, \<open>is_new_dir_found\<close> and
  \<open>is_tmp_dir_found\<close>; \<open>None\<close> is the return with \<open>false\<close>.
\<close>

definition check_user_entry ::
    "bool \<Rightarrow> fs \<Rightarrow> string \<Rightarrow> string \<Rightarrow> bool \<times> bool \<times> bool \<Rightarrow> err_ptr \<Rightarrow> (err_ptr \<times> (bool \<times> bool \<times> bool) option) ub" where
  "check_user_entry mok fs full_path path_name found error =
     (if path_name = ''.'' \<or> path_name = ''..'' then Some (error, Some found)
      else do {
        dir_path \<leftarrow> pr_maildir_char_concatenate mok 3 [full_path, ''/'', path_name];
        (if path_name = USER_PATH_CUR \<or> path_name = USER_PATH_TMP \<or> path_name = USER_PATH_NEW
         then do {
           p \<leftarrow> dir_path;
           (case pr_maildir_check_is_dir fs p error of
              (_, error1, False) \<Rightarrow> Some (error1, None)
            | (is_path, error1, True) \<Rightarrow>
                Some (error1, Some (fst found \<or> (is_path \<and> path_name = USER_PATH_CUR),
                                    fst (snd found) \<or> (is_path \<and> path_name = USER_PATH_NEW),
                                    snd (snd found) \<or> (is_path \<and> path_name = USER_PATH_TMP))))
         }
         else Some (err_report FATAL MAILDIR_ERROR_CONTAINING_FOREIGN_OBJECT error, None))
      })"

function check_user_loop ::
    "bool \<Rightarrow> fs \<Rightarrow> string \<Rightarrow> dir_stream \<Rightarrow> bool \<times> bool \<times> bool \<Rightarrow> err_ptr \<Rightarrow> (err_ptr \<times> (bool \<times> bool \<times> bool) option) ub" where
  "check_user_loop mok fs full_path dir found error =
     (case pr_maildir_next_dirent_entry dir error of
        (_, _, error1, False) \<Rightarrow> Some (error1, None)
      | (NULL, _, error1, True) \<Rightarrow> Some (error1, Some found)
      | (Some d_name, dir', error1, True) \<Rightarrow>
          (case check_user_entry mok fs full_path d_name found error1 of
             None \<Rightarrow> UB
           | Some (error2, None) \<Rightarrow> Some (error2, None)
           | Some (error2, Some found') \<Rightarrow> check_user_loop mok fs full_path dir' found' error2))"
  by pat_completeness auto

lemma next_dirent_shorter:
  "pr_maildir_next_dirent_entry dir error = (Some d, dir', error', ok) \<Longrightarrow> length dir' < length dir"
  by (cases "(dir, error)" rule: pr_maildir_next_dirent_entry.cases) auto

termination check_user_loop
  by (relation "measure (\<lambda>(_, _, _, dir, _, _). length dir)") (auto dest: next_dirent_shorter [OF sym])

declare check_user_loop.simps [simp del]

definition pr_maildir_check_user_structure ::
    "bool \<Rightarrow> fs \<Rightarrow> (string \<Rightarrow> dir_stream) \<Rightarrow> string \<Rightarrow> bool \<Rightarrow> err_ptr \<Rightarrow> (err_ptr \<times> bool) ub" where
  "pr_maildir_check_user_structure mok fs entries full_path cur_must_exist error =
     (case posix_opendir fs full_path of
        Some e \<Rightarrow> Some (err_report_errno e MAILDIR_ERROR_OPENING_SERVERS_PATH error, False)
      | None \<Rightarrow>
          (case check_user_loop mok fs full_path (entries full_path) (False, False, False) error of
             None \<Rightarrow> UB
           | Some (error1, None) \<Rightarrow> Some (error1, False)
           | Some (error1, Some (is_cur, is_new, is_tmp)) \<Rightarrow>
               Some (error1, if cur_must_exist then is_cur \<and> is_new \<and> is_tmp else is_new \<and> is_tmp)))"

text \<open>The users of a server, one directory each.\<close>

function check_server_loop ::
    "bool \<Rightarrow> fs \<Rightarrow> (string \<Rightarrow> dir_stream) \<Rightarrow> string \<Rightarrow> dir_stream \<Rightarrow> err_ptr \<Rightarrow> (err_ptr \<times> bool) ub" where
  "check_server_loop mok fs entries server_full_path dir error =
     (case pr_maildir_next_dirent_entry dir error of
        (_, _, error1, False) \<Rightarrow> Some (error1, False)
      | (NULL, _, error1, True) \<Rightarrow> Some (error1, True)
      | (Some d_name, dir', error1, True) \<Rightarrow>
          if d_name = ''.'' \<or> d_name = ''..'' then check_server_loop mok fs entries server_full_path dir' error1
          else
            (case pr_maildir_char_concatenate mok 3 [server_full_path, ''/'', d_name] of
               None \<Rightarrow> UB
             | Some NULL \<Rightarrow> Some (err_report FATAL MAILDIR_ERROR_CONCATENATE_PATHS error1, False)
             | Some (Some user_path) \<Rightarrow>
                 (case pr_maildir_check_user_structure mok fs entries user_path False error1 of
                    None \<Rightarrow> UB
                  | Some (error2, False) \<Rightarrow>
                      Some (err_report FATAL MAILDIR_ERROR_STRUCTURE_OF_USER_PATH_OF_THE_SERVER error2, False)
                  | Some (error2, True) \<Rightarrow> check_server_loop mok fs entries server_full_path dir' error2)))"
  by pat_completeness auto

termination check_server_loop
  by (relation "measure (\<lambda>(_, _, _, _, dir, _). length dir)") (auto dest: next_dirent_shorter [OF sym])

declare check_server_loop.simps [simp del]

definition pr_maildir_check_server_structure ::
    "bool \<Rightarrow> fs \<Rightarrow> (string \<Rightarrow> dir_stream) \<Rightarrow> string \<Rightarrow> err_ptr \<Rightarrow> (err_ptr \<times> bool) ub" where
  "pr_maildir_check_server_structure mok fs entries server_full_path error =
     (case posix_opendir fs server_full_path of
        Some e \<Rightarrow> Some (err_report_errno e MAILDIR_ERROR_OPENING_SERVERS_PATH error, False)
      | None \<Rightarrow> check_server_loop mok fs entries server_full_path (entries server_full_path) error)"

definition pr_maildir_check_root_structure :: "maildir \<Rightarrow> err_ptr \<Rightarrow> err_ptr \<times> bool" where
  "pr_maildir_check_root_structure md error = (error, True)"

definition pr_maildir_relative_to_absolute_path ::
    "bool \<Rightarrow> fs \<Rightarrow> maildir \<Rightarrow> string \<Rightarrow> err_ptr \<Rightarrow> maildir \<times> err_ptr \<times> bool" where
  "pr_maildir_relative_to_absolute_path mok fs md path error =
     (case s_malloc mok () error of
        (NULL, error1) \<Rightarrow> (md, error1, False)
      | (Some _, error1) \<Rightarrow>
          (case posix_realpath fs path of
             Inr e \<Rightarrow> (md\<lparr>pr_path := NULL\<rparr>, err_report_errno e MAILDIR_ERROR_CONVERT_RELATIVE_TO_ABSOLUTE error1, False)
           | Inl p \<Rightarrow> (md\<lparr>pr_path := Some p\<rparr>, error1, True)))"

definition maildir_init ::
    "bool \<Rightarrow> fs \<Rightarrow> maildir ptr \<Rightarrow> string ptr \<Rightarrow> err_ptr \<Rightarrow> (fs \<times> maildir ptr \<times> err_ptr \<times> bool) ub" where
  "maildir_init mok fs md path error =
     (case (md, path) of
        (NULL, _) \<Rightarrow> Some (fs, NULL, err_report FATAL MAILDIR_MD_PTR_NULL error, False)
      | (Some m, NULL) \<Rightarrow> Some (fs, md, err_report FATAL MAILDIR_MD_PTR_NULL error, False)
      | (Some m, Some p) \<Rightarrow>
          (let error1 = ERROR_SUCCESS error in
           case posix_opendir fs p of
             Some e \<Rightarrow>
               if e = ENOENT then
                 do {
                   (fs1, error2, made) \<leftarrow> pr_maildir_make_root_structure mok fs p error1;
                   (if made then
                      (case pr_maildir_relative_to_absolute_path mok fs1 m p error2 of
                         (m1, error3, res) \<Rightarrow> Some (fs1, Some m1, error3, res))
                    else Some (fs1, md, error2, False))
                 }
               else Some (fs, md, err_report_errno e MAILDIR_ROOT_PATH_ERROR error1, False)
           | None \<Rightarrow>
               (case pr_maildir_relative_to_absolute_path mok fs m p error1 of
                  (m1, error2, True) \<Rightarrow>
                    (case pr_maildir_check_root_structure m1 error2 of (error3, res) \<Rightarrow> Some (fs, Some m1, error3, res))
                | (m1, error2, False) \<Rightarrow> Some (fs, Some m1, error2, False))))"

text \<open>A pointer to released storage is as good as null: using it is undefined.\<close>

definition maildir_free :: "maildir ptr \<Rightarrow> maildir ptr" where
  "maildir_free md = map_option (\<lambda>m. m\<lparr>pr_path := NULL\<rparr>) md"

definition maildir_release :: "maildir ptr \<Rightarrow> err_ptr \<Rightarrow> err_ptr \<times> bool" where
  "maildir_release md error =
     (case md of NULL \<Rightarrow> (err_report FATAL MAILDIR_MD_PTR_NULL error, False) | Some _ \<Rightarrow> (error, True))"

definition maildir_server_list :: "maildir ptr \<Rightarrow> bool" where
  "maildir_server_list md = False"

definition maildir_get_self_server ::
    "maildir ptr \<Rightarrow> maildir_server ptr \<Rightarrow> err_ptr \<Rightarrow> maildir_server ptr \<times> err_ptr \<times> bool" where
  "maildir_get_self_server md server error =
     (case (md, server) of
        (NULL, _) \<Rightarrow> (server, err_report FATAL MAILDIR_MD_PTR_NULL error, False)
      | (Some _, NULL) \<Rightarrow> (server, err_report FATAL MAILDIR_ERROR_PTR_OF_SERVER_IS_NULL error, False)
      | (Some _, Some s) \<Rightarrow> (Some (s\<lparr>is_self := True, pr_md := md\<rparr>), ERROR_SUCCESS error, True))"

definition maildir_get_server ::
    "bool \<Rightarrow> fs \<Rightarrow> maildir ptr \<Rightarrow> maildir_server ptr \<Rightarrow> string \<Rightarrow> err_ptr \<Rightarrow> (maildir_server ptr \<times> err_ptr \<times> bool) ub" where
  "maildir_get_server mok fs md server server_name error =
     (case (md, server) of
        (NULL, _) \<Rightarrow> Some (server, err_report FATAL MAILDIR_MD_PTR_NULL error, False)
      | (Some _, NULL) \<Rightarrow> Some (server, err_report FATAL MAILDIR_ERROR_PTR_OF_SERVER_IS_NULL error, False)
      | (Some m, Some s) \<Rightarrow>
          do {
            let error1 = ERROR_SUCCESS error;
            root \<leftarrow> pr_path m;
            full \<leftarrow> pr_maildir_char_concatenate mok 3 [root, SERVERS_ROOT_NAME_PART, server_name];
            (case full of
               NULL \<Rightarrow> Some (server, err_report FATAL MAILDIR_ERROR_CONCATENATE_PATHS error1, False)
             | Some server_full_path \<Rightarrow>
                 (case posix_opendir fs server_full_path of
                    Some e \<Rightarrow>
                      if e = ENOENT then Some (server, err_report NOT_FOUND MAILDIR_SERVER_NOT_FOUND error1, False)
                      else Some (server, err_report_errno e MAILDIR_ERROR_FIND_SERVER error1, False)
                  | None \<Rightarrow>
                      do {
                        name \<leftarrow> name_copy server_name;
                        Some (Some (s\<lparr>pr_server_domain := name, pr_md := md, is_self := False\<rparr>), error1, True)
                      }))
          })"

definition maildir_create_server ::
    "bool \<Rightarrow> fs \<Rightarrow> maildir ptr \<Rightarrow> maildir_server ptr \<Rightarrow> string \<Rightarrow> err_ptr \<Rightarrow>
     (fs \<times> maildir_server ptr \<times> err_ptr \<times> bool) ub" where
  "maildir_create_server mok fs md server server_domain error =
     (case (md, server) of
        (NULL, _) \<Rightarrow> Some (fs, server, err_report FATAL MAILDIR_MD_PTR_NULL error, False)
      | (Some _, NULL) \<Rightarrow> Some (fs, server, err_report FATAL MAILDIR_ERROR_PTR_OF_SERVER_IS_NULL error, False)
      | (Some m, Some s) \<Rightarrow>
          do {
            let error1 = ERROR_SUCCESS error;
            root \<leftarrow> pr_path m;
            p \<leftarrow> pr_maildir_char_concatenate mok 3 [root, SERVERS_ROOT_NAME_PART, server_domain];
            (case p of
               NULL \<Rightarrow> Some (fs, server, err_report FATAL MAILDIR_ERROR_CONCATENATE_PATHS error1, False)
             | Some path \<Rightarrow>
                 (case posix_mkdir fs path of
                    (fs1, Some e) \<Rightarrow> Some (fs1, server, err_report_errno e MAILDIR_ERROR_CREATE_DIRECTORY error1, False)
                  | (fs1, None) \<Rightarrow>
                      do {
                        p2 \<leftarrow> pr_maildir_char_concatenate mok 5 [root, SERVERS_ROOT_NAME_PART, server_domain, ''/'', USER_PATH_TMP];
                        path2 \<leftarrow> p2;
                        (case posix_mkdir fs1 path2 of
                           (fs2, Some e) \<Rightarrow>
                             Some (fs2, server, err_report_errno e MAILDIR_ERROR_CREATE_DIRECTORY error1, False)
                         | (fs2, None) \<Rightarrow>
                             do {
                               name \<leftarrow> name_copy server_domain;
                               Some (fs2, Some (s\<lparr>pr_md := md, is_self := False, pr_server_domain := name\<rparr>), error1, True)
                             })
                      }))
          })"

definition maildir_delete_server :: "maildir ptr \<Rightarrow> maildir_server ptr \<Rightarrow> bool" where
  "maildir_delete_server md server = False"

section \<open>\<open>server.c\<close>\<close>

definition maildir_server_is_self ::
    "maildir_server ptr \<Rightarrow> bool ptr \<Rightarrow> err_ptr \<Rightarrow> bool ptr \<times> err_ptr \<times> bool" where
  "maildir_server_is_self server res error =
     (case (server, res) of
        (NULL, _) \<Rightarrow> (res, err_report FATAL MAILDIR_SERVER_ERROR_SERVER_PTR_IS_NULL error, False)
      | (Some _, NULL) \<Rightarrow> (res, err_report FATAL MAILDIR_SERVER_ERROR_ARGUMENT_PTR_IS_NULL error, False)
      | (Some s, Some _) \<Rightarrow> (Some (is_self s), ERROR_SUCCESS error, True))"

definition pr_maildir_server_path :: "bool \<Rightarrow> maildir_server ptr \<Rightarrow> string ptr ub" where
  "pr_maildir_server_path mok server =
     (case maildir_server_is_self server (Some False) NULL of
        (_, _, False) \<Rightarrow> Some NULL
      | (self, _, True) \<Rightarrow>
          do {
            s \<leftarrow> server;
            md \<leftarrow> pr_md s;
            root \<leftarrow> pr_path md;
            (if self = Some True then make_path mok [root]
             else make_path mok [root, SERVERS_ROOT_NAME_PART, pr_server_domain s])
          })"

definition pr_maildir_server_mkdir :: "fs \<Rightarrow> string \<Rightarrow> err_ptr \<Rightarrow> string \<Rightarrow> fs \<times> err_ptr \<times> bool" where
  "pr_maildir_server_mkdir fs path error error_message =
     (case posix_mkdir fs path of
        (fs', None) \<Rightarrow> (fs', error, True)
      | (fs', Some e) \<Rightarrow> (fs', err_report_errno e error_message error, False))"

text \<open>One directory below the user's: its path, then the call.\<close>

definition user_subdir :: "bool \<Rightarrow> fs \<Rightarrow> string \<Rightarrow> string \<Rightarrow> err_ptr \<Rightarrow> string \<Rightarrow> (fs \<times> err_ptr \<times> bool) ub" where
  "user_subdir mok fs user_path name error error_message =
     do {
       p \<leftarrow> make_path mok [user_path, ''/'', name];
       (case p of
          NULL \<Rightarrow> Some (fs, err_report FATAL MAILDIR_ERROR_CONCATENATE_PATHS error, False)
        | Some path \<Rightarrow> Some (pr_maildir_server_mkdir fs path error error_message))
     }"

text \<open>The branch of \<open>maildir_server_create_user\<close> for the server itself, up to the label \<open>exit\<close>.\<close>

definition create_user_dirs :: "bool \<Rightarrow> fs \<Rightarrow> string \<Rightarrow> string \<Rightarrow> maildir_server \<Rightarrow> err_ptr \<Rightarrow> (fs \<times> err_ptr \<times> bool) ub" where
  "create_user_dirs mok fs server_path username server error =
     do {
       up \<leftarrow> make_path mok [server_path, ''/'', username];
       (case up of
          NULL \<Rightarrow> Some (fs, err_report FATAL MAILDIR_ERROR_CONCATENATE_PATHS error, False)
        | Some user_path \<Rightarrow>
            (case pr_maildir_server_mkdir fs user_path error MAILDIR_SERVER_ERROR_CREATE_USER_ROOT_DIR of
               (fs1, error1, False) \<Rightarrow> Some (fs1, error1, False)
             | (fs1, error1, True) \<Rightarrow>
                 do {
                   (fs2, error2, made) \<leftarrow> user_subdir mok fs1 user_path USER_PATH_TMP error1 MAILDIR_SERVER_ERROR_CREATE_USER_TMP_DIR;
                   (if \<not> made then Some (fs2, error2, False)
                    else
                      (case maildir_server_is_self (Some server) (Some False) error2 of
                         (self, error3, _) \<Rightarrow>
                           do {
                             (fs3, error4, made') \<leftarrow>
                               (if self = Some True
                                then user_subdir mok fs2 user_path USER_PATH_CUR error3 MAILDIR_SERVER_ERROR_CREATE_USER_CUR_DIR
                                else Some (fs2, error3, made));
                             (if \<not> made' then Some (fs3, error4, False)
                              else user_subdir mok fs3 user_path USER_PATH_NEW error4 MAILDIR_SERVER_ERROR_CREATE_USER_NEW_DIR)
                           }))
                 }))
     }"

definition maildir_server_create_user ::
    "bool \<Rightarrow> fs \<Rightarrow> maildir_server ptr \<Rightarrow> maildir_user ptr \<Rightarrow> string ptr \<Rightarrow> err_ptr \<Rightarrow>
     (fs \<times> maildir_user ptr \<times> err_ptr \<times> bool) ub" where
  "maildir_server_create_user mok fs server user username error =
     (case (server, user, username) of
        (NULL, _, _) \<Rightarrow> Some (fs, user, err_report FATAL MAILDIR_SERVER_ERROR_SERVER_PTR_IS_NULL error, False)
      | (Some _, NULL, _) \<Rightarrow> Some (fs, user, err_report FATAL MAILDIR_SERVER_ERROR_ARGUMENT_PTR_IS_NULL error, False)
      | (Some _, Some _, NULL) \<Rightarrow> Some (fs, user, err_report FATAL MAILDIR_SERVER_ERROR_ARGUMENT_PTR_IS_NULL error, False)
      | (Some s, Some u, Some name) \<Rightarrow>
          do {
            let error1 = ERROR_SUCCESS error;
            sp \<leftarrow> pr_maildir_server_path mok server;
            (case sp of
               NULL \<Rightarrow> Some (fs, user, err_report FATAL MAILDIR_ERROR_CONCATENATE_PATHS error1, False)
             | Some server_path \<Rightarrow>
                 (case maildir_server_is_self server (Some False) (Some err_fresh) of
                    (self, err, _) \<Rightarrow>
                      if failed (the err) then Some (fs, user, err_assign (the err) error1, False)
                      else do {
                        (fs1, error2, status) \<leftarrow>
                          (if self = Some True then create_user_dirs mok fs server_path name s error1
                           else Some (fs, error1, True));
                        login \<leftarrow> name_copy name;
                        Some (fs1, Some (u\<lparr>pr_server := server, pr_login := login\<rparr>), error2, status)
                      }))
          })"

definition maildir_server_default_init :: "maildir_server \<Rightarrow> maildir_server" where
  "maildir_server_default_init server = server\<lparr>is_self := False, pr_md := NULL\<rparr>"

definition maildir_server_free :: "maildir_server ptr \<Rightarrow> maildir_server ptr" where
  "maildir_server_free server = map_option (\<lambda>s. s\<lparr>pr_md := NULL\<rparr>) server"

text \<open>
  A user of the server itself has a directory of that name; for another server only the directory
  of all the other servers is looked for, whatever the name.
\<close>

definition maildir_server_user ::
    "bool \<Rightarrow> fs \<Rightarrow> maildir_server ptr \<Rightarrow> maildir_user ptr \<Rightarrow> string ptr \<Rightarrow> err_ptr \<Rightarrow> (maildir_user ptr \<times> err_ptr \<times> bool) ub" where
  "maildir_server_user mok fs server user username error =
     (case (server, user, username) of
        (NULL, _, _) \<Rightarrow> Some (user, err_report FATAL MAILDIR_SERVER_ERROR_SERVER_PTR_IS_NULL error, False)
      | (Some _, NULL, _) \<Rightarrow> Some (user, err_report FATAL MAILDIR_SERVER_ERROR_ARGUMENT_PTR_IS_NULL error, False)
      | (Some _, Some _, NULL) \<Rightarrow> Some (user, err_report FATAL MAILDIR_SERVER_ERROR_ARGUMENT_PTR_IS_NULL error, False)
      | (Some s, Some u, Some name) \<Rightarrow>
          (let error1 = ERROR_SUCCESS error in
           case maildir_server_is_self server (Some False) (Some err_fresh) of
             (self, err, _) \<Rightarrow>
               if failed (the err) then Some (user, err_assign (the err) error1, False)
               else do {
                 md \<leftarrow> pr_md s;
                 root \<leftarrow> pr_path md;
                 up \<leftarrow> (if self = Some True then make_path mok [root, ''/'', name]
                        else make_path mok [root, SERVERS_ROOT_NAME_PART]);
                 (case up of
                    NULL \<Rightarrow> Some (user, err_report FATAL MAILDIR_ERROR_CONCATENATE_PATHS error1, False)
                  | Some user_path \<Rightarrow>
                      (case posix_opendir fs user_path of
                         Some e \<Rightarrow> Some (user, err_report_errno e MAILDIR_SERVER_ERROR_USER_NOT_FOUND error1, False)
                       | None \<Rightarrow> do { login \<leftarrow> name_copy name; Some (Some (u\<lparr>pr_login := login, pr_server := server\<rparr>), error1, True) }))
               }))"

section \<open>\<open>user.c\<close>\<close>

definition pr_maildir_make_full_path :: "bool \<Rightarrow> maildir_user \<Rightarrow> err_ptr \<Rightarrow> (string ptr \<times> err_ptr \<times> bool) ub" where
  "pr_maildir_make_full_path mok user error =
     (case maildir_server_is_self (pr_server user) (Some False) error of
        (self, error1, _) \<Rightarrow>
          do {
            s \<leftarrow> pr_server user;
            md \<leftarrow> pr_md s;
            root \<leftarrow> pr_path md;
            p \<leftarrow> (if self = Some True then make_path mok [root, ''/'', pr_login user]
                  else make_path mok [root, SERVERS_ROOT_NAME_PART, pr_server_domain s]);
            Some (p, error1, p \<noteq> NULL)
          })"

definition pr_maildir_user_opendir :: "fs \<Rightarrow> string \<Rightarrow> err_ptr \<Rightarrow> err_ptr \<times> bool" where
  "pr_maildir_user_opendir fs path error =
     (case posix_opendir fs path of
        Some e \<Rightarrow> (err_report_errno e MAILDIR_MESSAGE_ERROR_OPEN_PATH error, False)
      | None \<Rightarrow> (error, True))"

text \<open>\<open>"%ld_%d"\<close> of the clock and a random number: at most 32 bytes.\<close>

definition pr_maildir_message_filename_generate :: "int \<times> int \<Rightarrow> string" where
  "pr_maildir_message_filename_generate d = dec_string_int (fst d) @ ''_'' @ dec_string_int (snd d)"

text \<open>
  The search for a name that is neither in \<open>tmp\<close> nor at its final place. \<open>None\<close> is the exit with
  an error; \<open>attempts\<close> is the number of turns taken. The number of turns is tested after the
  turn, and whether or not the name was free.
\<close>

function create_name_loop ::
    "bool \<Rightarrow> fs \<Rightarrow> maildir_user \<Rightarrow> string \<Rightarrow> (nat \<Rightarrow> int \<times> int) \<Rightarrow> nat \<Rightarrow> err_ptr \<Rightarrow> (string \<times> err_ptr \<times> string option) ub" where
  "create_name_loop mok fs user user_full_path draw attempts error =
     do {
       let filename = pr_maildir_message_filename_generate (draw attempts);
       tmp_path \<leftarrow> make_path mok [user_full_path, ''/'', USER_PATH_TMP, ''/'', filename];
       new_path \<leftarrow> (if fst (maildir_server_is_self (pr_server user) (Some False) NULL) = Some True
                    then make_path mok [user_full_path, ''/'', USER_PATH_NEW, ''/'', filename]
                    else make_path mok [user_full_path, ''/'', filename]);
       (if tmp_path = NULL \<or> new_path = NULL
        then Some (filename, err_report FATAL MAILDIR_MESSAGE_ERROR_CONCATENATE_STR error, None)
        else
          let is_continue = (posix_fopen_r fs (the tmp_path) \<noteq> None \<or> posix_fopen_r fs (the new_path) \<noteq> None) in
          if Suc attempts \<ge> MAX_NUM_ATTEMPTS_TO_CREATE_FILENAME
          then Some (filename, err_report FATAL MAILDIR_MESSAGE_ERROR_GENERATE_FILENAME error, None)
          else if is_continue then create_name_loop mok fs user user_full_path draw (Suc attempts) error
          else Some (filename, error, tmp_path))
     }"
  by pat_completeness auto

termination create_name_loop
  by (relation "measure (\<lambda>(_, _, _, _, _, attempts, _). 10 - attempts)")
     (auto simp: MAX_NUM_ATTEMPTS_TO_CREATE_FILENAME_def)

declare create_name_loop.simps [simp del]

definition maildir_user_create_message ::
    "bool \<Rightarrow> fs \<Rightarrow> (nat \<Rightarrow> int \<times> int) \<Rightarrow> maildir_user ptr \<Rightarrow> maildir_message ptr \<Rightarrow> string ptr \<Rightarrow> err_ptr \<Rightarrow>
     (fs \<times> maildir_message ptr \<times> err_ptr \<times> bool) ub" where
  "maildir_user_create_message mok fs draw user message sender_name error =
     (case (user, message, sender_name) of
        (NULL, _, _) \<Rightarrow> Some (fs, message, err_report FATAL MAILDIR_USER_PTR_IS_NULL error, False)
      | (Some _, NULL, _) \<Rightarrow> Some (fs, message, err_report FATAL MAILDIR_MESSAGE_PTR_IS_NULL error, False)
      | (Some _, Some _, NULL) \<Rightarrow> Some (fs, message, err_report FATAL MAILDIR_MESSAGE_PTR_IS_NULL error, False)
      | (Some u, Some m, Some _) \<Rightarrow>
          do {
            (full, error1, res) \<leftarrow> pr_maildir_make_full_path mok u error;
            (if \<not> res then Some (fs, message, error1, False)
             else do {
               user_full_path \<leftarrow> full;
               (filename, error2, found) \<leftarrow> create_name_loop mok fs u user_full_path draw 0 error1;
               let m1 = m\<lparr>pr_filename := filename\<rparr>;
               (case found of
                  None \<Rightarrow> Some (fs, Some m1, error2, False)
                | Some tmp_path \<Rightarrow>
                    (case posix_fopen_w fs tmp_path of
                       (fs1, NULL) \<Rightarrow> Some (fs1, Some m1, err_report FATAL MAILDIR_MESSAGE_ERROR_CREATE_FILE error2, False)
                     | (fs1, Some fd) \<Rightarrow>
                         Some (fs1, Some (m1\<lparr>pr_user := user, pr_type := TMP, pr_fd := Some fd, pr_is_open := True\<rparr>),
                               error2, True)))
             })
          })"

definition maildir_user_default_init :: "maildir_user \<Rightarrow> maildir_user" where
  "maildir_user_default_init user = user\<lparr>pr_login := [], pr_server := NULL\<rparr>"

definition maildir_user_free :: "maildir_user ptr \<Rightarrow> maildir_user ptr" where
  "maildir_user_free user = user"

definition maildir_user_login :: "maildir_user \<Rightarrow> string \<times> bool" where
  "maildir_user_login user = (pr_login user, True)"

definition maildir_user_server :: "maildir_user \<Rightarrow> maildir_server ptr \<times> bool" where
  "maildir_user_server user = (pr_server user, True)"

definition maildir_user_message_list :: "maildir_user \<Rightarrow> bool" where
  "maildir_user_message_list user = False"

section \<open>\<open>message.c\<close>\<close>

text \<open>For a message of type \<open>NONE\<close> the result stays null although the call succeeds.\<close>

definition pr_maildir_message_make_full_path ::
    "bool \<Rightarrow> maildir_message \<Rightarrow> message_type \<Rightarrow> err_ptr \<Rightarrow> (string ptr \<times> err_ptr \<times> bool) ub" where
  "pr_maildir_message_make_full_path mok msg path_type error =
     do {
       u \<leftarrow> pr_user msg;
       (up, error1, res) \<leftarrow> pr_maildir_make_full_path mok u error;
       (if \<not> res then Some (NULL, error1, False)
        else do {
          user_path \<leftarrow> up;
          (case path_type of
             NEW \<Rightarrow> do { p \<leftarrow> make_path mok [user_path, ''/'', USER_PATH_NEW, ''/'', pr_filename msg]; Some (p, error1, p \<noteq> NULL) }
           | TMP \<Rightarrow> do { p \<leftarrow> make_path mok [user_path, ''/'', USER_PATH_TMP, ''/'', pr_filename msg]; Some (p, error1, p \<noteq> NULL) }
           | SERVER \<Rightarrow> do { p \<leftarrow> make_path mok [user_path, ''/'', pr_filename msg]; Some (p, error1, p \<noteq> NULL) }
           | NONE \<Rightarrow> Some (NULL, error1, True))
        })
     }"

definition maildir_message_default_init :: "maildir_message \<Rightarrow> maildir_message" where
  "maildir_message_default_init msg =
     msg\<lparr>pr_filename := [], pr_user := NULL, pr_fd := NULL, pr_is_open := False, pr_type := NONE\<rparr>"

definition maildir_message_free :: "maildir_message \<Rightarrow> maildir_message" where
  "maildir_message_free msg = (if pr_is_open msg then msg\<lparr>pr_is_open := False, pr_fd := NULL\<rparr> else msg)"

definition maildir_message_release :: "bool \<Rightarrow> fs \<Rightarrow> maildir_message \<Rightarrow> err_ptr \<Rightarrow> (fs \<times> err_ptr \<times> bool) ub" where
  "maildir_message_release mok fs msg error =
     do {
       (p, error1, res) \<leftarrow> pr_maildir_message_make_full_path mok msg (pr_type msg) (ERROR_SUCCESS error);
       (if \<not> res then Some (fs, error1, False)
        else do {
          msg_path \<leftarrow> p;
          (case posix_unlink fs msg_path of
             (fs1, Some e) \<Rightarrow> Some (fs1, err_report_errno e MAILDIR_MESSAGE_ERROR_REMOVE error1, False)
           | (fs1, None) \<Rightarrow> Some (fs1, error1, True))
        })
     }"

definition maildir_message_finalize ::
    "bool \<Rightarrow> fs \<Rightarrow> maildir_message \<Rightarrow> err_ptr \<Rightarrow> (fs \<times> maildir_message \<times> err_ptr \<times> bool) ub" where
  "maildir_message_finalize mok fs msg error =
     (let error1 = ERROR_SUCCESS error in
      if pr_type msg = NEW then Some (fs, msg, error1, True)
      else if \<not> pr_is_open msg
      then Some (fs, msg, err_report FATAL MAILDIR_MESSAGE_ERROR_ALREADY_COMPLETED_WORK error1, False)
      else do {
        let msg1 = msg\<lparr>pr_is_open := False\<rparr>;
        (p, error2, res) \<leftarrow> pr_maildir_message_make_full_path mok msg1 TMP error1;
        (if \<not> res then Some (fs, msg1, error2, False)
         else do {
           u \<leftarrow> pr_user msg1;
           (q, error3, res') \<leftarrow>
             pr_maildir_message_make_full_path mok msg1
               (if fst (maildir_server_is_self (pr_server u) (Some False) NULL) = Some True then NEW else SERVER) error2;
           (if \<not> res' then Some (fs, msg1, error3, False)
            else do {
              msg_path \<leftarrow> p;
              msg_new_path \<leftarrow> q;
              (case posix_rename fs msg_path msg_new_path of
                 (fs1, Some e) \<Rightarrow> Some (fs1, msg1, err_report_errno e MAILDIR_MESSAGE_ERROR_RENAME_FILE error3, False)
               | (fs1, None) \<Rightarrow> Some (fs1, msg1, error3, True))
            })
         })
      })"

definition maildir_message_get_user :: "maildir_message \<Rightarrow> err_ptr \<Rightarrow> maildir_user ptr \<times> err_ptr \<times> bool" where
  "maildir_message_get_user msg error = (pr_user msg, ERROR_SUCCESS error, True)"

definition maildir_message_write ::
    "fs \<Rightarrow> maildir_message ptr \<Rightarrow> string ptr \<Rightarrow> nat \<Rightarrow> err_ptr \<Rightarrow> (fs \<times> err_ptr \<times> bool) ub" where
  "maildir_message_write fs msg buffer b_len error =
     (case (msg, buffer) of
        (NULL, _) \<Rightarrow> Some (fs, err_report FATAL MAILDIR_MESSAGE_ERROR_MSG_DESCRIPTOR_IS_NULL error, False)
      | (Some _, NULL) \<Rightarrow> Some (fs, err_report FATAL MAILDIR_MESSAGE_ERROR_PARAMETER_IS_NULL error, False)
      | (Some m, Some b) \<Rightarrow>
          (let error1 = ERROR_SUCCESS error in
           if b_len = 0 then Some (fs, err_report FATAL MAILDIR_MESSAGE_INVALID_SIZE_PARAMETER error1, False)
           else if \<not> pr_is_open m
           then Some (fs, err_report FATAL MAILDIR_MESSAGE_ERROR_ALREADY_COMPLETED_WORK error1, False)
           else if length b < b_len then UB
           else do {
             fd \<leftarrow> pr_fd m;
             (case posix_fwrite fs fd (take b_len b) of
                (fs1, res) \<Rightarrow>
                  if res = 0 then Some (fs1, err_report FATAL MAILDIR_MESSAGE_ERROR_WRITE_TO_FILE error1, False)
                  else Some (fs1, error1, True))
           }))"

section \<open>Where things are\<close>

definition file_name :: "string \<Rightarrow> bool" where
  "file_name n \<longleftrightarrow> entry_name n \<and> c_string n"

lemma file_name_entry [simp]: "file_name n \<Longrightarrow> entry_name n"
  by (simp add: file_name_def)

lemma file_name_c_string [simp]: "file_name n \<Longrightarrow> c_string n"
  by (simp add: file_name_def)

definition maildir_at :: "maildir \<Rightarrow> string list \<Rightarrow> bool" where
  "maildir_at md root \<longleftrightarrow> pr_path md = Some (join_path root) \<and> (\<forall>n\<in>set root. file_name n)"

text \<open>The directory of a user and the final place of a file there.\<close>

definition server_dir :: "string list \<Rightarrow> string \<Rightarrow> string list" where
  "server_dir root domain = root @ [''.OTHER_SERVERS'', domain]"

definition mail_dir :: "string list \<Rightarrow> maildir_server \<Rightarrow> maildir_user \<Rightarrow> string list" where
  "mail_dir root s u = (if is_self s then root @ [pr_login u] else server_dir root (pr_server_domain s))"

definition final_dir :: "string list \<Rightarrow> maildir_server \<Rightarrow> maildir_user \<Rightarrow> string list" where
  "final_dir root s u = (if is_self s then mail_dir root s u @ [''new''] else mail_dir root s u)"

definition user_at :: "maildir_user \<Rightarrow> maildir_server \<Rightarrow> string list \<Rightarrow> bool" where
  "user_at u s root \<longleftrightarrow> pr_server u = Some s \<and> (\<exists>md. pr_md s = Some md \<and> maildir_at md root)
     \<and> file_name (if is_self s then pr_login u else pr_server_domain s)"

definition name_taken :: "fs \<Rightarrow> string list \<Rightarrow> maildir_server \<Rightarrow> maildir_user \<Rightarrow> string \<Rightarrow> bool" where
  "name_taken fs root s u f \<longleftrightarrow>
     fs_nodes fs (mail_dir root s u @ [''tmp'', f]) \<noteq> None \<or> fs_nodes fs (final_dir root s u @ [f]) \<noteq> None"

lemma make_path_run:
  assumes "\<forall>s\<in>set strs. c_string s" "strs \<noteq> []" "length strs \<le> 50"
  shows "make_path True strs = Some (Some (concat strs))"
proof -
  have "buf_ok NULL 0" by (simp add: buf_ok_def)
  from char_make_buf_concat_run [OF this assms(2,3,1)] obtain d m where
    "char_make_buf_concat True NULL 0 (length strs) strs = Some (d, m, True)" "c_str d = Some (concat strs)" by blast
  then show ?thesis by (simp add: make_path_def)
qed

lemma make_path_fails [simp]: "strs \<noteq> [] \<Longrightarrow> length strs \<le> 50 \<Longrightarrow> make_path False strs = Some NULL"
  by (cases strs) (simp_all add: make_path_def char_make_buf_concat_def grow_buffer_def
        UTIL_MAX_NUMBER_OF_VARIANT_PARAMETERS_def Let_def)

lemma char_concatenate_run:
  assumes "\<forall>s\<in>set strs. c_string s" "strs \<noteq> []" "length strs \<le> 50"
  shows "pr_maildir_char_concatenate True (length strs) strs = Some (Some (concat strs))"
proof -
  obtain str rest where s: "strs = str # rest" using assms(2) by (cases strs) auto
  have "grow_buffer True n NULL 0 = (mem_alloc n, n)" if "0 < n" for n
    using that by (simp add: grow_buffer_def)
  with make_path_run [OF assms] assms(2,3) show ?thesis
    by (simp add: s make_path_def pr_maildir_char_concatenate_def char_make_buf_concat_def Let_def
          UTIL_MAX_NUMBER_OF_VARIANT_PARAMETERS_def mem_alloc_def split: bind_splits)
qed

lemma c_string_parts [simp]:
  "c_string USER_PATH_TMP" "c_string USER_PATH_NEW" "c_string USER_PATH_CUR" "c_string SERVERS_ROOT_NAME_PART"
  by (simp_all add: c_string_def NUL_def USER_PATH_TMP_def USER_PATH_NEW_def USER_PATH_CUR_def SERVERS_ROOT_NAME_PART_def)

lemma c_string_slash [simp]: "c_string ''/''"
  by (simp add: c_string_def NUL_def)

lemma slash_not_NUL [simp]: "CHR ''/'' \<noteq> NUL"
  by (simp add: NUL_def)

lemma entry_name_parts [simp]:
  "entry_name ''tmp''" "entry_name ''new''" "entry_name ''cur''" "entry_name ''.OTHER_SERVERS''"
  by (simp_all add: entry_name_def)

lemma join_path_abs: "join_path ns \<noteq> [] \<and> hd (join_path ns) = CHR ''/''"
  by (cases ns) (simp_all add: join_path_def)

lemma c_string_join_path: "\<forall>n\<in>set ns. file_name n \<Longrightarrow> c_string (join_path ns)"
  by (induction ns) (auto simp: join_path_def c_string_def NUL_def file_name_def)

lemma resolve_under:
  assumes "\<forall>n\<in>set root. file_name n"
  shows "resolve fs (join_path root @ CHR ''/'' # q) = root @ comps q"
proof -
  have "comps (join_path root) = root" using assms by (intro comps_join_path) auto
  then show ?thesis using join_path_abs [of root] by (simp add: resolve_def comps_slash)
qed

lemma comps_step: "entry_name n \<Longrightarrow> comps (n @ CHR ''/'' # q) = n # comps q"
  by (simp add: comps_slash)

text \<open>The paths of the code, resolved.\<close>

lemma resolve_user [simp]:
  assumes "maildir_at md root" "file_name n"
  shows "resolve fs (the (pr_path md) @ ''/'' @ n) = root @ [n]"
  using assms by (simp add: maildir_at_def resolve_under)

definition user_path_str :: "string list \<Rightarrow> maildir_server \<Rightarrow> maildir_user \<Rightarrow> string" where
  "user_path_str root s u =
     (if is_self s then join_path root @ ''/'' @ pr_login u
      else join_path root @ SERVERS_ROOT_NAME_PART @ pr_server_domain s)"

lemma user_at_root:
  assumes "user_at u s root"
  obtains md where "pr_server u = Some s" "pr_md s = Some md" "pr_path md = Some (join_path root)"
    "\<forall>n\<in>set root. file_name n" "c_string (join_path root)"
  using assms c_string_join_path by (auto simp: user_at_def maildir_at_def)

lemma user_at_name:
  "user_at u s root \<Longrightarrow> is_self s \<Longrightarrow> file_name (pr_login u)"
  "user_at u s root \<Longrightarrow> \<not> is_self s \<Longrightarrow> file_name (pr_server_domain s)"
  by (simp_all add: user_at_def)

lemma c_string_user_path: "user_at u s root \<Longrightarrow> c_string (user_path_str root s u)"
  using user_at_name [of u s root] by (auto elim!: user_at_root simp: user_path_str_def)

lemma resolve_user_path:
  assumes "user_at u s root"
  shows "resolve fs (user_path_str root s u @ CHR ''/'' # q) = mail_dir root s u @ comps q"
  using assms user_at_name [OF assms]
  by (auto elim!: user_at_root simp: user_path_str_def mail_dir_def server_dir_def SERVERS_ROOT_NAME_PART_def
        resolve_under comps_step comps_step [of "''.OTHER_SERVERS''", simplified])

lemma is_self_run [simp]:
  "maildir_server_is_self (Some s) (Some b) error = (Some (is_self s), ERROR_SUCCESS error, True)"
  by (simp add: maildir_server_is_self_def)

lemma make_full_path_run:
  assumes "user_at u s root"
  shows "pr_maildir_make_full_path True u error = Some (Some (user_path_str root s u), ERROR_SUCCESS error, True)"
proof -
  from assms obtain md where r: "pr_server u = Some s" "pr_md s = Some md" "pr_path md = Some (join_path root)"
    "c_string (join_path root)" by (rule user_at_root)
  show ?thesis
  proof (cases "is_self s")
    case True
    have "make_path True [join_path root, ''/'', pr_login u] = Some (Some (concat [join_path root, ''/'', pr_login u]))"
      using r(4) user_at_name(1) [OF assms True] by (intro make_path_run) simp_all
    with r True show ?thesis by (simp add: pr_maildir_make_full_path_def user_path_str_def)
  next
    case False
    have "make_path True [join_path root, SERVERS_ROOT_NAME_PART, pr_server_domain s]
        = Some (Some (concat [join_path root, SERVERS_ROOT_NAME_PART, pr_server_domain s]))"
      using r(4) user_at_name(2) [OF assms False] by (intro make_path_run) simp_all
    with r False show ?thesis by (simp add: pr_maildir_make_full_path_def user_path_str_def)
  qed
qed

text \<open>The path of a file of a user: its directory below the user's (if any) and its name.\<close>

lemma user_file_path:
  assumes "user_at u s root" "file_name f"
  shows "make_path True [user_path_str root s u, ''/'', USER_PATH_TMP, ''/'', f]
           = Some (Some (user_path_str root s u @ CHR ''/'' # ''tmp'' @ CHR ''/'' # f))"
    and "make_path True [user_path_str root s u, ''/'', USER_PATH_NEW, ''/'', f]
           = Some (Some (user_path_str root s u @ CHR ''/'' # ''new'' @ CHR ''/'' # f))"
    and "make_path True [user_path_str root s u, ''/'', f] = Some (Some (user_path_str root s u @ CHR ''/'' # f))"
proof -
  note c = c_string_user_path [OF assms(1)]
  show "make_path True [user_path_str root s u, ''/'', USER_PATH_TMP, ''/'', f]
      = Some (Some (user_path_str root s u @ CHR ''/'' # ''tmp'' @ CHR ''/'' # f))"
    using make_path_run [of "[user_path_str root s u, ''/'', USER_PATH_TMP, ''/'', f]"] c assms(2)
    by (simp add: USER_PATH_TMP_def NUL_def)
  show "make_path True [user_path_str root s u, ''/'', USER_PATH_NEW, ''/'', f]
      = Some (Some (user_path_str root s u @ CHR ''/'' # ''new'' @ CHR ''/'' # f))"
    using make_path_run [of "[user_path_str root s u, ''/'', USER_PATH_NEW, ''/'', f]"] c assms(2)
    by (simp add: USER_PATH_NEW_def NUL_def)
  show "make_path True [user_path_str root s u, ''/'', f] = Some (Some (user_path_str root s u @ CHR ''/'' # f))"
    using make_path_run [of "[user_path_str root s u, ''/'', f]"] c assms(2) by simp
qed

lemma resolve_user_file:
  assumes "user_at u s root" "file_name f"
  shows "resolve fs (user_path_str root s u @ CHR ''/'' # ''tmp'' @ CHR ''/'' # f) = mail_dir root s u @ [''tmp'', f]"
    and "resolve fs (user_path_str root s u @ CHR ''/'' # ''new'' @ CHR ''/'' # f) = mail_dir root s u @ [''new'', f]"
    and "resolve fs (user_path_str root s u @ CHR ''/'' # f) = mail_dir root s u @ [f]"
proof -
  have "comps (''tmp'' @ CHR ''/'' # f) = [''tmp'', f]" "comps (''new'' @ CHR ''/'' # f) = [''new'', f]"
    using comps_step [of "''tmp''" f] comps_step [of "''new''" f] assms(2) by simp_all
  then show "resolve fs (user_path_str root s u @ CHR ''/'' # ''tmp'' @ CHR ''/'' # f) = mail_dir root s u @ [''tmp'', f]"
    "resolve fs (user_path_str root s u @ CHR ''/'' # ''new'' @ CHR ''/'' # f) = mail_dir root s u @ [''new'', f]"
    "resolve fs (user_path_str root s u @ CHR ''/'' # f) = mail_dir root s u @ [f]"
    using assms(2) by (simp_all only: resolve_user_path [OF assms(1)] comps_name file_name_entry)
qed

section \<open>The names of message files\<close>

lemma set_dec_string_int: "set (dec_string_int i) \<subseteq> insert (CHR ''-'') (set digits)"
  using set_dec_string [of "nat i"] set_dec_string [of "nat (- i)"] by (auto simp: dec_string_int_def)

lemma filename_file_name [simp]: "file_name (pr_maildir_message_filename_generate d)"
proof -
  have "set (pr_maildir_message_filename_generate d) \<subseteq> insert (CHR ''_'') (insert (CHR ''-'') (set digits))"
    using set_dec_string_int [of "fst d"] set_dec_string_int [of "snd d"]
    by (auto simp: pr_maildir_message_filename_generate_def)
  moreover have "CHR ''/'' \<notin> insert (CHR ''_'') (insert (CHR ''-'') (set digits))"
    "NUL \<notin> insert (CHR ''_'') (insert (CHR ''-'') (set digits))"
    by (simp_all add: digits_def NUL_def)
  ultimately show ?thesis
    by (auto simp: file_name_def entry_name_def c_string_def pr_maildir_message_filename_generate_def)
qed

abbreviation drawn :: "(nat \<Rightarrow> int \<times> int) \<Rightarrow> nat \<Rightarrow> string" where
  "drawn draw k \<equiv> pr_maildir_message_filename_generate (draw k)"

lemma fopen_r_free: "posix_fopen_r fs p = None \<longleftrightarrow> fs_nodes fs (resolve fs p) = None"
  by (simp add: posix_fopen_r_def split: option.split)

lemma create_name_loop_step:
  assumes "user_at u s root"
  shows "create_name_loop True fs u (user_path_str root s u) draw a error =
    (if 9 \<le> a then Some (drawn draw a, err_report FATAL MAILDIR_MESSAGE_ERROR_GENERATE_FILENAME error, None)
     else if name_taken fs root s u (drawn draw a) then create_name_loop True fs u (user_path_str root s u) draw (Suc a) error
     else Some (drawn draw a, error, Some (user_path_str root s u @ CHR ''/'' # ''tmp'' @ CHR ''/'' # drawn draw a)))"
proof -
  have f: "file_name (drawn draw a)" by simp
  from assms obtain md where r: "pr_server u = Some s" by (rule user_at_root)
  note paths = user_file_path [OF assms f] and res = resolve_user_file [OF assms f]
  show ?thesis
  proof (cases "is_self s")
    case True
    have "name_taken fs root s u (drawn draw a) \<longleftrightarrow>
        fs_nodes fs (mail_dir root s u @ [''tmp'', drawn draw a]) \<noteq> None \<or> fs_nodes fs (mail_dir root s u @ [''new'', drawn draw a]) \<noteq> None"
      using True by (simp add: name_taken_def final_dir_def)
    then show ?thesis using r True paths(1,2) fopen_r_free [of fs]
      by (subst create_name_loop.simps)
         (simp add: res(1,2) MAX_NUM_ATTEMPTS_TO_CREATE_FILENAME_def Let_def del: append_Cons)
  next
    case False
    have "name_taken fs root s u (drawn draw a) \<longleftrightarrow>
        fs_nodes fs (mail_dir root s u @ [''tmp'', drawn draw a]) \<noteq> None \<or> fs_nodes fs (mail_dir root s u @ [drawn draw a]) \<noteq> None"
      using False by (simp add: name_taken_def final_dir_def)
    then show ?thesis using r False paths(1,3) fopen_r_free [of fs]
      by (subst create_name_loop.simps)
         (simp add: res(1,3) MAX_NUM_ATTEMPTS_TO_CREATE_FILENAME_def Let_def del: append_Cons)
  qed
qed

lemma create_name_loop_free:
  assumes "user_at u s root" "a \<le> k" "k < 9" "\<forall>i\<in>{a..<k}. name_taken fs root s u (drawn draw i)"
    "\<not> name_taken fs root s u (drawn draw k)"
  shows "create_name_loop True fs u (user_path_str root s u) draw a error =
    Some (drawn draw k, error, Some (user_path_str root s u @ CHR ''/'' # ''tmp'' @ CHR ''/'' # drawn draw k))"
  using assms(2-5)
proof (induction "k - a" arbitrary: a)
  case 0
  then show ?case by (simp add: create_name_loop_step [OF assms(1)])
next
  case (Suc n)
  then have "name_taken fs root s u (drawn draw a)" "a < 9" by simp_all
  with Suc.hyps(1) [of "Suc a"] Suc.hyps(2) Suc.prems show ?case
    by (subst create_name_loop_step [OF assms(1)]) simp
qed

lemma create_name_loop_busy:
  assumes "user_at u s root" "a \<le> 9" "\<forall>i\<in>{a..<9}. name_taken fs root s u (drawn draw i)"
  shows "create_name_loop True fs u (user_path_str root s u) draw a error =
    Some (drawn draw 9, err_report FATAL MAILDIR_MESSAGE_ERROR_GENERATE_FILENAME error, None)"
  using assms(2,3)
proof (induction "9 - a" arbitrary: a)
  case 0
  then have "a = 9" by simp
  then show ?case by (simp add: create_name_loop_step [OF assms(1)])
next
  case (Suc n)
  then have "name_taken fs root s u (drawn draw a)" "a < 9" by simp_all
  with Suc.hyps(1) [of "Suc a"] Suc.hyps(2) Suc.prems show ?case
    by (subst create_name_loop_step [OF assms(1)]) simp
qed

section \<open>Runs of the operations on a message\<close>

lemma ERROR_SUCCESS_twice [simp]: "ERROR_SUCCESS (ERROR_SUCCESS e) = ERROR_SUCCESS e"
  by (cases e) (simp_all add: err_simps set_err_def)

text \<open>The file of the message while it is being written.\<close>

definition tmp_file :: "string list \<Rightarrow> maildir_server \<Rightarrow> maildir_user \<Rightarrow> string \<Rightarrow> string list" where
  "tmp_file root s u f = mail_dir root s u @ [''tmp'', f]"

definition final_file :: "string list \<Rightarrow> maildir_server \<Rightarrow> maildir_user \<Rightarrow> string \<Rightarrow> string list" where
  "final_file root s u f = final_dir root s u @ [f]"

lemma tmp_not_final: "tmp_file root s u f \<noteq> final_file root s u g"
  by (simp add: tmp_file_def final_file_def final_dir_def)

lemma create_message_run:
  assumes "user_at u s root" "k < 9" "\<forall>i<k. name_taken fs root s u (drawn draw i)"
    "\<not> name_taken fs root s u (drawn draw k)" "fs_nodes fs (mail_dir root s u @ [''tmp'']) = Some Dir"
  shows "maildir_user_create_message True fs draw (Some u) (Some m) (Some sender) error =
    Some (set_node (tmp_file root s u (drawn draw k)) (Some (File [])) fs,
          Some (m\<lparr>pr_filename := drawn draw k, pr_user := Some u, pr_type := TMP,
                  pr_fd := Some (tmp_file root s u (drawn draw k)), pr_is_open := True\<rparr>),
          ERROR_SUCCESS error, True)"
proof -
  let ?f = "drawn draw k"
  let ?p = "user_path_str root s u @ CHR ''/'' # ''tmp'' @ CHR ''/'' # ?f"
  have l: "create_name_loop True fs u (user_path_str root s u) draw 0 e = Some (?f, e, Some ?p)" for e
    using create_name_loop_free [OF assms(1), of 0 k fs draw e] assms(2-4) by simp
  have t: "tmp_file root s u ?f = (mail_dir root s u @ [''tmp'']) @ [?f]" by (simp add: tmp_file_def)
  have "resolve fs ?p = (mail_dir root s u @ [''tmp'']) @ [?f]"
    using resolve_user_file(1) [OF assms(1), of ?f] by simp
  moreover have "fs_nodes fs ((mail_dir root s u @ [''tmp'']) @ [?f]) \<noteq> Some Dir"
    using assms(4) by (simp add: name_taken_def)
  ultimately have "posix_fopen_w fs ?p = (set_node (tmp_file root s u ?f) (Some (File [])) fs, Some (tmp_file root s u ?f))"
    unfolding t using assms(5) by (intro fopen_w_run)
  with l show ?thesis by (simp add: maildir_user_create_message_def make_full_path_run [OF assms(1)])
qed

lemma message_write_run:
  assumes "pr_is_open m" "pr_fd m = Some fd" "fs_nodes fs fd = Some (File old)" "b \<noteq> []"
  shows "maildir_message_write fs (Some m) (Some b) (length b) error =
    Some (set_node fd (Some (File (old @ b))) fs, ERROR_SUCCESS error, True)"
  using assms by (simp add: maildir_message_write_def fwrite_run)

lemma message_finalize_run:
  assumes "pr_user m = Some u" "user_at u s root" "pr_is_open m" "pr_type m \<noteq> NEW" "file_name (pr_filename m)"
    "fs_nodes fs (tmp_file root s u (pr_filename m)) = Some (File c)"
    "fs_nodes fs (final_dir root s u) = Some Dir" "fs_nodes fs (final_file root s u (pr_filename m)) = None"
  shows "maildir_message_finalize True fs m error =
    Some (set_node (final_file root s u (pr_filename m)) (Some (File c)) (set_node (tmp_file root s u (pr_filename m)) None fs),
          m\<lparr>pr_is_open := False\<rparr>, ERROR_SUCCESS error, True)"
proof -
  let ?f = "pr_filename m"
  let ?src = "user_path_str root s u @ CHR ''/'' # ''tmp'' @ CHR ''/'' # ?f"
  let ?dst = "if is_self s then user_path_str root s u @ CHR ''/'' # ''new'' @ CHR ''/'' # ?f
              else user_path_str root s u @ CHR ''/'' # ?f"
  note paths = user_file_path [OF assms(2,5)] and res = resolve_user_file [OF assms(2,5)]
  from assms(2) obtain md where srv: "pr_server u = Some s" by (rule user_at_root)
  have src: "resolve fs ?src = tmp_file root s u ?f" by (simp only: res tmp_file_def)
  have dst: "resolve fs ?dst = final_dir root s u @ [?f]"
  proof (cases "is_self s")
    case True
    then show ?thesis using res(2) [of fs] by (simp add: final_dir_def)
  next
    case False
    then show ?thesis using res(3) [of fs] by (simp add: final_dir_def)
  qed
  have "posix_rename fs ?src ?dst =
      (set_node (final_dir root s u @ [?f]) (Some (File c)) (set_node (resolve fs ?src) None fs), None)"
    using assms(6-8) src by (intro rename_run [OF _ dst]) (simp_all add: final_file_def)
  then have r: "posix_rename fs ?src ?dst =
      (set_node (final_file root s u ?f) (Some (File c)) (set_node (tmp_file root s u ?f) None fs), None)"
    by (simp only: src final_file_def)
  have t: "pr_maildir_message_make_full_path True (m\<lparr>pr_is_open := False\<rparr>) TMP e = Some (Some ?src, ERROR_SUCCESS e, True)" for e
    using assms(1) paths(1) by (simp add: pr_maildir_message_make_full_path_def make_full_path_run [OF assms(2)])
  have d: "pr_maildir_message_make_full_path True (m\<lparr>pr_is_open := False\<rparr>) (if is_self s then NEW else SERVER) e
      = Some (Some ?dst, ERROR_SUCCESS e, True)" for e
    using assms(1) paths(2,3) by (simp add: pr_maildir_message_make_full_path_def make_full_path_run [OF assms(2)])
  show ?thesis using assms(1,3,4) srv
    by (simp add: maildir_message_finalize_def t d r del: append_Cons cong: if_cong)
qed

section \<open>Properties\<close>

text \<open>
  C18: A message that is created, written with a header block and (when there is one) a body, and
  finalized, ends as one new file at its final place: below \<open>new\<close> of a local user, or in the
  directory of a foreign server. The file holds the header block and the body, the temporary file
  is gone, and nothing else in the file system has changed.
\<close>

theorem message_delivered_intact:
  assumes "user_at u s root" "k < 9" "\<forall>i<k. name_taken fs root s u (drawn draw i)"
    "\<not> name_taken fs root s u (drawn draw k)" "h \<noteq> []"
    "fs_nodes fs (mail_dir root s u @ [''tmp'']) = Some Dir" "fs_nodes fs (final_dir root s u) = Some Dir"
  shows "\<exists>fs1 fs2 fs3 m1 m2.
     maildir_user_create_message True fs draw (Some u) (Some m) (Some sender) error = Some (fs1, Some m1, ERROR_SUCCESS error, True)
     \<and> maildir_message_write fs1 (Some m1) (Some h) (length h) error = Some (fs2, ERROR_SUCCESS error, True)
     \<and> (if b = [] then fs3 = fs2
        else maildir_message_write fs2 (Some m1) (Some b) (length b) error = Some (fs3, ERROR_SUCCESS error, True))
     \<and> maildir_message_finalize True fs3 m1 error =
         Some (set_node (final_dir root s u @ [drawn draw k]) (Some (File (h @ b))) fs, m2, ERROR_SUCCESS error, True)"
proof -
  let ?f = "drawn draw k"
  let ?t = "tmp_file root s u ?f"
  let ?m = "m\<lparr>pr_filename := ?f, pr_user := Some u, pr_type := TMP, pr_fd := Some ?t, pr_is_open := True\<rparr>"
  let ?at = "\<lambda>c. set_node ?t (Some (File c)) fs"
  have free: "fs_nodes fs ?t = None" "fs_nodes fs (final_file root s u ?f) = None"
    using assms(4) by (simp_all add: name_taken_def tmp_file_def final_file_def)
  have create: "maildir_user_create_message True fs draw (Some u) (Some m) (Some sender) error
      = Some (?at [], Some ?m, ERROR_SUCCESS error, True)"
    using create_message_run [OF assms(1-4,6)] .
  have wr: "maildir_message_write (?at c) (Some ?m) (Some d) (length d) error = Some (?at (c @ d), ERROR_SUCCESS error, True)"
    if "d \<noteq> []" for c d
    using message_write_run [of ?m ?t "?at c" c d error] that by simp
  have "final_dir root s u \<noteq> ?t"
    using assms(7) free(1) by auto
  then have "maildir_message_finalize True (?at c) ?m error
      = Some (set_node (final_file root s u ?f) (Some (File c)) (set_node ?t None (?at c)), ?m\<lparr>pr_is_open := False\<rparr>, ERROR_SUCCESS error, True)" for c
    using message_finalize_run [of ?m u s root "?at c" c error] assms(1,7) free(2) tmp_not_final [of root s u ?f ?f] by simp
  moreover have "set_node ?t None (?at c) = fs" for c using free(1) by (simp add: set_node_id)
  ultimately have "maildir_message_finalize True (?at c) ?m error
      = Some (set_node (final_dir root s u @ [?f]) (Some (File c)) fs, ?m\<lparr>pr_is_open := False\<rparr>, ERROR_SUCCESS error, True)" for c
    by (simp add: final_file_def)
  then show ?thesis using create wr [OF assms(5), of "[]"] wr [of b h]
    by (cases "b = []") (auto intro!: exI)
qed

definition demo_fs :: fs where
  "demo_fs = \<lparr>fs_nodes = map_of
     [([], Dir), ([''md''], Dir), ([''md'', ''bob''], Dir), ([''md'', ''bob'', ''tmp''], Dir), ([''md'', ''bob'', ''cur''], Dir),
      ([''md'', ''bob'', ''new''], Dir), ([''md'', ''bob'', ''new'', ''5_0''], File ''old'')], fs_cwd = []\<rparr>"

definition demo_md :: maildir where
  "demo_md = \<lparr>pr_path = Some ''/md''\<rparr>"

definition demo_self :: maildir_server where
  "demo_self = \<lparr>pr_server_domain = '''', is_self = True, pr_md = Some demo_md\<rparr>"

definition demo_bob :: maildir_user where
  "demo_bob = \<lparr>pr_server = Some demo_self, pr_login = ''bob''\<rparr>"

definition demo_message :: maildir_message where
  "demo_message = \<lparr>pr_user = NULL, pr_filename = [], pr_fd = NULL, pr_type = NONE, pr_is_open = False\<rparr>"

text \<open>The clock stands at 5; the random numbers are 0, 1, 2 and so on.\<close>

definition demo_draw :: "nat \<Rightarrow> int \<times> int" where
  "demo_draw k = (5, int k)"

lemma demo_drawn: "drawn demo_draw 0 = ''5_0''" "drawn demo_draw (Suc 0) = ''5_1''"
  by (simp_all add: demo_draw_def pr_maildir_message_filename_generate_def dec_string_int_def dec_string.simps digit_char_def)

lemma demo_bob_at: "user_at demo_bob demo_self [''md'']"
  by (simp add: user_at_def demo_bob_def demo_self_def demo_md_def maildir_at_def join_path_def file_name_def entry_name_def
      c_string_def NUL_def)

lemma demo_dirs:
  "mail_dir [''md''] demo_self demo_bob = [''md'', ''bob'']" "final_dir [''md''] demo_self demo_bob = [''md'', ''bob'', ''new'']"
  by (simp_all add: mail_dir_def final_dir_def demo_self_def demo_bob_def)

theorem message_delivered_intact_witness:
  "\<exists>fs1 fs2 fs3 m1 m2.
     maildir_user_create_message True demo_fs demo_draw (Some demo_bob) (Some demo_message) (Some ''a@b'') NULL = Some (fs1, Some m1, NULL, True)
     \<and> maildir_message_write fs1 (Some m1) (Some ''H'') 1 NULL = Some (fs2, NULL, True)
     \<and> maildir_message_write fs2 (Some m1) (Some ''hello'') 5 NULL = Some (fs3, NULL, True)
     \<and> maildir_message_finalize True fs3 m1 NULL =
         Some (set_node [''md'', ''bob'', ''new'', ''5_1''] (Some (File ''Hhello'')) demo_fs, m2, NULL, True)"
proof -
  have "\<forall>i<1. name_taken demo_fs [''md''] demo_self demo_bob (drawn demo_draw i)"
    "\<not> name_taken demo_fs [''md''] demo_self demo_bob (drawn demo_draw 1)"
    "fs_nodes demo_fs (mail_dir [''md''] demo_self demo_bob @ [''tmp'']) = Some Dir"
    "fs_nodes demo_fs (final_dir [''md''] demo_self demo_bob) = Some Dir"
    by (simp_all add: name_taken_def demo_dirs demo_drawn demo_fs_def)
  from message_delivered_intact [OF demo_bob_at _ this(1,2) _ this(3,4), of "''H''" demo_message "''a@b''" NULL "''hello''"]
  show ?thesis by (simp add: demo_dirs demo_drawn ERROR_SUCCESS_simps numeral_eq_Suc)
qed

text \<open>
  C19: Making a message returns after at most ten turns. It takes the first of the first nine drawn
  names that is neither in \<open>tmp\<close> nor at the final place; when all nine are taken it fails
  without touching the file system, and the tenth name is refused even when it is free.
\<close>

theorem create_message_takes_first_free_name:
  assumes "user_at u s root" "fs_nodes fs (mail_dir root s u @ [''tmp'']) = Some Dir"
  shows "maildir_user_create_message True fs draw (Some u) (Some m) (Some sender) error =
    (case List.find (\<lambda>k. \<not> name_taken fs root s u (pr_maildir_message_filename_generate (draw k))) [0..<9] of
       Some k \<Rightarrow>
         (let f = pr_maildir_message_filename_generate (draw k); t = mail_dir root s u @ [''tmp'', f] in
          Some (set_node t (Some (File [])) fs,
                Some (m\<lparr>pr_filename := f, pr_user := Some u, pr_type := TMP, pr_fd := Some t, pr_is_open := True\<rparr>),
                ERROR_SUCCESS error, True))
     | None \<Rightarrow>
         Some (fs, Some (m\<lparr>pr_filename := pr_maildir_message_filename_generate (draw 9)\<rparr>),
               err_report FATAL MAILDIR_MESSAGE_ERROR_GENERATE_FILENAME (ERROR_SUCCESS error), False))"
proof (cases "List.find (\<lambda>k. \<not> name_taken fs root s u (drawn draw k)) [0..<9]")
  case None
  then have "\<forall>i\<in>{0..<9}. name_taken fs root s u (drawn draw i)" by (simp add: find_None_iff)
  from create_name_loop_busy [OF assms(1) _ this] None show ?thesis
    by (simp add: maildir_user_create_message_def make_full_path_run [OF assms(1)])
next
  case (Some k)
  then have k: "k < 9" "\<not> name_taken fs root s u (drawn draw k)" "\<forall>i<k. name_taken fs root s u (drawn draw i)"
    by (auto simp: find_Some_iff)
  from create_message_run [OF assms(1) k(1,3,2) assms(2), of m sender error] Some show ?thesis
    by (simp add: tmp_file_def Let_def)
qed

theorem create_message_takes_first_free_name_witness:
  "\<exists>fs1 m1. maildir_user_create_message True demo_fs demo_draw (Some demo_bob) (Some demo_message) (Some ''a@b'') NULL
       = Some (fs1, Some m1, NULL, True) \<and> pr_filename m1 = ''5_1''
     \<and> maildir_user_create_message True demo_fs (\<lambda>k. (5, if k = 9 then 1 else 0)) (Some demo_bob) (Some demo_message) (Some ''a@b'') NULL
       = Some (demo_fs, Some (demo_message\<lparr>pr_filename := ''5_1''\<rparr>), NULL, False)"
proof -
  let ?busy = "\<lambda>k::nat. (5::int, if k = 9 then 1 else (0::int))"
  have t: "name_taken demo_fs [''md''] demo_self demo_bob ''5_0''" "\<not> name_taken demo_fs [''md''] demo_self demo_bob ''5_1''"
    by (simp_all add: name_taken_def demo_dirs demo_fs_def)
  have d: "pr_maildir_message_filename_generate (5, 0) = ''5_0''" "pr_maildir_message_filename_generate (5, 1) = ''5_1''"
    using demo_drawn by (simp_all add: demo_draw_def)
  have dirs: "fs_nodes demo_fs (mail_dir [''md''] demo_self demo_bob @ [''tmp'']) = Some Dir"
    by (simp add: demo_dirs demo_fs_def)
  have n: "[0..<9] = [0, 1, 2, 3, 4, 5, 6, 7, 8::nat]" by (simp add: upt_rec)
  have "List.find (\<lambda>k. \<not> name_taken demo_fs [''md''] demo_self demo_bob (drawn demo_draw k)) [0..<9] = Some 1"
    by (simp add: n t demo_drawn)
  moreover have "List.find (\<lambda>k. \<not> name_taken demo_fs [''md''] demo_self demo_bob (drawn ?busy k)) [0..<9] = None"
    by (simp add: n t d)
  ultimately show ?thesis
    using create_message_takes_first_free_name [OF demo_bob_at dirs, of demo_draw demo_message "''a@b''" NULL]
      create_message_takes_first_free_name [OF demo_bob_at dirs, of ?busy demo_message "''a@b''" NULL]
    by (simp add: d demo_drawn err_report_simps ERROR_SUCCESS_simps Let_def del: upt_rec_numeral)
qed

section \<open>Making users and servers\<close>

lemma fs_ok_absent_below: "fs_ok fs \<Longrightarrow> fs_nodes fs ns = None \<Longrightarrow> fs_nodes fs (ns @ [m]) = None"
  using fs_ok_children [of fs ns "[m]"] by simp

lemma server_mkdir_run:
  "resolve fs p = ns @ [n] \<Longrightarrow> fs_nodes fs ns = Some Dir \<Longrightarrow> fs_nodes fs (ns @ [n]) = None \<Longrightarrow>
   pr_maildir_server_mkdir fs p error msg = (set_node (ns @ [n]) (Some Dir) fs, error, True)"
  by (simp add: pr_maildir_server_mkdir_def mkdir_run)

lemma user_subdir_run:
  assumes "c_string up" "\<And>q. resolve fs (up @ CHR ''/'' # q) = ns @ comps q" "file_name n"
    "fs_nodes fs ns = Some Dir" "fs_nodes fs (ns @ [n]) = None"
  shows "user_subdir True fs up n error msg = Some (set_node (ns @ [n]) (Some Dir) fs, error, True)"
proof -
  have p: "make_path True [up, ''/'', n] = Some (Some (up @ CHR ''/'' # n))"
    using make_path_run [of "[up, ''/'', n]"] assms(1,3) by simp
  have "resolve fs (up @ CHR ''/'' # n) = ns @ [n]" using assms(2,3) by simp
  from server_mkdir_run [OF this assms(4,5)] p show ?thesis by (simp add: user_subdir_def)
qed

text \<open>The file system with the directories of a new user.\<close>

definition with_user :: "string list \<Rightarrow> fs \<Rightarrow> fs" where
  "with_user d fs = set_node (d @ [''new'']) (Some Dir) (set_node (d @ [''cur'']) (Some Dir)
     (set_node (d @ [''tmp'']) (Some Dir) (set_node d (Some Dir) fs)))"

lemma file_name_parts [simp]: "file_name ''tmp''" "file_name ''new''" "file_name ''cur''" "file_name ''.OTHER_SERVERS''"
  by (simp_all add: file_name_def c_string_def NUL_def)

lemma create_user_dirs_run:
  assumes "fs_ok fs" "\<forall>n\<in>set root. file_name n" "is_self s" "file_name login"
    "fs_nodes fs root = Some Dir" "fs_nodes fs (root @ [login]) = None"
  shows "create_user_dirs True fs (join_path root) login s error
    = Some (with_user (root @ [login]) fs, ERROR_SUCCESS error, True)"
proof -
  let ?d = "root @ [login]" and ?up = "join_path root @ CHR ''/'' # login"
  have c: "c_string ?up" using c_string_join_path [OF assms(2)] assms(4) by simp
  have r: "resolve fs' (?up @ CHR ''/'' # q) = ?d @ comps q" for fs' q
    using assms(2,4) by (simp add: resolve_under comps_step)
  have p: "make_path True [join_path root, ''/'', login] = Some (Some ?up)"
    using make_path_run [of "[join_path root, ''/'', login]"] c_string_join_path [OF assms(2)] assms(4) by simp
  have "resolve fs ?up = root @ [login]" using assms(2,4) by (simp add: resolve_under)
  from server_mkdir_run [OF this assms(5,6)]
  have m: "pr_maildir_server_mkdir fs ?up e msg = (set_node ?d (Some Dir) fs, e, True)" for e msg .
  have a: "fs_nodes fs (?d @ [m]) = None" for m using fs_ok_absent_below [OF assms(1,6)] .
  have sub: "user_subdir True fs' ?up n e msg = Some (set_node (?d @ [n]) (Some Dir) fs', e, True)"
    if "file_name n" "fs_nodes fs' ?d = Some Dir" "fs_nodes fs' (?d @ [n]) = None" for fs' n e msg
    using user_subdir_run [OF c r that] .
  let ?f1 = "set_node ?d (Some Dir) fs"
  let ?f2 = "set_node (?d @ [''tmp'']) (Some Dir) ?f1"
  let ?f3 = "set_node (?d @ [''cur'']) (Some Dir) ?f2"
  have n: "?d @ [m] \<noteq> ?d" for m by simp
  have s1: "user_subdir True ?f1 ?up ''tmp'' e msg = Some (?f2, e, True)" for e msg
    by (rule sub) (use a n in \<open>simp_all del: append_assoc\<close>)
  have s2: "user_subdir True ?f2 ?up ''cur'' e msg = Some (?f3, e, True)" for e msg
    by (rule sub) (use a n in \<open>simp_all del: append_assoc\<close>)
  have s3: "user_subdir True ?f3 ?up ''new'' e msg = Some (set_node (?d @ [''new'']) (Some Dir) ?f3, e, True)" for e msg
    by (rule sub) (use a n in \<open>simp_all del: append_assoc\<close>)
  show ?thesis
    unfolding create_user_dirs_def p m USER_PATH_TMP_def USER_PATH_CUR_def USER_PATH_NEW_def
    using assms(3) by (simp add: s1 s2 s3 m with_user_def del: append_assoc)
qed

lemma server_path_run:
  assumes "maildir_at md root" "pr_md s = Some md" "is_self s"
  shows "pr_maildir_server_path True (Some s) = Some (Some (join_path root))"
proof -
  have "c_string (join_path root)" using assms(1) c_string_join_path by (simp add: maildir_at_def)
  then show ?thesis using make_path_run [of "[join_path root]"] assms
    by (simp add: pr_maildir_server_path_def maildir_at_def)
qed

lemma is_self_err_fresh [simp]: "\<not> failed (the (ERROR_SUCCESS (Some err_fresh)))"
  by (simp add: err_simps)

text \<open>
  On the server itself a new user gets a mailbox of exactly four new directories, from which
  on a message for that user can be made and finalized. When something of that name is there already,
  nothing changes and the error is \<open>EEXIST\<close>; when the root of the mail store is missing, it is
  \<open>ENOENT\<close>. In each case the user object is filled in.
\<close>

theorem create_user_makes_mailbox:
  assumes "fs_ok fs" "maildir_at md root" "pr_md s = Some md" "is_self s" "file_name login" "length login < 255"
  shows "maildir_server_create_user True fs (Some s) (Some u) (Some login) error =
      (let u' = u\<lparr>pr_server := Some s, pr_login := login\<rparr>; e = ERROR_SUCCESS error; d = root @ [login] in
       if fs_nodes fs d \<noteq> None
       then Some (fs, Some u', err_report_errno EEXIST MAILDIR_SERVER_ERROR_CREATE_USER_ROOT_DIR e, False)
       else case fs_nodes fs root of
              Some Dir \<Rightarrow> Some (with_user d fs, Some u', e, True)
            | Some (File _) \<Rightarrow> Some (fs, Some u', err_report_errno ENOTDIR MAILDIR_SERVER_ERROR_CREATE_USER_ROOT_DIR e, False)
            | None \<Rightarrow> Some (fs, Some u', err_report_errno (absent_errno fs d) MAILDIR_SERVER_ERROR_CREATE_USER_ROOT_DIR e, False))
    \<and> (\<forall>ns. fs_nodes (with_user (root @ [login]) fs) ns =
         (if ns \<in> {root @ [login], root @ [login, ''tmp''], root @ [login, ''cur''], root @ [login, ''new'']}
          then Some Dir else fs_nodes fs ns))"
proof -
  let ?d = "root @ [login]" and ?up = "join_path root @ CHR ''/'' # login"
  have names: "\<forall>n\<in>set root. file_name n" using assms(2) by (simp add: maildir_at_def)
  have p: "make_path True [join_path root, ''/'', login] = Some (Some ?up)"
    using make_path_run [of "[join_path root, ''/'', login]"] c_string_join_path [OF names] assms(5) by simp
  have r: "resolve fs ?up = ?d" using names assms(5) by (simp add: resolve_under)
  have n: "name_copy login = Some login" using assms(6) by (simp add: name_copy_def NAME_MAX_def)
  note run = maildir_server_create_user_def server_path_run [OF assms(2-4)] n assms(4)
  have "maildir_server_create_user True fs (Some s) (Some u) (Some login) error =
     Some (fs, Some (u\<lparr>pr_server := Some s, pr_login := login\<rparr>),
       err_report_errno e MAILDIR_SERVER_ERROR_CREATE_USER_ROOT_DIR (ERROR_SUCCESS error), False)"
    if "posix_mkdir fs ?up = (fs, Some e)" for e
    using that by (simp add: run create_user_dirs_def p pr_maildir_server_mkdir_def)
  moreover have "maildir_server_create_user True fs (Some s) (Some u) (Some login) error =
     Some (with_user ?d fs, Some (u\<lparr>pr_server := Some s, pr_login := login\<rparr>), ERROR_SUCCESS error, True)"
    if "fs_nodes fs ?d = None" "fs_nodes fs root = Some Dir"
    using create_user_dirs_run [OF assms(1) names assms(4,5) that(2,1)] by (simp add: run)
  moreover have "posix_mkdir fs ?up = (fs, Some EEXIST)" if "fs_nodes fs ?d \<noteq> None"
    using that by (auto simp: posix_mkdir_def r)
  moreover have "posix_mkdir fs ?up = (fs, Some ENOTDIR)" if "fs_nodes fs ?d = None" "fs_nodes fs root = Some (File c)" for c
    using that by (simp add: posix_mkdir_def r parent_errno_def)
  moreover have "posix_mkdir fs ?up = (fs, Some (absent_errno fs ?d))" if "fs_nodes fs ?d = None" "fs_nodes fs root = None"
    using that by (simp add: posix_mkdir_def r parent_errno_def)
  ultimately show ?thesis
    by (auto simp: Let_def with_user_def split: option.split node.split)
qed

lemma demo_fs_ok: "fs_ok demo_fs"
proof (rule fs_okI)
  fix ns :: "string list" and n
  assume "fs_nodes demo_fs (ns @ [n]) \<noteq> None"
  then have "ns @ [n] \<in> set (map fst [([], Dir), ([''md''], Dir), ([''md'', ''bob''], Dir), ([''md'', ''bob'', ''tmp''], Dir),
      ([''md'', ''bob'', ''cur''], Dir), ([''md'', ''bob'', ''new''], Dir), ([''md'', ''bob'', ''new'', ''5_0''], File ''old'')])"
    unfolding demo_fs_def by (simp only: fs.simps map_of_eq_None_iff) (auto simp: image_iff)
  then show "fs_nodes demo_fs ns = Some Dir"
    by (auto simp: demo_fs_def append_eq_Cons_conv)
qed (simp add: demo_fs_def)

theorem create_user_makes_mailbox_witness:
  "maildir_server_create_user True demo_fs (Some demo_self) (Some demo_bob) (Some ''bob'') NULL
     = Some (demo_fs, Some demo_bob, NULL, False)
   \<and> (\<exists>fs u. maildir_server_create_user True demo_fs (Some demo_self) (Some demo_bob) (Some ''alice'') NULL = Some (fs, Some u, NULL, True)
        \<and> fs_nodes fs [''md'', ''alice'', ''new''] = Some Dir)"
proof -
  have b: "maildir_at demo_md [''md'']" "pr_md demo_self = Some demo_md" "is_self demo_self"
    by (simp_all add: maildir_at_def demo_md_def demo_self_def join_path_def file_name_def c_string_def NUL_def entry_name_def)
  have f: "file_name ''bob''" "file_name ''alice''" by (simp_all add: file_name_def c_string_def NUL_def entry_name_def)
  from create_user_makes_mailbox [OF demo_fs_ok b f(1), of demo_bob NULL] create_user_makes_mailbox [OF demo_fs_ok b f(2), of demo_bob NULL]
  show ?thesis by (simp add: demo_fs_def demo_bob_def err_simps)
qed

section \<open>Finding users and servers\<close>

lemma server_user_self_run:
  assumes "maildir_at md root" "pr_md s = Some md" "is_self s" "file_name login" "length login < 255"
  shows "maildir_server_user True fs (Some s) (Some u) (Some login) error =
    (case posix_opendir fs (join_path root @ CHR ''/'' # login) of
       None \<Rightarrow> Some (Some (u\<lparr>pr_login := login, pr_server := Some s\<rparr>), ERROR_SUCCESS error, True)
     | Some e \<Rightarrow> Some (Some u, err_report_errno e MAILDIR_SERVER_ERROR_USER_NOT_FOUND (ERROR_SUCCESS error), False))"
proof -
  have "c_string (join_path root)" using assms(1) c_string_join_path by (simp add: maildir_at_def)
  then have "make_path True [join_path root, ''/'', login] = Some (Some (join_path root @ CHR ''/'' # login))"
    using make_path_run [of "[join_path root, ''/'', login]"] assms(4) by simp
  then show ?thesis using assms
    by (auto simp: maildir_server_user_def maildir_at_def name_copy_def NAME_MAX_def split: option.split)
qed

lemma server_user_foreign_run:
  assumes "maildir_at md root" "pr_md s = Some md" "\<not> is_self s" "length login < 255"
  shows "maildir_server_user True fs (Some s) (Some u) (Some login) error =
    (case posix_opendir fs (join_path root @ SERVERS_ROOT_NAME_PART) of
       None \<Rightarrow> Some (Some (u\<lparr>pr_login := login, pr_server := Some s\<rparr>), ERROR_SUCCESS error, True)
     | Some e \<Rightarrow> Some (Some u, err_report_errno e MAILDIR_SERVER_ERROR_USER_NOT_FOUND (ERROR_SUCCESS error), False))"
proof -
  have "c_string (join_path root)" using assms(1) c_string_join_path by (simp add: maildir_at_def)
  then have "make_path True [join_path root, SERVERS_ROOT_NAME_PART] = Some (Some (join_path root @ SERVERS_ROOT_NAME_PART))"
    using make_path_run [of "[join_path root, SERVERS_ROOT_NAME_PART]"] by simp
  then show ?thesis using assms
    by (auto simp: maildir_server_user_def maildir_at_def name_copy_def NAME_MAX_def split: option.split)
qed

lemma resolve_servers:
  assumes "maildir_at md root" "file_name domain"
  shows "resolve fs (join_path root @ SERVERS_ROOT_NAME_PART) = root @ [''.OTHER_SERVERS'']"
    and "resolve fs (join_path root @ SERVERS_ROOT_NAME_PART @ domain) = server_dir root domain"
    and "resolve fs (join_path root @ SERVERS_ROOT_NAME_PART @ domain @ ''/'' @ ''tmp'') = server_dir root domain @ [''tmp'']"
proof -
  have r: "\<forall>n\<in>set root. file_name n" using assms(1) by (simp add: maildir_at_def)
  have s: "SERVERS_ROOT_NAME_PART @ q = CHR ''/'' # ''.OTHER_SERVERS'' @ CHR ''/'' # q" for q
    by (simp add: SERVERS_ROOT_NAME_PART_def)
  have c: "comps (''.OTHER_SERVERS'' @ CHR ''/'' # q) = ''.OTHER_SERVERS'' # comps q" for q
    by (rule comps_step) simp
  show "resolve fs (join_path root @ SERVERS_ROOT_NAME_PART) = root @ [''.OTHER_SERVERS'']"
  proof -
    have "join_path root @ SERVERS_ROOT_NAME_PART = join_path root @ CHR ''/'' # ''.OTHER_SERVERS'' @ CHR ''/'' # []"
      by (simp add: SERVERS_ROOT_NAME_PART_def)
    then show ?thesis by (simp only: resolve_under [OF r] c comps_Nil)
  qed
  show "resolve fs (join_path root @ SERVERS_ROOT_NAME_PART @ domain) = server_dir root domain"
    using assms(2) by (simp only: s resolve_under [OF r] c comps_name file_name_entry server_dir_def)
  show "resolve fs (join_path root @ SERVERS_ROOT_NAME_PART @ domain @ ''/'' @ ''tmp'') = server_dir root domain @ [''tmp'']"
  proof -
    have t: "comps (domain @ CHR ''/'' # ''tmp'') = [domain, ''tmp'']"
      using comps_step [of domain "''tmp''"] assms(2) by simp
    have "resolve fs (join_path root @ SERVERS_ROOT_NAME_PART @ domain @ CHR ''/'' # ''tmp'') = server_dir root domain @ [''tmp'']"
      by (simp only: s resolve_under [OF r] c t) (simp add: server_dir_def)
    then show ?thesis by simp
  qed
qed

lemma get_server_run:
  assumes "maildir_at md root" "file_name domain" "length domain < 255"
  shows "maildir_get_server True fs (Some md) (Some s) domain error =
    (case posix_opendir fs (join_path root @ SERVERS_ROOT_NAME_PART @ domain) of
       Some e \<Rightarrow>
         if e = ENOENT then Some (Some s, err_report NOT_FOUND MAILDIR_SERVER_NOT_FOUND (ERROR_SUCCESS error), False)
         else Some (Some s, err_report_errno e MAILDIR_ERROR_FIND_SERVER (ERROR_SUCCESS error), False)
     | None \<Rightarrow> Some (Some (s\<lparr>pr_server_domain := domain, pr_md := Some md, is_self := False\<rparr>), ERROR_SUCCESS error, True))"
proof -
  have "c_string (join_path root)" using assms(1) c_string_join_path by (simp add: maildir_at_def)
  then have "pr_maildir_char_concatenate True 3 [join_path root, SERVERS_ROOT_NAME_PART, domain]
      = Some (Some (join_path root @ SERVERS_ROOT_NAME_PART @ domain))"
    using char_concatenate_run [of "[join_path root, SERVERS_ROOT_NAME_PART, domain]"] assms(2) by (simp add: eval_nat_numeral)
  then show ?thesis using assms(1,3)
    by (simp add: maildir_get_server_def maildir_at_def name_copy_def NAME_MAX_def split: option.split)
qed

text \<open>The file system with the directory of a new foreign server.\<close>

definition with_server :: "string list \<Rightarrow> fs \<Rightarrow> fs" where
  "with_server d fs = set_node (d @ [''tmp'']) (Some Dir) (set_node d (Some Dir) fs)"

lemma create_server_run:
  assumes "maildir_at md root" "file_name domain" "length domain < 255" "fs_ok fs"
    "fs_nodes fs (server_dir root domain) = None" "fs_nodes fs (root @ [''.OTHER_SERVERS'']) = Some Dir"
  shows "maildir_create_server True fs (Some md) (Some s) domain error =
    Some (with_server (server_dir root domain) fs,
          Some (s\<lparr>pr_md := Some md, is_self := False, pr_server_domain := domain\<rparr>), ERROR_SUCCESS error, True)"
proof -
  let ?p = "join_path root @ SERVERS_ROOT_NAME_PART @ domain"
  let ?d = "server_dir root domain"
  have c: "c_string (join_path root)" using assms(1) c_string_join_path by (simp add: maildir_at_def)
  have p: "pr_maildir_char_concatenate True 3 [join_path root, SERVERS_ROOT_NAME_PART, domain] = Some (Some ?p)"
    using char_concatenate_run [of "[join_path root, SERVERS_ROOT_NAME_PART, domain]"] assms(2) c by (simp add: eval_nat_numeral)
  have q: "pr_maildir_char_concatenate True 5 [join_path root, SERVERS_ROOT_NAME_PART, domain, ''/'', USER_PATH_TMP]
      = Some (Some (join_path root @ SERVERS_ROOT_NAME_PART @ domain @ ''/'' @ ''tmp''))"
    using char_concatenate_run [of "[join_path root, SERVERS_ROOT_NAME_PART, domain, ''/'', USER_PATH_TMP]"] assms(2) c
    by (simp add: eval_nat_numeral USER_PATH_TMP_def NUL_def)
  have d: "?d = (root @ [''.OTHER_SERVERS'']) @ [domain]" by (simp add: server_dir_def)
  have m1: "posix_mkdir fs ?p = (set_node ?d (Some Dir) fs, None)"
    using assms(5,6) resolve_servers(2) [OF assms(1,2)] unfolding d by (intro mkdir_run) simp_all
  have "fs_nodes fs (?d @ [''tmp'']) = None" using fs_ok_absent_below [OF assms(4,5)] .
  then have m2: "posix_mkdir (set_node ?d (Some Dir) fs) (join_path root @ SERVERS_ROOT_NAME_PART @ domain @ ''/'' @ ''tmp'')
      = (with_server ?d fs, None)"
    using resolve_servers(3) [OF assms(1,2)] unfolding with_server_def by (intro mkdir_run) simp_all
  show ?thesis using assms(1,3) p q m1 m2
    by (simp add: maildir_create_server_def maildir_at_def name_copy_def NAME_MAX_def)
qed

lemma create_server_no_parent:
  assumes "maildir_at md root" "file_name domain"
    "fs_nodes fs (server_dir root domain) = None" "fs_nodes fs (root @ [''.OTHER_SERVERS'']) = None"
  shows "maildir_create_server True fs (Some md) (Some s) domain error =
    Some (fs, Some s, err_report_errno (absent_errno fs (server_dir root domain)) MAILDIR_ERROR_CREATE_DIRECTORY (ERROR_SUCCESS error), False)"
proof -
  let ?p = "join_path root @ SERVERS_ROOT_NAME_PART @ domain"
  have c: "c_string (join_path root)" using assms(1) c_string_join_path by (simp add: maildir_at_def)
  have p: "pr_maildir_char_concatenate True 3 [join_path root, SERVERS_ROOT_NAME_PART, domain] = Some (Some ?p)"
    using char_concatenate_run [of "[join_path root, SERVERS_ROOT_NAME_PART, domain]"] assms(2) c by (simp add: eval_nat_numeral)
  have "posix_mkdir fs ?p = (fs, Some (absent_errno fs (server_dir root domain)))"
    using assms(3,4) resolve_servers(2) [OF assms(1,2)] by (simp add: posix_mkdir_def parent_errno_def server_dir_def butlast_append Let_def)
  then show ?thesis using assms(1) p by (simp add: maildir_create_server_def maildir_at_def)
qed

section \<open>Every operation keeps the file system well formed\<close>

text \<open>
  A well-formed file system with the same working directory in which every directory of \<open>fs0\<close>
  still is one and every file a file, those at the places in \<open>X\<close> excepted.
\<close>

definition is_file :: "fs \<Rightarrow> string list \<Rightarrow> bool" where
  "is_file fs ns \<longleftrightarrow> (\<exists>c. fs_nodes fs ns = Some (File c))"

definition fs_keeps :: "string list set \<Rightarrow> fs \<Rightarrow> fs \<Rightarrow> bool" where
  "fs_keeps X fs0 fs \<longleftrightarrow> fs_ok fs \<and> fs_cwd fs = fs_cwd fs0
     \<and> (\<forall>ns. fs_nodes fs0 ns = Some Dir \<longrightarrow> fs_nodes fs ns = Some Dir) \<and> (\<forall>ns. ns \<notin> X \<longrightarrow> is_file fs0 ns \<longrightarrow> is_file fs ns)"

abbreviation fs_from :: "fs \<Rightarrow> fs \<Rightarrow> bool" where
  "fs_from \<equiv> fs_keeps {}"

lemma fs_keeps_step:
  "fs_keeps X fs0 fs \<Longrightarrow> fs_ok fs' \<Longrightarrow> fs_cwd fs' = fs_cwd fs \<Longrightarrow>
   (\<And>ns. fs_nodes fs ns = Some Dir \<Longrightarrow> fs_nodes fs' ns = Some Dir) \<Longrightarrow>
   (\<And>ns. ns \<notin> X \<Longrightarrow> is_file fs ns \<Longrightarrow> is_file fs' ns) \<Longrightarrow> fs_keeps X fs0 fs'"
  by (simp add: fs_keeps_def)

lemma fs_keeps_ok: "fs_keeps X fs0 fs \<Longrightarrow> fs_ok fs"
  by (simp add: fs_keeps_def)

lemma fs_keeps_refl: "fs_ok fs \<Longrightarrow> fs_keeps X fs fs"
  by (simp add: fs_keeps_def)

lemma mkdir_keeps:
  assumes "fs_keeps X fs0 fs" "posix_mkdir fs p = (fs', r)"
  shows "fs_keeps X fs0 fs'"
proof (rule fs_keeps_step [OF assms(1)])
  show "fs_ok fs'" using mkdir_fs_ok [of fs p] assms(2) fs_keeps_ok [OF assms(1)] by simp
  show "fs_cwd fs' = fs_cwd fs" using assms(2) by (auto simp: posix_mkdir_def Let_def split: option.splits)
  show "fs_nodes fs ns = Some Dir \<Longrightarrow> fs_nodes fs' ns = Some Dir" for ns
    using assms(2) by (auto simp: posix_mkdir_def Let_def split: option.splits)
  show "is_file fs ns \<Longrightarrow> is_file fs' ns" for ns
    using assms(2) by (auto simp: is_file_def posix_mkdir_def Let_def split: option.splits)
qed

lemma server_mkdir_keeps: "fs_from fs0 fs \<Longrightarrow> pr_maildir_server_mkdir fs p e msg = (fs', e', r) \<Longrightarrow> fs_from fs0 fs'"
  by (auto simp: pr_maildir_server_mkdir_def split: prod.splits option.splits dest: mkdir_keeps)

lemma make_dir_keeps: "fs_from fs0 fs \<Longrightarrow> pr_maildir_make_dir fs p e = (fs', e', r) \<Longrightarrow> fs_from fs0 fs'"
  by (auto simp: pr_maildir_make_dir_def split: prod.splits option.splits dest: mkdir_keeps)

text \<open>The postcondition of a call that returns the file system first.\<close>

abbreviation fs_post :: "fs \<Rightarrow> ('a \<Rightarrow> fs) \<Rightarrow> 'a ub \<Rightarrow> bool" where
  "fs_post fs0 f r \<equiv> ub_post r (\<lambda>x. fs_from fs0 (f x))"

lemma fopen_w_keeps:
  assumes "fs_keeps X fs0 fs" "posix_fopen_w fs p = (fs', q)"
  shows "fs_keeps X fs0 fs'"
proof (rule fs_keeps_step [OF assms(1)])
  show "fs_ok fs'" using fopen_w_fs_ok [of fs p] assms(2) fs_keeps_ok [OF assms(1)] by simp
  show "fs_cwd fs' = fs_cwd fs" using assms(2) by (auto simp: posix_fopen_w_def Let_def split: if_splits)
  show "fs_nodes fs ns = Some Dir \<Longrightarrow> fs_nodes fs' ns = Some Dir" for ns
    using assms(2) by (auto simp: posix_fopen_w_def Let_def split: if_splits)
  show "is_file fs ns \<Longrightarrow> is_file fs' ns" for ns
    using assms(2) by (auto simp: is_file_def posix_fopen_w_def Let_def split: if_splits)
qed

lemma fwrite_keeps:
  assumes "fs_keeps X fs0 fs" "posix_fwrite fs fd s = (fs', n)"
  shows "fs_keeps X fs0 fs'"
proof (rule fs_keeps_step [OF assms(1)])
  show "fs_ok fs'" using fwrite_fs_ok [of fs fd s] assms(2) fs_keeps_ok [OF assms(1)] by simp
  show "fs_cwd fs' = fs_cwd fs" using assms(2) by (auto simp: posix_fwrite_def split: option.splits node.splits)
  show "fs_nodes fs ns = Some Dir \<Longrightarrow> fs_nodes fs' ns = Some Dir" for ns
    using assms(2) by (auto simp: posix_fwrite_def split: option.splits node.splits)
  show "is_file fs ns \<Longrightarrow> is_file fs' ns" for ns
    using assms(2) by (auto simp: is_file_def posix_fwrite_def split: option.splits node.splits)
qed

text \<open>A file that is unlinked or moved is the one exception.\<close>

lemma unlink_keeps:
  assumes "fs_ok fs" "posix_unlink fs p = (fs', r)"
  shows "fs_keeps {resolve fs p} fs fs'"
proof (rule fs_keeps_step [OF fs_keeps_refl [OF assms(1)]])
  show "fs_ok fs'" using unlink_fs_ok [of fs p] assms by simp
  show "fs_cwd fs' = fs_cwd fs" using assms(2) by (auto simp: posix_unlink_def Let_def split: option.splits node.splits)
  show "fs_nodes fs ns = Some Dir \<Longrightarrow> fs_nodes fs' ns = Some Dir" for ns
    using assms(2) by (auto simp: posix_unlink_def Let_def split: option.splits node.splits)
  show "ns \<notin> {resolve fs p} \<Longrightarrow> is_file fs ns \<Longrightarrow> is_file fs' ns" for ns
    using assms(2) by (auto simp: is_file_def posix_unlink_def Let_def split: option.splits node.splits)
qed

lemma rename_keeps:
  assumes "fs_ok fs" "posix_rename fs p q = (fs', r)" "is_file fs (resolve fs p)"
  shows "fs_keeps {resolve fs p} fs fs'"
proof (rule fs_keeps_step [OF fs_keeps_refl [OF assms(1)]])
  from assms(3) obtain c where c: "fs_nodes fs (resolve fs p) = Some (File c)" by (auto simp: is_file_def)
  show "fs_ok fs'" using rename_fs_ok [of fs p q] assms by simp
  show "fs_cwd fs' = fs_cwd fs" using assms(2) c by (auto simp: posix_rename_def Let_def split: option.splits if_splits)
  show "fs_nodes fs ns = Some Dir \<Longrightarrow> fs_nodes fs' ns = Some Dir" for ns
    using assms(2) c by (auto simp: posix_rename_def Let_def split: option.splits if_splits)
  show "ns \<notin> {resolve fs p} \<Longrightarrow> is_file fs ns \<Longrightarrow> is_file fs' ns" for ns
    using assms(2) c by (auto simp: is_file_def posix_rename_def Let_def split: option.splits if_splits)
qed

lemma fst_keeps [intro]:
  "fs_from fs0 fs \<Longrightarrow> fs_from fs0 (fst (pr_maildir_server_mkdir fs p e msg))" "fs_from fs0 fs \<Longrightarrow> fs_from fs0 (fst (pr_maildir_make_dir fs p e))"
  using server_mkdir_keeps [of fs0 fs p e msg] make_dir_keeps [of fs0 fs p e] by (metis prod_cases3 fst_conv)+

lemmas fs_grows = mkdir_keeps [rotated] server_mkdir_keeps [rotated] make_dir_keeps [rotated] fopen_w_keeps [rotated] fwrite_keeps [rotated]

lemma ub_postI: "(\<And>x. r = Some x \<Longrightarrow> P x) \<Longrightarrow> ub_post r P"
  by (simp add: ub_post_def)

lemma make_root_post: "fs_from fs0 fs \<Longrightarrow> fs_post fs0 fst (pr_maildir_make_root_structure mok fs p e)"
  by (auto simp: pr_maildir_make_root_structure_def Let_def intro!: ub_postI split: option.split prod.split bool.split dest: fs_grows)

lemmas make_root_keeps = make_root_post [THEN ub_postD, rotated]

lemma user_subdir_post: "fs_from fs0 fs \<Longrightarrow> fs_post fs0 fst (user_subdir mok fs up n e msg)"
  by (auto simp: user_subdir_def Let_def intro!: ub_postI split: option.split prod.split bool.split dest: fs_grows)

lemmas user_subdir_keeps = user_subdir_post [THEN ub_postD, rotated]

lemma create_user_dirs_post: "fs_from fs0 fs \<Longrightarrow> fs_post fs0 fst (create_user_dirs mok fs sp login s e)"
  by (auto simp: create_user_dirs_def intro!: ub_postI split: option.split prod.split bool.split dest: fs_grows)
     (metis user_subdir_keeps fs_grows(2) fst_conv)+

lemmas create_user_dirs_keeps = create_user_dirs_post [THEN ub_postD, rotated]

lemma init_post: "fs_from fs0 fs \<Longrightarrow> fs_post fs0 fst (maildir_init mok fs md path e)"
  by (auto simp: maildir_init_def Let_def intro!: ub_postI split: option.split prod.split bool.split dest: fs_grows make_root_keeps)

lemmas init_keeps = init_post [THEN ub_postD, rotated]

lemma create_server_post: "fs_from fs0 fs \<Longrightarrow> fs_post fs0 fst (maildir_create_server mok fs md srv d e)"
  by (auto simp: maildir_create_server_def Let_def intro!: ub_postI split: option.split prod.split bool.split dest: fs_grows)

lemmas create_server_keeps = create_server_post [THEN ub_postD, rotated]

lemma create_user_post: "fs_from fs0 fs \<Longrightarrow> fs_post fs0 fst (maildir_server_create_user mok fs srv u n e)"
  by (auto simp: maildir_server_create_user_def Let_def intro!: ub_postI split: option.split prod.split bool.split dest: fs_grows create_user_dirs_keeps)

lemmas create_user_keeps = create_user_post [THEN ub_postD, rotated]

lemma create_message_post: "fs_from fs0 fs \<Longrightarrow> fs_post fs0 fst (maildir_user_create_message mok fs draw u m n e)"
  by (auto simp: maildir_user_create_message_def Let_def intro!: ub_postI split: option.split prod.split bool.split dest: fs_grows)

lemmas create_message_keeps = create_message_post [THEN ub_postD, rotated]

lemma write_post: "fs_from fs0 fs \<Longrightarrow> fs_post fs0 fst (maildir_message_write fs m b n e)"
  by (auto simp: maildir_message_write_def Let_def intro!: ub_postI split: option.split prod.split bool.split dest: fs_grows)

lemmas write_keeps = write_post [THEN ub_postD, rotated]

section \<open>The messages that are open\<close>

text \<open>
  A message that has been made and not yet finalized: its stream is the temporary file, at the path
  that \<open>message.c\<close> makes for it again when it moves the file.
\<close>

definition open_file :: "fs \<Rightarrow> maildir_message \<Rightarrow> string list \<Rightarrow> bool" where
  "open_file fs m ns \<longleftrightarrow> pr_is_open m \<and> pr_type m = TMP \<and> pr_fd m = Some ns \<and> is_file fs ns
     \<and> (\<exists>p. resolve fs p = ns \<and> (\<forall>e. \<exists>e'. pr_maildir_message_make_full_path True m TMP e = Some (Some p, e', True)))"

definition messages_open :: "fs \<Rightarrow> maildir_message list \<Rightarrow> bool" where
  "messages_open fs ms \<longleftrightarrow> distinct (map pr_fd ms) \<and> (\<forall>m\<in>set ms. \<exists>ns. open_file fs m ns)"

lemma full_path_any_error:
  "pr_maildir_make_full_path mok u e = Some (p, e1, r) \<Longrightarrow> \<exists>e1'. pr_maildir_make_full_path mok u e' = Some (p, e1', r)"
  by (cases "pr_server u") (auto simp: pr_maildir_make_full_path_def bind_eq_Some_conv split: if_splits)

lemma full_path_no_memory: "pr_maildir_make_full_path False u e = Some (p, e1, r) \<Longrightarrow> \<not> r"
  by (cases "pr_server u") (auto simp: pr_maildir_make_full_path_def bind_eq_Some_conv split: if_splits)

lemma message_path_no_memory: "pr_maildir_message_make_full_path False m t e = Some (p, e1, r) \<Longrightarrow> \<not> r"
  by (auto simp: pr_maildir_message_make_full_path_def bind_eq_Some_conv split: if_splits dest: full_path_no_memory)

lemma message_path_closed [simp]:
  "pr_maildir_message_make_full_path mok (m\<lparr>pr_is_open := b\<rparr>) t e = pr_maildir_message_make_full_path mok m t e"
  by (cases t) (simp_all add: pr_maildir_message_make_full_path_def cong: if_cong)

lemma resolve_cwd: "fs_cwd fs' = fs_cwd fs \<Longrightarrow> resolve fs' p = resolve fs p"
  by (simp add: resolve_def)

lemma open_file_kept: "open_file fs m ns \<Longrightarrow> fs_keeps X fs fs' \<Longrightarrow> ns \<notin> X \<Longrightarrow> open_file fs' m ns"
  using resolve_cwd [of fs' fs] by (auto simp: open_file_def fs_keeps_def)

lemma messages_open_kept: "messages_open fs ms \<Longrightarrow> fs_from fs fs' \<Longrightarrow> messages_open fs' ms"
  using open_file_kept by (fastforce simp: messages_open_def)

text \<open>A message that leaves the list takes at most its own file along.\<close>

lemma messages_open_leave:
  assumes "messages_open fs ms" "m \<in> set ms" "open_file fs m ns" "fs_keeps {ns} fs fs'"
  shows "messages_open fs' (remove1 m ms)"
proof -
  have d: "distinct (map pr_fd ms)" "distinct ms" using assms(1) by (auto simp: messages_open_def distinct_map)
  have "\<exists>ns. open_file fs' m' ns" if "m' \<in> set (remove1 m ms)" for m'
  proof -
    from that d have m': "m' \<in> set ms" "m' \<noteq> m" by auto
    with assms(1) obtain ns' where ns': "open_file fs m' ns'" by (auto simp: messages_open_def)
    have "pr_fd m' \<noteq> pr_fd m" using d(1) m' assms(2) by (auto simp: distinct_map dest: inj_onD)
    with ns' assms(3) have "ns' \<notin> {ns}" by (auto simp: open_file_def)
    from open_file_kept [OF ns' assms(4) this] show ?thesis by blast
  qed
  moreover have "distinct (map pr_fd (remove1 m ms))"
    using d by (auto simp: distinct_map inj_on_def dest: notin_set_remove1)
  ultimately show ?thesis by (simp add: messages_open_def)
qed

lemma create_name_loop_found:
  assumes "create_name_loop mok fs u up draw a e = Some (f, e', Some p)"
  shows "mok \<and> make_path True [up, ''/'', USER_PATH_TMP, ''/'', f] = Some (Some p) \<and> fs_nodes fs (resolve fs p) = None
    \<or> a < 9 \<and> create_name_loop mok fs u up draw (Suc a) e = Some (f, e', Some p)"
proof (cases mok)
  case False
  with assms show ?thesis
    by (subst (asm) create_name_loop.simps) (auto simp: Let_def bind_eq_Some_conv split: if_splits)
next
  case True
  with assms show ?thesis
    by (subst (asm) create_name_loop.simps)
       (auto simp: Let_def bind_eq_Some_conv fopen_r_free MAX_NUM_ATTEMPTS_TO_CREATE_FILENAME_def split: if_splits)
qed

lemma create_name_loop_path:
  "create_name_loop mok fs u up draw a e = Some (f, e', Some p) \<Longrightarrow>
   mok \<and> make_path True [up, ''/'', USER_PATH_TMP, ''/'', f] = Some (Some p) \<and> fs_nodes fs (resolve fs p) = None"
proof (induction "10 - a" arbitrary: a)
  case 0
  from create_name_loop_found [OF 0(2)] 0(1) show ?case by simp
next
  case (Suc n)
  from create_name_loop_found [OF Suc.prems] show ?case
  proof
    assume "a < 9 \<and> create_name_loop mok fs u up draw (Suc a) e = Some (f, e', Some p)"
    with Suc.hyps(1) [of "Suc a"] Suc.hyps(2) show ?case by simp
  qed simp
qed

lemma create_message_opens:
  assumes "fs_ok fs" "maildir_user_create_message mok fs draw u m sender e = Some (fs', m', e', True)"
  shows "\<exists>m1 ns. m' = Some m1 \<and> fs_nodes fs ns = None \<and> open_file fs' m1 ns"
proof -
  from assms(2) obtain us ms up e1 f e2 p fd where s: "u = Some us" "m = Some ms"
    "pr_maildir_make_full_path mok us e = Some (Some up, e1, True)"
    "create_name_loop mok fs us up draw 0 e1 = Some (f, e2, Some p)" "posix_fopen_w fs p = (fs', Some fd)"
    "m' = Some (ms\<lparr>pr_filename := f, pr_user := u, pr_type := TMP, pr_fd := Some fd, pr_is_open := True\<rparr>)"
  proof -
    from assms(2) obtain us ms up f p e1 e2 where c: "u = Some us" "m = Some ms"
      "pr_maildir_make_full_path mok us e = Some (Some up, e1, True)"
      "create_name_loop mok fs us up draw 0 e1 = Some (f, e2, Some p)"
      by (auto simp: maildir_user_create_message_def Let_def bind_eq_Some_conv split: option.splits if_splits)
    obtain fs1 w where w: "posix_fopen_w fs p = (fs1, w)" by (cases "posix_fopen_w fs p")
    from assms(2) c w show ?thesis
      by (intro that [of us ms up e1 f e2 p "the w"]) (auto simp: maildir_user_create_message_def Let_def split: option.splits)
  qed
  note p = create_name_loop_path [OF s(4)]
  have "fs_from fs fs'" using fopen_w_keeps [OF fs_keeps_refl [OF assms(1)] s(5)] .
  then have "resolve fs' p = fd" using s(5) resolve_cwd [of fs' fs p]
    by (auto simp: fs_keeps_def posix_fopen_w_def Let_def split: if_splits)
  moreover have "is_file fs' fd" using s(5) by (auto simp: is_file_def posix_fopen_w_def Let_def split: if_splits)
  moreover have "fs_nodes fs fd = None" using p s(5) by (auto simp: posix_fopen_w_def Let_def split: if_splits)
  moreover have "\<exists>e'. pr_maildir_message_make_full_path True
      (ms\<lparr>pr_filename := f, pr_user := u, pr_type := TMP, pr_fd := Some fd, pr_is_open := True\<rparr>) TMP e = Some (Some p, e', True)" for e
    using p s(1) full_path_any_error [OF s(3), of e] by (auto simp: pr_maildir_message_make_full_path_def)
  ultimately show ?thesis using s(6) by (auto simp: open_file_def intro!: exI [of _ fd])
qed

text \<open>Moving or removing the file of an open message touches no other file and no directory.\<close>

lemma finalize_open:
  assumes "fs_ok fs" "open_file fs m ns" "maildir_message_finalize mok fs m e = Some (fs', r)"
  shows "fs_keeps {ns} fs fs'"
proof (cases mok)
  case False
  have "fs' = fs" using assms(2,3) False
    by (auto simp: maildir_message_finalize_def Let_def open_file_def bind_eq_Some_conv dest: message_path_no_memory split: if_splits)
  with assms(1) show ?thesis by (simp add: fs_keeps_refl)
next
  case True
  from assms(2) obtain p where p: "resolve fs p = ns" "is_file fs ns" "pr_is_open m" "pr_type m = TMP"
    "\<And>e. \<exists>e'. pr_maildir_message_make_full_path True m TMP e = Some (Some p, e', True)" unfolding open_file_def by blast
  obtain e1 where "pr_maildir_message_make_full_path True m TMP (ERROR_SUCCESS e) = Some (Some p, e1, True)" using p(5) by blast
  with assms(3) p(3,4) True have "fs' = fs \<or> (\<exists>q. fs' = fst (posix_rename fs p q))"
    by (auto simp: maildir_message_finalize_def Let_def bind_eq_Some_conv case_prod_unfold split: if_splits option.splits)
  then show ?thesis using rename_keeps [OF assms(1) surjective_pairing, of p] p(1,2) fs_keeps_refl [OF assms(1)] by blast
qed

lemma release_open:
  assumes "fs_ok fs" "open_file fs m ns" "maildir_message_release mok fs m e = Some (fs', r)"
  shows "fs_keeps {ns} fs fs'"
proof (cases mok)
  case False
  have "fs' = fs" using assms(2,3) False
    by (auto simp: maildir_message_release_def open_file_def bind_eq_Some_conv dest: message_path_no_memory split: if_splits)
  with assms(1) show ?thesis by (simp add: fs_keeps_refl)
next
  case True
  from assms(2) obtain p where p: "resolve fs p = ns" "pr_type m = TMP"
    "\<And>e. \<exists>e'. pr_maildir_message_make_full_path True m TMP e = Some (Some p, e', True)" unfolding open_file_def by blast
  obtain e1 where "pr_maildir_message_make_full_path True m TMP (ERROR_SUCCESS e) = Some (Some p, e1, True)" using p(3) by blast
  with assms(3) p(2) True have "fs' = fst (posix_unlink fs p)"
    by (auto simp: maildir_message_release_def case_prod_unfold split: option.splits)
  then show ?thesis using unlink_keeps [OF assms(1) surjective_pairing, of p] p(1) by simp
qed

text \<open>
  What the calls of the mail store do to the file system and to the messages that are open. A
  message is written, finalized, removed or closed while it is open; finalizing one that is closed
  is an error that changes nothing.
\<close>

inductive store_step :: "fs \<times> maildir_message list \<Rightarrow> fs \<times> maildir_message list \<Rightarrow> bool" where
  init: "maildir_init mok fs md path e = Some (fs', r) \<Longrightarrow> store_step (fs, ms) (fs', ms)"
| create_server: "maildir_create_server mok fs md s domain e = Some (fs', r) \<Longrightarrow> store_step (fs, ms) (fs', ms)"
| create_user: "maildir_server_create_user mok fs s u login e = Some (fs', r) \<Longrightarrow> store_step (fs, ms) (fs', ms)"
| create_message: "maildir_user_create_message mok fs draw u (Some m) sender e = Some (fs', Some m', e', ok) \<Longrightarrow>
    store_step (fs, ms) (fs', if ok then m' # ms else ms)"
| message_write: "m \<in> set ms \<Longrightarrow> maildir_message_write fs (Some m) b n e = Some (fs', r) \<Longrightarrow> store_step (fs, ms) (fs', ms)"
| message_finalize: "m \<in> set ms \<Longrightarrow> maildir_message_finalize mok fs m e = Some (fs', r) \<Longrightarrow> store_step (fs, ms) (fs', remove1 m ms)"
| finalize_closed: "\<not> pr_is_open m \<Longrightarrow> maildir_message_finalize mok fs m e = Some (fs', r) \<Longrightarrow> store_step (fs, ms) (fs', ms)"
| message_release: "m \<in> set ms \<Longrightarrow> maildir_message_release mok fs m e = Some (fs', r) \<Longrightarrow> store_step (fs, ms) (fs', remove1 m ms)"
| message_free: "m \<in> set ms \<Longrightarrow> store_step (fs, ms) (fs, remove1 m ms)"

inductive_cases store_stepE: "store_step (fs, ms) (fs', ms')"

definition dirs_stay :: "fs \<Rightarrow> fs \<Rightarrow> bool" where
  "dirs_stay fs fs' \<longleftrightarrow> (\<forall>ns. fs_nodes fs ns = Some Dir \<longrightarrow> fs_nodes fs' ns = Some Dir)"

lemma fs_keeps_dirs: "fs_keeps X fs fs' \<Longrightarrow> fs_ok fs' \<and> dirs_stay fs fs'"
  by (simp add: fs_keeps_def dirs_stay_def)

lemma store_grows:
  "fs_from fs fs' \<Longrightarrow> messages_open fs ms \<Longrightarrow> fs_ok fs' \<and> dirs_stay fs fs' \<and> messages_open fs' ms"
  using fs_keeps_dirs messages_open_kept by blast

lemma store_leaves:
  assumes "messages_open fs ms" "m \<in> set ms" "\<And>ns. open_file fs m ns \<Longrightarrow> fs_keeps {ns} fs fs'"
  shows "fs_ok fs' \<and> dirs_stay fs fs' \<and> messages_open fs' (remove1 m ms)"
proof -
  from assms(1,2) obtain ns where "open_file fs m ns" by (auto simp: messages_open_def)
  with assms show ?thesis using fs_keeps_dirs messages_open_leave by blast
qed

lemma store_step_keeps:
  assumes "store_step (fs, ms) (fs', ms')" "fs_ok fs" "messages_open fs ms"
  shows "fs_ok fs' \<and> dirs_stay fs fs' \<and> messages_open fs' ms'"
proof -
  note r = fs_keeps_refl [OF assms(2), of "{}"]
  show ?thesis using assms(1)
  proof cases
    case (create_message mok draw u m sender e m' e' ok)
    have g: "fs_from fs fs'" using create_message_keeps [OF create_message(2) fs_keeps_refl [OF assms(2)]] by simp
    show ?thesis
    proof (cases ok)
      case True
      from create_message_opens [OF assms(2) create_message(2) [unfolded eqTrueI [OF True]]] obtain ns
        where ns: "fs_nodes fs ns = None" "open_file fs' m' ns" by blast
      have "pr_fd m' \<notin> pr_fd ` set ms"
        using ns assms(3) by (fastforce simp: messages_open_def open_file_def is_file_def)
      then show ?thesis using store_grows [OF g assms(3)] create_message(1) True ns(2) by (auto simp: messages_open_def)
    qed (use store_grows [OF g assms(3)] create_message(1) in simp)
  next
    case (message_finalize m mok e r)
    then show ?thesis using store_leaves [OF assms(3)] finalize_open [OF assms(2)] by blast
  next
    case (message_release m mok e r)
    then show ?thesis using store_leaves [OF assms(3)] release_open [OF assms(2)] by blast
  next
    case (message_free m)
    then show ?thesis using store_leaves [OF assms(3)] fs_keeps_refl [OF assms(2)] by blast
  next
    case (finalize_closed m mok e r)
    then have "fs' = fs" by (auto simp: maildir_message_finalize_def Let_def split: if_splits)
    with finalize_closed assms show ?thesis by (simp add: dirs_stay_def)
  next
    case (init mok md path e r)
    then show ?thesis using store_grows [OF _ assms(3)] init_keeps [OF init(2) r] by simp
  next
    case (create_server mok md s domain e r)
    then show ?thesis using store_grows [OF _ assms(3)] create_server_keeps [OF create_server(2) r] by simp
  next
    case (create_user mok s u login e r)
    then show ?thesis using store_grows [OF _ assms(3)] create_user_keeps [OF create_user(2) r] by simp
  next
    case (message_write m b n e r)
    then show ?thesis using store_grows [OF _ assms(3)] write_keeps [OF message_write(3) r] by simp
  qed
qed

text \<open>
  C20: Whatever calls of the mail store are made one after the other, in whatever order and however
  they end, a well-formed file system stays well formed (every entry lies in a directory) and no
  directory is removed, moved or replaced, so a mailbox that once exists can be delivered to ever
  after; and every message that has been made and not yet been finalized, removed or closed still
  has its own temporary file. (A message that is finalized, removed or written is one that is open:
  with a message whose name field is empty, say, the call of \<open>rename\<close> in \<open>message.c\<close> would take the
  directory \<open>tmp\<close> itself.)
\<close>

theorem store_keeps_mailboxes:
  assumes "store_step\<^sup>*\<^sup>* (fs, []) (fs', ms)" "fs_ok fs"
  shows "fs_ok fs' \<and> (\<forall>ns. fs_nodes fs ns = Some Dir \<longrightarrow> fs_nodes fs' ns = Some Dir)
    \<and> distinct (map pr_fd ms) \<and> (\<forall>m\<in>set ms. \<exists>ns c. pr_fd m = Some ns \<and> fs_nodes fs' ns = Some (File c))"
proof -
  have "fs_ok (fst s) \<and> dirs_stay fs (fst s) \<and> messages_open (fst s) (snd s)" if "store_step\<^sup>*\<^sup>* (fs, []) s" for s
    using that
  proof (induction rule: rtranclp_induct)
    case base
    then show ?case using assms(2) by (simp add: dirs_stay_def messages_open_def)
  next
    case (step s s')
    then show ?case using store_step_keeps [of "fst s" "snd s" "fst s'" "snd s'"] by (auto simp: dirs_stay_def)
  qed
  from this [OF assms(1)] show ?thesis by (fastforce simp: dirs_stay_def messages_open_def open_file_def is_file_def)
qed

theorem store_keeps_mailboxes_witness:
  "\<exists>fs m. maildir_user_create_message True demo_fs demo_draw (Some demo_bob) (Some demo_message) (Some ''a@b'') NULL
       = Some (fs, Some m, NULL, True) \<and> fs_nodes fs [''md'', ''bob'', ''new''] = Some Dir
     \<and> pr_fd m = Some [''md'', ''bob'', ''tmp'', ''5_1''] \<and> (\<exists>c. fs_nodes fs [''md'', ''bob'', ''tmp'', ''5_1''] = Some (File c))"
proof -
  have "\<forall>i<1. name_taken demo_fs [''md''] demo_self demo_bob (drawn demo_draw i)"
    "\<not> name_taken demo_fs [''md''] demo_self demo_bob (drawn demo_draw 1)"
    "fs_nodes demo_fs (mail_dir [''md''] demo_self demo_bob @ [''tmp'']) = Some Dir"
    by (simp_all add: name_taken_def demo_dirs demo_drawn demo_fs_def)
  from create_message_run [OF demo_bob_at _ this, of demo_message "''a@b''" NULL] obtain fs m where
    c: "maildir_user_create_message True demo_fs demo_draw (Some demo_bob) (Some demo_message) (Some ''a@b'') NULL = Some (fs, Some m, NULL, True)"
    "pr_fd m = Some [''md'', ''bob'', ''tmp'', ''5_1'']"
    by (simp add: tmp_file_def demo_dirs demo_drawn ERROR_SUCCESS_simps)
  have "store_step\<^sup>*\<^sup>* (demo_fs, []) (fs, [m])"
    using store_step.create_message [OF c(1), of "[]"] by (simp add: r_into_rtranclp)
  from store_keeps_mailboxes [OF this demo_fs_ok] c show ?thesis by (simp add: demo_fs_def)
qed

section \<open>The check of a user directory\<close>

text \<open>What \<open>readdir\<close> lists: the names in the directory and the two dots, in any order.\<close>

definition listing_of :: "fs \<Rightarrow> string \<Rightarrow> string list \<Rightarrow> bool" where
  "listing_of fs p names \<longleftrightarrow> set names = {''.'', ''..''} \<union> {n. fs_nodes fs (resolve fs p @ [n]) \<noteq> None}"

definition subdir :: "fs \<Rightarrow> string \<Rightarrow> string \<Rightarrow> bool" where
  "subdir fs p n \<longleftrightarrow> fs_nodes fs (resolve fs p @ [n]) = Some Dir"

lemma resolve_child: "p \<noteq> [] \<Longrightarrow> entry_name n \<Longrightarrow> resolve fs (p @ CHR ''/'' # n) = resolve fs p @ [n]"
  by (simp add: resolve_def comps_slash)

definition standard_name :: "string \<Rightarrow> bool" where
  "standard_name n \<longleftrightarrow> n \<in> {''cur'', ''tmp'', ''new''}"

lemma check_user_entry_standard:
  assumes "c_string p" "p \<noteq> []" "standard_name n" "fs_nodes fs (resolve fs p @ [n]) \<noteq> None"
  shows "check_user_entry True fs p n (c, w, t) error = Some (error, Some
    (c \<or> (subdir fs p n \<and> n = ''cur''), w \<or> (subdir fs p n \<and> n = ''new''), t \<or> (subdir fs p n \<and> n = ''tmp'')))"
proof -
  have n: "file_name n" using assms(3) by (auto simp: standard_name_def)
  have "pr_maildir_char_concatenate True 3 [p, ''/'', n] = Some (Some (p @ CHR ''/'' # n))"
    using char_concatenate_run [of "[p, ''/'', n]"] assms(1) n by (simp add: eval_nat_numeral)
  moreover have "posix_stat_isdir fs (p @ CHR ''/'' # n) = Inl (subdir fs p n)"
    using assms(2,4) n by (auto simp: posix_stat_isdir_def resolve_child subdir_def)
  ultimately show ?thesis using assms(3)
    by (auto simp: check_user_entry_def pr_maildir_check_is_dir_def standard_name_def USER_PATH_CUR_def USER_PATH_TMP_def USER_PATH_NEW_def)
qed

lemma check_user_entry_foreign:
  assumes "c_string p" "c_string n" "\<not> standard_name n" "n \<noteq> ''.''" "n \<noteq> ''..''"
  shows "check_user_entry True fs p n found error = Some (err_report FATAL MAILDIR_ERROR_CONTAINING_FOREIGN_OBJECT error, None)"
proof -
  have "pr_maildir_char_concatenate True 3 [p, ''/'', n] = Some (Some (p @ CHR ''/'' # n))"
    using char_concatenate_run [of "[p, ''/'', n]"] assms(1,2) by (simp add: eval_nat_numeral)
  then show ?thesis using assms(3-5)
    by (auto simp: check_user_entry_def standard_name_def USER_PATH_CUR_def USER_PATH_TMP_def USER_PATH_NEW_def)
qed

lemma check_user_loop_run:
  assumes "c_string p" "p \<noteq> []"
    "\<forall>n\<in>set names. c_string n \<and> (n = ''.'' \<or> n = ''..'' \<or> fs_nodes fs (resolve fs p @ [n]) \<noteq> None)"
  shows "check_user_loop True fs p (map Inl names) (c, w, t) error = Some
    (if \<forall>n\<in>set names. n = ''.'' \<or> n = ''..'' \<or> standard_name n
     then (error, Some (c \<or> (''cur'' \<in> set names \<and> subdir fs p ''cur''), w \<or> (''new'' \<in> set names \<and> subdir fs p ''new''),
                        t \<or> (''tmp'' \<in> set names \<and> subdir fs p ''tmp'')))
     else (err_report FATAL MAILDIR_ERROR_CONTAINING_FOREIGN_OBJECT error, None))"
  using assms(3)
proof (induction names arbitrary: c w t)
  case Nil
  then show ?case by (simp add: check_user_loop.simps)
next
  case (Cons n names)
  consider "n = ''.'' \<or> n = ''..''" | "standard_name n" "fs_nodes fs (resolve fs p @ [n]) \<noteq> None" "n \<noteq> ''.''" "n \<noteq> ''..''"
    | "\<not> standard_name n" "n \<noteq> ''.''" "n \<noteq> ''..''" using Cons.prems by auto
  then show ?case
  proof cases
    case 1
    then have "check_user_entry True fs p n (c, w, t) error = Some (error, Some (c, w, t))"
      by (auto simp: check_user_entry_def)
    with 1 Cons show ?thesis by (auto simp: check_user_loop.simps [of _ _ _ "Inl n # _"])
  next
    case 2
    show ?thesis
      using check_user_entry_standard [OF assms(1,2) 2(1,2), of c w t error] Cons 2(1,3,4)
      by (auto simp: check_user_loop.simps [of _ _ _ "Inl n # _"] standard_name_def)
  next
    case 3
    with check_user_entry_foreign [OF assms(1) _ 3, of fs "(c, w, t)" error] Cons.prems show ?thesis
      by (simp add: check_user_loop.simps [of _ _ _ "Inl n # _"])
  qed
qed

text \<open>
  The check of a user directory accepts it exactly when it holds nothing but \<open>cur\<close>, \<open>new\<close> and
  \<open>tmp\<close>, the last two (and, if asked for, the first) as directories. Any other entry is reported as a
  foreign object; a path that is no directory is an error of the system.
\<close>

theorem user_directory_check_exact:
  assumes "c_string p" "p \<noteq> []" "entries p = map Inl names" "listing_of fs p names" "\<forall>n\<in>set names. c_string n"
  shows "pr_maildir_check_user_structure True fs entries p cur_must_exist error = Some
    (case posix_opendir fs p of
       Some e \<Rightarrow> (err_report_errno e MAILDIR_ERROR_OPENING_SERVERS_PATH error, False)
     | None \<Rightarrow>
         if \<exists>n. fs_nodes fs (resolve fs p @ [n]) \<noteq> None \<and> n \<notin> {''.'', ''..'', ''cur'', ''tmp'', ''new''}
         then (err_report FATAL MAILDIR_ERROR_CONTAINING_FOREIGN_OBJECT error, False)
         else (error, fs_nodes fs (resolve fs p @ [''tmp'']) = Some Dir \<and> fs_nodes fs (resolve fs p @ [''new'']) = Some Dir
                 \<and> (cur_must_exist \<longrightarrow> fs_nodes fs (resolve fs p @ [''cur'']) = Some Dir)))"
proof (cases "posix_opendir fs p")
  case None
  have l: "\<forall>n\<in>set names. c_string n \<and> (n = ''.'' \<or> n = ''..'' \<or> fs_nodes fs (resolve fs p @ [n]) \<noteq> None)"
    using assms(4,5) by (auto simp: listing_of_def)
  have all: "(\<forall>n\<in>set names. n = ''.'' \<or> n = ''..'' \<or> standard_name n) \<longleftrightarrow>
      \<not> (\<exists>n. fs_nodes fs (resolve fs p @ [n]) \<noteq> None \<and> n \<notin> {''.'', ''..'', ''cur'', ''tmp'', ''new''})"
    using assms(4) unfolding listing_of_def standard_name_def by blast
  have sub: "n \<in> set names \<and> subdir fs p n \<longleftrightarrow> fs_nodes fs (resolve fs p @ [n]) = Some Dir" for n
    using assms(4) by (auto simp: listing_of_def subdir_def)
  note run = check_user_loop_run [OF assms(1,2) l, of False False False error, unfolded all sub]
  show ?thesis
  proof (cases "\<exists>n. fs_nodes fs (resolve fs p @ [n]) \<noteq> None \<and> n \<notin> {''.'', ''..'', ''cur'', ''tmp'', ''new''}")
    case True
    have "check_user_loop True fs p (map Inl names) (False, False, False) error
        = Some (err_report FATAL MAILDIR_ERROR_CONTAINING_FOREIGN_OBJECT error, None)"
      unfolding run using True by (intro arg_cong [where f = Some] if_not_P) blast
    then show ?thesis using None True by (simp add: pr_maildir_check_user_structure_def assms(3))
  next
    case False
    have "check_user_loop True fs p (map Inl names) (False, False, False) error
        = Some (error, Some (fs_nodes fs (resolve fs p @ [''cur'']) = Some Dir, fs_nodes fs (resolve fs p @ [''new'']) = Some Dir,
            fs_nodes fs (resolve fs p @ [''tmp'']) = Some Dir))"
      unfolding run using False by (subst if_P) simp_all
    then show ?thesis unfolding if_not_P [OF False] using None
      by (simp add: pr_maildir_check_user_structure_def assms(3) conj_ac)
  qed
qed (simp add: pr_maildir_check_user_structure_def)

theorem user_directory_check_exact_witness:
  "pr_maildir_check_user_structure True demo_fs (\<lambda>p. map Inl [''.'', ''..'', ''new'', ''tmp'', ''cur'']) ''/md/bob'' True NULL = Some (NULL, True)"
proof -
  let ?names = "[''.'', ''..'', ''new'', ''tmp'', ''cur'']"
  have r: "resolve demo_fs ''/md/bob'' = [''md'', ''bob'']" by (simp add: resolve_def comps_def)
  have ch: "fs_nodes demo_fs ([''md'', ''bob''] @ [n]) \<noteq> None \<longleftrightarrow> n \<in> {''tmp'', ''cur'', ''new''}" for n
    by (simp add: demo_fs_def)
  have l: "listing_of demo_fs ''/md/bob'' ?names"
    unfolding listing_of_def r ch list.set Collect_mem_eq by blast
  have c: "c_string ''/md/bob''" "\<forall>n\<in>set ?names. c_string n" by (simp_all add: c_string_def NUL_def)
  have o: "posix_opendir demo_fs ''/md/bob'' = None" by (rule opendir_dir) (simp only: r, simp add: demo_fs_def)
  have n: "\<not> (\<exists>n. fs_nodes demo_fs ([''md'', ''bob''] @ [n]) \<noteq> None \<and> n \<notin> {''.'', ''..'', ''cur'', ''tmp'', ''new''})"
    unfolding ch by blast
  show ?thesis
    using user_directory_check_exact [OF c(1) _ _ l c(2), of "\<lambda>p. map Inl ?names" True NULL]
    unfolding r if_not_P [OF n] o by (simp add: demo_fs_def)
qed

end
