(* ===== verification/Delivery.thy ===== *)
theory Delivery
  imports Users Table Maildir
begin

text \<open>
  From a finished SMTP transaction to the mail store: \<open>make_x_headers\<close>, \<open>recipients_to_string\<close>,
  \<open>send_mail\<close>, \<open>check_server_name\<close> and \<open>handler_smtp\<close> of \<open>server/src/lib/server/server.c\<close>. The
  fields of \<open>server_config\<close> these functions read are their arguments \<open>md\<close> (the mail store) and
  \<open>self\<close> (the name of this server). \<open>now\<close> is \<open>time(NULL)\<close> in the headers, one value for
  all the files of a mail; \<open>draw k\<close> are the clock
  and random numbers for the name of the \<open>k\<close>-th message file. Memory can be allocated. Log lines are
  not modelled, except that building one reads the fields it prints.
\<close>

section \<open>Headers\<close>

text \<open>The loop over all recipients but the last, at index \<open>j\<close> with \<open>n\<close> left.\<close>

fun x_headers_loop :: "smtp_mailbox list \<Rightarrow> nat \<Rightarrow> nat \<Rightarrow> string \<Rightarrow> string ub" where
  "x_headers_loop rcpts j 0 x_headers = Some x_headers"
| "x_headers_loop rcpts j (Suc n) x_headers =
     do {
       r \<leftarrow> arr_get rcpts (int j);
       u \<leftarrow> user_name r;
       d \<leftarrow> server_name r;
       p \<leftarrow> make_path True [x_headers, u, ''@'', d, '',''];
       header \<leftarrow> p;
       x_headers_loop rcpts (Suc j) n header
     }"

text \<open>For no recipients at all the bound \<open>size - 1\<close> wraps, and the loop leaves the array.\<close>

definition make_x_headers :: "int \<Rightarrow> smtp_mailbox vector \<Rightarrow> smtp_mailbox ptr \<Rightarrow> string ub" where
  "make_x_headers now rcpts from =
     do {
       f \<leftarrow> from;
       fu \<leftarrow> user_name f;
       fd \<leftarrow> server_name f;
       p1 \<leftarrow> make_path True [''X-Postman-From: '', fu, ''@'', fd, SMTP_COMMAND_END];
       h1 \<leftarrow> p1;
       p2 \<leftarrow> make_path True [h1, ''X-Postman-Date: '', dec_string_int now, SMTP_COMMAND_END];
       h2 \<leftarrow> p2;
       p3 \<leftarrow> make_path True [h2, ''X-Postman-To: ''];
       h3 \<leftarrow> p3;
       cells \<leftarrow> v_array rcpts;
       (if v_size rcpts = 0 then UB
        else do {
          h4 \<leftarrow> x_headers_loop cells 0 (v_size rcpts - 1) h3;
          r \<leftarrow> arr_get cells (int (v_size rcpts - 1));
          u \<leftarrow> user_name r;
          d \<leftarrow> server_name r;
          p5 \<leftarrow> make_path True [h4, u, ''@'', d, SMTP_COMMAND_END @ SMTP_COMMAND_END];
          p5
        })
     }"

text \<open>The recipients as a text for the log.\<close>

fun recipients_loop :: "smtp_mailbox list \<Rightarrow> nat \<Rightarrow> nat \<Rightarrow> char vector \<Rightarrow> char vector ub" where
  "recipients_loop rcpts i 0 msg = Some msg"
| "recipients_loop rcpts i (Suc n) msg =
     do {
       r \<leftarrow> arr_get rcpts (int i);
       u \<leftarrow> user_name r;
       d \<leftarrow> server_name r;
       msg' \<leftarrow> run_inputs (vec_push NUL) msg ('' -- '' @ u @ ''@'' @ d @ [CHR 0x0A]);
       recipients_loop rcpts (Suc i) n msg'
     }"

definition recipients_to_string :: "smtp_mailbox vector \<Rightarrow> char vector ub" where
  "recipients_to_string recipients =
     (if v_size recipients = 0 then Some (vec_new NUL)
      else do { cells \<leftarrow> v_array recipients; recipients_loop cells 0 (v_size recipients) (vec_new NUL) })"

section \<open>\<open>send_mail\<close>\<close>

definition server_blank :: maildir_server where
  "server_blank = \<lparr>pr_server_domain = [], is_self = False, pr_md = NULL\<rparr>"

definition user_blank :: maildir_user where
  "user_blank = \<lparr>pr_server = NULL, pr_login = []\<rparr>"

definition message_blank :: maildir_message where
  "message_blank = \<lparr>pr_user = NULL, pr_filename = [], pr_fd = NULL, pr_type = NONE, pr_is_open = False\<rparr>"

definition failed_p :: "err_ptr \<Rightarrow> bool" where
  "failed_p e = (case e of NULL \<Rightarrow> False | Some x \<Rightarrow> failed x)"

text \<open>
  The headers, the text unless it is empty, and the move to the final place; the result says which
  of the three error tests in the code failed, the last one being made only for foreign servers.
\<close>

definition write_parts :: "fs \<Rightarrow> maildir_message ptr \<Rightarrow> string \<Rightarrow> string ptr \<Rightarrow> nat \<Rightarrow> err_ptr \<Rightarrow> (fs \<times> err_ptr \<times> bool) ub" where
  "write_parts fs mail x_headers message message_len md_error =
     do {
       (fs1, e1, _) \<leftarrow> maildir_message_write fs mail (Some x_headers) (length x_headers) md_error;
       (if failed_p e1 then Some (fs1, e1, False)
        else if message_len = 0 then Some (fs1, e1, True)
        else do {
          (fs2, e2, _) \<leftarrow> maildir_message_write fs1 mail message message_len e1;
          Some (fs2, e2, \<not> failed_p e2)
        })
     }"

text \<open>The user is made when looking it up fails with \<open>ENOENT\<close>.\<close>

definition find_or_create_user ::
    "fs \<Rightarrow> maildir_server ptr \<Rightarrow> maildir_user ptr \<Rightarrow> string ptr \<Rightarrow> err_ptr \<Rightarrow> (fs \<times> maildir_user ptr \<times> err_ptr) ub" where
  "find_or_create_user fs server user username md_error =
     do {
       (user1, e1, _) \<leftarrow> maildir_server_user True fs server user username md_error;
       (if \<exists>e. e1 = Some e \<and> err_error e = ERRNO \<and> err_errno e = ENOENT
        then do {
          (fs1, user2, e2, _) \<leftarrow> maildir_server_create_user True fs server user1 username e1;
          Some (fs1, user2, e2)
        }
        else Some (fs, user1, e1))
     }"

text \<open>
  One turn of the loop over the recipients of this server. The result is the file system, the
  vector \<open>current_mailbox\<close> and \<open>status\<close>; the error of \<open>maildir_message_finalize\<close> is not tested.
\<close>

definition deliver_self ::
    "maildir \<Rightarrow> int \<Rightarrow> (nat \<Rightarrow> int \<times> int) \<Rightarrow> smtp_mailbox ptr \<Rightarrow> string \<Rightarrow> string ptr \<Rightarrow> nat \<Rightarrow> smtp_mailbox \<Rightarrow>
     fs \<Rightarrow> smtp_mailbox vector \<Rightarrow> (fs \<times> smtp_mailbox vector \<times> bool) ub" where
  "deliver_self md now draw sender sender_str message message_len mb fs current =
     (let server = maildir_server_default_init server_blank;
          user = maildir_user_default_init user_blank;
          mail = maildir_message_default_init message_blank in
      case maildir_get_self_server (Some md) (Some server) (Some err_fresh) of
        (server1, e1, _) \<Rightarrow>
          if failed_p e1 then Some (fs, current, False)
          else do {
            (fs1, user2, e3) \<leftarrow> find_or_create_user fs server1 (Some user) (user_name mb) e1;
            (if failed_p e3 then Some (fs1, current, False)
             else do {
               (fs2, mail1, e4, _) \<leftarrow> maildir_user_create_message True fs1 draw user2 (Some mail) (Some sender_str) e3;
               (if failed_p e4 then Some (fs2, current, False)
                else do {
                  current1 \<leftarrow> vec_push zero_mailbox current mb;
                  x_headers \<leftarrow> make_x_headers now current1 sender;
                  let current2 = VECTOR_CLEAR current1;
                  (fs3, e5, written) \<leftarrow> write_parts fs2 mail1 x_headers message message_len e4;
                  (if \<not> written then Some (fs3, current2, False)
                   else do {
                     m \<leftarrow> mail1;
                     (fs4, _, _, _) \<leftarrow> maildir_message_finalize True fs3 m e5;
                     Some (fs4, current2, True)
                   })
                })
             })
          })"

fun deliver_self_loop ::
    "maildir \<Rightarrow> int \<Rightarrow> (nat \<Rightarrow> nat \<Rightarrow> int \<times> int) \<Rightarrow> smtp_mailbox ptr \<Rightarrow> string \<Rightarrow> string ptr \<Rightarrow> nat \<Rightarrow> nat \<Rightarrow>
     smtp_mailbox list \<Rightarrow> fs \<Rightarrow> smtp_mailbox vector \<Rightarrow> (fs \<times> bool) ub" where
  "deliver_self_loop md now draw sender sender_str message message_len k [] fs current = Some (fs, True)"
| "deliver_self_loop md now draw sender sender_str message message_len k (mb # mbs) fs current =
     do {
       (fs1, current1, status) \<leftarrow> deliver_self md now (draw k) sender sender_str message message_len mb fs current;
       (if \<not> status then Some (fs1, False)
        else deliver_self_loop md now draw sender sender_str message message_len (Suc k) mbs fs1 current1)
     }"

text \<open>
  The server is made when it is not found; the last component says that the error test after the
  lookup was passed. Whether the making succeeded is not tested.
\<close>

definition find_or_create_server ::
    "maildir \<Rightarrow> fs \<Rightarrow> maildir_server ptr \<Rightarrow> string \<Rightarrow> err_ptr \<Rightarrow> (fs \<times> maildir_server ptr \<times> err_ptr \<times> bool) ub" where
  "find_or_create_server md fs server domain md_error =
     do {
       (server1, e1, _) \<leftarrow> maildir_get_server True fs (Some md) server domain md_error;
       (if \<not> failed_p e1 then Some (fs, server1, e1, True)
        else if \<exists>e. e1 = Some e \<and> err_error e = NOT_FOUND
        then do {
          (fs1, server2, e2, _) \<leftarrow> maildir_create_server True fs (Some md) server1 domain e1;
          Some (fs1, server2, e2, True)
        }
        else Some (fs, server1, e1, False))
     }"

text \<open>
  One turn of the loop over the other servers. That \<open>maildir_create_server\<close> failed is not noticed
  here: the server object then has no mail store, which \<open>maildir_server_user\<close> dereferences.
\<close>

definition deliver_foreign ::
    "maildir \<Rightarrow> int \<Rightarrow> (nat \<Rightarrow> int \<times> int) \<Rightarrow> smtp_mailbox ptr \<Rightarrow> string \<Rightarrow> string ptr \<Rightarrow> nat \<Rightarrow> table_t \<Rightarrow> string \<Rightarrow>
     fs \<Rightarrow> (fs \<times> bool) ub" where
  "deliver_foreign md now draw sender sender_str message message_len table domain fs =
     (let server = maildir_server_default_init server_blank;
          user = maildir_user_default_init user_blank;
          mail = maildir_message_default_init message_blank in
      do {
        (fs1, server2, e2, go_on) \<leftarrow> find_or_create_server md fs (Some server) domain (Some err_fresh);
        (if \<not> go_on then Some (fs1, False)
         else do {
           (user1, e3, _) \<leftarrow> maildir_server_user True fs1 server2 (Some user) (Some []) e2;
           (if failed_p e3 then Some (fs1, False)
            else do {
              (fs2, mail1, e4, _) \<leftarrow> maildir_user_create_message True fs1 draw user1 (Some mail) (Some sender_str) e3;
              (if failed_p e4 then Some (fs2, False)
               else do {
                 server_recipients \<leftarrow> table_get (Some table) (Some domain);
                 x_headers \<leftarrow> make_x_headers now server_recipients sender;
                 (fs3, e5, written) \<leftarrow> write_parts fs2 mail1 x_headers message message_len e4;
                 (if \<not> written then Some (fs3, False)
                  else do {
                    m \<leftarrow> mail1;
                    (fs4, _, e6, _) \<leftarrow> maildir_message_finalize True fs3 m e5;
                    Some (fs4, \<not> failed_p e6)
                  })
               })
            })
         })
      })"

fun deliver_foreign_loop ::
    "maildir \<Rightarrow> int \<Rightarrow> (nat \<Rightarrow> nat \<Rightarrow> int \<times> int) \<Rightarrow> smtp_mailbox ptr \<Rightarrow> string \<Rightarrow> string ptr \<Rightarrow> nat \<Rightarrow> table_t \<Rightarrow> nat \<Rightarrow>
     string list \<Rightarrow> fs \<Rightarrow> bool \<Rightarrow> (fs \<times> bool) ub" where
  "deliver_foreign_loop md now draw sender sender_str message message_len table k [] fs status = Some (fs, status)"
| "deliver_foreign_loop md now draw sender sender_str message message_len table k (d # ds) fs status =
     do {
       (fs1, sent) \<leftarrow> deliver_foreign md now (draw k) sender sender_str message message_len table d fs;
       deliver_foreign_loop md now draw sender sender_str message message_len table (Suc k) ds fs1 (status \<and> sent)
     }"

text \<open>The loop that splits the recipients into those of this server and the others.\<close>

fun split_recipients ::
    "string \<Rightarrow> smtp_mailbox list \<Rightarrow> smtp_mailbox vector \<Rightarrow> smtp_mailbox vector \<Rightarrow> (smtp_mailbox vector \<times> smtp_mailbox vector) ub" where
  "split_recipients self [] mine others = Some (mine, others)"
| "split_recipients self (m # ms) mine others =
     do {
       d \<leftarrow> server_name m;
       (if d = self then do { mine' \<leftarrow> vec_push zero_mailbox mine m; split_recipients self ms mine' others }
        else do { others' \<leftarrow> vec_push zero_mailbox others m; split_recipients self ms mine others' })
     }"

text \<open>The results of \<open>table_push\<close> are not tested.\<close>

fun fill_table :: "smtp_mailbox list \<Rightarrow> table_t ptr \<Rightarrow> table_t ptr ub" where
  "fill_table [] table = Some table"
| "fill_table (m # ms) table =
     do { (table', _) \<leftarrow> table_push table (server_name m) (Some m); fill_table ms table' }"

definition send_mail ::
    "maildir \<Rightarrow> string \<Rightarrow> int \<Rightarrow> (nat \<Rightarrow> nat \<Rightarrow> int \<times> int) \<Rightarrow> smtp_state \<Rightarrow> fs \<Rightarrow> (smtp_state \<times> fs \<times> bool) ub" where
  "send_mail md self now draw smtp fs =
     do {
       let sender = smtp_get_sender smtp;
       s \<leftarrow> sender;
       su \<leftarrow> user_name s;
       sd \<leftarrow> server_name s;
       let sender_str = su @ ''@'' @ sd;
       let (smtp1, message, message_len, _, _) = smtp_move_buffer smtp (Some err_fresh);
       let mailboxes = smtp_get_rcpt smtp1;
       (if v_size mailboxes = 0 then Some (smtp1, fs, False)
        else do {
          cells \<leftarrow> v_array mailboxes;
          (mine, others) \<leftarrow> split_recipients self (take (v_size mailboxes) cells) (vec_new zero_mailbox) (vec_new zero_mailbox);
          (fs1, status) \<leftarrow>
            deliver_self_loop md now draw sender sender_str message message_len 0 (elems mine) fs (vec_new zero_mailbox);
          (if \<not> status then Some (smtp1, fs1, False)
           else if v_size others = 0 then Some (smtp1, fs1, True)
           else do {
             table \<leftarrow> fill_table (elems others) (fst (table_init (Some [])));
             (keys, _) \<leftarrow> table_keys table (vec_new []);
             t \<leftarrow> table;
             (fs2, status2) \<leftarrow>
               deliver_foreign_loop md now draw sender sender_str message message_len t (length (elems mine)) (elems keys) fs1 True;
             Some (smtp1, fs2, status2)
           })
        })
     }"

section \<open>\<open>handler_smtp\<close>\<close>

text \<open>
  The comparison of the greeting with the address of the client. Only what it dereferences matters:
  an address of type IPv4 is compared with \<open>strcmp\<close>, also when it is null.
\<close>

definition check_server_name ::
    "(string \<Rightarrow> 8 word list option) \<Rightarrow> (8 word list \<Rightarrow> string option) \<Rightarrow> user_context \<Rightarrow> string option ub" where
  "check_server_name aton nameinfo user =
     (let addr = smtp_get_hello_addr (Some (uc_smtp user)) in
      if addr_type addr = SMTP_ADDRESS_TYPE_IPv4 then do { _ \<leftarrow> addr_address addr; Some None }
      else if addr_type addr = SMTP_ADDRESS_TYPE_DOMAIN then Some (dns_get_ptr aton nameinfo True (Some (ca_ip (uc_addr user))))
      else Some None)"

fun smtp_status_to_str :: "smtp_status \<Rightarrow> string" where
  "smtp_status_to_str SMTP_STATUS_ERROR = ''SMTP_STATUS_ERROR''"
| "smtp_status_to_str SMTP_STATUS_OK = ''SMTP_STATUS_OK''"
| "smtp_status_to_str SMTP_STATUS_WARNING = ''SMTP_STATUS_WARNING''"
| "smtp_status_to_str SMTP_STATUS_CONTINUE = ''SMTP_STATUS_CONTINUE''"
| "smtp_status_to_str SMTP_STATUS_DATA_END = ''SMTP_STATUS_DATA_END''"
| "smtp_status_to_str SMTP_STATUS_EXIT = ''SMTP_STATUS_EXIT''"

record smtp_pair =
  pair_buffer :: "string ptr"
  pair_status :: smtp_status

record mail_env =
  me_md :: maildir
  me_self :: string
  me_now :: int
  me_draw :: "nat \<Rightarrow> nat \<Rightarrow> int \<times> int"
  me_aton :: "string \<Rightarrow> 8 word list option"
  me_nameinfo :: "8 word list \<Rightarrow> string option"

definition handler_smtp :: "mail_env \<Rightarrow> user_context \<Rightarrow> string \<Rightarrow> fs \<Rightarrow> (user_context \<times> fs \<times> smtp_pair) ub" where
  "handler_smtp env user message fs =
     do {
       (s, status, reply, _) \<leftarrow> smtp_parse (Some (uc_smtp user)) (Some message) (Some err_fresh);
       smtp1 \<leftarrow> s;
       let user1 = user\<lparr>uc_smtp := smtp1\<rparr>;
       let buffer = (case reply of None \<Rightarrow> NULL | Some b \<Rightarrow> b);
       (if status = SMTP_STATUS_OK \<or> status = SMTP_STATUS_WARNING
        then Some (user1, fs, \<lparr>pair_buffer = buffer, pair_status = status\<rparr>)
        else if status = SMTP_STATUS_CONTINUE then Some (user1, fs, \<lparr>pair_buffer = NULL, pair_status = status\<rparr>)
        else if status = SMTP_STATUS_DATA_END then
          do {
            _ \<leftarrow> check_server_name (me_aton env) (me_nameinfo env) user1;
            _ \<leftarrow> recipients_to_string (smtp_get_rcpt smtp1);
            mb \<leftarrow> smtp_get_sender smtp1;
            _ \<leftarrow> user_name mb;
            (smtp2, fs2, sent) \<leftarrow> send_mail (me_md env) (me_self env) (me_now env) (me_draw env) smtp1 fs;
            smtp3 \<leftarrow> (if sent then smtp_make_response smtp2 250 SMTP_CODE_OK_MSG
                      else smtp_make_response smtp2 451 SMTP_CODE_ERROR_IN_PROCESSING_MSG);
            Some (user1\<lparr>uc_smtp := smtp3\<rparr>, fs2, \<lparr>pair_buffer = pr_buffer smtp3, pair_status = status\<rparr>)
          }
        else if status = SMTP_STATUS_EXIT then
          do {
            p \<leftarrow> make_path True [me_self env, '' '', SMTP_CODE_CLOSE_CONNECTION_MSG];
            buff \<leftarrow> p;
            smtp2 \<leftarrow> smtp_make_response smtp1 221 buff;
            Some (user1\<lparr>uc_smtp := smtp2\<rparr>, fs, \<lparr>pair_buffer = pr_buffer smtp2, pair_status = status\<rparr>)
          }
        else
          do {
            smtp2 \<leftarrow> smtp_make_response smtp1 451 SMTP_CODE_ERROR_IN_PROCESSING_MSG;
            Some (user1\<lparr>uc_smtp := smtp2\<rparr>, fs, \<lparr>pair_buffer = pr_buffer smtp2, pair_status = status\<rparr>)
          })
     }"

section \<open>Names in mail addresses\<close>

definition valid_login :: "string \<Rightarrow> bool" where
  "valid_login u \<longleftrightarrow> u \<noteq> [] \<and> (\<forall>c\<in>set u. is_alnum c)"

definition valid_domain :: "string \<Rightarrow> bool" where
  "valid_domain d \<longleftrightarrow> d \<noteq> [] \<and> (\<forall>c\<in>set d. is_alnum c \<or> c = CHR ''.'') \<and> is_alnum (last d)"

text \<open>The characters that matter: no slash, no terminator, no underscore.\<close>

lemma not_alnum [simp]: "\<not> is_alnum (CHR ''/'')" "\<not> is_alnum NUL" "\<not> is_alnum (CHR ''_'')" "\<not> is_alnum (CHR ''.'')" "\<not> is_alnum (CHR 0x00)"
  by (simp_all add: is_alnum_def is_alpha_def is_digit_def NUL_def)

lemma valid_login_file_name [simp]: "valid_login u \<Longrightarrow> file_name u"
  by (auto simp: valid_login_def file_name_def entry_name_def c_string_def)

lemma valid_domain_file_name [simp]: "valid_domain d \<Longrightarrow> file_name d"
  by (auto simp: valid_domain_def file_name_def entry_name_def c_string_def NUL_def)

lemma lang_domain_chars:
  assumes "w \<in> lang RE_DOMAIN"
  shows "(\<forall>c\<in>set w. is_alnum c \<or> c = CHR ''.'') \<and> is_alnum (last w)"
proof -
  obtain a b where w: "w = a @ b" "a \<in> lang (Plus (Seq (Plus Alnum) (Lit CHR ''.'')))" "b \<in> lang (Plus Alnum)"
    using assms by (auto simp: RE_DOMAIN_def)
  have b: "\<forall>c\<in>set b. is_alnum c" "b \<noteq> []"
    using w(3) lang_Plus_Cls [of b is_alnum] lang_Plus_nonempty [of b Alnum] by (auto simp: Alnum_def)
  have piece: "\<forall>c\<in>set x. is_alnum c \<or> c = CHR ''.''" if "x \<in> lang (Seq (Plus Alnum) (Lit CHR ''.''))" for x
  proof -
    from that obtain u where "x = u @ [CHR ''.'']" "u \<in> lang (Plus Alnum)" by (auto simp: lang_Lit_nonletter)
    then show ?thesis using lang_Plus_Cls(2) [of u is_alnum] by (simp add: Alnum_def)
  qed
  have star: "\<forall>c\<in>set x. is_alnum c \<or> c = CHR ''.''" if "x \<in> star_lang (lang (Seq (Plus Alnum) (Lit CHR ''.'')))" for x
    using that
  proof (induction rule: star_lang.induct)
    case (star_step u v)
    then show ?case using piece [of u] by (simp add: ball_Un)
  qed simp
  obtain x y where a: "a = x @ y" "x \<in> lang (Seq (Plus Alnum) (Lit CHR ''.''))" "y \<in> star_lang (lang (Seq (Plus Alnum) (Lit CHR ''.'')))"
    using w(2) unfolding Plus_def lang.simps(3) [of "Seq _ _" "Star _"] lang.simps(5) by blast
  have "\<forall>c\<in>set a. is_alnum c \<or> c = CHR ''.''"
    using piece [OF a(2)] star [OF a(3)] by (simp add: a(1) ball_Un)
  then show ?thesis using w(1) b by (simp add: ball_Un)
qed

text \<open>A mailbox whose two names can be file names of the mail store.\<close>

definition valid_mailbox :: "smtp_mailbox \<Rightarrow> bool" where
  "valid_mailbox m \<longleftrightarrow> (\<exists>u d. m = \<lparr>user_name = Some u, server_name = Some d\<rparr> \<and> valid_login u \<and> valid_domain d)"

lemma mailbox_of_valid:
  assumes "w \<in> lang RE_MAILBOX"
  shows "valid_mailbox (mailbox_of w)"
proof -
  from assms obtain u d where w: "w = u @ CHR ''@'' # d" "u \<noteq> []" "\<forall>c\<in>set u. is_alnum c" "d \<in> lang RE_DOMAIN"
    by (rule lang_mailbox)
  have at: "\<not> is_alnum (CHR ''@'')" by (simp add: is_alnum_def is_alpha_def is_digit_def)
  then have "\<forall>c\<in>set u. c \<noteq> CHR ''@''" using w(3) by blast
  then have "takeWhile (\<lambda>c. c \<noteq> CHR ''@'') w = u" "tl (dropWhile (\<lambda>c. c \<noteq> CHR ''@'') w) = d"
    unfolding w(1) by (induction u) auto
  then show ?thesis using w(2,3) lang_domain_chars [OF w(4)] lang_domain_nonempty [OF w(4)]
    by (simp add: mailbox_of_def valid_mailbox_def valid_login_def valid_domain_def)
qed

lemma path_mailbox_valid:
  assumes "regexec RE_PATH buff \<noteq> None"
  shows "valid_mailbox (path_mailbox buff)"
proof -
  from path_has_mailbox [OF assms] obtain so eo where m: "regexec RE_MAILBOX buff = Some (so, eo)" by auto
  then show ?thesis using mailbox_of_valid [OF regexec_Some(4) [OF m]] by (simp add: path_mailbox_def)
qed

section \<open>The header block\<close>

definition address :: "smtp_mailbox \<Rightarrow> string" where
  "address m = the (user_name m) @ ''@'' @ the (server_name m)"

definition header_text :: "int \<Rightarrow> smtp_mailbox \<Rightarrow> smtp_mailbox list \<Rightarrow> string" where
  "header_text now f rcpts =
     ''X-Postman-From: '' @ address f @ SMTP_COMMAND_END @ ''X-Postman-Date: '' @ dec_string_int now @ SMTP_COMMAND_END @
     ''X-Postman-To: '' @ concat (map (\<lambda>m. address m @ '','') (butlast rcpts)) @ address (last rcpts) @
     SMTP_COMMAND_END @ SMTP_COMMAND_END"

definition c_mailbox :: "smtp_mailbox \<Rightarrow> bool" where
  "c_mailbox m \<longleftrightarrow> (\<exists>u d. m = \<lparr>user_name = Some u, server_name = Some d\<rparr> \<and> c_string u \<and> c_string d)"

lemma valid_mailbox_c [simp]: "valid_mailbox m \<Longrightarrow> c_mailbox m"
  using valid_login_file_name valid_domain_file_name unfolding valid_mailbox_def c_mailbox_def file_name_def by blast

lemma c_string_lits [simp]:
  "c_string ''@''" "c_string '',''" "c_string SMTP_COMMAND_END" "c_string ''X-Postman-From: ''" "c_string ''X-Postman-Date: ''"
  "c_string ''X-Postman-To: ''" "c_string (dec_string_int i)"
proof -
  show "c_string (dec_string_int i)"
    using set_dec_string_int [of i] by (auto simp: c_string_def digits_def NUL_def)
qed (simp_all add: c_string_def NUL_def SMTP_COMMAND_END_def)

lemma separators_not_NUL [simp]: "CHR ''@'' \<noteq> NUL" "CHR '','' \<noteq> NUL"
  by (simp_all add: NUL_def)

lemma make_path_eq:
  "list_all c_string strs \<Longrightarrow> strs \<noteq> [] \<Longrightarrow> length strs \<le> 50 \<Longrightarrow> concat strs = s \<Longrightarrow> make_path True strs = Some (Some s)"
  using make_path_run [of strs] by (simp add: list_all_iff)

lemma x_headers_loop_run:
  assumes "j + n \<le> length cells" "\<forall>m\<in>set (take n (drop j cells)). c_mailbox m" "c_string h"
  shows "x_headers_loop cells j n h = Some (h @ concat (map (\<lambda>m. address m @ '','') (take n (drop j cells))))
    \<and> c_string (concat (map (\<lambda>m. address m @ '','') (take n (drop j cells))))"
  using assms
proof (induction n arbitrary: j h)
  case 0
  then show ?case by simp
next
  case (Suc n)
  have j: "j < length cells" using Suc.prems(1) by simp
  then have d: "drop j cells = cells ! j # drop (Suc j) cells" by (rule Cons_nth_drop_Suc [symmetric])
  from Suc.prems(2) d have "c_mailbox (cells ! j)" by simp
  then obtain u s where m: "cells ! j = \<lparr>user_name = Some u, server_name = Some s\<rparr>" "c_string u" "c_string s"
    by (auto simp: c_mailbox_def)
  let ?h = "h @ u @ ''@'' @ s @ '',''"
  have p: "make_path True [h, u, ''@'', s, '',''] = Some (Some ?h)"
    by (rule make_path_eq) (use m Suc.prems(3) in \<open>simp_all add: NUL_def\<close>)
  have c: "c_string ?h" using m Suc.prems(3) by (simp add: NUL_def)
  have "x_headers_loop cells (Suc j) n ?h = Some (?h @ concat (map (\<lambda>m. address m @ '','') (take n (drop (Suc j) cells))))
      \<and> c_string (concat (map (\<lambda>m. address m @ '','') (take n (drop (Suc j) cells))))"
    using Suc.prems(1,2) d by (intro Suc.IH [OF _ _ c]) simp_all
  then show ?case using j p m by (simp add: arr_get_nat d address_def)
qed

lemma make_x_headers_run:
  assumes "vec_ok rcpts" "elems rcpts \<noteq> []" "\<forall>m\<in>set (elems rcpts). c_mailbox m" "c_mailbox f"
  shows "make_x_headers now rcpts (Some f) = Some (header_text now f (elems rcpts))"
proof -
  from assms(1) obtain cells where v: "v_array rcpts = Some cells" "length cells = v_allocated rcpts" "v_size rcpts < v_allocated rcpts"
    by (auto simp: vec_ok_def)
  let ?n = "v_size rcpts"
  have e: "elems rcpts = take ?n cells" using v(1) by (simp add: elems_def)
  have n: "0 < ?n" using assms(2) e by (cases ?n) auto
  have l: "?n - 1 < length cells" using v n by simp
  have te: "take ?n cells = take (?n - 1) cells @ [cells ! (?n - 1)]"
    using take_Suc_conv_app_nth [OF l] n by simp
  have bl: "butlast (elems rcpts) = take (?n - 1) cells" "last (elems rcpts) = cells ! (?n - 1)"
    by (simp_all add: e te)
  from assms(3) te have cm: "\<forall>m\<in>set (take (?n - 1) cells). c_mailbox m" "c_mailbox (cells ! (?n - 1))" by (simp_all add: e)
  from cm(2) obtain u d where r: "cells ! (?n - 1) = \<lparr>user_name = Some u, server_name = Some d\<rparr>" "c_string u" "c_string d"
    by (auto simp: c_mailbox_def)
  from assms(4) obtain fu fd where f: "f = \<lparr>user_name = Some fu, server_name = Some fd\<rparr>" "c_string fu" "c_string fd"
    by (auto simp: c_mailbox_def)
  let ?h1 = "''X-Postman-From: '' @ fu @ ''@'' @ fd @ SMTP_COMMAND_END"
  let ?h2 = "?h1 @ ''X-Postman-Date: '' @ dec_string_int now @ SMTP_COMMAND_END"
  let ?h3 = "?h2 @ ''X-Postman-To: ''"
  let ?cs = "concat (map (\<lambda>m. address m @ '','') (take (?n - 1) cells))"
  have p1: "make_path True [''X-Postman-From: '', fu, ''@'', fd, SMTP_COMMAND_END] = Some (Some ?h1)"
    by (rule make_path_eq) (use f in \<open>simp_all add: NUL_def\<close>)
  have c1: "c_string ?h1" using f by (simp add: NUL_def)
  have p2: "make_path True [?h1, ''X-Postman-Date: '', dec_string_int now, SMTP_COMMAND_END] = Some (Some ?h2)"
    by (rule make_path_eq) (use f in \<open>simp_all add: NUL_def\<close>)
  have c2: "c_string ?h2" using f by (simp add: NUL_def)
  have p3: "make_path True [?h2, ''X-Postman-To: ''] = Some (Some ?h3)"
    by (rule make_path_eq) (use f in \<open>simp_all add: NUL_def\<close>)
  have c3: "c_string ?h3" using f by (simp add: NUL_def)
  have lp: "x_headers_loop cells 0 (?n - 1) ?h3 = Some (?h3 @ ?cs)" "c_string ?cs"
    using x_headers_loop_run [of 0 "?n - 1" cells ?h3] l cm(1) c3 by simp_all
  have p5: "make_path True [?h3 @ ?cs, u, ''@'', d, SMTP_COMMAND_END @ SMTP_COMMAND_END]
      = Some (Some ((?h3 @ ?cs) @ u @ ''@'' @ d @ SMTP_COMMAND_END @ SMTP_COMMAND_END))"
    by (rule make_path_eq) (use f lp(2) r in \<open>simp_all add: NUL_def\<close>)
  have g: "arr_get cells (int (?n - 1)) = Some (cells ! (?n - 1))" using l by (rule arr_get_nat)
  show ?thesis
    unfolding make_x_headers_def bind.bind_lunit f(1) smtp_mailbox.simps p1 p2 p3 v(1) if_not_P [OF n [THEN less_imp_neq, symmetric]] lp(1) g r(1) p5
    using r(1) by (simp add: header_text_def bl f(1) address_def)
qed

section \<open>What a delivery does to the mail store\<close>

text \<open>The reference: one new file, in a mailbox or server directory that is made when it is missing.\<close>

definition post_local :: "string list \<Rightarrow> string \<Rightarrow> string \<Rightarrow> string \<Rightarrow> fs \<Rightarrow> fs" where
  "post_local root login name content fs =
     set_node (root @ [login, ''new'', name]) (Some (File content))
       (if fs_nodes fs (root @ [login]) = None then with_user (root @ [login]) fs else fs)"

definition post_foreign :: "string list \<Rightarrow> string \<Rightarrow> string \<Rightarrow> string \<Rightarrow> fs \<Rightarrow> fs" where
  "post_foreign root domain name content fs =
     set_node (server_dir root domain @ [name]) (Some (File content))
       (if fs_nodes fs (server_dir root domain) = None then with_server (server_dir root domain) fs else fs)"

text \<open>A mail store in which every mailbox and every server that exists can be delivered to.\<close>

definition store_ok :: "string list \<Rightarrow> fs \<Rightarrow> bool" where
  "store_ok root fs \<longleftrightarrow> fs_ok fs \<and> fs_nodes fs root = Some Dir \<and> fs_nodes fs (root @ [''.OTHER_SERVERS'']) = Some Dir
     \<and> (\<forall>u. valid_login u \<longrightarrow> fs_nodes fs (root @ [u]) \<noteq> None \<longrightarrow>
          fs_nodes fs (root @ [u, ''tmp'']) = Some Dir \<and> fs_nodes fs (root @ [u, ''new'']) = Some Dir)
     \<and> (\<forall>d. valid_domain d \<longrightarrow> fs_nodes fs (server_dir root d) \<noteq> None \<longrightarrow>
          fs_nodes fs (server_dir root d @ [''tmp'']) = Some Dir)"

definition unused :: "string \<Rightarrow> fs \<Rightarrow> bool" where
  "unused f fs \<longleftrightarrow> (\<forall>d. fs_nodes fs (d @ [f]) = None)"

lemma unusedD: "unused f fs \<Longrightarrow> fs_nodes fs (d @ [f]) = None" "unused f fs \<Longrightarrow> fs_nodes fs (d @ [a, f]) = None"
  "unused f fs \<Longrightarrow> fs_nodes fs (d @ [a, b, f]) = None"
proof -
  assume u: "unused f fs"
  then show "fs_nodes fs (d @ [f]) = None" unfolding unused_def by blast
  from u have "fs_nodes fs ((d @ [a]) @ [f]) = None" unfolding unused_def by blast
  then show "fs_nodes fs (d @ [a, f]) = None" by simp
  from u have "fs_nodes fs ((d @ [a, b]) @ [f]) = None" unfolding unused_def by blast
  then show "fs_nodes fs (d @ [a, b, f]) = None" by simp
qed

lemma unused_set_node: "unused f fs \<Longrightarrow> n \<noteq> f \<Longrightarrow> unused f (set_node (d @ [n]) x fs)"
  by (auto simp: unused_def)

lemma drawn_not_valid:
  "\<not> valid_login (pr_maildir_message_filename_generate d)" "\<not> valid_domain (pr_maildir_message_filename_generate d)"
  "pr_maildir_message_filename_generate d \<notin> {''tmp'', ''cur'', ''new''}"
proof -
  have u: "CHR ''_'' \<in> set (pr_maildir_message_filename_generate d)" by (simp add: pr_maildir_message_filename_generate_def)
  have underscore_dot: "CHR ''_'' \<noteq> CHR ''.''" by simp
  from u show "\<not> valid_login (pr_maildir_message_filename_generate d)" "\<not> valid_domain (pr_maildir_message_filename_generate d)"
    unfolding valid_login_def valid_domain_def using not_alnum(3) underscore_dot by blast+
  show "pr_maildir_message_filename_generate d \<notin> {''tmp'', ''cur'', ''new''}" using u by auto
qed

lemma valid_login_not_servers [simp]: "valid_login u \<Longrightarrow> u \<noteq> ''.OTHER_SERVERS''"
  by (auto simp: valid_login_def)

lemma fs_ok_prefix:
  assumes "fs_ok fs" "fs_nodes fs (p @ q) = Some Dir"
  shows "fs_nodes fs p = Some Dir"
  using fs_ok_children [OF assms(1), of p q] assms(2) by (cases "fs_nodes fs p = Some Dir") (auto split: if_splits)

lemma proper_prefixes_append: "p \<in> set (proper_prefixes (ns @ [n])) \<Longrightarrow> \<exists>q. ns = p @ q"
  by (induction ns arbitrary: p) auto

lemma absent_errno_ENOENT:
  assumes "fs_ok fs" "fs_nodes fs ns = Some Dir"
  shows "absent_errno fs (ns @ [n]) = ENOENT"
proof -
  have "fs_nodes fs p = Some Dir" if "p \<in> set (proper_prefixes (ns @ [n]))" for p
    using proper_prefixes_append [OF that] fs_ok_prefix [OF assms(1)] assms(2) by auto
  then show ?thesis by (auto simp: absent_errno_def)
qed

lemma write_parts_run:
  assumes "pr_is_open m" "pr_fd m = Some fd" "fs_nodes fs fd = Some (File old)" "h \<noteq> []"
    "message = Some cells" "n \<le> length cells"
  shows "write_parts fs (Some m) h message n error =
    Some (set_node fd (Some (File (old @ h @ take n cells))) fs, ERROR_SUCCESS error, True)"
proof -
  have f: "\<not> failed_p (ERROR_SUCCESS e)" for e by (cases e) (simp_all add: failed_p_def err_simps)
  have w1: "maildir_message_write fs (Some m) (Some h) (length h) error
      = Some (set_node fd (Some (File (old @ h))) fs, ERROR_SUCCESS error, True)"
    using message_write_run [OF assms(1-4)] .
  have w2: "maildir_message_write (set_node fd (Some (File (old @ h))) fs) (Some m) (Some cells) n (ERROR_SUCCESS error)
      = Some (set_node fd (Some (File (old @ h @ take n cells))) fs, ERROR_SUCCESS error, True)" if "0 < n"
    using assms(1,2,6) that by (simp add: maildir_message_write_def fwrite_run)
  show ?thesis
  proof (cases "n = 0")
    case True
    then show ?thesis using w1 f by (simp add: write_parts_def)
  next
    case False
    then show ?thesis using w1 w2 f assms(5) by (simp add: write_parts_def)
  qed
qed

text \<open>The three steps on a message in a mail directory, from the name to the final place.\<close>

lemma post_message:
  assumes "user_at u s root" "unused (drawn draw 0) fs"
    "fs_nodes fs (mail_dir root s u @ [''tmp'']) = Some Dir" "fs_nodes fs (final_dir root s u) = Some Dir"
    "h \<noteq> []" "message = Some cells" "n \<le> length cells"
  obtains fs1 m1 fs2 m2 where
    "maildir_user_create_message True fs draw (Some u) (Some m) (Some sender) error = Some (fs1, Some m1, ERROR_SUCCESS error, True)"
    "\<forall>e. write_parts fs1 (Some m1) h message n e = Some (fs2, ERROR_SUCCESS e, True)"
    "\<forall>e. maildir_message_finalize True fs2 m1 e =
       Some (set_node (final_dir root s u @ [drawn draw 0]) (Some (File (h @ take n cells))) fs, m2, ERROR_SUCCESS e, True)"
proof -
  let ?f = "drawn draw 0"
  let ?t = "tmp_file root s u ?f"
  let ?m = "m\<lparr>pr_filename := ?f, pr_user := Some u, pr_type := TMP, pr_fd := Some ?t, pr_is_open := True\<rparr>"
  let ?at = "\<lambda>c. set_node ?t (Some (File c)) fs"
  have free: "\<not> name_taken fs root s u ?f" using assms(2) by (simp add: name_taken_def unusedD)
  have ft: "fs_nodes fs ?t = None" "fs_nodes fs (final_file root s u ?f) = None"
    using free by (simp_all add: name_taken_def tmp_file_def final_file_def)
  have "final_dir root s u \<noteq> ?t" using assms(4) ft(1) by auto
  then have fin: "maildir_message_finalize True (?at c) ?m e
      = Some (set_node (final_file root s u ?f) (Some (File c)) (set_node ?t None (?at c)), ?m\<lparr>pr_is_open := False\<rparr>, ERROR_SUCCESS e, True)" for c e
    using message_finalize_run [of ?m u s root "?at c" c e] assms(1,4) ft(2) tmp_not_final [of root s u ?f ?f] by simp
  have gone: "set_node ?t None (?at c) = fs" for c using ft(1) by (simp add: set_node_id)
  have w: "\<forall>e. write_parts (?at []) (Some ?m) h message n e = Some (?at (h @ take n cells), ERROR_SUCCESS e, True)"
    using write_parts_run [of ?m ?t "?at []" "[]" h message cells n] assms(5-7) by simp
  have "\<forall>e. maildir_message_finalize True (?at (h @ take n cells)) ?m e =
     Some (set_node (final_dir root s u @ [?f]) (Some (File (h @ take n cells))) fs, ?m\<lparr>pr_is_open := False\<rparr>, ERROR_SUCCESS e, True)"
    using fin [of "h @ take n cells"] gone by (simp add: final_file_def)
  then show thesis
    using that [OF _ w] create_message_run [OF assms(1), of 0 fs draw m sender error] free assms(3) by simp
qed

lemma with_user_nodes:
  "fs_nodes (with_user (root @ [u]) fs) ns =
     (if ns \<in> {root @ [u], root @ [u, ''tmp''], root @ [u, ''cur''], root @ [u, ''new'']} then Some Dir else fs_nodes fs ns)"
  by (simp add: with_user_def)

lemma with_server_nodes:
  "fs_nodes (with_server (server_dir root d) fs) ns =
     (if ns \<in> {server_dir root d, server_dir root d @ [''tmp'']} then Some Dir else fs_nodes fs ns)"
  by (simp add: with_server_def)

lemma store_okD:
  assumes "store_ok root fs"
  shows "fs_ok fs" "fs_nodes fs root = Some Dir" "fs_nodes fs (root @ [''.OTHER_SERVERS'']) = Some Dir"
    "\<And>u. valid_login u \<Longrightarrow> fs_nodes fs (root @ [u]) \<noteq> None \<Longrightarrow>
       fs_nodes fs (root @ [u, ''tmp'']) = Some Dir \<and> fs_nodes fs (root @ [u, ''new'']) = Some Dir \<and> fs_nodes fs (root @ [u]) = Some Dir"
    "\<And>d. valid_domain d \<Longrightarrow> fs_nodes fs (server_dir root d) \<noteq> None \<Longrightarrow>
       fs_nodes fs (server_dir root d @ [''tmp'']) = Some Dir \<and> fs_nodes fs (server_dir root d) = Some Dir"
proof -
  from assms show ok: "fs_ok fs" and "fs_nodes fs root = Some Dir" "fs_nodes fs (root @ [''.OTHER_SERVERS'']) = Some Dir"
    by (simp_all add: store_ok_def)
  fix u
  assume "valid_login u" "fs_nodes fs (root @ [u]) \<noteq> None"
  with assms have "fs_nodes fs (root @ [u, ''tmp'']) = Some Dir" "fs_nodes fs (root @ [u, ''new'']) = Some Dir"
    unfolding store_ok_def by blast+
  moreover have "fs_nodes fs (root @ [u]) = Some Dir" using fs_ok_prefix [OF ok, of "root @ [u]" "[''tmp'']"] calculation(1) by simp
  ultimately show "fs_nodes fs (root @ [u, ''tmp'']) = Some Dir \<and> fs_nodes fs (root @ [u, ''new'']) = Some Dir \<and> fs_nodes fs (root @ [u]) = Some Dir"
    by simp
next
  fix d
  assume d: "valid_domain d" "fs_nodes fs (server_dir root d) \<noteq> None"
  from assms have "fs_ok fs" by (simp add: store_ok_def)
  moreover from assms d have t: "fs_nodes fs (server_dir root d @ [''tmp'']) = Some Dir" unfolding store_ok_def by blast
  ultimately show "fs_nodes fs (server_dir root d @ [''tmp'']) = Some Dir \<and> fs_nodes fs (server_dir root d) = Some Dir"
    using fs_ok_prefix by blast
qed

lemma store_ok_set_dir:
  assumes "store_ok root fs" "fs_nodes fs d = Some Dir"
    "\<forall>u. valid_login u \<longrightarrow> root @ [u] \<noteq> d @ [n]" "\<forall>e. valid_domain e \<longrightarrow> server_dir root e \<noteq> d @ [n]"
    "x = Some Dir \<or> fs_nodes fs (d @ [n]) = None" "x \<noteq> None"
  shows "store_ok root (set_node (d @ [n]) x fs)"
proof -
  have ok: "fs_ok (set_node (d @ [n]) x fs)"
    using assms(2,5,6) store_okD(1) [OF assms(1)] by (intro fs_ok_set) auto
  have keep: "fs_nodes (set_node (d @ [n]) x fs) ns = Some Dir" if "fs_nodes fs ns = Some Dir" for ns
    using that assms(5) by auto
  have new: "fs_nodes fs (root @ [u]) \<noteq> None" if "valid_login u" "fs_nodes (set_node (d @ [n]) x fs) (root @ [u]) \<noteq> None" for u
    using that assms(3) unfolding set_node_simps by (metis fun_upd_apply)
  have news: "fs_nodes fs (server_dir root e) \<noteq> None" if "valid_domain e" "fs_nodes (set_node (d @ [n]) x fs) (server_dir root e) \<noteq> None" for e
    using that assms(4) unfolding set_node_simps by (metis fun_upd_apply)
  show ?thesis unfolding store_ok_def
  proof (intro conjI allI impI)
    fix u
    assume "valid_login u" "fs_nodes (set_node (d @ [n]) x fs) (root @ [u]) \<noteq> None"
    from store_okD(4) [OF assms(1) this(1) new [OF this]] keep
    show "fs_nodes (set_node (d @ [n]) x fs) (root @ [u, ''tmp'']) = Some Dir" "fs_nodes (set_node (d @ [n]) x fs) (root @ [u, ''new'']) = Some Dir"
      by blast+
  next
    fix e
    assume "valid_domain e" "fs_nodes (set_node (d @ [n]) x fs) (server_dir root e) \<noteq> None"
    from store_okD(5) [OF assms(1) this(1) news [OF this]] keep
    show "fs_nodes (set_node (d @ [n]) x fs) (server_dir root e @ [''tmp'']) = Some Dir" by blast
  qed (rule ok keep store_okD(2,3) [OF assms(1)])+
qed

lemma store_ok_file:
  assumes "store_ok root fs" "fs_nodes fs d = Some Dir" "unused (pr_maildir_message_filename_generate p) fs"
  shows "store_ok root (set_node (d @ [pr_maildir_message_filename_generate p]) (Some (File c)) fs)"
proof (rule store_ok_set_dir [OF assms(1,2)])
  show "\<forall>u. valid_login u \<longrightarrow> root @ [u] \<noteq> d @ [pr_maildir_message_filename_generate p]" using drawn_not_valid(1) [of p] by auto
  show "\<forall>e. valid_domain e \<longrightarrow> server_dir root e \<noteq> d @ [pr_maildir_message_filename_generate p]"
  proof (intro allI impI notI)
    fix e
    assume "valid_domain e" "server_dir root e = d @ [pr_maildir_message_filename_generate p]"
    then have "last (server_dir root e) = pr_maildir_message_filename_generate p" by simp
    then have "e = pr_maildir_message_filename_generate p" by (simp add: server_dir_def)
    with \<open>valid_domain e\<close> drawn_not_valid(2) show False by simp
  qed
  show "Some (File c) = Some Dir \<or> fs_nodes fs (d @ [pr_maildir_message_filename_generate p]) = None" using unusedD(1) [OF assms(3)] by simp
qed simp

lemma store_ok_with_user:
  assumes "store_ok root fs" "valid_login u" "fs_nodes fs (root @ [u]) = None"
  shows "store_ok root (with_user (root @ [u]) fs)"
proof -
  note ok = store_okD(1) [OF assms(1)] and root = store_okD(2) [OF assms(1)]
  have below: "fs_nodes fs ((root @ [u]) @ [m]) = None" for m using fs_ok_absent_below [OF ok assms(3)] .
  have "fs_ok (with_user (root @ [u]) fs)"
    unfolding with_user_def by (intro fs_ok_set_dir ok root) (simp_all add: root)
  moreover have "\<not> (\<exists>e. server_dir root e \<in> {root @ [u], root @ [u, ''tmp''], root @ [u, ''cur''], root @ [u, ''new'']})"
    using valid_login_not_servers [OF assms(2)] by (simp add: server_dir_def)
  ultimately show ?thesis
    using store_okD [OF assms(1)] assms(2) unfolding store_ok_def with_user_nodes
    by (auto simp: server_dir_def)
qed

lemma store_ok_with_server:
  assumes "store_ok root fs" "valid_domain d" "fs_nodes fs (server_dir root d) = None"
  shows "store_ok root (with_server (server_dir root d) fs)"
proof -
  note ok = store_okD(1) [OF assms(1)] and servers = store_okD(3) [OF assms(1)]
  have d: "server_dir root d = (root @ [''.OTHER_SERVERS'']) @ [d]" by (simp add: server_dir_def)
  have "fs_ok (with_server (server_dir root d) fs)"
    unfolding with_server_def d by (intro fs_ok_set_dir ok servers) (simp_all add: servers)
  moreover have "root @ [u] \<noteq> server_dir root d" "root @ [u] \<noteq> server_dir root d @ [''tmp'']"
     "root @ [u, n] \<noteq> server_dir root d @ [''tmp'']" for u n by (simp_all add: server_dir_def)
  moreover have "root @ [u, n] \<noteq> server_dir root d" if "valid_login u" for u n
    using valid_login_not_servers [OF that] by (simp add: server_dir_def)
  moreover have "server_dir root e = server_dir root d \<longleftrightarrow> e = d" "server_dir root e \<noteq> server_dir root d @ [''tmp'']"
    "server_dir root e @ [''tmp''] \<noteq> server_dir root d" "root \<noteq> server_dir root d" "root \<noteq> server_dir root d @ [''tmp'']"
    "root @ [''.OTHER_SERVERS''] \<noteq> server_dir root d" "root @ [''.OTHER_SERVERS''] \<noteq> server_dir root d @ [''tmp'']" for e
    by (simp_all add: server_dir_def)
  ultimately show ?thesis
    using store_okD [OF assms(1)] assms(2) unfolding store_ok_def with_server_nodes by simp
qed

lemma failed_p_simps [simp]:
  "\<not> failed_p (ERROR_SUCCESS e)" "failed_p (Some x) = failed x" "\<not> failed_p NULL"
  by (cases e) (simp_all add: failed_p_def err_simps)

lemma create_user_new_run:
  assumes "fs_ok fs" "maildir_at md root" "pr_md s = Some md" "is_self s" "file_name login" "length login < 255"
    "fs_nodes fs root = Some Dir" "fs_nodes fs (root @ [login]) = None"
  shows "maildir_server_create_user True fs (Some s) (Some u) (Some login) error =
    Some (with_user (root @ [login]) fs, Some (u\<lparr>pr_server := Some s, pr_login := login\<rparr>), ERROR_SUCCESS error, True)"
proof -
  have names: "\<forall>n\<in>set root. file_name n" using assms(2) by (simp add: maildir_at_def)
  show ?thesis
    using create_user_dirs_run [OF assms(1) names assms(4,5,7,8)] assms(4,6)
    by (simp add: maildir_server_create_user_def server_path_run [OF assms(2-4)] name_copy_def NAME_MAX_def)
qed

text \<open>Finding the user, or making it: the step of \<open>send_mail\<close> for this server.\<close>

definition self_server :: "maildir \<Rightarrow> maildir_server" where
  "self_server md = (maildir_server_default_init server_blank)\<lparr>is_self := True, pr_md := Some md\<rparr>"

definition local_user :: "maildir \<Rightarrow> string \<Rightarrow> maildir_user" where
  "local_user md u = \<lparr>pr_server = Some (self_server md), pr_login = u\<rparr>"

lemma get_self_server_run:
  "maildir_get_self_server (Some md) (Some (maildir_server_default_init server_blank)) error
     = (Some (self_server md), ERROR_SUCCESS error, True)"
  by (simp add: maildir_get_self_server_def self_server_def)

lemma local_user_at:
  assumes "maildir_at md root" "valid_login u"
  shows "user_at (local_user md u) (self_server md) root" "mail_dir root (self_server md) (local_user md u) = root @ [u]"
    "final_dir root (self_server md) (local_user md u) = root @ [u, ''new'']"
  using assms by (simp_all add: user_at_def local_user_def self_server_def mail_dir_def final_dir_def)

lemma find_user_run:
  assumes "store_ok root fs" "maildir_at md root" "valid_login u" "length u < 255" "fs_nodes fs (root @ [u]) \<noteq> None"
  shows "maildir_server_user True fs (Some (self_server md)) (Some (maildir_user_default_init user_blank)) (Some u) error
    = Some (Some (local_user md u), ERROR_SUCCESS error, True)"
proof -
  have names: "\<forall>n\<in>set root. file_name n" using assms(2) by (simp add: maildir_at_def)
  have "resolve fs (join_path root @ CHR ''/'' # u) = root @ [u]" using names assms(3) by (simp add: resolve_under)
  then have "posix_opendir fs (join_path root @ CHR ''/'' # u) = None"
    using store_okD(4) [OF assms(1,3,5)] by (intro opendir_dir) simp
  then show ?thesis
    using server_user_self_run [OF assms(2), of "self_server md" u fs "maildir_user_default_init user_blank" error] assms(3,4)
    by (simp add: self_server_def local_user_def maildir_user_default_init_def user_blank_def)
qed

lemma missing_user_run:
  assumes "store_ok root fs" "maildir_at md root" "valid_login u" "length u < 255" "fs_nodes fs (root @ [u]) = None"
  shows "maildir_server_user True fs (Some (self_server md)) (Some (maildir_user_default_init user_blank)) (Some u) error
    = Some (Some (maildir_user_default_init user_blank), err_report_errno ENOENT MAILDIR_SERVER_ERROR_USER_NOT_FOUND (ERROR_SUCCESS error), False)"
    and "maildir_server_create_user True fs (Some (self_server md)) (Some (maildir_user_default_init user_blank)) (Some u) error
    = Some (with_user (root @ [u]) fs, Some (local_user md u), ERROR_SUCCESS error, True)"
proof -
  have names: "\<forall>n\<in>set root. file_name n" using assms(2) by (simp add: maildir_at_def)
  have r: "resolve fs (join_path root @ CHR ''/'' # u) = root @ [u]" using names assms(3) by (simp add: resolve_under)
  have "posix_opendir fs (join_path root @ CHR ''/'' # u) = Some ENOENT"
    using assms(5) absent_errno_ENOENT [OF store_okD(1,2) [OF assms(1)], of u] by (simp add: posix_opendir_def r)
  then show "maildir_server_user True fs (Some (self_server md)) (Some (maildir_user_default_init user_blank)) (Some u) error
    = Some (Some (maildir_user_default_init user_blank), err_report_errno ENOENT MAILDIR_SERVER_ERROR_USER_NOT_FOUND (ERROR_SUCCESS error), False)"
    using server_user_self_run [OF assms(2), of "self_server md" u fs "maildir_user_default_init user_blank" error] assms(3,4)
    by (simp add: self_server_def)
  show "maildir_server_create_user True fs (Some (self_server md)) (Some (maildir_user_default_init user_blank)) (Some u) error
    = Some (with_user (root @ [u]) fs, Some (local_user md u), ERROR_SUCCESS error, True)"
    using create_user_new_run [OF store_okD(1) [OF assms(1)] assms(2) _ _ valid_login_file_name [OF assms(3)] assms(4)
        store_okD(2) [OF assms(1)] assms(5), of "self_server md" "maildir_user_default_init user_blank" error]
    by (simp add: self_server_def local_user_def maildir_user_default_init_def user_blank_def)
qed

lemma header_nonempty: "header_text now f ms \<noteq> []"
  by (simp add: header_text_def)

lemma unused_with_user: "unused (pr_maildir_message_filename_generate p) fs \<Longrightarrow> valid_login u \<Longrightarrow> unused (pr_maildir_message_filename_generate p) (with_user (root @ [u]) fs)"
  using drawn_not_valid(1,3) [of p] unfolding with_user_def by (intro unused_set_node) auto

lemma unused_with_server: "unused (pr_maildir_message_filename_generate p) fs \<Longrightarrow> valid_domain d \<Longrightarrow> unused (pr_maildir_message_filename_generate p) (with_server (server_dir root d) fs)"
proof -
  assume u: "unused (pr_maildir_message_filename_generate p) fs" and d: "valid_domain d"
  have e: "server_dir root d = (root @ [''.OTHER_SERVERS'']) @ [d]" by (simp add: server_dir_def)
  show "unused (pr_maildir_message_filename_generate p) (with_server (server_dir root d) fs)"
    using drawn_not_valid(2,3) [of p] d unfolding with_server_def e by (intro unused_set_node u) auto
qed

lemma deliver_self_run:
  assumes "store_ok root fs" "maildir_at md root" "valid_mailbox m" "user_name m = Some u" "length u < 255" "c_mailbox f"
    "unused (drawn draw 0) fs" "message = Some cells" "n \<le> length cells" "vec_ok cur" "elems cur = []"
  shows "\<exists>cur'. deliver_self md now draw (Some f) str message n m fs cur
      = Some (post_local root u (drawn draw 0) (header_text now f [m] @ take n cells) fs, cur', True)
    \<and> vec_ok cur' \<and> elems cur' = []"
proof -
  have u: "valid_login u" using assms(3,4) by (auto simp: valid_mailbox_def)
  let ?fs = "if fs_nodes fs (root @ [u]) = None then with_user (root @ [u]) fs else fs"
  have ok: "store_ok root ?fs" using assms(1) store_ok_with_user [OF assms(1) u] by simp
  have un: "unused (drawn draw 0) ?fs" using assms(7) unused_with_user [OF assms(7) u] by simp
  have "fs_nodes ?fs (root @ [u]) \<noteq> None" by (auto simp: with_user_nodes)
  from store_okD(4) [OF ok u this] have dirs: "fs_nodes ?fs (mail_dir root (self_server md) (local_user md u) @ [''tmp'']) = Some Dir"
    "fs_nodes ?fs (final_dir root (self_server md) (local_user md u)) = Some Dir"
    using local_user_at [OF assms(2) u] by simp_all
  obtain cur1 where c1: "vec_push zero_mailbox cur m = Some cur1" "vec_ok cur1" "elems cur1 = [m]"
    using vec.push_ok [OF assms(10), of zero_mailbox m] assms(11) by auto
  have hdr: "make_x_headers now cur1 (Some f) = Some (header_text now f [m])"
    using make_x_headers_run [OF c1(2), of f now] c1(3) assms(3,6) by simp
  let ?srv = "Some (self_server md)" and ?u0 = "Some (maildir_user_default_init user_blank)"
  let ?e1 = "ERROR_SUCCESS (Some err_fresh)"
  obtain e3 where users: "find_or_create_user fs ?srv ?u0 (user_name m) ?e1 = Some (?fs, Some (local_user md u), ERROR_SUCCESS e3)"
  proof (cases "fs_nodes fs (root @ [u]) = None")
    case True
    then show thesis using missing_user_run [OF assms(1,2) u assms(5) True] assms(4)
        that [of "err_report_errno ENOENT MAILDIR_SERVER_ERROR_USER_NOT_FOUND (ERROR_SUCCESS ?e1)"]
      by (simp add: find_or_create_user_def err_simps)
  next
    case False
    then obtain y where y: "fs_nodes fs (root @ [u]) = Some y" by blast
    show thesis
      by (rule that [of ?e1])
         (use find_user_run [OF assms(1,2) u assms(5) False, of ?e1] assms(4) y in \<open>simp add: find_or_create_user_def err_simps\<close>)
  qed
  obtain fs1 m1 fs2 m2 where msg:
    "maildir_user_create_message True ?fs draw (Some (local_user md u)) (Some (maildir_message_default_init message_blank)) (Some str) (ERROR_SUCCESS e3)
       = Some (fs1, Some m1, ERROR_SUCCESS (ERROR_SUCCESS e3), True)"
    "\<forall>e. write_parts fs1 (Some m1) (header_text now f [m]) message n e = Some (fs2, ERROR_SUCCESS e, True)"
    "\<forall>e. maildir_message_finalize True fs2 m1 e =
       Some (set_node (final_dir root (self_server md) (local_user md u) @ [drawn draw 0])
               (Some (File (header_text now f [m] @ take n cells))) ?fs, m2, ERROR_SUCCESS e, True)"
    by (rule post_message [where draw = draw and fs = "?fs" and m = "maildir_message_default_init message_blank" and sender = str
          and error = "ERROR_SUCCESS e3" and h = "header_text now f [m]", OF local_user_at(1) [OF assms(2) u] un dirs header_nonempty assms(8,9)])
  have "final_dir root (self_server md) (local_user md u) @ [drawn draw 0] = root @ [u, ''new'', drawn draw 0]"
    using local_user_at(3) [OF assms(2) u] by simp
  then have "deliver_self md now draw (Some f) str message n m fs cur
      = Some (post_local root u (drawn draw 0) (header_text now f [m] @ take n cells) fs, VECTOR_CLEAR cur1, True)"
    using users msg c1(1) hdr
    by (simp add: deliver_self_def get_self_server_run post_local_def Let_def)
  then show ?thesis using c1 by (intro exI [of _ "VECTOR_CLEAR cur1"]) simp
qed

text \<open>The same for another server; the server object may be the one found or the one made.\<close>

definition foreign_server :: "maildir \<Rightarrow> string \<Rightarrow> maildir_server" where
  "foreign_server md d = \<lparr>pr_server_domain = d, is_self = False, pr_md = Some md\<rparr>"

definition foreign_user :: "maildir \<Rightarrow> string \<Rightarrow> maildir_user" where
  "foreign_user md d = \<lparr>pr_server = Some (foreign_server md d), pr_login = []\<rparr>"

lemma foreign_user_at:
  assumes "maildir_at md root" "valid_domain d"
  shows "user_at (foreign_user md d) (foreign_server md d) root"
    "mail_dir root (foreign_server md d) (foreign_user md d) = server_dir root d"
    "final_dir root (foreign_server md d) (foreign_user md d) = server_dir root d"
  using assms by (simp_all add: user_at_def foreign_user_def foreign_server_def mail_dir_def final_dir_def)

lemma get_server_found:
  assumes "store_ok root fs" "maildir_at md root" "valid_domain d" "length d < 255" "fs_nodes fs (server_dir root d) \<noteq> None"
  shows "maildir_get_server True fs (Some md) (Some (maildir_server_default_init server_blank)) d error
    = Some (Some (foreign_server md d), ERROR_SUCCESS error, True)"
proof -
  have "posix_opendir fs (join_path root @ SERVERS_ROOT_NAME_PART @ d) = None"
    using store_okD(5) [OF assms(1,3,5)] resolve_servers(2) [OF assms(2), of d fs] assms(3) by (intro opendir_dir) simp
  then show ?thesis using get_server_run [OF assms(2) _ assms(4)] assms(3)
    by (simp add: foreign_server_def maildir_server_default_init_def server_blank_def)
qed

lemma get_server_missing:
  assumes "store_ok root fs" "maildir_at md root" "valid_domain d" "length d < 255" "fs_nodes fs (server_dir root d) = None"
  shows "maildir_get_server True fs (Some md) (Some (maildir_server_default_init server_blank)) d error
    = Some (Some (maildir_server_default_init server_blank), err_report NOT_FOUND MAILDIR_SERVER_NOT_FOUND (ERROR_SUCCESS error), False)"
    and "maildir_create_server True fs (Some md) (Some (maildir_server_default_init server_blank)) d error
    = Some (with_server (server_dir root d) fs, Some (foreign_server md d), ERROR_SUCCESS error, True)"
proof -
  have e: "server_dir root d = (root @ [''.OTHER_SERVERS'']) @ [d]" by (simp add: server_dir_def)
  have "posix_opendir fs (join_path root @ SERVERS_ROOT_NAME_PART @ d) = Some ENOENT"
    using absent_errno_ENOENT [OF store_okD(1,3) [OF assms(1)], of d] resolve_servers(2) [OF assms(2), of d fs] assms(3,5)
    by (simp add: posix_opendir_def e)
  then show "maildir_get_server True fs (Some md) (Some (maildir_server_default_init server_blank)) d error
    = Some (Some (maildir_server_default_init server_blank), err_report NOT_FOUND MAILDIR_SERVER_NOT_FOUND (ERROR_SUCCESS error), False)"
    using get_server_run [OF assms(2) _ assms(4)] assms(3) by simp
  show "maildir_create_server True fs (Some md) (Some (maildir_server_default_init server_blank)) d error
    = Some (with_server (server_dir root d) fs, Some (foreign_server md d), ERROR_SUCCESS error, True)"
    using create_server_run [OF assms(2) _ assms(4) store_okD(1) [OF assms(1)] assms(5) store_okD(3) [OF assms(1)]] assms(3)
    by (simp add: foreign_server_def maildir_server_default_init_def server_blank_def)
qed

lemma foreign_user_run:
  assumes "store_ok root fs" "maildir_at md root"
  shows "maildir_server_user True fs (Some (foreign_server md d)) (Some (maildir_user_default_init user_blank)) (Some []) error
    = Some (Some (foreign_user md d), ERROR_SUCCESS error, True)"
proof -
  have "file_name ''tmp''" by simp
  from resolve_servers(1) [OF assms(2) this, of fs] store_okD(3) [OF assms(1)]
  have "posix_opendir fs (join_path root @ SERVERS_ROOT_NAME_PART) = None" by (intro opendir_dir) simp
  then show ?thesis
    using server_user_foreign_run [OF assms(2), of "foreign_server md d" "[]" fs "maildir_user_default_init user_blank" error]
    by (simp add: foreign_server_def foreign_user_def maildir_user_default_init_def user_blank_def)
qed

lemma deliver_foreign_run:
  assumes "store_ok root fs" "maildir_at md root" "valid_domain d" "length d < 255" "c_mailbox f"
    "unused (drawn draw 0) fs" "message = Some cells" "n \<le> length cells"
    "table_get (Some table) (Some d) = Some v" "vec_ok v" "elems v = ms" "ms \<noteq> []" "\<forall>m\<in>set ms. valid_mailbox m"
  shows "deliver_foreign md now draw (Some f) str message n table d fs
      = Some (post_foreign root d (drawn draw 0) (header_text now f ms @ take n cells) fs, True)"
proof -
  let ?fs = "if fs_nodes fs (server_dir root d) = None then with_server (server_dir root d) fs else fs"
  have ok: "store_ok root ?fs" using assms(1) store_ok_with_server [OF assms(1,3)] by simp
  have un: "unused (drawn draw 0) ?fs" using assms(6) unused_with_server [OF assms(6,3)] by simp
  have "fs_nodes ?fs (server_dir root d) \<noteq> None" by (auto simp: with_server_nodes)
  from store_okD(5) [OF ok assms(3) this] have
    dirs: "fs_nodes ?fs (mail_dir root (foreign_server md d) (foreign_user md d) @ [''tmp'']) = Some Dir"
    "fs_nodes ?fs (final_dir root (foreign_server md d) (foreign_user md d)) = Some Dir"
    using foreign_user_at [OF assms(2,3)] by simp_all
  have hdr: "make_x_headers now v (Some f) = Some (header_text now f ms)"
    using make_x_headers_run [OF assms(10), of f now] assms(5,11-13) by simp
  obtain e2 where server: "find_or_create_server md fs (Some (maildir_server_default_init server_blank)) d (Some err_fresh)
      = Some (?fs, Some (foreign_server md d), ERROR_SUCCESS e2, True)"
  proof (cases "fs_nodes fs (server_dir root d) = None")
    case True
    show thesis
      by (rule that [of "err_report NOT_FOUND MAILDIR_SERVER_NOT_FOUND (ERROR_SUCCESS (Some err_fresh))"])
         (use get_server_missing [OF assms(1-4) True] True in \<open>simp add: find_or_create_server_def err_simps\<close>)
  next
    case False
    then obtain y where y: "fs_nodes fs (server_dir root d) = Some y" by blast
    show thesis
      by (rule that [of "Some err_fresh"])
         (use get_server_found [OF assms(1-4) False] y in \<open>simp add: find_or_create_server_def\<close>)
  qed
  have user: "maildir_server_user True ?fs (Some (foreign_server md d)) (Some (maildir_user_default_init user_blank)) (Some []) (ERROR_SUCCESS e2)
      = Some (Some (foreign_user md d), ERROR_SUCCESS (ERROR_SUCCESS e2), True)"
    by (rule foreign_user_run [OF ok assms(2)])
  obtain fs1 m1 fs2 m2 where msg:
    "maildir_user_create_message True ?fs draw (Some (foreign_user md d)) (Some (maildir_message_default_init message_blank)) (Some str)
       (ERROR_SUCCESS e2) = Some (fs1, Some m1, ERROR_SUCCESS (ERROR_SUCCESS e2), True)"
    "\<forall>e. write_parts fs1 (Some m1) (header_text now f ms) message n e = Some (fs2, ERROR_SUCCESS e, True)"
    "\<forall>e. maildir_message_finalize True fs2 m1 e =
       Some (set_node (final_dir root (foreign_server md d) (foreign_user md d) @ [drawn draw 0])
               (Some (File (header_text now f ms @ take n cells))) ?fs, m2, ERROR_SUCCESS e, True)"
    by (rule post_message [where draw = draw and fs = "?fs" and m = "maildir_message_default_init message_blank" and sender = str
          and error = "ERROR_SUCCESS e2" and h = "header_text now f ms", OF foreign_user_at(1) [OF assms(2,3)] un dirs header_nonempty assms(7,8)])
  show ?thesis
    using server user msg hdr assms(9) foreign_user_at(3) [OF assms(2,3)]
    by (simp add: deliver_foreign_def post_foreign_def Let_def)
qed

section \<open>The loops of \<open>send_mail\<close>\<close>

text \<open>The reference: one local delivery after the other, then one per server of the others.\<close>

fun post_locals ::
    "string list \<Rightarrow> int \<Rightarrow> smtp_mailbox \<Rightarrow> string \<Rightarrow> (nat \<Rightarrow> string) \<Rightarrow> nat \<Rightarrow> smtp_mailbox list \<Rightarrow> fs \<Rightarrow> fs" where
  "post_locals root now f txt names k [] fs = fs"
| "post_locals root now f txt names k (m # ms) fs =
     post_locals root now f txt names (Suc k) ms
       (post_local root (the (user_name m)) (names k) (header_text now f [m] @ txt) fs)"

definition on_server :: "smtp_mailbox list \<Rightarrow> string \<Rightarrow> smtp_mailbox list" where
  "on_server ms d = filter (\<lambda>m. server_name m = Some d) ms"

fun post_foreigns ::
    "string list \<Rightarrow> int \<Rightarrow> smtp_mailbox \<Rightarrow> string \<Rightarrow> (nat \<Rightarrow> string) \<Rightarrow> smtp_mailbox list \<Rightarrow> nat \<Rightarrow> string list \<Rightarrow> fs \<Rightarrow> fs" where
  "post_foreigns root now f txt names ms k [] fs = fs"
| "post_foreigns root now f txt names ms k (d # ds) fs =
     post_foreigns root now f txt names ms (Suc k) ds
       (post_foreign root d (names k) (header_text now f (on_server ms d) @ txt) fs)"

text \<open>The name of the \<open>k\<close>-th message file.\<close>

abbreviation first_name :: "(nat \<Rightarrow> nat \<Rightarrow> int \<times> int) \<Rightarrow> nat \<Rightarrow> string" where
  "first_name draw k \<equiv> pr_maildir_message_filename_generate (draw k 0)"

definition fresh_names :: "(nat \<Rightarrow> nat \<Rightarrow> int \<times> int) \<Rightarrow> nat \<Rightarrow> nat \<Rightarrow> fs \<Rightarrow> bool" where
  "fresh_names draw k n fs \<longleftrightarrow> (\<forall>i\<in>{k..<k + n}. unused (first_name draw i) fs)
     \<and> inj_on (first_name draw) {k..<k + n}"

lemma fresh_names_head: "fresh_names draw k (Suc n) fs \<Longrightarrow> unused (first_name draw k) fs"
  by (simp add: fresh_names_def)

lemma fresh_names_next:
  assumes "fresh_names draw k (Suc n) fs"
    "\<And>i. unused (first_name draw i) fs \<Longrightarrow> first_name draw i \<noteq> first_name draw k \<Longrightarrow> unused (first_name draw i) fs'"
  shows "fresh_names draw (Suc k) n fs'"
  unfolding fresh_names_def
proof
  have sub: "{Suc k..<Suc k + n} \<subseteq> {k..<k + Suc n}" by auto
  show "inj_on (first_name draw) {Suc k..<Suc k + n}"
    using assms(1) sub by (auto simp: fresh_names_def intro: inj_on_subset)
  show "\<forall>i\<in>{Suc k..<Suc k + n}. unused (first_name draw i) fs'"
  proof
    fix i
    assume i: "i \<in> {Suc k..<Suc k + n}"
    then have "i \<in> {k..<k + Suc n}" "k \<in> {k..<k + Suc n}" "i \<noteq> k" by auto
    then show "unused (first_name draw i) fs'"
      using assms unfolding fresh_names_def inj_on_def by blast
  qed
qed

lemma fresh_names_split: "fresh_names draw k (n + m) fs \<Longrightarrow> fresh_names draw k n fs"
  unfolding fresh_names_def by (auto intro: inj_on_subset)

lemma post_local_ok:
  assumes "store_ok root fs" "valid_login u" "unused (pr_maildir_message_filename_generate p) fs"
  shows "store_ok root (post_local root u (pr_maildir_message_filename_generate p) c fs)"
proof -
  let ?fs = "if fs_nodes fs (root @ [u]) = None then with_user (root @ [u]) fs else fs"
  have ok: "store_ok root ?fs" using assms(1) store_ok_with_user [OF assms(1,2)] by simp
  have "fs_nodes ?fs (root @ [u]) \<noteq> None" by (auto simp: with_user_nodes)
  from store_okD(4) [OF ok assms(2) this] have "fs_nodes ?fs (root @ [u, ''new'']) = Some Dir" by simp
  moreover have "unused (pr_maildir_message_filename_generate p) ?fs"
    using assms(3) unused_with_user [OF assms(3,2)] by simp
  ultimately show ?thesis using store_ok_file [OF ok, of "root @ [u, ''new'']" p c] by (simp add: post_local_def)
qed

lemma post_foreign_ok:
  assumes "store_ok root fs" "valid_domain d" "unused (pr_maildir_message_filename_generate p) fs"
  shows "store_ok root (post_foreign root d (pr_maildir_message_filename_generate p) c fs)"
proof -
  let ?fs = "if fs_nodes fs (server_dir root d) = None then with_server (server_dir root d) fs else fs"
  have ok: "store_ok root ?fs" using assms(1) store_ok_with_server [OF assms(1,2)] by simp
  have "fs_nodes ?fs (server_dir root d) \<noteq> None" by (auto simp: with_server_nodes)
  from store_okD(5) [OF ok assms(2) this] have "fs_nodes ?fs (server_dir root d) = Some Dir" by simp
  moreover have "unused (pr_maildir_message_filename_generate p) ?fs"
    using assms(3) unused_with_server [OF assms(3,2)] by simp
  ultimately show ?thesis using store_ok_file [OF ok, of "server_dir root d" p c] by (simp add: post_foreign_def)
qed

lemma post_local_unused:
  assumes "valid_login u" "unused (pr_maildir_message_filename_generate p) fs" "pr_maildir_message_filename_generate p \<noteq> g"
  shows "unused (pr_maildir_message_filename_generate p) (post_local root u g c fs)"
proof -
  have "unused (pr_maildir_message_filename_generate p) (set_node ((root @ [u, ''new'']) @ [g]) x fs')"
    if "unused (pr_maildir_message_filename_generate p) fs'" for fs' x
    using that assms(3) by (intro unused_set_node) simp_all
  then show ?thesis using unused_with_user [OF assms(2,1), of root] assms(2) by (simp add: post_local_def)
qed

lemma post_foreign_unused:
  assumes "valid_domain d" "unused (pr_maildir_message_filename_generate p) fs" "pr_maildir_message_filename_generate p \<noteq> g"
  shows "unused (pr_maildir_message_filename_generate p) (post_foreign root d g c fs)"
  using unused_with_server [OF assms(2,1), of root] assms(2,3) unfolding post_foreign_def by (intro unused_set_node) auto

definition deliverable :: "smtp_mailbox \<Rightarrow> bool" where
  "deliverable m \<longleftrightarrow> valid_mailbox m \<and> length (the (user_name m)) < 255 \<and> length (the (server_name m)) < TABLE_MAX_KEY_LENGTH"

lemma deliverableD:
  assumes "deliverable m"
  obtains u d where "m = \<lparr>user_name = Some u, server_name = Some d\<rparr>" "valid_login u" "valid_domain d" "length u < 255" "length d < 128"
  using assms by (auto simp: deliverable_def valid_mailbox_def TABLE_MAX_KEY_LENGTH_def)

lemma deliver_self_loop_run:
  assumes "maildir_at md root" "c_mailbox f" "message = Some cells" "n \<le> length cells"
    "store_ok root fs" "\<forall>m\<in>set ms. deliverable m" "fresh_names draw k (length ms + r) fs" "vec_ok cur" "elems cur = []"
  shows "deliver_self_loop md now draw (Some f) str message n k ms fs cur
      = Some (post_locals root now f (take n cells) (first_name draw) k ms fs, True)
    \<and> store_ok root (post_locals root now f (take n cells) (first_name draw) k ms fs)
    \<and> fresh_names draw (k + length ms) r (post_locals root now f (take n cells) (first_name draw) k ms fs)"
  using assms(5-9)
proof (induction ms arbitrary: k fs cur)
  case Nil
  then show ?case by simp
next
  case (Cons m ms)
  from Cons.prems(2) have "deliverable m" by simp
  then obtain u d where m: "m = \<lparr>user_name = Some u, server_name = Some d\<rparr>" "valid_login u" "valid_domain d" "length u < 255"
    by (rule deliverableD)
  have vm: "valid_mailbox m" using m by (simp add: valid_mailbox_def)
  have un: "unused (first_name draw k) fs" using Cons.prems(3) by (intro fresh_names_head) simp
  let ?fs1 = "post_local root u (first_name draw k) (header_text now f [m] @ take n cells) fs"
  have un_m: "user_name m = Some u" using m(1) by simp
  from deliver_self_run [where draw = "draw k", OF Cons.prems(1) assms(1) vm un_m m(4) assms(2) un assms(3,4) Cons.prems(4,5)] obtain cur' where
    c: "deliver_self md now (draw k) (Some f) str message n m fs cur = Some (?fs1, cur', True)" "vec_ok cur'" "elems cur' = []" by auto
  have ok: "store_ok root ?fs1" by (rule post_local_ok [OF Cons.prems(1) m(2) un])
  have "fresh_names draw (Suc k) (length ms + r) ?fs1"
    using Cons.prems(3) by (intro fresh_names_next [of draw k _ fs] post_local_unused m(2)) simp_all
  from Cons.IH [OF ok _ this c(2,3)] Cons.prems(2) show ?case using c(1) m(1) by simp
qed

lemma deliver_foreign_loop_run:
  assumes "maildir_at md root" "c_mailbox f" "message = Some cells" "n \<le> length cells" "\<forall>m\<in>set ms. deliverable m"
    "store_ok root fs" "fresh_names draw k (length ds) fs"
    "\<forall>d\<in>set ds. Some d \<in> server_name ` set ms \<and> (\<exists>v. table_get (Some table) (Some d) = Some v \<and> vec_ok v \<and> elems v = on_server ms d)"
  shows "deliver_foreign_loop md now draw (Some f) str message n table k ds fs True
      = Some (post_foreigns root now f (take n cells) (first_name draw) ms k ds fs, True)
    \<and> store_ok root (post_foreigns root now f (take n cells) (first_name draw) ms k ds fs)"
  using assms(6-8)
proof (induction ds arbitrary: k fs)
  case Nil
  then show ?case by simp
next
  case (Cons d ds)
  from Cons.prems(3) obtain v where v: "table_get (Some table) (Some d) = Some v" "vec_ok v" "elems v = on_server ms d" by auto
  from Cons.prems(3) obtain m where m: "m \<in> set ms" "server_name m = Some d" by auto
  from assms(5) m(1) have "deliverable m" by blast
  with m(2) have d: "valid_domain d" "length d < 255" by (auto elim!: deliverableD)
  have ne: "on_server ms d \<noteq> []" using m by (auto simp: on_server_def filter_empty_conv)
  have vm: "\<forall>m\<in>set (on_server ms d). valid_mailbox m" using assms(5) by (auto simp: on_server_def deliverable_def)
  have un: "unused (first_name draw k) fs" using Cons.prems(2) by (intro fresh_names_head) simp
  let ?fs1 = "post_foreign root d (first_name draw k) (header_text now f (on_server ms d) @ take n cells) fs"
  have c: "deliver_foreign md now (draw k) (Some f) str message n table d fs = Some (?fs1, True)"
    by (rule deliver_foreign_run [where draw = "draw k", OF Cons.prems(1) assms(1) d assms(2) un assms(3,4) v ne vm])
  have ok: "store_ok root ?fs1" by (rule post_foreign_ok [OF Cons.prems(1) d(1) un])
  have "fresh_names draw (Suc k) (length ds) ?fs1"
    using Cons.prems(2) by (intro fresh_names_next [of draw k _ fs] post_foreign_unused d(1)) simp_all
  from Cons.IH [OF ok this] Cons.prems(3) show ?case using c by simp
qed

lemma split_recipients_run:
  assumes "\<forall>m\<in>set ms. c_mailbox m" "vec_ok mine" "vec_ok others"
  shows "\<exists>mine' others'. split_recipients self ms mine others = Some (mine', others') \<and> vec_ok mine' \<and> vec_ok others'
    \<and> elems mine' = elems mine @ filter (\<lambda>m. server_name m = Some self) ms
    \<and> elems others' = elems others @ filter (\<lambda>m. server_name m \<noteq> Some self) ms"
  using assms
proof (induction ms arbitrary: mine others)
  case Nil
  then show ?case by simp
next
  case (Cons m ms)
  from Cons.prems(1) obtain d where d: "server_name m = Some d" by (auto simp: c_mailbox_def)
  from vec.push_ok [OF Cons.prems(2), of zero_mailbox m] obtain v where
    v: "vec_push zero_mailbox mine m = Some v" "vec_ok v" "elems v = elems mine @ [m]" by blast
  from vec.push_ok [OF Cons.prems(3), of zero_mailbox m] obtain w where
    w: "vec_push zero_mailbox others m = Some w" "vec_ok w" "elems w = elems others @ [m]" by blast
  show ?case
    using Cons.IH [OF _ v(2) Cons.prems(3)] Cons.IH [OF _ Cons.prems(2) w(2)] Cons.prems(1) d v w
    by (cases "d = self") simp_all
qed

lemma fill_table_eq:
  "run_inputs table_file t ms = Some t' \<Longrightarrow> fill_table ms (Some t) = Some (Some t')"
proof (induction ms arbitrary: t)
  case (Cons m ms)
  then show ?case
    by (cases "table_push (Some t) (server_name m) (Some m)")
       (auto simp: table_file_def split: option.splits)
qed simp

lemma elems_take: "v_array v = Some cells \<Longrightarrow> take (v_size v) cells = elems v"
  by (simp add: elems_def)

lemma deliverable_c: "deliverable m \<Longrightarrow> c_mailbox m"
  by (simp add: deliverable_def)

lemma smtp_move_buffer_run:
  assumes "smtp_inv s"
  obtains s' where "smtp_move_buffer s e = (s', v_array (pr_mail_data s), v_size (pr_mail_data s), True, ERROR_SUCCESS e)"
    "smtp_inv s'" "pr_rcpt_list s' = pr_rcpt_list s" "pr_mail_from s' = pr_mail_from s" "elems (pr_mail_data s') = []"
    "pr_fsm_state s' = pr_fsm_state s" "pr_status s' = pr_status s"
proof -
  let ?s = "fst (smtp_move_buffer s e)"
  have "smtp_move_buffer s e = (?s, v_array (pr_mail_data s), v_size (pr_mail_data s), True, ERROR_SUCCESS e)"
    by (simp add: smtp_move_buffer_def split: prod.split)
  moreover have "smtp_inv ?s" "elems (pr_mail_data ?s) = []"
    using assms by (simp_all add: smtp_move_buffer_def VECTOR_INIT_def err_simps smtp_inv_def vec_ok_def elems_def mem_alloc_def)
  moreover have "pr_rcpt_list ?s = pr_rcpt_list s" "pr_mail_from ?s = pr_mail_from s" "pr_fsm_state ?s = pr_fsm_state s" "pr_status ?s = pr_status s"
    by (simp_all add: smtp_move_buffer_def split: prod.split)
  ultimately show thesis by (intro that [of ?s])
qed

lemma vec_cells:
  assumes "vec_ok v"
  obtains cells where "v_array v = Some cells" "v_size v \<le> length cells" "take (v_size v) cells = elems v" "v_size v = length (elems v)"
proof -
  from assms obtain cells where "v_array v = Some cells" "length cells = v_allocated v" "v_size v < v_allocated v" by (auto simp: vec_ok_def)
  then show thesis by (intro that [of cells]) (simp_all add: elems_def)
qed

definition domains :: "smtp_mailbox list \<Rightarrow> string set" where
  "domains ms = (\<lambda>m. the (server_name m)) ` set ms"

text \<open>What \<open>send_mail\<close> does to the mail store, with the servers of the other recipients in the order \<open>ds\<close>.\<close>

definition post :: "string list \<Rightarrow> string \<Rightarrow> int \<Rightarrow> smtp_mailbox \<Rightarrow> string \<Rightarrow> (nat \<Rightarrow> string) \<Rightarrow> smtp_mailbox list \<Rightarrow> string list \<Rightarrow> fs \<Rightarrow> fs" where
  "post root self now f txt names ms ds fs =
     (let mine = filter (\<lambda>m. server_name m = Some self) ms; others = filter (\<lambda>m. server_name m \<noteq> Some self) ms in
      post_foreigns root now f txt names others (length mine) ds (post_locals root now f txt names 0 mine fs))"

lemma card_domains: "card (domains ms) \<le> length ms"
  unfolding domains_def by (meson card_image_le card_length finite_set order_trans)

lemma send_mail_run:
  assumes "store_ok root fs" "maildir_at md root" "smtp_inv s" "pr_mail_from s = Some f" "c_mailbox f"
    "elems (pr_rcpt_list s) = ms" "ms \<noteq> []" "\<forall>m\<in>set ms. deliverable m" "fresh_names draw 0 (length ms) fs"
  obtains s' ds where "send_mail md self now draw s fs
      = Some (s', post root self now f (elems (pr_mail_data s)) (first_name draw) ms ds fs, True)"
    "distinct ds" "set ds = domains (filter (\<lambda>m. server_name m \<noteq> Some self) ms)"
    "store_ok root (post root self now f (elems (pr_mail_data s)) (first_name draw) ms ds fs)"
    "smtp_inv s'" "pr_rcpt_list s' = pr_rcpt_list s" "pr_mail_from s' = pr_mail_from s" "elems (pr_mail_data s') = []"
    "pr_fsm_state s' = pr_fsm_state s" "pr_status s' = pr_status s"
proof -
  let ?mine = "filter (\<lambda>m. server_name m = Some self) ms" and ?others = "filter (\<lambda>m. server_name m \<noteq> Some self) ms"
  let ?txt = "elems (pr_mail_data s)"
  let ?fs1 = "post_locals root now f ?txt (first_name draw) 0 ?mine fs"
  obtain fu fd where f: "f = \<lparr>user_name = Some fu, server_name = Some fd\<rparr>" using assms(5) by (auto simp: c_mailbox_def)
  obtain s1 where s1: "smtp_move_buffer s (Some err_fresh) = (s1, v_array (pr_mail_data s), v_size (pr_mail_data s), True, ERROR_SUCCESS (Some err_fresh))"
    "smtp_inv s1" "pr_rcpt_list s1 = pr_rcpt_list s" "pr_mail_from s1 = pr_mail_from s" "elems (pr_mail_data s1) = []"
    "pr_fsm_state s1 = pr_fsm_state s" "pr_status s1 = pr_status s"
    by (rule smtp_move_buffer_run [OF assms(3)])
  obtain text_cells where text_cells: "v_array (pr_mail_data s) = Some text_cells" "v_size (pr_mail_data s) \<le> length text_cells" "take (v_size (pr_mail_data s)) text_cells = ?txt"
    by (rule vec_cells [OF smtp_invD(3) [OF assms(3)]])
  obtain cells where cells: "v_array (pr_rcpt_list s) = Some cells" "take (v_size (pr_rcpt_list s)) cells = ms" "v_size (pr_rcpt_list s) = length ms"
    using vec_cells [OF smtp_invD(2) [OF assms(3)]] assms(6) by auto
  have "\<forall>m\<in>set ms. c_mailbox m" using assms(8) deliverable_c by blast
  then obtain mine others where split:
    "split_recipients self ms (vec_new zero_mailbox) (vec_new zero_mailbox) = Some (mine, others)" "vec_ok others"
    "elems mine = ?mine" "elems others = ?others"
    using split_recipients_run [of ms "vec_new zero_mailbox" "vec_new zero_mailbox" self] by auto
  have len: "length ms = length ?mine + length ?others" by (induction ms) auto
  have fresh: "fresh_names draw 0 (length ?mine + length ?others) fs" using assms(9) len by simp
  have dm: "\<forall>m\<in>set ?mine. deliverable m" and other_ok: "\<forall>m\<in>set ?others. deliverable m" using assms(8) by auto
  note mine = deliver_self_loop_run [where k = 0 and draw = draw and cur = "vec_new zero_mailbox" and str = "fu @ ''@'' @ fd" and now = now,
      OF assms(2,5) text_cells(1,2) assms(1) dm fresh vec_new_ok, simplified text_cells(3)]
  have m: "deliver_self_loop md now draw (Some f) (fu @ ''@'' @ fd) (Some text_cells) (v_size (pr_mail_data s)) 0 ?mine fs (vec_new zero_mailbox) = Some (?fs1, True)"
    "store_ok root ?fs1" "fresh_names draw (length ?mine) (length ?others) ?fs1"
    using mine text_cells(1) by simp_all
  show thesis
  proof (cases "?others = []")
    case True
    have "v_size others = 0" using vec_cells [OF split(2)] split(4) True by (metis list.size(3))
    then show thesis
      using that [of s1 "[]"] s1 m text_cells cells split assms(4,7) f True
      by (simp add: send_mail_def smtp_get_sender_def smtp_get_rcpt_def post_def domains_def Let_def)
  next
    case False
    have ne: "v_size others \<noteq> 0" using vec_cells [OF split(2)] split(4) False by (metis length_0_conv)
    have "\<forall>m\<in>set ?others. short_domain m" using other_ok by (auto simp: short_domain_def TABLE_MAX_KEY_LENGTH_def elim!: deliverableD)
    then obtain t keys where t: "run_inputs table_file [] ?others = Some t" "table_keys (Some t) (vec_new []) = Some (keys, True)"
      "distinct (elems keys)" "Some ` set (elems keys) = server_name ` set ?others"
      "\<forall>d\<in>set (elems keys). \<exists>v. table_get (Some t) (Some d) = Some v \<and> vec_ok v \<and> elems v = filter (\<lambda>m. server_name m = Some d) ?others"
      by (rule table_groups) blast
    have doms: "set (elems keys) = domains ?others"
    proof -
      have "set (elems keys) = the ` Some ` set (elems keys)" by (simp add: image_image)
      then show ?thesis unfolding t(4) domains_def by (simp add: image_image)
    qed
    have "length (elems keys) \<le> length ?others"
      using card_domains [of ?others] doms distinct_card [OF t(3)] by simp
    then obtain r where "length ?others = length (elems keys) + r" by (metis le_add_diff_inverse)
    then have fk: "fresh_names draw (length ?mine) (length (elems keys)) ?fs1" using m(3) fresh_names_split by metis
    have grp: "\<forall>d\<in>set (elems keys). Some d \<in> server_name ` set ?others
        \<and> (\<exists>v. table_get (Some t) (Some d) = Some v \<and> vec_ok v \<and> elems v = on_server ?others d)"
      using t(4,5) unfolding on_server_def by blast
    note others = deliver_foreign_loop_run [where k = "length ?mine" and draw = draw and str = "fu @ ''@'' @ fd" and now = now,
        OF assms(2,5) text_cells(1,2) other_ok m(2) fk grp, simplified text_cells(3)]
    show thesis
      using that [of s1 "elems keys"] s1 m text_cells(1,3) cells split ne assms(4,7) f t(2,3) fill_table_eq [OF t(1)] others doms
      by (simp add: send_mail_def smtp_get_sender_def smtp_get_rcpt_def post_def Let_def table_init_def)
  qed
qed

section \<open>Lines of a session\<close>

text \<open>One line handled for a user, without the reply.\<close>

definition mail_line :: "mail_env \<Rightarrow> user_context \<times> fs \<Rightarrow> string \<Rightarrow> (user_context \<times> fs) ub" where
  "mail_line env st line = do { (user', fs', _) \<leftarrow> handler_smtp env (fst st) line (snd st); Some (user', fs') }"

lemma smtp_step_parse:
  assumes "c_string l" "smtp_step s l = Some s'"
  obtains b e where "smtp_parse (Some s) (Some l) (Some err_fresh) = Some (Some s', pr_status s', b, e)"
  using assms by (auto simp: smtp_step_def smtp_parse_def c_string_id bind_eq_Some_conv split: option.splits if_splits)

lemma mail_line_quiet:
  assumes "c_string l" "smtp_step (uc_smtp user) l = Some s'" "pr_status s' \<in> {SMTP_STATUS_OK, SMTP_STATUS_WARNING, SMTP_STATUS_CONTINUE}"
  shows "mail_line env (user, fs) l = Some (user\<lparr>uc_smtp := s'\<rparr>, fs)"
proof -
  obtain b e where "smtp_parse (Some (uc_smtp user)) (Some l) (Some err_fresh) = Some (Some s', pr_status s', b, e)"
    by (rule smtp_step_parse [OF assms(1,2)])
  then show ?thesis using assms(3) by (auto simp: mail_line_def handler_smtp_def Let_def)
qed

text \<open>Commands of a transaction, answered at once and without an effect on the mail store or the greeting.\<close>

definition quiet_command :: "string \<Rightarrow> bool" where
  "quiet_command l \<longleftrightarrow> (\<exists>c. line_command l c \<and> cmd_type c \<in> {SMTP_MAILFROM, SMTP_RCPTTO, SMTP_DATA})"

lemma run_command_quiet:
  assumes "run_command s c = Some (s', r)" "cmd_type c \<in> {SMTP_MAILFROM, SMTP_RCPTTO, SMTP_DATA}"
  shows "r \<in> {SMTP_STATUS_OK, SMTP_STATUS_WARNING} \<and> pr_hello_addr s' = pr_hello_addr s"
  using assms
  by (auto simp: run_command_def pr_smtp_command_mailfrom_def pr_smtp_command_rcpto_def pr_smtp_command_data_def
      smtp_make_response_def bind_eq_Some_conv split: if_splits)

lemma response_hello: "smtp_make_response s code msg = Some s' \<Longrightarrow> pr_hello_addr s' = pr_hello_addr s"
  by (auto simp: smtp_make_response_def bind_eq_Some_conv split: if_splits)

lemma command_line_quiet:
  assumes "parse_command_line s l = Some (s', r)" "line_command l c" "cmd_type c \<in> {SMTP_MAILFROM, SMTP_RCPTTO, SMTP_DATA}" "smtp_inv s"
  shows "r \<in> {SMTP_STATUS_OK, SMTP_STATUS_WARNING} \<and> pr_hello_addr s' = pr_hello_addr s"
proof -
  from assms(2) have l: "c_string l" "\<not> blank l" "command_of (trimmed l) = Some c" by (simp_all add: line_command_def)
  from assms(4) l(1,2) obtain b n c' where
    p: "pr_smtp_command_parse s l = Some (s\<lparr>pr_buffer := b, pr_bsize := n\<rparr>, c')" "command_of (trimmed l) = Some c'"
    by (rule command_parse_run)
  have c: "c' = c" using p(2) l(3) by simp
  have t: "cmd_type c \<noteq> SMTP_INVALID_COMMAND" using assms(3) by auto
  show ?thesis
  proof (cases "autofsm_step (pr_fsm_state s) (cmd_event c) = AUTOFSM_ST_INVALID")
    case True
    then show ?thesis using assms(1) t p(1) response_hello
      by (fastforce simp: parse_command_line_def c Let_def bind_eq_Some_conv)
  next
    case False
    then obtain s1 where "run_command (s\<lparr>pr_buffer := b, pr_bsize := n\<rparr>) c = Some (s1, r)"
      "s' = s1\<lparr>pr_fsm_state := autofsm_step (pr_fsm_state s) (cmd_event c)\<rparr>"
      using assms(1) t p(1) by (auto simp: parse_command_line_def c Let_def bind_eq_Some_conv)
    then show ?thesis using run_command_quiet [OF _ assms(3)] by fastforce
  qed
qed

lemma data_line_hello:
  "parse_data_line s l = Some (s', r) \<Longrightarrow> pr_hello_addr s' = pr_hello_addr s"
  by (auto simp: parse_data_line_def bind_eq_Some_conv Let_def dest: response_hello split: if_splits)

lemma data_end_no_command: "line_command SMTP_DATA_END c \<Longrightarrow> cmd_type c = SMTP_INVALID_COMMAND"
proof -
  have "map_option cmd_type (command_of (trimmed SMTP_DATA_END)) = Some SMTP_INVALID_COMMAND" by code_simp
  then show "line_command SMTP_DATA_END c \<Longrightarrow> cmd_type c = SMTP_INVALID_COMMAND" by (simp add: line_command_def)
qed

lemma step_quiet:
  assumes "smtp_step s l = Some s'" "smtp_inv s" "quiet_command l \<or> pr_fsm_state s = AUTOFSM_ST_READ_DATA \<and> c_string l \<and> l \<noteq> SMTP_DATA_END"
  shows "c_string l \<and> pr_status s' \<in> {SMTP_STATUS_OK, SMTP_STATUS_WARNING, SMTP_STATUS_CONTINUE} \<and> pr_hello_addr s' = pr_hello_addr s"
proof -
  have l: "c_string l" "l \<noteq> SMTP_DATA_END"
    using assms(3) data_end_no_command by (auto simp: quiet_command_def line_command_def)
  show ?thesis
  proof (cases "pr_fsm_state s = AUTOFSM_ST_READ_DATA")
    case True
    with assms(1) l obtain t r where t: "parse_data_line s l = Some (t, r)" "s' = t\<lparr>pr_status := r\<rparr>"
      by (auto simp: smtp_step_def smtp_parse_def c_string_id bind_eq_Some_conv split: option.splits if_splits)
    then show ?thesis using l data_line_hello [OF t(1)] by (auto simp: parse_data_line_def bind_eq_Some_conv)
  next
    case False
    with assms(3) obtain c where c: "line_command l c" "cmd_type c \<in> {SMTP_MAILFROM, SMTP_RCPTTO, SMTP_DATA}"
      by (auto simp: quiet_command_def)
    from False assms(1) l obtain t r where t: "parse_command_line s l = Some (t, r)" "s' = t\<lparr>pr_status := r\<rparr>"
      by (auto simp: smtp_step_def smtp_parse_def c_string_id bind_eq_Some_conv split: option.splits if_splits)
    then show ?thesis using l command_line_quiet [OF t(1) c assms(2)] by auto
  qed
qed

lemma smtp_step_inv: "smtp_step s l = Some s' \<Longrightarrow> smtp_inv s \<Longrightarrow> smtp_inv s'"
  using smtp.step_defined [of s l] smtp.step_undefined [of s l] by (cases "smtp_pre s l") auto

lemma mail_lines_commands:
  "run_inputs smtp_step (uc_smtp user) ls = Some s' \<Longrightarrow> smtp_inv (uc_smtp user) \<Longrightarrow> \<forall>l\<in>set ls. quiet_command l \<Longrightarrow>
   run_inputs (mail_line env) (user, fs) ls = Some (user\<lparr>uc_smtp := s'\<rparr>, fs) \<and> pr_hello_addr s' = pr_hello_addr (uc_smtp user)"
proof (induction ls arbitrary: user)
  case (Cons l ls)
  from Cons.prems(1) obtain s1 where s1: "smtp_step (uc_smtp user) l = Some s1" "run_inputs smtp_step s1 ls = Some s'"
    by (auto split: option.splits)
  have inv: "smtp_inv s1" by (rule smtp_step_inv [OF s1(1) Cons.prems(2)])
  have q: "c_string l" "pr_status s1 \<in> {SMTP_STATUS_OK, SMTP_STATUS_WARNING, SMTP_STATUS_CONTINUE}" "pr_hello_addr s1 = pr_hello_addr (uc_smtp user)"
    using step_quiet [OF s1(1) Cons.prems(2)] Cons.prems(3) by simp_all
  show ?case using Cons.IH [of "user\<lparr>uc_smtp := s1\<rparr>"] s1(2) inv Cons.prems(3) q(3) mail_line_quiet [OF q(1) s1(1) q(2), of env fs] by simp
qed simp

lemma mail_lines_body:
  "run_inputs smtp_step (uc_smtp user) ls = Some s' \<Longrightarrow> smtp_inv (uc_smtp user) \<Longrightarrow>
   pr_fsm_state (uc_smtp user) = AUTOFSM_ST_READ_DATA \<Longrightarrow> \<forall>l\<in>set ls. c_string l \<and> l \<noteq> SMTP_DATA_END \<Longrightarrow>
   run_inputs (mail_line env) (user, fs) ls = Some (user\<lparr>uc_smtp := s'\<rparr>, fs) \<and> pr_hello_addr s' = pr_hello_addr (uc_smtp user)"
proof (induction ls arbitrary: user)
  case (Cons l ls)
  from Cons.prems(1) obtain s1 where s1: "smtp_step (uc_smtp user) l = Some s1" "run_inputs smtp_step s1 ls = Some s'"
    by (auto split: option.splits)
  have l: "c_string l" "l \<noteq> SMTP_DATA_END" using Cons.prems(4) by simp_all
  from step_body [OF Cons.prems(2,3) l(1)] s1(1) l(2) have inv: "smtp_inv s1" "pr_fsm_state s1 = AUTOFSM_ST_READ_DATA" by auto
  have q: "pr_status s1 \<in> {SMTP_STATUS_OK, SMTP_STATUS_WARNING, SMTP_STATUS_CONTINUE}" "pr_hello_addr s1 = pr_hello_addr (uc_smtp user)"
    using step_quiet [OF s1(1) Cons.prems(2)] Cons.prems(3) l by simp_all
  show ?case using Cons.IH [of "user\<lparr>uc_smtp := s1\<rparr>"] s1(2) inv Cons.prems(4) q(2) mail_line_quiet [OF l(1) s1(1) q(1), of env fs] by simp
qed simp

lemma transaction_quiet:
  assumes "line_command m (mail_cmd f)" "list_all2 (\<lambda>buf x. line_command buf (rcpt_cmd x)) rs xs" "line_command d pr_smtp_data_proc"
  shows "\<forall>l\<in>set (m # rs @ [d]). quiet_command l"
proof -
  have "\<forall>l\<in>set rs. \<exists>x. line_command l (rcpt_cmd x)" using assms(2) by (induction rule: list_all2_induct) auto
  moreover have "cmd_type (mail_cmd f) = SMTP_MAILFROM" "cmd_type (rcpt_cmd x) = SMTP_RCPTTO" "cmd_type pr_smtp_data_proc = SMTP_DATA" for x
    by (simp_all add: mail_cmd_def rcpt_cmd_def pr_smtp_data_proc_def plain_command_def)
  ultimately show ?thesis using assms(1,3) unfolding quiet_command_def by fastforce
qed

text \<open>A mailbox in an accepted command is one of the pattern, hence made of names without a slash.\<close>

lemma command_mailbox_valid:
  assumes "line_command l c" "cmd_arg c = ArgMailbox x"
  shows "valid_mailbox x"
proof -
  from assms(1) have l: "c_string l" "command_of (trimmed l) = Some c" by (simp_all add: line_command_def)
  let ?t = "trimmed l"
  have d: "c_string (drop n ?t)" for n using l(1) trimmed_subset [of l] by (intro c_string_drop) (auto simp: c_string_def)
  have plain: "cmd_arg (plain_command t e) = ArgNull" for t e by (simp add: plain_command_def)
  consider (hello) so eo where "regexec RE_HELLO ?t = Some (so, eo)"
    | (mail) so eo where "regexec RE_HELLO ?t = None" "regexec RE_MAIL_FROM ?t = Some (so, eo)"
    | (rcpt) so eo where "regexec RE_HELLO ?t = None" "regexec RE_MAIL_FROM ?t = None" "regexec RE_RCPT_TO ?t = Some (so, eo)"
    | (other) "regexec RE_HELLO ?t = None" "regexec RE_MAIL_FROM ?t = None" "regexec RE_RCPT_TO ?t = None"
    by (metis option.exhaust surj_pair)
  then show ?thesis
  proof cases
    case hello
    then have "pr_smtp_hello_proc (drop eo ?t) = Some c" using l(2) by (simp add: command_of_def)
    then have "cmd_arg c \<noteq> ArgMailbox x"
      by (auto simp: pr_smtp_hello_proc_def Let_def bind_eq_Some_conv split: option.splits)
    then show ?thesis using assms(2) by simp
  next
    case mail
    then have "pr_smtp_mailfrom_proc (drop eo ?t) = Some c" using l(2) by (simp add: command_of_def)
    then show ?thesis using assms(2) path_mailbox_valid by (auto simp: mailfrom_proc_run [OF d] split: if_splits)
  next
    case rcpt
    then have "pr_smtp_rcptto_proc (drop eo ?t) = Some c" using l(2) by (simp add: command_of_def)
    then show ?thesis using assms(2) path_mailbox_valid by (auto simp: rcptto_proc_run [OF d] split: if_splits)
  next
    case other
    then have "cmd_arg c = ArgNull" using l(2)
      by (auto simp: command_of_def pr_smtp_data_proc_def pr_smtp_rset_proc_def pr_smtp_vrfy_proc_def pr_smtp_expn_proc_def
          pr_smtp_help_proc_def pr_smtp_noop_proc_def pr_smtp_quit_proc_def plain split: if_splits)
    then show ?thesis using assms(2) by simp
  qed
qed

definition short_names :: "smtp_mailbox \<Rightarrow> bool" where
  "short_names m \<longleftrightarrow> length (the (user_name m)) < 255 \<and> length (the (server_name m)) < TABLE_MAX_KEY_LENGTH"

definition greeted :: "smtp_state \<Rightarrow> bool" where
  "greeted s \<longleftrightarrow> (\<exists>a. pr_hello_addr s = Some a \<and> addr_address a \<noteq> NULL)"

lemma check_server_name_run:
  "greeted (uc_smtp user) \<Longrightarrow> check_server_name aton nameinfo user \<noteq> UB"
  by (auto simp: check_server_name_def greeted_def smtp_get_hello_addr_def Let_def)

lemma recipients_loop_run:
  assumes "j + n \<le> length cells" "\<forall>m\<in>set (take n (drop j cells)). full_mailbox m" "vec_ok v"
  shows "\<exists>v'. recipients_loop cells j n v = Some v' \<and> vec_ok v'"
  using assms
proof (induction n arbitrary: j v)
  case (Suc n)
  have j: "j < length cells" using Suc.prems(1) by simp
  then have d: "drop j cells = cells ! j # drop (Suc j) cells" by (rule Cons_nth_drop_Suc [symmetric])
  from Suc.prems(2) d have "full_mailbox (cells ! j)" by simp
  then obtain u s where m: "user_name (cells ! j) = Some u" "server_name (cells ! j) = Some s" by (auto simp: full_mailbox_def)
  from vec.push_all_E [OF Suc.prems(3), of NUL "'' -- '' @ u @ ''@'' @ s @ [CHR 0x0A]"] obtain w where
    w: "run_inputs (vec_push NUL) v ('' -- '' @ u @ ''@'' @ s @ [CHR 0x0A]) = Some w" "vec_ok w" by blast
  show ?case using Suc.IH [OF _ _ w(2), of "Suc j"] Suc.prems(1,2) d m w(1) j by (simp add: arr_get_nat)
qed simp

lemma recipients_to_string_run:
  assumes "vec_ok v" "\<forall>m\<in>set (elems v). full_mailbox m"
  shows "recipients_to_string v \<noteq> UB"
proof -
  obtain cells where c: "v_array v = Some cells" "v_size v \<le> length cells" "take (v_size v) cells = elems v" by (rule vec_cells [OF assms(1)])
  then show ?thesis using recipients_loop_run [of 0 "v_size v" cells "vec_new NUL"] assms(2)
    by (auto simp: recipients_to_string_def)
qed

text \<open>The final dot: what has been read is delivered.\<close>

lemma data_end_step:
  assumes "smtp_inv s" "pr_fsm_state s = AUTOFSM_ST_READ_DATA"
  obtains s' b e where "smtp_parse (Some s) (Some SMTP_DATA_END) (Some err_fresh) = Some (Some s', SMTP_STATUS_DATA_END, b, e)"
    "smtp_inv s'" "pr_rcpt_list s' = pr_rcpt_list s" "pr_mail_from s' = pr_mail_from s" "pr_mail_data s' = pr_mail_data s"
    "pr_fsm_state s' = AUTOFSM_ST_CLIENT_INIT" "pr_hello_addr s' = pr_hello_addr s" "pr_status s' = SMTP_STATUS_DATA_END"
proof -
  have c: "c_string SMTP_DATA_END" by (simp add: SMTP_DATA_END_def NUL_def)
  from step_body [OF assms c] obtain s' where s': "smtp_step s SMTP_DATA_END = Some s'" "smtp_inv s'"
    "pr_rcpt_list s' = pr_rcpt_list s" "pr_mail_from s' = pr_mail_from s" "pr_status s' = SMTP_STATUS_DATA_END"
    "pr_fsm_state s' = AUTOFSM_ST_CLIENT_INIT" "pr_mail_data s' = pr_mail_data s" by auto
  from assms(2) s'(1) c obtain t r where t: "parse_data_line s SMTP_DATA_END = Some (t, r)" "s' = t\<lparr>pr_status := r\<rparr>"
    by (auto simp: smtp_step_def smtp_parse_def c_string_id bind_eq_Some_conv split: option.splits)
  obtain b e where p: "smtp_parse (Some s) (Some SMTP_DATA_END) (Some err_fresh) = Some (Some s', pr_status s', b, e)"
    by (rule smtp_step_parse [OF c s'(1)])
  show thesis by (rule that [OF p [unfolded s'(5)] s'(2-4,7,6) _ s'(5)]) (use data_line_hello [OF t(1)] t(2) in simp)
qed

lemma data_end_delivers:
  assumes "smtp_inv (uc_smtp user)" "pr_fsm_state (uc_smtp user) = AUTOFSM_ST_READ_DATA" "greeted (uc_smtp user)"
    "pr_mail_from (uc_smtp user) = Some f" "c_mailbox f" "elems (pr_rcpt_list (uc_smtp user)) = xs" "xs \<noteq> []"
    "\<forall>x\<in>set xs. deliverable x" "maildir_at (me_md env) root" "store_ok root fs" "fresh_names (me_draw env) 0 (length xs) fs"
    "elems (pr_mail_data (uc_smtp user)) = txt"
  obtains s' ds where "handler_smtp env user SMTP_DATA_END fs
      = Some (user\<lparr>uc_smtp := s'\<rparr>, post root (me_self env) (me_now env) f txt (first_name (me_draw env)) xs ds fs,
          \<lparr>pair_buffer = pr_buffer s', pair_status = SMTP_STATUS_DATA_END\<rparr>)"
    "distinct ds" "set ds = domains (filter (\<lambda>x. server_name x \<noteq> Some (me_self env)) xs)"
    "store_ok root (post root (me_self env) (me_now env) f txt (first_name (me_draw env)) xs ds fs)"
    "c_str (pr_buffer s') = Some (reply 250 SMTP_CODE_OK_MSG)" "pr_fsm_state s' = AUTOFSM_ST_CLIENT_INIT" "smtp_inv s'"
proof -
  obtain s1 b e where s1: "smtp_parse (Some (uc_smtp user)) (Some SMTP_DATA_END) (Some err_fresh) = Some (Some s1, SMTP_STATUS_DATA_END, b, e)"
    "smtp_inv s1" "pr_rcpt_list s1 = pr_rcpt_list (uc_smtp user)" "pr_mail_from s1 = pr_mail_from (uc_smtp user)"
    "pr_mail_data s1 = pr_mail_data (uc_smtp user)" "pr_fsm_state s1 = AUTOFSM_ST_CLIENT_INIT"
    "pr_hello_addr s1 = pr_hello_addr (uc_smtp user)" "pr_status s1 = SMTP_STATUS_DATA_END"
    by (rule data_end_step [OF assms(1,2)])
  let ?fs = "\<lambda>ds. post root (me_self env) (me_now env) f txt (first_name (me_draw env)) xs ds fs"
  have from1: "pr_mail_from s1 = Some f" using s1(4) assms(4) by simp
  have rc1: "elems (pr_rcpt_list s1) = xs" using s1(3) assms(6) by simp
  obtain s2 ds where s2: "send_mail (me_md env) (me_self env) (me_now env) (me_draw env) s1 fs = Some (s2, ?fs ds, True)"
    "distinct ds" "set ds = domains (filter (\<lambda>x. server_name x \<noteq> Some (me_self env)) xs)" "store_ok root (?fs ds)"
    "smtp_inv s2" "pr_rcpt_list s2 = pr_rcpt_list s1" "pr_mail_from s2 = pr_mail_from s1" "elems (pr_mail_data s2) = []"
    "pr_fsm_state s2 = pr_fsm_state s1" "pr_status s2 = pr_status s1"
    by (rule send_mail_run [where self = "me_self env" and now = "me_now env",
        OF assms(10,9) s1(2) from1 assms(5) rc1 assms(7,8,11), unfolded s1(5) assms(12)])
  obtain s3 where s3: "smtp_make_response s2 250 SMTP_CODE_OK_MSG = Some s3" "smtp_inv s3" "pr_fsm_state s3 = pr_fsm_state s2"
    "c_str (pr_buffer s3) = Some (reply 250 SMTP_CODE_OK_MSG)"
    by (rule response_inv [OF s2(5), of SMTP_CODE_OK_MSG 250]) auto
  have "greeted s1" using assms(3) s1(7) by (simp add: greeted_def)
  then have "check_server_name (me_aton env) (me_nameinfo env) (user\<lparr>uc_smtp := s1\<rparr>) \<noteq> UB" by (intro check_server_name_run) simp
  then obtain c where c: "check_server_name (me_aton env) (me_nameinfo env) (user\<lparr>uc_smtp := s1\<rparr>) = Some c" by blast
  have "recipients_to_string (pr_rcpt_list s1) \<noteq> UB"
    using s1(2) by (intro recipients_to_string_run) (simp_all add: smtp_inv_def)
  then obtain r where r: "recipients_to_string (pr_rcpt_list s1) = Some r" by blast
  obtain u where u: "user_name f = Some u" using assms(5) by (auto simp: c_mailbox_def)
  have "handler_smtp env user SMTP_DATA_END fs = Some (user\<lparr>uc_smtp := s3\<rparr>, ?fs ds, \<lparr>pair_buffer = pr_buffer s3, pair_status = SMTP_STATUS_DATA_END\<rparr>)"
    using s1(1) c r u from1 s2(1) s3(1)
    by (simp add: handler_smtp_def Let_def smtp_get_rcpt_def smtp_get_sender_def)
  then show thesis by (rule that [OF _ s2(2-4)]) (use s3 s2(9) s1(6) in simp_all)
qed

lemma mail_line_data_end:
  assumes "smtp_inv (uc_smtp user)" "pr_fsm_state (uc_smtp user) = AUTOFSM_ST_READ_DATA" "greeted (uc_smtp user)"
    "pr_mail_from (uc_smtp user) = Some f" "c_mailbox f" "elems (pr_rcpt_list (uc_smtp user)) = xs" "xs \<noteq> []"
    "\<forall>x\<in>set xs. deliverable x" "maildir_at (me_md env) root" "store_ok root fs" "fresh_names (me_draw env) 0 (length xs) fs"
    "elems (pr_mail_data (uc_smtp user)) = txt"
  obtains user' ds where "mail_line env (user, fs) SMTP_DATA_END
      = Some (user', post root (me_self env) (me_now env) f txt (first_name (me_draw env)) xs ds fs)"
    "distinct ds" "set ds = domains (filter (\<lambda>x. server_name x \<noteq> Some (me_self env)) xs)"
    "store_ok root (post root (me_self env) (me_now env) f txt (first_name (me_draw env)) xs ds fs)"
    "c_str (pr_buffer (uc_smtp user')) = Some (reply 250 SMTP_CODE_OK_MSG)" "pr_fsm_state (uc_smtp user') = AUTOFSM_ST_CLIENT_INIT"
    "smtp_inv (uc_smtp user')"
  by (rule data_end_delivers [OF assms]) (auto simp: mail_line_def intro: that)

lemma mail_session_lines:
  assumes "smtp_inv (uc_smtp user)" "pr_fsm_state (uc_smtp user) = AUTOFSM_ST_CLIENT_INIT"
    "line_command m (mail_cmd sender)" "list_all2 (\<lambda>buf x. line_command buf (rcpt_cmd x)) rs xs" "rs \<noteq> []"
    "line_command d pr_smtp_data_proc" "\<forall>l\<in>set ls. c_string l \<and> l \<noteq> SMTP_DATA_END"
  obtains s where "run_inputs (mail_line env) (user, fs) (m # rs @ d # ls) = Some (user\<lparr>uc_smtp := s\<rparr>, fs)" "smtp_inv s"
    "pr_fsm_state s = AUTOFSM_ST_READ_DATA" "pr_mail_from s = sender" "elems (pr_rcpt_list s) = xs"
    "elems (pr_mail_data s) = concat ls" "pr_hello_addr s = pr_hello_addr (uc_smtp user)"
proof -
  obtain s1 s2 where t: "run_inputs smtp_step (uc_smtp user) (m # rs @ [d]) = Some s1" "smtp_inv s1" "pr_fsm_state s1 = AUTOFSM_ST_READ_DATA"
    "run_inputs smtp_step s1 ls = Some s2" "smtp_inv s2" "pr_fsm_state s2 = AUTOFSM_ST_READ_DATA"
    "pr_mail_from s2 = sender" "elems (pr_rcpt_list s2) = xs" "elems (pr_mail_data s2) = concat ls"
    by (rule transaction_lines [OF assms])
  have 1: "run_inputs (mail_line env) (user, fs) (m # rs @ [d]) = Some (user\<lparr>uc_smtp := s1\<rparr>, fs)" "pr_hello_addr s1 = pr_hello_addr (uc_smtp user)"
    using mail_lines_commands [OF t(1) assms(1) transaction_quiet [OF assms(3,4,6)], of env fs] by simp_all
  have 2: "run_inputs (mail_line env) (user\<lparr>uc_smtp := s1\<rparr>, fs) ls = Some (user\<lparr>uc_smtp := s2\<rparr>, fs)" "pr_hello_addr s2 = pr_hello_addr s1"
    using mail_lines_body [of "user\<lparr>uc_smtp := s1\<rparr>" ls s2 env fs] t assms(7) by simp_all
  have "m # rs @ d # ls = (m # rs @ [d]) @ ls" by simp
  then have "run_inputs (mail_line env) (user, fs) (m # rs @ d # ls) = Some (user\<lparr>uc_smtp := s2\<rparr>, fs)"
    using 1 2 by (simp only: run_inputs_append option.case)
  then show thesis by (rule that [OF _ t(5-9)]) (use 1 2 in simp)
qed

lemma list_all2_right: "list_all2 P xs ys \<Longrightarrow> (\<And>x y. P x y \<Longrightarrow> Q y) \<Longrightarrow> \<forall>y\<in>set ys. Q y"
  by (induction rule: list_all2_induct) auto

text \<open>A whole transaction, line by line.\<close>

lemma transaction_delivers:
  assumes "smtp_inv (uc_smtp user)" "pr_fsm_state (uc_smtp user) = AUTOFSM_ST_CLIENT_INIT" "greeted (uc_smtp user)"
    "line_command m (mail_cmd (Some f))" "list_all2 (\<lambda>buf x. line_command buf (rcpt_cmd x)) rs xs" "rs \<noteq> []"
    "line_command d pr_smtp_data_proc" "\<forall>l\<in>set ls. c_string l \<and> l \<noteq> SMTP_DATA_END"
    "maildir_at (me_md env) root" "store_ok root fs" "\<forall>x\<in>set xs. short_names x"
    "fresh_names (me_draw env) 0 (length xs) fs"
  shows "\<exists>user' fs' ds. run_inputs (mail_line env) (user, fs) (m # rs @ d # ls @ [SMTP_DATA_END]) = Some (user', fs')
     \<and> fs' = post root (me_self env) (me_now env) f (concat ls) (first_name (me_draw env)) xs ds fs
     \<and> distinct ds \<and> set ds = domains (filter (\<lambda>x. server_name x \<noteq> Some (me_self env)) xs)
     \<and> store_ok root fs' \<and> smtp_inv (uc_smtp user') \<and> pr_fsm_state (uc_smtp user') = AUTOFSM_ST_CLIENT_INIT
     \<and> c_str (pr_buffer (uc_smtp user')) = Some (reply 250 SMTP_CODE_OK_MSG)"
proof -
  obtain s where s: "run_inputs (mail_line env) (user, fs) (m # rs @ d # ls) = Some (user\<lparr>uc_smtp := s\<rparr>, fs)" "smtp_inv s"
    "pr_fsm_state s = AUTOFSM_ST_READ_DATA" "pr_mail_from s = Some f" "elems (pr_rcpt_list s) = xs"
    "elems (pr_mail_data s) = concat ls" "pr_hello_addr s = pr_hello_addr (uc_smtp user)"
    by (rule mail_session_lines [OF assms(1,2,4-8)])
  have "c_mailbox f" using command_mailbox_valid [OF assms(4)] by (simp add: mail_cmd_def)
  moreover have "xs \<noteq> []" using assms(5,6) by auto
  moreover have "\<forall>x\<in>set xs. deliverable x"
    using list_all2_right [OF assms(5), of valid_mailbox] command_mailbox_valid assms(11)
    by (auto simp: deliverable_def short_names_def rcpt_cmd_def)
  moreover have "greeted s" using assms(3) s(7) by (simp add: greeted_def)
  ultimately obtain user' ds where l: "mail_line env (user\<lparr>uc_smtp := s\<rparr>, fs) SMTP_DATA_END
      = Some (user', post root (me_self env) (me_now env) f (concat ls) (first_name (me_draw env)) xs ds fs)"
    "distinct ds" "set ds = domains (filter (\<lambda>x. server_name x \<noteq> Some (me_self env)) xs)"
    "store_ok root (post root (me_self env) (me_now env) f (concat ls) (first_name (me_draw env)) xs ds fs)"
    "c_str (pr_buffer (uc_smtp user')) = Some (reply 250 SMTP_CODE_OK_MSG)" "pr_fsm_state (uc_smtp user') = AUTOFSM_ST_CLIENT_INIT"
    "smtp_inv (uc_smtp user')"
    using s mail_line_data_end [of "user\<lparr>uc_smtp := s\<rparr>" f xs env root fs "concat ls", OF _ _ _ _ _ _ _ _ assms(9,10,12)] by auto
  have "m # rs @ d # ls @ [SMTP_DATA_END] = (m # rs @ d # ls) @ [SMTP_DATA_END]" by simp
  then have "run_inputs (mail_line env) (user, fs) (m # rs @ d # ls @ [SMTP_DATA_END])
      = Some (user', post root (me_self env) (me_now env) f (concat ls) (first_name (me_draw env)) xs ds fs)"
    using s(1) l(1) by (simp only: run_inputs_append option.case run_inputs.simps)
  then show ?thesis using l(2-) by blast
qed

section \<open>Properties\<close>

text \<open>
  C4: Mail that is accepted is delivered. For a greeted connection, the lines of a whole
  transaction handled one by one by \<open>handler_smtp\<close> end with the reply 250 and with exactly this
  change of the mail store: every recipient at this server has, in its mailbox (which is made when
  it is missing), one new file with its headers and the text; and every other server that occurs
  among the recipients, each once, has one new file whose headers name all its recipients. Nothing
  else changes, the store keeps its structure and the next transaction can start. The names fit
  their buffers and the drawn file names are new; the mail store has its directory for other servers.
\<close>

theorem accepted_mail_is_delivered:
  assumes "smtp_inv (uc_smtp user)" "pr_fsm_state (uc_smtp user) = AUTOFSM_ST_CLIENT_INIT" "greeted (uc_smtp user)"
    "line_command m (mail_cmd (Some f))" "list_all2 (\<lambda>buf x. line_command buf (rcpt_cmd x)) rs xs" "rs \<noteq> []"
    "line_command d pr_smtp_data_proc" "\<forall>l\<in>set ls. c_string l \<and> l \<noteq> SMTP_DATA_END"
    "maildir_at (me_md env) root" "store_ok root fs" "\<forall>x\<in>set xs. short_names x"
    "fresh_names (me_draw env) 0 (length xs) fs"
  shows "\<exists>user' fs' ds. run_inputs (mail_line env) (user, fs) (m # rs @ d # ls @ [SMTP_DATA_END]) = Some (user', fs')
     \<and> fs' = post root (me_self env) (me_now env) f (concat ls) (first_name (me_draw env)) xs ds fs
     \<and> distinct ds \<and> set ds = domains (filter (\<lambda>x. server_name x \<noteq> Some (me_self env)) xs)
     \<and> store_ok root fs' \<and> smtp_inv (uc_smtp user') \<and> pr_fsm_state (uc_smtp user') = AUTOFSM_ST_CLIENT_INIT
     \<and> c_str (pr_buffer (uc_smtp user')) = Some (reply 250 SMTP_CODE_OK_MSG)"
  by (rule transaction_delivers [OF assms])

definition demo_store :: fs where
  "demo_store = \<lparr>fs_nodes = [[] \<mapsto> Dir, [''md''] \<mapsto> Dir, [''md'', ''.OTHER_SERVERS''] \<mapsto> Dir], fs_cwd = []\<rparr>"

text \<open>The clock stands at 5 and the random number of the \<open>k\<close>-th file is \<open>k\<close>.\<close>

definition demo_env :: mail_env where
  "demo_env = \<lparr>me_md = demo_md, me_self = ''y.z'', me_now = 5, me_draw = (\<lambda>k _. (5, int k)), me_aton = (\<lambda>_. None), me_nameinfo = (\<lambda>_. None)\<rparr>"

definition demo_client :: "smtp_address ptr \<Rightarrow> user_context" where
  "demo_client a = \<lparr>uc_smtp = fresh_smtp\<lparr>pr_fsm_state := AUTOFSM_ST_CLIENT_INIT, pr_hello_addr := a\<rparr>, uc_buffer = vec_new NUL,
     uc_read_buffer = [], uc_write_buffer = vec_new NUL, uc_socket = 4, uc_addr = \<lparr>ca_ip = ''1.2.3.4'', ca_port = 7\<rparr>\<rparr>"

definition demo_address :: smtp_address where
  "demo_address = \<lparr>addr_address = Some ''c.d'', addr_type = SMTP_ADDRESS_TYPE_DOMAIN\<rparr>"

lemma demo_store_ok: "store_ok [''md''] demo_store" "maildir_at demo_md [''md'']"
proof -
  have "fs_ok demo_store" by (auto simp: fs_ok_def demo_store_def append_eq_Cons_conv)
  then show "store_ok [''md''] demo_store"
    using valid_login_not_servers by (auto simp: store_ok_def demo_store_def server_dir_def)
  show "maildir_at demo_md [''md'']"
    by (simp add: demo_md_def maildir_at_def join_path_def file_name_def entry_name_def c_string_def NUL_def)
qed

lemma demo_client_ok:
  "smtp_inv (uc_smtp (demo_client a))" "pr_fsm_state (uc_smtp (demo_client a)) = AUTOFSM_ST_CLIENT_INIT"
  "pr_hello_addr (uc_smtp (demo_client a)) = a" "greeted (uc_smtp (demo_client (Some demo_address)))"
proof -
  have "smtp_inv (fresh_smtp\<lparr>pr_fsm_state := AUTOFSM_ST_CLIENT_INIT\<rparr>)" by (rule fresh_smtp_inv) simp
  then show "smtp_inv (uc_smtp (demo_client a))" by (simp add: demo_client_def smtp_inv_def)
qed (simp_all add: demo_client_def greeted_def demo_address_def)

lemma demo_names: "first_name (\<lambda>k _. (5, int k)) 0 = ''5_0''" "first_name (\<lambda>k _. (5, int k)) (Suc 0) = ''5_1''"
  "pr_maildir_message_filename_generate (5, 0) = ''5_0''" "pr_maildir_message_filename_generate (5, 1) = ''5_1''"
  by (simp_all add: pr_maildir_message_filename_generate_def dec_string_int_def dec_string.simps digit_char_def)

lemma demo_fresh: "fresh_names (\<lambda>k _. (5, int k)) 0 2 demo_store"
proof -
  have "{0..<0 + 2::nat} = {0, Suc 0}" by auto
  moreover have "unused ''5_0'' demo_store" "unused ''5_1'' demo_store"
    by (auto simp: unused_def demo_store_def append_eq_Cons_conv)
  ultimately show ?thesis unfolding fresh_names_def by (simp only: demo_names ball_simps inj_on_def) (simp add: demo_names)
qed

lemma demo_foreign_line: "line_command (crlf ''RCPT TO:<p@q.r>'') (rcpt_cmd \<lparr>user_name = Some ''p'', server_name = Some ''q.r''\<rparr>)"
  by code_simp

theorem accepted_mail_is_delivered_witness:
  "\<exists>user' fs'. run_inputs (mail_line demo_env) (demo_client (Some demo_address), demo_store)
       [crlf ''MAIL FROM:<a@b.c>'', crlf ''RCPT TO:<x@y.z>'', crlf ''RCPT TO:<p@q.r>'', crlf ''DATA'', crlf ''hi'', SMTP_DATA_END]
     = Some (user', fs')
     \<and> fs_nodes fs' [''md'', ''x'', ''new'', ''5_0''] = Some (File (crlf ''X-Postman-From: a@b.c'' @ crlf ''X-Postman-Date: 5''
           @ crlf ''X-Postman-To: x@y.z'' @ crlf '''' @ crlf ''hi''))
     \<and> fs_nodes fs' [''md'', ''.OTHER_SERVERS'', ''q.r'', ''5_1''] = Some (File (crlf ''X-Postman-From: a@b.c'' @ crlf ''X-Postman-Date: 5''
           @ crlf ''X-Postman-To: p@q.r'' @ crlf '''' @ crlf ''hi''))
     \<and> c_str (pr_buffer (uc_smtp user')) = Some (reply 250 SMTP_CODE_OK_MSG)"
proof -
  let ?xs = "[\<lparr>user_name = Some ''x'', server_name = Some ''y.z''\<rparr>, \<lparr>user_name = Some ''p'', server_name = Some ''q.r''\<rparr>]"
  let ?rs = "[crlf ''RCPT TO:<x@y.z>'', crlf ''RCPT TO:<p@q.r>'']"
  have rs: "list_all2 (\<lambda>buf x. line_command buf (rcpt_cmd x)) ?rs ?xs" using demo_lines(2) demo_foreign_line by simp
  have ls: "\<forall>l\<in>set [crlf ''hi'']. c_string l \<and> l \<noteq> SMTP_DATA_END"
    by (simp add: crlf_def SMTP_DATA_END_def SMTP_COMMAND_END_def NUL_def)
  have md: "maildir_at (me_md demo_env) [''md'']" using demo_store_ok by (simp add: demo_env_def)
  have sn: "\<forall>x\<in>set ?xs. short_names x" by (simp add: short_names_def TABLE_MAX_KEY_LENGTH_def)
  have fr: "fresh_names (me_draw demo_env) 0 (length ?xs) demo_store" using demo_fresh by (simp add: demo_env_def numeral_eq_Suc)
  from accepted_mail_is_delivered [OF demo_client_ok(1,2,4) demo_lines(1) rs _ demo_lines(3) ls md demo_store_ok(1) sn fr]
  obtain user' fs' ds where t: "run_inputs (mail_line demo_env) (demo_client (Some demo_address), demo_store)
      (crlf ''MAIL FROM:<a@b.c>'' # ?rs @ crlf ''DATA'' # [crlf ''hi''] @ [SMTP_DATA_END]) = Some (user', fs')"
    "fs' = post [''md''] (me_self demo_env) (me_now demo_env) \<lparr>user_name = Some ''a'', server_name = Some ''b.c''\<rparr> (concat [crlf ''hi''])
       (first_name (me_draw demo_env)) ?xs ds demo_store"
    "distinct ds" "set ds = domains (filter (\<lambda>x. server_name x \<noteq> Some (me_self demo_env)) ?xs)"
    "c_str (pr_buffer (uc_smtp user')) = Some (reply 250 SMTP_CODE_OK_MSG)" by auto
  have "set ds = {''q.r''}" using t(4) by (simp add: domains_def demo_env_def)
  with t(3) have ds: "ds = [''q.r'']" by (cases ds; cases "tl ds") auto
  have "fs_nodes fs' [''md'', ''x'', ''new'', ''5_0''] = Some (File (crlf ''X-Postman-From: a@b.c'' @ crlf ''X-Postman-Date: 5''
           @ crlf ''X-Postman-To: x@y.z'' @ crlf '''' @ crlf ''hi''))"
    "fs_nodes fs' [''md'', ''.OTHER_SERVERS'', ''q.r'', ''5_1''] = Some (File (crlf ''X-Postman-From: a@b.c'' @ crlf ''X-Postman-Date: 5''
           @ crlf ''X-Postman-To: p@q.r'' @ crlf '''' @ crlf ''hi''))"
    unfolding t(2) ds
    by (simp_all add: post_def Let_def demo_env_def with_user_def with_server_def demo_store_def post_local_def post_foreign_def on_server_def demo_names header_text_def address_def
        dec_string_int_def dec_string.simps digit_char_def crlf_def server_dir_def)
  then show ?thesis using t(1,5) by simp
qed

text \<open>
  C5: A session that can crash the server. When the sender is empty (\<open>MAIL FROM:<>\<close> is accepted)
  or the greeting was rejected (which nevertheless advances the automaton), the lines of an
  otherwise ordinary transaction run into undefined behaviour at the final dot: \<open>handler_smtp\<close>
  dereferences the null sender, \<open>check_server_name\<close> compares the null address with \<open>strcmp\<close>.
\<close>

theorem null_sender_or_greeting_crashes:
  assumes "smtp_inv (uc_smtp user)" "pr_fsm_state (uc_smtp user) = AUTOFSM_ST_CLIENT_INIT"
    "line_command m (mail_cmd sender)" "list_all2 (\<lambda>buf x. line_command buf (rcpt_cmd x)) rs xs" "rs \<noteq> []"
    "line_command d pr_smtp_data_proc" "\<forall>l\<in>set ls. c_string l \<and> l \<noteq> SMTP_DATA_END"
    "sender = NULL \<or> pr_hello_addr (uc_smtp user) = NULL"
  shows "run_inputs (mail_line env) (user, fs) (m # rs @ d # ls @ [SMTP_DATA_END]) = UB"
proof -
  obtain s where s: "run_inputs (mail_line env) (user, fs) (m # rs @ d # ls) = Some (user\<lparr>uc_smtp := s\<rparr>, fs)" "smtp_inv s"
    "pr_fsm_state s = AUTOFSM_ST_READ_DATA" "pr_mail_from s = sender" "elems (pr_rcpt_list s) = xs"
    "elems (pr_mail_data s) = concat ls" "pr_hello_addr s = pr_hello_addr (uc_smtp user)"
    by (rule mail_session_lines [OF assms(1-7)])
  obtain s1 b e where s1: "smtp_parse (Some s) (Some SMTP_DATA_END) (Some err_fresh) = Some (Some s1, SMTP_STATUS_DATA_END, b, e)"
    "smtp_inv s1" "pr_rcpt_list s1 = pr_rcpt_list s" "pr_mail_from s1 = pr_mail_from s" "pr_mail_data s1 = pr_mail_data s"
    "pr_fsm_state s1 = AUTOFSM_ST_CLIENT_INIT" "pr_hello_addr s1 = pr_hello_addr s" "pr_status s1 = SMTP_STATUS_DATA_END"
    by (rule data_end_step [OF s(2,3)])
  have "check_server_name (me_aton env) (me_nameinfo env) (user\<lparr>uc_smtp := s1\<rparr>) = UB" if "pr_hello_addr s1 = NULL"
    using that by (simp add: check_server_name_def smtp_get_hello_addr_def Let_def)
  moreover have "pr_mail_from s1 = NULL \<or> pr_hello_addr s1 = NULL" using assms(8) s(4,7) s1(4,7) by auto
  ultimately have l: "mail_line env (user\<lparr>uc_smtp := s\<rparr>, fs) SMTP_DATA_END = UB"
    using s1(1) by (auto simp: mail_line_def handler_smtp_def Let_def smtp_get_sender_def bind_eq_None_conv)
  have "m # rs @ d # ls @ [SMTP_DATA_END] = (m # rs @ d # ls) @ [SMTP_DATA_END]" by simp
  then show ?thesis using s(1) l by (simp only: run_inputs_append option.case run_inputs.simps)
qed

theorem null_sender_or_greeting_crashes_witness:
  "run_inputs (mail_line demo_env) (demo_client (Some demo_address), demo_store)
     [crlf ''MAIL FROM:<>'', crlf ''RCPT TO:<x@y.z>'', crlf ''DATA'', SMTP_DATA_END] = UB
   \<and> run_inputs (mail_line demo_env) (demo_client NULL, demo_store)
     [crlf ''MAIL FROM:<a@b.c>'', crlf ''RCPT TO:<x@y.z>'', crlf ''DATA'', SMTP_DATA_END] = UB"
proof -
  have 1: "line_command (crlf ''MAIL FROM:<>'') (mail_cmd NULL)" by code_simp
  have 2: "list_all2 (\<lambda>buf x. line_command buf (rcpt_cmd x)) [crlf ''RCPT TO:<x@y.z>''] [\<lparr>user_name = Some ''x'', server_name = Some ''y.z''\<rparr>]"
    using demo_lines(2) by simp
  from null_sender_or_greeting_crashes [OF demo_client_ok(1,2) 1 2 _ demo_lines(3), of "[]" "Some demo_address" demo_env demo_store]
    null_sender_or_greeting_crashes [OF demo_client_ok(1,2) demo_lines(1) 2 _ demo_lines(3), of "[]" NULL demo_env demo_store]
  show ?thesis using demo_client_ok(3) [of NULL] by simp
qed

text \<open>
  A mail store without its directory for other servers crashes the server. \<open>maildir_init\<close> accepts
  any existing directory as a mail store and makes nothing in it. For a message to another server,
  looking that server up then fails with NOT_FOUND, making it fails too, and the failure is not
  noticed: the server object has no mail store, and \<open>maildir_server_user\<close> dereferences it.
\<close>

theorem missing_servers_directory_crashes:
  assumes "fs_ok fs" "maildir_at md root" "fs_nodes fs root = Some Dir" "fs_nodes fs (root @ [''.OTHER_SERVERS'']) = None"
    "valid_domain d" "length d < 255"
  shows "(\<exists>md'. maildir_init True fs (Some md) (Some (join_path root)) NULL = Some (fs, Some md', NULL, True) \<and> maildir_at md' root)
    \<and> deliver_foreign md now draw sender str message n table d fs = UB"
proof
  have names: "\<forall>n\<in>set root. file_name n" using assms(2) by (simp add: maildir_at_def)
  have "\<forall>n\<in>set root. entry_name n" using names unfolding file_name_def by blast
  then have c: "comps (join_path root) = root" by simp
  have "join_path root \<noteq> [] \<and> hd (join_path root) = CHR ''/''" by (cases root) (simp_all add: join_path_def)
  then have r: "resolve fs (join_path root) = root" using c by (simp add: resolve_def)
  then have o: "posix_opendir fs (join_path root) = None" using assms(3) by (intro opendir_dir) simp
  have "pr_maildir_relative_to_absolute_path True fs md (join_path root) NULL = (md\<lparr>pr_path := Some (join_path root)\<rparr>, NULL, True)"
    using assms(3) r by (simp add: pr_maildir_relative_to_absolute_path_def posix_realpath_def s_malloc_def err_simps)
  then show "\<exists>md'. maildir_init True fs (Some md) (Some (join_path root)) NULL = Some (fs, Some md', NULL, True) \<and> maildir_at md' root"
    using o names by (auto simp: maildir_init_def pr_maildir_check_root_structure_def err_simps maildir_at_def)
next
  let ?p = "join_path root @ SERVERS_ROOT_NAME_PART @ d"
  have e: "server_dir root d = (root @ [''.OTHER_SERVERS'']) @ [d]" by (simp add: server_dir_def)
  have none: "fs_nodes fs (server_dir root d) = None" unfolding e by (rule fs_ok_absent_below [OF assms(1,4)])
  have r: "resolve fs ?p = server_dir root d" using resolve_servers(2) [OF assms(2)] assms(5) by simp
  have "\<not> (case fs_nodes fs p of Some (File c) \<Rightarrow> True | _ \<Rightarrow> False)" if "p \<in> set (proper_prefixes (server_dir root d))" for p
  proof -
    have "\<exists>q. root @ [''.OTHER_SERVERS''] = p @ q" by (rule proper_prefixes_append [OF that [unfolded e]])
    then obtain q where q: "root @ [''.OTHER_SERVERS''] = p @ q" by (elim exE)
    show ?thesis
    proof (cases q rule: rev_cases)
      case Nil
      with q assms(4) show ?thesis by (metis append_Nil2 option.simps(4))
    next
      case (snoc q' x)
      with q have "root = p @ q'" by simp
      then have "fs_nodes fs p = Some Dir" using fs_ok_prefix [OF assms(1)] assms(3) by blast
      then show ?thesis by simp
    qed
  qed
  then have ab: "absent_errno fs (server_dir root d) = ENOENT" by (auto simp: absent_errno_def)
  let ?s = "maildir_server_default_init server_blank"
  have g: "maildir_get_server True fs (Some md) (Some ?s) d (Some err_fresh)
    = Some (Some ?s, err_report NOT_FOUND MAILDIR_SERVER_NOT_FOUND (ERROR_SUCCESS (Some err_fresh)), False)"
    using get_server_run [OF assms(2) _ assms(6), of fs ?s "Some err_fresh"] assms(5) none ab by (simp add: posix_opendir_def r)
  have "parent_errno fs (server_dir root d) \<noteq> None" using assms(4) by (simp add: parent_errno_def server_dir_def butlast_append)
  then obtain x where x: "posix_mkdir fs ?p = (fs, Some x)" using none by (auto simp: posix_mkdir_def r Let_def)
  have "c_string (join_path root)" using assms(2) c_string_join_path by (simp add: maildir_at_def)
  then have "pr_maildir_char_concatenate True 3 [join_path root, SERVERS_ROOT_NAME_PART, d] = Some (Some ?p)"
    using char_concatenate_run [of "[join_path root, SERVERS_ROOT_NAME_PART, d]"] valid_domain_file_name [OF assms(5)]
    by (simp add: eval_nat_numeral)
  then have "maildir_create_server True fs (Some md) (Some ?s) d er
    = Some (fs, Some ?s, err_report_errno x MAILDIR_ERROR_CREATE_DIRECTORY (ERROR_SUCCESS er), False)" for er
    using assms(2) x by (simp add: maildir_create_server_def maildir_at_def)
  with g have "find_or_create_server md fs (Some ?s) d (Some err_fresh)
    = Some (fs, Some ?s, err_report_errno x MAILDIR_ERROR_CREATE_DIRECTORY
        (ERROR_SUCCESS (err_report NOT_FOUND MAILDIR_SERVER_NOT_FOUND (ERROR_SUCCESS (Some err_fresh)))), True)"
    by (simp add: find_or_create_server_def err_simps)
  then show "deliver_foreign md now draw sender str message n table d fs = UB"
    by (simp add: deliver_foreign_def Let_def maildir_server_user_def maildir_server_default_init_def server_blank_def
        maildir_server_is_self_def err_simps maildir_user_default_init_def)
qed

definition demo_bare_store :: fs where
  "demo_bare_store = \<lparr>fs_nodes = [[] \<mapsto> Dir, [''md''] \<mapsto> Dir], fs_cwd = []\<rparr>"

theorem missing_servers_directory_crashes_witness:
  "deliver_foreign demo_md 5 (\<lambda>_. (5, 0)) NULL ''a@b.c'' NULL 0 [] ''q.r'' demo_bare_store = UB"
proof -
  have "fs_ok demo_bare_store" by (auto simp: fs_ok_def demo_bare_store_def append_eq_Cons_conv)
  moreover have "valid_domain ''q.r''" by (simp add: valid_domain_def is_alnum_def is_alpha_def is_digit_def)
  ultimately show ?thesis
    using missing_servers_directory_crashes [OF _ demo_store_ok(2), of demo_bare_store "''q.r''" 5 "\<lambda>_. (5, 0)" NULL "''a@b.c''" NULL 0 "[]"]
    by (simp add: demo_bare_store_def)
qed

end
