(* ===== verification/Server.thy ===== *)
theory Server
  imports EventLoop Timers Delivery
begin

text \<open>
  The server \<open>server/src/lib/server/server.c\<close> on top of the event loop: the handlers that accept
  a connection, read and answer its lines and close it, over a state that extends the loop by the
  connected users, their timers, the file system and the descriptors that were closed. Memory can
  be allocated. A buffer in an event is the array behind the pointer that the code passes. The
  errors of the registration functions are only logged, and are dropped here.
\<close>

section \<open>State\<close>

record server = event_loop +
  sv_users :: users_list
  sv_timers :: timers_t
  sv_fs :: fs
  sv_closed :: "int list"

text \<open>
  What the handlers read: the configuration, the clock, uninitialised memory for a new context, and
  for the \<open>k\<close>-th line handled in one call the environment of its delivery.
\<close>

record server_env =
  env_hello_msg :: string
  env_timer_period :: int
  env_now :: int
  env_memory :: user_context
  env_mail :: "nat \<Rightarrow> mail_env"

definition POSTMAN_TIMEOUT_OF_TIMER :: "32 word" where "POSTMAN_TIMEOUT_OF_TIMER = 15"

text \<open>The addresses of the handlers.\<close>

definition HANDLER_ACCEPT :: fptr where "HANDLER_ACCEPT = 1"
definition HANDLER_HELLO_WRITE :: fptr where "HANDLER_HELLO_WRITE = 2"
definition HANDLER_READ :: fptr where "HANDLER_READ = 3"
definition HANDLER_WRITE :: fptr where "HANDLER_WRITE = 4"
definition HANDLER_TIMER :: fptr where "HANDLER_TIMER = 5"
definition HANDLER_TIMEOUT_WRITE :: fptr where "HANDLER_TIMEOUT_WRITE = 6"
definition HANDLER_CLOSE_SOCKET :: fptr where "HANDLER_CLOSE_SOCKET = 7"

section \<open>Calls of the event loop\<close>

definition async_read :: "server \<Rightarrow> int \<Rightarrow> string ptr \<Rightarrow> fptr \<Rightarrow> server ub" where
  "async_read s sock buffer handler =
     do { (p, _, _) \<leftarrow> el_async_read True mem_ok (Some s) sock buffer TEMPORARY_BUFFER_SIZE handler (Some err_fresh); p }"

definition async_write :: "server \<Rightarrow> int \<Rightarrow> string ptr \<Rightarrow> int \<Rightarrow> fptr \<Rightarrow> server ub" where
  "async_write s sock buffer bsize handler =
     do { (p, _, _) \<leftarrow> el_async_write True mem_ok (Some s) sock buffer bsize handler (Some err_fresh); p }"

definition touch :: "server_env \<Rightarrow> int \<Rightarrow> server \<Rightarrow> server" where
  "touch env sock s = s\<lparr>sv_timers := timers_update_by_socket (env_now env) (sv_timers s) sock\<rparr>"

section \<open>Connections\<close>

definition user_init :: "user_context ptr \<Rightarrow> sockaddr_in ptr \<Rightarrow> int \<Rightarrow> user_context ptr \<times> bool" where
  "user_init context addr sock =
     (case context of
        NULL \<Rightarrow> (NULL, False)
      | Some c \<Rightarrow>
          (case smtp_init (Some (uc_smtp c)) (Some err_fresh) of
             (smtp, _, e1) \<Rightarrow>
               let c1 = c\<lparr>uc_smtp := the smtp\<rparr> in
               if failed_p e1 then (Some c1, False)
               else (case VECTOR_INIT True NUL (Some (uc_buffer c1)) (the e1) of
                 (v, e2) \<Rightarrow>
                   let c2 = c1\<lparr>uc_buffer := the v\<rparr> in
                   if failed e2 then (Some c2, False)
                   else (case VECTOR_INIT True NUL (Some (uc_write_buffer c2)) e2 of
                     (w, e3) \<Rightarrow>
                       let c3 = c2\<lparr>uc_write_buffer := the w\<rparr> in
                       if failed e3 then (Some c3, False)
                       else (case get_addr addr (Some e3) of
                         (a, e4) \<Rightarrow> (Some (c3\<lparr>uc_socket := sock, uc_addr := a\<rparr>), \<not> failed_p e4))))))"

definition handler_accept :: "server_env \<Rightarrow> server \<Rightarrow> int \<Rightarrow> sockaddr_in \<Rightarrow> server ub" where
  "handler_accept env s client_socket client_addr =
     (case user_init (Some (env_memory env)) (Some client_addr) client_socket of
        (context, False) \<Rightarrow> Some s
      | (context, True) \<Rightarrow>
          do {
            c \<leftarrow> context;
            (users, _, _) \<leftarrow> users_list__add True (sv_users s) c;
            s1 \<leftarrow> async_write (s\<lparr>sv_users := users\<rparr>) client_socket (Some (env_hello_msg env)) (int (length (env_hello_msg env))) HANDLER_HELLO_WRITE;
            timers \<leftarrow> timers_make_for_socket True (env_now env) (sv_timers s1) client_socket;
            let (p, _, _, _) = el_timer True (env_now env) (Some (s1\<lparr>sv_timers := timers\<rparr>)) client_socket POSTMAN_TIMEOUT_OF_TIMER HANDLER_TIMER True (Some err_fresh);
            p
          })"

text \<open>The descriptor of the socket is not closed here.\<close>

definition user_disconnected :: "server \<Rightarrow> int \<Rightarrow> server ub" where
  "user_disconnected s sock =
     (case users_list__user_find_by_sock (sv_users s) accessor_empty sock of
        (users, acc, False) \<Rightarrow> Some (s\<lparr>sv_users := users\<rparr>)
      | (users, acc, True) \<Rightarrow>
          do {
            u \<leftarrow> acc_user acc;
            _ \<leftarrow> user_free (acc_user (users_list__delete_user acc));
            Some (s\<lparr>sv_users := users, sv_timers := timers_remove_for_socket (sv_timers s) sock\<rparr>)
          })"

text \<open>
  The handler of the greeting in two steps, since it registers the next read while it still holds the
  context: other threads can see the registration before the context is back in the list. The first
  step returns the accessor if the user was found.
\<close>

definition hello_register :: "server_env \<Rightarrow> server \<Rightarrow> int \<Rightarrow> (server \<times> user_accessor option) ub" where
  "hello_register env s client_socket =
     (let s1 = touch env client_socket s in
      case users_list__user_find_by_sock (sv_users s1) accessor_empty client_socket of
        (users, acc, False) \<Rightarrow> Some (s1\<lparr>sv_users := users\<rparr>, None)
      | (users, acc, True) \<Rightarrow>
          do {
            u \<leftarrow> acc_user acc;
            s2 \<leftarrow> async_read (s1\<lparr>sv_users := users\<rparr>) client_socket (Some (uc_read_buffer u)) HANDLER_READ;
            Some (s2, Some acc)
          })"

definition hello_release :: "server_env \<Rightarrow> server \<Rightarrow> int \<Rightarrow> user_accessor option \<Rightarrow> server" where
  "hello_release env s client_socket acc =
     (case acc of
        None \<Rightarrow> touch env client_socket s
      | Some a \<Rightarrow>
          let (users, _) = user_accessor_release (sv_users s) (Some a)
          in touch env client_socket (s\<lparr>sv_users := users\<rparr>))"

definition handler_hello_write :: "server_env \<Rightarrow> server \<Rightarrow> int \<Rightarrow> client_status \<Rightarrow> server ub" where
  "handler_hello_write env s client_socket status =
     (if status = DISCONNECTED then user_disconnected s client_socket
      else do {
        (s1, acc) \<leftarrow> hello_register env s client_socket;
        Some (hello_release env s1 client_socket acc)
      })"

text \<open>After the reply to QUIT the connection is closed, otherwise the next line is read.\<close>

definition handler_write :: "server_env \<Rightarrow> server \<Rightarrow> int \<Rightarrow> client_status \<Rightarrow> server ub" where
  "handler_write env s client_socket status =
     (if status = DISCONNECTED then user_disconnected s client_socket
      else
        (let s1 = touch env client_socket s in
         case users_list__user_find_by_sock (sv_users s1) accessor_empty client_socket of
           (users, acc, False) \<Rightarrow> Some (touch env client_socket (s1\<lparr>sv_users := users\<rparr>))
         | (users, acc, True) \<Rightarrow>
             do {
               u \<leftarrow> acc_user acc;
               s2 \<leftarrow>
                 (if smtp_get_status (uc_smtp u) = SMTP_STATUS_EXIT then
                    do {
                      _ \<leftarrow> user_free (Some u);
                      Some (s1\<lparr>sv_users := users, sv_closed := sv_closed s1 @ [client_socket],
                               sv_timers := timers_remove_for_socket (sv_timers s1) client_socket\<rparr>)
                    }
                  else
                    (let (users', _) = user_accessor_release users (Some acc) in
                     async_read (s1\<lparr>sv_users := users'\<rparr>) client_socket (Some (uc_read_buffer u)) HANDLER_READ));
               Some (touch env client_socket s2)
             }))"

section \<open>Reading lines\<close>

text \<open>\<open>str\<close> points into the array \<open>cells\<close>.\<close>

definition is_line_and :: "string \<Rightarrow> int \<Rightarrow> bool ub" where
  "is_line_and cells str =
     do {
       c \<leftarrow> arr_get cells str;
       (if c \<noteq> CHR 0x0D then Some False
        else do { d \<leftarrow> arr_get cells (str + 1); Some (d = CHR 0x0A) })
     }"

definition VECTOR_iterator :: "char vector \<Rightarrow> sub_str_iterator" where
  "VECTOR_iterator v = \<lparr>itr_begin = 0, itr_end = 0, itr_str = v_array v, itr_str_len = int (v_size v),
                        itr_sep = Some SMTP_COMMAND_END, itr_sep_len = 2\<rparr>"

text \<open>
  The loop over the lines of the buffer, from its \<open>k\<close>-th line. It is left with a line that is
  answered or the last one, with an incomplete line, or still running when \<open>fuel\<close> is used up.
\<close>

datatype lines_end =
    Answered user_context fs smtp_pair sub_str_iterator
  | Incomplete user_context fs sub_str_iterator
  | Running

fun line_loop :: "(nat \<Rightarrow> mail_env) \<Rightarrow> nat \<Rightarrow> nat \<Rightarrow> sub_str_iterator \<Rightarrow> user_context \<Rightarrow> fs \<Rightarrow> lines_end ub" where
  "line_loop env 0 k itr user fs = Some Running"
| "line_loop env (Suc fuel) k itr user fs =
     do {
       (p, _) \<leftarrow> sub_str_iterate (Some itr);
       itr' \<leftarrow> p;
       cells \<leftarrow> v_array (uc_buffer user);
       line \<leftarrow> is_line_and cells (itr_end itr' - 2);
       (if line then
          do {
            cells' \<leftarrow> arr_set cells (itr_end itr') NUL;
            message \<leftarrow> c_str (Some (drop (nat (itr_begin itr')) cells'));
            (user', fs', answer) \<leftarrow> handler_smtp (env k) user message fs;
            (if pair_status answer = SMTP_STATUS_CONTINUE \<and> itr_end itr' \<noteq> itr_str_len itr'
             then line_loop env fuel (Suc k) itr' user' fs'
             else Some (Answered user' fs' answer itr'))
          }
        else Some (Incomplete user fs itr'))
     }"

text \<open>
  The incomplete line at the end is moved to the front, byte by byte through the pointer to the
  array as it was when the vector held \<open>cap\<close> cells.
\<close>

fun move_front :: "nat \<Rightarrow> nat \<Rightarrow> nat \<Rightarrow> char vector \<Rightarrow> char vector ub" where
  "move_front cap j 0 v = Some v"
| "move_front cap j (Suc n) v =
     (if v_allocated v \<noteq> cap then UB
      else do {
        cells \<leftarrow> v_array v;
        c \<leftarrow> arr_get cells (int j);
        v' \<leftarrow> vec_push NUL v c;
        move_front cap (Suc j) n v'
      })"

definition keep_incomplete :: "sub_str_iterator \<Rightarrow> char vector \<Rightarrow> char vector ub" where
  "keep_incomplete itr v =
     (if itr_begin itr \<noteq> 0
      then move_front (v_allocated v) (nat (itr_begin itr)) (nat (itr_end itr - itr_begin itr)) (VECTOR_CLEAR v)
      else Some v)"

text \<open>The bytes that were read, as many as the event says.\<close>

definition received_bytes :: "string \<Rightarrow> int \<Rightarrow> string ub" where
  "received_bytes buffer n = (if n \<le> int (length buffer) then Some (take (nat n) buffer) else UB)"

text \<open>
  What \<open>handler_read\<close> does with the bytes: the new context and file system, and the reply to write
  or null. \<open>Running\<close> cannot be the result, since each turn takes at least one byte of the buffer.
\<close>

definition read_bytes :: "(nat \<Rightarrow> mail_env) \<Rightarrow> user_context \<Rightarrow> fs \<Rightarrow> string \<Rightarrow> (user_context \<times> fs \<times> string ptr) ub" where
  "read_bytes env user fs bytes =
     do {
       buf \<leftarrow> run_inputs (vec_push NUL) (uc_buffer user) bytes;
       r \<leftarrow> line_loop env (Suc (v_size buf)) 0 (VECTOR_iterator buf) (user\<lparr>uc_buffer := buf\<rparr>) fs;
       (case r of
          Answered user' fs' answer itr \<Rightarrow>
            Some (user'\<lparr>uc_buffer := VECTOR_CLEAR (uc_buffer user')\<rparr>, fs', pair_buffer answer)
        | Incomplete user' fs' itr \<Rightarrow>
            do { buf' \<leftarrow> keep_incomplete itr (uc_buffer user'); Some (user'\<lparr>uc_buffer := buf'\<rparr>, fs', NULL) }
        | Running \<Rightarrow> UB)
     }"

definition handler_read :: "server_env \<Rightarrow> server \<Rightarrow> int \<Rightarrow> string \<Rightarrow> int \<Rightarrow> client_status \<Rightarrow> server ub" where
  "handler_read env s client_socket buffer n status =
     (if status = DISCONNECTED then user_disconnected s client_socket
      else
        (let s1 = touch env client_socket s in
         case users_list__user_find_by_sock (sv_users s1) accessor_empty client_socket of
           (users, acc, False) \<Rightarrow> Some (s1\<lparr>sv_users := users\<rparr>)
         | (users, acc, True) \<Rightarrow>
             do {
               u \<leftarrow> acc_user acc;
               bytes \<leftarrow> received_bytes buffer n;
               (u1, fs1, answer) \<leftarrow> read_bytes (env_mail env) u (sv_fs s1) bytes;
               let (users', _) = user_accessor_release users (Some (acc\<lparr>acc_user := Some u1\<rparr>));
               let s2 = s1\<lparr>sv_users := users', sv_fs := fs1\<rparr>;
               s3 \<leftarrow>
                 (case answer of
                    Some b \<Rightarrow> do { t \<leftarrow> c_str (Some b); async_write s2 client_socket (Some b) (int (length t)) HANDLER_WRITE }
                  | NULL \<Rightarrow> async_read s2 client_socket (Some (uc_read_buffer u1)) HANDLER_READ);
               Some (touch env client_socket s3)
             }))"

section \<open>Timeouts\<close>

definition handler_close_socket :: "server \<Rightarrow> int \<Rightarrow> server ub" where
  "handler_close_socket s sock = user_disconnected s sock"

text \<open>\<open>el_socket_close\<close> closes the descriptor of the socket, which only the state of the server records.\<close>

definition handler_write_msg_of_close_connection_by_timeout :: "server \<Rightarrow> int \<Rightarrow> server ub" where
  "handler_write_msg_of_close_connection_by_timeout s client_socket =
     do {
       (p, _, _) \<leftarrow> el_socket_close True True (Some s) client_socket HANDLER_CLOSE_SOCKET (Some err_fresh);
       s1 \<leftarrow> p;
       Some (s1\<lparr>sv_closed := sv_closed s1 @ [client_socket]\<rparr>)
     }"

definition timeout_response :: string where
  "timeout_response = dec_string 421 @ '' '' @ SMTP_CODE_CLOSE_CONNECTION_BY_TIMEOUT_MSG"

definition handler_timer :: "server_env \<Rightarrow> server \<Rightarrow> int \<Rightarrow> nat \<Rightarrow> server ub" where
  "handler_timer env s sock descriptor =
     (if \<not> timers_is_exist_for_socket (sv_timers s) sock then do { (s1, _) \<leftarrow> el_timer_free s descriptor; Some s1 }
      else do {
        elapsed \<leftarrow> timers_is_elapsed_for_socket (env_now env) (sv_timers s) sock (env_timer_period env);
        (if \<not> elapsed then Some s
         else if \<not> users_list__is_exist (Some (sv_users s)) sock then Some s
         else do {
           (s1, _) \<leftarrow> el_timer_free s descriptor;
           async_write s1 sock (Some timeout_response) (int (length timeout_response)) HANDLER_TIMEOUT_WRITE
         })
      })"

section \<open>The handlers of the server\<close>

fun server_handlers :: "server_env \<Rightarrow> handler_call \<Rightarrow> server \<Rightarrow> server ub" where
  "server_handlers env (CallAccept h acceptor client_socket client_addr e) s =
     (if h = HANDLER_ACCEPT then handler_accept env s client_socket client_addr else UB)"
| "server_handlers env (CallRead h sock buffer n status e) s =
     (if h = HANDLER_READ then handler_read env s sock buffer n status else UB)"
| "server_handlers env (CallWrite h sock buffer n writing status e) s =
     (if h = HANDLER_HELLO_WRITE then handler_hello_write env s sock status
      else if h = HANDLER_WRITE then handler_write env s sock status
      else if h = HANDLER_TIMEOUT_WRITE then handler_write_msg_of_close_connection_by_timeout s sock
      else UB)"
| "server_handlers env (CallClose h sock e) s = (if h = HANDLER_CLOSE_SOCKET then handler_close_socket s sock else UB)"
| "server_handlers env (CallTimer h sock descriptor) s = (if h = HANDLER_TIMER then handler_timer env s sock descriptor else UB)"

section \<open>The lines of a buffer\<close>

text \<open>The iterator over the first \<open>n\<close> cells of an array, between two of its results.\<close>

definition vec_itr :: "string \<Rightarrow> nat \<Rightarrow> nat \<Rightarrow> nat \<Rightarrow> sub_str_iterator" where
  "vec_itr cells n b e = \<lparr>itr_begin = int b, itr_end = int e, itr_str = Some cells, itr_str_len = int n,
                          itr_sep = Some SMTP_COMMAND_END, itr_sep_len = 2\<rparr>"

lemma vec_itr_simps [simp]:
  "itr_begin (vec_itr cells n b e) = int b" "itr_end (vec_itr cells n b e) = int e" "itr_str_len (vec_itr cells n b e) = int n"
  by (simp_all add: vec_itr_def)

lemma VECTOR_iterator_start: "v_array v = Some cells \<Longrightarrow> VECTOR_iterator v = vec_itr cells (v_size v) 0 0"
  by (simp add: VECTOR_iterator_def vec_itr_def)

lemma find_first_loop_take:
  "i + k \<le> n \<Longrightarrow> n \<le> length cells \<Longrightarrow>
   find_first_loop (take n cells) sq l k (int i) j = find_first_loop cells sq l k (int i) j"
proof (induction k arbitrary: i j)
  case (Suc k)
  have "arr_get (take n cells) (int i) = arr_get cells (int i)" using Suc.prems by (simp add: arr_get_nat)
  moreover have "find_first_loop (take n cells) sq l k (int i + 1) j' = find_first_loop cells sq l k (int i + 1) j'" for j'
    using Suc.IH [of "Suc i" j'] Suc.prems by (simp add: add.commute)
  ultimately show ?case by (cases "arr_get cells (int i)"; cases "arr_get sq j") simp_all
qed simp

lemma find_first_entry_take:
  "n \<le> length cells \<Longrightarrow> find_first_entry_str (take n cells) sq (int n) l = find_first_entry_str cells sq (int n) l"
  using find_first_loop_take [of 0 n n cells sq l 0] by (simp add: find_first_entry_str_def)

text \<open>Whatever is in the buffer, the end moves forward over a line end, or to the end of the buffer.\<close>

lemma iterate_any:
  assumes "b \<le> e" "e \<le> n" "n \<le> length cells"
  obtains e' where "sub_str_iterate (Some (vec_itr cells n b e)) = Some (Some (vec_itr cells n e e'), True)"
    "e' \<le> n" "e' = n \<or> e + 2 \<le> e'"
proof -
  let ?r = "drop e (take n cells)"
  have l: "int n - int e = int (length ?r)" using assms by simp
  from find_first_entry_sound [of SMTP_COMMAND_END ?r] obtain r where
    r: "find_first_entry_str ?r SMTP_COMMAND_END (int (length ?r)) 2 = Some r" "r = - 1 \<or> 0 \<le> r \<and> occurs_at SMTP_COMMAND_END (nat r) ?r"
    by (auto simp: SMTP_COMMAND_END_def)
  have f: "find_first_entry_str (drop e cells) SMTP_COMMAND_END (int n - int e) 2 = Some r"
    using r(1) find_first_entry_take [of "n - e" "drop e cells" SMTP_COMMAND_END 2] assms by (simp add: drop_take of_nat_diff)
  show thesis
  proof (cases "r = - 1")
    case True
    show thesis by (rule that [of n]) (use f True assms in \<open>simp_all add: sub_str_iterate_def vec_itr_def\<close>)
  next
    case False
    with r(2) have p: "0 \<le> r" "nat r + 2 \<le> n - e" using assms by (auto simp: occurs_at_def SMTP_COMMAND_END_def)
    show thesis by (rule that [of "e + nat r + 2"]) (use f False p assms in \<open>auto simp: sub_str_iterate_def vec_itr_def\<close>)
  qed
qed

text \<open>Without two CRs in a row it is the next line.\<close>

lemma iterate_line:
  assumes "b \<le> e" "e \<le> n" "n \<le> length cells" "no_cr_cr (take n cells)"
  shows "sub_str_iterate (Some (vec_itr cells n b e)) = Some (Some (vec_itr cells n e (e + line_len (drop e (take n cells)))), True)"
proof -
  have t: "find_first_entry_str (drop e cells) SMTP_COMMAND_END (int n - int e) 2
      = find_first_entry_str (drop e (take n cells)) SMTP_COMMAND_END (int n - int e) 2"
    using find_first_entry_take [of "n - e" "drop e cells" SMTP_COMMAND_END 2] assms by (simp add: drop_take of_nat_diff)
  have l: "length (take n cells) = n" using assms(3) by simp
  show ?thesis
    using sub_str_iterate_crlf [OF assms(4,1)] assms(1-3) unfolding l t [symmetric]
    by (cases "find_first_entry_str (drop e cells) SMTP_COMMAND_END (int n - int e) 2")
       (auto simp: sub_str_iterate_def vec_itr_def crlf_iterator_def t split: if_splits)
qed

text \<open>The loop over the lines ends: every turn that goes on takes a line end off the buffer.\<close>

lemma line_loop_returns:
  assumes "b \<le> e" "e \<le> n" "n \<le> length cells" "n - e < fuel"
  shows "line_loop env fuel k (vec_itr cells n b e) user fs \<noteq> Some Running"
  using assms
proof (induction fuel arbitrary: b e k user fs)
  case (Suc fuel)
  obtain e' where e': "sub_str_iterate (Some (vec_itr cells n b e)) = Some (Some (vec_itr cells n e e'), True)" "e' \<le> n" "e' = n \<or> e + 2 \<le> e'"
    by (rule iterate_any [OF Suc.prems(1-3)])
  have "line_loop env fuel (Suc k) (vec_itr cells n e e') u f \<noteq> Some Running" if "e' \<noteq> n" for u f
    using that e'(2,3) Suc.prems by (intro Suc.IH) auto
  then show ?case using e'(1) by (auto simp: bind_eq_Some_conv)
qed simp

text \<open>A line changes nothing of the context but the state of its SMTP engine.\<close>

lemma handler_smtp_only_smtp:
  assumes "handler_smtp env user message fs = Some (user', fs', answer)"
  obtains s where "user' = user\<lparr>uc_smtp := s\<rparr>"
proof -
  have "\<exists>s. user' = user\<lparr>uc_smtp := s\<rparr>"
    using assms unfolding handler_smtp_def
    by (auto simp: Let_def bind_eq_Some_conv split: if_splits option.splits)
  then show thesis using that by blast
qed

text \<open>
  The reference for the lines of a buffer: the lines are handled in order as long as they are
  text of a mail; the first other answer ends it, and drops what follows in the buffer.
\<close>

definition first_line :: "string \<Rightarrow> string" where "first_line s = take (line_len s) s"

definition complete :: "string \<Rightarrow> bool" where
  "complete l \<longleftrightarrow> (\<exists>t. l = t @ SMTP_COMMAND_END)"

function feed :: "(nat \<Rightarrow> mail_env) \<Rightarrow> nat \<Rightarrow> user_context \<Rightarrow> fs \<Rightarrow> string \<Rightarrow> (user_context \<times> fs \<times> string ptr \<times> string) ub" where
  "feed env k user fs s =
     (if \<not> complete (first_line s) then Some (user, fs, NULL, s)
      else do {
        (user', fs', answer) \<leftarrow> handler_smtp (env k) user (takeWhile (\<lambda>c. c \<noteq> NUL) (first_line s)) fs;
        (if pair_status answer = SMTP_STATUS_CONTINUE \<and> first_line s \<noteq> s
         then feed env (Suc k) user' fs' (drop (line_len s) s)
         else Some (user', fs', pair_buffer answer, []))
      })"
  by pat_completeness auto

lemma complete_nonempty: "complete (first_line s) \<Longrightarrow> s \<noteq> [] \<and> 0 < line_len s"
  by (cases s) (auto simp: complete_def first_line_def SMTP_COMMAND_END_def intro: line_len_pos)

termination feed
  by (relation "measure (\<lambda>(env, k, user, fs, s). length s)") (auto dest: complete_nonempty)

declare feed.simps [simp del]

lemma complete_iff:
  assumes "2 \<le> length l"
  shows "complete l \<longleftrightarrow> l ! (length l - 2) = CHR 0x0D \<and> l ! (length l - 1) = CHR 0x0A"
proof -
  obtain t c d where l: "l = t @ [c, d]"
  proof -
    have "l = take (length l - 2) l @ [l ! (length l - 2), l ! (length l - 1)]"
      using assms by (cases l rule: rev_cases; cases "butlast l" rule: rev_cases) (auto simp: nth_append)
    then show thesis by (rule that)
  qed
  then show ?thesis by (auto simp: complete_def SMTP_COMMAND_END_def nth_append)
qed

lemma length_first_line [simp]: "length (first_line s) = line_len s"
  using line_len_le [of s] by (simp add: first_line_def)

lemma first_line_all: "first_line s = s \<longleftrightarrow> line_len s = length s"
  using line_len_le [of s] by (auto simp: first_line_def)

lemma line_len_one: "line_len s = 1 \<Longrightarrow> length s = 1"
proof (induction s rule: line_len.induct)
  case (1 c d s)
  then show ?case using line_len_pos [of "d # s"] by (auto split: if_splits)
qed auto

lemma is_line_and_at:
  "Suc i < length cells \<Longrightarrow> is_line_and cells (int i) = Some (cells ! i = CHR 0x0D \<and> cells ! Suc i = CHR 0x0A)"
  using arr_get_nat [of i cells] arr_get_nat [of "Suc i" cells] by (simp add: is_line_and_def add.commute)

lemma incomplete_all: "\<not> complete (first_line s) \<Longrightarrow> line_len s = length s"
proof (induction s rule: line_len.induct)
  case (1 c d s)
  show ?case
  proof (cases "c = CHR 0x0D \<and> d = CHR 0x0A")
    case True
    then have "first_line (c # d # s) = [] @ SMTP_COMMAND_END" by (simp add: first_line_def SMTP_COMMAND_END_def)
    then show ?thesis using 1(2) unfolding complete_def by blast
  next
    case False
    then have f: "first_line (c # d # s) = c # first_line (d # s)" by (auto simp: first_line_def)
    have "\<not> complete (first_line (d # s))"
    proof
      assume "complete (first_line (d # s))"
      then obtain t where "first_line (d # s) = t @ SMTP_COMMAND_END" unfolding complete_def by blast
      with f have "first_line (c # d # s) = (c # t) @ SMTP_COMMAND_END" by simp
      with 1(2) show False unfolding complete_def by blast
    qed
    then show ?thesis using 1(1) [OF False] False by auto
  qed
qed auto

lemma is_line_and_first:
  assumes "e < n" "n \<le> length cells" "e = 0 \<and> 2 \<le> n \<or> 2 \<le> e \<and> cells ! (e - 1) = CHR 0x0A"
  shows "is_line_and cells (int (e + line_len (drop e (take n cells))) - 2) = Some (complete (first_line (drop e (take n cells))))"
proof -
  let ?s = "drop e (take n cells)"
  let ?l = "line_len ?s"
  have pos: "0 < ?l" using assms(1,2) by (intro line_len_pos) simp
  have le: "e + ?l \<le> n" using line_len_le [of ?s] assms(1,2) by simp
  show ?thesis
  proof (cases "2 \<le> ?l")
    case True
    have i: "int (e + ?l) - 2 = int (e + ?l - 2)" "Suc (e + ?l - 2) = e + ?l - 1" using True by auto
    have "first_line ?s ! (?l - 2) = cells ! (e + ?l - 2)" "first_line ?s ! (?l - 1) = cells ! (e + ?l - 1)"
      using True le assms(2) by (auto simp: first_line_def)
    then have "complete (first_line ?s) \<longleftrightarrow> cells ! (e + ?l - 2) = CHR 0x0D \<and> cells ! (e + ?l - 1) = CHR 0x0A"
      using True complete_iff [of "first_line ?s"] by simp
    moreover have "Suc (e + ?l - 2) < length cells" using i(2) le assms(2) pos by linarith
    ultimately show ?thesis unfolding i(1) using is_line_and_at [of "e + ?l - 2" cells] i(2) by simp
  next
    case False
    with pos have l: "?l = 1" by simp
    then have "length ?s = 1" by (rule line_len_one)
    with assms have e: "2 \<le> e" "cells ! (e - 1) = CHR 0x0A" by auto
    have "\<not> complete (first_line ?s)" using l by (auto simp: complete_def SMTP_COMMAND_END_def dest: arg_cong [of _ _ length])
    moreover have "int (e + ?l) - 2 = int (e - 1)" using l e(1) by auto
    ultimately show ?thesis using e(2) assms(1,2) by (simp add: is_line_and_def arr_get_nat)
  qed
qed

lemma takeWhile_NUL_end: "takeWhile (\<lambda>c. c \<noteq> NUL) (l @ NUL # r) = takeWhile (\<lambda>c. c \<noteq> NUL) l"
  by (induction l) auto

lemma message_at:
  assumes "e \<le> e'" "e' \<le> n" "n < length cells"
  shows "c_str (Some (drop e (cells[e' := NUL]))) = Some (takeWhile (\<lambda>c. c \<noteq> NUL) (take (e' - e) (drop e (take n cells))))"
proof -
  have "drop e (cells[e' := NUL]) = take (e' - e) (drop e cells) @ NUL # drop (Suc e') cells"
    using assms by (simp add: upd_conv_take_nth_drop drop_take)
  moreover have "take (e' - e) (drop e (take n cells)) = take (e' - e) (drop e cells)"
    using assms by (simp add: drop_take min_def)
  ultimately show ?thesis by (simp add: c_str_def takeWhile_NUL_end)
qed

text \<open>The loop implements the reference.\<close>

definition lines_end_is :: "string \<Rightarrow> nat \<Rightarrow> lines_end ub \<Rightarrow> (user_context \<times> fs \<times> string ptr \<times> string) ub \<Rightarrow> char vector \<Rightarrow> bool" where
  "lines_end_is cells n r spec buf \<longleftrightarrow>
     (case r of
        None \<Rightarrow> spec = UB
      | Some (Answered u f a it) \<Rightarrow> spec = Some (u, f, pair_buffer a, []) \<and> uc_buffer u = buf
      | Some (Incomplete u f it) \<Rightarrow> uc_buffer u = buf \<and> (\<exists>e. it = vec_itr cells n e n \<and> e \<le> n \<and> spec = Some (u, f, NULL, drop e (take n cells)))
      | Some Running \<Rightarrow> False)"

lemma line_loop_feed:
  assumes "b \<le> e" "e < n" "n < length cells" "no_cr_cr (take n cells)" "v_array (uc_buffer user) = Some cells"
    "e = 0 \<and> 2 \<le> n \<or> 2 \<le> e \<and> cells ! (e - 1) = CHR 0x0A" "n - e < fuel"
  shows "lines_end_is cells n (line_loop env fuel k (vec_itr cells n b e) user fs) (feed env k user fs (drop e (take n cells))) (uc_buffer user)"
  using assms
proof (induction fuel arbitrary: b e k user fs)
  case 0
  then show ?case by simp
next
  case (Suc fuel)
  let ?s = "drop e (take n cells)"
  let ?e = "e + line_len ?s"
  have n: "n \<le> length cells" "e \<le> n" using Suc.prems(2,3) by auto
  have it: "sub_str_iterate (Some (vec_itr cells n b e)) = Some (Some (vec_itr cells n e ?e), True)"
    by (rule iterate_line [OF Suc.prems(1) n(2,1) Suc.prems(4)])
  have line: "is_line_and cells (int ?e - 2) = Some (complete (first_line ?s))"
    by (rule is_line_and_first [OF Suc.prems(2) n(1) Suc.prems(6)])
  have le: "?e \<le> n" using line_len_le [of ?s] n by simp
  have all: "first_line ?s = ?s \<longleftrightarrow> ?e = n" unfolding first_line_all using n by auto
  show ?case
  proof (cases "complete (first_line ?s)")
    case False
    have "?e = n" using incomplete_all [OF False] n by simp
    then show ?thesis
      using it line False Suc.prems(5) n by (subst feed.simps) (auto simp: lines_end_is_def intro!: exI [of _ e])
  next
    case True
    have pos: "2 \<le> line_len ?s" using True by (auto simp: complete_def SMTP_COMMAND_END_def dest!: arg_cong [of _ _ length])
    have msg: "c_str (Some (drop e (cells[?e := NUL]))) = Some (takeWhile (\<lambda>c. c \<noteq> NUL) (first_line ?s))"
      using message_at [of e ?e n cells] le Suc.prems(3) by (simp add: first_line_def)
    have set: "arr_set cells (int ?e) NUL = Some (cells[?e := NUL])" using le Suc.prems(3) by (simp only: arr_set_nat)
    let ?h = "handler_smtp (env k) user (takeWhile (\<lambda>c. c \<noteq> NUL) (first_line ?s)) fs"
    show ?thesis
    proof (cases ?h)
      case None
      then show ?thesis using it line True Suc.prems(5) set msg
        by (subst feed.simps) (simp add: lines_end_is_def)
    next
      case (Some r)
      obtain u f a where r: "r = (u, f, a)" by (cases r)
      from Some r obtain sm where u: "u = user\<lparr>uc_smtp := sm\<rparr>" by (auto elim: handler_smtp_only_smtp)
      show ?thesis
      proof (cases "pair_status a = SMTP_STATUS_CONTINUE \<and> ?e \<noteq> n")
        case False
        then show ?thesis using it line True Suc.prems(5) set msg Some r all u
          by (subst feed.simps) (auto simp: lines_end_is_def)
      next
        case cont: True
        have lf: "cells ! (?e - 1) = CHR 0x0A"
        proof -
          have "first_line ?s ! (line_len ?s - 1) = CHR 0x0A"
            using True complete_iff [of "first_line ?s"] pos by simp
          then show ?thesis using pos le n by (simp add: first_line_def)
        qed
        have "lines_end_is cells n (line_loop env fuel (Suc k) (vec_itr cells n e ?e) u f) (feed env (Suc k) u f (drop ?e (take n cells))) (uc_buffer u)"
          using cont le pos lf Suc.prems u by (intro Suc.IH) auto
        moreover have "drop (line_len ?s) ?s = drop ?e (take n cells)" by (simp add: add.commute)
        ultimately show ?thesis using it line True Suc.prems(5) set msg Some r all u cont
          by (subst feed.simps) (auto simp: lines_end_is_def)
      qed
    qed
  qed
qed

lemma vec_push_in_place:
  assumes "v_array v = Some cs" "length cs = v_allocated v" "v_size v + 1 < v_allocated v"
  shows "vec_push z v x = Some (v\<lparr>v_array := Some (cs[v_size v := x]), v_size := Suc (v_size v)\<rparr>)"
  using assms arr_set_nat [of "v_size v" cs x] by (simp add: vec_push_def VECTOR_PUSH_BACK_def)

lemma move_front_run:
  "v_array v = Some cs \<Longrightarrow> length cs = v_allocated v \<Longrightarrow> v_size v < j \<Longrightarrow> j + m < v_allocated v \<Longrightarrow>
   \<exists>v'. move_front (v_allocated v) j m v = Some v' \<and> vec_ok v' \<and> elems v' = elems v @ take m (drop j cs)"
proof (induction m arbitrary: v cs j)
  case 0
  then show ?case by (auto simp: vec_ok_def)
next
  case (Suc m)
  let ?c = "cs ! j"
  let ?v = "v\<lparr>v_array := Some (cs[v_size v := ?c]), v_size := Suc (v_size v)\<rparr>"
  have g: "arr_get cs (int j) = Some ?c" using Suc.prems by (intro arr_get_nat) simp
  have p: "vec_push NUL v ?c = Some ?v" using Suc.prems by (intro vec_push_in_place) auto
  obtain v' where v': "move_front (v_allocated ?v) (Suc j) m ?v = Some v'" "vec_ok v'"
    "elems v' = elems ?v @ take m (drop (Suc j) (cs[v_size v := ?c]))"
    using Suc.IH [of ?v "cs[v_size v := ?c]" "Suc j"] Suc.prems by auto
  have "elems ?v = elems v @ [?c]" using Suc.prems by (simp add: elems_def take_Suc_update)
  moreover have "drop j cs = ?c # drop (Suc j) cs" using Suc.prems by (intro Cons_nth_drop_Suc [symmetric]) simp
  moreover have "drop (Suc j) (cs[v_size v := ?c]) = drop (Suc j) cs" using Suc.prems(3) by simp
  ultimately show ?case using v' g p Suc.prems(1) by simp
qed

lemma keep_incomplete_run:
  assumes "vec_ok v" "v_array v = Some cells" "e \<le> v_size v"
  shows "\<exists>v'. keep_incomplete (vec_itr cells (v_size v) e (v_size v)) v = Some v' \<and> vec_ok v' \<and> elems v' = drop e (elems v)"
proof (cases "e = 0")
  case True
  then show ?thesis using assms by (simp add: keep_incomplete_def)
next
  case False
  let ?v = "VECTOR_CLEAR v"
  have "\<exists>v'. move_front (v_allocated ?v) e (v_size v - e) ?v = Some v' \<and> vec_ok v' \<and> elems v' = elems ?v @ take (v_size v - e) (drop e cells)"
    using assms False by (intro move_front_run) (auto simp: vec_ok_def VECTOR_CLEAR_def)
  moreover have "nat (int (v_size v) - int e) = v_size v - e" by (simp add: nat_diff_distrib)
  ultimately show ?thesis using False assms
    by (simp add: keep_incomplete_def) (simp add: VECTOR_CLEAR_def elems_def drop_take)
qed

text \<open>
  The bytes of one event, in a buffer that holds the incomplete line \<open>elems (uc_buffer user)\<close>.
\<close>

lemma read_bytes_feed:
  assumes "vec_ok (uc_buffer user)" "s = elems (uc_buffer user) @ bytes" "no_cr_cr s" "2 \<le> length s"
  shows "\<exists>buf. vec_ok buf \<and> elems buf = s \<and>
    (case feed env 0 (user\<lparr>uc_buffer := buf\<rparr>) fs s of
       None \<Rightarrow> read_bytes env user fs bytes = UB
     | Some (u, fs', answer, rest) \<Rightarrow>
         \<exists>v. vec_ok v \<and> elems v = rest \<and> read_bytes env user fs bytes = Some (u\<lparr>uc_buffer := v\<rparr>, fs', answer))"
proof -
  from vec.push_all_E [OF assms(1), of NUL bytes] obtain buf where
    buf: "run_inputs (vec_push NUL) (uc_buffer user) bytes = Some buf" "vec_ok buf" "elems buf = s" using assms(2) by auto
  from buf(2) obtain cells where c: "v_array buf = Some cells" "length cells = v_allocated buf" "v_size buf < v_allocated buf"
    by (auto simp: vec_ok_def)
  let ?n = "v_size buf" and ?u = "user\<lparr>uc_buffer := buf\<rparr>"
  have s: "take ?n cells = s" using buf(3) c(1) by (simp add: elems_def)
  have n: "?n = length s" using s c by auto
  have "lines_end_is cells ?n (line_loop env (Suc ?n) 0 (vec_itr cells ?n 0 0) ?u fs) (feed env 0 ?u fs (drop 0 (take ?n cells))) (uc_buffer ?u)"
    using c s n assms(3,4) by (intro line_loop_feed) auto
  then have e: "lines_end_is cells ?n (line_loop env (Suc ?n) 0 (VECTOR_iterator buf) ?u fs) (feed env 0 ?u fs s) buf"
    using VECTOR_iterator_start [OF c(1)] s by simp
  have "case feed env 0 ?u fs s of
       None \<Rightarrow> read_bytes env user fs bytes = UB
     | Some (u, fs', answer, rest) \<Rightarrow>
         \<exists>v. vec_ok v \<and> elems v = rest \<and> read_bytes env user fs bytes = Some (u\<lparr>uc_buffer := v\<rparr>, fs', answer)"
  proof (cases "line_loop env (Suc ?n) 0 (VECTOR_iterator buf) ?u fs")
    case None
    then show ?thesis using e buf(1) by (simp add: lines_end_is_def read_bytes_def del: line_loop.simps)
  next
    case (Some r)
    show ?thesis
    proof (cases r)
      case (Answered u f a it)
      then show ?thesis using e Some buf
        by (auto simp: lines_end_is_def read_bytes_def simp del: line_loop.simps intro!: exI [of _ "VECTOR_CLEAR buf"])
    next
      case (Incomplete u f it)
      with e Some obtain i where i: "it = vec_itr cells ?n i ?n" "i \<le> ?n" "feed env 0 ?u fs s = Some (u, f, NULL, drop i s)" "uc_buffer u = buf"
        by (auto simp: lines_end_is_def s)
      from keep_incomplete_run [OF buf(2) c(1) i(2)] buf(3) obtain v where
        "keep_incomplete it buf = Some v" "vec_ok v" "elems v = drop i s" by (auto simp: i(1))
      then show ?thesis using i Some Incomplete buf(1) by (auto simp: read_bytes_def simp del: line_loop.simps)
    next
      case Running
      then show ?thesis using e Some by (simp add: lines_end_is_def)
    qed
  qed
  with buf show ?thesis by blast
qed

section \<open>Chunks of text\<close>

text \<open>The complete lines of a stream and what is left.\<close>

function split_lines :: "string \<Rightarrow> string list \<times> string" where
  "split_lines s =
     (if complete (first_line s) then (case split_lines (drop (line_len s) s) of (ls, r) \<Rightarrow> (first_line s # ls, r)) else ([], s))"
  by pat_completeness auto
termination split_lines
  by (relation "measure length") (auto dest: complete_nonempty)

declare split_lines.simps [simp del]

lemma split_lines_concat: "split_lines s = (ls, r) \<Longrightarrow> concat ls @ r = s"
proof (induction s arbitrary: ls rule: split_lines.induct)
  case (1 s)
  show ?case
  proof (cases "complete (first_line s)")
    case True
    obtain ls' r' where l: "split_lines (drop (line_len s) s) = (ls', r')" by force
    with 1(2) True have "ls = first_line s # ls'" "r = r'" by (simp_all add: split_lines.simps [of s])
    with 1(1) [OF True, of ls'] l show ?thesis by (simp add: first_line_def)
  next
    case False
    with 1(2) show ?thesis by (simp add: split_lines.simps [of s])
  qed
qed

lemma first_line_append:
  assumes "complete (first_line x)"
  shows "line_len (x @ y) = line_len x" "first_line (x @ y) = first_line x"
proof -
  have "complete (first_line x) \<Longrightarrow> line_len (x @ y) = line_len x"
  proof (induction x rule: line_len.induct)
    case (1 c d s)
    show ?case
    proof (cases "c = CHR 0x0D \<and> d = CHR 0x0A")
      case False
      then have f: "first_line (c # d # s) = c # first_line (d # s)" by (auto simp: first_line_def)
      with 1(2) obtain t where t: "c # first_line (d # s) = t @ SMTP_COMMAND_END" unfolding complete_def by auto
      have "complete (first_line (d # s))"
      proof (cases t)
        case Nil
        with t have "c = CHR 0x0D" "first_line (d # s) = [CHR 0x0A]" by (simp_all add: SMTP_COMMAND_END_def)
        moreover from this have "d = CHR 0x0A" using line_len_pos [of "d # s"] by (cases "line_len (d # s)") (auto simp: first_line_def)
        ultimately show ?thesis using False by simp
      next
        case (Cons a t')
        with t show ?thesis unfolding complete_def by auto
      qed
      with 1(1) [OF False] False show ?thesis by auto
    qed simp
  qed (auto simp: complete_def first_line_def SMTP_COMMAND_END_def)
  with assms show l: "line_len (x @ y) = line_len x" by simp
  show "first_line (x @ y) = first_line x" using l line_len_le [of x] by (simp add: first_line_def)
qed

lemma split_lines_append:
  "split_lines x = (ls, r) \<Longrightarrow> split_lines (r @ y) = (ls', r') \<Longrightarrow> split_lines (x @ y) = (ls @ ls', r')"
proof (induction x arbitrary: ls rule: split_lines.induct)
  case (1 x)
  show ?case
  proof (cases "complete (first_line x)")
    case True
    obtain ls1 r1 where l: "split_lines (drop (line_len x) x) = (ls1, r1)" by force
    with 1(2) True have e: "ls = first_line x # ls1" "r = r1" by (simp_all add: split_lines.simps [of x])
    from 1(1) [OF True, of ls1] l e 1(3) have "split_lines (drop (line_len x) x @ y) = (ls1 @ ls', r')" by simp
    moreover have "drop (line_len (x @ y)) (x @ y) = drop (line_len x) x @ y"
      using first_line_append(1) [OF True] line_len_le [of x] by simp
    ultimately show ?thesis using True first_line_append [OF True, of y] e
      by (subst split_lines.simps) simp
  next
    case False
    with 1(2) have "ls = []" "r = x" by (simp_all add: split_lines.simps [of x])
    with 1(3) show ?thesis by simp
  qed
qed

lemma text_line:
  assumes "smtp_inv (uc_smtp user)" "pr_fsm_state (uc_smtp user) = AUTOFSM_ST_READ_DATA" "c_string l" "l \<noteq> SMTP_DATA_END"
  obtains s where "\<forall>env. handler_smtp env user l fs = Some (user\<lparr>uc_smtp := s\<rparr>, fs, \<lparr>pair_buffer = NULL, pair_status = SMTP_STATUS_CONTINUE\<rparr>)"
    "smtp_inv s" "pr_fsm_state s = AUTOFSM_ST_READ_DATA" "elems (pr_mail_data s) = elems (pr_mail_data (uc_smtp user)) @ l"
    "pr_mail_from s = pr_mail_from (uc_smtp user)" "pr_rcpt_list s = pr_rcpt_list (uc_smtp user)"
proof -
  from step_body [OF assms(1-3)] assms(4) obtain s where s: "smtp_step (uc_smtp user) l = Some s" "smtp_inv s"
    "pr_rcpt_list s = pr_rcpt_list (uc_smtp user)" "pr_mail_from s = pr_mail_from (uc_smtp user)"
    "pr_status s = SMTP_STATUS_CONTINUE" "pr_fsm_state s = AUTOFSM_ST_READ_DATA"
    "elems (pr_mail_data s) = elems (pr_mail_data (uc_smtp user)) @ l" by auto
  obtain b e where "smtp_parse (Some (uc_smtp user)) (Some l) (Some err_fresh) = Some (Some s, pr_status s, b, e)"
    by (rule smtp_step_parse [OF assms(3) s(1)])
  then have "\<forall>env. handler_smtp env user l fs = Some (user\<lparr>uc_smtp := s\<rparr>, fs, \<lparr>pair_buffer = NULL, pair_status = SMTP_STATUS_CONTINUE\<rparr>)"
    using s(5) by (simp add: handler_smtp_def Let_def)
  then show thesis by (rule that [OF _ s(2,6,7,4,3)])
qed

lemma feed_text:
  assumes "smtp_inv (uc_smtp user)" "pr_fsm_state (uc_smtp user) = AUTOFSM_ST_READ_DATA" "c_string s"
    "split_lines s = (ls, r)" "SMTP_DATA_END \<notin> set ls"
  shows "\<exists>sm. feed env k user fs s = Some (user\<lparr>uc_smtp := sm\<rparr>, fs, NULL, r) \<and> smtp_inv sm
    \<and> pr_fsm_state sm = AUTOFSM_ST_READ_DATA \<and> elems (pr_mail_data sm) = elems (pr_mail_data (uc_smtp user)) @ concat ls
    \<and> pr_mail_from sm = pr_mail_from (uc_smtp user) \<and> pr_rcpt_list sm = pr_rcpt_list (uc_smtp user)"
  using assms
proof (induction s arbitrary: k user ls rule: split_lines.induct)
  case (1 s)
  show ?case
  proof (cases "complete (first_line s)")
    case False
    then have "ls = []" "r = s" using 1(5) by (simp_all add: split_lines.simps [of s])
    then show ?thesis using False 1(2,3) by (intro exI [of _ "uc_smtp user"]) (simp add: feed.simps [of env k user fs s])
  next
    case True
    obtain ls1 r1 where l1: "split_lines (drop (line_len s) s) = (ls1, r1)" by force
    with 1(5) True have e: "ls = first_line s # ls1" "r = r1" by (simp_all add: split_lines.simps [of s])
    have c: "c_string (first_line s)" "c_string (drop (line_len s) s)"
      using 1(4) set_take_subset [of "line_len s" s] by (auto simp: first_line_def c_string_def intro!: c_string_drop [unfolded c_string_def])
    have "first_line s \<noteq> SMTP_DATA_END" using 1(6) e by auto
    then obtain t where t: "\<forall>env. handler_smtp env user (first_line s) fs = Some (user\<lparr>uc_smtp := t\<rparr>, fs, \<lparr>pair_buffer = NULL, pair_status = SMTP_STATUS_CONTINUE\<rparr>)"
      "smtp_inv t" "pr_fsm_state t = AUTOFSM_ST_READ_DATA" "elems (pr_mail_data t) = elems (pr_mail_data (uc_smtp user)) @ first_line s"
      "pr_mail_from t = pr_mail_from (uc_smtp user)" "pr_rcpt_list t = pr_rcpt_list (uc_smtp user)"
      by (rule text_line [OF 1(2,3) c(1)])
    have h: "handler_smtp (env k) user (takeWhile (\<lambda>c. c \<noteq> NUL) (first_line s)) fs
        = Some (user\<lparr>uc_smtp := t\<rparr>, fs, \<lparr>pair_buffer = NULL, pair_status = SMTP_STATUS_CONTINUE\<rparr>)"
      unfolding c_string_id [OF c(1)] using t(1) by blast
    show ?thesis
    proof (cases "first_line s = s")
      case all: True
      then have "drop (line_len s) s = []" by (simp add: first_line_all)
      then have "ls1 = []" "r1 = []" using l1 by (simp_all add: split_lines.simps [of "[]"] complete_def first_line_def SMTP_COMMAND_END_def)
      then show ?thesis using t(2-6) h True all e
        by (intro exI [of _ t]) (simp add: feed.simps [of env k user fs s])
    next
      case False
      from 1(1) [OF True, of "user\<lparr>uc_smtp := t\<rparr>" ls1 "Suc k"] t(2,3) c(2) l1 e 1(6) obtain sm where
        "feed env (Suc k) (user\<lparr>uc_smtp := t\<rparr>) fs (drop (line_len s) s) = Some (user\<lparr>uc_smtp := sm\<rparr>, fs, NULL, r)" "smtp_inv sm"
        "pr_fsm_state sm = AUTOFSM_ST_READ_DATA" "elems (pr_mail_data sm) = elems (pr_mail_data t) @ concat ls1"
        "pr_mail_from sm = pr_mail_from t" "pr_rcpt_list sm = pr_rcpt_list t" by auto
      then show ?thesis using t(2-6) h True False e
        by (intro exI [of _ sm]) (simp add: feed.simps [of env k user fs s])
    qed
  qed
qed

text \<open>Chunks of bytes handled one after the other, without the replies.\<close>

definition read_chunk :: "(nat \<Rightarrow> mail_env) \<Rightarrow> user_context \<times> fs \<Rightarrow> string \<Rightarrow> (user_context \<times> fs) ub" where
  "read_chunk env st bytes = do { (user', fs', _) \<leftarrow> read_bytes env (fst st) (snd st) bytes; Some (user', fs') }"

lemma no_cr_cr_take: "no_cr_cr s \<Longrightarrow> no_cr_cr (take n s)"
  by (simp add: no_cr_cr_def)

lemma no_cr_cr_Cons [simp]:
  "no_cr_cr []" "no_cr_cr [c]" "no_cr_cr (c # d # s) \<longleftrightarrow> \<not> (c = CHR 0x0D \<and> d = CHR 0x0D) \<and> no_cr_cr (d # s)"
  by (simp_all add: no_cr_cr_def All_less_Suc2) blast?

lemma no_cr_cr_appendD: "no_cr_cr (x @ y) \<Longrightarrow> no_cr_cr x \<and> no_cr_cr y"
  using no_cr_cr_take [of "x @ y" "length x"] no_cr_cr_drop [of "x @ y" "length x"] by simp

lemma read_bytes_text:
  assumes "smtp_inv (uc_smtp user)" "pr_fsm_state (uc_smtp user) = AUTOFSM_ST_READ_DATA" "vec_ok (uc_buffer user)"
    "s = elems (uc_buffer user) @ bytes" "c_string s" "no_cr_cr s" "2 \<le> length s" "split_lines s = (ls, r)" "SMTP_DATA_END \<notin> set ls"
  obtains user' where "read_bytes env user fs bytes = Some (user', fs, NULL)" "smtp_inv (uc_smtp user')"
    "pr_fsm_state (uc_smtp user') = AUTOFSM_ST_READ_DATA" "vec_ok (uc_buffer user')" "elems (uc_buffer user') = r"
    "elems (pr_mail_data (uc_smtp user')) = elems (pr_mail_data (uc_smtp user)) @ concat ls"
    "pr_mail_from (uc_smtp user') = pr_mail_from (uc_smtp user)" "pr_rcpt_list (uc_smtp user') = pr_rcpt_list (uc_smtp user)"
proof -
  obtain buf where buf: "case feed env 0 (user\<lparr>uc_buffer := buf\<rparr>) fs s of
       None \<Rightarrow> read_bytes env user fs bytes = UB
     | Some (u, fs', answer, rest) \<Rightarrow>
         \<exists>v. vec_ok v \<and> elems v = rest \<and> read_bytes env user fs bytes = Some (u\<lparr>uc_buffer := v\<rparr>, fs', answer)"
    using read_bytes_feed [OF assms(3,4,6,7), of env fs] by blast
  obtain sm where sm: "feed env 0 (user\<lparr>uc_buffer := buf\<rparr>) fs s = Some (user\<lparr>uc_buffer := buf, uc_smtp := sm\<rparr>, fs, NULL, r)" "smtp_inv sm"
    "pr_fsm_state sm = AUTOFSM_ST_READ_DATA" "elems (pr_mail_data sm) = elems (pr_mail_data (uc_smtp user)) @ concat ls"
    "pr_mail_from sm = pr_mail_from (uc_smtp user)" "pr_rcpt_list sm = pr_rcpt_list (uc_smtp user)"
    using feed_text [of "user\<lparr>uc_buffer := buf\<rparr>" s ls r env 0 fs] assms by auto
  with buf obtain v where "vec_ok v" "elems v = r" "read_bytes env user fs bytes = Some (user\<lparr>uc_smtp := sm, uc_buffer := v\<rparr>, fs, NULL)"
    by auto
  then show thesis using sm by (intro that [of "user\<lparr>uc_smtp := sm, uc_buffer := v\<rparr>"]) simp_all
qed

lemma read_chunks_text:
  "smtp_inv (uc_smtp user) \<Longrightarrow> pr_fsm_state (uc_smtp user) = AUTOFSM_ST_READ_DATA \<Longrightarrow> vec_ok (uc_buffer user) \<Longrightarrow>
   split_lines (elems (uc_buffer user)) = ([], elems (uc_buffer user)) \<Longrightarrow>
   s = elems (uc_buffer user) @ concat chunks \<Longrightarrow> c_string s \<Longrightarrow> no_cr_cr s \<Longrightarrow> \<forall>c\<in>set chunks. 2 \<le> length c \<Longrightarrow>
   split_lines s = (ls, r) \<Longrightarrow> SMTP_DATA_END \<notin> set ls \<Longrightarrow>
   \<exists>user'. run_inputs (read_chunk env) (user, fs) chunks = Some (user', fs) \<and> smtp_inv (uc_smtp user')
     \<and> pr_fsm_state (uc_smtp user') = AUTOFSM_ST_READ_DATA \<and> vec_ok (uc_buffer user') \<and> elems (uc_buffer user') = r
     \<and> elems (pr_mail_data (uc_smtp user')) = elems (pr_mail_data (uc_smtp user)) @ concat ls
     \<and> pr_mail_from (uc_smtp user') = pr_mail_from (uc_smtp user) \<and> pr_rcpt_list (uc_smtp user') = pr_rcpt_list (uc_smtp user)"
proof (induction chunks arbitrary: user s ls)
  case Nil
  then show ?case by simp
next
  case (Cons c cs)
  let ?s = "elems (uc_buffer user) @ c"
  obtain ls1 r1 where l1: "split_lines ?s = (ls1, r1)" by force
  obtain ls2 r2 where l2: "split_lines (r1 @ concat cs) = (ls2, r2)" by force
  have s: "s = ?s @ concat cs" using Cons.prems(5) by simp
  from split_lines_append [OF l1 l2] Cons.prems(9) s have l: "ls = ls1 @ ls2" "r = r2" by simp_all
  have cut: "s = concat ls1 @ r1 @ concat cs" using s split_lines_concat [OF l1] by simp
  have ok1: "c_string ?s" "no_cr_cr ?s"
    using Cons.prems(6,7) no_cr_cr_appendD [of ?s "concat cs"] unfolding s by simp_all
  have ok2: "c_string (r1 @ concat cs)" "no_cr_cr (r1 @ concat cs)"
    using Cons.prems(6,7) no_cr_cr_appendD [of "concat ls1" "r1 @ concat cs"] unfolding cut by simp_all
  have r1: "split_lines r1 = ([], r1)"
  proof -
    have "split_lines ?s = (fst (split_lines ?s) @ fst (split_lines r1), snd (split_lines r1))"
      using split_lines_append [OF l1, of "[]"] l1 by (cases "split_lines r1") simp
    then show ?thesis using l1 by (cases "split_lines r1") simp
  qed
  have "2 \<le> length ?s" using Cons.prems(8) by simp
  then obtain user1 where u1: "\<forall>env. True" "read_bytes env user fs c = Some (user1, fs, NULL)" "smtp_inv (uc_smtp user1)"
    "pr_fsm_state (uc_smtp user1) = AUTOFSM_ST_READ_DATA" "vec_ok (uc_buffer user1)" "elems (uc_buffer user1) = r1"
    "elems (pr_mail_data (uc_smtp user1)) = elems (pr_mail_data (uc_smtp user)) @ concat ls1"
    "pr_mail_from (uc_smtp user1) = pr_mail_from (uc_smtp user)" "pr_rcpt_list (uc_smtp user1) = pr_rcpt_list (uc_smtp user)"
    using read_bytes_text [OF Cons.prems(1-3) refl ok1 _ l1, of env fs] Cons.prems(10) l by auto
  have c1: "read_chunk env (user, fs) c = Some (user1, fs)" using u1(2) by (simp add: read_chunk_def)
  have "\<exists>user'. run_inputs (read_chunk env) (user1, fs) cs = Some (user', fs) \<and> smtp_inv (uc_smtp user')
     \<and> pr_fsm_state (uc_smtp user') = AUTOFSM_ST_READ_DATA \<and> vec_ok (uc_buffer user') \<and> elems (uc_buffer user') = r
     \<and> elems (pr_mail_data (uc_smtp user')) = elems (pr_mail_data (uc_smtp user1)) @ concat ls2
     \<and> pr_mail_from (uc_smtp user') = pr_mail_from (uc_smtp user1) \<and> pr_rcpt_list (uc_smtp user') = pr_rcpt_list (uc_smtp user1)"
    using Cons.prems(8,10) u1 r1 l2 l ok2 by (intro Cons.IH [of user1 "r1 @ concat cs" ls2]) auto
  then show ?case using c1 u1(7-9) l by (auto simp: run_inputs.simps)
qed

section \<open>Events of a connection\<close>

lemma async_read_run:
  assumes "el_registered s = Some q" "req_ok q" "0 \<le> sock"
  obtains q' where "async_read s sock (Some b) h = Some (s\<lparr>el_registered := Some q'\<rparr>)" "req_ok q'"
    "req_view q' = (if req_view q (sock, SOCK_READ) = None
       then (req_view q)((sock, SOCK_READ) \<mapsto> EvRead \<lparr>se_type = SOCK_READ, se_socket = sock, se_error = set_err OK ERROR_SUCCESS_msg err_zero,
              rd_handler = h, rd_buffer = b, rd_size = TEMPORARY_BUFFER_SIZE, rd_offset = 0, rd_status = CONNECTED\<rparr>)
       else req_view q)"
proof -
  let ?r = "\<lparr>se_type = SOCK_READ, se_socket = sock, se_error = set_err OK ERROR_SUCCESS_msg err_zero,
              rd_handler = h, rd_buffer = b, rd_size = TEMPORARY_BUFFER_SIZE, rd_offset = 0, rd_status = CONNECTED\<rparr>"
  have fit: "req_fits (sock, ev_type (EvRead ?r)) (EvRead ?r)" using assms(3) by (simp add: req_fits_def ev_tagged_def)
  have push: "eq_push_read True evs (Some ?r) err = eq_push True evs (Some (EvRead ?r)) err" for evs err
    by (simp add: eq_push_read_def)
  from req_push_run [OF assms(2) fit push, of "set_err OK ERROR_SUCCESS_msg (set_err OK ERROR_SUCCESS_msg err_fresh)"] obtain q' where
    "req_push mem_ok (Some q) sock (\<lambda>evs err. eq_push_read True evs (Some ?r) err) (Some (set_err OK ERROR_SUCCESS_msg (set_err OK ERROR_SUCCESS_msg err_fresh)))
       = Some (Some q', req_view q (sock, SOCK_READ) = None,
            Some (if req_view q (sock, SOCK_READ) = None then set_err OK ERROR_SUCCESS_msg (set_err OK ERROR_SUCCESS_msg (set_err OK ERROR_SUCCESS_msg err_fresh))
                  else set_err EXISTS EQ_ELEMENT_TYPE_EXISTS (set_err OK ERROR_SUCCESS_msg (set_err OK ERROR_SUCCESS_msg err_fresh))))"
    "req_ok q'" "req_view q' = (if req_view q (sock, SOCK_READ) = None then (req_view q)((sock, SOCK_READ) \<mapsto> EvRead ?r) else req_view q)"
    by auto
  then show thesis using assms(1)
    by (intro that [of q']) (simp_all add: async_read_def el_async_read_def req_push_read_def mem_ok_def err_simps split: if_splits)
qed

lemma async_write_run:
  assumes "el_registered s = Some q" "req_ok q" "0 \<le> sock"
  obtains q' where "async_write s sock (Some b) n h = Some (s\<lparr>el_registered := Some q'\<rparr>)" "req_ok q'"
    "req_view q' = (if req_view q (sock, SOCK_WRITE) = None
       then (req_view q)((sock, SOCK_WRITE) \<mapsto> EvWrite \<lparr>se_type = SOCK_WRITE, se_socket = sock, se_error = set_err OK ERROR_SUCCESS_msg err_zero,
              wr_handler = h, wr_offset = 0, wr_size = n, wr_buffer = b, wr_status = CONNECTED\<rparr>)
       else req_view q)"
proof -
  let ?w = "\<lparr>se_type = SOCK_WRITE, se_socket = sock, se_error = set_err OK ERROR_SUCCESS_msg err_zero,
              wr_handler = h, wr_offset = 0, wr_size = n, wr_buffer = b, wr_status = CONNECTED\<rparr>"
  have fit: "req_fits (sock, ev_type (EvWrite ?w)) (EvWrite ?w)" using assms(3) by (simp add: req_fits_def ev_tagged_def)
  have push: "eq_push_write True evs (Some ?w) err = eq_push True evs (Some (EvWrite ?w)) err" for evs err
    by (simp add: eq_push_write_def)
  from req_push_run [OF assms(2) fit push, of "set_err OK ERROR_SUCCESS_msg err_fresh"] obtain q' where
    "req_push mem_ok (Some q) sock (\<lambda>evs err. eq_push_write True evs (Some ?w) err) (Some (set_err OK ERROR_SUCCESS_msg err_fresh))
       = Some (Some q', req_view q (sock, SOCK_WRITE) = None,
            Some (if req_view q (sock, SOCK_WRITE) = None then set_err OK ERROR_SUCCESS_msg (set_err OK ERROR_SUCCESS_msg err_fresh)
                  else set_err EXISTS EQ_ELEMENT_TYPE_EXISTS (set_err OK ERROR_SUCCESS_msg (set_err OK ERROR_SUCCESS_msg err_fresh))))"
    "req_ok q'" "req_view q' = (if req_view q (sock, SOCK_WRITE) = None then (req_view q)((sock, SOCK_WRITE) \<mapsto> EvWrite ?w) else req_view q)"
    by auto
  then show thesis using assms(1)
    by (intro that [of q']) (simp_all add: async_write_def el_async_write_def req_push_write_def mem_ok_def err_simps split: if_splits)
qed

lemma line_loop_keeps:
  "line_loop env fuel k itr user fs = Some r \<Longrightarrow>
   (case r of Answered u f a it \<Rightarrow> \<exists>sm. u = user\<lparr>uc_smtp := sm\<rparr> | Incomplete u f it \<Rightarrow> \<exists>sm. u = user\<lparr>uc_smtp := sm\<rparr> | Running \<Rightarrow> True)"
proof (induction fuel arbitrary: k itr user fs)
  case (Suc fuel)
  from Suc.prems obtain p b itr' cells line where 1:
    "sub_str_iterate (Some itr) = Some (p, b)" "p = Some itr'" "v_array (uc_buffer user) = Some cells"
    "is_line_and cells (itr_end itr' - 2) = Some line"
    by (auto simp: bind_eq_Some_conv)
  show ?case
  proof (cases line)
    case False
    have "user = user\<lparr>uc_smtp := uc_smtp user\<rparr>" by simp
    then have "\<exists>sm. user = user\<lparr>uc_smtp := sm\<rparr>" by blast
    then show ?thesis using Suc.prems 1 False by auto
  next
    case True
    with Suc.prems 1 obtain message u f a where 2: "handler_smtp (env k) user message fs = Some (u, f, a)"
      "(if pair_status a = SMTP_STATUS_CONTINUE \<and> itr_end itr' \<noteq> itr_str_len itr' then line_loop env fuel (Suc k) itr' u f
        else Some (Answered u f a itr')) = Some r"
      by (auto simp: bind_eq_Some_conv)
    from 2(1) obtain sm where u: "u = user\<lparr>uc_smtp := sm\<rparr>" by (rule handler_smtp_only_smtp)
    show ?thesis
    proof (cases "pair_status a = SMTP_STATUS_CONTINUE \<and> itr_end itr' \<noteq> itr_str_len itr'")
      case True
      with 2(2) Suc.IH [of "Suc k" itr' u f] u show ?thesis by (auto split: lines_end.splits)
    next
      case False
      with 2(2) u show ?thesis by auto
    qed
  qed
qed simp

lemma read_bytes_keeps:
  assumes "read_bytes env user fs bytes = Some (user', fs', answer)"
  shows "uc_socket user' = uc_socket user \<and> uc_read_buffer user' = uc_read_buffer user"
proof -
  let ?after = "\<lambda>r. case r of Answered user' fs' answer' itr \<Rightarrow>
            Some (user'\<lparr>uc_buffer := VECTOR_CLEAR (uc_buffer user')\<rparr>, fs', pair_buffer answer')
        | Incomplete user' fs' itr \<Rightarrow>
            do { buf' \<leftarrow> keep_incomplete itr (uc_buffer user'); Some (user'\<lparr>uc_buffer := buf'\<rparr>, fs', NULL) }
        | Running \<Rightarrow> UB"
  from assms obtain buf r where r: "line_loop env (Suc (v_size buf)) 0 (VECTOR_iterator buf) (user\<lparr>uc_buffer := buf\<rparr>) fs = Some r"
    "?after r = Some (user', fs', answer)"
    by (auto simp only: read_bytes_def bind_eq_Some_conv)
  show ?thesis
    using line_loop_keeps [OF r(1)] r(2) by (cases r) (auto simp: bind_eq_Some_conv)
qed

definition read_request :: "user_context \<Rightarrow> event_t" where
  "read_request u = EvRead \<lparr>se_type = SOCK_READ, se_socket = uc_socket u, se_error = set_err OK ERROR_SUCCESS_msg err_zero,
     rd_handler = HANDLER_READ, rd_buffer = uc_read_buffer u, rd_size = TEMPORARY_BUFFER_SIZE, rd_offset = 0, rd_status = CONNECTED\<rparr>"

definition write_request :: "user_context \<Rightarrow> string \<Rightarrow> string \<Rightarrow> event_t" where
  "write_request u b t = EvWrite \<lparr>se_type = SOCK_WRITE, se_socket = uc_socket u, se_error = set_err OK ERROR_SUCCESS_msg err_zero,
     wr_handler = HANDLER_WRITE, wr_offset = 0, wr_size = int (length t), wr_buffer = b, wr_status = CONNECTED\<rparr>"

text \<open>The session goes on: the one event is registered for its socket, and its context is back in the list.\<close>

definition goes_on :: "server \<Rightarrow> server \<Rightarrow> user_context \<Rightarrow> event_t \<Rightarrow> bool" where
  "goes_on s s' u e \<longleftrightarrow>
     (\<exists>q q'. el_registered s = Some q \<and> el_registered s' = Some q' \<and> req_ok q'
        \<and> req_view q' = (req_view q)((uc_socket u, ev_type e) \<mapsto> e))
     \<and> sv_users s' = tailq_remove_first (\<lambda>x. uc_socket x = uc_socket u) (sv_users s) @ [u] \<and> sv_closed s' = sv_closed s"

text \<open>The session is over: the socket is closed, and its context and timer are gone.\<close>

definition is_over :: "server \<Rightarrow> server \<Rightarrow> int \<Rightarrow> bool" where
  "is_over s s' sock \<longleftrightarrow> sv_closed s' = sv_closed s @ [sock] \<and> el_registered s' = el_registered s
     \<and> sv_users s' = tailq_remove_first (\<lambda>x. uc_socket x = sock) (sv_users s) \<and> timers_view (sv_timers s') sock = None"

lemma touch_simps [simp]:
  "el_registered (touch env sock s) = el_registered s" "sv_users (touch env sock s) = sv_users s"
  "sv_closed (touch env sock s) = sv_closed s" "sv_fs (touch env sock s) = sv_fs s"
  by (simp_all add: touch_def)

lemma user_free_run: "smtp_inv (uc_smtp u) \<Longrightarrow> user_free (Some u) \<noteq> UB"
proof -
  assume "smtp_inv (uc_smtp u)"
  then have "vec_ok (pr_rcpt_list (uc_smtp u))" by (rule smtp_invD)
  then obtain v where "pr_smtp_rcpt_list_free (pr_rcpt_list (uc_smtp u)) = Some v" by (rule rcpt_list_freeE)
  then show "user_free (Some u) \<noteq> UB" by (simp add: user_free_def smtp_free_def pr_smtp_buffers_free_def)
qed

lemma hello_register_run:
  assumes "el_registered s = Some q" "req_ok q" "0 \<le> uc_socket u" "req_view q (uc_socket u, SOCK_READ) = None"
    "List.find (\<lambda>x. uc_socket x = uc_socket u) (sv_users s) = Some u"
  obtains q' where "hello_register env s (uc_socket u) =
      Some ((touch env (uc_socket u) s)\<lparr>sv_users := tailq_remove_first (\<lambda>x. uc_socket x = uc_socket u) (sv_users s), el_registered := Some q'\<rparr>,
            Some (accessor_empty\<lparr>acc_user := Some u, acc_list_entry := True, acc_users_list := True\<rparr>))"
    "req_ok q'" "req_view q' = (req_view q)((uc_socket u, SOCK_READ) \<mapsto> read_request u)"
proof -
  let ?us = "tailq_remove_first (\<lambda>x. uc_socket x = uc_socket u) (sv_users s)"
  let ?s = "(touch env (uc_socket u) s)\<lparr>sv_users := ?us\<rparr>"
  have "el_registered ?s = Some q" using assms(1) by simp
  from async_read_run [OF this assms(2,3), of "uc_read_buffer u" HANDLER_READ] assms(4) obtain q' where
    "async_read ?s (uc_socket u) (Some (uc_read_buffer u)) HANDLER_READ = Some (?s\<lparr>el_registered := Some q'\<rparr>)" "req_ok q'"
    "req_view q' = (req_view q)((uc_socket u, SOCK_READ) \<mapsto> read_request u)"
    by (auto simp: read_request_def)
  then show thesis using assms(5)
    by (intro that [of q']) (simp_all add: hello_register_def users_list__user_find_by_sock_def Let_def)
qed

lemma hello_write_goes_on:
  assumes "el_registered s = Some q" "req_ok q" "0 \<le> uc_socket u" "req_view q (uc_socket u, SOCK_READ) = None"
    "List.find (\<lambda>x. uc_socket x = uc_socket u) (sv_users s) = Some u"
  shows "\<exists>s'. handler_hello_write env s (uc_socket u) CONNECTED = Some s' \<and> goes_on s s' u (read_request u)"
  by (rule hello_register_run [OF assms, of env])
    (use assms(1) in \<open>auto simp: handler_hello_write_def hello_release_def user_accessor_release_def goes_on_def read_request_def\<close>)

text \<open>Nothing is left that would ever run a handler for a connected user.\<close>

definition stalled :: "server \<Rightarrow> user_context \<Rightarrow> bool" where
  "stalled s u \<longleftrightarrow> u \<in> set (sv_users s)
     \<and> (\<exists>q occ. el_registered s = Some q \<and> el_occurred s = Some occ \<and> req_view q (uc_socket u, SOCK_READ) = None
          \<and> req_view q (uc_socket u, SOCK_WRITE) = None \<and> (\<forall>e\<in>set occ. ev_socket e \<noteq> uc_socket u))"

lemma find_after_remove:
  assumes "distinct (map uc_socket us)"
  shows "List.find (\<lambda>x. uc_socket x = n) (tailq_remove_first (\<lambda>x. uc_socket x = n) us) = None"
  using assms by (induction us) (auto simp: find_None_iff rev_image_eqI)

text \<open>
  The manager takes the registered read and another worker handles it, before the context is back:
  the worker finds no user, so that the bytes are lost and nothing is registered.
\<close>

lemma hello_write_overtaken:
  assumes "el_registered s = Some q" "req_ok q" "0 \<le> uc_socket u" "req_view q (uc_socket u, SOCK_READ) = None"
    "req_view q (uc_socket u, SOCK_WRITE) = None" "List.find (\<lambda>x. uc_socket x = uc_socket u) (sv_users s) = Some u"
    "el_occurred s = Some occ" "\<forall>e\<in>set occ. ev_socket e \<noteq> uc_socket u" "distinct (map uc_socket (sv_users s))"
    "int (length (uc_read_buffer u)) = TEMPORARY_BUFFER_SIZE" "chunk \<noteq> []" "int (length chunk) \<le> TEMPORARY_BUFFER_SIZE"
  shows "\<exists>s1 acc s2 er ev s3. hello_register env s (uc_socket u) = Some (s1, Some acc)
    \<and> pollin_read [RecvData chunk] s1 (uc_socket u) (Some err_fresh) = Some (s2, True, er)
    \<and> el_occurred s2 = Some (occ @ [EvRead ev]) \<and> take (nat (rd_offset ev)) (rd_buffer ev) = chunk
    \<and> server_handlers env (pr_sock_read_execute ev) (s2\<lparr>el_occurred := Some occ\<rparr>) = Some s3
    \<and> stalled (hello_release env s3 (uc_socket u) (Some acc)) u
    \<and> sv_closed (hello_release env s3 (uc_socket u) (Some acc)) = sv_closed s"
proof -
  let ?sock = "uc_socket u" let ?us = "tailq_remove_first (\<lambda>x. uc_socket x = ?sock) (sv_users s)"
  let ?acc = "accessor_empty\<lparr>acc_user := Some u, acc_list_entry := True, acc_users_list := True\<rparr>"
  obtain q1 where 1: "hello_register env s ?sock = Some ((touch env ?sock s)\<lparr>sv_users := ?us, el_registered := Some q1\<rparr>, Some ?acc)"
    "req_ok q1" "req_view q1 = (req_view q)((?sock, SOCK_READ) \<mapsto> read_request u)"
    by (rule hello_register_run [OF assms(1-4,6)])
  define ev where "ev = \<lparr>se_type = SOCK_READ, se_socket = ?sock, se_error = set_err OK ERROR_SUCCESS_msg err_zero,
     rd_handler = HANDLER_READ, rd_buffer = uc_read_buffer u, rd_size = TEMPORARY_BUFFER_SIZE, rd_offset = 0, rd_status = CONNECTED\<rparr>"
  have v: "req_view q1 (?sock, SOCK_READ) = Some (EvRead ev)" by (simp add: 1(3) read_request_def ev_def)
  let ?s1 = "(touch env ?sock s)\<lparr>sv_users := ?us, el_registered := Some q1\<rparr>"
  have io: "0 \<le> rd_size ev" "rd_size ev \<le> int (length (rd_buffer ev))" "rd_status ev = CONNECTED" "rd_handler ev = HANDLER_READ"
      "se_socket ev = ?sock" "rd_size ev = TEMPORARY_BUFFER_SIZE"
    using assms(10) by (simp_all add: ev_def TEMPORARY_BUFFER_SIZE_def)
  have l: "el_registered ?s1 = Some q1" "el_occurred ?s1 = Some occ" using assms(7) by (simp_all add: touch_def)
  have rc: "received (nat (rd_size ev)) [RecvData chunk] = chunk" "recv_end (nat (rd_size ev)) [RecvData chunk] = (False, snd (recv_end (nat (rd_size ev)) [RecvData chunk]))"
      "length chunk = nat (rd_size ev) \<or> snd (recv_end (nat (rd_size ev)) [RecvData chunk]) = Some EAGAIN"
    using assms(11,12) io(6) by (auto simp: TEMPORARY_BUFFER_SIZE_def)
  from pollin_read_run [OF 1(2) v io(1,2) l, of "[RecvData chunk]" err_fresh] rc(1,3) obtain q2 er where
    2: "pollin_read [RecvData chunk] ?s1 ?sock (Some err_fresh) =
        Some (?s1\<lparr>el_registered := Some q2, el_occurred := Some (occ @ [EvRead (read_event [RecvData chunk] ev)])\<rparr>, True, Some er)"
      "req_view q2 = (req_view q1)((?sock, SOCK_READ) := None)"
    by auto
  have f: "rd_status (read_event [RecvData chunk] ev) = CONNECTED" using assms(11) io(3) by (simp add: read_event_def Let_def)
  let ?s2 = "?s1\<lparr>el_registered := Some q2, el_occurred := Some (occ @ [EvRead (read_event [RecvData chunk] ev)])\<rparr>"
  let ?s3 = "(touch env ?sock (?s2\<lparr>el_occurred := Some occ\<rparr>))"
  have 3: "server_handlers env (pr_sock_read_execute (read_event [RecvData chunk] ev)) (?s2\<lparr>el_occurred := Some occ\<rparr>) = Some (?s3\<lparr>sv_users := ?us\<rparr>)"
    using find_after_remove [OF assms(9), of ?sock] f io(4,5)
    by (simp add: pr_sock_read_execute_def read_event_front handler_read_def users_list__user_find_by_sock_def Let_def)
  let ?s4 = "hello_release env (?s3\<lparr>sv_users := ?us\<rparr>) ?sock (Some ?acc)"
  have "stalled ?s4 u"
    using assms(5,8) 2(2) 1(3) by (simp add: stalled_def hello_release_def user_accessor_release_def touch_def read_request_def)
  moreover have "sv_closed ?s4 = sv_closed s" by (simp add: hello_release_def user_accessor_release_def)
  moreover have "take (nat (rd_offset (read_event [RecvData chunk] ev))) (rd_buffer (read_event [RecvData chunk] ev)) = chunk"
    using rc(1) by (simp add: read_event_front(1))
  ultimately show ?thesis using 1(1) 2(1) 3 by (intro exI conjI) (assumption | simp)+
qed

lemma write_goes_on:
  assumes "el_registered s = Some q" "req_ok q" "0 \<le> uc_socket u" "req_view q (uc_socket u, SOCK_READ) = None"
    "List.find (\<lambda>x. uc_socket x = uc_socket u) (sv_users s) = Some u" "pr_status (uc_smtp u) \<noteq> SMTP_STATUS_EXIT"
  shows "\<exists>s'. handler_write env s (uc_socket u) CONNECTED = Some s' \<and> goes_on s s' u (read_request u)"
proof -
  let ?us = "tailq_remove_first (\<lambda>x. uc_socket x = uc_socket u) (sv_users s)"
  let ?s = "(touch env (uc_socket u) s)\<lparr>sv_users := ?us @ [u]\<rparr>"
  have "el_registered ?s = Some q" using assms(1) by simp
  from async_read_run [OF this assms(2,3), of "uc_read_buffer u" HANDLER_READ] assms(4) obtain q' where
    "async_read ?s (uc_socket u) (Some (uc_read_buffer u)) HANDLER_READ = Some (?s\<lparr>el_registered := Some q'\<rparr>)" "req_ok q'"
    "req_view q' = (req_view q)((uc_socket u, SOCK_READ) \<mapsto> read_request u)"
    by (auto simp: read_request_def)
  then show ?thesis using assms(1,5,6)
    by (simp add: handler_write_def users_list__user_find_by_sock_def Let_def user_accessor_release_def goes_on_def smtp_get_status_def read_request_def)
qed

lemma write_is_over:
  assumes "List.find (\<lambda>x. uc_socket x = uc_socket u) (sv_users s) = Some u" "pr_status (uc_smtp u) = SMTP_STATUS_EXIT"
    "smtp_inv (uc_smtp u)" "timers_ok (sv_timers s)"
  shows "\<exists>s'. handler_write env s (uc_socket u) CONNECTED = Some s' \<and> is_over s s' (uc_socket u)"
proof -
  from user_free_run [OF assms(3)] obtain c where c: "user_free (Some u) = Some c" by blast
  have "timers_ok (sv_timers (touch env (uc_socket u) s))" using assms(4) by (simp add: touch_def timers_update_ok)
  then have "timers_view (timers_remove_for_socket (sv_timers (touch env (uc_socket u) s)) (uc_socket u)) (uc_socket u) = None"
    by (simp add: timers_remove_view)
  then show ?thesis using assms(1,2) c
    by (simp add: handler_write_def users_list__user_find_by_sock_def Let_def smtp_get_status_def is_over_def)
       (simp add: touch_def timers_update_view)
qed

lemma read_goes_on:
  assumes "el_registered s = Some q" "req_ok q" "0 \<le> uc_socket u" "req_view q (uc_socket u, SOCK_READ) = None"
    "req_view q (uc_socket u, SOCK_WRITE) = None" "List.find (\<lambda>x. uc_socket x = uc_socket u) (sv_users s) = Some u"
    "received_bytes buffer n = Some bytes" "read_bytes (env_mail env) u (sv_fs s) bytes = Some (u1, fs1, answer)"
    "\<forall>b. answer = Some b \<longrightarrow> c_str (Some b) = Some t"
  shows "\<exists>s'. handler_read env s (uc_socket u) buffer n CONNECTED = Some s' \<and> sv_fs s' = fs1
    \<and> goes_on s s' u1 (case answer of NULL \<Rightarrow> read_request u1 | Some b \<Rightarrow> write_request u1 b t)"
proof -
  let ?us = "tailq_remove_first (\<lambda>x. uc_socket x = uc_socket u) (sv_users s)"
  let ?s = "(touch env (uc_socket u) s)\<lparr>sv_users := ?us @ [u1], sv_fs := fs1\<rparr>"
  have k: "uc_socket u1 = uc_socket u" "uc_read_buffer u1 = uc_read_buffer u" using read_bytes_keeps [OF assms(8)] by simp_all
  have reg: "el_registered ?s = Some q" using assms(1) by simp
  show ?thesis
  proof (cases answer)
    case None
    from async_read_run [OF reg assms(2,3), of "uc_read_buffer u" HANDLER_READ] assms(4) obtain q' where
      "async_read ?s (uc_socket u) (Some (uc_read_buffer u)) HANDLER_READ = Some (?s\<lparr>el_registered := Some q'\<rparr>)" "req_ok q'"
      "req_view q' = (req_view q)((uc_socket u, SOCK_READ) \<mapsto> read_request u1)"
      by (auto simp: read_request_def k)
    then show ?thesis using assms(1,6-8) None k
      by (simp add: handler_read_def users_list__user_find_by_sock_def Let_def user_accessor_release_def goes_on_def read_request_def)
  next
    case (Some b')
    with assms(9) async_write_run [OF reg assms(2,3), of b' "int (length t)" HANDLER_WRITE] assms(5) obtain q' where
      "async_write ?s (uc_socket u) (Some b') (int (length t)) HANDLER_WRITE = Some (?s\<lparr>el_registered := Some q'\<rparr>)" "req_ok q'"
      "req_view q' = (req_view q)((uc_socket u, SOCK_WRITE) \<mapsto> write_request u1 b' t)"
      by (auto simp: write_request_def k)
    then show ?thesis using assms(1,6-9) Some k
      by (simp add: handler_read_def users_list__user_find_by_sock_def Let_def user_accessor_release_def goes_on_def write_request_def)
  qed
qed

definition timeout_request :: "int \<Rightarrow> event_t" where
  "timeout_request sock = EvWrite \<lparr>se_type = SOCK_WRITE, se_socket = sock, se_error = set_err OK ERROR_SUCCESS_msg err_zero,
     wr_handler = HANDLER_TIMEOUT_WRITE, wr_offset = 0, wr_size = int (length timeout_response), wr_buffer = timeout_response, wr_status = CONNECTED\<rparr>"

lemma timer_run:
  assumes "el_registered s = Some q" "req_ok q" "0 \<le> sock" "List.find (\<lambda>t. te_id t = d) (el_timers s) \<noteq> None"
    "timers_is_elapsed_for_socket (env_now env) (sv_timers s) sock (env_timer_period env) = Some True"
    "users_list__is_exist (Some (sv_users s)) sock"
  shows "\<exists>q'. handler_timer env s sock d = Some (s\<lparr>el_registered := Some q',
         el_timers := tailq_update_first (\<lambda>t. te_id t = d) (\<lambda>t. t\<lparr>te_has_delete := True\<rparr>) (el_timers s)\<rparr>)
       \<and> req_ok q' \<and> req_view q' = (if req_view q (sock, SOCK_WRITE) = None then (req_view q)((sock, SOCK_WRITE) \<mapsto> timeout_request sock) else req_view q)"
proof -
  let ?s = "s\<lparr>el_timers := tailq_update_first (\<lambda>t. te_id t = d) (\<lambda>t. t\<lparr>te_has_delete := True\<rparr>) (el_timers s)\<rparr>"
  have ex: "timers_is_exist_for_socket (sv_timers s) sock"
    using assms(5) by (auto simp: timers_is_elapsed_for_socket_def timers_is_exist_for_socket_def split: option.splits)
  have "el_registered ?s = Some q" using assms(1) by simp
  from async_write_run [OF this assms(2,3), of timeout_response "int (length timeout_response)" HANDLER_TIMEOUT_WRITE] obtain q' where
    "async_write ?s sock (Some timeout_response) (int (length timeout_response)) HANDLER_TIMEOUT_WRITE = Some (?s\<lparr>el_registered := Some q'\<rparr>)" "req_ok q'"
    "req_view q' = (if req_view q (sock, SOCK_WRITE) = None then (req_view q)((sock, SOCK_WRITE) \<mapsto> timeout_request sock) else req_view q)"
    unfolding timeout_request_def by blast
  then show ?thesis using assms(4-6) ex by (intro exI [of _ q']) (simp add: handler_timer_def el_timer_free_def)
qed

lemma disconnected_run:
  assumes "List.find (\<lambda>x. uc_socket x = sock) (sv_users s) = Some u" "smtp_inv (uc_smtp u)"
  shows "user_disconnected s sock = Some (s\<lparr>sv_users := tailq_remove_first (\<lambda>x. uc_socket x = sock) (sv_users s),
                                          sv_timers := timers_remove_for_socket (sv_timers s) sock\<rparr>)"
  using user_free_run [OF assms(2)] assms(1)
  by (auto simp: user_disconnected_def users_list__user_find_by_sock_def users_list__delete_user_def)

text \<open>Of a chunk that starts with a command, only the command is handled.\<close>

lemma read_one_command:
  assumes "smtp_inv (uc_smtp user)" "vec_ok (uc_buffer user)" "elems (uc_buffer user) = []" "no_cr_cr (l @ extra)"
    "complete l" "first_line (l @ extra) = l" "c_string l" "smtp_step (uc_smtp user) l = Some s'"
    "pr_status s' \<in> {SMTP_STATUS_OK, SMTP_STATUS_WARNING}"
  shows "\<exists>v. read_bytes env user fs (l @ extra) = Some (user\<lparr>uc_smtp := s', uc_buffer := v\<rparr>, fs, pr_buffer s')
     \<and> vec_ok v \<and> elems v = []"
proof -
  have len: "2 \<le> length (l @ extra)" using assms(5) by (auto simp: complete_def SMTP_COMMAND_END_def)
  obtain buf where buf: "case feed env 0 (user\<lparr>uc_buffer := buf\<rparr>) fs (l @ extra) of
       None \<Rightarrow> read_bytes env user fs (l @ extra) = UB
     | Some (u, fs', answer, rest) \<Rightarrow>
         \<exists>v. vec_ok v \<and> elems v = rest \<and> read_bytes env user fs (l @ extra) = Some (u\<lparr>uc_buffer := v\<rparr>, fs', answer)"
    using read_bytes_feed [where env = env and fs = fs, OF assms(2) _ assms(4) len] assms(3) by auto
  obtain e where "smtp_parse (Some (uc_smtp user)) (Some l) (Some err_fresh) = Some (Some s', pr_status s', Some (pr_buffer s'), e)"
    using assms(7,8) by (auto simp: smtp_step_def smtp_parse_def c_string_id bind_eq_Some_conv split: option.splits if_splits)
  then have h: "handler_smtp (env 0) (user\<lparr>uc_buffer := buf\<rparr>) l fs
      = Some (user\<lparr>uc_buffer := buf, uc_smtp := s'\<rparr>, fs, \<lparr>pair_buffer = pr_buffer s', pair_status = pr_status s'\<rparr>)"
    using assms(9) by (auto simp: handler_smtp_def Let_def)
  have "feed env 0 (user\<lparr>uc_buffer := buf\<rparr>) fs (l @ extra) = Some (user\<lparr>uc_buffer := buf, uc_smtp := s'\<rparr>, fs, pr_buffer s', [])"
    using assms(5,6,9) h by (subst feed.simps) (auto simp: c_string_id [OF assms(7)])
  with buf show ?thesis by auto
qed

section \<open>Properties\<close>

text \<open>
  C10: The way the text of a mail is cut into chunks does not matter. While a connection reads the
  text, any chunks of at least two bytes are handled without a reply and without undefined
  behaviour, and put the same lines into the text: the text grows by exactly the complete lines of
  the stream and the incomplete rest stays in the buffer, so that no byte is lost, doubled or
  reordered. The stream has no null byte, no two CRs in a row and no line with a single dot.
\<close>

theorem text_chunks_reassembled:
  assumes "smtp_inv (uc_smtp user)" "pr_fsm_state (uc_smtp user) = AUTOFSM_ST_READ_DATA" "vec_ok (uc_buffer user)"
    "split_lines (elems (uc_buffer user)) = ([], elems (uc_buffer user))" "s = elems (uc_buffer user) @ concat chunks"
    "c_string s" "no_cr_cr s" "\<forall>c\<in>set chunks. 2 \<le> length c" "split_lines s = (ls, r)" "SMTP_DATA_END \<notin> set ls"
  shows "\<exists>user'. run_inputs (read_chunk env) (user, fs) chunks = Some (user', fs) \<and> smtp_inv (uc_smtp user')
     \<and> pr_fsm_state (uc_smtp user') = AUTOFSM_ST_READ_DATA \<and> elems (uc_buffer user') = r
     \<and> elems (pr_mail_data (uc_smtp user')) = elems (pr_mail_data (uc_smtp user)) @ concat ls
     \<and> elems (pr_mail_data (uc_smtp user')) @ elems (uc_buffer user') = elems (pr_mail_data (uc_smtp user)) @ s
     \<and> pr_mail_from (uc_smtp user') = pr_mail_from (uc_smtp user) \<and> pr_rcpt_list (uc_smtp user') = pr_rcpt_list (uc_smtp user)"
  using read_chunks_text [OF assms, of env fs] split_lines_concat [OF assms(9)] by force

definition reading_user :: "string \<Rightarrow> user_context" where
  "reading_user s = (demo_client NULL)\<lparr>uc_smtp := fresh_smtp\<lparr>pr_fsm_state := AUTOFSM_ST_READ_DATA\<rparr>, uc_buffer := the (run_inputs (vec_push NUL) (vec_new NUL) s)\<rparr>"

lemma reading_user_ok:
  "smtp_inv (uc_smtp (reading_user s))" "pr_fsm_state (uc_smtp (reading_user s)) = AUTOFSM_ST_READ_DATA"
  "vec_ok (uc_buffer (reading_user s))" "elems (uc_buffer (reading_user s)) = s" "elems (pr_mail_data (uc_smtp (reading_user s))) = []"
proof -
  obtain v where "run_inputs (vec_push NUL) (vec_new NUL) s = Some v" "vec_ok v" "elems v = elems (vec_new NUL) @ s"
    using vec.push_all_E [of "vec_new NUL" NUL s] by auto
  then show "vec_ok (uc_buffer (reading_user s))" "elems (uc_buffer (reading_user s)) = s" by (simp_all add: reading_user_def)
  show "smtp_inv (uc_smtp (reading_user s))" using fresh_smtp_inv [of AUTOFSM_ST_READ_DATA] by (simp add: reading_user_def)
  show "pr_fsm_state (uc_smtp (reading_user s)) = AUTOFSM_ST_READ_DATA" by (simp add: reading_user_def)
  have "elems (pr_mail_data fresh_smtp) = []" by (simp add: fresh_smtp_def smtp_init_def VECTOR_INIT_def err_simps elems_def)
  then show "elems (pr_mail_data (uc_smtp (reading_user s))) = []" by (simp add: reading_user_def)
qed

theorem text_chunks_reassembled_witness:
  "\<exists>user'. run_inputs (read_chunk (\<lambda>_. demo_env)) (reading_user ''h'', demo_store)
       [''el'', ''lo'' @ [CHR 0x0D], [CHR 0x0A] @ ''wo''] = Some (user', demo_store)
     \<and> elems (pr_mail_data (uc_smtp user')) = crlf ''hello'' \<and> elems (uc_buffer user') = ''wo''"
proof -
  let ?s = "elems (uc_buffer (reading_user ''h'')) @ concat [''el'', ''lo'' @ [CHR 0x0D], [CHR 0x0A] @ ''wo'']"
  have s: "?s = ''hello'' @ [CHR 0x0D, CHR 0x0A] @ ''wo''" by (simp add: reading_user_ok)
  have f: "complete (first_line ''h'') = False" by (simp add: complete_def first_line_def SMTP_COMMAND_END_def Cons_eq_append_conv)
  have 1: "split_lines (elems (uc_buffer (reading_user ''h''))) = ([], elems (uc_buffer (reading_user ''h'')))"
    using f by (simp add: reading_user_ok split_lines.simps [of "''h''"])
  have l: "first_line (''hello'' @ [CHR 0x0D, CHR 0x0A] @ ''wo'') = crlf ''hello''" by (simp add: first_line_def crlf_def SMTP_COMMAND_END_def)
  have w: "complete (first_line ''wo'') = False" by (simp add: complete_def first_line_def SMTP_COMMAND_END_def Cons_eq_append_conv)
  have "complete (crlf ''hello'')" unfolding complete_def crlf_def by blast
  then have 2: "split_lines ?s = ([crlf ''hello''], ''wo'')"
    using w l unfolding s by (subst split_lines.simps) (simp add: split_lines.simps [of "''wo''"])
  have 3: "c_string ?s" unfolding s by (simp add: NUL_def)
  have 4: "no_cr_cr ?s" unfolding s by simp
  have 5: "SMTP_DATA_END \<notin> set [crlf ''hello'']" by (simp add: crlf_def SMTP_DATA_END_def SMTP_COMMAND_END_def)
  show ?thesis
    using text_chunks_reassembled [OF reading_user_ok(1-3) 1 refl 3 4 _ 2 5, of "\<lambda>_. demo_env" demo_store]
    by (auto simp: reading_user_ok)
qed

text \<open>
  C12: What a client sends after a command in the same chunk is lost. Of a chunk that starts a
  buffer, the first complete line is parsed and its reply is written, and the buffer is emptied
  whatever follows that line: pipelined commands, or the text sent together with DATA, are dropped.
\<close>

theorem pipelined_input_dropped:
  assumes "smtp_inv (uc_smtp user)" "vec_ok (uc_buffer user)" "elems (uc_buffer user) = []" "no_cr_cr (l @ extra)"
    "complete l" "first_line (l @ extra) = l" "c_string l" "smtp_step (uc_smtp user) l = Some s'"
    "pr_status s' \<in> {SMTP_STATUS_OK, SMTP_STATUS_WARNING}"
  shows "\<exists>v. read_bytes env user fs (l @ extra) = Some (user\<lparr>uc_smtp := s', uc_buffer := v\<rparr>, fs, pr_buffer s')
     \<and> vec_ok v \<and> elems v = []"
  by (rule read_one_command [OF assms])

theorem pipelined_input_dropped_witness:
  "\<exists>user'. read_bytes (\<lambda>_. demo_env) (demo_client NULL) demo_store (crlf ''MAIL FROM:<a@b.c>'' @ crlf ''RCPT TO:<x@y.z>'')
       = Some (user', demo_store, pr_buffer (uc_smtp user'))
     \<and> pr_mail_from (uc_smtp user') = Some \<lparr>user_name = Some ''a'', server_name = Some ''b.c''\<rparr>
     \<and> elems (pr_rcpt_list (uc_smtp user')) = [] \<and> elems (uc_buffer user') = []"
proof -
  let ?l = "crlf ''MAIL FROM:<a@b.c>''" and ?u = "demo_client NULL"
  from demo_client_ok(1,2) demo_lines(1) obtain s where s: "smtp_step (uc_smtp ?u) ?l = Some s"
    "pr_mail_from s = Some \<lparr>user_name = Some ''a'', server_name = Some ''b.c''\<rparr>" "elems (pr_rcpt_list s) = []" "pr_status s = SMTP_STATUS_OK"
    by (rule step_mail)
  have 1: "complete ?l" unfolding complete_def crlf_def by blast
  have 2: "first_line (?l @ crlf ''RCPT TO:<x@y.z>'') = ?l" "no_cr_cr (?l @ crlf ''RCPT TO:<x@y.z>'')"
    by (simp_all add: first_line_def crlf_def SMTP_COMMAND_END_def)
  have 3: "c_string ?l" by (simp add: crlf_def SMTP_COMMAND_END_def NUL_def)
  have b: "vec_ok (uc_buffer ?u)" "elems (uc_buffer ?u) = []" by (simp_all add: demo_client_def)
  from pipelined_input_dropped [OF demo_client_ok(1) b 2(2) 1 2(1) 3 s(1), of "\<lambda>_. demo_env" demo_store] s(4) obtain v where
    "read_bytes (\<lambda>_. demo_env) ?u demo_store (?l @ crlf ''RCPT TO:<x@y.z>'') = Some (?u\<lparr>uc_smtp := s, uc_buffer := v\<rparr>, demo_store, pr_buffer s)"
    "elems v = []" by auto
  then show ?thesis using s by (intro exI [of _ "?u\<lparr>uc_smtp := s, uc_buffer := v\<rparr>"]) simp
qed

text \<open>
  A buffer of one byte is tested for a line end in front of its start: when the first chunk of a
  line is a single byte, \<open>handler_read\<close> reads the two bytes before the array.
\<close>

theorem single_byte_reads_out_of_bounds:
  assumes "vec_ok (uc_buffer user)" "elems (uc_buffer user) @ bytes = [c]"
  shows "read_bytes env user fs bytes = UB"
proof -
  from vec.push_all_E [OF assms(1), of NUL bytes] obtain buf where
    buf: "run_inputs (vec_push NUL) (uc_buffer user) bytes = Some buf" "vec_ok buf" "elems buf = [c]" using assms(2) by auto
  from buf(2) obtain cells where v: "v_array buf = Some cells" "length cells = v_allocated buf" "v_size buf < v_allocated buf"
    by (auto simp: vec_ok_def)
  have n: "v_size buf = 1" using v buf(3) by (auto simp: elems_def dest: arg_cong [of _ _ length])
  obtain e' where e': "sub_str_iterate (Some (vec_itr cells 1 0 0)) = Some (Some (vec_itr cells 1 0 e'), True)" "e' \<le> 1" "e' = 1 \<or> 2 \<le> e'"
    using iterate_any [of 0 0 1 cells] v n by auto
  then have "is_line_and cells (itr_end (vec_itr cells 1 0 e') - 2) = UB" by (simp add: is_line_and_def arr_get_def)
  with e' v n have "line_loop env (Suc (v_size buf)) 0 (VECTOR_iterator buf) (user\<lparr>uc_buffer := buf\<rparr>) fs = UB"
    by (simp add: VECTOR_iterator_start)
  then show ?thesis using buf(1) by (simp add: read_bytes_def del: line_loop.simps)
qed

theorem single_byte_reads_out_of_bounds_witness:
  "read_bytes (\<lambda>_. demo_env) (demo_client NULL) demo_store ''H'' = UB"
  using single_byte_reads_out_of_bounds [of "demo_client NULL" "''H''" "CHR ''H''" "\<lambda>_. demo_env" demo_store] by (simp add: demo_client_def)

text \<open>
  C11: Sessions go on, unless a handler is overtaken. For a connected user of the list with nothing
  registered for its socket, the greeting that was written, a reply that was written and a chunk that
  was read (and handled without undefined behaviour) each end with the context back in the list and
  exactly one event registered for the socket: the next read, or the write of the answer up to its
  null byte. Only the reply to QUIT ends the session, with the descriptor closed once and context and
  timer gone. This is for handlers between whose steps no other thread runs. The handler of the
  greeting registers the read before it gives the context back: when the manager and another worker
  take that read in between, the worker finds no user and drops the bytes, the context comes back
  unchanged, and nothing is registered or pending for the socket: the session has stalled.
\<close>

theorem session_goes_on_unless_overtaken:
  assumes "el_registered s = Some q" "req_ok q" "0 \<le> uc_socket u"
    "req_view q (uc_socket u, SOCK_READ) = None" "req_view q (uc_socket u, SOCK_WRITE) = None"
    "List.find (\<lambda>x. uc_socket x = uc_socket u) (sv_users s) = Some u" "smtp_inv (uc_smtp u)" "timers_ok (sv_timers s)"
    "received_bytes buffer n = Some bytes" "read_bytes (env_mail env) u (sv_fs s) bytes = Some (u1, fs1, answer)"
    "\<forall>b. answer = Some b \<longrightarrow> NUL \<in> set b"
    "el_occurred s = Some occ" "\<forall>e\<in>set occ. ev_socket e \<noteq> uc_socket u" "distinct (map uc_socket (sv_users s))"
    "int (length (uc_read_buffer u)) = TEMPORARY_BUFFER_SIZE" "chunk \<noteq> []" "int (length chunk) \<le> TEMPORARY_BUFFER_SIZE"
  shows "(\<exists>s'. handler_hello_write env s (uc_socket u) CONNECTED = Some s' \<and> goes_on s s' u (read_request u))
    \<and> (\<exists>s'. handler_write env s (uc_socket u) CONNECTED = Some s' \<and>
            (if pr_status (uc_smtp u) = SMTP_STATUS_EXIT then is_over s s' (uc_socket u) else goes_on s s' u (read_request u)))
    \<and> (\<exists>s'. handler_read env s (uc_socket u) buffer n CONNECTED = Some s' \<and> sv_fs s' = fs1
            \<and> goes_on s s' u1 (case answer of NULL \<Rightarrow> read_request u1 | Some b \<Rightarrow> write_request u1 b (takeWhile (\<lambda>c. c \<noteq> NUL) b)))
    \<and> (\<exists>s1 acc s2 er ev s3. hello_register env s (uc_socket u) = Some (s1, Some acc)
            \<and> pollin_read [RecvData chunk] s1 (uc_socket u) (Some err_fresh) = Some (s2, True, er)
            \<and> el_occurred s2 = Some (occ @ [EvRead ev]) \<and> take (nat (rd_offset ev)) (rd_buffer ev) = chunk
            \<and> server_handlers env (pr_sock_read_execute ev) (s2\<lparr>el_occurred := Some occ\<rparr>) = Some s3
            \<and> stalled (hello_release env s3 (uc_socket u) (Some acc)) u
            \<and> sv_closed (hello_release env s3 (uc_socket u) (Some acc)) = sv_closed s)"
proof (intro conjI)
  show "\<exists>s'. handler_hello_write env s (uc_socket u) CONNECTED = Some s' \<and> goes_on s s' u (read_request u)"
    by (rule hello_write_goes_on [OF assms(1-4,6)])
  show "\<exists>s'. handler_write env s (uc_socket u) CONNECTED = Some s' \<and>
      (if pr_status (uc_smtp u) = SMTP_STATUS_EXIT then is_over s s' (uc_socket u) else goes_on s s' u (read_request u))"
    using write_goes_on [OF assms(1-4,6), of env] write_is_over [OF assms(6) _ assms(7,8), of env] by auto
  have "\<forall>b. answer = Some b \<longrightarrow> c_str (Some b) = Some (takeWhile (\<lambda>c. c \<noteq> NUL) (the answer))"
    using assms(11) by (auto simp: c_str_def)
  from read_goes_on [OF assms(1-6,9,10) this]
  show "\<exists>s'. handler_read env s (uc_socket u) buffer n CONNECTED = Some s' \<and> sv_fs s' = fs1
            \<and> goes_on s s' u1 (case answer of NULL \<Rightarrow> read_request u1 | Some b \<Rightarrow> write_request u1 b (takeWhile (\<lambda>c. c \<noteq> NUL) b))"
    by (auto split: option.splits)
qed (rule hello_write_overtaken [OF assms(1-6,12-17)])

definition demo_server :: "registered_events_queue \<Rightarrow> server" where
  "demo_server q = \<lparr>el_acceptors = Some [], el_index_acceptors_start = 0, el_registered = Some q,
     el_timers = [\<lparr>te_id = 0, te_socket = 4, te_period = 15, te_time_start = 0, te_handler = HANDLER_TIMER, te_has_delete = False, te_is_processed = False\<rparr>],
     el_occurred = Some [], el_is_run = True, el_thread = True, el_global_handler = 0, el_next_timer = 1, el_sent = [], el_reported = [],
     sv_users = [demo_client NULL], sv_timers = [\<lparr>tm_t = \<lparr>tm_socket = 4, tm_last_update = 0\<rparr>, tm_is_delete = False, tm_num_iterators = 0\<rparr>],
     sv_fs = demo_store, sv_closed = []\<rparr>"

definition demo_server_env :: server_env where
  "demo_server_env = \<lparr>env_hello_msg = ''220 '', env_timer_period = 60, env_now = 100, env_memory = demo_client NULL, env_mail = \<lambda>_. demo_env\<rparr>"

lemma demo_server_ok:
  "el_registered (demo_server q) = Some q" "timers_ok (sv_timers (demo_server q))" "sv_fs (demo_server q) = demo_store"
  "List.find (\<lambda>x. uc_socket x = uc_socket (demo_client NULL)) (sv_users (demo_server q)) = Some (demo_client NULL)"
  "uc_socket (demo_client NULL) = 4" "sv_closed (demo_server q) = []"
  by (simp_all add: demo_server_def timers_ok_def demo_client_def)

lemma demo_no_events: "req_ok []" "req_view [] k = None"
  by (simp_all add: req_ok_def req_view_def pr_req_get_sock_def)

lemma demo_half_line:
  assumes "vec_ok (uc_buffer u)" "elems (uc_buffer u) = []"
  shows "\<exists>v. read_bytes (\<lambda>_. demo_env) u demo_store ''HELO'' = Some (u\<lparr>uc_buffer := v\<rparr>, demo_store, NULL)"
proof -
  obtain buf where buf: "case feed (\<lambda>_. demo_env) 0 (u\<lparr>uc_buffer := buf\<rparr>) demo_store ''HELO'' of
       None \<Rightarrow> read_bytes (\<lambda>_. demo_env) u demo_store ''HELO'' = UB
     | Some (u', fs', answer, rest) \<Rightarrow>
         \<exists>v. vec_ok v \<and> elems v = rest \<and> read_bytes (\<lambda>_. demo_env) u demo_store ''HELO'' = Some (u'\<lparr>uc_buffer := v\<rparr>, fs', answer)"
    using read_bytes_feed [where env = "\<lambda>_. demo_env" and fs = demo_store and bytes = "''HELO''", OF assms(1)] assms(2) by auto
  have "\<not> complete (first_line ''HELO'')" by (simp add: complete_def first_line_def SMTP_COMMAND_END_def Cons_eq_append_conv)
  with buf show ?thesis by (subst (asm) feed.simps) auto
qed

text \<open>A client with the array it reads into.\<close>

definition fresh_client :: user_context where
  "fresh_client = demo_client NULL\<lparr>uc_read_buffer := replicate (nat TEMPORARY_BUFFER_SIZE) NUL\<rparr>"

theorem session_goes_on_unless_overtaken_witness:
  "\<exists>s. s = (demo_server [])\<lparr>sv_users := [fresh_client]\<rparr>
   \<and> (\<exists>s'. handler_hello_write demo_server_env s 4 CONNECTED = Some s' \<and> goes_on s s' fresh_client (read_request fresh_client))
   \<and> (\<exists>s' v. handler_read demo_server_env s 4 ''HELO'' 4 CONNECTED = Some s'
         \<and> goes_on s s' (fresh_client\<lparr>uc_buffer := v\<rparr>) (read_request fresh_client))
   \<and> (\<exists>s1 acc s2 er ev s3. hello_register demo_server_env s 4 = Some (s1, Some acc)
         \<and> pollin_read [RecvData ''QUIT''] s1 4 (Some err_fresh) = Some (s2, True, er) \<and> el_occurred s2 = Some [EvRead ev]
         \<and> server_handlers demo_server_env (pr_sock_read_execute ev) (s2\<lparr>el_occurred := Some []\<rparr>) = Some s3
         \<and> stalled (hello_release demo_server_env s3 4 (Some acc)) fresh_client)"
proof -
  let ?s = "(demo_server [])\<lparr>sv_users := [fresh_client]\<rparr>"
  have c: "uc_socket fresh_client = 4" "vec_ok (uc_buffer fresh_client)" "elems (uc_buffer fresh_client) = []" "smtp_inv (uc_smtp fresh_client)"
      "int (length (uc_read_buffer fresh_client)) = TEMPORARY_BUFFER_SIZE"
    using demo_client_ok(1) by (simp_all add: fresh_client_def demo_client_def TEMPORARY_BUFFER_SIZE_def)
  have d: "el_registered ?s = Some []" "timers_ok (sv_timers ?s)" "sv_fs ?s = demo_store" "el_occurred ?s = Some []"
      "List.find (\<lambda>x. uc_socket x = uc_socket fresh_client) (sv_users ?s) = Some fresh_client" "distinct (map uc_socket (sv_users ?s))"
      "0 \<le> uc_socket fresh_client" "received_bytes ''HELO'' 4 = Some ''HELO''"
    using demo_server_ok(2,3) by (simp_all add: demo_server_def c received_bytes_def)
  from demo_half_line [OF c(2,3)] obtain v where
    h: "read_bytes (env_mail demo_server_env) fresh_client (sv_fs ?s) ''HELO'' = Some (fresh_client\<lparr>uc_buffer := v\<rparr>, demo_store, NULL)"
    by (auto simp: demo_server_env_def d(3))
  have chunk: "''QUIT'' \<noteq> []" "int (length ''QUIT'') \<le> TEMPORARY_BUFFER_SIZE" by (simp_all add: TEMPORARY_BUFFER_SIZE_def)
  from session_goes_on_unless_overtaken [OF d(1) demo_no_events(1) d(7) demo_no_events(2) demo_no_events(2) d(5) c(4) d(2) d(8) h _ d(4) _ d(6) c(5) chunk]
  show ?thesis by (auto simp: c(1) read_request_def)
qed

text \<open>
  C13: The inactivity timer. Without an inactivity record for the socket the timer is marked as
  deleted; before the limit, and while a handler works for the user, nothing happens; after the
  limit the timer is marked as deleted and the 421 reply is registered. But when a write is
  already pending, as for a client that does not take its replies, the registration is refused
  and only logged: the timer is marked as deleted all the same, so that nothing is left that would
  ever close the connection.
\<close>

theorem timeout_lost_behind_pending_write:
  assumes "el_registered s = Some q" "req_ok q" "0 \<le> sock" "List.find (\<lambda>t. te_id t = d) (el_timers s) \<noteq> None"
    "timers_is_elapsed_for_socket (env_now env) (sv_timers s) sock (env_timer_period env) = Some elapsed"
  shows "(\<not> timers_is_exist_for_socket (sv_timers s) sock \<longrightarrow> handler_timer env s sock d =
            Some (s\<lparr>el_timers := tailq_update_first (\<lambda>t. te_id t = d) (\<lambda>t. t\<lparr>te_has_delete := True\<rparr>) (el_timers s)\<rparr>))
    \<and> (timers_is_exist_for_socket (sv_timers s) sock \<and> (\<not> elapsed \<or> \<not> users_list__is_exist (Some (sv_users s)) sock) \<longrightarrow>
         handler_timer env s sock d = Some s)
    \<and> (timers_is_exist_for_socket (sv_timers s) sock \<and> elapsed \<and> users_list__is_exist (Some (sv_users s)) sock \<longrightarrow>
         (\<exists>q'. handler_timer env s sock d = Some (s\<lparr>el_registered := Some q',
                 el_timers := tailq_update_first (\<lambda>t. te_id t = d) (\<lambda>t. t\<lparr>te_has_delete := True\<rparr>) (el_timers s)\<rparr>)
            \<and> req_ok q' \<and> req_view q' = (if req_view q (sock, SOCK_WRITE) = None
                                         then (req_view q)((sock, SOCK_WRITE) \<mapsto> timeout_request sock) else req_view q)))"
proof (intro conjI impI)
  assume "\<not> timers_is_exist_for_socket (sv_timers s) sock"
  then show "handler_timer env s sock d =
      Some (s\<lparr>el_timers := tailq_update_first (\<lambda>t. te_id t = d) (\<lambda>t. t\<lparr>te_has_delete := True\<rparr>) (el_timers s)\<rparr>)"
    using assms(4) by (simp add: handler_timer_def el_timer_free_def)
next
  assume "timers_is_exist_for_socket (sv_timers s) sock \<and> (\<not> elapsed \<or> \<not> users_list__is_exist (Some (sv_users s)) sock)"
  then show "handler_timer env s sock d = Some s" using assms(5) by (auto simp: handler_timer_def)
next
  assume "timers_is_exist_for_socket (sv_timers s) sock \<and> elapsed \<and> users_list__is_exist (Some (sv_users s)) sock"
  then have "timers_is_elapsed_for_socket (env_now env) (sv_timers s) sock (env_timer_period env) = Some True"
    "users_list__is_exist (Some (sv_users s)) sock" using assms(5) by simp_all
  from timer_run [OF assms(1-4) this]
  show "\<exists>q'. handler_timer env s sock d = Some (s\<lparr>el_registered := Some q',
                 el_timers := tailq_update_first (\<lambda>t. te_id t = d) (\<lambda>t. t\<lparr>te_has_delete := True\<rparr>) (el_timers s)\<rparr>)
            \<and> req_ok q' \<and> req_view q' = (if req_view q (sock, SOCK_WRITE) = None
                                         then (req_view q)((sock, SOCK_WRITE) \<mapsto> timeout_request sock) else req_view q)" .
qed

theorem timeout_lost_behind_pending_write_witness:
  "\<exists>q s'. req_view q (4, SOCK_WRITE) \<noteq> None \<and> handler_timer demo_server_env (demo_server q) 4 0 = Some s'
     \<and> el_timers s' = map (\<lambda>t. t\<lparr>te_has_delete := True\<rparr>) (el_timers (demo_server q))
     \<and> (\<exists>q'. el_registered s' = Some q' \<and> req_view q' = req_view q) \<and> sv_closed s' = []"
proof -
  have e: "timers_is_elapsed_for_socket (env_now demo_server_env) (sv_timers (demo_server q)) 4 (env_timer_period demo_server_env) = Some True"
    "timers_is_exist_for_socket (sv_timers (demo_server q)) 4" "users_list__is_exist (Some (sv_users (demo_server q))) 4" for q
    by (simp_all add: timers_is_elapsed_for_socket_def timers_is_exist_for_socket_def pr_timers_get_by_sock_def of_socket_def demo_server_def
        demo_server_env_def int32_add_def users_list__is_exist_def demo_client_def)
  obtain q where q: "req_ok q" "req_view q (4, SOCK_WRITE) \<noteq> None"
    using async_write_run [OF demo_server_ok(1) demo_no_events(1), of 4] demo_no_events(2) by (metis fun_upd_same option.distinct(1) zero_le_numeral)
  from timeout_lost_behind_pending_write [OF demo_server_ok(1) q(1) _ _ e(1), of 0] q(2) e show ?thesis
    by (intro exI [of _ q]) (auto simp: demo_server_def)
qed

text \<open>
  A disconnected client keeps its descriptor. When a read or a write reports that the client is
  gone, every handler takes its context and its inactivity record away and registers nothing, but
  none closes the descriptor of the socket: each such client costs the server one descriptor.
\<close>

theorem disconnect_leaks_descriptor:
  assumes "List.find (\<lambda>x. uc_socket x = sock) (sv_users s) = Some u" "smtp_inv (uc_smtp u)" "timers_ok (sv_timers s)"
  shows "\<exists>s'. handler_read env s sock buffer n DISCONNECTED = Some s' \<and> handler_write env s sock DISCONNECTED = Some s'
     \<and> handler_hello_write env s sock DISCONNECTED = Some s'
     \<and> sv_closed s' = sv_closed s \<and> el_registered s' = el_registered s \<and> el_occurred s' = el_occurred s
     \<and> sv_users s' = tailq_remove_first (\<lambda>x. uc_socket x = sock) (sv_users s) \<and> timers_view (sv_timers s') = (timers_view (sv_timers s))(sock := None)"
  using disconnected_run [OF assms(1,2)] timers_remove_view [OF assms(3)]
  by (simp add: handler_read_def handler_write_def handler_hello_write_def)

theorem disconnect_leaks_descriptor_witness:
  "\<exists>s'. handler_read demo_server_env (demo_server []) 4 '''' 0 DISCONNECTED = Some s' \<and> sv_users s' = [] \<and> sv_closed s' = []"
  using disconnect_leaks_descriptor [where env = demo_server_env and buffer = "[]" and n = 0, OF demo_server_ok(4) demo_client_ok(1) demo_server_ok(2), of "[]"]
  by (auto simp: demo_server_ok demo_server_def demo_client_def)
end
