(* ===== verification/Log.thy ===== *)
theory Log
  imports Vectors
begin

text \<open>
  The logger of the server, \<open>server/src/lib/log/context.c\<close>: the queue the threads write their messages
  to, the thread that takes the queue and prints it at every printer, and the end of the logger. A
  turn of the thread is what it does under one lock of the mutex of the queue, so that writers come
  between any two turns. What \<open>localtime\<close> and \<open>strftime\<close> make of a time is the argument \<open>clock\<close>,
  what \<open>qsort\<close> does the argument \<open>qs\<close>; the output is the list of the texts with their streams.
\<close>

section \<open>Messages, printers and the context\<close>

datatype log_level = ERROR_LEVEL | WARNING_LEVEL | INFO_LEVEL | DEBUG_LEVEL | OFF | INVALID_LEVEL

fun level_value :: "log_level \<Rightarrow> nat" where
  "level_value ERROR_LEVEL = 0"
| "level_value WARNING_LEVEL = 1"
| "level_value INFO_LEVEL = 2"
| "level_value DEBUG_LEVEL = 3"
| "level_value OFF = 4"
| "level_value INVALID_LEVEL = 5"

text \<open>The enumeration is compared by its values.\<close>

instantiation log_level :: linorder
begin

definition less_eq_log_level :: "log_level \<Rightarrow> log_level \<Rightarrow> bool" where
  "less_eq_log_level a b = (level_value a \<le> level_value b)"

definition less_log_level :: "log_level \<Rightarrow> log_level \<Rightarrow> bool" where
  "less_log_level a b = (level_value a < level_value b)"

instance
proof
  fix a b :: log_level
  assume "a \<le> b" "b \<le> a"
  then have "level_value a = level_value b" by (simp add: less_eq_log_level_def)
  then show "a = b" by (cases a; cases b) simp_all
qed (auto simp: less_eq_log_level_def less_log_level_def)

end

record log_message =
  lm_level :: log_level
  lm_time :: int
  lm_file :: string
  lm_function :: string
  lm_line :: nat
  lm_message :: "string ptr"

datatype printer_type = LOG_PRINTER_CONSOLE | LOG_PRINTER_FILE

text \<open>The printers share their first fields; the stream of a console printer is not used.\<close>

record printer_t =
  pt_level :: log_level
  pt_type :: printer_type
  pt_file :: nat

definition zero_printer :: printer_t where
  "zero_printer = \<lparr>pt_level = ERROR_LEVEL, pt_type = LOG_PRINTER_CONSOLE, pt_file = 0\<rparr>"

definition zero_message :: log_message where
  "zero_message = \<lparr>lm_level = ERROR_LEVEL, lm_time = 0, lm_file = [], lm_function = [], lm_line = 0, lm_message = NULL\<rparr>"

record log_context =
  lc_enabled_level :: log_level
  lc_messages :: "log_message list ptr"
  lc_num_messages :: nat
  lc_printers :: "printer_t vector ptr"
  lc_timeout :: nat
  lc_is_run :: bool

datatype sink = StdErr | Stream nat

type_synonym log_output = "(sink \<times> string) list"

text \<open>Which allocations of a turn of the thread succeed.\<close>

record log_mem =
  gm_queue :: bool
  gm_vector :: bool
  gm_reserve :: bool
  gm_push :: bool

definition log_mem_ok :: log_mem where
  "log_mem_ok = \<lparr>gm_queue = True, gm_vector = True, gm_reserve = True, gm_push = True\<rparr>"

section \<open>Printing one message\<close>

definition style :: "string \<Rightarrow> string" where "style s = CHR 0x1B # s"

definition debug_level_color :: "string list" where
  "debug_level_color = [style ''[31m'', style ''[33m'', style ''[32m'', style ''[36m'']"

definition debug_level_str :: "string list" where
  "debug_level_str = [''ERROR'', ''WARNING'', ''INFO'', ''DEBUG'']"

definition time_error :: string where
  "time_error = ''FATAL ERROR IN LOGGER: error converting time_t in struct tm''"

definition pr_printer_in_console :: "(int \<Rightarrow> string ptr) \<Rightarrow> log_message \<Rightarrow> log_output \<Rightarrow> log_output ub" where
  "pr_printer_in_console clock msg out =
     (case clock (lm_time msg) of
        NULL \<Rightarrow> Some (out @ [(StdErr, time_error)])
      | Some buf \<Rightarrow>
          do {
            color \<leftarrow> arr_get debug_level_color (int (level_value (lm_level msg)));
            name \<leftarrow> arr_get debug_level_str (int (level_value (lm_level msg)));
            body \<leftarrow> lm_message msg;
            Some (out @ [(StdErr, style ''[0m'' @ buf @ '' '' @ color @ name @ style ''[90m'' @ '' ['' @ lm_file msg @ '':''
              @ lm_function msg @ '':'' @ dec_string (lm_line msg) @ ''] '' @ style ''[0m'' @ '': '' @ body @ '' '' @ [CHR 0x0A])])
          })"

definition pr_printer_in_file :: "(int \<Rightarrow> string ptr) \<Rightarrow> log_message \<Rightarrow> nat \<Rightarrow> log_output \<Rightarrow> log_output ub" where
  "pr_printer_in_file clock msg f out =
     (case clock (lm_time msg) of
        NULL \<Rightarrow> Some (out @ [(StdErr, time_error)])
      | Some buf \<Rightarrow>
          do {
            name \<leftarrow> arr_get debug_level_str (int (level_value (lm_level msg)));
            body \<leftarrow> lm_message msg;
            Some (out @ [(Stream f, buf @ '' '' @ name @ '' ['' @ lm_file msg @ '':'' @ lm_function msg @ '':''
              @ dec_string (lm_line msg) @ '']: '' @ body @ [CHR 0x0A])])
          })"

definition pr_log_message_comparator :: "log_message \<Rightarrow> log_message \<Rightarrow> int" where
  "pr_log_message_comparator first second = (if lm_time first > lm_time second then 1 else - 1)"

section \<open>Printing the messages of a queue\<close>

text \<open>The loop \<open>for (i = 0; i < VECTOR_SIZE(v); ++i)\<close> over the cells of a vector.\<close>

definition vec_cells :: "'a vector ptr \<Rightarrow> 'a list ub" where
  "vec_cells p =
     do {
       v \<leftarrow> p;
       (if v_size v = 0 then Some []
        else do { cells \<leftarrow> v_array v; if v_size v \<le> length cells then Some (take (v_size v) cells) else UB })
     }"

definition push_message :: "log_mem \<Rightarrow> log_message vector \<times> log_output \<Rightarrow> log_message \<Rightarrow> (log_message vector \<times> log_output) ub" where
  "push_message mem s m =
     do {
       (v, e) \<leftarrow> VECTOR_PUSH_BACK (gm_push mem) zero_message (fst s) m err_fresh;
       Some (v, if failed e then snd s @ [(StdErr, ''FATAL ERROR IN LOGGER: error pushing message in vector messages for sorted print'')] else snd s)
     }"

definition pr_log_convert_msgq_to_msgv ::
    "log_mem \<Rightarrow> log_message list \<Rightarrow> int \<Rightarrow> log_output \<Rightarrow> (log_message vector ptr \<times> log_output) ub" where
  "pr_log_convert_msgq_to_msgv mem queue n out =
     (case fst (s_malloc (gm_vector mem) vec_empty NULL) of
        NULL \<Rightarrow> Some (NULL, out)
      | Some v \<Rightarrow>
          (case VECTOR_INIT_WITH_RESERVE (gm_reserve mem) zero_message (Some v) n err_fresh of
             (p, e) \<Rightarrow>
               if failed e then Some (NULL, out)
               else do { v1 \<leftarrow> p; (v2, out2) \<leftarrow> run_inputs (push_message mem) (v1, out) queue; Some (Some v2, out2) }))"

definition print_at :: "(int \<Rightarrow> string ptr) \<Rightarrow> log_level \<Rightarrow> log_message \<Rightarrow> log_output \<Rightarrow> printer_t \<Rightarrow> log_output ub" where
  "print_at clock enabled msg out p =
     (if pt_level p \<le> enabled \<and> pt_level p \<ge> lm_level msg
      then (case pt_type p of
              LOG_PRINTER_CONSOLE \<Rightarrow> pr_printer_in_console clock msg out
            | LOG_PRINTER_FILE \<Rightarrow> pr_printer_in_file clock msg (pt_file p) out)
      else Some out)"

definition print_message :: "(int \<Rightarrow> string ptr) \<Rightarrow> log_level \<Rightarrow> printer_t list \<Rightarrow> log_output \<Rightarrow> log_message \<Rightarrow> log_output ub" where
  "print_message clock enabled printers out msg = run_inputs (print_at clock enabled msg) out printers"

type_synonym qsort = "(log_message \<Rightarrow> log_message \<Rightarrow> int) \<Rightarrow> log_message list \<Rightarrow> log_message list"

definition pr_messages_print ::
    "qsort \<Rightarrow> (int \<Rightarrow> string ptr) \<Rightarrow> log_mem \<Rightarrow> log_context \<Rightarrow> log_message list \<Rightarrow> nat \<Rightarrow> log_output \<Rightarrow> log_output ub" where
  "pr_messages_print qs clock mem context messages msg_size out =
     (if msg_size > 0 then
        do {
          (msgv, out1) \<leftarrow> pr_log_convert_msgq_to_msgv mem messages (to_int32 (int msg_size)) out;
          cells \<leftarrow> vec_cells msgv;
          printers \<leftarrow> vec_cells (lc_printers context);
          run_inputs (print_message clock (lc_enabled_level context) printers) out1 (qs pr_log_message_comparator cells)
        }
      else Some out)"

section \<open>The thread\<close>

definition pr_log_is_run :: "log_context \<Rightarrow> bool" where
  "pr_log_is_run context = lc_is_run context"

text \<open>
  Where the thread is: at the head of its loop, about to look into the queue, back from
  \<open>pthread_cond_timedwait\<close>, with a queue to print, or at its end.
\<close>

datatype log_pc = Head | Looks | Woken | Prints "log_message list" nat | Ended

record logger =
  lg_context :: log_context
  lg_pc :: log_pc
  lg_out :: log_output

definition exit_line :: "sink \<times> string" where
  "exit_line = (StdErr, ''LOG EXIT OK'' @ [CHR 0x0A])"

definition log_exit :: "logger \<Rightarrow> logger" where
  "log_exit g = g\<lparr>lg_pc := Ended, lg_out := lg_out g @ [exit_line]\<rparr>"

text \<open>\<open>pr_log_wait_and_extract_messages\<close>: the allocation of the new queue, the test and the exchange under the mutex,
  and what follows a wait, during which the mutex is free.\<close>

definition extract_enter :: "log_mem \<Rightarrow> logger \<Rightarrow> logger" where
  "extract_enter mem g =
     (if gm_queue mem then g\<lparr>lg_pc := Looks\<rparr>
      else log_exit (g\<lparr>lg_out := lg_out g @ [(StdErr, ''FATAL ERROR IN LOGGER: error malloc for new log_queue'')]\<rparr>))"

definition extract_look :: "logger \<Rightarrow> logger ub" where
  "extract_look g =
     do {
       messages \<leftarrow> lc_messages (lg_context g);
       Some (if messages = [] then g\<lparr>lg_pc := Woken\<rparr>
             else g\<lparr>lg_pc := Prints messages (lc_num_messages (lg_context g)),
                    lg_context := (lg_context g)\<lparr>lc_messages := Some [], lc_num_messages := 0\<rparr>\<rparr>)
     }"

definition extract_woken :: "logger \<Rightarrow> logger" where
  "extract_woken g = (if \<not> pr_log_is_run (lg_context g) then log_exit g else g\<lparr>lg_pc := Looks\<rparr>)"

definition pr_log_thread :: "qsort \<Rightarrow> (int \<Rightarrow> string ptr) \<Rightarrow> log_mem \<Rightarrow> logger \<Rightarrow> logger ub" where
  "pr_log_thread qs clock mem g =
     (case lg_pc g of
        Head \<Rightarrow> Some (if pr_log_is_run (lg_context g) then extract_enter mem g else g\<lparr>lg_pc := Ended\<rparr>)
      | Looks \<Rightarrow> extract_look g
      | Woken \<Rightarrow> Some (extract_woken g)
      | Prints messages n \<Rightarrow>
          do {
            out \<leftarrow> pr_messages_print qs clock mem (lg_context g) messages n (lg_out g);
            Some (g\<lparr>lg_pc := Head, lg_out := out\<rparr>)
          }
      | Ended \<Rightarrow> Some g)"

section \<open>The functions the program calls\<close>

text \<open>
  When one of the steps of \<open>log_init\<close> fails it calls \<open>log_free\<close>, which joins a thread that was never
  started: undefined. \<open>ok1\<close> to \<open>ok3\<close> are the results of making the mutexes and the condition.
\<close>

definition log_init :: "bool \<Rightarrow> bool \<Rightarrow> bool \<Rightarrow> bool \<Rightarrow> bool \<Rightarrow> bool \<Rightarrow> bool \<Rightarrow> log_context ptr \<Rightarrow> (logger ptr \<times> bool) ub" where
  "log_init ok1 ok2 ok3 m_messages m_printers m_array m_push context =
     (case context of
        NULL \<Rightarrow> Some (NULL, False)
      | Some c \<Rightarrow>
          if ok1 \<and> ok2 \<and> ok3 \<and> m_messages \<and> m_printers then
            (case VECTOR_INIT m_array zero_printer (Some vec_empty) err_fresh of
               (p, e) \<Rightarrow>
                 if failed e then UB
                 else do {
                   v \<leftarrow> p;
                   (v1, e1) \<leftarrow> VECTOR_PUSH_BACK m_push zero_printer v
                     \<lparr>pt_level = DEBUG_LEVEL, pt_type = LOG_PRINTER_CONSOLE, pt_file = 0\<rparr> e;
                   (if failed e1 then UB
                    else Some (Some \<lparr>lg_context = c\<lparr>lc_enabled_level := DEBUG_LEVEL, lc_messages := Some [], lc_printers := Some v1,
                                      lc_timeout := 500, lc_is_run := True\<rparr>, lg_pc = Head, lg_out = []\<rparr>, True))
                 })
          else UB)"

definition log_file_writer :: "nat ptr \<Rightarrow> bool \<Rightarrow> log_level \<Rightarrow> log_context \<Rightarrow> (log_context \<times> bool) ub" where
  "log_file_writer opened m_push level context =
     (case opened of
        NULL \<Rightarrow> Some (context, False)
      | Some f \<Rightarrow>
          do {
            v \<leftarrow> lc_printers context;
            (v1, e) \<leftarrow> VECTOR_PUSH_BACK m_push zero_printer v \<lparr>pt_level = level, pt_type = LOG_PRINTER_FILE, pt_file = f\<rparr> err_fresh;
            Some (context\<lparr>lc_printers := Some v1\<rparr>, \<not> failed e)
          })"

definition log_console_set_level :: "log_level \<Rightarrow> log_context \<Rightarrow> (log_context \<times> bool) ub" where
  "log_console_set_level level context =
     do {
       v \<leftarrow> lc_printers context;
       cells \<leftarrow> v_array v;
       p \<leftarrow> arr_get cells 0;
       cells1 \<leftarrow> arr_set cells 0 (p\<lparr>pt_level := level\<rparr>);
       Some (context\<lparr>lc_printers := Some (v\<lparr>v_array := Some cells1\<rparr>)\<rparr>, True)
     }"

definition log_get_level :: "log_context \<Rightarrow> log_level" where
  "log_get_level context = lc_enabled_level context"

definition log_write :: "log_context ptr \<Rightarrow> log_message ptr \<Rightarrow> (log_context ptr \<times> bool) ub" where
  "log_write context message =
     (case (context, message) of
        (Some c, Some m) \<Rightarrow>
          do {
            q \<leftarrow> lc_messages c;
            Some (Some (c\<lparr>lc_messages := Some (q @ [m]), lc_num_messages := lc_num_messages c + 1\<rparr>), True)
          }
      | _ \<Rightarrow> Some (context, False))"

definition LOG_MAKE_MESSAGE :: "bool \<Rightarrow> log_level \<Rightarrow> string \<Rightarrow> string \<Rightarrow> nat \<Rightarrow> string ptr \<Rightarrow> log_message ptr" where
  "LOG_MAKE_MESSAGE mok level src function line formatted =
     (case fst (s_malloc mok zero_message NULL) of
        NULL \<Rightarrow> NULL
      | Some m \<Rightarrow> Some (m\<lparr>lm_message := formatted, lm_file := src, lm_function := function, lm_line := line, lm_level := level\<rparr>))"

definition WRITE_LOG ::
    "bool \<Rightarrow> int \<Rightarrow> log_level \<Rightarrow> string \<Rightarrow> string \<Rightarrow> nat \<Rightarrow> string ptr \<Rightarrow> logger \<Rightarrow> logger ub" where
  "WRITE_LOG mok now level src function line formatted g =
     (if log_get_level (lg_context g) \<ge> level then
        (case LOG_MAKE_MESSAGE mok level src function line formatted of
           NULL \<Rightarrow> Some (g\<lparr>lg_out := lg_out g @ [(StdErr, ''LOG FATAL ERROR: error allocating memory for message struct'' @ [CHR 0x0A])]\<rparr>)
         | Some m \<Rightarrow>
             do {
               (c, _) \<leftarrow> log_write (Some (lg_context g)) (Some (m\<lparr>lm_time := now\<rparr>));
               c1 \<leftarrow> c;
               Some (g\<lparr>lg_context := c1\<rparr>)
             })
      else Some g)"

definition pr_log_messages_queue_free ::
    "qsort \<Rightarrow> (int \<Rightarrow> string ptr) \<Rightarrow> log_mem \<Rightarrow> logger \<Rightarrow> logger ub" where
  "pr_log_messages_queue_free qs clock mem g =
     do {
       messages \<leftarrow> lc_messages (lg_context g);
       out \<leftarrow> pr_messages_print qs clock mem (lg_context g) messages (length messages) (lg_out g);
       Some (g\<lparr>lg_out := out\<rparr>)
     }"

text \<open>\<open>pthread_join\<close>: the thread takes its turns until its end.\<close>

partial_function (option) log_join ::
    "qsort \<Rightarrow> (int \<Rightarrow> string ptr) \<Rightarrow> log_mem \<Rightarrow> logger \<Rightarrow> logger ub" where
  "log_join qs clock mem g =
     (if lg_pc g = Ended then Some g
      else do { g1 \<leftarrow> pr_log_thread qs clock mem g; log_join qs clock mem g1 })"

definition log_free :: "qsort \<Rightarrow> (int \<Rightarrow> string ptr) \<Rightarrow> log_mem \<Rightarrow> logger \<Rightarrow> logger ub" where
  "log_free qs clock mem g =
     do {
       g1 \<leftarrow> log_join qs clock mem (g\<lparr>lg_context := (lg_context g)\<lparr>lc_is_run := False\<rparr>\<rparr>);
       g2 \<leftarrow> pr_log_messages_queue_free qs clock mem g1;
       Some (g2\<lparr>lg_context := (lg_context g2)\<lparr>lc_messages := NULL, lc_printers := NULL\<rparr>\<rparr>)
     }"

definition log_char_to_level :: "string \<Rightarrow> log_level" where
  "log_char_to_level level =
     (if level = ''ERROR'' then ERROR_LEVEL
      else if level = ''WARNING'' then WARNING_LEVEL
      else if level = ''INFO'' then INFO_LEVEL
      else if level = ''DEBUG'' then DEBUG_LEVEL
      else if level = ''OFF'' then OFF
      else INVALID_LEVEL)"

section \<open>What the thread prints\<close>

text \<open>A message of a level that has a name, with a text.\<close>

definition printable :: "log_message \<Rightarrow> bool" where
  "printable m \<longleftrightarrow> lm_level m \<le> DEBUG_LEVEL \<and> lm_message m \<noteq> NULL"

text \<open>What one printer makes of a message it is meant to show.\<close>

definition printer_text :: "(int \<Rightarrow> string ptr) \<Rightarrow> log_message \<Rightarrow> printer_t \<Rightarrow> sink \<times> string" where
  "printer_text clock m p =
     (let name = debug_level_str ! level_value (lm_level m);
          place = '' ['' @ lm_file m @ '':'' @ lm_function m @ '':'' @ dec_string (lm_line m)
      in case clock (lm_time m) of
           NULL \<Rightarrow> (StdErr, time_error)
         | Some t \<Rightarrow>
             (case pt_type p of
                LOG_PRINTER_CONSOLE \<Rightarrow>
                  (StdErr, style ''[0m'' @ t @ '' '' @ debug_level_color ! level_value (lm_level m) @ name @ style ''[90m'' @ place
                     @ ''] '' @ style ''[0m'' @ '': '' @ the (lm_message m) @ '' '' @ [CHR 0x0A])
              | LOG_PRINTER_FILE \<Rightarrow> (Stream (pt_file p), t @ '' '' @ name @ place @ '']: '' @ the (lm_message m) @ [CHR 0x0A])))"

definition shows_message :: "log_level \<Rightarrow> log_message \<Rightarrow> printer_t \<Rightarrow> bool" where
  "shows_message enabled m p \<longleftrightarrow> lm_level m \<le> pt_level p \<and> pt_level p \<le> enabled"

definition shown :: "(int \<Rightarrow> string ptr) \<Rightarrow> log_level \<Rightarrow> printer_t list \<Rightarrow> log_message \<Rightarrow> log_output" where
  "shown clock enabled printers m = map (printer_text clock m) (filter (shows_message enabled m) printers)"

lemma level_in_tables:
  assumes "l \<le> DEBUG_LEVEL"
  shows "arr_get debug_level_str (int (level_value l)) = Some (debug_level_str ! level_value l)"
    "arr_get debug_level_color (int (level_value l)) = Some (debug_level_color ! level_value l)"
  using assms by (auto simp: less_eq_log_level_def debug_level_str_def debug_level_color_def intro!: arr_get_nat)

lemma print_at_ok:
  assumes "printable m"
  shows "print_at clock enabled m out p = Some (out @ (if shows_message enabled m p then [printer_text clock m p] else []))"
proof -
  from assms obtain body where "lm_message m = Some body" "lm_level m \<le> DEBUG_LEVEL" by (auto simp: printable_def)
  then show ?thesis
    by (auto simp: print_at_def shows_message_def printer_text_def pr_printer_in_console_def pr_printer_in_file_def level_in_tables Let_def
        split: printer_type.splits option.splits)
qed

lemma print_message_ok:
  "printable m \<Longrightarrow> print_message clock enabled ps out m = Some (out @ shown clock enabled ps m)"
  unfolding print_message_def
  by (induction ps arbitrary: out) (simp_all add: shown_def print_at_ok)

lemma print_messages_ok:
  "\<forall>m\<in>set ms. printable m \<Longrightarrow>
   run_inputs (print_message clock enabled ps) out ms = Some (out @ concat (map (shown clock enabled ps) ms))"
  by (induction ms arbitrary: out) (simp_all add: print_message_ok)

lemma vec_cells_ok: "vec_ok v \<Longrightarrow> vec_cells (Some v) = Some (elems v)"
  by (auto simp: vec_cells_def vec_ok_def elems_def)

lemma push_message_ok:
  assumes "vec_ok v"
  shows "\<exists>v'. push_message log_mem_ok (v, out) m = Some (v', out) \<and> vec_ok v' \<and> elems v' = elems v @ [m]"
proof -
  from assms obtain v' e' where "VECTOR_PUSH_BACK True zero_message v m err_fresh = Some (v', e')" "vec_ok v'" "\<not> failed e'"
    "elems v' = elems v @ [m]" by (rule VECTOR_PUSH_BACK_E)
  then show ?thesis by (simp add: push_message_def log_mem_ok_def)
qed

lemma push_messages_ok:
  "vec_ok v \<Longrightarrow> \<exists>v'. run_inputs (push_message log_mem_ok) (v, out) ms = Some (v', out) \<and> vec_ok v' \<and> elems v' = elems v @ ms"
proof (induction ms arbitrary: v)
  case (Cons m ms)
  from push_message_ok [OF Cons.prems, of out m] obtain v1 where
    1: "push_message log_mem_ok (v, out) m = Some (v1, out)" "vec_ok v1" "elems v1 = elems v @ [m]" by blast
  from Cons.IH [OF 1(2)] 1 show ?case by auto
qed simp

text \<open>
  The vector is made with exactly as many cells as there are messages. A single message makes it
  grow from one cell to one cell, which is just enough.
\<close>

lemma convert_ok:
  assumes "ms \<noteq> []" "int (length ms) < 2 ^ 31"
  shows "\<exists>v. pr_log_convert_msgq_to_msgv log_mem_ok ms (to_int32 (int (length ms))) out = Some (Some v, out) \<and> vec_cells (Some v) = Some ms"
proof (cases "length ms = 1")
  case True
  then obtain m where "ms = [m]" by (cases ms) auto
  then show ?thesis
    by (auto simp: pr_log_convert_msgq_to_msgv_def to_int32_id log_mem_ok_def VECTOR_INIT_WITH_RESERVE_def err_simps vec_empty_def
        push_message_def VECTOR_PUSH_BACK_def VECTOR_SUCCESS_ERROR_def copy_cells_def arr_set_def vec_cells_def Let_def)
next
  case False
  let ?v = "vec_empty\<lparr>v_array := Some (replicate (length ms) zero_message), v_size := 0, v_allocated := length ms\<rparr>"
  have "2 \<le> length ms" using False assms(1) by (cases ms; cases "tl ms") auto
  then have v: "vec_ok ?v" "elems ?v = []" by (auto simp: vec_ok_def elems_def)
  from push_messages_ok [OF v(1), of out ms] v(2) obtain v' where
    "run_inputs (push_message log_mem_ok) (?v, out) ms = Some (v', out)" "vec_ok v'" "elems v' = ms" by auto
  then show ?thesis using assms(2)
    by (auto simp: pr_log_convert_msgq_to_msgv_def to_int32_id log_mem_ok_def VECTOR_INIT_WITH_RESERVE_def err_simps vec_cells_ok)
qed

text \<open>
  The comparison is an order of the elements of an array, as \<open>qsort\<close> asks for: of two elements at
  different places it says the same both ways round, and it is transitive. Only then does \<open>qsort\<close>
  rearrange the array, and in that order; nothing is known of its result otherwise.
\<close>

definition consistent :: "('a \<Rightarrow> 'a \<Rightarrow> int) \<Rightarrow> 'a list \<Rightarrow> bool" where
  "consistent cmp xs \<longleftrightarrow>
     (\<forall>i<length xs. \<forall>j<length xs. i \<noteq> j \<longrightarrow> sgn (cmp (xs ! i) (xs ! j)) = - sgn (cmp (xs ! j) (xs ! i)))
     \<and> (\<forall>i<length xs. \<forall>j<length xs. \<forall>k<length xs. distinct [i, j, k] \<longrightarrow>
          cmp (xs ! i) (xs ! j) \<le> 0 \<longrightarrow> cmp (xs ! j) (xs ! k) \<le> 0 \<longrightarrow> cmp (xs ! i) (xs ! k) \<le> 0)"

definition qsort_sorts :: "qsort \<Rightarrow> bool" where
  "qsort_sorts qs \<longleftrightarrow> (\<forall>xs. consistent pr_log_message_comparator xs \<longrightarrow>
     mset (qs pr_log_message_comparator xs) = mset xs
     \<and> sorted_wrt (\<lambda>a b. pr_log_message_comparator a b \<le> 0) (qs pr_log_message_comparator xs))"

text \<open>Messages of the same second come before each other: the comparison is an order only when there are none.\<close>

lemma comparator_inconsistent:
  "lm_time a = lm_time b \<Longrightarrow> pr_log_message_comparator a b = - 1 \<and> pr_log_message_comparator b a = - 1"
  by (simp add: pr_log_message_comparator_def)

lemma comparator_consistent: "consistent pr_log_message_comparator xs \<longleftrightarrow> distinct (map lm_time xs)"
proof
  assume c: "consistent pr_log_message_comparator xs"
  show "distinct (map lm_time xs)"
  proof (rule ccontr)
    assume "\<not> distinct (map lm_time xs)"
    then obtain i j where "i < length xs" "j < length xs" "i \<noteq> j" "lm_time (xs ! i) = lm_time (xs ! j)"
      by (auto simp: distinct_conv_nth)
    with c comparator_inconsistent [of "xs ! i" "xs ! j"] show False by (fastforce simp: consistent_def)
  qed
next
  assume d: "distinct (map lm_time xs)"
  then have "lm_time (xs ! i) \<noteq> lm_time (xs ! j)" if "i < length xs" "j < length xs" "i \<noteq> j" for i j
    using that by (auto simp: distinct_conv_nth)
  then show "consistent pr_log_message_comparator xs"
    by (fastforce simp: consistent_def pr_log_message_comparator_def)
qed

lemma mset_concat_map: "mset (concat (map f xs)) = (\<Sum>x\<in>#mset xs. mset (f x))"
  by (induction xs) simp_all

lemma mset_concat_cong: "mset xs = mset ys \<Longrightarrow> mset (concat (map f xs)) = mset (concat (map f ys))"
  by (simp only: mset_concat_map)

lemma messages_print_ok:
  assumes "qsort_sorts qs" "\<forall>m\<in>set ms. printable m" "int (length ms) < 2 ^ 31"
    "vec_cells (lc_printers c) = Some ps" "distinct (map lm_time ms)"
  shows "\<exists>out'. pr_messages_print qs clock log_mem_ok c ms (length ms) out = Some out'
    \<and> mset out' = mset out + mset (concat (map (shown clock (lc_enabled_level c) ps) ms))"
proof (cases "ms = []")
  case False
  let ?ms = "qs pr_log_message_comparator ms" and ?f = "shown clock (lc_enabled_level c) ps"
  have perm: "mset ?ms = mset ms" using assms(1,5) by (simp add: qsort_sorts_def comparator_consistent)
  then have s: "set ?ms = set ms" by (rule mset_eq_setD)
  have "mset (concat (map ?f ?ms)) = mset (concat (map ?f ms))" by (rule mset_concat_cong [OF perm])
  moreover from convert_ok [OF False assms(3), of out] obtain v where
    "pr_log_convert_msgq_to_msgv log_mem_ok ms (to_int32 (int (length ms))) out = Some (Some v, out)" "vec_cells (Some v) = Some ms" by blast
  moreover have "run_inputs (print_message clock (lc_enabled_level c) ps) out ?ms = Some (out @ concat (map ?f ?ms))"
    using assms(2) s by (intro print_messages_ok) simp
  ultimately show ?thesis using False assms(4) by (simp add: pr_messages_print_def)
qed (simp add: pr_messages_print_def)

section \<open>Writers and the thread, interleaved\<close>

datatype log_event = Writes log_message | Turn

fun log_step :: "qsort \<Rightarrow> (int \<Rightarrow> string ptr) \<Rightarrow> logger \<Rightarrow> log_event \<Rightarrow> logger ub" where
  "log_step qs clock g (Writes m) =
     do { (c, _) \<leftarrow> log_write (Some (lg_context g)) (Some m); c1 \<leftarrow> c; Some (g\<lparr>lg_context := c1\<rparr>) }"
| "log_step qs clock g Turn = pr_log_thread qs clock log_mem_ok g"

fun written :: "log_event list \<Rightarrow> log_message list" where
  "written [] = []"
| "written (Writes m # evs) = m # written evs"
| "written (Turn # evs) = written evs"

fun pending :: "log_pc \<Rightarrow> log_message list" where
  "pending (Prints ms n) = ms"
| "pending _ = []"

fun counted :: "log_pc \<Rightarrow> bool" where
  "counted (Prints ms n) \<longleftrightarrow> n = length ms"
| "counted _ \<longleftrightarrow> True"

text \<open>
  Every message that was written is printed, with the thread or in the queue; nothing else is
  printed but the line of the end of the thread, at most once.
\<close>

definition logger_inv :: "(int \<Rightarrow> string ptr) \<Rightarrow> log_level \<Rightarrow> printer_t list \<Rightarrow> log_message list \<Rightarrow> logger \<Rightarrow> bool" where
  "logger_inv clock en ps ms g \<longleftrightarrow>
     (\<exists>q ready k. lc_messages (lg_context g) = Some q \<and> lc_num_messages (lg_context g) = length q
        \<and> vec_cells (lc_printers (lg_context g)) = Some ps \<and> lc_enabled_level (lg_context g) = en
        \<and> mset ms = mset ready + mset (pending (lg_pc g)) + mset q
        \<and> mset (lg_out g) = mset (concat (map (shown clock en ps) ready)) + replicate_mset k exit_line
        \<and> k \<le> (if lg_pc g = Ended then 1 else 0) \<and> counted (lg_pc g) \<and> distinct (map lm_time (pending (lg_pc g))))"

text \<open>No two messages of the same second wait in the queue, now or at any time of a run.\<close>

definition queue_ordered :: "logger \<Rightarrow> bool" where
  "queue_ordered g \<longleftrightarrow> (\<forall>q. lc_messages (lg_context g) = Some q \<longrightarrow> distinct (map lm_time q))"

fun ordered_run :: "qsort \<Rightarrow> (int \<Rightarrow> string ptr) \<Rightarrow> logger \<Rightarrow> log_event list \<Rightarrow> bool" where
  "ordered_run qs clock g [] \<longleftrightarrow> queue_ordered g"
| "ordered_run qs clock g (ev # evs) \<longleftrightarrow>
     queue_ordered g \<and> (case log_step qs clock g ev of None \<Rightarrow> True | Some g1 \<Rightarrow> ordered_run qs clock g1 evs)"

lemma ordered_run_start: "ordered_run qs clock g evs \<Longrightarrow> queue_ordered g"
  by (cases evs) simp_all

lemma logger_write:
  assumes "logger_inv clock en ps ms g"
  shows "\<exists>g'. log_step qs clock g (Writes m) = Some g' \<and> logger_inv clock en ps (ms @ [m]) g'"
proof -
  from assms obtain q ready k where q: "lc_messages (lg_context g) = Some q" "lc_num_messages (lg_context g) = length q"
    "vec_cells (lc_printers (lg_context g)) = Some ps" "lc_enabled_level (lg_context g) = en"
    "mset ms = mset ready + mset (pending (lg_pc g)) + mset q"
    "mset (lg_out g) = mset (concat (map (shown clock en ps) ready)) + replicate_mset k exit_line"
    "k \<le> (if lg_pc g = Ended then 1 else 0)" "counted (lg_pc g)" "distinct (map lm_time (pending (lg_pc g)))"
    unfolding logger_inv_def by blast
  then show ?thesis
    by (auto simp: log_write_def logger_inv_def intro!: exI [of _ ready] exI [of _ k])
qed

lemma size_part: "mset ms = A + mset xs + B \<Longrightarrow> length xs \<le> length ms"
  by (metis le_add1 le_add2 le_trans size_mset size_union)

lemma set_part: "mset ms = A + mset xs + B \<Longrightarrow> \<forall>m\<in>set ms. P m \<Longrightarrow> \<forall>m\<in>set xs. P m"
  by (metis UnCI set_mset_mset set_mset_union)

lemma logger_turn:
  assumes "logger_inv clock en ps ms g" "qsort_sorts qs"
    "\<forall>m\<in>set ms. printable m" "int (length ms) < 2 ^ 31" "queue_ordered g"
  shows "\<exists>g'. pr_log_thread qs clock log_mem_ok g = Some g' \<and> logger_inv clock en ps ms g'
    \<and> lc_is_run (lg_context g') = lc_is_run (lg_context g) \<and> queue_ordered g'"
proof -
  from assms(1) obtain q ready k where q: "lc_messages (lg_context g) = Some q" "lc_num_messages (lg_context g) = length q"
    "vec_cells (lc_printers (lg_context g)) = Some ps" "lc_enabled_level (lg_context g) = en"
    and m: "mset ms = mset ready + mset (pending (lg_pc g)) + mset q"
    and out: "mset (lg_out g) = mset (concat (map (shown clock en ps) ready)) + replicate_mset k exit_line"
    and k: "k \<le> (if lg_pc g = Ended then 1 else 0)" "counted (lg_pc g)" "distinct (map lm_time (pending (lg_pc g)))"
    unfolding logger_inv_def by blast
  have d: "distinct (map lm_time q)" using assms(5) q(1) by (simp add: queue_ordered_def)
  show ?thesis
  proof (cases "lg_pc g")
    case Head
    then show ?thesis using q m out k d
      by (auto simp: pr_log_thread_def extract_enter_def log_mem_ok_def logger_inv_def queue_ordered_def intro!: exI [of _ ready])
  next
    case Looks
    then show ?thesis using q m out k d
      by (auto simp: pr_log_thread_def extract_look_def logger_inv_def queue_ordered_def intro!: exI [of _ ready])
  next
    case Woken
    then show ?thesis using q m out k d
      by (auto simp: pr_log_thread_def extract_woken_def log_exit_def logger_inv_def queue_ordered_def intro!: exI [of _ ready] exI [of _ 1])
  next
    case (Prints xs n)
    have n: "n = length xs" "k = 0" "distinct (map lm_time xs)" using k Prints by simp_all
    have p: "mset ms = mset ready + mset xs + mset q" using m Prints by simp
    have "int (length xs) < 2 ^ 31" using size_part [OF p] assms(4) by linarith
    from messages_print_ok [OF assms(2) set_part [OF p assms(3)] this q(3) n(3), of clock "lg_out g"] obtain out' where
      "pr_messages_print qs clock log_mem_ok (lg_context g) xs (length xs) (lg_out g) = Some out'"
      "mset out' = mset (lg_out g) + mset (concat (map (shown clock en ps) xs))" using q(4) by auto
    then show ?thesis using q out p n d Prints
      by (auto simp: pr_log_thread_def logger_inv_def queue_ordered_def intro!: exI [of _ "ready @ xs"])
  next
    case Ended
    then show ?thesis using assms(1,5) by (auto simp: pr_log_thread_def)
  qed
qed

lemma logger_run:
  assumes "logger_inv clock en ps ms g" "qsort_sorts qs"
    "\<forall>m\<in>set (ms @ written evs). printable m" "int (length (ms @ written evs)) < 2 ^ 31"
    "ordered_run qs clock g evs"
  shows "\<exists>g'. run_inputs (log_step qs clock) g evs = Some g' \<and> logger_inv clock en ps (ms @ written evs) g' \<and> queue_ordered g'"
  using assms(1,3-5)
proof (induction evs arbitrary: g ms)
  case (Cons ev evs)
  show ?case
  proof (cases ev)
    case (Writes m)
    obtain g1 where 1: "log_step qs clock g ev = Some g1" "logger_inv clock en ps (ms @ [m]) g1"
      using logger_write [OF Cons.prems(1)] Writes by blast
    from Cons.IH [OF 1(2)] Cons.prems(2-4) Writes 1(1) show ?thesis by simp
  next
    case Turn
    from logger_turn [OF Cons.prems(1) assms(2)] Cons.prems(2,3) ordered_run_start [OF Cons.prems(4)] obtain g1 where
      1: "pr_log_thread qs clock log_mem_ok g = Some g1" "logger_inv clock en ps ms g1" by auto
    from Cons.IH [OF 1(2)] Cons.prems(2-4) Turn 1(1) show ?thesis by simp
  qed
qed simp

text \<open>When the logger is to stop, the thread is at its end after at most three more turns.\<close>

fun turns_left :: "log_pc \<Rightarrow> nat" where
  "turns_left Looks = 3"
| "turns_left (Prints _ _) = 2"
| "turns_left Woken = 1"
| "turns_left Head = 1"
| "turns_left Ended = 0"

lemma turn_nearer:
  assumes "pr_log_thread qs clock log_mem_ok g = Some g'" "\<not> lc_is_run (lg_context g)" "lg_pc g \<noteq> Ended"
  shows "turns_left (lg_pc g') < turns_left (lg_pc g)"
  using assms
  by (cases "lg_pc g")
    (auto simp: pr_log_thread_def pr_log_is_run_def extract_look_def extract_woken_def log_exit_def bind_eq_Some_conv)

lemma join_ok:
  assumes "logger_inv clock en ps ms g" "qsort_sorts qs"
    "\<forall>m\<in>set ms. printable m" "int (length ms) < 2 ^ 31" "\<not> lc_is_run (lg_context g)" "queue_ordered g"
  shows "\<exists>g'. log_join qs clock log_mem_ok g = Some g' \<and> logger_inv clock en ps ms g' \<and> lg_pc g' = Ended \<and> queue_ordered g'"
  using assms(1,5,6)
proof (induction "turns_left (lg_pc g)" arbitrary: g rule: less_induct)
  case less
  show ?case
  proof (cases "lg_pc g = Ended")
    case True
    then show ?thesis using less.prems(1,3) by (subst log_join.simps) simp
  next
    case False
    from logger_turn [OF less.prems(1) assms(2-4) less.prems(3)] obtain g1 where
      1: "pr_log_thread qs clock log_mem_ok g = Some g1" "logger_inv clock en ps ms g1" "\<not> lc_is_run (lg_context g1)" "queue_ordered g1"
      using less.prems(2) by blast
    from less.hyps [OF turn_nearer [OF 1(1) less.prems(2) False] 1(2-4)] False 1(1) show ?thesis
      by (subst log_join.simps) simp
  qed
qed

lemma logger_inv_stop: "logger_inv clock en ps ms g \<Longrightarrow> logger_inv clock en ps ms (g\<lparr>lg_context := (lg_context g)\<lparr>lc_is_run := b\<rparr>\<rparr>)"
  by (simp add: logger_inv_def)

lemma queue_free_ok:
  assumes "logger_inv clock en ps ms g" "lg_pc g = Ended" "qsort_sorts qs"
    "\<forall>m\<in>set ms. printable m" "int (length ms) < 2 ^ 31" "queue_ordered g"
  shows "\<exists>g' k. pr_log_messages_queue_free qs clock log_mem_ok g = Some g' \<and> k \<le> 1
    \<and> mset (lg_out g') = mset (concat (map (shown clock en ps) ms)) + replicate_mset k exit_line"
proof -
  from assms(1,2) obtain q ready k where q: "lc_messages (lg_context g) = Some q"
    "vec_cells (lc_printers (lg_context g)) = Some ps" "lc_enabled_level (lg_context g) = en"
    and m: "mset ms = mset ready + mset q + {#}" and k: "k \<le> 1"
    and out: "mset (lg_out g) = mset (concat (map (shown clock en ps) ready)) + replicate_mset k exit_line"
    by (auto simp: logger_inv_def)
  have n: "int (length q) < 2 ^ 31" using size_part [OF m] assms(5) by linarith
  have "distinct (map lm_time q)" using assms(6) q(1) by (simp add: queue_ordered_def)
  from messages_print_ok [OF assms(3) set_part [OF m assms(4)] n q(2) this, of clock "lg_out g"] obtain out' where
    o: "pr_messages_print qs clock log_mem_ok (lg_context g) q (length q) (lg_out g) = Some out'"
    "mset out' = mset (lg_out g) + mset (concat (map (shown clock en ps) q))" using q(3) by auto
  have "mset (concat (map (shown clock en ps) ms)) = mset (concat (map (shown clock en ps) (ready @ q)))"
    by (rule mset_concat_cong) (simp add: m)
  with o q(1) out k show ?thesis by (auto simp: pr_log_messages_queue_free_def)
qed

section \<open>The printers\<close>

lemma log_init_ok:
  assumes "lc_num_messages c = 0"
  obtains g v where "log_init True True True True True True True (Some c) = Some (Some g, True)"
    "lg_pc g = Head" "lg_out g = []" "lc_messages (lg_context g) = Some []" "lc_num_messages (lg_context g) = 0"
    "lc_enabled_level (lg_context g) = DEBUG_LEVEL" "lc_is_run (lg_context g)"
    "lc_printers (lg_context g) = Some v" "vec_ok v" "elems v = [\<lparr>pt_level = DEBUG_LEVEL, pt_type = LOG_PRINTER_CONSOLE, pt_file = 0\<rparr>]"
proof -
  obtain v0 e0 where v0: "VECTOR_INIT True zero_printer (Some vec_empty) err_fresh = (Some v0, e0)" "vec_ok v0" "elems v0 = []" "\<not> failed e0"
    by (rule VECTOR_INIT_ok)
  from v0(2) obtain v1 e1 where
    "VECTOR_PUSH_BACK True zero_printer v0 \<lparr>pt_level = DEBUG_LEVEL, pt_type = LOG_PRINTER_CONSOLE, pt_file = 0\<rparr> e0 = Some (v1, e1)"
    "vec_ok v1" "\<not> failed e1" "elems v1 = elems v0 @ [\<lparr>pt_level = DEBUG_LEVEL, pt_type = LOG_PRINTER_CONSOLE, pt_file = 0\<rparr>]"
    by (rule VECTOR_PUSH_BACK_E)
  with v0 assms show ?thesis
    by (intro that [of "\<lparr>lg_context = c\<lparr>lc_enabled_level := DEBUG_LEVEL, lc_messages := Some [], lc_printers := Some v1,
          lc_timeout := 500, lc_is_run := True\<rparr>, lg_pc = Head, lg_out = []\<rparr>" v1]) (simp_all add: log_init_def)
qed

lemma log_file_writer_ok:
  assumes "lc_printers c = Some v" "vec_ok v"
  obtains v' where "log_file_writer (Some f) True level c = Some (c\<lparr>lc_printers := Some v'\<rparr>, True)" "vec_ok v'"
    "elems v' = elems v @ [\<lparr>pt_level = level, pt_type = LOG_PRINTER_FILE, pt_file = f\<rparr>]"
proof -
  from assms(2) obtain v' e' where
    "VECTOR_PUSH_BACK True zero_printer v \<lparr>pt_level = level, pt_type = LOG_PRINTER_FILE, pt_file = f\<rparr> err_fresh = Some (v', e')"
    "vec_ok v'" "\<not> failed e'" "elems v' = elems v @ [\<lparr>pt_level = level, pt_type = LOG_PRINTER_FILE, pt_file = f\<rparr>]"
    by (rule VECTOR_PUSH_BACK_E)
  with assms(1) show ?thesis by (intro that [of v']) (simp_all add: log_file_writer_def)
qed

lemma log_console_set_level_ok:
  assumes "lc_printers c = Some v" "vec_ok v" "elems v = p # ps"
  obtains v' where "log_console_set_level level c = Some (c\<lparr>lc_printers := Some v'\<rparr>, True)" "vec_ok v'"
    "elems v' = p\<lparr>pt_level := level\<rparr> # ps"
proof -
  from assms(2,3) obtain cells where v: "v_array v = Some cells" "length cells = v_allocated v" "v_size v < v_allocated v"
    "2 \<le> v_allocated v" "take (v_size v) cells = p # ps" by (auto simp: vec_ok_def elems_def)
  have "0 < v_size v" using v(5) by (cases "v_size v") auto
  then obtain cs where c: "cells = p # cs" using v by (cases cells; cases "v_size v") auto
  let ?v' = "v\<lparr>v_array := Some (p\<lparr>pt_level := level\<rparr> # cs)\<rparr>"
  have "vec_ok ?v'" "elems ?v' = p\<lparr>pt_level := level\<rparr> # ps"
    using v \<open>0 < v_size v\<close> unfolding c by (cases "v_size v", auto simp: vec_ok_def elems_def)+
  then show ?thesis using assms(1) v(1) unfolding c
    by (intro that [of ?v']) (simp_all add: log_console_set_level_def arr_get_def arr_set_def)
qed

text \<open>A printer whose level is off shows nothing, since no logger enables that level.\<close>

lemma off_printer_silent:
  "en \<le> DEBUG_LEVEL \<Longrightarrow> \<forall>p\<in>set ps. pt_level p = OFF \<Longrightarrow> shown clock en ps m = []"
  by (auto simp: shown_def shows_message_def less_eq_log_level_def filter_empty_conv)

section \<open>Properties\<close>

text \<open>
  C29: No log message is lost or printed twice, however the writers and the thread take their turns.
  From a logger that has just been started, after any interleaving of messages and turns of the
  thread, \<open>log_free\<close> returns, and the output is then, for every message and every printer whose
  level admits it, one line with its text; besides these at most the line of the end of the thread.
  Every message has a level with a name and a text. No two messages of the same second wait in
  the queue at the same time: of such messages the comparison says that each comes first, which is no
  order, and \<open>qsort\<close> then promises nothing, not even to keep the array (\<open>comparator_consistent\<close>).
\<close>

theorem log_prints_every_message:
  assumes "qsort_sorts qs" "\<forall>m\<in>set (written evs). printable m" "int (length (written evs)) < 2 ^ 31"
    "lg_pc g = Head" "lg_out g = []" "lc_messages (lg_context g) = Some []" "lc_num_messages (lg_context g) = 0"
    "vec_cells (lc_printers (lg_context g)) = Some ps" "ordered_run qs clock g evs"
  shows "\<exists>g1 g2 k. run_inputs (log_step qs clock) g evs = Some g1 \<and> log_free qs clock log_mem_ok g1 = Some g2 \<and> k \<le> 1
    \<and> mset (lg_out g2) = mset (concat (map (shown clock (lc_enabled_level (lg_context g)) ps) (written evs))) + replicate_mset k exit_line"
proof -
  have start: "logger_inv clock (lc_enabled_level (lg_context g)) ps [] g"
    using assms(4-8) by (auto simp: logger_inv_def)
  from logger_run [OF start assms(1), of evs] assms(2,3,9) obtain g1 where
    1: "run_inputs (log_step qs clock) g evs = Some g1" "logger_inv clock (lc_enabled_level (lg_context g)) ps (written evs) g1" "queue_ordered g1" by auto
  let ?g1 = "g1\<lparr>lg_context := (lg_context g1)\<lparr>lc_is_run := False\<rparr>\<rparr>"
  have stopped: "\<not> lc_is_run (lg_context ?g1)" "queue_ordered ?g1" using 1(3) by (simp_all add: queue_ordered_def)
  from join_ok [OF logger_inv_stop [OF 1(2)] assms(1-3) stopped] obtain g2 where
    2: "log_join qs clock log_mem_ok ?g1 = Some g2" "logger_inv clock (lc_enabled_level (lg_context g)) ps (written evs) g2" "lg_pc g2 = Ended"
      "queue_ordered g2" by auto
  from queue_free_ok [OF 2(2,3) assms(1-3) 2(4)] 1(1) 2(1) show ?thesis by (auto simp: log_free_def)
qed

definition sample_message :: "log_level \<Rightarrow> int \<Rightarrow> log_message" where
  "sample_message l t = \<lparr>lm_level = l, lm_time = t, lm_file = ''main.c'', lm_function = ''main'', lm_line = 42, lm_message = Some ''hi''\<rparr>"

definition sample_logger :: logger where
  "sample_logger = \<lparr>lg_context = \<lparr>lc_enabled_level = DEBUG_LEVEL, lc_messages = Some [], lc_num_messages = 0,
     lc_printers = Some \<lparr>v_size = 1, v_allocated = 5, v_array = Some (replicate 5 (zero_printer\<lparr>pt_level := WARNING_LEVEL\<rparr>))\<rparr>,
     lc_timeout = 500, lc_is_run = True\<rparr>, lg_pc = Head, lg_out = []\<rparr>"

text \<open>The printer shows the error, and not the information of the same second, which comes when the queue is empty again.\<close>

theorem log_prints_every_message_witness:
  "\<exists>g1 g2 k. run_inputs (log_step (\<lambda>cmp. sort_key lm_time) (\<lambda>t. Some ''12:00:00'')) sample_logger
       [Turn, Writes (sample_message ERROR_LEVEL 5), Turn, Writes (sample_message INFO_LEVEL 5), Turn] = Some g1
     \<and> log_free (\<lambda>cmp. sort_key lm_time) (\<lambda>t. Some ''12:00:00'') log_mem_ok g1 = Some g2 \<and> k \<le> 1
     \<and> mset (lg_out g2) = add_mset (printer_text (\<lambda>t. Some ''12:00:00'') (sample_message ERROR_LEVEL 5) (zero_printer\<lparr>pt_level := WARNING_LEVEL\<rparr>))
         (replicate_mset k exit_line)"
proof -
  let ?evs = "[Turn, Writes (sample_message ERROR_LEVEL 5), Turn, Writes (sample_message INFO_LEVEL 5), Turn]"
  have "qsort_sorts (\<lambda>cmp. sort_key lm_time)"
    using sorted_sort_key [of lm_time] by (simp add: qsort_sorts_def pr_log_message_comparator_def sorted_map not_less) blast
  moreover have "ordered_run (\<lambda>cmp. sort_key lm_time) (\<lambda>t. Some ''12:00:00'') sample_logger ?evs"
    by (auto simp: queue_ordered_def sample_logger_def sample_message_def pr_log_thread_def pr_log_is_run_def extract_enter_def extract_look_def
        log_mem_ok_def log_write_def bind_eq_Some_conv split: option.split)
  moreover have "\<forall>m\<in>set (written ?evs). printable m" by (simp add: sample_message_def printable_def less_eq_log_level_def)
  ultimately show ?thesis
    using log_prints_every_message [of "\<lambda>cmp. sort_key lm_time" ?evs sample_logger "[zero_printer\<lparr>pt_level := WARNING_LEVEL\<rparr>]" "\<lambda>t. Some ''12:00:00''"]
    by (simp add: sample_logger_def sample_message_def vec_cells_def shown_def shows_message_def less_eq_log_level_def)
qed

end
