(* ===== verification/Patterns.thy ===== *)
theory Patterns
  imports Smtp
begin

text \<open>
  The patterns of \<open>server/include/smtp/regex.h\<close> as the strings they are, a parser for the extended
  regular expressions they use, and \<open>smtp_lib_init\<close> of \<open>smtp/state.c\<close>, which compiles them. The theorem
  connects them with the expressions of the theory \<open>Regex\<close>, with which the commands are parsed.
\<close>

section \<open>The syntax of patterns\<close>

text \<open>A bracket holds ranges of characters and named classes; a repetition has a bound or none.\<close>

datatype item = Between char char | Named string

datatype ere = ELit char | EAny | EBracket bool "item list" | ECat ere ere | EAlt ere ere | ERep ere nat "nat option"

text \<open>The name of a class, up to its end.\<close>

fun class_name :: "string \<Rightarrow> (string \<times> string) option" where
  "class_name [] = None"
| "class_name [c] = None"
| "class_name (c # d # s) =
     (if c = CHR '':'' \<and> d = CHR '']'' then Some ([], s)
      else do { (nm, s1) \<leftarrow> class_name (d # s); Some (c # nm, s1) })"

text \<open>The items of a bracket, up to its end; a closing bracket at their start is an item.\<close>

fun re_items :: "nat \<Rightarrow> bool \<Rightarrow> string \<Rightarrow> (item list \<times> string) option" where
  "re_items 0 start s = None"
| "re_items (Suc n) start s =
     (case s of
        [] \<Rightarrow> None
      | c # s1 \<Rightarrow>
          if c = CHR '']'' \<and> \<not> start then Some ([], s1)
          else if c = CHR ''['' \<and> s1 \<noteq> [] \<and> hd s1 = CHR '':'' then
            do { (nm, s2) \<leftarrow> class_name (tl s1); (is, s3) \<leftarrow> re_items n False s2; Some (Named nm # is, s3) }
          else if 2 \<le> length s1 \<and> hd s1 = CHR ''-'' \<and> s1 ! 1 \<noteq> CHR '']'' then
            do { (is, s3) \<leftarrow> re_items n False (drop 2 s1); Some (Between c (s1 ! 1) # is, s3) }
          else do { (is, s3) \<leftarrow> re_items n False s1; Some (Between c c # is, s3) })"

text \<open>The repetition behind an atom, if there is one.\<close>

definition digits_value :: "string \<Rightarrow> nat" where
  "digits_value s = foldl (\<lambda>n c. 10 * n + (of_char c - 48)) 0 s"

definition re_bounds :: "string \<Rightarrow> ((nat \<times> nat option) \<times> string) option" where
  "re_bounds s =
     (let m = takeWhile is_digit s; s1 = dropWhile is_digit s in
      if m = [] \<or> s1 = [] then None
      else if hd s1 = CHR ''}'' then Some ((digits_value m, Some (digits_value m)), tl s1)
      else if hd s1 = CHR '','' then
        (let n = takeWhile is_digit (tl s1); s2 = dropWhile is_digit (tl s1) in
         if s2 = [] \<or> hd s2 \<noteq> CHR ''}'' then None
         else Some ((digits_value m, if n = [] then None else Some (digits_value n)), tl s2))
      else None)"

definition re_repeated :: "ere \<Rightarrow> string \<Rightarrow> (ere \<times> string) option" where
  "re_repeated a s =
     (case s of
        [] \<Rightarrow> Some (a, s)
      | c # s1 \<Rightarrow>
          if c = CHR ''*'' then Some (ERep a 0 None, s1)
          else if c = CHR ''+'' then Some (ERep a 1 None, s1)
          else if c = CHR ''?'' then Some (ERep a 0 (Some 1), s1)
          else if c = CHR ''{'' then do { ((m, n), s2) \<leftarrow> re_bounds s1; Some (ERep a m n, s2) }
          else Some (a, s))"

text \<open>
  Alternatives, branches and atoms. Anchors, repetitions of repetitions and escaped letters are not
  used by the patterns, and are no patterns here.
\<close>

fun re_alt :: "nat \<Rightarrow> string \<Rightarrow> (ere \<times> string) option"
  and re_branch :: "nat \<Rightarrow> string \<Rightarrow> (ere \<times> string) option"
  and re_atom :: "nat \<Rightarrow> string \<Rightarrow> (ere \<times> string) option" where
  "re_alt 0 s = None"
| "re_alt (Suc n) s =
     do {
       (r, s1) \<leftarrow> re_branch n s;
       (if s1 \<noteq> [] \<and> hd s1 = CHR ''|'' then do { (q, s2) \<leftarrow> re_alt n (tl s1); Some (EAlt r q, s2) }
        else Some (r, s1))
     }"
| "re_branch 0 s = None"
| "re_branch (Suc n) s =
     do {
       (a, s1) \<leftarrow> re_atom n s;
       (r, s2) \<leftarrow> re_repeated a s1;
       (if s2 = [] \<or> hd s2 = CHR '')'' \<or> hd s2 = CHR ''|'' then Some (r, s2)
        else do { (q, s3) \<leftarrow> re_branch n s2; Some (ECat r q, s3) })
     }"
| "re_atom 0 s = None"
| "re_atom (Suc n) s =
     (case s of
        [] \<Rightarrow> None
      | c # s1 \<Rightarrow>
          if c = CHR ''('' then
            do { (r, s2) \<leftarrow> re_alt n s1; (if s2 \<noteq> [] \<and> hd s2 = CHR '')'' then Some (r, tl s2) else None) }
          else if c = CHR ''['' then
            (if s1 \<noteq> [] \<and> hd s1 = CHR ''^'' then do { (is, s2) \<leftarrow> re_items n True (tl s1); Some (EBracket False is, s2) }
             else do { (is, s2) \<leftarrow> re_items n True s1; Some (EBracket True is, s2) })
          else if c = CHR 0x5C then (if s1 \<noteq> [] \<and> \<not> is_alnum (hd s1) then Some (ELit (hd s1), tl s1) else None)
          else if c = CHR ''.'' then Some (EAny, s1)
          else if c \<in> set ''*+?{)|^$'' then None
          else Some (ELit c, s1))"

text \<open>Three calls at most for every character, and three more.\<close>

definition re_parse :: "string \<Rightarrow> ere option" where
  "re_parse s = (case re_alt (3 * length s + 3) s of Some (r, []) \<Rightarrow> Some r | _ \<Rightarrow> None)"

section \<open>Their meaning\<close>

definition to_upper :: "char \<Rightarrow> char" where
  "to_upper c = (if 97 \<le> (of_char c :: nat) \<and> (of_char c :: nat) \<le> 122 then char_of (of_char c - 32 :: nat) else c)"

text \<open>The classes of the patterns; a name that is none has no characters.\<close>

definition in_class :: "string \<Rightarrow> char \<Rightarrow> bool" where
  "in_class nm c \<longleftrightarrow> nm = ''alnum'' \<and> is_alnum c \<or> nm = ''space'' \<and> is_space c"

fun in_item :: "item \<Rightarrow> char \<Rightarrow> bool" where
  "in_item (Between a b) c \<longleftrightarrow> (of_char a :: nat) \<le> of_char c \<and> (of_char c :: nat) \<le> of_char b"
| "in_item (Named nm) c \<longleftrightarrow> in_class nm c"

text \<open>With \<open>REG_ICASE\<close> a character is in a bracket when one of its cases is.\<close>

definition in_bracket :: "item list \<Rightarrow> char \<Rightarrow> bool" where
  "in_bracket is c \<longleftrightarrow> (\<exists>i\<in>set is. in_item i c \<or> in_item i (to_lower c) \<or> in_item i (to_upper c))"

fun rx_rep :: "rx \<Rightarrow> nat \<Rightarrow> nat option \<Rightarrow> rx" where
  "rx_rep r (Suc m) n = Seq r (rx_rep r m (map_option (\<lambda>k. k - 1) n))"
| "rx_rep r 0 None = Star r"
| "rx_rep r 0 (Some 0) = Eps"
| "rx_rep r 0 (Some (Suc k)) = Alt (Seq r (rx_rep r 0 (Some k))) Eps"

fun rx_of :: "ere \<Rightarrow> rx" where
  "rx_of (ELit c) = Lit c"
| "rx_of EAny = Cls (\<lambda>c. True)"
| "rx_of (EBracket b is) = Cls (\<lambda>c. in_bracket is c = b)"
| "rx_of (ECat r q) = Seq (rx_of r) (rx_of q)"
| "rx_of (EAlt r q) = Alt (rx_of r) (rx_of q)"
| "rx_of (ERep r m n) = rx_rep (rx_of r) m n"

text \<open>\<open>regcomp\<close> with \<open>REG_EXTENDED | REG_ICASE\<close>, or its failure.\<close>

definition regcomp :: "string \<Rightarrow> rx option" where
  "regcomp s = map_option rx_of (re_parse s)"

section \<open>The patterns of \<open>regex.h\<close>\<close>

definition ALNUM :: string where "ALNUM = CHR ''['' # ''[:alnum:]'' @ '']''"
definition SPACE :: string where "SPACE = CHR ''['' # ''[:space:]'' @ '']''"
definition BACKSLASH :: string where "BACKSLASH = [CHR 0x5C]"

definition PAT_DOMAIN :: string where "PAT_DOMAIN = ''('' @ ALNUM @ ''+'' @ BACKSLASH @ ''.)+'' @ ALNUM @ ''+''"
definition PAT_IPv4 :: string where
  "PAT_IPv4 = ''((25[0-5]|2[0-4][0-9]|[01]?[0-9][0-9]?)'' @ BACKSLASH @ ''.){3}(25[0-5]|2[0-4][0-9]|[01]?[0-9][0-9]?)''"
definition PAT_ADDRESS_LITERAL :: string where "PAT_ADDRESS_LITERAL = BACKSLASH @ ''['' @ PAT_IPv4 @ BACKSLASH @ '']''"
definition PAT_AT_DOMAIN :: string where "PAT_AT_DOMAIN = ''@'' @ PAT_DOMAIN"
definition PAT_MAILBOX :: string where "PAT_MAILBOX = ALNUM @ ''+'' @ PAT_AT_DOMAIN"
definition PAT_ROUTE_PATH :: string where
  "PAT_ROUTE_PATH = ''(('' @ PAT_AT_DOMAIN @ SPACE @ ''*,'' @ SPACE @ ''*)*'' @ PAT_AT_DOMAIN @ SPACE @ ''*:'' @ SPACE @ ''*){0,1}''"
definition PAT_PATH :: string where "PAT_PATH = ''<'' @ PAT_ROUTE_PATH @ PAT_MAILBOX @ ''>''"
definition PAT_HELLO :: string where "PAT_HELLO = ''((ehlo)|(helo))'' @ SPACE @ ''+''"
definition PAT_EMPTY_PATH :: string where "PAT_EMPTY_PATH = ''<>''"
definition PAT_MAIL_FROM :: string where
  "PAT_MAIL_FROM = ''mail'' @ SPACE @ ''+from'' @ SPACE @ ''*:'' @ SPACE @ ''*''"
definition PAT_RCPT_TO :: string where
  "PAT_RCPT_TO = ''rcpt'' @ SPACE @ ''+to'' @ SPACE @ ''*:'' @ SPACE @ ''*''"
definition PAT_DATA :: string where "PAT_DATA = ''data''"
definition PAT_RSET :: string where "PAT_RSET = ''rset''"
definition PAT_VRFY :: string where "PAT_VRFY = ''vrfy''"
definition PAT_EXPN :: string where "PAT_EXPN = ''expn''"
definition PAT_HELP :: string where "PAT_HELP = ''help''"
definition PAT_NOOP :: string where "PAT_NOOP = ''noop''"
definition PAT_QUIT :: string where "PAT_QUIT = ''quit''"

lemmas pat_defs = ALNUM_def SPACE_def BACKSLASH_def PAT_DOMAIN_def PAT_IPv4_def PAT_ADDRESS_LITERAL_def PAT_AT_DOMAIN_def
  PAT_MAILBOX_def PAT_ROUTE_PATH_def PAT_PATH_def PAT_HELLO_def PAT_EMPTY_PATH_def PAT_MAIL_FROM_def PAT_RCPT_TO_def
  PAT_DATA_def PAT_RSET_def PAT_VRFY_def PAT_EXPN_def PAT_HELP_def PAT_NOOP_def PAT_QUIT_def

text \<open>The compiled patterns. That of the postmaster is compiled from the one of a path.\<close>

record smtp_patterns =
  pr_smtp_reg_hello :: "rx option"
  pr_smtp_reg_mailform :: "rx option"
  pr_smtp_reg_rcptto :: "rx option"
  pr_smtp_reg_data :: "rx option"
  pr_smtp_reg_rset :: "rx option"
  pr_smtp_reg_vrfy :: "rx option"
  pr_smtp_reg_expn :: "rx option"
  pr_smtp_reg_help :: "rx option"
  pr_smtp_reg_noop :: "rx option"
  pr_smtp_reg_quit :: "rx option"
  pr_smtp_reg_domain :: "rx option"
  pr_smtp_reg_addr_literal :: "rx option"
  pr_smtp_reg_mailbox :: "rx option"
  pr_smtp_reg_path :: "rx option"
  pr_smtp_reg_empty_path :: "rx option"
  pr_smtp_reg_postmaster :: "rx option"

definition smtp_lib_init :: smtp_patterns where
  "smtp_lib_init =
     \<lparr>pr_smtp_reg_hello = regcomp PAT_HELLO,
      pr_smtp_reg_mailform = regcomp PAT_MAIL_FROM,
      pr_smtp_reg_rcptto = regcomp PAT_RCPT_TO,
      pr_smtp_reg_data = regcomp PAT_DATA,
      pr_smtp_reg_rset = regcomp PAT_RSET,
      pr_smtp_reg_vrfy = regcomp PAT_VRFY,
      pr_smtp_reg_expn = regcomp PAT_EXPN,
      pr_smtp_reg_help = regcomp PAT_HELP,
      pr_smtp_reg_noop = regcomp PAT_NOOP,
      pr_smtp_reg_quit = regcomp PAT_QUIT,
      pr_smtp_reg_domain = regcomp PAT_DOMAIN,
      pr_smtp_reg_addr_literal = regcomp PAT_ADDRESS_LITERAL,
      pr_smtp_reg_mailbox = regcomp PAT_MAILBOX,
      pr_smtp_reg_path = regcomp PAT_PATH,
      pr_smtp_reg_empty_path = regcomp PAT_EMPTY_PATH,
      pr_smtp_reg_postmaster = regcomp PAT_PATH\<rparr>"

definition smtp_lib_free :: "smtp_patterns \<Rightarrow> smtp_patterns" where
  "smtp_lib_free p =
     p\<lparr>pr_smtp_reg_hello := None, pr_smtp_reg_mailform := None, pr_smtp_reg_rcptto := None, pr_smtp_reg_data := None,
       pr_smtp_reg_rset := None, pr_smtp_reg_vrfy := None, pr_smtp_reg_expn := None, pr_smtp_reg_help := None,
       pr_smtp_reg_noop := None, pr_smtp_reg_quit := None, pr_smtp_reg_domain := None, pr_smtp_reg_addr_literal := None,
       pr_smtp_reg_mailbox := None, pr_smtp_reg_path := None, pr_smtp_reg_empty_path := None, pr_smtp_reg_postmaster := None\<rparr>"

section \<open>Expressions with the same language\<close>

text \<open>A search finds the same match for two expressions with the same language.\<close>

lemma longest_cong: "set ns = set ms \<Longrightarrow> longest ns = longest ms"
proof (cases "ns = []")
  case False
  assume e: "set ns = set ms"
  then have "ms \<noteq> []" using False by auto
  from longest_in [OF False] longest_in [OF this] e show ?thesis
    by (intro antisym longest_ge) simp_all
qed auto

lemma regexec_cong:
  assumes "lang r = lang q"
  shows "regexec r s = regexec q s"
proof -
  have ends: "set (ends r s) = set (ends q s)" for s
    using ends_lang [of _ r s] ends_lang [of _ q s] assms by auto
  have none: "ends r s = [] \<longleftrightarrow> ends q s = []" for s using ends [of s] by (metis set_empty)
  have step: "regexec_from x i s = (if ends x s = [] then (case s of [] \<Rightarrow> None | _ # s' \<Rightarrow> regexec_from x (Suc i) s')
      else Some (i, i + longest (ends x s)))" for x i s
    by (subst regexec_from.simps) (simp split: list.split)
  have "regexec_from r i s = regexec_from q i s" for i
  proof (induction s arbitrary: i)
    case Nil
    show ?case using none [of "[]"] longest_cong [OF ends [of "[]"]] by (simp add: step [of _ _ "[]"])
  next
    case (Cons c s)
    show ?case using none [of "c # s"] longest_cong [OF ends [of "c # s"]] Cons.IH [of "Suc i"] by (simp add: step [of _ _ "c # s"])
  qed
  then show ?thesis by (simp add: regexec_def)
qed

definition conc :: "string set \<Rightarrow> string set \<Rightarrow> string set" where
  "conc A B = {u @ v | u v. u \<in> A \<and> v \<in> B}"

lemma conc_assoc: "conc (conc A B) C = conc A (conc B C)"
  by (auto simp: conc_def) (metis append.assoc)+

lemma conc_unit: "conc A {[]} = A"
  by (auto simp: conc_def)

lemma lang_Seq: "lang (Seq r q) = conc (lang r) (lang q)"
  by (simp add: conc_def)

section \<open>The parsed patterns\<close>

fun e_cat :: "ere list \<Rightarrow> ere" where
  "e_cat [] = undefined"
| "e_cat [r] = r"
| "e_cat (r # q # rs) = ECat r (e_cat (q # rs))"

abbreviation "e_alnum \<equiv> EBracket True [Named ''alnum'']"
abbreviation "e_space \<equiv> EBracket True [Named ''space'']"
abbreviation "e_range a b \<equiv> EBracket True [Between a b]"
abbreviation "e_star r \<equiv> ERep r 0 None"
abbreviation "e_plus r \<equiv> ERep r (Suc 0) None"
abbreviation "e_opt r \<equiv> ERep r 0 (Some (Suc 0))"

definition e_domain :: "ere list" where
  "e_domain = [e_plus (e_cat [e_plus e_alnum, ELit CHR ''.'']), e_plus e_alnum]"

definition e_octet :: ere where
  "e_octet =
     EAlt (e_cat [ELit CHR ''2'', ELit CHR ''5'', e_range CHR ''0'' CHR ''5''])
       (EAlt (e_cat [ELit CHR ''2'', e_range CHR ''0'' CHR ''4'', e_range CHR ''0'' CHR ''9''])
         (e_cat [e_opt (EBracket True [Between CHR ''0'' CHR ''0'', Between CHR ''1'' CHR ''1'']),
                 e_range CHR ''0'' CHR ''9'', e_opt (e_range CHR ''0'' CHR ''9'')]))"

definition e_mailbox :: "ere list" where "e_mailbox = [e_plus e_alnum, ELit CHR ''@''] @ e_domain"

definition e_path :: "ere list" where
  "e_path =
     [ELit CHR ''<'',
      e_opt (e_cat ([e_star (e_cat (ELit CHR ''@'' # e_domain @ [e_star e_space, ELit CHR '','', e_star e_space])), ELit CHR ''@'']
                    @ e_domain @ [e_star e_space, ELit CHR '':'', e_star e_space]))]
     @ e_mailbox @ [ELit CHR ''>'']"

lemma parsed:
  "re_parse PAT_HELLO = Some (e_cat [EAlt (e_cat (map ELit ''ehlo'')) (e_cat (map ELit ''helo'')), e_plus e_space])"
  "re_parse PAT_MAIL_FROM = Some (e_cat (map ELit ''mail'' @ [e_plus e_space] @ map ELit ''from'' @ [e_star e_space, ELit CHR '':'', e_star e_space]))"
  "re_parse PAT_RCPT_TO = Some (e_cat (map ELit ''rcpt'' @ [e_plus e_space] @ map ELit ''to'' @ [e_star e_space, ELit CHR '':'', e_star e_space]))"
  "re_parse PAT_DATA = Some (e_cat (map ELit ''data''))" "re_parse PAT_RSET = Some (e_cat (map ELit ''rset''))"
  "re_parse PAT_VRFY = Some (e_cat (map ELit ''vrfy''))" "re_parse PAT_EXPN = Some (e_cat (map ELit ''expn''))"
  "re_parse PAT_HELP = Some (e_cat (map ELit ''help''))" "re_parse PAT_NOOP = Some (e_cat (map ELit ''noop''))"
  "re_parse PAT_QUIT = Some (e_cat (map ELit ''quit''))" "re_parse PAT_DOMAIN = Some (e_cat e_domain)"
  "re_parse PAT_ADDRESS_LITERAL = Some (e_cat [ELit CHR ''['', ERep (e_cat [e_octet, ELit CHR ''.'']) 3 (Some 3), e_octet, ELit CHR '']''])"
  "re_parse PAT_MAILBOX = Some (e_cat e_mailbox)" "re_parse PAT_PATH = Some (e_cat e_path)"
  "re_parse PAT_EMPTY_PATH = Some (e_cat (map ELit ''<>''))"
  by code_simp+

text \<open>No bracket of the patterns is changed by the case of a letter.\<close>

lemma in_bracket_closed:
  assumes "\<And>i c. i \<in> set is \<Longrightarrow> in_item i (to_lower c) = in_item i c" "\<And>i c. i \<in> set is \<Longrightarrow> in_item i (to_upper c) = in_item i c"
  shows "in_bracket is c = (\<exists>i\<in>set is. in_item i c)"
  using assms by (auto simp: in_bracket_def)

lemma of_char_cases: "(of_char (to_lower c) :: nat) = (if 65 \<le> (of_char c :: nat) \<and> (of_char c :: nat) \<le> 90 then of_char c + 32 else of_char c)"
  "(of_char (to_upper c) :: nat) = (if 97 \<le> (of_char c :: nat) \<and> (of_char c :: nat) \<le> 122 then of_char c - 32 else of_char c)"
proof -
  have m: "((x::nat) - 32) mod 256 = x - 32" if "x \<le> 122" for x using that by (intro mod_less) linarith
  show "(of_char (to_lower c) :: nat) = (if 65 \<le> (of_char c :: nat) \<and> (of_char c :: nat) \<le> 90 then of_char c + 32 else of_char c)"
    by (simp add: to_lower_def)
  show "(of_char (to_upper c) :: nat) = (if 97 \<le> (of_char c :: nat) \<and> (of_char c :: nat) \<le> 122 then of_char c - 32 else of_char c)"
    using m [of "of_char c"] by (auto simp: to_upper_def)
qed

lemma is_space_code: "is_space c \<longleftrightarrow> (of_char c :: nat) = 32 \<or> (9 \<le> (of_char c :: nat) \<and> (of_char c :: nat) \<le> 13)"
proof -
  have "c = CHR '' '' \<longleftrightarrow> (of_char c :: nat) = of_char CHR '' ''" by (metis of_char_eqI)
  then show ?thesis by (simp add: is_space_def)
qed

lemma bracket_alnum: "Cls (in_bracket [Named ''alnum'']) = Alnum"
  by (auto simp: fun_eq_iff in_bracket_def in_class_def Alnum_def is_alnum_def is_alpha_def is_digit_def of_char_cases)

lemma bracket_space: "Cls (in_bracket [Named ''space'']) = Space"
  by (auto simp: fun_eq_iff in_bracket_def in_class_def Space_def is_space_code of_char_cases)

lemma bracket_range:
  assumes "is_digit a" "is_digit b"
  shows "Cls (in_bracket [Between a b]) = Range a b"
  using assms by (auto simp: fun_eq_iff in_bracket_def Range_def is_digit_def of_char_cases split: if_splits)

lemma bracket_01: "Cls (in_bracket [Between CHR ''0'' CHR ''0'', Between CHR ''1'' CHR ''1'']) = Range CHR ''0'' CHR ''1''"
  by (auto simp: fun_eq_iff in_bracket_def Range_def of_char_cases split: if_splits)

lemmas brackets = bracket_alnum bracket_space bracket_range bracket_01

lemma rx_rep_3: "rx_rep r 3 (Some 3) = Seq r (Seq r (Seq r Eps))"
  by (simp add: numeral_3_eq_3)

text \<open>The parsed patterns and the expressions of the model have the same languages.\<close>

lemmas same_lang = lang_Seq conc_assoc conc_unit brackets rx_rep_3 Plus_def Opt_def Let_def is_digit_def
  e_domain_def e_octet_def e_mailbox_def e_path_def

lemma same_languages:
  "lang (rx_of (e_cat [EAlt (e_cat (map ELit ''ehlo'')) (e_cat (map ELit ''helo'')), e_plus e_space])) = lang RE_HELLO"
  "lang (rx_of (e_cat (map ELit ''mail'' @ [e_plus e_space] @ map ELit ''from'' @ [e_star e_space, ELit CHR '':'', e_star e_space])))
     = lang RE_MAIL_FROM"
  "lang (rx_of (e_cat (map ELit ''rcpt'' @ [e_plus e_space] @ map ELit ''to'' @ [e_star e_space, ELit CHR '':'', e_star e_space])))
     = lang RE_RCPT_TO"
  "lang (rx_of (e_cat e_domain)) = lang RE_DOMAIN"
  "lang (rx_of (e_cat [ELit CHR ''['', ERep (e_cat [e_octet, ELit CHR ''.'']) 3 (Some 3), e_octet, ELit CHR '']''])) = lang RE_ADDRESS_LITERAL"
  "lang (rx_of (e_cat e_mailbox)) = lang RE_MAILBOX"
  "lang (rx_of (e_cat e_path)) = lang RE_PATH"
  by (simp_all add: same_lang rx_defs del: lang.simps(2,3))

lemma same_words:
  "rx_of (e_cat (map ELit ''data'')) = RE_DATA" "rx_of (e_cat (map ELit ''rset'')) = RE_RSET"
  "rx_of (e_cat (map ELit ''vrfy'')) = RE_VRFY" "rx_of (e_cat (map ELit ''expn'')) = RE_EXPN"
  "rx_of (e_cat (map ELit ''help'')) = RE_HELP" "rx_of (e_cat (map ELit ''noop'')) = RE_NOOP"
  "rx_of (e_cat (map ELit ''quit'')) = RE_QUIT" "rx_of (e_cat (map ELit ''<>'')) = RE_EMPTY_PATH"
  by (simp_all add: rx_defs)

section \<open>Properties\<close>

text \<open>A compiled pattern finds in every string the match that an expression has there.\<close>

definition finds :: "rx option \<Rightarrow> rx \<Rightarrow> bool" where
  "finds c r \<longleftrightarrow> (\<exists>q. c = Some q \<and> (\<forall>s. regexec q s = regexec r s))"

lemma findsI: "re_parse p = Some e \<Longrightarrow> lang (rx_of e) = lang r \<Longrightarrow> finds (regcomp p) r"
  by (auto simp: finds_def regcomp_def intro: regexec_cong)

text \<open>
  C17: The patterns mean what the parser of the commands takes them for. Every pattern of \<open>regex.h\<close> is
  accepted by \<open>regcomp\<close>, and the compiled pattern finds in every string exactly the match, the leftmost
  and of these the longest, that the expression finds with which the command parser is modelled and
  proved. The pattern of the postmaster is that of a path.
\<close>

theorem patterns_compile:
  "finds (pr_smtp_reg_hello smtp_lib_init) RE_HELLO \<and> finds (pr_smtp_reg_mailform smtp_lib_init) RE_MAIL_FROM
   \<and> finds (pr_smtp_reg_rcptto smtp_lib_init) RE_RCPT_TO \<and> finds (pr_smtp_reg_data smtp_lib_init) RE_DATA
   \<and> finds (pr_smtp_reg_rset smtp_lib_init) RE_RSET \<and> finds (pr_smtp_reg_vrfy smtp_lib_init) RE_VRFY
   \<and> finds (pr_smtp_reg_expn smtp_lib_init) RE_EXPN \<and> finds (pr_smtp_reg_help smtp_lib_init) RE_HELP
   \<and> finds (pr_smtp_reg_noop smtp_lib_init) RE_NOOP \<and> finds (pr_smtp_reg_quit smtp_lib_init) RE_QUIT
   \<and> finds (pr_smtp_reg_domain smtp_lib_init) RE_DOMAIN \<and> finds (pr_smtp_reg_addr_literal smtp_lib_init) RE_ADDRESS_LITERAL
   \<and> finds (pr_smtp_reg_mailbox smtp_lib_init) RE_MAILBOX \<and> finds (pr_smtp_reg_path smtp_lib_init) RE_PATH
   \<and> finds (pr_smtp_reg_empty_path smtp_lib_init) RE_EMPTY_PATH \<and> finds (pr_smtp_reg_postmaster smtp_lib_init) RE_PATH"
  unfolding smtp_lib_init_def smtp_patterns.simps
  by (intro conjI) (rule findsI [OF parsed(1) same_languages(1)] findsI [OF parsed(2) same_languages(2)]
      findsI [OF parsed(3) same_languages(3)] findsI [OF parsed(11) same_languages(4)] findsI [OF parsed(12) same_languages(5)]
      findsI [OF parsed(13) same_languages(6)] findsI [OF parsed(14) same_languages(7)]
      | rule findsI, rule parsed, simp only: same_words)+

end
