(* ===== verification/Startup.thy ===== *)
theory Startup
  imports Server Log Patterns
begin

text \<open>
  The start and the end of the server: \<open>server/src/lib/server/args.c\<close>, \<open>config.c\<close>,
  \<open>thread_pool.c\<close> and \<open>server/src/main.c\<close>. What \<open>getopt_long\<close> finds in the arguments, what the
  configuration library finds in the file, and which files can be opened are arguments. A line that
  is logged is a message of the logger with its text; its time and place are left empty. Memory can
  be allocated. What is written directly to the terminal, and the masks of the signals, are dropped.
\<close>

section \<open>The configuration\<close>

record server_configuration =
  cg_md :: maildir
  cg_ip :: "string ptr"
  cg_port :: int
  cg_log_file_path :: "string ptr"
  cg_self_server_name :: "string ptr"
  cg_users :: users_list
  cg_hello_msg :: "string ptr"
  cg_hello_msg_size :: nat
  cg_loop :: "event_loop ptr"
  cg_num_worker_threads :: nat
  cg_timers :: timers_t
  cg_timer_period :: int
  cg_conf_path :: string
  cg_nice_value :: int

definition POSTMAN_VERSION_MAJOR :: nat where "POSTMAN_VERSION_MAJOR = 0"
definition POSTMAN_VERSION_MINOR :: nat where "POSTMAN_VERSION_MINOR = 1"

definition NAME_MAX :: nat where "NAME_MAX = 255"

text \<open>What \<open>getopt_long\<close> returns for an option, with its argument.\<close>

datatype option_found = OptC string | OptH | OptOther

text \<open>\<open>strcpy\<close> into an array of \<open>NAME_MAX\<close> bytes.\<close>

definition set_conf_path :: "string \<Rightarrow> server_configuration \<Rightarrow> server_configuration ub" where
  "set_conf_path path c = (if length path < NAME_MAX then Some (c\<lparr>cg_conf_path := path\<rparr>) else UB)"

fun args_loop :: "nat \<Rightarrow> option_found list \<Rightarrow> nat \<Rightarrow> server_configuration \<Rightarrow> (server_configuration \<times> bool) ub" where
  "args_loop argc [] n c = Some (c, n = argc)"
| "args_loop argc (OptC arg # opts) n c = do { c1 \<leftarrow> set_conf_path arg c; args_loop argc opts (n + 2) c1 }"
| "args_loop argc (OptH # opts) n c = Some (c, False)"
| "args_loop argc (OptOther # opts) n c = args_loop argc opts n c"

definition args_parse :: "nat \<Rightarrow> option_found list \<Rightarrow> server_configuration \<Rightarrow> (server_configuration \<times> bool) ub" where
  "args_parse argc opts c = do { c1 \<leftarrow> set_conf_path ''./config.cfg'' c; args_loop argc opts 1 c1 }"

text \<open>The file as the library reads it: its options, and the settings of the log if there are any.\<close>

record log_settings =
  ls_console_level :: "string option"
  ls_files :: "(string option \<times> string option) list option"

record config_source =
  src_error :: "string option"
  src_int :: "string \<Rightarrow> int option"
  src_string :: "string \<Rightarrow> string option"
  src_log :: "log_settings option"

definition not_found :: "string \<Rightarrow> string \<Rightarrow> string" where
  "not_found name path = ''not found '' @ name @ '' field in file ['' @ path @ '']''"

definition bracketed :: "string \<Rightarrow> int \<Rightarrow> string" where
  "bracketed t n = t @ '' ['' @ dec_string_int n @ '']''"

text \<open>
  The options up to the logging: the fields that are set on the way, and the line for the log, or the
  port, the address, the domain and the path of the mail store.
\<close>

definition read_settings ::
    "string \<Rightarrow> config_source \<Rightarrow> server_configuration \<Rightarrow> server_configuration \<times> (string + int \<times> string \<times> string \<times> string)" where
  "read_settings path src c =
     (case src_error src of
        Some e \<Rightarrow> (c, Inl e)
      | None \<Rightarrow>
     (case src_int src ''server.port'' of
        None \<Rightarrow> (c, Inl (not_found ''server.port'' path))
      | Some port \<Rightarrow> if port > 65535 then (c, Inl (bracketed ''invalid port value'' port))
        else
     (case src_string src ''server.host'' of
        None \<Rightarrow> (c, Inl (not_found ''server.host'' path))
      | Some host \<Rightarrow>
     (case src_int src ''server.worker_threads'' of
        None \<Rightarrow> (c, Inl (not_found ''server.worker_threads'' path))
      | Some n \<Rightarrow> if n \<le> 0 then (c, Inl (bracketed ''invalid number threads value'' n))
        else let c1 = c\<lparr>cg_num_worker_threads := nat n\<rparr> in
     (case src_string src ''server.domain'' of
        None \<Rightarrow> (c1, Inl (not_found ''server.domain'' path))
      | Some domain \<Rightarrow>
     (case src_int src ''server.timer'' of
        None \<Rightarrow> (c1, Inl (not_found ''server.timer'' path))
      | Some t \<Rightarrow> let c2 = c1\<lparr>cg_timer_period := t\<rparr> in
        if t \<le> 0 then (c2, Inl (bracketed ''value of server.timer'' t @ '' in config file ['' @ path @ ''] must be greater than zero''))
        else
     (case src_string src ''server.maildir_path'' of
        None \<Rightarrow> (c2, Inl (not_found ''server.maildir_path'' path))
      | Some md \<Rightarrow>
     (case src_int src ''server.nice'' of
        None \<Rightarrow> (c2, Inl (not_found ''server.nice'' path))
      | Some v \<Rightarrow> let c3 = c2\<lparr>cg_nice_value := v\<rparr> in
        if - 20 \<le> v \<and> v \<le> 20 then (c3, Inr (port, host, domain, md))
        else (c3, Inl (bracketed ''invalid server.nice value'' v @ ''. The value must be in the range (-20; 20)''))))))))))"

text \<open>The files of the log and their levels, and the line for the log when one of them cannot be used.\<close>

fun read_files :: "(string option \<times> string option) list \<Rightarrow> string + (string \<times> log_level) list" where
  "read_files [] = Inr []"
| "read_files ((p, l) # fs) =
     (case p of
        None \<Rightarrow> Inl ''error server.log.console_level''
      | Some path \<Rightarrow>
          (case l of
             None \<Rightarrow> Inl ''error server.log.console_level''
           | Some level \<Rightarrow>
               if log_char_to_level level = INVALID_LEVEL then Inl ''error server.log.files.level - invalid value''
               else (case read_files fs of Inl e \<Rightarrow> Inl e | Inr rest \<Rightarrow> Inr ((path, log_char_to_level level) # rest))))"

fun open_files :: "(string \<Rightarrow> nat option) \<Rightarrow> (string \<times> log_level) list \<Rightarrow> log_context \<Rightarrow> (log_context \<times> bool) ub" where
  "open_files opened [] c = Some (c, True)"
| "open_files opened ((path, level) # fs) c =
     do {
       (c1, ok) \<leftarrow> log_file_writer (opened path) True level c;
       (if \<not> ok then Some (c1, False) else open_files opened fs c1)
     }"

text \<open>The build defines the macro \<open>DEBUG\<close>, so that the initial value of \<open>console_level\<close> is 1.\<close>

definition default_console_level :: log_level where "default_console_level = WARNING_LEVEL"

definition say :: "log_level \<Rightarrow> string \<Rightarrow> logger \<Rightarrow> logger ub" where
  "say level t = WRITE_LOG True 0 level [] [] 0 (Some t)"

definition refuse :: "string \<Rightarrow> logger \<Rightarrow> (logger \<times> bool) ub" where
  "refuse t g = do { g1 \<leftarrow> say ERROR_LEVEL t g; Some (g1, False) }"

definition log_configuration :: "(string \<Rightarrow> nat option) \<Rightarrow> log_settings option \<Rightarrow> logger \<Rightarrow> (logger \<times> bool) ub" where
  "log_configuration opened settings g =
     (case settings of
        None \<Rightarrow>
          do {
            g1 \<leftarrow> say INFO_LEVEL ''server.log not found. Using default settings for logging'' g;
            (c, _) \<leftarrow> log_console_set_level default_console_level (lg_context g1);
            Some (g1\<lparr>lg_context := c\<rparr>, True)
          }
      | Some ls \<Rightarrow>
          (case ls_console_level ls of
             None \<Rightarrow> refuse ''error server.log.console_level'' g
           | Some level \<Rightarrow>
               if log_char_to_level level = INVALID_LEVEL then refuse ''error server.log.console_level - invalid value'' g
               else (case (case ls_files ls of None \<Rightarrow> Inr [] | Some fs \<Rightarrow> read_files fs) of
                       Inl e \<Rightarrow> refuse e g
                     | Inr fs \<Rightarrow>
                         do {
                           (c, ok) \<leftarrow> open_files opened fs (lg_context g);
                           (if \<not> ok then Some (g\<lparr>lg_context := c\<rparr>, False)
                            else do {
                              (c1, _) \<leftarrow> log_console_set_level (log_char_to_level level) c;
                              Some (g\<lparr>lg_context := c1\<rparr>, True)
                            })
                         })))"

definition hello :: "string \<Rightarrow> string" where
  "hello domain = ''220 '' @ domain @ '' The Postman Server v'' @ dec_string POSTMAN_VERSION_MAJOR @ ''.'' @ dec_string POSTMAN_VERSION_MINOR
     @ [CHR 0x0D, CHR 0x0A]"

record startup =
  su_config :: server_configuration
  su_logger :: logger
  su_fs :: fs
  su_patterns :: smtp_patterns
  su_closed :: "int list"

text \<open>The fields that are copied from the file once all options are good.\<close>

definition take_settings :: "int \<Rightarrow> string \<Rightarrow> string \<Rightarrow> server_configuration \<Rightarrow> server_configuration" where
  "take_settings port host domain c =
     c\<lparr>cg_ip := Some host, cg_self_server_name := Some domain, cg_log_file_path := NULL, cg_port := to_int16 port,
       cg_hello_msg := Some (hello domain), cg_hello_msg_size := length (hello domain), cg_users := fst (users_list__init (cg_users c))\<rparr>"

definition config_loaded :: "string \<Rightarrow> string \<Rightarrow> string \<Rightarrow> server_configuration \<Rightarrow> string" where
  "config_loaded host domain maildir_path c =
     CHR 0x0A # ''Config loaded: '' @ CHR 0x0A # '' -- host: '' @ host @ CHR 0x0A # '' -- port: '' @ dec_string_int (cg_port c)
     @ CHR 0x0A # '' -- domain: '' @ domain @ CHR 0x0A # '' -- maildir: '' @ maildir_path @ CHR 0x0A # '' -- num_workers: ''
     @ dec_string (cg_num_worker_threads c)"

definition all_mem :: init_mem where
  "all_mem = \<lparr>im_loop = True, im_timers = True, im_req = True, im_sq = True, im_oeq = True, im_mutexes = True\<rparr>"

definition server_config_init :: "(string \<Rightarrow> nat option) \<Rightarrow> config_source \<Rightarrow> string \<Rightarrow> startup \<Rightarrow> (startup \<times> bool) ub" where
  "server_config_init opened src path s =
     do {
       (loop, error) \<leftarrow> el_init all_mem (Some err_fresh);
       let c = (su_config s)\<lparr>cg_loop := loop\<rparr>;
       (case read_settings path src c of
          (c1, Inl e) \<Rightarrow> do { (g1, r) \<leftarrow> refuse e (su_logger s); Some (s\<lparr>su_config := c1, su_logger := g1\<rparr>, r) }
        | (c1, Inr (port, host, domain, maildir_path)) \<Rightarrow>
            do {
              (g1, ok) \<leftarrow> log_configuration opened (src_log src) (su_logger s);
              (if \<not> ok then Some (s\<lparr>su_config := c1, su_logger := g1\<rparr>, False)
               else do {
                 let c2 = take_settings port host domain c1;
                 (fs1, md, error1, made) \<leftarrow> maildir_init True (su_fs s) (Some (cg_md c2)) (Some maildir_path) error;
                 md1 \<leftarrow> md;
                 let c3 = c2\<lparr>cg_md := md1\<rparr>;
                 (if \<not> made
                  then do {
                    e \<leftarrow> error1;
                    (g2, r) \<leftarrow> refuse (''maildir: '' @ err_message e) g1;
                    Some (s\<lparr>su_config := c3, su_logger := g2, su_fs := fs1\<rparr>, r)
                  }
                  else do {
                    g2 \<leftarrow> say INFO_LEVEL (config_loaded host domain maildir_path c3) g1;
                    timers \<leftarrow> fst (timers_init (Some (cg_timers c3)));
                    Some (s\<lparr>su_config := c3\<lparr>cg_timers := timers\<rparr>, su_logger := g2, su_fs := fs1\<rparr>, True)
                  })
               })
            })
     }"

text \<open>The values of the signals are those of the system.\<close>

definition SIGINT :: int where "SIGINT = 2"
definition SIGTERM :: int where "SIGTERM = 15"

definition posix_signal_handler :: "int \<Rightarrow> startup \<Rightarrow> startup ub" where
  "posix_signal_handler signal s =
     do {
       g1 \<leftarrow> say INFO_LEVEL (bracketed ''Signal handler triggered'' signal) (su_logger s);
       (if signal = SIGTERM \<or> signal = SIGINT then
          do {
            g2 \<leftarrow> say INFO_LEVEL ''Shutdown signal received'' g1;
            let (loop, _, error) = el_stop (cg_loop (su_config s)) (Some err_fresh);
            e \<leftarrow> error;
            g3 \<leftarrow> (if failed e then say ERROR_LEVEL (''el_stop: '' @ err_message e) g2 else Some g2);
            Some (s\<lparr>su_config := (su_config s)\<lparr>cg_loop := loop\<rparr>, su_logger := g3\<rparr>)
          }
        else Some (s\<lparr>su_logger := g1\<rparr>))
     }"

text \<open>Everything is released; \<open>el_close\<close> joins the thread of the manager.\<close>

definition server_config_free :: "server_configuration \<Rightarrow> server_configuration ub" where
  "server_config_free c =
     do {
       _ \<leftarrow> el_close (cg_loop c);
       users \<leftarrow> users_list__free (Some (cg_users c));
       Some (c\<lparr>cg_loop := NULL, cg_self_server_name := NULL, cg_ip := NULL, cg_log_file_path := NULL, cg_hello_msg := NULL,
               cg_users := case users of NULL \<Rightarrow> [] | Some us \<Rightarrow> us, cg_timers := timers_free (cg_timers c)\<rparr>)
     }"

section \<open>The worker threads\<close>

record thread_entry =
  pth_is_run :: bool
  pth_action :: fptr

record thread_pool_t =
  tp_active_threads :: "thread_entry list"
  tp_num_threads :: nat

definition pr_thread_is_run :: "thread_entry \<Rightarrow> bool" where "pr_thread_is_run t = pth_is_run t"
definition pr_thread_set_run :: "thread_entry \<Rightarrow> bool \<Rightarrow> thread_entry" where "pr_thread_set_run t v = t\<lparr>pth_is_run := v\<rparr>"

text \<open>\<open>run\<close> is what the action of the thread does to the state of the program.\<close>

definition pr_thread_input :: "('s \<Rightarrow> 's ub) \<Rightarrow> thread_entry \<Rightarrow> 's \<Rightarrow> (thread_entry \<times> 's) ub" where
  "pr_thread_input run t s =
     (let t1 = pr_thread_set_run t True
      in do { s1 \<leftarrow> run s; Some (pr_thread_set_run t1 False, s1) })"

definition thread_pool_init :: thread_pool_t where
  "thread_pool_init = \<lparr>tp_active_threads = [], tp_num_threads = 0\<rparr>"

definition pr_thread_entry_init :: thread_entry where
  "pr_thread_entry_init = \<lparr>pth_is_run = False, pth_action = 0\<rparr>"

text \<open>The number of threads is not counted.\<close>

definition thread_pool_push :: "thread_pool_t \<Rightarrow> fptr \<Rightarrow> thread_pool_t" where
  "thread_pool_push pool action =
     pool\<lparr>tp_active_threads := tp_active_threads pool @ [pr_thread_entry_init\<lparr>pth_action := action\<rparr>]\<rparr>"

text \<open>Every thread is taken off the list and joined; a thread that has not \<open>ended\<close> makes the call wait.\<close>

fun free_threads :: "(thread_entry \<Rightarrow> bool) \<Rightarrow> thread_entry list \<Rightarrow> thread_entry list \<times> bool" where
  "free_threads ended [] = ([], True)"
| "free_threads ended (t # ts) = (if ended t then free_threads ended ts else (ts, False))"

definition thread_pool_free :: "(thread_entry \<Rightarrow> bool) \<Rightarrow> thread_pool_t \<Rightarrow> thread_pool_t \<times> bool" where
  "thread_pool_free ended pool =
     (case free_threads ended (tp_active_threads pool) of (ts, b) \<Rightarrow> (pool\<lparr>tp_active_threads := ts\<rparr>, b))"

definition WORKER_THREAD :: fptr where "WORKER_THREAD = 8"

text \<open>
  A worker: one element of the list is the time and the fuel of one call of \<open>el_run\<close>; the last
  component says whether the worker is still running at the end of the list.
\<close>

fun worker_loop ::
    "'z handlers \<Rightarrow> (int \<times> nat) list \<Rightarrow> 'z event_loop_scheme \<Rightarrow> logger \<Rightarrow> ('z event_loop_scheme \<times> logger \<times> bool) ub" where
  "worker_loop call [] loop g =
     (if el_is_run_query loop then Some (loop, g, True) else do { g1 \<leftarrow> say INFO_LEVEL ''thread stop'' g; Some (loop, g1, False) })"
| "worker_loop call ((now, fuel) # rest) loop g =
     (if \<not> el_is_run_query loop then do { g1 \<leftarrow> say INFO_LEVEL ''thread stop'' g; Some (loop, g1, False) }
      else do {
        (loop1, _, error) \<leftarrow> el_run call now fuel loop (Some err_fresh);
        e \<leftarrow> error;
        (if err_error e \<noteq> OK \<and> err_error e \<noteq> NOT_FOUND
         then do { g1 \<leftarrow> say ERROR_LEVEL (''el_run: '' @ err_message e) g; Some (loop1, g1, False) }
         else worker_loop call rest loop1 g)
      })"

definition worker_thread ::
    "'z handlers \<Rightarrow> (int \<times> nat) list \<Rightarrow> 'z event_loop_scheme \<Rightarrow> logger \<Rightarrow> ('z event_loop_scheme \<times> logger \<times> bool) ub" where
  "worker_thread call steps loop g = do { g1 \<leftarrow> say INFO_LEVEL ''thread start'' g; worker_loop call steps loop g1 }"

section \<open>\<open>main\<close>\<close>

text \<open>
  The label \<open>exit\<close>: the workers are joined, the listening socket is closed if there is one, and what
  the program has is released, the loop and the logger included. A worker that has not \<open>ended\<close> makes
  \<open>main\<close> wait. \<open>su_closed\<close> lists the descriptors that were closed.
\<close>

datatype main_end = Exit int startup | Serving int startup thread_pool_t | Waiting startup thread_pool_t

definition main_exit ::
    "(thread_entry \<Rightarrow> bool) \<Rightarrow> qsort \<Rightarrow> (int \<Rightarrow> string ptr) \<Rightarrow> thread_pool_t \<Rightarrow> int \<Rightarrow> int \<Rightarrow> startup \<Rightarrow> main_end ub" where
  "main_exit ended qs clock threads status master_socket s =
     (case thread_pool_free ended threads of
        (pool, False) \<Rightarrow> Some (Waiting s pool)
      | (_, True) \<Rightarrow>
          do {
            let closed = (if master_socket \<noteq> - 1 then su_closed s @ [master_socket] else su_closed s);
            c \<leftarrow> server_config_free (su_config s);
            let patterns = smtp_lib_free (su_patterns s);
            g1 \<leftarrow> say INFO_LEVEL ''Server stop!'' (su_logger s);
            g2 \<leftarrow> log_free qs clock log_mem_ok g1;
            Some (Exit status (s\<lparr>su_config := c, su_logger := g2, su_patterns := patterns, su_closed := closed\<rparr>))
          })"

text \<open>
  \<open>main\<close> up to its own call of \<open>worker_thread\<close>: it ends the program with a status, leaves the loop
  open with a listening socket and the other workers running, or goes to \<open>exit\<close> after an error.
\<close>

definition zero_log_context :: log_context where
  "zero_log_context = \<lparr>lc_enabled_level = ERROR_LEVEL, lc_messages = NULL, lc_num_messages = 0, lc_printers = NULL, lc_timeout = 0, lc_is_run = False\<rparr>"

definition main_start ::
    "(thread_entry \<Rightarrow> bool) \<Rightarrow> qsort \<Rightarrow> (int \<Rightarrow> string ptr) \<Rightarrow>
     nat \<Rightarrow> option_found list \<Rightarrow> (string \<Rightarrow> nat option) \<Rightarrow> config_source \<Rightarrow> sock_calls \<Rightarrow> startup \<Rightarrow> main_end ub" where
  "main_start ended qs clock argc opts opened src os s =
     do {
       (c, ok) \<leftarrow> args_parse argc opts (su_config s);
       (if \<not> ok then Some (Exit 0 (s\<lparr>su_config := c\<rparr>))
        else do {
          (started, _) \<leftarrow> log_init True True True True True True True (Some zero_log_context);
          g \<leftarrow> started;
          let threads = thread_pool_init;
          g1 \<leftarrow> say INFO_LEVEL ''server start init...'' g;
          (s1, ready) \<leftarrow> server_config_init opened src (cg_conf_path c)
                            (s\<lparr>su_config := c, su_logger := g1, su_patterns := smtp_lib_init\<rparr>);
          (if \<not> ready then Some (Exit (- 1) s1)
           else do {
             let (master_socket, error, _) = make_server_socket os (Some err_fresh);
             e0 \<leftarrow> error;
             (if master_socket = - 1
              then do {
                g2 \<leftarrow> say ERROR_LEVEL (''create server socket: '' @ err_message e0) (su_logger s1);
                main_exit ended qs clock threads (- 1) master_socket (s1\<lparr>su_logger := g2\<rparr>)
              }
              else do {
                loop \<leftarrow> cg_loop (su_config s1);
                (loop1, _, error1) \<leftarrow> el_async_accept True loop master_socket (Some HANDLER_ACCEPT) error;
                let s2 = s1\<lparr>su_config := (su_config s1)\<lparr>cg_loop := Some loop1\<rparr>\<rparr>;
                e \<leftarrow> error1;
                (if failed e
                 then do {
                   g2 \<leftarrow> say ERROR_LEVEL (''el_async_accept: '' @ err_message e) (su_logger s2);
                   main_exit ended qs clock threads (- 1) master_socket (s2\<lparr>su_logger := g2\<rparr>)
                 }
                 else do {
                   g2 \<leftarrow> say INFO_LEVEL ''Server init'' (su_logger s2);
                   (loop2, _, _) \<leftarrow> el_open (\<lambda>c l. Some l) [] True (Some loop1) OWN_THREAD (Some e);
                   let pool = ((\<lambda>p. thread_pool_push p WORKER_THREAD) ^^ (cg_num_worker_threads (su_config s1) - 1)) threads;
                   Some (Serving master_socket (s2\<lparr>su_config := (su_config s2)\<lparr>cg_loop := loop2\<rparr>, su_logger := g2\<rparr>) pool)
                 })
              })
           })
        })
     }"

text \<open>The rest of \<open>main\<close>, when its own worker returns.\<close>

definition main_stop ::
    "(thread_entry \<Rightarrow> bool) \<Rightarrow> qsort \<Rightarrow> (int \<Rightarrow> string ptr) \<Rightarrow> thread_pool_t \<Rightarrow> int \<Rightarrow> startup \<Rightarrow> main_end ub" where
  "main_stop ended qs clock pool master_socket s = main_exit ended qs clock pool 0 master_socket s"

text \<open>Without a thread of the manager the way out is undefined, whatever else the program has.\<close>

lemma free_without_thread:
  assumes "cg_loop c = Some loop" "\<not> el_thread loop"
  shows "server_config_free c = UB"
  using assms by (cases "req_free (el_registered loop)") (simp_all add: server_config_free_def el_close_def el_stop_def pr_el_close_def)

lemma exit_without_thread:
  assumes "cg_loop (su_config s) = Some loop" "\<not> el_thread loop"
  shows "main_exit ended qs clock thread_pool_init status master_socket s = UB"
  using free_without_thread [OF assms] by (simp add: main_exit_def thread_pool_free_def thread_pool_init_def)

section \<open>The logger while the server starts\<close>

text \<open>The logger can be written to and configured: its queue, and its printers with the console in front.\<close>

definition logger_ready :: "printer_t list \<Rightarrow> log_message list \<Rightarrow> logger \<Rightarrow> bool" where
  "logger_ready ps q g \<longleftrightarrow> lc_messages (lg_context g) = Some q \<and> lc_enabled_level (lg_context g) = DEBUG_LEVEL
     \<and> (\<exists>v. lc_printers (lg_context g) = Some v \<and> vec_ok v \<and> elems v = ps)"

definition line_of :: "log_level \<Rightarrow> string \<Rightarrow> log_message" where
  "line_of level t = zero_message\<lparr>lm_message := Some t, lm_level := level\<rparr>"

lemma say_run:
  assumes "logger_ready ps q g" "level \<le> DEBUG_LEVEL"
  obtains g' where "say level t g = Some g'" "logger_ready ps (q @ [line_of level t]) g'" "lg_out g' = lg_out g" "lg_pc g' = lg_pc g"
proof -
  from assms have "\<exists>g'. say level t g = Some g' \<and> logger_ready ps (q @ [line_of level t]) g' \<and> lg_out g' = lg_out g \<and> lg_pc g' = lg_pc g"
    by (auto simp: say_def WRITE_LOG_def LOG_MAKE_MESSAGE_def log_get_level_def log_write_def logger_ready_def err_simps line_of_def zero_message_def)
  with that show thesis by blast
qed

lemma level_le_debug [simp]: "ERROR_LEVEL \<le> DEBUG_LEVEL" "INFO_LEVEL \<le> DEBUG_LEVEL"
  by (simp_all add: less_eq_log_level_def)

text \<open>The printers after the configuration.\<close>

definition file_printer :: "(string \<Rightarrow> nat option) \<Rightarrow> string \<times> log_level \<Rightarrow> printer_t" where
  "file_printer opened = (\<lambda>(path, level). \<lparr>pt_level = level, pt_type = LOG_PRINTER_FILE, pt_file = the (opened path)\<rparr>)"

lemma open_files_run:
  assumes "lc_printers c = Some v" "vec_ok v"
  shows "\<exists>v' b. open_files opened fs c = Some (c\<lparr>lc_printers := Some v'\<rparr>, b) \<and> vec_ok v' \<and> (b \<longleftrightarrow> (\<forall>f\<in>set fs. opened (fst f) \<noteq> None))
    \<and> (b \<longrightarrow> elems v' = elems v @ map (file_printer opened) fs) \<and> (\<exists>ps. elems v' = elems v @ ps)"
  using assms
proof (induction fs arbitrary: c v)
  case Nil
  then show ?case by (auto intro!: exI [of _ v])
next
  case (Cons f fs)
  obtain p l where f: "f = (p, l)" by (cases f)
  show ?case
  proof (cases "opened p")
    case None
    then show ?thesis using Cons.prems f by (auto simp: log_file_writer_def intro!: exI [of _ v])
  next
    case (Some n)
    from Cons.prems obtain v1 where
      1: "log_file_writer (Some n) True l c = Some (c\<lparr>lc_printers := Some v1\<rparr>, True)" "vec_ok v1"
        "elems v1 = elems v @ [\<lparr>pt_level = l, pt_type = LOG_PRINTER_FILE, pt_file = n\<rparr>]" by (rule log_file_writer_ok)
    have c1: "lc_printers (c\<lparr>lc_printers := Some v1\<rparr>) = Some v1" by simp
    from Cons.IH [OF c1 1(2)] obtain v2 b where
      "open_files opened fs (c\<lparr>lc_printers := Some v1\<rparr>) = Some ((c\<lparr>lc_printers := Some v1\<rparr>)\<lparr>lc_printers := Some v2\<rparr>, b)"
      "vec_ok v2" "b \<longleftrightarrow> (\<forall>f\<in>set fs. opened (fst f) \<noteq> None)" "b \<longrightarrow> elems v2 = elems v1 @ map (file_printer opened) fs"
      "\<exists>ps. elems v2 = elems v1 @ ps" by blast
    with 1 Some f show ?thesis by (auto simp: file_printer_def)
  qed
qed

definition file_ok :: "string option \<times> string option \<Rightarrow> bool" where
  "file_ok f \<longleftrightarrow> fst f \<noteq> None \<and> (\<exists>l. snd f = Some l \<and> log_char_to_level l \<noteq> INVALID_LEVEL)"

definition file_setting :: "string option \<times> string option \<Rightarrow> string \<times> log_level" where
  "file_setting f = (the (fst f), log_char_to_level (the (snd f)))"

lemma read_files_run: "(\<exists>r. read_files fs = Inr r) \<longleftrightarrow> (\<forall>f\<in>set fs. file_ok f)"
proof (induction fs)
  case (Cons f fs)
  then show ?case by (cases f; cases "read_files fs") (auto simp: file_ok_def split: option.splits)
qed simp

lemma read_files_result: "read_files fs = Inr r \<Longrightarrow> r = map file_setting fs"
  by (induction fs arbitrary: r rule: read_files.induct) (auto simp: file_setting_def split: option.splits sum.splits if_splits)

definition files_of :: "log_settings \<Rightarrow> (string option \<times> string option) list" where
  "files_of ls = (case ls_files ls of None \<Rightarrow> [] | Some fs \<Rightarrow> fs)"

text \<open>The settings of the log that can be used, and the printers they stand for.\<close>

definition good_log :: "(string \<Rightarrow> nat option) \<Rightarrow> log_settings option \<Rightarrow> bool" where
  "good_log opened settings \<longleftrightarrow>
     (case settings of
        None \<Rightarrow> True
      | Some ls \<Rightarrow> (\<exists>l. ls_console_level ls = Some l \<and> log_char_to_level l \<noteq> INVALID_LEVEL)
          \<and> (\<forall>f\<in>set (files_of ls). file_ok f \<and> opened (the (fst f)) \<noteq> None))"

definition printers_of :: "(string \<Rightarrow> nat option) \<Rightarrow> log_settings option \<Rightarrow> printer_t \<Rightarrow> printer_t list" where
  "printers_of opened settings console =
     (case settings of
        None \<Rightarrow> [console\<lparr>pt_level := default_console_level\<rparr>]
      | Some ls \<Rightarrow> console\<lparr>pt_level := log_char_to_level (the (ls_console_level ls))\<rparr>
          # map (file_printer opened \<circ> file_setting) (files_of ls))"

lemma refuse_run:
  assumes "logger_ready ps q g"
  obtains g' where "refuse t g = Some (g', False)" "logger_ready ps (q @ [line_of ERROR_LEVEL t]) g'" "lg_out g' = lg_out g" "lg_pc g' = lg_pc g"
proof -
  obtain g' where "say ERROR_LEVEL t g = Some g'" "logger_ready ps (q @ [line_of ERROR_LEVEL t]) g'" "lg_out g' = lg_out g" "lg_pc g' = lg_pc g"
    by (rule say_run [OF assms level_le_debug(1)])
  with that show thesis by (simp add: refuse_def)
qed

lemma console_level_run:
  assumes "lc_printers c = Some v" "vec_ok v" "elems v = p # ps" "lc_messages c = Some q" "lc_enabled_level c = DEBUG_LEVEL"
  obtains c' where "log_console_set_level level c = Some (c', True)"
    "logger_ready (p\<lparr>pt_level := level\<rparr> # ps) q (g\<lparr>lg_context := c'\<rparr>)"
proof -
  from assms(1-3) obtain v' where "log_console_set_level level c = Some (c\<lparr>lc_printers := Some v'\<rparr>, True)" "vec_ok v'"
    "elems v' = p\<lparr>pt_level := level\<rparr> # ps" by (rule log_console_set_level_ok)
  with assms(4,5) that show thesis by (simp add: logger_ready_def)
qed

lemma log_configuration_run:
  assumes "logger_ready [p] q g"
  shows "\<exists>g' ok. log_configuration opened settings g = Some (g', ok) \<and> (ok \<longleftrightarrow> good_log opened settings)
    \<and> lg_out g' = lg_out g \<and> lg_pc g' = lg_pc g \<and> (\<exists>ps more. logger_ready ps (q @ more) g')
    \<and> (ok \<longrightarrow> (\<exists>more. logger_ready (printers_of opened settings p) (q @ more) g'))"
proof (cases settings)
  case None
  obtain g1 where 1: "say INFO_LEVEL ''server.log not found. Using default settings for logging'' g = Some g1"
    "logger_ready [p] (q @ [line_of INFO_LEVEL ''server.log not found. Using default settings for logging'']) g1" "lg_out g1 = lg_out g" "lg_pc g1 = lg_pc g"
    by (rule say_run [OF assms level_le_debug(2)])
  then obtain v where v: "lc_printers (lg_context g1) = Some v" "vec_ok v" "elems v = [p]"
    "lc_messages (lg_context g1) = Some (q @ [line_of INFO_LEVEL ''server.log not found. Using default settings for logging''])"
    "lc_enabled_level (lg_context g1) = DEBUG_LEVEL" by (auto simp: logger_ready_def)
  obtain c' where c: "log_console_set_level default_console_level (lg_context g1) = Some (c', True)"
    "logger_ready [p\<lparr>pt_level := default_console_level\<rparr>] (q @ [line_of INFO_LEVEL ''server.log not found. Using default settings for logging'']) (g1\<lparr>lg_context := c'\<rparr>)"
    by (rule console_level_run [OF v])
  show ?thesis unfolding None using 1(1,3,4) c
    by (auto simp: log_configuration_def good_log_def printers_of_def)
next
  case (Some ls)
  have refused: ?thesis if "log_configuration opened settings g = refuse t g" "\<not> good_log opened settings" for t
    by (rule refuse_run [OF assms, of t]) (use that in auto)
  from assms obtain v where v: "lc_printers (lg_context g) = Some v" "vec_ok v" "elems v = [p]"
    and q: "lc_messages (lg_context g) = Some q" "lc_enabled_level (lg_context g) = DEBUG_LEVEL" by (auto simp: logger_ready_def)
  show ?thesis
  proof (cases "\<exists>l. ls_console_level ls = Some l \<and> log_char_to_level l \<noteq> INVALID_LEVEL")
    case False
    then show ?thesis using refused Some by (cases "ls_console_level ls") (auto simp: log_configuration_def good_log_def)
  next
    case True
    then obtain l where l: "ls_console_level ls = Some l" "log_char_to_level l \<noteq> INVALID_LEVEL" by blast
    have f: "(case ls_files ls of None \<Rightarrow> Inr [] | Some fs \<Rightarrow> read_files fs) = read_files (files_of ls)"
      by (simp add: files_of_def split: option.split)
    show ?thesis
    proof (cases "read_files (files_of ls)")
      case (Inl e)
      then have "\<not> good_log opened settings" using read_files_run [of "files_of ls"] Some by (auto simp: good_log_def)
      then show ?thesis using refused [of e] Some l Inl f by (simp add: log_configuration_def)
    next
      case (Inr fs)
      note fs = read_files_result [OF Inr]
      have good: "\<forall>f\<in>set (files_of ls). file_ok f" using Inr read_files_run by blast
      from open_files_run [OF v(1,2), of opened fs] obtain v' b where o:
        "open_files opened fs (lg_context g) = Some ((lg_context g)\<lparr>lc_printers := Some v'\<rparr>, b)" "vec_ok v'"
        "b \<longleftrightarrow> (\<forall>f\<in>set fs. opened (fst f) \<noteq> None)" "b \<longrightarrow> elems v' = elems v @ map (file_printer opened) fs"
        "\<exists>ps. elems v' = elems v @ ps" by blast
      have b: "b \<longleftrightarrow> good_log opened settings" using o(3) good l Some fs by (auto simp: good_log_def file_setting_def)
      show ?thesis
      proof (cases b)
        case False
        then show ?thesis using Some l f Inr o(1,2) b q by (auto simp: log_configuration_def logger_ready_def)
      next
        case True
        then have e: "elems v' = p # map (file_printer opened) fs" using o(4) v(3) by simp
        let ?c = "(lg_context g)\<lparr>lc_printers := Some v'\<rparr>"
        have pr: "lc_printers ?c = Some v'" "lc_messages ?c = Some q" "lc_enabled_level ?c = DEBUG_LEVEL" using q by simp_all
        obtain c' where c: "log_console_set_level (log_char_to_level l) ?c = Some (c', True)"
          "logger_ready (p\<lparr>pt_level := log_char_to_level l\<rparr> # map (file_printer opened) fs) q (g\<lparr>lg_context := c'\<rparr>)"
          by (rule console_level_run [OF pr(1) o(2) e pr(2,3)])
        have "logger_ready (printers_of opened settings p) q (g\<lparr>lg_context := c'\<rparr>)"
          using c(2) Some l fs by (simp add: printers_of_def)
        then have "\<exists>more. logger_ready (printers_of opened settings p) (q @ more) (g\<lparr>lg_context := c'\<rparr>)"
          by (intro exI [of _ "[]"]) simp
        then show ?thesis using Some l f Inr o(1) b True c(1) by (auto simp: log_configuration_def)
      qed
    qed
  qed
qed

section \<open>The options\<close>

definition good_options :: "config_source \<Rightarrow> bool" where
  "good_options src \<longleftrightarrow> src_error src = None
     \<and> (\<exists>p \<le> 65535. src_int src ''server.port'' = Some p) \<and> src_string src ''server.host'' \<noteq> None
     \<and> (\<exists>n > 0. src_int src ''server.worker_threads'' = Some n) \<and> src_string src ''server.domain'' \<noteq> None
     \<and> (\<exists>t > 0. src_int src ''server.timer'' = Some t) \<and> src_string src ''server.maildir_path'' \<noteq> None
     \<and> (\<exists>v. src_int src ''server.nice'' = Some v \<and> - 20 \<le> v \<and> v \<le> 20)"

lemma read_settings_iff: "(\<exists>r. snd (read_settings path src c) = Inr r) \<longleftrightarrow> good_options src"
  by (auto simp: read_settings_def good_options_def Let_def split: option.splits)

lemma read_settings_line: "snd (read_settings path src c) = snd (read_settings path src c')"
  by (simp add: read_settings_def Let_def split: option.splits)

lemma read_settings_result:
  assumes "read_settings path src c = (c1, Inr (port, host, domain, md))"
  shows "src_int src ''server.port'' = Some port" "src_string src ''server.host'' = Some host" "src_string src ''server.domain'' = Some domain"
    "src_string src ''server.maildir_path'' = Some md"
    "\<exists>n t v. src_int src ''server.worker_threads'' = Some n \<and> src_int src ''server.timer'' = Some t \<and> src_int src ''server.nice'' = Some v
       \<and> c1 = c\<lparr>cg_num_worker_threads := nat n, cg_timer_period := t, cg_nice_value := v\<rparr>"
  using assms by (auto simp: read_settings_def Let_def split: option.splits if_splits)

text \<open>The loop as \<open>el_init\<close> makes it.\<close>

definition new_loop :: event_loop where
  "new_loop = \<lparr>el_acceptors = Some [], el_index_acceptors_start = 0, el_registered = Some [], el_timers = [], el_occurred = Some [],
     el_is_run = False, el_thread = False, el_global_handler = pr_default_global_handler, el_next_timer = 0, el_sent = [], el_reported = []\<rparr>"

lemma el_init_run: "\<exists>e. el_init all_mem (Some err_fresh) = Some (Some new_loop, Some e)"
  by (simp add: el_init_def all_mem_def err_simps req_init_def sq_init_def oeq_init_def new_loop_def)

lemma maildir_init_run:
  assumes "fs_nodes fs (resolve fs p) = Some Dir"
  shows "\<exists>e'. maildir_init True fs (Some md) (Some p) (Some e) = Some (fs, Some (md\<lparr>pr_path := Some (join_path (resolve fs p))\<rparr>), Some e', True)"
  using assms
  by (simp add: maildir_init_def opendir_dir pr_maildir_relative_to_absolute_path_def posix_realpath_def pr_maildir_check_root_structure_def
      err_simps Let_def)

text \<open>The configuration of the program after the file was read.\<close>

definition configured :: "config_source \<Rightarrow> fs \<Rightarrow> server_configuration \<Rightarrow> bool" where
  "configured src fs c \<longleftrightarrow>
     (\<exists>port host domain n t md v. src_int src ''server.port'' = Some port \<and> src_string src ''server.host'' = Some host
        \<and> src_string src ''server.domain'' = Some domain \<and> src_string src ''server.maildir_path'' = Some md
        \<and> src_int src ''server.worker_threads'' = Some n \<and> src_int src ''server.timer'' = Some t \<and> src_int src ''server.nice'' = Some v
        \<and> cg_port c = to_int16 port \<and> (word_of_int (cg_port c) :: 16 word) = word_of_int port \<and> cg_ip c = Some host
        \<and> cg_self_server_name c = Some domain \<and> cg_num_worker_threads c = nat n \<and> cg_timer_period c = t \<and> cg_nice_value c = v
        \<and> cg_hello_msg c = Some (''220 '' @ domain @ '' The Postman Server v0.1'' @ [CHR 0x0D, CHR 0x0A])
        \<and> cg_hello_msg_size c = length domain + 30
        \<and> pr_path (cg_md c) = Some (join_path (resolve fs md)) \<and> cg_users c = [] \<and> cg_timers c = [] \<and> cg_loop c = Some new_loop)"

lemma hello_text: "hello domain = ''220 '' @ domain @ '' The Postman Server v0.1'' @ [CHR 0x0D, CHR 0x0A]"
  by (simp add: hello_def POSTMAN_VERSION_MAJOR_def POSTMAN_VERSION_MINOR_def dec_string.simps digit_char_def)

lemma word_to_int16: "(word_of_int (to_int16 i) :: 16 word) = word_of_int i"
  by (simp add: to_int16_def)

lemma config_init_run:
  assumes "logger_ready [p] q (su_logger s)"
    "\<forall>md. src_string src ''server.maildir_path'' = Some md \<longrightarrow> fs_nodes (su_fs s) (resolve (su_fs s) md) = Some Dir"
  shows "\<exists>s' ok ps more. server_config_init opened src path s = Some (s', ok)
    \<and> (ok \<longleftrightarrow> good_options src \<and> good_log opened (src_log src)) \<and> su_fs s' = su_fs s
    \<and> logger_ready ps (q @ more) (su_logger s') \<and> lg_out (su_logger s') = lg_out (su_logger s) \<and> lg_pc (su_logger s') = lg_pc (su_logger s)
    \<and> (ok \<longrightarrow> configured src (su_fs s) (su_config s') \<and> ps = printers_of opened (src_log src) p)
    \<and> (\<not> good_options src \<longrightarrow> more = [line_of ERROR_LEVEL (projl (snd (read_settings path src (su_config s))))])"
proof -
  obtain e where e: "el_init all_mem (Some err_fresh) = Some (Some new_loop, Some e)" using el_init_run by blast
  let ?c = "(su_config s)\<lparr>cg_loop := Some new_loop\<rparr>"
  obtain c1 r where r: "read_settings path src ?c = (c1, r)" by (cases "read_settings path src ?c")
  show ?thesis
  proof (cases r)
    case (Inl t)
    then have "\<not> good_options src" using read_settings_iff [of path src ?c] r by simp
    moreover have "projl (snd (read_settings path src (su_config s))) = t"
      using read_settings_line [of path src "su_config s" ?c] r Inl by simp
    moreover obtain g' where "refuse t (su_logger s) = Some (g', False)" "logger_ready [p] (q @ [line_of ERROR_LEVEL t]) g'"
      "lg_out g' = lg_out (su_logger s)" "lg_pc g' = lg_pc (su_logger s)" by (rule refuse_run [OF assms(1)])
    ultimately show ?thesis using e r Inl
      by (intro exI [of _ "s\<lparr>su_config := c1, su_logger := g'\<rparr>"] exI [of _ False] exI [of _ "[p]"] exI [of _ "[line_of ERROR_LEVEL t]"])
        (simp add: server_config_init_def)
  next
    case (Inr v)
    obtain port host domain md where v: "v = (port, host, domain, md)" by (cases v)
    have "snd (read_settings path src ?c) = Inr v" using r Inr by simp
    then have good: "good_options src" using read_settings_iff by blast
    note res = read_settings_result [OF r [unfolded Inr v]]
    from log_configuration_run [OF assms(1), of opened "src_log src"] obtain g1 ok ps more where g1:
      "log_configuration opened (src_log src) (su_logger s) = Some (g1, ok)" "ok \<longleftrightarrow> good_log opened (src_log src)"
      "lg_out g1 = lg_out (su_logger s)" "lg_pc g1 = lg_pc (su_logger s)" "logger_ready ps (q @ more) g1"
      "ok \<longrightarrow> ps = printers_of opened (src_log src) p" by (metis (no_types, lifting))
    show ?thesis
    proof (cases ok)
      case False
      then show ?thesis using e r Inr v g1 good
        by (intro exI [of _ "s\<lparr>su_config := c1, su_logger := g1\<rparr>"] exI [of _ False] exI [of _ ps] exI [of _ more])
          (simp add: server_config_init_def)
    next
      case True
      let ?c2 = "take_settings port host domain c1"
      have dir: "fs_nodes (su_fs s) (resolve (su_fs s) md) = Some Dir" using assms(2) res(4) by blast
      from maildir_init_run [OF dir, of "cg_md ?c2" e] obtain e' where
        m: "maildir_init True (su_fs s) (Some (cg_md ?c2)) (Some md) (Some e)
          = Some (su_fs s, Some ((cg_md ?c2)\<lparr>pr_path := Some (join_path (resolve (su_fs s) md))\<rparr>), Some e', True)" by blast
      let ?c3 = "?c2\<lparr>cg_md := (cg_md ?c2)\<lparr>pr_path := Some (join_path (resolve (su_fs s) md))\<rparr>, cg_timers := []\<rparr>"
      have conf: "configured src (su_fs s) ?c3"
        using res by (auto simp: configured_def take_settings_def hello_text word_to_int16 users_list__init_def)
      let ?t = "config_loaded host domain md (?c2\<lparr>cg_md := (cg_md ?c2)\<lparr>pr_path := Some (join_path (resolve (su_fs s) md))\<rparr>\<rparr>)"
      obtain g2 where g2: "say INFO_LEVEL ?t g1 = Some g2" "logger_ready ps ((q @ more) @ [line_of INFO_LEVEL ?t]) g2" "lg_out g2 = lg_out g1" "lg_pc g2 = lg_pc g1"
        by (rule say_run [OF g1(5) level_le_debug(2)])
      have "server_config_init opened src path s = Some (s\<lparr>su_config := ?c3, su_logger := g2, su_fs := su_fs s\<rparr>, True)"
        using e r Inr v g1(1) True m g2(1) by (simp add: server_config_init_def timers_init_def Let_def)
      moreover have "logger_ready ps (q @ (more @ [line_of INFO_LEVEL ?t])) g2" using g2(2) by simp
      ultimately show ?thesis using good g1(2-4,6) True conf g2(3,4)
        by (intro exI [of _ "s\<lparr>su_config := ?c3, su_logger := g2, su_fs := su_fs s\<rparr>"] exI [of _ True] exI [of _ ps]
            exI [of _ "more @ [line_of INFO_LEVEL ?t]"]) simp
    qed
  qed
qed

lemma pool_pushes: "length (tp_active_threads (((\<lambda>p. thread_pool_push p a) ^^ n) pool)) = length (tp_active_threads pool) + n"
  by (induction n) (simp_all add: thread_pool_push_def)

lemma accept_on_new_loop:
  assumes "0 \<le> sock"
  shows "\<exists>e'. el_async_accept True new_loop sock (Some h) (Some e)
    = Some (new_loop\<lparr>el_acceptors := Some [\<lparr>sk_socket = sock, sk_handler = h\<rparr>]\<rparr>, True, Some e') \<and> \<not> failed e'"
  using assms by (simp add: el_async_accept_def sq_add_def new_loop_def err_simps Let_def)

definition console :: printer_t where
  "console = \<lparr>pt_level = DEBUG_LEVEL, pt_type = LOG_PRINTER_CONSOLE, pt_file = 0\<rparr>"

text \<open>The program up to the configuration: the logger runs, and has one message.\<close>

lemma main_start_run:
  assumes "args_parse argc opts (su_config s) = Some (c, True)"
    "\<forall>md. src_string src ''server.maildir_path'' = Some md \<longrightarrow> fs_nodes (su_fs s) (resolve (su_fs s) md) = Some Dir"
  obtains g1 g2 s1 ready ps q where
    "log_init True True True True True True True (Some zero_log_context) = Some (Some g1, True)"
    "say INFO_LEVEL ''server start init...'' g1 = Some g2"
    "server_config_init opened src (cg_conf_path c) (s\<lparr>su_config := c, su_logger := g2, su_patterns := smtp_lib_init\<rparr>) = Some (s1, ready)"
    "ready \<longleftrightarrow> good_options src \<and> good_log opened (src_log src)" "su_fs s1 = su_fs s"
    "logger_ready ps q (su_logger s1)" "q \<noteq> []" "lg_out (su_logger s1) = []"
    "ready \<longrightarrow> configured src (su_fs s) (su_config s1) \<and> ps = printers_of opened (src_log src) console"
    "\<not> good_options src \<longrightarrow> last q = line_of ERROR_LEVEL (projl (snd (read_settings (cg_conf_path c) src c)))"
proof -
  have "lc_num_messages zero_log_context = 0" by (simp add: zero_log_context_def)
  then obtain g1 v where g1: "log_init True True True True True True True (Some zero_log_context) = Some (Some g1, True)"
    "lg_pc g1 = Head" "lg_out g1 = []" "lc_messages (lg_context g1) = Some []" "lc_enabled_level (lg_context g1) = DEBUG_LEVEL"
    "lc_printers (lg_context g1) = Some v" "vec_ok v" "elems v = [\<lparr>pt_level = DEBUG_LEVEL, pt_type = LOG_PRINTER_CONSOLE, pt_file = 0\<rparr>]"
    by (rule log_init_ok)
  then have ready: "logger_ready [console] [] g1" by (auto simp: logger_ready_def console_def)
  obtain g2 where g2: "say INFO_LEVEL ''server start init...'' g1 = Some g2"
    "logger_ready [console] ([] @ [line_of INFO_LEVEL ''server start init...'']) g2" "lg_out g2 = lg_out g1" "lg_pc g2 = lg_pc g1"
    by (rule say_run [OF ready level_le_debug(2)])
  let ?s = "s\<lparr>su_config := c, su_logger := g2, su_patterns := smtp_lib_init\<rparr>"
  have "logger_ready [console] [line_of INFO_LEVEL ''server start init...''] (su_logger ?s)" using g2(2) by simp
  from config_init_run [OF this, of src opened "cg_conf_path c"] assms(2) obtain s1 ok ps more where
    "server_config_init opened src (cg_conf_path c) ?s = Some (s1, ok)" "ok \<longleftrightarrow> good_options src \<and> good_log opened (src_log src)"
    "su_fs s1 = su_fs s" "logger_ready ps ([line_of INFO_LEVEL ''server start init...''] @ more) (su_logger s1)"
    "lg_out (su_logger s1) = lg_out g2" "ok \<longrightarrow> configured src (su_fs s) (su_config s1) \<and> ps = printers_of opened (src_log src) console"
    "\<not> good_options src \<longrightarrow> more = [line_of ERROR_LEVEL (projl (snd (read_settings (cg_conf_path c) src c)))]"
    by auto
  with g1(1,3) g2(1,3) that [of g1 g2 s1 ok ps "[line_of INFO_LEVEL ''server start init...''] @ more"] show thesis by simp
qed

section \<open>Properties\<close>

text \<open>
  C27: Which configurations the server accepts, and what it makes of them. With an existing mail store,
  reading the configuration is always defined, and succeeds exactly when every option is there and in
  its range (the port has no lower bound), the levels of the log have names and its files can be
  opened. Then the configuration has the values of the file, the greeting names the domain and its
  length is right, the printers have the levels that were asked for, and the port, which is kept in 16
  bits with a sign, is as a port the same number. The store is not touched.
\<close>

theorem configuration_accepted_exactly:
  assumes "logger_ready [p] q (su_logger s)"
    "\<forall>md. src_string src ''server.maildir_path'' = Some md \<longrightarrow> fs_nodes (su_fs s) (resolve (su_fs s) md) = Some Dir"
  shows "\<exists>s' ok. server_config_init opened src path s = Some (s', ok)
    \<and> (ok \<longleftrightarrow> good_options src \<and> good_log opened (src_log src)) \<and> su_fs s' = su_fs s
    \<and> (ok \<longrightarrow> configured src (su_fs s) (su_config s') \<and> (\<exists>more. logger_ready (printers_of opened (src_log src) p) (q @ more) (su_logger s')))"
  using config_init_run [OF assms, of opened path] by blast

definition demo_source :: config_source where
  "demo_source = \<lparr>src_error = None,
     src_int = [''server.port'' \<mapsto> 40000, ''server.worker_threads'' \<mapsto> 3, ''server.timer'' \<mapsto> 60, ''server.nice'' \<mapsto> 0],
     src_string = [''server.host'' \<mapsto> ''127.0.0.1'', ''server.domain'' \<mapsto> ''a.org'', ''server.maildir_path'' \<mapsto> ''/md''],
     src_log = None\<rparr>"

definition zero_configuration :: server_configuration where
  "zero_configuration = \<lparr>cg_md = \<lparr>pr_path = NULL\<rparr>, cg_ip = NULL, cg_port = 0, cg_log_file_path = NULL, cg_self_server_name = NULL, cg_users = [],
     cg_hello_msg = NULL, cg_hello_msg_size = 0, cg_loop = NULL, cg_num_worker_threads = 0, cg_timers = [], cg_timer_period = 0,
     cg_conf_path = [], cg_nice_value = 0\<rparr>"

definition demo_startup :: startup where
  "demo_startup = \<lparr>su_config = zero_configuration,
     su_logger = \<lparr>lg_context = \<lparr>lc_enabled_level = DEBUG_LEVEL, lc_messages = Some [], lc_num_messages = 0,
       lc_printers = Some \<lparr>v_size = 1, v_allocated = 5, v_array = Some (replicate 5 console)\<rparr>, lc_timeout = 500, lc_is_run = True\<rparr>,
       lg_pc = Head, lg_out = []\<rparr>,
     su_fs = \<lparr>fs_nodes = [[] \<mapsto> Dir, [''md''] \<mapsto> Dir], fs_cwd = []\<rparr>, su_patterns = smtp_lib_init, su_closed = []\<rparr>"

lemma demo_startup_ok:
  "logger_ready [console] [] (su_logger demo_startup)"
  "\<forall>md. src_string demo_source ''server.maildir_path'' = Some md \<longrightarrow> fs_nodes (su_fs demo_startup) (resolve (su_fs demo_startup) md) = Some Dir"
  "good_options demo_source" "good_log opened (src_log demo_source)"
  by (simp_all add: logger_ready_def demo_startup_def vec_ok_def elems_def demo_source_def resolve_def comps_def good_options_def good_log_def)

theorem configuration_accepted_exactly_witness:
  "\<exists>s'. server_config_init (\<lambda>_. None) demo_source ''./config.cfg'' demo_startup = Some (s', True)
     \<and> cg_port (su_config s') = - 25536 \<and> cg_hello_msg_size (su_config s') = 35
     \<and> (\<exists>q. logger_ready [console\<lparr>pt_level := WARNING_LEVEL\<rparr>] q (su_logger s'))"
proof -
  from configuration_accepted_exactly [OF demo_startup_ok(1,2), of "\<lambda>_. None" "''./config.cfg''"]
  obtain s' ok where o: "server_config_init (\<lambda>_. None) demo_source ''./config.cfg'' demo_startup = Some (s', ok)"
    "ok \<longleftrightarrow> good_options demo_source \<and> good_log (\<lambda>_. None) (src_log demo_source)"
    "ok \<longrightarrow> configured demo_source (su_fs demo_startup) (su_config s')
       \<and> (\<exists>q. logger_ready (printers_of (\<lambda>_. None) (src_log demo_source) console) q (su_logger s'))" by auto
  from o(2) have "ok" using demo_startup_ok(3) demo_startup_ok(4) by blast
  with o have s: "server_config_init (\<lambda>_. None) demo_source ''./config.cfg'' demo_startup = Some (s', True)"
    "configured demo_source (su_fs demo_startup) (su_config s')"
    "\<exists>q. logger_ready (printers_of (\<lambda>_. None) (src_log demo_source) console) q (su_logger s')" by simp_all
  have "cg_port (su_config s') = to_int16 40000" "cg_hello_msg_size (su_config s') = 35"
    using s(2) by (auto simp: configured_def demo_source_def)
  moreover have "to_int16 40000 = - 25536" by code_simp
  moreover have "printers_of (\<lambda>_. None) (src_log demo_source) console = [console\<lparr>pt_level := WARNING_LEVEL\<rparr>]"
    by (simp add: printers_of_def demo_source_def default_console_level_def)
  ultimately show ?thesis using s(1,3) by metis
qed

text \<open>
  C28: How the start of the server ends, with good arguments and an existing mail store, as long as
  the thread of the logger has had no turn. A configuration that is not accepted ends the program
  with \<open>-1\<close>, without \<open>LOG_FREE\<close>: what was logged is still in the queue of the logger and nothing was
  printed; when it is an option of the file that is refused, the last line of that queue is the one
  that says why. A socket that cannot be made listening leads to the label \<open>exit\<close>, whose
  \<open>pthread_join\<close> of a thread that was never created makes the run undefined. Otherwise the loop runs with
  its thread, its only acceptor is the listening socket, and all workers but \<open>main\<close> itself have been started.
\<close>

theorem start_of_server:
  assumes "args_parse argc opts (su_config s) = Some (c, True)"
    "\<forall>md. src_string src ''server.maildir_path'' = Some md \<longrightarrow> fs_nodes (su_fs s) (resolve (su_fs s) md) = Some Dir"
    "make_server_socket os (Some err_fresh) = (sock, Some e, closed)" "sock = - 1 \<or> 0 \<le> sock"
  shows "if \<not> (good_options src \<and> good_log opened (src_log src)) then
      (\<exists>s' q. main_start ended qs clock argc opts opened src os s = Some (Exit (- 1) s')
         \<and> lc_messages (lg_context (su_logger s')) = Some q \<and> q \<noteq> [] \<and> lg_out (su_logger s') = []
         \<and> (\<not> good_options src \<longrightarrow> last q = line_of ERROR_LEVEL (projl (snd (read_settings (cg_conf_path c) src c)))))
    else if sock = - 1 then main_start ended qs clock argc opts opened src os s = UB
    else (\<exists>s' loop pool n. main_start ended qs clock argc opts opened src os s = Some (Serving sock s' pool)
         \<and> cg_loop (su_config s') = Some loop \<and> el_is_run loop \<and> el_thread loop
         \<and> el_acceptors loop = Some [\<lparr>sk_socket = sock, sk_handler = HANDLER_ACCEPT\<rparr>]
         \<and> src_int src ''server.worker_threads'' = Some n \<and> length (tp_active_threads pool) + 1 = nat n)"
proof -
  obtain g1 g2 s1 ready ps q where r:
    "log_init True True True True True True True (Some zero_log_context) = Some (Some g1, True)"
    "say INFO_LEVEL ''server start init...'' g1 = Some g2"
    "server_config_init opened src (cg_conf_path c) (s\<lparr>su_config := c, su_logger := g2, su_patterns := smtp_lib_init\<rparr>) = Some (s1, ready)"
    "ready \<longleftrightarrow> good_options src \<and> good_log opened (src_log src)" "su_fs s1 = su_fs s"
    "logger_ready ps q (su_logger s1)" "q \<noteq> []" "lg_out (su_logger s1) = []"
    "ready \<longrightarrow> configured src (su_fs s) (su_config s1) \<and> ps = printers_of opened (src_log src) console"
    "\<not> good_options src \<longrightarrow> last q = line_of ERROR_LEVEL (projl (snd (read_settings (cg_conf_path c) src c)))"
    by (rule main_start_run [OF assms(1,2)])
  show ?thesis
  proof (cases ready)
    case False
    then show ?thesis using assms(1) r by (auto simp: main_start_def logger_ready_def)
  next
    case True
    then have conf: "configured src (su_fs s) (su_config s1)" using r(9) by simp
    then obtain n where n: "src_int src ''server.worker_threads'' = Some n" "cg_num_worker_threads (su_config s1) = nat n"
      "cg_loop (su_config s1) = Some new_loop" by (auto simp: configured_def)
    have "0 < n" using True r(4) n(1) by (auto simp: good_options_def)
    show ?thesis
    proof (cases "sock = - 1")
      case fails: True
      obtain g3 where "say ERROR_LEVEL (''create server socket: '' @ err_message e) (su_logger s1) = Some g3"
        by (rule say_run [OF r(6) level_le_debug(1)])
      moreover have "\<not> el_thread new_loop" by (simp add: new_loop_def)
      ultimately show ?thesis using fails True assms(1,3) r(1-4) n(3) by (simp add: main_start_def Let_def exit_without_thread)
    next
      case False
      then have "0 \<le> sock" using assms(4) by simp
      from accept_on_new_loop [OF this, of HANDLER_ACCEPT e] obtain e' where a: "el_async_accept True new_loop sock (Some HANDLER_ACCEPT) (Some e)
        = Some (new_loop\<lparr>el_acceptors := Some [\<lparr>sk_socket = sock, sk_handler = HANDLER_ACCEPT\<rparr>]\<rparr>, True, Some e')" "\<not> failed e'" by blast
      obtain g3 where g3: "say INFO_LEVEL ''Server init'' (su_logger s1) = Some g3"
        by (rule say_run [OF r(6) level_le_debug(2)])
      show ?thesis using True False assms(1,3) r(1-4) n a g3 \<open>0 < n\<close>
        by (simp add: main_start_def Let_def el_open_def pool_pushes thread_pool_init_def)
    qed
  qed
qed

definition good_socket :: sock_calls where
  "good_socket = \<lparr>sc_socket = 3, sc_inet_aton = 1, sc_bind = 0, sc_listen = 0\<rparr>"

theorem start_of_server_witness:
  "\<exists>s' loop pool. main_start (\<lambda>_. True) (\<lambda>_ xs. xs) (\<lambda>_. NULL) 1 [] (\<lambda>_. None) demo_source good_socket demo_startup = Some (Serving 3 s' pool)
     \<and> cg_loop (su_config s') = Some loop \<and> el_is_run loop \<and> length (tp_active_threads pool) = 2"
proof -
  let ?c = "zero_configuration\<lparr>cg_conf_path := ''./config.cfg''\<rparr>"
  have a: "args_parse 1 [] (su_config demo_startup) = Some (?c, True)"
    by (simp add: args_parse_def set_conf_path_def NAME_MAX_def demo_startup_def)
  have m: "make_server_socket good_socket (Some err_fresh) = (3, Some err_fresh, [])"
    by (simp add: make_server_socket_def good_socket_def)
  from start_of_server [OF a demo_startup_ok(2) m, of "\<lambda>_. None" "\<lambda>_. True" "\<lambda>_ xs. xs" "\<lambda>_. NULL"] demo_startup_ok(3) demo_startup_ok(4) [of "\<lambda>_. None"]
  obtain s' loop pool n where "main_start (\<lambda>_. True) (\<lambda>_ xs. xs) (\<lambda>_. NULL) 1 [] (\<lambda>_. None) demo_source good_socket demo_startup = Some (Serving 3 s' pool)"
    "cg_loop (su_config s') = Some loop" "el_is_run loop" "src_int demo_source ''server.worker_threads'' = Some n"
    "length (tp_active_threads pool) + 1 = nat n" by auto
  moreover from this(4) have "n = 3" by (simp add: demo_source_def)
  ultimately show ?thesis by fastforce
qed

end
