(* ===== verification/ClientUtil.thy ===== *)
theory ClientUtil
  imports Util
begin

text \<open>
  The string, file and socket routines of the client: \<open>client/src/util/util.c\<close> and
  \<open>client/src/util/network.c\<close>. A character array is the list of its cells and a C string argument
  its contents, as in \<open>Util\<close>. The allocation functions end the program when there is no memory, so
  they succeed here; cells that are not initialised are \<open>NUL\<close> and are written before they are read.
  A file that is read is its unread rest, a socket the bytes that \<open>recv\<close> will still give.
\<close>

section \<open>Memory\<close>

definition allocate_memory :: "nat \<Rightarrow> string ptr" where "allocate_memory n = mem_alloc n"

text \<open>The first \<open>prev_size\<close> cells are copied, whether or not both arrays have that many.\<close>

definition reallocate_memory :: "'a \<Rightarrow> 'a list ptr \<Rightarrow> nat \<Rightarrow> nat \<Rightarrow> 'a list ptr ub" where
  "reallocate_memory z buffer prev_size new_size =
     (if prev_size = 0 then Some (Some (replicate new_size z))
      else case buffer of
        NULL \<Rightarrow> UB
      | Some cells \<Rightarrow>
          if prev_size \<le> length cells \<and> prev_size \<le> new_size
          then Some (Some (take prev_size cells @ replicate (new_size - prev_size) z)) else UB)"

definition callocate_memory :: "'a \<Rightarrow> nat \<Rightarrow> 'a list ptr" where
  "callocate_memory z n = Some (replicate n z)"

text \<open>The length of the C string at the start of an array.\<close>

definition c_strlen :: "string \<Rightarrow> nat ub" where
  "c_strlen cells = map_option length (c_str (Some cells))"

section \<open>Splitting a string\<close>

text \<open>
  Two strings are compared until they differ; nothing stops the loop behind their terminators.
\<close>

function equation_loop :: "string \<Rightarrow> string \<Rightarrow> nat \<Rightarrow> nat \<Rightarrow> (nat \<times> nat) ub" where
  "equation_loop str delim offset i =
     (case c_at str (int offset) of
        None \<Rightarrow> UB
      | Some a \<Rightarrow>
          (case c_at delim (int i) of
             None \<Rightarrow> UB
           | Some b \<Rightarrow> if a = b then equation_loop str delim (Suc offset) (Suc i) else Some (offset, i)))"
  by pat_completeness auto
termination
  by (relation "measure (\<lambda>(_, delim, _, i). Suc (length delim) - i)") (auto simp: c_at_def split: if_splits)

declare equation_loop.simps [simp del]

definition check_equation_delim :: "string \<Rightarrow> string \<Rightarrow> nat \<Rightarrow> int ub" where
  "check_equation_delim str delim offset =
     do {
       (offset', i) \<leftarrow> equation_loop str delim offset 0;
       Some (if i = length delim then int offset' else -1)
     }"

record c_token =
  tk_chars :: "string ptr"
  tk_length :: nat

definition token_new :: c_token where "token_new = \<lparr>tk_chars = NULL, tk_length = 0\<rparr>"

definition add_character :: "c_token \<Rightarrow> char \<Rightarrow> c_token ub" where
  "add_character str character =
     do {
       let capacity = tk_length str + 1;
       let s1 = (if tk_chars str = NULL then str\<lparr>tk_length := 0, tk_chars := allocate_memory 1\<rparr> else str);
       chars1 \<leftarrow> mem_write (tk_chars s1) (tk_length s1) [character];
       let n = tk_length s1 + 1;
       chars2 \<leftarrow> (if n \<ge> capacity then reallocate_memory NUL chars1 capacity (capacity * 2) else Some chars1);
       chars3 \<leftarrow> mem_write chars2 n [NUL];
       Some (s1\<lparr>tk_chars := chars3, tk_length := n\<rparr>)
     }"

text \<open>
  The loop of \<open>split\<close>: a token ends at a delimiter or at the end. When nothing was collected yet,
  the last character of the delimiter (or the terminator) is added to the token instead. The
  array of the tokens is grown with every token, and is the list of the tokens here. For an empty
  delimiter the loop does not end.
\<close>

partial_function (option) tokens_loop :: "string \<Rightarrow> string \<Rightarrow> nat \<Rightarrow> c_token \<Rightarrow> c_token list \<Rightarrow> (c_token list) ub" where
  "tokens_loop str delim i token tokens =
     (if i > length str then Some tokens
      else do {
        offset \<leftarrow> check_equation_delim str delim i;
        let i' = (if offset \<noteq> -1 then nat (offset - 1) else i);
        (if (offset \<noteq> -1 \<or> i = length str) \<and> tk_length token \<noteq> 0
         then tokens_loop str delim (Suc i') token_new (tokens @ [token])
         else do {
           c \<leftarrow> c_at str (int i');
           token' \<leftarrow> add_character token c;
           tokens_loop str delim (Suc i') token' tokens
         })
      })"

definition split :: "string \<Rightarrow> string \<Rightarrow> (c_token list) ub" where
  "split str delim = tokens_loop str delim 0 token_new []"

section \<open>Trimming\<close>

definition is_blank :: "char \<Rightarrow> bool" where "is_blank c \<longleftrightarrow> c = CHR '' '' \<or> c = CHR 0x09"

text \<open>The string is moved forward by \<open>i\<close> in its array; its length is taken anew in every turn.\<close>

function trim_shift :: "string \<Rightarrow> nat \<Rightarrow> nat \<Rightarrow> string ub" where
  "trim_shift cells i j =
     (case c_strlen cells of
        None \<Rightarrow> UB
      | Some n \<Rightarrow>
          if j < n then
            (case arr_get cells (int (j + i)) of
               None \<Rightarrow> UB
             | Some c \<Rightarrow> if j < length cells then trim_shift (cells[j := c]) i (Suc j) else UB)
          else arr_set cells (int j) NUL)"
  by pat_completeness auto
termination
  by (relation "measure (\<lambda>(cells, _, j). length cells - j)") auto

function trim_last :: "string \<Rightarrow> int \<Rightarrow> int ub" where
  "trim_last cells i =
     (case arr_get cells i of
        None \<Rightarrow> UB
      | Some c \<Rightarrow> if is_blank c then trim_last cells (i - 1) else Some i)"
  by pat_completeness auto
termination
  by (relation "measure (\<lambda>(_, i). nat (i + 1))") (auto simp: arr_get_def split: if_splits)

declare trim_shift.simps [simp del] trim_last.simps [simp del]

definition trim :: "string \<Rightarrow> string ub" where
  "trim cells =
     do {
       s \<leftarrow> c_str (Some cells);
       let i = length (takeWhile is_blank s);
       cells1 \<leftarrow> (if i > 0 then trim_shift cells i 0 else Some cells);
       n \<leftarrow> c_strlen cells1;
       k \<leftarrow> trim_last cells1 (int n - 1);
       (if k < int n - 1 then arr_set cells1 (k + 1) NUL else Some cells1)
     }"

section \<open>Reading a line of a file\<close>

text \<open>\<open>fgets\<close> of the C library for a buffer of \<open>n\<close> cells: what it stores, and the unread rest.\<close>

definition fgets :: "nat \<Rightarrow> string \<Rightarrow> string ptr \<times> string" where
  "fgets n rest =
     (if rest = [] then (NULL, [])
      else let w = takeWhile (\<lambda>c. c \<noteq> CHR 0x0A) rest;
               k = min (n - 1) (if length w < length rest then Suc (length w) else length w)
           in (Some (take k rest), drop k rest))"

lemma fgets_shorter:
  assumes "fgets n rest = (Some b, rest')" "1 < n"
  shows "length rest' < length rest"
proof -
  let ?w = "takeWhile (\<lambda>c. c \<noteq> CHR 0x0A) rest"
  let ?k = "min (n - 1) (if length ?w < length rest then Suc (length ?w) else length ?w)"
  from assms(1) have r: "rest \<noteq> []" "rest' = drop ?k rest" by (auto simp: fgets_def Let_def split: if_splits)
  then have "0 < ?k" using assms(2) by (cases "length ?w < length rest") auto
  then show ?thesis using r by simp
qed

function readline_loop :: "string \<Rightarrow> string ptr \<Rightarrow> nat \<Rightarrow> nat \<Rightarrow> (string ptr \<times> string) ub" where
  "readline_loop rest string offset cap =
     (case fgets 256 rest of
        (NULL, rest') \<Rightarrow> Some (NULL, rest')
      | (Some read_string, rest') \<Rightarrow>
          do {
            string1 \<leftarrow> (if offset \<ge> cap - 1 then reallocate_memory NUL string cap (offset * 2 + 1) else Some string);
            let cap1 = (if offset \<ge> cap - 1 then offset * 2 + 1 else cap);
            let part = takeWhile (\<lambda>c. c \<noteq> NUL) read_string;
            string2 \<leftarrow> strcpy string1 offset part;
            let offset1 = offset + length part;
            cells \<leftarrow> string2;
            c \<leftarrow> arr_get cells (int offset1 - 1);
            (if c = CHR 0x0A then Some (string2, rest') else readline_loop rest' string2 offset1 cap1)
          })"
  by pat_completeness auto
termination
  by (relation "measure (\<lambda>(rest, _). length rest)") (auto dest: fgets_shorter [OF sym])

declare readline_loop.simps [simp del]

text \<open>What follows the last line end of a file is never returned.\<close>

definition file_readline :: "string \<Rightarrow> (string ptr \<times> string) ub" where
  "file_readline rest = readline_loop rest (allocate_memory 256) 0 256"

section \<open>Numbers\<close>

definition is_c_space :: "char \<Rightarrow> bool" where
  "is_c_space c \<longleftrightarrow> c \<in> set [CHR '' '', CHR 0x09, CHR 0x0A, CHR 0x0B, CHR 0x0C, CHR 0x0D]"

definition digit_value :: "char \<Rightarrow> int" where "digit_value c = int (of_char c) - 48"

text \<open>\<open>strtol\<close> for base 10, which saturates at the ends of the type \<open>long\<close>.\<close>

definition convert_string_to_long_int :: "string \<Rightarrow> int" where
  "convert_string_to_long_int str =
     (let s = dropWhile is_c_space str;
          negative = (s \<noteq> [] \<and> hd s = CHR ''-'');
          s' = (if s \<noteq> [] \<and> hd s \<in> {CHR ''-'', CHR ''+''} then tl s else s);
          n = foldl (\<lambda>a c. 10 * a + digit_value c) 0 (takeWhile (\<lambda>c. c \<in> set digits) s')
      in if negative then max (- (2 ^ 63)) (- n) else min (2 ^ 63 - 1) n)"

section \<open>Lines on a socket\<close>

text \<open>
  \<open>receive_line\<close> reads byte after byte until it has seen two end characters, adjacent or not. When
  \<open>recv\<close> gives no byte (the connection was closed, or nothing has arrived yet) what was read is lost.
\<close>

function receive_loop :: "string \<Rightarrow> string ptr \<Rightarrow> nat \<Rightarrow> nat \<Rightarrow> nat \<Rightarrow> (string ptr \<times> string) ub" where
  "receive_loop input buffer got ends cap =
     (case input of
        [] \<Rightarrow> Some (NULL, [])
      | c # rest \<Rightarrow>
          do {
            buffer1 \<leftarrow> mem_write buffer got [c];
            let got1 = got + 1;
            (if c = NUL then Some (NULL, rest)
             else
               let ends1 = (if c = CHR 0x0A \<or> c = CHR 0x0D then ends + 1 else ends) in
               if ends1 = 2 then
                 (if got1 < 2 then UB
                  else do { buffer2 \<leftarrow> mem_write buffer1 (got1 - 2) [NUL]; Some (buffer2, rest) })
               else if got1 = cap - 2 then
                 do {
                   buffer2 \<leftarrow> reallocate_memory NUL buffer1 cap (cap + cap div 2);
                   receive_loop rest buffer2 got1 ends1 (cap + cap div 2)
                 }
               else receive_loop rest buffer1 got1 ends1 cap)
          })"
  by pat_completeness auto
termination by (relation "measure (\<lambda>(input, _). length input)") auto

declare receive_loop.simps [simp del]

definition receive_line :: "string \<Rightarrow> (string ptr \<times> string) ub" where
  "receive_line input = receive_loop input (allocate_memory 4) 0 0 4"

text \<open>
  \<open>send_line\<close> with the results of the calls of \<open>send\<close>: the number of bytes taken, or an error (also
  when no result is left). Every call is given the start of the message, not the unsent rest.
\<close>

datatype sent = SentBytes nat | SentError

fun send_line :: "sent list \<Rightarrow> string \<Rightarrow> nat \<Rightarrow> int \<times> string" where
  "send_line results message 0 = (1, [])"
| "send_line [] message (Suc n) = (0, [])"
| "send_line (SentError # rs) message (Suc n) = (0, [])"
| "send_line (SentBytes k # rs) message (Suc n) =
     (let k' = min k (Suc n); (r, out) = send_line rs message (Suc n - k') in (r, take k' message @ out))"

section \<open>The routines as operations on strings\<close>

lemma token_new_simps [simp]: "tk_chars token_new = NULL" "tk_length token_new = 0"
  by (simp_all add: token_new_def)

text \<open>A token that is being built: nothing yet, or a string in an array of twice its length.\<close>

definition token_is :: "c_token \<Rightarrow> string \<Rightarrow> bool" where
  "token_is t s \<longleftrightarrow> tk_length t = length s \<and>
     (if s = [] then tk_chars t = NULL
      else \<exists>r. tk_chars t = Some (s @ NUL # r) \<and> length s \<le> Suc (length r))"

lemma token_is_new [simp]: "token_is token_new []"
  by (simp add: token_is_def)

lemma token_is_str: "token_is t s \<Longrightarrow> s \<noteq> [] \<Longrightarrow> c_string s \<Longrightarrow> c_str (tk_chars t) = Some s"
  by (auto simp: token_is_def c_simps)

lemma add_character_run:
  assumes "token_is t s"
  obtains t' where "add_character t c = Some t'" "token_is t' (s @ [c])"
proof (cases "s = []")
  case True
  then have t: "tk_chars t = NULL" "tk_length t = 0" using assms by (simp_all add: token_is_def)
  show thesis
    by (rule that [of "t\<lparr>tk_length := 1, tk_chars := Some [c, NUL]\<rparr>"])
       (simp_all add: add_character_def t allocate_memory_def mem_alloc_def mem_write_def reallocate_memory_def token_is_def True numeral_2_eq_2)
next
  case False
  then obtain r where t: "tk_chars t = Some (s @ NUL # r)" "tk_length t = length s" "length s \<le> Suc (length r)"
    using assms by (auto simp: token_is_def)
  let ?n = "length s"
  have 1: "mem_write (Some (s @ NUL # r)) ?n [c] = Some (Some (s @ c # r))" by (simp add: mem_write_def)
  have 2: "reallocate_memory NUL (Some (s @ c # r)) (Suc ?n) (Suc ?n * 2) = Some (Some (s @ c # replicate (Suc ?n) NUL))"
    using t(3) by (simp add: reallocate_memory_def)
  have 3: "mem_write (Some (s @ c # replicate (Suc ?n) NUL)) (Suc ?n) [NUL] = Some (Some (s @ c # NUL # replicate ?n NUL))"
    by (simp add: mem_write_def)
  have "add_character t c = Some (t\<lparr>tk_chars := Some (s @ c # NUL # replicate ?n NUL), tk_length := Suc ?n\<rparr>)"
    using 1 2 3 by (simp add: add_character_def t(1,2))
  then show thesis by (rule that) (simp add: token_is_def)
qed

text \<open>A delimiter of one character.\<close>

lemma equation_loop_eq: "c_at str (int offset) = Some a \<Longrightarrow> c_at delim (int i) = Some b \<Longrightarrow>
    equation_loop str delim offset i = (if a = b then equation_loop str delim (Suc offset) (Suc i) else Some (offset, i))"
  by (subst equation_loop.simps) simp

lemma c_at_0: "c_at [d] (int 0) = Some d" "c_at [d] (int (Suc 0)) = Some NUL"
  by (simp_all add: c_at_def)

lemma check_other: "c_at str (int i) = Some c \<Longrightarrow> c \<noteq> d \<Longrightarrow> check_equation_delim str [d] i = Some (-1)"
  by (simp add: check_equation_delim_def equation_loop_eq [OF _ c_at_0(1)])

lemma check_delim:
  "c_at str (int i) = Some d \<Longrightarrow> c_at str (int (Suc i)) = Some c \<Longrightarrow> c \<noteq> NUL \<Longrightarrow> check_equation_delim str [d] i = Some (int i + 1)"
  by (simp add: check_equation_delim_def equation_loop_eq [OF _ c_at_0(1)] equation_loop_eq [OF _ c_at_0(2)])

text \<open>A string that ends with the delimiter is compared behind its end.\<close>

lemma check_at_end:
  assumes "c_at str (int i) = Some d" "Suc i = length str"
  shows "check_equation_delim str [d] i = UB"
proof -
  have e: "c_at str (int (Suc i)) = Some NUL" unfolding assms(2) by (rule c_at_end)
  have "c_at str (int (Suc (Suc i))) = UB" using assms(2) by (simp add: c_at_def)
  then have "equation_loop str [d] (Suc (Suc i)) (Suc (Suc 0)) = UB" by (subst equation_loop.simps) simp
  with equation_loop_eq [OF e c_at_0(2)] show ?thesis
    by (simp add: check_equation_delim_def equation_loop_eq [OF assms(1) c_at_0(1)])
qed

lemma c_at_append: "c_at (p @ c # q) (int (length p)) = Some c" "c_at (p @ [c]) (int (length p)) = Some c"
  by (simp_all add: c_at_def)

lemma tokens_loop_word:
  assumes "d \<notin> set w" "token_is t s"
  obtains t' where "tokens_loop (p @ w @ q) [d] (length p) t ts = tokens_loop (p @ w @ q) [d] (length p + length w) t' ts"
    "token_is t' (s @ w)"
proof -
  have "\<exists>t'. tokens_loop (p @ w @ q) [d] (length p) t ts = tokens_loop (p @ w @ q) [d] (length p + length w) t' ts \<and> token_is t' (s @ w)"
    using assms
  proof (induction w arbitrary: p t s)
    case (Cons c w)
    have at: "c_at (p @ (c # w) @ q) (int (length p)) = Some c" by (simp add: c_at_def)
    from Cons.prems have "c \<noteq> d" by auto
    then have k: "check_equation_delim (p @ (c # w) @ q) [d] (length p) = Some (-1)" using at by (rule check_other [rotated])
    from Cons.prems(2) obtain t1 where t1: "add_character t c = Some t1" "token_is t1 (s @ [c])" by (rule add_character_run)
    have 1: "tokens_loop (p @ (c # w) @ q) [d] (length p) t ts = tokens_loop (p @ (c # w) @ q) [d] (Suc (length p)) t1 ts"
      using k at t1(1) by (subst tokens_loop.simps) simp
    from Cons.IH [OF _ t1(2), of "p @ [c]"] Cons.prems(1) obtain t' where
      "tokens_loop (p @ (c # w) @ q) [d] (Suc (length p)) t1 ts = tokens_loop (p @ (c # w) @ q) [d] (Suc (length p + length w)) t' ts"
      "token_is t' (s @ c # w)" by auto
    with 1 show ?case by (intro exI [of _ t']) simp
  next
    case Nil
    then show ?case by (intro exI [of _ t]) simp
  qed
  then show thesis using that by blast
qed

lemma tokens_loop_end:
  assumes "token_is t s" "s \<noteq> []" "d \<noteq> NUL"
  shows "tokens_loop str [d] (length str) t ts = Some (ts @ [t])"
proof -
  have "check_equation_delim str [d] (length str) = Some (-1)" using c_at_end assms(3) by (rule check_other [OF _ not_sym])
  moreover have "tokens_loop str [d] (Suc (length str)) token_new (ts @ [t]) = Some (ts @ [t])" by (subst tokens_loop.simps) simp
  moreover have "tk_length t \<noteq> 0" using assms by (simp add: token_is_def)
  ultimately show ?thesis by (subst tokens_loop.simps) (simp add: c_at_end)
qed

lemma tokens_loop_delim:
  assumes "token_is t s" "s \<noteq> []" "c \<noteq> NUL"
  shows "tokens_loop (p @ d # c # q) [d] (length p) t ts = tokens_loop (p @ d # c # q) [d] (Suc (length p)) token_new (ts @ [t])"
proof -
  have "check_equation_delim (p @ d # c # q) [d] (length p) = Some (int (length p) + 1)"
    using c_at_append(1) c_at_append(1) [of "p @ [d]" c q] assms(3) by (intro check_delim) simp_all
  moreover have "tk_length t \<noteq> 0" using assms by (simp add: token_is_def)
  ultimately show ?thesis by (subst tokens_loop.simps) simp
qed

text \<open>The text of some pieces with a delimiter between them.\<close>

fun join_with :: "char \<Rightarrow> string list \<Rightarrow> string" where
  "join_with d [] = []"
| "join_with d [w] = w"
| "join_with d (w # ws) = w @ d # join_with d ws"

lemma tokens_loop_join:
  assumes "ws \<noteq> []" "\<forall>w\<in>set ws. w \<noteq> [] \<and> d \<notin> set w \<and> c_string w" "d \<noteq> NUL"
  shows "\<exists>ts'. tokens_loop (p @ join_with d ws) [d] (length p) token_new ts = Some (ts @ ts') \<and> list_all2 token_is ts' ws"
  using assms
proof (induction ws arbitrary: p ts rule: join_with.induct)
  case (2 d w)
  obtain t where t: "tokens_loop (p @ w @ []) [d] (length p) token_new ts = tokens_loop (p @ w @ []) [d] (length p + length w) t ts"
    "token_is t ([] @ w)" using tokens_loop_word [OF _ token_is_new, of d w p "[]" ts] 2 by auto
  have "tokens_loop (p @ w) [d] (length (p @ w)) t ts = Some (ts @ [t])" using t(2) 2 by (intro tokens_loop_end) auto
  with t show ?case by (intro exI [of _ "[t]"]) simp
next
  case (3 d w v vs)
  obtain c q where q: "join_with d (v # vs) = c # q" "c \<noteq> NUL" using 3 by (cases v; cases vs) auto
  let ?str = "p @ w @ d # join_with d (v # vs)"
  obtain t where t: "tokens_loop ?str [d] (length p) token_new ts = tokens_loop ?str [d] (length p + length w) t ts"
    "token_is t ([] @ w)" using tokens_loop_word [OF _ token_is_new, of d w p "d # join_with d (v # vs)" ts] "3.prems" by auto
  have 1: "tokens_loop ?str [d] (length p + length w) t ts = tokens_loop ?str [d] (Suc (length p + length w)) token_new (ts @ [t])"
    using tokens_loop_delim [of t w c "p @ w" d q ts] t(2) q "3.prems" by simp
  from "3.IH" [of "p @ w @ [d]" "ts @ [t]"] "3.prems" obtain ts' where
    "tokens_loop ?str [d] (Suc (length p + length w)) token_new (ts @ [t]) = Some (ts @ t # ts')" "list_all2 token_is ts' (v # vs)" by auto
  with t 1 show ?case by (intro exI [of _ "t # ts'"]) simp
qed simp

lemma split_join:
  assumes "ws \<noteq> []" "\<forall>w\<in>set ws. w \<noteq> [] \<and> d \<notin> set w \<and> c_string w" "d \<noteq> NUL"
  obtains ts where "split (join_with d ws) [d] = Some ts" "list_all2 token_is ts ws"
  using tokens_loop_join [OF assms, of "[]" "[]"] that by (auto simp: split_def)

text \<open>Trimming.\<close>

lemma c_strlen_terminated: "c_string s \<Longrightarrow> c_strlen (s @ NUL # r) = Some (length s)"
  by (simp add: c_strlen_def c_simps)

lemma trim_shift_run:
  assumes "c_string s" "0 < i" "i \<le> length s" "j \<le> length s - i"
  shows "\<exists>r'. trim_shift (take j (drop i s) @ drop j (s @ NUL # r)) i j = Some (drop i s @ NUL # r')
              \<and> length (drop i s @ NUL # r') = length (s @ NUL # r)"
  using assms
proof (induction "length s - i - j" arbitrary: j)
  case 0
  let ?cells = "take j (drop i s) @ drop j (s @ NUL # r)"
  have j: "j = length s - i" using 0 by simp
  have t: "take j (drop i s) = drop i s" using j by simp
  have c1: "?cells = drop i s @ drop j s @ NUL # r" using t j by simp
  have cs: "c_string (drop i s @ drop j s)" using 0(2) by (auto simp: c_string_def dest: in_set_dropD)
  have n: "c_strlen ?cells = Some (length s)" using c_strlen_terminated [OF cs, of r] c1 j 0(3,4) by simp
  have g: "arr_get ?cells (int (j + i)) = Some NUL" using j 0 by (auto simp: c1 arr_get_def nth_append)
  have l: "j < length ?cells" "j < length s" using j 0 by simp_all
  obtain x q where q: "drop j s @ NUL # r = x # q" by (cases "drop j s @ NUL # r") auto
  have c2: "?cells[j := NUL] = drop i s @ NUL # q" using c1 q j by (simp add: list_update_append)
  have "length q = length s + length r - j" using arg_cong [OF q, of length] l by simp
  then have "q \<noteq> []" using l 0 by auto
  then obtain y q' where y: "q = y # q'" by (cases q) auto
  have cs2: "c_string (drop i s)" using 0(2) by (auto simp: c_string_def dest: in_set_dropD)
  have j': "length (drop i s) = j" using j by simp
  have "c_strlen (drop i s @ NUL # q) = Some j" using c_strlen_terminated [OF cs2, of q] j' by simp
  then have "trim_shift (?cells[j := NUL]) i (Suc j) = arr_set (drop i s @ NUL # q) (int (Suc j)) NUL"
    unfolding c2 by (subst trim_shift.simps) simp
  moreover have "arr_set (drop i s @ NUL # q) (int (Suc j)) NUL = Some (drop i s @ NUL # NUL # q')"
    using arr_set_nat [of "Suc j" "drop i s @ NUL # q" NUL] j' y by (simp add: list_update_append del: of_nat_Suc)
  ultimately have "trim_shift ?cells i j = Some (drop i s @ NUL # NUL # q')"
    using n g l by (subst trim_shift.simps) simp
  moreover have "length (drop i s @ NUL # NUL # q') = length (s @ NUL # r)"
    using arg_cong [OF q, of length] y j' l by simp
  ultimately show ?case by blast
next
  case (Suc x)
  let ?cells = "take j (drop i s) @ drop j (s @ NUL # r)"
  have jl: "j < length s - i" using Suc(2) by simp
  then have l: "j < length s" "j < length ?cells" "i + j < length s" by simp_all
  have c1: "?cells = (take j (drop i s) @ drop j s) @ NUL # r" using l by simp
  have cs: "c_string (take j (drop i s) @ drop j s)"
    using Suc(3) by (auto simp: c_string_def dest: in_set_dropD in_set_takeD)
  have n: "c_strlen ?cells = Some (length s)"
    unfolding c1 c_strlen_terminated [OF cs] using jl by simp
  have nth: "?cells ! (j + i) = s ! (j + i)" using l jl by (simp add: nth_append less_diff_conv)
  have g: "arr_get ?cells (int (j + i)) = Some (s ! (j + i))"
    using arr_get_nat [of "j + i" ?cells] l nth by (simp del: of_nat_add)
  have tk: "take (Suc j) (drop i s) = take j (drop i s) @ [s ! (j + i)]"
    using l by (simp add: take_Suc_conv_app_nth add.commute)
  have "?cells = take j (drop i s) @ s ! j # drop (Suc j) (s @ NUL # r)"
    using l by (simp add: Cons_nth_drop_Suc Suc_diff_le)
  moreover have "length (take j (drop i s)) = j" using jl by simp
  ultimately have c2: "?cells[j := s ! (j + i)] = take (Suc j) (drop i s) @ drop (Suc j) (s @ NUL # r)"
    unfolding tk by (metis append.assoc append_Cons append_Nil list_update_length)
  have "trim_shift ?cells i j = trim_shift (take (Suc j) (drop i s) @ drop (Suc j) (s @ NUL # r)) i (Suc j)"
    using n g l c2 by (subst trim_shift.simps) simp
  moreover have "x = length s - i - Suc j" "Suc j \<le> length s - i" using Suc(2) by simp_all
  ultimately show ?case using Suc(1) [of "Suc j"] Suc(3-5) by simp
qed

lemma trim_last_run:
  "cells = s @ q \<Longrightarrow> s \<noteq> [] \<Longrightarrow> \<exists>c\<in>set s. \<not> is_blank c \<Longrightarrow>
   trim_last cells (int (length s) - 1) = Some (int (length (rev (dropWhile is_blank (rev s)))) - 1)"
proof (induction s arbitrary: q rule: rev_induct)
  case (snoc c s)
  have g: "arr_get cells (int (length s)) = Some c" using snoc.prems(1) by (simp add: arr_get_def nth_append)
  show ?case
  proof (cases "is_blank c")
    case True
    with snoc.prems have "\<exists>c\<in>set s. \<not> is_blank c" "s \<noteq> []" by auto
    with snoc.IH [of "c # q"] snoc.prems(1) show ?thesis using g True by (subst trim_last.simps) simp
  next
    case False
    then show ?thesis using g by (subst trim_last.simps) simp
  qed
qed simp

text \<open>Blanks around a core are cut off; the array keeps its length.\<close>

lemma trim_run:
  assumes "c_string (b1 @ core @ b2)" "\<forall>c\<in>set b1 \<union> set b2. is_blank c" "core \<noteq> []" "\<not> is_blank (hd core)" "\<not> is_blank (last core)"
  obtains r' where "trim ((b1 @ core @ b2) @ NUL # r) = Some (core @ NUL # r')" "length (core @ NUL # r') = length ((b1 @ core @ b2) @ NUL # r)"
proof -
  let ?s = "b1 @ core @ b2"
  obtain c w where core: "core = c # w" "\<not> is_blank c" using assms(3,4) by (cases core) auto
  have tw: "takeWhile is_blank ?s = b1" using assms(2) core by (simp add: takeWhile_append2)
  have str: "c_str (Some (?s @ NUL # r)) = Some ?s" by (rule c_str_terminated [OF assms(1)])
  have "\<exists>r1. (if length b1 > 0 then trim_shift (?s @ NUL # r) (length b1) 0 else Some (?s @ NUL # r)) = Some ((core @ b2) @ NUL # r1)
      \<and> length ((core @ b2) @ NUL # r1) = length (?s @ NUL # r)"
    using trim_shift_run [OF assms(1), of "length b1" 0 r] by (cases "b1 = []") simp_all
  then obtain r1 where r1: "(if length b1 > 0 then trim_shift (?s @ NUL # r) (length b1) 0 else Some (?s @ NUL # r)) = Some ((core @ b2) @ NUL # r1)"
    "length ((core @ b2) @ NUL # r1) = length (?s @ NUL # r)" by blast
  have cs: "c_string (core @ b2)" using assms(1) by simp
  have n: "c_strlen ((core @ b2) @ NUL # r1) = Some (length (core @ b2))" by (rule c_strlen_terminated [OF cs])
  have "rev core \<noteq> []" "\<not> is_blank (hd (rev core))" using assms(3,5) by (simp_all add: hd_rev)
  then have "dropWhile is_blank (rev core) = rev core" by (cases "rev core") auto
  then have d: "dropWhile is_blank (rev (core @ b2)) = rev core" using assms(2) dropWhile_append2 [of "rev b2" is_blank "rev core"] by simp
  have "\<exists>x\<in>set (core @ b2). \<not> is_blank x" using core by auto
  then have k: "trim_last ((core @ b2) @ NUL # r1) (int (length (core @ b2)) - 1) = Some (int (length core) - 1)"
    using trim_last_run [of "(core @ b2) @ NUL # r1" "core @ b2" "NUL # r1"] assms(3) d by simp
  have t: "trim (?s @ NUL # r) = (if int (length core) - 1 < int (length (core @ b2)) - 1
      then arr_set ((core @ b2) @ NUL # r1) (int (length core) - 1 + 1) NUL else Some ((core @ b2) @ NUL # r1))"
    by (simp only: trim_def str tw Let_def Option.bind.simps r1(1) n k)
  show thesis
  proof (cases "b2 = []")
    case True
    then show ?thesis using that [of r1] r1(2) t by simp
  next
    case False
    then obtain x b3 where b: "b2 = x # b3" by (cases b2) auto
    have "arr_set ((core @ b2) @ NUL # r1) (int (length core) - 1 + 1) NUL = Some (core @ NUL # b3 @ NUL # r1)"
      using b by (simp add: arr_set_def list_update_append)
    then show ?thesis using that [of "b3 @ NUL # r1"] r1(2) t b by simp
  qed
qed

text \<open>The string that is nothing but its terminator is looked at before its start.\<close>

lemma trim_empty: "trim (NUL # r) = UB"
  by (simp add: trim_def c_str_def c_strlen_def trim_last.simps [of _ "-1"] arr_get_def)

text \<open>
  Reading a line. Between two chunks of 255 characters the array is full or has room for another
  chunk: its last index and the offset are multiples of 255.
\<close>

lemma fgets_line: "c_string w \<Longrightarrow> CHR 0x0A \<notin> set w \<Longrightarrow> length w < 255 \<Longrightarrow> fgets 256 (w @ CHR 0x0A # rest) = (Some (w @ [CHR 0x0A]), rest)"
proof -
  assume w: "CHR 0x0A \<notin> set w" "length w < 255"
  then have "takeWhile (\<lambda>c. c \<noteq> CHR 0x0A) (w @ CHR 0x0A # rest) = w" by (induction w) auto
  with w show ?thesis by (simp add: fgets_def Let_def min_absorb2)
qed

lemma fgets_chunk: "CHR 0x0A \<notin> set w \<Longrightarrow> 255 \<le> length w \<Longrightarrow> fgets 256 (w @ q) = (Some (take 255 w), drop 255 w @ q)"
proof -
  assume w: "CHR 0x0A \<notin> set w" "255 \<le> length w"
  have "takeWhile (\<lambda>c. c \<noteq> CHR 0x0A) (w @ q) = w @ takeWhile (\<lambda>c. c \<noteq> CHR 0x0A) q" using w(1) by (induction w) auto
  moreover have "w @ q \<noteq> []" using w by auto
  ultimately show ?thesis using w(2) by (simp add: fgets_def Let_def)
qed

definition line_array :: "string \<Rightarrow> string \<Rightarrow> nat \<Rightarrow> bool" where
  "line_array cells p cap \<longleftrightarrow> length cells = cap \<and> take (length p) cells = p \<and> length p < cap \<and> 256 \<le> cap
     \<and> 255 dvd length p \<and> 255 dvd cap - 1"

lemma line_array_room:
  assumes "line_array cells p cap"
  shows "\<exists>cells1 cap1. (if length p \<ge> cap - 1 then reallocate_memory NUL (Some cells) cap (length p * 2 + 1) else Some (Some cells)) = Some (Some cells1)
    \<and> (if length p \<ge> cap - 1 then length p * 2 + 1 else cap) = cap1
    \<and> length cells1 = cap1 \<and> take (length p) cells1 = p \<and> length p + 256 \<le> cap1 \<and> 255 dvd cap1 - 1"
proof (cases "length p \<ge> cap - 1")
  case True
  then have "reallocate_memory NUL (Some cells) cap (length p * 2 + 1) = Some (Some (cells @ replicate (length p * 2 + 1 - cap) NUL))"
    using assms by (auto simp: reallocate_memory_def line_array_def)
  moreover have "length p \<ge> 255" using True assms unfolding line_array_def by linarith
  ultimately show ?thesis using True assms by (simp add: line_array_def)
next
  case False
  have "255 dvd length p" "255 dvd cap - 1" using assms by (simp_all add: line_array_def)
  then obtain k m where "length p = 255 * k" "cap - 1 = 255 * m" unfolding dvd_def by blast
  moreover from this have "k < m" using False by linarith
  ultimately have "length p + 255 \<le> cap - 1" by linarith
  then have "length p + 256 \<le> cap" using False by linarith
  then show ?thesis using False assms by (simp add: line_array_def)
qed

lemma line_array_write:
  assumes "length cells1 = cap1" "take (length p) cells1 = p" "length p + length w < cap1"
  obtains r where "strcpy (Some cells1) (length p) w = Some (Some (p @ w @ NUL # r))" "length (p @ w @ NUL # r) = cap1"
proof -
  define rest where "rest = drop (Suc (length p + length w)) cells1"
  have "mem_write (Some cells1) (length p) (w @ [NUL]) = Some (Some (p @ w @ NUL # rest))"
    using assms by (simp add: mem_write_def rest_def)
  moreover have "length rest = cap1 - Suc (length p + length w)" using assms(1) by (simp add: rest_def)
  moreover have "length (p @ w @ NUL # rest) = cap1"
    unfolding length_append list.size calculation(2) using assms(3) by linarith
  ultimately show thesis by (intro that [of rest]) (simp_all add: strcpy_def)
qed

lemma readline_step:
  assumes "fgets 256 rest = (Some b, rest')"
    "(if offset \<ge> cap - 1 then reallocate_memory NUL string cap (offset * 2 + 1) else Some string) = Some string1"
    "(if offset \<ge> cap - 1 then offset * 2 + 1 else cap) = cap1"
    "takeWhile (\<lambda>c. c \<noteq> NUL) b = part" "strcpy string1 offset part = Some (Some cells2)"
    "arr_get cells2 (int (offset + length part) - 1) = Some c"
  shows "readline_loop rest string offset cap
    = (if c = CHR 0x0A then Some (Some cells2, rest') else readline_loop rest' (Some cells2) (offset + length part) cap1)"
  by (subst readline_loop.simps) (simp only: assms prod.case option.case Option.bind.simps Let_def)

lemma readline_loop_line:
  assumes "line_array cells p cap" "c_string w" "CHR 0x0A \<notin> set w"
  shows "\<exists>r. readline_loop (w @ CHR 0x0A # rest) (Some cells) (length p) cap = Some (Some (p @ w @ CHR 0x0A # NUL # r), rest)"
  using assms
proof (induction "length w" arbitrary: w cells p cap rule: less_induct)
  case less
  obtain cells1 cap1 where c1: "(if length p \<ge> cap - 1 then reallocate_memory NUL (Some cells) cap (length p * 2 + 1) else Some (Some cells)) = Some (Some cells1)"
    "(if length p \<ge> cap - 1 then length p * 2 + 1 else cap) = cap1"
    "length cells1 = cap1" "take (length p) cells1 = p" "length p + 256 \<le> cap1" "255 dvd cap1 - 1"
    using line_array_room [OF less.prems(1)] by blast
  show ?case
  proof (cases "length w < 255")
    case True
    have cs: "takeWhile (\<lambda>c. c \<noteq> NUL) (w @ [CHR 0x0A]) = w @ [CHR 0x0A]" using less.prems(2) by (auto simp: c_string_def takeWhile_eq_all_conv NUL_def)
    obtain r where r: "strcpy (Some cells1) (length p) (w @ [CHR 0x0A]) = Some (Some (p @ (w @ [CHR 0x0A]) @ NUL # r))"
      using line_array_write [OF c1(3,4), of "w @ [CHR 0x0A]"] True c1(5) by auto
    have g: "arr_get (p @ (w @ [CHR 0x0A]) @ NUL # r) (int (length p + length (w @ [CHR 0x0A])) - 1) = Some (CHR 0x0A)"
      using arr_get_nat [of "length p + length w" "p @ (w @ [CHR 0x0A]) @ NUL # r"] by (simp add: nth_append add.commute)
    show ?thesis
      using readline_step [OF fgets_line [OF less.prems(2,3) True, of rest] c1(1,2) cs r g] by auto
  next
    case False
    have w: "take 255 w @ drop 255 w = w" by simp
    have cs: "takeWhile (\<lambda>c. c \<noteq> NUL) (take 255 w) = take 255 w"
      using less.prems(2) by (auto simp: c_string_def takeWhile_eq_all_conv dest: in_set_takeD)
    have "length p + length (take 255 w) < cap1" using c1(5) by simp
    then obtain r where r: "strcpy (Some cells1) (length p) (take 255 w) = Some (Some (p @ take 255 w @ NUL # r))" "length (p @ take 255 w @ NUL # r) = cap1"
      by (rule line_array_write [OF c1(3,4)])
    have g: "\<exists>c. arr_get (p @ take 255 w @ NUL # r) (int (length p + length (take 255 w)) - 1) = Some c \<and> c \<noteq> CHR 0x0A"
    proof -
      have "arr_get (p @ take 255 w @ NUL # r) (int (length p + 254)) = Some (w ! 254)"
        using False arr_get_nat [of "length p + 254" "p @ take 255 w @ NUL # r"] by (simp add: nth_append)
      moreover have "w ! 254 \<in> set w" using False by simp
      moreover have "int (length p + length (take 255 w)) - 1 = int (length p + 254)" using False by simp
      ultimately show ?thesis using less.prems(3) by metis
    qed
    have la: "line_array (p @ take 255 w @ NUL # r) (p @ take 255 w) cap1"
      using r(2) False less.prems(1) c1(5,6) by (auto simp: line_array_def)
    have d: "c_string (drop 255 w)" "CHR 0x0A \<notin> set (drop 255 w)" "length (drop 255 w) < length w"
      using less.prems(2,3) False by (auto simp: c_string_def dest: in_set_dropD)
    from less.hyps [OF d(3) la d(1,2)] obtain r2 where
      "readline_loop (drop 255 w @ CHR 0x0A # rest) (Some (p @ take 255 w @ NUL # r)) (length (p @ take 255 w)) cap1
        = Some (Some ((p @ take 255 w) @ drop 255 w @ CHR 0x0A # NUL # r2), rest)" by blast
    moreover from g obtain c where c: "arr_get (p @ take 255 w @ NUL # r) (int (length p + length (take 255 w)) - 1) = Some c" "c \<noteq> CHR 0x0A" by blast
    have "255 \<le> length w" using False by simp
    from readline_step [OF fgets_chunk [OF less.prems(3) this, of "CHR 0x0A # rest"] c1(1,2) cs r(1) c(1)] c(2)
    have "readline_loop (w @ CHR 0x0A # rest) (Some cells) (length p) cap
      = readline_loop (drop 255 w @ CHR 0x0A # rest) (Some (p @ take 255 w @ NUL # r)) (length (p @ take 255 w)) cap1" by simp
    moreover have "(p @ take 255 w) @ drop 255 w @ x = p @ w @ x" for x using w by (metis append.assoc)
    ultimately show ?thesis by metis
  qed
qed

lemma file_readline_line:
  assumes "c_string w" "CHR 0x0A \<notin> set w"
  obtains r where "file_readline (w @ CHR 0x0A # rest) = Some (Some (w @ CHR 0x0A # NUL # r), rest)"
  using readline_loop_line [of "replicate 256 NUL" "[]" 256, OF _ assms] that
  by (auto simp: file_readline_def allocate_memory_def mem_alloc_def line_array_def)

lemma readline_loop_Nil: "readline_loop [] buffer offset cap = Some (NULL, [])"
  by (subst readline_loop.simps) (simp add: fgets_def)

lemma readline_loop_no_line:
  assumes "line_array cells p cap" "c_string w" "CHR 0x0A \<notin> set w"
  shows "readline_loop w (Some cells) (length p) cap = Some (NULL, [])"
  using assms
proof (induction "length w" arbitrary: w cells p cap rule: less_induct)
  case less
  obtain cells1 cap1 where c1: "(if length p \<ge> cap - 1 then reallocate_memory NUL (Some cells) cap (length p * 2 + 1) else Some (Some cells)) = Some (Some cells1)"
    "(if length p \<ge> cap - 1 then length p * 2 + 1 else cap) = cap1"
    "length cells1 = cap1" "take (length p) cells1 = p" "length p + 256 \<le> cap1" "255 dvd cap1 - 1"
    using line_array_room [OF less.prems(1)] by blast
  show ?case
  proof (cases "w = []")
    case True
    then show ?thesis by (simp add: readline_loop_Nil)
  next
    case False
    let ?k = "min 255 (length w)"
    have tw: "takeWhile (\<lambda>c. c \<noteq> CHR 0x0A) w = w" using less.prems(3) by (auto simp: takeWhile_eq_all_conv)
    have f: "fgets 256 w = (Some (take ?k w), drop ?k w)" unfolding fgets_def Let_def tw using False by simp
    have cs: "takeWhile (\<lambda>c. c \<noteq> NUL) (take ?k w) = take ?k w"
      using less.prems(2) by (auto simp: c_string_def takeWhile_eq_all_conv dest: in_set_takeD)
    have "length p + length (take ?k w) < cap1" using c1(5) by simp
    then obtain r where r: "strcpy (Some cells1) (length p) (take ?k w) = Some (Some (p @ take ?k w @ NUL # r))" "length (p @ take ?k w @ NUL # r) = cap1"
      by (rule line_array_write [OF c1(3,4)])
    have "?k - 1 < length w" using False by (cases w) auto
    then have "w ! (?k - 1) \<in> set w" by simp
    moreover have "arr_get (p @ take ?k w @ NUL # r) (int (length p + (?k - 1))) = Some (w ! (?k - 1))"
      using False arr_get_nat [of "length p + (?k - 1)" "p @ take ?k w @ NUL # r"] by (cases w) (auto simp: nth_append min_def)
    moreover have "int (length p + length (take ?k w)) - 1 = int (length p + (?k - 1))" using False by (cases w) auto
    ultimately have g: "\<exists>c. arr_get (p @ take ?k w @ NUL # r) (int (length p + length (take ?k w)) - 1) = Some c \<and> c \<noteq> CHR 0x0A"
      using less.prems(3) by metis
    have "readline_loop (drop ?k w) (Some (p @ take ?k w @ NUL # r)) (length (p @ take ?k w)) cap1 = Some (NULL, [])"
    proof (cases "length w \<le> 255")
      case True
      then show ?thesis by (simp add: readline_loop_Nil)
    next
      case long: False
      then have "line_array (p @ take ?k w @ NUL # r) (p @ take ?k w) cap1"
        using r(2) less.prems(1) c1(5,6) by (auto simp: line_array_def)
      moreover have "c_string (drop ?k w)" "CHR 0x0A \<notin> set (drop ?k w)" "length (drop ?k w) < length w"
        using less.prems(2,3) long by (auto simp: c_string_def dest: in_set_dropD)
      ultimately show ?thesis using less.hyps by blast
    qed
    moreover from g obtain c where c: "arr_get (p @ take ?k w @ NUL # r) (int (length p + length (take ?k w)) - 1) = Some c" "c \<noteq> CHR 0x0A" by blast
    ultimately show ?thesis using readline_step [OF f c1(1,2) cs r(1) c(1)] by simp
  qed
qed

lemma file_readline_no_line: "c_string w \<Longrightarrow> CHR 0x0A \<notin> set w \<Longrightarrow> file_readline w = Some (NULL, [])"
  using readline_loop_no_line [of "replicate 256 NUL" "[]" 256]
  by (simp add: file_readline_def allocate_memory_def mem_alloc_def line_array_def)

text \<open>Lines on a socket. The array has room for two more cells before it is grown.\<close>

definition recv_array :: "string ptr \<Rightarrow> string \<Rightarrow> nat \<Rightarrow> bool" where
  "recv_array buffer p cap \<longleftrightarrow> (\<exists>cells. buffer = Some cells \<and> length cells = cap \<and> take (length p) cells = p \<and> length p + 2 < cap)"

lemma recv_array_write:
  assumes "recv_array buffer p cap"
  obtains r where "mem_write buffer (length p) [c] = Some (Some (p @ c # r))" "length (p @ c # r) = cap" "length p + 2 < cap"
proof -
  from assms obtain cells where b: "buffer = Some cells" "length cells = cap" "take (length p) cells = p" "length p + 2 < cap"
    by (auto simp: recv_array_def)
  show thesis by (rule that [of "drop (Suc (length p)) cells"]) (use b in \<open>simp_all add: mem_write_def\<close>)
qed

lemma recv_array_grown:
  assumes "length (p @ r) = cap" "length p + 2 = cap" "2 < cap"
  obtains buffer2 where "reallocate_memory NUL (Some (p @ r)) cap (cap + cap div 2) = Some buffer2"
    "recv_array buffer2 p (cap + cap div 2)"
proof (rule that)
  show "reallocate_memory NUL (Some (p @ r)) cap (cap + cap div 2) = Some (Some ((p @ r) @ replicate (cap div 2) NUL))"
    using assms by (simp add: reallocate_memory_def)
  have "0 < cap div 2" using assms by simp
  then show "recv_array (Some ((p @ r) @ replicate (cap div 2) NUL)) p (cap + cap div 2)"
    using assms by (simp add: recv_array_def)
qed

lemma receive_loop_word:
  assumes "recv_array buffer p cap" "c_string w" "CHR 0x0A \<notin> set w" "CHR 0x0D \<notin> set w" "ends < 2"
  shows "\<exists>buffer2 cap2. receive_loop (w @ q) buffer (length p) ends cap = receive_loop q buffer2 (length p + length w) ends cap2
    \<and> recv_array buffer2 (p @ w) cap2"
  using assms
proof (induction w arbitrary: p buffer cap)
  case Nil
  then show ?case by auto
next
  case (Cons c w)
  obtain r where r: "mem_write buffer (length p) [c] = Some (Some (p @ c # r))" "length (p @ c # r) = cap" "length p + 2 < cap"
    using Cons.prems(1) by (rule recv_array_write)
  have "\<exists>buffer1 cap1. receive_loop ((c # w) @ q) buffer (length p) ends cap = receive_loop (w @ q) buffer1 (length (p @ [c])) ends cap1
    \<and> recv_array buffer1 (p @ [c]) cap1"
  proof (cases "length (p @ [c]) = cap - 2")
    case True
    then have "length ((p @ [c]) @ r) = cap" "length (p @ [c]) + 2 = cap" "2 < cap" using r(2,3) by simp_all
    then obtain b2 where b2: "reallocate_memory NUL (Some ((p @ [c]) @ r)) cap (cap + cap div 2) = Some b2" "recv_array b2 (p @ [c]) (cap + cap div 2)"
      by (rule recv_array_grown)
    then have "receive_loop ((c # w) @ q) buffer (length p) ends cap = receive_loop (w @ q) b2 (length (p @ [c])) ends (cap + cap div 2)"
      using r(1) Cons.prems True by (subst receive_loop.simps) (auto simp: Let_def)
    with b2(2) show ?thesis by blast
  next
    case False
    then have "receive_loop ((c # w) @ q) buffer (length p) ends cap = receive_loop (w @ q) (Some (p @ c # r)) (length (p @ [c])) ends cap"
      using r(1) Cons.prems by (subst receive_loop.simps) (auto simp: Let_def)
    moreover have "recv_array (Some (p @ c # r)) (p @ [c]) cap" using r(2,3) False by (auto simp: recv_array_def)
    ultimately show ?thesis by blast
  qed
  then obtain buffer1 cap1 where 1: "receive_loop ((c # w) @ q) buffer (length p) ends cap = receive_loop (w @ q) buffer1 (length (p @ [c])) ends cap1"
    "recv_array buffer1 (p @ [c]) cap1" by blast
  from Cons.IH [OF 1(2)] Cons.prems obtain buffer2 cap2 where
    "receive_loop (w @ q) buffer1 (length (p @ [c])) ends cap1 = receive_loop q buffer2 (length (p @ [c]) + length w) ends cap2"
    "recv_array buffer2 ((p @ [c]) @ w) cap2" by auto
  with 1(1) show ?case by auto
qed

lemma receive_loop_first_end:
  assumes "recv_array buffer p cap" "e \<in> {CHR 0x0A, CHR 0x0D}"
  shows "\<exists>buffer2 cap2. receive_loop (e # q) buffer (length p) 0 cap = receive_loop q buffer2 (length (p @ [e])) 1 cap2
    \<and> recv_array buffer2 (p @ [e]) cap2"
proof -
  obtain r where r: "mem_write buffer (length p) [e] = Some (Some (p @ e # r))" "length (p @ e # r) = cap" "length p + 2 < cap"
    using assms(1) by (rule recv_array_write)
  have n: "e \<noteq> NUL" using assms(2) by (auto simp: NUL_def)
  show ?thesis
  proof (cases "length (p @ [e]) = cap - 2")
    case True
    then have "length ((p @ [e]) @ r) = cap" "length (p @ [e]) + 2 = cap" "2 < cap" using r(2,3) by simp_all
    then obtain b2 where b2: "reallocate_memory NUL (Some ((p @ [e]) @ r)) cap (cap + cap div 2) = Some b2" "recv_array b2 (p @ [e]) (cap + cap div 2)"
      by (rule recv_array_grown)
    then have "receive_loop (e # q) buffer (length p) 0 cap = receive_loop q b2 (length (p @ [e])) 1 (cap + cap div 2)"
      using r(1) n assms(2) True by (subst receive_loop.simps) (auto simp: Let_def)
    with b2(2) show ?thesis by blast
  next
    case False
    then have "receive_loop (e # q) buffer (length p) 0 cap = receive_loop q (Some (p @ e # r)) (length (p @ [e])) 1 cap"
      using r(1) n assms(2) by (subst receive_loop.simps) (auto simp: Let_def)
    moreover have "recv_array (Some (p @ e # r)) (p @ [e]) cap" using r(2,3) False by (auto simp: recv_array_def)
    ultimately show ?thesis by blast
  qed
qed

lemma receive_loop_second_end:
  assumes "recv_array buffer (p @ [d]) cap" "e \<in> {CHR 0x0A, CHR 0x0D}"
  obtains r where "receive_loop (e # q) buffer (length (p @ [d])) 1 cap = Some (Some (p @ NUL # e # r), q)"
proof -
  obtain r where r: "mem_write buffer (length (p @ [d])) [e] = Some (Some ((p @ [d]) @ e # r))"
    using assms(1) by (rule recv_array_write)
  have n: "e \<noteq> NUL" using assms(2) by (auto simp: NUL_def)
  have "mem_write (Some (p @ d # e # r)) (length p) [NUL] = Some (Some (p @ NUL # e # r))" by (simp add: mem_write_def)
  then have "receive_loop (e # q) buffer (length (p @ [d])) 1 cap = Some (Some (p @ NUL # e # r), q)"
    using r n assms(2) by (subst receive_loop.simps) (auto simp: Let_def)
  then show thesis by (rule that)
qed

lemma recv_array_start: "recv_array (allocate_memory 4) [] 4"
  by (simp add: recv_array_def allocate_memory_def mem_alloc_def)

lemma receive_line_crlf:
  assumes "c_string w" "CHR 0x0A \<notin> set w" "CHR 0x0D \<notin> set w"
  obtains r where "receive_line (w @ [CHR 0x0D, CHR 0x0A] @ q) = Some (Some (w @ NUL # CHR 0x0A # r), q)"
proof -
  obtain b1 c1 where 1: "receive_line (w @ [CHR 0x0D, CHR 0x0A] @ q) = receive_loop ([CHR 0x0D, CHR 0x0A] @ q) b1 (length w) 0 c1" "recv_array b1 w c1"
    using receive_loop_word [OF recv_array_start assms, of 0 "[CHR 0x0D, CHR 0x0A] @ q"] by (auto simp: receive_line_def)
  obtain b2 c2 where 2: "receive_loop ([CHR 0x0D, CHR 0x0A] @ q) b1 (length w) 0 c1 = receive_loop (CHR 0x0A # q) b2 (length (w @ [CHR 0x0D])) 1 c2"
    "recv_array b2 (w @ [CHR 0x0D]) c2" using receive_loop_first_end [OF 1(2), of "CHR 0x0D" "CHR 0x0A # q"] by auto
  obtain r where "receive_loop (CHR 0x0A # q) b2 (length (w @ [CHR 0x0D])) 1 c2 = Some (Some (w @ NUL # CHR 0x0A # r), q)"
    using receive_loop_second_end [OF 2(2), of "CHR 0x0A" q] by auto
  with 1 2 show thesis by (intro that) simp
qed

lemma receive_line_waiting:
  assumes "c_string w" "CHR 0x0A \<notin> set w" "CHR 0x0D \<notin> set w"
  shows "receive_line w = Some (NULL, [])"
  using receive_loop_word [OF recv_array_start assms, of 0 "[]"] by (auto simp: receive_line_def receive_loop.simps [of "[]"])

section \<open>Properties\<close>

text \<open>
  A reply of the peer is read as the line it is, up to its CR LF, and the rest stays on the
  socket. But the socket does not block: of a reply whose end has not arrived yet, the part that
  has arrived is taken off the socket and lost, and no line is returned.
\<close>

theorem reply_line_received:
  assumes "c_string w" "CHR 0x0A \<notin> set w" "CHR 0x0D \<notin> set w"
  shows "(\<exists>b. receive_line (w @ [CHR 0x0D, CHR 0x0A] @ q) = Some (b, q) \<and> c_str b = Some w)
    \<and> receive_line w = Some (NULL, [])"
proof -
  obtain r where "receive_line (w @ [CHR 0x0D, CHR 0x0A] @ q) = Some (Some (w @ NUL # CHR 0x0A # r), q)"
    using assms by (rule receive_line_crlf)
  then show ?thesis using receive_line_waiting [OF assms] assms(1) by (auto simp: c_simps)
qed

theorem reply_line_received_witness:
  "(\<exists>b. receive_line (''250 OK'' @ [CHR 0x0D, CHR 0x0A] @ ''354'') = Some (b, ''354'') \<and> c_str b = Some ''250 OK'')
   \<and> receive_line ''250 OK'' = Some (NULL, [])"
  using reply_line_received [of "''250 OK''" "''354''"] by (simp add: NUL_def)

text \<open>
  \<open>send_line\<close> sends the message when the first call of \<open>send\<close> takes all of it. When it takes
  only the first \<open>k\<close> bytes and the second call takes the rest of the count, the peer gets the first
  \<open>k\<close> bytes again and never the end, although \<open>send_line\<close> reports success.
\<close>

theorem partial_send_repeats_prefix:
  assumes "0 < k" "k < length m" "n = length m"
  shows "send_line (SentBytes n # rs) m n = (1, m)
    \<and> send_line (SentBytes k # SentBytes (n - k) # rs) m n = (1, take k m @ take (n - k) m)"
proof (intro conjI)
  have step: "send_line (SentBytes j # q) m i = (let (r, out) = send_line q m (i - min j i) in (r, take (min j i) m @ out))" if "0 < i" for j i q
    using that by (cases i) (simp_all add: Let_def)
  have m: "m \<noteq> []" using assms by auto
  then show "send_line (SentBytes n # rs) m n = (1, m)" using step [of n n rs] assms by simp
  have "send_line (SentBytes (n - k) # rs) m (n - k) = (1, take (n - k) m)" using step [of "n - k" "n - k" rs] assms by auto
  then show "send_line (SentBytes k # SentBytes (n - k) # rs) m n = (1, take k m @ take (n - k) m)"
    using step [of n k "SentBytes (n - k) # rs"] assms m by (simp add: min_def)
qed

theorem partial_send_repeats_prefix_witness:
  "send_line [SentBytes 2, SentBytes 4] (''DATA'' @ [CHR 0x0D, CHR 0x0A]) 6 = (1, ''DA'' @ ''DATA'')"
  using partial_send_repeats_prefix [of 2 "''DATA'' @ [CHR 0x0D, CHR 0x0A]" 6 "[]"] by simp

end
