(* ===== verification/ClientSmtp.thy ===== *)
theory ClientSmtp
  imports ClientUtil
begin

text \<open>
  The SMTP side of the client, \<open>client/src/smtp/smtp.c\<close>: connecting to the server of a domain, the
  commands and the replies. The results of the system calls and of the resolver are arguments. The
  requests are only logged after they were sent; the log lines are dropped.
\<close>

datatype state_code =
    SMTP_CONNECT | SMTP_HELO | SMTP_EHLO | SMTP_MAIL | SMTP_RCPT | SMTP_DATA | SMTP_MESSAGE | SMTP_END_MESSAGE
  | SMTP_RSET | SMTP_QUIT | SMTP_INVALID

text \<open>The enumeration has no negative value and is an unsigned 32-bit type.\<close>

type_synonym status_code = "32 word"

definition SMTP_USER_MAILBOX_WAS_UNAVAILABLE :: status_code where "SMTP_USER_MAILBOX_WAS_UNAVAILABLE = 550"
definition UNDEFINED_ERROR :: status_code where "UNDEFINED_ERROR = 0"
definition NOT_ANSWER :: status_code where "NOT_ANSWER = 1"

record smtp_context =
  sc_socket_desc :: int
  sc_state_code :: state_code

record smtp_response =
  sr_status_code :: status_code
  sr_message :: "string ptr"

section \<open>Sockets that do not block\<close>

definition O_NONBLOCK :: "32 word" where "O_NONBLOCK = 0x800"

text \<open>
  The status flags of the descriptors, where they are open; \<open>settable\<close> says whether \<open>F_SETFL\<close> works.
\<close>

definition set_socket_blocking_enabled :: "(int \<Rightarrow> bool) \<Rightarrow> int \<Rightarrow> bool \<Rightarrow> (int \<rightharpoonup> 32 word) \<Rightarrow> (int \<rightharpoonup> 32 word) \<times> bool" where
  "set_socket_blocking_enabled settable socket blocking fl =
     (if socket < 0 then (fl, False)
      else (case fl socket of
              None \<Rightarrow> (fl, False)
            | Some flags \<Rightarrow>
                if flags = -1 then (fl, False)
                else if settable socket
                then (fl(socket \<mapsto> (if blocking then and flags (not O_NONBLOCK) else or flags O_NONBLOCK)), True)
                else (fl, False)))"

section \<open>Connecting\<close>

text \<open>
  What the functions of the system answer: the descriptor of the \<open>k\<close>-th socket, whether the flags of a
  socket can be set, what \<open>connect\<close> to an address and port gives on a socket that does not block or
  one that does (success, or an \<open>errno\<close>, which is \<open>EINPROGRESS\<close> when the answer of the other side is
  still to come), the mail servers of a domain (or none), and the addresses of a host.
\<close>

record net_env =
  ne_hostname :: string
  ne_server_port :: string
  ne_socket :: "nat \<Rightarrow> int"
  ne_settable :: "int \<Rightarrow> bool"
  ne_connect :: "bool \<Rightarrow> string \<Rightarrow> int \<Rightarrow> int option"
  ne_resolvmx :: "string \<Rightarrow> string list option"
  ne_ips :: "string \<Rightarrow> string list"

definition MAX_MX_ADDRS :: nat where "MAX_MX_ADDRS = 30"
definition EINPROGRESS :: int where "EINPROGRESS = 115"
definition O_RDWR :: "32 word" where "O_RDWR = 2"

text \<open>The mode of a new socket after the call in \<open>server_connect\<close>, whose result is not looked at.\<close>

definition non_blocking :: "(int \<Rightarrow> bool) \<Rightarrow> int \<Rightarrow> bool" where
  "non_blocking settable s =
     (case fst (set_socket_blocking_enabled settable s False [s \<mapsto> O_RDWR]) s of
        None \<Rightarrow> False
      | Some flags \<Rightarrow> and flags O_NONBLOCK \<noteq> 0)"

text \<open>An address is passed over when \<open>connect\<close> fails and is not in progress.\<close>

definition connect_goes_on :: "int option \<Rightarrow> bool" where
  "connect_goes_on r \<longleftrightarrow> r \<in> {None, Some EINPROGRESS}"

text \<open>A descriptor that could not be connected is not closed.\<close>

definition server_connect :: "net_env \<Rightarrow> nat \<Rightarrow> string list \<Rightarrow> string \<Rightarrow> int" where
  "server_connect env k ips port =
     (let server_socket = ne_socket env k;
          nb = non_blocking (ne_settable env) server_socket in
      if server_socket = -1 then -1
      else if List.find (\<lambda>ip. connect_goes_on (ne_connect env nb ip (to_uint16 (convert_string_to_long_int port)))) ips = None
      then -1
      else server_socket)"

fun connect_loop :: "net_env \<Rightarrow> nat \<Rightarrow> string list \<Rightarrow> string \<Rightarrow> smtp_context \<Rightarrow> smtp_context" where
  "connect_loop env k [] port context = context"
| "connect_loop env k (mx # mxs) port context =
     (let server_socket = server_connect env k (ne_ips env mx) port in
      if server_socket \<noteq> -1 then context\<lparr>sc_socket_desc := server_socket, sc_state_code := SMTP_CONNECT\<rparr>
      else connect_loop env (Suc k) mxs port context)"

definition smtp_connect :: "net_env \<Rightarrow> string \<Rightarrow> string \<Rightarrow> smtp_context" where
  "smtp_connect env server port =
     (let context = \<lparr>sc_socket_desc = -1, sc_state_code = SMTP_INVALID\<rparr> in
      if server = ne_hostname env then
        (let server_socket = server_connect env 0 [''127.0.0.1''] (ne_server_port env) in
         if server_socket \<noteq> -1 then context\<lparr>sc_socket_desc := server_socket, sc_state_code := SMTP_CONNECT\<rparr> else context)
      else
        (case ne_resolvmx env server of
           None \<Rightarrow> context
         | Some mxs \<Rightarrow> connect_loop env 0 (take MAX_MX_ADDRS mxs) port context))"

section \<open>Requests\<close>

text \<open>The context after a request, and the bytes that were sent; \<open>results\<close> are those of \<open>send\<close>.\<close>

definition send_smtp_request :: "sent list \<Rightarrow> smtp_context \<Rightarrow> string \<Rightarrow> smtp_context \<times> state_code \<times> string" where
  "send_smtp_request results smtp_cont str =
     (let (r, out) = send_line results str (length str);
          c = (if r = 0 then smtp_cont\<lparr>sc_state_code := SMTP_INVALID\<rparr> else smtp_cont)
      in (c, sc_state_code c, out))"

definition smtp_send :: "state_code \<Rightarrow> string \<Rightarrow> sent list \<Rightarrow> smtp_context \<Rightarrow> smtp_context \<times> string" where
  "smtp_send next str results context =
     (let (c, r, out) = send_smtp_request results context str
      in (if r \<noteq> SMTP_INVALID then c\<lparr>sc_state_code := next\<rparr> else c, out))"

definition crlf_line :: "string \<Rightarrow> string" where "crlf_line s = s @ [CHR 0x0D, CHR 0x0A]"

definition smtp_send_helo :: "string \<Rightarrow> sent list \<Rightarrow> smtp_context \<Rightarrow> smtp_context \<times> string" where
  "smtp_send_helo hostname = smtp_send SMTP_HELO (crlf_line (''HELO '' @ hostname))"

definition smtp_send_ehlo :: "string \<Rightarrow> sent list \<Rightarrow> smtp_context \<Rightarrow> smtp_context \<times> string" where
  "smtp_send_ehlo hostname = smtp_send SMTP_EHLO (crlf_line (''EHLO '' @ hostname))"

definition smtp_send_mail :: "string \<Rightarrow> sent list \<Rightarrow> smtp_context \<Rightarrow> smtp_context \<times> string" where
  "smtp_send_mail from_email = smtp_send SMTP_MAIL (crlf_line (''MAIL from:<'' @ from_email @ ''>''))"

definition smtp_send_rcpt :: "string \<Rightarrow> sent list \<Rightarrow> smtp_context \<Rightarrow> smtp_context \<times> string" where
  "smtp_send_rcpt to_email = smtp_send SMTP_RCPT (crlf_line (''RCPT to:<'' @ to_email @ ''>''))"

definition smtp_send_data :: "sent list \<Rightarrow> smtp_context \<Rightarrow> smtp_context \<times> string" where
  "smtp_send_data = smtp_send SMTP_DATA (crlf_line ''DATA'')"

text \<open>
  For the log line, up to two end characters are cut off a copy of the text; the copy is looked at
  before its start when nothing is left of it.
\<close>

definition cut_end :: "string \<Rightarrow> string ub" where
  "cut_end s = (if s = [] then UB else if last s \<in> {CHR 0x0D, CHR 0x0A} then Some (butlast s) else Some s)"

definition smtp_send_message :: "string \<Rightarrow> sent list \<Rightarrow> smtp_context \<Rightarrow> (smtp_context \<times> string) ub" where
  "smtp_send_message message results context =
     (let (c, r, out) = send_smtp_request results context message in
      if r \<noteq> SMTP_INVALID then
        do {
          body_request1 \<leftarrow> cut_end message;
          body_request2 \<leftarrow> cut_end body_request1;
          Some (c\<lparr>sc_state_code := SMTP_MESSAGE\<rparr>, out)
        }
      else Some (c, out))"

definition smtp_send_end_message :: "sent list \<Rightarrow> smtp_context \<Rightarrow> smtp_context \<times> string" where
  "smtp_send_end_message = smtp_send SMTP_END_MESSAGE ([CHR 0x0D, CHR 0x0A] @ crlf_line ''.'')"

definition smtp_send_rset :: "sent list \<Rightarrow> smtp_context \<Rightarrow> smtp_context \<times> string" where
  "smtp_send_rset = smtp_send SMTP_CONNECT (crlf_line ''RSET'')"

definition smtp_send_quit :: "sent list \<Rightarrow> smtp_context \<Rightarrow> smtp_context \<times> string" where
  "smtp_send_quit = smtp_send SMTP_QUIT (crlf_line ''QUIT'')"

section \<open>Replies\<close>

text \<open>The code: up to three characters, up to a blank.\<close>

fun code_loop :: "string \<Rightarrow> nat \<Rightarrow> nat \<Rightarrow> string \<Rightarrow> (string \<times> nat) ub" where
  "code_loop buffer 0 i code = Some (code, i)"
| "code_loop buffer (Suc k) i code =
     do {
       c \<leftarrow> arr_get buffer (int i);
       (if c = CHR '' '' then Some (code, i) else code_loop buffer k (Suc i) (code @ [c]))
     }"

text \<open>
  The array \<open>code\<close> has three cells and no terminator: the number is read on into what the stack
  holds behind it, the argument \<open>stack\<close>. The length of the reply minus the index is an unsigned
  number: for a reply that is shorter than its code the copy runs over the block, or so much
  memory is asked for that the program ends.
\<close>

datatype response_end = Response smtp_response string | ProgramExit

definition get_smtp_response :: "string \<Rightarrow> string \<Rightarrow> response_end ub" where
  "get_smtp_response stack input =
     do {
       (buffer, rest) \<leftarrow> receive_line input;
       (case buffer of
          NULL \<Rightarrow> Some (Response \<lparr>sr_status_code = UNDEFINED_ERROR, sr_message = NULL\<rparr> rest)
        | Some cells \<Rightarrow>
            do {
              (code, i) \<leftarrow> code_loop cells 3 0 [];
              s \<leftarrow> c_str (Some cells);
              let size_str = (0 :: 64 word);
              let status = word_of_int (convert_string_to_long_int (takeWhile (\<lambda>c. c \<noteq> NUL) (code @ stack)));
              (if i > length s + 1 then Some ProgramExit
               else if (of_nat i :: 64 word) < size_str - 1 then
                 (if i = length s + 1 then UB
                  else Some (Response \<lparr>sr_status_code = status, sr_message = Some (drop (i + 1) s)\<rparr> rest))
               else Some (Response \<lparr>sr_status_code = status, sr_message = NULL\<rparr> rest))
            })
     }"

definition is_smtp_success :: "status_code \<Rightarrow> bool" where
  "is_smtp_success s \<longleftrightarrow> (s - 200) div 100 = 0 \<or> (s - 300) div 100 = 0"

definition is_smtp_4xx_error :: "status_code \<Rightarrow> bool" where
  "is_smtp_4xx_error s \<longleftrightarrow> (s - 400) div 100 = 0"

definition is_smtp_5xx_error :: "status_code \<Rightarrow> bool" where
  "is_smtp_5xx_error s \<longleftrightarrow> (s - 500) div 100 = 0"

section \<open>Facts\<close>

lemma div_100: "(x :: 32 word) div 100 = 0 \<longleftrightarrow> x < 100"
proof -
  have "x div 100 = 0 \<longleftrightarrow> unat x div 100 = 0" by (simp add: word_unat_eq_iff unat_div)
  also have "\<dots> \<longleftrightarrow> unat x < 100" by (simp add: div_eq_0_iff)
  finally show ?thesis by (simp add: word_less_nat_alt)
qed

lemma window: "k < 1000 \<Longrightarrow> (s :: 32 word) - of_nat k < 100 \<longleftrightarrow> of_nat k \<le> s \<and> s < of_nat k + 100"
  by (simp add: word_less_nat_alt word_le_nat_alt unat_of_nat unat_sub_if' unat_word_ariths) presburger

lemma success_iff: "is_smtp_success s \<longleftrightarrow> 200 \<le> s \<and> s < 400"
proof -
  have "(200 \<le> s \<and> s < 300) \<or> (300 \<le> s \<and> s < 400) \<longleftrightarrow> 200 \<le> s \<and> s < 400"
    by (simp add: word_less_nat_alt word_le_nat_alt) linarith
  then show ?thesis using window [of 200 s] window [of 300 s] by (simp add: is_smtp_success_def div_100)
qed

lemma error_iff: "is_smtp_4xx_error s \<longleftrightarrow> 400 \<le> s \<and> s < 500" "is_smtp_5xx_error s \<longleftrightarrow> 500 \<le> s \<and> s < 600"
  using window [of 400 s] window [of 500 s] by (simp_all add: is_smtp_4xx_error_def is_smtp_5xx_error_def div_100)

lemma smtp_send_whole:
  assumes "str \<noteq> []" "sc_state_code c \<noteq> SMTP_INVALID"
  shows "smtp_send next str [SentBytes (length str)] c = (c\<lparr>sc_state_code := next\<rparr>, str)"
  using assms by (cases "length str") (simp_all add: smtp_send_def send_smtp_request_def Let_def)

lemma digit_char_ok: "d < 10 \<Longrightarrow> digit_char d \<in> set digits \<and> digit_value (digit_char d) = int d \<and> \<not> is_c_space (digit_char d)
    \<and> digit_char d \<noteq> CHR ''-'' \<and> digit_char d \<noteq> CHR ''+'' \<and> digit_char d \<noteq> CHR '' '' \<and> digit_char d \<noteq> NUL
    \<and> digit_char d \<noteq> CHR 0x0A \<and> digit_char d \<noteq> CHR 0x0D"
proof -
  assume "d < 10"
  then have "d \<in> {0, 1, 2, 3, 4, 5, 6, 7, 8, 9}" by auto
  then show ?thesis by (auto simp: digit_char_def digits_def digit_value_def is_c_space_def NUL_def)
qed

lemma convert_digits:
  assumes "\<forall>d\<in>set ds. d < 10" "ds \<noteq> []" "q = [] \<or> hd q \<notin> set digits" "length ds \<le> 4"
  shows "convert_string_to_long_int (map digit_char ds @ q) = foldl (\<lambda>a d. 10 * a + int d) 0 ds"
proof -
  obtain d ds' where ds: "ds = d # ds'" "d < 10" using assms(1,2) by (cases ds) auto
  have tw: "takeWhile (\<lambda>c. c \<in> set digits) (map digit_char ds @ q) = map digit_char ds"
  proof -
    have "\<And>c. c \<in> set (map digit_char ds) \<Longrightarrow> c \<in> set digits" using assms(1) digit_char_ok by auto
    moreover have "takeWhile (\<lambda>c. c \<in> set digits) q = []" using assms(3) by (cases q) auto
    ultimately show ?thesis by (simp only: takeWhile_append2) simp
  qed
  have f: "foldl (\<lambda>a c. 10 * a + digit_value c) x (map digit_char ds) = foldl (\<lambda>a d. 10 * a + int d) x ds" for x
    using assms(1) digit_char_ok by (induction ds arbitrary: x) auto
  have b: "0 \<le> x \<Longrightarrow> foldl (\<lambda>a d. 10 * a + int d) x ds \<le> (x + 1) * 10 ^ length ds" for x
    using assms(1)
  proof (induction ds arbitrary: x)
    case (Cons e es)
    then have "foldl (\<lambda>a d. 10 * a + int d) (10 * x + int e) es \<le> (10 * x + int e + 1) * 10 ^ length es" by simp
    also have "\<dots> \<le> (x + 1) * 10 * 10 ^ length es" using Cons.prems by (intro mult_right_mono) auto
    finally show ?case by (simp add: algebra_simps)
  qed simp
  have "(10 :: int) ^ length ds \<le> 10 ^ 4" by (rule power_increasing [OF assms(4)]) simp
  then have le: "foldl (\<lambda>a d. 10 * a + int d) 0 ds \<le> 2 ^ 63 - 1" using b [of 0] by simp
  have "dropWhile is_c_space (map digit_char ds @ q) = map digit_char ds @ q"
    "hd (map digit_char ds @ q) \<noteq> CHR ''-''" "hd (map digit_char ds @ q) \<noteq> CHR ''+''"
    using ds digit_char_ok [OF ds(2)] by simp_all
  then show ?thesis using tw f le by (simp add: convert_string_to_long_int_def Let_def)
qed

lemma get_reply_cells:
  assumes "a < 10" "b < 10" "c < 10" "c_string t" "CHR 0x0A \<notin> set t" "CHR 0x0D \<notin> set t"
  shows "get_smtp_response stack (map digit_char [a, b, c] @ CHR '' '' # t @ [CHR 0x0D, CHR 0x0A] @ q)
      = Some (Response \<lparr>sr_status_code = word_of_int (convert_string_to_long_int (map digit_char [a, b, c] @ takeWhile (\<lambda>c. c \<noteq> NUL) stack)),
                        sr_message = Some t\<rparr> q)"
proof -
  note d = digit_char_ok [OF assms(1)] digit_char_ok [OF assms(2)] digit_char_ok [OF assms(3)]
  let ?code = "map digit_char [a, b, c]"
  have "c_string (?code @ CHR '' '' # t)" "CHR 0x0A \<notin> set (?code @ CHR '' '' # t)" "CHR 0x0D \<notin> set (?code @ CHR '' '' # t)"
    using d assms(4-6) by (auto simp: NUL_def)
  then obtain r where r: "receive_line ((?code @ CHR '' '' # t) @ [CHR 0x0D, CHR 0x0A] @ q) = Some (Some ((?code @ CHR '' '' # t) @ NUL # CHR 0x0A # r), q)"
    by (rule receive_line_crlf)
  have s: "c_str (Some ((?code @ CHR '' '' # t) @ NUL # CHR 0x0A # r)) = Some (?code @ CHR '' '' # t)"
    using d assms(4) by (intro c_str_terminated) (simp add: NUL_def)
  have "code_loop ((?code @ CHR '' '' # t) @ NUL # CHR 0x0A # r) 3 0 [] = Some (?code, 3)"
    using d by (simp add: numeral_3_eq_3 arr_get_def)
  then show ?thesis using r s d by (simp add: get_smtp_response_def)
qed

lemma get_reply_run:
  assumes "a < 10" "b < 10" "c < 10" "c_string t" "CHR 0x0A \<notin> set t" "CHR 0x0D \<notin> set t" "stack = [] \<or> hd stack \<notin> set digits"
  shows "get_smtp_response stack (map digit_char [a, b, c] @ CHR '' '' # t @ [CHR 0x0D, CHR 0x0A] @ q)
       = Some (Response \<lparr>sr_status_code = of_nat (100 * a + 10 * b + c), sr_message = Some t\<rparr> q)"
proof -
  have v: "\<forall>d\<in>set [a, b, c]. d < 10" using assms(1-3) by simp
  have "takeWhile (\<lambda>c. c \<noteq> NUL) stack = [] \<or> hd (takeWhile (\<lambda>c. c \<noteq> NUL) stack) \<notin> set digits"
    using assms(7) by (cases stack) auto
  from convert_digits [OF v _ this] show ?thesis
    unfolding get_reply_cells [OF assms(1-6)] by (simp add: algebra_simps)
qed

section \<open>Properties\<close>

text \<open>
  What the client makes of a reply. Of a line with a three-digit code, a blank and a text, it takes
  the text, and as the status the code followed by whatever digit the stack holds behind the array
  of the code, which has no terminator: only without such a digit is the status the code. A reply
  of two characters overruns its block, a shorter one ends the client.
\<close>

theorem reply_code_read_past_array:
  assumes "a < 10" "b < 10" "c < 10" "c_string t" "CHR 0x0A \<notin> set t" "CHR 0x0D \<notin> set t"
  shows "(stack = [] \<or> hd stack \<notin> set digits \<longrightarrow>
       get_smtp_response stack (map digit_char [a, b, c] @ CHR '' '' # t @ [CHR 0x0D, CHR 0x0A] @ q)
       = Some (Response \<lparr>sr_status_code = of_nat (100 * a + 10 * b + c), sr_message = Some t\<rparr> q))
    \<and> (\<forall>e < 10. get_smtp_response [digit_char e] (map digit_char [a, b, c] @ CHR '' '' # t @ [CHR 0x0D, CHR 0x0A] @ q)
       = Some (Response \<lparr>sr_status_code = of_nat (1000 * a + 100 * b + 10 * c + e), sr_message = Some t\<rparr> q))
    \<and> get_smtp_response stack (map digit_char [a, b] @ [CHR 0x0D, CHR 0x0A] @ q) = UB
    \<and> get_smtp_response stack (map digit_char [a] @ [CHR 0x0D, CHR 0x0A] @ q) = Some ProgramExit"
proof -
  note d = digit_char_ok [OF assms(1)] digit_char_ok [OF assms(2)] digit_char_ok [OF assms(3)]
  let ?code = "map digit_char [a, b, c]"
  note g = get_reply_cells [OF assms]
  have short: "get_smtp_response stack (map digit_char ds @ [CHR 0x0D, CHR 0x0A] @ q)
      = (if length ds = 2 then UB else Some ProgramExit)" if ds: "ds = [a] \<or> ds = [a, b]" for ds
  proof -
    have w: "c_string (map digit_char ds)" "CHR 0x0A \<notin> set (map digit_char ds)" "CHR 0x0D \<notin> set (map digit_char ds)"
      using d ds by auto
    then obtain r where r: "receive_line (map digit_char ds @ [CHR 0x0D, CHR 0x0A] @ q) = Some (Some (map digit_char ds @ NUL # CHR 0x0A # r), q)"
      by (rule receive_line_crlf)
    have s: "c_str (Some (map digit_char ds @ NUL # CHR 0x0A # r)) = Some (map digit_char ds)" by (rule c_str_terminated [OF w(1)])
    have "\<exists>code. code_loop (map digit_char ds @ NUL # CHR 0x0A # r) 3 0 [] = Some (code, 3)"
      using d ds by (auto simp: numeral_3_eq_3 arr_get_def NUL_def)
    then show ?thesis using r s d ds by (auto simp: get_smtp_response_def)
  qed
  have v: "\<forall>d\<in>set [a, b, c]. d < 10" using assms(1-3) by simp
  show ?thesis
  proof (intro conjI impI allI)
    assume "stack = [] \<or> hd stack \<notin> set digits"
    then show "get_smtp_response stack (?code @ CHR '' '' # t @ [CHR 0x0D, CHR 0x0A] @ q)
       = Some (Response \<lparr>sr_status_code = of_nat (100 * a + 10 * b + c), sr_message = Some t\<rparr> q)"
      by (rule get_reply_run [OF assms])
  next
    fix e :: nat assume e: "e < 10"
    then have "\<forall>d\<in>set [a, b, c, e]. d < 10" using v by simp
    from convert_digits [OF this, of "[]"] show "get_smtp_response [digit_char e] (?code @ CHR '' '' # t @ [CHR 0x0D, CHR 0x0A] @ q)
       = Some (Response \<lparr>sr_status_code = of_nat (1000 * a + 100 * b + 10 * c + e), sr_message = Some t\<rparr> q)"
      using digit_char_ok [OF e] unfolding g by (simp add: algebra_simps)
  qed (use short [of "[a, b]"] short [of "[a]"] in auto)
qed

theorem reply_code_read_past_array_witness:
  "get_smtp_response '''' (''250 OK'' @ [CHR 0x0D, CHR 0x0A]) = Some (Response \<lparr>sr_status_code = 250, sr_message = Some ''OK''\<rparr> [])
   \<and> get_smtp_response ''7'' (''250 OK'' @ [CHR 0x0D, CHR 0x0A]) = Some (Response \<lparr>sr_status_code = 2507, sr_message = Some ''OK''\<rparr> [])"
  using reply_code_read_past_array [of 2 5 0 "''OK''" "''''" "[]"] by (auto simp: NUL_def digit_char_def dest: spec [of _ 7])

text \<open>
  The classes of the replies are exactly the intervals they are named after: the differences are
  unsigned, so that the two special values \<open>UNDEFINED_ERROR\<close> and \<open>NOT_ANSWER\<close> are in none of them.
\<close>

theorem reply_classes_exact:
  "(is_smtp_success s \<longleftrightarrow> 200 \<le> s \<and> s < 400) \<and> (is_smtp_4xx_error s \<longleftrightarrow> 400 \<le> s \<and> s < 500)
   \<and> (is_smtp_5xx_error s \<longleftrightarrow> 500 \<le> s \<and> s < 600)"
  using success_iff error_iff by blast

end
