(* ===== verification/ClientMaildir.thy ===== *)
theory ClientMaildir
  imports ClientUtil FileSys
begin

text \<open>
  The mail store as the client reads it, \<open>client/src/maildir/maildir.c\<close>: the directories of the
  other servers, the messages in them with their header lines, and their removal after a delivery.
  What \<open>readdir\<close> lists for a directory is the argument \<open>listing\<close>, by the path of the directory. The
  log lines are dropped, and a message that was freed is the result \<open>True\<close> next to the store.
\<close>

definition DIRECTORY_NEW_MESSAGES :: string where "DIRECTORY_NEW_MESSAGES = ''new''"
definition DIRECTORY_OTHER_SERVERS :: string where "DIRECTORY_OTHER_SERVERS = ''.OTHER_SERVERS''"

section \<open>Messages\<close>

record message =
  ms_from :: "string ptr"
  ms_to :: "string list"
  ms_to_size :: nat
  ms_strings :: "string list"
  ms_strings_size :: nat
  ms_directory :: "string ptr"
  ms_addresses :: "string ptr list ptr"
  ms_addresses_size :: nat

definition message_zero :: message where
  "message_zero = \<lparr>ms_from = NULL, ms_to = [], ms_to_size = 0, ms_strings = [], ms_strings_size = 0,
                   ms_directory = NULL, ms_addresses = NULL, ms_addresses_size = 0\<rparr>"

text \<open>A header: its name, and its value unless that was never set.\<close>

record header_pair =
  hp_first :: string
  hp_second :: "string ub"

definition to_upper :: "char \<Rightarrow> char" where
  "to_upper c = (if 97 \<le> (of_char c :: nat) \<and> (of_char c :: nat) \<le> 122 then char_of ((of_char c :: nat) - 32) else c)"

fun strstr_found :: "string \<Rightarrow> string \<Rightarrow> bool" where
  "strstr_found s needle \<longleftrightarrow> take (length needle) s = needle \<or> (case s of [] \<Rightarrow> False | _ # t \<Rightarrow> strstr_found t needle)"

declare strstr_found.simps [simp del]

text \<open>The value of a header: trimmed, without its line end. Its last bytes are looked at untested.\<close>

definition header_value :: "string ptr \<Rightarrow> string ub" where
  "header_value chars =
     do {
       cells \<leftarrow> chars;
       s1 \<leftarrow> trim cells;
       n1 \<leftarrow> c_strlen s1;
       a \<leftarrow> arr_get s1 (int n1 - 1);
       s2 \<leftarrow> (if a \<noteq> CHR 0x0A then Some s1
              else do {
                b \<leftarrow> arr_get s1 (int n1 - 2);
                (if b \<noteq> CHR 0x0D then Some s1
                 else do {
                   t \<leftarrow> arr_set s1 (int n1 - 1) NUL;
                   n \<leftarrow> c_strlen t;
                   arr_set t (int n - 1) NUL
                 })
              });
       n2 \<leftarrow> c_strlen s2;
       c \<leftarrow> arr_get s2 (int n2 - 1);
       s3 \<leftarrow> (if c = CHR 0x0A then arr_set s2 (int n2 - 1) NUL else Some s2);
       c_str (Some s3)
     }"

definition header_of :: "string \<Rightarrow> c_token list \<Rightarrow> header_pair ub" where
  "header_of name tokens =
     (if length tokens = 2 then do { v \<leftarrow> header_value (tk_chars (tokens ! 1)); Some \<lparr>hp_first = name, hp_second = Some v\<rparr> }
      else Some \<lparr>hp_first = name, hp_second = UB\<rparr>)"

definition check_message_header :: "string ptr \<Rightarrow> header_pair ptr ub" where
  "check_message_header line =
     (case line of
        NULL \<Rightarrow> Some NULL
      | Some l \<Rightarrow>
          do {
            tokens \<leftarrow> split l '':'';
            t \<leftarrow> arr_get tokens 0;
            s \<leftarrow> c_str (tk_chars t);
            let str = map to_upper s;
            (if strstr_found str ''X-POSTMAN-FROM'' then map_option Some (header_of ''X-POSTMAN-FROM'' tokens)
             else if strstr_found str ''X-POSTMAN-TO'' then map_option Some (header_of ''X-POSTMAN-TO'' tokens)
             else if strstr_found str ''X-POSTMAN-DATE'' then map_option Some (header_of ''X-POSTMAN-DATE'' tokens)
             else Some NULL)
          })"

text \<open>Whether an address is new; comparing with an entry that was never set is undefined.\<close>

fun address_is_new :: "string ptr list \<Rightarrow> nat \<Rightarrow> nat \<Rightarrow> string \<Rightarrow> bool ub" where
  "address_is_new cells k 0 s = Some True"
| "address_is_new cells k (Suc n) s =
     do {
       p \<leftarrow> arr_get cells (int k);
       a \<leftarrow> p;
       flag \<leftarrow> address_is_new cells (Suc k) n s;
       Some (flag \<and> s \<noteq> a)
     }"

text \<open>The domain is taken from the whole value again, not from the one address.\<close>

definition add_address :: "string \<Rightarrow> message \<Rightarrow> message ub" where
  "add_address value mes =
     do {
       ts \<leftarrow> split value ''@'';
       (if length ts \<noteq> 2 then Some mes
        else do {
          d \<leftarrow> c_str (tk_chars (ts ! 1));
          cells \<leftarrow> ms_addresses mes;
          flag \<leftarrow> address_is_new cells 0 (ms_addresses_size mes) d;
          (if \<not> flag then Some mes
           else do {
             let n = ms_addresses_size mes;
             p \<leftarrow> reallocate_memory NULL (Some cells) n (n + 1);
             cells1 \<leftarrow> p;
             cells2 \<leftarrow> arr_set cells1 (int n) (Some d);
             Some (mes\<lparr>ms_addresses := Some cells2, ms_addresses_size := n + 1\<rparr>)
           })
        })
     }"

fun add_recipients :: "string \<Rightarrow> c_token list \<Rightarrow> message \<Rightarrow> message ub" where
  "add_recipients value [] mes = Some mes"
| "add_recipients value (t # ts) mes =
     do {
       a \<leftarrow> c_str (tk_chars t);
       mes1 \<leftarrow> add_address value (mes\<lparr>ms_to := ms_to mes @ [a]\<rparr>);
       add_recipients value ts mes1
     }"

definition take_header :: "header_pair \<Rightarrow> message \<Rightarrow> message ub" where
  "take_header p mes =
     do {
       value \<leftarrow> hp_second p;
       (if hp_first p = ''X-POSTMAN-FROM'' then Some (mes\<lparr>ms_from := Some value\<rparr>)
        else if hp_first p = ''X-POSTMAN-TO'' then
          do {
            tokens \<leftarrow> split value '','';
            add_recipients value tokens
              (mes\<lparr>ms_to := [], ms_to_size := length tokens, ms_addresses := callocate_memory NULL 1\<rparr>)
          }
        else Some mes)
     }"

lemma readline_loop_shorter: "readline_loop rest string offset cap = Some (Some b, rest') \<Longrightarrow> length rest' < length rest"
proof (induction rest string offset cap rule: readline_loop.induct)
  case (1 rest string offset cap)
  obtain chunk q where f: "fgets 256 rest = (Some chunk, q)"
    using "1.prems" by (subst (asm) readline_loop.simps) (auto split: prod.splits option.splits)
  have q: "length q < length rest" by (rule fgets_shorter [OF f]) simp
  from "1.prems" f obtain s1 s2 cells c where s:
    "(if offset \<ge> cap - 1 then reallocate_memory NUL string cap (offset * 2 + 1) else Some string) = Some s1"
    "strcpy s1 offset (takeWhile (\<lambda>c. c \<noteq> NUL) chunk) = Some s2" "s2 = Some cells"
    "arr_get cells (int (offset + length (takeWhile (\<lambda>c. c \<noteq> NUL) chunk)) - 1) = Some c"
    "(if c = CHR 0x0A then Some (s2, q) else readline_loop q s2 (offset + length (takeWhile (\<lambda>c. c \<noteq> NUL) chunk))
       (if offset \<ge> cap - 1 then offset * 2 + 1 else cap)) = Some (Some b, rest')"
    by (subst (asm) readline_loop.simps) (simp only: prod.case option.case Let_def bind_eq_Some_conv, blast)
  show ?case
  proof (cases "c = CHR 0x0A")
    case True
    then show ?thesis using s(5) q by simp
  next
    case False
    then have r: "readline_loop q s2 (offset + length (takeWhile (\<lambda>c. c \<noteq> NUL) chunk))
       (if offset \<ge> cap - 1 then offset * 2 + 1 else cap) = Some (Some b, rest')" using s(5) by simp
    have "length rest' < length q" by (rule "1.IH" [OF f [symmetric] refl s(1) refl refl s(2) refl s(3) s(4) False r])
    then show ?thesis using q by simp
  qed
qed

lemma file_readline_shorter: "file_readline rest = Some (Some b, rest') \<Longrightarrow> length rest' < length rest"
  unfolding file_readline_def by (rule readline_loop_shorter)

text \<open>The header lines: up to an empty line or the end of the file, or a line that is no header.\<close>

datatype header_end = Headers message string | BadHeader

function header_loop :: "string \<Rightarrow> message \<Rightarrow> header_end ub" where
  "header_loop rest mes =
     (case file_readline rest of
        None \<Rightarrow> UB
      | Some (NULL, rest') \<Rightarrow> Some (Headers mes rest')
      | Some (Some line, rest') \<Rightarrow>
          do {
            string \<leftarrow> trim line;
            s \<leftarrow> c_str (Some string);
            (if s = [CHR 0x0A] \<or> s = [CHR 0x0D, CHR 0x0A] then Some (Headers mes rest')
             else do {
               p \<leftarrow> check_message_header (Some s);
               (case p of
                  NULL \<Rightarrow> Some BadHeader
                | Some h \<Rightarrow> do { mes1 \<leftarrow> take_header h mes; header_loop rest' mes1 })
             })
          })"
  by pat_completeness auto
termination by (relation "measure (\<lambda>(rest, _). length rest)") (auto dest: file_readline_shorter)

function body_loop :: "string \<Rightarrow> string list \<Rightarrow> (string list) ub" where
  "body_loop rest strings =
     (case file_readline rest of
        None \<Rightarrow> UB
      | Some (NULL, rest') \<Rightarrow> Some strings
      | Some (Some line, rest') \<Rightarrow> do { s \<leftarrow> c_str (Some line); body_loop rest' (strings @ [s]) })"
  by pat_completeness auto
termination by (relation "measure (\<lambda>(rest, _). length rest)") (auto dest: file_readline_shorter)

declare header_loop.simps [simp del] body_loop.simps [simp del]

text \<open>A directory can be opened, but gives no line, and the end of the file is never seen.\<close>

definition read_message :: "fs \<Rightarrow> string \<Rightarrow> message ptr ub" where
  "read_message fs filepath =
     (case posix_fopen_r fs filepath of
        None \<Rightarrow> Some NULL
      | Some ns \<Rightarrow>
          (case fs_nodes fs ns of
             Some (File content) \<Rightarrow>
               do {
                 e \<leftarrow> header_loop content message_zero;
                 (case e of
                    BadHeader \<Rightarrow> Some NULL
                  | Headers mes rest \<Rightarrow>
                      do {
                        strings \<leftarrow> body_loop rest [];
                        Some (Some (mes\<lparr>ms_strings := strings, ms_strings_size := length strings, ms_directory := Some filepath\<rparr>))
                      })
               }
           | _ \<Rightarrow> Some (Some message_zero)))"

section \<open>Directories\<close>

record c_maildir_user =
  cu_directory :: "string ptr"
  cu_username :: "string ptr"
  cu_message_full_file_names :: "string list"
  cu_messages_size :: nat

record maildir_other_server =
  os_directory :: "string ptr"
  os_server :: "string ptr"
  os_message_full_file_names :: "string list"
  os_messages_size :: nat

record maildir_main =
  mm_directory :: "string ptr"
  mm_servers :: "maildir_other_server list"
  mm_users :: "c_maildir_user list"
  mm_users_size :: nat
  mm_servers_size :: nat

definition init_maildir :: "fs \<Rightarrow> string ptr \<Rightarrow> maildir_main ptr" where
  "init_maildir fs directory =
     (case directory of
        NULL \<Rightarrow> NULL
      | Some d \<Rightarrow>
          Some \<lparr>mm_directory = (if posix_stat_isdir fs d = Inl True then Some d else NULL), mm_servers = [], mm_users = [],
                mm_users_size = 0, mm_servers_size = 0\<rparr>)"

text \<open>A test of the form \<open>if (!stat(..)) if (!S_ISDIR(..)) return;\<close>, which lets a missing path pass.\<close>

definition stat_no_dir :: "fs \<Rightarrow> string \<Rightarrow> bool" where
  "stat_no_dir fs p \<longleftrightarrow> posix_stat_isdir fs p = Inl False"

text \<open>The entries of a directory that is opened; reading a null stream is undefined.\<close>

definition dir_entries :: "fs \<Rightarrow> (string \<Rightarrow> string list) \<Rightarrow> string \<Rightarrow> (string list) ub" where
  "dir_entries fs listing p = (if posix_opendir fs p = None then Some (listing p) else UB)"

definition is_dot :: "string \<Rightarrow> bool" where "is_dot n \<longleftrightarrow> n = ''.'' \<or> n = ''..''"

definition read_maildir_servers_new ::
    "fs \<Rightarrow> (string \<Rightarrow> string list) \<Rightarrow> maildir_other_server ptr \<Rightarrow> maildir_other_server ptr ub" where
  "read_maildir_servers_new fs listing server =
     (case server of
        NULL \<Rightarrow> Some NULL
      | Some s \<Rightarrow>
          (case os_directory s of
             NULL \<Rightarrow> Some (Some s)
           | Some d \<Rightarrow>
               if stat_no_dir fs d then Some (Some s)
               else do {
                 es \<leftarrow> dir_entries fs listing d;
                 let names = map (\<lambda>n. d @ ''/'' @ n) (filter (\<lambda>n. \<not> is_dot n \<and> n \<noteq> ''tmp'') es);
                 Some (Some (s\<lparr>os_message_full_file_names := names, os_messages_size := length names\<rparr>))
               }))"

fun read_servers_loop ::
    "fs \<Rightarrow> (string \<Rightarrow> string list) \<Rightarrow> string \<Rightarrow> string list \<Rightarrow> maildir_other_server list \<Rightarrow> (maildir_other_server list) ub" where
  "read_servers_loop fs listing path [] servers = Some servers"
| "read_servers_loop fs listing path (n # ns) servers =
     (if is_dot n then read_servers_loop fs listing path ns servers
      else do {
        p \<leftarrow> read_maildir_servers_new fs listing
               (Some \<lparr>os_directory = Some (path @ ''/'' @ n), os_server = Some n, os_message_full_file_names = [], os_messages_size = 0\<rparr>);
        server \<leftarrow> p;
        read_servers_loop fs listing path ns (servers @ [server])
      })"

definition read_maildir_servers :: "fs \<Rightarrow> (string \<Rightarrow> string list) \<Rightarrow> maildir_main ptr \<Rightarrow> maildir_main ptr ub" where
  "read_maildir_servers fs listing maildir =
     do {
       m \<leftarrow> maildir;
       (case mm_directory m of
          NULL \<Rightarrow> Some (Some m)
        | Some d \<Rightarrow>
            if stat_no_dir fs d then Some (Some m)
            else do {
              let path_other_servers = d @ ''/'' @ DIRECTORY_OTHER_SERVERS;
              es \<leftarrow> dir_entries fs listing path_other_servers;
              servers \<leftarrow> read_servers_loop fs listing path_other_servers es [];
              Some (Some (m\<lparr>mm_servers := servers, mm_servers_size := length servers\<rparr>))
            })
     }"

definition read_new_messages_list :: "fs \<Rightarrow> (string \<Rightarrow> string list) \<Rightarrow> c_maildir_user \<Rightarrow> c_maildir_user ub" where
  "read_new_messages_list fs listing user =
     do {
       d \<leftarrow> cu_directory user;
       let user_fulldir_new = d @ ''/'' @ DIRECTORY_NEW_MESSAGES;
       (if stat_no_dir fs user_fulldir_new then Some user
        else do {
          es \<leftarrow> dir_entries fs listing user_fulldir_new;
          let names = map (\<lambda>n. user_fulldir_new @ ''/'' @ n) (filter (\<lambda>n. \<not> is_dot n) es);
          Some (user\<lparr>cu_message_full_file_names := names, cu_messages_size := length names\<rparr>)
        })
     }"

fun read_user_loop :: "fs \<Rightarrow> (string \<Rightarrow> string list) \<Rightarrow> string list \<Rightarrow> c_maildir_user \<Rightarrow> c_maildir_user ub" where
  "read_user_loop fs listing [] user = Some user"
| "read_user_loop fs listing (n # ns) user =
     do {
       user1 \<leftarrow> (if \<not> is_dot n \<and> n = DIRECTORY_NEW_MESSAGES then read_new_messages_list fs listing user else Some user);
       read_user_loop fs listing ns user1
     }"

definition read_maildir_user_new :: "fs \<Rightarrow> (string \<Rightarrow> string list) \<Rightarrow> c_maildir_user ptr \<Rightarrow> c_maildir_user ptr ub" where
  "read_maildir_user_new fs listing user =
     (case user of
        NULL \<Rightarrow> Some NULL
      | Some u \<Rightarrow>
          (case cu_directory u of
             NULL \<Rightarrow> Some (Some u)
           | Some d \<Rightarrow>
               if stat_no_dir fs d then Some (Some u)
               else do { es \<leftarrow> dir_entries fs listing d; map_option Some (read_user_loop fs listing es u) }))"

text \<open>The names of a new entry of the array of users are uninitialised: a user without \<open>new\<close> has none.\<close>

fun update_loop ::
    "fs \<Rightarrow> (string \<Rightarrow> string list) \<Rightarrow> string \<Rightarrow> string list \<Rightarrow> c_maildir_user list \<Rightarrow> maildir_main \<Rightarrow> (c_maildir_user list \<times> maildir_main) ub" where
  "update_loop fs listing d [] users m = Some (users, m)"
| "update_loop fs listing d (n # ns) users m =
     (if is_dot n then update_loop fs listing d ns users m
      else if n = DIRECTORY_OTHER_SERVERS then
        do { p \<leftarrow> read_maildir_servers fs listing (Some m); m1 \<leftarrow> p; update_loop fs listing d ns users m1 }
      else do {
        p \<leftarrow> read_maildir_user_new fs listing
               (Some \<lparr>cu_directory = Some (d @ ''/'' @ n), cu_username = Some n, cu_message_full_file_names = [], cu_messages_size = 0\<rparr>);
        user \<leftarrow> p;
        update_loop fs listing d ns (users @ [user]) m
      })"

definition update_maildir :: "fs \<Rightarrow> (string \<Rightarrow> string list) \<Rightarrow> maildir_main \<Rightarrow> maildir_main ub" where
  "update_maildir fs listing maildir =
     (case mm_directory maildir of
        NULL \<Rightarrow> Some maildir
      | Some d \<Rightarrow>
          if stat_no_dir fs d then Some maildir
          else do {
            es \<leftarrow> dir_entries fs listing d;
            (users, m) \<leftarrow> update_loop fs listing d es [] (maildir\<lparr>mm_users := [], mm_users_size := 0\<rparr>);
            Some (m\<lparr>mm_users := users, mm_users_size := length users\<rparr>)
          })"

section \<open>Taking and removing messages\<close>

text \<open>The search for the oldest message compares the time of the directory, and always ends with the first one.\<close>

definition get_first_message :: "fs \<Rightarrow> maildir_other_server ptr \<Rightarrow> message ptr ub" where
  "get_first_message fs server =
     (case server of
        NULL \<Rightarrow> Some NULL
      | Some s \<Rightarrow>
          if os_messages_size s = 0 then Some NULL
          else do { p \<leftarrow> arr_get (os_message_full_file_names s) 0; read_message fs p })"

fun remove_all_loop :: "string list \<Rightarrow> fs \<Rightarrow> fs" where
  "remove_all_loop [] fs = fs"
| "remove_all_loop (p # ps) fs = remove_all_loop ps (fst (posix_remove fs p))"

definition remove_all_message_server :: "fs \<Rightarrow> maildir_other_server ptr \<Rightarrow> fs" where
  "remove_all_message_server fs server =
     (case server of
        NULL \<Rightarrow> fs
      | Some s \<Rightarrow>
          (case os_directory s of
             NULL \<Rightarrow> fs
           | Some d \<Rightarrow>
               if stat_no_dir fs d then fs
               else if strstr_found d DIRECTORY_OTHER_SERVERS
               then remove_all_loop (take (os_messages_size s) (os_message_full_file_names s)) fs
               else fs))"

text \<open>The first entry with the name of the message is taken out of the list.\<close>

definition forget_name :: "string \<Rightarrow> maildir_other_server \<Rightarrow> maildir_other_server" where
  "forget_name p s =
     (if List.find (\<lambda>x. x = p) (take (os_messages_size s) (os_message_full_file_names s)) = None then s
      else s\<lparr>os_message_full_file_names := tailq_remove_first (\<lambda>x. x = p) (os_message_full_file_names s),
             os_messages_size := os_messages_size s - 1\<rparr>)"

definition stat_no_file :: "fs \<Rightarrow> string \<Rightarrow> bool" where
  "stat_no_file fs p \<longleftrightarrow> posix_stat_isdir fs p = Inl True"

definition remove_message_server ::
    "fs \<Rightarrow> maildir_other_server \<Rightarrow> message ptr \<Rightarrow> fs \<times> maildir_other_server \<times> bool" where
  "remove_message_server fs server mes =
     (case mes of
        NULL \<Rightarrow> (fs, server, False)
      | Some m \<Rightarrow>
          (case ms_directory m of
             NULL \<Rightarrow> (fs, server, False)
           | Some d \<Rightarrow>
               if stat_no_file fs d then (fs, server, False)
               else if strstr_found d DIRECTORY_OTHER_SERVERS then
                 (case posix_remove fs d of
                    (fs1, Some e) \<Rightarrow> (fs1, server, False)
                  | (fs1, None) \<Rightarrow> (fs1, forget_name d server, True))
               else (fs, server, True)))"

section \<open>Reading a message\<close>

lemma trim_plain:
  assumes "c_string w" "w \<noteq> []" "\<not> is_blank (hd w)" "\<not> is_blank (last w)"
  obtains r' where "trim (w @ NUL # r) = Some (w @ NUL # r')"
  using trim_run [of "[]" w "[]"] assms by auto

lemma c_strlen_at: "c_string s \<Longrightarrow> c_strlen (s @ NUL # r) = Some (length s)"
  by (rule c_strlen_terminated)

lemma arr_last: "s \<noteq> [] \<Longrightarrow> arr_get (s @ q) (int (length s) - 1) = Some (last s)"
  using arr_get_nat [of "length s - 1" "s @ q"] by (cases s rule: rev_cases) (auto simp: nth_append)

lemma arr_set_last: "arr_set (s @ c # q) (int (length (s @ [c])) - 1) x = Some (s @ x # q)"
  using arr_set_nat [of "length s" "s @ c # q" x] by (simp add: list_update_append)

lemma header_value_run:
  assumes "c_string v" "v \<noteq> []" "\<not> is_blank (hd v)" "last v \<noteq> CHR 0x0A"
  shows "header_value (Some ((CHR '' '' # v @ [CHR 0x0D, CHR 0x0A]) @ NUL # r)) = Some v"
proof -
  let ?w = "v @ [CHR 0x0D, CHR 0x0A]"
  have w: "c_string ?w" "?w \<noteq> []" "\<not> is_blank (hd ?w)" "\<not> is_blank (last ?w)"
    using assms by (simp_all add: NUL_def is_blank_def)
  have b: "\<forall>c\<in>set '' '' \<union> set []. is_blank c" by (simp add: is_blank_def)
  have c: "c_string ('' '' @ ?w @ [])" using w(1) by (simp add: NUL_def)
  from trim_run [OF c b w(2-4), of r] obtain r1 where t: "trim ((CHR '' '' # ?w) @ NUL # r) = Some (?w @ NUL # r1)" by auto
  have n1: "c_strlen (?w @ NUL # r1) = Some (length ?w)" by (rule c_strlen_at [OF w(1)])
  have a1: "arr_get (?w @ NUL # r1) (int (length ?w) - 1) = Some (CHR 0x0A)" using arr_last [of ?w "NUL # r1"] by simp
  have a2: "arr_get (?w @ NUL # r1) (int (length ?w) - 2) = Some (CHR 0x0D)"
    using arr_last [of "v @ [CHR 0x0D]" "CHR 0x0A # NUL # r1"] by simp
  have s1: "arr_set (?w @ NUL # r1) (int (length ?w) - 1) NUL = Some ((v @ [CHR 0x0D]) @ NUL # NUL # r1)"
    using arr_set_last [of "v @ [CHR 0x0D]" "CHR 0x0A" "NUL # r1" NUL] by simp
  have n2: "c_strlen ((v @ [CHR 0x0D]) @ NUL # NUL # r1) = Some (length (v @ [CHR 0x0D]))"
    by (rule c_strlen_at) (use assms(1) in \<open>simp add: NUL_def\<close>)
  have s2: "arr_set ((v @ [CHR 0x0D]) @ NUL # NUL # r1) (int (length (v @ [CHR 0x0D])) - 1) NUL = Some (v @ NUL # NUL # NUL # r1)"
    using arr_set_last [of v "CHR 0x0D" "NUL # NUL # r1" NUL] by simp
  have n3: "c_strlen (v @ NUL # NUL # NUL # r1) = Some (length v)" by (rule c_strlen_at [OF assms(1)])
  have a3: "arr_get (v @ NUL # NUL # NUL # r1) (int (length v) - 1) = Some (last v)" by (rule arr_last [OF assms(2)])
  have "c_str (Some (v @ NUL # NUL # NUL # r1)) = Some v" by (rule c_str_terminated [OF assms(1)])
  then show ?thesis
    using assms(4) by (simp only: header_value_def Option.bind.simps t n1 a1 a2 s1 n2 s2 n3 a3 not_True_eq_False if_False simp_thms if_True)
qed

text \<open>The header lines that the server writes: the name, a blank, the value and the line end.\<close>

definition header_line :: "string \<Rightarrow> string \<Rightarrow> string" where
  "header_line name v = name @ '': '' @ v @ [CHR 0x0D, CHR 0x0A]"

definition plain_value :: "string \<Rightarrow> bool" where
  "plain_value v \<longleftrightarrow> v \<noteq> [] \<and> c_string v \<and> CHR '':'' \<notin> set v \<and> CHR 0x0A \<notin> set v \<and> \<not> is_blank (hd v)"

lemma check_message_header_run:
  assumes "plain_value v" "c_string name" "name \<noteq> []" "CHR '':'' \<notin> set name"
  obtains ts where "check_message_header (Some (header_line name v)) =
      (if strstr_found (map to_upper name) ''X-POSTMAN-FROM'' then Some (Some \<lparr>hp_first = ''X-POSTMAN-FROM'', hp_second = Some v\<rparr>)
       else if strstr_found (map to_upper name) ''X-POSTMAN-TO'' then Some (Some \<lparr>hp_first = ''X-POSTMAN-TO'', hp_second = Some v\<rparr>)
       else if strstr_found (map to_upper name) ''X-POSTMAN-DATE'' then Some (Some \<lparr>hp_first = ''X-POSTMAN-DATE'', hp_second = Some v\<rparr>)
       else Some NULL)"
proof -
  let ?w = "CHR '' '' # v @ [CHR 0x0D, CHR 0x0A]"
  have j: "header_line name v = join_with (CHR '':'') [name, ?w]" by (simp add: header_line_def)
  have ok: "\<forall>w\<in>set [name, ?w]. w \<noteq> [] \<and> CHR '':'' \<notin> set w \<and> c_string w"
    using assms by (auto simp: plain_value_def NUL_def)
  obtain ts where ts: "split (header_line name v) '':'' = Some ts" "list_all2 token_is ts [name, ?w]"
    unfolding j using split_join [OF _ ok] by (auto simp: NUL_def)
  then obtain t u where tu: "ts = [t, u]" "token_is t name" "token_is u ?w" by (auto simp: list_all2_Cons2)
  have "c_str (tk_chars t) = Some name" by (rule token_is_str [OF tu(2) assms(3,2)])
  moreover obtain r where r: "tk_chars u = Some (?w @ NUL # r)" using tu(3) by (auto simp: token_is_def)
  have "last v \<noteq> CHR 0x0A" using assms(1) last_in_set unfolding plain_value_def by metis
  then have "header_value (tk_chars u) = Some v" unfolding r using assms(1) by (intro header_value_run) (simp_all add: plain_value_def)
  ultimately show thesis
    using ts(1) tu(1) by (intro that) (simp add: check_message_header_def header_of_def arr_get_def)
qed

lemma known_headers:
  assumes "plain_value v"
  shows "check_message_header (Some (header_line ''X-Postman-From'' v)) = Some (Some \<lparr>hp_first = ''X-POSTMAN-FROM'', hp_second = Some v\<rparr>)"
    "check_message_header (Some (header_line ''X-Postman-To'' v)) = Some (Some \<lparr>hp_first = ''X-POSTMAN-TO'', hp_second = Some v\<rparr>)"
    "check_message_header (Some (header_line ''X-Postman-Date'' v)) = Some (Some \<lparr>hp_first = ''X-POSTMAN-DATE'', hp_second = Some v\<rparr>)"
proof -
  have u: "map to_upper ''X-Postman-From'' = ''X-POSTMAN-FROM''" "map to_upper ''X-Postman-To'' = ''X-POSTMAN-TO''"
    "map to_upper ''X-Postman-Date'' = ''X-POSTMAN-DATE''" by code_simp+
  show "check_message_header (Some (header_line ''X-Postman-From'' v)) = Some (Some \<lparr>hp_first = ''X-POSTMAN-FROM'', hp_second = Some v\<rparr>)"
    using check_message_header_run [OF assms, of "''X-Postman-From''"] unfolding u by (auto simp: NUL_def strstr_found.simps)
  show "check_message_header (Some (header_line ''X-Postman-To'' v)) = Some (Some \<lparr>hp_first = ''X-POSTMAN-TO'', hp_second = Some v\<rparr>)"
    using check_message_header_run [OF assms, of "''X-Postman-To''"] unfolding u by (auto simp: NUL_def strstr_found.simps)
  show "check_message_header (Some (header_line ''X-Postman-Date'' v)) = Some (Some \<lparr>hp_first = ''X-POSTMAN-DATE'', hp_second = Some v\<rparr>)"
    using check_message_header_run [OF assms, of "''X-Postman-Date''"] unfolding u by (auto simp: NUL_def strstr_found.simps)
qed

text \<open>The list of the recipients: addresses with an at sign, joined with commas.\<close>

definition plain_part :: "string \<Rightarrow> bool" where
  "plain_part s \<longleftrightarrow> s \<noteq> [] \<and> c_string s \<and> set s \<inter> {CHR ''@'', CHR '','', CHR '':'', CHR 0x0A, CHR '' '', CHR 0x09} = {}"

definition plain_address :: "string \<Rightarrow> bool" where
  "plain_address a \<longleftrightarrow> (\<exists>u d. a = u @ ''@'' @ d \<and> plain_part u \<and> plain_part d)"

lemma plain_addressD:
  assumes "plain_address a"
  shows "a \<noteq> []" "c_string a" "CHR '','' \<notin> set a" "CHR '':'' \<notin> set a" "CHR 0x0A \<notin> set a" "\<not> is_blank (hd a)"
proof -
  obtain u d where a: "a = u @ ''@'' @ d" "plain_part u" "plain_part d" using assms by (auto simp: plain_address_def)
  then show "a \<noteq> []" "c_string a" "CHR '','' \<notin> set a" "CHR '':'' \<notin> set a" "CHR 0x0A \<notin> set a"
    by (auto simp: plain_part_def NUL_def)
  have u: "u \<noteq> []" "CHR '' '' \<notin> set u" "CHR 0x09 \<notin> set u" using a(2) by (auto simp: plain_part_def)
  then have "hd u \<noteq> CHR '' ''" "hd u \<noteq> CHR 0x09" using hd_in_set [of u] by metis+
  with u(1) show "\<not> is_blank (hd a)" using a(1) by (simp add: is_blank_def)
qed

lemma set_join_with: "set (join_with d ws) \<subseteq> insert d (\<Union>w\<in>set ws. set w)"
  by (induction d ws rule: join_with.induct) auto

lemma join_plain:
  assumes "as \<noteq> []" "\<forall>a\<in>set as. plain_address a"
  shows "plain_value (join_with (CHR '','') as)"
proof -
  have "join_with (CHR '','') as \<noteq> [] \<and> hd (join_with (CHR '','') as) = hd (hd as)"
    using assms plain_addressD(1) by (cases as rule: remdups_adj.cases) auto
  moreover have "x \<noteq> NUL \<and> x \<noteq> CHR '':'' \<and> x \<noteq> CHR 0x0A" if "x \<in> set (join_with (CHR '','') as)" for x
    using that set_join_with [of "CHR '',''" as] assms(2) plain_addressD(2,4,5) by (fastforce simp: c_string_def NUL_def)
  moreover have "\<not> is_blank (hd (hd as))" using assms plain_addressD(6) by (cases as) auto
  ultimately show ?thesis unfolding plain_value_def c_string_def by auto
qed

text \<open>Split at the at signs, the whole list has one piece more than it has addresses.\<close>

lemma join_with_Cons: "ws \<noteq> [] \<Longrightarrow> join_with d (w # ws) = w @ d # join_with d ws"
  by (cases ws) simp_all

lemma at_pieces:
  assumes "as \<noteq> []" "\<forall>a\<in>set as. plain_address a"
  shows "\<exists>p ps. join_with (CHR '','') as = join_with (CHR ''@'') (p # ps) \<and> length ps = length as
    \<and> (\<forall>w\<in>set (p # ps). w \<noteq> [] \<and> CHR ''@'' \<notin> set w \<and> c_string w)"
  using assms
proof (induction as)
  case (Cons a as)
  then obtain u d where a: "a = u @ ''@'' @ d" "plain_part u" "plain_part d" by (auto simp: plain_address_def)
  show ?case
  proof (cases "as = []")
    case True
    then show ?thesis using a by (intro exI [of _ u] exI [of _ "[d]"]) (auto simp: plain_part_def)
  next
    case False
    with Cons obtain p ps where ps: "join_with (CHR '','') as = join_with (CHR ''@'') (p # ps)" "length ps = length as"
      "\<forall>w\<in>set (p # ps). w \<noteq> [] \<and> CHR ''@'' \<notin> set w \<and> c_string w" by auto
    have "ps \<noteq> []" using ps(2) False by auto
    then have "join_with (CHR '','') (a # as) = join_with (CHR ''@'') (u # (d @ CHR '','' # p) # ps)"
      using ps(1) a(1) False by (simp add: join_with_Cons)
    then show ?thesis using ps a by (intro exI [of _ u] exI [of _ "(d @ CHR '','' # p) # ps"]) (auto simp: plain_part_def NUL_def)
  qed
qed simp

lemma add_address_many:
  assumes "2 \<le> length as" "\<forall>a\<in>set as. plain_address a"
  shows "add_address (join_with (CHR '','') as) mes = Some mes"
proof -
  have "as \<noteq> []" using assms(1) by auto
  then obtain p ps where ps: "join_with (CHR '','') as = join_with (CHR ''@'') (p # ps)" "length ps = length as"
    "\<forall>w\<in>set (p # ps). w \<noteq> [] \<and> CHR ''@'' \<notin> set w \<and> c_string w" using at_pieces [OF _ assms(2)] by blast
  obtain ts where ts: "split (join_with (CHR ''@'') (p # ps)) ''@'' = Some ts" "list_all2 token_is ts (p # ps)"
    using split_join [OF _ ps(3)] by (auto simp: NUL_def)
  have "length ts = Suc (length as)" using list_all2_lengthD [OF ts(2)] ps(2) by simp
  then show ?thesis using ts(1) ps(1) assms(1) by (simp add: add_address_def)
qed

lemma add_address_one:
  assumes "plain_part u" "plain_part d" "ms_addresses mes = Some [NULL]" "ms_addresses_size mes = 0"
  shows "add_address (u @ ''@'' @ d) mes = Some (mes\<lparr>ms_addresses := Some [Some d], ms_addresses_size := 1\<rparr>)"
proof -
  have "\<forall>w\<in>set [u, d]. w \<noteq> [] \<and> CHR ''@'' \<notin> set w \<and> c_string w" using assms(1,2) by (auto simp: plain_part_def)
  then obtain ts where ts: "split (join_with (CHR ''@'') [u, d]) ''@'' = Some ts" "list_all2 token_is ts [u, d]"
    using split_join [of "[u, d]"] by (auto simp: NUL_def)
  then obtain t v where t: "ts = [t, v]" "token_is v d" by (auto simp: list_all2_Cons2)
  have "c_str (tk_chars v) = Some d" using t(2) assms(2) by (intro token_is_str) (simp_all add: plain_part_def)
  then show ?thesis using ts(1) t(1) assms(3,4)
    by (simp add: add_address_def reallocate_memory_def arr_set_def)
qed

lemma add_recipients_many:
  assumes "2 \<le> length as" "\<forall>a\<in>set as. plain_address a" "list_all2 token_is ts bs" "\<forall>b\<in>set bs. plain_address b"
  shows "add_recipients (join_with (CHR '','') as) ts mes = Some (mes\<lparr>ms_to := ms_to mes @ bs\<rparr>)"
  using assms(3,4)
proof (induction ts bs arbitrary: mes rule: list_all2_induct)
  case (Cons t ts b bs)
  have "c_str (tk_chars t) = Some b" using Cons plain_addressD(1,2) by (intro token_is_str) auto
  then show ?case using Cons add_address_many [OF assms(1,2)] by simp
qed simp

text \<open>The list of domains is filled only for a single recipient.\<close>

lemma add_recipients_run:
  assumes "as \<noteq> []" "\<forall>a\<in>set as. plain_address a" "list_all2 token_is ts as" "ms_to mes = []"
    "ms_addresses mes = Some [NULL]" "ms_addresses_size mes = 0"
  obtains p n where "add_recipients (join_with (CHR '','') as) ts mes = Some (mes\<lparr>ms_to := as, ms_addresses := p, ms_addresses_size := n\<rparr>)"
proof (cases "2 \<le> length as")
  case True
  have "mes\<lparr>ms_to := as\<rparr> = mes\<lparr>ms_to := as, ms_addresses := ms_addresses mes, ms_addresses_size := ms_addresses_size mes\<rparr>" by simp
  then show thesis using add_recipients_many [OF True assms(2,3,2), of mes] assms(4) that [where p = "ms_addresses mes" and n = "ms_addresses_size mes"] by simp
next
  case False
  then obtain a where a: "as = [a]" using assms(1) by (cases as rule: remdups_adj.cases) auto
  then obtain u d where u: "a = u @ ''@'' @ d" "plain_part u" "plain_part d" using assms(2) by (auto simp: plain_address_def)
  obtain t where t: "ts = [t]" "token_is t a" using assms(3) a by (auto simp: list_all2_Cons2)
  have "c_str (tk_chars t) = Some a" using t(2) plain_addressD(1,2) assms(2) a by (intro token_is_str) auto
  then have "add_recipients (join_with (CHR '','') as) ts mes = Some (mes\<lparr>ms_to := as, ms_addresses := Some [Some d], ms_addresses_size := 1\<rparr>)"
    using add_address_one [OF u(2,3), of "mes\<lparr>ms_to := [a]\<rparr>"] a t(1) u(1) assms(4-6) by simp
  then show thesis by (rule that)
qed

lemma take_recipients:
  assumes "as \<noteq> []" "\<forall>a\<in>set as. plain_address a" "ms_addresses_size mes = 0"
  obtains p n where "take_header \<lparr>hp_first = ''X-POSTMAN-TO'', hp_second = Some (join_with (CHR '','') as)\<rparr> mes
    = Some (mes\<lparr>ms_to := as, ms_to_size := length as, ms_addresses := p, ms_addresses_size := n\<rparr>)"
proof -
  have "\<forall>w\<in>set as. w \<noteq> [] \<and> CHR '','' \<notin> set w \<and> c_string w" using assms(2) plain_addressD(1-3) by blast
  then obtain ts where ts: "split (join_with (CHR '','') as) '','' = Some ts" "list_all2 token_is ts as"
    using split_join [OF assms(1), of "CHR '',''"] by (auto simp: NUL_def)
  let ?m = "mes\<lparr>ms_to := [], ms_to_size := length ts, ms_addresses := callocate_memory NULL 1\<rparr>"
  have "ms_to ?m = []" "ms_addresses ?m = Some [NULL]" "ms_addresses_size ?m = 0" using assms(3) by (simp_all add: callocate_memory_def)
  from add_recipients_run [OF assms(1,2) ts(2) this] obtain p n where
    "add_recipients (join_with (CHR '','') as) ts ?m = Some (?m\<lparr>ms_to := as, ms_addresses := p, ms_addresses_size := n\<rparr>)" .
  then show thesis using ts(1) list_all2_lengthD [OF ts(2)] by (intro that [where p = p and n = n]) (simp add: take_header_def)
qed

text \<open>The loop over the header lines, and over the lines of the text.\<close>

lemma header_loop_line:
  assumes "plain_value v" "c_string name" "name \<noteq> []" "CHR 0x0A \<notin> set name" "\<not> is_blank (hd name)" "CHR 0x0D \<notin> set name"
    "check_message_header (Some (header_line name v)) = Some (Some h)" "take_header h mes = Some mes1"
  shows "header_loop (header_line name v @ rest) mes = header_loop rest mes1"
proof -
  let ?w = "name @ '': '' @ v @ [CHR 0x0D]"
  have l: "header_line name v = ?w @ [CHR 0x0A]" by (simp add: header_line_def)
  have w: "c_string ?w" "CHR 0x0A \<notin> set ?w" using assms by (auto simp: plain_value_def NUL_def)
  obtain r where r: "file_readline (?w @ CHR 0x0A # rest) = Some (Some (?w @ CHR 0x0A # NUL # r), rest)"
    using w by (rule file_readline_line)
  have lc: "c_string (header_line name v)" unfolding l using w by (simp add: NUL_def)
  have "header_line name v \<noteq> []" "\<not> is_blank (hd (header_line name v))" "\<not> is_blank (last (header_line name v))"
    using assms(3,5) by (simp_all add: header_line_def is_blank_def)
  then obtain r1 where t: "trim (header_line name v @ NUL # r) = Some (header_line name v @ NUL # r1)" by (rule trim_plain [OF lc])
  have s: "c_str (Some (header_line name v @ NUL # r1)) = Some (header_line name v)" by (rule c_str_terminated [OF lc])
  have "hd name \<noteq> CHR 0x0A" "hd name \<noteq> CHR 0x0D" using assms(3,4,6) hd_in_set [of name] by metis+
  then have "hd (header_line name v) \<noteq> CHR 0x0A" "hd (header_line name v) \<noteq> CHR 0x0D"
    using assms(3) by (simp_all add: header_line_def)
  then have ne: "header_line name v \<noteq> [CHR 0x0A]" "header_line name v \<noteq> [CHR 0x0D, CHR 0x0A]" by auto
  have rd: "file_readline (header_line name v @ rest) = Some (Some (header_line name v @ NUL # r), rest)" using r unfolding l by simp
  show ?thesis using assms(7,8) ne by (subst header_loop.simps) (simp add: rd t s)
qed

lemma header_loop_blank: "header_loop ([CHR 0x0D, CHR 0x0A] @ rest) mes = Some (Headers mes rest)"
proof -
  obtain r where r: "file_readline ([CHR 0x0D] @ CHR 0x0A # rest) = Some (Some ([CHR 0x0D] @ CHR 0x0A # NUL # r), rest)"
    by (rule file_readline_line [of "[CHR 0x0D]"]) (simp_all add: NUL_def)
  obtain r1 where t: "trim ([CHR 0x0D, CHR 0x0A] @ NUL # r) = Some ([CHR 0x0D, CHR 0x0A] @ NUL # r1)"
    using trim_plain [of "[CHR 0x0D, CHR 0x0A]" r] by (auto simp: NUL_def is_blank_def)
  have s: "c_str (Some ([CHR 0x0D, CHR 0x0A] @ NUL # r1)) = Some [CHR 0x0D, CHR 0x0A]" by (rule c_str_terminated) (simp add: NUL_def)
  show ?thesis using r t s by (subst header_loop.simps) simp
qed

definition file_line :: "string \<Rightarrow> bool" where
  "file_line l \<longleftrightarrow> (\<exists>w. l = w @ [CHR 0x0A] \<and> c_string w \<and> CHR 0x0A \<notin> set w)"

lemma body_loop_lines:
  assumes "\<forall>l\<in>set ls. file_line l" "c_string q" "CHR 0x0A \<notin> set q"
  shows "body_loop (concat ls @ q) strings = Some (strings @ ls)"
  using assms(1)
proof (induction ls arbitrary: strings)
  case Nil
  then show ?case using file_readline_no_line [OF assms(2,3)] by (subst body_loop.simps) simp
next
  case (Cons l ls)
  then obtain w where w: "l = w @ [CHR 0x0A]" "c_string w" "CHR 0x0A \<notin> set w" by (auto simp: file_line_def)
  obtain r where r: "file_readline (w @ CHR 0x0A # (concat ls @ q)) = Some (Some (w @ CHR 0x0A # NUL # r), concat ls @ q)"
    using w(2,3) by (rule file_readline_line)
  have "c_str (Some ((w @ [CHR 0x0A]) @ NUL # r)) = Some (w @ [CHR 0x0A])" using w(2) by (intro c_str_terminated) (simp add: NUL_def)
  then show ?case using r w(1) Cons by (subst body_loop.simps) simp
qed

lemma read_message_run:
  assumes "fs_nodes fs (resolve fs path) = Some (File (header_line ''X-Postman-From'' f @ header_line ''X-Postman-Date'' date
      @ header_line ''X-Postman-To'' (join_with (CHR '','') as) @ [CHR 0x0D, CHR 0x0A] @ concat ls @ q))"
    "plain_address f" "plain_value date" "as \<noteq> []" "\<forall>a\<in>set as. plain_address a"
    "\<forall>l\<in>set ls. file_line l" "c_string q" "CHR 0x0A \<notin> set q"
  shows "\<exists>mes. read_message fs path = Some (Some mes) \<and> ms_from mes = Some f \<and> ms_to mes = as \<and> ms_to_size mes = length as
    \<and> ms_strings mes = ls \<and> ms_strings_size mes = length ls \<and> ms_directory mes = Some path"
proof -
  have pf: "plain_value f" using join_plain [of "[f]"] assms(2) by simp
  have pt: "plain_value (join_with (CHR '','') as)" by (rule join_plain [OF assms(4,5)])
  let ?m1 = "message_zero\<lparr>ms_from := Some f\<rparr>"
  have z: "ms_addresses_size ?m1 = 0" by (simp add: message_zero_def)
  obtain p n where m2: "take_header \<lparr>hp_first = ''X-POSTMAN-TO'', hp_second = Some (join_with (CHR '','') as)\<rparr> ?m1
    = Some (?m1\<lparr>ms_to := as, ms_to_size := length as, ms_addresses := p, ms_addresses_size := n\<rparr>)"
    using take_recipients [OF assms(4,5) z] by blast
  let ?m2 = "?m1\<lparr>ms_to := as, ms_to_size := length as, ms_addresses := p, ms_addresses_size := n\<rparr>"
  let ?rest = "concat ls @ q"
  have nm: "c_string ''X-Postman-From''" "c_string ''X-Postman-Date''" "c_string ''X-Postman-To''" by (simp_all add: NUL_def)
  have 1: "header_loop (header_line ''X-Postman-From'' f @ x) message_zero = header_loop x ?m1" for x
    by (rule header_loop_line [OF pf nm(1) _ _ _ _ known_headers(1) [OF pf]]) (simp_all add: is_blank_def take_header_def)
  have 2: "header_loop (header_line ''X-Postman-Date'' date @ x) ?m1 = header_loop x ?m1" for x
    by (rule header_loop_line [OF assms(3) nm(2) _ _ _ _ known_headers(3) [OF assms(3)]]) (simp_all add: is_blank_def take_header_def)
  have 3: "header_loop (header_line ''X-Postman-To'' (join_with (CHR '','') as) @ x) ?m1 = header_loop x ?m2" for x
    by (rule header_loop_line [OF pt nm(3) _ _ _ _ known_headers(2) [OF pt] m2]) (simp_all add: is_blank_def)
  have "header_loop (header_line ''X-Postman-From'' f @ header_line ''X-Postman-Date'' date
      @ header_line ''X-Postman-To'' (join_with (CHR '','') as) @ [CHR 0x0D, CHR 0x0A] @ ?rest) message_zero = Some (Headers ?m2 ?rest)"
    unfolding 1 2 3 header_loop_blank ..
  then show ?thesis
    using assms(1) body_loop_lines [OF assms(6-8), of "[]"] by (simp add: read_message_def posix_fopen_r_def)
qed

end
