(* ===== verification/ClientContext.thy ===== *)
theory ClientContext
  imports ClientSmtp ClientMaildir
begin

text \<open>
  The threads of the client, \<open>client/src/context/context.c\<close>: the deliveries in progress
  (\<open>multiplex_context\<close>), the handlers of the states of one delivery, and the two halves of a turn of
  a thread after \<open>pselect\<close>: a round over its deliveries, or connecting to the servers that have mail.
  What the system calls answer is an argument; the log lines and the signal handling are dropped.
\<close>

section \<open>Data\<close>

text \<open>
  A delivery. The memory of the strings of its server may have been freed: they may not be used then,
  nor freed again, but the number of messages is part of the structure itself. The numbers and
  pointers of a new element of the array are uninitialised and set before they are used.
\<close>

record multiplex_context =
  mc_smtp_context :: smtp_context
  mc_response :: smtp_response
  mc_server :: maildir_other_server
  mc_server_freed :: bool
  mc_select_message :: "message ptr"
  mc_iteration :: int

definition mc_new :: multiplex_context where
  "mc_new = \<lparr>mc_smtp_context = \<lparr>sc_socket_desc = -1, sc_state_code = SMTP_INVALID\<rparr>,
             mc_response = \<lparr>sr_status_code = UNDEFINED_ERROR, sr_message = NULL\<rparr>,
             mc_server = \<lparr>os_directory = NULL, os_server = NULL, os_message_full_file_names = [], os_messages_size = 0\<rparr>,
             mc_server_freed = False, mc_select_message = NULL, mc_iteration = 0\<rparr>"

record thread =
  th_master :: "int set"
  th_read_fds :: "int set"
  th_write_fds :: "int set"
  th_fdmax :: int
  th_fd_size :: int
  th_id_thread :: nat
  th_multiplex_context :: "multiplex_context list ptr"
  th_multiplex_context_size :: nat
  th_is_stopped :: bool

text \<open>
  What the threads share: the file system, the bytes that wait on the sockets and those that were
  sent, the closed sockets, and the mutex \<open>server_thread_mutex\<close>.
\<close>

record world =
  wd_fs :: fs
  wd_input :: "int \<Rightarrow> string"
  wd_output :: "int \<Rightarrow> string"
  wd_closed :: "int list"
  wd_locked :: bool

text \<open>What one delivery meets in a round: the bytes behind the array of the reply code, and the results of \<open>send\<close>.\<close>

record io =
  io_hostname :: string
  io_stack :: string
  io_send :: "sent list"

text \<open>A call may end the program, or wait for a mutex for ever.\<close>

datatype 'a ends = Exited | Blocked | Goes 'a

text \<open>The sets of \<open>select\<close> hold descriptors below \<open>FD_SETSIZE\<close>.\<close>

definition FD_SETSIZE :: int where "FD_SETSIZE = 1024"
definition fd_in_range :: "int \<Rightarrow> bool" where "fd_in_range s \<longleftrightarrow> 0 \<le> s \<and> s < FD_SETSIZE"
definition FD_SET :: "int \<Rightarrow> int set \<Rightarrow> int set ub" where "FD_SET s S = (if fd_in_range s then Some (insert s S) else UB)"
definition FD_ISSET :: "int \<Rightarrow> int set \<Rightarrow> bool ub" where "FD_ISSET s S = (if fd_in_range s then Some (s \<in> S) else UB)"

section \<open>The set of sockets\<close>

text \<open>The master set is emptied before a socket is added, and when one is removed.\<close>

definition add_socket_to_context :: "int \<Rightarrow> thread \<Rightarrow> thread ub" where
  "add_socket_to_context socket thr =
     do {
       S \<leftarrow> FD_SET socket {};
       let thr1 = thr\<lparr>th_master := S, th_read_fds := S, th_write_fds := S\<rparr>;
       let thr2 = (if socket > 0 then thr1\<lparr>th_fdmax := socket + 1\<rparr> else thr1);
       Some (thr2\<lparr>th_fd_size := th_fd_size thr2 + 1\<rparr>)
     }"

definition ctx_at :: "thread \<Rightarrow> nat \<Rightarrow> multiplex_context ub" where
  "ctx_at thr i = do { cells \<leftarrow> th_multiplex_context thr; arr_get cells (int i) }"

definition set_ctx :: "thread \<Rightarrow> nat \<Rightarrow> multiplex_context \<Rightarrow> thread ub" where
  "set_ctx thr i c =
     do {
       cells \<leftarrow> th_multiplex_context thr;
       cells1 \<leftarrow> arr_set cells (int i) c;
       Some (thr\<lparr>th_multiplex_context := Some cells1\<rparr>)
     }"

fun reset_loop :: "thread \<Rightarrow> nat \<Rightarrow> nat \<Rightarrow> int set \<Rightarrow> int set ub" where
  "reset_loop thr i 0 S = Some S"
| "reset_loop thr i (Suc n) S =
     do {
       c \<leftarrow> ctx_at thr i;
       S1 \<leftarrow> FD_SET (sc_socket_desc (mc_smtp_context c)) S;
       reset_loop thr (Suc i) n S1
     }"

definition reset_socket_to_context :: "thread \<Rightarrow> thread ub" where
  "reset_socket_to_context thr =
     do {
       S \<leftarrow> reset_loop thr 0 (th_multiplex_context_size thr) {};
       Some (thr\<lparr>th_master := S, th_read_fds := S, th_write_fds := S\<rparr>)
     }"

definition remove_socket_from_context :: "int \<Rightarrow> thread \<Rightarrow> world \<Rightarrow> (thread \<times> world) ub" where
  "remove_socket_from_context socket thr w =
     (if fd_in_range socket
      then Some (thr\<lparr>th_master := {}, th_read_fds := {}, th_write_fds := {}, th_fd_size := th_fd_size thr - 1,
                     th_fdmax := th_fdmax thr - 1\<rparr>,
                 w\<lparr>wd_closed := wd_closed w @ [socket]\<rparr>)
      else UB)"

definition is_ready_for_read :: "int \<Rightarrow> thread \<Rightarrow> bool ub" where
  "is_ready_for_read socket thr = FD_ISSET socket (th_read_fds thr)"

definition is_ready_for_write :: "int \<Rightarrow> thread \<Rightarrow> bool ub" where
  "is_ready_for_write socket thr = FD_ISSET socket (th_write_fds thr)"

definition is_smtp_sender_ready :: "smtp_context \<Rightarrow> thread \<Rightarrow> bool ub" where
  "is_smtp_sender_ready smtp thr = is_ready_for_write (sc_socket_desc smtp) thr"

section \<open>Removing a delivery\<close>

text \<open>The strings of the server are freed and the message is forgotten.\<close>

definition free_multiplex_context :: "multiplex_context \<Rightarrow> multiplex_context ub" where
  "free_multiplex_context c =
     (if mc_server_freed c then UB else Some (c\<lparr>mc_select_message := NULL, mc_server_freed := True\<rparr>))"

text \<open>\<open>contexts[j] = contexts[j + 1]\<close> for \<open>j\<close> from \<open>i\<close> up to \<open>n - 2\<close>.\<close>

definition move_down :: "nat \<Rightarrow> nat \<Rightarrow> 'a list \<Rightarrow> 'a list" where
  "move_down i n cells = (if i < n then take i cells @ segment (i + 1) n cells @ drop (n - 1) cells else cells)"

text \<open>
  The deliveries behind the removed one are moved down. Then \<open>free_multiplex_context\<close> is called for
  the pointer, at which the next delivery is now, except when the last one was removed.
\<close>

definition remove_multiplex_context :: "nat \<Rightarrow> thread \<Rightarrow> world \<Rightarrow> (thread \<times> world) ub" where
  "remove_multiplex_context i thr w =
     do {
       c \<leftarrow> ctx_at thr i;
       (thr1, w1) \<leftarrow> remove_socket_from_context (sc_socket_desc (mc_smtp_context c)) thr w;
       cells \<leftarrow> th_multiplex_context thr1;
       let n = th_multiplex_context_size thr1;
       (if n > length cells then UB
        else do {
          let moved = move_down i n cells;
          d \<leftarrow> arr_get moved (int i);
          d1 \<leftarrow> free_multiplex_context d;
          Some (thr1\<lparr>th_multiplex_context := Some (moved[i := d1]), th_multiplex_context_size := n - 1\<rparr>, w1)
        })
     }"

section \<open>The handlers of the states\<close>

text \<open>The status: that of a reply when the socket is readable, or else the last one.\<close>

definition get_response_to_context :: "io \<Rightarrow> multiplex_context \<Rightarrow> thread \<Rightarrow> world \<Rightarrow> ((status_code \<times> world) ends) ub" where
  "get_response_to_context e context thr w =
     do {
       let s = sc_socket_desc (mc_smtp_context context);
       readable \<leftarrow> is_ready_for_read s thr;
       (if readable then
          do {
            r \<leftarrow> get_smtp_response (io_stack e) (wd_input w s);
            (case r of
               ProgramExit \<Rightarrow> Some Exited
             | Response response rest \<Rightarrow> Some (Goes (sr_status_code response, w\<lparr>wd_input := (wd_input w)(s := rest)\<rparr>)))
          }
        else Some (Goes (sr_status_code (mc_response context), w)))
     }"

definition put_status :: "status_code \<Rightarrow> multiplex_context \<Rightarrow> multiplex_context" where
  "put_status status context = context\<lparr>mc_response := (mc_response context)\<lparr>sr_status_code := status\<rparr>\<rparr>"

definition no_answer :: "multiplex_context \<Rightarrow> multiplex_context" where
  "no_answer context = context\<lparr>mc_response := \<lparr>sr_status_code = NOT_ANSWER, sr_message = NULL\<rparr>\<rparr>"

text \<open>A request is sent on the socket of a delivery.\<close>

definition sent_on :: "multiplex_context \<Rightarrow> smtp_context \<times> string \<Rightarrow> world \<Rightarrow> multiplex_context \<times> world" where
  "sent_on context r w =
     (let s = sc_socket_desc (mc_smtp_context context)
      in (context\<lparr>mc_smtp_context := fst r\<rparr>, w\<lparr>wd_output := (wd_output w)(s := wd_output w s @ snd r)\<rparr>))"

definition quit_on :: "io \<Rightarrow> multiplex_context \<Rightarrow> world \<Rightarrow> multiplex_context \<times> world" where
  "quit_on e context w = sent_on context (smtp_send_quit (io_send e) (mc_smtp_context context)) w"

text \<open>
  \<open>remove_message_server\<close> for a delivery; the names of the server are only looked at when the file of
  the message was in the store and could be removed.
\<close>

definition in_store :: "message ptr \<Rightarrow> bool" where
  "in_store mes =
     (case mes of
        NULL \<Rightarrow> False
      | Some m \<Rightarrow> (case ms_directory m of NULL \<Rightarrow> False | Some d \<Rightarrow> strstr_found d DIRECTORY_OTHER_SERVERS))"

definition remove_selected :: "multiplex_context \<Rightarrow> world \<Rightarrow> (multiplex_context \<times> world) ub" where
  "remove_selected context w =
     (let (fs1, server, freed) = remove_message_server (wd_fs w) (mc_server context) (mc_select_message context)
      in if mc_server_freed context \<and> freed \<and> in_store (mc_select_message context) then UB
         else Some (context\<lparr>mc_server := server\<rparr>, w\<lparr>wd_fs := fs1\<rparr>))"

text \<open>The last two branches of every handler: a temporary failure, and a permanent one.\<close>

definition failed_reply :: "io \<Rightarrow> status_code \<Rightarrow> nat \<Rightarrow> multiplex_context \<Rightarrow> thread \<Rightarrow> world \<Rightarrow> ((thread \<times> world) ends) ub" where
  "failed_reply e status i context thr w =
     (if is_smtp_4xx_error status \<or> status = UNDEFINED_ERROR then
        do {
          let (c1, w1) = quit_on e context w;
          thr1 \<leftarrow> set_ctx thr i c1;
          map_option Goes (remove_multiplex_context i thr1 w1)
        }
      else if is_smtp_5xx_error status then
        do {
          let (c1, w1) = quit_on e context w;
          (c2, w2) \<leftarrow> remove_selected c1 w1;
          thr1 \<leftarrow> set_ctx thr i c2;
          map_option Goes (remove_multiplex_context i thr1 w2)
        }
      else do { thr1 \<leftarrow> set_ctx thr i context; Some (Goes (thr1, w)) })"

text \<open>
  The common part of the handlers: the reply is fetched and stored, unless there is none. The
  branch of a success is the argument \<open>success\<close>.
\<close>

definition on_reply ::
    "(status_code \<Rightarrow> status_code \<Rightarrow> bool) \<Rightarrow> (status_code \<Rightarrow> bool) \<Rightarrow> (multiplex_context \<Rightarrow> world \<Rightarrow> ((thread \<times> world) ends) ub)
      \<Rightarrow> io \<Rightarrow> nat \<Rightarrow> thread \<Rightarrow> world \<Rightarrow> ((thread \<times> world) ends) ub" where
  "on_reply skip good success e i thr w =
     do {
       context \<leftarrow> ctx_at thr i;
       r \<leftarrow> get_response_to_context e context thr w;
       (case r of
          Exited \<Rightarrow> Some Exited
        | Blocked \<Rightarrow> Some Blocked
        | Goes (status, w1) \<Rightarrow>
            if skip status (sr_status_code (mc_response context)) then Some (Goes (thr, w1))
            else if good status then success (put_status status context) w1
            else failed_reply e status i (put_status status context) thr w1)
     }"

text \<open>The branch of a success that sends a request when the socket can be written.\<close>

definition when_sender_ready ::
    "nat \<Rightarrow> thread \<Rightarrow> (multiplex_context \<Rightarrow> world \<Rightarrow> (multiplex_context \<times> world) ub)
      \<Rightarrow> multiplex_context \<Rightarrow> world \<Rightarrow> ((thread \<times> world) ends) ub" where
  "when_sender_ready i thr f context w =
     do {
       ready \<leftarrow> is_smtp_sender_ready (mc_smtp_context context) thr;
       (c1, w1) \<leftarrow> (if ready then f context w else Some (context, w));
       thr1 \<leftarrow> set_ctx thr i c1;
       Some (Goes (thr1, w1))
     }"

definition connect_handler :: "io \<Rightarrow> nat \<Rightarrow> thread \<Rightarrow> world \<Rightarrow> ((thread \<times> world) ends) ub" where
  "connect_handler e i thr w =
     on_reply (\<lambda>status old. status = NOT_ANSWER \<or> status = old) is_smtp_success
       (when_sender_ready i thr (\<lambda>context w.
          Some (sent_on (no_answer context) (smtp_send_helo (io_hostname e) (io_send e) (mc_smtp_context context)) w)))
       e i thr w"

definition helo_handler :: "io \<Rightarrow> nat \<Rightarrow> thread \<Rightarrow> world \<Rightarrow> ((thread \<times> world) ends) ub" where
  "helo_handler e i thr w =
     on_reply (\<lambda>status old. status = NOT_ANSWER) is_smtp_success
       (when_sender_ready i thr (\<lambda>context w. do {
          m \<leftarrow> mc_select_message context;
          from_email \<leftarrow> ms_from m;
          let (c1, w1) = sent_on (no_answer context) (smtp_send_mail from_email (io_send e) (mc_smtp_context context)) w;
          Some (c1\<lparr>mc_iteration := mc_iteration c1 + 1\<rparr>, w1)
        }))
       e i thr w"

definition mail_handler :: "io \<Rightarrow> nat \<Rightarrow> thread \<Rightarrow> world \<Rightarrow> ((thread \<times> world) ends) ub" where
  "mail_handler e i thr w =
     on_reply (\<lambda>status old. status = NOT_ANSWER) is_smtp_success
       (when_sender_ready i thr (\<lambda>context w. do {
          m \<leftarrow> mc_select_message context;
          to_email \<leftarrow> arr_get (ms_to m) 0;
          let (c1, w1) = sent_on (no_answer context) (smtp_send_rcpt to_email (io_send e) (mc_smtp_context context)) w;
          Some (c1\<lparr>mc_iteration := 1\<rparr>, w1)
        }))
       e i thr w"

definition rcpt_handler :: "io \<Rightarrow> nat \<Rightarrow> thread \<Rightarrow> world \<Rightarrow> ((thread \<times> world) ends) ub" where
  "rcpt_handler e i thr w =
     on_reply (\<lambda>status old. status = NOT_ANSWER)
       (\<lambda>status. is_smtp_success status \<or> status = SMTP_USER_MAILBOX_WAS_UNAVAILABLE)
       (when_sender_ready i thr (\<lambda>context w. do {
          m \<leftarrow> mc_select_message context;
          let smtp = mc_smtp_context context;
          (if mc_iteration context < int (ms_to_size m) then
             do {
               to_email \<leftarrow> arr_get (ms_to m) (mc_iteration context);
               let (c1, w1) = sent_on (no_answer context) (smtp_send_rcpt to_email (io_send e) smtp) w;
               Some (c1\<lparr>mc_iteration := mc_iteration c1 + 1\<rparr>, w1)
             }
           else Some (sent_on ((no_answer context)\<lparr>mc_iteration := 0\<rparr>) (smtp_send_data (io_send e) smtp) w))
        }))
       e i thr w"

text \<open>The status of the reply to the data command stays, and stands for a reply to every line.\<close>

definition send_text_line :: "io \<Rightarrow> multiplex_context \<Rightarrow> world \<Rightarrow> (multiplex_context \<times> world) ub" where
  "send_text_line e context w =
     do {
       m \<leftarrow> mc_select_message context;
       line \<leftarrow> arr_get (ms_strings m) (mc_iteration context);
       r \<leftarrow> smtp_send_message line (io_send e) (mc_smtp_context context);
       let (c1, w1) = sent_on context r w;
       Some (c1\<lparr>mc_iteration := mc_iteration c1 + 1\<rparr>, w1)
     }"

definition data_handler :: "io \<Rightarrow> nat \<Rightarrow> thread \<Rightarrow> world \<Rightarrow> ((thread \<times> world) ends) ub" where
  "data_handler e i thr w =
     on_reply (\<lambda>status old. status = NOT_ANSWER) is_smtp_success (when_sender_ready i thr (send_text_line e)) e i thr w"

text \<open>The lines of the text are sent whether or not the socket can be written.\<close>

definition message_handler :: "io \<Rightarrow> nat \<Rightarrow> thread \<Rightarrow> world \<Rightarrow> ((thread \<times> world) ends) ub" where
  "message_handler e i thr w =
     on_reply (\<lambda>status old. status = NOT_ANSWER) is_smtp_success
       (\<lambda>context w. do {
          m \<leftarrow> mc_select_message context;
          (c1, w1) \<leftarrow> (if mc_iteration context < int (ms_strings_size m) then send_text_line e context w
                        else Some (sent_on ((no_answer context)\<lparr>mc_iteration := 0\<rparr>)
                                     (smtp_send_end_message (io_send e) (mc_smtp_context context)) w));
          thr1 \<leftarrow> set_ctx thr i c1;
          Some (Goes (thr1, w1))
        })
       e i thr w"

definition end_message_handler :: "io \<Rightarrow> nat \<Rightarrow> thread \<Rightarrow> world \<Rightarrow> ((thread \<times> world) ends) ub" where
  "end_message_handler e i thr w =
     on_reply (\<lambda>status old. status = NOT_ANSWER) is_smtp_success
       (\<lambda>context w. do {
          ready \<leftarrow> is_smtp_sender_ready (mc_smtp_context context) thr;
          (if \<not> ready then do { thr1 \<leftarrow> set_ctx thr i context; Some (Goes (thr1, w)) }
           else do {
             (c1, w1) \<leftarrow> remove_selected context w;
             (if 0 < os_messages_size (mc_server c1) then
                do {
                  thr1 \<leftarrow> set_ctx thr i (c1\<lparr>mc_smtp_context := (mc_smtp_context c1)\<lparr>sc_state_code := SMTP_HELO\<rparr>, mc_select_message := NULL\<rparr>);
                  Some (Goes (thr1, w1))
                }
              else do {
                let (c2, w2) = quit_on e (no_answer c1) w1;
                thr1 \<leftarrow> set_ctx thr i c2;
                map_option Goes (remove_multiplex_context i thr1 w2)
              })
           })
        })
       e i thr w"

section \<open>A round over the deliveries\<close>

definition state_handler :: "state_code \<Rightarrow> io \<Rightarrow> nat \<Rightarrow> thread \<Rightarrow> world \<Rightarrow> ((thread \<times> world) ends) ub" where
  "state_handler st e i thr w =
     (case st of
        SMTP_CONNECT \<Rightarrow> connect_handler e i thr w
      | SMTP_HELO \<Rightarrow> helo_handler e i thr w
      | SMTP_MAIL \<Rightarrow> mail_handler e i thr w
      | SMTP_RCPT \<Rightarrow> rcpt_handler e i thr w
      | SMTP_DATA \<Rightarrow> data_handler e i thr w
      | SMTP_MESSAGE \<Rightarrow> message_handler e i thr w
      | SMTP_END_MESSAGE \<Rightarrow> end_message_handler e i thr w
      | _ \<Rightarrow> map_option Goes (remove_multiplex_context i thr w))"

text \<open>One delivery: its next message is chosen when it has none, and the state is handled.\<close>

definition round_step :: "io \<Rightarrow> nat \<Rightarrow> thread \<Rightarrow> world \<Rightarrow> ((thread \<times> world) ends) ub" where
  "round_step e i thr w =
     do {
       c \<leftarrow> ctx_at thr i;
       (case mc_select_message c of
          Some m \<Rightarrow> state_handler (sc_state_code (mc_smtp_context c)) e i thr w
        | NULL \<Rightarrow>
            do {
              mess \<leftarrow> (if mc_server_freed c \<and> 0 < os_messages_size (mc_server c) then UB
                        else get_first_message (wd_fs w) (Some (mc_server c)));
              (case mess of
                 NULL \<Rightarrow>
                   do {
                     let (c1, w1) = quit_on e c w;
                     thr1 \<leftarrow> set_ctx thr i c1;
                     map_option Goes (remove_multiplex_context i thr1 w1)
                   }
               | Some m \<Rightarrow>
                   do {
                     thr1 \<leftarrow> set_ctx thr i (c\<lparr>mc_select_message := Some m\<rparr>);
                     state_handler (sc_state_code (mc_smtp_context c)) e i thr1 w
                   })
            })
     }"

section \<open>The number of deliveries in a round\<close>

definition at_most :: "nat \<Rightarrow> ((thread \<times> world) ends) ub \<Rightarrow> bool" where
  "at_most n r \<longleftrightarrow> ub_post r (\<lambda>x. case x of Goes (t, w) \<Rightarrow> th_multiplex_context_size t \<le> n | _ \<Rightarrow> True)"

lemma at_most_simps [simp]:
  "at_most n UB" "at_most n (Some Exited)" "at_most n (Some Blocked)"
  "at_most n (Some (Goes (t, w))) \<longleftrightarrow> th_multiplex_context_size t \<le> n"
  "at_most n (Option.bind m f) \<longleftrightarrow> (\<forall>x. m = Some x \<longrightarrow> at_most n (f x))"
  by (simp_all add: at_most_def ub_post_def split: bind_splits)

lemma at_mostD: "at_most n r \<Longrightarrow> r = Some (Goes (t, w)) \<Longrightarrow> th_multiplex_context_size t \<le> n"
  by simp

lemma set_ctx_size: "set_ctx thr i c = Some t \<Longrightarrow> th_multiplex_context_size t = th_multiplex_context_size thr"
  by (auto simp: set_ctx_def bind_eq_Some_conv)

lemma remove_context_size:
  "remove_multiplex_context i thr w = Some (t, w1) \<Longrightarrow> th_multiplex_context_size t = th_multiplex_context_size thr - 1"
  by (auto simp: remove_multiplex_context_def remove_socket_from_context_def Let_def bind_eq_Some_conv split: if_splits)

lemma remove_context_at_most:
  "th_multiplex_context_size thr \<le> n \<Longrightarrow> at_most n (map_option Goes (remove_multiplex_context i thr w))"
  by (cases "remove_multiplex_context i thr w") (auto dest: remove_context_size)

lemma failed_reply_size: "at_most (th_multiplex_context_size thr) (failed_reply e status i c thr w)"
  by (auto simp: failed_reply_def Let_def split: prod.split intro!: remove_context_at_most dest: set_ctx_size)

lemma on_reply_size:
  assumes "\<And>c w. at_most (th_multiplex_context_size thr) (f c w)"
  shows "at_most (th_multiplex_context_size thr) (on_reply skip good f e i thr w)"
  using assms failed_reply_size by (auto simp: on_reply_def split: ends.split prod.split)

lemma when_sender_ready_size: "at_most (th_multiplex_context_size thr) (when_sender_ready i thr f c w)"
  by (auto simp: when_sender_ready_def dest: set_ctx_size)

lemma message_handler_size: "at_most (th_multiplex_context_size thr) (message_handler e i thr w)"
  unfolding message_handler_def by (rule on_reply_size) (auto split: prod.split dest: set_ctx_size)

lemma end_message_handler_size: "at_most (th_multiplex_context_size thr) (end_message_handler e i thr w)"
  unfolding end_message_handler_def
  by (rule on_reply_size) (auto simp: Let_def split: prod.split intro!: remove_context_at_most dest: set_ctx_size)

lemma state_handler_size: "at_most (th_multiplex_context_size thr) (state_handler st e i thr w)"
  using message_handler_size end_message_handler_size
  by (auto simp: state_handler_def connect_handler_def helo_handler_def mail_handler_def rcpt_handler_def
      data_handler_def split: state_code.split intro!: on_reply_size when_sender_ready_size remove_context_at_most)

lemma round_step_at_most: "at_most (th_multiplex_context_size thr) (round_step e i thr w)"
proof -
  have "at_most (th_multiplex_context_size thr) (state_handler st e i t w)"
    if "set_ctx thr i c = Some t" for t st w c
    using state_handler_size [of t] set_ctx_size [OF that] by simp
  then show ?thesis
    using state_handler_size
    by (auto simp: round_step_def Let_def split: option.split prod.split
        intro!: remove_context_at_most dest: set_ctx_size)
qed

lemma round_step_size:
  "round_step e i thr w = Some (Goes (t, w1)) \<Longrightarrow> th_multiplex_context_size t \<le> th_multiplex_context_size thr"
  by (rule at_mostD [OF round_step_at_most])

text \<open>The loop over the deliveries; \<open>e i\<close> is what the \<open>i\<close>-th one meets.\<close>

function round_loop :: "(nat \<Rightarrow> io) \<Rightarrow> nat \<Rightarrow> thread \<Rightarrow> world \<Rightarrow> ((thread \<times> world) ends) ub" where
  "round_loop e i thr w =
     (if i < th_multiplex_context_size thr then
        (case round_step (e i) i thr w of
           None \<Rightarrow> UB
         | Some Exited \<Rightarrow> Some Exited
         | Some Blocked \<Rightarrow> Some Blocked
         | Some (Goes (thr1, w1)) \<Rightarrow> round_loop e (Suc i) thr1 w1)
      else Some (Goes (thr, w)))"
  by pat_completeness auto
termination
  by (relation "measure (\<lambda>(e, i, thr, w). th_multiplex_context_size thr - i)") (auto dest: round_step_size)

declare round_loop.simps [simp del]

section \<open>Connecting to the servers that have mail\<close>

text \<open>
  Whether a server is in a delivery of some thread. The mutex is released only when it is not. The
  threads write their own deliveries without the mutex; here the search is one step.
\<close>

fun contains_ctx :: "thread \<Rightarrow> nat \<Rightarrow> nat \<Rightarrow> string \<Rightarrow> bool ub" where
  "contains_ctx thr j 0 server = Some False"
| "contains_ctx thr j (Suc n) server =
     do {
       c \<leftarrow> ctx_at thr j;
       s \<leftarrow> (if mc_server_freed c then UB else os_server (mc_server c));
       (if server = s then Some True else contains_ctx thr (Suc j) n server)
     }"

fun contains_loop :: "thread list \<Rightarrow> string \<Rightarrow> bool ub" where
  "contains_loop [] server = Some False"
| "contains_loop (t # ts) server =
     do {
       b \<leftarrow> contains_ctx t 0 (th_multiplex_context_size t) server;
       (if b then Some True else contains_loop ts server)
     }"

definition is_contains :: "thread list \<Rightarrow> string \<Rightarrow> world \<Rightarrow> ((bool \<times> world) ends) ub" where
  "is_contains threads server w =
     (if wd_locked w then Some Blocked
      else do {
        b \<leftarrow> contains_loop threads server;
        Some (Goes (b, if b then w\<lparr>wd_locked := True\<rparr> else w))
      })"

definition delivery_of :: "smtp_context \<Rightarrow> maildir_other_server \<Rightarrow> multiplex_context" where
  "delivery_of cont server =
     \<lparr>mc_smtp_context = cont, mc_response = \<lparr>sr_status_code = NOT_ANSWER, sr_message = NULL\<rparr>,
      mc_server = server\<lparr>os_message_full_file_names := take (os_messages_size server) (os_message_full_file_names server)\<rparr>,
      mc_server_freed = False, mc_select_message = NULL, mc_iteration = 0\<rparr>"

text \<open>The array gets one cell more than servers were connected in this loop, whatever it had before.\<close>

definition add_delivery :: "nat \<Rightarrow> smtp_context \<Rightarrow> maildir_other_server \<Rightarrow> thread \<Rightarrow> thread ub" where
  "add_delivery i cont server thr =
     do {
       block \<leftarrow> reallocate_memory mc_new (th_multiplex_context thr) i (i + 1);
       thr1 \<leftarrow> set_ctx (thr\<lparr>th_multiplex_context := block\<rparr>) i (delivery_of cont server);
       add_socket_to_context (sc_socket_desc cont) (thr1\<lparr>th_multiplex_context_size := th_multiplex_context_size thr1 + 1\<rparr>)
     }"

fun servers_loop ::
    "(nat \<Rightarrow> net_env) \<Rightarrow> thread list \<Rightarrow> nat \<Rightarrow> nat \<Rightarrow> maildir_other_server list \<Rightarrow> thread \<Rightarrow> world \<Rightarrow> ((thread \<times> world) ends) ub" where
  "servers_loop env threads i j [] thr w = Some (Goes (thr, w))"
| "servers_loop env threads i j (server # servers) thr w =
     (if 0 < os_messages_size server \<and> (i + j) mod length threads = th_id_thread thr then
        do {
          name \<leftarrow> os_server server;
          r \<leftarrow> is_contains (threads[th_id_thread thr := thr]) name w;
          (case r of
             Exited \<Rightarrow> Some Exited
           | Blocked \<Rightarrow> Some Blocked
           | Goes (True, w1) \<Rightarrow> servers_loop env threads i (Suc j) servers thr w1
           | Goes (False, w1) \<Rightarrow>
               do {
                 let cont = smtp_connect (env j) name ''25'';
                 (if sc_state_code cont = SMTP_INVALID
                  then Some (Goes (thr, w1\<lparr>wd_fs := remove_all_message_server (wd_fs w1) (Some server)\<rparr>))
                  else do {
                    thr1 \<leftarrow> add_delivery i cont server thr;
                    servers_loop env threads (Suc i) (Suc j) servers thr1 w1
                  })
               })
        }
      else servers_loop env threads i (Suc j) servers thr w)"

definition connect_servers ::
    "string ptr \<Rightarrow> (string \<Rightarrow> string list) \<Rightarrow> (nat \<Rightarrow> net_env) \<Rightarrow> thread list \<Rightarrow> thread \<Rightarrow> world \<Rightarrow> ((thread \<times> world) ends) ub" where
  "connect_servers path listing env threads thr w =
     do {
       maildir \<leftarrow> read_maildir_servers (wd_fs w) listing (init_maildir (wd_fs w) path);
       m \<leftarrow> maildir;
       servers_loop env threads 0 0 (take (mm_servers_size m) (mm_servers m)) thr w
     }"

section \<open>The loop of a thread\<close>

text \<open>
  What \<open>pselect\<close> does: it fails, it times out, or some sockets of the sets below \<open>fdmax\<close> are ready.
  The sets are emptied by a timeout.
\<close>

datatype selected = SelectError | SelectTimeout | SelectReady "int set" "int set"

text \<open>One turn of the loop after the test of the signal; \<open>None\<close> next to the world when the loop is left.\<close>

definition thread_turn ::
    "string ptr \<Rightarrow> (string \<Rightarrow> string list) \<Rightarrow> (nat \<Rightarrow> net_env) \<Rightarrow> (nat \<Rightarrow> io) \<Rightarrow> selected \<Rightarrow> thread list \<Rightarrow> thread \<Rightarrow> world
      \<Rightarrow> ((thread option \<times> world) ends) ub" where
  "thread_turn path listing env e sel threads thr w =
     do {
       thr1 \<leftarrow> reset_socket_to_context thr;
       r \<leftarrow> (case sel of
               SelectError \<Rightarrow> Some (Goes (NULL, w))
             | SelectTimeout \<Rightarrow>
                 do {
                   a \<leftarrow> connect_servers path listing env threads (thr1\<lparr>th_read_fds := {}, th_write_fds := {}\<rparr>) w;
                   Some (case a of Exited \<Rightarrow> Exited | Blocked \<Rightarrow> Blocked | Goes (t, w1) \<Rightarrow> Goes (Some t, w1))
                 }
             | SelectReady R W \<Rightarrow>
                 do {
                   let below = (\<lambda>S. S \<inter> {s \<in> th_master thr1. s < th_fdmax thr1});
                   a \<leftarrow> round_loop e 0 (thr1\<lparr>th_read_fds := below R, th_write_fds := below W\<rparr>) w;
                   Some (case a of Exited \<Rightarrow> Exited | Blocked \<Rightarrow> Blocked | Goes (t, w1) \<Rightarrow> Goes (Some t, w1))
                 });
       Some r
     }"

text \<open>The threads before they run, and a thread when it starts.\<close>

definition new_thread :: "nat \<Rightarrow> thread" where
  "new_thread i =
     \<lparr>th_master = {}, th_read_fds = {}, th_write_fds = {}, th_fdmax = 0, th_fd_size = 0, th_id_thread = i,
      th_multiplex_context = NULL, th_multiplex_context_size = 0, th_is_stopped = False\<rparr>"

definition init_context :: "nat \<Rightarrow> thread list" where
  "init_context threads = map new_thread [0..<threads]"

definition start_thread :: "bool \<Rightarrow> thread \<Rightarrow> thread" where
  "start_thread interrupted thr =
     (if interrupted then thr\<lparr>th_is_stopped := True\<rparr> else thr\<lparr>th_multiplex_context := Some [mc_new]\<rparr>)"

section \<open>A delivery, turn by turn\<close>

text \<open>What arrives on a socket is behind what waits there.\<close>

definition arrives :: "int \<Rightarrow> string \<Rightarrow> world \<Rightarrow> world" where
  "arrives s r w = w\<lparr>wd_input := (wd_input w)(s := wd_input w s @ r)\<rparr>"

definition readable :: "int \<Rightarrow> string \<Rightarrow> int set" where "readable s r = (if r = [] then {} else {s})"

text \<open>
  Turns of a thread, \<open>run\<close>, with one delivery: before each, a reply arrives and makes the socket
  readable, or nothing does; the socket can always be written.
\<close>

fun session_turns ::
    "(selected \<Rightarrow> thread \<Rightarrow> world \<Rightarrow> ((thread option \<times> world) ends) ub) \<Rightarrow> int \<Rightarrow> string list \<Rightarrow> thread \<Rightarrow> world
      \<Rightarrow> ((thread option \<times> world) ends) ub" where
  "session_turns run s [] thr w = Some (Goes (Some thr, w))"
| "session_turns run s (r # rs) thr w =
     (case run (SelectReady (readable s r) {s}) thr (arrives s r w) of
        Some (Goes (Some t, w1)) \<Rightarrow> session_turns run s rs t w1
      | x \<Rightarrow> x)"

text \<open>A reply of three digits, a blank and a text.\<close>

definition reply_line :: "nat \<Rightarrow> string \<Rightarrow> string" where
  "reply_line code t =
     map digit_char [code div 100, code div 10 mod 10, code mod 10] @ CHR '' '' # t @ [CHR 0x0D, CHR 0x0A]"

definition is_reply :: "nat \<Rightarrow> string \<Rightarrow> bool" where
  "is_reply code r \<longleftrightarrow> code < 1000 \<and> (\<exists>t. r = reply_line code t \<and> c_string t \<and> CHR 0x0A \<notin> set t \<and> CHR 0x0D \<notin> set t)"

definition good_reply :: "string \<Rightarrow> bool" where
  "good_reply r \<longleftrightarrow> (\<exists>code. 200 \<le> code \<and> code < 400 \<and> is_reply code r)"

text \<open>The requests of a delivery, in their order.\<close>

definition script :: "string \<Rightarrow> string \<Rightarrow> string list \<Rightarrow> string list \<Rightarrow> string list" where
  "script hostname f rs ls =
     [crlf_line (''HELO '' @ hostname), crlf_line (''MAIL from:<'' @ f @ ''>'')]
     @ map (\<lambda>r. crlf_line (''RCPT to:<'' @ r @ ''>'')) rs
     @ [crlf_line ''DATA''] @ ls @ [[CHR 0x0D, CHR 0x0A] @ crlf_line ''.'']"

text \<open>
  The only delivery of a thread: its state, last status and number, what was sent, and the files. Its
  message is chosen already, or is the first one of its server.
\<close>

definition delivering ::
    "int \<Rightarrow> maildir_other_server \<Rightarrow> message \<Rightarrow> state_code \<Rightarrow> status_code \<Rightarrow> int \<Rightarrow> string \<Rightarrow> fs \<Rightarrow> thread \<times> world \<Rightarrow> bool" where
  "delivering s server m st status it out fs = (\<lambda>(thr, w).
     \<exists>c. th_multiplex_context thr = Some [c] \<and> th_multiplex_context_size thr = 1 \<and> th_fdmax thr = s + 1
       \<and> mc_smtp_context c = \<lparr>sc_socket_desc = s, sc_state_code = st\<rparr> \<and> sr_status_code (mc_response c) = status
       \<and> mc_server c = server \<and> \<not> mc_server_freed c \<and> mc_iteration c = it
       \<and> (mc_select_message c = Some m \<or> mc_select_message c = NULL \<and> get_first_message fs (Some server) = Some (Some m))
       \<and> wd_input w s = [] \<and> wd_output w s = out \<and> wd_fs w = fs)"

lemma get_response_reply:
  assumes "is_reply code r" "io_stack e = [] \<or> hd (io_stack e) \<notin> set digits"
    "s \<in> th_read_fds thr" "fd_in_range s" "sc_socket_desc (mc_smtp_context c) = s" "wd_input w s = r"
  shows "get_response_to_context e c thr w = Some (Goes (of_nat code, w\<lparr>wd_input := (wd_input w)(s := [])\<rparr>))"
proof -
  obtain t where t: "r = reply_line code t" "c_string t" "CHR 0x0A \<notin> set t" "CHR 0x0D \<notin> set t" and c: "code < 1000"
    using assms(1) by (auto simp: is_reply_def)
  have d: "code div 100 < 10" "code div 10 mod 10 < 10" "code mod 10 < 10" using c by auto
  have "10 * (code div 10) + code mod 10 = code" "10 * (code div 10 div 10) + code div 10 mod 10 = code div 10"
    by (rule mult_div_mod_eq)+
  moreover have "code div 10 div 10 = code div 100" by (simp add: div_mult2_eq [symmetric])
  ultimately have v: "100 * (code div 100) + 10 * (code div 10 mod 10) + code mod 10 = code" by linarith
  have "get_smtp_response (io_stack e) (reply_line code t) = Some (Response \<lparr>sr_status_code = of_nat code, sr_message = Some t\<rparr> [])"
    using get_reply_run [OF d t(2-4) assms(2), of "[]"] unfolding v reply_line_def append_Nil2 .
  then show ?thesis
    using assms t(1) by (simp add: get_response_to_context_def is_ready_for_read_def FD_ISSET_def)
qed

lemma get_response_none:
  assumes "s \<notin> th_read_fds thr" "fd_in_range s" "sc_socket_desc (mc_smtp_context c) = s"
  shows "get_response_to_context e c thr w = Some (Goes (sr_status_code (mc_response c), w))"
  using assms by (simp add: get_response_to_context_def is_ready_for_read_def FD_ISSET_def)
lemma reply_line_nonempty [simp]: "reply_line code t \<noteq> []" "[] \<noteq> reply_line code t"
  by (simp_all add: reply_line_def)

text \<open>The status that a turn sees: that of the reply, or the last one.\<close>

definition answers :: "string \<Rightarrow> status_code \<Rightarrow> status_code \<Rightarrow> bool" where
  "answers r status code \<longleftrightarrow> r = [] \<and> code = status \<or> (\<exists>n. code = of_nat n \<and> is_reply n r)"

text \<open>The thread after a \<open>pselect\<close> in which its only socket can be written, and perhaps read.\<close>

definition selected_thread :: "int \<Rightarrow> string \<Rightarrow> thread \<Rightarrow> thread" where
  "selected_thread s r thr =
     thr\<lparr>th_master := {s}, th_read_fds := readable s r, th_write_fds := {s}\<rparr>"

lemma answers_response:
  assumes "answers r (sr_status_code (mc_response c)) code" "io_stack e = [] \<or> hd (io_stack e) \<notin> set digits"
    "fd_in_range s" "sc_socket_desc (mc_smtp_context c) = s" "wd_input w s = []"
  shows "get_response_to_context e c (selected_thread s r thr) (arrives s r w) = Some (Goes (code, w\<lparr>wd_input := (wd_input w)(s := [])\<rparr>))"
proof (cases "r = []")
  case True
  then have "code = sr_status_code (mc_response c)" using assms(1) by (auto simp: answers_def is_reply_def)
  moreover have "arrives s r w = w\<lparr>wd_input := (wd_input w)(s := [])\<rparr>" using True assms(5) by (simp add: arrives_def)
  ultimately show ?thesis using get_response_none [of s "selected_thread s r thr" c e] assms(3,4) True by (simp add: selected_thread_def readable_def)
next
  case False
  then obtain n where n: "code = of_nat n" "is_reply n r" using assms(1) by (auto simp: answers_def)
  show ?thesis
    using get_response_reply [OF n(2) assms(2) _ assms(3,4), of "selected_thread s r thr" "arrives s r w"] False assms(5) n(1)
    by (simp add: selected_thread_def readable_def arrives_def)
qed

lemma turn_run:
  assumes "th_multiplex_context thr = Some [c]" "th_multiplex_context_size thr = 1" "th_fdmax thr = s + 1" "fd_in_range s"
    "sc_socket_desc (mc_smtp_context c) = s" "\<not> mc_server_freed c"
    "mc_select_message c = Some m \<or> mc_select_message c = NULL \<and> get_first_message (wd_fs w) (Some (mc_server c)) = Some (Some m)"
    "state_handler (sc_state_code (mc_smtp_context c)) (e 0) 0
       ((selected_thread s r thr)\<lparr>th_multiplex_context := Some [c\<lparr>mc_select_message := Some m\<rparr>]\<rparr>) w = Some (Goes (t, w1))"
  shows "thread_turn path listing env e (SelectReady (readable s r) {s}) threads thr w = Some (Goes (Some t, w1))"
proof -
  have c: "ctx_at thr 0 = Some c" "ctx_at (selected_thread s r thr) 0 = Some c"
    using assms(1) by (simp_all add: ctx_at_def arr_get_def selected_thread_def)
  have r: "reset_socket_to_context thr = Some (thr\<lparr>th_master := {s}, th_read_fds := {s}, th_write_fds := {s}\<rparr>)"
    using assms(2,4,5) c(1) by (simp add: reset_socket_to_context_def FD_SET_def)
  have "set_ctx (selected_thread s r thr) 0 (c\<lparr>mc_select_message := Some m\<rparr>)
      = Some ((selected_thread s r thr)\<lparr>th_multiplex_context := Some [c\<lparr>mc_select_message := Some m\<rparr>]\<rparr>)"
    using assms(1) by (simp add: set_ctx_def arr_set_def selected_thread_def)
  moreover have "(selected_thread s r thr)\<lparr>th_multiplex_context := Some [c\<lparr>mc_select_message := Some m\<rparr>]\<rparr> = selected_thread s r thr"
    if "mc_select_message c = Some m" using assms(1) that by (simp add: selected_thread_def)
  ultimately have step: "round_step (e 0) 0 (selected_thread s r thr) w = Some (Goes (t, w1))"
    using assms(6-8) c(2) by (cases "mc_select_message c") (simp_all add: round_step_def)
  have "th_multiplex_context_size t \<le> 1" using round_step_size [OF step] assms(2) by (simp add: selected_thread_def)
  then have "round_loop e 0 (selected_thread s r thr) w = Some (Goes (t, w1))"
    using step assms(2) by (simp add: round_loop.simps [of e 0] round_loop.simps [of e "Suc 0"] selected_thread_def)
  moreover have "thr\<lparr>th_master := {s}, th_read_fds := readable s r \<inter> {x. x = s \<and> x < th_fdmax thr},
      th_write_fds := {s} \<inter> {x. x = s \<and> x < th_fdmax thr}\<rparr> = selected_thread s r thr"
    using assms(3) by (auto simp: selected_thread_def readable_def)
  ultimately show ?thesis using r by (simp add: thread_turn_def)
qed

text \<open>A turn in which a handler takes the branch of a success and sends one request.\<close>

definition session ::
    "(selected \<Rightarrow> thread \<Rightarrow> world \<Rightarrow> ((thread option \<times> world) ends) ub) \<Rightarrow> int \<Rightarrow> (thread \<times> world \<Rightarrow> bool) \<Rightarrow> string list
      \<Rightarrow> (thread \<times> world \<Rightarrow> bool) \<Rightarrow> bool" where
  "session run s P rs Q \<longleftrightarrow>
     (\<forall>thr w. P (thr, w) \<longrightarrow> (\<exists>t w1. session_turns run s rs thr w = Some (Goes (Some t, w1)) \<and> Q (t, w1)))"

lemma session_append:
  assumes "session run s P rs Q" "session run s Q rs' R"
  shows "session run s P (rs @ rs') R"
proof -
  have app: "session_turns run s rs thr w = Some (Goes (Some t, w1)) \<Longrightarrow> session_turns run s (rs @ rs') thr w = session_turns run s rs' t w1"
    for thr w t w1
    by (induction run s rs thr w rule: session_turns.induct) (auto split: option.splits ends.splits prod.splits)
  show ?thesis unfolding session_def
  proof (intro allI impI)
    fix thr w assume "P (thr, w)"
    then obtain t w1 where 1: "session_turns run s rs thr w = Some (Goes (Some t, w1))" "Q (t, w1)" using assms(1) unfolding session_def by blast
    then obtain u w2 where 2: "session_turns run s rs' t w1 = Some (Goes (Some u, w2))" "R (u, w2)" using assms(2) unfolding session_def by blast
    show "\<exists>u w2. session_turns run s (rs @ rs') thr w = Some (Goes (Some u, w2)) \<and> R (u, w2)" using app [OF 1(1)] 2 by auto
  qed
qed

lemma request_turn:
  assumes "fd_in_range s" "io_stack e = [] \<or> hd (io_stack e) \<notin> set digits"
    "answers r status code" "\<not> skip code status" "good code"
    "\<And>thr w. state_handler st e 0 thr w = on_reply skip good (success thr) e 0 thr w"
    "\<And>thr c w. mc_smtp_context c = \<lparr>sc_socket_desc = s, sc_state_code = st\<rparr> \<Longrightarrow> mc_select_message c = Some m \<Longrightarrow> s \<in> th_write_fds thr \<Longrightarrow>
       success thr c w = do { (c1, w1) \<leftarrow> send c w; t \<leftarrow> set_ctx thr 0 c1; Some (Goes (t, w1)) }"
    "\<And>c w. mc_smtp_context c = \<lparr>sc_socket_desc = s, sc_state_code = st\<rparr> \<Longrightarrow> mc_select_message c = Some m \<Longrightarrow> mc_iteration c = it \<Longrightarrow>
       sr_status_code (mc_response c) = code \<Longrightarrow>
       \<exists>c1. send c w = Some (c1, w\<lparr>wd_output := (wd_output w)(s := wd_output w s @ str)\<rparr>) \<and>
         mc_smtp_context c1 = \<lparr>sc_socket_desc = s, sc_state_code = st'\<rparr> \<and> sr_status_code (mc_response c1) = status' \<and>
         mc_server c1 = mc_server c \<and> mc_server_freed c1 = mc_server_freed c \<and> mc_select_message c1 = Some m \<and> mc_iteration c1 = it'"
  shows "session (\<lambda>sel. thread_turn path listing env (\<lambda>_. e) sel threads) s
    (delivering s server m st status it out fs) [r] (delivering s server m st' status' it' (out @ str) fs)"
  unfolding session_def
proof (intro allI impI)
  fix thr w assume "delivering s server m st status it out fs (thr, w)"
  then obtain c where c: "th_multiplex_context thr = Some [c]" "th_multiplex_context_size thr = 1" "th_fdmax thr = s + 1"
    "mc_smtp_context c = \<lparr>sc_socket_desc = s, sc_state_code = st\<rparr>" "sr_status_code (mc_response c) = status"
    "mc_server c = server" "\<not> mc_server_freed c" "mc_iteration c = it"
    "mc_select_message c = Some m \<or> mc_select_message c = NULL \<and> get_first_message fs (Some server) = Some (Some m)"
    "wd_input w s = []" "wd_output w s = out" "wd_fs w = fs"
    by (auto simp: delivering_def)
  let ?w = "w\<lparr>wd_input := (wd_input w)(s := [])\<rparr>" and ?d = "c\<lparr>mc_select_message := Some m\<rparr>"
  let ?c = "put_status code ?d" and ?thr = "(selected_thread s r thr)\<lparr>th_multiplex_context := Some [?d]\<rparr>"
  have p: "mc_smtp_context ?c = \<lparr>sc_socket_desc = s, sc_state_code = st\<rparr>" "mc_select_message ?c = Some m" "mc_iteration ?c = it"
    "sr_status_code (mc_response ?c) = code" "mc_server ?c = server" "\<not> mc_server_freed ?c"
    using c by (simp_all add: put_status_def)
  obtain c1 where c1: "send ?c ?w = Some (c1, ?w\<lparr>wd_output := (wd_output ?w)(s := wd_output ?w s @ str)\<rparr>)"
      "mc_smtp_context c1 = \<lparr>sc_socket_desc = s, sc_state_code = st'\<rparr>" "sr_status_code (mc_response c1) = status'"
      "mc_server c1 = server" "\<not> mc_server_freed c1" "mc_select_message c1 = Some m" "mc_iteration c1 = it'"
    using assms(8) [OF p(1-4), of ?w] p(5,6) by auto
  let ?t = "?thr\<lparr>th_multiplex_context := Some [c1]\<rparr>" and ?w1 = "?w\<lparr>wd_output := (wd_output ?w)(s := wd_output ?w s @ str)\<rparr>"
  have set: "set_ctx ?thr 0 c1 = Some ?t" by (simp add: set_ctx_def arr_set_def)
  have "?thr = selected_thread s r (thr\<lparr>th_multiplex_context := Some [?d]\<rparr>)" by (simp add: selected_thread_def)
  then have g: "get_response_to_context e ?d ?thr (arrives s r w) = Some (Goes (code, ?w))"
    using answers_response [of r ?d code e s w "thr\<lparr>th_multiplex_context := Some [?d]\<rparr>"] assms(1-3) c(4,5,10) by simp
  have "ctx_at ?thr 0 = Some ?d" by (simp add: ctx_at_def arr_get_def)
  moreover have "s \<in> th_write_fds ?thr" by (simp add: selected_thread_def)
  ultimately have "state_handler st e 0 ?thr (arrives s r w) = Some (Goes (?t, ?w1))"
    using assms(4-6) assms(7) [OF p(1,2), of ?thr ?w] g set c1(1) c(5) by (simp add: on_reply_def)
  then have "thread_turn path listing env (\<lambda>_. e) (SelectReady (readable s r) {s}) threads thr (arrives s r w)
      = Some (Goes (Some ?t, ?w1))"
    using c by (intro turn_run [OF c(1-3) assms(1)]) (simp_all add: arrives_def)
  moreover have "delivering s server m st' status' it' (out @ str) fs (?t, ?w1)"
    using c c1 by (simp add: delivering_def selected_thread_def)
  ultimately show "\<exists>t w1. session_turns (\<lambda>sel. thread_turn path listing env (\<lambda>_. e) sel threads) s [r] thr w = Some (Goes (Some t, w1))
      \<and> delivering s server m st' status' it' (out @ str) fs (t, w1)"
    by simp
qed

lemma smtp_send_all:
  assumes "str \<noteq> []" "length str \<le> K"
  shows "send_smtp_request [SentBytes K] c str = (c, sc_state_code c, str)"
    "sc_state_code c \<noteq> SMTP_INVALID \<Longrightarrow> smtp_send next str [SentBytes K] c = (c\<lparr>sc_state_code := next\<rparr>, str)"
proof -
  have "send_line [SentBytes K] str (length str) = (1, str)" using assms by (cases "length str") simp_all
  then show "send_smtp_request [SentBytes K] c str = (c, sc_state_code c, str)"
    "sc_state_code c \<noteq> SMTP_INVALID \<Longrightarrow> smtp_send next str [SentBytes K] c = (c\<lparr>sc_state_code := next\<rparr>, str)"
    by (simp_all add: smtp_send_def send_smtp_request_def)
qed

lemma sender_ready:
  assumes "mc_smtp_context c = \<lparr>sc_socket_desc = s, sc_state_code = st\<rparr>" "fd_in_range s" "s \<in> th_write_fds thr"
  shows "when_sender_ready i thr f c w = do { (c1, w1) \<leftarrow> f c w; t \<leftarrow> set_ctx thr i c1; Some (Goes (t, w1)) }"
  using assms by (simp add: when_sender_ready_def is_smtp_sender_ready_def is_ready_for_write_def FD_ISSET_def)

lemma good_reply_answers:
  assumes "good_reply r"
  obtains code where "answers r status code" "is_smtp_success code" "code \<noteq> NOT_ANSWER" "r \<noteq> []"
proof -
  obtain n where n: "200 \<le> n" "n < 400" "is_reply n r" using assms by (auto simp: good_reply_def)
  have "unat (of_nat n :: 32 word) = n" using n(2) by (simp add: unat_of_nat)
  then have "is_smtp_success (of_nat n)" "(of_nat n :: 32 word) \<noteq> NOT_ANSWER"
    using n(1,2) by (simp_all add: success_iff word_less_nat_alt word_le_nat_alt word_unat_eq_iff NOT_ANSWER_def)
  then show thesis using n(3) by (intro that [of "of_nat n"]) (auto simp: answers_def is_reply_def)
qed

text \<open>The environment of the turns: all is sent at once, and no digit is behind the code of a reply.\<close>

definition sends_all :: "io \<Rightarrow> string list \<Rightarrow> bool" where
  "sends_all e strs \<longleftrightarrow>
     (\<exists>K. io_send e = [SentBytes K] \<and> (\<forall>str\<in>set strs. length str \<le> K)) \<and> (io_stack e = [] \<or> hd (io_stack e) \<notin> set digits)"

lemma state_handler_simps:
  "state_handler SMTP_CONNECT e i thr w = connect_handler e i thr w" "state_handler SMTP_HELO e i thr w = helo_handler e i thr w"
  "state_handler SMTP_MAIL e i thr w = mail_handler e i thr w" "state_handler SMTP_RCPT e i thr w = rcpt_handler e i thr w"
  "state_handler SMTP_DATA e i thr w = data_handler e i thr w" "state_handler SMTP_MESSAGE e i thr w = message_handler e i thr w"
  "state_handler SMTP_END_MESSAGE e i thr w = end_message_handler e i thr w"
  by (simp_all add: state_handler_def)

lemmas handler_branches =
  state_handler_simps(1) [THEN trans, OF connect_handler_def] state_handler_simps(2) [THEN trans, OF helo_handler_def]
  state_handler_simps(3) [THEN trans, OF mail_handler_def] state_handler_simps(4) [THEN trans, OF rcpt_handler_def]
  state_handler_simps(5) [THEN trans, OF data_handler_def] state_handler_simps(6) [THEN trans, OF message_handler_def]
  state_handler_simps(7) [THEN trans, OF end_message_handler_def]

lemma connect_turn:
  assumes "fd_in_range s" "sends_all e strs" "crlf_line (''HELO '' @ io_hostname e) \<in> set strs" "good_reply r"
  shows "session (\<lambda>sel. thread_turn path listing env (\<lambda>_. e) sel threads) s
    (delivering s server m SMTP_CONNECT NOT_ANSWER it out fs) [r]
    (delivering s server m SMTP_HELO NOT_ANSWER it (out @ crlf_line (''HELO '' @ io_hostname e)) fs)"
proof -
  obtain K where K: "io_send e = [SentBytes K]" "length (crlf_line (''HELO '' @ io_hostname e)) \<le> K"
    "io_stack e = [] \<or> hd (io_stack e) \<notin> set digits" using assms(2,3) by (auto simp: sends_all_def)
  obtain code where code: "answers r NOT_ANSWER code" "is_smtp_success code" "code \<noteq> NOT_ANSWER" "r \<noteq> []"
    using assms(4) by (rule good_reply_answers)
  have ne: "crlf_line (''HELO '' @ io_hostname e) \<noteq> []" by (simp add: crlf_line_def)
  show ?thesis
    by (rule request_turn [OF assms(1) K(3) code(1) _ code(2) handler_branches(1) sender_ready [OF _ assms(1)]])
      (use code K smtp_send_all(2) [OF ne K(2)] in \<open>auto simp: state_handler_def smtp_send_helo_def sent_on_def no_answer_def\<close>)
qed

lemma helo_turn:
  assumes "fd_in_range s" "sends_all e strs" "crlf_line (''MAIL from:<'' @ f @ ''>'') \<in> set strs" "good_reply r" "ms_from m = Some f"
  shows "session (\<lambda>sel. thread_turn path listing env (\<lambda>_. e) sel threads) s
    (delivering s server m SMTP_HELO status it out fs) [r]
    (delivering s server m SMTP_MAIL NOT_ANSWER (it + 1) (out @ crlf_line (''MAIL from:<'' @ f @ ''>'')) fs)"
proof -
  obtain K where K: "io_send e = [SentBytes K]" "length (crlf_line (''MAIL from:<'' @ f @ ''>'')) \<le> K"
    "io_stack e = [] \<or> hd (io_stack e) \<notin> set digits" using assms(2,3) by (auto simp: sends_all_def)
  obtain code where code: "answers r status code" "is_smtp_success code" "code \<noteq> NOT_ANSWER" "r \<noteq> []"
    using assms(4) by (rule good_reply_answers)
  have ne: "crlf_line (''MAIL from:<'' @ f @ ''>'') \<noteq> []" by (simp add: crlf_line_def)
  show ?thesis
    by (rule request_turn [OF assms(1) K(3) code(1) _ code(2) handler_branches(2) sender_ready [OF _ assms(1)]])
      (use code K smtp_send_all(2) [OF ne K(2)] assms(5) in \<open>auto simp: smtp_send_mail_def sent_on_def no_answer_def\<close>)
qed

lemma mail_turn:
  assumes "fd_in_range s" "sends_all e strs" "crlf_line (''RCPT to:<'' @ hd (ms_to m) @ ''>'') \<in> set strs" "good_reply r" "ms_to m \<noteq> []"
  shows "session (\<lambda>sel. thread_turn path listing env (\<lambda>_. e) sel threads) s
    (delivering s server m SMTP_MAIL status it out fs) [r]
    (delivering s server m SMTP_RCPT NOT_ANSWER 1 (out @ crlf_line (''RCPT to:<'' @ hd (ms_to m) @ ''>'')) fs)"
proof -
  obtain K where K: "io_send e = [SentBytes K]" "length (crlf_line (''RCPT to:<'' @ hd (ms_to m) @ ''>'')) \<le> K"
    "io_stack e = [] \<or> hd (io_stack e) \<notin> set digits" using assms(2,3) by (auto simp: sends_all_def)
  obtain code where code: "answers r status code" "is_smtp_success code" "code \<noteq> NOT_ANSWER" "r \<noteq> []"
    using assms(4) by (rule good_reply_answers)
  have ne: "crlf_line (''RCPT to:<'' @ hd (ms_to m) @ ''>'') \<noteq> []" by (simp add: crlf_line_def)
  have h: "arr_get (ms_to m) 0 = Some (hd (ms_to m))" using assms(5) by (cases "ms_to m") (simp_all add: arr_get_def)
  show ?thesis
    by (rule request_turn [OF assms(1) K(3) code(1) _ code(2) handler_branches(3) sender_ready [OF _ assms(1)]])
      (use code K smtp_send_all(2) [OF ne K(2)] h in \<open>auto simp: smtp_send_rcpt_def sent_on_def no_answer_def\<close>)
qed

lemma rcpt_turn:
  assumes "fd_in_range s" "sends_all e strs" "crlf_line (''RCPT to:<'' @ ms_to m ! k @ ''>'') \<in> set strs" "good_reply r"
    "k < length (ms_to m)" "ms_to_size m = length (ms_to m)"
  shows "session (\<lambda>sel. thread_turn path listing env (\<lambda>_. e) sel threads) s
    (delivering s server m SMTP_RCPT status (int k) out fs) [r]
    (delivering s server m SMTP_RCPT NOT_ANSWER (int (Suc k)) (out @ crlf_line (''RCPT to:<'' @ ms_to m ! k @ ''>'')) fs)"
proof -
  obtain K where K: "io_send e = [SentBytes K]" "length (crlf_line (''RCPT to:<'' @ ms_to m ! k @ ''>'')) \<le> K"
    "io_stack e = [] \<or> hd (io_stack e) \<notin> set digits" using assms(2,3) by (auto simp: sends_all_def)
  obtain code where code: "answers r status code" "is_smtp_success code" "code \<noteq> NOT_ANSWER" "r \<noteq> []"
    using assms(4) by (rule good_reply_answers)
  have good: "is_smtp_success code \<or> code = SMTP_USER_MAILBOX_WAS_UNAVAILABLE" using code(2) ..
  have ne: "crlf_line (''RCPT to:<'' @ ms_to m ! k @ ''>'') \<noteq> []" by (simp add: crlf_line_def)
  show ?thesis
    by (rule request_turn [OF assms(1) K(3) code(1) _ good handler_branches(4) sender_ready [OF _ assms(1)]])
      (use code K smtp_send_all(2) [OF ne K(2)] arr_get_nat [OF assms(5)] assms(5,6) in
        \<open>auto simp: smtp_send_rcpt_def sent_on_def no_answer_def\<close>)
qed

lemma rcpt_end_turn:
  assumes "fd_in_range s" "sends_all e strs" "crlf_line ''DATA'' \<in> set strs" "good_reply r" "ms_to_size m = length (ms_to m)"
  shows "session (\<lambda>sel. thread_turn path listing env (\<lambda>_. e) sel threads) s
    (delivering s server m SMTP_RCPT status (int (length (ms_to m))) out fs) [r]
    (delivering s server m SMTP_DATA NOT_ANSWER 0 (out @ crlf_line ''DATA'') fs)"
proof -
  obtain K where K: "io_send e = [SentBytes K]" "length (crlf_line ''DATA'') \<le> K"
    "io_stack e = [] \<or> hd (io_stack e) \<notin> set digits" using assms(2,3) unfolding sends_all_def by blast
  obtain code where code: "answers r status code" "is_smtp_success code" "code \<noteq> NOT_ANSWER" "r \<noteq> []"
    using assms(4) by (rule good_reply_answers)
  have good: "is_smtp_success code \<or> code = SMTP_USER_MAILBOX_WAS_UNAVAILABLE" using code(2) ..
  have ne: "crlf_line ''DATA'' \<noteq> []" by (simp add: crlf_line_def)
  show ?thesis
    by (rule request_turn [OF assms(1) K(3) code(1) _ good handler_branches(4) sender_ready [OF _ assms(1)]])
      (use code K smtp_send_all(2) [OF ne K(2)] assms(5) in \<open>auto simp: smtp_send_data_def sent_on_def no_answer_def\<close>)
qed

text \<open>A line of the text that can be logged: not a line end alone.\<close>

lemma cut_twice: "file_line l \<Longrightarrow> l \<noteq> [CHR 0x0A] \<Longrightarrow> \<exists>x. Option.bind (cut_end l) cut_end = Some x"
  by (auto simp: file_line_def cut_end_def)

lemma send_text_line_run:
  assumes "io_send e = [SentBytes K]" "length (ms_strings m ! k) \<le> K" "file_line (ms_strings m ! k)" "ms_strings m ! k \<noteq> [CHR 0x0A]"
    "k < length (ms_strings m)" "mc_select_message c = Some m" "mc_iteration c = int k"
    "mc_smtp_context c = \<lparr>sc_socket_desc = s, sc_state_code = st\<rparr>" "st \<noteq> SMTP_INVALID"
  shows "send_text_line e c w = Some (c\<lparr>mc_smtp_context := \<lparr>sc_socket_desc = s, sc_state_code = SMTP_MESSAGE\<rparr>, mc_iteration := int (Suc k)\<rparr>,
     w\<lparr>wd_output := (wd_output w)(s := wd_output w s @ ms_strings m ! k)\<rparr>)"
proof -
  have ne: "ms_strings m ! k \<noteq> []" using assms(3) by (auto simp: file_line_def)
  obtain a b where "cut_end (ms_strings m ! k) = Some a" "cut_end a = Some b"
    using cut_twice [OF assms(3,4)] by (auto simp: bind_eq_Some_conv)
  then have "smtp_send_message (ms_strings m ! k) (io_send e) (mc_smtp_context c)
      = Some (\<lparr>sc_socket_desc = s, sc_state_code = SMTP_MESSAGE\<rparr>, ms_strings m ! k)"
    using smtp_send_all(1) [OF ne assms(2)] assms(1,8,9) by (simp add: smtp_send_message_def)
  then show ?thesis
    using arr_get_nat [OF assms(5)] assms(6-8) by (simp add: send_text_line_def sent_on_def)
qed

lemma data_turn:
  assumes "fd_in_range s" "sends_all e strs" "ms_strings m ! 0 \<in> set strs" "good_reply r"
    "ms_strings m \<noteq> []" "file_line (ms_strings m ! 0)" "ms_strings m ! 0 \<noteq> [CHR 0x0A]"
  obtains code where "is_smtp_success code" "code \<noteq> NOT_ANSWER"
    "session (\<lambda>sel. thread_turn path listing env (\<lambda>_. e) sel threads) s
      (delivering s server m SMTP_DATA status 0 out fs) [r]
      (delivering s server m SMTP_MESSAGE code 1 (out @ ms_strings m ! 0) fs)"
proof -
  obtain K where K: "io_send e = [SentBytes K]" "length (ms_strings m ! 0) \<le> K"
    "io_stack e = [] \<or> hd (io_stack e) \<notin> set digits" using assms(2,3) by (auto simp: sends_all_def)
  obtain code where code: "answers r status code" "is_smtp_success code" "code \<noteq> NOT_ANSWER" "r \<noteq> []"
    using assms(4) by (rule good_reply_answers)
  have "0 < length (ms_strings m)" using assms(5) by simp
  from send_text_line_run [OF K(1,2) assms(6,7) this] have send:
    "send_text_line e c w = Some (c\<lparr>mc_smtp_context := \<lparr>sc_socket_desc = s, sc_state_code = SMTP_MESSAGE\<rparr>, mc_iteration := 1\<rparr>,
      w\<lparr>wd_output := (wd_output w)(s := wd_output w s @ ms_strings m ! 0)\<rparr>)"
    if "mc_smtp_context c = \<lparr>sc_socket_desc = s, sc_state_code = SMTP_DATA\<rparr>" "mc_select_message c = Some m" "mc_iteration c = 0" for c w
    using that by simp
  show thesis
    by (rule that [OF code(2,3)], rule request_turn [OF assms(1) K(3) code(1) _ code(2) handler_branches(5) sender_ready [OF _ assms(1)]])
      (use code send in auto)
qed

lemma message_turn:
  assumes "fd_in_range s" "sends_all e strs" "ms_strings m ! k \<in> set strs" "is_smtp_success code" "code \<noteq> NOT_ANSWER"
    "k < length (ms_strings m)" "ms_strings_size m = length (ms_strings m)" "file_line (ms_strings m ! k)" "ms_strings m ! k \<noteq> [CHR 0x0A]"
  shows "session (\<lambda>sel. thread_turn path listing env (\<lambda>_. e) sel threads) s
    (delivering s server m SMTP_MESSAGE code (int k) out fs) [[]]
    (delivering s server m SMTP_MESSAGE code (int (Suc k)) (out @ ms_strings m ! k) fs)"
proof -
  obtain K where K: "io_send e = [SentBytes K]" "length (ms_strings m ! k) \<le> K"
    "io_stack e = [] \<or> hd (io_stack e) \<notin> set digits" using assms(2,3) by (auto simp: sends_all_def)
  have a: "answers [] code code" by (simp add: answers_def)
  note send = send_text_line_run [OF K(1,2) assms(8,9,6)]
  show ?thesis
    by (rule request_turn [OF assms(1) K(3) a _ assms(4) handler_branches(6), where send =
          "\<lambda>c w. if mc_iteration c < int (ms_strings_size m) then send_text_line e c w
             else Some (sent_on ((no_answer c)\<lparr>mc_iteration := 0\<rparr>) (smtp_send_end_message (io_send e) (mc_smtp_context c)) w)"])
      (use assms(5-7) send in auto)
qed

lemma message_end_turn:
  assumes "fd_in_range s" "sends_all e strs" "[CHR 0x0D, CHR 0x0A] @ crlf_line ''.'' \<in> set strs" "is_smtp_success code" "code \<noteq> NOT_ANSWER"
    "ms_strings_size m = length (ms_strings m)"
  shows "session (\<lambda>sel. thread_turn path listing env (\<lambda>_. e) sel threads) s
    (delivering s server m SMTP_MESSAGE code (int (length (ms_strings m))) out fs) [[]]
    (delivering s server m SMTP_END_MESSAGE NOT_ANSWER 0 (out @ [CHR 0x0D, CHR 0x0A] @ crlf_line ''.'') fs)"
proof -
  obtain K where K: "io_send e = [SentBytes K]" "length ([CHR 0x0D, CHR 0x0A] @ crlf_line ''.'') \<le> K"
    "io_stack e = [] \<or> hd (io_stack e) \<notin> set digits" using assms(2,3) unfolding sends_all_def by blast
  have a: "answers [] code code" by (simp add: answers_def)
  have ne: "[CHR 0x0D, CHR 0x0A] @ crlf_line ''.'' \<noteq> []" by simp
  show ?thesis
    by (rule request_turn [OF assms(1) K(3) a _ assms(4) handler_branches(6), where send =
          "\<lambda>c w. if mc_iteration c < int (ms_strings_size m) then send_text_line e c w
             else Some (sent_on ((no_answer c)\<lparr>mc_iteration := 0\<rparr>) (smtp_send_end_message (io_send e) (mc_smtp_context c)) w)"])
      (use assms(5,6) K(1) smtp_send_all(2) [OF ne K(2)] in \<open>auto simp: smtp_send_end_message_def sent_on_def no_answer_def\<close>)
qed

lemma rcpts_turns:
  assumes "fd_in_range s" "sends_all e strs" "\<forall>x\<in>set (ms_to m). crlf_line (''RCPT to:<'' @ x @ ''>'') \<in> set strs" "crlf_line ''DATA'' \<in> set strs"
    "ms_to_size m = length (ms_to m)" "k \<le> length (ms_to m)" "length replies = Suc (length (ms_to m) - k)" "\<forall>r\<in>set replies. good_reply r"
  shows "session (\<lambda>sel. thread_turn path listing env (\<lambda>_. e) sel threads) s
    (delivering s server m SMTP_RCPT status (int k) out fs) replies
    (delivering s server m SMTP_DATA NOT_ANSWER 0
      (out @ concat (map (\<lambda>x. crlf_line (''RCPT to:<'' @ x @ ''>'')) (drop k (ms_to m))) @ crlf_line ''DATA'') fs)"
  using assms(6-8)
proof (induction replies arbitrary: k status out)
  case (Cons r replies)
  have r: "good_reply r" "\<forall>r\<in>set replies. good_reply r" using Cons.prems by simp_all
  show ?case
  proof (cases "k = length (ms_to m)")
    case True
    then show ?thesis using Cons.prems rcpt_end_turn [OF assms(1,2,4) r(1) assms(5)] by simp
  next
    case False
    then have k: "k < length (ms_to m)" using Cons.prems by simp
    have "crlf_line (''RCPT to:<'' @ ms_to m ! k @ ''>'') \<in> set strs" using assms(3) nth_mem [OF k] by blast
    note 1 = rcpt_turn [OF assms(1,2) this r(1) k assms(5)]
    have "Suc k \<le> length (ms_to m)" "length replies = Suc (length (ms_to m) - Suc k)" using k Cons.prems by simp_all
    note 2 = Cons.IH [OF this r(2)]
    from session_append [OF 1 2] show ?thesis unfolding Cons_nth_drop_Suc [OF k, symmetric] by simp
  qed
qed simp

lemma texts_turns:
  assumes "fd_in_range s" "sends_all e strs" "set (ms_strings m) \<subseteq> set strs" "[CHR 0x0D, CHR 0x0A] @ crlf_line ''.'' \<in> set strs"
    "is_smtp_success code" "code \<noteq> NOT_ANSWER" "ms_strings_size m = length (ms_strings m)"
    "\<forall>l\<in>set (ms_strings m). file_line l \<and> l \<noteq> [CHR 0x0A]" "k \<le> length (ms_strings m)" "n = Suc (length (ms_strings m) - k)"
  shows "session (\<lambda>sel. thread_turn path listing env (\<lambda>_. e) sel threads) s
    (delivering s server m SMTP_MESSAGE code (int k) out fs) (replicate n [])
    (delivering s server m SMTP_END_MESSAGE NOT_ANSWER 0
      (out @ concat (drop k (ms_strings m)) @ [CHR 0x0D, CHR 0x0A] @ crlf_line ''.'') fs)"
  using assms(9,10)
proof (induction n arbitrary: k out)
  case (Suc n)
  show ?case
  proof (cases "k = length (ms_strings m)")
    case True
    then show ?thesis using Suc.prems message_end_turn [OF assms(1,2,4-7)] by simp
  next
    case False
    then have k: "k < length (ms_strings m)" using Suc.prems by simp
    have "ms_strings m ! k \<in> set strs" "file_line (ms_strings m ! k)" "ms_strings m ! k \<noteq> [CHR 0x0A]"
      using assms(3,8) nth_mem [OF k] by auto
    note 1 = message_turn [OF assms(1,2) this(1) assms(5,6) k assms(7) this(2,3)]
    have "Suc k \<le> length (ms_strings m)" "n = Suc (length (ms_strings m) - Suc k)" using k Suc.prems by simp_all
    note 2 = Suc.IH [OF this]
    from session_append [OF 1 2] show ?thesis unfolding Cons_nth_drop_Suc [OF k, symmetric] by simp
  qed
qed simp

text \<open>The last turn: the file of the message is removed and the connection is left.\<close>

definition delivered :: "int \<Rightarrow> string \<Rightarrow> fs \<Rightarrow> thread \<times> world \<Rightarrow> bool" where
  "delivered s out fs = (\<lambda>(thr, w).
     th_multiplex_context_size thr = 0 \<and> s \<in> set (wd_closed w) \<and> wd_output w s = out \<and> wd_fs w = fs)"

lemma remove_message_file:
  assumes "ms_directory m = Some path" "os_message_full_file_names server = path # ps" "os_messages_size server = Suc (length ps)"
    "fs_nodes fs (resolve fs path) = Some (File content)" "strstr_found path DIRECTORY_OTHER_SERVERS"
  shows "remove_message_server fs server (Some m)
    = (set_node (resolve fs path) None fs, server\<lparr>os_message_full_file_names := ps, os_messages_size := length ps\<rparr>, True)"
  using assms by (simp add: remove_message_server_def stat_no_file_def posix_stat_isdir_def remove_run forget_name_def)

lemma remove_only_context:
  assumes "th_multiplex_context thr = Some [c]" "th_multiplex_context_size thr = 1" "fd_in_range (sc_socket_desc (mc_smtp_context c))"
    "\<not> mc_server_freed c"
  shows "\<exists>t. remove_multiplex_context 0 thr w = Some (t, w\<lparr>wd_closed := wd_closed w @ [sc_socket_desc (mc_smtp_context c)]\<rparr>)
    \<and> th_multiplex_context_size t = 0"
  using assms
  by (simp add: remove_multiplex_context_def remove_socket_from_context_def ctx_at_def arr_get_def move_down_def segment_def
      free_multiplex_context_def Let_def)

lemma end_turn:
  assumes "fd_in_range s" "sends_all e strs" "crlf_line ''QUIT'' \<in> set strs" "good_reply r"
    "ms_directory m = Some path" "os_message_full_file_names server = [path]" "os_messages_size server = 1"
    "fs_nodes fs (resolve fs path) = Some (File content)" "strstr_found path DIRECTORY_OTHER_SERVERS"
  shows "session (\<lambda>sel. thread_turn pth listing env (\<lambda>_. e) sel threads) s
    (delivering s server m SMTP_END_MESSAGE status it out fs) [r]
    (delivered s (out @ crlf_line ''QUIT'') (set_node (resolve fs path) None fs))"
  unfolding session_def
proof (intro allI impI)
  fix thr w assume "delivering s server m SMTP_END_MESSAGE status it out fs (thr, w)"
  then obtain c where c: "th_multiplex_context thr = Some [c]" "th_multiplex_context_size thr = 1" "th_fdmax thr = s + 1"
    "mc_smtp_context c = \<lparr>sc_socket_desc = s, sc_state_code = SMTP_END_MESSAGE\<rparr>" "sr_status_code (mc_response c) = status"
    "mc_server c = server" "\<not> mc_server_freed c" "mc_iteration c = it"
    "mc_select_message c = Some m \<or> mc_select_message c = NULL \<and> get_first_message fs (Some server) = Some (Some m)"
    "wd_input w s = []" "wd_output w s = out" "wd_fs w = fs"
    by (auto simp: delivering_def)
  obtain K where K: "io_send e = [SentBytes K]" "length (crlf_line ''QUIT'') \<le> K"
    "io_stack e = [] \<or> hd (io_stack e) \<notin> set digits" using assms(2,3) unfolding sends_all_def by blast
  obtain code where code: "answers r status code" "is_smtp_success code" "code \<noteq> NOT_ANSWER" "r \<noteq> []"
    using assms(4) by (rule good_reply_answers)
  let ?w = "w\<lparr>wd_input := (wd_input w)(s := [])\<rparr>" and ?d = "c\<lparr>mc_select_message := Some m\<rparr>"
  let ?thr = "(selected_thread s r thr)\<lparr>th_multiplex_context := Some [?d]\<rparr>"
  let ?fs = "set_node (resolve fs path) None fs" and ?server = "server\<lparr>os_message_full_file_names := [], os_messages_size := 0\<rparr>"
  let ?c1 = "(put_status code ?d)\<lparr>mc_server := ?server\<rparr>" and ?w1 = "?w\<lparr>wd_fs := ?fs\<rparr>"
  have rm: "remove_selected (put_status code ?d) ?w = Some (?c1, ?w1)"
    using remove_message_file [OF assms(5), of server "[]" fs content] assms(6-9) c(6,7,12)
    by (simp add: remove_selected_def put_status_def)
  have ne: "crlf_line ''QUIT'' \<noteq> []" by (simp add: crlf_line_def)
  let ?c2 = "(no_answer ?c1)\<lparr>mc_smtp_context := \<lparr>sc_socket_desc = s, sc_state_code = SMTP_QUIT\<rparr>\<rparr>"
    and ?w2 = "?w1\<lparr>wd_output := (wd_output w)(s := out @ crlf_line ''QUIT'')\<rparr>"
  have q: "quit_on e (no_answer ?c1) ?w1 = (?c2, ?w2)"
    using K(1) smtp_send_all(2) [OF ne K(2)] c(4,11) by (simp add: quit_on_def sent_on_def smtp_send_quit_def no_answer_def put_status_def)
  let ?t = "?thr\<lparr>th_multiplex_context := Some [?c2]\<rparr>"
  have set: "set_ctx ?thr 0 ?c2 = Some ?t" by (simp add: set_ctx_def arr_set_def)
  obtain t where t: "remove_multiplex_context 0 ?t ?w2 = Some (t, ?w2\<lparr>wd_closed := wd_closed w @ [s]\<rparr>)" "th_multiplex_context_size t = 0"
    using remove_only_context [of ?t ?c2 ?w2] c(2,7) assms(1) by (auto simp: no_answer_def put_status_def selected_thread_def)
  have "?thr = selected_thread s r (thr\<lparr>th_multiplex_context := Some [?d]\<rparr>)" by (simp add: selected_thread_def)
  then have g: "get_response_to_context e ?d ?thr (arrives s r w) = Some (Goes (code, ?w))"
    using answers_response [of r ?d code e s w "thr\<lparr>th_multiplex_context := Some [?d]\<rparr>"] assms(1) K(3) code(1) c(4,5,10) by simp
  have at: "ctx_at ?thr 0 = Some ?d" by (simp add: ctx_at_def arr_get_def)
  have ready: "is_smtp_sender_ready (mc_smtp_context (put_status code ?d)) ?thr = Some True"
    using c(4) assms(1) by (simp add: is_smtp_sender_ready_def is_ready_for_write_def FD_ISSET_def selected_thread_def put_status_def)
  have "state_handler SMTP_END_MESSAGE e 0 ?thr (arrives s r w) = Some (Goes (t, ?w2\<lparr>wd_closed := wd_closed w @ [s]\<rparr>))"
    using at g code rm ready q set t(1) by (simp add: handler_branches(7) on_reply_def)
  then have "thread_turn pth listing env (\<lambda>_. e) (SelectReady (readable s r) {s}) threads thr (arrives s r w)
      = Some (Goes (Some t, ?w2\<lparr>wd_closed := wd_closed w @ [s]\<rparr>))"
    using c by (intro turn_run [OF c(1-3) assms(1)]) (simp_all add: arrives_def)
  then show "\<exists>t w1. session_turns (\<lambda>sel. thread_turn pth listing env (\<lambda>_. e) sel threads) s [r] thr w = Some (Goes (Some t, w1))
      \<and> delivered s (out @ crlf_line ''QUIT'') ?fs (t, w1)"
    using t(2) by (simp add: delivered_def)
qed

lemma split_replies:
  assumes "length replies = n + 4"
  obtains a b c bs d where "replies = [a] @ [b] @ [c] @ bs @ [d]" "length bs = n"
proof -
  obtain a b c q where q: "replies = a # b # c # q" "length q = Suc n"
    using assms by (auto simp: numeral_eq_Suc length_Suc_conv)
  then obtain bs d where "q = bs @ [d]" "length bs = n" by (cases q rule: rev_cases) auto
  with q show thesis by (intro that [of a b c bs d]) simp_all
qed

lemma delivery_turns:
  assumes "fd_in_range s" "sends_all e (script (io_hostname e) f (ms_to m) (ms_strings m))"
    "ms_from m = Some f" "ms_to m \<noteq> []" "ms_to_size m = length (ms_to m)" "ms_strings m \<noteq> []" "ms_strings_size m = length (ms_strings m)"
    "\<forall>l\<in>set (ms_strings m). file_line l \<and> l \<noteq> [CHR 0x0A]"
    "length replies = length (ms_to m) + 4" "\<forall>r\<in>set replies. good_reply r"
  shows "session (\<lambda>sel. thread_turn path listing env (\<lambda>_. e) sel threads) s
    (delivering s server m SMTP_CONNECT NOT_ANSWER it out fs) (replies @ replicate (length (ms_strings m)) [])
    (delivering s server m SMTP_END_MESSAGE NOT_ANSWER 0 (out @ concat (script (io_hostname e) f (ms_to m) (ms_strings m))) fs)"
proof -
  let ?run = "\<lambda>sel. thread_turn path listing env (\<lambda>_. e) sel threads" and ?S = "set (script (io_hostname e) f (ms_to m) (ms_strings m))"
  obtain a b c bs d where r: "replies = [a] @ [b] @ [c] @ bs @ [d]" "length bs = length (ms_to m)"
    using assms(9) by (rule split_replies)
  have g: "good_reply a" "good_reply b" "good_reply c" "\<forall>r\<in>set bs. good_reply r" "good_reply d" using assms(10) r(1) by auto
  have in_script: "crlf_line (''HELO '' @ io_hostname e) \<in> ?S" "crlf_line (''MAIL from:<'' @ f @ ''>'') \<in> ?S"
    "\<forall>x\<in>set (ms_to m). crlf_line (''RCPT to:<'' @ x @ ''>'') \<in> ?S" "crlf_line ''DATA'' \<in> ?S" "set (ms_strings m) \<subseteq> ?S"
    "[CHR 0x0D, CHR 0x0A] @ crlf_line ''.'' \<in> ?S" by (auto simp: script_def)
  obtain x xs where to: "ms_to m = x # xs" using assms(4) by (cases "ms_to m") auto
  obtain l ks where ls: "ms_strings m = l # ks" using assms(6) by (cases "ms_strings m") auto
  let ?o1 = "out @ crlf_line (''HELO '' @ io_hostname e)"
  let ?o2 = "?o1 @ crlf_line (''MAIL from:<'' @ f @ ''>'')"
  let ?o3 = "?o2 @ crlf_line (''RCPT to:<'' @ hd (ms_to m) @ ''>'')"
  let ?o4 = "?o3 @ concat (map (\<lambda>x. crlf_line (''RCPT to:<'' @ x @ ''>'')) (drop 1 (ms_to m))) @ crlf_line ''DATA''"
  have 1: "session ?run s (delivering s server m SMTP_CONNECT NOT_ANSWER it out fs) [a] (delivering s server m SMTP_HELO NOT_ANSWER it ?o1 fs)"
    by (rule connect_turn [OF assms(1,2) in_script(1) g(1)])
  have 2: "session ?run s (delivering s server m SMTP_HELO NOT_ANSWER it ?o1 fs) [b] (delivering s server m SMTP_MAIL NOT_ANSWER (it + 1) ?o2 fs)"
    by (rule helo_turn [OF assms(1,2) in_script(2) g(2) assms(3)])
  have "crlf_line (''RCPT to:<'' @ hd (ms_to m) @ ''>'') \<in> ?S" using in_script(3) to by simp
  then have 3: "session ?run s (delivering s server m SMTP_MAIL NOT_ANSWER (it + 1) ?o2 fs) [c] (delivering s server m SMTP_RCPT NOT_ANSWER 1 ?o3 fs)"
    by (rule mail_turn [OF assms(1,2) _ g(3) assms(4)])
  have one: "(1 :: int) = int 1" by simp
  have "1 \<le> length (ms_to m)" "length bs = Suc (length (ms_to m) - 1)" using r(2) to by simp_all
  then have 4: "session ?run s (delivering s server m SMTP_RCPT NOT_ANSWER 1 ?o3 fs) bs (delivering s server m SMTP_DATA NOT_ANSWER 0 ?o4 fs)"
    unfolding one by (rule rcpts_turns [OF assms(1,2) in_script(3,4) assms(5) _ _ g(4)])
  have "ms_strings m ! 0 \<in> ?S" "file_line (ms_strings m ! 0)" "ms_strings m ! 0 \<noteq> [CHR 0x0A]" using in_script(5) assms(8) ls by auto
  from data_turn [OF assms(1,2) this(1) g(5) assms(6) this(2,3)] obtain code where
    5: "is_smtp_success code" "code \<noteq> NOT_ANSWER" "session ?run s (delivering s server m SMTP_DATA NOT_ANSWER 0 ?o4 fs) [d]
      (delivering s server m SMTP_MESSAGE code 1 (?o4 @ ms_strings m ! 0) fs)" by blast
  have "1 \<le> length (ms_strings m)" "length (ms_strings m) = Suc (length (ms_strings m) - 1)" using ls by simp_all
  then have 6: "session ?run s (delivering s server m SMTP_MESSAGE code 1 (?o4 @ ms_strings m ! 0) fs) (replicate (length (ms_strings m)) [])
      (delivering s server m SMTP_END_MESSAGE NOT_ANSWER 0
        ((?o4 @ ms_strings m ! 0) @ concat (drop 1 (ms_strings m)) @ [CHR 0x0D, CHR 0x0A] @ crlf_line ''.'') fs)"
    unfolding one by (rule texts_turns [OF assms(1,2) in_script(5,6) 5(1,2) assms(7,8)])
  have out: "(?o4 @ ms_strings m ! 0) @ concat (drop 1 (ms_strings m)) @ [CHR 0x0D, CHR 0x0A] @ crlf_line ''.''
      = out @ concat (script (io_hostname e) f (ms_to m) (ms_strings m))" using to ls by (simp add: script_def)
  have 6: "session ?run s (delivering s server m SMTP_MESSAGE code 1 (?o4 @ ms_strings m ! 0) fs) (replicate (length (ms_strings m)) [])
      (delivering s server m SMTP_END_MESSAGE NOT_ANSWER 0 (out @ concat (script (io_hostname e) f (ms_to m) (ms_strings m))) fs)"
    using 6 unfolding out by simp
  show ?thesis
    unfolding r(1) append_assoc by (rule session_append [OF 1 session_append [OF 2 session_append [OF 3 session_append [OF 4 session_append [OF 5(3) 6]]]]])
qed

section \<open>Properties\<close>

text \<open>
  C6: One mail is relayed as it should be. A connected thread whose only delivery has one message in
  the store, with a sender, recipients and lines, answers the replies of a server that accepts
  everything with exactly the script of the mail: the greeting, the sender, every recipient, the
  data command, every line and the end, each request once and in this order. The file is kept up to
  the last reply; then it is removed, and the connection is left and closed.
\<close>

theorem delivery_follows_script:
  assumes "fd_in_range s" "sends_all e (script (io_hostname e) f (ms_to m) (ms_strings m) @ [crlf_line ''QUIT''])"
    "th_multiplex_context thr = Some [delivery_of \<lparr>sc_socket_desc = s, sc_state_code = SMTP_CONNECT\<rparr> server]"
    "th_multiplex_context_size thr = 1" "th_fdmax thr = s + 1" "wd_input w s = []" "wd_output w s = []"
    "os_message_full_file_names server = [path]" "os_messages_size server = 1" "strstr_found path DIRECTORY_OTHER_SERVERS"
    "fs_nodes (wd_fs w) (resolve (wd_fs w) path) = Some (File content)" "read_message (wd_fs w) path = Some (Some m)"
    "ms_from m = Some f" "ms_to m \<noteq> []" "ms_to_size m = length (ms_to m)" "ms_strings m \<noteq> []" "ms_strings_size m = length (ms_strings m)"
    "ms_directory m = Some path" "\<forall>l\<in>set (ms_strings m). file_line l \<and> l \<noteq> [CHR 0x0A]"
    "length replies = length (ms_to m) + 4" "\<forall>r\<in>set replies. good_reply r" "good_reply last_reply"
  shows "\<exists>t1 w1 t2 w2.
      session_turns (\<lambda>sel. thread_turn pth listing env (\<lambda>_. e) sel threads) s (replies @ replicate (length (ms_strings m)) []) thr w
        = Some (Goes (Some t1, w1))
    \<and> wd_output w1 s = concat (script (io_hostname e) f (ms_to m) (ms_strings m)) \<and> wd_fs w1 = wd_fs w
    \<and> session_turns (\<lambda>sel. thread_turn pth listing env (\<lambda>_. e) sel threads) s [last_reply] t1 w1 = Some (Goes (Some t2, w2))
    \<and> wd_output w2 s = concat (script (io_hostname e) f (ms_to m) (ms_strings m)) @ crlf_line ''QUIT''
    \<and> wd_fs w2 = set_node (resolve (wd_fs w) path) None (wd_fs w) \<and> s \<in> set (wd_closed w2) \<and> th_multiplex_context_size t2 = 0"
proof -
  let ?run = "\<lambda>sel. thread_turn pth listing env (\<lambda>_. e) sel threads"
  let ?all = "concat (script (io_hostname e) f (ms_to m) (ms_strings m))"
  have server: "server\<lparr>os_message_full_file_names := [path]\<rparr> = server" using assms(8) by simp
  have start: "delivering s server m SMTP_CONNECT NOT_ANSWER 0 [] (wd_fs w) (thr, w)"
    using assms(3-9,12) server by (simp add: delivering_def delivery_of_def get_first_message_def arr_get_def)
  have e: "sends_all e (script (io_hostname e) f (ms_to m) (ms_strings m))" using assms(2) by (auto simp: sends_all_def)
  from delivery_turns [OF assms(1) e assms(13-17,19-21)] start obtain t1 w1 where
    1: "session_turns ?run s (replies @ replicate (length (ms_strings m)) []) thr w = Some (Goes (Some t1, w1))"
      "delivering s server m SMTP_END_MESSAGE NOT_ANSWER 0 ([] @ ?all) (wd_fs w) (t1, w1)" unfolding session_def by blast
  have "crlf_line ''QUIT'' \<in> set (script (io_hostname e) f (ms_to m) (ms_strings m) @ [crlf_line ''QUIT''])" by simp
  from end_turn [OF assms(1,2) this assms(22,18,8,9,11,10)] 1(2) obtain t2 w2 where
    2: "session_turns ?run s [last_reply] t1 w1 = Some (Goes (Some t2, w2))"
      "delivered s (([] @ ?all) @ crlf_line ''QUIT'') (set_node (resolve (wd_fs w) path) None (wd_fs w)) (t2, w2)"
    unfolding session_def by blast
  have "wd_output w1 s = ?all" "wd_fs w1 = wd_fs w" using 1(2) by (auto simp: delivering_def)
  then show ?thesis using 1(1) 2 by (auto simp: delivered_def)
qed

text \<open>A store with one mail, and a thread that is connected to deliver it.\<close>

definition sample_mail :: string where
  "sample_mail = header_line ''X-Postman-From'' ''ann@a.org'' @ header_line ''X-Postman-Date'' ''7'' @ header_line ''X-Postman-To'' ''bob@b.org''
     @ [CHR 0x0D, CHR 0x0A] @ crlf_line ''hi'' @ crlf_line ''''"

definition sample_path :: string where "sample_path = ''/m/.OTHER_SERVERS/b.org/1''"

definition sample_world :: world where
  "sample_world = \<lparr>wd_fs = \<lparr>fs_nodes = (\<lambda>ns. if ns = comps sample_path then Some (File sample_mail) else None), fs_cwd = []\<rparr>,
     wd_input = (\<lambda>_. []), wd_output = (\<lambda>_. []), wd_closed = [], wd_locked = False\<rparr>"

definition sample_delivery :: "int \<Rightarrow> multiplex_context" where
  "sample_delivery s = delivery_of \<lparr>sc_socket_desc = s, sc_state_code = SMTP_CONNECT\<rparr>
     \<lparr>os_directory = Some ''/m/.OTHER_SERVERS/b.org'', os_server = Some ''b.org'', os_message_full_file_names = [sample_path], os_messages_size = 1\<rparr>"

definition sample_thread :: thread where
  "sample_thread = (new_thread 0)\<lparr>th_multiplex_context := Some [sample_delivery 5], th_multiplex_context_size := 1, th_fdmax := 6\<rparr>"

definition sample_io :: io where "sample_io = \<lparr>io_hostname = ''a.org'', io_stack = [], io_send = [SentBytes 1000]\<rparr>"

lemma good_reply_ok: "good_reply (reply_line 250 ''OK'')"
  by (auto simp: good_reply_def is_reply_def NUL_def intro!: exI [of _ 250] exI [of _ "''OK''"])

lemma sample_read:
  obtains m where "read_message (wd_fs sample_world) sample_path = Some (Some m)" "ms_from m = Some ''ann@a.org''" "ms_to m = [''bob@b.org'']"
    "ms_to_size m = 1" "ms_strings m = [crlf_line ''hi'', crlf_line '''']" "ms_strings_size m = 2" "ms_directory m = Some sample_path"
proof -
  have stored: "fs_nodes (wd_fs sample_world) (resolve (wd_fs sample_world) sample_path) = Some (File (header_line ''X-Postman-From'' ''ann@a.org''
      @ header_line ''X-Postman-Date'' ''7'' @ header_line ''X-Postman-To'' (join_with (CHR '','') [''bob@b.org'']) @ [CHR 0x0D, CHR 0x0A]
      @ concat [crlf_line ''hi'', crlf_line ''''] @ []))"
    by (simp add: sample_world_def resolve_def sample_path_def sample_mail_def)
  have a: "plain_address ''ann@a.org''" "plain_address ''bob@b.org''"
    unfolding plain_address_def
    by (rule exI [of _ "''ann''"], rule exI [of _ "''a.org''"], simp add: plain_part_def NUL_def)
      (rule exI [of _ "''bob''"], rule exI [of _ "''b.org''"], simp add: plain_part_def NUL_def)
  have "plain_value ''7''" by (simp add: plain_value_def is_blank_def NUL_def)
  moreover have "file_line (crlf_line ''hi'')" "file_line (crlf_line '''')"
    unfolding file_line_def crlf_line_def
    by (rule exI [of _ "''hi'' @ [CHR 0x0D]"], simp add: NUL_def) (rule exI [of _ "[CHR 0x0D]"], simp add: NUL_def)
  ultimately show thesis using read_message_run [OF stored a(1)] a(2) that by auto
qed

theorem delivery_follows_script_witness:
  "\<exists>t1 w1 t2 w2.
      session_turns (\<lambda>sel. thread_turn NULL (\<lambda>_. []) (\<lambda>_. undefined) (\<lambda>_. sample_io) sel []) 5
        (replicate 5 (reply_line 250 ''OK'') @ [[], []]) sample_thread sample_world = Some (Goes (Some t1, w1))
    \<and> wd_output w1 5 = concat (script ''a.org'' ''ann@a.org'' [''bob@b.org''] [crlf_line ''hi'', crlf_line ''''])
    \<and> session_turns (\<lambda>sel. thread_turn NULL (\<lambda>_. []) (\<lambda>_. undefined) (\<lambda>_. sample_io) sel []) 5
        [reply_line 250 ''OK''] t1 w1 = Some (Goes (Some t2, w2))
    \<and> fs_nodes (wd_fs w2) (comps sample_path) = None \<and> th_multiplex_context_size t2 = 0"
proof -
  obtain m where m: "read_message (wd_fs sample_world) sample_path = Some (Some m)" "ms_from m = Some ''ann@a.org''" "ms_to m = [''bob@b.org'']"
    "ms_to_size m = 1" "ms_strings m = [crlf_line ''hi'', crlf_line '''']" "ms_strings_size m = 2" "ms_directory m = Some sample_path"
    by (rule sample_read)
  let ?server = "\<lparr>os_directory = Some ''/m/.OTHER_SERVERS/b.org'', os_server = Some ''b.org'', os_message_full_file_names = [sample_path], os_messages_size = 1\<rparr>"
  have e: "sends_all sample_io (script (io_hostname sample_io) ''ann@a.org'' (ms_to m) (ms_strings m) @ [crlf_line ''QUIT''])"
    using m by (simp add: sends_all_def sample_io_def script_def crlf_line_def)
  have f: "fs_nodes (wd_fs sample_world) (resolve (wd_fs sample_world) sample_path) = Some (File sample_mail)"
    by (simp add: sample_world_def resolve_def sample_path_def)
  have store: "strstr_found sample_path DIRECTORY_OTHER_SERVERS" by code_simp
  have l: "\<forall>l\<in>set (ms_strings m). file_line l \<and> l \<noteq> [CHR 0x0A]"
    using m(5) by (auto simp: file_line_def crlf_line_def NUL_def intro: exI [of _ "''hi'' @ [CHR 0x0D]"])
  have start: "fd_in_range 5" "th_multiplex_context sample_thread = Some [delivery_of \<lparr>sc_socket_desc = 5, sc_state_code = SMTP_CONNECT\<rparr> ?server]"
    "th_multiplex_context_size sample_thread = 1" "th_fdmax sample_thread = 5 + 1" "wd_input sample_world 5 = []" "wd_output sample_world 5 = []"
    "io_hostname sample_io = ''a.org''" "os_message_full_file_names ?server = [sample_path]" "os_messages_size ?server = 1"
    by (simp_all add: fd_in_range_def FD_SETSIZE_def sample_thread_def sample_delivery_def sample_world_def sample_io_def)
  have n: "ms_to m \<noteq> []" "ms_to_size m = length (ms_to m)" "ms_strings m \<noteq> []" "ms_strings_size m = length (ms_strings m)"
    "length (replicate 5 (reply_line 250 ''OK'')) = length (ms_to m) + 4" "\<forall>r\<in>set (replicate 5 (reply_line 250 ''OK'')). good_reply r"
    using m good_reply_ok by simp_all
  obtain t1 w1 t2 w2 where r:
    "session_turns (\<lambda>sel. thread_turn NULL (\<lambda>_. []) (\<lambda>_. undefined) (\<lambda>_. sample_io) sel []) 5
        (replicate 5 (reply_line 250 ''OK'') @ replicate (length (ms_strings m)) []) sample_thread sample_world = Some (Goes (Some t1, w1))"
    "wd_output w1 5 = concat (script (io_hostname sample_io) ''ann@a.org'' (ms_to m) (ms_strings m))"
    "session_turns (\<lambda>sel. thread_turn NULL (\<lambda>_. []) (\<lambda>_. undefined) (\<lambda>_. sample_io) sel []) 5
        [reply_line 250 ''OK''] t1 w1 = Some (Goes (Some t2, w2))"
    "wd_fs w2 = set_node (resolve (wd_fs sample_world) sample_path) None (wd_fs sample_world)" "th_multiplex_context_size t2 = 0"
    using delivery_follows_script [OF start(1) e start(2-6,8,9) store f m(1,2) n(1-4) m(7) l n(5,6) good_reply_ok] by blast
  have "resolve (wd_fs sample_world) sample_path = comps sample_path" by (simp add: resolve_def sample_path_def)
  then have "fs_nodes (wd_fs w2) (comps sample_path) = None" using r(4) by simp
  moreover have "replicate (length (ms_strings m)) [] = [[], []]" using m(5) by simp
  ultimately show ?thesis using r(1-3,5) unfolding start(7) m(3,5) by auto
qed

lemma length_move_down: "n \<le> length cells \<Longrightarrow> length (move_down i n cells) = length cells"
  by (auto simp: move_down_def)

lemma nth_move_down: "n \<le> length cells \<Longrightarrow> Suc i < n \<Longrightarrow> move_down i n cells ! i = cells ! Suc i"
  by (auto simp: move_down_def nth_append segment_def)

lemma move_down_last: "Suc i = n \<Longrightarrow> n \<le> length cells \<Longrightarrow> move_down i n cells = cells"
  by (auto simp: move_down_def segment_def)

lemma remove_context_run:
  assumes "th_multiplex_context thr = Some cells" "th_multiplex_context_size thr = n" "n \<le> length cells" "i < n"
    "fd_in_range (sc_socket_desc (mc_smtp_context (cells ! i)))" "\<not> mc_server_freed (move_down i n cells ! i)"
  shows "\<exists>t. remove_multiplex_context i thr w = Some (t, w\<lparr>wd_closed := wd_closed w @ [sc_socket_desc (mc_smtp_context (cells ! i))]\<rparr>)
    \<and> th_multiplex_context t = Some ((move_down i n cells)[i := (move_down i n cells ! i)\<lparr>mc_select_message := NULL, mc_server_freed := True\<rparr>])
    \<and> th_multiplex_context_size t = n - 1"
  using assms
  by (simp add: remove_multiplex_context_def remove_socket_from_context_def ctx_at_def arr_get_nat length_move_down
      free_multiplex_context_def Let_def)

text \<open>
  C7: Ending one delivery breaks the next one. When a delivery that is not the last of its thread is
  removed, the structure that is freed is that of its neighbour, which was moved into its place: the
  neighbour loses its message, and its next turn uses freed memory. Only the removal of the last
  delivery frees what belongs to it and leaves the others as they were.
\<close>

theorem removal_frees_neighbour:
  assumes "th_multiplex_context thr = Some cells" "th_multiplex_context_size thr = n" "n \<le> length cells" "i < n"
    "fd_in_range (sc_socket_desc (mc_smtp_context (cells ! i)))"
    "\<forall>c\<in>set cells. \<not> mc_server_freed c \<and> 0 < os_messages_size (mc_server c)"
  shows "\<exists>t w1 cells1. remove_multiplex_context i thr w = Some (t, w1) \<and> th_multiplex_context t = Some cells1
    \<and> th_multiplex_context_size t = n - 1
    \<and> (Suc i < n \<longrightarrow> cells1 ! i = (cells ! Suc i)\<lparr>mc_select_message := NULL, mc_server_freed := True\<rparr> \<and> (\<forall>e w2. round_step e i t w2 = UB))
    \<and> (Suc i = n \<longrightarrow> cells1 = cells[i := (cells ! i)\<lparr>mc_select_message := NULL, mc_server_freed := True\<rparr>])"
proof -
  let ?moved = "move_down i n cells"
  have in_set: "?moved ! i \<in> set cells"
    using assms(3,4) nth_move_down [of n cells i] move_down_last [of i n cells] by (cases "Suc i = n") (auto intro: nth_mem)
  then have "\<not> mc_server_freed (?moved ! i)" using assms(6) by blast
  from remove_context_run [OF assms(1-5) this] obtain t w1 where
    t: "remove_multiplex_context i thr w = Some (t, w1)" "th_multiplex_context_size t = n - 1"
      "th_multiplex_context t = Some (?moved[i := (?moved ! i)\<lparr>mc_select_message := NULL, mc_server_freed := True\<rparr>])" by blast
  have len: "i < length ?moved" using assms(3,4) by (simp add: length_move_down)
  then have "ctx_at t i = Some ((?moved ! i)\<lparr>mc_select_message := NULL, mc_server_freed := True\<rparr>)"
    using t(3) by (simp add: ctx_at_def arr_get_nat)
  then have "round_step e i t w2 = UB" for e w2
    using assms(6) in_set by (simp add: round_step_def)
  then show ?thesis
    using t len nth_move_down [of n cells i] move_down_last [of i n cells] assms(3) by auto
qed

theorem removal_frees_neighbour_witness:
  "\<exists>t w1. remove_multiplex_context 0 (sample_thread\<lparr>th_multiplex_context := Some [sample_delivery 5, sample_delivery 6],
      th_multiplex_context_size := 2\<rparr>) sample_world = Some (t, w1) \<and> (\<forall>e w2. round_step e 0 t w2 = UB)"
  using removal_frees_neighbour [of "sample_thread\<lparr>th_multiplex_context := Some [sample_delivery 5, sample_delivery 6],
      th_multiplex_context_size := 2\<rparr>" "[sample_delivery 5, sample_delivery 6]" 2 0 sample_world]
  by (auto simp: sample_delivery_def delivery_of_def fd_in_range_def FD_SETSIZE_def)

lemma handler_reply:
  assumes "ctx_at thr i = Some c" "mc_smtp_context c = \<lparr>sc_socket_desc = s, sc_state_code = st\<rparr>" "fd_in_range s"
    "s \<in> th_read_fds thr" "wd_input w s = r" "good_reply r" "io_stack e = [] \<or> hd (io_stack e) \<notin> set digits"
  obtains code where "is_smtp_success code" "code \<noteq> NOT_ANSWER"
    "\<And>skip good f. (\<And>status. skip code status = (code = NOT_ANSWER)) \<Longrightarrow> good code \<Longrightarrow>
       on_reply skip good f e i thr w = f (put_status code c) (w\<lparr>wd_input := (wd_input w)(s := [])\<rparr>)"
proof -
  obtain n where n: "200 \<le> n" "n < 400" "is_reply n r" using assms(6) by (auto simp: good_reply_def)
  have "unat (of_nat n :: 32 word) = n" using n(2) by (simp add: unat_of_nat)
  then have ok: "is_smtp_success (of_nat n)" "(of_nat n :: 32 word) \<noteq> NOT_ANSWER"
    using n(1,2) by (simp_all add: success_iff word_less_nat_alt word_le_nat_alt word_unat_eq_iff NOT_ANSWER_def)
  have "get_response_to_context e c thr w = Some (Goes (of_nat n, w\<lparr>wd_input := (wd_input w)(s := [])\<rparr>))"
    by (rule get_response_reply [OF n(3) assms(7,4,3)]) (use assms(2,5) in simp_all)
  then show thesis using assms(1) ok by (intro that [of "of_nat n"]) (simp_all add: on_reply_def)
qed

text \<open>
  A mail without text or without recipients stops the client: when the server accepts the data
  command, the first line is read from an array that has none, and when it accepts the sender, the
  first recipient is; a line that is a newline alone is read before its start for the log.
\<close>

theorem empty_mail_stops_client:
  assumes "ctx_at thr i = Some c" "mc_smtp_context c = \<lparr>sc_socket_desc = s, sc_state_code = st\<rparr>" "fd_in_range s"
    "s \<in> th_read_fds thr" "s \<in> th_write_fds thr" "wd_input w s = r" "good_reply r" "io_stack e = [] \<or> hd (io_stack e) \<notin> set digits"
    "mc_select_message c = Some m" "mc_iteration c = 0" "io_send e = [SentBytes K]" "0 < K"
    "st = SMTP_MAIL \<and> ms_to m = [] \<or> st = SMTP_DATA \<and> (ms_strings m = [] \<or> hd (ms_strings m) = [CHR 0x0A])"
  shows "state_handler st e i thr w = UB"
proof -
  obtain code where code: "is_smtp_success code" "code \<noteq> NOT_ANSWER"
    "\<And>skip good f. (\<And>status. skip code status = (code = NOT_ANSWER)) \<Longrightarrow> good code \<Longrightarrow>
       on_reply skip good f e i thr w = f (put_status code c) (w\<lparr>wd_input := (wd_input w)(s := [])\<rparr>)"
    using handler_reply [OF assms(1-4,6-8)] by blast
  have p: "mc_smtp_context (put_status code c) = \<lparr>sc_socket_desc = s, sc_state_code = st\<rparr>" "mc_select_message (put_status code c) = Some m"
    "mc_iteration (put_status code c) = 0" using assms(2,9,10) by (simp_all add: put_status_def)
  note ready = sender_ready [OF p(1) assms(3,5)]
  show ?thesis
  proof (cases "st = SMTP_MAIL")
    case True
    then show ?thesis using assms(13) code p ready by (simp add: handler_branches(3) arr_get_def)
  next
    case False
    then have st: "st = SMTP_DATA" "ms_strings m = [] \<or> hd (ms_strings m) = [CHR 0x0A]" using assms(13) by simp_all
    have "send_text_line e (put_status code c) v = UB" for v
    proof (cases "ms_strings m")
      case (Cons l ls)
      then have "smtp_send_message l (io_send e) (mc_smtp_context (put_status code c)) = UB"
        using st p(1) assms(11,12) smtp_send_all(1) [of l K "mc_smtp_context (put_status code c)"]
        by (simp add: smtp_send_message_def cut_end_def)
      then show ?thesis using Cons p by (simp add: send_text_line_def arr_get_def)
    qed (use p in \<open>simp add: send_text_line_def arr_get_def\<close>)
    then show ?thesis using st(1) code p ready by (simp add: handler_branches(5))
  qed
qed

definition sample_message :: message where
  "sample_message = message_zero\<lparr>ms_from := Some ''ann@a.org'', ms_to := [''bob@b.org''], ms_to_size := 1, ms_directory := Some sample_path\<rparr>"

theorem empty_mail_stops_client_witness:
  "state_handler SMTP_DATA sample_io 0
     (sample_thread\<lparr>th_multiplex_context := Some [(sample_delivery 5)\<lparr>mc_smtp_context := \<lparr>sc_socket_desc = 5, sc_state_code = SMTP_DATA\<rparr>,
        mc_select_message := Some sample_message\<rparr>], th_read_fds := {5}, th_write_fds := {5}\<rparr>)
     (sample_world\<lparr>wd_input := \<lambda>_. reply_line 250 ''OK''\<rparr>) = UB"
  by (rule empty_mail_stops_client [of _ _ "(sample_delivery 5)\<lparr>mc_smtp_context := \<lparr>sc_socket_desc = 5, sc_state_code = SMTP_DATA\<rparr>,
        mc_select_message := Some sample_message\<rparr>" 5 _ _ "reply_line 250 ''OK''" _ sample_message 1000])
    (use good_reply_ok in \<open>simp_all add: ctx_at_def arr_get_def fd_in_range_def FD_SETSIZE_def sample_io_def sample_delivery_def delivery_of_def
       sample_message_def message_zero_def\<close>)

text \<open>No call releases the mutex after a server was found.\<close>

definition stays_locked :: "(('a \<times> world) ends) ub \<Rightarrow> bool" where
  "stays_locked r \<longleftrightarrow> ub_post r (\<lambda>x. case x of Goes (a, w) \<Rightarrow> wd_locked w | _ \<Rightarrow> True)"

lemma stays_locked_simps [simp]:
  "stays_locked UB" "stays_locked (Some Exited)" "stays_locked (Some Blocked)"
  "stays_locked (Some (Goes (a, w))) \<longleftrightarrow> wd_locked w"
  "stays_locked (Option.bind m f) \<longleftrightarrow> (\<forall>x. m = Some x \<longrightarrow> stays_locked (f x))"
  by (simp_all add: stays_locked_def ub_post_def split: bind_splits)

lemma sent_on_locked: "sent_on c r w = (c1, w1) \<Longrightarrow> wd_locked w1 = wd_locked w"
  by (auto simp: sent_on_def Let_def)

lemma quit_on_locked: "quit_on e c w = (c1, w1) \<Longrightarrow> wd_locked w1 = wd_locked w"
  unfolding quit_on_def by (rule sent_on_locked)

lemma remove_selected_locked: "remove_selected c w = Some (c1, w1) \<Longrightarrow> wd_locked w1 = wd_locked w"
  by (auto simp: remove_selected_def split: prod.splits if_splits)

lemma remove_context_locked: "wd_locked w \<Longrightarrow> stays_locked (map_option Goes (remove_multiplex_context i thr w))"
  by (auto simp: remove_multiplex_context_def remove_socket_from_context_def Let_def stays_locked_def ub_post_def bind_eq_Some_conv
      split: if_splits)

lemma failed_reply_locked: "wd_locked w \<Longrightarrow> stays_locked (failed_reply e status i c thr w)"
  by (auto simp: failed_reply_def Let_def split: prod.split intro!: remove_context_locked dest: quit_on_locked remove_selected_locked)

lemma get_response_locked:
  assumes "get_response_to_context e c thr w = Some (Goes (status, w1))"
  shows "wd_locked w1 = wd_locked w"
proof -
  let ?s = "sc_socket_desc (mc_smtp_context c)"
  obtain b where b: "is_ready_for_read ?s thr = Some b"
    using assms by (auto simp: get_response_to_context_def Let_def bind_eq_Some_conv)
  show ?thesis
  proof (cases b)
    case True
    then obtain r where r: "get_smtp_response (io_stack e) (wd_input w ?s) = Some r"
      using assms b by (auto simp: get_response_to_context_def Let_def bind_eq_Some_conv)
    then show ?thesis using assms b True by (cases r) (auto simp: get_response_to_context_def)
  qed (use assms b in \<open>simp add: get_response_to_context_def\<close>)
qed

lemma on_reply_locked:
  assumes "wd_locked w" "\<And>c w. wd_locked w \<Longrightarrow> stays_locked (f c w)"
  shows "stays_locked (on_reply skip good f e i thr w)"
  using assms failed_reply_locked by (auto simp: on_reply_def split: ends.split prod.split dest: get_response_locked)

lemma when_sender_ready_locked:
  assumes "wd_locked w" "\<And>c w c1 w1. f c w = Some (c1, w1) \<Longrightarrow> wd_locked w1 = wd_locked w"
  shows "stays_locked (when_sender_ready i thr f c w)"
  using assms by (auto simp: when_sender_ready_def split: if_splits)

lemma send_text_line_locked: "send_text_line e c w = Some (c1, w1) \<Longrightarrow> wd_locked w1 = wd_locked w"
  by (auto simp: send_text_line_def sent_on_def bind_eq_Some_conv Let_def)

lemma state_handler_locked:
  assumes "wd_locked w"
  shows "stays_locked (state_handler st e i thr w)"
proof -
  have "stays_locked (connect_handler e i thr w)" unfolding connect_handler_def
    by (rule on_reply_locked [OF assms], erule when_sender_ready_locked) (auto dest: sent_on_locked)
  moreover have "stays_locked (helo_handler e i thr w)" unfolding helo_handler_def
    by (rule on_reply_locked [OF assms], erule when_sender_ready_locked)
      (auto simp: bind_eq_Some_conv sent_on_def Let_def)
  moreover have "stays_locked (mail_handler e i thr w)" unfolding mail_handler_def
    by (rule on_reply_locked [OF assms], erule when_sender_ready_locked)
      (auto simp: bind_eq_Some_conv sent_on_def Let_def)
  moreover have "stays_locked (rcpt_handler e i thr w)" unfolding rcpt_handler_def
    by (rule on_reply_locked [OF assms], erule when_sender_ready_locked)
      (auto simp: bind_eq_Some_conv sent_on_def Let_def split: if_splits)
  moreover have "stays_locked (data_handler e i thr w)" unfolding data_handler_def
    by (rule on_reply_locked [OF assms], erule when_sender_ready_locked) (rule send_text_line_locked)
  moreover have "stays_locked (message_handler e i thr w)" unfolding message_handler_def
    by (rule on_reply_locked [OF assms]) (auto simp: sent_on_def Let_def split: if_split_asm dest: send_text_line_locked)
  moreover have "stays_locked (end_message_handler e i thr w)" unfolding end_message_handler_def
    by (rule on_reply_locked [OF assms])
      (auto simp: quit_on_def sent_on_def Let_def dest: remove_selected_locked intro!: remove_context_locked)
  moreover have "stays_locked (map_option Goes (remove_multiplex_context i thr w))" by (rule remove_context_locked [OF assms])
  ultimately show ?thesis by (cases st) (simp_all add: state_handler_def)
qed

lemma round_step_locked:
  assumes "wd_locked w"
  shows "stays_locked (round_step e i thr w)"
proof -
  have "stays_locked (map_option Goes (remove_multiplex_context i t w1))" if "quit_on e c w = (c1, w1)" for t c c1 w1
    using remove_context_locked quit_on_locked [OF that] assms by simp
  then show ?thesis using state_handler_locked [OF assms] by (auto simp: round_step_def Let_def split: option.split prod.split)
qed

lemma round_loop_locked: "wd_locked w \<Longrightarrow> stays_locked (round_loop e i thr w)"
proof (induction e i thr w rule: round_loop.induct)
  case (1 e i thr w)
  have step: "stays_locked (round_step (e i) i thr w)" by (rule round_step_locked [OF 1(2)])
  show ?case
  proof (cases "i < th_multiplex_context_size thr")
    case True
    then show ?thesis using step 1 by (subst round_loop.simps) (auto split: option.split ends.split)
  qed (use 1(2) in \<open>simp add: round_loop.simps\<close>)
qed

lemma servers_loop_locked:
  assumes "wd_locked w"
  shows "stays_locked (servers_loop env threads i j servers thr w)"
  using assms
proof (induction servers arbitrary: j)
  case (Cons server servers)
  show ?case using Cons.IH [OF Cons.prems] Cons.prems by (simp add: is_contains_def)
qed simp

lemma thread_turn_locked:
  assumes "wd_locked w"
  shows "stays_locked (thread_turn path listing env e sel threads thr w)"
proof -
  have lift: "stays_locked (Some (case a of Exited \<Rightarrow> Exited | Blocked \<Rightarrow> Blocked | Goes (t, w1) \<Rightarrow> Goes (Some t, w1)))"
    if "stays_locked (Some a)" for a :: "(thread \<times> world) ends"
    using that by (auto split: ends.split)
  have "stays_locked (Some a)" if "connect_servers path listing env threads t w = Some a" for a t
    using servers_loop_locked [OF assms] that by (auto simp: connect_servers_def bind_eq_Some_conv) metis
  moreover have "stays_locked (Some a)" if "round_loop e 0 t w = Some a" for a t
    using round_loop_locked [OF assms, of e 0 t] that by simp
  ultimately show ?thesis using assms lift
    by (auto simp: thread_turn_def Let_def split: selected.split)
qed

text \<open>
  C8: The search for a server that is in a delivery answers once at most: when it finds the server it
  returns with the mutex locked, no later call of it by any thread returns, and no turn of any
  thread releases the mutex. A timeout turn that comes to a server with mail then never ends.
\<close>

theorem delivery_in_progress_locks_out:
  assumes "\<not> wd_locked w" "contains_loop threads name = Some b"
  shows "\<exists>w1. is_contains threads name w = Some (Goes (b, w1)) \<and> (\<not> b \<longrightarrow> w1 = w)
    \<and> (b \<longrightarrow> (\<forall>threads' name'. is_contains threads' name' w1 = Some Blocked)
       \<and> (\<forall>path listing env e sel threads' thr t w2. thread_turn path listing env e sel threads' thr w1 = Some (Goes (t, w2)) \<longrightarrow> wd_locked w2)
       \<and> (\<forall>env threads' i j server servers thr. 0 < os_messages_size server \<longrightarrow> os_server server \<noteq> NULL \<longrightarrow>
            (i + j) mod length threads' = th_id_thread thr \<longrightarrow> servers_loop env threads' i j (server # servers) thr w1 = Some Blocked))"
proof -
  let ?w = "if b then w\<lparr>wd_locked := True\<rparr> else w"
  have "is_contains threads name w = Some (Goes (b, ?w))" using assms by (simp add: is_contains_def)
  moreover have "wd_locked w2" if "b" "thread_turn path listing env e sel threads' thr ?w = Some (Goes (t, w2))"
    for path listing env e sel threads' thr t w2
    using thread_turn_locked [of ?w path listing env e sel threads' thr] that by simp
  ultimately show ?thesis by (intro exI [of _ ?w]) (auto simp: is_contains_def)
qed

theorem delivery_in_progress_locks_out_witness:
  "\<exists>w1. is_contains [sample_thread] ''b.org'' sample_world = Some (Goes (True, w1))
     \<and> (\<forall>threads name. is_contains threads name w1 = Some Blocked)"
proof -
  have "contains_loop [sample_thread] ''b.org'' = Some True"
    by (simp add: sample_thread_def sample_delivery_def delivery_of_def ctx_at_def arr_get_def)
  then show ?thesis using delivery_in_progress_locks_out [of sample_world "[sample_thread]" "''b.org''" True]
    by (auto simp: sample_world_def)
qed

lemma remove_all_gone:
  "fs_nodes fs ns = None \<Longrightarrow> fs_nodes (remove_all_loop ps fs) ns = None"
  "(\<exists>s. fs_nodes fs (resolve fs p) = Some (File s)) \<Longrightarrow> p \<in> set ps \<Longrightarrow> fs_nodes (remove_all_loop ps fs) (resolve fs p) = None"
proof -
  show 1: "fs_nodes fs ns = None \<Longrightarrow> fs_nodes (remove_all_loop ps fs) ns = None" for fs ns ps
    by (induction ps fs rule: remove_all_loop.induct) (simp_all add: remove_absent)
  show "(\<exists>s. fs_nodes fs (resolve fs p) = Some (File s)) \<Longrightarrow> p \<in> set ps \<Longrightarrow> fs_nodes (remove_all_loop ps fs) (resolve fs p) = None"
  proof (induction ps fs rule: remove_all_loop.induct)
    case (2 q ps fs)
    obtain s where s: "fs_nodes fs (resolve fs p) = Some (File s)" using 2(2) by blast
    show ?case
    proof (cases "resolve fs p = resolve fs q")
      case True
      then have "fs_nodes (fst (posix_remove fs q)) (resolve fs p) = None" using s by (simp add: remove_run)
      then show ?thesis using 1 by simp
    next
      case False
      then have "q \<noteq> p" "fs_nodes (fst (posix_remove fs q)) (resolve fs p) = Some (File s)"
        using remove_other_file [OF s] by auto
      then show ?thesis using 2 remove_cwd [of fs q p] by simp
    qed
  qed simp
qed

text \<open>
  C9: Mail whose domain cannot be resolved at the moment is lost: the first failure of the resolver
  removes every message of that server from the store, unsent, and the servers behind it in the
  directory are not looked at in this turn.
\<close>

theorem unresolvable_domain_loses_mail:
  assumes "0 < os_messages_size server" "(i + j) mod length threads = th_id_thread thr" "os_server server = Some name"
    "\<not> wd_locked w" "contains_loop (threads[th_id_thread thr := thr]) name = Some False"
    "name \<noteq> ne_hostname (env j)" "ne_resolvmx (env j) name = None"
    "os_directory server = Some d" "strstr_found d DIRECTORY_OTHER_SERVERS" "fs_nodes (wd_fs w) (resolve (wd_fs w) d) = Some Dir"
  shows "\<exists>w1. servers_loop env threads i j (server # servers) thr w = Some (Goes (thr, w1))
    \<and> (\<forall>p\<in>set (take (os_messages_size server) (os_message_full_file_names server)).
         (\<exists>s. fs_nodes (wd_fs w) (resolve (wd_fs w) p) = Some (File s)) \<longrightarrow> fs_nodes (wd_fs w1) (resolve (wd_fs w) p) = None)
    \<and> wd_output w1 = wd_output w"
proof -
  have "remove_all_message_server (wd_fs w) (Some server)
      = remove_all_loop (take (os_messages_size server) (os_message_full_file_names server)) (wd_fs w)"
    using assms(8-10) by (simp add: remove_all_message_server_def stat_no_dir_def posix_stat_isdir_def)
  then show ?thesis
    using assms(1-7) remove_all_gone(2) by (auto simp: is_contains_def smtp_connect_def)
qed

definition sample_net :: net_env where
  "sample_net = \<lparr>ne_hostname = ''a.org'', ne_server_port = ''25'', ne_socket = (\<lambda>_. 5), ne_settable = (\<lambda>_. True),
     ne_connect = (\<lambda>_ _ _. None),
     ne_resolvmx = (\<lambda>_. None), ne_ips = (\<lambda>_. [])\<rparr>"

theorem unresolvable_domain_loses_mail_witness:
  "\<exists>w1. servers_loop (\<lambda>_. sample_net) [start_thread False (new_thread 0)] 0 0
       [\<lparr>os_directory = Some ''/m/.OTHER_SERVERS/b.org'', os_server = Some ''b.org'', os_message_full_file_names = [sample_path], os_messages_size = 1\<rparr>]
       (start_thread False (new_thread 0))
       (sample_world\<lparr>wd_fs := set_node (comps ''/m/.OTHER_SERVERS/b.org'') (Some Dir) (wd_fs sample_world)\<rparr>)
       = Some (Goes (start_thread False (new_thread 0), w1))
     \<and> fs_nodes (wd_fs w1) (comps sample_path) = None"
proof -
  let ?w = "sample_world\<lparr>wd_fs := set_node (comps ''/m/.OTHER_SERVERS/b.org'') (Some Dir) (wd_fs sample_world)\<rparr>"
  let ?server = "\<lparr>os_directory = Some ''/m/.OTHER_SERVERS/b.org'', os_server = Some ''b.org'', os_message_full_file_names = [sample_path], os_messages_size = 1\<rparr>"
  have store: "strstr_found ''/m/.OTHER_SERVERS/b.org'' DIRECTORY_OTHER_SERVERS" by code_simp
  have "comps sample_path \<noteq> comps ''/m/.OTHER_SERVERS/b.org''" by code_simp
  then have f: "fs_nodes (wd_fs ?w) (resolve (wd_fs ?w) sample_path) = Some (File sample_mail)" "resolve (wd_fs ?w) sample_path = comps sample_path"
    "fs_nodes (wd_fs ?w) (resolve (wd_fs ?w) ''/m/.OTHER_SERVERS/b.org'') = Some Dir"
    by (simp_all add: sample_world_def resolve_def sample_path_def del: comps_lead)
  show ?thesis
    using unresolvable_domain_loses_mail [of ?server 0 0 "[start_thread False (new_thread 0)]" "start_thread False (new_thread 0)" "''b.org''" ?w
        "\<lambda>_. sample_net" "''/m/.OTHER_SERVERS/b.org''" "[]"] store f
    by (simp add: start_thread_def new_thread_def sample_net_def) (auto simp: sample_world_def)
qed

text \<open>
  Connecting while deliveries are in progress forgets them: the first connection of a timeout turn
  makes a new array for itself alone, but the number of deliveries still counts the old ones, and
  the next turn reads behind the array, whatever \<open>pselect\<close> says. With no delivery in progress, the
  new connection is the only one and the next turn can watch its socket.
\<close>

theorem connecting_forgets_deliveries:
  assumes "fd_in_range (sc_socket_desc cont)" "th_multiplex_context_size thr = k"
  shows "\<exists>t. add_delivery 0 cont server thr = Some t \<and> th_multiplex_context t = Some [delivery_of cont server]
    \<and> th_multiplex_context_size t = Suc k
    \<and> (0 < k \<longrightarrow> (\<forall>path listing env e sel threads w. thread_turn path listing env e sel threads t w = UB))
    \<and> (k = 0 \<longrightarrow> (\<exists>u. reset_socket_to_context t = Some u \<and> th_read_fds u = {sc_socket_desc cont}))"
proof -
  let ?t = "thr\<lparr>th_multiplex_context := Some [delivery_of cont server], th_multiplex_context_size := Suc k\<rparr>"
  have "set_ctx (thr\<lparr>th_multiplex_context := Some [mc_new]\<rparr>) 0 (delivery_of cont server)
      = Some (thr\<lparr>th_multiplex_context := Some [delivery_of cont server]\<rparr>)"
    by (simp add: set_ctx_def arr_set_def)
  then have "add_delivery 0 cont server thr = add_socket_to_context (sc_socket_desc cont) ?t"
    using assms(2) by (simp add: add_delivery_def reallocate_memory_def)
  moreover obtain t where t: "add_socket_to_context (sc_socket_desc cont) ?t = Some t"
    "th_multiplex_context t = Some [delivery_of cont server]" "th_multiplex_context_size t = Suc k"
    using assms(1) by (simp add: add_socket_to_context_def FD_SET_def Let_def)
  moreover have "reset_socket_to_context t = UB" if "0 < k"
    using that t(2,3) by (cases k) (auto simp: reset_socket_to_context_def ctx_at_def arr_get_def split: bind_splits)
  moreover have "\<exists>u. reset_socket_to_context t = Some u \<and> th_read_fds u = {sc_socket_desc cont}" if "k = 0"
    using that t(2,3) assms(1) by (simp add: reset_socket_to_context_def ctx_at_def arr_get_def FD_SET_def delivery_of_def)
  ultimately show ?thesis by (simp add: thread_turn_def)
qed

theorem connecting_forgets_deliveries_witness:
  "\<exists>t. add_delivery 0 \<lparr>sc_socket_desc = 7, sc_state_code = SMTP_CONNECT\<rparr> (mc_server (sample_delivery 5)) sample_thread = Some t
     \<and> th_multiplex_context_size t = 2
     \<and> thread_turn NULL (\<lambda>_. []) (\<lambda>_. sample_net) (\<lambda>_. sample_io) SelectTimeout [] t sample_world = UB"
  using connecting_forgets_deliveries [of "\<lparr>sc_socket_desc = 7, sc_state_code = SMTP_CONNECT\<rparr>" sample_thread 1 "mc_server (sample_delivery 5)"]
  by (fastforce simp: fd_in_range_def FD_SETSIZE_def sample_thread_def numeral_2_eq_2)
end
