(* ===== verification/Relay.thy ===== *)
theory Relay
  imports Delivery ClientContext
begin

text \<open>
  The two programs together. The server leaves mail for another server as a file whose header lines
  name the sender and the recipients (\<open>Delivery\<close>); the client reads that file (\<open>ClientMaildir\<close>) and
  sends it as a sequence of requests (\<open>ClientContext\<close>), which the next server parses (\<open>Smtp\<close>) and
  delivers (\<open>Delivery\<close>). Here the ends of these models are joined.
\<close>

section \<open>What the server writes is what the client reads\<close>

lemma alnum_facts:
  assumes "is_alnum c"
  shows "c \<noteq> NUL" "c \<notin> {CHR ''@'', CHR '','', CHR '':'', CHR 0x0A, CHR '' '', CHR 0x09}"
  using assms by (auto simp: is_alnum_def is_digit_def is_alpha_def NUL_def)

lemma alnum_dot_plain:
  assumes "s \<noteq> []" "\<forall>c\<in>set s. is_alnum c \<or> c = CHR ''.''"
  shows "plain_part s"
  using assms alnum_facts by (fastforce simp: plain_part_def c_string_def NUL_def)

lemma address_plain: "valid_mailbox m \<Longrightarrow> plain_address (address m)"
proof -
  assume "valid_mailbox m"
  then obtain u d where m: "m = \<lparr>user_name = Some u, server_name = Some d\<rparr>" "valid_login u" "valid_domain d" by (auto simp: valid_mailbox_def)
  then have "plain_part u" "plain_part d" by (auto simp: valid_login_def valid_domain_def intro: alnum_dot_plain)
  then show "plain_address (address m)" using m(1) by (auto simp: plain_address_def address_def)
qed

lemma date_plain: "plain_value (dec_string_int n)"
proof -
  have s: "set (dec_string_int n) \<subseteq> insert (CHR ''-'') (set digits)" by (rule set_dec_string_int)
  have ne: "dec_string_int n \<noteq> []" by (simp add: dec_string_int_def)
  then have "hd (dec_string_int n) \<in> insert (CHR ''-'') (set digits)" using s hd_in_set by blast
  then have "\<not> is_blank (hd (dec_string_int n))" by (auto simp: is_blank_def digits_def)
  then show ?thesis using s ne by (auto simp: plain_value_def c_string_def digits_def NUL_def)
qed

lemma commas: "rcpts \<noteq> [] \<Longrightarrow>
    concat (map (\<lambda>m. address m @ '','') (butlast rcpts)) @ address (last rcpts) = join_with (CHR '','') (map address rcpts)"
  by (induction rcpts rule: induct_list012) simp_all

lemma header_text_lines:
  assumes "rcpts \<noteq> []"
  shows "header_text now f rcpts = header_line ''X-Postman-From'' (address f) @ header_line ''X-Postman-Date'' (dec_string_int now)
    @ header_line ''X-Postman-To'' (join_with (CHR '','') (map address rcpts)) @ [CHR 0x0D, CHR 0x0A]"
  unfolding commas [OF assms, symmetric] by (simp add: header_text_def header_line_def SMTP_COMMAND_END_def)

lemma stored_mail_read:
  assumes "fs_nodes fs (resolve fs path) = Some (File (header_text now f rcpts @ concat ls @ q))"
    "valid_mailbox f" "rcpts \<noteq> []" "\<forall>m\<in>set rcpts. valid_mailbox m" "\<forall>l\<in>set ls. file_line l" "c_string q" "CHR 0x0A \<notin> set q"
  obtains m where "read_message fs path = Some (Some m)" "ms_from m = Some (address f)" "ms_to m = map address rcpts"
    "ms_to_size m = length rcpts" "ms_strings m = ls" "ms_strings_size m = length ls" "ms_directory m = Some path"
proof -
  have "\<forall>a\<in>set (map address rcpts). plain_address a" using assms(4) address_plain by auto
  from read_message_run [OF _ address_plain [OF assms(2)] date_plain _ this assms(5-7), of fs path now] assms(1,3)
  show thesis using that by (auto simp: header_text_lines)
qed

section \<open>What the client sends is what the server parses\<close>

lemma in_Seq: "x \<in> lang (Seq r q) \<longleftrightarrow> (\<exists>u v. x = u @ v \<and> u \<in> lang r \<and> v \<in> lang q)"
  by (simp only: lang.simps mem_Collect_eq)

lemma in_Alt: "x \<in> lang (Alt r q) \<longleftrightarrow> x \<in> lang r \<or> x \<in> lang q"
  by (simp only: lang.simps Un_iff)

declare Str.simps(3) [simp del] lang.simps(3) [simp del]

lemma SeqI: "u \<in> lang r \<Longrightarrow> v \<in> lang q \<Longrightarrow> u @ v \<in> lang (Seq r q)"
  unfolding in_Seq by iprover

lemma lang_Str: "s \<noteq> [] \<Longrightarrow> lang (Str s) = {x. map to_lower x = map to_lower s}"
proof (induction s rule: Str.induct)
  case (3 c d s)
  have "x \<in> lang (Str (c # d # s)) \<longleftrightarrow> map to_lower x = map to_lower (c # d # s)" for x
  proof -
    have IH: "v \<in> lang (Str (d # s)) \<longleftrightarrow> map to_lower v = map to_lower (d # s)" for v using 3 by simp
    have L: "u \<in> lang (Lit c) \<longleftrightarrow> (\<exists>y. u = [y] \<and> to_lower y = to_lower c)" for u by (auto simp: Lit_def)
    show ?thesis
    proof
      assume "x \<in> lang (Str (c # d # s))"
      then obtain y v where "x = [y] @ v" "to_lower y = to_lower c" "map to_lower v = map to_lower (d # s)"
        unfolding Str.simps(3) in_Seq IH L by iprover
      then show "map to_lower x = map to_lower (c # d # s)" by simp
    next
      assume x: "map to_lower x = map to_lower (c # d # s)"
      then obtain y v where y: "x = y # v" by (cases x) auto
      then have "[y] \<in> lang (Lit c)" "v \<in> lang (Str (d # s))" using x unfolding IH L by simp_all
      then have "[y] @ v \<in> lang (Str (c # d # s))" unfolding Str.simps(3) by (rule SeqI)
      then show "x \<in> lang (Str (c # d # s))" using y by simp
    qed
  qed
  then show ?case by (intro set_eqI) (simp only: mem_Collect_eq)
qed (auto simp: Lit_def map_eq_Cons_conv)

lemma lang_Str_length: "s \<noteq> [] \<Longrightarrow> x \<in> lang (Str s) \<Longrightarrow> length x = length s"
  using lang_Str [of s] map_eq_imp_length_eq by auto

lemma lang_Star_Cls: "w \<in> lang (Star (Cls p)) \<Longrightarrow> \<forall>c\<in>set w. p c"
  by (simp del: lang.simps(2) add: star_lang_Cls)

lemma lang_Plus_space: "w \<in> lang (Plus Space) \<Longrightarrow> w \<noteq> [] \<and> (\<forall>c\<in>set w. is_space c)"
  using lang_Plus_Cls [of w is_space] by (auto simp: Space_def)

text \<open>A keyword and a blank of a pattern are found only where the text has a blank behind the keyword.\<close>

lemma keyword_blank:
  assumes "matches_at r s b e" "\<And>x. x \<in> lang r \<Longrightarrow> \<exists>u v. x = u @ v \<and> u \<in> K \<and> length u = 4 \<and> v \<noteq> [] \<and> is_space (hd v)"
    "\<And>i. i < length s \<Longrightarrow> is_space (s ! i) \<Longrightarrow> i = 4"
  shows "b = 0" "take 4 s \<in> K"
proof -
  from assms(1) have m: "b \<le> e" "e \<le> length s" "segment b e s \<in> lang r" by (simp_all add: matches_at_def)
  from assms(2) [OF m(3)] obtain u v where uv: "segment b e s = u @ v" "u \<in> K" "length u = 4" "v \<noteq> []" "is_space (hd v)" by blast
  have len: "b + 4 < e" using arg_cong [OF uv(1), of length] uv(3,4) m(1,2) by (cases v) simp_all
  have nth: "segment b e s ! i = s ! (b + i)" if "i < e - b" for i using that m(1,2) by (simp add: segment_def nth_append)
  have "segment b e s ! 4 = hd v" using uv(1,3,4) by (simp add: nth_append hd_conv_nth)
  then have "is_space (s ! (b + 4))" using nth [of 4] uv(5) len by simp
  then show "b = 0" using assms(3) [of "b + 4"] len m(2) by simp
  moreover have "take 4 (segment b e s) = u" using uv(1,3) by simp
  ultimately show "take 4 s \<in> K" using uv(2) len by (simp add: segment_def take_take min_def)
qed

definition keyword_then_blank :: "string \<Rightarrow> string \<Rightarrow> bool" where
  "keyword_then_blank k x \<longleftrightarrow> (\<exists>u v. x = u @ v \<and> map to_lower u = map to_lower k \<and> v \<noteq> [] \<and> is_space (hd v))"

lemma Seq_keyword:
  assumes "x \<in> lang (Seq (Str k) (Seq (Plus Space) r))" "k \<noteq> []"
  shows "keyword_then_blank k x"
proof -
  obtain u v w where x: "x = u @ v @ w" "u \<in> lang (Str k)" "v \<in> lang (Plus Space)" using assms(1) unfolding in_Seq by iprover
  then show ?thesis using lang_Plus_space [OF x(3)] lang_Str [OF assms(2)] unfolding keyword_then_blank_def
    by (intro exI [of _ u] exI [of _ "v @ w"]) (cases v; simp)
qed

text \<open>The text of a command: its keyword, a blank, and a rest without blanks.\<close>

definition one_blank :: "string \<Rightarrow> string \<Rightarrow> bool" where
  "one_blank k s \<longleftrightarrow> length k = 4 \<and> (\<exists>t. s = k @ CHR '' '' # t \<and> (\<forall>c\<in>set (k @ t). \<not> is_space c))"

lemma one_blank_at: "one_blank k s \<Longrightarrow> i < length s \<Longrightarrow> is_space (s ! i) \<Longrightarrow> i = 4"
  by (fastforce simp: one_blank_def nth_append nth_Cons' split: if_splits)

lemma no_hello:
  assumes "one_blank k s" "map to_lower k \<noteq> ''helo''" "map to_lower k \<noteq> ''ehlo''"
  shows "regexec RE_HELLO s = None"
proof -
  have K: "\<exists>u v. x = u @ v \<and> u \<in> {u. map to_lower u \<in> {''helo'', ''ehlo''}} \<and> length u = 4 \<and> v \<noteq> [] \<and> is_space (hd v)"
    if hello: "x \<in> lang RE_HELLO" for x
  proof -
    obtain u v where x: "x = u @ v" "u \<in> lang (Str ''ehlo'') \<union> lang (Str ''helo'')" "v \<in> lang (Plus Space)"
      using hello unfolding RE_HELLO_def in_Seq [of x] in_Alt Un_iff by iprover
    have low: "map to_lower ''ehlo'' = ''ehlo''" "map to_lower ''helo'' = ''helo''" by code_simp+
    have "map to_lower u \<in> {''helo'', ''ehlo''}" using x(2) lang_Str [of "''ehlo''"] lang_Str [of "''helo''"] low by auto
    moreover have "length u = 4" using x(2) lang_Str_length [of "''ehlo''" u] lang_Str_length [of "''helo''" u] by auto
    moreover have "v \<noteq> []" "is_space (hd v)" using lang_Plus_space [OF x(3)] by auto
    ultimately show ?thesis using x(1) by (intro exI [of _ u] exI [of _ v]) simp
  qed
  have "\<not> matches_at RE_HELLO s b e" for b e
  proof
    assume "matches_at RE_HELLO s b e"
    from keyword_blank(2) [OF this K one_blank_at [OF assms(1)]] have "take 4 s \<in> {u. map to_lower u \<in> {''helo'', ''ehlo''}}" .
    moreover have "take 4 s = k" using assms(1) by (auto simp: one_blank_def)
    ultimately show False using assms(2,3) by auto
  qed
  then show ?thesis by (simp add: regexec_None)
qed

lemma no_keyword:
  assumes "one_blank k s" "map to_lower k \<noteq> map to_lower q" "length q = 4"
  shows "regexec (Seq (Str q) (Seq (Plus Space) r)) s = None"
proof -
  have q: "q \<noteq> []" using assms(3) by auto
  have K: "\<exists>u v. x = u @ v \<and> u \<in> {u. map to_lower u = map to_lower q} \<and> length u = 4 \<and> v \<noteq> [] \<and> is_space (hd v)"
    if "x \<in> lang (Seq (Str q) (Seq (Plus Space) r))" for x
    using Seq_keyword [OF that q] assms(3) map_eq_imp_length_eq unfolding keyword_then_blank_def by fastforce
  have "\<not> matches_at (Seq (Str q) (Seq (Plus Space) r)) s b e" for b e
  proof
    assume "matches_at (Seq (Str q) (Seq (Plus Space) r)) s b e"
    from keyword_blank(2) [OF this K one_blank_at [OF assms(1)]] have "take 4 s \<in> {u. map to_lower u = map to_lower q}" .
    moreover have "take 4 s = k" using assms(1) by (auto simp: one_blank_def)
    ultimately show False using assms(2) by auto
  qed
  then show ?thesis by (simp add: regexec_None)
qed

text \<open>A match that starts the text and can go no further is the one that is found.\<close>

lemma regexec_prefix:
  assumes "p \<in> lang r" "\<And>w. w \<in> lang r \<Longrightarrow> c \<notin> set w"
  shows "regexec r (p @ c # s) = Some (0, length p)"
proof -
  have m: "matches_at r (p @ c # s) 0 (length p)" using assms(1) by (simp add: matches_at_def segment_def)
  then obtain b e where be: "regexec r (p @ c # s) = Some (b, e)" using regexec_None [of r "p @ c # s"] by fastforce
  note f = regexec_Some [OF be]
  have b: "b = 0" using f(5) [OF m] by simp
  have "length p \<le> e" using f(6) m b by simp
  moreover have "e \<le> length p"
  proof (rule ccontr)
    assume "\<not> e \<le> length p"
    then have "c \<in> set (segment b e (p @ c # s))" using b by (auto simp: segment_def take_Cons' gr0_conv_Suc)
    then show False using assms(2) [OF f(4)] by simp
  qed
  ultimately show ?thesis using be b by simp
qed

text \<open>The mailboxes that a server accepts in an envelope: letters and digits, an at sign, a domain with a dot.\<close>

definition relayable :: "smtp_mailbox \<Rightarrow> bool" where
  "relayable m \<longleftrightarrow>
     (case (user_name m, server_name m) of
        (Some u, Some d) \<Rightarrow> u \<noteq> [] \<and> (\<forall>c\<in>set u. is_alnum c) \<and> length d \<in> set (ends RE_DOMAIN d)
      | _ \<Rightarrow> False)"

lemma alnums_lang: "u \<noteq> [] \<Longrightarrow> \<forall>c\<in>set u. is_alnum c \<Longrightarrow> u \<in> lang (Plus Alnum)"
proof -
  have star: "\<forall>c\<in>set v. is_alnum c \<Longrightarrow> v \<in> star_lang {[c] |c. is_alnum c}" for v
  proof (induction v)
    case (Cons c v)
    then have "[c] @ v \<in> star_lang {[c] |c. is_alnum c}" by (intro star_step) auto
    then show ?case by simp
  qed (rule star_Nil)
  assume u: "u \<noteq> []" "\<forall>c\<in>set u. is_alnum c"
  then obtain c v where "u = [c] @ v" "is_alnum c" "\<forall>c\<in>set v. is_alnum c" by (cases u) auto
  with star [of v] show ?thesis unfolding Plus_def Alnum_def by (simp only:) (intro SeqI; simp)
qed

lemma relayableD:
  assumes "relayable m"
  obtains u d where "m = \<lparr>user_name = Some u, server_name = Some d\<rparr>" "address m = u @ ''@'' @ d" "address m \<in> lang RE_MAILBOX"
    "\<forall>c\<in>set u. is_alnum c" "\<forall>c\<in>set d. is_alnum c \<or> c = CHR ''.''" "valid_mailbox m" "mailbox_of (address m) = m"
proof -
  obtain u d where ud: "user_name m = Some u" "server_name m = Some d" "u \<noteq> []" "\<forall>c\<in>set u. is_alnum c" "length d \<in> set (ends RE_DOMAIN d)"
    using assms by (auto simp: relayable_def split: option.splits)
  have m: "m = \<lparr>user_name = Some u, server_name = Some d\<rparr>" using ud by simp
  have d: "d \<in> lang RE_DOMAIN" using ud(5) by (simp add: ends_lang)
  have "''@'' @ d \<in> lang RE_AT_DOMAIN" unfolding RE_AT_DOMAIN_def by (intro SeqI d) (simp add: lang_Lit_nonletter)
  then have "u @ ''@'' @ d \<in> lang RE_MAILBOX" unfolding RE_MAILBOX_def by (intro SeqI alnums_lang [OF ud(3,4)])
  moreover have "CHR ''@'' \<notin> set u" using ud(4) by auto
  then have "takeWhile (\<lambda>c. c \<noteq> CHR ''@'') (u @ ''@'' @ d) = u" "dropWhile (\<lambda>c. c \<noteq> CHR ''@'') (u @ ''@'' @ d) = ''@'' @ d"
    by (induction u) auto
  ultimately show thesis
    using that [OF m] lang_domain_chars [OF d] lang_domain_nonempty [OF d] m ud(3,4)
    by (simp add: address_def mailbox_of_def valid_mailbox_def valid_login_def valid_domain_def)
qed

lemma mailbox_word_chars: "w \<in> lang RE_MAILBOX \<Longrightarrow> \<forall>c\<in>set w. is_alnum c \<or> c = CHR ''.'' \<or> c = CHR ''@''"
  by (elim lang_mailbox) (auto dest: lang_domain_chars)

text \<open>A path of a mailbox: it is found, and the mailbox in it is the whole of it.\<close>

lemma path_of_mailbox:
  assumes "w \<in> lang RE_MAILBOX"
  shows "regexec RE_PATH (CHR ''<'' # w @ ''>'') \<noteq> None" "path_mailbox (CHR ''<'' # w @ ''>'') = mailbox_of w"
proof -
  let ?s = "CHR ''<'' # w @ ''>''"
  note chars = mailbox_word_chars [OF assms]
  have "[] \<in> lang RE_ROUTE_PATH" by (simp add: RE_ROUTE_PATH_def Opt_def)
  then have "[CHR ''<''] @ [] @ w @ [CHR ''>''] \<in> lang RE_PATH"
    unfolding RE_PATH_def by (intro SeqI assms) (simp_all add: lang_Lit_nonletter)
  then have "matches_at RE_PATH ?s 0 (length ?s)" by (simp add: matches_at_def segment_def)
  then show "regexec RE_PATH ?s \<noteq> None" by (auto simp: regexec_None)
  have m: "matches_at RE_MAILBOX ?s 1 (1 + length w)" using assms by (simp add: matches_at_def segment_def)
  then obtain b e where be: "regexec RE_MAILBOX ?s = Some (b, e)" using regexec_None [of RE_MAILBOX ?s] by fastforce
  note f = regexec_Some [OF be]
  obtain u d where ud: "segment b e ?s = u @ CHR ''@'' # d" "\<forall>c\<in>set u. is_alnum c" "u \<noteq> []" using lang_mailbox [OF f(4)] by metis
  have len: "b < e" "e \<le> length ?s" using arg_cong [OF ud(1), of length] f(2,3) by simp_all
  have in_word: "c \<in> set (segment b e ?s) \<Longrightarrow> c \<noteq> CHR ''<'' \<and> c \<noteq> CHR ''>''" for c
    using mailbox_word_chars [OF f(4)] by (auto simp: is_alnum_def is_digit_def is_alpha_def)
  have "b \<le> 1" using f(5) [OF m] .
  moreover have "b \<noteq> 0"
  proof
    assume "b = 0"
    then have "CHR ''<'' \<in> set (segment b e ?s)" using len by (auto simp: segment_def take_Cons' gr0_conv_Suc)
    then show False using in_word by blast
  qed
  ultimately have b: "b = 1" by simp
  then have "1 + length w \<le> e" using f(6) m by simp
  moreover have "e \<noteq> length ?s"
  proof
    assume "e = length ?s"
    then have "CHR ''>'' \<in> set (segment b e ?s)" using b by (simp add: segment_def)
    then show False using in_word by blast
  qed
  ultimately have "e = 1 + length w" using len by simp
  then show "path_mailbox ?s = mailbox_of w" using be b by (simp add: path_mailbox_def segment_def)
qed

text \<open>The pattern of a command with an argument: two keywords, blanks and a colon.\<close>

definition argument_pattern :: "string \<Rightarrow> string \<Rightarrow> rx" where
  "argument_pattern a b =
     Seq (Str a) (Seq (Plus Space) (Seq (Str b) (Seq (Star Space) (Seq (Lit CHR '':'') (Star Space)))))"

lemma argument_patterns: "RE_MAIL_FROM = argument_pattern ''mail'' ''from''" "RE_RCPT_TO = argument_pattern ''rcpt'' ''to''"
  by (simp_all only: RE_MAIL_FROM_def RE_RCPT_TO_def argument_pattern_def)

lemma lang_Str_chars: "a \<noteq> [] \<Longrightarrow> \<not> is_alpha c \<Longrightarrow> \<forall>x\<in>set a. is_alpha x \<Longrightarrow> w \<in> lang (Str a) \<Longrightarrow> c \<notin> set w"
proof
  assume a: "a \<noteq> []" "\<not> is_alpha c" "\<forall>x\<in>set a. is_alpha x" "w \<in> lang (Str a)" "c \<in> set w"
  have "to_lower ` set w = to_lower ` set a" using lang_Str [OF a(1)] a(4) by (auto simp flip: set_map)
  then obtain x where x: "x \<in> set a" "to_lower c = to_lower x" using a(5) by (metis imageE imageI)
  have "to_lower c = c" using a(2) by (auto simp: to_lower_def is_alpha_def)
  moreover have "is_alpha (to_lower x)" using a(3) x(1) by (auto simp: to_lower_def is_alpha_def)
  ultimately show False using x(2) a(2) by simp
qed

lemma argument_pattern_chars:
  assumes "w \<in> lang (argument_pattern a b)" "a \<noteq> []" "b \<noteq> []" "\<forall>x\<in>set (a @ b). is_alpha x"
  shows "CHR ''<'' \<notin> set w"
proof -
  obtain u1 u2 u3 u4 u5 u6 where w: "w = u1 @ u2 @ u3 @ u4 @ u5 @ u6" "u1 \<in> lang (Str a)" "u2 \<in> lang (Plus Space)" "u3 \<in> lang (Str b)"
    "u4 \<in> lang (Star Space)" "u5 \<in> lang (Lit CHR '':'')" "u6 \<in> lang (Star Space)"
    using assms(1) unfolding argument_pattern_def in_Seq by iprover
  have lt: "\<not> is_space (CHR ''<'')" "\<not> is_alpha (CHR ''<'')" "\<not> is_alpha (CHR '':'')" by (simp_all add: is_space_def is_alpha_def)
  have "CHR ''<'' \<notin> set u1" "CHR ''<'' \<notin> set u3"
    using lang_Str_chars [OF assms(2) lt(2) _ w(2)] lang_Str_chars [OF assms(3) lt(2) _ w(4)] assms(4) by simp_all
  moreover have "CHR ''<'' \<notin> set u2" using lang_Plus_space [OF w(3)] lt(1) by auto
  moreover have "CHR ''<'' \<notin> set u4" "CHR ''<'' \<notin> set u6"
    using lang_Star_Cls [of u4 is_space] lang_Star_Cls [of u6 is_space] w(5,7) lt(1) unfolding Space_def by blast+
  moreover have "CHR ''<'' \<notin> set u5" using w(6) lt(3) by (simp add: lang_Lit_nonletter)
  ultimately show ?thesis using w(1) by simp
qed

lemma argument_found:
  assumes "map to_lower A = map to_lower a" "map to_lower B = map to_lower b" "a \<noteq> []" "b \<noteq> []" "\<forall>x\<in>set (a @ b). is_alpha x"
  shows "regexec (argument_pattern a b) ((A @ '' '' @ B @ '':'') @ CHR ''<'' # s) = Some (0, length (A @ '' '' @ B @ '':''))"
proof (rule regexec_prefix)
  have e: "[] \<in> lang (Star Space)" by (simp add: star_Nil)
  have colon: "\<not> is_alpha (CHR '':'')" by (simp add: is_alpha_def)
  have blank1: "'' '' \<in> lang (Plus Space)"
  proof -
    have "'' '' @ [] \<in> lang (Seq Space (Star Space))" by (rule SeqI [OF _ e]) (simp add: Space_def is_space_def)
    then show ?thesis by (simp add: Plus_def)
  qed
  have "A @ '' '' @ B @ [] @ '':'' @ [] \<in> lang (argument_pattern a b)"
    unfolding argument_pattern_def
    by (intro SeqI e blank1) (use assms(1-4) colon in \<open>simp_all add: lang_Str lang_Lit_nonletter\<close>)
  then show "A @ '' '' @ B @ '':'' \<in> lang (argument_pattern a b)" by simp
qed (rule argument_pattern_chars [OF _ assms(3-5)])

text \<open>The lines of the envelope.\<close>

lemma trimmed_crlf:
  assumes "s \<noteq> []" "\<not> SPACE_SYMBOLS_CHECK (hd s)" "\<not> SPACE_SYMBOLS_CHECK (last s)"
  shows "trimmed (crlf_line s) = s" "\<not> blank (crlf_line s)"
proof -
  obtain c t where s: "s = c # t" "\<not> SPACE_SYMBOLS_CHECK c" using assms(1,2) by (cases s) auto
  obtain u d where r: "s = u @ [d]" "\<not> SPACE_SYMBOLS_CHECK d" using assms(1,3) by (cases s rule: rev_cases) auto
  have e: "SPACE_SYMBOLS_CHECK (CHR 0x0A)" "SPACE_SYMBOLS_CHECK (CHR 0x0D)" by (simp_all add: SPACE_SYMBOLS_CHECK_def)
  have "dropWhile SPACE_SYMBOLS_CHECK (crlf_line s) = crlf_line s" using s by (simp add: crlf_line_def)
  moreover have "dropWhile SPACE_SYMBOLS_CHECK (rev (crlf_line s)) = rev s" using r e by (simp add: crlf_line_def)
  ultimately show "trimmed (crlf_line s) = s" by (simp add: trimmed_def)
  show "\<not> blank (crlf_line s)" using s by (auto simp: blank_def crlf_line_def)
qed

lemma envelope_text:
  assumes "relayable m"
  shows "c_string (address m)" "\<forall>c\<in>set (address m). \<not> is_space c"
proof -
  obtain u d where m: "address m = u @ ''@'' @ d" "\<forall>c\<in>set u. is_alnum c" "\<forall>c\<in>set d. is_alnum c \<or> c = CHR ''.''"
    by (rule relayableD [OF assms])
  have no: "c \<noteq> NUL \<and> \<not> is_space c" if "is_alnum c" for c
    using that by (auto simp: is_alnum_def is_digit_def is_alpha_def is_space_def NUL_def)
  have "CHR ''.'' \<noteq> NUL" "\<not> is_space (CHR ''.'')" "CHR ''@'' \<noteq> NUL" "\<not> is_space (CHR ''@'')"
    by (simp_all add: is_space_def NUL_def)
  moreover have "\<forall>c\<in>set u. c \<noteq> NUL \<and> \<not> is_space c" using m(2) no by simp
  moreover have "\<forall>c\<in>set d. c \<noteq> NUL \<and> \<not> is_space c"
  proof
    fix c assume "c \<in> set d"
    then have "is_alnum c \<or> c = CHR ''.''" using m(3) by simp
    then show "c \<noteq> NUL \<and> \<not> is_space c" using no [of c] calculation(1,2) by (elim disjE) simp_all
  qed
  ultimately have "\<forall>c\<in>set (address m). c \<noteq> NUL \<and> \<not> is_space c" unfolding m(1) by (simp add: ball_Un)
  then show "c_string (address m)" "\<forall>c\<in>set (address m). \<not> is_space c" by (auto simp: c_string_def)
qed

lemma envelope_command:
  assumes "relayable m" "k = ''MAIL'' \<and> q = ''from'' \<and> c = mail_cmd (Some m) \<or> k = ''RCPT'' \<and> q = ''to'' \<and> c = rcpt_cmd m"
  shows "line_command (crlf_line ((k @ '' '' @ q @ '':'') @ CHR ''<'' # address m @ ''>'')) c"
proof -
  let ?s = "(k @ '' '' @ q @ '':'') @ CHR ''<'' # address m @ ''>''"
  note chars = envelope_text [OF assms(1)]
  have w: "address m \<in> lang RE_MAILBOX" "mailbox_of (address m) = m" by (rule relayableD [OF assms(1)], assumption)+
  note path = path_of_mailbox [OF w(1)]
  have low: "map to_lower ''MAIL'' = ''mail''" "map to_lower ''RCPT'' = ''rcpt''" "map to_lower ''mail'' = ''mail''" "map to_lower ''rcpt'' = ''rcpt''"
    "map to_lower ''from'' = ''from''" "map to_lower ''to'' = ''to''" by code_simp+
  have letters: "\<forall>x\<in>set (''mail'' @ ''from''). is_alpha x" "\<forall>x\<in>set (''rcpt'' @ ''to''). is_alpha x" by code_simp+
  have cs: "c_string (CHR ''<'' # address m @ ''>'')" using chars(1) by (simp add: NUL_def)
  then have c: "c_string (crlf_line ?s)" using assms(2) by (auto simp: crlf_line_def NUL_def)
  have t: "trimmed (crlf_line ?s) = ?s" "\<not> blank (crlf_line ?s)"
    using trimmed_crlf [of ?s] assms(2) by (auto simp: SPACE_SYMBOLS_CHECK_def)
  have "\<forall>c\<in>set ''MAILRCPTfromto:<>''. \<not> is_space c" by code_simp
  then have "\<forall>c\<in>set (k @ q @ '':'' @ CHR ''<'' # address m @ ''>''). \<not> is_space c" using assms(2) chars(2) by (elim disjE) simp_all
  then have ob: "one_blank k ?s" using assms(2) by (auto simp: one_blank_def)
  have hello: "regexec RE_HELLO ?s = None" by (rule no_hello [OF ob]) (use assms(2) low in auto)
  have "command_of ?s = Some c"
  proof (cases "k = ''MAIL''")
    case True
    then have k: "k = ''MAIL''" "q = ''from''" "c = mail_cmd (Some m)" using assms(2) by auto
    have "regexec RE_MAIL_FROM ?s = Some (0, length (k @ '' '' @ q @ '':''))"
      unfolding argument_patterns by (rule argument_found [OF _ _ _ _ letters(1)]) (simp only: k low, simp only: k low, simp, simp)
    then have "command_of ?s = pr_smtp_mailfrom_proc (CHR ''<'' # address m @ ''>'')" using hello by (simp add: command_of_def)
    then show ?thesis using mailfrom_proc_run [OF cs] path w(2) k(3) by (simp add: mail_cmd_def)
  next
    case False
    then have k: "k = ''RCPT''" "q = ''to''" "c = rcpt_cmd m" using assms(2) by auto
    have "regexec RE_MAIL_FROM ?s = None"
      unfolding RE_MAIL_FROM_def by (rule no_keyword [OF ob]) (simp only: k low, simp, simp)
    moreover have "regexec RE_RCPT_TO ?s = Some (0, length (k @ '' '' @ q @ '':''))"
      unfolding argument_patterns by (rule argument_found [OF _ _ _ _ letters(2)]) (simp only: k low, simp only: k low, simp, simp)
    ultimately have "command_of ?s = pr_smtp_rcptto_proc (CHR ''<'' # address m @ ''>'')" using hello by (simp add: command_of_def)
    then show ?thesis using rcptto_proc_run [OF cs] path w(2) k(3) by (simp add: rcpt_cmd_def)
  qed
  then show ?thesis using c t by (simp add: line_command_def)
qed

lemma envelope_lines:
  assumes "relayable m"
  shows "line_command (crlf_line (''MAIL from:<'' @ address m @ ''>'')) (mail_cmd (Some m))"
    "line_command (crlf_line (''RCPT to:<'' @ address m @ ''>'')) (rcpt_cmd m)"
  using envelope_command [OF assms, of "''MAIL''" "''from''"] envelope_command [OF assms, of "''RCPT''" "''to''"] by simp_all

lemma data_line: "line_command (crlf_line ''DATA'') pr_smtp_data_proc"
  by code_simp

section \<open>Properties\<close>

text \<open>
  C3: What the server stores for another server is what the client reads. After a delivery to the
  server \<open>d\<close>, the new file in its directory reads back as a message with the same sender, exactly
  the recipients of that server in their order, and the complete lines of the text; a last line
  that is not ended is dropped.
\<close>

theorem stored_mail_read_back:
  assumes "store_ok root fs" "maildir_at md root" "valid_domain d" "length d < 255" "valid_mailbox f"
    "unused (drawn draw 0) fs" "message = Some cells" "n \<le> length cells" "take n cells = concat ls @ q"
    "\<forall>l\<in>set ls. file_line l" "c_string q" "CHR 0x0A \<notin> set q"
    "table_get (Some table) (Some d) = Some v" "vec_ok v" "elems v = rcpts" "rcpts \<noteq> []" "\<forall>m\<in>set rcpts. valid_mailbox m"
    "resolve fs path = server_dir root d @ [drawn draw 0]"
  shows "\<exists>fs1 m. deliver_foreign md now draw (Some f) str message n table d fs = Some (fs1, True)
    \<and> read_message fs1 path = Some (Some m) \<and> ms_from m = Some (address f)
    \<and> ms_to m = map address rcpts \<and> ms_to_size m = length rcpts \<and> ms_strings m = ls \<and> ms_strings_size m = length ls"
proof -
  let ?fs1 = "post_foreign root d (drawn draw 0) (header_text now f rcpts @ take n cells) fs"
  have run: "deliver_foreign md now draw (Some f) str message n table d fs = Some (?fs1, True)"
    by (rule deliver_foreign_run [where draw = draw, OF assms(1-4) valid_mailbox_c [OF assms(5)] assms(6-8,13-17)])
  have "resolve ?fs1 path = resolve fs path" by (simp add: post_foreign_def resolve_def with_server_def)
  then have "fs_nodes ?fs1 (resolve ?fs1 path) = Some (File (header_text now f rcpts @ concat ls @ q))"
    using assms(9,18) by (simp add: post_foreign_def)
  from stored_mail_read [OF this assms(5,16,17,10-12)] obtain m where
    "read_message ?fs1 path = Some (Some m)" "ms_from m = Some (address f)" "ms_to m = map address rcpts"
    "ms_to_size m = length rcpts" "ms_strings m = ls" "ms_strings_size m = length ls" .
  with run show ?thesis by blast
qed


definition ann :: smtp_mailbox where "ann = \<lparr>user_name = Some ''ann'', server_name = Some ''a.org''\<rparr>"
definition bob :: smtp_mailbox where "bob = \<lparr>user_name = Some ''bob'', server_name = Some ''y.z''\<rparr>"

lemma sample_mailboxes:
  "relayable ann" "relayable bob" "short_names bob" "address ann = ''ann@a.org''" "address bob = ''bob@y.z''"
  "valid_mailbox ann" "valid_mailbox bob" "valid_domain ''y.z''"
proof -
  show r: "relayable ann" "relayable bob" by code_simp+
  show "valid_mailbox ann" by (rule relayableD [OF r(1)])
  show "valid_mailbox bob" by (rule relayableD [OF r(2)])
  show "valid_domain ''y.z''" by code_simp
qed (simp_all add: short_names_def TABLE_MAX_KEY_LENGTH_def address_def ann_def bob_def)

lemma sample_line: "file_line (crlf_line ''hi'')" "crlf_line ''hi'' \<noteq> SMTP_DATA_END"
  unfolding file_line_def crlf_line_def
  by (rule exI [of _ "''hi'' @ [CHR 0x0D]"], simp add: NUL_def) (simp add: SMTP_DATA_END_def SMTP_COMMAND_END_def)

theorem stored_mail_read_back_witness:
  "\<exists>table fs1 m. deliver_foreign demo_md 5 (\<lambda>_. (5, 0)) (Some ann) ''s'' (Some (crlf_line ''hi'')) 4 table ''y.z'' demo_store = Some (fs1, True)
     \<and> read_message fs1 ''/md/.OTHER_SERVERS/y.z/5_0'' = Some (Some m) \<and> ms_from m = Some ''ann@a.org''
     \<and> ms_to m = [''bob@y.z''] \<and> ms_strings m = [crlf_line ''hi'']"
proof -
  have "\<forall>m\<in>set [bob]. short_domain m" by (simp add: bob_def short_domain_def TABLE_MAX_KEY_LENGTH_def)
  then obtain t keys where k: "Some ` set (elems keys) = server_name ` set [bob]"
    "\<forall>d\<in>set (elems keys). \<exists>v. table_get (Some t) (Some d) = Some v \<and> vec_ok v \<and> elems v = filter (\<lambda>m. server_name m = Some d) [bob]"
    by (rule table_groups) (rule that)
  have "''y.z'' \<in> set (elems keys)" using k(1) by (auto simp: bob_def)
  with k(2) obtain v where t: "table_get (Some t) (Some ''y.z'') = Some v" "vec_ok v" "elems v = [bob]"
    by (auto simp: bob_def)
  have n: "drawn (\<lambda>_. (5, 0)) 0 = ''5_0''" by (simp add: demo_names)
  have u: "unused (drawn (\<lambda>_. (5, 0)) 0) demo_store" unfolding n by (auto simp: unused_def demo_store_def append_eq_Cons_conv)
  have p: "resolve demo_store ''/md/.OTHER_SERVERS/y.z/5_0'' = server_dir [''md''] ''y.z'' @ [drawn (\<lambda>_. (5, 0)) 0]"
    unfolding n by (simp add: resolve_def comps_def server_dir_def)
  show ?thesis
    using stored_mail_read_back [where q = "[]" and ls = "[crlf_line ''hi'']" and message = "Some (crlf_line ''hi'')" and n = 4,
        OF demo_store_ok sample_mailboxes(8) _ sample_mailboxes(6) u refl _ _ _ _ _ t _ _ p, of 5 "''s''"]
      sample_line sample_mailboxes by (fastforce simp: crlf_line_def)
qed

text \<open>
  C2: Mail that is relayed arrives. A client that finds the file of a mail in its store sends, after
  the greeting, exactly the lines of a transaction that the next server accepts: that server stores
  the same sender, recipients and text, with one empty line more at the end of the text, and answers
  250. The mailboxes have the form a server accepts in an envelope, and no line of the text is a
  single dot.
\<close>

theorem relayed_mail_arrives:
  assumes "fs_nodes cfs (resolve cfs path) = Some (File (header_text stamp f xs @ concat ls))"
    "relayable f" "xs \<noteq> []" "\<forall>x\<in>set xs. relayable x \<and> short_names x" "\<forall>l\<in>set ls. file_line l \<and> l \<noteq> SMTP_DATA_END"
    "smtp_inv (uc_smtp user)" "pr_fsm_state (uc_smtp user) = AUTOFSM_ST_CLIENT_INIT" "greeted (uc_smtp user)"
    "maildir_at (me_md env) root" "store_ok root fs" "fresh_names (me_draw env) 0 (length xs) fs"
  shows "\<exists>m sender lines user' fs' ds.
      read_message cfs path = Some (Some m) \<and> ms_from m = Some sender
    \<and> concat (script host sender (ms_to m) (ms_strings m)) = crlf_line (''HELO '' @ host) @ concat lines
    \<and> run_inputs (mail_line env) (user, fs) lines = Some (user', fs')
    \<and> fs' = post root (me_self env) (me_now env) f (concat ls @ [CHR 0x0D, CHR 0x0A]) (first_name (me_draw env)) xs ds fs
    \<and> distinct ds \<and> set ds = domains (filter (\<lambda>x. server_name x \<noteq> Some (me_self env)) xs)
    \<and> c_str (pr_buffer (uc_smtp user')) = Some (reply 250 SMTP_CODE_OK_MSG)"
proof -
  have valid: "relayable x \<Longrightarrow> valid_mailbox x" for x by (rule relayableD)
  have nul: "c_string []" by simp
  obtain m where m: "read_message cfs path = Some (Some m)" "ms_from m = Some (address f)" "ms_to m = map address xs" "ms_strings m = ls"
    using stored_mail_read [of cfs path stamp f xs ls "[]"] assms(1-5) valid by auto
  let ?mail = "crlf_line (''MAIL from:<'' @ address f @ ''>'')" and ?rcpts = "map (\<lambda>x. crlf_line (''RCPT to:<'' @ address x @ ''>'')) xs"
  let ?ls = "ls @ [[CHR 0x0D, CHR 0x0A]]"
  let ?lines = "?mail # ?rcpts @ crlf_line ''DATA'' # ?ls @ [SMTP_DATA_END]"
  have rcpts: "list_all2 (\<lambda>buf x. line_command buf (rcpt_cmd x)) ?rcpts xs"
    using assms(4) envelope_lines(2) by (auto simp: list_all2_conv_all_nth)
  have body: "\<forall>l\<in>set ?ls. c_string l \<and> l \<noteq> SMTP_DATA_END"
    using assms(5) by (auto simp: file_line_def SMTP_DATA_END_def SMTP_COMMAND_END_def NUL_def)
  have "?rcpts \<noteq> []" "\<forall>x\<in>set xs. short_names x" using assms(3,4) by simp_all
  from transaction_delivers [OF assms(6-8) envelope_lines(1) [OF assms(2)] rcpts this(1) data_line body assms(9,10) this(2) assms(11)]
  obtain user' fs' ds where r: "run_inputs (mail_line env) (user, fs) ?lines = Some (user', fs')"
    "fs' = post root (me_self env) (me_now env) f (concat ?ls) (first_name (me_draw env)) xs ds fs" "distinct ds"
    "set ds = domains (filter (\<lambda>x. server_name x \<noteq> Some (me_self env)) xs)" "c_str (pr_buffer (uc_smtp user')) = Some (reply 250 SMTP_CODE_OK_MSG)"
    by blast
  have "concat (script host (address f) (ms_to m) (ms_strings m)) = crlf_line (''HELO '' @ host) @ concat ?lines"
    using m(3,4) by (simp add: script_def o_def SMTP_DATA_END_def SMTP_COMMAND_END_def crlf_line_def)
  with m r show ?thesis by (intro exI [of _ m] exI [of _ "address f"] exI [of _ ?lines] exI [of _ user'] exI [of _ fs'] exI [of _ ds]) simp
qed

theorem relayed_mail_arrives_witness:
  "\<exists>m lines user' fs'.
      read_message \<lparr>fs_nodes = [[''q'', ''1''] \<mapsto> File (header_text 7 ann [bob] @ crlf_line ''hi'')], fs_cwd = []\<rparr> ''/q/1'' = Some (Some m)
    \<and> concat (script ''a.org'' ''ann@a.org'' (ms_to m) (ms_strings m)) = crlf_line ''HELO a.org'' @ concat lines
    \<and> run_inputs (mail_line demo_env) (demo_client (Some demo_address), demo_store) lines = Some (user', fs')
    \<and> fs_nodes fs' [''md'', ''bob'', ''new'', ''5_0''] = Some (File (header_text 5 ann [bob] @ crlf_line ''hi'' @ crlf_line ''''))"
proof -
  let ?cfs = "\<lparr>fs_nodes = [[''q'', ''1''] \<mapsto> File (header_text 7 ann [bob] @ concat [crlf_line ''hi''])], fs_cwd = []\<rparr>"
  have f: "fs_nodes ?cfs (resolve ?cfs ''/q/1'') = Some (File (header_text 7 ann [bob] @ concat [crlf_line ''hi'']))"
    by (simp add: resolve_def comps_def)
  have md: "maildir_at (me_md demo_env) [''md'']" using demo_store_ok by (simp add: demo_env_def)
  have fr: "fresh_names (me_draw demo_env) 0 (length [bob]) demo_store" 
    using demo_fresh by (auto simp: demo_env_def fresh_names_def inj_on_def dest!: bspec [where x = 0])
  have x: "\<forall>x\<in>set [bob]. relayable x \<and> short_names x" "\<forall>l\<in>set [crlf_line ''hi'']. file_line l \<and> l \<noteq> SMTP_DATA_END"
    using sample_mailboxes(2,3) sample_line by simp_all
  from relayed_mail_arrives [OF f sample_mailboxes(1) _ x demo_client_ok(1,2,4) md demo_store_ok(1) fr, of "''a.org''"]
  obtain m sender lines user' fs' ds where r: "read_message ?cfs ''/q/1'' = Some (Some m)" "ms_from m = Some sender"
    "concat (script ''a.org'' sender (ms_to m) (ms_strings m)) = crlf_line ''HELO a.org'' @ concat lines"
    "run_inputs (mail_line demo_env) (demo_client (Some demo_address), demo_store) lines = Some (user', fs')"
    "fs' = post [''md''] (me_self demo_env) (me_now demo_env) ann (concat [crlf_line ''hi''] @ [CHR 0x0D, CHR 0x0A]) (first_name (me_draw demo_env)) [bob] ds demo_store"
    "set ds = domains (filter (\<lambda>x. server_name x \<noteq> Some (me_self demo_env)) [bob])" by auto
  have "valid_mailbox ann" "[bob] \<noteq> []" "\<forall>m\<in>set [bob]. valid_mailbox m" using sample_mailboxes by simp_all
  from stored_mail_read [where q = "[]", OF _ this, of ?cfs "''/q/1''" 7 "[crlf_line ''hi'']"] f sample_line r(1)
  have "ms_from m = Some (address ann)" by auto
  then have s: "sender = ''ann@a.org''" using r(2) sample_mailboxes(4) by simp
  have "ds = []" using r(6) by (simp add: demo_env_def domains_def bob_def)
  then have "fs_nodes fs' [''md'', ''bob'', ''new'', ''5_0''] = Some (File (header_text 5 ann [bob] @ crlf_line ''hi'' @ crlf_line ''''))"
    unfolding r(5) by (simp add: post_def Let_def demo_env_def bob_def post_local_def demo_names crlf_line_def)
  then show ?thesis using r(1,3,4) s by auto
qed
end
