(* ===== verification/Conversation.thy ===== *)
theory Conversation
  imports Server Relay
begin

text \<open>
  The two programs in a conversation. A thread of the client (\<open>ClientContext\<close>) and the connection of a
  server (\<open>Server\<close>) run against each other: what the thread sends in a turn is what the server
  reads next, and the reply of the server is what makes the socket of the thread readable in its
  next turn.
\<close>

declare Str.simps(3) [simp del] lang.simps(3) [simp del]

section \<open>The closed loop\<close>

text \<open>The bytes of the client reach \<open>handler_read\<close> in events of at most \<open>TEMPORARY_BUFFER_SIZE\<close> bytes.\<close>

function serve :: "mail_env \<Rightarrow> user_context \<Rightarrow> fs \<Rightarrow> string \<Rightarrow> (user_context \<times> fs \<times> string) ub" where
  "serve env user fs sent =
     (if sent = [] then Some (user, fs, [])
      else do {
        let n = nat TEMPORARY_BUFFER_SIZE;
        (user1, fs1, answer) \<leftarrow> read_bytes (\<lambda>_. env) user fs (take n sent);
        reply1 \<leftarrow> (case answer of NULL \<Rightarrow> Some [] | Some b \<Rightarrow> c_str (Some b));
        (user2, fs2, reply2) \<leftarrow> serve env user1 fs1 (drop n sent);
        Some (user2, fs2, reply1 @ reply2)
      })"
  by pat_completeness auto
termination
  by (relation "measure (\<lambda>(env, user, fs, sent). length sent)") (auto simp: TEMPORARY_BUFFER_SIZE_def)

declare serve.simps [simp del]

record conversation =
  cv_thread :: thread
  cv_world :: world
  cv_user :: user_context
  cv_store :: fs
  cv_reply :: string

text \<open>A turn of the thread, \<open>run\<close>, and the answer of the server to what was sent in it.\<close>

definition converse_turn ::
    "(selected \<Rightarrow> thread \<Rightarrow> world \<Rightarrow> ((thread option \<times> world) ends) ub) \<Rightarrow> mail_env \<Rightarrow> int \<Rightarrow> conversation \<Rightarrow> conversation ub" where
  "converse_turn run env s cv =
     (let w = cv_world cv in
      case run (SelectReady (readable s (cv_reply cv)) {s}) (cv_thread cv) (arrives s (cv_reply cv) w) of
        Some (Goes (Some t, w1)) \<Rightarrow>
          do {
            (user, fs, reply) \<leftarrow> serve env (cv_user cv) (cv_store cv) (drop (length (wd_output w s)) (wd_output w1 s));
            Some \<lparr>cv_thread = t, cv_world = w1, cv_user = user, cv_store = fs, cv_reply = reply\<rparr>
          }
      | _ \<Rightarrow> UB)"

fun converse ::
    "(selected \<Rightarrow> thread \<Rightarrow> world \<Rightarrow> ((thread option \<times> world) ends) ub) \<Rightarrow> mail_env \<Rightarrow> int \<Rightarrow> nat \<Rightarrow> conversation \<Rightarrow> conversation ub" where
  "converse run env s 0 cv = Some cv"
| "converse run env s (Suc n) cv = do { cv1 \<leftarrow> converse_turn run env s cv; converse run env s n cv1 }"

section \<open>Phases of a conversation\<close>

definition phase ::
    "(selected \<Rightarrow> thread \<Rightarrow> world \<Rightarrow> ((thread option \<times> world) ends) ub) \<Rightarrow> mail_env \<Rightarrow> int \<Rightarrow> nat
      \<Rightarrow> (conversation \<Rightarrow> bool) \<Rightarrow> (conversation \<Rightarrow> bool) \<Rightarrow> bool" where
  "phase run env s n A B \<longleftrightarrow> (\<forall>cv. A cv \<longrightarrow> (\<exists>cv1. converse run env s n cv = Some cv1 \<and> B cv1))"

lemma converse_add: "converse run env s (n + m) cv = do { cv1 \<leftarrow> converse run env s n cv; converse run env s m cv1 }"
  by (induction n arbitrary: cv) (auto split: bind_splits)

lemma phase_append: "phase run env s n A B \<Longrightarrow> phase run env s m B C \<Longrightarrow> phase run env s (n + m) A C"
  by (fastforce simp: phase_def converse_add)

definition both :: "(thread \<times> world \<Rightarrow> bool) \<Rightarrow> (user_context \<times> fs \<times> string \<Rightarrow> bool) \<Rightarrow> conversation \<Rightarrow> bool" where
  "both P R cv \<longleftrightarrow> P (cv_thread cv, cv_world cv) \<and> R (cv_user cv, cv_store cv, cv_reply cv)"

text \<open>A turn in which the thread sends \<open>str\<close> and the server answers it.\<close>

lemma phase_turn:
  assumes "\<And>u f r. R (u, f, r) \<Longrightarrow> session run s P [r] Q"
    "\<And>x. P x \<Longrightarrow> wd_output (snd x) s = out" "\<And>x. Q x \<Longrightarrow> wd_output (snd x) s = out @ str"
    "\<And>u f r. R (u, f, r) \<Longrightarrow> \<exists>u1 f1 r1. serve env u f str = Some (u1, f1, r1) \<and> R' (u1, f1, r1)"
  shows "phase run env s 1 (both P R) (both Q R')"
  unfolding phase_def
proof (intro allI impI)
  fix cv assume cv: "both P R cv"
  have R: "R (cv_user cv, cv_store cv, cv_reply cv)" and P: "P (cv_thread cv, cv_world cv)" using cv by (simp_all add: both_def)
  obtain t w1 where t: "session_turns run s [cv_reply cv] (cv_thread cv) (cv_world cv) = Some (Goes (Some t, w1))" "Q (t, w1)"
    using assms(1) [OF R] P unfolding session_def by blast
  then have run: "run (SelectReady (readable s (cv_reply cv)) {s}) (cv_thread cv) (arrives s (cv_reply cv) (cv_world cv)) = Some (Goes (Some t, w1))"
    by (auto split: option.splits ends.splits prod.splits)
  obtain u1 f1 r1 where sv: "serve env (cv_user cv) (cv_store cv) str = Some (u1, f1, r1)" "R' (u1, f1, r1)"
    using assms(4) [OF R] by blast
  have "drop (length (wd_output (cv_world cv) s)) (wd_output w1 s) = str"
    using assms(2) [OF P] assms(3) [OF t(2)] by simp
  then show "\<exists>cv1. converse run env s 1 cv = Some cv1 \<and> both Q R' cv1"
    using run sv t(2) by (simp add: converse_turn_def both_def)
qed

section \<open>What the server answers\<close>

text \<open>The replies of the server are replies to the client.\<close>

lemma reply_is_reply_line: "100 \<le> code \<Longrightarrow> code < 1000 \<Longrightarrow> reply code t = reply_line code t"
proof -
  assume c: "100 \<le> code" "code < 1000"
  have d: "10 \<le> code div 10" "code div 100 < 10" using div_le_mono [OF c(1), of 10] c(2) by auto
  have "dec_string code = map digit_char [code div 100, code div 10 mod 10, code mod 10]"
    using c d by (simp add: dec_string.simps [of code] dec_string.simps [of "code div 10"] dec_string.simps [of "code div 100"] div_mult2_eq [symmetric])
  then show ?thesis by (simp add: reply_def reply_line_def SMTP_COMMAND_END_def)
qed

lemma good_replies:
  "good_reply (reply 250 SMTP_CODE_OK_MSG)" "good_reply (reply 354 SMTP_CODE_MAIL_INPUT_MSG)"
  unfolding good_reply_def is_reply_def
  by (rule exI [of _ 250], simp add: reply_is_reply_line, rule exI [of _ SMTP_CODE_OK_MSG], simp add: SMTP_CODE_OK_MSG_def NUL_def,
      rule exI [of _ 354], simp add: reply_is_reply_line, rule exI [of _ SMTP_CODE_MAIL_INPUT_MSG], simp add: SMTP_CODE_MAIL_INPUT_MSG_def NUL_def)

text \<open>A line of text that both programs take for one line.\<close>

definition plain_line :: "string \<Rightarrow> bool" where
  "plain_line l \<longleftrightarrow> (\<exists>t. l = crlf_line t \<and> c_string t \<and> CHR 0x0D \<notin> set t \<and> CHR 0x0A \<notin> set t)"

lemma line_len_crlf: "CHR 0x0D \<notin> set t \<Longrightarrow> line_len (crlf_line t @ x) = length t + 2"
proof (induction t)
  case (Cons c t)
  have "c \<noteq> CHR 0x0D" using Cons.prems by auto
  with Cons show ?case by (cases t) (auto simp: crlf_line_def)
qed (simp add: crlf_line_def)

lemma no_cr_cr_line: "CHR 0x0D \<notin> set t \<Longrightarrow> no_cr_cr (crlf_line t)"
proof (induction t)
  case (Cons c t)
  have "c \<noteq> CHR 0x0D" using Cons.prems by auto
  with Cons show ?case by (cases t) (auto simp: crlf_line_def)
qed (simp add: crlf_line_def)

lemma plain_lineD:
  assumes "plain_line l"
  shows "complete l" "first_line (l @ x) = l" "first_line l = l" "no_cr_cr l" "c_string l" "2 \<le> length l" "file_line l" "l \<noteq> [CHR 0x0A]"
proof -
  obtain t where t: "l = crlf_line t" "c_string t" "CHR 0x0D \<notin> set t" "CHR 0x0A \<notin> set t" using assms by (auto simp: plain_line_def)
  show "complete l" using t(1) by (auto simp: complete_def crlf_line_def SMTP_COMMAND_END_def)
  show "first_line (l @ x) = l" "first_line l = l"
    using line_len_crlf [OF t(3), of x] line_len_crlf [OF t(3), of "[]"] t(1) by (simp_all add: first_line_def crlf_line_def)
  show "no_cr_cr l" using no_cr_cr_line [OF t(3)] t(1) by simp
  show "c_string l" "2 \<le> length l" using t(1,2) by (simp_all add: crlf_line_def NUL_def)
  show "l \<noteq> [CHR 0x0A]" using t(1) by (simp add: crlf_line_def)
  show "file_line l" unfolding file_line_def
    by (rule exI [of _ "t @ [CHR 0x0D]"]) (use t in \<open>simp add: crlf_line_def NUL_def\<close>)
qed

lemma split_one_line: "plain_line l \<Longrightarrow> split_lines l = ([l], [])"
proof -
  assume l: "plain_line l"
  have "drop (line_len l) l = []" using plain_lineD(3) [OF l] by (simp add: first_line_all)
  moreover have "split_lines [] = ([], [])" by (simp add: split_lines.simps [of "[]"] complete_def first_line_def SMTP_COMMAND_END_def)
  ultimately show ?thesis using plain_lineD(1,3) [OF l] by (simp add: split_lines.simps [of l])
qed

text \<open>The connection between two requests: what is known of its engine, and its reply.\<close>

definition serving :: "(smtp_state \<Rightarrow> bool) \<Rightarrow> fs \<Rightarrow> string \<Rightarrow> user_context \<times> fs \<times> string \<Rightarrow> bool" where
  "serving K fs r = (\<lambda>(u, f, r1). K (uc_smtp u) \<and> smtp_inv (uc_smtp u) \<and> vec_ok (uc_buffer u) \<and> elems (uc_buffer u) = [] \<and> f = fs \<and> r1 = r)"

lemma serve_one_event:
  assumes "sent \<noteq> []" "length sent \<le> nat TEMPORARY_BUFFER_SIZE" "read_bytes (\<lambda>_. env) u f sent = Some (u1, f1, answer)"
    "answer = NULL \<and> r = [] \<or> answer \<noteq> NULL \<and> c_str answer = Some r"
  shows "serve env u f sent = Some (u1, f1, r)"
  using assms by (subst serve.simps) (auto simp: serve.simps [of env u1 f1 "[]"] Let_def)

lemma serve_command:
  assumes "serving K fs r0 (u, f, r)" "plain_line l" "length l \<le> nat TEMPORARY_BUFFER_SIZE"
    "\<And>s. K s \<Longrightarrow> smtp_inv s \<Longrightarrow> \<exists>s'. smtp_step s l = Some s' \<and> smtp_inv s' \<and> K' s' \<and> pr_status s' = SMTP_STATUS_OK \<and> c_str (pr_buffer s') = Some rep"
  shows "\<exists>u1 f1 r1. serve env u f l = Some (u1, f1, r1) \<and> serving K' fs rep (u1, f1, r1)"
proof -
  have u: "K (uc_smtp u)" "smtp_inv (uc_smtp u)" "vec_ok (uc_buffer u)" "elems (uc_buffer u) = []" "f = fs" using assms(1) by (simp_all add: serving_def)
  note l = plain_lineD [OF assms(2)]
  obtain s' where s: "smtp_step (uc_smtp u) l = Some s'" "smtp_inv s'" "K' s'" "pr_status s' = SMTP_STATUS_OK" "c_str (pr_buffer s') = Some rep"
    using assms(4) [OF u(1,2)] by blast
  obtain v where v: "read_bytes (\<lambda>_. env) u f l = Some (u\<lparr>uc_smtp := s', uc_buffer := v\<rparr>, f, pr_buffer s')" "vec_ok v" "elems v = []"
    using read_one_command [where extra = "[]" and env = "\<lambda>_. env" and fs = f, OF u(2-4) _ l(1) _ l(5) s(1)] l(3,4) s(4) by auto
  have "pr_buffer s' \<noteq> NULL" using s(5) by (cases "pr_buffer s'") (auto simp: c_str_def)
  then have "serve env u f l = Some (u\<lparr>uc_smtp := s', uc_buffer := v\<rparr>, f, rep)"
    by (intro serve_one_event [OF _ assms(3) v(1)]) (use s(5) l(6) in auto)
  then show ?thesis using s(2,3) v(2,3) u(5) by (simp add: serving_def)
qed

text \<open>What the engine knows of the mail while its text is read.\<close>

definition reading :: "smtp_mailbox \<Rightarrow> smtp_mailbox list \<Rightarrow> string \<Rightarrow> smtp_state \<Rightarrow> bool" where
  "reading f xs txt s \<longleftrightarrow> pr_fsm_state s = AUTOFSM_ST_READ_DATA \<and> greeted s \<and> pr_mail_from s = Some f
     \<and> elems (pr_rcpt_list s) = xs \<and> elems (pr_mail_data s) = txt"

lemma handler_text:
  assumes "smtp_inv (uc_smtp u)" "reading f xs txt (uc_smtp u)" "c_string l" "l \<noteq> SMTP_DATA_END"
  obtains s where "\<forall>env. handler_smtp env u l fs = Some (u\<lparr>uc_smtp := s\<rparr>, fs, \<lparr>pair_buffer = NULL, pair_status = SMTP_STATUS_CONTINUE\<rparr>)"
    "smtp_inv s" "reading f xs (txt @ l) s"
proof -
  have st: "pr_fsm_state (uc_smtp u) = AUTOFSM_ST_READ_DATA" using assms(2) by (simp add: reading_def)
  obtain s where s: "\<forall>env. handler_smtp env u l fs = Some (u\<lparr>uc_smtp := s\<rparr>, fs, \<lparr>pair_buffer = NULL, pair_status = SMTP_STATUS_CONTINUE\<rparr>)"
    "smtp_inv s" "pr_fsm_state s = AUTOFSM_ST_READ_DATA" "elems (pr_mail_data s) = elems (pr_mail_data (uc_smtp u)) @ l"
    "pr_mail_from s = pr_mail_from (uc_smtp u)" "pr_rcpt_list s = pr_rcpt_list (uc_smtp u)" by (rule text_line [OF assms(1) st assms(3,4)])
  from step_body [OF assms(1) st assms(3)] obtain t where t: "smtp_step (uc_smtp u) l = Some t" "pr_status t = SMTP_STATUS_CONTINUE"
    using assms(4) by metis
  have h: "pr_hello_addr t = pr_hello_addr (uc_smtp u)"
    using step_quiet [OF t(1) assms(1)] assms(3,4) st by simp
  obtain b e where "smtp_parse (Some (uc_smtp u)) (Some l) (Some err_fresh) = Some (Some t, pr_status t, b, e)" by (rule smtp_step_parse [OF assms(3) t(1)])
  then have "handler_smtp undefined u l fs = Some (u\<lparr>uc_smtp := t\<rparr>, fs, \<lparr>pair_buffer = NULL, pair_status = SMTP_STATUS_CONTINUE\<rparr>)"
    using t(2) by (simp add: handler_smtp_def Let_def)
  then have "u\<lparr>uc_smtp := t\<rparr> = u\<lparr>uc_smtp := s\<rparr>" using s(1) by simp
  then have "t = s" using arg_cong [of _ _ uc_smtp] by fastforce
  then show thesis using s assms(2) h by (intro that [of s]) (simp_all add: reading_def greeted_def)
qed

text \<open>A line of the text is taken without a reply; the end of the mail is delivered and answered.\<close>

lemma serve_text:
  assumes "serving (reading f xs txt) fs r0 (u, g, r)" "plain_line l" "l \<noteq> SMTP_DATA_END" "length l \<le> nat TEMPORARY_BUFFER_SIZE"
  shows "\<exists>u1 g1 r1. serve env u g l = Some (u1, g1, r1) \<and> serving (reading f xs (txt @ l)) fs [] (u1, g1, r1)"
proof -
  have u: "reading f xs txt (uc_smtp u)" "smtp_inv (uc_smtp u)" "vec_ok (uc_buffer u)" "elems (uc_buffer u) = []" "g = fs"
    using assms(1) by (simp_all add: serving_def)
  note l = plain_lineD [OF assms(2)]
  obtain buf where buf: "vec_ok buf" "case feed (\<lambda>_. env) 0 (u\<lparr>uc_buffer := buf\<rparr>) fs l of
       None \<Rightarrow> read_bytes (\<lambda>_. env) u fs l = UB
     | Some (u', fs', answer, rest) \<Rightarrow>
         \<exists>v. vec_ok v \<and> elems v = rest \<and> read_bytes (\<lambda>_. env) u fs l = Some (u'\<lparr>uc_buffer := v\<rparr>, fs', answer)"
    using read_bytes_feed [where env = "\<lambda>_. env" and fs = fs, OF u(3) _ l(4,6)] u(4) by auto
  obtain s where s: "\<forall>env. handler_smtp env (u\<lparr>uc_buffer := buf\<rparr>) l fs = Some (u\<lparr>uc_buffer := buf, uc_smtp := s\<rparr>, fs, \<lparr>pair_buffer = NULL, pair_status = SMTP_STATUS_CONTINUE\<rparr>)"
    "smtp_inv s" "reading f xs (txt @ l) s"
    using handler_text [of "u\<lparr>uc_buffer := buf\<rparr>" f xs "txt" l fs] u(1,2) l(5) assms(3) by auto
  have "feed (\<lambda>_. env) 0 (u\<lparr>uc_buffer := buf\<rparr>) fs l = Some (u\<lparr>uc_buffer := buf, uc_smtp := s\<rparr>, fs, NULL, [])"
    using s(1) l(1,3) by (subst feed.simps) (simp add: c_string_id [OF l(5)])
  with buf(2) obtain v where v: "vec_ok v" "elems v = []" "read_bytes (\<lambda>_. env) u fs l = Some (u\<lparr>uc_smtp := s, uc_buffer := v\<rparr>, fs, NULL)" by auto
  have "serve env u fs l = Some (u\<lparr>uc_smtp := s, uc_buffer := v\<rparr>, fs, [])"
    by (rule serve_one_event [OF _ assms(4) v(3)]) (use l(6) in auto)
  then show ?thesis using s(2,3) v(1,2) u(5) by (simp add: serving_def)
qed

text \<open>What the store holds when the text has been delivered.\<close>

definition posted :: "string list \<Rightarrow> mail_env \<Rightarrow> smtp_mailbox \<Rightarrow> smtp_mailbox list \<Rightarrow> string \<Rightarrow> fs \<Rightarrow> fs \<Rightarrow> bool" where
  "posted root env f xs txt fs fs' \<longleftrightarrow>
     (\<exists>ds. fs' = post root (me_self env) (me_now env) f txt (first_name (me_draw env)) xs ds fs
        \<and> distinct ds \<and> set ds = domains (filter (\<lambda>x. server_name x \<noteq> Some (me_self env)) xs))"

definition END_OF_MAIL :: string where "END_OF_MAIL = [CHR 0x0D, CHR 0x0A] @ crlf_line ''.''"

lemma serve_end:
  assumes "serving (reading f xs txt) fs r0 (u, g, r)" "c_mailbox f" "xs \<noteq> []" "\<forall>x\<in>set xs. deliverable x"
    "maildir_at (me_md env) root" "store_ok root fs" "fresh_names (me_draw env) 0 (length xs) fs"
  shows "\<exists>u1 g1 r1. serve env u g END_OF_MAIL = Some (u1, g1, r1)
    \<and> (\<exists>fs'. posted root env f xs (txt @ [CHR 0x0D, CHR 0x0A]) fs fs'
         \<and> serving (\<lambda>s. pr_fsm_state s = AUTOFSM_ST_CLIENT_INIT) fs' (reply 250 SMTP_CODE_OK_MSG) (u1, g1, r1))"
proof -
  have u: "reading f xs txt (uc_smtp u)" "smtp_inv (uc_smtp u)" "vec_ok (uc_buffer u)" "elems (uc_buffer u) = []" "g = fs"
    using assms(1) by (simp_all add: serving_def)
  let ?s = "END_OF_MAIL" and ?e = "[CHR 0x0D, CHR 0x0A]"
  have s: "?s = ?e @ SMTP_DATA_END" by (simp add: END_OF_MAIL_def crlf_line_def SMTP_DATA_END_def SMTP_COMMAND_END_def)
  have "plain_line (crlf_line [])" unfolding plain_line_def by (rule exI [of _ "[]"]) simp
  then have e: "plain_line ?e" by (simp add: crlf_line_def)
  have d: "complete SMTP_DATA_END" "first_line SMTP_DATA_END = SMTP_DATA_END" "c_string SMTP_DATA_END"
    by (auto simp: complete_def first_line_def SMTP_DATA_END_def SMTP_COMMAND_END_def NUL_def)
  have ok: "no_cr_cr ?s" "2 \<le> length ?s" by (simp_all add: END_OF_MAIL_def crlf_line_def)
  obtain buf where buf: "vec_ok buf" "case feed (\<lambda>_. env) 0 (u\<lparr>uc_buffer := buf\<rparr>) fs ?s of
       None \<Rightarrow> read_bytes (\<lambda>_. env) u fs ?s = UB
     | Some (u', fs', answer, rest) \<Rightarrow>
         \<exists>v. vec_ok v \<and> elems v = rest \<and> read_bytes (\<lambda>_. env) u fs ?s = Some (u'\<lparr>uc_buffer := v\<rparr>, fs', answer)"
    using read_bytes_feed [where env = "\<lambda>_. env" and fs = fs, OF u(3) _ ok] u(4) by auto
  have ne: "?e \<noteq> SMTP_DATA_END" by (simp add: SMTP_DATA_END_def)
  obtain t where t: "\<forall>env. handler_smtp env (u\<lparr>uc_buffer := buf\<rparr>) ?e fs = Some (u\<lparr>uc_buffer := buf, uc_smtp := t\<rparr>, fs, \<lparr>pair_buffer = NULL, pair_status = SMTP_STATUS_CONTINUE\<rparr>)"
    "smtp_inv t" "reading f xs (txt @ ?e) t"
    using handler_text [of "u\<lparr>uc_buffer := buf\<rparr>" f xs "txt" ?e fs] u(1,2) plain_lineD(5) [OF e] ne by auto
  let ?u = "u\<lparr>uc_buffer := buf, uc_smtp := t\<rparr>"
  have r: "pr_fsm_state (uc_smtp ?u) = AUTOFSM_ST_READ_DATA" "greeted (uc_smtp ?u)" "pr_mail_from (uc_smtp ?u) = Some f"
    "elems (pr_rcpt_list (uc_smtp ?u)) = xs" "elems (pr_mail_data (uc_smtp ?u)) = txt @ ?e" "smtp_inv (uc_smtp ?u)"
    using t(2,3) by (simp_all add: reading_def)
  obtain s' ds where s': "handler_smtp env ?u SMTP_DATA_END fs
      = Some (?u\<lparr>uc_smtp := s'\<rparr>, post root (me_self env) (me_now env) f (txt @ ?e) (first_name (me_draw env)) xs ds fs,
          \<lparr>pair_buffer = pr_buffer s', pair_status = SMTP_STATUS_DATA_END\<rparr>)"
    "distinct ds" "set ds = domains (filter (\<lambda>x. server_name x \<noteq> Some (me_self env)) xs)"
    "c_str (pr_buffer s') = Some (reply 250 SMTP_CODE_OK_MSG)" "pr_fsm_state s' = AUTOFSM_ST_CLIENT_INIT" "smtp_inv s'"
    by (rule data_end_delivers [OF r(6,1-3) assms(2) r(4) assms(3-7) r(5)])
  let ?fs' = "post root (me_self env) (me_now env) f (txt @ ?e) (first_name (me_draw env)) xs ds fs"
  have f1: "first_line ?s = ?e" "?e \<noteq> ?s" "complete ?e" "takeWhile (\<lambda>c. c \<noteq> NUL) ?e = ?e" "drop (line_len ?s) ?s = SMTP_DATA_END"
  proof -
    show f: "first_line ?s = ?e" unfolding s by (rule plain_lineD(2) [OF e])
    show "?e \<noteq> ?s" "takeWhile (\<lambda>c. c \<noteq> NUL) ?e = ?e" by (simp_all add: s NUL_def SMTP_DATA_END_def)
    show "complete ?e" by (rule plain_lineD(1) [OF e])
    have "line_len ?s = 2" using arg_cong [OF f, of length] by simp
    then show "drop (line_len ?s) ?s = SMTP_DATA_END" by (simp add: s)
  qed
  have "feed (\<lambda>_. env) (Suc 0) ?u fs SMTP_DATA_END = Some (?u\<lparr>uc_smtp := s'\<rparr>, ?fs', pr_buffer s', [])"
    using s'(1) d by (subst feed.simps) (simp add: c_string_id [OF d(3)])
  then have "feed (\<lambda>_. env) 0 (u\<lparr>uc_buffer := buf\<rparr>) fs ?s = Some (?u\<lparr>uc_smtp := s'\<rparr>, ?fs', pr_buffer s', [])"
    using t(1) f1 by (subst feed.simps) simp
  with buf(2) obtain v where v: "vec_ok v" "elems v = []" "read_bytes (\<lambda>_. env) u fs ?s = Some (u\<lparr>uc_smtp := s', uc_buffer := v\<rparr>, ?fs', pr_buffer s')"
    by auto
  have "pr_buffer s' \<noteq> NULL" using s'(4) by (cases "pr_buffer s'") (auto simp: c_str_def)
  then have "serve env u fs ?s = Some (u\<lparr>uc_smtp := s', uc_buffer := v\<rparr>, ?fs', reply 250 SMTP_CODE_OK_MSG)"
    by (intro serve_one_event [OF _ _ v(3)]) (use s'(4) in \<open>auto simp: END_OF_MAIL_def crlf_line_def TEMPORARY_BUFFER_SIZE_def\<close>)
  moreover have "posted root env f xs (txt @ ?e) fs ?fs'" using s'(2,3) by (auto simp: posted_def)
  ultimately show ?thesis using s'(5,6) v(1,2) u(5) by (auto simp: serving_def)
qed

text \<open>The reply to QUIT closes the connection when it has been written.\<close>

lemma quit_line: "line_command (crlf_line ''QUIT'') pr_smtp_quit_proc"
  by code_simp

lemma serve_quit:
  assumes "serving (\<lambda>s. pr_fsm_state s = AUTOFSM_ST_CLIENT_INIT) fs r0 (u, g, r)" "c_string (me_self env)"
  shows "\<exists>u1 g1 r1. serve env u g (crlf_line ''QUIT'') = Some (u1, g1, r1)
    \<and> serving (\<lambda>s. pr_status s = SMTP_STATUS_EXIT) fs (reply 221 (me_self env @ '' '' @ SMTP_CODE_CLOSE_CONNECTION_MSG)) (u1, g1, r1)"
proof -
  let ?l = "crlf_line ''QUIT''" and ?m = "me_self env @ '' '' @ SMTP_CODE_CLOSE_CONNECTION_MSG"
  have u: "pr_fsm_state (uc_smtp u) = AUTOFSM_ST_CLIENT_INIT" "smtp_inv (uc_smtp u)" "vec_ok (uc_buffer u)" "elems (uc_buffer u) = []" "g = fs"
    using assms(1) by (simp_all add: serving_def)
  have "plain_line ?l" unfolding plain_line_def by (rule exI [of _ "''QUIT''"]) (simp add: NUL_def)
  note l = plain_lineD [OF this]
  obtain s where s: "smtp_step (uc_smtp u) ?l = Some s" "smtp_inv s" "pr_status s = SMTP_STATUS_EXIT" by (rule step_quit [OF u(2,1) quit_line])
  obtain b e where p: "smtp_parse (Some (uc_smtp u)) (Some ?l) (Some err_fresh) = Some (Some s, pr_status s, b, e)" by (rule smtp_step_parse [OF l(5) s(1)])
  have c: "c_string '' ''" "c_string SMTP_CODE_CLOSE_CONNECTION_MSG" by (simp_all add: SMTP_CODE_CLOSE_CONNECTION_MSG_def NUL_def)
  then have m: "make_path True [me_self env, '' '', SMTP_CODE_CLOSE_CONNECTION_MSG] = Some (Some ?m)" "c_string ?m"
    using assms(2) by (simp_all add: make_path_eq)
  obtain s' where s': "smtp_make_response s 221 ?m = Some s'" "smtp_inv s'" "c_str (pr_buffer s') = Some (reply 221 ?m)"
    by (rule response_inv [OF s(2) m(2), of 221]) auto
  have st: "pr_status s' = SMTP_STATUS_EXIT" using s'(1) s(3) by (auto simp: smtp_make_response_def bind_eq_Some_conv split: if_splits)
  obtain buf where buf: "vec_ok buf" "case feed (\<lambda>_. env) 0 (u\<lparr>uc_buffer := buf\<rparr>) fs ?l of
       None \<Rightarrow> read_bytes (\<lambda>_. env) u fs ?l = UB
     | Some (u', fs', answer, rest) \<Rightarrow>
         \<exists>v. vec_ok v \<and> elems v = rest \<and> read_bytes (\<lambda>_. env) u fs ?l = Some (u'\<lparr>uc_buffer := v\<rparr>, fs', answer)"
    using read_bytes_feed [where env = "\<lambda>_. env" and fs = fs, OF u(3) _ l(4,6)] u(4) by auto
  have "handler_smtp env (u\<lparr>uc_buffer := buf\<rparr>) ?l fs
      = Some (u\<lparr>uc_buffer := buf, uc_smtp := s'\<rparr>, fs, \<lparr>pair_buffer = pr_buffer s', pair_status = SMTP_STATUS_EXIT\<rparr>)"
    using p s(3) m(1) s'(1) by (simp add: handler_smtp_def Let_def)
  then have "feed (\<lambda>_. env) 0 (u\<lparr>uc_buffer := buf\<rparr>) fs ?l = Some (u\<lparr>uc_buffer := buf, uc_smtp := s'\<rparr>, fs, pr_buffer s', [])"
    using l(1,3) by (subst feed.simps) (simp add: c_string_id [OF l(5)])
  with buf(2) obtain v where v: "vec_ok v" "elems v = []" "read_bytes (\<lambda>_. env) u fs ?l = Some (u\<lparr>uc_smtp := s', uc_buffer := v\<rparr>, fs, pr_buffer s')"
    by auto
  have "pr_buffer s' \<noteq> NULL" using s'(3) by (cases "pr_buffer s'") (auto simp: c_str_def)
  then have "serve env u fs ?l = Some (u\<lparr>uc_smtp := s', uc_buffer := v\<rparr>, fs, reply 221 ?m)"
    by (intro serve_one_event [OF _ _ v(3)]) (use s'(3) in \<open>auto simp: crlf_line_def TEMPORARY_BUFFER_SIZE_def\<close>)
  then show ?thesis using s'(2) st v(1,2) u(5) by (simp add: serving_def)
qed

text \<open>A greeting with the name of a host is accepted, whatever letters the name starts with.\<close>

definition host_name :: "string \<Rightarrow> bool" where "host_name h \<longleftrightarrow> length h \<in> set (ends RE_DOMAIN h)"

lemma helo_found:
  assumes "h \<noteq> []" "\<not> is_space (hd h)"
  shows "regexec RE_HELLO (''HELO '' @ h) = Some (0, 5)"
proof -
  let ?s = "''HELO '' @ h"
  have low: "map to_lower ''HELO'' = map to_lower ''helo''" by code_simp
  have "[] \<in> lang (Star Space)" by (simp add: star_Nil)
  then have "'' '' @ [] \<in> lang (Plus Space)" unfolding Plus_def by (intro SeqI) (simp add: Space_def is_space_def)
  moreover have "''HELO'' \<in> lang (Alt (Str ''ehlo'') (Str ''helo''))" unfolding in_Alt using lang_Str [of "''helo''"] low by simp
  ultimately have "''HELO'' @ '' '' \<in> lang RE_HELLO" unfolding RE_HELLO_def by (intro SeqI) simp_all
  then have m: "matches_at RE_HELLO ?s 0 5" by (simp add: matches_at_def segment_def)
  then obtain b e where be: "regexec RE_HELLO ?s = Some (b, e)" using regexec_None [of RE_HELLO ?s] by fastforce
  note f = regexec_Some [OF be]
  have b: "b = 0" using f(5) [OF m] by simp
  have ge: "5 \<le> e" using f(6) m b by simp
  obtain u v where uv: "segment b e ?s = u @ v" "u \<in> lang (Alt (Str ''ehlo'') (Str ''helo''))" "v \<in> lang (Plus Space)"
    using f(4) unfolding RE_HELLO_def in_Seq by iprover
  have u: "length u = 4" using uv(2) lang_Str_length [of "''ehlo''" u] lang_Str_length [of "''helo''" u] unfolding in_Alt by auto
  have "e \<le> 5"
  proof (rule ccontr)
    assume "\<not> e \<le> 5"
    then have e: "5 < e" "e \<le> length ?s" using f(3) by simp_all
    have "length v = e - 4" using arg_cong [OF uv(1), of length] u b f(3) by (simp add: segment_def)
    then have "v ! 1 \<in> set v" using e(1) by (intro nth_mem) simp
    moreover have "v ! 1 = segment b e ?s ! 5" using uv(1) u by (simp add: nth_append)
    moreover have "segment b e ?s ! 5 = hd h" using b e assms(1) by (cases h) (simp_all add: segment_def nth_append numeral_eq_Suc)
    ultimately show False using lang_Plus_space [OF uv(3)] assms(2) by auto
  qed
  then show ?thesis using be b ge by simp
qed

lemma helo_line:
  assumes "host_name h"
  obtains c where "line_command (crlf_line (''HELO '' @ h)) c" "cmd_type c = SMTP_HELLO" "cmd_status c" "plain_line (crlf_line (''HELO '' @ h))"
proof -
  have d: "h \<in> lang RE_DOMAIN" using assms by (simp add: host_name_def ends_lang)
  have ne: "h \<noteq> []" by (rule lang_domain_nonempty [OF d])
  have chars: "\<forall>c\<in>set h. is_alnum c \<or> c = CHR ''.''" using lang_domain_chars [OF d] by simp
  have no: "\<not> is_space c \<and> c \<noteq> NUL \<and> \<not> SPACE_SYMBOLS_CHECK c \<and> c \<noteq> CHR 0x0D \<and> c \<noteq> CHR 0x0A" if "is_alnum c \<or> c = CHR ''.''" for c
    using that by (elim disjE) (auto simp: is_alnum_def is_digit_def is_alpha_def is_space_def NUL_def SPACE_SYMBOLS_CHECK_def)
  have h: "\<not> is_space (hd h)" "\<not> SPACE_SYMBOLS_CHECK (last h)" using no chars ne by simp_all
  have cs: "c_string h" "CHR 0x0D \<notin> set h" "CHR 0x0A \<notin> set h" using no chars by (auto simp: c_string_def)
  let ?t = "''HELO '' @ h"
  have c: "c_string ?t" using cs(1) by (simp add: NUL_def)
  have pl: "plain_line (crlf_line ?t)" unfolding plain_line_def by (rule exI [of _ ?t]) (use c cs in simp)
  have t: "trimmed (crlf_line ?t) = ?t" "\<not> blank (crlf_line ?t)"
    using trimmed_crlf [of ?t] h(2) ne by (auto simp: SPACE_SYMBOLS_CHECK_def)
  obtain x where x: "pr_smtp_hello_proc h = Some x" "cmd_type x = SMTP_HELLO" using hello_proc_ok [OF cs(1)] by blast
  have "matches_at RE_DOMAIN h 0 (length h)" using d by (simp add: matches_at_def segment_def)
  then have "regexec RE_DOMAIN h \<noteq> None" by (auto simp: regexec_None)
  then have st: "cmd_status x" using x(1) by (auto simp: pr_smtp_hello_proc_def Let_def bind_eq_Some_conv split: option.splits)
  have "command_of ?t = Some x" using helo_found [OF ne h(1)] x(1) by (simp add: command_of_def)
  then have "line_command (crlf_line ?t) x" using t plain_lineD(5) [OF pl] by (simp add: line_command_def)
  then show thesis using x(2) st pl by (rule that)
qed
section \<open>The turns of a relayed mail\<close>

lemma greeted_kept: "smtp_step s l = Some s' \<Longrightarrow> smtp_inv s \<Longrightarrow> quiet_command l \<Longrightarrow> greeted s \<Longrightarrow> greeted s'"
  using step_quiet [of s l s'] by (simp add: greeted_def)

definition ready_for_mail :: "smtp_state \<Rightarrow> bool" where
  "ready_for_mail s \<longleftrightarrow> pr_fsm_state s = AUTOFSM_ST_CLIENT_INIT \<and> greeted s"

definition begun :: "smtp_mailbox \<Rightarrow> smtp_state \<Rightarrow> bool" where
  "begun f s \<longleftrightarrow> pr_fsm_state s = AUTOFSM_ST_BEGIN_TRANSACTION \<and> greeted s \<and> pr_mail_from s = Some f
     \<and> elems (pr_rcpt_list s) = [] \<and> elems (pr_mail_data s) = []"

definition envelope :: "smtp_mailbox \<Rightarrow> smtp_mailbox list \<Rightarrow> smtp_state \<Rightarrow> bool" where
  "envelope f xs s \<longleftrightarrow> pr_fsm_state s = AUTOFSM_ST_TRANSACTION \<and> greeted s \<and> pr_mail_from s = Some f
     \<and> elems (pr_rcpt_list s) = xs \<and> elems (pr_mail_data s) = []"

text \<open>What the engine knows after each request of the envelope.\<close>

lemma envelope_steps:
  assumes "smtp_inv s"
  shows "pr_fsm_state s = AUTOFSM_ST_INIT \<Longrightarrow> line_command l c \<Longrightarrow> cmd_type c = SMTP_HELLO \<Longrightarrow> cmd_status c \<Longrightarrow>
      \<exists>s'. smtp_step s l = Some s' \<and> smtp_inv s' \<and> ready_for_mail s' \<and> pr_status s' = SMTP_STATUS_OK \<and> c_str (pr_buffer s') = Some (reply 250 SMTP_CODE_OK_MSG)"
    "ready_for_mail s \<Longrightarrow> line_command l (mail_cmd (Some f)) \<Longrightarrow>
      \<exists>s'. smtp_step s l = Some s' \<and> smtp_inv s' \<and> begun f s' \<and> pr_status s' = SMTP_STATUS_OK \<and> c_str (pr_buffer s') = Some (reply 250 SMTP_CODE_OK_MSG)"
    "begun f s \<and> xs = [] \<or> envelope f xs s \<Longrightarrow> line_command l (rcpt_cmd x) \<Longrightarrow>
      \<exists>s'. smtp_step s l = Some s' \<and> smtp_inv s' \<and> envelope f (xs @ [x]) s' \<and> pr_status s' = SMTP_STATUS_OK \<and> c_str (pr_buffer s') = Some (reply 250 SMTP_CODE_OK_MSG)"
    "envelope f xs s \<Longrightarrow> line_command l pr_smtp_data_proc \<Longrightarrow>
      \<exists>s'. smtp_step s l = Some s' \<and> smtp_inv s' \<and> reading f xs [] s' \<and> pr_status s' = SMTP_STATUS_OK \<and> c_str (pr_buffer s') = Some (reply 354 SMTP_CODE_MAIL_INPUT_MSG)"
proof -
  have quiet: "quiet_command l" if "line_command l c" "cmd_type c \<in> {SMTP_MAILFROM, SMTP_RCPTTO, smtp_command_type.SMTP_DATA}" for c
    using that by (auto simp: quiet_command_def)
  { assume a: "pr_fsm_state s = AUTOFSM_ST_INIT" "line_command l c" "cmd_type c = SMTP_HELLO" "cmd_status c"
    obtain s' a where "smtp_step s l = Some s'" "smtp_inv s'" "pr_fsm_state s' = AUTOFSM_ST_CLIENT_INIT" "cmd_arg c = ArgAddress a"
      "addr_address a \<noteq> NULL" "pr_hello_addr s' = Some a" "pr_status s' = SMTP_STATUS_OK" "c_str (pr_buffer s') = Some (reply 250 SMTP_CODE_OK_MSG)"
      by (rule step_hello [OF assms a])
    then show "\<exists>s'. smtp_step s l = Some s' \<and> smtp_inv s' \<and> ready_for_mail s' \<and> pr_status s' = SMTP_STATUS_OK \<and> c_str (pr_buffer s') = Some (reply 250 SMTP_CODE_OK_MSG)"
      by (auto simp: ready_for_mail_def greeted_def) }
  { assume a: "ready_for_mail s" "line_command l (mail_cmd (Some f))"
    have st: "pr_fsm_state s = AUTOFSM_ST_CLIENT_INIT" "greeted s" using a(1) by (simp_all add: ready_for_mail_def)
    obtain s' where s': "smtp_step s l = Some s'" "smtp_inv s'" "pr_fsm_state s' = AUTOFSM_ST_BEGIN_TRANSACTION"
      "pr_mail_from s' = Some f" "elems (pr_rcpt_list s') = []" "elems (pr_mail_data s') = []"
      "pr_status s' = SMTP_STATUS_OK" "c_str (pr_buffer s') = Some (reply 250 SMTP_CODE_OK_MSG)" by (rule step_mail [OF assms st(1) a(2)])
    then show "\<exists>s'. smtp_step s l = Some s' \<and> smtp_inv s' \<and> begun f s' \<and> pr_status s' = SMTP_STATUS_OK \<and> c_str (pr_buffer s') = Some (reply 250 SMTP_CODE_OK_MSG)"
      using greeted_kept [OF s'(1) assms quiet [OF a(2)] st(2)] by (auto simp: begun_def mail_cmd_def) }
  { assume a: "begun f s \<and> xs = [] \<or> envelope f xs s" "line_command l (rcpt_cmd x)"
    have st: "pr_fsm_state s \<in> {AUTOFSM_ST_BEGIN_TRANSACTION, AUTOFSM_ST_TRANSACTION}" "greeted s" "pr_mail_from s = Some f"
      "elems (pr_rcpt_list s) = xs" "elems (pr_mail_data s) = []" using a(1) by (auto simp: begun_def envelope_def)
    obtain s' where s': "smtp_step s l = Some s'" "smtp_inv s'" "pr_fsm_state s' = AUTOFSM_ST_TRANSACTION"
      "pr_mail_from s' = pr_mail_from s" "elems (pr_rcpt_list s') = elems (pr_rcpt_list s) @ [x]" "pr_mail_data s' = pr_mail_data s"
      "pr_status s' = SMTP_STATUS_OK" "c_str (pr_buffer s') = Some (reply 250 SMTP_CODE_OK_MSG)" by (rule step_rcpt [OF assms st(1) a(2)])
    then show "\<exists>s'. smtp_step s l = Some s' \<and> smtp_inv s' \<and> envelope f (xs @ [x]) s' \<and> pr_status s' = SMTP_STATUS_OK \<and> c_str (pr_buffer s') = Some (reply 250 SMTP_CODE_OK_MSG)"
      using greeted_kept [OF s'(1) assms quiet [OF a(2)] st(2)] st by (auto simp: envelope_def rcpt_cmd_def) }
  { assume a: "envelope f xs s" "line_command l pr_smtp_data_proc"
    have st: "pr_fsm_state s = AUTOFSM_ST_TRANSACTION" "greeted s" "pr_mail_from s = Some f" "elems (pr_rcpt_list s) = xs" "elems (pr_mail_data s) = []"
      using a(1) by (simp_all add: envelope_def)
    obtain s' where s': "smtp_step s l = Some s'" "smtp_inv s'" "pr_fsm_state s' = AUTOFSM_ST_READ_DATA"
      "pr_mail_from s' = pr_mail_from s" "pr_rcpt_list s' = pr_rcpt_list s" "pr_mail_data s' = pr_mail_data s"
      "pr_status s' = SMTP_STATUS_OK" "c_str (pr_buffer s') = Some (reply 354 SMTP_CODE_MAIL_INPUT_MSG)" by (rule step_data [OF assms st(1) a(2)])
    then show "\<exists>s'. smtp_step s l = Some s' \<and> smtp_inv s' \<and> reading f xs [] s' \<and> pr_status s' = SMTP_STATUS_OK \<and> c_str (pr_buffer s') = Some (reply 354 SMTP_CODE_MAIL_INPUT_MSG)"
      using greeted_kept [OF s'(1) assms quiet [OF a(2)] st(2)] st by (auto simp: reading_def pr_smtp_data_proc_def plain_command_def) }
qed

lemma delivering_out: "delivering s server m st c it out cfs x \<Longrightarrow> wd_output (snd x) s = out"
  by (cases x) (auto simp: delivering_def)

lemma deliver_phase:
  assumes "session run s (delivering s server m st c it out cfs) [r] (delivering s server m st' c' it' (out @ l) cfs)"
    "\<And>u f r0. serving K fs r (u, f, r0) \<Longrightarrow> \<exists>u1 f1 r1. serve me u f l = Some (u1, f1, r1) \<and> R (u1, f1, r1)"
  shows "phase run me s 1 (both (delivering s server m st c it out cfs) (serving K fs r))
    (both (delivering s server m st' c' it' (out @ l) cfs) R)"
proof (rule phase_turn)
  show "session run s (delivering s server m st c it out cfs) [r'] (delivering s server m st' c' it' (out @ l) cfs)"
    if "serving K fs r (u, f, r')" for u f r'
  proof -
    have "r' = r" using that by (simp add: serving_def)
    then show ?thesis using assms(1) by (simp only:)
  qed
  show "wd_output (snd x) s = out" if "delivering s server m st c it out cfs x" for x by (rule delivering_out [OF that])
  show "wd_output (snd x) s = out @ l" if "delivering s server m st' c' it' (out @ l) cfs x" for x by (rule delivering_out [OF that])
qed (rule assms(2))

text \<open>The sessions \<open>S\<close> of the client and the knowledge \<open>K\<close> of the server, for one accepted command.\<close>

lemma command_phase:
  assumes "session run s (delivering s server m st c it out cfs) [r] (delivering s server m st' c' it' (out @ l) cfs)"
    "plain_line l" "length l \<le> nat TEMPORARY_BUFFER_SIZE"
    "\<And>s. K s \<Longrightarrow> smtp_inv s \<Longrightarrow> \<exists>s'. smtp_step s l = Some s' \<and> smtp_inv s' \<and> K' s' \<and> pr_status s' = SMTP_STATUS_OK \<and> c_str (pr_buffer s') = Some rep"
  shows "phase run me s 1 (both (delivering s server m st c it out cfs) (serving K fs r))
    (both (delivering s server m st' c' it' (out @ l) cfs) (serving K' fs rep))"
  by (rule deliver_phase [OF assms(1)]) (rule serve_command [OF _ assms(2-4)])

lemma envelope_plain:
  assumes "relayable x"
  shows "plain_line (crlf_line (''MAIL from:<'' @ address x @ ''>''))" "plain_line (crlf_line (''RCPT to:<'' @ address x @ ''>''))"
    "plain_line (crlf_line ''DATA'')"
proof -
  have "is_space (CHR 0x0D)" "is_space (CHR 0x0A)" by (simp_all add: is_space_def)
  then have c: "c_string (address x)" "CHR 0x0D \<notin> set (address x)" "CHR 0x0A \<notin> set (address x)"
    using envelope_text [OF assms] by blast+
  show "plain_line (crlf_line (''MAIL from:<'' @ address x @ ''>''))" unfolding plain_line_def
    by (rule exI [of _ "''MAIL from:<'' @ address x @ ''>''"]) (use c in \<open>simp add: NUL_def\<close>)
  show "plain_line (crlf_line (''RCPT to:<'' @ address x @ ''>''))" unfolding plain_line_def
    by (rule exI [of _ "''RCPT to:<'' @ address x @ ''>''"]) (use c in \<open>simp add: NUL_def\<close>)
  show "plain_line (crlf_line ''DATA'')" unfolding plain_line_def
    by (rule exI [of _ "''DATA''"]) (simp add: NUL_def)
qed

definition OK_REPLY :: string where "OK_REPLY = reply 250 SMTP_CODE_OK_MSG"

text \<open>The recipients behind the first one, and the data command.\<close>

lemma rcpts_phase:
  assumes "fd_in_range s" "sends_all e strs" "\<forall>x\<in>set xs. crlf_line (''RCPT to:<'' @ address x @ ''>'') \<in> set strs" "crlf_line ''DATA'' \<in> set strs"
    "\<forall>l\<in>set strs. length l \<le> nat TEMPORARY_BUFFER_SIZE" "ms_to m = map address xs" "ms_to_size m = length (ms_to m)" "\<forall>x\<in>set xs. relayable x"
    "xs = ys @ zs"
  shows "phase (\<lambda>sel. thread_turn path listing env (\<lambda>_. e) sel threads) me s (Suc (length zs))
    (both (delivering s server m SMTP_RCPT st (int (length ys)) out cfs) (serving (envelope f ys) fs OK_REPLY))
    (both (delivering s server m SMTP_DATA NOT_ANSWER 0
        (out @ concat (map (\<lambda>x. crlf_line (''RCPT to:<'' @ address x @ ''>'')) zs) @ crlf_line ''DATA'') cfs)
      (serving (reading f xs []) fs (reply 354 SMTP_CODE_MAIL_INPUT_MSG)))"
  using assms(9)
proof (induction zs arbitrary: ys st out)
  case Nil
  have l: "plain_line (crlf_line ''DATA'')" "length (crlf_line ''DATA'') \<le> nat TEMPORARY_BUFFER_SIZE"
    by (rule exI [of _ "''DATA''", folded plain_line_def, THEN iffD2 [OF plain_line_def]]) (simp_all add: NUL_def crlf_line_def TEMPORARY_BUFFER_SIZE_def)
  have n: "int (length ys) = int (length (ms_to m))" using Nil assms(6) by simp
  have 1: "session (\<lambda>sel. thread_turn path listing env (\<lambda>_. e) sel threads) s (delivering s server m SMTP_RCPT st (int (length ys)) out cfs) [OK_REPLY]
      (delivering s server m SMTP_DATA NOT_ANSWER 0 (out @ crlf_line ''DATA'') cfs)"
    unfolding n by (rule rcpt_end_turn [OF assms(1,2,4) _ assms(7)]) (simp add: OK_REPLY_def good_replies)
  from command_phase [OF 1 l envelope_steps(4) [OF _ _ data_line, of _ f xs]] Nil show ?case by simp
next
  case (Cons x zs)
  let ?l = "crlf_line (''RCPT to:<'' @ address x @ ''>'')"
  have x: "x \<in> set xs" "relayable x" using Cons.prems assms(8) by auto
  have k: "length ys < length (ms_to m)" "ms_to m ! length ys = address x" using Cons.prems assms(6) by (simp_all add: nth_append)
  have 1: "session (\<lambda>sel. thread_turn path listing env (\<lambda>_. e) sel threads) s (delivering s server m SMTP_RCPT st (int (length ys)) out cfs) [OK_REPLY]
      (delivering s server m SMTP_RCPT NOT_ANSWER (int (length (ys @ [x]))) (out @ ?l) cfs)"
    using rcpt_turn [OF assms(1,2) _ _ k(1) assms(7), of OK_REPLY path listing env threads server st out cfs] k(2) assms(3) x(1)
    by (simp add: OK_REPLY_def good_replies)
  have "length ?l \<le> nat TEMPORARY_BUFFER_SIZE" using assms(3,5) x(1) by blast
  from command_phase [OF 1 envelope_plain(2) [OF x(2)] this envelope_steps(3) [OF _ disjI2 envelope_lines(2) [OF x(2)], of _ f ys], folded OK_REPLY_def]
  have 2: "phase (\<lambda>sel. thread_turn path listing env (\<lambda>_. e) sel threads) me s 1
      (both (delivering s server m SMTP_RCPT st (int (length ys)) out cfs) (serving (envelope f ys) fs OK_REPLY))
      (both (delivering s server m SMTP_RCPT NOT_ANSWER (int (length (ys @ [x]))) (out @ ?l) cfs) (serving (envelope f (ys @ [x])) fs OK_REPLY))" .
  have "xs = (ys @ [x]) @ zs" using Cons.prems by simp
  from phase_append [OF 2 Cons.IH [OF this]] show ?case by simp
qed
text \<open>The lines of the text behind the first one, and the end of the mail.\<close>

lemma texts_phase:
  assumes "fd_in_range s" "sends_all e strs" "set (ms_strings m) \<subseteq> set strs" "END_OF_MAIL \<in> set strs"
    "\<forall>l\<in>set strs. length l \<le> nat TEMPORARY_BUFFER_SIZE" "is_smtp_success code" "code \<noteq> NOT_ANSWER" "ms_strings_size m = length (ms_strings m)"
    "\<forall>l\<in>set (ms_strings m). plain_line l \<and> l \<noteq> SMTP_DATA_END"
    "c_mailbox f" "xs \<noteq> []" "\<forall>x\<in>set xs. deliverable x" "maildir_at (me_md me) root" "store_ok root fs" "fresh_names (me_draw me) 0 (length xs) fs"
    "ms_strings m = ys @ zs"
  shows "phase (\<lambda>sel. thread_turn path listing env (\<lambda>_. e) sel threads) me s (Suc (length zs))
    (both (delivering s server m SMTP_MESSAGE code (int (length ys)) out cfs) (serving (reading f xs (concat ys)) fs []))
    (both (delivering s server m SMTP_END_MESSAGE NOT_ANSWER 0 (out @ concat zs @ END_OF_MAIL) cfs)
      (\<lambda>x. \<exists>fs'. posted root me f xs (concat (ms_strings m) @ [CHR 0x0D, CHR 0x0A]) fs fs'
        \<and> serving (\<lambda>s. pr_fsm_state s = AUTOFSM_ST_CLIENT_INIT) fs' OK_REPLY x))"
  using assms(16)
proof (induction zs arbitrary: ys out)
  case Nil
  have n: "int (length ys) = int (length (ms_strings m))" "concat ys = concat (ms_strings m)" using Nil by simp_all
  have 1: "session (\<lambda>sel. thread_turn path listing env (\<lambda>_. e) sel threads) s (delivering s server m SMTP_MESSAGE code (int (length ys)) out cfs) [[]]
      (delivering s server m SMTP_END_MESSAGE NOT_ANSWER 0 (out @ END_OF_MAIL) cfs)"
    unfolding n END_OF_MAIL_def by (rule message_end_turn [OF assms(1,2) assms(4) [unfolded END_OF_MAIL_def] assms(6-8)])
  have "phase (\<lambda>sel. thread_turn path listing env (\<lambda>_. e) sel threads) me s 1
      (both (delivering s server m SMTP_MESSAGE code (int (length ys)) out cfs) (serving (reading f xs (concat (ms_strings m))) fs []))
      (both (delivering s server m SMTP_END_MESSAGE NOT_ANSWER 0 (out @ END_OF_MAIL) cfs)
        (\<lambda>x. \<exists>fs'. posted root me f xs (concat (ms_strings m) @ [CHR 0x0D, CHR 0x0A]) fs fs'
          \<and> serving (\<lambda>s. pr_fsm_state s = AUTOFSM_ST_CLIENT_INIT) fs' OK_REPLY x))"
    unfolding OK_REPLY_def by (rule deliver_phase [OF 1]) (rule serve_end [OF _ assms(10-15)], assumption)
  then show ?case by (simp add: n(2))
next
  case (Cons l zs)
  have l: "l \<in> set strs" "plain_line l" "l \<noteq> SMTP_DATA_END" using Cons.prems assms(3,9) by auto
  have k: "length ys < length (ms_strings m)" "ms_strings m ! length ys = l" using Cons.prems by (simp_all add: nth_append)
  have 1: "session (\<lambda>sel. thread_turn path listing env (\<lambda>_. e) sel threads) s (delivering s server m SMTP_MESSAGE code (int (length ys)) out cfs) [[]]
      (delivering s server m SMTP_MESSAGE code (int (length (ys @ [l]))) (out @ l) cfs)"
    using message_turn [OF assms(1,2) _ assms(6,7) k(1) assms(8)] l k(2) plain_lineD(7,8) [OF l(2)] by simp
  have "length l \<le> nat TEMPORARY_BUFFER_SIZE" using assms(5) l(1) by blast
  then have 2: "phase (\<lambda>sel. thread_turn path listing env (\<lambda>_. e) sel threads) me s 1
      (both (delivering s server m SMTP_MESSAGE code (int (length ys)) out cfs) (serving (reading f xs (concat ys)) fs []))
      (both (delivering s server m SMTP_MESSAGE code (int (length (ys @ [l]))) (out @ l) cfs) (serving (reading f xs (concat ys @ l)) fs []))"
    by (intro deliver_phase [OF 1]) (rule serve_text [OF _ l(2,3)])
  have e: "concat (ys @ [l]) = concat ys @ l" by simp
  have "ms_strings m = (ys @ [l]) @ zs" using Cons.prems by simp
  from phase_append [OF 2 Cons.IH [OF this, unfolded e]] show ?case by simp
qed

text \<open>A new connection of the server.\<close>

lemma user_init_fresh:
  assumes "user_init (Some c) (Some addr) sock = (Some u, True)"
  shows "smtp_inv (uc_smtp u)" "pr_fsm_state (uc_smtp u) = AUTOFSM_ST_INIT" "vec_ok (uc_buffer u)" "elems (uc_buffer u) = []"
proof -
  obtain s' where s': "smtp_init (Some (uc_smtp c)) (Some err_fresh) = (Some s', True, ERROR_SUCCESS (Some err_fresh))" "smtp_inv s'"
    "pr_fsm_state s' = AUTOFSM_ST_INIT" using smtp_init_inv by blast
  have "uc_smtp u = s' \<and> vec_ok (uc_buffer u) \<and> elems (uc_buffer u) = []"
    using assms s'(1) by (auto simp: user_init_def Let_def VECTOR_INIT_def err_simps vec_ok_def elems_def mem_alloc_def split: if_splits prod.splits)
  then show "smtp_inv (uc_smtp u)" "pr_fsm_state (uc_smtp u) = AUTOFSM_ST_INIT" "vec_ok (uc_buffer u)" "elems (uc_buffer u) = []"
    using s'(2,3) by auto
qed
text \<open>The last turn: the thread removes the file and takes its leave, and the server lets it go.\<close>

lemma end_phase:
  assumes "fd_in_range s" "sends_all e strs" "crlf_line ''QUIT'' \<in> set strs" "ms_directory m = Some path"
    "os_message_full_file_names server = [path]" "os_messages_size server = 1"
    "fs_nodes cfs (resolve cfs path) = Some (File content)" "strstr_found path DIRECTORY_OTHER_SERVERS" "c_string (me_self me)"
  shows "phase (\<lambda>sel. thread_turn pth listing env (\<lambda>_. e) sel threads) me s 1
    (both (delivering s server m SMTP_END_MESSAGE c it out cfs)
      (\<lambda>x. \<exists>fs'. A fs' \<and> serving (\<lambda>s. pr_fsm_state s = AUTOFSM_ST_CLIENT_INIT) fs' OK_REPLY x))
    (both (delivered s (out @ crlf_line ''QUIT'') (set_node (resolve cfs path) None cfs))
      (\<lambda>x. \<exists>fs'. A fs' \<and> serving (\<lambda>s. pr_status s = SMTP_STATUS_EXIT) fs' (reply 221 (me_self me @ '' '' @ SMTP_CODE_CLOSE_CONNECTION_MSG)) x))"
proof (rule phase_turn)
  show "session (\<lambda>sel. thread_turn pth listing env (\<lambda>_. e) sel threads) s (delivering s server m SMTP_END_MESSAGE c it out cfs) [r]
      (delivered s (out @ crlf_line ''QUIT'') (set_node (resolve cfs path) None cfs))"
    if "\<exists>fs'. A fs' \<and> serving (\<lambda>s. pr_fsm_state s = AUTOFSM_ST_CLIENT_INIT) fs' OK_REPLY (u, f, r)" for u f r
  proof -
    have "r = OK_REPLY" using that by (auto simp: serving_def)
    then have "good_reply r" by (simp add: OK_REPLY_def good_replies)
    then show ?thesis by (rule end_turn [OF assms(1-3) _ assms(4-8)])
  qed
  show "wd_output (snd x) s = out" if "delivering s server m SMTP_END_MESSAGE c it out cfs x" for x by (rule delivering_out [OF that])
  show "wd_output (snd x) s = out @ crlf_line ''QUIT''"
    if "delivered s (out @ crlf_line ''QUIT'') (set_node (resolve cfs path) None cfs) x" for x using that by (cases x) (simp add: delivered_def)
  show "\<exists>u1 f1 r1. serve me u f (crlf_line ''QUIT'') = Some (u1, f1, r1)
      \<and> (\<exists>fs'. A fs' \<and> serving (\<lambda>s. pr_status s = SMTP_STATUS_EXIT) fs' (reply 221 (me_self me @ '' '' @ SMTP_CODE_CLOSE_CONNECTION_MSG)) (u1, f1, r1))"
    if x: "\<exists>fs'. A fs' \<and> serving (\<lambda>s. pr_fsm_state s = AUTOFSM_ST_CLIENT_INIT) fs' OK_REPLY (u, f, r)" for u f r
  proof -
    obtain fs' where fs': "A fs'" "serving (\<lambda>s. pr_fsm_state s = AUTOFSM_ST_CLIENT_INIT) fs' OK_REPLY (u, f, r)" using x by blast
    from serve_quit [OF fs'(2) assms(9)] fs'(1) show ?thesis by blast
  qed
qed

text \<open>All turns of the relay of one mail, from the greeting of the server on.\<close>

lemma conversation_phases:
  assumes "fd_in_range s" "sends_all e strs" "strs = script (io_hostname e) (address f) (map address xs) ls @ [crlf_line ''QUIT'']"
    "\<forall>l\<in>set strs. length l \<le> nat TEMPORARY_BUFFER_SIZE" "host_name (io_hostname e)" "good_reply hello"
    "ms_from m = Some (address f)" "ms_to m = map address xs" "ms_to_size m = length (ms_to m)" "ms_strings m = ls" "ms_strings_size m = length ls"
    "ms_directory m = Some path" "relayable f" "xs \<noteq> []" "\<forall>x\<in>set xs. relayable x \<and> short_names x" "ls \<noteq> []" "\<forall>l\<in>set ls. plain_line l \<and> l \<noteq> SMTP_DATA_END"
    "os_message_full_file_names server = [path]" "os_messages_size server = 1" "fs_nodes cfs (resolve cfs path) = Some (File content)"
    "strstr_found path DIRECTORY_OTHER_SERVERS" "c_string (me_self me)"
    "maildir_at (me_md me) root" "store_ok root fs" "fresh_names (me_draw me) 0 (length xs) fs"
  shows "phase (\<lambda>sel. thread_turn pth listing env (\<lambda>_. e) sel threads) me s (length xs + length ls + 5)
    (both (delivering s server m SMTP_CONNECT NOT_ANSWER 0 [] cfs) (serving (\<lambda>s. pr_fsm_state s = AUTOFSM_ST_INIT) fs hello))
    (both (delivered s (concat strs) (set_node (resolve cfs path) None cfs))
      (\<lambda>x. \<exists>fs'. posted root me f xs (concat ls @ [CHR 0x0D, CHR 0x0A]) fs fs'
        \<and> serving (\<lambda>s. pr_status s = SMTP_STATUS_EXIT) fs' (reply 221 (me_self me @ '' '' @ SMTP_CODE_CLOSE_CONNECTION_MSG)) x))"
proof -
  let ?run = "\<lambda>sel. thread_turn pth listing env (\<lambda>_. e) sel threads"
  let ?helo = "crlf_line (''HELO '' @ io_hostname e)" and ?mail = "crlf_line (''MAIL from:<'' @ address f @ ''>'')"
    and ?rcpt = "\<lambda>x. crlf_line (''RCPT to:<'' @ address x @ ''>'')"
  obtain x zs where xs: "xs = [x] @ zs" using assms(14) by (cases xs) auto
  obtain l ks where ls: "ls = [l] @ ks" using assms(16) by (cases ls) auto
  have strs: "strs = [?helo, ?mail] @ map ?rcpt xs @ [crlf_line ''DATA''] @ ls @ [END_OF_MAIL, crlf_line ''QUIT'']"
    by (simp add: assms(3) script_def END_OF_MAIL_def)
  have size: "length r \<le> nat TEMPORARY_BUFFER_SIZE" if "r \<in> set strs" for r using assms(4) that by blast
  have mem: "?helo \<in> set strs" "?mail \<in> set strs" "\<forall>x\<in>set xs. ?rcpt x \<in> set strs" "crlf_line ''DATA'' \<in> set strs" "set ls \<subseteq> set strs"
    "END_OF_MAIL \<in> set strs" "crlf_line ''QUIT'' \<in> set strs" by (auto simp: strs)
  have rel: "\<forall>x\<in>set xs. relayable x" "relayable x" using assms(15) xs by auto
  have valid: "relayable y \<Longrightarrow> valid_mailbox y" for y by (rule relayableD)
  have deliv: "c_mailbox f" "\<forall>x\<in>set xs. deliverable x" using assms(13,15) valid by (auto simp: deliverable_def short_names_def)
  obtain c where helo: "line_command ?helo c" "cmd_type c = SMTP_HELLO" "cmd_status c" "plain_line ?helo" by (rule helo_line [OF assms(5)])
  have ok: "good_reply OK_REPLY" by (simp add: OK_REPLY_def good_replies)
  let ?o1 = "[] @ ?helo" let ?o2 = "?o1 @ ?mail" let ?o3 = "?o2 @ ?rcpt x"
  let ?o4 = "?o3 @ concat (map ?rcpt zs) @ crlf_line ''DATA''"
  let ?o5 = "?o4 @ l" let ?o6 = "?o5 @ concat ks @ END_OF_MAIL"
  have 1: "phase ?run me s 1 (both (delivering s server m SMTP_CONNECT NOT_ANSWER 0 [] cfs) (serving (\<lambda>s. pr_fsm_state s = AUTOFSM_ST_INIT) fs hello))
      (both (delivering s server m SMTP_HELO NOT_ANSWER 0 ?o1 cfs) (serving ready_for_mail fs OK_REPLY))"
    unfolding OK_REPLY_def
    by (rule command_phase [OF connect_turn [OF assms(1,2) mem(1) assms(6)] helo(4) size [OF mem(1)] envelope_steps(1) [OF _ _ helo(1-3)]])
  have 2: "phase ?run me s 1 (both (delivering s server m SMTP_HELO NOT_ANSWER 0 ?o1 cfs) (serving ready_for_mail fs OK_REPLY))
      (both (delivering s server m SMTP_MAIL NOT_ANSWER (0 + 1) ?o2 cfs) (serving (begun f) fs OK_REPLY))"
    using command_phase [OF helo_turn [OF assms(1,2) mem(2) ok assms(7)] envelope_plain(1) [OF assms(13)] size [OF mem(2)]
        envelope_steps(2) [OF _ _ envelope_lines(1) [OF assms(13)]]] unfolding OK_REPLY_def .
  have h: "hd (ms_to m) = address x" "ms_to m \<noteq> []" using assms(8) xs by simp_all
  have r1: "?rcpt x \<in> set strs" using mem(3) xs by simp
  have "session ?run s (delivering s server m SMTP_MAIL NOT_ANSWER (0 + 1) ?o2 cfs) [OK_REPLY] (delivering s server m SMTP_RCPT NOT_ANSWER 1 ?o3 cfs)"
    using mail_turn [OF assms(1,2) _ ok h(2), of pth listing env threads server NOT_ANSWER "0 + 1" ?o2 cfs] r1 unfolding h(1) by simp
  from command_phase [OF this envelope_plain(2) [OF rel(2)] size [OF r1] envelope_steps(3) [where xs = "[]" and f = f, OF _ disjI1 envelope_lines(2) [OF rel(2)]]]
  have 3: "phase ?run me s 1 (both (delivering s server m SMTP_MAIL NOT_ANSWER (0 + 1) ?o2 cfs) (serving (begun f) fs OK_REPLY))
      (both (delivering s server m SMTP_RCPT NOT_ANSWER (int (length [x])) ?o3 cfs) (serving (envelope f [x]) fs OK_REPLY))"
    unfolding OK_REPLY_def by simp
  note 4 = rcpts_phase [OF assms(1,2) mem(3,4) assms(4,8,9) rel(1) xs, of pth listing env threads me server NOT_ANSWER ?o3 cfs f fs]
  have l: "ms_strings m ! 0 = l" "ms_strings m \<noteq> []" "l \<in> set strs" "plain_line l" "l \<noteq> SMTP_DATA_END" using assms(10,17) ls mem(5) by auto
  have good: "good_reply (reply 354 SMTP_CODE_MAIL_INPUT_MSG)" by (rule good_replies)
  obtain code where code: "is_smtp_success code" "code \<noteq> NOT_ANSWER"
    "session ?run s (delivering s server m SMTP_DATA NOT_ANSWER 0 ?o4 cfs) [reply 354 SMTP_CODE_MAIL_INPUT_MSG] (delivering s server m SMTP_MESSAGE code 1 ?o5 cfs)"
    using data_turn [OF assms(1,2) _ good l(2)] l(3) plain_lineD(7,8) [OF l(4)] unfolding l(1) by blast
  have 5: "phase ?run me s 1 (both (delivering s server m SMTP_DATA NOT_ANSWER 0 ?o4 cfs) (serving (reading f xs []) fs (reply 354 SMTP_CODE_MAIL_INPUT_MSG)))
      (both (delivering s server m SMTP_MESSAGE code (int (length [l])) ?o5 cfs) (serving (reading f xs ([] @ l)) fs []))"
  proof -
    have "int (length [l]) = 1" by simp
    then show ?thesis by (simp only:) (rule deliver_phase [OF code(3)], rule serve_text [OF _ l(4,5) size [OF l(3)]])
  qed
  have m: "set (ms_strings m) \<subseteq> set strs" "ms_strings_size m = length (ms_strings m)" "\<forall>l\<in>set (ms_strings m). plain_line l \<and> l \<noteq> SMTP_DATA_END"
    "ms_strings m = [l] @ ks" using assms(10,11,17) mem(5) ls by auto
  note 6 = texts_phase [OF assms(1,2) m(1) mem(6) assms(4) code(1,2) m(2,3) deliv(1) assms(14) deliv(2) assms(23-25) m(4),
      of pth listing env threads server ?o5 cfs, unfolded assms(10)]
  have e: "concat [l] = [] @ l" by simp
  note 7 = end_phase [OF assms(1,2) mem(7) assms(12,18-22), of pth listing env threads NOT_ANSWER 0 ?o6
      "posted root me f xs (concat ls @ [CHR 0x0D, CHR 0x0A]) fs"]
  have out: "?o6 @ crlf_line ''QUIT'' = concat strs" by (simp add: strs xs ls)
  have n: "1 + (1 + (1 + (Suc (length zs) + (1 + (Suc (length ks) + 1))))) = length xs + length ls + 5" by (simp add: xs ls)
  show ?thesis
    using phase_append [OF 1 phase_append [OF 2 phase_append [OF 3 phase_append [OF 4 phase_append [OF 5 phase_append [OF 6 [unfolded e] 7]]]]]]
    unfolding out n .
qed

section \<open>Properties\<close>

text \<open>
  C1: The two programs relay a mail to its end. A client thread that is connected for one stored mail
  and a fresh connection of the next server, run against each other from the greeting of the server,
  finish after one turn for every recipient and line of the text and five more: no call of either
  side is undefined, the mail is in the store of the server with the same sender, recipients and
  text (and one empty line more), the file of the client is gone, its socket is closed, and the
  server has answered QUIT, after which it closes the connection. The mailboxes have the form that a
  server accepts, the names fit, and every request fits into one event of the server.
\<close>

theorem mail_is_relayed:
  assumes "fd_in_range s" "sends_all e (script (io_hostname e) (address f) (map address xs) ls @ [crlf_line ''QUIT''])"
    "\<forall>l\<in>set (script (io_hostname e) (address f) (map address xs) ls). length l \<le> nat TEMPORARY_BUFFER_SIZE"
    "host_name (io_hostname e)" "good_reply hello"
    "th_multiplex_context thr = Some [delivery_of \<lparr>sc_socket_desc = s, sc_state_code = SMTP_CONNECT\<rparr> server]"
    "th_multiplex_context_size thr = 1" "th_fdmax thr = s + 1" "wd_input w s = []" "wd_output w s = []"
    "os_message_full_file_names server = [path]" "os_messages_size server = 1" "strstr_found path DIRECTORY_OTHER_SERVERS"
    "fs_nodes (wd_fs w) (resolve (wd_fs w) path) = Some (File (header_text stamp f xs @ concat ls))"
    "relayable f" "xs \<noteq> []" "\<forall>x\<in>set xs. relayable x \<and> short_names x" "ls \<noteq> []" "\<forall>l\<in>set ls. plain_line l \<and> l \<noteq> SMTP_DATA_END"
    "user_init (Some memory) (Some addr) sock = (Some u, True)" "c_string (me_self me)"
    "maildir_at (me_md me) root" "store_ok root fs" "fresh_names (me_draw me) 0 (length xs) fs"
  shows "\<exists>cv. converse (\<lambda>sel. thread_turn pth listing env (\<lambda>_. e) sel threads) me s (length xs + length ls + 5)
        \<lparr>cv_thread = thr, cv_world = w, cv_user = u, cv_store = fs, cv_reply = hello\<rparr> = Some cv
    \<and> posted root me f xs (concat ls @ [CHR 0x0D, CHR 0x0A]) fs (cv_store cv)
    \<and> wd_fs (cv_world cv) = set_node (resolve (wd_fs w) path) None (wd_fs w)
    \<and> wd_output (cv_world cv) s = concat (script (io_hostname e) (address f) (map address xs) ls) @ crlf_line ''QUIT''
    \<and> s \<in> set (wd_closed (cv_world cv)) \<and> th_multiplex_context_size (cv_thread cv) = 0
    \<and> pr_status (uc_smtp (cv_user cv)) = SMTP_STATUS_EXIT
    \<and> cv_reply cv = reply 221 (me_self me @ '' '' @ SMTP_CODE_CLOSE_CONNECTION_MSG)"
proof -
  let ?strs = "script (io_hostname e) (address f) (map address xs) ls @ [crlf_line ''QUIT'']"
  have nul: "c_string []" by simp
  have valid: "relayable x \<Longrightarrow> valid_mailbox x" for x by (rule relayableD)
  obtain m where m: "read_message (wd_fs w) path = Some (Some m)" "ms_from m = Some (address f)" "ms_to m = map address xs"
    "ms_to_size m = length xs" "ms_strings m = ls" "ms_strings_size m = length ls" "ms_directory m = Some path"
    using stored_mail_read [of "wd_fs w" path stamp f xs ls "[]"] assms(14-17,19) valid plain_lineD(7) by auto
  have size: "\<forall>l\<in>set ?strs. length l \<le> nat TEMPORARY_BUFFER_SIZE" using assms(3) by (auto simp: crlf_line_def TEMPORARY_BUFFER_SIZE_def)
  have to: "ms_to_size m = length (ms_to m)" using m(3,4) by simp
  have server: "server\<lparr>os_message_full_file_names := [path]\<rparr> = server" using assms(11) by simp
  have "delivering s server m SMTP_CONNECT NOT_ANSWER 0 [] (wd_fs w) (thr, w)"
    using assms(6-12) m(1) server by (simp add: delivering_def delivery_of_def get_first_message_def arr_get_def)
  moreover have "serving (\<lambda>s. pr_fsm_state s = AUTOFSM_ST_INIT) fs hello (u, fs, hello)"
    using user_init_fresh [OF assms(20)] by (simp add: serving_def)
  moreover note conversation_phases [OF assms(1,2) refl size assms(4,5) m(2,3) to m(5-7) assms(15-19,11,12,14,13,21-24),
      of pth listing env threads]
  ultimately obtain cv fs' where "converse (\<lambda>sel. thread_turn pth listing env (\<lambda>_. e) sel threads) me s (length xs + length ls + 5)
        \<lparr>cv_thread = thr, cv_world = w, cv_user = u, cv_store = fs, cv_reply = hello\<rparr> = Some cv"
      "delivered s (concat ?strs) (set_node (resolve (wd_fs w) path) None (wd_fs w)) (cv_thread cv, cv_world cv)"
      "posted root me f xs (concat ls @ [CHR 0x0D, CHR 0x0A]) fs fs'"
      "serving (\<lambda>s. pr_status s = SMTP_STATUS_EXIT) fs' (reply 221 (me_self me @ '' '' @ SMTP_CODE_CLOSE_CONNECTION_MSG)) (cv_user cv, cv_store cv, cv_reply cv)"
    unfolding phase_def both_def by (metis (no_types, lifting) conversation.select_convs)
  then show ?thesis by (auto simp: delivered_def serving_def)
qed

theorem mail_is_relayed_witness:
  "\<exists>u cv. user_init (Some (demo_client NULL)) (Some sockaddr_zero) 4 = (Some u, True)
     \<and> converse (\<lambda>sel. thread_turn NULL (\<lambda>_. []) (\<lambda>_. sample_net) (\<lambda>_. sample_io) sel []) demo_env 5 7
         \<lparr>cv_thread = sample_thread,
          cv_world = sample_world\<lparr>wd_fs := \<lparr>fs_nodes = [comps sample_path \<mapsto> File (header_text 7 ann [bob] @ crlf_line ''hi'')], fs_cwd = []\<rparr>\<rparr>,
          cv_user = u, cv_store = demo_store, cv_reply = reply 220 ''hello''\<rparr> = Some cv
     \<and> fs_nodes (cv_store cv) [''md'', ''bob'', ''new'', ''5_0''] = Some (File (header_text 5 ann [bob] @ crlf_line ''hi'' @ crlf_line ''''))
     \<and> fs_nodes (wd_fs (cv_world cv)) (comps sample_path) = None"
proof -
  let ?w = "sample_world\<lparr>wd_fs := \<lparr>fs_nodes = [comps sample_path \<mapsto> File (header_text 7 ann [bob] @ concat [crlf_line ''hi''])], fs_cwd = []\<rparr>\<rparr>"
  let ?server = "\<lparr>os_directory = Some ''/m/.OTHER_SERVERS/b.org'', os_server = Some ''b.org'', os_message_full_file_names = [sample_path], os_messages_size = 1\<rparr>"
  obtain u where u: "user_init (Some (demo_client NULL)) (Some sockaddr_zero) 4 = (Some u, True)"
    by (simp add: user_init_def smtp_init_def Let_def VECTOR_INIT_def err_simps get_addr_def)
  have e: "sends_all sample_io (script (io_hostname sample_io) (address ann) (map address [bob]) [crlf_line ''hi''] @ [crlf_line ''QUIT''])"
    "\<forall>l\<in>set (script (io_hostname sample_io) (address ann) (map address [bob]) [crlf_line ''hi'']). length l \<le> nat TEMPORARY_BUFFER_SIZE"
    by (simp_all add: sends_all_def sample_io_def script_def crlf_line_def sample_mailboxes TEMPORARY_BUFFER_SIZE_def)
  have h: "host_name (io_hostname sample_io)" unfolding sample_io_def by code_simp
  have g: "good_reply (reply 220 ''hello'')" unfolding good_reply_def is_reply_def
    by (rule exI [of _ 220], simp add: reply_is_reply_line, rule exI [of _ "''hello''"], simp add: NUL_def)
  have t: "fd_in_range 5" "th_multiplex_context sample_thread = Some [delivery_of \<lparr>sc_socket_desc = 5, sc_state_code = SMTP_CONNECT\<rparr> ?server]"
    "th_multiplex_context_size sample_thread = 1" "th_fdmax sample_thread = 5 + 1" "wd_input ?w 5 = []" "wd_output ?w 5 = []"
    "os_message_full_file_names ?server = [sample_path]" "os_messages_size ?server = 1"
    by (simp_all add: fd_in_range_def FD_SETSIZE_def sample_thread_def sample_delivery_def sample_world_def)
  have store: "strstr_found sample_path DIRECTORY_OTHER_SERVERS" by code_simp
  have r: "resolve (wd_fs ?w) sample_path = comps sample_path" by (simp add: resolve_def sample_path_def)
  have f: "fs_nodes (wd_fs ?w) (resolve (wd_fs ?w) sample_path) = Some (File (header_text 7 ann [bob] @ concat [crlf_line ''hi'']))"
    unfolding r by simp
  have l: "[crlf_line ''hi''] \<noteq> []" "\<forall>l\<in>set [crlf_line ''hi'']. plain_line l \<and> l \<noteq> SMTP_DATA_END"
    using sample_line(2) by (auto simp: plain_line_def NUL_def)
  have x: "[bob] \<noteq> []" "\<forall>x\<in>set [bob]. relayable x \<and> short_names x" using sample_mailboxes(2,3) by simp_all
  have md: "c_string (me_self demo_env)" "maildir_at (me_md demo_env) [''md'']" using demo_store_ok by (simp_all add: demo_env_def NUL_def)
  have fr: "fresh_names (me_draw demo_env) 0 (length [bob]) demo_store"
    using demo_fresh by (auto simp: demo_env_def fresh_names_def inj_on_def dest!: bspec [where x = 0])
  obtain cv where cv: "converse (\<lambda>sel. thread_turn NULL (\<lambda>_. []) (\<lambda>_. sample_net) (\<lambda>_. sample_io) sel []) demo_env 5 (length [bob] + length [crlf_line ''hi''] + 5)
      \<lparr>cv_thread = sample_thread, cv_world = ?w, cv_user = u, cv_store = demo_store, cv_reply = reply 220 ''hello''\<rparr> = Some cv"
    "posted [''md''] demo_env ann [bob] (concat [crlf_line ''hi''] @ [CHR 0x0D, CHR 0x0A]) demo_store (cv_store cv)"
    "wd_fs (cv_world cv) = set_node (resolve (wd_fs ?w) sample_path) None (wd_fs ?w)"
    using mail_is_relayed [OF t(1) e h g t(2-8) store f sample_mailboxes(1) x l u md demo_store_ok(1) fr] by blast
  obtain ds where p: "cv_store cv = post [''md''] (me_self demo_env) (me_now demo_env) ann (concat [crlf_line ''hi''] @ [CHR 0x0D, CHR 0x0A]) (first_name (me_draw demo_env)) [bob] ds demo_store"
    "set ds = domains (filter (\<lambda>x. server_name x \<noteq> Some (me_self demo_env)) [bob])" using cv(2) by (auto simp: posted_def)
  have "ds = []" using p(2) by (simp add: demo_env_def domains_def bob_def)
  then have "fs_nodes (cv_store cv) [''md'', ''bob'', ''new'', ''5_0''] = Some (File (header_text 5 ann [bob] @ crlf_line ''hi'' @ crlf_line ''''))"
    unfolding p(1) by (simp add: post_def Let_def demo_env_def bob_def post_local_def demo_names crlf_line_def)
  moreover have "fs_nodes (wd_fs (cv_world cv)) (comps sample_path) = None" unfolding cv(3) r by simp
  ultimately show ?thesis using cv(1) u by (intro exI [of _ u] exI [of _ cv]) simp
qed
end
