(* ===== verification/ClientNet.thy ===== *)
theory ClientNet
  imports ClientSmtp
begin

text \<open>
  The resolver of the client, the second half of \<open>client/src/util/network.c\<close>: the mail servers of a
  domain, the addresses of a host and the address of the other side of a socket (the blocking mode
  is in \<open>ClientSmtp\<close>). What the functions of libresolv and the system calls answer is an argument.
\<close>

section \<open>The mail servers of a domain\<close>

text \<open>
  A record of the answer section: its class and type, the preference in front of the data, and the
  name that \<open>dn_expand\<close> makes of the rest, if it can. \<open>ns_parserr\<close> may fail for a record.
\<close>

record dns_rr =
  rr_class :: int
  rr_type :: int
  rr_preference :: int
  rr_exchange :: "string option"

record dns_answer =
  an_count :: int
  an_record :: "nat \<Rightarrow> dns_rr option"

text \<open>
  \<open>res_search\<close> gives the bytes that it writes, at most as many as it is told; \<open>ns_initparse\<close> reads them.
\<close>

record resolver =
  rs_search :: "string \<Rightarrow> nat \<Rightarrow> string option"
  rs_initparse :: "string \<Rightarrow> dns_answer option"
  rs_hostbyname :: "string \<Rightarrow> 8 word list list option"

definition NS_PACKETSZ :: nat where "NS_PACKETSZ = 512"
definition ns_c_in :: int where "ns_c_in = 1"
definition ns_t_mx :: int where "ns_t_mx = 15"

text \<open>
  The loop over the records; \<open>mx_index\<close> counts the names in \<open>mxs\<close>. The result of \<open>dn_expand\<close> is not
  looked at: when it fails, an array without a terminator is copied.
\<close>

fun mx_loop :: "dns_rr option list \<Rightarrow> nat \<Rightarrow> nat \<Rightarrow> string ptr list \<Rightarrow> (nat \<times> string ptr list) ub" where
  "mx_loop [] mx_index limit mxs = Some (mx_index, mxs)"
| "mx_loop (r # rs) mx_index limit mxs =
     (if mx_index < limit then
        (case r of
           None \<Rightarrow> mx_loop rs mx_index limit mxs
         | Some rr \<Rightarrow>
             if rr_class rr = ns_c_in \<and> rr_type rr = ns_t_mx then
               do {
                 mxname \<leftarrow> rr_exchange rr;
                 mxs1 \<leftarrow> arr_set mxs (int mx_index) (Some mxname);
                 mx_loop rs (Suc mx_index) limit mxs1
               }
             else mx_loop rs mx_index limit mxs)
      else Some (mx_index, mxs))"

text \<open>The buffer has \<open>NS_PACKETSZ\<close> bytes, and one byte more is offered to \<open>res_search\<close>.\<close>

definition resolvmx :: "resolver \<Rightarrow> string \<Rightarrow> string ptr list \<Rightarrow> nat \<Rightarrow> (int \<times> string ptr list) ub" where
  "resolvmx rs name mxs limit =
     (case rs_search rs name (NS_PACKETSZ + 1) of
        None \<Rightarrow> Some (-1, mxs)
      | Some response \<Rightarrow>
          if length response > NS_PACKETSZ then UB
          else (case rs_initparse rs response of
                  None \<Rightarrow> Some (0, mxs)
                | Some an \<Rightarrow>
                    if an_count an < 0 then Some (0, mxs)
                    else do {
                      (n, mxs1) \<leftarrow> mx_loop (map (an_record an) [0..<nat (an_count an)]) 0 limit mxs;
                      Some (int n, mxs1)
                    }))"

section \<open>The addresses of a host\<close>

record ips =
  ip_array :: "string ptr list ptr"
  ips_size :: nat

fun ips_loop :: "8 word list list \<Rightarrow> nat \<Rightarrow> ips \<Rightarrow> ips ub" where
  "ips_loop [] i ips = Some ips"
| "ips_loop (a # as) i ips =
     do {
       block \<leftarrow> reallocate_memory NULL (ip_array ips) (ips_size ips) (ips_size ips + 1);
       cells \<leftarrow> block;
       cells1 \<leftarrow> arr_set cells (int i) (Some (dotted a));
       ips_loop as (Suc i) (ips\<lparr>ip_array := Some cells1, ips_size := ips_size ips + 1\<rparr>)
     }"

definition get_ips_by_hostname :: "resolver \<Rightarrow> string \<Rightarrow> ips ub" where
  "get_ips_by_hostname rs hostname =
     (case rs_hostbyname rs hostname of
        None \<Rightarrow> Some \<lparr>ip_array = NULL, ips_size = 0\<rparr>
      | Some addr_list \<Rightarrow> ips_loop addr_list 0 \<lparr>ip_array = Some [NULL], ips_size = 0\<rparr>)"

section \<open>Sockets\<close>

text \<open>The result of \<open>getpeername\<close> is the address of the other side, or nothing.\<close>

definition get_addr_by_socket :: "sockaddr_in option \<Rightarrow> string ptr" where
  "get_addr_by_socket peer =
     (case peer of
        None \<Rightarrow> NULL
      | Some a \<Rightarrow> Some (dotted (sin_addr a) @ '':'' @ dec_string (unat (htons (sin_port a)))))"

section \<open>The names that are found\<close>

text \<open>The names of the mail servers in the answer, in its order.\<close>

definition is_mx :: "dns_rr \<Rightarrow> bool" where "is_mx rr \<longleftrightarrow> rr_class rr = ns_c_in \<and> rr_type rr = ns_t_mx"

definition mx_names :: "dns_rr option list \<Rightarrow> string list" where
  "mx_names rs = map (\<lambda>rr. the (rr_exchange rr)) (filter is_mx (map the (filter (\<lambda>r. r \<noteq> None) rs)))"

lemma mx_names_Cons:
  "mx_names (None # rs) = mx_names rs"
  "mx_names (Some rr # rs) = (if is_mx rr then the (rr_exchange rr) # mx_names rs else mx_names rs)"
  by (simp_all add: mx_names_def)

definition expandable :: "dns_rr option list \<Rightarrow> bool" where
  "expandable rs \<longleftrightarrow> (\<forall>rr. Some rr \<in> set rs \<longrightarrow> is_mx rr \<longrightarrow> rr_exchange rr \<noteq> None)"

lemma mx_loop_run:
  assumes "limit \<le> length mxs" "expandable rs" "k \<le> limit"
  shows "mx_loop rs k limit mxs = Some (k + length (take (limit - k) (mx_names rs)),
    take k mxs @ map Some (take (limit - k) (mx_names rs)) @ drop (k + length (take (limit - k) (mx_names rs))) mxs)"
  using assms
proof (induction rs arbitrary: k mxs)
  case (Cons r rs)
  have e: "expandable rs" using Cons.prems(2) by (auto simp: expandable_def)
  show ?case
  proof (cases "k < limit \<and> (\<exists>rr. r = Some rr \<and> is_mx rr)")
    case True
    then obtain rr where rr: "r = Some rr" "is_mx rr" "k < limit" by blast
    then obtain x where x: "rr_exchange rr = Some x" using Cons.prems(2) by (auto simp: expandable_def)
    have k: "k < length mxs" using rr(3) Cons.prems(1) by simp
    obtain n where n: "limit - k = Suc n" "limit - Suc k = n" using rr(3) by (metis Suc_diff_Suc)
    have "mx_loop (r # rs) k limit mxs = mx_loop rs (Suc k) limit (mxs[k := Some x])"
      using rr x arr_set_nat [OF k, of "Some x"] by (simp add: is_mx_def)
    moreover have "take (Suc k) (mxs[k := Some x]) = take k mxs @ [Some x]" using k by (simp add: take_Suc_conv_app_nth)
    ultimately show ?thesis
      using Cons.IH [of "mxs[k := Some x]" "Suc k"] Cons.prems(1) e rr k x
      by (simp add: mx_names_Cons n)
  next
    case False
    then have "mx_loop (r # rs) k limit mxs = (if k < limit then mx_loop rs k limit mxs else Some (k, mxs))"
      by (auto simp: is_mx_def split: option.split)
    moreover have "k < limit \<longrightarrow> mx_names (r # rs) = mx_names rs" using False by (cases r) (auto simp: mx_names_Cons)
    ultimately show ?thesis using Cons.IH [OF Cons.prems(1) e Cons.prems(3)] Cons.prems(3) by auto
  qed
qed (simp add: mx_names_def)

lemma ips_loop_run:
  assumes "ip_array p = Some cells" "ips_size p = i" "i \<le> length cells" "i = 0 \<or> length cells = i"
  shows "ips_loop as i p = Some (if as = [] then p else \<lparr>ip_array = Some (take i cells @ map (\<lambda>a. Some (dotted a)) as), ips_size = i + length as\<rparr>)"
  using assms
proof (induction as arbitrary: i p cells)
  case (Cons a as)
  let ?cells = "take i cells @ [Some (dotted a)]"
  let ?p = "p\<lparr>ip_array := Some ?cells, ips_size := Suc i\<rparr>"
  have "reallocate_memory NULL (Some cells) i (Suc i) = Some (Some (take i cells @ [NULL]))"
    using Cons.prems(3) by (simp add: reallocate_memory_def)
  moreover have "arr_set (take i cells @ [NULL]) (int i) (Some (dotted a)) = Some ?cells"
    using arr_set_nat [of i "take i cells @ [NULL]"] Cons.prems(3) by (simp add: list_update_append)
  ultimately have "ips_loop (a # as) i p = ips_loop as (Suc i) ?p" using Cons.prems(1,2) by simp
  then show ?case using Cons.IH [of ?p ?cells "Suc i"] Cons.prems(3) by (cases as) simp_all
qed simp

lemma resolvmx_run:
  assumes "rs_search rs name (NS_PACKETSZ + 1) = Some response" "rs_initparse rs response = Some an" "0 \<le> an_count an"
    "records = map (an_record an) [0..<nat (an_count an)]" "expandable records" "limit \<le> length mxs" "length response \<le> NS_PACKETSZ"
  shows "resolvmx rs name mxs limit
    = Some (int (length (take limit (mx_names records))), map Some (take limit (mx_names records)) @ drop (length (take limit (mx_names records))) mxs)"
  using mx_loop_run [OF assms(6,5), of 0] assms(1-4,7) by (simp add: resolvmx_def)

section \<open>The environment of a connection\<close>

text \<open>What \<open>smtp_connect\<close> gets from the two functions, with its array of \<open>MAX_MX_ADDRS\<close> pointers.\<close>

definition mail_net :: "resolver \<Rightarrow> net_env \<Rightarrow> net_env" where
  "mail_net rs env =
     env\<lparr>ne_resolvmx := (\<lambda>d. case resolvmx rs d (replicate MAX_MX_ADDRS NULL) MAX_MX_ADDRS of
            None \<Rightarrow> None
          | Some (n, mxs) \<Rightarrow> if n = -1 then None else Some (map the (take (nat n) mxs))),
         ne_ips := (\<lambda>h. case get_ips_by_hostname rs h of
            None \<Rightarrow> []
          | Some p \<Rightarrow> (case ip_array p of NULL \<Rightarrow> [] | Some cells \<Rightarrow> map the (take (ips_size p) cells)))\<rparr>"

definition addresses_of :: "resolver \<Rightarrow> string \<Rightarrow> string list" where
  "addresses_of rs h = (case rs_hostbyname rs h of None \<Rightarrow> [] | Some as \<Rightarrow> map dotted as)"

lemma mail_net_ips: "ne_ips (mail_net rs env) h = addresses_of rs h"
proof (cases "rs_hostbyname rs h")
  case (Some as)
  let ?p = "\<lparr>ip_array = Some [NULL], ips_size = 0\<rparr>"
  have "get_ips_by_hostname rs h = Some (if as = [] then ?p else \<lparr>ip_array = Some (map (\<lambda>a. Some (dotted a)) as), ips_size = length as\<rparr>)"
    using ips_loop_run [of ?p "[NULL]" 0 as] Some by (simp add: get_ips_by_hostname_def)
  then show ?thesis using Some by (simp add: mail_net_def addresses_of_def o_def)
qed (simp add: mail_net_def addresses_of_def get_ips_by_hostname_def)

text \<open>
  The \<open>k\<close>-th attempt at a host is taken for a connection: it has a socket, and \<open>connect\<close> does not fail
  at once for one of the addresses, on a socket that does not block if its flags can be set.
\<close>

definition taken_for_connected :: "resolver \<Rightarrow> net_env \<Rightarrow> string \<Rightarrow> nat \<Rightarrow> string \<Rightarrow> bool" where
  "taken_for_connected rs env port k host \<longleftrightarrow> ne_socket env k \<noteq> -1
     \<and> (\<exists>a\<in>set (addresses_of rs host).
          ne_connect env (0 \<le> ne_socket env k \<and> ne_settable env (ne_socket env k)) a (to_uint16 (convert_string_to_long_int port))
            \<in> {None, Some EINPROGRESS})"

lemma non_blocking_flags:
  "non_blocking settable s = (0 \<le> s \<and> settable s)"
proof -
  have "and (or O_RDWR O_NONBLOCK) O_NONBLOCK \<noteq> 0" "and O_RDWR O_NONBLOCK = 0" "O_RDWR \<noteq> -1"
    by (simp_all add: O_RDWR_def O_NONBLOCK_def)
  then show ?thesis by (simp add: non_blocking_def set_socket_blocking_enabled_def)
qed

lemma server_connect_taken:
  "server_connect (mail_net rs env) k (ne_ips (mail_net rs env) host) port
    = (if taken_for_connected rs env port k host then ne_socket env k else -1)"
proof -
  have "List.find P xs = None \<longleftrightarrow> \<not> (\<exists>a\<in>set xs. P a)" for P :: "string \<Rightarrow> bool" and xs by (auto simp: find_None_iff)
  moreover have "ne_socket (mail_net rs env) = ne_socket env" "ne_connect (mail_net rs env) = ne_connect env"
    "ne_settable (mail_net rs env) = ne_settable env" by (simp_all add: mail_net_def)
  ultimately show ?thesis
    by (simp add: server_connect_def mail_net_ips taken_for_connected_def non_blocking_flags connect_goes_on_def Let_def)
qed

lemma find_map_Suc: "List.find P (map Suc xs) = map_option Suc (List.find (\<lambda>i. P (Suc i)) xs)"
  by (induction xs) auto

lemma connect_loop_finds:
  "connect_loop (mail_net rs env) k mxs port c =
     (case List.find (\<lambda>i. taken_for_connected rs env port (k + i) (mxs ! i)) [0..<length mxs] of
        None \<Rightarrow> c
      | Some i \<Rightarrow> c\<lparr>sc_socket_desc := ne_socket env (k + i), sc_state_code := SMTP_CONNECT\<rparr>)"
proof (induction mxs arbitrary: k)
  case (Cons mx mxs)
  have u: "[0..<length (mx # mxs)] = 0 # map Suc [0..<length mxs]" using upt_conv_Cons [of 0 "length (mx # mxs)"] by (simp add: map_Suc_upt del: upt_Suc)
  have s: "taken_for_connected rs env port k mx \<Longrightarrow> ne_socket env k \<noteq> -1" by (simp add: taken_for_connected_def)
  show ?case unfolding u using Cons.IH [of "Suc k"] s
    by (auto simp: server_connect_taken Let_def find_map_Suc split: option.splits)
qed simp

section \<open>Properties\<close>

text \<open>
  C34: Mail goes to the first mail server of the answer for which \<open>connect\<close> does not fail at once. For
  another domain whose answer fits the buffer, \<open>smtp_connect\<close> with the resolver of the client tries the
  names of its MX records in the order of the answer, each with a new socket and all its addresses,
  thirty at most, and takes the first name with an address whose \<open>connect\<close> succeeds or is in
  progress; the preference of the records is not looked at. As the socket does not block, a connection
  that is in progress counts before the other side has answered: where \<open>connect\<close> never waits, the
  first name that has an address is taken whether or not a server lives there, and no other name is
  tried. An answer of one byte more than the buffer, which \<open>res_search\<close> is allowed to write, is
  written behind it.
\<close>

theorem first_server_not_refused:
  assumes "domain \<noteq> ne_hostname env" "rs_search rs domain (NS_PACKETSZ + 1) = Some response" "rs_initparse rs response = Some an"
    "0 \<le> an_count an" "expandable (map (an_record an) [0..<nat (an_count an)])"
    "mxs = take MAX_MX_ADDRS (mx_names (map (an_record an) [0..<nat (an_count an)]))"
  shows "(length response \<le> NS_PACKETSZ \<longrightarrow>
       smtp_connect (mail_net rs env) domain port =
         (case List.find (\<lambda>i. taken_for_connected rs env port i (mxs ! i)) [0..<length mxs] of
            None \<Rightarrow> \<lparr>sc_socket_desc = -1, sc_state_code = SMTP_INVALID\<rparr>
          | Some i \<Rightarrow> \<lparr>sc_socket_desc = ne_socket env i, sc_state_code = SMTP_CONNECT\<rparr>))
    \<and> (length response \<le> NS_PACKETSZ \<and> mxs \<noteq> [] \<and> addresses_of rs (hd mxs) \<noteq> [] \<and> 0 \<le> ne_socket env 0
         \<and> ne_settable env (ne_socket env 0) \<and> (\<forall>a p. ne_connect env True a p = Some EINPROGRESS) \<longrightarrow>
       smtp_connect (mail_net rs env) domain port = \<lparr>sc_socket_desc = ne_socket env 0, sc_state_code = SMTP_CONNECT\<rparr>)
    \<and> (NS_PACKETSZ < length response \<longrightarrow> (\<forall>mxs limit. resolvmx rs domain mxs limit = UB))"
proof (intro conjI impI)
  have run: "smtp_connect (mail_net rs env) domain port =
         (case List.find (\<lambda>i. taken_for_connected rs env port i (mxs ! i)) [0..<length mxs] of
            None \<Rightarrow> \<lparr>sc_socket_desc = -1, sc_state_code = SMTP_INVALID\<rparr>
          | Some i \<Rightarrow> \<lparr>sc_socket_desc = ne_socket env i, sc_state_code = SMTP_CONNECT\<rparr>)" if l: "length response \<le> NS_PACKETSZ"
  proof -
    have "ne_resolvmx (mail_net rs env) domain = Some mxs"
      using resolvmx_run [OF assms(2-4) refl assms(5) _ l, of MAX_MX_ADDRS "replicate MAX_MX_ADDRS NULL"] assms(6)
      by (simp add: mail_net_def o_def)
    moreover have "ne_hostname (mail_net rs env) = ne_hostname env" "length mxs \<le> MAX_MX_ADDRS"
      using assms(6) by (simp_all add: mail_net_def)
    ultimately show ?thesis
      using assms(1) connect_loop_finds [of rs env 0 mxs port] by (simp add: smtp_connect_def split: option.split)
  qed
  then show "length response \<le> NS_PACKETSZ \<Longrightarrow> smtp_connect (mail_net rs env) domain port =
         (case List.find (\<lambda>i. taken_for_connected rs env port i (mxs ! i)) [0..<length mxs] of
            None \<Rightarrow> \<lparr>sc_socket_desc = -1, sc_state_code = SMTP_INVALID\<rparr>
          | Some i \<Rightarrow> \<lparr>sc_socket_desc = ne_socket env i, sc_state_code = SMTP_CONNECT\<rparr>)" .
  assume h: "length response \<le> NS_PACKETSZ \<and> mxs \<noteq> [] \<and> addresses_of rs (hd mxs) \<noteq> [] \<and> 0 \<le> ne_socket env 0
         \<and> ne_settable env (ne_socket env 0) \<and> (\<forall>a p. ne_connect env True a p = Some EINPROGRESS)"
  then have "taken_for_connected rs env port 0 (mxs ! 0)"
    by (cases "addresses_of rs (mxs ! 0)") (auto simp: taken_for_connected_def hd_conv_nth)
  moreover have "[0..<length mxs] = 0 # [1..<length mxs]" using h by (simp add: upt_conv_Cons)
  ultimately show "smtp_connect (mail_net rs env) domain port = \<lparr>sc_socket_desc = ne_socket env 0, sc_state_code = SMTP_CONNECT\<rparr>"
    using run h by simp
qed (use assms(2) in \<open>simp add: resolvmx_def\<close>)

text \<open>Two mail servers, the backup first; every connection is in progress.\<close>

definition sample_resolver :: resolver where
  "sample_resolver = \<lparr>rs_search = (\<lambda>d n. Some ''answer''),
     rs_initparse = (\<lambda>_. Some \<lparr>an_count = 2, an_record = (\<lambda>i. Some \<lparr>rr_class = 1, rr_type = 15,
       rr_preference = (if i = 0 then 20 else 10), rr_exchange = Some (if i = 0 then ''backup.y.z'' else ''mx.y.z'')\<rparr>)\<rparr>),
     rs_hostbyname = (\<lambda>h. Some [if h = ''mx.y.z'' then [1, 2, 3, 4] else [5, 6, 7, 8]])\<rparr>"

definition sample_net_env :: net_env where
  "sample_net_env = \<lparr>ne_hostname = ''a.org'', ne_server_port = ''25'', ne_socket = (\<lambda>k. 7 + int k), ne_settable = (\<lambda>_. True), ne_connect = (\<lambda>_ _ _. Some EINPROGRESS),
     ne_resolvmx = (\<lambda>_. None), ne_ips = (\<lambda>_. [])\<rparr>"

theorem first_server_not_refused_witness:
  "smtp_connect (mail_net sample_resolver sample_net_env) ''y.z'' ''25'' = \<lparr>sc_socket_desc = 7, sc_state_code = SMTP_CONNECT\<rparr>"
proof -
  let ?an = "\<lparr>an_count = 2, an_record = (\<lambda>i. Some \<lparr>rr_class = 1, rr_type = 15,
       rr_preference = (if i = 0 then 20 else 10), rr_exchange = Some (if i = 0 then ''backup.y.z'' else ''mx.y.z'')\<rparr>)\<rparr>"
  have e: "expandable (map (an_record ?an) [0..<nat (an_count ?an)])" by (auto simp: expandable_def)
  have n: "mx_names (map (an_record ?an) [0..<nat (an_count ?an)]) = [''backup.y.z'', ''mx.y.z'']"
    by (simp add: numeral_2_eq_2 mx_names_Cons is_mx_def ns_c_in_def ns_t_mx_def) (simp add: mx_names_def)
  have "''y.z'' \<noteq> ne_hostname sample_net_env" "rs_search sample_resolver ''y.z'' (NS_PACKETSZ + 1) = Some ''answer''"
    "rs_initparse sample_resolver ''answer'' = Some ?an" "0 \<le> an_count ?an" by (simp_all add: sample_net_env_def sample_resolver_def)
  from first_server_not_refused [OF this e refl, of "''25''", THEN conjunct2, THEN conjunct1] show ?thesis
    unfolding n by (simp add: NS_PACKETSZ_def MAX_MX_ADDRS_def sample_net_env_def sample_resolver_def addresses_of_def)
qed

text \<open>
  The blocking mode of a socket can be switched off and on again. For an open descriptor whose
  flags can be set, \<open>set_socket_blocking_enabled\<close> changes the bit \<open>O_NONBLOCK\<close> of this descriptor as
  it is told and nothing else, and switching it off and on again restores the flags of a blocking one.
\<close>

theorem blocking_mode_switched:
  assumes "0 \<le> socket" "fl socket = Some flags" "flags \<noteq> -1" "or flags O_NONBLOCK \<noteq> -1" "settable socket"
  shows "\<exists>fl1 flags1. set_socket_blocking_enabled settable socket b fl = (fl1, True) \<and> fl1 socket = Some flags1
    \<and> (\<forall>s. s \<noteq> socket \<longrightarrow> fl1 s = fl s) \<and> (\<forall>n. bit flags1 n \<longleftrightarrow> (if n = 11 then \<not> b else bit flags n))
    \<and> (\<not> b \<and> \<not> bit flags 11 \<longrightarrow> set_socket_blocking_enabled settable socket True fl1 = (fl, True))"
proof -
  let ?f1 = "if b then and flags (not O_NONBLOCK) else or flags O_NONBLOCK"
  have o: "bit O_NONBLOCK n \<longleftrightarrow> n = 11" for n
  proof -
    have p: "O_NONBLOCK = push_bit 11 1" by (simp add: O_NONBLOCK_def push_bit_eq_mult)
    show ?thesis unfolding p bit_push_bit_iff bit_1_iff by auto
  qed
  have bits: "bit ?f1 n \<longleftrightarrow> (if n = 11 then \<not> b else bit flags n)" for n
    using bit_imp_le_length [of flags n] by (auto simp: bit_simps o)
  have undo: "and (or flags O_NONBLOCK) (not O_NONBLOCK) = flags" if "\<not> bit flags 11"
    using that bit_imp_le_length [of flags] by (intro bit_eqI) (auto simp: bit_simps o)
  have run: "set_socket_blocking_enabled settable socket b fl = (fl(socket \<mapsto> ?f1), True)"
    using assms by (simp add: set_socket_blocking_enabled_def)
  have "set_socket_blocking_enabled settable socket True (fl(socket \<mapsto> ?f1)) = (fl, True)" if "\<not> b" "\<not> bit flags 11"
    using that assms undo by (simp add: set_socket_blocking_enabled_def fun_upd_idem)
  then show ?thesis using run bits by (intro exI [of _ "fl(socket \<mapsto> ?f1)"] exI [of _ ?f1]) simp
qed

theorem blocking_mode_switched_witness:
  "\<exists>fl1. set_socket_blocking_enabled (\<lambda>_. True) 5 False [5 \<mapsto> 2, 6 \<mapsto> 0] = (fl1, True) \<and> fl1 5 = Some 0x802
     \<and> set_socket_blocking_enabled (\<lambda>_. True) 5 True fl1 = ([5 \<mapsto> 2, 6 \<mapsto> 0], True)"
proof -
  have "\<not> bit (2 :: 32 word) 11" "or (2 :: 32 word) O_NONBLOCK = 0x802" by (simp_all add: O_NONBLOCK_def)
  then show ?thesis
    using blocking_mode_switched [of 5 "[5 \<mapsto> 2, 6 \<mapsto> 0]" 2 "\<lambda>_. True" False]
    by (fastforce simp: set_socket_blocking_enabled_def)
qed

end
