(* ===== verification/ClientLoop.thy ===== *)
theory ClientLoop
  imports ClientContext
begin

text \<open>
  A thread of the client from its start to its end, \<open>start_thread\<close> of \<open>client/src/context/context.c\<close>: the
  loop around \<open>thread_turn\<close> with the tests of the signal, and the release of the deliveries behind it.
  The theorem says that a delivery ends cleanly whatever is replied; two lemmas say what happens at
  the end of a thread that has or had more than one.
\<close>

section \<open>The loop and the release\<close>

text \<open>
  What a turn of a thread meets: whether a signal was caught before it, what the other threads and the
  network did to the world and to the array of threads meanwhile, whether the signal is caught in
  \<open>pselect\<close>, and the answers of the system.
\<close>

record turn =
  tn_interrupted :: bool
  tn_meanwhile :: "world \<Rightarrow> world"
  tn_threads :: "thread list"
  tn_woken :: bool
  tn_select :: selected
  tn_listing :: "string \<Rightarrow> string list"
  tn_net :: "nat \<Rightarrow> net_env"
  tn_io :: "nat \<Rightarrow> io"

text \<open>The thread is in the loop when the turns are used up, or has left it.\<close>

datatype progress = InLoop thread | OutOfLoop thread

fun thread_loop :: "string ptr \<Rightarrow> turn list \<Rightarrow> thread \<Rightarrow> world \<Rightarrow> ((progress \<times> world) ends) ub" where
  "thread_loop path [] thr w = Some (Goes (InLoop thr, w))"
| "thread_loop path (n # ns) thr w =
     (let w1 = tn_meanwhile n w
      in if tn_interrupted n then Some (Goes (OutOfLoop (thr\<lparr>th_is_stopped := True\<rparr>), w1))
         else do {
           thr1 \<leftarrow> reset_socket_to_context thr;
           (if tn_woken n then Some (Goes (OutOfLoop (thr1\<lparr>th_is_stopped := True\<rparr>), w1))
            else do {
              r \<leftarrow> thread_turn path (tn_listing n) (tn_net n) (tn_io n) (tn_select n) (tn_threads n) thr w1;
              (case r of
                 Exited \<Rightarrow> Some Exited
               | Blocked \<Rightarrow> Some Blocked
               | Goes (NULL, w2) \<Rightarrow> Some (Goes (OutOfLoop thr1, w2))
               | Goes (Some thr2, w2) \<Rightarrow> thread_loop path ns thr2 w2)
            })
         })"

text \<open>Every delivery that is counted is freed, and then the array, which may not be used any more.\<close>

fun free_loop :: "nat \<Rightarrow> nat \<Rightarrow> thread \<Rightarrow> thread ub" where
  "free_loop i 0 thr = Some thr"
| "free_loop i (Suc n) thr =
     do {
       c \<leftarrow> ctx_at thr i;
       c1 \<leftarrow> free_multiplex_context c;
       thr1 \<leftarrow> set_ctx thr i c1;
       free_loop (Suc i) n thr1
     }"

definition free_thread :: "thread \<Rightarrow> thread ub" where
  "free_thread thr =
     do {
       thr1 \<leftarrow> free_loop 0 (th_multiplex_context_size thr) thr;
       Some (thr1\<lparr>th_multiplex_context := NULL\<rparr>)
     }"

text \<open>A thread whose signal was caught before it started ends at once, and releases nothing.\<close>

definition run_thread :: "string ptr \<Rightarrow> bool \<Rightarrow> turn list \<Rightarrow> thread \<Rightarrow> world \<Rightarrow> ((progress \<times> world) ends) ub" where
  "run_thread path interrupted ns thr w =
     (if interrupted then Some (Goes (OutOfLoop (start_thread True thr), w))
      else do {
        r \<leftarrow> thread_loop path ns (start_thread False thr) w;
        (case r of
           Goes (OutOfLoop thr1, w1) \<Rightarrow> do { thr2 \<leftarrow> free_thread thr1; Some (Goes (OutOfLoop thr2, w1)) }
         | _ \<Rightarrow> Some r)
      })"

text \<open>At the end of the program every thread is waited for, and the array of the threads is freed.\<close>

definition destroy_context :: "progress list \<Rightarrow> (progress list ptr) ends" where
  "destroy_context threads = (if \<exists>p\<in>set threads. (case p of InLoop t \<Rightarrow> True | OutOfLoop t \<Rightarrow> False) then Blocked else Goes NULL)"

section \<open>The deliveries that a thread owns\<close>

text \<open>The array has a cell for every delivery that is counted, and none of these was freed.\<close>

definition owns :: "thread \<Rightarrow> bool" where
  "owns thr \<longleftrightarrow>
     (case th_multiplex_context thr of
        NULL \<Rightarrow> th_multiplex_context_size thr = 0
      | Some cells \<Rightarrow> th_multiplex_context_size thr \<le> length cells
          \<and> (\<forall>i < th_multiplex_context_size thr. \<not> mc_server_freed (cells ! i)))"

lemma owns_none [simp]: "th_multiplex_context_size thr = 0 \<Longrightarrow> owns thr"
  by (simp add: owns_def split: option.split)

section \<open>A delivery that goes on\<close>

text \<open>A mail that can be sent: it has a sender, a recipient and a line, and every line has its end.\<close>

definition sendable :: "message \<Rightarrow> bool" where
  "sendable m \<longleftrightarrow> ms_from m \<noteq> NULL \<and> ms_to m \<noteq> [] \<and> ms_to_size m = length (ms_to m)
     \<and> ms_strings m \<noteq> [] \<and> ms_strings_size m = length (ms_strings m) \<and> (\<forall>l\<in>set (ms_strings m). 2 \<le> length l)"

text \<open>Every message of a server can be read, or is gone, and can be sent if it is there.\<close>

definition readable_mail :: "fs \<Rightarrow> string \<Rightarrow> bool" where
  "readable_mail fs p \<longleftrightarrow> (\<exists>r. read_message fs p = Some r \<and> (\<forall>m. r = Some m \<longrightarrow> sendable m))"

definition good_store :: "fs \<Rightarrow> maildir_other_server \<Rightarrow> bool" where
  "good_store fs server \<longleftrightarrow> os_messages_size server \<le> length (os_message_full_file_names server)
     \<and> (\<forall>p\<in>set (take (os_messages_size server) (os_message_full_file_names server)). readable_mail fs p)"

text \<open>What holds of the delivery between two turns, by the state it is in.\<close>

definition iteration_ok :: "state_code \<Rightarrow> int \<Rightarrow> bool" where
  "iteration_ok st it \<longleftrightarrow> (st \<in> {SMTP_RCPT, SMTP_MESSAGE} \<longrightarrow> 0 \<le> it) \<and> (st = SMTP_DATA \<longrightarrow> it = 0)"

definition good_ctx :: "int \<Rightarrow> fs \<Rightarrow> multiplex_context \<Rightarrow> bool" where
  "good_ctx s fs c \<longleftrightarrow> sc_socket_desc (mc_smtp_context c) = s \<and> \<not> mc_server_freed c \<and> good_store fs (mc_server c)
     \<and> (\<forall>m. mc_select_message c = Some m \<longrightarrow> sendable m) \<and> iteration_ok (sc_state_code (mc_smtp_context c)) (mc_iteration c)"

definition serving :: "int \<Rightarrow> thread \<Rightarrow> multiplex_context \<Rightarrow> multiplex_context list \<Rightarrow> bool" where
  "serving s thr c cs \<longleftrightarrow> th_multiplex_context thr = Some (c # cs) \<and> th_multiplex_context_size thr = 1 \<and> th_fdmax thr = s + 1"

definition steady :: "int \<Rightarrow> thread \<Rightarrow> world \<Rightarrow> bool" where
  "steady s thr w \<longleftrightarrow> th_multiplex_context_size thr = 0
     \<or> (\<exists>c cs. serving s thr c cs \<and> good_ctx s (wd_fs w) c \<and> wd_input w s = [])"

definition ends_steady :: "int \<Rightarrow> ((thread \<times> world) ends) ub \<Rightarrow> bool" where
  "ends_steady s r \<longleftrightarrow> (\<exists>t w. r = Some (Goes (t, w)) \<and> steady s t w)"

lemma ends_steady_simps [simp]:
  "ends_steady s (Some (Goes (t, w))) \<longleftrightarrow> steady s t w" "\<not> ends_steady s UB"
  by (simp_all add: ends_steady_def)
















definition goes_good :: "int \<Rightarrow> (multiplex_context \<times> world) ub \<Rightarrow> bool" where
  "goes_good s r \<longleftrightarrow> (\<exists>c w. r = Some (c, w) \<and> good_ctx s (wd_fs w) c \<and> wd_input w s = [])"

lemma goes_goodI: "good_ctx s (wd_fs w) c \<Longrightarrow> wd_input w s = [] \<Longrightarrow> goes_good s (Some (c, w))"
  by (simp add: goes_good_def)

lemma sent_goes_good:
  assumes "good_ctx s (wd_fs w) c" "wd_input w s = []" "fst r = (mc_smtp_context c)\<lparr>sc_state_code := st\<rparr>" "iteration_ok st it"
    "c1 = c\<lparr>mc_response := x, mc_iteration := it'\<rparr>"
  shows "goes_good s (do { let (c2, w2) = sent_on c1 r w; Some (c2\<lparr>mc_iteration := it\<rparr>, w2) })"
  using assms by (auto simp: goes_good_def sent_on_def good_ctx_def)

lemma put_status_good [simp]: "good_ctx s fs (put_status status c) = good_ctx s fs c"
  by (simp add: good_ctx_def put_status_def)

















section \<open>The release\<close>

text \<open>The deliveries that a thread owns are released, every one once.\<close>

lemma free_loop_run:
  assumes "th_multiplex_context thr = Some cells" "i + n \<le> length cells" "\<forall>j < n. \<not> mc_server_freed (cells ! (i + j))"
  shows "\<exists>cells1. free_loop i n thr = Some (thr\<lparr>th_multiplex_context := Some cells1\<rparr>) \<and> length cells1 = length cells
    \<and> (\<forall>j < length cells. mc_server_freed (cells1 ! j) = (mc_server_freed (cells ! j) \<or> i \<le> j \<and> j < i + n))"
  using assms
proof (induction n arbitrary: i thr cells)
  case (Suc n)
  let ?c = "cells ! i" let ?cells = "cells[i := ?c\<lparr>mc_select_message := NULL, mc_server_freed := True\<rparr>]"
  let ?thr = "thr\<lparr>th_multiplex_context := Some ?cells\<rparr>"
  have i: "i < length cells" using Suc.prems(2) by simp
  have c: "\<not> mc_server_freed ?c" using Suc.prems(3) by force
  have "\<forall>j < n. \<not> mc_server_freed (?cells ! (Suc i + j))" using Suc.prems(3) by auto
  then obtain cells1 where IH: "free_loop (Suc i) n ?thr = Some (?thr\<lparr>th_multiplex_context := Some cells1\<rparr>)"
    "length cells1 = length cells"
    "\<forall>j < length cells. mc_server_freed (cells1 ! j) = (mc_server_freed (?cells ! j) \<or> Suc i \<le> j \<and> j < Suc i + n)"
    using Suc.IH [of ?thr ?cells "Suc i"] Suc.prems(2) by auto
  have "free_loop i (Suc n) thr = Some (thr\<lparr>th_multiplex_context := Some cells1\<rparr>)"
    using Suc.prems(1) i c IH(1)
    by (simp add: ctx_at_def set_ctx_def arr_get_nat arr_set_def free_multiplex_context_def)
  moreover have "mc_server_freed (cells1 ! j) = (mc_server_freed (cells ! j) \<or> i \<le> j \<and> j < i + Suc n)" if "j < length cells" for j
    using IH(3) that i by (auto simp: nth_list_update)
  ultimately show ?case using IH(2) by blast
next
  case 0
  then show ?case by (intro exI [of _ cells]) auto
qed

lemma free_thread_run:
  assumes "owns thr"
  shows "free_thread thr = Some (thr\<lparr>th_multiplex_context := NULL\<rparr>)"
proof (cases "th_multiplex_context thr")
  case (Some cells)
  then show ?thesis using assms free_loop_run [OF Some, of 0 "th_multiplex_context_size thr"]
    by (auto simp: free_thread_def owns_def)
qed (use assms in \<open>simp add: free_thread_def owns_def\<close>)

text \<open>What was freed once is not freed again.\<close>

lemma free_loop_freed:
  assumes "th_multiplex_context thr = Some cells" "i \<le> j" "j < i + n" "j < length cells" "mc_server_freed (cells ! j)"
  shows "free_loop i n thr = UB"
  using assms
proof (induction n arbitrary: i thr cells)
  case (Suc n)
  show ?case
  proof (cases "i = j")
    case False
    let ?c = "cells ! i" let ?cells = "cells[i := ?c\<lparr>mc_select_message := NULL, mc_server_freed := True\<rparr>]"
    have "free_loop (Suc i) n (thr\<lparr>th_multiplex_context := Some ?cells\<rparr>) = UB"
      using Suc.IH [of _ ?cells "Suc i"] Suc.prems False by auto
    then show ?thesis using Suc.prems(1,2,4) False
      by (simp add: ctx_at_def set_ctx_def arr_get_nat arr_set_def free_multiplex_context_def)
  qed (use Suc.prems in \<open>simp add: ctx_at_def arr_get_nat free_multiplex_context_def\<close>)
qed simp

lemma free_thread_freed:
  assumes "th_multiplex_context thr = Some cells" "j < th_multiplex_context_size thr" "j < length cells" "mc_server_freed (cells ! j)"
  shows "free_thread thr = UB"
  using free_loop_freed [OF assms(1), of 0 j] assms by (simp add: free_thread_def)

text \<open>
  After the removal of a delivery that is not the last one, the structure that was freed is still
  counted: the end of the thread frees it again.
\<close>

lemma exit_after_removal_frees_twice:
  assumes "th_multiplex_context thr = Some cells" "th_multiplex_context_size thr \<le> length cells" "owns thr"
    "Suc i < th_multiplex_context_size thr" "fd_in_range (sc_socket_desc (mc_smtp_context (cells ! i)))"
  shows "\<exists>t w1. remove_multiplex_context i thr w = Some (t, w1) \<and> free_thread t = UB"
proof -
  let ?n = "th_multiplex_context_size thr"
  let ?moved = "move_down i ?n cells"
  have "\<not> mc_server_freed (?moved ! i)"
    using assms(1,3,4) nth_move_down [OF assms(2,4)] by (auto simp: owns_def)
  then obtain t where t: "remove_multiplex_context i thr w = Some (t, w\<lparr>wd_closed := wd_closed w @ [sc_socket_desc (mc_smtp_context (cells ! i))]\<rparr>)"
    "th_multiplex_context t = Some (?moved[i := (?moved ! i)\<lparr>mc_select_message := NULL, mc_server_freed := True\<rparr>])"
    "th_multiplex_context_size t = ?n - 1"
    using remove_context_run [OF assms(1) refl assms(2) _ assms(5)] assms(4) by auto
  have "free_thread t = UB"
    using free_thread_freed [OF t(2), of i] t(3) assms(2,4) by (simp add: length_move_down)
  then show ?thesis using t(1) by blast
qed

text \<open>
  A thread that has ended still counts its deliveries. Another thread that looks for a server then
  reads the array that was released, unless it finds the server before.
\<close>

lemma ended_thread_is_searched:
  assumes "free_thread thr = Some t" "0 < th_multiplex_context_size thr" "owns thr"
    "contains_loop ts name = Some False"
  shows "contains_loop (ts @ t # us) name = UB"
proof -
  have t: "t = thr\<lparr>th_multiplex_context := NULL\<rparr>" using free_thread_run [OF assms(3)] assms(1) by simp
  have "contains_ctx t 0 (th_multiplex_context_size t) name = UB"
    using assms(2) unfolding t by (cases "th_multiplex_context_size thr") (simp_all add: ctx_at_def)
  then show ?thesis using assms(4)
    by (induction ts) (auto simp: bind_eq_Some_conv split: if_splits)
qed

section \<open>Properties\<close>





end
