(* ===== verification/ClientMain.thy ===== *)
theory ClientMain
  imports ClientContext
begin

text \<open>
  The start and the end of the client: its logger \<open>client/src/log/logs.c\<close>, its configuration
  \<open>client/src/config\<close> and \<open>client/src/main.c\<close>. The thread of the logger, \<open>main\<close>, the other threads
  and the signals take turns in any order; a turn is what lies between two accesses to what they
  share. \<open>fmt\<close> is \<open>strftime\<close>; the texts of the messages are those that \<open>vasprintf\<close> makes. \<open>ln\<close> gives the
  message that the log call at a line of a file makes, with the number it shows if there is one: its text,
  its time and its thread; the level is that of the call.
\<close>

section \<open>Data\<close>

datatype log_type = LOG_ERROR | LOG_INFO | LOG_DEBUG | LOG_WARN | LOG_ADDINFO

record c_log_message =
  cl_message :: string
  cl_filename :: string
  cl_thread :: string
  cl_line :: int
  cl_type :: log_type
  cl_time :: int

record config =
  cf_threads :: int
  cf_maildir_path :: "string ptr"
  cf_debug :: int
  cf_logs_on :: int
  cf_hostname :: "string ptr"
  cf_server_port :: "string ptr"

definition zero_config :: config where
  "zero_config = \<lparr>cf_threads = 0, cf_maildir_path = NULL, cf_debug = 0, cf_logs_on = 0, cf_hostname = NULL, cf_server_port = NULL\<rparr>"

text \<open>Where the thread of the logger and \<open>main\<close> are. \<open>MSay\<close> has lines to log before it goes on.\<close>

datatype logger_pc = LNone | LStart | LMasked | LLoop | LTest | LPop | LPrint "c_log_message ptr" | LEnd

datatype main_pc =
    MLogger | MConfig | MSignals | MContext | MAbort | MWait | MDestroy nat | MJoin nat | MFinalize int | FTest int | FPop int
  | FPrint int "c_log_message ptr" | FJoin int | MExit int | MKilled | MSay "c_log_message list" main_pc

record client =
  cs_head :: "c_log_message list"
  cs_locked :: bool
  cs_interrupt :: bool
  cs_handlers :: bool
  cs_config :: config
  cs_threads :: "thread list"
  cs_threads_ended :: bool
  cs_printed :: "string list"
  cs_logger :: logger_pc
  cs_main :: main_pc

definition client_start :: client where
  "client_start =
     \<lparr>cs_head = [], cs_locked = False, cs_interrupt = False, cs_handlers = False, cs_config = zero_config, cs_threads = [],
      cs_threads_ended = False, cs_printed = [], cs_logger = LNone, cs_main = MLogger\<rparr>"

section \<open>The queue of the logger\<close>

definition push_log :: "c_log_message \<Rightarrow> client \<Rightarrow> client ends" where
  "push_log m g = (if cs_locked g then Blocked else Goes (g\<lparr>cs_head := cs_head g @ [m]\<rparr>))"

text \<open>An empty queue is left with the mutex locked.\<close>

definition pop_log :: "client \<Rightarrow> (client \<times> c_log_message ptr) ends" where
  "pop_log g =
     (if cs_locked g then Blocked
      else case cs_head g of
             [] \<Rightarrow> Goes (g\<lparr>cs_locked := True\<rparr>, NULL)
           | m # ms \<Rightarrow> Goes (g\<lparr>cs_head := ms\<rparr>, Some m))"

definition is_logs_queue_empty :: "client \<Rightarrow> bool" where
  "is_logs_queue_empty g \<longleftrightarrow> cs_head g = []"

definition is_interrupt :: "client \<Rightarrow> bool" where
  "is_interrupt g = cs_interrupt g"

definition color :: "string \<Rightarrow> string" where "color s = CHR 0x1B # s"

definition log_prefix :: "string \<Rightarrow> string \<Rightarrow> string \<Rightarrow> c_log_message \<Rightarrow> string" where
  "log_prefix buffer c name m =
     color ''[35m'' @ ''['' @ buffer @ ''] '' @ color c @ name @ color ''[36m'' @ '' ['' @ cl_thread m @ ''] ['' @ cl_filename m @ '':''
       @ dec_string_int (cl_line m) @ '']: '' @ '' '' @ cl_message m @ [CHR 0x0A]"

definition message_text :: "(int \<Rightarrow> string) \<Rightarrow> c_log_message \<Rightarrow> string" where
  "message_text fmt m =
     (case cl_type m of
        LOG_INFO \<Rightarrow> log_prefix (fmt (cl_time m)) ''[34m'' ''INFO    '' m
      | LOG_ERROR \<Rightarrow> log_prefix (fmt (cl_time m)) ''[31m'' ''ERROR   '' m
      | LOG_DEBUG \<Rightarrow> log_prefix (fmt (cl_time m)) ''[32m'' ''DEBUG   '' m
      | LOG_WARN \<Rightarrow> log_prefix (fmt (cl_time m)) ''[33m'' ''WARNING '' m
      | LOG_ADDINFO \<Rightarrow> color ''[36m'' @ [CHR 0x09] @ cl_message m @ [CHR 0x0A]) @ color ''[0m''"

definition print_message :: "(int \<Rightarrow> string) \<Rightarrow> c_log_message ptr \<Rightarrow> client \<Rightarrow> client ub" where
  "print_message fmt l g = do { m \<leftarrow> l; Some (g\<lparr>cs_printed := cs_printed g @ [message_text fmt m]\<rparr>) }"

text \<open>What all the log functions do with the message they made.\<close>

definition log_or_free :: "c_log_message \<Rightarrow> client \<Rightarrow> client ends" where
  "log_or_free m g = (if cf_logs_on (cs_config g) \<noteq> 0 then push_log m g else Goes g)"

definition log_info :: "string \<Rightarrow> string \<Rightarrow> int \<Rightarrow> int \<Rightarrow> string \<Rightarrow> client \<Rightarrow> client ends" where
  "log_info message filename line time thr =
     log_or_free \<lparr>cl_message = message, cl_filename = filename, cl_thread = thr, cl_line = line, cl_type = LOG_INFO, cl_time = time\<rparr>"

definition log_error :: "string \<Rightarrow> string \<Rightarrow> int \<Rightarrow> int \<Rightarrow> string \<Rightarrow> client \<Rightarrow> client ends" where
  "log_error message filename line time thr =
     log_or_free \<lparr>cl_message = message, cl_filename = filename, cl_thread = thr, cl_line = line, cl_type = LOG_ERROR, cl_time = time\<rparr>"

definition log_warn :: "string \<Rightarrow> string \<Rightarrow> int \<Rightarrow> int \<Rightarrow> string \<Rightarrow> client \<Rightarrow> client ends" where
  "log_warn message filename line time thr =
     log_or_free \<lparr>cl_message = message, cl_filename = filename, cl_thread = thr, cl_line = line, cl_type = LOG_WARN, cl_time = time\<rparr>"

definition log_debug :: "string \<Rightarrow> string \<Rightarrow> int \<Rightarrow> int \<Rightarrow> string \<Rightarrow> client \<Rightarrow> client ends" where
  "log_debug message filename line time thr g =
     (if cf_debug (cs_config g) = 0 then Goes g
      else log_or_free \<lparr>cl_message = message, cl_filename = filename, cl_thread = thr, cl_line = line, cl_type = LOG_DEBUG, cl_time = time\<rparr> g)"

text \<open>The name and the line of this message are not set, and not printed.\<close>

definition log_addinfo :: "string \<Rightarrow> int \<Rightarrow> string \<Rightarrow> client \<Rightarrow> client ends" where
  "log_addinfo message time thr =
     log_or_free \<lparr>cl_message = message, cl_filename = [], cl_thread = thr, cl_line = 0, cl_type = LOG_ADDINFO, cl_time = time\<rparr>"

section \<open>The thread of the logger\<close>

text \<open>
  One turn of \<open>logs_queue_func\<close>: the two tests before and after the signals are masked, the test of
  the end and of the queue, which no mutex protects, the removal and the output.
\<close>

definition logs_queue_func :: "(int \<Rightarrow> string) \<Rightarrow> client \<Rightarrow> client ub" where
  "logs_queue_func fmt g =
     (case cs_logger g of
        LNone \<Rightarrow> Some g
      | LStart \<Rightarrow> Some (g\<lparr>cs_logger := if is_interrupt g then LEnd else LMasked\<rparr>)
      | LMasked \<Rightarrow> Some (g\<lparr>cs_logger := if is_interrupt g then LEnd else LLoop\<rparr>)
      | LLoop \<Rightarrow> Some (g\<lparr>cs_logger := if is_interrupt g \<and> is_logs_queue_empty g then LEnd else LTest\<rparr>)
      | LTest \<Rightarrow> Some (g\<lparr>cs_logger := if \<not> is_logs_queue_empty g then LPop else LLoop\<rparr>)
      | LPop \<Rightarrow>
          (case pop_log g of
             Goes (g1, m) \<Rightarrow> Some (g1\<lparr>cs_logger := LPrint m\<rparr>)
           | _ \<Rightarrow> Some g)
      | LPrint m \<Rightarrow> do { g1 \<leftarrow> print_message fmt m g; Some (g1\<lparr>cs_logger := LLoop\<rparr>) }
      | LEnd \<Rightarrow> Some g)"

definition start_logger :: "client \<Rightarrow> client" where
  "start_logger g = g\<lparr>cs_config := (cs_config g)\<lparr>cf_logs_on := 1\<rparr>, cs_head := [], cs_logger := LStart\<rparr>"

section \<open>Configuration and signals\<close>

text \<open>
  A configuration as the library reads it: the value of an option of the right type, or none.
  \<open>loading_config\<close> also returns the lines it logs, by level and line number.
\<close>

record config_file =
  fl_read :: bool
  fl_int :: "string \<Rightarrow> int option"
  fl_string :: "string \<Rightarrow> string option"

definition loading_config :: "config_file \<Rightarrow> config \<Rightarrow> config \<times> bool \<times> (log_type \<times> int) list" where
  "loading_config cfg c0 =
     (let c = c0\<lparr>cf_maildir_path := NULL, cf_hostname := NULL, cf_server_port := NULL\<rparr>; begin = [(LOG_INFO, 15)] in
      if \<not> fl_read cfg then (c, False, begin)
      else case fl_int cfg ''application.threads'' of
        None \<Rightarrow> (c, False, begin @ [(LOG_ERROR, 23)])
      | Some threads \<Rightarrow>
          if threads < 1 then (c, False, begin @ [(LOG_ERROR, 28)])
          else case fl_string cfg ''application.maildir.path'' of
            None \<Rightarrow> (c, False, begin @ [(LOG_ERROR, 34)])
          | Some path \<Rightarrow>
              (case fl_int cfg ''application.debug'' of
                 None \<Rightarrow> (c, False, begin @ [(LOG_ERROR, 40)])
               | Some debug \<Rightarrow>
                   let active = (if debug \<noteq> 0 then begin @ [(LOG_INFO, 45)] else begin) in
                   (case fl_string cfg ''application.hostname'' of
                      None \<Rightarrow> (c, False, active @ [(LOG_ERROR, 50)])
                    | Some hostname \<Rightarrow>
                        (case fl_string cfg ''application.server_port'' of
                           None \<Rightarrow> (c, False, active @ [(LOG_ERROR, 57)])
                         | Some server_port \<Rightarrow>
                             (c\<lparr>cf_maildir_path := Some path, cf_threads := threads, cf_debug := debug,
                                cf_hostname := Some hostname, cf_server_port := Some server_port\<rparr>, True,
                              active @ [(LOG_INFO, 67), (LOG_INFO, 68), (LOG_INFO, 69), (LOG_INFO, 70), (LOG_INFO, 71)])))))"

definition destroy_configuration :: "client \<Rightarrow> client" where
  "destroy_configuration g = g\<lparr>cs_config := zero_config\<rparr>"

definition init_signals_handler :: "client \<Rightarrow> client" where
  "init_signals_handler g = g\<lparr>cs_handlers := True\<rparr>"

text \<open>The handler logs a line, \<open>m\<close>, and waits for the mutex to do so.\<close>

definition exit_handler :: "c_log_message \<Rightarrow> client \<Rightarrow> client ends" where
  "exit_handler m g =
     (case log_or_free m g of
        Goes g1 \<Rightarrow> Goes (g1\<lparr>cs_interrupt := True\<rparr>)
      | _ \<Rightarrow> Blocked)"

section \<open>\<open>main\<close>\<close>

text \<open>
  \<open>logger_finalize\<close> empties the queue while the logger still runs, and joins it. The line it logs
  first, \<open>m\<close>, is dropped or not by \<open>logs_on\<close>. What a blocked call does is nothing.
\<close>

definition logger_finalize :: "(int \<Rightarrow> string) \<Rightarrow> c_log_message \<Rightarrow> client \<Rightarrow> client ub" where
  "logger_finalize fmt m g =
     (case cs_main g of
        MFinalize rc \<Rightarrow> (case log_or_free m g of Goes g1 \<Rightarrow> Some (g1\<lparr>cs_main := FTest rc\<rparr>) | _ \<Rightarrow> Some g)
      | FTest rc \<Rightarrow> Some (g\<lparr>cs_main := if \<not> is_logs_queue_empty g then FPop rc else FJoin rc\<rparr>)
      | FPop rc \<Rightarrow> (case pop_log g of Goes (g1, l) \<Rightarrow> Some (g1\<lparr>cs_main := FPrint rc l\<rparr>) | _ \<Rightarrow> Some g)
      | FPrint rc l \<Rightarrow> do { g1 \<leftarrow> print_message fmt l g; Some (g1\<lparr>cs_main := FTest rc\<rparr>) }
      | FJoin rc \<Rightarrow> Some (if cs_logger g = LEnd then g\<lparr>cs_main := MExit rc\<rparr> else g)
      | _ \<Rightarrow> Some g)"

type_synonym log_lines = "string \<Rightarrow> int \<Rightarrow> nat \<Rightarrow> c_log_message"

definition said :: "log_lines \<Rightarrow> string \<Rightarrow> nat \<Rightarrow> log_type \<times> int \<Rightarrow> c_log_message" where
  "said ln file_name n call = (ln file_name (snd call) n)\<lparr>cl_type := fst call, cl_filename := file_name, cl_line := snd call\<rparr>"

definition say_then :: "c_log_message list \<Rightarrow> main_pc \<Rightarrow> main_pc" where
  "say_then ms p = (if ms = [] then p else MSay ms p)"

text \<open>
  \<open>destroy_turn\<close> logs a line for every thread and waits for it: the states \<open>MDestroy i\<close> and \<open>MJoin i\<close>.
\<close>

definition destroy_turn :: "log_lines \<Rightarrow> nat \<Rightarrow> client \<Rightarrow> client" where
  "destroy_turn ln i g =
     (if i < length (cs_threads g) then g\<lparr>cs_main := MSay [said ln ''context.c'' i (LOG_INFO, 483)] (MJoin i)\<rparr>
      else (destroy_configuration (g\<lparr>cs_threads := []\<rparr>))\<lparr>cs_main := MFinalize 0\<rparr>)"

definition client_main :: "(int \<Rightarrow> string) \<Rightarrow> config_file \<Rightarrow> log_lines \<Rightarrow> client \<Rightarrow> client ub" where
  "client_main fmt cfg ln g =
     (case cs_main g of
        MSay ms p \<Rightarrow>
          (case ms of
             [] \<Rightarrow> Some (g\<lparr>cs_main := p\<rparr>)
           | m # rest \<Rightarrow> (case log_or_free m g of Goes g1 \<Rightarrow> Some (g1\<lparr>cs_main := say_then rest p\<rparr>) | _ \<Rightarrow> Some g))
      | MLogger \<Rightarrow> Some ((start_logger g)\<lparr>cs_main := MSay [said ln ''main.c'' 0 (LOG_INFO, 8)] MConfig\<rparr>)
      | MConfig \<Rightarrow>
          (case loading_config cfg (cs_config g) of
             (c, ok, lines) \<Rightarrow>
               Some (g\<lparr>cs_config := c, cs_main := say_then (map (said ln ''config.c'' 0) lines) (if ok then MSignals else MAbort)\<rparr>))
      | MAbort \<Rightarrow> Some ((destroy_configuration g)\<lparr>cs_main := MFinalize (- 1)\<rparr>)
      | MSignals \<Rightarrow> Some ((init_signals_handler g)\<lparr>cs_main := MSay [said ln ''signal_handler.c'' 0 (LOG_INFO, 20)] MContext\<rparr>)
      | MContext \<Rightarrow> Some (g\<lparr>cs_threads := init_context (nat (cf_threads (cs_config g))), cs_main := MWait\<rparr>)
      | MWait \<Rightarrow>
          Some (g\<lparr>cs_main := if is_interrupt g
                             then MSay [said ln ''main.c'' 0 (LOG_INFO, 19), said ln ''context.c'' (length (cs_threads g)) (LOG_INFO, 481)] (MDestroy 0)
                             else MWait\<rparr>)
      | MDestroy i \<Rightarrow> Some (destroy_turn ln i g)
      | MJoin i \<Rightarrow> Some (if cs_threads_ended g then g\<lparr>cs_main := MDestroy (Suc i)\<rparr> else g)
      | MExit rc \<Rightarrow> Some g
      | MKilled \<Rightarrow> Some g
      | _ \<Rightarrow> logger_finalize fmt (said ln ''logs.c'' 0 (LOG_INFO, 253)) g)"

text \<open>
  The moves of the program: a turn of the logger or of \<open>main\<close>, another thread that logs a message, a signal,
  and the end of the threads of the deliveries, which end after an interrupt. A signal without its
  handler ends the process.
\<close>

datatype move = LoggerTurn | MainTurn | Logs c_log_message | Signal c_log_message | ThreadsEnd

fun client_step :: "(int \<Rightarrow> string) \<Rightarrow> config_file \<Rightarrow> log_lines \<Rightarrow> client \<Rightarrow> move \<Rightarrow> client ub" where
  "client_step fmt cfg ln g LoggerTurn = logs_queue_func fmt g"
| "client_step fmt cfg ln g MainTurn = client_main fmt cfg ln g"
| "client_step fmt cfg ln g (Logs m) = Some (case log_or_free m g of Goes g1 \<Rightarrow> g1 | _ \<Rightarrow> g)"
| "client_step fmt cfg ln g (Signal m) =
     Some (if \<not> cs_handlers g then g\<lparr>cs_main := MKilled\<rparr>
           else case exit_handler m g of Goes g1 \<Rightarrow> g1 | _ \<Rightarrow> g)"
| "client_step fmt cfg ln g ThreadsEnd = Some (if is_interrupt g then g\<lparr>cs_threads_ended := True\<rparr> else g)"

lemmas client_simps = logs_queue_func_def client_main_def logger_finalize_def log_or_free_def push_log_def pop_log_def
  print_message_def is_interrupt_def is_logs_queue_empty_def exit_handler_def start_logger_def init_signals_handler_def
  destroy_configuration_def say_then_def destroy_turn_def

lemma loading_config_logs_on: "loading_config cfg c0 = (c, ok) \<Longrightarrow> cf_logs_on c = cf_logs_on c0"
  by (auto simp: loading_config_def Let_def split: if_splits option.splits)

text \<open>The configurations that can be used.\<close>

definition usable :: "config_file \<Rightarrow> bool" where
  "usable cfg \<longleftrightarrow> fl_read cfg \<and> (\<exists>n \<ge> 1. fl_int cfg ''application.threads'' = Some n) \<and> fl_int cfg ''application.debug'' \<noteq> None
     \<and> fl_string cfg ''application.maildir.path'' \<noteq> None \<and> fl_string cfg ''application.hostname'' \<noteq> None
     \<and> fl_string cfg ''application.server_port'' \<noteq> None"

lemma loading_config_iff: "fst (snd (loading_config cfg c)) \<longleftrightarrow> usable cfg"
  by (auto simp: loading_config_def usable_def Let_def split: option.splits)

lemma loading_config_cases:
  obtains c' lines where "loading_config cfg c = (c', usable cfg, lines)" "cf_logs_on c' = cf_logs_on c"
proof -
  obtain c' ok lines where l: "loading_config cfg c = (c', ok, lines)" by (metis surj_pair)
  moreover have "ok = usable cfg" using loading_config_iff [of cfg c] l by simp
  ultimately show thesis using that loading_config_logs_on [OF l] by blast
qed

section \<open>No way out\<close>

text \<open>Where \<open>main\<close> goes on after the lines it has to log.\<close>

fun goes_to :: "main_pc \<Rightarrow> main_pc" where
  "goes_to (MSay ms p) = goes_to p"
| "goes_to p = p"

definition dead_end :: "main_pc \<Rightarrow> bool" where
  "dead_end p \<longleftrightarrow> goes_to p \<in> {MLogger, MConfig, MAbort, MKilled} \<or> (\<exists>rc l. goes_to p \<in> {MFinalize rc, FTest rc, FPop rc, FPrint rc l, FJoin rc})"

lemma dead_end_simps [simp]:
  "dead_end (MSay ms p) = dead_end p" "dead_end (say_then ms p) = dead_end p" "dead_end MLogger" "dead_end MConfig" "dead_end MAbort" "dead_end MKilled"
  "dead_end (MFinalize rc)" "dead_end (FTest rc)" "dead_end (FPop rc)" "dead_end (FPrint rc l)" "dead_end (FJoin rc)"
  "\<not> dead_end MSignals" "\<not> dead_end MContext" "\<not> dead_end MWait" "\<not> dead_end (MDestroy i)" "\<not> dead_end (MJoin i)" "\<not> dead_end (MExit rc)"
  by (auto simp: dead_end_def say_then_def)

definition no_way_out :: "client \<Rightarrow> bool" where
  "no_way_out g \<longleftrightarrow> \<not> cs_interrupt g \<and> \<not> cs_handlers g \<and> cs_logger g \<noteq> LEnd \<and> dead_end (cs_main g)"

lemmas client_turns = logs_queue_func_def client_main_def logger_finalize_def log_or_free_def push_log_def pop_log_def
  print_message_def is_interrupt_def is_logs_queue_empty_def start_logger_def destroy_configuration_def

lemma no_way_out_step:
  assumes "no_way_out g" "\<not> usable cfg" "client_step fmt cfg ln g mv = Some g'"
  shows "no_way_out g'"
proof (cases mv)
  case LoggerTurn
  then show ?thesis using assms(1,3)
    by (auto simp: no_way_out_def client_turns bind_eq_Some_conv split: logger_pc.splits if_splits list.splits ends.splits)
next
  case MainTurn
  obtain c' lines where "loading_config cfg (cs_config g) = (c', False, lines)"
    by (rule loading_config_cases [of cfg "cs_config g"]) (use assms(2) in auto)
  then show ?thesis using assms(1,3) MainTurn
    by (cases "cs_main g") (auto simp: no_way_out_def client_turns bind_eq_Some_conv split: if_splits list.splits ends.splits)
next
  case (Logs m)
  then show ?thesis using assms(1,3) by (auto simp: no_way_out_def client_simps split: if_splits ends.splits)
next
  case (Signal m)
  then show ?thesis using assms(1,3) by (auto simp: no_way_out_def)
next
  case ThreadsEnd
  then show ?thesis using assms(1,3) by (auto simp: no_way_out_def is_interrupt_def)
qed

lemma no_way_out_run:
  "no_way_out g \<Longrightarrow> \<not> usable cfg \<Longrightarrow> run_inputs (client_step fmt cfg ln) g mvs = Some g' \<Longrightarrow> no_way_out g'"
  by (induction mvs arbitrary: g) (auto split: option.splits dest: no_way_out_step)

section \<open>One consumer\<close>

text \<open>While \<open>main\<close> waits, only the thread of the logger takes messages out of the queue.\<close>

fun logged :: "move list \<Rightarrow> c_log_message list" where
  "logged [] = []"
| "logged (Logs m # mvs) = m # logged mvs"
| "logged (_ # mvs) = logged mvs"

fun held :: "logger_pc \<Rightarrow> c_log_message list" where
  "held (LPrint (Some m)) = [m]"
| "held _ = []"

definition in_order :: "(int \<Rightarrow> string) \<Rightarrow> c_log_message list \<Rightarrow> client \<Rightarrow> bool" where
  "in_order fmt ms g \<longleftrightarrow> map (message_text fmt) ms = cs_printed g @ map (message_text fmt) (held (cs_logger g) @ cs_head g)
     \<and> \<not> cs_locked g \<and> \<not> cs_interrupt g \<and> cs_main g = MWait \<and> cf_logs_on (cs_config g) \<noteq> 0
     \<and> cs_logger g \<noteq> LPrint NULL \<and> (cs_logger g = LPop \<longrightarrow> cs_head g \<noteq> [])"

fun waiting_move :: "move \<Rightarrow> bool" where
  "waiting_move (Signal m) \<longleftrightarrow> False"
| "waiting_move ThreadsEnd \<longleftrightarrow> False"
| "waiting_move _ \<longleftrightarrow> True"

lemma in_order_step:
  assumes "in_order fmt ms g" "waiting_move mv"
  shows "\<exists>g'. client_step fmt cfg ln g mv = Some g' \<and> in_order fmt (ms @ logged [mv]) g'"
proof (cases mv)
  case LoggerTurn
  show ?thesis
  proof (cases "cs_logger g")
    case (LPrint l)
    then show ?thesis using assms LoggerTurn by (cases l) (auto simp: in_order_def client_simps)
  next
    case LPop
    then show ?thesis using assms LoggerTurn by (cases "cs_head g") (auto simp: in_order_def client_simps)
  qed (use assms LoggerTurn in \<open>auto simp: in_order_def client_simps\<close>)
next
  case (Logs m)
  then show ?thesis using assms by (auto simp: in_order_def client_simps)
qed (use assms in \<open>auto simp: in_order_def client_simps\<close>)

lemma in_order_run:
  "in_order fmt ms g \<Longrightarrow> \<forall>mv\<in>set mvs. waiting_move mv \<Longrightarrow>
   \<exists>g'. run_inputs (client_step fmt cfg ln) g mvs = Some g' \<and> in_order fmt (ms @ logged mvs) g'"
proof (induction mvs arbitrary: g ms)
  case (Cons mv mvs)
  from Cons.prems(2) have w: "waiting_move mv" by simp
  obtain g1 where 1: "client_step fmt cfg ln g mv = Some g1" "in_order fmt (ms @ logged [mv]) g1"
    using in_order_step [OF Cons.prems(1) w, of cfg ln] by blast
  have "logged (mv # mvs) = logged [mv] @ logged mvs" by (cases mv) simp_all
  with Cons.IH [OF 1(2)] Cons.prems(2) 1(1) show ?case by simp
qed simp

section \<open>\<open>main\<close> alone\<close>

text \<open>What \<open>main\<close> does in consecutive turns: log lines, wait for threads that have ended, empty the queue.\<close>

lemma run_then: "run_inputs step s is = Some s' \<Longrightarrow> run_inputs step s (is @ js) = run_inputs step s' js"
  by (simp add: run_inputs_append)

lemma say_then_run:
  assumes "\<not> cs_locked g" "cf_logs_on (cs_config g) \<noteq> 0" "cs_main g = say_then ms p"
  shows "run_inputs (client_step fmt cfg ln) g (replicate (length ms) MainTurn) = Some (g\<lparr>cs_head := cs_head g @ ms, cs_main := p\<rparr>)"
  using assms
proof (induction ms arbitrary: g)
  case Nil
  then show ?case by (simp add: say_then_def)
next
  case (Cons m ms)
  let ?g = "g\<lparr>cs_head := cs_head g @ [m], cs_main := say_then ms p\<rparr>"
  have "client_step fmt cfg ln g MainTurn = Some ?g"
    using Cons.prems by (simp add: client_main_def log_or_free_def push_log_def say_then_def [of "m # ms"])
  then show ?case using Cons.IH [of ?g] Cons.prems by simp
qed

lemma destroy_run:
  assumes "i + k = length (cs_threads g)" "cs_main g = MDestroy i" "cs_threads_ended g" "\<not> cs_locked g" "cf_logs_on (cs_config g) \<noteq> 0"
  obtains ms where "length ms = k"
    "run_inputs (client_step fmt cfg ln) g (replicate (3 * k) MainTurn) = Some (g\<lparr>cs_head := cs_head g @ ms, cs_main := MDestroy (i + k)\<rparr>)"
proof -
  have "\<exists>ms. length ms = k
    \<and> run_inputs (client_step fmt cfg ln) g (replicate (3 * k) MainTurn) = Some (g\<lparr>cs_head := cs_head g @ ms, cs_main := MDestroy (i + k)\<rparr>)"
    using assms
  proof (induction k arbitrary: i g)
    case (Suc k)
    let ?m = "said ln ''context.c'' i (LOG_INFO, 483)" let ?g = "g\<lparr>cs_head := cs_head g @ [?m], cs_main := MDestroy (Suc i)\<rparr>"
    have "run_inputs (client_step fmt cfg ln) g [MainTurn, MainTurn, MainTurn] = Some ?g"
      using Suc.prems by (simp add: client_main_def destroy_turn_def log_or_free_def push_log_def say_then_def)
    moreover obtain ms where "length ms = k"
      "run_inputs (client_step fmt cfg ln) ?g (replicate (3 * k) MainTurn) = Some (?g\<lparr>cs_head := cs_head ?g @ ms, cs_main := MDestroy (Suc i + k)\<rparr>)"
      using Suc.IH [of "Suc i" ?g] Suc.prems by auto
    moreover have "replicate (3 * Suc k) MainTurn = [MainTurn, MainTurn, MainTurn] @ replicate (3 * k) MainTurn" by (simp add: numeral_eq_Suc)
    ultimately show ?case
      by (intro exI [of _ "?m # ms"]) (simp add: run_inputs_append del: append_Cons append_Nil run_inputs.simps(2) replicate_Suc)
  qed simp
  with that show thesis by blast
qed

lemma drain_run:
  assumes "cs_head g = qs @ rest" "cs_main g = FTest rc" "\<not> cs_locked g"
  obtains ps where "run_inputs (client_step fmt cfg ln) g (replicate (3 * length qs) MainTurn) = Some (g\<lparr>cs_head := rest, cs_printed := ps\<rparr>)"
proof -
  have "\<exists>ps. run_inputs (client_step fmt cfg ln) g (replicate (3 * length qs) MainTurn) = Some (g\<lparr>cs_head := rest, cs_printed := ps\<rparr>)"
    using assms
  proof (induction qs arbitrary: g)
    case Nil
    then show ?case by (intro exI [of _ "cs_printed g"]) simp
  next
    case (Cons q qs)
    let ?g = "g\<lparr>cs_head := qs @ rest, cs_printed := cs_printed g @ [message_text fmt q]\<rparr>"
    have "run_inputs (client_step fmt cfg ln) g [MainTurn, MainTurn, MainTurn] = Some ?g"
      using Cons.prems by (simp add: client_main_def logger_finalize_def is_logs_queue_empty_def pop_log_def print_message_def)
    moreover obtain ps where "run_inputs (client_step fmt cfg ln) ?g (replicate (3 * length qs) MainTurn) = Some (?g\<lparr>cs_head := rest, cs_printed := ps\<rparr>)"
      using Cons.IH [of ?g] Cons.prems by auto
    moreover have "replicate (3 * length (q # qs)) MainTurn = [MainTurn, MainTurn, MainTurn] @ replicate (3 * length qs) MainTurn"
      by (simp add: numeral_eq_Suc)
    ultimately show ?case
      by (intro exI [of _ ps]) (simp add: run_inputs_append del: append_Cons append_Nil run_inputs.simps(2) replicate_Suc length_Cons)
  qed
  with that show thesis by blast
qed

section \<open>Properties\<close>

text \<open>
  C31: After a configuration that cannot be used the client does not end by itself. Whatever the threads do
  and in whatever order, \<open>main\<close> never returns: it waits for the logger, which ends only after an
  interrupt, and no handler was installed that could set it.
\<close>

theorem failed_configuration_hangs:
  assumes "\<not> usable cfg" "run_inputs (client_step fmt cfg ln) client_start mvs = Some g"
  shows "cs_main g \<noteq> MExit rc \<and> cs_logger g \<noteq> LEnd"
proof -
  have "no_way_out client_start" by (simp add: no_way_out_def client_start_def)
  from no_way_out_run [OF this assms] show ?thesis by (auto simp: no_way_out_def)
qed

definition no_config :: config_file where
  "no_config = \<lparr>fl_read = False, fl_int = (\<lambda>_. None), fl_string = (\<lambda>_. None)\<rparr>"

definition sample_log :: c_log_message where
  "sample_log = \<lparr>cl_message = ''hi'', cl_filename = ''main.c'', cl_thread = ''Thread 1'', cl_line = 8, cl_type = LOG_INFO, cl_time = 5\<rparr>"

text \<open>Here \<open>main\<close> has come as far as it gets, and waits.\<close>

theorem failed_configuration_hangs_witness:
  "\<exists>g. run_inputs (client_step (\<lambda>_. []) no_config (\<lambda>_ _ _. sample_log)) client_start (replicate 13 MainTurn @ replicate 3 LoggerTurn) = Some g
     \<and> cs_main g = FJoin (- 1) \<and> cs_main g \<noteq> MExit (- 1) \<and> cs_logger g \<noteq> LEnd"
proof -
  let ?run = "run_inputs (client_step (\<lambda>_. []) no_config (\<lambda>_ _ _. sample_log)) client_start (replicate 13 MainTurn @ replicate 3 LoggerTurn)"
  have "\<not> usable no_config" by (simp add: usable_def no_config_def)
  note never = failed_configuration_hangs [OF this]
  have "map_option cs_main ?run = Some (FJoin (- 1))" by code_simp
  then obtain g where "?run = Some g" "cs_main g = FJoin (- 1)" by auto
  with never [OF this(1)] show ?thesis by blast
qed

text \<open>
  C30: While \<open>main\<close> waits for the end, the logger prints what the threads log in its order and loses
  nothing: after any interleaving the printed texts, the message in the hands of the logger and the
  queue are together the logged messages, and no call finds the queue empty.
\<close>

theorem log_order_kept:
  assumes "cs_main g = MWait" "cs_logger g = LLoop" "cs_head g = []" "cs_printed g = []" "\<not> cs_locked g" "\<not> cs_interrupt g"
    "cf_logs_on (cs_config g) \<noteq> 0" "\<forall>mv\<in>set mvs. waiting_move mv"
  shows "\<exists>g'. run_inputs (client_step fmt cfg ln) g mvs = Some g' \<and> \<not> cs_locked g'
    \<and> map (message_text fmt) (logged mvs) = cs_printed g' @ map (message_text fmt) (held (cs_logger g') @ cs_head g')"
proof -
  have "in_order fmt [] g" using assms(1-7) by (simp add: in_order_def)
  from in_order_run [OF this assms(8)] show ?thesis by (auto simp: in_order_def)
qed

definition sample_client :: client where
  "sample_client = client_start\<lparr>cs_main := MWait, cs_logger := LLoop, cs_config := zero_config\<lparr>cf_logs_on := 1\<rparr>\<rparr>"

theorem log_order_kept_witness:
  "\<exists>g'. run_inputs (client_step (\<lambda>_. []) no_config (\<lambda>_ _ _. sample_log)) sample_client [Logs sample_log, LoggerTurn, MainTurn, LoggerTurn, LoggerTurn, Logs sample_log] = Some g'
     \<and> [message_text (\<lambda>_. []) sample_log, message_text (\<lambda>_. []) sample_log]
        = cs_printed g' @ map (message_text (\<lambda>_. [])) (held (cs_logger g') @ cs_head g')"
  using log_order_kept [of sample_client "[Logs sample_log, LoggerTurn, MainTurn, LoggerTurn, LoggerTurn, Logs sample_log]" "\<lambda>_. []" no_config "\<lambda>_ _ _. sample_log"]
  by (auto simp: sample_client_def client_start_def)

text \<open>
  C32: The end of the client can crash it. A client whose configuration can be used is stopped by a
  signal before the logger has printed anything. \<open>main\<close> logs its last lines, waits for its threads and prints
  what is in the queue; then \<open>main\<close> and the logger both find the queue with its last message,
  and both take a message out. The one that comes second gets none, leaves the mutex locked, and
  prints a null pointer.
\<close>

definition stop_moves :: "config_file \<Rightarrow> c_log_message \<Rightarrow> move list" where
  "stop_moves cfg m =
     (let (c, _, lines) = loading_config cfg (zero_config\<lparr>cf_logs_on := 1\<rparr>); n = nat (cf_threads c)
      in replicate 3 MainTurn @ replicate (length lines) MainTurn @ replicate 3 MainTurn @ [LoggerTurn, LoggerTurn, Signal m]
         @ replicate 3 MainTurn @ [ThreadsEnd] @ replicate (3 * n) MainTurn @ replicate 2 MainTurn
         @ replicate (3 * (length lines + n + 4)) MainTurn
         @ [LoggerTurn, LoggerTurn, MainTurn, LoggerTurn, MainTurn])"

theorem stop_races_with_logger:
  assumes "usable cfg"
  shows "\<exists>g. run_inputs (client_step fmt cfg ln) client_start (stop_moves cfg m) = Some g \<and> cs_locked g \<and> cs_main g = FPrint 0 NULL
    \<and> run_inputs (client_step fmt cfg ln) client_start (stop_moves cfg m @ [MainTurn]) = UB"
proof -
  let ?run = "run_inputs (client_step fmt cfg ln)" let ?c0 = "zero_config\<lparr>cf_logs_on := 1\<rparr>"
  obtain c lines where "loading_config cfg ?c0 = (c, usable cfg, lines)" "cf_logs_on c = cf_logs_on ?c0" by (rule loading_config_cases)
  then have c: "loading_config cfg ?c0 = (c, True, lines)" "cf_logs_on c = 1" using assms by simp_all
  let ?n = "nat (cf_threads c)" let ?says = "map (said ln ''config.c'' 0) lines"
  let ?hello = "said ln ''main.c'' 0 (LOG_INFO, 8)" and ?sig = "said ln ''signal_handler.c'' 0 (LOG_INFO, 20)"
  define g1 where "g1 = client_start\<lparr>cs_config := c, cs_logger := LStart, cs_head := [?hello], cs_main := say_then ?says MSignals\<rparr>"
  have 1: "?run client_start (replicate 3 MainTurn) = Some g1"
    using c(1) by (simp add: numeral_eq_Suc client_start_def client_simps g1_def)
  define g2 where "g2 = g1\<lparr>cs_head := ?hello # ?says, cs_main := MSignals\<rparr>"
  have 2: "?run g1 (replicate (length lines) MainTurn) = Some g2"
    using say_then_run [of g1 "?says" MSignals fmt cfg ln] c(2) by (simp add: g1_def g2_def client_start_def)
  define g3 where "g3 = g2\<lparr>cs_head := ?hello # ?says @ [?sig], cs_handlers := True, cs_threads := init_context ?n, cs_main := MWait\<rparr>"
  have 3: "?run g2 (replicate 3 MainTurn) = Some g3"
    using c(2) by (simp add: numeral_eq_Suc client_simps g1_def g2_def g3_def client_start_def)
  let ?last = "[said ln ''main.c'' 0 (LOG_INFO, 19), said ln ''context.c'' (length (init_context ?n)) (LOG_INFO, 481)]"
  define g4 where "g4 = g3\<lparr>cs_logger := LLoop, cs_interrupt := True, cs_head := ?hello # ?says @ [?sig, m] @ ?last, cs_main := MDestroy 0, cs_threads_ended := True\<rparr>"
  have 4: "?run g3 ([LoggerTurn, LoggerTurn, Signal m] @ replicate 3 MainTurn @ [ThreadsEnd]) = Some g4"
    using c(2) by (simp add: numeral_eq_Suc client_simps g1_def g2_def g3_def g4_def client_start_def)
  have g4: "0 + ?n = length (cs_threads g4)" "cs_main g4 = MDestroy 0" "cs_threads_ended g4" "\<not> cs_locked g4" "cf_logs_on (cs_config g4) \<noteq> 0"
    using c(2) by (simp_all add: g4_def g3_def g2_def g1_def client_start_def init_context_def)
  obtain ms where "length ms = ?n" "?run g4 (replicate (3 * ?n) MainTurn) = Some (g4\<lparr>cs_head := cs_head g4 @ ms, cs_main := MDestroy (0 + ?n)\<rparr>)"
    by (rule destroy_run [OF g4])
  then have 5: "length ms = ?n" "?run g4 (replicate (3 * ?n) MainTurn) = Some (g4\<lparr>cs_head := cs_head g4 @ ms, cs_main := MDestroy ?n\<rparr>)"
    by simp_all
  define g6 where "g6 = g4\<lparr>cs_head := cs_head g4 @ ms, cs_threads := [], cs_config := zero_config, cs_main := FTest 0\<rparr>"
  have 6: "?run (g4\<lparr>cs_head := cs_head g4 @ ms, cs_main := MDestroy ?n\<rparr>) (replicate 2 MainTurn) = Some g6"
    by (simp add: numeral_eq_Suc client_simps g6_def g4_def g3_def g2_def g1_def client_start_def zero_config_def init_context_def)
  have q: "length (cs_head g6) = Suc (length lines + ?n + 4)" using 5(1) by (simp add: g6_def g4_def)
  then obtain qs l where qs: "cs_head g6 = qs @ [l]" "length qs = length lines + ?n + 4" by (cases "cs_head g6" rule: rev_cases) auto
  have g6: "cs_main g6 = FTest 0" "\<not> cs_locked g6" by (simp_all add: g6_def g4_def g3_def g2_def g1_def client_start_def)
  from drain_run [OF qs(1) g6, of fmt cfg ln] obtain ps where 7: "?run g6 (replicate (3 * (length lines + ?n + 4)) MainTurn) = Some (g6\<lparr>cs_head := [l], cs_printed := ps\<rparr>)"
    unfolding qs(2) by blast
  let ?g7 = "g6\<lparr>cs_head := [l], cs_printed := ps\<rparr>"
  obtain g8 where 8: "?run ?g7 [LoggerTurn, LoggerTurn, MainTurn, LoggerTurn, MainTurn] = Some g8" "cs_locked g8" "cs_main g8 = FPrint 0 NULL"
    by (simp add: client_simps g6_def g4_def g3_def g2_def g1_def client_start_def)
  have m: "stop_moves cfg m = replicate 3 MainTurn @ replicate (length lines) MainTurn @ replicate 3 MainTurn
      @ ([LoggerTurn, LoggerTurn, Signal m] @ replicate 3 MainTurn @ [ThreadsEnd]) @ replicate (3 * ?n) MainTurn @ replicate 2 MainTurn
      @ replicate (3 * (length lines + ?n + 4)) MainTurn @ [LoggerTurn, LoggerTurn, MainTurn, LoggerTurn, MainTurn]"
    by (simp add: stop_moves_def c(1) Let_def)
  have run: "?run client_start (stop_moves cfg m) = Some g8"
    unfolding m run_then [OF 1] run_then [OF 2] run_then [OF 3] run_then [OF 4] run_then [OF 5(2)] run_then [OF 6] run_then [OF 7] by (rule 8(1))
  moreover have "?run g8 [MainTurn] = UB" using 8(2,3) by (simp add: client_main_def logger_finalize_def print_message_def)
  ultimately show ?thesis using 8(2,3) by (auto simp: run_inputs_append)
qed

definition some_config :: config_file where
  "some_config = \<lparr>fl_read = True, fl_int = (\<lambda>_. Some 1), fl_string = (\<lambda>_. Some ''x'')\<rparr>"

theorem stop_races_with_logger_witness:
  "usable some_config
   \<and> run_inputs (client_step (\<lambda>_. []) some_config (\<lambda>_ _ _. sample_log)) client_start (stop_moves some_config sample_log @ [MainTurn]) = UB"
proof -
  have u: "usable some_config" by (auto simp: usable_def some_config_def)
  show ?thesis using stop_races_with_logger [OF u, of "\<lambda>_. []" "\<lambda>_ _ _. sample_log" sample_log] u by auto
qed

end
