(* ===== verification/FsmReport.thy ===== *)
theory FsmReport
  imports Fsm Util
begin

text \<open>
  What the generated automaton writes to the standard error, \<open>autofsm_invalid_transition\<close> of
  \<open>smtp-states-fsm.c\<close>: the strings of the generator, which are one array with tables of offsets, and the
  message for an event that has no transition, which no step writes.
\<close>

section \<open>The array of the strings\<close>

definition zAutofsmStrings :: string where
  "zAutofsmStrings =
     concat (map (\<lambda>s. s @ [NUL])
       [''** OUT-OF-RANGE **'',
        ''FSM Error:  in state %d (%s), event %d (%s) is invalid'' @ [CHR 0x0A],
        ''invalid'', ''init'', ''client_init'', ''begin_transaction'', ''transaction'', ''read_data'',
        ''test'', ''rset'', ''helo'', ''mail'', ''rcpt'', ''data'', ''read'', ''end'', ''quit''])"

definition AutofsmFsmErr_off :: nat where "AutofsmFsmErr_off = 19"

definition aszAutofsmStates :: "nat list" where
  "aszAutofsmStates = [83, 88, 100, 118, 130]"

definition aszAutofsmEvents :: "nat list" where
  "aszAutofsmEvents = [140, 145, 150, 155, 160, 165, 170, 175, 179, 75]"

definition string_at :: "nat \<Rightarrow> string ub" where
  "string_at off = c_str (Some (drop off zAutofsmStrings))"

definition AUTOFSM_EVT_NAME :: "nat \<Rightarrow> string ub" where
  "AUTOFSM_EVT_NAME t = (if t \<ge> 10 then string_at 0 else string_at (aszAutofsmEvents ! t))"

definition AUTOFSM_STATE_NAME :: "nat \<Rightarrow> string ub" where
  "AUTOFSM_STATE_NAME s = (if s \<ge> 5 then string_at 0 else string_at (aszAutofsmStates ! s))"

section \<open>The message\<close>

text \<open>\<open>fprintf\<close> with the conversions that the format has.\<close>

fun printed :: "string \<Rightarrow> (nat + string) list \<Rightarrow> string ub" where
  "printed [] as = Some []"
| "printed (c # f) as =
     (if c \<noteq> CHR ''%'' then map_option ((#) c) (printed f as)
      else (case (f, as) of
              (d # f1, Inl n # as1) \<Rightarrow> if d = CHR ''d'' then map_option ((@) (dec_string n)) (printed f1 as1) else UB
            | (d # f1, Inr s # as1) \<Rightarrow> if d = CHR ''s'' then map_option ((@) s) (printed f1 as1) else UB
            | _ \<Rightarrow> UB))"

definition EXIT_FAILURE :: int where "EXIT_FAILURE = 1"

text \<open>The text that is written, and the result.\<close>

definition autofsm_invalid_transition :: "te_autofsm_state \<Rightarrow> te_autofsm_event \<Rightarrow> (string \<times> int) ub" where
  "autofsm_invalid_transition st evt =
     do {
       fmt \<leftarrow> string_at AutofsmFsmErr_off;
       sn \<leftarrow> AUTOFSM_STATE_NAME (st_code st);
       en \<leftarrow> AUTOFSM_EVT_NAME (ev_code evt);
       t \<leftarrow> printed fmt [Inl (st_code st), Inr sn, Inl (ev_code evt), Inr en];
       Some (t, EXIT_FAILURE)
     }"

text \<open>The transition of a step.\<close>

definition step_transition :: "te_autofsm_state \<Rightarrow> te_autofsm_event \<Rightarrow> te_autofsm_trans" where
  "step_transition st evt =
     (if evt \<ge> AUTOFSM_EV_INVALID then AUTOFSM_TR_INVALID else snd (autofsm_trans_table ! st_code st ! ev_code evt))"

text \<open>The cases of the switch; each of them, that of \<open>AUTOFSM_TR_INVALID\<close> too, only breaks.\<close>

definition switch_cases :: "te_autofsm_trans list" where
  "switch_cases =
     [AUTOFSM_TR_BEGIN_TRANSACTION_HELO, AUTOFSM_TR_BEGIN_TRANSACTION_QUIT, AUTOFSM_TR_BEGIN_TRANSACTION_RCPT,
      AUTOFSM_TR_BEGIN_TRANSACTION_RSET, AUTOFSM_TR_BEGIN_TRANSACTION_TEST, AUTOFSM_TR_CLIENT_INIT_HELO,
      AUTOFSM_TR_CLIENT_INIT_MAIL, AUTOFSM_TR_CLIENT_INIT_QUIT, AUTOFSM_TR_CLIENT_INIT_RSET,
      AUTOFSM_TR_CLIENT_INIT_TEST, AUTOFSM_TR_INIT_HELO, AUTOFSM_TR_INIT_QUIT,
      AUTOFSM_TR_INIT_RSET, AUTOFSM_TR_INIT_TEST, AUTOFSM_TR_INVALID,
      AUTOFSM_TR_READ_DATA_END, AUTOFSM_TR_READ_DATA_READ, AUTOFSM_TR_TRANSACTION_DATA,
      AUTOFSM_TR_TRANSACTION_HELO, AUTOFSM_TR_TRANSACTION_QUIT, AUTOFSM_TR_TRANSACTION_RCPT,
      AUTOFSM_TR_TRANSACTION_RSET, AUTOFSM_TR_TRANSACTION_TEST]"

definition autofsm_output :: "te_autofsm_state \<Rightarrow> te_autofsm_event \<Rightarrow> string ub" where
  "autofsm_output st evt =
     (if st \<ge> AUTOFSM_ST_INVALID then Some []
      else if step_transition st evt \<in> set switch_cases then Some []
      else map_option fst (autofsm_invalid_transition st evt))"

section \<open>What is written\<close>

fun state_name :: "te_autofsm_state \<Rightarrow> string" where
  "state_name AUTOFSM_ST_INIT = ''init''"
| "state_name AUTOFSM_ST_CLIENT_INIT = ''client_init''"
| "state_name AUTOFSM_ST_BEGIN_TRANSACTION = ''begin_transaction''"
| "state_name AUTOFSM_ST_TRANSACTION = ''transaction''"
| "state_name AUTOFSM_ST_READ_DATA = ''read_data''"
| "state_name _ = ''** OUT-OF-RANGE **''"

fun event_name :: "te_autofsm_event \<Rightarrow> string" where
  "event_name AUTOFSM_EV_TEST = ''test''"
| "event_name AUTOFSM_EV_RSET = ''rset''"
| "event_name AUTOFSM_EV_HELO = ''helo''"
| "event_name AUTOFSM_EV_MAIL = ''mail''"
| "event_name AUTOFSM_EV_RCPT = ''rcpt''"
| "event_name AUTOFSM_EV_DATA = ''data''"
| "event_name AUTOFSM_EV_READ = ''read''"
| "event_name AUTOFSM_EV_END = ''end''"
| "event_name AUTOFSM_EV_QUIT = ''quit''"
| "event_name AUTOFSM_EV_INVALID = ''invalid''"

definition error_line :: "te_autofsm_state \<Rightarrow> te_autofsm_event \<Rightarrow> string" where
  "error_line st evt =
     ''FSM Error:  in state '' @ dec_string (st_code st) @ '' ('' @ state_name st @ ''), event ''
     @ dec_string (ev_code evt) @ '' ('' @ event_name evt @ '') is invalid'' @ [CHR 0x0A]"

text \<open>
  The offsets of the tables are the starts of the names, so that the message has the numbers and the
  names of the state and the event. No step writes it: the default of the switch is never reached.
\<close>

lemma names_found:
  "length zAutofsmStrings = 184" "AUTOFSM_STATE_NAME (st_code st) = Some (state_name st)" "AUTOFSM_EVT_NAME (ev_code evt) = Some (event_name evt)"
    apply code_simp
   apply (induct st; code_simp)
  apply (induct evt; code_simp)
  done

lemma error_message: "autofsm_invalid_transition st evt = Some (error_line st evt, EXIT_FAILURE)"
proof -
  have "string_at AutofsmFsmErr_off = Some (''FSM Error:  in state %d (%s), event %d (%s) is invalid'' @ [CHR 0x0A])"
    by code_simp
  then show ?thesis by (simp add: autofsm_invalid_transition_def names_found error_line_def)
qed

lemma invalid_step_silent: "autofsm_output st evt = Some []"
proof -
  have "t \<in> set switch_cases" for t by (cases t) (simp_all add: switch_cases_def)
  then show ?thesis by (simp add: autofsm_output_def)
qed

end
