(* ===== verification/Protocol.thy ===== *)
theory Protocol
  imports Errors
begin

text \<open>
  Two queues that the server does not use, \<open>server/src/lib/protocol/buffered_queue.c\<close> and
  \<open>context.c\<close>. They are not built: they name the error descriptor \<open>error_t\<close>, which is read as
  \<open>err_t\<close> here. A queue is the list of its entries; \<open>mok\<close> says whether memory can be allocated.
\<close>

section \<open>Queues of buffers\<close>

definition BFQ_BUFFER_SIZE :: nat where "BFQ_BUFFER_SIZE = 100"
definition BFQ_PTR_IS_NULL :: string where "BFQ_PTR_IS_NULL = ''the pointer to which the head is written is null''"
definition BFQ_HEAD_IS_NULL :: string where "BFQ_HEAD_IS_NULL = ''head of buffered queue is null''"
definition BFQ_BUFFER_PTR_IS_NULL :: string where "BFQ_BUFFER_PTR_IS_NULL = ''the pointer to which the buffer is written is null''"
definition BFQ_SIZE_PTR_IS_NULL :: string where "BFQ_SIZE_PTR_IS_NULL = ''the pointer to which the size is written is null''"

record bf_queue_entry =
  bf_buffer :: string

type_synonym bf_queue = "bf_queue_entry list"

text \<open>The pointer that is passed, and where it points to, may both be null.\<close>

definition bfq_init :: "bool \<Rightarrow> bf_queue ptr ptr \<Rightarrow> err_ptr \<Rightarrow> bf_queue ptr ptr \<times> bool \<times> err_ptr" where
  "bfq_init mok queue error =
     (case queue of
        NULL \<Rightarrow> (NULL, False, err_report FATAL BFQ_PTR_IS_NULL error)
      | Some old \<Rightarrow>
          (case s_malloc mok [] (ERROR_SUCCESS error) of
             (Some head, e) \<Rightarrow> (Some (Some head), True, e)
           | (NULL, e) \<Rightarrow> (Some old, False, e)))"

text \<open>Nothing is written through \<open>buffer\<close>.\<close>

definition bfq_add :: "bool \<Rightarrow> bf_queue ptr \<Rightarrow> string ptr \<Rightarrow> err_ptr \<Rightarrow> bf_queue ptr \<times> string ptr \<times> bool \<times> err_ptr" where
  "bfq_add mok queue buffer error =
     (case queue of
        NULL \<Rightarrow> (NULL, buffer, False, err_report FATAL BFQ_HEAD_IS_NULL error)
      | Some q \<Rightarrow>
          (case s_malloc mok \<lparr>bf_buffer = replicate BFQ_BUFFER_SIZE NUL\<rparr> (ERROR_SUCCESS error) of
             (NULL, e) \<Rightarrow> (Some q, buffer, False, e)
           | (Some entry, e) \<Rightarrow> (Some (q @ [entry]), buffer, True, e)))"

definition bfq_size :: "bf_queue ptr \<Rightarrow> int ptr \<Rightarrow> err_ptr \<Rightarrow> int ptr \<times> bool \<times> err_ptr" where
  "bfq_size queue n error =
     (case queue of
        NULL \<Rightarrow> (n, False, err_report FATAL BFQ_HEAD_IS_NULL error)
      | Some q \<Rightarrow>
          (case n of
             NULL \<Rightarrow> (NULL, False, err_report FATAL BFQ_SIZE_PTR_IS_NULL error)
           | Some _ \<Rightarrow> (Some (int (length q)), True, ERROR_SUCCESS error)))"

text \<open>The cells of the entries are copied one by one behind each other.\<close>

fun copy_entry :: "nat \<Rightarrow> nat \<Rightarrow> string \<Rightarrow> nat \<Rightarrow> string \<Rightarrow> (nat \<times> string) ub" where
  "copy_entry i 0 cells j buffer = Some (j, buffer)"
| "copy_entry i (Suc n) cells j buffer =
     do {
       c \<leftarrow> arr_get cells (int i);
       buffer1 \<leftarrow> arr_set buffer (int j) c;
       copy_entry (Suc i) n cells (Suc j) buffer1
     }"

fun glue_loop :: "bf_queue \<Rightarrow> nat \<Rightarrow> string \<Rightarrow> string ub" where
  "glue_loop [] j buffer = Some buffer"
| "glue_loop (entry # q) j buffer =
     do {
       (j1, buffer1) \<leftarrow> copy_entry 0 BFQ_BUFFER_SIZE (bf_buffer entry) j buffer;
       glue_loop q j1 buffer1
     }"

definition bfq_glue :: "bool \<Rightarrow> bf_queue ptr \<Rightarrow> string ptr ptr \<Rightarrow> err_ptr \<Rightarrow> (string ptr ptr \<times> bool \<times> err_ptr) ub" where
  "bfq_glue mok queue p error =
     (case queue of
        NULL \<Rightarrow> Some (p, False, err_report FATAL BFQ_HEAD_IS_NULL error)
      | Some q \<Rightarrow>
          (case p of
             NULL \<Rightarrow> Some (NULL, False, err_report FATAL BFQ_BUFFER_PTR_IS_NULL error)
           | Some old \<Rightarrow>
               (case bfq_size (Some q) (Some 0) error of
                  (Some n, True, e) \<Rightarrow>
                    (case s_malloc mok (replicate (BFQ_BUFFER_SIZE * nat n) NUL) e of
                       (NULL, e1) \<Rightarrow> Some (Some NULL, True, e1)
                     | (Some buffer, e1) \<Rightarrow> do { b \<leftarrow> glue_loop q 0 buffer; Some (Some (Some b), True, e1) })
                | (_, _, e) \<Rightarrow> Some (Some old, False, e))))"

text \<open>The head is released, and what was queued is lost.\<close>

definition bfq_free :: "bf_queue ptr \<Rightarrow> bf_queue_entry list" where
  "bfq_free queue = (case queue of NULL \<Rightarrow> [] | Some q \<Rightarrow> q)"

section \<open>Queues of contexts\<close>

definition CQ_PTR_IS_NULL :: string where "CQ_PTR_IS_NULL = ''ptr of context is null''"
definition CQ_CONTEXT_NOTFOUND :: string where "CQ_CONTEXT_NOTFOUND = ''context not found''"

record context_t =
  cx_socket :: int
  cx_bf :: bf_queue

record context_entry =
  ce_context :: "context_t ptr"

type_synonym context_queue = "context_entry list"

definition cq_init :: "bool \<Rightarrow> err_ptr \<Rightarrow> context_queue ptr \<times> err_ptr" where
  "cq_init mok error = s_malloc mok [] (ERROR_SUCCESS error)"

definition cq_add :: "bool \<Rightarrow> context_queue ptr \<Rightarrow> context_t ptr \<Rightarrow> err_ptr \<Rightarrow> context_queue ptr \<times> bool \<times> err_ptr" where
  "cq_add mok queue cx error =
     (let e = ERROR_SUCCESS error in
      case queue of
        NULL \<Rightarrow> (NULL, False, err_report FATAL CQ_PTR_IS_NULL e)
      | Some q \<Rightarrow>
          if cx = NULL then (Some q, False, err_report FATAL CQ_PTR_IS_NULL e)
          else (case s_malloc mok \<lparr>ce_context = NULL\<rparr> e of
                  (NULL, e1) \<Rightarrow> (Some q, False, e1)
                | (Some entry, e1) \<Rightarrow> (Some (q @ [entry\<lparr>ce_context := cx\<rparr>]), True, e1)))"

text \<open>The search is commented out.\<close>

definition pr_cq_find :: "context_queue ptr \<Rightarrow> int \<Rightarrow> err_ptr \<Rightarrow> context_entry ptr \<times> err_ptr" where
  "pr_cq_find queue sock error = (NULL, error)"

definition cq_find :: "context_queue ptr \<Rightarrow> int \<Rightarrow> err_ptr \<Rightarrow> context_t ptr \<times> bool \<times> err_ptr" where
  "cq_find queue sock error =
     (case pr_cq_find queue sock error of
        (NULL, e) \<Rightarrow> (NULL, False, e)
      | (Some entry, e) \<Rightarrow> (ce_context entry, True, e))"

definition cq_del :: "context_queue ptr \<Rightarrow> int \<Rightarrow> err_ptr \<Rightarrow> context_queue ptr \<times> bool \<times> err_ptr" where
  "cq_del queue sock error =
     (case pr_cq_find queue sock (ERROR_SUCCESS error) of
        (NULL, e) \<Rightarrow> (queue, False, e)
      | (Some entry, e) \<Rightarrow> (map_option (tailq_remove_first (\<lambda>x. x = entry)) queue, True, e))"

text \<open>The contexts that are released, in their order; each entry is taken out first.\<close>

fun cq_free_loop :: "context_queue \<Rightarrow> context_t ptr list" where
  "cq_free_loop [] = []"
| "cq_free_loop (entry # q) = ce_context entry # cq_free_loop q"

definition cq_free :: "context_queue ptr \<Rightarrow> context_t ptr list" where
  "cq_free queue = (case queue of NULL \<Rightarrow> [] | Some q \<Rightarrow> cq_free_loop q)"

section \<open>What the queues do\<close>

text \<open>Queues as \<open>bfq_add\<close> makes them: every buffer is as it was allocated.\<close>

definition buffers :: "nat \<Rightarrow> bf_queue" where "buffers n = replicate n \<lparr>bf_buffer = replicate BFQ_BUFFER_SIZE NUL\<rparr>"

lemma buffers_add: "bfq_add True (Some (buffers n)) b error = (Some (buffers (Suc n)), b, True, ERROR_SUCCESS (ERROR_SUCCESS error))"
  by (simp add: bfq_add_def buffers_def err_simps replicate_append_same)

lemma copy_entry_run:
  "i + n \<le> length cells \<Longrightarrow> j + n \<le> length buffer \<Longrightarrow>
   copy_entry i n cells j buffer = Some (j + n, take j buffer @ take n (drop i cells) @ drop (j + n) buffer)"
proof (induction n arbitrary: i j buffer)
  case (Suc n)
  have "i < length cells" "j < length buffer" using Suc.prems by simp_all
  then have "copy_entry i (Suc n) cells j buffer = copy_entry (Suc i) n cells (Suc j) (buffer[j := cells ! i])"
    by (simp add: arr_get_nat arr_set_nat)
  moreover have "take (Suc j) (buffer[j := cells ! i]) = take j buffer @ [cells ! i]" using Suc.prems by (simp add: take_Suc_conv_app_nth)
  moreover have "take (Suc n) (drop i cells) = cells ! i # take n (drop (Suc i) cells)"
    using Suc.prems by (simp add: Cons_nth_drop_Suc [symmetric])
  ultimately show ?case using Suc.IH [of "Suc i" "Suc j" "buffer[j := cells ! i]"] Suc.prems by simp
qed simp

lemma glue_loop_run:
  "\<forall>e\<in>set q. length (bf_buffer e) = BFQ_BUFFER_SIZE \<Longrightarrow> length buffer = j + BFQ_BUFFER_SIZE * length q \<Longrightarrow>
   glue_loop q j buffer = Some (take j buffer @ concat (map bf_buffer q))"
proof (induction q arbitrary: j buffer)
  case (Cons e q)
  have l: "length (bf_buffer e) = BFQ_BUFFER_SIZE" using Cons.prems(1) by simp
  have "copy_entry 0 BFQ_BUFFER_SIZE (bf_buffer e) j buffer
      = Some (j + BFQ_BUFFER_SIZE, take j buffer @ bf_buffer e @ drop (j + BFQ_BUFFER_SIZE) buffer)"
    using copy_entry_run [of 0 BFQ_BUFFER_SIZE "bf_buffer e" j buffer] l Cons.prems(2) by simp
  then show ?case
    using Cons.IH [of "take j buffer @ bf_buffer e @ drop (j + BFQ_BUFFER_SIZE) buffer" "j + BFQ_BUFFER_SIZE"] Cons.prems l by simp
qed simp

section \<open>Properties\<close>

text \<open>
  Gluing joins the buffers of a queue. For entries of full length, \<open>bfq_glue\<close> copies their cells in
  order into a new array and stays inside it, and \<open>bfq_size\<close> counts the buffers; but the header
  promises the number of bytes with the last buffer up to its terminator. Without memory the glued
  pointer is null and the result is still true.
\<close>

theorem glue_joins_buffers:
  assumes "\<forall>e\<in>set q. length (bf_buffer e) = BFQ_BUFFER_SIZE" "error = Some e"
  shows "bfq_size (Some q) (Some k) error = (Some (int (length q)), True, ERROR_SUCCESS error)
    \<and> (\<exists>e1. bfq_glue True (Some q) (Some old) error = Some (Some (Some (concat (map bf_buffer q))), True, e1))
    \<and> (\<exists>e1. bfq_glue False (Some q) (Some old) error = Some (Some NULL, True, Some e1) \<and> err_error e1 = FATAL)"
  using glue_loop_run [of q "replicate (BFQ_BUFFER_SIZE * length q) NUL" 0] assms
  by (simp add: bfq_size_def bfq_glue_def err_simps)

theorem glue_joins_buffers_witness:
  "\<exists>e1. bfq_glue True (Some [\<lparr>bf_buffer = replicate 100 (CHR ''a'')\<rparr>, \<lparr>bf_buffer = replicate 100 (CHR ''b'')\<rparr>]) (Some NULL) (Some err_fresh)
     = Some (Some (Some (replicate 100 (CHR ''a'') @ replicate 100 (CHR ''b''))), True, e1)"
  using glue_joins_buffers [of "[\<lparr>bf_buffer = replicate 100 (CHR ''a'')\<rparr>, \<lparr>bf_buffer = replicate 100 (CHR ''b'')\<rparr>]" "Some err_fresh" err_fresh 0 NULL]
  by (simp add: BFQ_BUFFER_SIZE_def)

text \<open>
  A context that was added to a queue is not found and cannot be taken out again: the search is
  commented out, and the error that should say so is not set.
\<close>

lemma context_never_found:
  "\<exists>q1 e1. cq_add True (Some q) (Some cx) error = (Some q1, True, e1) \<and> ce_context (last q1) = Some cx
     \<and> cq_find (Some q1) (cx_socket cx) error = (NULL, False, error)
     \<and> cq_del (Some q1) (cx_socket cx) error = (Some q1, False, ERROR_SUCCESS error)
     \<and> cq_free (Some q1) = cq_free (Some q) @ [Some cx]"
proof -
  have "cq_free_loop (q @ [\<lparr>ce_context = Some cx\<rparr>]) = cq_free_loop q @ [Some cx]" by (induction q) simp_all
  then show ?thesis by (simp add: cq_add_def cq_find_def cq_del_def pr_cq_find_def cq_free_def Let_def err_simps)
qed

end
