(* ===== verification/Spec2Isabelle.thy ===== *)
theory Spec2Isabelle
  imports Startup Conversation ClientNet ClientLoop ClientMain Patterns FsmReport Protocol
begin

text \<open>
  A verification library for postman, a mail system of two programs that share a mail store: a server
  that receives mail over SMTP (\<open>src/server\<close>) and a client that relays mail for other servers
  (\<open>src/client\<close>). The theories model the C code function by function, under the names of the code, and
  prove what makes the parts correct; where the code is wrong, they prove what it does instead.

  \<^bold>\<open>How the programs work together.\<close> The server runs an event loop: a manager thread polls the sockets
  and turns what is ready into events, and worker threads run the handlers of the events. A handler
  borrows the context of its connection from the list of users, cuts the received bytes into lines and
  passes each line to the SMTP engine, which follows a generated automaton. At the end of a mail the
  handler groups the recipients by server and writes one file for every local user and every other
  server into the mail store. The client looks into the directories of the other servers, connects
  to them, and sends each file as a sequence of requests, driven by the replies. Both programs have a
  logger with a queue and a thread.

  \<^bold>\<open>Conventions\<close> (theory \<open>Prelude\<close>). A pointer that may be null is \<open>'a ptr\<close>; a computation that may be
  undefined (a null pointer, an access outside an object, memory that was freed) has the type \<open>'a ub\<close>
  and is \<open>UB\<close> there, so that a result \<open>Some x\<close> in a theorem says that the code is defined. A struct is
  a \<open>record\<close>, an enumeration a \<open>datatype\<close>, a \<open>TAILQ\<close> the list of its entries, a character array the list
  of its cells and a C string its contents. Integers are unbounded where the code cannot leave its
  types, and words or explicit conversions (\<open>to_int16\<close>, \<open>to_int32\<close>) where a width shows. The answers of
  the operating system and of libraries (\<open>poll\<close>, \<open>recv\<close>, \<open>send\<close>, \<open>accept\<close>, \<open>readdir\<close>, \<open>malloc\<close>, the
  clock, random numbers, the resolver, \<open>qsort\<close>, \<open>strftime\<close>, \<open>getopt_long\<close>, libconfig) are arguments. Of
  these only \<open>qsort\<close> has a law that a theorem relies on, \<open>qsort_sorts\<close>: for a comparison that is a consistent
  order it sorts its array. One read outside an object is not \<open>UB\<close>: \<open>get_smtp_response\<close> reads the byte behind
  \<open>code[3]\<close>, which is the first of the argument \<open>stack\<close>; the theorems about replies say what they need of it.

  \<^bold>\<open>The server.\<close>
  \<^item> \<open>Errors\<close>: \<open>error_t.h\<close>, \<open>s_malloc\<close> and error reports; \<open>Util\<close>: the string and socket routines of \<open>util.c\<close>
    with every loop and bound; \<open>Vectors\<close>: the macros of \<open>vector.h\<close>, and the interface \<open>growable\<close>.
  \<^item> \<open>Interfaces\<close>: the contracts \<open>keyed_lookup\<close>, \<open>keyed_store\<close> and \<open>fifo\<close> with what their clients need of
    whole runs. \<open>Events\<close>: the four queues of \<open>event_loop/\<close>, which satisfy them; the registry refines a map.
  \<^item> \<open>EventLoop\<close>: \<open>event_loop.c\<close> - registration, the manager step, timers and \<open>el_run\<close>. Its lemmas give the
    invariant of the loop, delivery of what was read, the order of what is sent, and the races of closing.
  \<^item> \<open>Timers\<close>, \<open>Users\<close>, \<open>Table\<close>: \<open>timers.c\<close>, \<open>users_list.c\<close> (the interface \<open>lending\<close> and all interleavings of
    borrowers as \<open>pool_step\<close>, with descriptors that are closed and given out again), \<open>table.c\<close>.
  \<^item> \<open>Fsm\<close>, \<open>Regex\<close>, \<open>Smtp\<close>: the automaton of \<open>smtp-states.def\<close> and its generated code, the regular expressions
    of \<open>regex.h\<close> with the language they decide, and \<open>state.c\<close>. A transaction has an abstract result, and a
    session is defined exactly under a stated condition on its lines (\<open>exact_machine\<close>). \<open>Patterns\<close>: the strings of
    \<open>regex.h\<close> themselves and a parser for them; \<open>patterns_compile\<close> connects them with the expressions of \<open>Regex\<close>.
    \<open>FsmReport\<close>: the strings of the automaton and its error message, which no step writes.
  \<^item> \<open>FileSys\<close>, \<open>Maildir\<close>: the file system calls, as documented, and \<open>maildir/*.c\<close> on top of them.
  \<^item> \<open>Delivery\<close>: from a finished transaction to the files (\<open>handler_smtp\<close>, \<open>send_mail\<close> of \<open>server.c\<close>); an accepted
    mail is in the store once for every recipient, and the function \<open>post\<close> says how the store then looks.
  \<^item> \<open>Server\<close>: the handlers of \<open>server.c\<close> over the loop, the users, the timers and the store together. A handler
    is one step, but for that of the greeting, which another thread can overtake between its two steps.
  \<^item> \<open>Log\<close>: \<open>log/context.c\<close>, with the thread interleaved with writers. \<open>Startup\<close>: \<open>args.c\<close>, \<open>config.c\<close>,
    \<open>thread_pool.c\<close> and \<open>main.c\<close>. \<open>Protocol\<close>: the queues of \<open>protocol/\<close>, which the build leaves out and nothing calls.

  \<^bold>\<open>The client.\<close>
  \<^item> \<open>ClientUtil\<close>: \<open>util/util.c\<close> and the lines of \<open>util/network.c\<close>; \<open>ClientMaildir\<close>: \<open>maildir.c\<close>, the directories,
    the header lines and the messages; \<open>ClientSmtp\<close>: \<open>smtp.c\<close> with the socket options of \<open>network.c\<close>,
    connecting without waiting, requests and replies; \<open>ClientNet\<close>: the resolver of \<open>network.c\<close>, with the server
    that \<open>smtp_connect\<close> takes.
  \<^item> \<open>ClientContext\<close>: \<open>context.c\<close>, the deliveries of a thread, one handler for every state, the round over
    them and the search for servers; \<open>delivery_follows_script\<close> says what is sent for a mail and when.
  \<^item> \<open>ClientLoop\<close>: \<open>start_thread\<close> from the first turn to the release of the deliveries behind the loop.
  \<^item> \<open>ClientMain\<close>: \<open>logs.c\<close>, \<open>config/\<close> and \<open>main.c\<close>, with the turns of \<open>main\<close> and its log lines, the logger, the other threads and
    the signals in any order.

  \<^bold>\<open>Both.\<close> \<open>Relay\<close> joins the ends: what the server writes for another server is read back by the client as
  the same mail, and what the client then sends is a transaction that the next server accepts and stores.
  \<open>Conversation\<close> runs a thread of the client against the connection of a server, turn by turn, each reading
  what the other has sent: after a stated number of turns the mail is in the store of the next server,
  once for every recipient, it is gone from the first, and the thread has no delivery left (\<open>mail_is_relayed\<close>).

  \<^bold>\<open>Termination, fuel and lists of answers.\<close> A loop over a buffer, a file or a list is a function with a
  proof of termination. \<open>partial_function\<close> is used where a loop need not end, or ends for a reason of
  the state: there a theorem says that it returns (\<open>log_join\<close> after \<open>is_run\<close> was cleared needs at most three turns,
  \<open>tokens_loop\<close> moves on in the string). \<open>fuel\<close> bounds the pass over the timers, to which handlers may add,
  and the loop over the lines of a buffer: the theorems ask for as much fuel as there are timers, and for more
  than there are bytes left, and show that the end is then reached. The parser of the patterns has fuel for
  three calls for every character and three more, with which every pattern is parsed. A loop that waits for the system (the
  manager, a worker, a thread of the client) is a function of the list of the answers it gets, or a step
  relation, and the theorems hold for all of them.

  \<^bold>\<open>What is assumed.\<close> Locking a mutex that is free succeeds, and what a mutex protects is one step. Memory can
  be allocated, except where an allocation is an argument (the registration of events, vectors, the queues of
  the loop), and threads can be created. While a line is handled the clock does not move: one value of \<open>time(NULL)\<close>
  is in the headers of all its files. The thread of the manager has seen the stop when the loop is closed. A file
  system has no symbolic links and no permissions, and written data is in the file at once.

  \<^bold>\<open>Not modelled.\<close> The log lines of the handlers of the server and of the threads of the client, the texts of
  those of \<open>main\<close> of the client (arguments, by their line numbers), and \<open>output_maildir\<close>, which
  nothing calls and which only logs; setting up signal masks; releasing memory, except where a freed object is
  used again; functions whose body is commented out, beyond what is left of them; the tests; and
  \<open>make2graph.c\<close>, a third-party tool that is in the repository twice. What is left of the implementation
  files are declarations, comments and includes.
\<close>

end
